(* ===== verification/Prelude.thy ===== *)
theory Prelude
  imports Main "HOL-Library.Word"
begin

text \<open>
  Shared vocabulary of the development: machine integers at their width, the result type
  of operations that can stop the kernel, byte-addressed memory with little-endian 16- and
  32-bit accesses, and the trace of externally visible effects (console output and port
  writes). The kernels under P1 to P6 are compiled with \<open>-m32\<close>, so \<open>unsigned long\<close>,
  \<open>unsigned int\<close> and pointers are 32 bits wide.
\<close>

unbundle bit_operations_syntax

section \<open>Widths\<close>

type_synonym u8 = "8 word"
type_synonym u16 = "16 word"
type_synonym u32 = "32 word"

section \<open>Results\<close>

text \<open>
  A failed \<open>assert\<close> prints a message and calls \<open>abort()\<close>, which loops forever, so
  the caller never continues: such a call is an \<open>Inl\<close>. \<open>Out_Of_Bounds\<close> is an access
  outside a C array, whose behaviour C leaves undefined, \<open>Division_Error\<close> a division by 0,
  \<open>Emulator_Panic\<close> a \<open>BX_PANIC\<close> of the emulator, and \<open>Not_Resumed\<close> a thread that never gets the CPU back.
\<close>

datatype failure = Assertion_Failed | Aborted | Out_Of_Bounds | Unhandled_Page_Fault | Division_Error
  | Emulator_Panic | Not_Resumed

type_synonym 'a result = "failure + 'a"

definition andthen :: "'a result \<Rightarrow> ('a \<Rightarrow> 'b result) \<Rightarrow> 'b result" where
  "andthen r f = (case r of Inl e \<Rightarrow> Inl e | Inr x \<Rightarrow> f x)"

lemma andthen_simps [simp]:
  "andthen (Inr x) f = f x"
  "andthen (Inl e) f = Inl e"
  by (simp_all add: andthen_def)

lemma andthen_eq_Inr:
  "andthen r f = Inr y \<longleftrightarrow> (\<exists>x. r = Inr x \<and> f x = Inr y)"
  by (cases r) simp_all

section \<open>The trace of visible effects\<close>

datatype event =
    Puts string
  | Puti int
  | Putui u32
  | OutB u16 u8
  | OutW u16 u16

text \<open>Memory as the CPU sees it with paging off: a byte for each 32-bit address.\<close>

type_synonym memory = "u32 \<Rightarrow> u8"

record machine =
  mem :: memory
  trace :: "event list"

definition emit :: "event \<Rightarrow> 'a machine_scheme \<Rightarrow> 'a machine_scheme" where
  "emit e s = s\<lparr>trace := trace s @ [e]\<rparr>"

abbreviation puts :: "string \<Rightarrow> 'a machine_scheme \<Rightarrow> 'a machine_scheme" where
  "puts w \<equiv> emit (Puts w)"

abbreviation puti :: "int \<Rightarrow> 'a machine_scheme \<Rightarrow> 'a machine_scheme" where
  "puti n \<equiv> emit (Puti n)"

abbreviation putui :: "u32 \<Rightarrow> 'a machine_scheme \<Rightarrow> 'a machine_scheme" where
  "putui n \<equiv> emit (Putui n)"

lemma emit_fields [simp]:
  "mem (emit e s) = mem s"
  "trace (emit e s) = trace s @ [e]"
  "machine.more (emit e s) = machine.more s"
  by (simp_all add: emit_def)

section \<open>Words and naturals\<close>

named_theorems mem_simps \<open>what a memory access sees after a memory update\<close>

lemma unat_of_nat_u32 [simp]: "n < 2 ^ 32 \<Longrightarrow> unat (of_nat n :: u32) = n"
  by (simp add: unat_of_nat take_bit_nat_eq_self)

lemma unat_u32_less: "unat (a :: u32) < 4294967296"
  using unsigned_less[of a] by simp

lemma unat_add_of_nat:
  "unat (a :: u32) + n < 2 ^ 32 \<Longrightarrow> unat (a + of_nat n) = unat a + n"
  by (simp add: unat_word_ariths take_bit_nat_eq_self unat_of_nat)

lemma add_of_nat_inj:
  assumes "i < 2 ^ 32" and "j < 2 ^ 32"
  shows "(a :: u32) + of_nat i = a + of_nat j \<longleftrightarrow> i = j"
proof
  assume "a + of_nat i = a + of_nat j"
  then have "(of_nat i :: u32) = of_nat j" by simp
  then have "unat (of_nat i :: u32) = unat (of_nat j :: u32)" by simp
  with assms show "i = j" by simp
qed simp

lemma of_nat_u32_eq_iff:
  "i < 2 ^ 32 \<Longrightarrow> j < 2 ^ 32 \<Longrightarrow> (of_nat i :: u32) = of_nat j \<longleftrightarrow> i = j"
  using add_of_nat_inj[of i j 0] by simp

lemma unat_drop_bit: "unat (drop_bit k (a :: 'a :: len word)) = unat a div 2 ^ k"
proof -
  have "unat (drop_bit k a) = drop_bit k (unat a)"
    by (rule bit_eqI) (auto simp: bit_simps dest: bit_imp_le_length)
  then show ?thesis by (simp only: drop_bit_eq_div)
qed

lemma unat_and_mask: "unat ((a :: 'a :: len word) AND mask k) = unat a mod 2 ^ k"
proof -
  have "unat (a AND mask k) = take_bit k (unat a)"
    by (rule bit_eqI) (auto simp: bit_simps dest: bit_imp_le_length)
  then show ?thesis by (simp only: take_bit_eq_mod)
qed

text \<open>A byte is its eight bits: equations on \<open>u8\<close> reduce to the bits 0 to 7.\<close>

lemma u8_eqI: "(\<And>k. k < 8 \<Longrightarrow> bit (x :: u8) k = bit y k) \<Longrightarrow> x = y"
  by (rule bit_word_eqI) simp

lemma less_4_cases: "(b :: nat) < 4 \<Longrightarrow> b = 0 \<or> b = 1 \<or> b = 2 \<or> b = 3"
  by linarith

lemma mod_4_cases: "(i :: nat) mod 4 = 0 \<or> i mod 4 = 1 \<or> i mod 4 = 2 \<or> i mod 4 = 3"
  by linarith

section \<open>Little-endian accesses\<close>

definition read16 :: "memory \<Rightarrow> u32 \<Rightarrow> u16" where
  "read16 m a = ucast (m a) OR push_bit 8 (ucast (m (a + 1)))"

definition write16 :: "memory \<Rightarrow> u32 \<Rightarrow> u16 \<Rightarrow> memory" where
  "write16 m a v = m(a := ucast v, a + 1 := ucast (drop_bit 8 v))"

definition read32 :: "memory \<Rightarrow> u32 \<Rightarrow> u32" where
  "read32 m a = ucast (m a) OR push_bit 8 (ucast (m (a + 1)))
     OR push_bit 16 (ucast (m (a + 2))) OR push_bit 24 (ucast (m (a + 3)))"

definition write32 :: "memory \<Rightarrow> u32 \<Rightarrow> u32 \<Rightarrow> memory" where
  "write32 m a v = m(a := ucast v, a + 1 := ucast (drop_bit 8 v),
     a + 2 := ucast (drop_bit 16 v), a + 3 := ucast (drop_bit 24 v))"

end
