(* ===== verification/FrameBitmap.thy ===== *)
theory FrameBitmap
  imports Prelude
begin

text \<open>
  The two-bit frame bitmap of \<open>ContFramePool\<close> (P2, P3 and P4, cont_frame_pool.C): four
  frames to a byte, the first frame in the two most significant bits. The definitions are
  the mask expressions of the code, evaluated on byte-addressed memory at the pool's bitmap
  pointer; the lemmas say that marking one frame changes the status of that frame only.
\<close>

section \<open>The mask expressions\<close>

datatype frame_status = Free | Head | Used | Inaccessible

definition frame_byte :: "memory \<Rightarrow> u32 \<Rightarrow> nat \<Rightarrow> u8" where
  "frame_byte m b i = m (b + of_nat (i div 4))"

definition hi_set :: "memory \<Rightarrow> u32 \<Rightarrow> nat \<Rightarrow> bool" where
  "hi_set m b i \<longleftrightarrow> frame_byte m b i AND drop_bit (i mod 4 * 2) 0x80 \<noteq> 0"

definition lo_set :: "memory \<Rightarrow> u32 \<Rightarrow> nat \<Rightarrow> bool" where
  "lo_set m b i \<longleftrightarrow> frame_byte m b i AND drop_bit (i mod 4 * 2 + 1) 0x80 \<noteq> 0"

definition put_byte :: "memory \<Rightarrow> u32 \<Rightarrow> nat \<Rightarrow> u8 \<Rightarrow> memory" where
  "put_byte m b i x = m(b + of_nat (i div 4) := x)"

definition or_byte :: "u8 \<Rightarrow> u32 \<Rightarrow> nat \<Rightarrow> memory \<Rightarrow> memory" where
  "or_byte x b i m = put_byte m b i (frame_byte m b i OR x)"

definition and_not_byte :: "u8 \<Rightarrow> u32 \<Rightarrow> nat \<Rightarrow> memory \<Rightarrow> memory" where
  "and_not_byte x b i m = put_byte m b i (frame_byte m b i AND NOT x)"

definition mark_head :: "u32 \<Rightarrow> nat \<Rightarrow> memory \<Rightarrow> memory" where
  "mark_head b i m = and_not_byte (drop_bit (i mod 4 * 2 + 1) 0x80) b i
     (or_byte (drop_bit (i mod 4 * 2) 0x80) b i m)"

definition mark_used :: "u32 \<Rightarrow> nat \<Rightarrow> memory \<Rightarrow> memory" where
  "mark_used b i m = and_not_byte (drop_bit (i mod 4 * 2) 0xC0) b i m"

definition mark_free :: "u32 \<Rightarrow> nat \<Rightarrow> memory \<Rightarrow> memory" where
  "mark_free b i m = or_byte (drop_bit (i mod 4 * 2) 0xC0) b i m"

definition mark_inacc :: "u32 \<Rightarrow> nat \<Rightarrow> memory \<Rightarrow> memory" where
  "mark_inacc b i m = or_byte (drop_bit (i mod 4 * 2 + 1) 0x80) b i
     (and_not_byte (drop_bit (i mod 4 * 2) 0x80) b i m)"

definition status :: "memory \<Rightarrow> u32 \<Rightarrow> nat \<Rightarrow> frame_status" where
  "status m b i =
     (if hi_set m b i then (if lo_set m b i then Free else Head)
      else (if lo_set m b i then Inaccessible else Used))"


section \<open>Bits of the masks\<close>

lemma less_8_cases: "(k :: nat) < 8 \<Longrightarrow> k = 0 \<or> k = 1 \<or> k = 2 \<or> k = 3 \<or> k = 4 \<or> k = 5 \<or> k = 6 \<or> k = 7"
  by linarith

lemma u8_bit_less: "bit (x :: u8) k \<Longrightarrow> k < 8"
  using bit_imp_le_length[of x k] by simp

lemma bit_0x80: "bit (0x80 :: u8) k \<longleftrightarrow> k = 7"
proof
  assume b: "bit (0x80 :: u8) k"
  then have "k < 8" by (rule u8_bit_less)
  then show "k = 7" using b by (auto dest!: less_8_cases)
qed simp

lemma bit_0xC0: "bit (0xC0 :: u8) k \<longleftrightarrow> k = 7 \<or> k = 6"
proof
  assume b: "bit (0xC0 :: u8) k"
  then have "k < 8" by (rule u8_bit_less)
  then show "k = 7 \<or> k = 6" using b by (auto dest!: less_8_cases)
qed auto

lemma bit_drop_0x80: "n < 8 \<Longrightarrow> bit (drop_bit n (0x80 :: u8)) k \<longleftrightarrow> k = 7 - n"
  unfolding bit_drop_bit_eq comp_def bit_0x80 by linarith

lemma drop_0x80: "n < 8 \<Longrightarrow> drop_bit n (0x80 :: u8) = 2 ^ (7 - n)"
proof (rule bit_word_eqI)
  fix k assume "n < 8" "k < LENGTH(8)"
  then show "bit (drop_bit n (0x80 :: u8)) k = bit ((2 :: u8) ^ (7 - n)) k"
    unfolding bit_drop_0x80[OF \<open>n < 8\<close>] bit_exp_iff by auto
qed

lemma bit_drop_0xC0: "n < 7 \<Longrightarrow> bit (drop_bit n (0xC0 :: u8)) k \<longleftrightarrow> k = 7 - n \<or> k = 6 - n"
  unfolding bit_drop_bit_eq comp_def bit_0xC0 by linarith

lemma double_mod4: "i mod 4 * 2 < (7 :: nat)" "i mod 4 * 2 < (8 :: nat)" "i mod 4 * 2 + 1 < (8 :: nat)"
  by presburger+

lemma hi_set_bit: "hi_set m b i \<longleftrightarrow> bit (frame_byte m b i) (7 - i mod 4 * 2)"
  unfolding hi_set_def by (simp only: drop_0x80 double_mod4 and_exp_eq_0_iff_not_bit not_not)

lemma lo_set_bit: "lo_set m b i \<longleftrightarrow> bit (frame_byte m b i) (6 - i mod 4 * 2)"
proof -
  have "(7::nat) - (i mod 4 * 2 + 1) = 6 - i mod 4 * 2" by simp
  then show ?thesis unfolding lo_set_def 
  by (simp only: drop_0x80 double_mod4 and_exp_eq_0_iff_not_bit not_not)
qed
lemma frame_byte_put:
  assumes "i < 2 ^ 32" "j < 2 ^ 32"
  shows "frame_byte (put_byte m b i x) b j = (if i div 4 = j div 4 then x else frame_byte m b j)"
proof -
  have "i div 4 < 2 ^ 32" "j div 4 < 2 ^ 32" using assms by auto
  from add_of_nat_inj[OF this, of b] show ?thesis by (auto simp: frame_byte_def put_byte_def)
qed

lemmas bitmap_step_defs = or_byte_def and_not_byte_def mark_head_def mark_used_def mark_free_def mark_inacc_def

lemma slot_bits:
  assumes "a < 4" "c < 4"
  shows
    "bit ((x OR drop_bit (a * 2) 0x80) AND NOT (drop_bit (a * 2 + 1) 0x80)) (7 - c * 2) \<longleftrightarrow>
      a = c \<or> bit (x :: u8) (7 - c * 2)"
    "bit ((x OR drop_bit (a * 2) 0x80) AND NOT (drop_bit (a * 2 + 1) 0x80)) (6 - c * 2) \<longleftrightarrow>
      a \<noteq> c \<and> bit x (6 - c * 2)"
    "bit (x AND NOT (drop_bit (a * 2) 0xC0)) (7 - c * 2) \<longleftrightarrow> a \<noteq> c \<and> bit x (7 - c * 2)"
    "bit (x AND NOT (drop_bit (a * 2) 0xC0)) (6 - c * 2) \<longleftrightarrow> a \<noteq> c \<and> bit x (6 - c * 2)"
    "bit (x OR drop_bit (a * 2) 0xC0) (7 - c * 2) \<longleftrightarrow> a = c \<or> bit x (7 - c * 2)"
    "bit (x OR drop_bit (a * 2) 0xC0) (6 - c * 2) \<longleftrightarrow> a = c \<or> bit x (6 - c * 2)"
    "bit (x AND NOT (drop_bit (a * 2) 0x80) OR drop_bit (a * 2 + 1) 0x80) (7 - c * 2) \<longleftrightarrow>
      a \<noteq> c \<and> bit x (7 - c * 2)"
    "bit (x AND NOT (drop_bit (a * 2) 0x80) OR drop_bit (a * 2 + 1) 0x80) (6 - c * 2) \<longleftrightarrow>
      a = c \<or> bit x (6 - c * 2)"
  using less_4_cases[OF assms(1)] less_4_cases[OF assms(2)]
  by (elim disjE; simp add: bit_simps)+

lemma hi_lo_update:
  assumes "i < 2 ^ 32" "j < 2 ^ 32"
  shows "hi_set (mark_head b i m) b j \<longleftrightarrow> i = j \<or> hi_set m b j"
   "lo_set (mark_head b i m) b j \<longleftrightarrow> i \<noteq> j \<and> lo_set m b j"
   "hi_set (mark_used b i m) b j \<longleftrightarrow> i \<noteq> j \<and> hi_set m b j"
   "lo_set (mark_used b i m) b j \<longleftrightarrow> i \<noteq> j \<and> lo_set m b j"
   "hi_set (mark_free b i m) b j \<longleftrightarrow> i = j \<or> hi_set m b j"
   "lo_set (mark_free b i m) b j \<longleftrightarrow> i = j \<or> lo_set m b j"
   "hi_set (mark_inacc b i m) b j \<longleftrightarrow> i \<noteq> j \<and> hi_set m b j"
   "lo_set (mark_inacc b i m) b j \<longleftrightarrow> i = j \<or> lo_set m b j"
proof -
  have k: "i mod 4 < 4" "j mod 4 < 4" by simp_all
  have ij: "i = j \<longleftrightarrow> i div 4 = j div 4 \<and> i mod 4 = j mod 4" by (metis div_mult_mod_eq)
  have f: "i div 4 = j div 4 \<Longrightarrow> frame_byte m b i = frame_byte m b j" by (simp add: frame_byte_def)
  note r = hi_set_bit lo_set_bit bitmap_step_defs frame_byte_put[OF assms(1) assms(1)] frame_byte_put[OF assms]
    if_True if_False slot_bits[OF k] simp_thms
  show "hi_set (mark_head b i m) b j \<longleftrightarrow> i = j \<or> hi_set m b j"
   "lo_set (mark_head b i m) b j \<longleftrightarrow> i \<noteq> j \<and> lo_set m b j"
   "hi_set (mark_used b i m) b j \<longleftrightarrow> i \<noteq> j \<and> hi_set m b j"
   "lo_set (mark_used b i m) b j \<longleftrightarrow> i \<noteq> j \<and> lo_set m b j"
   "hi_set (mark_free b i m) b j \<longleftrightarrow> i = j \<or> hi_set m b j"
   "lo_set (mark_free b i m) b j \<longleftrightarrow> i = j \<or> lo_set m b j"
   "hi_set (mark_inacc b i m) b j \<longleftrightarrow> i \<noteq> j \<and> hi_set m b j"
   "lo_set (mark_inacc b i m) b j \<longleftrightarrow> i = j \<or> lo_set m b j"
    unfolding ij by (cases "i div 4 = j div 4"; simp only: r f)+
qed
lemma status_update:
  assumes "i < 2 ^ 32" "j < 2 ^ 32"
  shows "status (mark_head b i m) b j = (if i = j then Head else status m b j)"
   "status (mark_used b i m) b j = (if i = j then Used else status m b j)"
   "status (mark_free b i m) b j = (if i = j then Free else status m b j)"
   "status (mark_inacc b i m) b j = (if i = j then Inaccessible else status m b j)"
  unfolding status_def hi_lo_update[OF assms] by auto
end
