(* ===== verification/ContFramePool.thy ===== *)
theory ContFramePool
  imports FrameBitmap Complex_Main
begin

text \<open>
  The contiguous frame pool, \<open>ContFramePool\<close>: the version of P2 (cont_frame_pool.C there)
  and the version of P3, which P4 uses unchanged. A pool object is known by its index in
  the static array \<open>pools\<close>, where its constructor registers it. Loop counters are \<open>nat\<close>:
  they stay below \<open>nframes\<close>, a 32-bit value.
\<close>

section \<open>State\<close>

record cont_frame_pool =
  bitmap :: u32
  nFreeFrames :: u32
  base_frame_no :: u32
  nframes :: u32
  info_frame_no :: u32
  n_info_frames :: u32

record frame_machine = machine +
  pools :: "cont_frame_pool list"

definition FRAME_SIZE :: u32 where
  "FRAME_SIZE = 4096"

definition max_pools :: nat where
  "max_pools = 8"

definition upd_mem :: "(memory \<Rightarrow> memory) \<Rightarrow> 'a machine_scheme \<Rightarrow> 'a machine_scheme" where
  "upd_mem f s = s\<lparr>mem := f (mem s)\<rparr>"

definition upd_pool ::
  "nat \<Rightarrow> (cont_frame_pool \<Rightarrow> cont_frame_pool) \<Rightarrow> 'a frame_machine_scheme \<Rightarrow> 'a frame_machine_scheme" where
  "upd_pool k f s = s\<lparr>pools := (pools s)[k := f (pools s ! k)]\<rparr>"

section \<open>Construction\<close>

definition needed_info_frames :: "u32 \<Rightarrow> u32" where
  "needed_info_frames n = (n - 1) div (FRAME_SIZE * 4) + 1"

text \<open>P2 divides by the double \<open>4096 * 4.0\<close>; the quotient of a 32-bit value by a power of
  two and its sum with 1 are exact, so the conversion back to \<open>unsigned long\<close> is the floor.\<close>

definition P2_needed_info_frames :: "u32 \<Rightarrow> u32" where
  "P2_needed_info_frames n =
     word_of_int \<lfloor>(of_nat (unat (n - 1)) :: rat) / (of_nat (unat FRAME_SIZE) * 4) + 1\<rfloor>"

function fill_free :: "u32 \<Rightarrow> nat \<Rightarrow> nat \<Rightarrow> memory \<Rightarrow> memory" where
  "fill_free b n i m =
     (if i * 4 < n then fill_free b n (Suc i) (m(b + of_nat i := 0xFF)) else m)"
  by pat_completeness auto
termination by (relation "measure (\<lambda>(b, n, i, m). n - i)") auto

declare fill_free.simps [simp del]

function info_loop :: "u32 \<Rightarrow> u32 \<Rightarrow> nat \<Rightarrow> nat \<Rightarrow> 'a machine_scheme \<Rightarrow> 'a machine_scheme" where
  "info_loop b base n i s =
     (if i < n then
        info_loop b base n (Suc i)
          (puts '' IS AN INFO FRAME''
            (putui (base + of_nat i)
              (puts (CHR 0x0A # ''FRAME '') (upd_mem (mark_inacc b i) s))))
      else s)"
  by pat_completeness auto
termination by (relation "measure (\<lambda>(b, base, n, i, s). n - i)") auto

declare info_loop.simps [simp del]

definition round_up_4 :: "u32 \<Rightarrow> u32" where
  "round_up_4 n = (if n mod 4 \<noteq> 0 then n + (4 - n mod 4) else n)"

definition rounding_warning :: string where
  "rounding_warning =
     ''WARNING: Number of allocated frames was not divisible by 4, rounded up'' @ [CHR 0x0A]"

definition pool_ready_message :: string where
  "pool_ready_message = ''Frame pool initialized'' @ [CHR 0x0A]"

definition construct_ContFramePool ::
  "u32 \<Rightarrow> u32 \<Rightarrow> u32 \<Rightarrow> u32 \<Rightarrow> 'a frame_machine_scheme \<Rightarrow> (nat \<times> 'a frame_machine_scheme) result" where
  "construct_ContFramePool base n info n_info s =
    (if length (pools s) \<ge> max_pools then Inl Out_Of_Bounds
     else
       let s1 = (if n mod 4 \<noteq> 0 then puts rounding_warning s else s);
           nfr = round_up_4 n;
           own = (info = 0);
           ni = (if own then needed_info_frames nfr else n_info);
           nfree = (if own then n - ni else n);
           b = (if own then base * FRAME_SIZE else info * FRAME_SIZE);
           p = \<lparr>bitmap = b, nFreeFrames = nfree, base_frame_no = base, nframes = nfr,
                info_frame_no = info, n_info_frames = ni\<rparr>;
           s2 = s1\<lparr>pools := pools s1 @ [p]\<rparr>
       in
         if \<not> own \<and> \<not> (info + ni < base \<or> info \<ge> base + nfr) then Inl Assertion_Failed
         else
           let s3 = upd_mem (fill_free b (unat nfr) 0) s2 in
             if own then
               Inr (length (pools s), puts pool_ready_message (info_loop b base (unat ni) 0 s3))
             else if ni * FRAME_SIZE * 4 \<ge> nfr then
               Inr (length (pools s), puts pool_ready_message s3)
             else Inl Assertion_Failed)"

text \<open>
  P2: the inner loop's condition is \<open>j < 4*i + j < n_info_frames && j < 4\<close>, which C reads as
  a comparison of the truth value of \<open>j < 4*i + j\<close> with \<open>n_info_frames\<close>, and its body
  always clears bits of \<open>bitmap[0]\<close>.
\<close>

function P2_info_inner :: "u32 \<Rightarrow> u32 \<Rightarrow> nat \<Rightarrow> nat \<Rightarrow> memory \<Rightarrow> memory" where
  "P2_info_inner b ni i j m =
     (if of_bool (j < 4 * i + j) < ni \<and> j < 4
      then P2_info_inner b ni i (Suc j) (m(b := m b AND NOT (push_bit (7 - 2 * j - 1) 3)))
      else m)"
  by pat_completeness auto
termination by (relation "measure (\<lambda>(b, ni, i, j, m). 4 - j)") auto

function P2_info_outer :: "u32 \<Rightarrow> u32 \<Rightarrow> nat \<Rightarrow> memory \<Rightarrow> memory" where
  "P2_info_outer b ni i m =
     (if i * 4 < unat ni then P2_info_outer b ni (Suc i) (P2_info_inner b ni i 1 m) else m)"
  by pat_completeness auto
termination by (relation "measure (\<lambda>(b, ni, i, m). unat ni - i)") auto

declare P2_info_inner.simps [simp del] P2_info_outer.simps [simp del]

definition P2_construct_ContFramePool ::
  "u32 \<Rightarrow> u32 \<Rightarrow> u32 \<Rightarrow> u32 \<Rightarrow> 'a frame_machine_scheme \<Rightarrow> (nat \<times> 'a frame_machine_scheme) result" where
  "P2_construct_ContFramePool base n info n_info s =
    (if length (pools s) \<ge> max_pools then Inl Out_Of_Bounds
     else
       let b = (if info = 0 then base * FRAME_SIZE else info * FRAME_SIZE);
           s1 = (if n mod 4 \<noteq> 0 then puts rounding_warning s else s);
           nfr = round_up_4 n;
           p = \<lparr>bitmap = b, nFreeFrames = n, base_frame_no = base, nframes = nfr,
                info_frame_no = info, n_info_frames = n_info\<rparr>;
           s2 = upd_mem (fill_free b (unat nfr) 0) (s1\<lparr>pools := pools s1 @ [p]\<rparr>)
       in
         if info = 0 then
           Inr (length (pools s), puts pool_ready_message
             (upd_mem (\<lambda>m. P2_info_outer b n_info 0 (m(b := 0xBF))) s2))
         else if n_info * FRAME_SIZE * 4 \<ge> nfr then
           Inr (length (pools s), puts pool_ready_message s2)
         else Inl Assertion_Failed)"

section \<open>Allocation\<close>

function scan_frames :: "memory \<Rightarrow> u32 \<Rightarrow> nat \<Rightarrow> nat \<Rightarrow> nat \<Rightarrow> nat \<Rightarrow> (nat \<times> nat) option" where
  "scan_frames m b nfr n i count =
     (if i < nfr then
        if frame_byte m b i = 0 then scan_frames m b nfr n (i + 3 + 1) 0
        else if hi_set m b i \<and> lo_set m b i then
          (if count + 1 = n then Some (i, count + 1)
           else scan_frames m b nfr n (i + 1) (count + 1))
        else scan_frames m b nfr n (i + 1) count
      else None)"
  by pat_completeness auto
termination by (relation "measure (\<lambda>(m, b, nfr, n, i, count). nfr - i)") auto

declare scan_frames.simps [simp del]

function used_loop :: "u32 \<Rightarrow> nat \<Rightarrow> nat \<Rightarrow> memory \<Rightarrow> memory" where
  "used_loop b hi i m = (if i < hi then used_loop b hi (Suc i) (mark_used b i m) else m)"
  by pat_completeness auto
termination by (relation "measure (\<lambda>(b, hi, i, m). hi - i)") auto

declare used_loop.simps [simp del]

definition take_frames :: "nat \<Rightarrow> u32 \<Rightarrow> nat \<Rightarrow> nat \<Rightarrow> 'a frame_machine_scheme \<Rightarrow> u32 \<times> 'a frame_machine_scheme" where
  "take_frames k n i count s =
     (let p = pools s ! k;
          frame_no = base_frame_no p + of_nat i - of_nat count + 1;
          s1 = upd_pool k (\<lambda>p. p\<lparr>nFreeFrames := nFreeFrames p - n\<rparr>) s;
          start = unat (frame_no - base_frame_no p)
      in (frame_no,
          upd_mem (\<lambda>m. used_loop (bitmap p) (start + unat n) (start + 1) (mark_head (bitmap p) start m)) s1))"

definition get_frames :: "nat \<Rightarrow> u32 \<Rightarrow> 'a frame_machine_scheme \<Rightarrow> (u32 \<times> 'a frame_machine_scheme) result" where
  "get_frames k n s =
     (if k \<ge> length (pools s) then Inl Out_Of_Bounds
      else let p = pools s ! k in
        if nFreeFrames p = 0 then Inl Assertion_Failed
        else case scan_frames (mem s) (bitmap p) (unat (nframes p)) (unat n) 0 0 of
               None \<Rightarrow> Inl Assertion_Failed
             | Some (i, count) \<Rightarrow> Inr (take_frames k n i count s))"

text \<open>P2 returns 0 where P3 stops the kernel.\<close>

definition P2_get_frames :: "nat \<Rightarrow> u32 \<Rightarrow> 'a frame_machine_scheme \<Rightarrow> (u32 \<times> 'a frame_machine_scheme) result" where
  "P2_get_frames k n s =
     (if k \<ge> length (pools s) then Inl Out_Of_Bounds
      else let p = pools s ! k in
        if nFreeFrames p = 0 then Inl Assertion_Failed
        else case scan_frames (mem s) (bitmap p) (unat (nframes p)) (unat n) 0 0 of
               None \<Rightarrow> Inr (0, s)
             | Some (i, count) \<Rightarrow> Inr (take_frames k n i count s))"

section \<open>Marking frames inaccessible\<close>

definition in_pool_range :: "cont_frame_pool \<Rightarrow> u32 \<Rightarrow> u32 \<Rightarrow> bool" where
  "in_pool_range p base n \<longleftrightarrow>
     base \<ge> base_frame_no p \<and> base + n \<le> base_frame_no p + nframes p"

text \<open>
  The assertion of P3 is \<open>bitmap[i/4] & (0x80 >> i%4 * 2 +1) > 0\<close>, in which \<open>>\<close> binds
  tighter than \<open>&\<close>: the byte is masked with the truth value 1.
\<close>

definition inacc_check :: "memory \<Rightarrow> u32 \<Rightarrow> nat \<Rightarrow> bool" where
  "inacc_check m b i \<longleftrightarrow>
     frame_byte m b i AND of_bool (drop_bit (i mod 4 * 2 + 1) (0x80 :: u8) > 0) \<noteq> 0"

function inacc_loop :: "nat \<Rightarrow> nat \<Rightarrow> nat \<Rightarrow> 'a frame_machine_scheme \<Rightarrow> 'a frame_machine_scheme result" where
  "inacc_loop k hi i s =
     (if i < hi then
        let b = bitmap (pools s ! k);
            s1 = (if i mod 4 = 0 \<and> \<not> inacc_check (mem s) b i
                  then putui (ucast (frame_byte (mem s) b i)) s else s)
        in if \<not> inacc_check (mem s1) b i then Inl Assertion_Failed
           else inacc_loop k hi (Suc i)
                  (upd_pool k (\<lambda>p. p\<lparr>nFreeFrames := nFreeFrames p - 1\<rparr>) (upd_mem (mark_inacc b i) s1))
      else Inr s)"
  by pat_completeness auto
termination by (relation "measure (\<lambda>(k, hi, i, s). hi - i)") auto

declare inacc_loop.simps [simp del]

definition mark_inaccessible :: "nat \<Rightarrow> u32 \<Rightarrow> u32 \<Rightarrow> 'a frame_machine_scheme \<Rightarrow> 'a frame_machine_scheme result" where
  "mark_inaccessible k base n s =
     (if k \<ge> length (pools s) then Inl Out_Of_Bounds
      else let p = pools s ! k in
        if \<not> in_pool_range p base n then Inl Assertion_Failed
        else inacc_loop k (unat (base - base_frame_no p + n)) (unat (base - base_frame_no p)) s)"

function P2_inacc_loop :: "nat \<Rightarrow> nat \<Rightarrow> nat \<Rightarrow> 'a frame_machine_scheme \<Rightarrow> 'a frame_machine_scheme result" where
  "P2_inacc_loop k hi i s =
     (if i < hi then
        let b = bitmap (pools s ! k) in
          if \<not> lo_set (mem s) b i then Inl Assertion_Failed
          else P2_inacc_loop k hi (Suc i)
                 (upd_pool k (\<lambda>p. p\<lparr>nFreeFrames := nFreeFrames p - 1\<rparr>) (upd_mem (mark_used b i) s))
      else Inr s)"
  by pat_completeness auto
termination by (relation "measure (\<lambda>(k, hi, i, s). hi - i)") auto

declare P2_inacc_loop.simps [simp del]

text \<open>The loop of P2 runs to \<open>nframes\<close>, the size of the pool, not to \<open>_n_frames\<close>.\<close>

definition P2_mark_inaccessible :: "nat \<Rightarrow> u32 \<Rightarrow> u32 \<Rightarrow> 'a frame_machine_scheme \<Rightarrow> 'a frame_machine_scheme result" where
  "P2_mark_inaccessible k base n s =
     (if k \<ge> length (pools s) then Inl Out_Of_Bounds
      else let p = pools s ! k; i = unat (base - base_frame_no p) in
        if \<not> in_pool_range p base n then Inl Assertion_Failed
        else if \<not> lo_set (mem s) (bitmap p) i then Inl Assertion_Failed
        else P2_inacc_loop k (unat (base - base_frame_no p + nframes p)) (Suc i)
               (upd_pool k (\<lambda>p. p\<lparr>nFreeFrames := nFreeFrames p - 1\<rparr>)
                 (upd_mem (mark_inacc (bitmap p) i) s)))"

section \<open>Release\<close>

function release_loop :: "nat \<Rightarrow> nat \<Rightarrow> nat \<Rightarrow> 'a frame_machine_scheme \<Rightarrow> 'a frame_machine_scheme" where
  "release_loop k hi i s =
     (if i < hi then
        let b = bitmap (pools s ! k) in
          if hi_set (mem s) b i \<or> lo_set (mem s) b i then s
          else release_loop k hi (Suc i)
                 (upd_pool k (\<lambda>p. p\<lparr>nFreeFrames := nFreeFrames p + 1\<rparr>) (upd_mem (mark_free b i) s))
      else s)"
  by pat_completeness auto
termination by (relation "measure (\<lambda>(k, hi, i, s). hi - i)") auto

declare release_loop.simps [simp del]

definition release_frame :: "nat \<Rightarrow> u32 \<Rightarrow> 'a frame_machine_scheme \<Rightarrow> 'a frame_machine_scheme result" where
  "release_frame k f s =
     (let p = pools s ! k; i = unat (f - base_frame_no p); b = bitmap p in
        if \<not> (f \<ge> base_frame_no p \<and> f < base_frame_no p + nframes p) then Inl Assertion_Failed
        else if \<not> (hi_set (mem s) b i \<and> \<not> lo_set (mem s) b i) then Inl Assertion_Failed
        else Inr (release_loop k (unat (nframes p)) (Suc i)
               (upd_pool k (\<lambda>p. p\<lparr>nFreeFrames := nFreeFrames p + 1\<rparr>) (upd_mem (mark_free b i) s))))"

fun find_pool :: "cont_frame_pool list \<Rightarrow> u32 \<Rightarrow> nat option" where
  "find_pool [] f = None"
| "find_pool (p # ps) f =
     (if f \<ge> base_frame_no p \<and> f < base_frame_no p + nframes p then Some 0
      else map_option Suc (find_pool ps f))"

definition release_frames :: "u32 \<Rightarrow> 'a frame_machine_scheme \<Rightarrow> 'a frame_machine_scheme result" where
  "release_frames f s =
     (case find_pool (pools s) f of None \<Rightarrow> Inr s | Some k \<Rightarrow> release_frame k f s)"

end
