(* ===== verification/Allocator.thy ===== *)
theory Allocator
  imports Prelude
begin

text \<open>
  The contract between a source of page frames and its clients: the page table, the memory
  pool and the kernel's start-up code take frames one at a time and rely on each frame
  being handed out once. The contract is interpreted on the frame pools of P2, P3/P4 and
  P5/P6 in their own theories.
\<close>

text \<open>Taking \<open>n\<close> frames, one request after the other; the first failure stops the client.\<close>

fun alloc_n :: "('s \<Rightarrow> ('f \<times> 's) result) \<Rightarrow> nat \<Rightarrow> 's \<Rightarrow> ('f list \<times> 's) result" where
  "alloc_n alloc 0 s = Inr ([], s)"
| "alloc_n alloc (Suc n) s =
     andthen (alloc s) (\<lambda>(f, t). andthen (alloc_n alloc n t) (\<lambda>(fs, u). Inr (f # fs, u)))"

locale frame_source =
  fixes alloc :: "'s \<Rightarrow> ('f \<times> 's) result"
    and avail :: "'s \<Rightarrow> 'f set"
    and invar :: "'s \<Rightarrow> bool"
  assumes alloc_avail: "invar s \<Longrightarrow> avail s \<noteq> {} \<Longrightarrow>
      \<exists>f t. alloc s = Inr (f, t) \<and> f \<in> avail s \<and> avail t = avail s - {f} \<and> invar t"
begin

lemma alloc_n_distinct:
  assumes "invar s" "finite (avail s)" "n \<le> card (avail s)"
  shows "\<exists>fs t. alloc_n alloc n s = Inr (fs, t) \<and> length fs = n \<and> distinct fs
    \<and> set fs \<subseteq> avail s \<and> avail t = avail s - set fs \<and> invar t"
  using assms
proof (induction n arbitrary: s)
  case 0
  then show ?case by simp
next
  case (Suc n)
  then have "avail s \<noteq> {}" by auto
  then obtain f t where ft: "alloc s = Inr (f, t)" "f \<in> avail s" "avail t = avail s - {f}" "invar t"
    using alloc_avail Suc.prems(1) by blast
  have "n \<le> card (avail t)" "finite (avail t)" using ft Suc.prems by auto
  from Suc.IH[OF ft(4) this(2,1)] obtain fs u where
    "alloc_n alloc n t = Inr (fs, u)" "length fs = n" "distinct fs" "set fs \<subseteq> avail t"
    "avail u = avail t - set fs" "invar u" by blast
  with ft show ?case by (intro exI[of _ "f # fs"] exI[of _ u]) auto
qed

end

locale releasing_source = frame_source +
  fixes release :: "'f \<Rightarrow> 's \<Rightarrow> 's result"
  assumes release_undoes: "invar s \<Longrightarrow> avail s \<noteq> {} \<Longrightarrow> alloc s = Inr (f, t) \<Longrightarrow>
      \<exists>u. release f t = Inr u \<and> avail u = avail s \<and> invar u"
begin

text \<open>A frame taken and given back can be taken again: the pair may be repeated forever.\<close>

fun take_and_give :: "nat \<Rightarrow> 's \<Rightarrow> 's result" where
  "take_and_give 0 s = Inr s"
| "take_and_give (Suc n) s =
     andthen (alloc s) (\<lambda>(f, t). andthen (release f t) (take_and_give n))"

lemma take_and_give_forever:
  "invar s \<Longrightarrow> avail s \<noteq> {} \<Longrightarrow> \<exists>t. take_and_give n s = Inr t \<and> avail t = avail s \<and> invar t"
proof (induction n arbitrary: s)
  case (Suc n)
  obtain f t where ft: "alloc s = Inr (f, t)" using alloc_avail[OF Suc.prems] by blast
  obtain u where u: "release f t = Inr u" "avail u = avail s" "invar u"
    using release_undoes[OF Suc.prems ft] by blast
  with Suc.IH[of u] Suc.prems ft show ?case by auto
qed simp

end

end
