(* ===== verification/FramePoolCorrect.thy ===== *)
theory FramePoolCorrect
  imports ContFramePool Allocator
begin

text \<open>
  Correctness of the contiguous frame pool: the status of every frame after each operation,
  the invariant that the free count is the number of free frames, the runs that are
  contiguous and the requests for which they are not, and the interpretation of the
  allocator contract.
\<close>

section \<open>Views of a pool\<close>

definition pool_status :: "'a frame_machine_scheme \<Rightarrow> nat \<Rightarrow> nat \<Rightarrow> frame_status" where
  "pool_status s k i = status (mem s) (bitmap (pools s ! k)) i"

definition pool_size :: "'a frame_machine_scheme \<Rightarrow> nat \<Rightarrow> nat" where
  "pool_size s k = unat (nframes (pools s ! k))"

definition free_idx :: "'a frame_machine_scheme \<Rightarrow> nat \<Rightarrow> nat set" where
  "free_idx s k = {i. i < pool_size s k \<and> pool_status s k i = Free}"

definition pool_inv :: "nat \<Rightarrow> 'a frame_machine_scheme \<Rightarrow> bool" where
  "pool_inv k s \<longleftrightarrow> k < length (pools s) \<and> unat (nFreeFrames (pools s ! k)) = card (free_idx s k)"

lemma finite_free_idx [simp]: "finite (free_idx s k)"
  by (simp add: free_idx_def)

lemma pool_size_less: "pool_size s k < 2 ^ 32"
  by (simp add: pool_size_def unat_u32_less)

lemma status_Free_iff: "status m b i = Free \<longleftrightarrow> hi_set m b i \<and> lo_set m b i"
  by (simp add: status_def)

lemma status_zero_byte:
  assumes "frame_byte m b i = 0" "i div 4 = j div 4"
  shows "status m b j = Used"
proof -
  have "frame_byte m b j = 0" using assms by (simp add: frame_byte_def)
  then show ?thesis by (simp add: status_def hi_set_def lo_set_def)
qed

text \<open>The scan only skips a group of four when it stands on its first frame.\<close>

definition at_group :: "memory \<Rightarrow> u32 \<Rightarrow> nat \<Rightarrow> bool" where
  "at_group m b i \<longleftrightarrow> i mod 4 = 0 \<or> frame_byte m b i \<noteq> 0"


lemma at_group_Suc: "frame_byte m b i \<noteq> 0 \<Longrightarrow> at_group m b (i + 1)"
proof -
  assume *: "frame_byte m b i \<noteq> 0"
  show ?thesis
  proof (cases "(i + 1) mod 4 = 0")
    case False
    then have "(i + 1) div 4 = i div 4" by (simp add: div_Suc mod_Suc split: if_splits)
    with * show ?thesis by (simp add: at_group_def frame_byte_def)
  qed (simp add: at_group_def)
qed

lemma at_group_skip:
  assumes "at_group m b i" "frame_byte m b i = 0"
  shows "i mod 4 = 0" "at_group m b (i + 4)"
  using assms by (simp_all add: at_group_def)

lemma group_members:
  assumes "i mod 4 = 0" "j \<in> {i ..< i + 4}"
  shows "(i :: nat) div 4 = j div 4"
proof -
  obtain q where i: "i = 4 * q" using assms(1) by auto
  then obtain r where "j = 4 * q + r" "r < 4" using assms(2) by (auto simp: le_iff_add)
  with i show ?thesis by simp
qed

lemma find_skip: "(\<And>x. x \<in> set xs \<Longrightarrow> \<not> P x) \<Longrightarrow> find P (xs @ ys) = find P ys"
  by (induction xs) auto

lemma upt_split: "i \<le> l \<Longrightarrow> l \<le> j \<Longrightarrow> [i..<j] = [i..<l] @ [l..<j]"
  by (metis le_iff_add upt_add_eq_append)

lemma scan_one:
  "at_group m b i \<Longrightarrow> scan_frames m b nfr 1 i 0 = map_option (\<lambda>j. (j, 1)) (find (\<lambda>j. status m b j = Free) [i..<nfr])"
proof (induction "nfr - i" arbitrary: i rule: less_induct)
  case less
  note ag = less.prems and unf = scan_frames.simps[of m b nfr 1 i 0]
  show ?case
  proof (cases "i < nfr")
    case False
    then show ?thesis using unf by simp
  next
    case True
    show ?thesis
    proof (cases "frame_byte m b i = 0")
      case zero: True
      note skip = at_group_skip[OF ag zero]
      have nf: "status m b l \<noteq> Free" if "l \<in> set [i..<min nfr (i + 4)]" for l
        using status_zero_byte[OF zero group_members[OF skip(1)]] that by simp
      have "[i..<nfr] = [i..<min nfr (i + 4)] @ [i + 4..<nfr]"
        using True by (cases "i + 4 \<le> nfr") (auto simp: min_def upt_split[of i "i + 4" nfr])
      then have "find (\<lambda>j. status m b j = Free) [i..<nfr] = find (\<lambda>j. status m b j = Free) [i + 4..<nfr]"
        by (simp only: find_skip[of "[i..<min nfr (i + 4)]" "\<lambda>j. status m b j = Free", OF nf])
      moreover have "scan_frames m b nfr 1 i 0 = scan_frames m b nfr 1 (i + 4) 0"
        using True zero unf by (simp add: add.commute)
      ultimately show ?thesis using less.hyps[OF _ skip(2)] True by simp
    next
      case nz: False
      have "[i..<nfr] = i # [i + 1..<nfr]" using True by (simp add: upt_conv_Cons)
      moreover note less.hyps[OF _ at_group_Suc[OF nz]]
      ultimately show ?thesis using True nz unf by (simp add: status_Free_iff)
    qed
  qed
qed


lemma status_used_loop:
  assumes "hi \<le> 2 ^ 32" "j < 2 ^ 32"
  shows "status (used_loop b hi i m) b j = (if i \<le> j \<and> j < hi then Used else status m b j)"
  using assms(1)
proof (induction b hi i m rule: used_loop.induct)
  case (1 b hi i m)
  show ?case
  proof (cases "i < hi")
    case True
    then have "status (mark_used b i m) b j = (if i = j then Used else status m b j)"
      using "1.prems" assms(2) by (simp add: status_update)
    then show ?thesis
      using "1.IH"[OF True "1.prems"] True by (auto simp: used_loop.simps[of b hi i])
  qed (auto simp: used_loop.simps[of b hi i])
qed

lemma take_frames_eq:
  assumes "i + 1 = st + unat n" "0 < unat n" "i < 2 ^ 32"
  shows "take_frames k n i (unat n) s =
    (base_frame_no (pools s ! k) + of_nat st,
     upd_mem (\<lambda>m. used_loop (bitmap (pools s ! k)) (st + unat n) (st + 1) (mark_head (bitmap (pools s ! k)) st m))
       (upd_pool k (\<lambda>p. p\<lparr>nFreeFrames := nFreeFrames p - n\<rparr>) s))"
proof -
  have "(of_nat (i + 1) :: u32) = of_nat (st + unat n)" using assms(1) by simp
  then have e: "(of_nat i :: u32) = of_nat st + n - 1" by (simp add: algebra_simps)
  have st: "st < 2 ^ 32" using assms by simp
  then have "unat (of_nat st :: u32) = st" by (rule unat_of_nat_u32)
  then show ?thesis by (simp add: take_frames_def Let_def e)
qed

lemma upd_mem_fields [simp]:
  "mem (upd_mem f s) = f (mem s)"
  "trace (upd_mem f s) = trace s"
  by (simp_all add: upd_mem_def)

lemma upd_fields [simp]:
  "pools (upd_mem f s) = pools s"
  "mem (upd_pool k g s) = mem s"
  "pools (upd_pool k g s) = (pools s)[k := g (pools s ! k)]"
  "trace (upd_pool k g s) = trace s"
  "pools (emit e s) = pools s"
  by (simp_all add: upd_mem_def upd_pool_def emit_def)

lemma take_frames_result:
  assumes "take_frames k n i (unat n) s = (f, t)"
    and "i + 1 = st + unat n" "0 < unat n" "i < pool_size s k" "k < length (pools s)"
  shows "f = base_frame_no (pools s ! k) + of_nat st"
    and "pools t = (pools s)[k := (pools s ! k)\<lparr>nFreeFrames := nFreeFrames (pools s ! k) - n\<rparr>]"
    and "j < 2 ^ 32 \<Longrightarrow> pool_status t k j =
      (if j = st then Head else if st < j \<and> j < st + unat n then Used else pool_status s k j)"
proof -
  have i: "i < 2 ^ 32" using assms(4) pool_size_less[of s k] by simp
  note eq = assms(1)[unfolded take_frames_eq[OF assms(2,3) i]]
  show "f = base_frame_no (pools s ! k) + of_nat st" using eq by simp
  show p: "pools t = (pools s)[k := (pools s ! k)\<lparr>nFreeFrames := nFreeFrames (pools s ! k) - n\<rparr>]"
    using eq by auto
  show "pool_status t k j = (if j = st then Head else if st < j \<and> j < st + unat n then Used else pool_status s k j)"
    if j: "j < 2 ^ 32"
  proof -
    have st: "st < 2 ^ 32" "st + unat n \<le> 2 ^ 32" using i assms(2,3) by simp_all
    have "mem t = used_loop (bitmap (pools s ! k)) (st + unat n) (st + 1) (mark_head (bitmap (pools s ! k)) st (mem s))"
      using eq by auto
    moreover have "bitmap (pools t ! k) = bitmap (pools s ! k)" using p assms(5) by simp
    ultimately show ?thesis
      using status_used_loop[OF st(2) j] status_update(1)[OF st(1) j] st(1) by (auto simp: pool_status_def)
  qed
qed

text \<open>The free frame with the least number, if there is one.\<close>

definition first_free :: "'a frame_machine_scheme \<Rightarrow> nat \<Rightarrow> nat option" where
  "first_free s k = find (\<lambda>j. pool_status s k j = Free) [0..<pool_size s k]"

lemma find_upt_SomeD:
  "find P [0..<n] = Some i \<Longrightarrow> i < n \<and> P i \<and> (\<forall>j<i. \<not> P j)"
  by (auto simp: find_Some_iff)

lemma get_frames_one_eq:
  assumes "k < length (pools s)" "nFreeFrames (pools s ! k) \<noteq> 0"
  shows "get_frames k 1 s = (case first_free s k of None \<Rightarrow> Inl Assertion_Failed | Some i \<Rightarrow> Inr (take_frames k 1 i 1 s))"
proof -
  have "scan_frames (mem s) (bitmap (pools s ! k)) (pool_size s k) 1 0 0 = map_option (\<lambda>j. (j, 1)) (first_free s k)"
    unfolding first_free_def pool_status_def by (rule scan_one) (simp add: at_group_def)
  with assms show ?thesis
    by (cases "first_free s k") (simp_all add: get_frames_def Let_def pool_size_def)
qed

lemma free_idx_member: "i \<in> free_idx s k \<longleftrightarrow> i < pool_size s k \<and> pool_status s k i = Free"
  by (simp add: free_idx_def)

lemma first_free_None: "first_free s k = None \<longleftrightarrow> free_idx s k = {}"
  by (auto simp: first_free_def find_None_iff free_idx_def)

lemma first_free_Some: "first_free s k = Some i \<Longrightarrow> i \<in> free_idx s k \<and> (\<forall>j \<in> free_idx s k. i \<le> j)"
  using find_upt_SomeD[of "\<lambda>j. pool_status s k j = Free" "pool_size s k" i]
  by (fastforce simp: first_free_def free_idx_def not_le[symmetric])

lemma get_frames_one:
  assumes inv: "pool_inv k s" and ne: "free_idx s k \<noteq> {}"
  obtains i t where "get_frames k 1 s = Inr (base_frame_no (pools s ! k) + of_nat i, t)"
    and "i \<in> free_idx s k" "\<forall>j \<in> free_idx s k. i \<le> j"
    and "pools t = (pools s)[k := (pools s ! k)\<lparr>nFreeFrames := nFreeFrames (pools s ! k) - 1\<rparr>]"
    and "\<And>j. j < 2 ^ 32 \<Longrightarrow> pool_status t k j = (if j = i then Head else pool_status s k j)"
    and "free_idx t k = free_idx s k - {i}" "pool_inv k t"
proof -
  have k: "k < length (pools s)" using inv by (simp add: pool_inv_def)
  have card: "unat (nFreeFrames (pools s ! k)) = card (free_idx s k)" using inv by (simp add: pool_inv_def)
  have "card (free_idx s k) \<noteq> 0" using ne by simp
  then have nz: "nFreeFrames (pools s ! k) \<noteq> 0" using card by auto
  obtain i where i: "first_free s k = Some i" using ne first_free_None by fastforce
  obtain f t where ft: "take_frames k 1 i 1 s = (f, t)" by fastforce
  have ifree: "i \<in> free_idx s k" "\<forall>j \<in> free_idx s k. i \<le> j" using first_free_Some[OF i] by auto
  then have ilt: "i < pool_size s k" by (simp add: free_idx_def)
  note r = take_frames_result[of k 1 i s f t i, simplified, OF ft[unfolded One_nat_def] ilt k]
  have st: "pool_status t k j = (if j = i then Head else pool_status s k j)" if "j < 2 ^ 32" for j
    using r(3)[of j] that by auto
  have size: "pool_size t k = pool_size s k" using r(2) k by (simp add: pool_size_def)
  have fi: "free_idx t k = free_idx s k - {i}"
    using st size pool_size_less[of s k] by (auto simp: free_idx_def split: if_splits)
  have "unat (nFreeFrames (pools s ! k) - 1) = card (free_idx s k) - 1"
    using nz card by (simp add: unat_minus_one)
  then have "pool_inv k t" using r(2) k fi ifree(1) by (simp add: pool_inv_def)
  with that[of i t] get_frames_one_eq[OF k nz] i ft r ifree st fi show ?thesis by simp
qed


section \<open>Runs of frames\<close>

text \<open>A pool is unfragmented from \<open>z\<close> when its free frames are exactly those from \<open>z\<close> on.\<close>

definition unfragmented :: "nat \<Rightarrow> nat \<Rightarrow> 'a frame_machine_scheme \<Rightarrow> bool" where
  "unfragmented k z s \<longleftrightarrow> (\<forall>j < pool_size s k. pool_status s k j = Free \<longleftrightarrow> z \<le> j)"

lemma scan_run:
  assumes "\<forall>j < nfr. status m b j = Free \<longleftrightarrow> z \<le> j" "nfr mod 4 = 0" "z + n \<le> nfr" "0 < n"
  shows "at_group m b i \<Longrightarrow> i < z + n \<Longrightarrow> scan_frames m b nfr n i (i - z) = Some (z + n - 1, n)"
proof (induction "nfr - i" arbitrary: i rule: less_induct)
  case less
  note ag = less.prems(1) and unf = scan_frames.simps[of m b nfr n i "i - z"]
  have i: "i < nfr" using less.prems(2) assms(3) by simp
  show ?case
  proof (cases "frame_byte m b i = 0")
    case True
    note skip = at_group_skip[OF ag True]
    have i4: "i + 4 \<le> nfr" using i skip(1) assms(2) by presburger
    have "\<not> z \<le> i + 3"
      using status_zero_byte[OF True group_members[OF skip(1), of "i + 3"]] assms(1)[rule_format, of "i + 3"] i4 by simp
    then have z: "i + 4 \<le> z" by simp
    have "scan_frames m b nfr n (i + 4) (i + 4 - z) = Some (z + n - 1, n)"
      using less.hyps[OF _ skip(2)] z i assms(4) by simp
    moreover have "i + 4 - z = 0" using z by simp
    ultimately show ?thesis using unf i True by (simp add: add.commute)
  next
    case nz: False
    note IH = less.hyps[OF _ at_group_Suc[OF nz]]
    show ?thesis
    proof (cases "z \<le> i")
      case True
      then have f: "hi_set m b i \<and> lo_set m b i" using assms(1) i status_Free_iff by blast
      show ?thesis
      proof (cases "i + 1 = z + n")
        case True
        then have "i - z + 1 = n" "i = z + n - 1" using assms(4) \<open>z \<le> i\<close> by auto
        then show ?thesis using unf i nz f by simp
      next
        case False
        then have "scan_frames m b nfr n (i + 1) (i + 1 - z) = Some (z + n - 1, n)"
          using IH less.prems(2) i by simp
        moreover have "i + 1 - z = i - z + 1" "i - z + 1 \<noteq> n" using \<open>z \<le> i\<close> False by auto
        ultimately show ?thesis using unf i nz f by simp
      qed
    next
      case False
      then have "\<not> (hi_set m b i \<and> lo_set m b i)" using assms(1) i status_Free_iff by blast
      moreover have "scan_frames m b nfr n (i + 1) (i + 1 - z) = Some (z + n - 1, n)"
        using IH False i assms(4) by simp
      moreover have "i + 1 - z = i - z" using False by simp
      ultimately show ?thesis using unf i nz by (metis (full_types))
    qed
  qed
qed

lemma card_atLeastLessThan_free: "unfragmented k z s \<Longrightarrow> free_idx s k = {z ..< pool_size s k}"
  by (auto simp: unfragmented_def free_idx_def)

text \<open>The take of such a run, whatever the free count says.\<close>

lemma take_run:
  assumes k: "k < length (pools s)" and u: "unfragmented k z s" and sz: "pool_size s k mod 4 = 0"
    and n: "0 < unat n" "z + unat n \<le> pool_size s k"
  obtains t where "scan_frames (mem s) (bitmap (pools s ! k)) (pool_size s k) (unat n) 0 0 = Some (z + unat n - 1, unat n)"
    and "take_frames k n (z + unat n - 1) (unat n) s = (base_frame_no (pools s ! k) + of_nat z, t)"
    and "\<And>j. j < 2 ^ 32 \<Longrightarrow> pool_status t k j =
      (if j = z then Head else if z < j \<and> j < z + unat n then Used else pool_status s k j)"
    and "pools t = (pools s)[k := (pools s ! k)\<lparr>nFreeFrames := nFreeFrames (pools s ! k) - n\<rparr>]"
    and "unfragmented k (z + unat n) t"
proof -
  have "scan_frames (mem s) (bitmap (pools s ! k)) (pool_size s k) (unat n) 0 (0 - z) = Some (z + unat n - 1, unat n)"
    using u sz n by (intro scan_run) (auto simp: unfragmented_def pool_status_def at_group_def)
  then have g: "scan_frames (mem s) (bitmap (pools s ! k)) (pool_size s k) (unat n) 0 0 = Some (z + unat n - 1, unat n)" by simp
  obtain f t where ft: "take_frames k n (z + unat n - 1) (unat n) s = (f, t)" by fastforce
  have a: "z + unat n - 1 + 1 = z + unat n" "z + unat n - 1 < pool_size s k" using n by auto
  note r = take_frames_result[OF ft a(1) n(1) a(2) k]
  have size: "pool_size t k = pool_size s k" using r(2) k by (simp add: pool_size_def)
  have st: "pool_status t k j = Free \<longleftrightarrow> z + unat n \<le> j" if "j < pool_size s k" for j
  proof -
    have "j < 2 ^ 32" using that pool_size_less[of s k] by simp
    from r(3)[OF this] show ?thesis using u that n(1) by (auto simp: unfragmented_def)
  qed
  then have "unfragmented k (z + unat n) t" using size by (simp add: unfragmented_def)
  with that[of t] g ft r show ?thesis by simp
qed

lemma get_frames_run:
  assumes inv: "pool_inv k s" and u: "unfragmented k z s" and sz: "pool_size s k mod 4 = 0"
    and n: "0 < unat n" "z + unat n \<le> pool_size s k"
  obtains t where "get_frames k n s = Inr (base_frame_no (pools s ! k) + of_nat z, t)"
    and "\<And>j. j < 2 ^ 32 \<Longrightarrow> pool_status t k j =
      (if j = z then Head else if z < j \<and> j < z + unat n then Used else pool_status s k j)"
    and "pools t = (pools s)[k := (pools s ! k)\<lparr>nFreeFrames := nFreeFrames (pools s ! k) - n\<rparr>]"
    and "unfragmented k (z + unat n) t" "pool_inv k t"
proof -
  have k: "k < length (pools s)" using inv by (simp add: pool_inv_def)
  have card: "unat (nFreeFrames (pools s ! k)) = pool_size s k - z"
    using inv card_atLeastLessThan_free[OF u] by (simp add: pool_inv_def)
  then have nz: "nFreeFrames (pools s ! k) \<noteq> 0" using n by auto
  obtain t where r: "scan_frames (mem s) (bitmap (pools s ! k)) (pool_size s k) (unat n) 0 0 = Some (z + unat n - 1, unat n)"
    "take_frames k n (z + unat n - 1) (unat n) s = (base_frame_no (pools s ! k) + of_nat z, t)"
    "\<And>j. j < 2 ^ 32 \<Longrightarrow> pool_status t k j =
      (if j = z then Head else if z < j \<and> j < z + unat n then Used else pool_status s k j)"
    "pools t = (pools s)[k := (pools s ! k)\<lparr>nFreeFrames := nFreeFrames (pools s ! k) - n\<rparr>]"
    "unfragmented k (z + unat n) t"
    by (rule take_run[OF k u sz n], rule that)
  have "n \<le> nFreeFrames (pools s ! k)" using card n by (simp add: word_le_nat_alt)
  then have "unat (nFreeFrames (pools s ! k) - n) = pool_size s k - z - unat n"
    using card by (simp add: unat_sub)
  moreover have "pool_size t k = pool_size s k" using r(4) k by (simp add: pool_size_def)
  ultimately have "pool_inv k t"
    using card_atLeastLessThan_free[OF r(5)] r(4) k by (simp add: pool_inv_def)
  with that[of t] k nz r show ?thesis by (simp add: get_frames_def Let_def pool_size_def)
qed

section \<open>Releasing what was allocated\<close>

definition used_run :: "'a frame_machine_scheme \<Rightarrow> nat \<Rightarrow> nat \<Rightarrow> nat \<Rightarrow> nat" where
  "used_run s k hi i = length (takeWhile (\<lambda>j. pool_status s k j = Used) [i..<hi])"

lemma used_run_step:
  "i < hi \<Longrightarrow> used_run s k hi i = (if pool_status s k i = Used then Suc (used_run s k hi (Suc i)) else 0)"
  by (simp add: used_run_def upt_conv_Cons)

lemma used_run_ge [simp]: "hi \<le> i \<Longrightarrow> used_run s k hi i = 0"
  by (simp add: used_run_def)

lemma used_run_cong:
  "(\<And>j. i \<le> j \<Longrightarrow> j < hi \<Longrightarrow> pool_status s k j = pool_status t k j) \<Longrightarrow> used_run s k hi i = used_run t k hi i"
  unfolding used_run_def by (rule arg_cong[where f = length], rule takeWhile_cong) auto

lemma status_Used_iff: "status m b i = Used \<longleftrightarrow> \<not> hi_set m b i \<and> \<not> lo_set m b i"
  by (simp add: status_def)

lemma release_loop_result:
  assumes "k < length (pools s)" "hi \<le> 2 ^ 32"
  shows "pools (release_loop k hi i s) =
      (pools s)[k := (pools s ! k)\<lparr>nFreeFrames := nFreeFrames (pools s ! k) + of_nat (used_run s k hi i)\<rparr>]
    \<and> (\<forall>j < 2 ^ 32. pool_status (release_loop k hi i s) k j =
         (if i \<le> j \<and> j < i + used_run s k hi i then Free else pool_status s k j))"
  using assms
proof (induction k hi i s rule: release_loop.induct)
  case (1 k hi i s)
  note unf = release_loop.simps[of k hi i s] and k = "1.prems"(1)
  let ?b = "bitmap (pools s ! k)"
  let ?s = "upd_pool k (\<lambda>p. p\<lparr>nFreeFrames := nFreeFrames p + 1\<rparr>) (upd_mem (mark_free ?b i) s)"
  show ?case
  proof (cases "i < hi \<and> pool_status s k i = Used")
    case False
    then have "release_loop k hi i s = s" using unf by (auto simp: pool_status_def status_Used_iff Let_def)
    moreover have "used_run s k hi i = 0" using False by (cases "i < hi") (auto simp: used_run_step)
    ultimately show ?thesis using k by auto
  next
    case True
    then have cont: "\<not> (hi_set (mem s) ?b i \<or> lo_set (mem s) ?b i)"
      by (auto simp: pool_status_def status_Used_iff)
    have step: "release_loop k hi i s = release_loop k hi (Suc i) ?s"
      using unf True cont by (simp add: Let_def)
    have i: "i < 2 ^ 32" using True "1.prems"(2) by simp
    have st: "pool_status ?s k j = (if j = i then Free else pool_status s k j)" if "j < 2 ^ 32" for j
      using status_update(3)[OF i that] k by (auto simp: pool_status_def)
    have run: "used_run ?s k hi (Suc i) = used_run s k hi (Suc i)"
      using st "1.prems"(2) by (intro used_run_cong) auto
    have run': "used_run s k hi i = Suc (used_run s k hi (Suc i))" using True by (simp add: used_run_step)
    have "k < length (pools ?s)" using k by simp
    note IH = "1.IH"[OF _ refl cont this "1.prems"(2)]
    show ?thesis using IH True st run run' k unfolding step
      by (auto simp: algebra_simps)
  qed
qed


definition follows_head :: "nat \<Rightarrow> 'a frame_machine_scheme \<Rightarrow> bool" where
  "follows_head k s \<longleftrightarrow>
     (\<forall>j < pool_size s k. pool_status s k j = Used \<longrightarrow>
        0 < j \<and> pool_status s k (j - 1) \<in> {Head, Used})"

lemma release_frame_result:
  assumes k: "k < length (pools s)" and i: "i < pool_size s k" and h: "pool_status s k i = Head"
    and nowrap: "unat (base_frame_no (pools s ! k)) + pool_size s k \<le> 2 ^ 32"
      "base_frame_no (pools s ! k) + nframes (pools s ! k) \<noteq> 0"
  obtains t where "release_frame k (base_frame_no (pools s ! k) + of_nat i) s = Inr t"
    and "\<And>j. j < 2 ^ 32 \<Longrightarrow> pool_status t k j =
      (if i \<le> j \<and> j \<le> i + used_run s k (pool_size s k) (Suc i) then Free else pool_status s k j)"
    and "pools t = (pools s)[k := (pools s ! k)\<lparr>nFreeFrames :=
       nFreeFrames (pools s ! k) + 1 + of_nat (used_run s k (pool_size s k) (Suc i))\<rparr>]"
proof -
  let ?p = "pools s ! k" and ?base = "base_frame_no (pools s ! k)"
  let ?s = "upd_pool k (\<lambda>p. p\<lparr>nFreeFrames := nFreeFrames p + 1\<rparr>) (upd_mem (mark_free (bitmap ?p) i) s)"
  have i32: "i < 2 ^ 32" "pool_size s k \<le> 2 ^ 32" using i pool_size_less[of s k] by simp_all
  have sum: "unat (?base + of_nat i) = unat ?base + i"
    using i nowrap(1) by (intro unat_add_of_nat) simp
  have top: "unat (?base + nframes ?p) = unat ?base + pool_size s k"
  proof -
    have "unat ?base + pool_size s k \<noteq> 2 ^ 32"
    proof
      assume "unat ?base + pool_size s k = 2 ^ 32"
      then have "(of_nat (unat ?base + unat (nframes ?p)) :: u32) = of_nat (2 ^ 32)" by (simp add: pool_size_def)
      with nowrap(2) show False by simp
    qed
    then have "unat ?base + pool_size s k < 2 ^ 32" using nowrap(1) by simp
    from unat_add_of_nat[OF this] show ?thesis by (simp add: pool_size_def)
  qed
  have rng: "?base + of_nat i \<ge> ?base \<and> ?base + of_nat i < ?base + nframes ?p"
    using sum top i by (simp add: word_le_nat_alt word_less_nat_alt)
  have head: "hi_set (mem s) (bitmap ?p) i \<and> \<not> lo_set (mem s) (bitmap ?p) i"
    using h by (auto simp: pool_status_def status_def split: if_splits)
  have st: "pool_status ?s k j = (if j = i then Free else pool_status s k j)" if "j < 2 ^ 32" for j
    using status_update(3)[OF i32(1) that] k by (auto simp: pool_status_def)
  have run: "used_run ?s k (pool_size s k) (Suc i) = used_run s k (pool_size s k) (Suc i)"
    using st i32(2) by (intro used_run_cong) auto
  have k': "k < length (pools ?s)" using k by simp
  note r = release_loop_result[OF k' i32(2), of "Suc i"]
  have eq: "release_frame k (?base + of_nat i) s = Inr (release_loop k (pool_size s k) (Suc i) ?s)"
    using rng head i32(1) by (simp add: release_frame_def Let_def pool_size_def)
  show ?thesis
  proof (rule that[OF eq])
    show "pool_status (release_loop k (pool_size s k) (Suc i) ?s) k j =
       (if i \<le> j \<and> j \<le> i + used_run s k (pool_size s k) (Suc i) then Free else pool_status s k j)"
      if "j < 2 ^ 32" for j
      using conjunct2[OF r] st[OF that] that run by auto
  qed (use conjunct1[OF r] run k in \<open>simp add: algebra_simps\<close>)
qed

lemma used_run_le: "i \<le> hi \<Longrightarrow> i + used_run s k hi i \<le> hi"
  using length_takeWhile_le[of "\<lambda>j. pool_status s k j = Used" "[i..<hi]"] by (simp add: used_run_def)

lemma used_run_all:
  assumes "\<And>j. i \<le> j \<Longrightarrow> j < e \<Longrightarrow> pool_status s k j = Used" "i \<le> e" "e \<le> hi"
    and "e < hi \<Longrightarrow> pool_status s k e \<noteq> Used"
  shows "used_run s k hi i = e - i"
  using assms
proof (induction "e - i" arbitrary: i)
  case 0
  then show ?case by (cases "i < hi") (auto simp: used_run_step)
next
  case (Suc d)
  then have "i < e" by simp
  then have "used_run s k hi (Suc i) = e - Suc i" using Suc by auto
  moreover have "pool_status s k i = Used" "i < hi" using Suc.prems \<open>i < e\<close> by auto
  ultimately show ?case using \<open>i < e\<close> by (simp add: used_run_step)
qed

text \<open>Releasing a run just allocated restores every status and the count; \<open>m\<close> bounds the frames whose status is looked at.\<close>

lemma release_undoes_take:
  assumes kt: "k < length (pools t)" and n: "0 < unat n" "st + unat n \<le> pool_size s k"
    and pools: "pools t = (pools s)[k := (pools s ! k)\<lparr>nFreeFrames := nFreeFrames (pools s ! k) - n\<rparr>]"
    and m: "pool_size s k \<le> m" "m \<le> 2 ^ 32"
    and status: "\<And>j. j < m \<Longrightarrow> pool_status t k j =
      (if j = st then Head else if st < j \<and> j < st + unat n then Used else pool_status s k j)"
    and free: "\<And>j. st \<le> j \<Longrightarrow> j < st + unat n \<Longrightarrow> pool_status s k j = Free"
    and next_not_used: "st + unat n < pool_size s k \<Longrightarrow> pool_status s k (st + unat n) \<noteq> Used"
    and nowrap: "unat (base_frame_no (pools s ! k)) + pool_size s k \<le> 2 ^ 32"
      "base_frame_no (pools s ! k) + nframes (pools s ! k) \<noteq> 0"
  obtains u where "release_frame k (base_frame_no (pools s ! k) + of_nat st) t = Inr u"
    and "\<And>j. j < m \<Longrightarrow> pool_status u k j = pool_status s k j" and "pools u = pools s"
proof -
  have k: "k < length (pools s)" using kt pools by simp
  have size: "pool_size t k = pool_size s k" using pools k by (simp add: pool_size_def)
  have ps: "pool_size s k < 2 ^ 32" by (rule pool_size_less)
  have st: "st < pool_size t k" "st < 2 ^ 32" using n size ps by auto
  have h: "pool_status t k st = Head" using status st(1) size m(1) by simp
  have run: "used_run t k (pool_size t k) (Suc st) = st + unat n - Suc st"
    using n ps status size next_not_used m(1) by (intro used_run_all) auto
  have base: "base_frame_no (pools t ! k) = base_frame_no (pools s ! k)"
    "nframes (pools t ! k) = nframes (pools s ! k)"
    using pools k by simp_all
  obtain u where u: "release_frame k (base_frame_no (pools s ! k) + of_nat st) t = Inr u"
    "\<And>j. j < 2 ^ 32 \<Longrightarrow> pool_status u k j =
       (if st \<le> j \<and> j \<le> st + used_run t k (pool_size t k) (Suc st) then Free else pool_status t k j)"
    "pools u = (pools t)[k := (pools t ! k)\<lparr>nFreeFrames :=
       nFreeFrames (pools t ! k) + 1 + of_nat (used_run t k (pool_size t k) (Suc st))\<rparr>]"
    using release_frame_result[OF kt st(1) h] nowrap size base by metis
  have "(1 :: u32) + of_nat (st + unat n - Suc st) = of_nat (Suc (unat n - 1))" by simp
  then have one: "(1 :: u32) + of_nat (st + unat n - Suc st) = n" using n(1) by simp
  show ?thesis
  proof (rule that[OF u(1)])
    show "pool_status u k j = pool_status s k j" if "j < m" for j
    proof -
      have "j < 2 ^ 32" using that m(2) by simp
      from u(2)[OF this] show ?thesis using status[OF that] run n(1) free[of j] by auto
    qed
    show "pools u = pools s"
      using u(3) run pools k one by (simp add: add.assoc)
  qed
qed


section \<open>Which bytes an operation writes\<close>

definition bitmap_addrs :: "u32 \<Rightarrow> nat \<Rightarrow> u32 set" where
  "bitmap_addrs b n = (\<lambda>c. b + of_nat c) ` {c. c * 4 < n}"

lemma mark_other_byte:
  assumes "a \<noteq> b + of_nat (i div 4)"
  shows "mark_head b i m a = m a" "mark_used b i m a = m a" "mark_free b i m a = m a" "mark_inacc b i m a = m a"
  using assms by (simp_all add: bitmap_step_defs put_byte_def)

lemma bitmap_addr_of: "i < n \<Longrightarrow> b + of_nat (i div 4) \<in> bitmap_addrs b n"
  unfolding bitmap_addrs_def by (rule imageI) simp

lemma mark_outside:
  assumes "a \<notin> bitmap_addrs b n" "i < n"
  shows "mark_head b i m a = m a" "mark_used b i m a = m a" "mark_free b i m a = m a" "mark_inacc b i m a = m a"
  using mark_other_byte[of a b i m] bitmap_addr_of[OF assms(2), of b] assms(1) by auto

lemma used_loop_outside:
  "a \<notin> bitmap_addrs b n \<Longrightarrow> hi \<le> n \<Longrightarrow> used_loop b hi i m a = m a"
proof (induction b hi i m rule: used_loop.induct)
  case (1 b hi i m)
  then show ?case by (cases "i < hi") (simp_all add: used_loop.simps[of b hi i] mark_outside)
qed

lemma take_frames_outside:
  assumes "take_frames k n i (unat n) s = (f, t)" "i + 1 = st + unat n" "0 < unat n" "i < pool_size s k"
    and "a \<notin> bitmap_addrs (bitmap (pools s ! k)) (pool_size s k)"
  shows "mem t a = mem s a"
proof -
  have "i < 2 ^ 32" using assms(4) pool_size_less[of s k] by simp
  note eq = assms(1)[unfolded take_frames_eq[OF assms(2,3) this]]
  have "st < pool_size s k" "st + unat n \<le> pool_size s k" using assms(2-4) by linarith+
  moreover have "t = upd_mem (\<lambda>m. used_loop (bitmap (pools s ! k)) (st + unat n) (st + 1) (mark_head (bitmap (pools s ! k)) st m))
       (upd_pool k (\<lambda>p. p\<lparr>nFreeFrames := nFreeFrames p - n\<rparr>) s)" using eq by simp
  ultimately show ?thesis using assms(5) by (simp add: used_loop_outside mark_outside)
qed

lemma release_loop_outside:
  "a \<notin> bitmap_addrs (bitmap (pools s ! k)) hi \<Longrightarrow> k < length (pools s) \<Longrightarrow> mem (release_loop k hi i s) a = mem s a"
proof (induction k hi i s rule: release_loop.induct)
  case (1 k hi i s)
  let ?b = "bitmap (pools s ! k)"
  let ?s = "upd_pool k (\<lambda>p. p\<lparr>nFreeFrames := nFreeFrames p + 1\<rparr>) (upd_mem (mark_free ?b i) s)"
  show ?case
  proof (cases "i < hi \<and> \<not> (hi_set (mem s) ?b i \<or> lo_set (mem s) ?b i)")
    case True
    then have e: "release_loop k hi i s = release_loop k hi (Suc i) ?s" by (simp add: release_loop.simps[of k hi i] Let_def)
    have "mem (release_loop k hi (Suc i) ?s) a = mem ?s a"
      using "1.IH"[OF conjunct1[OF True] refl conjunct2[OF True]] "1.prems" by simp
    then show ?thesis using True "1.prems" by (simp add: e mark_outside)
  next
    case False
    then have "release_loop k hi i s = s" by (subst release_loop.simps) (auto simp: Let_def)
    then show ?thesis by simp
  qed
qed

lemma release_frame_outside:
  assumes "release_frame k f s = Inr t" "a \<notin> bitmap_addrs (bitmap (pools s ! k)) (pool_size s k)" "k < length (pools s)"
    "f = base_frame_no (pools s ! k) + of_nat i" "i < pool_size s k"
  shows "mem t a = mem s a"
proof -
  let ?p = "pools s ! k"
  have i: "unat (f - base_frame_no ?p) = i" using assms(4,5) pool_size_less[of s k] by (simp add: unat_of_nat_u32)
  let ?s = "upd_pool k (\<lambda>p. p\<lparr>nFreeFrames := nFreeFrames p + 1\<rparr>) (upd_mem (mark_free (bitmap ?p) i) s)"
  have "t = release_loop k (pool_size s k) (Suc i) ?s"
    using assms(1) by (simp add: release_frame_def Let_def i pool_size_def split: if_splits)
  then show ?thesis using release_loop_outside[of a ?s k "pool_size s k" "Suc i"] assms(2,3,5) by (simp add: mark_outside)
qed

lemma info_loop_mem_outside:
  "a \<notin> bitmap_addrs b n \<Longrightarrow> ni \<le> n \<Longrightarrow> mem (info_loop b base ni i s) a = mem s a"
proof (induction b base ni i s rule: info_loop.induct)
  case (1 b base ni i s)
  then show ?case
    by (cases "i < ni") (simp_all add: info_loop.simps[of b base ni i] mark_outside)
qed

lemma fill_free_apply:
  "fill_free b n i m a = (if \<exists>c. i \<le> c \<and> c * 4 < n \<and> a = b + of_nat c then 0xFF else m a)"
proof (induction b n i m rule: fill_free.induct)
  case (1 b n i m)
  show ?case
  proof (cases "i * 4 < n")
    case True
    have "(\<exists>c. i \<le> c \<and> c * 4 < n \<and> a = b + of_nat c) \<longleftrightarrow>
      a = b + of_nat i \<or> (\<exists>c. Suc i \<le> c \<and> c * 4 < n \<and> a = b + of_nat c)"
      using True by (metis Suc_leD Suc_leI le_eq_less_or_eq)
    moreover have "fill_free b n i m = fill_free b n (Suc i) (m(b + of_nat i := 0xFF))"
      using True by (simp add: fill_free.simps[of b n i])
    moreover have "fill_free b n (Suc i) (m(b + of_nat i := 0xFF)) a =
        (if \<exists>c. Suc i \<le> c \<and> c * 4 < n \<and> a = b + of_nat c then 0xFF else (m(b + of_nat i := 0xFF)) a)"
      using "1.IH"[OF True] by (simp add: fun_upd_def)
    ultimately show ?thesis by (simp only: fun_upd_apply split: if_split) blast
  next
    case False
    then have "\<not> (i \<le> c \<and> c * 4 < n)" for c by auto
    with False show ?thesis by (auto simp: fill_free.simps[of b n i])
  qed
qed

lemma fill_free_outside: "a \<notin> bitmap_addrs b n \<Longrightarrow> fill_free b n 0 m a = m a"
  by (auto simp: fill_free_apply bitmap_addrs_def)

lemma status_fill_free: "j < n \<Longrightarrow> status (fill_free b n 0 m) b j = Free"
proof -
  assume "j < n"
  then have "\<exists>c. 0 \<le> c \<and> c * 4 < n \<and> b + of_nat (j div 4) = b + of_nat c"
    by (intro exI[of _ "j div 4"]) auto
  then have f: "frame_byte (fill_free b n 0 m) b j = 0xFF" by (simp add: frame_byte_def fill_free_apply)
  from mod_4_cases[of j] show ?thesis
    unfolding status_def hi_set_def lo_set_def f
    by (elim disjE) simp_all
qed

lemma status_info_loop:
  assumes "n \<le> 2 ^ 32" "j < 2 ^ 32"
  shows "status (mem (info_loop b base n i s)) b j = (if i \<le> j \<and> j < n then Inaccessible else status (mem s) b j)"
  using assms(1)
proof (induction b base n i s rule: info_loop.induct)
  case (1 b base n i s)
  show ?case
  proof (cases "i < n")
    case True
    then have "status (mark_inacc b i (mem s)) b j = (if i = j then Inaccessible else status (mem s) b j)"
      using "1.prems" assms(2) by (simp add: status_update)
    then show ?thesis
      using "1.IH"[OF True "1.prems"] True by (auto simp: info_loop.simps[of b base n i])
  qed (auto simp: info_loop.simps[of b base n i])
qed

lemma info_loop_pools [simp]: "pools (info_loop b base n i s) = pools s"
proof (induction b base n i s rule: info_loop.induct)
  case (1 b base n i s)
  then show ?case by (cases "i < n") (simp_all add: info_loop.simps[of b base n i])
qed

section \<open>The number of information frames\<close>

lemma unat_needed_info_frames:
  "unat (needed_info_frames n) = (if n = 0 then 262144 else (unat n - 1) div 16384 + 1)"
proof (cases "n = 0")
  case True
  then show ?thesis by (simp add: needed_info_frames_def FRAME_SIZE_def)
next
  case False
  have "(unat n - 1) div 16384 + 1 < 2 ^ 32" using unat_u32_less[of n] by simp
  then show ?thesis using False
    by (simp add: needed_info_frames_def FRAME_SIZE_def unat_minus_one unat_div unat_word_ariths take_bit_nat_eq_self)
qed

lemma P2_needed_info_frames_eq_lemma: "P2_needed_info_frames n = needed_info_frames n"
proof -
  let ?k = "unat (n - 1)"
  have "\<lfloor>(of_nat ?k :: rat) / (of_nat (unat FRAME_SIZE) * 4) + 1\<rfloor> = \<lfloor>(of_nat ?k :: rat) / of_nat 16384\<rfloor> + 1"
    by (simp add: FRAME_SIZE_def)
  also have "\<lfloor>(of_nat ?k :: rat) / of_nat 16384\<rfloor> = int ?k div 16384"
    using floor_divide_of_nat_eq[of ?k 16384, where 'a = rat] by (simp add: zdiv_int)
  finally have e: "P2_needed_info_frames n = word_of_int (int ?k div 16384 + 1)"
    by (simp add: P2_needed_info_frames_def)
  have "(word_of_int (int ?k div 16384) :: u32) = of_nat (?k div 16384)"
    using of_int_of_nat_eq[of "?k div 16384", where 'a = "32 word"] by (simp only: zdiv_int of_nat_numeral)
  also have "\<dots> = (n - 1) div 16384"
    by (simp add: word_arith_nat_div)
  finally have "(word_of_int (int ?k div 16384) :: u32) = (n - 1) div 16384" .
  then show ?thesis using e by (simp add: needed_info_frames_def FRAME_SIZE_def)
qed

section \<open>A constructed pool\<close>

lemma construct_own:
  assumes "length (pools s) < max_pools" "n mod 4 = 0" "n \<noteq> 0"
  obtains t where "construct_ContFramePool base n 0 n_info s = Inr (length (pools s), t)"
    and "pools t = pools s @ [\<lparr>bitmap = base * FRAME_SIZE, nFreeFrames = n - needed_info_frames n,
          base_frame_no = base, nframes = n, info_frame_no = 0, n_info_frames = needed_info_frames n\<rparr>]"
    and "pool_inv (length (pools s)) t" "unfragmented (length (pools s)) (unat (needed_info_frames n)) t"
    and "\<And>j. j < unat n \<Longrightarrow> pool_status t (length (pools s)) j =
      (if j < unat (needed_info_frames n) then Inaccessible else Free)"
    and "\<forall>a. a \<notin> bitmap_addrs (base * FRAME_SIZE) (unat n) \<longrightarrow> mem t a = mem s a"
proof -
  let ?b = "base * FRAME_SIZE" and ?ni = "needed_info_frames n" and ?k = "length (pools s)"
  let ?p = "\<lparr>bitmap = ?b, nFreeFrames = n - ?ni, base_frame_no = base, nframes = n,
     info_frame_no = 0, n_info_frames = ?ni\<rparr>"
  let ?s = "upd_mem (fill_free ?b (unat n) 0) (s\<lparr>pools := pools s @ [?p]\<rparr>)"
  let ?t = "puts pool_ready_message (info_loop ?b base (unat ?ni) 0 ?s)"
  have n: "unat n < 2 ^ 32" "unat ?ni \<le> unat n"
    using unat_u32_less[of n] assms(3) by (simp_all add: unat_needed_info_frames unat_eq_0 Suc_le_eq)
      (metis One_nat_def Suc_leI div_le_dividend le_trans less_Suc_eq_le unat_gt_0 Suc_pred)
  have eq: "construct_ContFramePool base n 0 n_info s = Inr (?k, ?t)"
    using assms by (simp add: construct_ContFramePool_def Let_def round_up_4_def)
  have p: "pools ?t = pools s @ [?p]" by simp
  have st: "pool_status ?t ?k j = (if j < unat ?ni then Inaccessible else Free)" if "j < unat n" for j
    using status_info_loop[of "unat ?ni" j ?b base 0 ?s] that n status_fill_free[OF that, of ?b "mem s"]
    by (simp add: pool_status_def)
  have size: "pool_size ?t ?k = unat n" by (simp add: pool_size_def)
  have u: "unfragmented ?k (unat ?ni) ?t" using st by (auto simp: unfragmented_def size)
  have "unat (n - ?ni) = unat n - unat ?ni" using n(2) by (simp add: unat_sub word_le_nat_alt)
  then have inv: "pool_inv ?k ?t"
    using card_atLeastLessThan_free[OF u] by (simp add: pool_inv_def size)
  show ?thesis
    by (rule that[OF eq p inv u st]) (use n(2) in \<open>auto simp: info_loop_mem_outside fill_free_outside\<close>)
qed

lemma construct_foreign:
  assumes "length (pools s) < max_pools" "n mod 4 = 0" "info \<noteq> 0"
    and "info + n_info < base \<or> info \<ge> base + n" "n_info * FRAME_SIZE * 4 \<ge> n"
  obtains t where "construct_ContFramePool base n info n_info s = Inr (length (pools s), t)"
    and "pools t = pools s @ [\<lparr>bitmap = info * FRAME_SIZE, nFreeFrames = n,
          base_frame_no = base, nframes = n, info_frame_no = info, n_info_frames = n_info\<rparr>]"
    and "pool_inv (length (pools s)) t" "unfragmented (length (pools s)) 0 t"
    and "\<forall>a. a \<notin> bitmap_addrs (info * FRAME_SIZE) (unat n) \<longrightarrow> mem t a = mem s a"
proof -
  let ?b = "info * FRAME_SIZE" and ?k = "length (pools s)"
  let ?p = "\<lparr>bitmap = ?b, nFreeFrames = n, base_frame_no = base, nframes = n,
     info_frame_no = info, n_info_frames = n_info\<rparr>"
  let ?t = "puts pool_ready_message (upd_mem (fill_free ?b (unat n) 0) (s\<lparr>pools := pools s @ [?p]\<rparr>))"
  have eq: "construct_ContFramePool base n info n_info s = Inr (?k, ?t)"
    using assms by (simp add: construct_ContFramePool_def Let_def round_up_4_def)
  have p: "pools ?t = pools s @ [?p]" by simp
  have size: "pool_size ?t ?k = unat n" by (simp add: pool_size_def)
  have u: "unfragmented ?k 0 ?t" by (auto simp: unfragmented_def size pool_status_def status_fill_free)
  then have inv: "pool_inv ?k ?t"
    using card_atLeastLessThan_free[OF u] by (simp add: pool_inv_def size)
  show ?thesis
    by (rule that[OF eq p inv u]) (auto simp: fill_free_outside)
qed

section \<open>Marking inaccessible\<close>

lemma inacc_check_iff: "inacc_check m b i \<longleftrightarrow> lo_set m b (4 * (i div 4) + 3)"
proof -
  from mod_4_cases[of i] have "drop_bit (i mod 4 * 2 + 1) (0x80 :: u8) > 0" by (elim disjE) simp_all
  then have "inacc_check m b i \<longleftrightarrow> frame_byte m b i AND 1 \<noteq> 0"
    by (simp add: inacc_check_def)
  moreover have "frame_byte m b (4 * (i div 4) + 3) = frame_byte m b i" by (simp add: frame_byte_def)
  moreover have "(4 * (i div 4) + 3) mod 4 = 3" by simp
  ultimately show ?thesis unfolding lo_set_def by (simp only:) simp
qed

definition last_in_group :: "nat \<Rightarrow> nat" where
  "last_in_group i = 4 * (i div 4) + 3"

lemma last_in_group_ge: "i \<le> last_in_group i"
  unfolding last_in_group_def by presburger

lemma lo_set_mark_inacc:
  "i < 2 ^ 32 \<Longrightarrow> j < 2 ^ 32 \<Longrightarrow> lo_set m b j \<Longrightarrow> lo_set (mark_inacc b i m) b j"
  by (simp add: hi_lo_update)

lemma last_in_group_less: "i < 2 ^ 32 \<Longrightarrow> last_in_group i < 2 ^ 32"
  unfolding last_in_group_def by (simp add: less_mult_imp_div_less) presburger

lemma inacc_loop_result:
  assumes "k < length (pools s)" "i \<le> hi" "hi \<le> 2 ^ 32"
    and "\<And>j. i \<le> j \<Longrightarrow> j < hi \<Longrightarrow> lo_set (mem s) (bitmap (pools s ! k)) (last_in_group j)"
  shows "\<exists>t. inacc_loop k hi i s = Inr t
    \<and> pools t = (pools s)[k := (pools s ! k)\<lparr>nFreeFrames := nFreeFrames (pools s ! k) - of_nat (hi - i)\<rparr>]
    \<and> (\<forall>j < 2 ^ 32. pool_status t k j = (if i \<le> j \<and> j < hi then Inaccessible else pool_status s k j))
    \<and> (\<forall>a. a \<notin> bitmap_addrs (bitmap (pools s ! k)) hi \<longrightarrow> mem t a = mem s a)"
  using assms
proof (induction k hi i s rule: inacc_loop.induct)
  case (1 k hi i s)
  note unf = inacc_loop.simps[of k hi i s] and k = "1.prems"(1) and hi = "1.prems"(3)
  let ?b = "bitmap (pools s ! k)"
  let ?s = "upd_pool k (\<lambda>p. p\<lparr>nFreeFrames := nFreeFrames p - 1\<rparr>) (upd_mem (mark_inacc ?b i) s)"
  show ?case
  proof (cases "i < hi")
    case False
    then show ?thesis using unf k "1.prems"(2) by auto
  next
    case True
    then have ck: "inacc_check (mem s) ?b i" using "1.prems"(4)[of i] by (simp add: inacc_check_iff last_in_group_def)
    then have step: "inacc_loop k hi i s = inacc_loop k hi (Suc i) ?s" using unf True by (simp add: Let_def)
    have i: "i < 2 ^ 32" using True hi by simp
    have st: "pool_status ?s k j = (if j = i then Inaccessible else pool_status s k j)" if "j < 2 ^ 32" for j
      using status_update(4)[OF i that] k by (auto simp: pool_status_def)
    have pre: "lo_set (mem ?s) (bitmap (pools ?s ! k)) (last_in_group j)" if "Suc i \<le> j" "j < hi" for j
      using lo_set_mark_inacc[OF i last_in_group_less "1.prems"(4)[of j]] that hi k by simp
    have k': "k < length (pools ?s)" using k by simp
    have s1: "(if i mod 4 = 0 \<and> \<not> inacc_check (mem s) ?b i then putui (ucast (frame_byte (mem s) ?b i)) s else s) = s"
      using ck by simp
    note IH0 = "1.IH"[OF True refl refl, unfolded s1]
    have hs: "Suc i \<le> hi" using True by simp
    have IH: "\<exists>t. inacc_loop k hi (Suc i) ?s = Inr t
      \<and> pools t = (pools ?s)[k := (pools ?s ! k)\<lparr>nFreeFrames := nFreeFrames (pools ?s ! k) - of_nat (hi - Suc i)\<rparr>]
      \<and> (\<forall>j < 2 ^ 32. pool_status t k j = (if Suc i \<le> j \<and> j < hi then Inaccessible else pool_status ?s k j))
      \<and> (\<forall>a. a \<notin> bitmap_addrs (bitmap (pools ?s ! k)) hi \<longrightarrow> mem t a = mem ?s a)"
      by (rule IH0) (use ck k' hs hi pre in simp_all)
    have "(of_nat (hi - i) :: u32) = 1 + of_nat (hi - Suc i)" using True
      by (metis Suc_diff_Suc of_nat_Suc)
    then show ?thesis using IH st k True mark_outside(4)[OF _ True, of _ ?b "mem s"] unfolding step
      by (auto simp: algebra_simps)
  qed
qed

lemma inacc_loop_fails:
  assumes "k < length (pools s)" "hi \<le> 2 ^ 32" "i \<le> j" "j < hi"
    and "\<not> lo_set (mem s) (bitmap (pools s ! k)) (last_in_group j)"
  shows "inacc_loop k hi i s = Inl Assertion_Failed"
  using assms
proof (induction k hi i s rule: inacc_loop.induct)
  case (1 k hi i s)
  note unf = inacc_loop.simps[of k hi i s] and k = "1.prems"(1) and hi = "1.prems"(2)
  let ?b = "bitmap (pools s ! k)"
  let ?s = "upd_pool k (\<lambda>p. p\<lparr>nFreeFrames := nFreeFrames p - 1\<rparr>) (upd_mem (mark_inacc ?b i) s)"
  have "i < hi" using "1.prems"(3,4) by simp
  show ?case
  proof (cases "inacc_check (mem s) ?b i")
    case False
    then show ?thesis using unf \<open>i < hi\<close> by (simp add: Let_def)
  next
    case True
    then have "i \<noteq> j" using "1.prems"(5) by (auto simp: inacc_check_iff last_in_group_def)
    then have ij: "Suc i \<le> j" "i \<noteq> last_in_group j" using "1.prems"(3) last_in_group_ge[of j] by simp_all
    have i: "i < 2 ^ 32" "j < 2 ^ 32" using \<open>i < hi\<close> "1.prems"(4) hi by simp_all
    have step: "inacc_loop k hi i s = inacc_loop k hi (Suc i) ?s" using unf \<open>i < hi\<close> True by (simp add: Let_def)
    have "\<not> lo_set (mem ?s) (bitmap (pools ?s ! k)) (last_in_group j)"
      using hi_lo_update(8)[OF i(1) last_in_group_less[OF i(2)], of ?b "mem s"] ij(2) "1.prems"(5) k by simp
    then show ?thesis unfolding step
      using "1.IH"[OF \<open>i < hi\<close> refl refl] True k hi ij(1) "1.prems"(4) by simp
  qed
qed


section \<open>The allocator contract\<close>

definition fits :: "nat \<Rightarrow> 'a frame_machine_scheme \<Rightarrow> bool" where
  "fits k s \<longleftrightarrow> unat (base_frame_no (pools s ! k)) + pool_size s k \<le> 2 ^ 32
     \<and> base_frame_no (pools s ! k) + nframes (pools s ! k) \<noteq> 0"

definition free_frames :: "nat \<Rightarrow> 'a frame_machine_scheme \<Rightarrow> u32 set" where
  "free_frames k s = (\<lambda>i. base_frame_no (pools s ! k) + of_nat i) ` free_idx s k"

definition pool_ok :: "nat \<Rightarrow> 'a frame_machine_scheme \<Rightarrow> bool" where
  "pool_ok k s \<longleftrightarrow> pool_inv k s \<and> follows_head k s \<and> fits k s"

lemma free_frames_Diff:
  assumes "i \<in> free_idx s k"
  shows "free_frames k s - {base_frame_no (pools s ! k) + of_nat i} =
    (\<lambda>j. base_frame_no (pools s ! k) + of_nat j) ` (free_idx s k - {i})"
proof -
  have "inj_on (\<lambda>i. base_frame_no (pools s ! k) + of_nat i) (free_idx s k)"
    using pool_size_less[of s k] by (auto simp: inj_on_def free_idx_def of_nat_u32_eq_iff)
  from inj_on_image_set_diff[OF this _ _, of "free_idx s k" "{i}"] assms
  show ?thesis by (auto simp: free_frames_def)
qed

lemma get_frames_one_ok:
  assumes "pool_ok k s" "free_frames k s \<noteq> {}"
  obtains i t where "get_frames k 1 s = Inr (base_frame_no (pools s ! k) + of_nat i, t)"
    "i \<in> free_idx s k" "\<forall>j \<in> free_idx s k. i \<le> j"
    "pools t = (pools s)[k := (pools s ! k)\<lparr>nFreeFrames := nFreeFrames (pools s ! k) - 1\<rparr>]"
    "\<And>j. j < 2 ^ 32 \<Longrightarrow> pool_status t k j = (if j = i then Head else pool_status s k j)"
    "free_frames k t = free_frames k s - {base_frame_no (pools s ! k) + of_nat i}" "pool_ok k t"
proof -
  have inv: "pool_inv k s" and fh: "follows_head k s" and fit: "fits k s"
    using assms(1) by (simp_all add: pool_ok_def)
  have "free_idx s k \<noteq> {}" using assms(2) by (auto simp: free_frames_def)
  from get_frames_one[OF inv this] obtain i t where
    g: "get_frames k 1 s = Inr (base_frame_no (pools s ! k) + of_nat i, t)"
    and i: "i \<in> free_idx s k" "\<forall>j \<in> free_idx s k. i \<le> j"
    and p: "pools t = (pools s)[k := (pools s ! k)\<lparr>nFreeFrames := nFreeFrames (pools s ! k) - 1\<rparr>]"
    and st: "\<And>j. j < 2 ^ 32 \<Longrightarrow> pool_status t k j = (if j = i then Head else pool_status s k j)"
    and fi: "free_idx t k = free_idx s k - {i}" and inv': "pool_inv k t" by blast
  have k: "k < length (pools s)" using inv by (simp add: pool_inv_def)
  have size: "pool_size t k = pool_size s k" and base: "base_frame_no (pools t ! k) = base_frame_no (pools s ! k)"
    using p k by (simp_all add: pool_size_def)
  have "fits k t" using fit p k by (simp add: fits_def pool_size_def)
  moreover have "follows_head k t"
    unfolding follows_head_def
  proof (intro allI impI)
    fix j assume j: "j < pool_size t k" "pool_status t k j = Used"
    then have j32: "j < 2 ^ 32" "j - 1 < 2 ^ 32" using size pool_size_less[of s k] by auto
    then have "pool_status s k j = Used" using st j(2) by (simp split: if_splits)
    then have "0 < j \<and> pool_status s k (j - 1) \<in> {Head, Used}" using fh j(1) size by (simp add: follows_head_def)
    then show "0 < j \<and> pool_status t k (j - 1) \<in> {Head, Used}" using st[OF j32(2)] by auto
  qed
  moreover have "free_frames k t = free_frames k s - {base_frame_no (pools s ! k) + of_nat i}"
    using free_frames_Diff[OF i(1)] fi base by (simp add: free_frames_def)
  ultimately show ?thesis using that[of i t] g i p st inv' by (simp add: pool_ok_def)
qed

lemma release_frame_one_ok:
  assumes "pool_ok k s" "free_frames k s \<noteq> {}" "get_frames k 1 s = Inr (f, t)"
  obtains u where "release_frame k f t = Inr u" "pools u = pools s"
    "\<And>j. j < 2 ^ 32 \<Longrightarrow> pool_status u k j = pool_status s k j"
    "free_frames k u = free_frames k s" "pool_ok k u"
proof -
  obtain i where f: "f = base_frame_no (pools s ! k) + of_nat i" and i: "i \<in> free_idx s k"
    and p: "pools t = (pools s)[k := (pools s ! k)\<lparr>nFreeFrames := nFreeFrames (pools s ! k) - 1\<rparr>]"
    and st: "\<And>j. j < 2 ^ 32 \<Longrightarrow> pool_status t k j = (if j = i then Head else pool_status s k j)"
    and ok: "pool_ok k t"
    using get_frames_one_ok[OF assms(1,2)] assms(3) by (metis Inr_inject prod.inject)
  have isz: "i < pool_size s k" "pool_status s k i = Free" using i by (simp_all add: free_idx_def)
  have nu: "pool_status s k (i + 1) \<noteq> Used" if "i + 1 < pool_size s k"
    using assms(1) isz(2) that by (fastforce simp: pool_ok_def follows_head_def)
  have 1: "k < length (pools t)" using ok by (simp add: pool_ok_def pool_inv_def)
  have 2: "pool_status t k j = (if j = i then Head else if i < j \<and> j < i + unat (1 :: u32) then Used else pool_status s k j)"
    if "j < 2 ^ 32" for j using st[OF that] by auto
  have 3: "pool_status s k j = Free" if "i \<le> j" "j < i + unat (1 :: u32)" for j
  proof -
    have "j = i" using that by simp
    then show ?thesis using isz by simp
  qed
  have 4: "pool_status s k (i + unat (1 :: u32)) \<noteq> Used" if "i + unat (1 :: u32) < pool_size s k"
    using nu that by simp
  have fit: "unat (base_frame_no (pools s ! k)) + pool_size s k \<le> 2 ^ 32"
    "base_frame_no (pools s ! k) + nframes (pools s ! k) \<noteq> 0"
    using assms(1) by (simp_all add: pool_ok_def fits_def)
  have n1: "0 < unat (1 :: u32)" "i + unat (1 :: u32) \<le> pool_size s k" using isz(1) by simp_all
  obtain u where u: "release_frame k (base_frame_no (pools s ! k) + of_nat i) t = Inr u"
    "\<And>j. j < 2 ^ 32 \<Longrightarrow> pool_status u k j = pool_status s k j" "pools u = pools s"
    using release_undoes_take[OF 1 n1 p less_imp_le[OF pool_size_less] order_refl 2 3 4 fit] by blast
  note u = u(1)[folded f] u(3) u(2)
  have size: "pool_size u k = pool_size s k" using u(2) by (simp add: pool_size_def)
  have fi: "free_idx u k = free_idx s k" using u(3) size pool_size_less[of s k] by (auto simp: free_idx_def)
  have "follows_head k u"
    unfolding follows_head_def size
  proof (intro allI impI)
    fix j assume j: "j < pool_size s k" "pool_status u k j = Used"
    then have "j < 2 ^ 32" "j - 1 < 2 ^ 32" using pool_size_less[of s k] by auto
    then show "0 < j \<and> pool_status u k (j - 1) \<in> {Head, Used}"
      using assms(1) j u(3) by (simp add: pool_ok_def follows_head_def)
  qed
  then have "pool_ok k u" using assms(1) u(2) fi size by (simp add: pool_ok_def pool_inv_def fits_def)
  moreover have "free_frames k u = free_frames k s" using fi u(2) by (simp add: free_frames_def)
  ultimately show ?thesis using that u by blast
qed

interpretation cfp: releasing_source "get_frames k 1" "free_frames k" "pool_ok k" "release_frame k" for k
proof unfold_locales
  show "\<exists>f t. get_frames k 1 s = Inr (f, t) \<and> f \<in> free_frames k s \<and> free_frames k t = free_frames k s - {f} \<and> pool_ok k t"
    if "pool_ok k s" "free_frames k s \<noteq> {}" for s :: "'a frame_machine_scheme"
    by (rule get_frames_one_ok[OF that]) (simp add: free_frames_def)
next
  show "\<exists>u. release_frame k f t = Inr u \<and> free_frames k u = free_frames k s \<and> pool_ok k u"
    if "pool_ok k s" "free_frames k s \<noteq> {}" "get_frames k 1 s = Inr (f, t)" for s t :: "'a frame_machine_scheme" and f
    using release_frame_one_ok[OF that] by blast
qed



end
