(* ===== verification/KernelPools.thy ===== *)
theory KernelPools
  imports FramePoolCorrect
begin

text \<open>
  What the kernels do with the frame pools: marking ranges inaccessible (P2 and P3) and
  the start-up sequence of the kernel.C of P3 and P4, which builds the kernel pool, takes
  the frame that holds the bitmap of the process pool, builds the process pool and marks
  the memory hole at 15 MB. The properties of the pools close the theory.
\<close>

section \<open>Marking, in terms of statuses\<close>

lemma lo_set_status: "lo_set m b i \<longleftrightarrow> status m b i \<in> {Free, Inaccessible}"
  by (simp add: status_def)

lemma mark_inaccessible_iff:
  fixes s :: "'a frame_machine_scheme" and k base n
  defines "lo \<equiv> unat (base - base_frame_no (pools s ! k))"
    and "hi \<equiv> unat (base - base_frame_no (pools s ! k) + n)"
  assumes k: "k < length (pools s)" and rng: "in_pool_range (pools s ! k) base n" and le: "lo \<le> hi"
  shows "(\<exists>t. mark_inaccessible k base n s = Inr t) \<longleftrightarrow>
    (\<forall>j. lo \<le> j \<and> j < hi \<longrightarrow> pool_status s k (last_in_group j) \<in> {Free, Inaccessible})"
proof -
  have eq: "mark_inaccessible k base n s = inacc_loop k hi lo s"
    using k rng by (simp add: mark_inaccessible_def Let_def lo_def hi_def)
  have hi: "hi \<le> 2 ^ 32" using unat_u32_less[of "base - base_frame_no (pools s ! k) + n"] by (simp add: hi_def)
  let ?lo = "\<lambda>j. lo_set (mem s) (bitmap (pools s ! k)) (last_in_group j)"
  have "(\<exists>t. inacc_loop k hi lo s = Inr t) \<longleftrightarrow> (\<forall>j. lo \<le> j \<and> j < hi \<longrightarrow> ?lo j)"
  proof (cases "\<forall>j. lo \<le> j \<and> j < hi \<longrightarrow> ?lo j")
    case True
    then show ?thesis using inacc_loop_result[OF k le hi] by blast
  next
    case False
    then obtain j where "lo \<le> j" "j < hi" "\<not> ?lo j" by blast
    then show ?thesis using inacc_loop_fails[OF k hi] False by force
  qed
  then show ?thesis unfolding eq by (simp only: lo_set_status pool_status_def)
qed

lemma mark_inaccessible_free_range:
  assumes inv: "pool_inv k s" and rng: "in_pool_range (pools s ! k) (base_frame_no (pools s ! k) + of_nat lo) n"
    and lo: "lo mod 4 = 0" "unat n mod 4 = 0" "lo + unat n \<le> pool_size s k"
    and free: "\<And>j. lo \<le> j \<Longrightarrow> j < lo + unat n \<Longrightarrow> pool_status s k j = Free"
  obtains t where "mark_inaccessible k (base_frame_no (pools s ! k) + of_nat lo) n s = Inr t"
    and "pools t = (pools s)[k := (pools s ! k)\<lparr>nFreeFrames := nFreeFrames (pools s ! k) - n\<rparr>]"
    and "\<And>j. j < 2 ^ 32 \<Longrightarrow> pool_status t k j =
      (if lo \<le> j \<and> j < lo + unat n then Inaccessible else pool_status s k j)"
    and "\<forall>a. a \<notin> bitmap_addrs (bitmap (pools s ! k)) (pool_size s k) \<longrightarrow> mem t a = mem s a"
    and "pool_inv k t" "free_idx t k = free_idx s k - {lo ..< lo + unat n}"
proof -
  let ?p = "pools s ! k" and ?hi = "lo + unat n"
  have k: "k < length (pools s)" using inv by (simp add: pool_inv_def)
  have hi: "?hi \<le> 2 ^ 32" "lo < 2 ^ 32" "?hi < 2 ^ 32" using lo(3) pool_size_less[of s k] by simp_all
  have idx: "unat (base_frame_no ?p + of_nat lo - base_frame_no ?p) = lo"
    "unat (base_frame_no ?p + of_nat lo - base_frame_no ?p + n) = ?hi"
    using hi unat_of_nat_u32[of lo] unat_add_of_nat[of "of_nat lo" "unat n"] by simp_all
  have eq: "mark_inaccessible k (base_frame_no ?p + of_nat lo) n s = inacc_loop k ?hi lo s"
    using k rng idx by (simp add: mark_inaccessible_def Let_def)
  have pre: "lo_set (mem s) (bitmap ?p) (last_in_group j)" if "lo \<le> j" "j < ?hi" for j
  proof -
    obtain q0 q1 where q: "lo = 4 * q0" "unat n = 4 * q1"
      using lo(1,2) by (auto elim!: dvdE simp: mod_eq_0_iff_dvd)
    have "q0 \<le> j div 4" using that(1) q by simp
    moreover have "j div 4 < q0 + q1" using that(2) q by (simp add: less_mult_imp_div_less)
    ultimately have l: "lo \<le> 4 * (j div 4)" "4 * (j div 4) + 4 \<le> ?hi" using q by simp_all
    have "lo \<le> last_in_group j" "last_in_group j < ?hi" using l unfolding last_in_group_def by linarith+
    then show ?thesis using free by (simp add: lo_set_status pool_status_def)
  qed
  have le: "lo \<le> ?hi" by simp
  obtain t where t: "inacc_loop k ?hi lo s = Inr t"
    and p: "pools t = (pools s)[k := ?p\<lparr>nFreeFrames := nFreeFrames ?p - of_nat (?hi - lo)\<rparr>]"
    and st: "\<forall>j < 2 ^ 32. pool_status t k j = (if lo \<le> j \<and> j < ?hi then Inaccessible else pool_status s k j)"
    and m: "\<forall>a. a \<notin> bitmap_addrs (bitmap ?p) ?hi \<longrightarrow> mem t a = mem s a"
    using inacc_loop_result[OF k le hi(1) pre] by blast
  have p': "pools t = (pools s)[k := ?p\<lparr>nFreeFrames := nFreeFrames ?p - n\<rparr>]" using p by simp
  have size: "pool_size t k = pool_size s k" using p k by (simp add: pool_size_def)
  have fi: "free_idx t k = free_idx s k - {lo ..< ?hi}"
  proof -
    have "pool_status t k j = (if lo \<le> j \<and> j < ?hi then Inaccessible else pool_status s k j)"
      if "j < pool_size s k" for j
      using st[rule_format, of j] that pool_size_less[of s k] by linarith
    then show ?thesis unfolding free_idx_def size by (auto split: if_splits)
  qed
  have sub: "{lo ..< ?hi} \<subseteq> free_idx s k" using free lo(3) by (auto simp: free_idx_def)
  then have c: "card (free_idx t k) = card (free_idx s k) - unat n"
    using fi by (simp add: card_Diff_subset)
  have "unat n \<le> card (free_idx s k)" using card_mono[OF finite_free_idx sub] by simp
  then have "n \<le> nFreeFrames ?p" using inv by (simp add: pool_inv_def word_le_nat_alt)
  then have "pool_inv k t" using inv p' k c by (simp add: pool_inv_def unat_sub)
  moreover have "bitmap_addrs (bitmap ?p) ?hi \<subseteq> bitmap_addrs (bitmap ?p) (pool_size s k)"
    using lo(3) by (auto simp: bitmap_addrs_def)
  then have "\<forall>a. a \<notin> bitmap_addrs (bitmap ?p) (pool_size s k) \<longrightarrow> mem t a = mem s a" using m by blast
  ultimately show ?thesis using that[of t] eq t p' st fi by simp
qed

section \<open>Starting the pools of P3 and P4\<close>

definition KERNEL_POOL_START_FRAME :: u32 where "KERNEL_POOL_START_FRAME = 0x200000 div 4096"
definition KERNEL_POOL_SIZE :: u32 where "KERNEL_POOL_SIZE = 0x200000 div 4096"
definition PROCESS_POOL_START_FRAME :: u32 where "PROCESS_POOL_START_FRAME = 0x400000 div 4096"
definition PROCESS_POOL_SIZE :: u32 where "PROCESS_POOL_SIZE = 0x1C00000 div 4096"
definition MEM_HOLE_START_FRAME :: u32 where "MEM_HOLE_START_FRAME = 0xF00000 div 4096"
definition MEM_HOLE_SIZE :: u32 where "MEM_HOLE_SIZE = 0x100000 div 4096"

lemmas pool_constants = KERNEL_POOL_START_FRAME_def KERNEL_POOL_SIZE_def PROCESS_POOL_START_FRAME_def
  PROCESS_POOL_SIZE_def MEM_HOLE_START_FRAME_def MEM_HOLE_SIZE_def

definition boot_frame_pools :: "'a frame_machine_scheme \<Rightarrow> (nat \<times> nat \<times> 'a frame_machine_scheme) result" where
  "boot_frame_pools s =
     andthen (construct_ContFramePool KERNEL_POOL_START_FRAME KERNEL_POOL_SIZE 0 0 s) (\<lambda>(kernel_mem_pool, s1).
     let n_info = needed_info_frames PROCESS_POOL_SIZE in
     andthen (get_frames kernel_mem_pool n_info s1) (\<lambda>(info_frame, s2).
     andthen (construct_ContFramePool PROCESS_POOL_START_FRAME PROCESS_POOL_SIZE info_frame n_info s2)
       (\<lambda>(process_mem_pool, s3).
     andthen (mark_inaccessible process_mem_pool MEM_HOLE_START_FRAME MEM_HOLE_SIZE s3) (\<lambda>s4.
     Inr (kernel_mem_pool, process_mem_pool, s4)))))"

lemma status_cong:
  assumes "\<And>a. a \<in> bitmap_addrs b n \<Longrightarrow> m a = m' a" "j < n"
  shows "status m b j = status m' b j"
  using assms(1)[OF bitmap_addr_of[OF assms(2)]]
  by (simp add: status_def hi_set_def lo_set_def frame_byte_def)

lemma bitmap_addrs_disjoint:
  assumes "unat b + n div 4 + 1 \<le> unat b'" "unat b' + n' div 4 + 1 \<le> 2 ^ 32"
  shows "bitmap_addrs b n \<inter> bitmap_addrs b' n' = {}"
proof -
  have "b + of_nat c \<noteq> b' + of_nat c'" if "c * 4 < n" "c' * 4 < n'" for c c'
  proof -
    have c: "c \<le> n div 4" "c' \<le> n' div 4" using that by auto
    have "unat (b + of_nat c) = unat b + c" "unat (b' + of_nat c') = unat b' + c'"
      using c assms by (auto intro!: unat_add_of_nat)
    then have "unat (b + of_nat c) < unat (b' + of_nat c')" using c assms by linarith
    then show ?thesis by auto
  qed
  then show ?thesis by (auto simp: bitmap_addrs_def)
qed

lemma pool_frame_preserved:
  assumes "\<And>a. a \<in> bitmap_addrs (bitmap (pools s ! k)) (pool_size s k) \<Longrightarrow> mem t a = mem s a"
    and "pools t ! k = pools s ! k" "j < pool_size s k"
  shows "pool_status t k j = pool_status s k j"
  using status_cong[OF assms(1,3)] assms(2) by (simp add: pool_status_def)

text \<open>The operations touch the memory, the trace and the pool objects only.\<close>

definition pool_shape :: "'a frame_machine_scheme \<Rightarrow> 'a frame_machine_scheme \<Rightarrow> bool" where
  "pool_shape s t \<longleftrightarrow> t = s\<lparr>mem := mem t, trace := trace t, pools := pools t\<rparr>"

lemma pool_shape_iff: "pool_shape s t \<longleftrightarrow> frame_machine.more t = frame_machine.more s"
  by (cases s, cases t) (simp add: pool_shape_def)

lemma more_simps [simp]:
  "frame_machine.more (emit e s) = frame_machine.more s"
  "frame_machine.more (upd_mem f s) = frame_machine.more s"
  "frame_machine.more (upd_pool k g s) = frame_machine.more s"
  by (simp_all add: emit_def upd_mem_def upd_pool_def)

lemma info_loop_more [simp]: "frame_machine.more (info_loop b base n i s) = frame_machine.more s"
proof (induction b base n i s rule: info_loop.induct)
  case (1 b base n i s)
  then show ?case by (cases "i < n") (simp_all add: info_loop.simps[of b base n i])
qed

lemma construct_more: "construct_ContFramePool base n info ni s = Inr (k, t) \<Longrightarrow> frame_machine.more t = frame_machine.more s"
  by (auto simp: construct_ContFramePool_def Let_def split: if_splits)

lemma get_frames_more: "get_frames k n s = Inr (f, t) \<Longrightarrow> frame_machine.more t = frame_machine.more s"
  by (auto simp: get_frames_def take_frames_def Let_def split: if_splits option.splits)

lemma inacc_loop_more: "inacc_loop k hi i s = Inr t \<Longrightarrow> frame_machine.more t = frame_machine.more s"
proof (induction k hi i s rule: inacc_loop.induct)
  case (1 k hi i s)
  show ?case
  proof (cases "i < hi")
    case True
    then show ?thesis
      using "1.prems" "1.IH"[OF True refl refl] by (auto simp: inacc_loop.simps[of k hi i s] Let_def split: if_splits)
  next
    case False
    then show ?thesis using "1.prems" by (simp add: inacc_loop.simps)
  qed
qed

lemma mark_inaccessible_more: "mark_inaccessible k base n s = Inr t \<Longrightarrow> frame_machine.more t = frame_machine.more s"
  by (auto simp: mark_inaccessible_def Let_def split: if_splits dest: inacc_loop_more)

lemma boot_frame_pools_shape: "boot_frame_pools s = Inr (k, p, t) \<Longrightarrow> pool_shape s t"
  unfolding pool_shape_iff boot_frame_pools_def
  by (auto simp: andthen_eq_Inr Let_def dest!: construct_more get_frames_more mark_inaccessible_more)

lemma boot_frame_pools_result:
  fixes s :: "'a frame_machine_scheme"
  assumes "pools s = []"
  obtains t where "boot_frame_pools s = Inr (0, 1, t)" "pool_ok 0 t" "pool_ok 1 t"
    "free_idx t 0 = {2 ..< 512}" "free_idx t 1 = {0 ..< 2816} \<union> {3072 ..< 7168}"
    "length (pools t) = 2"
    "base_frame_no (pools t ! 0) = 512" "base_frame_no (pools t ! 1) = 1024"
    "bitmap (pools t ! 0) = 0x200000" "bitmap (pools t ! 1) = 0x201000"
    "pool_size t 0 = 512" "pool_size t 1 = 7168" "\<forall>j < 7168. pool_status t 1 j \<noteq> Used"
    "pool_shape s t"
proof -
  have l: "length (pools s) < max_pools" "(512 :: u32) mod 4 = 0" "(512 :: u32) \<noteq> 0"
    using assms by (simp_all add: max_pools_def)
  have nif: "needed_info_frames 512 = 1" "needed_info_frames 7168 = 1"
    by (simp_all add: needed_info_frames_def FRAME_SIZE_def)
  obtain s1 where s1: "construct_ContFramePool 512 512 0 0 s = Inr (0, s1)"
    "pools s1 = [\<lparr>bitmap = 0x200000, nFreeFrames = 511, base_frame_no = 512, nframes = 512,
       info_frame_no = 0, n_info_frames = 1\<rparr>]"
    "pool_inv 0 s1" "unfragmented 0 1 s1"
    "\<And>j. j < 512 \<Longrightarrow> pool_status s1 0 j = (if j < 1 then Inaccessible else Free)"
    by (rule construct_own[OF l, of 512 0]) (simp_all add: assms nif FRAME_SIZE_def)
  have sz1: "pool_size s1 0 = 512" using s1(2) by (simp add: pool_size_def)
  obtain s2 where s2: "get_frames 0 1 s1 = Inr (513, s2)"
    "\<And>j. j < 2 ^ 32 \<Longrightarrow> pool_status s2 0 j =
      (if j = 1 then Head else if 1 < j \<and> j < 1 + unat (1 :: u32) then Used else pool_status s1 0 j)"
    "pools s2 = [\<lparr>bitmap = 0x200000, nFreeFrames = 510, base_frame_no = 512, nframes = 512,
       info_frame_no = 0, n_info_frames = 1\<rparr>]"
    "unfragmented 0 (1 + unat (1 :: u32)) s2" "pool_inv 0 s2"
    by (rule get_frames_run[OF s1(3,4), of 1]) (simp_all add: sz1 s1(2))
  have sz2: "pool_size s2 0 = 512" using s2(3) by (simp add: pool_size_def)
  have l2: "length (pools s2) < max_pools" "(7168 :: u32) mod 4 = 0" "(513 :: u32) \<noteq> 0"
    "(513 :: u32) + 1 < 1024 \<or> (513 :: u32) \<ge> 1024 + 7168" "(1 :: u32) * FRAME_SIZE * 4 \<ge> 7168"
    using s2(3) by (simp_all add: max_pools_def FRAME_SIZE_def)
  obtain s3 where s3: "construct_ContFramePool 1024 7168 513 1 s2 = Inr (1, s3)"
    "pools s3 = pools s2 @ [\<lparr>bitmap = 0x201000, nFreeFrames = 7168, base_frame_no = 1024, nframes = 7168,
       info_frame_no = 513, n_info_frames = 1\<rparr>]"
    "pool_inv 1 s3" "unfragmented 1 0 s3"
    "\<forall>a. a \<notin> bitmap_addrs 0x201000 7168 \<longrightarrow> mem s3 a = mem s2 a"
    by (rule construct_foreign[OF l2]) (simp_all add: s2(3) FRAME_SIZE_def)
  have sz3: "pool_size s3 1 = 7168" "pool_size s3 0 = 512" using s3(2) s2(3) by (simp_all add: pool_size_def)
  have b3: "base_frame_no (pools s3 ! 1) = 1024" "bitmap (pools s3 ! 1) = 0x201000" using s3(2) s2(3) by simp_all
  have st3: "pool_status s3 1 j = Free" if "j < 7168" for j
    using s3(4) that sz3 by (simp add: unfragmented_def)
  obtain t where t: "mark_inaccessible 1 3840 256 s3 = Inr t"
    "pools t = (pools s3)[1 := (pools s3 ! 1)\<lparr>nFreeFrames := nFreeFrames (pools s3 ! 1) - 256\<rparr>]"
    "\<And>j. j < 2 ^ 32 \<Longrightarrow> pool_status t 1 j = (if 2816 \<le> j \<and> j < 3072 then Inaccessible else pool_status s3 1 j)"
    "\<forall>a. a \<notin> bitmap_addrs 0x201000 7168 \<longrightarrow> mem t a = mem s3 a"
    "pool_inv 1 t" "free_idx t 1 = free_idx s3 1 - {2816 ..< 3072}"
    by (rule mark_inaccessible_free_range[OF s3(3), of 2816 256])
       (auto simp: b3 sz3 st3 in_pool_range_def s3(2) s2(3) simp del: One_nat_def)
  have szt: "pool_size t 1 = 7168" "pool_size t 0 = 512" using t(2) s3(2) s2(3) by (simp_all add: pool_size_def)
  have disj: "bitmap_addrs 0x200000 512 \<inter> bitmap_addrs 0x201000 7168 = {}"
    by (rule bitmap_addrs_disjoint) simp_all
  have keep: "pool_status t 0 j = pool_status s2 0 j" if "j < 512" for j
  proof (rule pool_frame_preserved)
    show "mem t a = mem s2 a" if "a \<in> bitmap_addrs (bitmap (pools s2 ! 0)) (pool_size s2 0)" for a
      using that disj s3(5) t(4) sz2 s2(3) by auto
  qed (use that sz2 t(2) s3(2) s2(3) in simp_all)
  have f0: "free_idx t 0 = {2 ..< 512}"
    using keep s2(4) sz2 szt(2) by (auto simp: free_idx_def unfragmented_def)
  have f1: "free_idx t 1 = {0 ..< 2816} \<union> {3072 ..< 7168}"
    using t(6) card_atLeastLessThan_free[OF s3(4)] sz3 by auto
  have "pool_inv 0 t" using f0 t(2) s3(2) s2(3) by (simp add: pool_inv_def)
  moreover have "follows_head 0 t"
  proof -
    have "pool_status t 0 j \<noteq> Used" if "j < 512" for j
      using keep[OF that] s2(2)[of j] s1(5)[OF that] that by auto
    then show ?thesis using szt(2) by (simp add: follows_head_def)
  qed
  moreover have "follows_head 1 t" using t(3) st3 szt(1) by (simp add: follows_head_def)
  moreover have "fits 0 t" "fits 1 t" using t(2) s3(2) s2(3) szt by (simp_all add: fits_def)
  ultimately have "pool_ok 0 t" "pool_ok 1 t" using t(5) by (simp_all add: pool_ok_def)
  moreover have "boot_frame_pools s = Inr (0, 1, t)"
    using s1(1) s2(1) s3(1) t(1) by (simp add: boot_frame_pools_def pool_constants nif)
  moreover have "length (pools t) = 2" "base_frame_no (pools t ! 0) = 512" "base_frame_no (pools t ! 1) = 1024"
    "bitmap (pools t ! 0) = 0x200000" "bitmap (pools t ! 1) = 0x201000"
    using t(2) s3(2) s2(3) by simp_all
  moreover have "\<forall>j < 7168. pool_status t 1 j \<noteq> Used" using t(3) st3 by simp
  moreover have "pool_shape s t"
    by (rule boot_frame_pools_shape[OF \<open>boot_frame_pools s = Inr (0, 1, t)\<close>])
  ultimately show ?thesis using that f0 f1 szt by blast
qed

section \<open>Properties\<close>

text \<open>C10: a request for one frame takes the free frame with the least number, makes it the
head of a run of length one, touches the status of no other frame and keeps the count of
free frames exact.\<close>

theorem get_frames_one_least:
  assumes "pool_inv k s" and "free_idx s k \<noteq> {}"
  shows "\<exists>i t. get_frames k 1 s = Inr (base_frame_no (pools s ! k) + of_nat i, t)
    \<and> i \<in> free_idx s k \<and> (\<forall>j \<in> free_idx s k. i \<le> j)
    \<and> (\<forall>j < 2 ^ 32. pool_status t k j = (if j = i then Head else pool_status s k j))
    \<and> pool_inv k t"
  by (rule get_frames_one[OF assms]) blast

definition demo_machine :: frame_machine where
  "demo_machine = \<lparr>mem = (\<lambda>_. 0), trace = [], pools = []\<rparr>"

definition demo_pool :: frame_machine where
  "demo_pool = (case construct_ContFramePool 512 8 0 0 demo_machine of
     Inl e \<Rightarrow> demo_machine | Inr (k, s) \<Rightarrow> s)"

lemma demo_pool_facts:
  "pool_inv 0 demo_pool" "unfragmented 0 1 demo_pool" "pool_size demo_pool 0 = 8"
  "base_frame_no (pools demo_pool ! 0) = 512" "free_idx demo_pool 0 = {1 ..< 8}" "length (pools demo_pool) = 1"
    "nframes (pools demo_pool ! 0) = 8"
proof -
  have a: "length (pools demo_machine) < max_pools" "(8 :: u32) mod 4 = 0" "(8 :: u32) \<noteq> 0"
    by (simp_all add: demo_machine_def max_pools_def)
  have "pool_inv 0 demo_pool \<and> unfragmented 0 1 demo_pool \<and> pool_size demo_pool 0 = 8
    \<and> base_frame_no (pools demo_pool ! 0) = 512 \<and> length (pools demo_pool) = 1 \<and> nframes (pools demo_pool ! 0) = 8"
    by (rule construct_own[OF a, of 512 0])
       (simp_all add: demo_pool_def demo_machine_def pool_size_def unat_needed_info_frames)
  then show "pool_inv 0 demo_pool" "unfragmented 0 1 demo_pool" "pool_size demo_pool 0 = 8"
    "base_frame_no (pools demo_pool ! 0) = 512" "free_idx demo_pool 0 = {1 ..< 8}" "length (pools demo_pool) = 1"
    "nframes (pools demo_pool ! 0) = 8"
    using card_atLeastLessThan_free[of 0 1 demo_pool] by auto
qed

theorem get_frames_one_least_witness:
  "\<exists>i t. get_frames 0 1 demo_pool = Inr (base_frame_no (pools demo_pool ! 0) + of_nat i, t)
    \<and> i \<in> free_idx demo_pool 0 \<and> (\<forall>j \<in> free_idx demo_pool 0. i \<le> j)
    \<and> (\<forall>j < 2 ^ 32. pool_status t 0 j = (if j = i then Head else pool_status demo_pool 0 j))
    \<and> pool_inv 0 t"
  by (rule get_frames_one_least) (simp_all add: demo_pool_facts)

text \<open>C35: in a pool none of whose frames were given back, a request for \<open>n\<close> frames that fit
returns the first free frame, which becomes the head of a run of \<open>n\<close> frames; no other
status changes and the pool stays without holes.\<close>

theorem get_frames_contiguous:
  assumes "pool_inv k s" and "unfragmented k z s" and "pool_size s k mod 4 = 0"
    and "0 < unat n" and "z + unat n \<le> pool_size s k"
  shows "\<exists>t. get_frames k n s = Inr (base_frame_no (pools s ! k) + of_nat z, t)
    \<and> (\<forall>j < 2 ^ 32. pool_status t k j =
        (if j = z then Head else if z < j \<and> j < z + unat n then Used else pool_status s k j))
    \<and> unfragmented k (z + unat n) t \<and> pool_inv k t"
  by (rule get_frames_run[OF assms]) blast

theorem get_frames_contiguous_witness:
  "\<exists>t. get_frames 0 3 demo_pool = Inr (base_frame_no (pools demo_pool ! 0) + of_nat 1, t)
    \<and> (\<forall>j < 2 ^ 32. pool_status t 0 j =
        (if j = 1 then Head else if 1 < j \<and> j < 1 + unat (3 :: u32) then Used else pool_status demo_pool 0 j))
    \<and> unfragmented 0 (1 + unat (3 :: u32)) t \<and> pool_inv 0 t"
  by (rule get_frames_contiguous) (simp_all only: demo_pool_facts, simp_all)

text \<open>The scan of \<open>get_frames\<close> does not restart its count at an allocated frame: when frame \<open>z + 1\<close> is allocated and the other frames
from \<open>z\<close> on are free, the scan for \<open>n \<ge> 2\<close> frames counts \<open>z\<close> and then the frames after \<open>z + 1\<close>.\<close>

lemma scan_over_hole:
  assumes free: "\<And>j. j < nfr \<Longrightarrow> status m b j = Free \<longleftrightarrow> z \<le> j \<and> j \<noteq> z + 1" and h: "frame_byte m b (z + 1) \<noteq> 0"
    and sz: "nfr mod 4 = 0" "z + n < nfr" "2 \<le> n"
  shows "at_group m b i \<Longrightarrow> i \<le> z + n \<Longrightarrow> scan_frames m b nfr n i (if i \<le> z + 1 then i - z else i - z - 1) = Some (z + n, n)"
proof (induction "nfr - i" arbitrary: i rule: less_induct)
  case less
  let ?c = "\<lambda>i. if i \<le> z + 1 then i - z else i - z - 1"
  note ag = less.prems(1) and unf = scan_frames.simps[of m b nfr n i "?c i"]
  have i: "i < nfr" using less.prems(2) sz(2) by simp
  show ?case
  proof (cases "frame_byte m b i = 0")
    case True
    note skip = at_group_skip[OF ag True]
    have i4: "i + 4 \<le> nfr" using i skip(1) sz(1) by presburger
    have nf: "status m b j \<noteq> Free" if "i \<le> j" "j < i + 4" for j
      using status_zero_byte[OF True group_members[OF skip(1), of j]] that by simp
    have z: "i + 4 \<le> z"
      using nf[of "i + 2"] nf[of "i + 3"] free[of "i + 2"] free[of "i + 3"] i4 by linarith
    have "scan_frames m b nfr n (i + 4) (?c (i + 4)) = Some (z + n, n)"
      using less.hyps[OF _ skip(2)] z i by simp
    moreover have "?c (i + 4) = 0" using z by simp
    ultimately show ?thesis using unf i True by (simp add: add.commute)
  next
    case nz: False
    note IH = less.hyps[OF _ at_group_Suc[OF nz]]
    show ?thesis
    proof (cases "z \<le> i \<and> i \<noteq> z + 1")
      case True
      then have f: "hi_set m b i \<and> lo_set m b i" using free[OF i] status_Free_iff by blast
      show ?thesis
      proof (cases "i = z + n")
        case True
        then have "?c i + 1 = n" using sz(3) by simp
        then show ?thesis using unf i nz f True by simp
      next
        case False
        then have "scan_frames m b nfr n (i + 1) (?c (i + 1)) = Some (z + n, n)" using IH less.prems(2) i by simp
        moreover have "?c (i + 1) = ?c i + 1" "?c i + 1 \<noteq> n" using True False less.prems(2) sz(3) by auto
        ultimately show ?thesis using unf i nz f by simp
      qed
    next
      case False
      then have nf: "\<not> (hi_set m b i \<and> lo_set m b i)" using free[OF i] status_Free_iff by blast
      have "i + 1 \<le> z + n" using False sz(3) less.prems(2) by auto
      then have "scan_frames m b nfr n (i + 1) (?c (i + 1)) = Some (z + n, n)" using IH i by simp
      moreover have "?c (i + 1) = ?c i" using False by auto
      moreover have "scan_frames m b nfr n i (?c i) = scan_frames m b nfr n (i + 1) (?c i)" unfolding unf using i nz nf by (simp only: if_True if_False)
      ultimately show ?thesis by (simp only:)
    qed
  qed
qed

text \<open>So a frame that is in use is handed out again.\<close>

lemma get_frames_returns_allocated_frame:
  assumes "k < length (pools s)" "nFreeFrames (pools s ! k) \<noteq> 0" "pool_size s k mod 4 = 0" "z + unat n < pool_size s k" "2 \<le> unat n"
    and "pool_status s k (z + 1) = Head" "\<And>j. j < pool_size s k \<Longrightarrow> pool_status s k j = Free \<longleftrightarrow> z \<le> j \<and> j \<noteq> z + 1"
  shows "\<exists>t. get_frames k n s = Inr (base_frame_no (pools s ! k) + of_nat (z + 1), t)"
proof -
  let ?p = "pools s ! k"
  have h: "frame_byte (mem s) (bitmap ?p) (z + 1) \<noteq> 0"
    using assms(6) by (auto simp: pool_status_def status_def hi_set_def split: if_splits)
  have f: "status (mem s) (bitmap ?p) j = Free \<longleftrightarrow> z \<le> j \<and> j \<noteq> z + 1" if "j < pool_size s k" for j
    using assms(7)[OF that] by (simp add: pool_status_def)
  have "scan_frames (mem s) (bitmap ?p) (pool_size s k) (unat n) 0 0 = Some (z + unat n, unat n)"
  proof -
    have "at_group (mem s) (bitmap ?p) 0" by (simp add: at_group_def)
    from scan_over_hole[OF f h assms(3,4,5) this] show ?thesis by (simp only: le0 if_True diff_0_eq_0)
  qed
  then have g: "get_frames k n s = Inr (take_frames k n (z + unat n) (unat n) s)"
    using assms(1,2) by (simp add: get_frames_def Let_def pool_size_def)
  have "z + unat n + 1 = (z + 1) + unat n" "0 < unat n" "z + unat n < 2 ^ 32"
    using assms(4,5) pool_size_less[of s k] by simp_all
  then show ?thesis unfolding g take_frames_eq[OF \<open>z + unat n + 1 = (z + 1) + unat n\<close> \<open>0 < unat n\<close> \<open>z + unat n < 2 ^ 32\<close>] by blast
qed

text \<open>C9: in a pool without holes, giving back a run right after taking it restores the pool: every status and every
field of the pool objects is as before the request.\<close>

theorem get_release_roundtrip:
  assumes "pool_inv k s" and "unfragmented k z s" and "pool_size s k mod 4 = 0"
    and "0 < unat n" and "z + unat n \<le> pool_size s k" and "fits k s"
    and "get_frames k n s = Inr (f, t)"
  shows "\<exists>u. release_frame k f t = Inr u \<and> pools u = pools s
    \<and> (\<forall>j < 2 ^ 32. pool_status u k j = pool_status s k j)"
proof -
  obtain t' where t: "get_frames k n s = Inr (base_frame_no (pools s ! k) + of_nat z, t')"
    "\<And>j. j < 2 ^ 32 \<Longrightarrow> pool_status t' k j =
      (if j = z then Head else if z < j \<and> j < z + unat n then Used else pool_status s k j)"
    "pools t' = (pools s)[k := (pools s ! k)\<lparr>nFreeFrames := nFreeFrames (pools s ! k) - n\<rparr>]" "pool_inv k t'"
    using get_frames_run[OF assms(1-5)] by blast
  have eq: "f = base_frame_no (pools s ! k) + of_nat z" "t = t'" using t(1) assms(7) by simp_all
  have free: "pool_status s k j = Free" if "z \<le> j" "j < z + unat n" for j
    using assms(2,5) that by (simp add: unfragmented_def)
  have next_free: "pool_status s k (z + unat n) \<noteq> Used" if "z + unat n < pool_size s k"
    using assms(2)[unfolded unfragmented_def, rule_format, OF that] by auto
  have kt: "k < length (pools t')" using t(4) by (simp add: pool_inv_def)
  have fit: "unat (base_frame_no (pools s ! k)) + pool_size s k \<le> 2 ^ 32"
    "base_frame_no (pools s ! k) + nframes (pools s ! k) \<noteq> 0"
    using assms(6) by (simp_all add: fits_def)
  show ?thesis
    using release_undoes_take[OF kt assms(4,5) t(3) less_imp_le[OF pool_size_less] order_refl t(2) free next_free fit] unfolding eq by blast
qed

theorem get_release_roundtrip_witness:
  "\<exists>f t u. get_frames 0 3 demo_pool = Inr (f, t) \<and> release_frame 0 f t = Inr u
    \<and> pools u = pools demo_pool"
proof -
  obtain t where t: "get_frames 0 3 demo_pool = Inr (base_frame_no (pools demo_pool ! 0) + of_nat 1, t)"
    by (rule get_frames_run[of 0 demo_pool 1 3]) (simp_all only: demo_pool_facts, simp_all)
  have fits: "fits 0 demo_pool"
    by (simp add: fits_def demo_pool_facts)
  have "\<exists>u. release_frame 0 (base_frame_no (pools demo_pool ! 0) + of_nat 1) t = Inr u \<and> pools u = pools demo_pool
    \<and> (\<forall>j < 2 ^ 32. pool_status u 0 j = pool_status demo_pool 0 j)"
    by (rule get_release_roundtrip[OF demo_pool_facts(1,2) _ _ _ fits t]) (simp_all add: demo_pool_facts)
  with t show ?thesis by blast
qed

text \<open>\<open>P2_mark_inaccessible\<close> ignores the length of the range it is given: any two
lengths that pass its bounds check have the same outcome.\<close>

lemma P2_mark_inaccessible_ignores_length:
  "in_pool_range (pools s ! k) base n \<and> in_pool_range (pools s ! k) base n' \<longrightarrow>
    P2_mark_inaccessible k base n s = P2_mark_inaccessible k base n' s"
  by (simp add: P2_mark_inaccessible_def Let_def)

text \<open>P2's floating-point count of information frames is P3's integer count, and a
bitmap of two bits for each frame fits in that many frames.\<close>

lemma needed_info_frames_enough:
  "P2_needed_info_frames n = needed_info_frames n
    \<and> unat n \<le> unat (needed_info_frames n) * (4096 * 4)"
proof -
  have "unat n \<le> ((unat n - 1) div 16384 + 1) * 16384" 
    using div_mult_mod_eq[of "unat n - 1" 16384] mod_less_divisor[of 16384 "unat n - 1"]
    by (simp add: algebra_simps)
  then show ?thesis by (simp add: P2_needed_info_frames_eq_lemma unat_needed_info_frames)
qed

text \<open>C13: the pools of P3 and P4 as the kernel starts them: both pools satisfy their
invariant, and any number of single-frame requests to the process pool that its 6912
usable frames can serve return distinct frames of the pool outside the memory hole.\<close>

theorem boot_frames_are_safe:
  fixes s :: "'a frame_machine_scheme"
  assumes "pools s = []" and "n \<le> 6912"
  shows "\<exists>t fs u. boot_frame_pools s = Inr (0, 1, t) \<and> pool_ok 0 t \<and> pool_ok 1 t
    \<and> alloc_n (get_frames 1 1) n t = Inr (fs, u) \<and> length fs = n \<and> distinct fs
    \<and> (\<forall>f \<in> set fs. 1024 \<le> f \<and> f < 8192 \<and> \<not> (3840 \<le> f \<and> f < 4096)) \<and> pool_ok 1 u"
proof -
  obtain t where t: "boot_frame_pools s = Inr (0, 1, t)" "pool_ok 0 t" "pool_ok 1 t"
    "free_idx t 1 = {0 ..< 2816} \<union> {3072 ..< 7168}" "base_frame_no (pools t ! 1) = 1024"
    by (rule boot_frame_pools_result[OF assms(1)], rule that)
  have ff: "free_frames 1 t = (\<lambda>i. 1024 + of_nat i) ` ({0 ..< 2816} \<union> {3072 ..< 7168})"
    unfolding free_frames_def t(4,5) ..
  have "inj_on (\<lambda>i. 1024 + of_nat i :: u32) ({0 ..< 2816} \<union> {3072 ..< 7168})"
  proof (rule inj_onI)
    fix i j :: nat assume "i \<in> {0 ..< 2816} \<union> {3072 ..< 7168}" "j \<in> {0 ..< 2816} \<union> {3072 ..< 7168}"
      and eq: "(1024 :: u32) + of_nat i = 1024 + of_nat j"
    then have "i < 2 ^ 32" "j < 2 ^ 32" by auto
    then show "i = j" using eq add_of_nat_inj by blast
  qed
  then have "card (free_frames 1 t) = card ({0 ..< 2816} \<union> {3072 ..< 7168 :: nat})"
    unfolding ff by (rule card_image)
  also have "\<dots> = 6912" by (subst card_Un_disjoint) auto
  finally have "n \<le> card (free_frames 1 t)" "finite (free_frames 1 t)" using assms(2) ff by simp_all
  from cfp.alloc_n_distinct[OF t(3) this(2,1)] obtain fs u where
    fs: "alloc_n (get_frames 1 1) n t = Inr (fs, u)" "length fs = n" "distinct fs"
      "set fs \<subseteq> free_frames 1 t" "pool_ok 1 u" by blast
  have "1024 \<le> f \<and> f < 8192 \<and> \<not> (3840 \<le> f \<and> f < 4096)" if "f \<in> set fs" for f
  proof -
    have "f \<in> free_frames 1 t" using that fs(4) by blast
    then obtain i where "f = 1024 + of_nat i" "i \<in> {0 ..< 2816} \<union> {3072 ..< 7168}" unfolding ff by blast
    then have i: "f = 1024 + of_nat i" "i < 2816 \<or> 3072 \<le> i \<and> i < 7168" by auto
    then have "unat f = 1024 + i" using unat_add_of_nat[of 1024 i] by auto
    then show ?thesis using i(2) by (auto simp: word_le_nat_alt word_less_nat_alt)
  qed
  with t fs show ?thesis by blast
qed

theorem boot_frames_are_safe_witness:
  "\<exists>t fs u. boot_frame_pools demo_machine = Inr (0, 1, t) \<and> pool_ok 0 t \<and> pool_ok 1 t
    \<and> alloc_n (get_frames 1 1) 3 t = Inr (fs, u) \<and> length fs = 3 \<and> distinct fs
    \<and> (\<forall>f \<in> set fs. 1024 \<le> f \<and> f < 8192 \<and> \<not> (3840 \<le> f \<and> f < 4096)) \<and> pool_ok 1 u"
  by (rule boot_frames_are_safe) (simp_all add: demo_machine_def)

end
