(* ===== verification/Memory.thy ===== *)
theory Memory
  imports Prelude
begin

text \<open>
  Reasoning about byte-addressed memory: a 32-bit value written at an aligned address is
  read back, other aligned addresses keep their values, and bytes outside the four written
  ones are untouched. Page frames are 4096-byte blocks; an entry of a page table is an
  aligned 32-bit value inside one.
\<close>

section \<open>Aligned words\<close>

definition aligned4 :: "u32 \<Rightarrow> bool" where
  "aligned4 a \<longleftrightarrow> unat a mod 4 = 0"

lemma aligned4_iff_bits: "aligned4 a \<longleftrightarrow> a AND 3 = 0"
proof -
  have "take_bit 2 a = a AND 3" by (simp add: take_bit_eq_mask mask_eq_exp_minus_1)
  moreover have "unat (take_bit 2 a) = unat a mod 4"
    unfolding unsigned_take_bit_eq unfolding take_bit_eq_mod by simp
  ultimately show ?thesis by (metis aligned4_def unat_eq_zero)
qed

lemma bytes_of_u32:
  "(ucast (ucast (v :: u32) :: u8) :: u32) OR push_bit 8 (ucast (ucast (drop_bit 8 v) :: u8))
     OR push_bit 16 (ucast (ucast (drop_bit 16 v) :: u8)) OR push_bit 24 (ucast (ucast (drop_bit 24 v) :: u8)) = v"
proof (rule bit_word_eqI)
  fix n assume "n < LENGTH(32)"
  then have "n < 8 \<or> 8 \<le> n \<and> n < 16 \<or> 16 \<le> n \<and> n < 24 \<or> 24 \<le> n \<and> n < 32" by auto
  then show "bit ((ucast (ucast (v::u32) :: u8) :: u32) OR push_bit 8 (ucast (ucast (drop_bit 8 v) :: u8))
     OR push_bit 16 (ucast (ucast (drop_bit 16 v) :: u8)) OR push_bit 24 (ucast (ucast (drop_bit 24 v) :: u8))) n = bit v n"
    by (elim disjE) (auto simp: bit_simps)
qed

lemma read32_write32_same [mem_simps]: "read32 (write32 m a v) a = v"
proof -
  have "a + 1 \<noteq> a" "a + 2 \<noteq> a" "a + 3 \<noteq> a" "a + 2 \<noteq> a + 1" "a + 3 \<noteq> a + 1" "a + 3 \<noteq> a + 2" by simp_all
  then show ?thesis using bytes_of_u32[of v] by (simp add: read32_def write32_def)
qed

lemma aligned_add: "aligned4 a \<Longrightarrow> i < 4 \<Longrightarrow> unat (a + of_nat i) = unat a + i"
proof -
  assume a: "aligned4 a" and i: "i < 4"
  obtain q where q: "unat a = 4 * q" using a by (auto simp: aligned4_def mod_eq_0_iff_dvd elim: dvdE)
  have "q < 1073741824" using q unat_u32_less[of a] by simp
  then have "unat a + i < 4294967296" using q i by linarith
  then show ?thesis by (intro unat_add_of_nat) simp
qed

lemma aligned_ne:
  assumes "aligned4 a" "aligned4 b" "a \<noteq> b" "i < 4" "j < 4"
  shows "a + of_nat i \<noteq> b + of_nat j"
proof
  assume "a + of_nat i = b + of_nat j"
  then have "unat a + i = unat b + j" using aligned_add[OF assms(1,4)] aligned_add[OF assms(2,5)] by simp
  moreover obtain q r where qr: "unat a = 4 * q" "unat b = 4 * r"
    using assms(1,2) by (auto simp: aligned4_def mod_eq_0_iff_dvd elim!: dvdE)
  ultimately have "(i + 4 * q) div 4 = (j + 4 * r) div 4" by (simp add: add.commute)
  then have "unat a = unat b" using assms(4,5) qr by (simp del: div_add1_eq)
  with assms(3) show False by (simp add: word_unat_eq_iff)
qed

lemma read32_write32_other:
  assumes "aligned4 a" "aligned4 b" "a \<noteq> b"
  shows "read32 (write32 m a v) b = read32 m b"
proof -
  note ne = aligned_ne[OF assms, symmetric]
  note ne' = ne[of 0 0, simplified] ne[of 0 1, simplified] ne[of 0 2, simplified] ne[of 0 3, simplified]
    ne[of 1 0, simplified] ne[of 1 1, simplified] ne[of 1 2, simplified] ne[of 1 3, simplified]
    ne[of 2 0, simplified] ne[of 2 1, simplified] ne[of 2 2, simplified] ne[of 2 3, simplified]
    ne[of 3 0, simplified] ne[of 3 1, simplified] ne[of 3 2, simplified] ne[of 3 3, simplified]
  show ?thesis by (simp add: read32_def write32_def ne')
qed

lemma read32_write32 [mem_simps]:
  "aligned4 a \<Longrightarrow> aligned4 b \<Longrightarrow> read32 (write32 m a v) b = (if a = b then v else read32 m b)"
  by (simp add: read32_write32_same read32_write32_other)

section \<open>Page frames\<close>

definition page_of :: "u32 \<Rightarrow> u32" where
  "page_of a = a AND 0xFFFFF000"

lemma mask_numerals:
  "(0xFFF :: u32) = mask 12" "(0xFFFFF000 :: u32) = NOT (mask 12)" "(0xFFC :: u32) = push_bit 2 (mask 10)"
  "(0x3FF :: u32) = mask 10" "(0xFFC00000 :: u32) = NOT (mask 22)" "(0xFFFFFC00 :: u32) = NOT (mask 10)"
  "(3 :: u32) = mask 2" "(0x60 :: u32) = push_bit 5 (mask 2)"
  by (simp_all add: mask_eq_exp_minus_1)

text \<open>The bits of the flag masks.\<close>

lemma flag_bits:
  "bit (2 :: int) n \<longleftrightarrow> n = 1" "bit (4 :: int) n \<longleftrightarrow> n = 2" "bit (6 :: int) n \<longleftrightarrow> n = 1 \<or> n = 2"
  "bit (3 :: int) n \<longleftrightarrow> n = 0 \<or> n = 1"
  "bit (32 :: int) n \<longleftrightarrow> n = 5" "bit (64 :: int) n \<longleftrightarrow> n = 6" "bit (96 :: int) n \<longleftrightarrow> n = 5 \<or> n = 6"
proof -
  have p: "bit (2 ^ k :: int) n \<longleftrightarrow> n = k" for k by (auto simp: bit_exp_iff)
  show "bit (2 :: int) n \<longleftrightarrow> n = 1" "bit (4 :: int) n \<longleftrightarrow> n = 2"
    "bit (32 :: int) n \<longleftrightarrow> n = 5" "bit (64 :: int) n \<longleftrightarrow> n = 6"
    using p[of 1] p[of 2] p[of 5] p[of 6] by simp_all
  have m: "bit (push_bit k (mask 2) :: int) n \<longleftrightarrow> n = k \<or> n = k + 1" for k by (auto simp: bit_simps)
  show "bit (6 :: int) n \<longleftrightarrow> n = 1 \<or> n = 2" "bit (3 :: int) n \<longleftrightarrow> n = 0 \<or> n = 1"
    "bit (96 :: int) n \<longleftrightarrow> n = 5 \<or> n = 6"
    using m[of 1] m[of 0] m[of 5] by (simp_all add: mask_eq_exp_minus_1 push_bit_eq_mult numeral_2_eq_2)
qed

lemma page_of_page [simp]: "page_of (page_of a) = page_of a"
  by (simp add: page_of_def and.assoc)

definition page_aligned :: "u32 \<Rightarrow> bool" where
  "page_aligned a \<longleftrightarrow> page_of a = a"

lemma page_of_aligned [simp]: "page_aligned (page_of a)"
  by (simp add: page_aligned_def)

lemma bit_page_aligned: "page_aligned a \<Longrightarrow> bit a n \<Longrightarrow> 12 \<le> n"
  unfolding page_aligned_def page_of_def mask_numerals
  by (metis bit_and_iff bit_not_iff bit_mask_iff not_le)

text \<open>The address of entry \<open>i\<close> of the table in frame \<open>t\<close>; indices below 1024 stay in the frame.\<close>

definition entry_at :: "u32 \<Rightarrow> u32 \<Rightarrow> u32" where
  "entry_at t i = t + 4 * i"

lemma bit_below: "unat (w :: u32) < 2 ^ k \<Longrightarrow> bit w n \<Longrightarrow> n < k"
proof -
  assume "unat w < 2 ^ k" and b: "bit w n"
  then have "take_bit k (unat w) = unat w" by (simp add: take_bit_nat_eq_self)
  moreover have "bit (unat w) n" using b by (simp add: bit_unsigned_iff bit_imp_le_length)
  ultimately show "n < k" by (metis bit_take_bit_iff)
qed

lemma bit_lt_1024: "i < (1024 :: u32) \<Longrightarrow> bit i n \<Longrightarrow> n < 10"
  by (rule bit_below[of i]) (simp_all add: word_less_nat_alt)

lemma entry_at_or:
  assumes "page_aligned t" "i < 1024"
  shows "entry_at t i = t OR push_bit 2 i"
proof -
  have "t AND push_bit 2 i = 0"
  proof (rule bit_word_eqI)
    fix n assume "n < LENGTH(32)"
    show "bit (t AND push_bit 2 i) n = bit (0 :: u32) n"
      using bit_page_aligned[OF assms(1), of n] bit_lt_1024[OF assms(2), of "n - 2"]
      by (auto simp: bit_simps)
  qed
  then have "t + push_bit 2 i = t OR push_bit 2 i" by (rule disjunctive_add_eq_or)
  then show ?thesis by (simp add: entry_at_def push_bit_eq_mult mult.commute)
qed

lemma page_of_entry_at: "page_aligned t \<Longrightarrow> i < 1024 \<Longrightarrow> page_of (entry_at t i) = t"
proof -
  assume a: "page_aligned t" "i < 1024"
  show "page_of (entry_at t i) = t"
    unfolding entry_at_or[OF a] page_of_def mask_numerals
  proof (rule bit_word_eqI)
    fix n assume n: "n < LENGTH(32)"
    show "bit ((t OR push_bit 2 i) AND NOT (mask 12)) n = bit t n"
      using bit_page_aligned[OF a(1), of n] bit_lt_1024[OF a(2), of "n - 2"] n
      by (auto simp: bit_simps)
  qed
qed

lemma aligned4_entry_at: "page_aligned t \<Longrightarrow> i < 1024 \<Longrightarrow> aligned4 (entry_at t i)"
proof -
  assume a: "page_aligned t" "i < 1024"
  show "aligned4 (entry_at t i)"
    unfolding entry_at_or[OF a] aligned4_iff_bits mask_numerals
  proof (rule bit_word_eqI)
    fix n assume n: "n < LENGTH(32)"
    show "bit ((t OR push_bit 2 i) AND mask 2) n = bit (0 :: u32) n"
      using bit_page_aligned[OF a(1), of n] n by (auto simp: bit_simps)
  qed
qed

lemma entry_at_eq_iff:
  assumes "page_aligned t" "page_aligned u" "i < 1024" "j < 1024"
  shows "entry_at t i = entry_at u j \<longleftrightarrow> t = u \<and> i = j"
proof
  assume eq: "entry_at t i = entry_at u j"
  then have tu: "t = u" using page_of_entry_at assms by metis
  have "push_bit 2 i = push_bit 2 j" using eq by (simp add: tu entry_at_def push_bit_eq_mult mult.commute)
  then have "drop_bit 2 (push_bit 2 i) = drop_bit 2 (push_bit 2 j)" by simp
  then have "bit i n = bit j n" if "n < 10" for n
    using that \<open>push_bit 2 i = push_bit 2 j\<close> bit_push_bit_iff[of 2 i "n + 2"] bit_push_bit_iff[of 2 j "n + 2"]
    by (auto simp: bit_simps)
  then have "i = j" using bit_lt_1024[OF assms(3)] bit_lt_1024[OF assms(4)] by (metis bit_word_eqI)
  with tu show "t = u \<and> i = j" ..
qed simp

section \<open>Bytes outside a written word\<close>

lemma page_of_add: "aligned4 a \<Longrightarrow> i < 4 \<Longrightarrow> page_of (a + of_nat i) = page_of a"
proof -
  assume a: "aligned4 a" and i: "i < 4"
  have bi: "n < 2" if "bit (of_nat i :: u32) n" for n
    using i that by (intro bit_below[of "of_nat i" 2 n]) simp_all
  have ba: "2 \<le> n" if "bit a n" for n
  proof (rule ccontr)
    assume "\<not> 2 \<le> n"
    then have "bit (a AND 3) n" using that unfolding mask_numerals by (simp add: bit_simps bit_imp_le_length)
    then show False using a by (simp add: aligned4_iff_bits)
  qed
  have "a AND of_nat i = 0"
  proof (rule bit_word_eqI)
    fix n show "bit (a AND of_nat i) n = bit (0 :: u32) n" using bi[of n] ba[of n] by (auto simp: bit_and_iff)
  qed
  then have "a + of_nat i = a OR of_nat i" by (rule disjunctive_add_eq_or)
  then have "page_of (a + of_nat i) = page_of (a OR of_nat i)" by simp
  also have "\<dots> = page_of a"
    unfolding page_of_def mask_numerals
  proof (rule bit_word_eqI)
    fix n assume n: "n < LENGTH(32)"
    show "bit ((a OR of_nat i) AND NOT (mask 12)) n = bit (a AND NOT (mask 12)) n"
      using bi[of n] n by (auto simp: bit_simps)
  qed
  finally show "page_of (a + of_nat i) = page_of a" .
qed

lemma write32_other_page:
  assumes "aligned4 a" "page_of b \<noteq> page_of a"
  shows "write32 m a v b = m b"
proof -
  have "b \<noteq> a + of_nat i" if "i < 4" for i using page_of_add[OF assms(1) that] assms(2) by auto
  from this[of 0] this[of 1] this[of 2] this[of 3] show ?thesis by (simp add: write32_def)
qed

end
