(* ===== verification/Mmu.thy ===== *)
theory Mmu
  imports Memory
begin

text \<open>
  Address translation in the machine the kernels run on: the two-level page walk of
  \<open>translate_linear_legacy\<close> in P1/bochs-2.6.8/cpu/paging.cc, with the accessed and dirty
  bits it sets. The kernels never write CR4 and run without virtualisation, so the
  branches for 4 MB pages, PAE, SMEP, SMAP, global pages, VMX and SVM are not taken and
  are left out; the TLB, a cache of walk results, is left out as well.
\<close>

section \<open>The walk\<close>

datatype translation_fault = Page_Fault (fault_code: u32) (fault_laddr: u32)

text \<open>\<open>priv_check\<close>, indexed by \<open>wp us us rw rw\<close>.\<close>

definition priv_check :: "nat list" where
  "priv_check =
     [1, 1, 1, 1, 1, 1, 1, 1, 0, 0, 0, 0, 1, 0, 1, 1,
      1, 0, 1, 1, 1, 0, 1, 1, 0, 0, 0, 0, 1, 0, 1, 1]"

definition ERROR_NOT_PRESENT :: u32 where "ERROR_NOT_PRESENT = 0"
definition ERROR_PROTECTION :: u32 where "ERROR_PROTECTION = 1"

definition page_fault_at :: "u32 \<Rightarrow> u32 \<Rightarrow> bool \<Rightarrow> bool \<Rightarrow> translation_fault" where
  "page_fault_at fault laddr user write =
     Page_Fault (fault OR push_bit 2 (of_bool user) OR push_bit 1 (of_bool write)) laddr"

definition update_access_dirty :: "u32 \<Rightarrow> u32 \<Rightarrow> u32 \<Rightarrow> u32 \<Rightarrow> bool \<Rightarrow> memory \<Rightarrow> memory" where
  "update_access_dirty pde_addr pde pte_addr pte write m =
     (let m1 = (if pde AND 0x20 = 0 then write32 m pde_addr (pde OR 0x20) else m)
      in if pte AND 0x20 = 0 \<or> write \<and> pte AND 0x40 = 0
         then write32 m1 pte_addr (pte OR (0x20 OR push_bit 6 (of_bool write)))
         else m1)"

definition walk_pde_addr :: "u32 \<Rightarrow> u32 \<Rightarrow> u32" where
  "walk_pde_addr cr3 laddr = (cr3 AND 0xFFFFF000) + (drop_bit 20 laddr AND 0xFFC)"

definition walk_pte_addr :: "u32 \<Rightarrow> u32 \<Rightarrow> u32" where
  "walk_pte_addr pde laddr = (pde AND 0xFFFFF000) + (drop_bit 10 laddr AND 0xFFC)"

definition translate_linear_legacy ::
  "bool \<Rightarrow> u32 \<Rightarrow> u32 \<Rightarrow> bool \<Rightarrow> bool \<Rightarrow> memory \<Rightarrow> translation_fault + (u32 \<times> memory)" where
  "translate_linear_legacy wp cr3 laddr user write m =
     (let pde_addr = walk_pde_addr cr3 laddr; pde = read32 m pde_addr in
      if pde AND 1 = 0 then Inl (page_fault_at ERROR_NOT_PRESENT laddr user write)
      else let pte_addr = walk_pte_addr pde laddr; pte = read32 m pte_addr in
        if pte AND 1 = 0 then Inl (page_fault_at ERROR_NOT_PRESENT laddr user write)
        else
          let combined_access = 0x06 AND pde AND pte;
              priv_index = push_bit 4 (of_bool wp) OR push_bit 3 (of_bool user)
                 OR combined_access OR of_bool write;
              ppf = pte AND 0xFFFFF000
          in if priv_check ! unat priv_index = 0
             then Inl (page_fault_at ERROR_PROTECTION laddr user write)
             else Inr (ppf OR combined_access, update_access_dirty pde_addr pde pte_addr pte write m))"

definition translate_linear ::
  "bool \<Rightarrow> bool \<Rightarrow> u32 \<Rightarrow> u32 \<Rightarrow> bool \<Rightarrow> bool \<Rightarrow> memory \<Rightarrow> translation_fault + (u32 \<times> memory)" where
  "translate_linear pg wp cr3 laddr user write m =
     (if pg then
        case translate_linear_legacy wp cr3 laddr user write m of
          Inl f \<Rightarrow> Inl f
        | Inr (paddress, m') \<Rightarrow> Inr ((paddress AND NOT 0xFFF) OR (laddr AND 0xFFF), m')
      else Inr (laddr, m))"

section \<open>What a walk reads\<close>

text \<open>An entry without its accessed and dirty bits: all that decides a translation.\<close>

definition entry_val :: "memory \<Rightarrow> u32 \<Rightarrow> u32" where
  "entry_val m a = read32 m a AND NOT 0x60"

definition dir_index :: "u32 \<Rightarrow> u32" where
  "dir_index a = drop_bit 22 a"

definition table_index :: "u32 \<Rightarrow> u32" where
  "table_index a = drop_bit 12 a AND 0x3FF"

lemma dir_index_less: "dir_index a < 1024"
  using unat_u32_less[of a] by (simp add: dir_index_def word_less_nat_alt unat_drop_bit del: word_less_iff_unsigned)

lemma table_index_less: "table_index a < 1024"
  unfolding table_index_def mask_numerals by (simp only: word_less_nat_alt unat_and_mask) simp

lemma walk_pde_addr_eq: "walk_pde_addr cr3 a = entry_at (page_of cr3) (dir_index a)"
proof -
  have "drop_bit 20 a AND 0xFFC = push_bit 2 (dir_index a)"
    unfolding mask_numerals dir_index_def
  proof (rule bit_word_eqI)
    fix n assume n: "n < LENGTH(32)"
    show "bit (drop_bit 20 a AND push_bit 2 (mask 10)) n = bit (push_bit 2 (drop_bit 22 a)) n"
      using n bit_imp_le_length[of a "20 + n"] by (auto simp: bit_simps)
  qed
  then show ?thesis by (simp add: walk_pde_addr_def entry_at_def page_of_def push_bit_eq_mult mult.commute)
qed

lemma walk_pte_addr_eq: "walk_pte_addr e a = entry_at (page_of e) (table_index a)"
proof -
  have "drop_bit 10 a AND 0xFFC = push_bit 2 (table_index a)"
    unfolding mask_numerals table_index_def
  proof (rule bit_word_eqI)
    fix n assume n: "n < LENGTH(32)"
    show "bit (drop_bit 10 a AND push_bit 2 (mask 10)) n = bit (push_bit 2 (drop_bit 12 a AND mask 10)) n"
      using n by (auto simp: bit_simps)
  qed
  then show ?thesis by (simp add: walk_pte_addr_def entry_at_def page_of_def push_bit_eq_mult mult.commute)
qed

lemma entry_val_bits:
  "bit (entry_val m a) n \<longleftrightarrow> bit (read32 m a) n \<and> n \<noteq> 5 \<and> n \<noteq> 6"
  by (auto simp: entry_val_def flag_bits bit_simps dest: bit_imp_le_length)

lemma entry_val_page [simp]: "page_of (entry_val m a) = page_of (read32 m a)"
  unfolding page_of_def mask_numerals
  by (rule bit_word_eqI) (auto simp: bit_simps entry_val_bits)

lemma and_1_iff: "(w :: u32) AND 1 = 0 \<longleftrightarrow> \<not> bit w 0"
  using and_exp_eq_0_iff_not_bit[of w 0] by simp

lemma entry_val_present [simp]: "entry_val m a AND 1 = 0 \<longleftrightarrow> read32 m a AND 1 = 0"
  by (simp add: and_1_iff entry_val_bits)

lemma entry_val_write32 [mem_simps]:
  "aligned4 a \<Longrightarrow> aligned4 b \<Longrightarrow> entry_val (write32 m a v) b = (if a = b then v AND NOT 0x60 else entry_val m b)"
  by (simp add: entry_val_def read32_write32)

lemma update_access_dirty_vals:
  assumes "aligned4 a" "aligned4 b" "aligned4 c"
  shows "entry_val (update_access_dirty a (read32 m a) b (read32 m b) w m) c = entry_val m c"
proof -
  have "(v OR 0x20) AND NOT 0x60 = v AND NOT 0x60" "(v OR (0x20 OR 0x40)) AND NOT 0x60 = v AND NOT 0x60" for v :: u32
    by (rule bit_word_eqI; auto simp: bit_simps flag_bits)+
  then show ?thesis
    using assms by (auto simp: update_access_dirty_def Let_def entry_val_def read32_write32)
qed

lemma update_access_dirty_outside:
  assumes "aligned4 a" "aligned4 b" "page_of x \<noteq> page_of a" "page_of x \<noteq> page_of b"
  shows "update_access_dirty a v b u w m x = m x"
  using assms by (simp add: update_access_dirty_def Let_def write32_other_page)

section \<open>Translation by what is mapped\<close>

text \<open>\<open>lookup m d a\<close> is the frame that the page directory in frame \<open>d\<close> maps \<open>a\<close> to, with
its write permission.\<close>

definition lookup :: "memory \<Rightarrow> u32 \<Rightarrow> u32 \<Rightarrow> (u32 \<times> bool) option" where
  "lookup m d a =
     (let pde = entry_val m (entry_at d (dir_index a)) in
      if pde AND 1 = 0 then None
      else let pte = entry_val m (entry_at (page_of pde) (table_index a)) in
        if pte AND 1 = 0 then None else Some (page_of pte, bit pde 1 \<and> bit pte 1))"

lemma lookup_cong:
  assumes "\<And>b. aligned4 b \<Longrightarrow> entry_val m' b = entry_val m b" "page_aligned d"
  shows "lookup m' d a = lookup m d a"
  using assms by (simp add: lookup_def Let_def aligned4_entry_at dir_index_less table_index_less flip: entry_val_page entry_val_present)

lemma translate_unmapped:
  assumes "lookup m (page_of d) a = None"
  shows "translate_linear True wp d a user write m = Inl (page_fault_at ERROR_NOT_PRESENT a user write)"
  using assms
  by (auto simp: lookup_def Let_def translate_linear_def translate_linear_legacy_def walk_pde_addr_eq walk_pte_addr_eq
      split: if_splits)

lemma priv_check_supervisor:
  "priv_check ! unat (push_bit 4 (of_bool wp) OR push_bit 3 (of_bool False) OR (0x06 AND p AND q) OR of_bool write :: u32) = 0
    \<longleftrightarrow> wp \<and> write \<and> \<not> (bit p 1 \<and> bit q 1)"
proof -
  have "(0x06 AND p AND q :: u32) = (if bit p 1 \<and> bit q 1 then 2 else 0) OR (if bit p 2 \<and> bit q 2 then 4 else 0)"
    by (rule bit_word_eqI) (auto simp: bit_simps flag_bits)
  then show ?thesis by (auto simp: priv_check_def)
qed

lemma translate_mapped:
  assumes "lookup m (page_of d) a = Some (f, w)" "wp \<and> write \<longrightarrow> w"
  obtains m' where "translate_linear True wp d a False write m = Inr (f OR (a AND 0xFFF), m')"
    and "\<And>b. aligned4 b \<Longrightarrow> entry_val m' b = entry_val m b"
    and "\<And>x. page_of x \<noteq> page_of d \<Longrightarrow> page_of x \<noteq> page_of (entry_val m (entry_at (page_of d) (dir_index a))) \<Longrightarrow> m' x = m x"
proof -
  let ?pa = "entry_at (page_of d) (dir_index a)"
  let ?pde = "read32 m ?pa"
  let ?ta = "entry_at (page_of ?pde) (table_index a)"
  let ?pte = "read32 m ?ta"
  let ?m = "update_access_dirty ?pa ?pde ?ta ?pte write m"
  have p: "?pde AND 1 \<noteq> 0" "?pte AND 1 \<noteq> 0" "f = page_of ?pte" "w = (bit ?pde 1 \<and> bit ?pte 1)"
    using assms(1) by (auto simp: lookup_def Let_def entry_val_bits split: if_splits)
  have al: "aligned4 ?pa" "aligned4 ?ta" by (simp_all add: aligned4_entry_at dir_index_less table_index_less)
  have pg: "page_of ?pa = page_of d" "page_of ?ta = page_of ?pde"
    by (simp_all add: page_of_entry_at dir_index_less table_index_less)
  have addr: "((page_of ?pte OR (0x06 AND ?pde AND ?pte)) AND NOT 0xFFF) OR (a AND 0xFFF) = page_of ?pte OR (a AND 0xFFF)"
    unfolding page_of_def mask_numerals(1,2) by (rule bit_word_eqI) (auto simp: bit_simps)
  have "translate_linear True wp d a False write m = Inr (f OR (a AND 0xFFF), ?m)"
    using p assms(2) addr priv_check_supervisor[of wp ?pde ?pte "write"]
    by (simp add: translate_linear_def translate_linear_legacy_def walk_pde_addr_eq walk_pte_addr_eq Let_def
        page_of_def[symmetric])
  then show ?thesis
    using that[of ?m] update_access_dirty_vals[OF al] update_access_dirty_outside[OF al] pg by simp
qed

end
