(* ===== verification/Paging.thy ===== *)
theory Paging
  imports Mmu ContFramePool
begin

text \<open>
  The paging system: \<open>PageTable\<close> of P3 and of P4 (page_table.C there) and the virtual
  memory pools \<open>VMPool\<close> of P4 (vm_pool.C). Loads and stores of page-table entries go
  through the address translation of theory Mmu, so the P4 handler's use of the recursive
  directory entry is executed, not assumed. The frame pools' bitmaps lie below 4 MB, where
  virtual and physical addresses agree, and are accessed physically. The region list of a
  VM pool is an indexed array of \<open>RegionInfo\<close> that ends with its page; page faults on that page are not
  followed, except that \<open>is_legitimate\<close> answers them as the code does.
\<close>

section \<open>State\<close>

record region_info =
  start_frame :: u32
  region_size :: u32

record vm_pool =
  base_address :: u32
  vm_size :: u32
  frame_pool :: nat
  vm_page_table :: nat
  num_allocated :: nat
  allocated_list :: "nat \<Rightarrow> region_info"

record page_table =
  page_directory :: u32
  vmPools :: "nat list"

record paging_state = frame_machine +
  cr0 :: u32
  cr2 :: u32
  cr3 :: u32
  page_tables :: "page_table list"
  current_page_table :: "nat option"
  paging_enabled :: u32
  kernel_mem_pool :: nat
  process_mem_pool :: nat
  shared_size :: u32
  vm_pools :: "vm_pool list"

definition ENTRIES_PER_PAGE :: nat where "ENTRIES_PER_PAGE = 1024"
definition PAGE_SIZE :: u32 where "PAGE_SIZE = 4096"

section \<open>Loads and stores\<close>

definition translate :: "u32 \<Rightarrow> bool \<Rightarrow> 'a paging_state_scheme \<Rightarrow> translation_fault + (u32 \<times> memory)" where
  "translate a wr s = translate_linear (bit (cr0 s) 31) (bit (cr0 s) 16) (cr3 s) a False wr (mem s)"

definition load32 :: "u32 \<Rightarrow> 'a paging_state_scheme \<Rightarrow> (u32 \<times> 'a paging_state_scheme) result" where
  "load32 a s = (case translate a False s of
     Inl _ \<Rightarrow> Inl Unhandled_Page_Fault
   | Inr (p, m) \<Rightarrow> Inr (read32 m p, s\<lparr>mem := m\<rparr>))"

definition store32 :: "u32 \<Rightarrow> u32 \<Rightarrow> 'a paging_state_scheme \<Rightarrow> 'a paging_state_scheme result" where
  "store32 a v s = (case translate a True s of
     Inl _ \<Rightarrow> Inl Unhandled_Page_Fault
   | Inr (p, m) \<Rightarrow> Inr (s\<lparr>mem := write32 m p v\<rparr>))"

text \<open>Storing \<open>f i\<close> in the entries \<open>lo\<close> to \<open>hi - 1\<close>: the loops that fill a table.\<close>

function fill_entries ::
  "(nat \<Rightarrow> u32) \<Rightarrow> (nat \<Rightarrow> u32) \<Rightarrow> nat \<Rightarrow> nat \<Rightarrow> 'a paging_state_scheme \<Rightarrow> 'a paging_state_scheme result" where
  "fill_entries addr f hi i s =
     (if i < hi then andthen (store32 (addr i) (f i) s) (fill_entries addr f hi (Suc i)) else Inr s)"
  by pat_completeness auto
termination by (relation "measure (\<lambda>(addr, f, hi, i, s). hi - i)") auto

declare fill_entries.simps [simp del]

section \<open>Set-up\<close>

definition init_paging :: "nat \<Rightarrow> nat \<Rightarrow> u32 \<Rightarrow> 'a paging_state_scheme \<Rightarrow> 'a paging_state_scheme" where
  "init_paging kp pp sz s = puts (''Initialized Paging System'' @ [CHR 0x0A])
     (s\<lparr>kernel_mem_pool := kp, process_mem_pool := pp, shared_size := sz\<rparr>)"

text \<open>The identity map of the first table: the running \<open>address\<close> is \<open>i * PAGE_SIZE\<close>.\<close>

definition identity_entry :: "nat \<Rightarrow> u32" where
  "identity_entry i = of_nat i * PAGE_SIZE OR 3"

definition construct_PageTable :: "'a paging_state_scheme \<Rightarrow> (nat \<times> 'a paging_state_scheme) result" where
  "construct_PageTable s =
     andthen (get_frames (process_mem_pool s) 1 s) (\<lambda>(f, s1).
     andthen (get_frames (process_mem_pool s1) 1 s1) (\<lambda>(g, s2).
     let pd = 4096 * f; pt = 4096 * g in
     andthen (fill_entries (\<lambda>i. pt + 4 * of_nat i) identity_entry ENTRIES_PER_PAGE 0 s2) (\<lambda>s3.
     andthen (store32 pd pt s3) (\<lambda>s4.
     andthen (load32 pd s4) (\<lambda>(e, s5).
     andthen (store32 pd (e OR 3) s5) (\<lambda>s6.
     andthen (store32 (pd + 4 * of_nat (ENTRIES_PER_PAGE - 1)) (pd OR 3) s6) (\<lambda>s7.
     andthen (fill_entries (\<lambda>i. pd + 4 * of_nat i) (\<lambda>_. 0 OR 2) (ENTRIES_PER_PAGE - 1) 1 s7) (\<lambda>s8.
     Inr (length (page_tables s8),
       puts (''Constructed Page Table object'' @ [CHR 0x0A])
         (s8\<lparr>page_tables := page_tables s8 @ [\<lparr>page_directory = pd, vmPools = []\<rparr>]\<rparr>))))))))))"

text \<open>P3 takes both frames from the kernel pool and has no recursive entry.\<close>

definition P3_construct_PageTable :: "'a paging_state_scheme \<Rightarrow> (nat \<times> 'a paging_state_scheme) result" where
  "P3_construct_PageTable s =
     andthen (get_frames (kernel_mem_pool s) 1 s) (\<lambda>(f, s1).
     andthen (get_frames (kernel_mem_pool s1) 1 s1) (\<lambda>(g, s2).
     let pd = 4096 * f; pt = 4096 * g in
     andthen (fill_entries (\<lambda>i. pt + 4 * of_nat i) identity_entry ENTRIES_PER_PAGE 0
        (putui pt (puts (CHR 0x0A # ''Page table 1 addr1: '') s2))) (\<lambda>s3.
     andthen (store32 pd pt s3) (\<lambda>s4.
     andthen (load32 pd s4) (\<lambda>(e, s5).
     andthen (store32 pd (e OR 3) s5) (\<lambda>s6.
     andthen (fill_entries (\<lambda>i. pd + 4 * of_nat i) (\<lambda>_. 0 OR 2) ENTRIES_PER_PAGE 1 s6) (\<lambda>s7.
     Inr (length (page_tables s7),
       puts (''Constructed Page Table object'' @ [CHR 0x0A])
         (s7\<lparr>page_tables := page_tables s7 @ [\<lparr>page_directory = pd, vmPools = []\<rparr>]\<rparr>)))))))))"

definition load_page_table :: "nat \<Rightarrow> 'a paging_state_scheme \<Rightarrow> 'a paging_state_scheme" where
  "load_page_table t s = puts (''Loaded page table'' @ [CHR 0x0A])
     (s\<lparr>cr3 := page_directory (page_tables s ! t), current_page_table := Some t\<rparr>)"

definition enable_paging :: "'a paging_state_scheme \<Rightarrow> 'a paging_state_scheme" where
  "enable_paging s = puts (''Enabled paging'' @ [CHR 0x0A])
     (s\<lparr>cr0 := cr0 s OR 0x80000000, paging_enabled := 1\<rparr>)"

section \<open>Legitimate addresses\<close>

definition is_legitimate :: "vm_pool \<Rightarrow> u32 \<Rightarrow> bool" where
  "is_legitimate v a \<longleftrightarrow> num_allocated v = 0 \<or>
     (\<exists>i \<in> set [0..<num_allocated v].
        start_frame (allocated_list v i) \<le> a
        \<and> a < start_frame (allocated_list v i) + region_size (allocated_list v i))"

definition check_address :: "page_table \<Rightarrow> vm_pool list \<Rightarrow> u32 \<Rightarrow> bool" where
  "check_address t vs a \<longleftrightarrow> (\<exists>k \<in> set (vmPools t). is_legitimate (vs ! k) a)"

definition register_pool :: "nat \<Rightarrow> nat \<Rightarrow> 'a paging_state_scheme \<Rightarrow> 'a paging_state_scheme result" where
  "register_pool t k s =
     (if t \<ge> length (page_tables s) \<or> length (vmPools (page_tables s ! t)) \<ge> 10 then Inl Out_Of_Bounds
      else Inr (puts (''registered VM pool'' @ [CHR 0x0A])
        (s\<lparr>page_tables := (page_tables s)[t := (page_tables s ! t)\<lparr>vmPools := vmPools (page_tables s ! t) @ [k]\<rparr>]\<rparr>)))"

section \<open>Page faults\<close>

definition get_middle_10_bits :: "u32 \<Rightarrow> u32" where
  "get_middle_10_bits a = drop_bit 12 a AND NOT 0xFFFFFC00"

definition get_first_10_bits :: "u32 \<Rightarrow> u32" where
  "get_first_10_bits a = drop_bit 22 a"

definition construct_pte_address :: "u32 \<Rightarrow> u32 \<Rightarrow> u32" where
  "construct_pte_address pdi pti = 0xFFC00000 OR push_bit 12 pdi OR push_bit 2 pti"

definition construct_pde_address :: "u32 \<Rightarrow> u32" where
  "construct_pde_address pdi = 0xFFFFF000 OR push_bit 2 pdi"

definition add_page_table :: "u32 \<Rightarrow> 'a paging_state_scheme \<Rightarrow> 'a paging_state_scheme result" where
  "add_page_table pdi s =
     andthen (get_frames (process_mem_pool s) 1 s) (\<lambda>(f, s1).
     andthen (store32 (construct_pde_address pdi) (4096 * f OR 3) s1) (\<lambda>s2.
     fill_entries (\<lambda>i. construct_pte_address pdi (of_nat i)) (\<lambda>_. 2) ENTRIES_PER_PAGE 0 s2))"

definition add_page :: "u32 \<Rightarrow> 'a paging_state_scheme \<Rightarrow> 'a paging_state_scheme result" where
  "add_page pte_addr s =
     andthen (get_frames (process_mem_pool s) 1 s) (\<lambda>(f, s1).
     store32 pte_addr (4096 * f OR 3) s1)"

definition handle_fault :: "'a paging_state_scheme \<Rightarrow> 'a paging_state_scheme result" where
  "handle_fault s =
    (case current_page_table s of None \<Rightarrow> Inl Out_Of_Bounds
     | Some t \<Rightarrow>
       let fault_addr = cr2 s in
       if \<not> check_address (page_tables s ! t) (vm_pools s) fault_addr then Inl Aborted
       else
         let pdi = get_first_10_bits fault_addr; pti = get_middle_10_bits fault_addr in
         andthen (load32 (construct_pde_address pdi) s) (\<lambda>(pde, s1).
         andthen (if pde AND 1 = 0 then add_page_table pdi s1 else Inr s1) (\<lambda>s2.
         let pte_addr = construct_pte_address pdi pti in
         andthen (load32 pte_addr s2) (\<lambda>(pte, s3).
         if pte AND 1 = 0 then add_page pte_addr s3 else Inr s3))))"

definition P3_add_page_table :: "u32 \<Rightarrow> u32 \<Rightarrow> 'a paging_state_scheme \<Rightarrow> 'a paging_state_scheme result" where
  "P3_add_page_table pde_addr pdi s =
     andthen (get_frames (kernel_mem_pool s) 1 s) (\<lambda>(f, s1).
     let pt = 4096 * f in
     andthen (store32 pde_addr pt s1) (\<lambda>s2.
     andthen (load32 pde_addr s2) (\<lambda>(e, s3).
     andthen (store32 pde_addr (e OR 3) s3) (\<lambda>s4.
     fill_entries (\<lambda>i. pt + 4 * of_nat i) (\<lambda>_. 2) ENTRIES_PER_PAGE 0 s4))))"

definition P3_handle_fault :: "'a paging_state_scheme \<Rightarrow> 'a paging_state_scheme result" where
  "P3_handle_fault s =
    (case current_page_table s of None \<Rightarrow> Inl Out_Of_Bounds
     | Some t \<Rightarrow>
       let fault_addr = cr2 s; pd = page_directory (page_tables s ! t);
           pdi = drop_bit 22 fault_addr; pti = drop_bit 12 fault_addr AND NOT 0xFFFFFC00;
           pde_addr = pd + 4 * pdi in
       andthen (load32 pde_addr s) (\<lambda>(pde, s1).
       andthen (if pde AND 1 = 0 then P3_add_page_table pde_addr pdi s1 else Inr s1) (\<lambda>s2.
       andthen (load32 pde_addr s2) (\<lambda>(pde', s3).
       let pte_addr = (pde' AND NOT 0xFFF) + 4 * pti in
       andthen (load32 pte_addr s3) (\<lambda>(pte, s4).
       if pte AND 1 = 0 then add_page pte_addr s4 else Inr s4)))))"

section \<open>Freeing a page\<close>

definition reload_tlb :: "'a paging_state_scheme \<Rightarrow> 'a paging_state_scheme" where
  "reload_tlb s = s\<lparr>cr3 := cr3 s\<rparr>"

definition free_page :: "u32 \<Rightarrow> 'a paging_state_scheme \<Rightarrow> 'a paging_state_scheme result" where
  "free_page page_no s =
     (let pdi = drop_bit 10 page_no; pti = page_no AND NOT 0xFFFFFC00;
          pde_addr = construct_pde_address pdi; pte_addr = construct_pte_address pdi pti in
      andthen (load32 pde_addr s) (\<lambda>(pde, s1).
      andthen (if pde AND 1 \<noteq> 0 then load32 pte_addr s1 else Inr (0, s1)) (\<lambda>(pte, s2).
      if pde AND 1 \<noteq> 0 \<and> pte AND 1 \<noteq> 0 then
        andthen (load32 pte_addr s2) (\<lambda>(pte', s3).
        andthen (release_frames ((pte' AND NOT 0x3FF) div PAGE_SIZE) s3) (\<lambda>s4.
        andthen (store32 pte_addr 2 s4) (\<lambda>s5.
        Inr (puts (''freed page'' @ [CHR 0x0A]) (reload_tlb s5)))))
      else Inr (puts (''WARNING: ATTEMPTED TO FREE UNUSED PAGE'' @ [CHR 0x0A]) s2))))"

section \<open>Virtual memory pools\<close>

definition round_to_pages :: "u32 \<Rightarrow> u32" where
  "round_to_pages n = ((n - 1) div 4096 + 1) * 4096"

definition upd_vm :: "nat \<Rightarrow> (vm_pool \<Rightarrow> vm_pool) \<Rightarrow> 'a paging_state_scheme \<Rightarrow> 'a paging_state_scheme" where
  "upd_vm k f s = s\<lparr>vm_pools := (vm_pools s)[k := f (vm_pools s ! k)]\<rparr>"

text \<open>The assertion of the constructor reads the member \<open>base_address\<close> before it is set:
its value at that point is the argument \<open>garbage\<close>.\<close>

definition construct_VMPool ::
  "u32 \<Rightarrow> u32 \<Rightarrow> u32 \<Rightarrow> nat \<Rightarrow> nat \<Rightarrow> 'a paging_state_scheme \<Rightarrow> (nat \<times> 'a paging_state_scheme) result" where
  "construct_VMPool garbage base sz fp pt s =
     (if garbage AND 0x3FF \<noteq> 0 then Inl Assertion_Failed
      else
        let k = length (vm_pools s);
            v = \<lparr>base_address = base, vm_size = round_to_pages sz, frame_pool = fp, vm_page_table = pt,
                 num_allocated = 0, allocated_list = (\<lambda>_. \<lparr>start_frame = 0, region_size = 0\<rparr>)\<rparr>
        in andthen (register_pool pt k (s\<lparr>vm_pools := vm_pools s @ [v]\<rparr>)) (\<lambda>s1.
           Inr (k, puts (''Constructed VMPool object.'' @ [CHR 0x0A])
             (upd_vm k (\<lambda>v. v\<lparr>num_allocated := 1,
                allocated_list := (allocated_list v)(0 := \<lparr>start_frame = base, region_size = 4096\<rparr>)\<rparr>) s1))))"

function shift_up :: "nat \<Rightarrow> nat \<Rightarrow> (nat \<Rightarrow> region_info) \<Rightarrow> nat \<Rightarrow> region_info" where
  "shift_up i index l = (if i \<ge> index \<and> i \<noteq> 0 then shift_up (i - 1) index (l(i + 1 := l i)) else l)"
  by pat_completeness auto
termination by (relation "measure (\<lambda>(i, index, l). i)") auto

declare shift_up.simps [simp del]

text \<open>Called with \<open>index\<close> at least 1, so the descending loop stops before \<open>i\<close> wraps.\<close>

definition insert_item :: "region_info \<Rightarrow> nat \<Rightarrow> vm_pool \<Rightarrow> vm_pool" where
  "insert_item x index v =
     v\<lparr>allocated_list := (shift_up (num_allocated v - 1) index (allocated_list v))(index := x),
       num_allocated := num_allocated v + 1\<rparr>"

function shift_down :: "nat \<Rightarrow> nat \<Rightarrow> (nat \<Rightarrow> region_info) \<Rightarrow> nat \<Rightarrow> region_info" where
  "shift_down i n l = (if i < n then shift_down (Suc i) n (l(i := l (i + 1))) else l)"
  by pat_completeness auto
termination by (relation "measure (\<lambda>(i, n, l). n - i)") auto

declare shift_down.simps [simp del]

definition remove_item :: "nat \<Rightarrow> vm_pool \<Rightarrow> vm_pool" where
  "remove_item index v =
     v\<lparr>allocated_list := (shift_down index (num_allocated v) (allocated_list v))
         (num_allocated v - 1 := \<lparr>start_frame = 0, region_size = 0\<rparr>),
       num_allocated := num_allocated v - 1\<rparr>"

text \<open>The gap after entry \<open>i\<close>, computed modulo \<open>2 ^ 32\<close> as the code does.\<close>

definition region_end :: "region_info \<Rightarrow> u32" where
  "region_end r = start_frame r + region_size r"

function find_gap :: "(nat \<Rightarrow> region_info) \<Rightarrow> nat \<Rightarrow> u32 \<Rightarrow> nat \<Rightarrow> nat option" where
  "find_gap l n sz i =
     (if i < n then
        if start_frame (l (i + 1)) - start_frame (l i) - region_size (l i) \<ge> sz then Some i
        else find_gap l n sz (Suc i)
      else None)"
  by pat_completeness auto
termination by (relation "measure (\<lambda>(l, n, sz, i). n - i)") auto

declare find_gap.simps [simp del]

text \<open>The list lies in the one page that the constructor reserves for it: a further entry would be written past its end.\<close>

definition REGIONS_PER_PAGE :: nat where "REGIONS_PER_PAGE = 512"

definition add_region :: "u32 \<Rightarrow> u32 \<Rightarrow> nat \<Rightarrow> vm_pool \<Rightarrow> (u32 \<times> vm_pool) result" where
  "add_region a sz index v =
     (if num_allocated v < REGIONS_PER_PAGE then Inr (a, insert_item \<lparr>start_frame = a, region_size = sz\<rparr> index v) else Inl Out_Of_Bounds)"

definition vm_allocate :: "u32 \<Rightarrow> vm_pool \<Rightarrow> (u32 \<times> vm_pool) result" where
  "vm_allocate sz0 v =
     (let sz = round_to_pages sz0; l = allocated_list v; n = num_allocated v in
      case find_gap l (n - 1) sz 0 of
        Some i \<Rightarrow> add_region (region_end (l i)) sz (i + 1) v
      | None \<Rightarrow>
          if base_address v + vm_size v - start_frame (l (n - 1)) - region_size (l (n - 1)) \<ge> sz
          then add_region (region_end (l (n - 1))) sz n v
          else Inl Assertion_Failed)"

definition allocate :: "nat \<Rightarrow> u32 \<Rightarrow> 'a paging_state_scheme \<Rightarrow> (u32 \<times> 'a paging_state_scheme) result" where
  "allocate k sz s =
     andthen (vm_allocate sz (vm_pools s ! k)) (\<lambda>(a, v).
       Inr (a, puts (''Allocated region of memory.'' @ [CHR 0x0A]) (upd_vm k (\<lambda>_. v) s)))"

text \<open>The search of \<open>release\<close>: the body's \<open>region_num == i;\<close> is a comparison whose value is
dropped, so the loop returns the \<open>region_num\<close> it was given.\<close>

function release_search :: "(nat \<Rightarrow> region_info) \<Rightarrow> nat \<Rightarrow> u32 \<Rightarrow> nat \<Rightarrow> nat \<Rightarrow> nat" where
  "release_search l n a i region_num =
     (if i < n then
        if start_frame (l i) = a then (let dropped = (region_num = i) in region_num)
        else release_search l n a (Suc i) region_num
      else region_num)"
  by pat_completeness auto
termination by (relation "measure (\<lambda>(l, n, a, i, r). n - i)") auto

declare release_search.simps [simp del]

function free_pages :: "nat \<Rightarrow> nat \<Rightarrow> 'a paging_state_scheme \<Rightarrow> 'a paging_state_scheme result" where
  "free_pages p e s =
     (if p < e then andthen (free_page (of_nat p) s) (free_pages (Suc p) e) else Inr s)"
  by pat_completeness auto
termination by (relation "measure (\<lambda>(p, e, s). e - p)") auto

declare free_pages.simps [simp del]

definition vm_release :: "nat \<Rightarrow> u32 \<Rightarrow> 'a paging_state_scheme \<Rightarrow> 'a paging_state_scheme result" where
  "vm_release k a s =
     (let v = vm_pools s ! k;
          region_num = release_search (allocated_list v) (num_allocated v) a 1 0 in
      if region_num = 0 then Inr (puts (''ERROR: attempted to release non-allocated region!'' @ [CHR 0x0A]) s)
      else
        let r = allocated_list v region_num in
        andthen (free_pages (unat (start_frame r div 4096)) (unat (region_end r div 4096)) s) (\<lambda>s1.
        Inr (puts (''Released region of memory.'' @ [CHR 0x0A]) (upd_vm k (remove_item region_num) s1))))"

end
