(* ===== verification/SingleFrames.thy ===== *)
theory SingleFrames
  imports FramePoolCorrect
begin

text \<open>
  Frames taken and given back one at a time, as the page tables do it: the sets of free and
  of allocated frame numbers, what a request or a release does to them, and the part of the
  machine state that such an operation leaves alone.
\<close>

section \<open>Frame sets and frame conditions\<close>

definition geometry :: "'a frame_machine_scheme \<Rightarrow> cont_frame_pool list" where
  "geometry s = map (\<lambda>p. p\<lparr>nFreeFrames := 0\<rparr>) (pools s)"

definition head_frames :: "nat \<Rightarrow> 'a frame_machine_scheme \<Rightarrow> u32 set" where
  "head_frames k s = (\<lambda>i. base_frame_no (pools s ! k) + of_nat i) ` {i. i < pool_size s k \<and> pool_status s k i = Head}"

definition singles :: "nat \<Rightarrow> 'a frame_machine_scheme \<Rightarrow> bool" where
  "singles k s \<longleftrightarrow> (\<forall>i < pool_size s k. pool_status s k i \<noteq> Used)"

definition pool_bytes :: "nat \<Rightarrow> 'a frame_machine_scheme \<Rightarrow> u32 set" where
  "pool_bytes k s = bitmap_addrs (bitmap (pools s ! k)) (pool_size s k)"

definition only_pool :: "nat \<Rightarrow> 'a frame_machine_scheme \<Rightarrow> 'a frame_machine_scheme \<Rightarrow> bool" where
  "only_pool k s t \<longleftrightarrow> t = s\<lparr>mem := mem t, pools := pools t\<rparr> \<and> geometry t = geometry s
     \<and> (\<forall>a. a \<notin> pool_bytes k s \<longrightarrow> mem t a = mem s a)"

lemma geometry_nth:
  assumes "geometry t = geometry s" "k < length (pools s)"
  shows "base_frame_no (pools t ! k) = base_frame_no (pools s ! k)" "bitmap (pools t ! k) = bitmap (pools s ! k)"
    "nframes (pools t ! k) = nframes (pools s ! k)" "pool_size t k = pool_size s k"
    "pool_bytes k t = pool_bytes k s" "length (pools t) = length (pools s)"
proof -
  have l: "length (pools t) = length (pools s)" using assms(1) by (metis geometry_def length_map)
  have "(pools t ! k)\<lparr>nFreeFrames := 0\<rparr> = (pools s ! k)\<lparr>nFreeFrames := 0\<rparr>"
    using assms l by (metis geometry_def nth_map)
  then have "base_frame_no ((pools t ! k)\<lparr>nFreeFrames := 0\<rparr>) = base_frame_no ((pools s ! k)\<lparr>nFreeFrames := 0\<rparr>)"
    "bitmap ((pools t ! k)\<lparr>nFreeFrames := 0\<rparr>) = bitmap ((pools s ! k)\<lparr>nFreeFrames := 0\<rparr>)"
    "nframes ((pools t ! k)\<lparr>nFreeFrames := 0\<rparr>) = nframes ((pools s ! k)\<lparr>nFreeFrames := 0\<rparr>)" by simp_all
  then show "base_frame_no (pools t ! k) = base_frame_no (pools s ! k)" "bitmap (pools t ! k) = bitmap (pools s ! k)"
    "nframes (pools t ! k) = nframes (pools s ! k)" "pool_size t k = pool_size s k" "pool_bytes k t = pool_bytes k s"
    by (simp_all add: pool_size_def pool_bytes_def)
  show "length (pools t) = length (pools s)" by (rule l)
qed

lemma geometry_upd:
  "k < length (pools s) \<Longrightarrow> pools t = (pools s)[k := (pools s ! k)\<lparr>nFreeFrames := x\<rparr>] \<Longrightarrow> geometry t = geometry s"
  by (simp add: geometry_def map_update) (metis (no_types, lifting) cont_frame_pool.surjective cont_frame_pool.update_convs(2) list_update_id map_update nth_map)

lemma find_pool_geometry: "find_pool (map (\<lambda>p. p\<lparr>nFreeFrames := 0\<rparr>) ps) f = find_pool ps f"
  by (induction ps) simp_all

lemma find_pool_cong: "geometry t = geometry s \<Longrightarrow> find_pool (pools t) f = find_pool (pools s) f"
  by (metis geometry_def find_pool_geometry)

section \<open>A request\<close>

lemma get_frames_one_frame:
  assumes inv: "pool_inv k s" and g: "get_frames k 1 s = Inr (f, t)"
  shows "only_pool k s t"
proof -
  have k: "k < length (pools s)" using inv by (simp add: pool_inv_def)
  have nz: "nFreeFrames (pools s ! k) \<noteq> 0" using g k by (auto simp: get_frames_def Let_def split: if_splits)
  obtain i where i: "first_free s k = Some i" "take_frames k 1 i 1 s = (f, t)"
    using g get_frames_one_eq[OF k nz] by (auto split: option.splits)
  have il: "i < pool_size s k" using first_free_Some[OF i(1)] by (simp add: free_idx_def)
  then have i32: "i < 2 ^ 32" using pool_size_less[of s k] by simp
  have "take_frames k 1 i 1 s = (base_frame_no (pools s ! k) + of_nat i,
    upd_mem (\<lambda>m. used_loop (bitmap (pools s ! k)) (i + 1) (i + 1) (mark_head (bitmap (pools s ! k)) i m))
      (upd_pool k (\<lambda>p. p\<lparr>nFreeFrames := nFreeFrames p - 1\<rparr>) s))"
    using take_frames_eq[of i i 1 k s] i32 by simp
  then have t: "t = upd_mem (mark_head (bitmap (pools s ! k)) i) (upd_pool k (\<lambda>p. p\<lparr>nFreeFrames := nFreeFrames p - 1\<rparr>) s)"
    using i(2) by (simp add: used_loop.simps)
  have "geometry t = geometry s" by (rule geometry_upd[OF k]) (simp add: t)
  moreover have "mem t a = mem s a" if "a \<notin> pool_bytes k s" for a
    using mark_outside(1)[OF that[unfolded pool_bytes_def] il] by (simp add: t)
  moreover have "t = s\<lparr>mem := mem t, pools := pools t\<rparr>" by (simp add: t upd_mem_def upd_pool_def)
  ultimately show ?thesis by (simp add: only_pool_def)
qed

lemma get_one:
  assumes ok: "pool_ok k s" and one: "singles k s" and ne: "free_frames k s \<noteq> {}"
  obtains f t where "get_frames k 1 s = Inr (f, t)" "f \<in> free_frames k s"
    "free_frames k t = free_frames k s - {f}" "head_frames k t = insert f (head_frames k s)"
    "pool_ok k t" "singles k t" "only_pool k s t"
proof -
  obtain i t where g: "get_frames k 1 s = Inr (base_frame_no (pools s ! k) + of_nat i, t)"
    and i: "i \<in> free_idx s k"
    and st: "\<And>j. j < 2 ^ 32 \<Longrightarrow> pool_status t k j = (if j = i then Head else pool_status s k j)"
    and ff: "free_frames k t = free_frames k s - {base_frame_no (pools s ! k) + of_nat i}" and okt: "pool_ok k t"
    using get_frames_one_ok[OF ok ne] by metis
  have inv: "pool_inv k s" and k: "k < length (pools s)" using ok by (simp_all add: pool_ok_def pool_inv_def)
  have op: "only_pool k s t" by (rule get_frames_one_frame[OF inv g])
  note geo = geometry_nth[OF _ k, of t] op[unfolded only_pool_def]
  have size: "pool_size t k = pool_size s k" "base_frame_no (pools t ! k) = base_frame_no (pools s ! k)"
    using geo by simp_all
  have st': "pool_status t k j = (if j = i then Head else pool_status s k j)" if "j < pool_size s k" for j
    using st[of j] that pool_size_less[of s k] by simp
  have "{j. j < pool_size s k \<and> pool_status t k j = Head} = insert i {j. j < pool_size s k \<and> pool_status s k j = Head}"
    using st' i by (auto simp: free_idx_def split: if_splits)
  then have "head_frames k t = insert (base_frame_no (pools s ! k) + of_nat i) (head_frames k s)"
    unfolding head_frames_def size by simp
  moreover have "singles k t" using one st' size by (simp add: singles_def)
  moreover have "base_frame_no (pools s ! k) + of_nat i \<in> free_frames k s" using i by (simp add: free_frames_def)
  ultimately show ?thesis using that g ff okt op by blast
qed

section \<open>A release\<close>

lemma release_loop_stops:
  assumes "Suc i < hi \<Longrightarrow> pool_status s k (Suc i) \<noteq> Used"
  shows "release_loop k hi (Suc i) s = s"
  using assms by (auto simp: release_loop.simps[of k hi "Suc i"] pool_status_def status_Used_iff Let_def)

lemma release_one:
  assumes ok: "pool_ok k s" and one: "singles k s" and f: "f \<in> head_frames k s"
  obtains t where "release_frame k f s = Inr t"
    "free_frames k t = insert f (free_frames k s)" "head_frames k t = head_frames k s - {f}"
    "pool_ok k t" "singles k t" "only_pool k s t"
proof -
  let ?p = "pools s ! k" and ?base = "base_frame_no (pools s ! k)"
  obtain i where i: "f = ?base + of_nat i" "i < pool_size s k" "pool_status s k i = Head"
    using f by (auto simp: head_frames_def)
  have inv: "pool_inv k s" and k: "k < length (pools s)" and fit: "fits k s"
    using ok by (simp_all add: pool_ok_def pool_inv_def)
  let ?t = "upd_pool k (\<lambda>p. p\<lparr>nFreeFrames := nFreeFrames p + 1\<rparr>) (upd_mem (mark_free (bitmap ?p) i) s)"
  have i32: "i < 2 ^ 32" using i(2) pool_size_less[of s k] by simp
  have st: "pool_status ?t k j = (if j = i then Free else pool_status s k j)" if "j < 2 ^ 32" for j
    using status_update(3)[OF i32 that] k by (auto simp: pool_status_def)
  have run: "used_run s k (pool_size s k) (Suc i) = 0"
    using one by (cases "Suc i < pool_size s k") (auto simp: used_run_step singles_def)
  have stop: "release_loop k (pool_size s k) (Suc i) ?t = ?t"
    using one st[of "Suc i"] pool_size_less[of s k] by (intro release_loop_stops) (auto simp: singles_def)
  have idx: "unat (f - ?base) = i" using i(1) i32 by simp
  obtain t where rel: "release_frame k f s = Inr t"
    using release_frame_result[OF k i(2,3)] fit i(1) by (auto simp: fits_def)
  then have "release_frame k f s = Inr (release_loop k (pool_size s k) (Suc i) ?t)"
    unfolding release_frame_def Let_def idx by (auto simp: pool_size_def split: if_splits)
  then have rel: "release_frame k f s = Inr ?t" by (simp only: stop)
  have p: "pools ?t = (pools s)[k := ?p\<lparr>nFreeFrames := nFreeFrames ?p + 1\<rparr>]" by simp
  have geo: "geometry ?t = geometry s" by (rule geometry_upd[OF k p])
  note g = geometry_nth[OF geo k]
  have st': "pool_status ?t k j = (if j = i then Free else pool_status s k j)" if "j < pool_size s k" for j
    using st[of j] that pool_size_less[of s k] by simp
  have fi: "free_idx ?t k = insert i (free_idx s k)" "i \<notin> free_idx s k"
    using st' i unfolding free_idx_def g(4) by auto
  have hi: "{j. j < pool_size s k \<and> pool_status ?t k j = Head} = {j. j < pool_size s k \<and> pool_status s k j = Head} - {i}"
    using st' by (auto split: if_splits)
  have inj: "?base + of_nat j = ?base + of_nat i \<longleftrightarrow> j = i" if "j < pool_size s k" for j
    using that pool_size_less[of s k] i32 by (intro add_of_nat_inj) simp_all
  have hf: "head_frames k ?t = head_frames k s - {f}"
    unfolding head_frames_def g(1,4) hi i(1) using inj by auto
  have ff: "free_frames k ?t = insert f (free_frames k s)"
    unfolding free_frames_def g(1) fi(1) i(1) by simp
  have c: "card (free_idx ?t k) = Suc (card (free_idx s k))" using fi by simp
  have lt: "card (free_idx ?t k) \<le> pool_size s k"
    using card_mono[of "{..<pool_size s k}" "free_idx ?t k"] g(4) by (auto simp: free_idx_def)
  have "unat (nFreeFrames ?p + 1) = Suc (card (free_idx s k))"
  proof -
    have "unat (nFreeFrames ?p) = card (free_idx s k)" using inv by (simp add: pool_inv_def)
    then show ?thesis using c lt pool_size_less[of s k] unat_add_of_nat[of "nFreeFrames ?p" 1] by simp
  qed
  then have "pool_inv k ?t" using inv k c unfolding pool_inv_def by (simp add: p)
  moreover have "singles k ?t" using one st' unfolding singles_def g(4) by auto
  moreover from this have "follows_head k ?t" by (simp add: follows_head_def singles_def)
  moreover have "fits k ?t" using fit unfolding fits_def g(1,3,4) .
  moreover have "mem ?t a = mem s a" if "a \<notin> pool_bytes k s" for a
    using mark_outside(3)[OF that[unfolded pool_bytes_def] i(2)] by simp
  then have "only_pool k s ?t" using geo by (simp add: only_pool_def upd_mem_def upd_pool_def)
  ultimately show ?thesis using that[OF rel ff hf] by (simp add: pool_ok_def)
qed

lemma head_frames_in_range:
  assumes "fits k s" "f \<in> head_frames k s \<union> free_frames k s"
  obtains i where "f = base_frame_no (pools s ! k) + of_nat i" "i < pool_size s k"
  using assms by (auto simp: head_frames_def free_frames_def free_idx_def)

lemma head_free_disjoint: "head_frames k s \<inter> free_frames k s = {}"
proof -
  have "\<not> (f \<in> head_frames k s \<and> f \<in> free_frames k s)" for f
  proof
    assume "f \<in> head_frames k s \<and> f \<in> free_frames k s"
    then have h: "f \<in> head_frames k s" and r: "f \<in> free_frames k s" by simp_all
    obtain i where i: "f = base_frame_no (pools s ! k) + of_nat i" "i < pool_size s k" "pool_status s k i = Head"
      using h by (auto simp: head_frames_def)
    obtain j where j: "f = base_frame_no (pools s ! k) + of_nat j" "j < pool_size s k" "pool_status s k j = Free"
      using r by (auto simp: free_frames_def free_idx_def)
    note ij = i j
    then have "i = j" using pool_size_less[of s k] add_of_nat_inj[of i j "base_frame_no (pools s ! k)"] by simp
    with ij show False by simp
  qed
  then show ?thesis by blast
qed

end
