(* ===== verification/PagingCorrect.thy ===== *)
theory PagingCorrect
  imports Paging SingleFrames KernelPools
begin

text \<open>
  Correctness of the paging system of P4: the recursive addresses reach the entries they
  are meant to reach, the page-fault handler maps exactly the faulting page to a fresh
  frame, and every frame keeps one owner (the directory, one table or one page).
\<close>

section \<open>Recursive addresses\<close>

lemma pde_address_is_pte_address: "construct_pde_address i = construct_pte_address 1023 i"
proof -
  have "(0xFFC00000 OR push_bit 12 1023 :: u32) = 0xFFFFF000" by simp
  then show ?thesis
    unfolding construct_pde_address_def construct_pte_address_def or.assoc[symmetric] by (simp only:)
qed

lemma dir_index_1023: "(1023 :: u32) = mask 10"
  by (simp add: mask_eq_exp_minus_1)

lemma recursive_address:
  assumes "i < 1024" "j < 1024"
  shows "dir_index (construct_pte_address i j) = 1023" "table_index (construct_pte_address i j) = i"
    "construct_pte_address i j AND 0xFFF = push_bit 2 j"
proof -
  have i: "bit i n \<Longrightarrow> n < 10" and j: "bit j n \<Longrightarrow> n < 10" for n using assms bit_lt_1024 by blast+
  show "dir_index (construct_pte_address i j) = 1023"
    unfolding dir_index_def construct_pte_address_def mask_numerals dir_index_1023
  proof (rule bit_word_eqI)
    fix n assume n: "n < LENGTH(32)"
    show "bit (drop_bit 22 (NOT (mask 22) OR push_bit 12 i OR push_bit 2 j)) n = bit (mask 10 :: u32) n"
      using n i[of "n + 10"] j[of "n + 20"] bit_imp_le_length[of i "10 + n"] by (auto simp: bit_simps)
  qed
  show "table_index (construct_pte_address i j) = i"
    unfolding table_index_def construct_pte_address_def mask_numerals
  proof (rule bit_word_eqI)
    fix n assume n: "n < LENGTH(32)"
    show "bit (drop_bit 12 (NOT (mask 22) OR push_bit 12 i OR push_bit 2 j) AND mask 10) n = bit i n"
      using n i[of n] j[of "10 + n"] by (auto simp: bit_simps)
  qed
  show "construct_pte_address i j AND 0xFFF = push_bit 2 j"
    unfolding construct_pte_address_def mask_numerals
  proof (rule bit_word_eqI)
    fix n assume n: "n < LENGTH(32)"
    show "bit ((NOT (mask 22) OR push_bit 12 i OR push_bit 2 j) AND mask 12) n = bit (push_bit 2 j) n"
      using n j[of "n - 2"] by (auto simp: bit_simps)
  qed
qed

section \<open>Entries\<close>

definition entry :: "memory \<Rightarrow> u32 \<Rightarrow> u32 option" where
  "entry m a = (let e = entry_val m a in if e AND 1 = 0 then None else Some (page_of e))"

definition mapping :: "memory \<Rightarrow> u32 \<Rightarrow> u32 \<Rightarrow> u32 \<Rightarrow> u32 option" where
  "mapping m d i j = Option.bind (entry m (entry_at d i)) (\<lambda>t. entry m (entry_at t j))"

text \<open>Paging is on, CR3 holds the frame of a directory whose last entry is the directory.\<close>

definition recursive :: "'a paging_state_scheme \<Rightarrow> bool" where
  "recursive s \<longleftrightarrow> bit (cr0 s) 31 \<and> page_aligned (cr3 s)
     \<and> entry_val (mem s) (entry_at (cr3 s) 1023) = cr3 s OR 3"

lemma flags_3:
  assumes "page_aligned t"
  shows "(t OR 3) AND NOT 0x60 = t OR 3" "(t OR 3) AND 1 \<noteq> 0" "page_of (t OR 3) = t" "bit (t OR 3) 1"
proof -
  note b = bit_page_aligned[OF assms]
  show "(t OR 3) AND NOT 0x60 = t OR 3"
    by (rule bit_word_eqI) (auto simp: bit_simps flag_bits dest: b)
  show "(t OR 3) AND 1 \<noteq> 0" unfolding and_1_iff by (simp add: bit_simps flag_bits)
  show "bit (t OR 3) 1" by (simp add: bit_simps flag_bits)
  show "page_of (t OR 3) = t"
    unfolding page_of_def mask_numerals(2) by (rule bit_word_eqI) (auto simp: bit_simps flag_bits dest: b)
qed

lemma flags_2: "(2 :: u32) AND NOT 0x60 = 2" "(2 :: u32) AND 1 = 0"
  by simp_all

lemma lookup_recursive:
  assumes "recursive s" "i < 1024" "j < 1024"
    and "entry (mem s) (entry_at (cr3 s) i) = Some t" "bit (entry_val (mem s) (entry_at (cr3 s) i)) 1"
  shows "lookup (mem s) (page_of (cr3 s)) (construct_pte_address i j) = Some (t, True)"
proof -
  have d: "page_aligned (cr3 s)" "page_of (cr3 s) = cr3 s" using assms(1) by (simp_all add: recursive_def page_aligned_def)
  note f = flags_3[OF d(1)]
  show ?thesis
    using assms f(2,3,4)
    by (auto simp: lookup_def Let_def recursive_address d(2) recursive_def entry_def split: if_splits
        simp del: entry_val_page entry_val_present)
qed

lemma entry_page_aligned: "entry m a = Some t \<Longrightarrow> page_aligned t"
  by (auto simp: entry_def Let_def split: if_splits)

text \<open>A load or a store through the recursive mapping reaches entry \<open>j\<close> of table \<open>i\<close>.\<close>

lemma load_recursive:
  assumes r: "recursive s" and ij: "i < 1024" "j < 1024"
    and t: "entry (mem s) (entry_at (cr3 s) i) = Some t" "bit (entry_val (mem s) (entry_at (cr3 s) i)) 1"
  obtains v s' where "load32 (construct_pte_address i j) s = Inr (v, s')" "s' = s\<lparr>mem := mem s'\<rparr>"
    "v AND NOT 0x60 = entry_val (mem s) (entry_at t j)"
    "\<And>b. aligned4 b \<Longrightarrow> entry_val (mem s') b = entry_val (mem s) b"
    "\<And>x. page_of x \<noteq> cr3 s \<Longrightarrow> mem s' x = mem s x"
proof -
  have pg: "bit (cr0 s) 31" "page_of (cr3 s) = cr3 s" and d: "entry_val (mem s) (entry_at (cr3 s) 1023) = cr3 s OR 3"
    and al: "page_aligned (cr3 s)"
    using r by (simp_all add: recursive_def page_aligned_def)
  note lk = lookup_recursive[OF r ij t]
  obtain m' where m: "translate_linear True (bit (cr0 s) 16) (cr3 s) (construct_pte_address i j) False False (mem s)
      = Inr (t OR (construct_pte_address i j AND 0xFFF), m')"
    "\<And>b. aligned4 b \<Longrightarrow> entry_val m' b = entry_val (mem s) b"
    "\<And>x. page_of x \<noteq> page_of (cr3 s) \<Longrightarrow>
      page_of x \<noteq> page_of (entry_val (mem s) (entry_at (page_of (cr3 s)) (dir_index (construct_pte_address i j)))) \<Longrightarrow> m' x = mem s x"
    by (rule translate_mapped[OF lk, of "bit (cr0 s) 16" False]) simp_all
  have ta: "page_aligned t" using t(1) by (rule entry_page_aligned)
  have "t OR (construct_pte_address i j AND 0xFFF) = entry_at t j"
    by (simp add: recursive_address ij entry_at_or[OF ta ij(2)])
  then have ld: "load32 (construct_pte_address i j) s = Inr (read32 m' (entry_at t j), s\<lparr>mem := m'\<rparr>)"
    using m(1) pg by (simp add: load32_def translate_def)
  have "read32 m' (entry_at t j) AND NOT 0x60 = entry_val (mem s) (entry_at t j)"
    using m(2)[OF aligned4_entry_at[OF ta ij(2)]] by (simp add: entry_val_def)
  moreover have "m' x = mem s x" if "page_of x \<noteq> cr3 s" for x
    by (rule m(3)) (simp_all only: recursive_address(1)[OF ij] pg(2) d flags_3(3)[OF al] that not_False_eq_True)
  ultimately show ?thesis using that[OF ld] m(2) by simp
qed

lemma store_recursive:
  assumes r: "recursive s" and ij: "i < 1024" "j < 1024"
    and t: "entry (mem s) (entry_at (cr3 s) i) = Some t" "bit (entry_val (mem s) (entry_at (cr3 s) i)) 1"
  obtains s' where "store32 (construct_pte_address i j) v s = Inr s'" "s' = s\<lparr>mem := mem s'\<rparr>"
    "\<And>b. aligned4 b \<Longrightarrow> entry_val (mem s') b = (if b = entry_at t j then v AND NOT 0x60 else entry_val (mem s) b)"
    "\<And>x. page_of x \<noteq> cr3 s \<Longrightarrow> page_of x \<noteq> t \<Longrightarrow> mem s' x = mem s x"
proof -
  have pg: "bit (cr0 s) 31" "page_of (cr3 s) = cr3 s" and d: "entry_val (mem s) (entry_at (cr3 s) 1023) = cr3 s OR 3"
    and al: "page_aligned (cr3 s)"
    using r by (simp_all add: recursive_def page_aligned_def)
  note lk = lookup_recursive[OF r ij t]
  obtain m' where m: "translate_linear True (bit (cr0 s) 16) (cr3 s) (construct_pte_address i j) False True (mem s)
      = Inr (t OR (construct_pte_address i j AND 0xFFF), m')"
    "\<And>b. aligned4 b \<Longrightarrow> entry_val m' b = entry_val (mem s) b"
    "\<And>x. page_of x \<noteq> page_of (cr3 s) \<Longrightarrow>
      page_of x \<noteq> page_of (entry_val (mem s) (entry_at (page_of (cr3 s)) (dir_index (construct_pte_address i j)))) \<Longrightarrow> m' x = mem s x"
    by (rule translate_mapped[OF lk, of "bit (cr0 s) 16" True]) simp_all
  have ta: "page_aligned t" using t(1) by (rule entry_page_aligned)
  have ea: "aligned4 (entry_at t j)" by (rule aligned4_entry_at[OF ta ij(2)])
  have "t OR (construct_pte_address i j AND 0xFFF) = entry_at t j"
    by (simp add: recursive_address ij entry_at_or[OF ta ij(2)])
  then have st: "store32 (construct_pte_address i j) v s = Inr (s\<lparr>mem := write32 m' (entry_at t j) v\<rparr>)"
    using m(1) pg by (simp add: store32_def translate_def)
  show ?thesis
  proof (rule that[OF st])
    show "entry_val (mem (s\<lparr>mem := write32 m' (entry_at t j) v\<rparr>)) b
      = (if b = entry_at t j then v AND NOT 0x60 else entry_val (mem s) b)" if "aligned4 b" for b
      using entry_val_write32[OF ea that, of m' v] m(2)[OF that] by auto
    show "mem (s\<lparr>mem := write32 m' (entry_at t j) v\<rparr>) x = mem s x"
      if "page_of x \<noteq> cr3 s" "page_of x \<noteq> t" for x
    proof -
      have "m' x = mem s x"
        by (rule m(3)) (simp_all only: recursive_address(1)[OF ij] pg(2) d flags_3(3)[OF al] that not_False_eq_True)
      then show ?thesis
        using write32_other_page[OF ea, of x m' v] page_of_entry_at[OF ta ij(2)] that by simp
    qed
  qed simp
qed

lemma recursive_cong:
  assumes "recursive s" "s' = s\<lparr>mem := m'\<rparr>"
    and "entry_val m' (entry_at (cr3 s) 1023) = entry_val (mem s) (entry_at (cr3 s) 1023)"
  shows "recursive s'"
  using assms by (simp add: recursive_def)

lemma of_nat_less_1024: "j < 1024 \<Longrightarrow> (of_nat j :: u32) < 1024"
  by (simp add: word_less_nat_alt)

lemma entry_at_inj_nat:
  "page_aligned t \<Longrightarrow> i < 1024 \<Longrightarrow> j < 1024 \<Longrightarrow> entry_at t (of_nat i) = entry_at t (of_nat j) \<longleftrightarrow> i = j"
  by (simp add: entry_at_eq_iff of_nat_less_1024 of_nat_u32_eq_iff)

lemma entry_cong: "entry_val m' a = entry_val m a \<Longrightarrow> entry m' a = entry m a"
  by (simp add: entry_def Let_def flip: entry_val_page entry_val_present)

lemma fill_table:
  assumes r: "recursive s" and i: "i < 1023"
    and t: "entry (mem s) (entry_at (cr3 s) i) = Some t" "bit (entry_val (mem s) (entry_at (cr3 s) i)) 1" "t \<noteq> cr3 s"
    and k: "k \<le> 1024"
  shows "\<exists>s'. fill_entries (\<lambda>j. construct_pte_address i (of_nat j)) (\<lambda>_. 2) 1024 k s = Inr s'
    \<and> s' = s\<lparr>mem := mem s'\<rparr>
    \<and> (\<forall>b. aligned4 b \<longrightarrow> entry_val (mem s') b =
        (if \<exists>j. k \<le> j \<and> j < 1024 \<and> b = entry_at t (of_nat j) then 2 else entry_val (mem s) b))
    \<and> (\<forall>x. page_of x \<noteq> cr3 s \<longrightarrow> page_of x \<noteq> t \<longrightarrow> mem s' x = mem s x)"
  using r t k
proof (induction "1024 - k" arbitrary: k s)
  case 0
  then show ?case by (intro exI[of _ s]) (auto simp: fill_entries.simps)
next
  case (Suc n)
  then have k: "k < 1024" by simp
  have i4: "i < 1024" using i by (simp add: word_less_nat_alt)
  have d: "page_aligned (cr3 s)" and ta: "page_aligned t"
    using Suc.prems(1,2) by (auto simp: recursive_def dest: entry_page_aligned)
  obtain s1 where s1: "store32 (construct_pte_address i (of_nat k)) 2 s = Inr s1" "s1 = s\<lparr>mem := mem s1\<rparr>"
    and e1: "\<And>b. aligned4 b \<Longrightarrow> entry_val (mem s1) b =
      (if b = entry_at t (of_nat k) then 2 AND NOT 0x60 else entry_val (mem s) b)"
    and o1: "\<And>x. page_of x \<noteq> cr3 s \<Longrightarrow> page_of x \<noteq> t \<Longrightarrow> mem s1 x = mem s x"
    using store_recursive[OF Suc.prems(1) i4 of_nat_less_1024[OF k] Suc.prems(2,3)] by blast
  have c: "cr3 s1 = cr3 s" by (subst s1(2)) simp
  have keep: "entry_val (mem s1) (entry_at (cr3 s) j) = entry_val (mem s) (entry_at (cr3 s) j)" if "j < 1024" for j
    using e1[OF aligned4_entry_at[OF d that]] Suc.prems(4) page_of_entry_at[OF d that]
      page_of_entry_at[OF ta of_nat_less_1024[OF k]] by auto
  have r1: "recursive s1" by (rule recursive_cong[OF Suc.prems(1) s1(2) keep]) (simp add: word_less_nat_alt)
  have t1: "entry (mem s1) (entry_at (cr3 s1) i) = Some t" "bit (entry_val (mem s1) (entry_at (cr3 s1) i)) 1" "t \<noteq> cr3 s1"
    unfolding c using entry_cong[OF keep[OF i4]] keep[OF i4] Suc.prems(2-4) by auto
  have "n = 1024 - Suc k" "Suc k \<le> 1024" using Suc.hyps(2) k by simp_all
  from Suc.hyps(1)[OF this(1) r1 t1 this(2)] obtain s' where
    s': "fill_entries (\<lambda>j. construct_pte_address i (of_nat j)) (\<lambda>_. 2) 1024 (Suc k) s1 = Inr s'"
      "s' = s1\<lparr>mem := mem s'\<rparr>"
    and e': "\<forall>b. aligned4 b \<longrightarrow> entry_val (mem s') b =
        (if \<exists>j. Suc k \<le> j \<and> j < 1024 \<and> b = entry_at t (of_nat j) then 2 else entry_val (mem s1) b)"
    and o': "\<forall>x. page_of x \<noteq> cr3 s1 \<longrightarrow> page_of x \<noteq> t \<longrightarrow> mem s' x = mem s1 x" by blast
  have "fill_entries (\<lambda>j. construct_pte_address i (of_nat j)) (\<lambda>_. 2) 1024 k s = Inr s'"
    using s1(1) s'(1) k by (simp add: fill_entries.simps[of _ _ 1024 k])
  moreover have "s' = s\<lparr>mem := mem s'\<rparr>" by (subst s'(2), subst s1(2)) simp
  moreover have "entry_val (mem s') b =
      (if \<exists>j. k \<le> j \<and> j < 1024 \<and> b = entry_at t (of_nat j) then 2 else entry_val (mem s) b)" if "aligned4 b" for b
  proof -
    have "(\<exists>j. k \<le> j \<and> j < 1024 \<and> b = entry_at t (of_nat j)) \<longleftrightarrow>
      b = entry_at t (of_nat k) \<or> (\<exists>j. Suc k \<le> j \<and> j < 1024 \<and> b = entry_at t (of_nat j))"
      using k by (metis Suc_leD Suc_leI le_neq_implies_less order_refl)
    then show ?thesis using e'[rule_format, OF that] e1[OF that] by auto
  qed
  ultimately show ?case using o1 o' c by (intro exI[of _ s']) auto
qed

section \<open>The process pool and the table frames\<close>

definition pool_pages :: "nat \<Rightarrow> 'a frame_machine_scheme \<Rightarrow> u32 set" where
  "pool_pages k s = (\<lambda>i. 4096 * (base_frame_no (pools s ! k) + of_nat i)) ` {..<pool_size s k}"

definition layout :: "nat \<Rightarrow> 'a frame_machine_scheme \<Rightarrow> bool" where
  "layout k s \<longleftrightarrow> k < length (pools s) \<and> unat (base_frame_no (pools s ! k)) + pool_size s k \<le> 2 ^ 20
     \<and> (\<forall>i < pool_size s k. find_pool (pools s) (base_frame_no (pools s ! k) + of_nat i) = Some k)
     \<and> (\<forall>a \<in> pool_bytes k s. page_of a \<notin> pool_pages k s)"

lemma layout_cong:
  assumes "geometry t = geometry s" "layout k s"
  shows "layout k t" "pool_pages k t = pool_pages k s"
proof -
  have k: "k < length (pools s)" using assms(2) by (simp add: layout_def)
  note g = geometry_nth[OF assms(1) k]
  show "pool_pages k t = pool_pages k s" by (simp add: pool_pages_def g)
  then show "layout k t" using assms(2) unfolding layout_def g find_pool_cong[OF assms(1)] by simp
qed

lemma frame_number:
  assumes "layout k s" "f \<in> head_frames k s \<union> free_frames k s"
  shows "unat f < 2 ^ 20" "4096 * f \<in> pool_pages k s" "find_pool (pools s) f = Some k"
proof -
  obtain i where i: "f = base_frame_no (pools s ! k) + of_nat i" "i < pool_size s k"
    using assms(2) by (auto simp: head_frames_def free_frames_def free_idx_def)
  have "unat (base_frame_no (pools s ! k)) + i < 2 ^ 20" using assms(1) i(2) by (simp add: layout_def)
  then show "unat f < 2 ^ 20" unfolding i(1) by (subst unat_add_of_nat) simp_all
  show "4096 * f \<in> pool_pages k s" using i by (auto simp: pool_pages_def)
  show "find_pool (pools s) f = Some k" using assms(1) i by (simp add: layout_def)
qed

lemma frame_page_aligned: "page_aligned (4096 * f)"
proof -
  have "4096 * f = push_bit 12 f" by (simp add: push_bit_eq_mult mult.commute)
  then show ?thesis
    unfolding page_aligned_def page_of_def mask_numerals by (auto intro!: bit_word_eqI simp: bit_simps)
qed

lemma unat_frame_page: "unat f < 2 ^ 20 \<Longrightarrow> unat (4096 * f :: u32) = 4096 * unat f"
  by (simp add: unat_word_ariths take_bit_nat_eq_self)

lemma frame_page_inj: "unat f < 2 ^ 20 \<Longrightarrow> unat g < 2 ^ 20 \<Longrightarrow> 4096 * f = (4096 * g :: u32) \<longleftrightarrow> f = g"
  using unat_frame_page[of f] unat_frame_page[of g] by (metis nat_mult_eq_cancel1 word_unat_eq_iff zero_less_numeral)

lemma pool_preserved:
  assumes s': "s' = s\<lparr>mem := mem s'\<rparr>" and b: "\<And>x. x \<in> pool_bytes k s \<Longrightarrow> mem s' x = mem s x"
  shows "i < pool_size s k \<Longrightarrow> pool_status s' k i = pool_status s k i" "pools s' = pools s"
    "free_frames k s' = free_frames k s" "head_frames k s' = head_frames k s"
    "pool_ok k s' = pool_ok k s" "singles k s' = singles k s" "geometry s' = geometry s"
proof -
  show p: "pools s' = pools s" by (subst s') simp
  then show "geometry s' = geometry s" by (simp add: geometry_def)
  have sz: "pool_size s' k = pool_size s k" by (simp add: pool_size_def p)
  have st: "pool_status s' k i = pool_status s k i" if "i < pool_size s k" for i
    unfolding pool_status_def p
    by (rule status_cong[OF _ that]) (use b in \<open>simp add: pool_bytes_def\<close>)
  then show "i < pool_size s k \<Longrightarrow> pool_status s' k i = pool_status s k i" .
  have fi: "free_idx s' k = free_idx s k" using st by (auto simp: free_idx_def sz)
  show "free_frames k s' = free_frames k s" by (simp add: free_frames_def fi p)
  have "{i. i < pool_size s k \<and> pool_status s' k i = Head} = {i. i < pool_size s k \<and> pool_status s k i = Head}"
    using st by auto
  then show "head_frames k s' = head_frames k s" by (simp add: head_frames_def sz p)
  show "singles k s' = singles k s" using st by (auto simp: singles_def sz)
  have "follows_head k s' = follows_head k s" using st by (auto simp: follows_head_def sz)
  then show "pool_ok k s' = pool_ok k s" by (simp add: pool_ok_def pool_inv_def fits_def fi sz p)
qed

end
