(* ===== verification/PageFaults.thy ===== *)
theory PageFaults
  imports PagingCorrect
begin

text \<open>
  The P4 page-fault handler keeps the paging invariant and maps exactly the faulting page.
  Every frame that the paging system has taken has one owner: the directory, one table, or
  one page of the address space above 4 MB.
\<close>

section \<open>Owners of frames\<close>

datatype owner = Directory | Table u32 | Page u32 u32

fun owned :: "memory \<Rightarrow> u32 \<Rightarrow> owner \<Rightarrow> u32 option" where
  "owned m d Directory = Some d"
| "owned m d (Table i) = (if i < 1023 then entry m (entry_at d i) else None)"
| "owned m d (Page i j) = (if 0 < i \<and> i < 1023 \<and> j < 1024 then mapping m d i j else None)"

definition writable :: "memory \<Rightarrow> u32 \<Rightarrow> bool" where
  "writable m a \<longleftrightarrow> (entry m a \<noteq> None \<longrightarrow> bit (entry_val m a) 1)"

definition all_writable :: "memory \<Rightarrow> u32 \<Rightarrow> bool" where
  "all_writable m d \<longleftrightarrow> (\<forall>i < 1023. writable m (entry_at d i)
     \<and> (\<forall>t j. entry m (entry_at d i) = Some t \<and> j < 1024 \<longrightarrow> writable m (entry_at t j)))"

definition ownership :: "(owner \<Rightarrow> u32 option) \<Rightarrow> u32 set \<Rightarrow> bool" where
  "ownership om fs \<longleftrightarrow> (\<forall>x f. om x = Some f \<longrightarrow> f \<in> (*) 4096 ` fs)
     \<and> (\<forall>x y f. om x = Some f \<and> om y = Some f \<longrightarrow> x = y)"

definition paging_ok :: "'a paging_state_scheme \<Rightarrow> bool" where
  "paging_ok s \<longleftrightarrow> recursive s \<and> pool_ok (process_mem_pool s) s \<and> singles (process_mem_pool s) s
     \<and> layout (process_mem_pool s) s \<and> all_writable (mem s) (cr3 s)
     \<and> ownership (owned (mem s) (cr3 s)) (head_frames (process_mem_pool s) s)"

lemma ownership_extend:
  assumes "ownership om fs" "om' = om(x \<mapsto> 4096 * f)" "\<And>g. g \<in> fs \<Longrightarrow> (4096 :: u32) * g \<noteq> 4096 * f"
  shows "ownership om' (insert f fs)"
proof -
  have "y = z" if "om' y = Some g" "om' z = Some g" for y z g
  proof (cases "y = x")
    case True
    then have "g = 4096 * f" using that(1) assms(2) by simp
    then show ?thesis using that(2) assms True unfolding ownership_def by (fastforce split: if_splits)
  next
    case False
    then have y: "om y = Some g" using that(1) assms(2) by simp
    then have "z \<noteq> x" using that(2) assms unfolding ownership_def by fastforce
    then have "om z = Some g" using that(2) assms(2) by simp
    then show ?thesis using y assms(1) unfolding ownership_def by blast
  qed
  moreover have "g \<in> (*) 4096 ` insert f fs" if "om' y = Some g" for y g
    using that assms(1,2) unfolding ownership_def by (auto split: if_splits)
  ultimately show ?thesis unfolding ownership_def by blast
qed

lemma owned_in_pool:
  assumes ok: "paging_ok s" and x: "owned (mem s) (cr3 s) x = Some t"
  obtains f where "t = 4096 * f" "f \<in> head_frames (process_mem_pool s) s"
    "t \<in> pool_pages (process_mem_pool s) s" "page_aligned t"
proof -
  obtain f where "t = 4096 * f" "f \<in> head_frames (process_mem_pool s) s"
    using assms by (auto simp: paging_ok_def ownership_def)
  then show ?thesis
    using that[of f] frame_number(2)[of "process_mem_pool s" s f] ok frame_page_aligned by (simp add: paging_ok_def)
qed

lemma one_owner:
  assumes "paging_ok s" "owned (mem s) (cr3 s) x = Some t" "owned (mem s) (cr3 s) y = Some t"
  shows "x = y"
  using assms unfolding paging_ok_def ownership_def by blast

lemma directory_in_pool:
  assumes "paging_ok s"
  obtains f where "cr3 s = 4096 * f" "f \<in> head_frames (process_mem_pool s) s"
    "cr3 s \<in> pool_pages (process_mem_pool s) s" "page_aligned (cr3 s)"
  by (rule owned_in_pool[OF assms, of Directory "cr3 s"], simp, rule that)

text \<open>The bytes of the pages mapped above 4 MB: what a program stores there.\<close>

definition data_byte :: "'a paging_state_scheme \<Rightarrow> u32 \<Rightarrow> bool" where
  "data_byte s x \<longleftrightarrow> (\<exists>i j. 0 < i \<and> i < 1023 \<and> j < 1024 \<and> mapping (mem s) (cr3 s) i j = Some (page_of x))"

lemma data_byte_apart:
  assumes ok: "paging_ok s" and x: "data_byte s x"
  shows "x \<notin> pool_bytes (process_mem_pool s) s" "page_of x \<noteq> cr3 s"
    "i < 1023 \<Longrightarrow> entry (mem s) (entry_at (cr3 s) i) = Some t \<Longrightarrow> page_of x \<noteq> t"
    "\<exists>g \<in> head_frames (process_mem_pool s) s. page_of x = 4096 * g"
proof -
  obtain k j where "0 < k" "k < 1023" "j < 1024" "mapping (mem s) (cr3 s) k j = Some (page_of x)"
    using x by (auto simp: data_byte_def)
  then have kj: "owned (mem s) (cr3 s) (Page k j) = Some (page_of x)" by simp
  obtain g where g: "page_of x = 4096 * g" "g \<in> head_frames (process_mem_pool s) s" "page_of x \<in> pool_pages (process_mem_pool s) s"
    by (rule owned_in_pool[OF ok kj], rule that)
  show "x \<notin> pool_bytes (process_mem_pool s) s" using ok g(3) by (auto simp: paging_ok_def layout_def)
  show "\<exists>g \<in> head_frames (process_mem_pool s) s. page_of x = 4096 * g" using g by blast
  show "page_of x \<noteq> cr3 s" using one_owner[OF ok kj, of Directory] by auto
  show "page_of x \<noteq> t" if "i < 1023" "entry (mem s) (entry_at (cr3 s) i) = Some t"
    using one_owner[OF ok kj, of "Table i"] that by auto
qed

lemma data_byte_mono:
  assumes "cr3 s' = cr3 s" "data_byte s x"
    and "\<And>i j f. 0 < i \<Longrightarrow> i < 1023 \<Longrightarrow> j < 1024 \<Longrightarrow> mapping (mem s) (cr3 s) i j = Some f \<Longrightarrow> mapping (mem s') (cr3 s) i j = Some f"
  shows "data_byte s' x"
  using assms unfolding data_byte_def by metis

lemma memory_pools_trans:
  fixes s :: "'a paging_state_scheme"
  assumes "s1 = s\<lparr>mem := mem s1, pools := pools s1\<rparr>" "s3 = s1\<lparr>mem := mem s3\<rparr>"
  shows "s3 = s\<lparr>mem := mem s3, pools := pools s3\<rparr>"
  using assms by (cases s, cases s1, cases s3) simp

section \<open>Taking a frame\<close>

lemma only_pool_entries:
  assumes lay: "layout k s" and op: "only_pool k s s'"
  shows "\<forall>b. aligned4 b \<longrightarrow> page_of b \<in> pool_pages k s \<longrightarrow> entry_val (mem s') b = entry_val (mem s) b"
proof (intro allI impI)
  fix b assume b: "aligned4 b" "page_of b \<in> pool_pages k s"
  have "mem s' (b + of_nat i) = mem s (b + of_nat i)" if "i < 4" for i
  proof -
    have "b + of_nat i \<notin> pool_bytes k s" using lay page_of_add[OF b(1) that] b(2) unfolding layout_def by metis
    then show ?thesis using op by (simp add: only_pool_def)
  qed
  from this[of 0] this[of 1] this[of 2] this[of 3] show "entry_val (mem s') b = entry_val (mem s) b"
    by (simp add: entry_val_def read32_def)
qed

lemma paging_get_frame:
  assumes ok: "paging_ok s" and ne: "free_frames (process_mem_pool s) s \<noteq> {}"
  obtains f s' where "get_frames (process_mem_pool s) 1 s = Inr (f, s')" "f \<in> free_frames (process_mem_pool s) s"
    "free_frames (process_mem_pool s) s' = free_frames (process_mem_pool s) s - {f}"
    "head_frames (process_mem_pool s) s' = insert f (head_frames (process_mem_pool s) s)"
    "pool_ok (process_mem_pool s) s'" "singles (process_mem_pool s) s'"
    "layout (process_mem_pool s) s'" "s' = s\<lparr>mem := mem s', pools := pools s'\<rparr>" "geometry s' = geometry s"
    "\<forall>b. aligned4 b \<longrightarrow> page_of b \<in> pool_pages (process_mem_pool s) s \<longrightarrow> entry_val (mem s') b = entry_val (mem s) b"
    "\<And>g. g \<in> head_frames (process_mem_pool s) s \<Longrightarrow> 4096 * g \<noteq> 4096 * f"
    "\<And>x. x \<notin> pool_bytes (process_mem_pool s) s \<Longrightarrow> mem s' x = mem s x"
proof -
  let ?k = "process_mem_pool s"
  have p: "pool_ok ?k s" "singles ?k s" "layout ?k s" using ok by (simp_all add: paging_ok_def)
  obtain f s' where g: "get_frames ?k 1 s = Inr (f, s')" "f \<in> free_frames ?k s"
    "free_frames ?k s' = free_frames ?k s - {f}" "head_frames ?k s' = insert f (head_frames ?k s)"
    "pool_ok ?k s'" "singles ?k s'" "only_pool ?k s s'"
    by (rule get_one[OF p(1,2) ne], rule that)
  have geo: "geometry s' = geometry s" and eq: "s' = s\<lparr>mem := mem s', pools := pools s'\<rparr>"
    using g(7) by (simp_all add: only_pool_def)
  have "\<forall>b. aligned4 b \<longrightarrow> page_of b \<in> pool_pages ?k s \<longrightarrow> entry_val (mem s') b = entry_val (mem s) b"
    by (rule only_pool_entries[OF p(3) g(7)])
  moreover have "4096 * h \<noteq> 4096 * f" if "h \<in> head_frames ?k s" for h
  proof -
    have "h \<noteq> f" using that g(2) head_free_disjoint[of ?k s] by auto
    then show ?thesis
      using frame_page_inj[of h f] frame_number(1)[OF p(3)] that g(2) by simp
  qed
  ultimately show ?thesis
    using that[of f s'] g(1-7) geo eq layout_cong(1)[OF geo p(3)] by (simp add: only_pool_def)
qed

section \<open>Adding a page table\<close>

lemma entry_of_pool_page:
  assumes "\<forall>b. aligned4 b \<longrightarrow> page_of b \<in> P \<longrightarrow> entry_val m' b = entry_val m b"
    and "page_aligned t" "t \<in> P" "i < 1024"
  shows "entry_val m' (entry_at t i) = entry_val m (entry_at t i)"
  using assms aligned4_entry_at page_of_entry_at by metis

lemma mapping_Some:
  "mapping m d i j = Some f \<longleftrightarrow> (\<exists>t. entry m (entry_at d i) = Some t \<and> entry m (entry_at t j) = Some f)"
  by (auto simp: mapping_def bind_eq_Some_conv)

lemma lt_1023_1024: "i < (1023 :: u32) \<Longrightarrow> i < 1024"
  by (simp add: word_less_nat_alt)

text \<open>An update of the entries that changes table \<open>i\<close> only changes what table \<open>i\<close> maps.\<close>

lemma mapping_update:
  assumes "entry m' (entry_at d i) = entry m (entry_at d i)"
    and "\<And>t. entry m (entry_at d i) = Some t \<Longrightarrow> entry m' (entry_at t j) = entry m (entry_at t j)"
  shows "mapping m' d i j = mapping m d i j"
  using assms by (cases "entry m (entry_at d i)") (simp_all add: mapping_def)

lemma recursive_entry:
  assumes "recursive s"
  shows "entry (mem s) (entry_at (cr3 s) 1023) = Some (cr3 s)" "bit (entry_val (mem s) (entry_at (cr3 s) 1023)) 1"
  using assms flags_3[of "cr3 s"] by (simp_all add: recursive_def entry_def Let_def del: entry_val_page entry_val_present)

text \<open>The tables a directory points to: frames of the pool, different from the directory and
from each other.\<close>

definition table_frames :: "memory \<Rightarrow> u32 \<Rightarrow> u32 set \<Rightarrow> bool" where
  "table_frames m d P \<longleftrightarrow> (\<forall>i < 1023. \<forall>u. entry m (entry_at d i) = Some u \<longrightarrow>
     page_aligned u \<and> u \<in> P \<and> u \<noteq> d \<and> (\<forall>i' < 1023. entry m (entry_at d i') = Some u \<longrightarrow> i' = i))"

lemma table_frames_ok:
  assumes ok: "paging_ok s"
  shows "table_frames (mem s) (cr3 s) (pool_pages (process_mem_pool s) s)"
  unfolding table_frames_def
proof (intro allI impI)
  fix i u assume i: "i < (1023 :: u32)" and u: "entry (mem s) (entry_at (cr3 s) i) = Some u"
  then have ow: "owned (mem s) (cr3 s) (Table i) = Some u" by simp
  have "u \<noteq> cr3 s"
  proof
    assume "u = cr3 s"
    then have "Table i = Directory" using ow by (intro one_owner[OF ok, of _ u]) simp_all
    then show False by simp
  qed
  moreover have "i' = i" if "i' < 1023" "entry (mem s) (entry_at (cr3 s) i') = Some u" for i'
  proof -
    have "Table i' = Table i" using ow that by (intro one_owner[OF ok, of _ u]) simp_all
    then show ?thesis by simp
  qed
  moreover obtain "u \<in> pool_pages (process_mem_pool s) s" "page_aligned u"
    by (rule owned_in_pool[OF ok ow], rule that)
  ultimately show "page_aligned u \<and> u \<in> pool_pages (process_mem_pool s) s \<and> u \<noteq> cr3 s
    \<and> (\<forall>i'<1023. entry (mem s) (entry_at (cr3 s) i') = Some u \<longrightarrow> i' = i)" by blast
qed

text \<open>\<open>agree_except X P m m'\<close>: entries in the frames \<open>P\<close> and outside \<open>X\<close> are the same.\<close>

definition agree_except :: "(u32 \<times> u32) set \<Rightarrow> u32 set \<Rightarrow> memory \<Rightarrow> memory \<Rightarrow> bool" where
  "agree_except X P m m' \<longleftrightarrow> (\<forall>u j. page_aligned u \<and> u \<in> P \<and> j < 1024 \<and> (u, j) \<notin> X \<longrightarrow>
     entry_val m' (entry_at u j) = entry_val m (entry_at u j))"

lemma agree_exceptD:
  "agree_except X P m m' \<Longrightarrow> page_aligned u \<Longrightarrow> u \<in> P \<Longrightarrow> j < 1024 \<Longrightarrow> (u, j) \<notin> X \<Longrightarrow>
    entry_val m' (entry_at u j) = entry_val m (entry_at u j) \<and> entry m' (entry_at u j) = entry m (entry_at u j)"
  using entry_cong unfolding agree_except_def by blast

lemma entry_present:
  "page_aligned t \<Longrightarrow> entry_val m a = t OR 3 \<Longrightarrow> entry m a = Some t \<and> writable m a"
  using flags_3[of t] by (simp add: entry_def writable_def Let_def del: entry_val_page entry_val_present)

lemma entry_absent: "entry_val m a = 2 \<Longrightarrow> entry m a = None \<and> writable m a"
  by (simp add: entry_def writable_def Let_def del: entry_val_page entry_val_present)

lemma writable_cong: "entry_val m' a = entry_val m a \<Longrightarrow> writable m' a = writable m a"
  using entry_cong[of m' a m] by (simp add: writable_def)

lemma all_writableD:
  "all_writable m d \<Longrightarrow> i < 1023 \<Longrightarrow> writable m (entry_at d i)"
  "all_writable m d \<Longrightarrow> i < 1023 \<Longrightarrow> entry m (entry_at d i) = Some t \<Longrightarrow> j < 1024 \<Longrightarrow> writable m (entry_at t j)"
  unfolding all_writable_def by blast+

lemma table_added:
  assumes d: "page_aligned d" "d \<in> P" and t: "page_aligned t" "t \<noteq> d" and i: "i < 1023"
    and none: "entry m (entry_at d i) = None" and tf: "table_frames m d P" and aw: "all_writable m d"
    and fresh: "\<And>i' u. i' < 1023 \<Longrightarrow> entry m (entry_at d i') = Some u \<Longrightarrow> u \<noteq> t"
    and new: "\<And>j. j < 1024 \<Longrightarrow> entry_val m' (entry_at t j) = 2"
    and slot: "entry_val m' (entry_at d i) = t OR 3"
    and same: "agree_except ({t} \<times> UNIV \<union> {(d, i)}) P m m'"
  shows "entry m' (entry_at d i) = Some t" "j < 1024 \<Longrightarrow> mapping m' d i j = None"
    "\<And>i'. i' < 1023 \<Longrightarrow> j < 1024 \<Longrightarrow> i' \<noteq> i \<Longrightarrow> mapping m' d i' j = mapping m d i' j"
    "owned m' d = (owned m d)(Table i \<mapsto> t)" "all_writable m' d"
proof -
  show ent_i: "entry m' (entry_at d i) = Some t" using entry_present[OF t(1) slot] ..
  have dir: "entry_val m' (entry_at d j) = entry_val m (entry_at d j) \<and> entry m' (entry_at d j) = entry m (entry_at d j)"
    if "j < 1023" "j \<noteq> i" for j
    using agree_exceptD[OF same d lt_1023_1024[OF that(1)]] that(2) t(2) by auto
  have tab: "entry_val m' (entry_at u j) = entry_val m (entry_at u j) \<and> entry m' (entry_at u j) = entry m (entry_at u j)"
    if "i' < 1023" "entry m (entry_at d i') = Some u" "j < 1024" for i' u j
  proof -
    have "page_aligned u" "u \<in> P" "u \<noteq> d" using tf that(1,2) by (auto simp: table_frames_def)
    then show ?thesis using agree_exceptD[OF same _ _ that(3), of u] fresh[OF that(1,2)] by auto
  qed
  show map_i: "mapping m' d i j = None" if "j < 1024" for j
    using ent_i entry_absent[OF new[OF that]] by (simp add: mapping_def)
  show map_o: "mapping m' d i' j = mapping m d i' j" if "i' < 1023" "j < 1024" "i' \<noteq> i" for i' j
    by (rule mapping_update) (simp_all add: dir[OF that(1,3)] tab[OF that(1) _ that(2)])
  show "owned m' d = (owned m d)(Table i \<mapsto> t)"
  proof
    fix x show "owned m' d x = ((owned m d)(Table i \<mapsto> t)) x"
    proof (cases x)
      case (Table i')
      then show ?thesis using ent_i i dir[of i'] by (cases "i' = i") simp_all
    next
      case (Page i' j)
      have "mapping m d i j = None" using none by (simp add: mapping_def)
      then show ?thesis using Page map_i[of j] map_o[of i' j] by (cases "i' = i") simp_all
    qed simp
  qed
  show "all_writable m' d"
    unfolding all_writable_def
  proof (intro allI impI conjI)
    fix j assume j: "j < (1023 :: u32)"
    show "writable m' (entry_at d j)"
      using entry_present[OF t(1) slot] writable_cong[of m' "entry_at d j" m] dir[OF j] all_writableD(1)[OF aw j]
      by (cases "j = i") simp_all
    fix u and l :: u32 assume u: "entry m' (entry_at d j) = Some u \<and> l < 1024"
    show "writable m' (entry_at u l)"
    proof (cases "j = i")
      case True
      then show ?thesis using u ent_i entry_absent[OF new] by simp
    next
      case False
      then have eu: "entry m (entry_at d j) = Some u" using u dir[OF j] by simp
      have "writable m (entry_at u l)" using all_writableD(2)[OF aw j eu] u by simp
      then show ?thesis using tab[OF j eu, of l] writable_cong[of m' "entry_at u l" m] u by simp
    qed
  qed
qed

lemma page_entry_changed:
  assumes d: "page_aligned d" "d \<in> P" and i: "0 < i" "i < 1023" and j: "j < 1024"
    and t: "entry m (entry_at d i) = Some t" and tf: "table_frames m d P" and aw: "all_writable m d"
    and slot: "entry m' (entry_at t j) = e" "writable m' (entry_at t j)" and same: "agree_except {(t, j)} P m m'"
  shows "mapping m' d i j = e"
    "i' < 1023 \<Longrightarrow> l < 1024 \<Longrightarrow> (i', l) \<noteq> (i, j) \<Longrightarrow> mapping m' d i' l = mapping m d i' l"
    "owned m' d = (owned m d)(Page i j := e)" "all_writable m' d"
proof -
  have tne: "t \<noteq> d" using tf t i by (auto simp: table_frames_def)
  have dir: "entry_val m' (entry_at d l) = entry_val m (entry_at d l) \<and> entry m' (entry_at d l) = entry m (entry_at d l)"
    if "l < 1023" for l
    using agree_exceptD[OF same d lt_1023_1024[OF that]] tne by auto
  have tab: "entry_val m' (entry_at u l) = entry_val m (entry_at u l) \<and> entry m' (entry_at u l) = entry m (entry_at u l)"
    if "i' < 1023" "entry m (entry_at d i') = Some u" "l < 1024" "(i', l) \<noteq> (i, j)" for i' u l
  proof -
    have u: "page_aligned u" "u \<in> P" using tf that(1,2) by (auto simp: table_frames_def)
    have "u = t \<Longrightarrow> i' = i" using tf t that(1,2) i(2) unfolding table_frames_def by blast
    then show ?thesis using agree_exceptD[OF same u that(3)] that(4) by auto
  qed
  show map: "mapping m' d i j = e"
    using dir[OF i(2)] t slot(1) by (simp add: mapping_def)
  show map_o: "mapping m' d i' l = mapping m d i' l" if "i' < 1023" "l < 1024" "(i', l) \<noteq> (i, j)" for i' l
    by (rule mapping_update) (simp_all add: dir[OF that(1)] tab[OF that(1) _ that(2,3)])
  show "owned m' d = (owned m d)(Page i j := e)"
  proof
    fix x show "owned m' d x = ((owned m d)(Page i j := e)) x"
    proof (cases x)
      case (Page i' l)
      then show ?thesis using map map_o[of i' l] i j by (cases "(i', l) = (i, j)") auto
    qed (simp_all add: dir)
  qed
  show "all_writable m' d"
    unfolding all_writable_def
  proof (intro allI impI conjI)
    fix l assume l: "l < (1023 :: u32)"
    show "writable m' (entry_at d l)" 
      using writable_cong[of m' "entry_at d l" m] dir[OF l] all_writableD(1)[OF aw l] by simp
    fix u and n :: u32 assume u: "entry m' (entry_at d l) = Some u \<and> n < 1024"
    then have eu: "entry m (entry_at d l) = Some u" using dir[OF l] by simp
    show "writable m' (entry_at u n)"
    proof (cases "(l, n) = (i, j)")
      case True
      then show ?thesis using eu t slot(2) by simp
    next
      case False
      have "writable m (entry_at u n)" using all_writableD(2)[OF aw l eu] u by simp
      then show ?thesis using tab[OF l eu _ False] writable_cong[of m' "entry_at u n" m] u by simp
    qed
  qed
qed

text \<open>What storing the new directory entry and filling the new table does to the entries.\<close>

lemma install_table:
  assumes r: "recursive s" and i: "i < 1023" and t: "page_aligned t" "t \<noteq> cr3 s"
  obtains s1 s2 where "store32 (construct_pde_address i) (t OR 3) s = Inr s1"
    "fill_entries (\<lambda>j. construct_pte_address i (of_nat j)) (\<lambda>_. 2) 1024 0 s1 = Inr s2" "s2 = s\<lparr>mem := mem s2\<rparr>"
    "\<And>j. j < 1024 \<Longrightarrow> entry_val (mem s2) (entry_at t j) = 2"
    "entry_val (mem s2) (entry_at (cr3 s) i) = t OR 3"
    "agree_except ({t} \<times> UNIV \<union> {(cr3 s, i)}) UNIV (mem s) (mem s2)"
    "\<And>x. page_of x \<noteq> cr3 s \<Longrightarrow> page_of x \<noteq> t \<Longrightarrow> mem s2 x = mem s x"
proof -
  let ?d = "cr3 s"
  have d: "page_aligned ?d" using r by (simp add: recursive_def)
  have i4: "i < 1024" "(1023 :: u32) < 1024" using i by (simp_all add: word_less_nat_alt)
  obtain s1 where s1: "store32 (construct_pte_address 1023 i) (t OR 3) s = Inr s1" "s1 = s\<lparr>mem := mem s1\<rparr>"
    and e1: "\<And>b. aligned4 b \<Longrightarrow> entry_val (mem s1) b =
      (if b = entry_at ?d i then (t OR 3) AND NOT 0x60 else entry_val (mem s) b)"
    and o1: "\<And>x. page_of x \<noteq> ?d \<Longrightarrow> page_of x \<noteq> ?d \<Longrightarrow> mem s1 x = mem s x"
    by (rule store_recursive[OF r i4(2,1) recursive_entry[OF r], of "t OR 3"], rule that)
  have c: "cr3 s1 = ?d" by (subst s1(2)) simp
  have di: "aligned4 (entry_at ?d j)" if "j < 1024" for j using that d aligned4_entry_at by auto
  have ne: "entry_at ?d 1023 \<noteq> entry_at ?d i" using i entry_at_eq_iff[OF d d i4(2,1)] by auto
  then have r1: "recursive s1" by (intro recursive_cong[OF r s1(2)]) (simp add: e1[OF di[OF i4(2)]])
  have ei: "entry_val (mem s1) (entry_at ?d i) = t OR 3" using e1[OF di[OF i4(1)]] flags_3(1)[OF t(1)] by simp
  then have t1: "entry (mem s1) (entry_at (cr3 s1) i) = Some t" "bit (entry_val (mem s1) (entry_at (cr3 s1) i)) 1" "t \<noteq> cr3 s1"
    unfolding c using entry_present[OF t(1) ei] flags_3[OF t(1)] t(2) by simp_all
  obtain s2 where s2: "fill_entries (\<lambda>j. construct_pte_address i (of_nat j)) (\<lambda>_. 2) 1024 0 s1 = Inr s2"
      "s2 = s1\<lparr>mem := mem s2\<rparr>"
    and e2: "\<And>b. aligned4 b \<Longrightarrow> entry_val (mem s2) b =
        (if \<exists>j. j < 1024 \<and> b = entry_at t (of_nat j) then 2 else entry_val (mem s1) b)"
    and o2: "\<And>x. page_of x \<noteq> ?d \<Longrightarrow> page_of x \<noteq> t \<Longrightarrow> mem s2 x = mem s1 x"
    using fill_table[OF r1 i t1, of 0] c by auto
  have outside: "entry_val (mem s2) (entry_at u j) = entry_val (mem s1) (entry_at u j)"
    if "page_aligned u" "j < 1024" "u \<noteq> t" for u j
  proof -
    have "entry_at u j \<noteq> entry_at t (of_nat n)" if "n < 1024" for n
      using entry_at_eq_iff[OF \<open>page_aligned u\<close> t(1) \<open>j < 1024\<close> of_nat_less_1024[OF that]] \<open>u \<noteq> t\<close> by simp
    then show ?thesis using e2[OF aligned4_entry_at[OF that(1,2)]] by auto
  qed
  have "entry_val (mem s2) (entry_at t j) = 2" if "j < 1024" for j
  proof -
    have "unat j < 1024" "entry_at t j = entry_at t (of_nat (unat j))" using that by (simp_all add: word_less_nat_alt)
    then show ?thesis using e2[OF aligned4_entry_at[OF t(1) that]] by metis
  qed
  moreover have "entry_val (mem s2) (entry_at ?d i) = t OR 3" using outside[OF d i4(1)] t(2) ei by auto
  moreover have "agree_except ({t} \<times> UNIV \<union> {(?d, i)}) UNIV (mem s) (mem s2)"
    unfolding agree_except_def
  proof (intro allI impI)
    fix u j assume u: "page_aligned u \<and> u \<in> UNIV \<and> j < 1024 \<and> (u, j) \<notin> {t} \<times> UNIV \<union> {(?d, i)}"
    then have "entry_at u j \<noteq> entry_at ?d i" using entry_at_eq_iff[of u ?d j i] d i4(1) by auto
    then show "entry_val (mem s2) (entry_at u j) = entry_val (mem s) (entry_at u j)"
      using outside[of u j] e1[OF aligned4_entry_at[of u j]] u by auto
  qed
  moreover have "s2 = s\<lparr>mem := mem s2\<rparr>" by (subst s2(2), subst s1(2)) simp
  ultimately show ?thesis using that[OF s1(1)[folded pde_address_is_pte_address] s2(1)] o1 o2 by simp
qed

lemma agree_trans:
  assumes "\<forall>b. aligned4 b \<longrightarrow> page_of b \<in> P \<longrightarrow> entry_val m' b = entry_val m b" "agree_except X UNIV m' m''"
  shows "agree_except X P m m''"
  using assms entry_of_pool_page[OF assms(1)] unfolding agree_except_def by auto

text \<open>A change inside pool frames keeps the pool; the invariant follows from the owners.\<close>

lemma paging_ok_after:
  assumes ok: "paging_ok s" and s1: "layout k s1" "pool_ok k s1" "singles k s1" "geometry s1 = geometry s"
      "k = process_mem_pool s" "s1 = s\<lparr>mem := mem s1, pools := pools s1\<rparr>"
    and s2: "s2 = s1\<lparr>mem := mem s2\<rparr>" and out: "\<And>x. page_of x \<notin> pool_pages k s \<Longrightarrow> mem s2 x = mem s1 x"
    and r: "recursive s2" and aw: "all_writable (mem s2) (cr3 s)"
    and own: "ownership (owned (mem s2) (cr3 s)) (head_frames k s1)"
  shows "paging_ok s2" "free_frames k s2 = free_frames k s1" "s2 = s\<lparr>mem := mem s2, pools := pools s2\<rparr>"
proof -
  have lay: "layout k s" using ok s1(5) by (simp add: paging_ok_def)
  have pb: "mem s2 x = mem s1 x" if "x \<in> pool_bytes k s1" for x
    using s1(1) that layout_cong(2)[OF s1(4) lay] by (intro out) (simp add: layout_def)
  note pres = pool_preserved[OF s2 pb]
  show eq: "s2 = s\<lparr>mem := mem s2, pools := pools s2\<rparr>" by (rule memory_pools_trans[OF s1(6) s2])
  have c: "cr3 s2 = cr3 s" "process_mem_pool s2 = k" by (subst eq, simp add: s1(5))+
  show "free_frames k s2 = free_frames k s1" by (rule pres(3))
  show "paging_ok s2"
    unfolding paging_ok_def c
    using r aw own pres(4-7) s1(2,3) layout_cong(1)[OF pres(7) s1(1)] by simp
qed

lemma add_page_table_ok:
  assumes ok: "paging_ok s" and i: "i < 1023" and none: "entry (mem s) (entry_at (cr3 s) i) = None"
    and ne: "free_frames (process_mem_pool s) s \<noteq> {}"
  obtains f s' where "add_page_table i s = Inr s'" "f \<in> free_frames (process_mem_pool s) s"
    "free_frames (process_mem_pool s) s' = free_frames (process_mem_pool s) s - {f}"
    "paging_ok s'" "s' = s\<lparr>mem := mem s', pools := pools s'\<rparr>"
    "entry (mem s') (entry_at (cr3 s) i) = Some (4096 * f)"
    "\<And>j. j < 1024 \<Longrightarrow> mapping (mem s') (cr3 s) i j = None"
    "\<And>i' j. i' < 1023 \<Longrightarrow> j < 1024 \<Longrightarrow> i' \<noteq> i \<Longrightarrow> mapping (mem s') (cr3 s) i' j = mapping (mem s) (cr3 s) i' j"
    "\<And>x. data_byte s x \<Longrightarrow> mem s' x = mem s x"
proof -
  let ?k = "process_mem_pool s" and ?d = "cr3 s" and ?P = "pool_pages (process_mem_pool s) s"
  have p: "recursive s" "layout ?k s" "all_writable (mem s) ?d" "ownership (owned (mem s) ?d) (head_frames ?k s)"
    using ok by (simp_all add: paging_ok_def)
  obtain fd where d: "?d = 4096 * fd" "fd \<in> head_frames ?k s" "?d \<in> ?P" "page_aligned ?d"
    by (rule directory_in_pool[OF ok], rule that)
  obtain f s1 where f: "get_frames ?k 1 s = Inr (f, s1)" "f \<in> free_frames ?k s"
    "free_frames ?k s1 = free_frames ?k s - {f}" "head_frames ?k s1 = insert f (head_frames ?k s)"
    "pool_ok ?k s1" "singles ?k s1" "layout ?k s1" "s1 = s\<lparr>mem := mem s1, pools := pools s1\<rparr>" "geometry s1 = geometry s"
    and e1: "\<forall>b. aligned4 b \<longrightarrow> page_of b \<in> ?P \<longrightarrow> entry_val (mem s1) b = entry_val (mem s) b"
    and fresh: "\<And>g. g \<in> head_frames ?k s \<Longrightarrow> 4096 * g \<noteq> 4096 * f"
    and same1: "\<And>x. x \<notin> pool_bytes ?k s \<Longrightarrow> mem s1 x = mem s x"
    by (rule paging_get_frame[OF ok ne], rule that)
  let ?t = "4096 * f"
  have t: "page_aligned ?t" "?t \<in> ?P" "?t \<noteq> ?d"
    using frame_page_aligned frame_number(2)[OF p(2)] f(2) fresh[OF d(2)] d(1) by auto
  have c1: "cr3 s1 = ?d" "cr0 s1 = cr0 s" by (subst f(8), simp)+
  note e1' = entry_of_pool_page[OF e1]
  have i4: "(1023 :: u32) < 1024" by (simp add: word_less_nat_alt)
  have r1: "recursive s1" using p(1) e1'[OF d(4,3) i4] c1 unfolding recursive_def by simp
  obtain s2 s3 where run: "store32 (construct_pde_address i) (?t OR 3) s1 = Inr s2"
    "fill_entries (\<lambda>j. construct_pte_address i (of_nat j)) (\<lambda>_. 2) 1024 0 s2 = Inr s3" and s3: "s3 = s1\<lparr>mem := mem s3\<rparr>"
    and new: "\<And>j. j < 1024 \<Longrightarrow> entry_val (mem s3) (entry_at ?t j) = 2"
    and slot: "entry_val (mem s3) (entry_at (cr3 s1) i) = ?t OR 3"
    and agr: "agree_except ({?t} \<times> UNIV \<union> {(cr3 s1, i)}) UNIV (mem s1) (mem s3)"
    and out: "\<And>x. page_of x \<noteq> cr3 s1 \<Longrightarrow> page_of x \<noteq> ?t \<Longrightarrow> mem s3 x = mem s1 x"
    by (rule install_table[OF r1 i t(1)]) (use t(3) c1 in simp, rule that)
  have go: "add_page_table i s = Inr s3"
    using f(1) run by (simp add: add_page_table_def ENTRIES_PER_PAGE_def)
  have same: "agree_except ({?t} \<times> UNIV \<union> {(?d, i)}) ?P (mem s) (mem s3)"
    by (rule agree_trans[OF e1]) (use agr c1 in simp)
  have tfresh: "u \<noteq> ?t" if "i' < 1023" "entry (mem s) (entry_at ?d i') = Some u" for i' u
    using p(4) fresh that unfolding ownership_def by (metis imageE owned.simps(2))
  note res = table_added[OF d(4,3) t(1,3) i none table_frames_ok[OF ok] p(3) tfresh new slot[unfolded c1] same]
  have "(?d, 1023) \<notin> {?t} \<times> UNIV \<union> {(?d, i)}" using t(3) i by auto
  then have "entry_val (mem s3) (entry_at ?d 1023) = ?d OR 3"
    using agree_exceptD[OF same d(4,3) i4] p(1) by (simp add: recursive_def)
  moreover have "cr3 s3 = ?d" "cr0 s3 = cr0 s" by (subst s3, simp add: c1)+
  ultimately have r3: "recursive s3" using p(1) by (simp add: recursive_def)
  have own: "ownership (owned (mem s3) ?d) (head_frames ?k s1)"
    unfolding f(4) by (rule ownership_extend[OF p(4) res(4) fresh])
  have out': "mem s3 x = mem s1 x" if "page_of x \<notin> ?P" for x using out that d(3) t(2) c1(1) by metis
  note fin = paging_ok_after[OF ok f(7,5,6,9) refl f(8) s3 out' r3 res(5) own]
  have "mem s3 x = mem s x" if x: "data_byte s x" for x
    using out[of x] same1[OF data_byte_apart(1)[OF ok x]] data_byte_apart(2,4)[OF ok x] fresh c1(1) by auto
  then show ?thesis using that[OF go f(2) _ fin(1,3) res(1-3)] fin(2) f(3) by simp
qed

section \<open>Adding a page\<close>

lemma add_page_ok:
  assumes ok: "paging_ok s" and i: "0 < i" "i < 1023" and j: "j < 1024"
    and t: "entry (mem s) (entry_at (cr3 s) i) = Some t"
    and ne: "free_frames (process_mem_pool s) s \<noteq> {}"
  obtains f s' where "add_page (construct_pte_address i j) s = Inr s'" "f \<in> free_frames (process_mem_pool s) s"
    "free_frames (process_mem_pool s) s' = free_frames (process_mem_pool s) s - {f}"
    "mapping (mem s) (cr3 s) i j = None \<Longrightarrow> paging_ok s'" "s' = s\<lparr>mem := mem s', pools := pools s'\<rparr>"
    "mapping (mem s') (cr3 s) i j = Some (4096 * f)"
    "\<And>i' l. i' < 1023 \<Longrightarrow> l < 1024 \<Longrightarrow> (i', l) \<noteq> (i, j) \<Longrightarrow> mapping (mem s') (cr3 s) i' l = mapping (mem s) (cr3 s) i' l"
    "\<And>x. data_byte s x \<Longrightarrow> mem s' x = mem s x"
proof -
  let ?k = "process_mem_pool s" and ?d = "cr3 s" and ?P = "pool_pages (process_mem_pool s) s"
  have p: "recursive s" "layout ?k s" "all_writable (mem s) ?d" "ownership (owned (mem s) ?d) (head_frames ?k s)"
    using ok by (simp_all add: paging_ok_def)
  obtain fd where d: "?d = 4096 * fd" "fd \<in> head_frames ?k s" "?d \<in> ?P" "page_aligned ?d"
    by (rule directory_in_pool[OF ok], rule that)
  have t': "page_aligned t" "t \<in> ?P" "t \<noteq> ?d" using table_frames_ok[OF ok] t i(2) by (auto simp: table_frames_def)
  obtain f s1 where f: "get_frames ?k 1 s = Inr (f, s1)" "f \<in> free_frames ?k s"
    "free_frames ?k s1 = free_frames ?k s - {f}" "head_frames ?k s1 = insert f (head_frames ?k s)"
    "pool_ok ?k s1" "singles ?k s1" "layout ?k s1" "s1 = s\<lparr>mem := mem s1, pools := pools s1\<rparr>" "geometry s1 = geometry s"
    and e1: "\<forall>b. aligned4 b \<longrightarrow> page_of b \<in> ?P \<longrightarrow> entry_val (mem s1) b = entry_val (mem s) b"
    and fresh: "\<And>g. g \<in> head_frames ?k s \<Longrightarrow> 4096 * g \<noteq> 4096 * f"
    and same1: "\<And>x. x \<notin> pool_bytes ?k s \<Longrightarrow> mem s1 x = mem s x"
    by (rule paging_get_frame[OF ok ne], rule that)
  have c1: "cr3 s1 = ?d" "cr0 s1 = cr0 s" by (subst f(8), simp)+
  note e1' = entry_of_pool_page[OF e1]
  have i4: "i < 1024" "(1023 :: u32) < 1024" using lt_1023_1024[OF i(2)] by (simp_all add: word_less_nat_alt)
  have r1: "recursive s1" using p(1) e1'[OF d(4,3) i4(2)] c1 unfolding recursive_def by simp
  have t1: "entry (mem s1) (entry_at (cr3 s1) i) = Some t" "bit (entry_val (mem s1) (entry_at (cr3 s1) i)) 1"
    unfolding c1 e1'[OF d(4,3) i4(1)] entry_cong[OF e1'[OF d(4,3) i4(1)]]
    using t all_writableD(1)[OF p(3) i(2)] by (simp_all add: writable_def)
  obtain s2 where s2: "store32 (construct_pte_address i j) (4096 * f OR 3) s1 = Inr s2" "s2 = s1\<lparr>mem := mem s2\<rparr>"
    and e2: "\<And>b. aligned4 b \<Longrightarrow> entry_val (mem s2) b =
      (if b = entry_at t j then (4096 * f OR 3) AND NOT 0x60 else entry_val (mem s1) b)"
    and o2: "\<And>x. page_of x \<noteq> cr3 s1 \<Longrightarrow> page_of x \<noteq> t \<Longrightarrow> mem s2 x = mem s1 x"
    by (rule store_recursive[OF r1 i4(1) j t1, of "4096 * f OR 3"], rule that)
  have go: "add_page (construct_pte_address i j) s = Inr s2" using f(1) s2(1) by (simp add: add_page_def)
  have slot: "entry_val (mem s2) (entry_at t j) = 4096 * f OR 3"
    using e2[OF aligned4_entry_at[OF t'(1) j]] flags_3(1)[OF frame_page_aligned] by simp
  have "agree_except {(t, j)} UNIV (mem s1) (mem s2)"
    unfolding agree_except_def using e2 aligned4_entry_at entry_at_eq_iff[OF _ t'(1) _ j] by auto
  then have same: "agree_except {(t, j)} ?P (mem s) (mem s2)" by (rule agree_trans[OF e1])
  note pr = entry_present[OF frame_page_aligned slot]
  note res = page_entry_changed[OF d(4,3) i j t table_frames_ok[OF ok] p(3) conjunct1[OF pr] conjunct2[OF pr] same]
  have "entry_val (mem s2) (entry_at ?d 1023) = ?d OR 3"
    using agree_exceptD[OF same d(4,3) i4(2)] t'(3) p(1) by (simp add: recursive_def)
  moreover have "cr3 s2 = ?d" "cr0 s2 = cr0 s" by (subst s2(2), simp add: c1)+
  ultimately have r2: "recursive s2" using p(1) by (simp add: recursive_def)
  have own: "ownership (owned (mem s2) ?d) (head_frames ?k s1)"
    unfolding f(4) by (rule ownership_extend[OF p(4) res(3) fresh])
  have out: "mem s2 x = mem s1 x" if "page_of x \<notin> ?P" for x using o2 that d(3) t'(2) c1(1) by metis
  note fin = paging_ok_after[OF ok f(7,5,6,9) refl f(8) s2(2) out r2 res(4) own]
  have "mem s2 x = mem s x" if x: "data_byte s x" for x
    using o2[of x] same1[OF data_byte_apart(1)[OF ok x]] data_byte_apart(2)[OF ok x] data_byte_apart(3)[OF ok x i(2) t] c1(1) by simp
  then show ?thesis using that[OF go f(2) _ fin(1,3) res(1,2)] fin(2) f(3) by simp
qed

section \<open>Reading an entry\<close>

lemma mapping_same_vals:
  assumes "\<And>b. aligned4 b \<Longrightarrow> entry_val m' b = entry_val m b" "page_aligned d" "i < 1024" "j < 1024"
  shows "mapping m' d i j = mapping m d i j"
proof (rule mapping_update)
  show "entry m' (entry_at d i) = entry m (entry_at d i)"
    by (rule entry_cong) (rule assms(1)[OF aligned4_entry_at[OF assms(2,3)]])
  show "entry m' (entry_at t j) = entry m (entry_at t j)" if "entry m (entry_at d i) = Some t" for t
    by (rule entry_cong) (rule assms(1)[OF aligned4_entry_at[OF entry_page_aligned[OF that] assms(4)]])
qed

text \<open>A change of memory that leaves the entries and the pool's bitmap as they are.\<close>

lemma paging_ok_entries:
  assumes ok: "paging_ok s" and s': "s' = s\<lparr>mem := mem s'\<rparr>"
    and dir: "\<And>i. i < 1024 \<Longrightarrow> entry_val (mem s') (entry_at (cr3 s) i) = entry_val (mem s) (entry_at (cr3 s) i)"
    and tab: "\<And>i t j. i < 1023 \<Longrightarrow> entry (mem s) (entry_at (cr3 s) i) = Some t \<Longrightarrow> j < 1024
      \<Longrightarrow> entry_val (mem s') (entry_at t j) = entry_val (mem s) (entry_at t j)"
    and pb: "\<And>x. x \<in> pool_bytes (process_mem_pool s) s \<Longrightarrow> mem s' x = mem s x"
  shows "paging_ok s'" "free_frames (process_mem_pool s) s' = free_frames (process_mem_pool s) s"
    "i < 1023 \<Longrightarrow> j < 1024 \<Longrightarrow> mapping (mem s') (cr3 s) i j = mapping (mem s) (cr3 s) i j"
proof -
  let ?k = "process_mem_pool s" and ?d = "cr3 s"
  have p: "recursive s" "layout ?k s" "all_writable (mem s) ?d" "ownership (owned (mem s) ?d) (head_frames ?k s)"
    using ok by (simp_all add: paging_ok_def)
  note pres = pool_preserved[OF s' pb]
  have dir': "entry (mem s') (entry_at ?d i) = entry (mem s) (entry_at ?d i)" if "i < 1023" for i
    by (rule entry_cong[OF dir[OF lt_1023_1024[OF that]]])
  show map: "mapping (mem s') ?d i j = mapping (mem s) ?d i j" if "i < 1023" "j < 1024" for i j
    by (rule mapping_update[OF dir'[OF that(1)]]) (rule entry_cong[OF tab[OF that(1) _ that(2)]])
  have om: "owned (mem s') ?d = owned (mem s) ?d"
  proof
    fix x show "owned (mem s') ?d x = owned (mem s) ?d x" by (cases x) (simp_all add: dir' map)
  qed
  have aw: "all_writable (mem s') ?d"
    unfolding all_writable_def
  proof (intro allI impI conjI)
    fix i assume i: "i < (1023 :: u32)"
    show "writable (mem s') (entry_at ?d i)"
      using writable_cong[OF dir[OF lt_1023_1024[OF i]]] all_writableD(1)[OF p(3) i] by simp
    fix u and j :: u32 assume u: "entry (mem s') (entry_at ?d i) = Some u \<and> j < 1024"
    then have eu: "entry (mem s) (entry_at ?d i) = Some u" using dir'[OF i] by simp
    from writable_cong[OF tab[OF i eu conjunct2[OF u]]] all_writableD(2)[OF p(3) i eu conjunct2[OF u]]
    show "writable (mem s') (entry_at u j)" by simp
  qed
  have c: "cr3 s' = ?d" "process_mem_pool s' = ?k" by (subst s', simp)+
  have "recursive s'" by (rule recursive_cong[OF p(1) s' dir]) (simp add: word_less_nat_alt)
  then show "paging_ok s'"
    unfolding paging_ok_def c
    using pres(4-7) layout_cong(1)[OF pres(7) p(2)] ok aw p(4) om by (simp add: paging_ok_def)
  show "free_frames ?k s' = free_frames ?k s" by (rule pres(3))
qed

lemma paging_ok_quiet:
  assumes ok: "paging_ok s" and s': "s' = s\<lparr>mem := mem s'\<rparr>"
    and e: "\<And>b. aligned4 b \<Longrightarrow> entry_val (mem s') b = entry_val (mem s) b"
    and o: "\<And>x. page_of x \<notin> pool_pages (process_mem_pool s) s \<Longrightarrow> mem s' x = mem s x"
  shows "paging_ok s'" "free_frames (process_mem_pool s) s' = free_frames (process_mem_pool s) s"
    "i < 1023 \<Longrightarrow> j < 1024 \<Longrightarrow> mapping (mem s') (cr3 s) i j = mapping (mem s) (cr3 s) i j"
proof -
  obtain d: "cr3 s \<in> pool_pages (process_mem_pool s) s" "page_aligned (cr3 s)" by (rule directory_in_pool[OF ok], rule that)
  have lay: "layout (process_mem_pool s) s" using ok by (simp add: paging_ok_def)
  have pb: "mem s' x = mem s x" if "x \<in> pool_bytes (process_mem_pool s) s" for x
    using lay that by (intro o) (auto simp: layout_def)
  note r = paging_ok_entries[OF ok s' e[OF aligned4_entry_at[OF d(2)]] e[OF aligned4_entry_at[OF entry_page_aligned]] pb]
  show "paging_ok s'" "free_frames (process_mem_pool s) s' = free_frames (process_mem_pool s) s"
    "i < 1023 \<Longrightarrow> j < 1024 \<Longrightarrow> mapping (mem s') (cr3 s) i j = mapping (mem s) (cr3 s) i j"
    by (rule r; assumption)+
qed

lemma paging_load:
  assumes ok: "paging_ok s" and ij: "i < 1024" "j < 1024"
    and t: "entry (mem s) (entry_at (cr3 s) i) = Some t" "i < 1023 \<or> i = 1023"
  obtains v s' where "load32 (construct_pte_address i j) s = Inr (v, s')"
    "v AND 1 = 0 \<longleftrightarrow> entry (mem s) (entry_at t j) = None" "v AND NOT 0x60 = entry_val (mem s) (entry_at t j)"
    "s' = s\<lparr>mem := mem s'\<rparr>"
    "\<And>b. aligned4 b \<Longrightarrow> entry_val (mem s') b = entry_val (mem s) b" "paging_ok s'"
    "free_frames (process_mem_pool s) s' = free_frames (process_mem_pool s) s"
    "\<And>x. page_of x \<noteq> cr3 s \<Longrightarrow> mem s' x = mem s x"
proof -
  have r: "recursive s" "all_writable (mem s) (cr3 s)" using ok by (simp_all add: paging_ok_def)
  have w: "bit (entry_val (mem s) (entry_at (cr3 s) i)) 1"
    using t(2) recursive_entry(2)[OF r(1)] all_writableD(1)[OF r(2), of i] t(1) by (auto simp: writable_def)
  obtain v s' where v: "load32 (construct_pte_address i j) s = Inr (v, s')" "s' = s\<lparr>mem := mem s'\<rparr>"
    "v AND NOT 0x60 = entry_val (mem s) (entry_at t j)"
    "\<And>b. aligned4 b \<Longrightarrow> entry_val (mem s') b = entry_val (mem s) b"
    "\<And>x. page_of x \<noteq> cr3 s \<Longrightarrow> mem s' x = mem s x"
    by (rule load_recursive[OF r(1) ij t(1) w], rule that)
  obtain "cr3 s \<in> pool_pages (process_mem_pool s) s" by (rule directory_in_pool[OF ok], rule that)
  then have o: "mem s' x = mem s x" if "page_of x \<notin> pool_pages (process_mem_pool s) s" for x using that v(5) by metis
  have "v AND 1 = 0 \<longleftrightarrow> entry_val (mem s) (entry_at t j) AND 1 = 0"
    unfolding and_1_iff v(3)[symmetric] by (simp add: bit_simps flag_bits)
  also have "\<dots> \<longleftrightarrow> entry (mem s) (entry_at t j) = None" by (simp add: entry_def Let_def)
  finally show ?thesis by (rule that[OF v(1) _ v(3,2,4) paging_ok_quiet(1,2)[OF ok v(2,4) o] v(5)])
qed

end
