(* ===== verification/FaultHandler.thy ===== *)
theory FaultHandler
  imports PageFaults
begin

text \<open>
  The whole page-fault handler of P4 and \<open>free_page\<close>: what they do to the mapping of every
  address.
\<close>

section \<open>Frame conditions\<close>

lemma mem_pools_shape:
  fixes s :: "'a paging_state_scheme"
  shows "s' = s\<lparr>mem := mem s'\<rparr> \<Longrightarrow> s' = s\<lparr>mem := mem s', pools := pools s'\<rparr>"
  by (cases s, cases s') simp

lemma mem_pools_shape_trans:
  fixes s :: "'a paging_state_scheme"
  shows "s1 = s\<lparr>mem := mem s1, pools := pools s1\<rparr> \<Longrightarrow> s2 = s1\<lparr>mem := mem s2, pools := pools s2\<rparr> \<Longrightarrow>
    s2 = s\<lparr>mem := mem s2, pools := pools s2\<rparr>"
  by (cases s, cases s1, cases s2) simp

lemma mem_pools_fields:
  fixes s :: "'a paging_state_scheme"
  assumes "s' = s\<lparr>mem := mem s', pools := pools s'\<rparr>"
  shows "cr3 s' = cr3 s" "process_mem_pool s' = process_mem_pool s" "cr2 s' = cr2 s"
    "page_tables s' = page_tables s" "vm_pools s' = vm_pools s" "current_page_table s' = current_page_table s"
  by (subst assms, simp)+

section \<open>Mapped addresses\<close>

lemma lookup_mapping:
  assumes aw: "all_writable m d" and i: "dir_index a < 1023"
  shows "lookup m d a = map_option (\<lambda>f. (f, True)) (mapping m d (dir_index a) (table_index a))"
proof (cases "entry m (entry_at d (dir_index a))")
  case None
  then show ?thesis by (simp add: lookup_def mapping_def entry_def Let_def split: if_splits)
next
  case (Some t)
  have w: "bit (entry_val m (entry_at d (dir_index a))) 1"
    using all_writableD(1)[OF aw i] Some by (simp add: writable_def)
  have t: "page_of (entry_val m (entry_at d (dir_index a))) = t" "entry_val m (entry_at d (dir_index a)) AND 1 \<noteq> 0"
    using Some by (auto simp: entry_def Let_def split: if_splits)
  have w': "writable m (entry_at t (table_index a))" by (rule all_writableD(2)[OF aw i Some table_index_less])
  show ?thesis
    using Some w t w'
    by (auto simp: lookup_def mapping_def Let_def entry_def writable_def simp del: entry_val_page entry_val_present)
qed

lemma fault_indices: "get_first_10_bits a = dir_index a" "get_middle_10_bits a = table_index a"
  unfolding get_first_10_bits_def get_middle_10_bits_def dir_index_def table_index_def mask_numerals
  by simp_all

lemma page_indices: "page_of a = page_of b \<longleftrightarrow> dir_index a = dir_index b \<and> table_index a = table_index b"
proof
  assume eq: "page_of a = page_of b"
  have b: "bit a n = bit b n" if "12 \<le> n" for n
  proof (cases "n < 32")
    case True
    have "bit (a AND NOT (mask 12)) n = bit (b AND NOT (mask 12)) n"
      using eq unfolding page_of_def mask_numerals by simp
    then show ?thesis using that True by (simp add: bit_simps)
  next
    case False
    then show ?thesis using bit_imp_le_length[of a n] bit_imp_le_length[of b n] by auto
  qed
  show "dir_index a = dir_index b \<and> table_index a = table_index b"
    unfolding dir_index_def table_index_def by (auto intro!: bit_word_eqI simp: bit_simps b)
next
  assume eq: "dir_index a = dir_index b \<and> table_index a = table_index b"
  show "page_of a = page_of b"
    unfolding page_of_def mask_numerals
  proof (rule bit_word_eqI)
    fix n assume n: "n < LENGTH(32)"
    have "bit (dir_index a) (n - 22) = bit (dir_index b) (n - 22)"
      "bit (table_index a) (n - 12) = bit (table_index b) (n - 12)" using eq by simp_all
    then show "bit (a AND NOT (mask 12)) n = bit (b AND NOT (mask 12)) n"
      using n unfolding dir_index_def table_index_def mask_numerals by (cases "n < 22") (auto simp: bit_simps)
  qed
qed

section \<open>The handler\<close>

lemma handle_fault_rest:
  assumes ok: "paging_ok s" and i: "0 < i" "i < 1023" and j: "j < 1024"
    and t: "entry (mem s) (entry_at (cr3 s) i) = Some t" and none: "mapping (mem s) (cr3 s) i j = None"
    and ne: "free_frames (process_mem_pool s) s \<noteq> {}"
  obtains f s' where
    "andthen (load32 (construct_pte_address i j) s) (\<lambda>(pte, s3).
       if pte AND 1 = 0 then add_page (construct_pte_address i j) s3 else Inr s3) = Inr s'"
    "f \<in> free_frames (process_mem_pool s) s" "paging_ok s'" "s' = s\<lparr>mem := mem s', pools := pools s'\<rparr>"
    "mapping (mem s') (cr3 s) i j = Some (4096 * f)"
    "\<And>i' l. i' < 1023 \<Longrightarrow> l < 1024 \<Longrightarrow> (i', l) \<noteq> (i, j) \<Longrightarrow> mapping (mem s') (cr3 s) i' l = mapping (mem s) (cr3 s) i' l"
    "free_frames (process_mem_pool s) s' = free_frames (process_mem_pool s) s - {f}"
    "\<And>x. data_byte s x \<Longrightarrow> mem s' x = mem s x"
proof -
  obtain v s1 where l: "load32 (construct_pte_address i j) s = Inr (v, s1)"
    "v AND 1 = 0 \<longleftrightarrow> entry (mem s) (entry_at t j) = None" "s1 = s\<lparr>mem := mem s1\<rparr>"
    "\<And>b. aligned4 b \<Longrightarrow> entry_val (mem s1) b = entry_val (mem s) b" "paging_ok s1"
    "free_frames (process_mem_pool s) s1 = free_frames (process_mem_pool s) s"
    "\<And>x. page_of x \<noteq> cr3 s \<Longrightarrow> mem s1 x = mem s x"
    by (rule paging_load[OF ok lt_1023_1024[OF i(2)] j t disjI1[OF i(2)]], rule that)
  have v: "v AND 1 = 0" using l(2) none t by (simp add: mapping_def)
  note sh = mem_pools_shape[OF l(3)]
  note c = mem_pools_fields[OF sh]
  have d: "page_aligned (cr3 s)" using ok by (simp add: paging_ok_def recursive_def)
  have m1: "mapping (mem s1) (cr3 s) i' j' = mapping (mem s) (cr3 s) i' j'" if "i' < 1023" "j' < 1024" for i' j'
    by (rule mapping_same_vals[OF l(4) d lt_1023_1024[OF that(1)] that(2)])
  have t1: "entry (mem s1) (entry_at (cr3 s1) i) = Some t"
    unfolding c(1) using entry_cong[OF l(4)[OF aligned4_entry_at[OF d lt_1023_1024[OF i(2)]]]] t by simp
  have ne1: "free_frames (process_mem_pool s1) s1 \<noteq> {}" using ne l(6) c(2) by simp
  obtain f s2 where a: "add_page (construct_pte_address i j) s1 = Inr s2" "f \<in> free_frames (process_mem_pool s1) s1"
    "mapping (mem s1) (cr3 s1) i j = None \<Longrightarrow> paging_ok s2" "s2 = s1\<lparr>mem := mem s2, pools := pools s2\<rparr>"
    "mapping (mem s2) (cr3 s1) i j = Some (4096 * f)"
    "\<And>i' l. i' < 1023 \<Longrightarrow> l < 1024 \<Longrightarrow> (i', l) \<noteq> (i, j) \<Longrightarrow> mapping (mem s2) (cr3 s1) i' l = mapping (mem s1) (cr3 s1) i' l"
    "free_frames (process_mem_pool s1) s2 = free_frames (process_mem_pool s1) s1 - {f}"
    "\<And>x. data_byte s1 x \<Longrightarrow> mem s2 x = mem s1 x"
    by (rule add_page_ok[OF l(5) i j t1 ne1], rule that)
  show ?thesis
  proof (rule that)
    show "andthen (load32 (construct_pte_address i j) s) (\<lambda>(pte, s3).
       if pte AND 1 = 0 then add_page (construct_pte_address i j) s3 else Inr s3) = Inr s2"
      using l(1) v a(1) by simp
    show "f \<in> free_frames (process_mem_pool s) s" using a(2) l(6) c(2) by simp
    show "paging_ok s2" using a(3) m1[OF i(2) j] none c(1) by simp
    show "s2 = s\<lparr>mem := mem s2, pools := pools s2\<rparr>" by (rule mem_pools_shape_trans[OF sh a(4)])
    show "mapping (mem s2) (cr3 s) i j = Some (4096 * f)" using a(5) c(1) by simp
    show "mapping (mem s2) (cr3 s) i' l = mapping (mem s) (cr3 s) i' l"
      if "i' < 1023" "l < 1024" "(i', l) \<noteq> (i, j)" for i' l
      using a(6)[OF that] m1[OF that(1,2)] c(1) by simp
    show "free_frames (process_mem_pool s) s2 = free_frames (process_mem_pool s) s - {f}" using a(7) l(6) c(2) by simp
    show "mem s2 x = mem s x" if x: "data_byte s x" for x
      using a(8)[OF data_byte_mono[OF c(1) x]] l(7)[OF data_byte_apart(2)[OF ok x]] m1 by simp
  qed
qed

lemma handle_fault_result:
  fixes s :: "'a paging_state_scheme"
  defines "i \<equiv> dir_index (cr2 s)" and "j \<equiv> table_index (cr2 s)"
  assumes ok: "paging_ok s" and t: "current_page_table s = Some t" "check_address (page_tables s ! t) (vm_pools s) (cr2 s)"
    and i: "0 < i" "i < 1023" and none: "mapping (mem s) (cr3 s) i j = None"
    and two: "2 \<le> card (free_frames (process_mem_pool s) s)"
  obtains f s' where "handle_fault s = Inr s'" "f \<in> free_frames (process_mem_pool s) s" "paging_ok s'"
    "s' = s\<lparr>mem := mem s', pools := pools s'\<rparr>" "mapping (mem s') (cr3 s) i j = Some (4096 * f)"
    "\<And>i' l. i' < 1023 \<Longrightarrow> l < 1024 \<Longrightarrow> (i', l) \<noteq> (i, j) \<Longrightarrow> mapping (mem s') (cr3 s) i' l = mapping (mem s) (cr3 s) i' l"
    "card (free_frames (process_mem_pool s) s) \<le> card (free_frames (process_mem_pool s) s') + 2"
    "\<And>x. data_byte s x \<Longrightarrow> mem s' x = mem s x"
proof -
  let ?k = "process_mem_pool s" and ?d = "cr3 s"
  have j: "j < 1024" unfolding j_def by (rule table_index_less)
  have i4: "i < 1024" "(1023 :: u32) < 1024" using lt_1023_1024[OF i(2)] by (simp_all add: word_less_nat_alt)
  have r: "recursive s" and d: "page_aligned ?d" using ok by (simp_all add: paging_ok_def recursive_def)
  have fin: "finite (free_frames ?k s)" by (simp add: free_frames_def)
  obtain v s1 where l: "load32 (construct_pte_address 1023 i) s = Inr (v, s1)"
    "v AND 1 = 0 \<longleftrightarrow> entry (mem s) (entry_at ?d i) = None" "s1 = s\<lparr>mem := mem s1\<rparr>"
    "\<And>b. aligned4 b \<Longrightarrow> entry_val (mem s1) b = entry_val (mem s) b" "paging_ok s1"
    "free_frames ?k s1 = free_frames ?k s" "\<And>x. page_of x \<noteq> ?d \<Longrightarrow> mem s1 x = mem s x"
    by (rule paging_load[OF ok i4(2,1) recursive_entry(1)[OF r] disjI2[OF refl]], rule that)
  note sh = mem_pools_shape[OF l(3)]
  note c = mem_pools_fields[OF sh]
  have m1: "mapping (mem s1) ?d i' l = mapping (mem s) ?d i' l" if "i' < 1023" "l < 1024" for i' l
    by (rule mapping_same_vals[OF l(4) d lt_1023_1024[OF that(1)] that(2)])
  have k1: "data_byte s1 x" "mem s1 x = mem s x" if x: "data_byte s x" for x
    using data_byte_mono[OF c(1) x] l(7)[OF data_byte_apart(2)[OF ok x]] m1 by simp_all
  have e1: "entry (mem s1) (entry_at ?d i) = entry (mem s) (entry_at ?d i)"
    by (rule entry_cong[OF l(4)[OF aligned4_entry_at[OF d i4(1)]]])
  have run: "handle_fault s = andthen (if v AND 1 = 0 then add_page_table i s1 else Inr s1) (\<lambda>s2.
      andthen (load32 (construct_pte_address i j) s2) (\<lambda>(pte, s3).
      if pte AND 1 = 0 then add_page (construct_pte_address i j) s3 else Inr s3))"
    using t l(1) unfolding i_def j_def
    by (simp add: handle_fault_def Let_def fault_indices pde_address_is_pte_address)
  show ?thesis
  proof (cases "entry (mem s) (entry_at ?d i)")
    case (Some u)
    have u: "entry (mem s1) (entry_at (cr3 s1) i) = Some u" "mapping (mem s1) (cr3 s1) i j = None"
      using Some e1 none m1[OF i(2) j] c(1) by simp_all
    have ne: "free_frames (process_mem_pool s1) s1 \<noteq> {}" using two l(6) c(2) by auto
    obtain f s' where h: "andthen (load32 (construct_pte_address i j) s1) (\<lambda>(pte, s3).
       if pte AND 1 = 0 then add_page (construct_pte_address i j) s3 else Inr s3) = Inr s'"
      "f \<in> free_frames (process_mem_pool s1) s1" "paging_ok s'" "s' = s1\<lparr>mem := mem s', pools := pools s'\<rparr>"
      "mapping (mem s') (cr3 s1) i j = Some (4096 * f)"
      "\<And>i' l. i' < 1023 \<Longrightarrow> l < 1024 \<Longrightarrow> (i', l) \<noteq> (i, j) \<Longrightarrow> mapping (mem s') (cr3 s1) i' l = mapping (mem s1) (cr3 s1) i' l"
      "free_frames (process_mem_pool s1) s' = free_frames (process_mem_pool s1) s1 - {f}"
      "\<And>x. data_byte s1 x \<Longrightarrow> mem s' x = mem s1 x"
      by (rule handle_fault_rest[OF l(5) i j u ne], rule that)
    have "card (free_frames ?k s) \<le> card (free_frames ?k s') + 2"
      using h(2,7) l(6) c(2) fin by (simp add: card_Diff_singleton)
    then show ?thesis
      by (intro that[of s' f])
        (use run h l(2,6) Some c m1 k1 mem_pools_shape_trans[OF sh h(4)] in simp_all)
  next
    case None
    have n1: "entry (mem s1) (entry_at (cr3 s1) i) = None" using None e1 c(1) by simp
    have ne: "free_frames (process_mem_pool s1) s1 \<noteq> {}" using two l(6) c(2) by auto
    obtain g s2 where a: "add_page_table i s1 = Inr s2" "g \<in> free_frames (process_mem_pool s1) s1"
      "free_frames (process_mem_pool s1) s2 = free_frames (process_mem_pool s1) s1 - {g}"
      "paging_ok s2" "s2 = s1\<lparr>mem := mem s2, pools := pools s2\<rparr>"
      "entry (mem s2) (entry_at (cr3 s1) i) = Some (4096 * g)"
      "\<And>j. j < 1024 \<Longrightarrow> mapping (mem s2) (cr3 s1) i j = None"
      "\<And>i' j. i' < 1023 \<Longrightarrow> j < 1024 \<Longrightarrow> i' \<noteq> i \<Longrightarrow> mapping (mem s2) (cr3 s1) i' j = mapping (mem s1) (cr3 s1) i' j"
      "\<And>x. data_byte s1 x \<Longrightarrow> mem s2 x = mem s1 x"
      by (rule add_page_table_ok[OF l(5) i(2) n1 ne], rule that)
    note c2 = mem_pools_fields[OF a(5)]
    have "card (free_frames ?k s2) = card (free_frames ?k s) - 1"
      using a(2,3) l(6) c(2) by simp
    then have ne2: "free_frames (process_mem_pool s2) s2 \<noteq> {}" using two c(2) c2(2) by auto
    have u: "entry (mem s2) (entry_at (cr3 s2) i) = Some (4096 * g)" "mapping (mem s2) (cr3 s2) i j = None"
      using a(6) a(7)[OF j] c2(1) by simp_all
    obtain f s' where h: "andthen (load32 (construct_pte_address i j) s2) (\<lambda>(pte, s3).
       if pte AND 1 = 0 then add_page (construct_pte_address i j) s3 else Inr s3) = Inr s'"
      "f \<in> free_frames (process_mem_pool s2) s2" "paging_ok s'" "s' = s2\<lparr>mem := mem s', pools := pools s'\<rparr>"
      "mapping (mem s') (cr3 s2) i j = Some (4096 * f)"
      "\<And>i' l. i' < 1023 \<Longrightarrow> l < 1024 \<Longrightarrow> (i', l) \<noteq> (i, j) \<Longrightarrow> mapping (mem s') (cr3 s2) i' l = mapping (mem s2) (cr3 s2) i' l"
      "free_frames (process_mem_pool s2) s' = free_frames (process_mem_pool s2) s2 - {f}"
      "\<And>x. data_byte s2 x \<Longrightarrow> mem s' x = mem s2 x"
      by (rule handle_fault_rest[OF a(4) i j u ne2], rule that)
    have none_i: "mapping (mem s) ?d i l = None" for l using None by (simp add: mapping_def)
    have m2: "mapping (mem s2) (cr3 s1) i' l = Some f" if "i' < 1023" "l < 1024" "mapping (mem s1) (cr3 s1) i' l = Some f" for i' l f
      using a(7)[OF that(2)] a(8)[OF that(1,2)] m1[OF that(1,2)] none_i that(3) c(1) by (cases "i' = i") simp_all
    show ?thesis
    proof (rule that[of s' f])
      show "handle_fault s = Inr s'" using run l(2) None a(1) h(1) by simp
      show "f \<in> free_frames ?k s" using h(2) a(3) l(6) c(2) c2(2) by auto
      show "s' = s\<lparr>mem := mem s', pools := pools s'\<rparr>"
        by (rule mem_pools_shape_trans[OF mem_pools_shape_trans[OF sh a(5)] h(4)])
      show "mapping (mem s') ?d i j = Some (4096 * f)" using h(5) c(1) c2(1) by simp
      show "mapping (mem s') ?d i' l = mapping (mem s) ?d i' l" if "i' < 1023" "l < 1024" "(i', l) \<noteq> (i, j)" for i' l
        using h(6)[OF that] a(7)[OF that(2)] a(8)[OF that(1,2)] m1[OF that(1,2)] none_i c(1) c2(1)
        by (cases "i' = i") simp_all
      show "card (free_frames ?k s) \<le> card (free_frames ?k s') + 2"
        using h(2,7) a(2,3) l(6) c(2) c2(2) fin by (simp add: card_Diff_singleton)
      show "mem s' x = mem s x" if x: "data_byte s x" for x
        using h(8)[OF data_byte_mono[OF c2(1) k1(1)[OF x]]] a(9)[OF k1(1)[OF x]] k1(2)[OF x] m2 by simp
    qed (rule h(3))
  qed
qed

section \<open>Freeing a page\<close>

lemma ownership_remove:
  assumes "ownership om (insert g fs)" "om x = Some (4096 * g)" "om' = om(x := None)"
  shows "ownership om' (insert g fs - {g})"
  unfolding ownership_def
proof (intro conjI allI impI)
  fix y f assume y: "om' y = Some f"
  then have y': "om y = Some f" "y \<noteq> x" using assms(3) by (auto split: if_splits)
  then obtain h where h: "f = 4096 * h" "h \<in> insert g fs" using assms(1) unfolding ownership_def by blast
  have "h \<noteq> g" using y' h(1) assms(1,2) unfolding ownership_def by blast
  then show "f \<in> (*) 4096 ` (insert g fs - {g})" using h by blast
next
  fix y z f assume "om' y = Some f \<and> om' z = Some f"
  then have "om y = Some f" "om z = Some f" using assms(3) by (auto split: if_splits)
  then show "y = z" using assms(1) unfolding ownership_def by blast
qed

lemma frame_of_pte:
  assumes "page_of v = 4096 * g" "unat g < 2 ^ 20"
  shows "(v AND NOT 0x3FF) div 4096 = g"
proof -
  have "(v AND NOT 0x3FF) div 4096 = drop_bit 12 (v AND NOT 0x3FF)" by (simp add: drop_bit_eq_div)
  also have "\<dots> = drop_bit 12 (page_of v)"
    unfolding page_of_def mask_numerals by (rule bit_word_eqI) (auto simp: bit_simps)
  also have "\<dots> = g"
    using assms(2) by (simp only: assms(1) word_unat_eq_iff unat_drop_bit unat_frame_page) simp
  finally show ?thesis .
qed

text \<open>\<open>release_frames\<close> on a frame that one page owns, and clearing the page's entry.\<close>

lemma release_and_clear:
  assumes ok: "paging_ok s" and i: "0 < i" "i < 1023" and j: "j < 1024"
    and t: "entry (mem s) (entry_at (cr3 s) i) = Some t"
    and m: "mapping (mem s) (cr3 s) i j = Some (4096 * g)" and g: "g \<in> head_frames (process_mem_pool s) s"
  obtains s1 s2 where "release_frames g s = Inr s1" "store32 (construct_pte_address i j) 2 s1 = Inr s2"
    "paging_ok s2" "free_frames (process_mem_pool s) s2 = insert g (free_frames (process_mem_pool s) s)"
    "s2 = s\<lparr>mem := mem s2, pools := pools s2\<rparr>" "mapping (mem s2) (cr3 s) i j = None"
    "\<And>i' l. i' < 1023 \<Longrightarrow> l < 1024 \<Longrightarrow> (i', l) \<noteq> (i, j) \<Longrightarrow> mapping (mem s2) (cr3 s) i' l = mapping (mem s) (cr3 s) i' l"
proof -
  let ?k = "process_mem_pool s" and ?d = "cr3 s" and ?P = "pool_pages (process_mem_pool s) s"
  have p: "recursive s" "layout ?k s" "all_writable (mem s) ?d" "ownership (owned (mem s) ?d) (head_frames ?k s)"
    "pool_ok ?k s" "singles ?k s" using ok by (simp_all add: paging_ok_def)
  obtain fd where d: "?d = 4096 * fd" "fd \<in> head_frames ?k s" "?d \<in> ?P" "page_aligned ?d"
    by (rule directory_in_pool[OF ok], rule that)
  have t': "page_aligned t" "t \<in> ?P" "t \<noteq> ?d" using table_frames_ok[OF ok] t i(2) by (auto simp: table_frames_def)
  obtain s1 where f: "release_frame ?k g s = Inr s1" "free_frames ?k s1 = insert g (free_frames ?k s)"
    "head_frames ?k s1 = head_frames ?k s - {g}" "pool_ok ?k s1" "singles ?k s1" "only_pool ?k s s1"
    by (rule release_one[OF p(5,6) g], rule that)
  have geo: "geometry s1 = geometry s" and sh: "s1 = s\<lparr>mem := mem s1, pools := pools s1\<rparr>"
    using f(6) by (simp_all add: only_pool_def)
  note e1 = only_pool_entries[OF p(2) f(6)]
  note e1' = entry_of_pool_page[OF e1] and c1 = mem_pools_fields[OF sh]
  have cr0: "cr0 s1 = cr0 s" by (subst sh) simp
  have i4: "i < 1024" "(1023 :: u32) < 1024" using lt_1023_1024[OF i(2)] by (simp_all add: word_less_nat_alt)
  have r1: "recursive s1" using p(1) e1'[OF d(4,3) i4(2)] c1 cr0 unfolding recursive_def by simp
  have t1: "entry (mem s1) (entry_at (cr3 s1) i) = Some t" "bit (entry_val (mem s1) (entry_at (cr3 s1) i)) 1"
    unfolding c1 e1'[OF d(4,3) i4(1)] entry_cong[OF e1'[OF d(4,3) i4(1)]]
    using t all_writableD(1)[OF p(3) i(2)] by (simp_all add: writable_def)
  obtain s2 where s2: "store32 (construct_pte_address i j) 2 s1 = Inr s2" "s2 = s1\<lparr>mem := mem s2\<rparr>"
    and e2: "\<And>b. aligned4 b \<Longrightarrow> entry_val (mem s2) b = (if b = entry_at t j then 2 AND NOT 0x60 else entry_val (mem s1) b)"
    and o2: "\<And>x. page_of x \<noteq> cr3 s1 \<Longrightarrow> page_of x \<noteq> t \<Longrightarrow> mem s2 x = mem s1 x"
    by (rule store_recursive[OF r1 i4(1) j t1, of 2], rule that)
  have slot: "entry_val (mem s2) (entry_at t j) = 2"
    using e2[OF aligned4_entry_at[OF t'(1) j]] flags_2 by simp
  note ab = entry_absent[OF slot]
  have "agree_except {(t, j)} UNIV (mem s1) (mem s2)"
    unfolding agree_except_def using e2 aligned4_entry_at entry_at_eq_iff[OF _ t'(1) _ j] by auto
  then have same: "agree_except {(t, j)} ?P (mem s) (mem s2)" by (rule agree_trans[OF e1])
  note res = page_entry_changed[OF d(4,3) i j t table_frames_ok[OF ok] p(3) conjunct1[OF ab] conjunct2[OF ab] same]
  have "entry_val (mem s2) (entry_at ?d 1023) = ?d OR 3"
    using agree_exceptD[OF same d(4,3) i4(2)] t'(3) p(1) by (simp add: recursive_def)
  moreover have "cr3 s2 = ?d" "cr0 s2 = cr0 s" by (subst s2(2), simp add: c1 cr0)+
  ultimately have r2: "recursive s2" using p(1) by (simp add: recursive_def)
  have ow: "owned (mem s) ?d (Page i j) = Some (4096 * g)" using m i j by simp
  have hd: "insert g (head_frames ?k s) = head_frames ?k s" using g by blast
  have own: "ownership (owned (mem s2) ?d) (head_frames ?k s1)"
    using ownership_remove[of "owned (mem s) ?d" g "head_frames ?k s", OF _ ow res(3)] p(4) unfolding f(3) hd by blast
  have out: "mem s2 x = mem s1 x" if "page_of x \<notin> ?P" for x using o2 that d(3) t'(2) c1(1) by metis
  note fin = paging_ok_after[OF ok layout_cong(1)[OF geo p(2)] f(4,5) geo refl sh s2(2) out r2 res(4) own]
  have "release_frames g s = Inr s1"
    using frame_number(3)[OF p(2), of g] g f(1) by (simp add: release_frames_def)
  then show ?thesis
    using that[OF _ s2(1) fin(1) _ fin(3) res(1,2)] fin(2) f(2) by simp
qed

lemma free_page_result:
  fixes s :: "'a paging_state_scheme"
  assumes ok: "paging_ok s" and i: "0 < drop_bit 10 n" "drop_bit 10 n < 1023"
    and m: "mapping (mem s) (cr3 s) (drop_bit 10 n) (n AND 0x3FF) = Some f"
  obtains s' where "free_page n s = Inr s'" "paging_ok s'"
    "free_frames (process_mem_pool s) s' = insert (f div 4096) (free_frames (process_mem_pool s) s)"
    "mapping (mem s') (cr3 s) (drop_bit 10 n) (n AND 0x3FF) = None" "cr3 s' = cr3 s"
    "\<And>i' l. i' < 1023 \<Longrightarrow> l < 1024 \<Longrightarrow> (i', l) \<noteq> (drop_bit 10 n, n AND 0x3FF) \<Longrightarrow>
       mapping (mem s') (cr3 s) i' l = mapping (mem s) (cr3 s) i' l"
proof -
  let ?i = "drop_bit 10 n" and ?j = "n AND 0x3FF" and ?k = "process_mem_pool s" and ?d = "cr3 s"
  have j: "?j < 1024" unfolding mask_numerals by (simp only: word_less_nat_alt unat_and_mask) simp
  have i4: "?i < 1024" "(1023 :: u32) < 1024" using lt_1023_1024[OF i(2)] by (simp_all add: word_less_nat_alt)
  have r: "recursive s" and d: "page_aligned ?d" using ok by (simp_all add: paging_ok_def recursive_def)
  obtain t where t: "entry (mem s) (entry_at ?d ?i) = Some t" "entry (mem s) (entry_at t ?j) = Some f"
    using m by (auto simp: mapping_Some)
  obtain v1 s1 where l1: "load32 (construct_pte_address 1023 ?i) s = Inr (v1, s1)"
    "v1 AND 1 = 0 \<longleftrightarrow> entry (mem s) (entry_at ?d ?i) = None" "s1 = s\<lparr>mem := mem s1\<rparr>"
    "\<And>b. aligned4 b \<Longrightarrow> entry_val (mem s1) b = entry_val (mem s) b" "paging_ok s1"
    "free_frames ?k s1 = free_frames ?k s"
    by (rule paging_load[OF ok i4(2,1) recursive_entry(1)[OF r] disjI2[OF refl]], rule that)
  note c1 = mem_pools_fields[OF mem_pools_shape[OF l1(3)]]
  have di: "aligned4 (entry_at ?d ?i)" "aligned4 (entry_at t ?j)"
    using aligned4_entry_at[OF d i4(1)] aligned4_entry_at[OF entry_page_aligned[OF t(1)] j] by simp_all
  have t1: "entry (mem s1) (entry_at (cr3 s1) ?i) = Some t" "entry (mem s1) (entry_at t ?j) = Some f"
    unfolding c1 using entry_cong[OF l1(4)[OF di(1)]] entry_cong[OF l1(4)[OF di(2)]] t by simp_all
  obtain v2 s2 where l2: "load32 (construct_pte_address ?i ?j) s1 = Inr (v2, s2)"
    "v2 AND 1 = 0 \<longleftrightarrow> entry (mem s1) (entry_at t ?j) = None" "s2 = s1\<lparr>mem := mem s2\<rparr>"
    "\<And>b. aligned4 b \<Longrightarrow> entry_val (mem s2) b = entry_val (mem s1) b" "paging_ok s2"
    "free_frames (process_mem_pool s1) s2 = free_frames (process_mem_pool s1) s1"
    by (rule paging_load[OF l1(5) i4(1) j t1(1) disjI1[OF i(2)]], rule that)
  note c2 = mem_pools_fields[OF mem_pools_shape[OF l2(3)]]
  have t2: "entry (mem s2) (entry_at (cr3 s2) ?i) = Some t" "entry (mem s2) (entry_at t ?j) = Some f"
    unfolding c2 c1 using entry_cong[OF l2(4)[OF di(1)]] entry_cong[OF l2(4)[OF di(2)]] t1 c1 by simp_all
  obtain v3 s3 where l3: "load32 (construct_pte_address ?i ?j) s2 = Inr (v3, s3)"
    "v3 AND 1 = 0 \<longleftrightarrow> entry (mem s2) (entry_at t ?j) = None" "v3 AND NOT 0x60 = entry_val (mem s2) (entry_at t ?j)"
    "s3 = s2\<lparr>mem := mem s3\<rparr>"
    "\<And>b. aligned4 b \<Longrightarrow> entry_val (mem s3) b = entry_val (mem s2) b" "paging_ok s3"
    "free_frames (process_mem_pool s2) s3 = free_frames (process_mem_pool s2) s2"
    by (rule paging_load[OF l2(5) i4(1) j t2(1) disjI1[OF i(2)]], rule that)
  note c3 = mem_pools_fields[OF mem_pools_shape[OF l3(4)]]
  have t3: "entry (mem s3) (entry_at (cr3 s3) ?i) = Some t" "entry (mem s3) (entry_at t ?j) = Some f"
    unfolding c3 c2 c1 using entry_cong[OF l3(5)[OF di(1)]] entry_cong[OF l3(5)[OF di(2)]] t2 c1 c2 by simp_all
  have m3: "mapping (mem s3) ?d i' l = mapping (mem s) ?d i' l" if "i' < 1023" "l < 1024" for i' l
    using l1(4) l2(4) l3(5) by (intro mapping_same_vals d lt_1023_1024 that) simp
  have ow: "owned (mem s3) (cr3 s3) (Page ?i ?j) = Some f" using m m3[OF i(2) j] i j c1 c2 c3 by simp
  obtain g where g: "f = 4096 * g" "g \<in> head_frames (process_mem_pool s3) s3"
    by (rule owned_in_pool[OF l3(6) ow], rule that)
  have lay: "layout (process_mem_pool s3) s3" using l3(6) by (simp add: paging_ok_def)
  have g20: "unat g < 2 ^ 20" using frame_number(1)[OF lay] g(2) by simp
  have "page_of (v3 AND NOT 0x60) = page_of v3"
    unfolding page_of_def mask_numerals(2) by (rule bit_word_eqI) (auto simp: bit_simps flag_bits)
  moreover have "page_of (entry_val (mem s2) (entry_at t ?j)) = f"
    using t2(2) by (auto simp: entry_def Let_def split: if_splits)
  ultimately have fr: "(v3 AND NOT 0x3FF) div PAGE_SIZE = g"
    using frame_of_pte[OF _ g20, of v3] l3(3) g(1) by (simp add: PAGE_SIZE_def)
  have fg: "f div 4096 = g"
  proof -
    have "unat (f div 4096) = unat g" using g20 by (simp only: g(1) unat_div unat_frame_page) simp
    then show ?thesis by (simp add: word_unat_eq_iff)
  qed
  have m3g: "mapping (mem s3) (cr3 s3) ?i ?j = Some (4096 * g)" using m m3[OF i(2) j] c1 c2 c3 g(1) by simp
  obtain s4 s5 where rc: "release_frames g s3 = Inr s4" "store32 (construct_pte_address ?i ?j) 2 s4 = Inr s5"
    "paging_ok s5" "free_frames (process_mem_pool s3) s5 = insert g (free_frames (process_mem_pool s3) s3)"
    "s5 = s3\<lparr>mem := mem s5, pools := pools s5\<rparr>" "mapping (mem s5) (cr3 s3) ?i ?j = None"
    "\<And>i' l. i' < 1023 \<Longrightarrow> l < 1024 \<Longrightarrow> (i', l) \<noteq> (?i, ?j) \<Longrightarrow> mapping (mem s5) (cr3 s3) i' l = mapping (mem s3) (cr3 s3) i' l"
    by (rule release_and_clear[OF l3(6) i j t3(1) m3g g(2)], rule that)
  note c5 = mem_pools_fields[OF rc(5)]
  let ?s = "puts (''freed page'' @ [CHR 0x0A]) (reload_tlb s5)"
  have run: "free_page n s = Inr ?s"
    unfolding free_page_def Let_def pde_address_is_pte_address
    using l1(1,2) l2(1,2) l3(1) rc(1,2) fr t t1 by (simp add: mask_numerals)
  have ok': "paging_ok ?s"
    using rc(3) by (simp add: paging_ok_def recursive_def reload_tlb_def emit_def layout_def singles_def pool_ok_def
        pool_inv_def fits_def follows_head_def head_frames_def pool_status_def pool_size_def free_idx_def
        pool_bytes_def pool_pages_def)
  have ff: "free_frames ?k ?s = free_frames ?k s5"
    by (simp add: free_frames_def free_idx_def pool_status_def pool_size_def reload_tlb_def emit_def)
  have st: "mem ?s = mem s5" "cr3 ?s = ?d" using c1 c2 c3 c5 by (simp_all add: reload_tlb_def emit_def)
  show ?thesis
  proof (rule that[OF run ok'])
    show "free_frames ?k ?s = insert (f div 4096) (free_frames ?k s)"
      using ff rc(4) l1(6) l2(6) l3(7) c1 c2 c3 fg by simp
    show "mapping (mem ?s) ?d ?i ?j = None" using rc(6) c1 c2 c3 st by simp
    show "cr3 ?s = cr3 s" by (rule st)
    show "mapping (mem ?s) ?d i' l = mapping (mem s) ?d i' l" if "i' < 1023" "l < 1024" "(i', l) \<noteq> (?i, ?j)" for i' l
      using rc(7)[OF that] m3[OF that(1,2)] c1 c2 c3 st by simp
  qed
qed

end
