(* ===== verification/BootPaging.thy ===== *)
theory BootPaging
  imports FaultHandler
begin

text \<open>
  The page table that P4 builds while paging is off: identity map of the first 4 MB, the
  recursive last entry, nothing else; and the start-up sequence of P4's kernel.C up to the
  first page fault.
\<close>

section \<open>Filling a table by physical stores\<close>

lemma store_physical:
  "\<not> bit (cr0 s) 31 \<Longrightarrow> store32 a v s = Inr (s\<lparr>mem := write32 (mem s) a v\<rparr>)"
  by (simp add: store32_def translate_def translate_linear_def)

lemma load_physical: "\<not> bit (cr0 s) 31 \<Longrightarrow> load32 a s = Inr (read32 (mem s) a, s)"
  by (simp add: load32_def translate_def translate_linear_def)

lemma fill_physical:
  assumes "\<not> bit (cr0 s) 31" "page_aligned t" "hi \<le> 1024" "k \<le> hi"
  shows "\<exists>s'. fill_entries (\<lambda>i. t + 4 * of_nat i) F hi k s = Inr s' \<and> s' = s\<lparr>mem := mem s'\<rparr>
    \<and> (\<forall>j. k \<le> j \<longrightarrow> j < hi \<longrightarrow> read32 (mem s') (entry_at t (of_nat j)) = F j)
    \<and> (\<forall>b. aligned4 b \<longrightarrow> (\<forall>j. k \<le> j \<longrightarrow> j < hi \<longrightarrow> b \<noteq> entry_at t (of_nat j)) \<longrightarrow> read32 (mem s') b = read32 (mem s) b)
    \<and> (\<forall>x. page_of x \<noteq> t \<longrightarrow> mem s' x = mem s x)"
  using assms
proof (induction "hi - k" arbitrary: k s)
  case 0
  then show ?case by (intro exI[of _ s]) (simp add: fill_entries.simps)
next
  case (Suc n)
  then have k: "k < hi" "k < 1024" by simp_all
  let ?a = "entry_at t (of_nat k)"
  let ?s1 = "s\<lparr>mem := write32 (mem s) ?a (F k)\<rparr>"
  have al: "aligned4 ?a" "page_of ?a = t"
    using aligned4_entry_at page_of_entry_at Suc.prems(2) of_nat_less_1024[OF k(2)] by auto
  have "n = hi - Suc k" "Suc k \<le> hi" "\<not> bit (cr0 ?s1) 31" using Suc.hyps(2) k Suc.prems(1) by simp_all
  from Suc.hyps(1)[OF this(1,3) Suc.prems(2,3) this(2)] obtain s' where
    s': "fill_entries (\<lambda>i. t + 4 * of_nat i) F hi (Suc k) ?s1 = Inr s'" "s' = ?s1\<lparr>mem := mem s'\<rparr>"
    and r': "\<forall>j. Suc k \<le> j \<longrightarrow> j < hi \<longrightarrow> read32 (mem s') (entry_at t (of_nat j)) = F j"
    and o': "\<forall>b. aligned4 b \<longrightarrow> (\<forall>j. Suc k \<le> j \<longrightarrow> j < hi \<longrightarrow> b \<noteq> entry_at t (of_nat j)) \<longrightarrow>
      read32 (mem s') b = read32 (mem ?s1) b"
    and p': "\<forall>x. page_of x \<noteq> t \<longrightarrow> mem s' x = mem ?s1 x" by blast
  have "fill_entries (\<lambda>i. t + 4 * of_nat i) F hi k s = Inr s'"
    using s'(1) k(1) Suc.prems(1) by (simp add: fill_entries.simps[of _ _ hi k] store_physical entry_at_def)
  moreover have "s' = s\<lparr>mem := mem s'\<rparr>" using s'(2) by (cases s, cases s') simp
  moreover have "read32 (mem s') (entry_at t (of_nat j)) = F j" if "k \<le> j" "j < hi" for j
  proof (cases "j = k")
    case True
    have "?a \<noteq> entry_at t (of_nat l)" if "Suc k \<le> l" "l < hi" for l
      using entry_at_inj_nat[OF Suc.prems(2) k(2), of l] that Suc.prems(3) by simp
    then show ?thesis using o' al(1) True by (simp add: read32_write32_same)
  qed (use r' that in simp)
  moreover have "read32 (mem s') b = read32 (mem s) b"
    if b: "aligned4 b" "\<forall>j. k \<le> j \<longrightarrow> j < hi \<longrightarrow> b \<noteq> entry_at t (of_nat j)" for b
    using o'[rule_format, OF b(1)] b(2) k(1) read32_write32_other[OF al(1) b(1), of "mem s" "F k"] by auto
  moreover have "mem s' x = mem s x" if "page_of x \<noteq> t" for x
    using p' that write32_other_page[OF al(1), of x] al(2) by simp
  ultimately show ?case by blast
qed

section \<open>Building the page table\<close>

text \<open>The entries of a freshly built directory and its first table.\<close>

definition initial_tables :: "memory \<Rightarrow> u32 \<Rightarrow> u32 \<Rightarrow> bool" where
  "initial_tables m pd pt \<longleftrightarrow> entry_val m (entry_at pd 0) = pt OR 3 \<and> entry_val m (entry_at pd 1023) = pd OR 3
     \<and> (\<forall>i. 0 < i \<and> i < 1023 \<longrightarrow> entry_val m (entry_at pd i) = 2)
     \<and> (\<forall>j < 1024. entry_val m (entry_at pt j) = 4096 * j OR 3)"

lemma build_tables:
  assumes off: "\<not> bit (cr0 s) 31" and al: "page_aligned pd" "page_aligned pt" "pd \<noteq> pt"
  obtains s3 s4 s5 e s6 s7 s8 where
    "fill_entries (\<lambda>i. pt + 4 * of_nat i) identity_entry ENTRIES_PER_PAGE 0 s = Inr s3"
    "store32 pd pt s3 = Inr s4" "load32 pd s4 = Inr (e, s5)" "store32 pd (e OR 3) s5 = Inr s6"
    "store32 (pd + 4 * of_nat (ENTRIES_PER_PAGE - 1)) (pd OR 3) s6 = Inr s7"
    "fill_entries (\<lambda>i. pd + 4 * of_nat i) (\<lambda>_. 0 OR 2) (ENTRIES_PER_PAGE - 1) 1 s7 = Inr s8"
    "s8 = s\<lparr>mem := mem s8\<rparr>" "initial_tables (mem s8) pd pt"
    "\<And>x. page_of x \<noteq> pd \<Longrightarrow> page_of x \<noteq> pt \<Longrightarrow> mem s8 x = mem s x"
proof -
  obtain s3 where s3: "fill_entries (\<lambda>i. pt + 4 * of_nat i) identity_entry 1024 0 s = Inr s3" "s3 = s\<lparr>mem := mem s3\<rparr>"
    and r3: "\<And>j. j < 1024 \<Longrightarrow> read32 (mem s3) (entry_at pt (of_nat j)) = identity_entry j"
    and o3: "\<And>x. page_of x \<noteq> pt \<Longrightarrow> mem s3 x = mem s x"
    using fill_physical[OF off al(2), of 1024 0 identity_entry] by auto
  have z: "pd = entry_at pd 0" "pd + 4 * of_nat 1023 = entry_at pd 1023" by (simp_all add: entry_at_def)
  have l: "(0 :: u32) < 1024" "(1023 :: u32) < 1024" by (simp_all add: word_less_nat_alt)
  have a: "aligned4 pd" "aligned4 (entry_at pd 1023)" "page_of pd = pd" "page_of (entry_at pd 1023) = pd"
    using aligned4_entry_at[OF al(1) l(1)] aligned4_entry_at[OF al(1) l(2)] page_of_entry_at[OF al(1) l(2)] z(1) al(1)
    by (simp_all add: page_aligned_def)
  let ?m4 = "write32 (mem s3) pd pt"
  let ?m6 = "write32 ?m4 pd (pt OR 3)"
  let ?m7 = "write32 ?m6 (entry_at pd 1023) (pd OR 3)"
  let ?s7 = "s\<lparr>mem := ?m7\<rparr>"
  have off3: "\<not> bit (cr0 s3) 31" "s3\<lparr>mem := m\<rparr> = s\<lparr>mem := m\<rparr>" for m using off s3(2) by (cases s, cases s3, simp)+
  have off7: "\<not> bit (cr0 ?s7) 31" using off by simp
  obtain s8 where s8: "fill_entries (\<lambda>i. pd + 4 * of_nat i) (\<lambda>_. 0 OR 2) 1023 1 ?s7 = Inr s8" "s8 = ?s7\<lparr>mem := mem s8\<rparr>"
    and r8: "\<And>j. 1 \<le> j \<Longrightarrow> j < 1023 \<Longrightarrow> read32 (mem s8) (entry_at pd (of_nat j)) = 2"
    and o8: "\<And>b. aligned4 b \<Longrightarrow> (\<forall>j. 1 \<le> j \<longrightarrow> j < 1023 \<longrightarrow> b \<noteq> entry_at pd (of_nat j)) \<Longrightarrow> read32 (mem s8) b = read32 ?m7 b"
    and p8: "\<And>x. page_of x \<noteq> pd \<Longrightarrow> mem s8 x = ?m7 x"
    using fill_physical[OF off7 al(1), of 1023 1 "\<lambda>_. 0 OR 2"] by auto
  have ne: "entry_at pd 0 \<noteq> entry_at pd 1023" using entry_at_eq_iff[OF al(1,1) l] by simp
  have mid: "entry_at u i \<noteq> entry_at pd (of_nat j)"
    if "page_aligned u" "i < 1024" "1 \<le> j" "j < 1023" "u \<noteq> pd \<or> i = 0 \<or> i = 1023" for u i and j :: nat
  proof
    assume "entry_at u i = entry_at pd (of_nat j)"
    then have "u = pd" "i = of_nat j" using entry_at_eq_iff[OF that(1) al(1) that(2) of_nat_less_1024] that(4) by auto
    then have "unat i = j" "u = pd" using that(4) by simp_all
    then show False using that by auto
  qed
  have e0: "read32 (mem s8) (entry_at pd 0) = pt OR 3"
    using o8[OF aligned4_entry_at[OF al(1) l(1)]] mid[OF al(1) l(1)] ne a z(1)
    by (simp add: read32_write32)
  have e1023: "read32 (mem s8) (entry_at pd 1023) = pd OR 3"
    using o8[OF a(2)] mid[OF al(1) l(2)] by (simp add: read32_write32_same)
  have emid: "read32 (mem s8) (entry_at pd i) = 2" if "0 < i" "i < 1023" for i
  proof -
    have "1 \<le> unat i" "unat i < 1023" using that by (simp_all add: word_less_nat_alt)
    from r8[OF this] show ?thesis by simp
  qed
  have ept: "read32 (mem s8) (entry_at pt j) = 4096 * j OR 3" if j: "j < 1024" for j
  proof -
    have aj: "aligned4 (entry_at pt j)" "entry_at pt j \<noteq> pd" "entry_at pt j \<noteq> entry_at pd 1023"
      using aligned4_entry_at[OF al(2) j] entry_at_eq_iff[OF al(2,1) j l(1)] entry_at_eq_iff[OF al(2,1) j l(2)] al(3) z(1)
      by auto
    have "read32 (mem s8) (entry_at pt j) = read32 (mem s3) (entry_at pt j)"
      using o8[OF aj(1)] mid[OF al(2) j] al(3) aj(2,3) read32_write32[OF a(1) aj(1)] read32_write32[OF a(2) aj(1)] by auto
    also have "\<dots> = identity_entry (unat j)" using r3[of "unat j"] j by (simp add: word_less_nat_alt)
    also have "\<dots> = 4096 * j OR 3" by (simp add: identity_entry_def PAGE_SIZE_def mult.commute)
    finally show ?thesis .
  qed
  have "initial_tables (mem s8) pd pt"
    unfolding initial_tables_def entry_val_def
    using e0 e1023 emid ept flags_3(1)[OF al(1)] flags_3(1)[OF al(2)] flags_3(1)[OF frame_page_aligned] flags_2 by simp
  moreover have "mem s8 x = mem s x" if "page_of x \<noteq> pd" "page_of x \<noteq> pt" for x
    using p8[OF that(1)] o3[OF that(2)] write32_other_page[OF a(1), of x] write32_other_page[OF a(2), of x] a(3,4) that(1)
    by simp
  moreover have "s8 = s\<lparr>mem := mem s8\<rparr>" using s8(2) by (cases s, cases s8) simp
  moreover have "store32 pd pt s3 = Inr (s\<lparr>mem := ?m4\<rparr>)" "load32 pd (s\<lparr>mem := ?m4\<rparr>) = Inr (pt, s\<lparr>mem := ?m4\<rparr>)"
    "store32 pd (pt OR 3) (s\<lparr>mem := ?m4\<rparr>) = Inr (s\<lparr>mem := ?m6\<rparr>)"
    "store32 (entry_at pd 1023) (pd OR 3) (s\<lparr>mem := ?m6\<rparr>) = Inr ?s7"
    using off off3 by (simp_all add: store_physical load_physical read32_write32_same)
  ultimately show ?thesis
    using that[of s3 "s\<lparr>mem := ?m4\<rparr>" pt "s\<lparr>mem := ?m4\<rparr>" "s\<lparr>mem := ?m6\<rparr>" ?s7 s8] s3(1) s8(1)
    by (simp add: ENTRIES_PER_PAGE_def z(2)[simplified])
qed

text \<open>What a freshly built directory maps: the first 4 MB to themselves, and nothing else
below the recursive entry.\<close>

lemma initial_entry:
  assumes it: "initial_tables m pd pt" and al: "page_aligned pd" "page_aligned pt" and i: "i < 1023"
  shows "entry m (entry_at pd i) = (if i = 0 then Some pt else None)" "writable m (entry_at pd i)"
proof -
  have "entry_val m (entry_at pd i) = (if i = 0 then pt OR 3 else 2)"
    using it i by (auto simp: initial_tables_def word_neq_0_conv)
  then show "entry m (entry_at pd i) = (if i = 0 then Some pt else None)" "writable m (entry_at pd i)"
    using entry_present[OF al(2)] entry_absent by (auto split: if_splits)
qed

lemma initial_identity:
  assumes "initial_tables m pd pt" "j < 1024"
  shows "entry m (entry_at pt j) = Some (4096 * j)" "writable m (entry_at pt j)"
  using assms entry_present[OF frame_page_aligned[of j]] by (auto simp: initial_tables_def)

lemma initial_mapping:
  assumes "initial_tables m pd pt" "page_aligned pd" "page_aligned pt" "i < 1023" "j < 1024"
  shows "mapping m pd i j = (if i = 0 then Some (4096 * j) else None)"
  using initial_entry[OF assms(1-4)] initial_identity[OF assms(1,5)] by (simp add: mapping_def)

lemma initial_all_writable:
  assumes "initial_tables m pd pt" "page_aligned pd" "page_aligned pt"
  shows "all_writable m pd"
  unfolding all_writable_def
  using initial_entry[OF assms] initial_identity[OF assms(1)] by (auto split: if_splits)

lemma initial_owned:
  assumes "initial_tables m pd pt" "page_aligned pd" "page_aligned pt"
  shows "owned m pd x = (case x of Directory \<Rightarrow> Some pd | Table i \<Rightarrow> if i = 0 then Some pt else None | Page i j \<Rightarrow> None)"
  using initial_entry[OF assms] initial_mapping[OF assms] by (cases x) simp_all

lemma construct_PageTable_result:
  fixes s :: "'a paging_state_scheme"
  assumes off: "\<not> bit (cr0 s) 31" and k: "process_mem_pool s = k"
    and p: "pool_ok k s" "singles k s" "layout k s" and two: "2 \<le> card (free_frames k s)"
  obtains f g s' where "construct_PageTable s = Inr (length (page_tables s), s')"
    "f \<noteq> g" "f \<in> free_frames k s" "g \<in> free_frames k s" "free_frames k s' = free_frames k s - {f, g}"
    "pool_ok k s'" "singles k s'" "layout k s'" "f \<in> head_frames k s'" "g \<in> head_frames k s'"
    "initial_tables (mem s') (4096 * f) (4096 * g)"
    "page_tables s' = page_tables s @ [\<lparr>page_directory = 4096 * f, vmPools = []\<rparr>]"
    "cr0 s' = cr0 s" "process_mem_pool s' = k" "vm_pools s' = vm_pools s"
proof -
  have fin: "finite (free_frames k s)" by (simp add: free_frames_def)
  have ne: "free_frames k s \<noteq> {}" using two by auto
  obtain f s1 where f: "get_frames k 1 s = Inr (f, s1)" "f \<in> free_frames k s" "free_frames k s1 = free_frames k s - {f}"
    "head_frames k s1 = insert f (head_frames k s)" "pool_ok k s1" "singles k s1" "only_pool k s s1"
    by (rule get_one[OF p(1,2) ne], rule that)
  have "card (free_frames k s1) = card (free_frames k s) - 1" using f(2,3) by simp
  then have ne1: "free_frames k s1 \<noteq> {}" using two by auto
  obtain g s2 where g: "get_frames k 1 s1 = Inr (g, s2)" "g \<in> free_frames k s1" "free_frames k s2 = free_frames k s1 - {g}"
    "head_frames k s2 = insert g (head_frames k s1)" "pool_ok k s2" "singles k s2" "only_pool k s1 s2"
    by (rule get_one[OF f(5,6) ne1], rule that)
  have sh: "s1 = s\<lparr>mem := mem s1, pools := pools s1\<rparr>" "s2 = s1\<lparr>mem := mem s2, pools := pools s2\<rparr>"
    and geo: "geometry s1 = geometry s" "geometry s2 = geometry s"
    using f(7) g(7) by (simp_all add: only_pool_def)
  note sh2 = mem_pools_shape_trans[OF sh]
  note lay = layout_cong[OF geo(2) p(3)]
  have fg: "f \<noteq> g" using f(3) g(2) by auto
  have n: "unat f < 2 ^ 20" "unat g < 2 ^ 20" "4096 * f \<in> pool_pages k s" "4096 * g \<in> pool_pages k s"
    using frame_number(1,2)[OF p(3)] f(2,3) g(2) by auto
  have ne2: "4096 * f \<noteq> 4096 * g" using frame_page_inj[OF n(1,2)] fg by simp
  have off2: "\<not> bit (cr0 s2) 31" using off by (subst sh2) simp
  obtain s3 s4 s5 e s6 s7 s8 where b:
    "fill_entries (\<lambda>i. 4096 * g + 4 * of_nat i) identity_entry ENTRIES_PER_PAGE 0 s2 = Inr s3"
    "store32 (4096 * f) (4096 * g) s3 = Inr s4" "load32 (4096 * f) s4 = Inr (e, s5)"
    "store32 (4096 * f) (e OR 3) s5 = Inr s6"
    "store32 (4096 * f + 4 * of_nat (ENTRIES_PER_PAGE - 1)) (4096 * f OR 3) s6 = Inr s7"
    "fill_entries (\<lambda>i. 4096 * f + 4 * of_nat i) (\<lambda>_. 0 OR 2) (ENTRIES_PER_PAGE - 1) 1 s7 = Inr s8"
    "s8 = s2\<lparr>mem := mem s8\<rparr>" "initial_tables (mem s8) (4096 * f) (4096 * g)"
    "\<And>x. page_of x \<noteq> 4096 * f \<Longrightarrow> page_of x \<noteq> 4096 * g \<Longrightarrow> mem s8 x = mem s2 x"
    by (rule build_tables[OF off2 frame_page_aligned frame_page_aligned ne2], rule that)
  have pb: "mem s8 x = mem s2 x" if "x \<in> pool_bytes k s2" for x
  proof -
    have "page_of x \<notin> pool_pages k s" using lay that by (simp add: layout_def)
    then show ?thesis using n(3,4) by (intro b(9)) auto
  qed
  note pres = pool_preserved[OF b(7) pb]
  note sh8 = mem_pools_shape_trans[OF sh2 mem_pools_shape[OF b(7)]]
  note c8 = mem_pools_fields[OF sh8]
  let ?s = "puts (''Constructed Page Table object'' @ [CHR 0x0A])
    (s8\<lparr>page_tables := page_tables s8 @ [\<lparr>page_directory = 4096 * f, vmPools = []\<rparr>]\<rparr>)"
  have kk: "process_mem_pool s1 = k" using mem_pools_fields(2)[OF sh(1)] k by simp
  have run: "construct_PageTable s = Inr (length (page_tables s), ?s)"
    using f(1) g(1) b(1-6) k kk c8(4) by (simp add: construct_PageTable_def Let_def)
  have eq: "?s = s8\<lparr>trace := trace ?s, page_tables := page_tables ?s\<rparr>" by (simp add: emit_def)
  have cr0: "cr0 s8 = cr0 s" by (subst sh8) simp
  have st: "pool_status ?s k i = pool_status s8 k i" "pool_size ?s k = pool_size s8 k" for i
    by (simp_all add: pool_status_def pool_size_def emit_def)
  have same: "free_frames k ?s = free_frames k s8" "head_frames k ?s = head_frames k s8" "pool_ok k ?s = pool_ok k s8"
    "singles k ?s = singles k s8" "layout k ?s = layout k s8"
    by (simp_all add: emit_def free_frames_def head_frames_def free_idx_def pool_ok_def pool_inv_def fits_def
        follows_head_def singles_def layout_def pool_bytes_def pool_pages_def pool_status_def pool_size_def)
  show ?thesis
  proof (rule that[OF run fg f(2)])
    show "g \<in> free_frames k s" using g(2) f(3) by blast
    show "free_frames k ?s = free_frames k s - {f, g}" using same(1) pres(3) g(3) f(3) by auto
    show "pool_ok k ?s" "singles k ?s" "layout k ?s"
      using same(3-5) pres(5,6) g(5,6) layout_cong(1)[OF pres(7) lay(1)] by simp_all
    show "f \<in> head_frames k ?s" "g \<in> head_frames k ?s" using same(2) pres(4) g(4) f(4) by simp_all
    show "page_tables ?s = page_tables s @ [\<lparr>page_directory = 4096 * f, vmPools = []\<rparr>]" using c8(4) by (simp add: emit_def)
    show "initial_tables (mem ?s) (4096 * f) (4096 * g)" using b(8) by (simp add: emit_def)
    show "cr0 ?s = cr0 s" "process_mem_pool ?s = k" "vm_pools ?s = vm_pools s" using cr0 c8 k by (simp_all add: emit_def)
  qed
qed

section \<open>Start-up of P4\<close>

text \<open>The kernel.C of P4 between the frame pools and the first virtual memory pool.\<close>

definition boot_paging :: "'a paging_state_scheme \<Rightarrow> (nat \<times> 'a paging_state_scheme) result" where
  "boot_paging s =
     andthen (boot_frame_pools s) (\<lambda>(kp, pp, s1).
     andthen (construct_PageTable (init_paging kp pp 0x400000 s1)) (\<lambda>(t, s2).
     Inr (t, enable_paging (load_page_table t s2))))"

lemma boot_layout:
  assumes "length (pools t) = 2" "base_frame_no (pools t ! 0) = 512" "base_frame_no (pools t ! 1) = 1024"
    "bitmap (pools t ! 1) = 0x201000" "pool_size t 0 = 512" "pool_size t 1 = 7168"
  shows "layout 1 t"
proof -
  obtain p q where pq: "pools t = [p, q]" using assms(1) by (metis (no_types) Suc_1 length_0_conv length_Suc_conv One_nat_def numeral_2_eq_2)
  have f: "base_frame_no p = 512" "base_frame_no q = 1024" "bitmap q = 0x201000" "unat (nframes p) = 512" "unat (nframes q) = 7168"
    using assms pq by (simp_all add: pool_size_def)
  then have n: "nframes p = 512" "nframes q = 7168" by (simp_all add: word_unat_eq_iff)
  have find: "find_pool (pools t) (1024 + of_nat i) = Some 1" if "i < 7168" for i
  proof -
    have u: "unat (1024 + of_nat i :: u32) = 1024 + i" using unat_add_of_nat[of 1024 i] that by simp
    then show ?thesis using that f n by (simp add: pq word_le_nat_alt word_less_nat_alt)
  qed
  have "page_of a \<notin> pool_pages 1 t" if ab: "a \<in> pool_bytes 1 t" for a
  proof
    assume "page_of a \<in> pool_pages 1 t"
    then obtain i where i: "page_of a = 4096 * (1024 + of_nat i)" "i < 7168" using assms(3,6) by (auto simp: pool_pages_def)
    have u: "unat (1024 + of_nat i :: u32) = 1024 + i" using unat_add_of_nat[of 1024 i] i(2) by simp
    have "unat (page_of a) = 4096 * (1024 + i)" unfolding i(1) using unat_frame_page[of "1024 + of_nat i"] u i(2) by simp
    moreover have "unat (page_of a) \<le> unat a"
    proof -
      have "page_of a = push_bit 12 (drop_bit 12 a)"
        unfolding page_of_def mask_numerals by (rule bit_word_eqI) (auto simp: bit_simps)
      then have "page_of a = 4096 * (drop_bit 12 a)" by (simp add: push_bit_eq_mult mult.commute)
      moreover have "unat (drop_bit 12 a) = unat a div 4096" by (simp add: unat_drop_bit)
      moreover have "unat (drop_bit 12 a) < 2 ^ 20" using unat_drop_bit[of 12 a] unat_u32_less[of a] by simp
      ultimately show ?thesis using unat_frame_page[of "drop_bit 12 a"] by simp
    qed
    moreover obtain c where c: "a = 0x201000 + of_nat c" "c * 4 < 7168"
      using ab assms(4,6) by (auto simp: pool_bytes_def bitmap_addrs_def)
    then have "unat a = 2101248 + c" using unat_add_of_nat[of "0x201000" c] by simp
    ultimately show False using c(2) by simp
  qed
  then show ?thesis using assms(1,3,6) find by (simp add: layout_def)
qed

lemma boot_paging_result:
  fixes s :: "'a paging_state_scheme"
  assumes s: "pools s = []" "\<not> bit (cr0 s) 31" "page_tables s = []"
  obtains t where "boot_paging s = Inr (0, t)" "paging_ok t" "current_page_table t = Some 0" "process_mem_pool t = 1"
    "page_tables t = [\<lparr>page_directory = cr3 t, vmPools = []\<rparr>]" "vm_pools t = vm_pools s" "card (free_frames 1 t) = 6910"
    "\<And>i j. i < 1023 \<Longrightarrow> j < 1024 \<Longrightarrow> mapping (mem t) (cr3 t) i j = (if i = 0 then Some (4096 * j) else None)"
proof -
  obtain s1 where b: "boot_frame_pools s = Inr (0, 1, s1)" "pool_ok 1 s1" "length (pools s1) = 2"
    "base_frame_no (pools s1 ! 0) = 512" "base_frame_no (pools s1 ! 1) = 1024" "bitmap (pools s1 ! 1) = 0x201000"
    "pool_size s1 0 = 512" "pool_size s1 1 = 7168" "\<forall>j < 7168. pool_status s1 1 j \<noteq> Used" "pool_shape s s1"
    "free_idx s1 1 = {0 ..< 2816} \<union> {3072 ..< 7168}"
    by (rule boot_frame_pools_result[OF s(1)], rule that)
  define u where "u = init_paging 0 1 0x400000 s1"
  have more: "paging_state.more s1 = paging_state.more s \<and> cr0 s1 = cr0 s \<and> page_tables s1 = page_tables s \<and> vm_pools s1 = vm_pools s"
    using b(10) unfolding pool_shape_def by (cases s, cases s1) simp
  have same: "pools u = pools s1" "mem u = mem s1" "cr0 u = cr0 s" "page_tables u = []" "vm_pools u = vm_pools s"
    "process_mem_pool u = 1"
    using more s(3) by (simp_all add: u_def init_paging_def emit_def)
  have st: "pool_status u 1 j = pool_status s1 1 j" "pool_size u i = pool_size s1 i" for i j
    by (simp_all add: pool_status_def pool_size_def same)
  have fi: "free_idx u 1 = free_idx s1 1" by (simp add: free_idx_def st del: One_nat_def)
  have ok: "pool_ok 1 u" using b(2) by (simp add: pool_ok_def pool_inv_def fits_def follows_head_def st fi same del: One_nat_def)
  have one: "singles 1 u" using b(8,9) by (simp add: singles_def st del: One_nat_def)
  have lay: "layout 1 u" by (rule boot_layout) (use b same in \<open>simp_all add: st del: One_nat_def\<close>)
  have inj: "inj_on (\<lambda>i. base_frame_no (pools u ! 1) + of_nat i) ({0 ..< 2816} \<union> {3072 ..< 7168 :: nat})"
  proof (rule inj_onI)
    fix i j :: nat
    assume ij: "i \<in> {0 ..< 2816} \<union> {3072 ..< 7168}" "j \<in> {0 ..< 2816} \<union> {3072 ..< 7168}"
      and eq: "base_frame_no (pools u ! 1) + of_nat i = base_frame_no (pools u ! 1) + of_nat j"
    have "i < 2 ^ 32" "j < 2 ^ 32" using ij by auto
    then show "i = j" using eq add_of_nat_inj by blast
  qed
  have "card (free_frames 1 u) = card ({0 ..< 2816} \<union> {3072 ..< 7168 :: nat})"
    unfolding free_frames_def fi b(11) by (rule card_image[OF inj])
  also have "\<dots> = 6912" by (subst card_Un_disjoint) auto
  finally have card: "card (free_frames 1 u) = 6912" .
  have off: "\<not> bit (cr0 u) 31" using s(2) same(3) by simp
  have two: "2 \<le> card (free_frames 1 u)" using card by simp
  obtain f g s2 where c: "construct_PageTable u = Inr (length (page_tables u), s2)"
    "f \<noteq> g" "f \<in> free_frames 1 u" "g \<in> free_frames 1 u" "free_frames 1 s2 = free_frames 1 u - {f, g}"
    "pool_ok 1 s2" "singles 1 s2" "layout 1 s2" "f \<in> head_frames 1 s2" "g \<in> head_frames 1 s2"
    "initial_tables (mem s2) (4096 * f) (4096 * g)"
    "page_tables s2 = page_tables u @ [\<lparr>page_directory = 4096 * f, vmPools = []\<rparr>]"
    "cr0 s2 = cr0 u" "process_mem_pool s2 = 1" "vm_pools s2 = vm_pools u"
    by (rule construct_PageTable_result[OF off same(6) ok one lay two], rule that)
  let ?t = "enable_paging (load_page_table 0 s2)"
  have t: "cr3 ?t = 4096 * f" "mem ?t = mem s2" "pools ?t = pools s2" "process_mem_pool ?t = 1" "page_tables ?t = page_tables s2"
    "vm_pools ?t = vm_pools s2" "current_page_table ?t = Some 0" "bit (cr0 ?t) 31"
    using c(12,14) same(4) by (simp_all add: enable_paging_def load_page_table_def emit_def bit_simps)
  note al = frame_page_aligned[of f] frame_page_aligned[of g]
  have num: "unat f < 2 ^ 20" "unat g < 2 ^ 20" using frame_number(1)[OF c(8)] c(9,10) by auto
  have ne: "4096 * f \<noteq> 4096 * g" using frame_page_inj[OF num] c(2) by simp
  have eqs: "pool_ok 1 ?t = pool_ok 1 s2" "singles 1 ?t = singles 1 s2" "layout 1 ?t = layout 1 s2"
    "head_frames 1 ?t = head_frames 1 s2" "free_frames 1 ?t = free_frames 1 s2"
    by (simp_all add: t(2,3) free_frames_def head_frames_def free_idx_def pool_ok_def pool_inv_def fits_def
        follows_head_def singles_def layout_def pool_bytes_def pool_pages_def pool_status_def pool_size_def)
  have "recursive ?t" using c(11) t al(1) by (simp add: recursive_def initial_tables_def)
  moreover have "ownership (owned (mem s2) (4096 * f)) (head_frames 1 s2)"
    unfolding ownership_def initial_owned[OF c(11) al] using c(9,10) ne by (auto split: owner.splits if_splits)
  ultimately have "paging_ok ?t"
    unfolding paging_ok_def t(1,2,4) eqs using c(6-8) initial_all_writable[OF c(11) al] by simp
  moreover have "card (free_frames 1 ?t) = 6910" using c(2-5) card eqs(5) by simp
  moreover have "boot_paging s = Inr (0, ?t)" using b(1) c(1) same(4) by (simp add: boot_paging_def u_def)
  moreover have "page_tables ?t = [\<lparr>page_directory = cr3 ?t, vmPools = []\<rparr>]" using t(1,5) c(12) same(4) by simp
  ultimately show ?thesis
    using that[of ?t] t initial_mapping[OF c(11) al] c(15) same(5) by simp
qed

end
