(* ===== verification/VmPoolCorrect.thy ===== *)
theory VmPoolCorrect
  imports Paging
begin

text \<open>
  The virtual memory pools of P4: the region list as a HOL list, the invariant that the
  regions are ordered, disjoint and inside the pool, and what \<open>allocate\<close> and \<open>release\<close>
  do to it.
\<close>

section \<open>The region list\<close>

definition regions :: "vm_pool \<Rightarrow> region_info list" where
  "regions v = map (allocated_list v) [0..<num_allocated v]"

lemma regions_simps [simp]:
  "length (regions v) = num_allocated v"
  "i < num_allocated v \<Longrightarrow> regions v ! i = allocated_list v i"
  by (simp_all add: regions_def)

lemma shift_up_apply:
  "1 \<le> index \<Longrightarrow> shift_up i index l j = (if index < j \<and> j \<le> i + 1 then l (j - 1) else l j)"
proof (induction i index l rule: shift_up.induct)
  case (1 i index l)
  show ?case
  proof (cases "i \<ge> index \<and> i \<noteq> 0")
    case True
    then have eq: "shift_up i index l j = shift_up (i - 1) index (l(i + 1 := l i)) j"
      by (simp add: shift_up.simps[of i index l])
    show ?thesis
      unfolding eq "1.IH"[OF True "1.prems"] using True "1.prems" by auto
  next
    case False
    then show ?thesis using "1.prems" by (auto simp: shift_up.simps[of i index l])
  qed
qed

lemma shift_down_apply: "shift_down i n l j = (if i \<le> j \<and> j < n then l (j + 1) else l j)"
proof (induction i n l rule: shift_down.induct)
  case (1 i n l)
  show ?case
  proof (cases "i < n")
    case True
    then have eq: "shift_down i n l j = shift_down (Suc i) n (l(i := l (i + 1))) j"
      by (simp add: shift_down.simps[of i n l])
    show ?thesis unfolding eq "1.IH"[OF True] using True by auto
  qed (auto simp: shift_down.simps[of i n l])
qed

lemma insert_item_regions:
  assumes "1 \<le> i" "i \<le> num_allocated v"
  shows "regions (insert_item x i v) = take i (regions v) @ x # drop i (regions v)"
proof (rule nth_equalityI)
  show "length (regions (insert_item x i v)) = length (take i (regions v) @ x # drop i (regions v))"
    using assms by (simp add: insert_item_def)
next
  fix j assume "j < length (regions (insert_item x i v))"
  then have j: "j < num_allocated v + 1" by (simp add: insert_item_def)
  have l: "regions (insert_item x i v) ! j =
    (if j = i then x else if i < j then allocated_list v (j - 1) else allocated_list v j)"
    using j assms by (auto simp: regions_def insert_item_def shift_up_apply nth_append less_Suc_eq)
  show "regions (insert_item x i v) ! j = (take i (regions v) @ x # drop i (regions v)) ! j"
  proof (cases "i < j")
    case True
    then have "j - i = Suc (j - Suc i)" by simp
    then show ?thesis unfolding l using True j assms by (simp add: nth_append)
  next
    case False
    then show ?thesis unfolding l using j assms by (auto simp: nth_append)
  qed
qed

lemma remove_item_regions:
  assumes "i < num_allocated v"
  shows "regions (remove_item i v) = take i (regions v) @ drop (Suc i) (regions v)"
proof (rule nth_equalityI)
  show "length (regions (remove_item i v)) = length (take i (regions v) @ drop (Suc i) (regions v))"
    using assms by (simp add: remove_item_def)
next
  fix j assume "j < length (regions (remove_item i v))"
  then have j: "j < num_allocated v - 1" by (simp add: remove_item_def)
  then show "regions (remove_item i v) ! j = (take i (regions v) @ drop (Suc i) (regions v)) ! j"
    using assms by (auto simp: regions_def remove_item_def shift_down_apply nth_append)
qed

section \<open>Disjoint regions\<close>

definition region_bytes :: "region_info \<Rightarrow> nat set" where
  "region_bytes r = {unat (start_frame r) ..< unat (start_frame r) + unat (region_size r)}"

text \<open>Regions of a list in ascending order, the first one at \<open>lo\<close> or later, none past \<open>hi\<close>.\<close>

fun ordered :: "nat \<Rightarrow> nat \<Rightarrow> region_info list \<Rightarrow> bool" where
  "ordered lo hi [] \<longleftrightarrow> lo \<le> hi"
| "ordered lo hi (r # rs) \<longleftrightarrow> lo \<le> unat (start_frame r)
     \<and> ordered (unat (start_frame r) + unat (region_size r)) hi rs"

lemma ordered_le: "ordered lo hi rs \<Longrightarrow> lo \<le> hi"
proof (induction rs arbitrary: lo)
  case (Cons r rs)
  then show ?case by fastforce
qed simp

lemma ordered_append:
  "ordered lo hi (xs @ ys) \<longleftrightarrow> (\<exists>mid. ordered lo mid xs \<and> ordered mid hi ys \<and> (xs = [] \<longrightarrow> mid = lo)
     \<and> (xs \<noteq> [] \<longrightarrow> mid = unat (start_frame (last xs)) + unat (region_size (last xs))))"
proof (induction xs arbitrary: lo)
  case Nil
  then show ?case by auto
next
  case (Cons x xs)
  show ?case by (cases "xs = []") (auto simp: Cons)
qed

lemma ordered_nth:
  assumes "ordered lo hi rs" "i < length rs"
  shows "lo \<le> unat (start_frame (rs ! i))" "unat (start_frame (rs ! i)) + unat (region_size (rs ! i)) \<le> hi"
    "Suc i < length rs \<Longrightarrow> unat (start_frame (rs ! i)) + unat (region_size (rs ! i)) \<le> unat (start_frame (rs ! Suc i))"
  using assms
proof (induction rs arbitrary: lo i)
  case (Cons r rs)
  {
    case 1
    then show ?case using Cons.IH(1)[of "unat (start_frame r) + unat (region_size r)" "i - 1"] by (cases i) fastforce+
  next
    case 2
    then show ?case using Cons.IH(2)[of "unat (start_frame r) + unat (region_size r)" "i - 1"] ordered_le by (cases i) auto
  next
    case 3
    then show ?case
      using Cons.IH(3)[of "i - 1" "unat (start_frame r) + unat (region_size r)"]
        Cons.IH(1)[of "unat (start_frame r) + unat (region_size r)" 0]
      by (cases i) auto
  }
qed simp_all

lemma ordered_bytes_above:
  assumes "ordered lo hi rs" "r \<in> set rs" "x \<in> region_bytes r"
  shows "lo \<le> x \<and> x < hi"
proof -
  obtain i where "i < length rs" "r = rs ! i" using assms(2) by (auto simp: in_set_conv_nth)
  then show ?thesis using ordered_nth(1,2)[OF assms(1), of i] assms(3) by (simp add: region_bytes_def)
qed

lemma ordered_insert_disjoint:
  assumes "ordered lo hi (xs @ x # ys)" "r \<in> set (xs @ ys)"
  shows "region_bytes x \<inter> region_bytes r = {}"
proof -
  obtain mid where mid: "ordered lo mid xs" "ordered mid hi (x # ys)" using assms(1) by (auto simp: ordered_append)
  show ?thesis
  proof (cases "r \<in> set xs")
    case True
    then show ?thesis
      using ordered_bytes_above[OF mid(1) True] mid(2) by (fastforce simp: region_bytes_def)
  next
    case False
    then have r: "r \<in> set ys" using assms(2) by simp
    have "ordered (unat (start_frame x) + unat (region_size x)) hi ys" using mid(2) by simp
    from ordered_bytes_above[OF this r] show ?thesis by (fastforce simp: region_bytes_def)
  qed
qed

definition vm_inv :: "vm_pool \<Rightarrow> bool" where
  "vm_inv v \<longleftrightarrow> 1 \<le> num_allocated v \<and> unat (base_address v) + unat (vm_size v) < 2 ^ 32
     \<and> ordered (unat (base_address v)) (unat (base_address v) + unat (vm_size v)) (regions v)"

section \<open>Allocation\<close>

lemma find_gap_Some:
  "find_gap l n sz i = Some k \<Longrightarrow> i \<le> k \<and> k < n \<and> start_frame (l (k + 1)) - start_frame (l k) - region_size (l k) \<ge> sz"
proof (induction l n sz i rule: find_gap.induct)
  case (1 l n sz i)
  then show ?case by (auto simp: find_gap.simps[of l n sz i] split: if_splits)
qed

lemma find_gap_None:
  "find_gap l n sz i = None \<longleftrightarrow> (\<forall>k. i \<le> k \<and> k < n \<longrightarrow> start_frame (l (k + 1)) - start_frame (l k) - region_size (l k) < sz)"
proof (induction l n sz i rule: find_gap.induct)
  case (1 l n sz i)
  show ?case
  proof (cases "i < n \<and> start_frame (l (i + 1)) - start_frame (l i) - region_size (l i) < sz")
    case True
    then have "find_gap l n sz i = find_gap l n sz (Suc i)"
      by (subst find_gap.simps) (auto dest: leD)
    moreover have "(\<forall>k. Suc i \<le> k \<and> k < n \<longrightarrow> start_frame (l (k + 1)) - start_frame (l k) - region_size (l k) < sz) \<longleftrightarrow>
      (\<forall>k. i \<le> k \<and> k < n \<longrightarrow> start_frame (l (k + 1)) - start_frame (l k) - region_size (l k) < sz)"
      using True by (metis Suc_leD le_antisym not_less_eq_eq)
    ultimately show ?thesis using 1 True by (simp add: not_le)
  next
    case False
    then show ?thesis by (auto simp: find_gap.simps[of l n sz i] not_less)
  qed
qed

lemma gap_size:
  assumes "unat (a :: u32) + unat b \<le> unat c"
  shows "unat (c - a - b) = unat c - unat a - unat b"
proof -
  have "a \<le> c" "b \<le> c - a" using assms by (simp_all add: word_le_nat_alt unat_sub)
  then show ?thesis by (simp add: unat_sub)
qed

text \<open>The region that \<open>allocate\<close> inserts after entry \<open>i\<close> lies between its neighbours.\<close>

lemma insert_region_ordered:
  assumes inv: "vm_inv v" and i: "i < num_allocated v"
    and gap: "unat (start_frame (regions v ! i)) + unat (region_size (regions v ! i)) + unat sz
       \<le> (if Suc i < num_allocated v then unat (start_frame (regions v ! Suc i))
          else unat (base_address v) + unat (vm_size v))"
    and a: "a = region_end (regions v ! i)" and x: "x = \<lparr>start_frame = a, region_size = sz\<rparr>"
  shows "vm_inv (insert_item x (i + 1) v)"
    "unat a = unat (start_frame (regions v ! i)) + unat (region_size (regions v ! i))"
    "ordered (unat (base_address v)) (unat (base_address v) + unat (vm_size v))
      (take (i + 1) (regions v) @ x # drop (i + 1) (regions v))"
proof -
  let ?rs = "regions v" and ?hi = "unat (base_address v) + unat (vm_size v)"
  have ord: "ordered (unat (base_address v)) ?hi ?rs" and hi: "?hi < 2 ^ 32" using inv by (simp_all add: vm_inv_def)
  have len: "i < length ?rs" using i by simp
  have e: "unat (start_frame (?rs ! i)) + unat (region_size (?rs ! i)) \<le> ?hi" by (rule ordered_nth(2)[OF ord len])
  show ua: "unat a = unat (start_frame (?rs ! i)) + unat (region_size (?rs ! i))"
    using e hi unat_add_of_nat[of "start_frame (?rs ! i)" "unat (region_size (?rs ! i))"] by (simp add: a region_end_def)
  have ord': "ordered (unat (base_address v)) ?hi (take (i + 1) ?rs @ drop (i + 1) ?rs)" using ord by simp
  have last: "last (take (i + 1) ?rs) = ?rs ! i" "take (i + 1) ?rs \<noteq> []"
    using len by (simp_all add: take_Suc_conv_app_nth)
  let ?mid = "unat (start_frame (?rs ! i)) + unat (region_size (?rs ! i))"
  have parts: "ordered (unat (base_address v)) ?mid (take (i + 1) ?rs)" "ordered ?mid ?hi (drop (i + 1) ?rs)"
    using ord'[unfolded ordered_append] last by auto
  have "ordered (?mid + unat sz) ?hi (drop (i + 1) ?rs)"
  proof (cases "Suc i < num_allocated v")
    case True
    then have "drop (i + 1) ?rs = ?rs ! Suc i # drop (Suc (Suc i)) ?rs" 
      using Cons_nth_drop_Suc[of "Suc i" ?rs] by simp
    then show ?thesis using parts(2) gap True by simp
  next
    case False
    then show ?thesis using gap by simp
  qed
  then have "ordered ?mid ?hi (x # drop (i + 1) ?rs)" by (simp add: x ua)
  then show o: "ordered (unat (base_address v)) ?hi (take (i + 1) ?rs @ x # drop (i + 1) ?rs)"
    using parts(1) last by (auto simp: ordered_append)
  have "regions (insert_item x (i + 1) v) = take (i + 1) ?rs @ x # drop (i + 1) ?rs"
    using i by (intro insert_item_regions) simp_all
  then show "vm_inv (insert_item x (i + 1) v)"
    using o hi by (simp add: vm_inv_def insert_item_def)
qed

lemma vm_allocate_result:
  assumes inv: "vm_inv v" and run: "vm_allocate n v = Inr (a, v')"
  obtains i where "i < num_allocated v"
    "regions v' = take (i + 1) (regions v) @ \<lparr>start_frame = a, region_size = round_to_pages n\<rparr> # drop (i + 1) (regions v)"
    "vm_inv v'" "unat a = unat (start_frame (regions v ! i)) + unat (region_size (regions v ! i))"
    "ordered (unat (base_address v)) (unat (base_address v) + unat (vm_size v)) (regions v')"
proof -
  let ?sz = "round_to_pages n" and ?l = "allocated_list v" and ?n = "num_allocated v"
  have n1: "1 \<le> ?n" and ord: "ordered (unat (base_address v)) (unat (base_address v) + unat (vm_size v)) (regions v)"
    and hi: "unat (base_address v) + unat (vm_size v) < 2 ^ 32" using inv by (simp_all add: vm_inv_def)
  have sum: "unat (base_address v + vm_size v) = unat (base_address v) + unat (vm_size v)"
    using hi unat_add_of_nat[of "base_address v" "unat (vm_size v)"] by simp
  have "\<exists>i < ?n. a = region_end (regions v ! i) \<and> v' = insert_item \<lparr>start_frame = a, region_size = ?sz\<rparr> (i + 1) v
    \<and> unat (start_frame (regions v ! i)) + unat (region_size (regions v ! i)) + unat ?sz
       \<le> (if Suc i < ?n then unat (start_frame (regions v ! Suc i)) else unat (base_address v) + unat (vm_size v))"
  proof (cases "find_gap ?l (?n - 1) ?sz 0")
    case (Some i)
    have i: "Suc i < ?n" "?sz \<le> start_frame (?l (i + 1)) - start_frame (?l i) - region_size (?l i)"
      using find_gap_Some[OF Some] by auto
    have le: "unat (start_frame (?l i)) + unat (region_size (?l i)) \<le> unat (start_frame (?l (Suc i)))"
      using ordered_nth(3)[OF ord, of i] i(1) by simp
    have "unat ?sz \<le> unat (start_frame (?l (Suc i))) - unat (start_frame (?l i)) - unat (region_size (?l i))"
      using i(2) gap_size[OF le] by (simp add: word_le_nat_alt)
    then show ?thesis
      using run Some i(1) le by (intro exI[of _ i]) (auto simp: vm_allocate_def add_region_def Let_def split: if_splits)
  next
    case None
    let ?i = "?n - 1"
    have i: "?i < ?n" "\<not> Suc ?i < ?n" "?i + 1 = ?n" using n1 by simp_all
    have fit: "?sz \<le> base_address v + vm_size v - start_frame (?l ?i) - region_size (?l ?i)"
      using run None by (auto simp: vm_allocate_def Let_def split: if_splits)
    have le: "unat (start_frame (?l ?i)) + unat (region_size (?l ?i)) \<le> unat (base_address v + vm_size v)"
      using ordered_nth(2)[OF ord, of ?i] i(1) sum by simp
    have "unat ?sz \<le> unat (base_address v) + unat (vm_size v) - unat (start_frame (?l ?i)) - unat (region_size (?l ?i))"
      using fit gap_size[OF le] sum by (simp add: word_le_nat_alt)
    then show ?thesis
      using run None i le sum fit by (intro exI[of _ ?i]) (auto simp: vm_allocate_def add_region_def Let_def split: if_splits)
  qed
  then obtain i where i: "i < ?n" "a = region_end (regions v ! i)"
    "v' = insert_item \<lparr>start_frame = a, region_size = ?sz\<rparr> (i + 1) v"
    and gap: "unat (start_frame (regions v ! i)) + unat (region_size (regions v ! i)) + unat ?sz
       \<le> (if Suc i < ?n then unat (start_frame (regions v ! Suc i)) else unat (base_address v) + unat (vm_size v))" by blast
  note r = insert_region_ordered[OF inv i(1) gap i(2) refl]
  have reg: "regions v' = take (i + 1) (regions v) @ \<lparr>start_frame = a, region_size = ?sz\<rparr> # drop (i + 1) (regions v)"
    unfolding i(3) using i(1) by (intro insert_item_regions) simp_all
  show ?thesis by (rule that[OF i(1) reg]) (use r i(3) reg in simp_all)
qed

lemma round_to_pages_unat:
  assumes "0 < n" "n \<le> 0xFFFFF000"
  shows "unat (round_to_pages n) = ((unat n - 1) div 4096 + 1) * 4096"
proof -
  have n: "unat n \<noteq> 0" "unat n \<le> 4294963200" using assms by (simp_all add: word_le_nat_alt word_less_nat_alt)
  have q: "(unat n - 1) div 4096 + 1 < 1048576" using n(2) by simp
  have nz: "n \<noteq> 0" using n(1) by (intro notI) simp
  have "unat ((n - 1) div 4096) = (unat n - 1) div 4096" using n(1) 
    by (subst unat_div, subst unat_minus_one[OF nz]) simp
  then have "unat ((n - 1) div 4096 + 1) = (unat n - 1) div 4096 + 1"
    using q by (simp add: unat_word_ariths take_bit_nat_eq_self)
  moreover have "unat (w * 4096) = unat w * 4096" if "unat w < 1048576" for w :: u32
    using that by (simp add: unat_word_ariths take_bit_nat_eq_self)
  ultimately show ?thesis using q by (simp only: round_to_pages_def)
qed

section \<open>Release\<close>

lemma release_search_same: "release_search l n a i r = r"
proof (induction l n a i r rule: release_search.induct)
  case (1 l n a i r)
  then show ?case by (simp add: release_search.simps[of l n a i r])
qed

end
