(* ===== verification/PagingProperties.thy ===== *)
theory PagingProperties
  imports BootPaging VmPoolCorrect
begin

text \<open>The properties of paging and of the virtual memory pools, with their witnesses.\<close>

section \<open>A booted machine\<close>

lemma paging_ok_cong:
  fixes s t :: "'a paging_state_scheme"
  assumes "mem t = mem s" "pools t = pools s" "cr0 t = cr0 s" "cr3 t = cr3 s" "process_mem_pool t = process_mem_pool s"
  shows "paging_ok t = paging_ok s" "free_frames k t = free_frames k s"
proof -
  have st: "pool_status t k i = pool_status s k i" "pool_size t k = pool_size s k" "free_idx t k = free_idx s k"
    "pool_bytes k t = pool_bytes k s" "pool_pages k t = pool_pages k s" "head_frames k t = head_frames k s" for k i
    by (simp_all add: pool_status_def pool_size_def free_idx_def pool_bytes_def pool_pages_def head_frames_def assms)
  show "free_frames k t = free_frames k s" by (simp add: free_frames_def st assms)
  show "paging_ok t = paging_ok s"
    by (simp add: paging_ok_def recursive_def pool_ok_def pool_inv_def fits_def follows_head_def singles_def layout_def st assms)
qed

definition power_on :: paging_state where
  "power_on = \<lparr>mem = (\<lambda>_. 0), trace = [], pools = [], cr0 = 1, cr2 = 0, cr3 = 0, page_tables = [],
     current_page_table = None, paging_enabled = 0, kernel_mem_pool = 0, process_mem_pool = 0, shared_size = 0,
     vm_pools = []\<rparr>"

text \<open>After start-up and the construction of P4's code pool (512 MB, 256 MB long), with a
page fault pending at address \<open>a\<close>.\<close>

definition faulting :: "u32 \<Rightarrow> paging_state" where
  "faulting a = (case boot_paging power_on of Inl _ \<Rightarrow> power_on | Inr (t, s) \<Rightarrow>
     (case construct_VMPool 0 0x20000000 0x10000000 1 t s of Inl _ \<Rightarrow> power_on | Inr (k, s') \<Rightarrow> s'\<lparr>cr2 := a\<rparr>))"

text \<open>The code pool then has one region, the page of its region list.\<close>

definition code_pool :: vm_pool where
  "code_pool = \<lparr>base_address = 0x20000000, vm_size = round_to_pages 0x10000000, frame_pool = 1, vm_page_table = 0,
    num_allocated = 1, allocated_list = (\<lambda>_. \<lparr>start_frame = 0, region_size = 0\<rparr>)(0 := \<lparr>start_frame = 0x20000000, region_size = 4096\<rparr>)\<rparr>"

lemma faulting_facts:
  assumes "0x20000000 \<le> a" "a < 0x20001000"
  shows "paging_ok (faulting a)" "current_page_table (faulting a) = Some 0" "cr2 (faulting a) = a"
    "check_address (page_tables (faulting a) ! 0) (vm_pools (faulting a)) a"
    "card (free_frames (process_mem_pool (faulting a)) (faulting a)) = 6910"
    "\<And>i j. i < 1023 \<Longrightarrow> j < 1024 \<Longrightarrow> mapping (mem (faulting a)) (cr3 (faulting a)) i j = (if i = 0 then Some (4096 * j) else None)"
    "vm_pools (faulting a) = [code_pool]" "vmPools (page_tables (faulting a) ! 0) = [0]"
proof -
  have p: "pools power_on = []" "\<not> bit (cr0 power_on) 31" "page_tables power_on = []" "vm_pools power_on = []"
    by (simp_all add: power_on_def bit_1_iff)
  obtain t where t: "boot_paging power_on = Inr (0, t)" "paging_ok t" "current_page_table t = Some 0" "process_mem_pool t = 1"
    "page_tables t = [\<lparr>page_directory = cr3 t, vmPools = []\<rparr>]" "vm_pools t = vm_pools power_on" "card (free_frames 1 t) = 6910"
    "\<And>i j. i < 1023 \<Longrightarrow> j < 1024 \<Longrightarrow> mapping (mem t) (cr3 t) i j = (if i = 0 then Some (4096 * j) else None)"
    by (rule boot_paging_result[OF p(1-3)], rule that)
  have f: "faulting a = t\<lparr>page_tables := [\<lparr>page_directory = cr3 t, vmPools = [0]\<rparr>], vm_pools := [code_pool],
    trace := trace t @ [Puts (''registered VM pool'' @ [CHR 0x0A]), Puts (''Constructed VMPool object.'' @ [CHR 0x0A])],
    cr2 := a\<rparr>"
    using t(1,5,6) p(4) by (simp add: faulting_def construct_VMPool_def register_pool_def upd_vm_def code_pool_def emit_def Let_def)
  have c: "paging_ok (faulting a) = paging_ok t" "free_frames k (faulting a) = free_frames k t" for k
    by (rule paging_ok_cong; simp add: f)+
  show "paging_ok (faulting a)" "current_page_table (faulting a) = Some 0" "cr2 (faulting a) = a"
    using c(1) t(2,3) by (simp_all add: f)
  show "card (free_frames (process_mem_pool (faulting a)) (faulting a)) = 6910"
    unfolding c(2) using t(4,7) by (simp add: f)
  show "mapping (mem (faulting a)) (cr3 (faulting a)) i j = (if i = 0 then Some (4096 * j) else None)"
    if "i < 1023" "j < 1024" for i j
    using t(8)[OF that] by (simp add: f)
  show "check_address (page_tables (faulting a) ! 0) (vm_pools (faulting a)) a"
    using assms by (simp add: f check_address_def is_legitimate_def code_pool_def)
  show "vm_pools (faulting a) = [code_pool]" "vmPools (page_tables (faulting a) ! 0) = [0]" by (simp_all add: f)
qed

section \<open>Properties\<close>

text \<open>C15: the page table that P4 starts with translates every address below 4 MB to itself,
for reads and writes, and faults on every address from 4 MB up to the last 4 MB.\<close>

theorem boot_identity_map:
  fixes s :: "'a paging_state_scheme"
  assumes "pools s = []" "\<not> bit (cr0 s) 31" "page_tables s = []"
  shows "\<exists>t. boot_paging s = Inr (0, t) \<and> paging_ok t
    \<and> (\<forall>a wr. dir_index a = 0 \<longrightarrow> (\<exists>m. translate a wr t = Inr (a, m)))
    \<and> (\<forall>a wr. 0 < dir_index a \<and> dir_index a < 1023 \<longrightarrow>
        translate a wr t = Inl (page_fault_at ERROR_NOT_PRESENT a False wr))"
proof -
  obtain t where t: "boot_paging s = Inr (0, t)" "paging_ok t" "current_page_table t = Some 0" "process_mem_pool t = 1"
    "page_tables t = [\<lparr>page_directory = cr3 t, vmPools = []\<rparr>]" "vm_pools t = vm_pools s" "card (free_frames 1 t) = 6910"
    "\<And>i j. i < 1023 \<Longrightarrow> j < 1024 \<Longrightarrow> mapping (mem t) (cr3 t) i j = (if i = 0 then Some (4096 * j) else None)"
    by (rule boot_paging_result[OF assms], rule that)
  have r: "bit (cr0 t) 31" "page_of (cr3 t) = cr3 t" "all_writable (mem t) (cr3 t)"
    using t(2) by (simp_all add: paging_ok_def recursive_def page_aligned_def)
  have lk: "lookup (mem t) (page_of (cr3 t)) a = (if dir_index a = 0 then Some (4096 * table_index a, True) else None)"
    if "dir_index a < 1023" for a
    unfolding r(2) lookup_mapping[OF r(3) that] using t(8)[OF that table_index_less] by simp
  have "\<exists>m. translate a wr t = Inr (a, m)" if a: "dir_index a = 0" for a wr
  proof -
    have l: "lookup (mem t) (page_of (cr3 t)) a = Some (4096 * table_index a, True)" using lk a by (simp add: word_less_nat_alt)
    have "4096 * table_index a OR (a AND 0xFFF) = a"
    proof -
      have z: "n < 22" if "bit a n" for n
      proof (rule ccontr)
        assume "\<not> n < 22"
        then have "bit (dir_index a) (n - 22)" using that by (simp add: dir_index_def bit_drop_bit_eq)
        then show False using a by simp
      qed
      have "4096 * table_index a = push_bit 12 (table_index a)" by (simp add: push_bit_eq_mult mult.commute)
      moreover have "push_bit 12 (table_index a) OR (a AND 0xFFF) = a"
        unfolding table_index_def mask_numerals
      proof (rule bit_word_eqI)
        fix n assume n: "n < LENGTH(32)"
        show "bit (push_bit 12 (drop_bit 12 a AND mask 10) OR a AND mask 12) n = bit a n"
          using z[of n] n by (auto simp: bit_simps)
      qed
      ultimately show ?thesis by simp
    qed
    moreover obtain m where "translate_linear True (bit (cr0 t) 16) (cr3 t) a False wr (mem t)
        = Inr (4096 * table_index a OR (a AND 0xFFF), m)"
      by (rule translate_mapped[OF l, of "bit (cr0 t) 16" wr], simp, rule that)
    ultimately show ?thesis using r(1) by (simp add: translate_def)
  qed
  moreover have "translate a wr t = Inl (page_fault_at ERROR_NOT_PRESENT a False wr)"
    if a: "0 < dir_index a" "dir_index a < 1023" for a wr
    using translate_unmapped[of "mem t" "cr3 t" a "bit (cr0 t) 16" False wr] lk[OF a(2)] a(1) r(1)
    unfolding translate_def by simp
  ultimately show ?thesis using t(1,2) by blast
qed

theorem boot_identity_map_witness:
  "\<exists>t. boot_paging power_on = Inr (0, t) \<and> paging_ok t
    \<and> (\<forall>a wr. dir_index a = 0 \<longrightarrow> (\<exists>m. translate a wr t = Inr (a, m)))
    \<and> (\<forall>a wr. 0 < dir_index a \<and> dir_index a < 1023 \<longrightarrow>
        translate a wr t = Inl (page_fault_at ERROR_NOT_PRESENT a False wr))"
  by (rule boot_identity_map) (simp_all add: power_on_def bit_1_iff)

text \<open>C8: on a page fault at a legitimate, unmapped address, with two free frames left, the
P4 handler returns, maps the faulting page writable to a frame that was free, leaves the
mapping of every other page below the recursive entry as it was, and keeps the paging
invariant.\<close>

theorem page_fault_maps_page:
  fixes s :: "'a paging_state_scheme"
  assumes "paging_ok s" "current_page_table s = Some t"
    and "check_address (page_tables s ! t) (vm_pools s) (cr2 s)"
    and "0 < dir_index (cr2 s)" "dir_index (cr2 s) < 1023"
    and "lookup (mem s) (cr3 s) (cr2 s) = None" "2 \<le> card (free_frames (process_mem_pool s) s)"
  shows "\<exists>s' f. handle_fault s = Inr s' \<and> paging_ok s' \<and> f \<in> free_frames (process_mem_pool s) s
    \<and> lookup (mem s') (cr3 s') (cr2 s) = Some (4096 * f, True)
    \<and> (\<forall>a. dir_index a < 1023 \<and> page_of a \<noteq> page_of (cr2 s) \<longrightarrow>
        lookup (mem s') (cr3 s') a = lookup (mem s) (cr3 s) a)"
proof -
  have aw: "all_writable (mem s) (cr3 s)" using assms(1) by (simp add: paging_ok_def)
  have none: "mapping (mem s) (cr3 s) (dir_index (cr2 s)) (table_index (cr2 s)) = None"
    using assms(6) lookup_mapping[OF aw assms(5)] by simp
  obtain f s' where h: "handle_fault s = Inr s'" "f \<in> free_frames (process_mem_pool s) s" "paging_ok s'"
    "s' = s\<lparr>mem := mem s', pools := pools s'\<rparr>"
    "mapping (mem s') (cr3 s) (dir_index (cr2 s)) (table_index (cr2 s)) = Some (4096 * f)"
    "\<And>i' l. i' < 1023 \<Longrightarrow> l < 1024 \<Longrightarrow> (i', l) \<noteq> (dir_index (cr2 s), table_index (cr2 s)) \<Longrightarrow>
       mapping (mem s') (cr3 s) i' l = mapping (mem s) (cr3 s) i' l"
    by (rule handle_fault_result[OF assms(1-5) none assms(7)], rule that)
  have c: "cr3 s' = cr3 s" by (rule mem_pools_fields[OF h(4)])
  have aw': "all_writable (mem s') (cr3 s)" using h(3) c by (simp add: paging_ok_def)
  have "lookup (mem s') (cr3 s) a = lookup (mem s) (cr3 s) a"
    if "dir_index a < 1023" "page_of a \<noteq> page_of (cr2 s)" for a
    using h(6)[OF that(1) table_index_less[of a]] that(2) lookup_mapping[OF aw that(1)] lookup_mapping[OF aw' that(1)]
    unfolding page_indices by auto
  then show ?thesis using h(1-3,5) c lookup_mapping[OF aw' assms(5)] by auto
qed

lemma faulting_lookup:
  assumes "0x20000000 \<le> a" "a < 0x20001000"
  shows "dir_index a = 128" "lookup (mem (faulting a)) (cr3 (faulting a)) a = None"
proof -
  have "unat a div 4194304 = 128"
  proof -
    have "536870912 \<le> unat a" "unat a < 536875008" using assms by (simp_all add: word_le_nat_alt word_less_nat_alt)
    then show ?thesis by simp
  qed
  then show d: "dir_index a = 128" by (simp add: dir_index_def word_unat_eq_iff unat_drop_bit)
  have aw: "all_writable (mem (faulting a)) (cr3 (faulting a))"
    using faulting_facts(1)[OF assms] by (simp add: paging_ok_def)
  have l: "dir_index a < 1023" using d by (simp add: word_less_nat_alt)
  show "lookup (mem (faulting a)) (cr3 (faulting a)) a = None"
    unfolding lookup_mapping[OF aw l] faulting_facts(6)[OF assms l table_index_less] by (simp add: d)
qed

theorem page_fault_maps_page_witness:
  "\<exists>s' f. handle_fault (faulting 0x20000010) = Inr s' \<and> paging_ok s'
    \<and> f \<in> free_frames (process_mem_pool (faulting 0x20000010)) (faulting 0x20000010)
    \<and> lookup (mem s') (cr3 s') 0x20000010 = Some (4096 * f, True)
    \<and> (\<forall>a. dir_index a < 1023 \<and> page_of a \<noteq> page_of 0x20000010 \<longrightarrow>
        lookup (mem s') (cr3 s') a = lookup (mem (faulting 0x20000010)) (cr3 (faulting 0x20000010)) a)"
proof -
  have a: "(0x20000000 :: u32) \<le> 0x20000010" "(0x20000010 :: u32) < 0x20001000" by simp_all
  note f = faulting_facts[OF a] and l = faulting_lookup[OF a]
  have "0 < dir_index (cr2 (faulting 0x20000010))" "dir_index (cr2 (faulting 0x20000010)) < 1023"
    by (simp_all only: f(3) l(1)) simp_all
  from page_fault_maps_page[OF f(1,2) _ this] show ?thesis
    unfolding f(3) using f(4,5) l(2) by simp
qed

text \<open>Two addresses above 4 MB that the page tables map to the same frame lie on the
same page, and no page is mapped to the directory or to a page table.\<close>

lemma one_page_per_frame:
  fixes s :: "'a paging_state_scheme"
  assumes "paging_ok s" and "0 < dir_index a" "dir_index a < 1023" "0 < dir_index b" "dir_index b < 1023"
    and "lookup (mem s) (cr3 s) a = Some (f, v)" "lookup (mem s) (cr3 s) b = Some (f, w)"
  shows "page_of a = page_of b \<and> f \<noteq> cr3 s
    \<and> (\<forall>i < 1023. entry (mem s) (entry_at (cr3 s) i) \<noteq> Some f)"
proof -
  have aw: "all_writable (mem s) (cr3 s)" using assms(1) by (simp add: paging_ok_def)
  have a: "owned (mem s) (cr3 s) (Page (dir_index a) (table_index a)) = Some f"
    using assms(6) lookup_mapping[OF aw assms(3)] assms(2,3) table_index_less by auto
  have b: "owned (mem s) (cr3 s) (Page (dir_index b) (table_index b)) = Some f"
    using assms(7) lookup_mapping[OF aw assms(5)] assms(4,5) table_index_less by auto
  have "page_of a = page_of b" using one_owner[OF assms(1) a b] by (simp add: page_indices)
  moreover have "f \<noteq> cr3 s" using one_owner[OF assms(1) a, of Directory] by auto
  moreover have "entry (mem s) (entry_at (cr3 s) i) \<noteq> Some f" if "i < 1023" for i
    using one_owner[OF assms(1) a, of "Table i"] that by auto
  ultimately show ?thesis by blast
qed

text \<open>C28: \<open>free_page\<close> on a mapped page above 4 MB returns its frame to the process pool,
unmaps the page, leaves every other page mapped as it was and keeps the paging invariant.\<close>

theorem free_page_unmaps:
  fixes s :: "'a paging_state_scheme"
  assumes "paging_ok s" "0 < drop_bit 10 n" "drop_bit 10 n < 1023"
    and "mapping (mem s) (cr3 s) (drop_bit 10 n) (n AND 0x3FF) = Some f"
  shows "\<exists>s'. free_page n s = Inr s' \<and> paging_ok s'
    \<and> free_frames (process_mem_pool s) s' = insert (f div 4096) (free_frames (process_mem_pool s) s)
    \<and> (\<forall>i j. i < 1023 \<and> j < 1024 \<longrightarrow> mapping (mem s') (cr3 s') i j =
        (if (i, j) = (drop_bit 10 n, n AND 0x3FF) then None else mapping (mem s) (cr3 s) i j))"
proof -
  obtain s' where "free_page n s = Inr s'" "paging_ok s'"
    "free_frames (process_mem_pool s) s' = insert (f div 4096) (free_frames (process_mem_pool s) s)"
    "mapping (mem s') (cr3 s) (drop_bit 10 n) (n AND 0x3FF) = None" "cr3 s' = cr3 s"
    "\<And>i' l. i' < 1023 \<Longrightarrow> l < 1024 \<Longrightarrow> (i', l) \<noteq> (drop_bit 10 n, n AND 0x3FF) \<Longrightarrow>
       mapping (mem s') (cr3 s) i' l = mapping (mem s) (cr3 s) i' l"
    by (rule free_page_result[OF assms], rule that)
  then show ?thesis by (intro exI[of _ s']) simp
qed

theorem free_page_unmaps_witness:
  "\<exists>s' s''. handle_fault (faulting 0x20000010) = Inr s' \<and> free_page 0x20000 s' = Inr s'' \<and> paging_ok s''
    \<and> mapping (mem s'') (cr3 s'') 128 0 = None"
proof -
  have a: "(0x20000000 :: u32) \<le> 0x20000010" "(0x20000010 :: u32) < 0x20001000" by simp_all
  note f = faulting_facts[OF a] and l = faulting_lookup[OF a]
  have d: "0 < dir_index (0x20000010 :: u32)" "dir_index (0x20000010 :: u32) < 1023" by (simp_all only: l(1)) simp_all
  have none: "mapping (mem (faulting 0x20000010)) (cr3 (faulting 0x20000010)) (dir_index (cr2 (faulting 0x20000010)))
     (table_index (cr2 (faulting 0x20000010))) = None"
    unfolding f(3) faulting_facts(6)[OF a d(2) table_index_less] by (simp add: l(1))
  obtain g s' where h: "handle_fault (faulting 0x20000010) = Inr s'" "paging_ok s'"
    "s' = (faulting 0x20000010)\<lparr>mem := mem s', pools := pools s'\<rparr>"
    "mapping (mem s') (cr3 (faulting 0x20000010)) (dir_index (cr2 (faulting 0x20000010)))
      (table_index (cr2 (faulting 0x20000010))) = Some (4096 * g)"
    by (rule handle_fault_result[OF f(1,2) _ _ _ none]) (use f(3-5) d in simp_all)
  have c: "cr3 s' = cr3 (faulting 0x20000010)" by (rule mem_pools_fields[OF h(3)])
  have ix: "drop_bit 10 (0x20000 :: u32) = 128" "(0x20000 :: u32) AND 0x3FF = 0" "table_index (0x20000010 :: u32) = 0"
    by (simp_all add: table_index_def)
  have m: "mapping (mem s') (cr3 s') (drop_bit 10 0x20000) (0x20000 AND 0x3FF) = Some (4096 * g)"
    using h(4) unfolding f(3) c ix l(1) .
  have p: "0 < drop_bit 10 (0x20000 :: u32)" "drop_bit 10 (0x20000 :: u32) < 1023" unfolding ix by simp_all
  from free_page_unmaps[OF h(2) p m] show ?thesis using h(1) unfolding ix by auto
qed

text \<open>C27: \<open>allocate\<close> of a virtual memory pool returns a region inside the pool that overlaps
no region in use; the regions afterwards are the old ones and the new one, still in order.\<close>

theorem vm_allocate_disjoint:
  assumes "vm_inv v" "vm_allocate n v = Inr (a, v')"
  shows "vm_inv v' \<and> set (regions v') = insert \<lparr>start_frame = a, region_size = round_to_pages n\<rparr> (set (regions v))
    \<and> (\<forall>r \<in> set (regions v). region_bytes \<lparr>start_frame = a, region_size = round_to_pages n\<rparr> \<inter> region_bytes r = {})
    \<and> region_bytes \<lparr>start_frame = a, region_size = round_to_pages n\<rparr>
        \<subseteq> {unat (base_address v) ..< unat (base_address v) + unat (vm_size v)}"
proof -
  let ?x = "\<lparr>start_frame = a, region_size = round_to_pages n\<rparr>"
  obtain i where i: "i < num_allocated v"
    "regions v' = take (i + 1) (regions v) @ ?x # drop (i + 1) (regions v)" "vm_inv v'"
    "ordered (unat (base_address v)) (unat (base_address v) + unat (vm_size v)) (regions v')"
    by (rule vm_allocate_result[OF assms], rule that)
  have sp: "set (regions v) = set (take (i + 1) (regions v)) \<union> set (drop (i + 1) (regions v))"
    by (metis append_take_drop_id set_append)
  have "set (regions v') = insert ?x (set (regions v))" by (simp only: i(2) sp set_append list.set) blast
  moreover have "region_bytes ?x \<inter> region_bytes r = {}" if "r \<in> set (regions v)" for r
    by (rule ordered_insert_disjoint[OF i(4)[unfolded i(2)]]) (use that sp in simp)
  moreover have "region_bytes ?x \<subseteq> {unat (base_address v) ..< unat (base_address v) + unat (vm_size v)}"
    using ordered_bytes_above[OF i(4)] i(2) by fastforce
  ultimately show ?thesis using i(3) by blast
qed

definition demo_vm :: vm_pool where
  "demo_vm = \<lparr>base_address = 0x20000000, vm_size = 0x10000000, frame_pool = 1, vm_page_table = 0, num_allocated = 1,
     allocated_list = (\<lambda>_. \<lparr>start_frame = 0, region_size = 0\<rparr>)(0 := \<lparr>start_frame = 0x20000000, region_size = 4096\<rparr>)\<rparr>"

theorem vm_allocate_disjoint_witness:
  "\<exists>v'. vm_allocate 5000 demo_vm = Inr (0x20001000, v') \<and> vm_inv v'
    \<and> (\<forall>r \<in> set (regions demo_vm). region_bytes \<lparr>start_frame = 0x20001000, region_size = 8192\<rparr> \<inter> region_bytes r = {})"
proof -
  have "vm_inv demo_vm" by (simp add: vm_inv_def demo_vm_def regions_def)
  moreover obtain v' where "vm_allocate 5000 demo_vm = Inr (0x20001000, v')"
    by (simp add: vm_allocate_def add_region_def REGIONS_PER_PAGE_def demo_vm_def find_gap.simps round_to_pages_def region_end_def Let_def)
  moreover have "round_to_pages 5000 = 8192" by (simp add: round_to_pages_def)
  ultimately show ?thesis using vm_allocate_disjoint[of demo_vm 5000 "0x20001000" v'] by auto
qed

text \<open>\<open>release\<close> never releases anything: whatever the address, the only effect of a call
is the message that the region was not allocated.\<close>

lemma vm_release_does_nothing:
  "vm_release k a s = Inr (puts (''ERROR: attempted to release non-allocated region!'' @ [CHR 0x0A]) s)"
  by (simp add: vm_release_def release_search_same Let_def)

end
