(* ===== verification/MemoryPools.thy ===== *)
theory MemoryPools
  imports Allocator
begin

text \<open>
  The heap of P5 and P6: frame_pool.C hands out frames upwards from 2 MB, mem_pool.C takes a
  run of frames and hands out bytes of it upwards; neither gives memory back. The frame pool
  is a source of frames in the sense of the theory Allocator; blocks of the memory pool are
  disjoint until the addresses wrap.
\<close>

section \<open>Frame pool\<close>

record frame_pool56 =
  next_free_frame :: u32

definition construct_FramePool :: frame_pool56 where
  "construct_FramePool = \<lparr>next_free_frame = 0x200000\<rparr>"

definition get_frame :: "frame_pool56 \<Rightarrow> u32 \<times> frame_pool56" where
  "get_frame p = (next_free_frame p, p\<lparr>next_free_frame := next_free_frame p + 4096\<rparr>)"

definition release_frame56 :: "u32 \<Rightarrow> frame_pool56 \<Rightarrow> frame_pool56" where
  "release_frame56 a p = p"

text \<open>The frames above the next one, up to the end of the address space.\<close>

definition frames_left :: "frame_pool56 \<Rightarrow> u32 set" where
  "frames_left p = (if next_free_frame p = 0 then {} else {f. next_free_frame p \<le> f \<and> unat f mod 4096 = 0})"

definition pool56_ok :: "frame_pool56 \<Rightarrow> bool" where
  "pool56_ok p \<longleftrightarrow> unat (next_free_frame p) mod 4096 = 0"

lemma next_frame_unat:
  assumes "unat (a :: u32) mod 4096 = 0"
  shows "unat (a + 4096) = (if unat a = 4294963200 then 0 else unat a + 4096)"
proof -
  obtain q where q: "unat a = 4096 * q" using assms by (auto simp: mod_eq_0_iff_dvd elim: dvdE)
  then have "q \<le> 1048575" using unat_u32_less[of a] by linarith
  then have "unat a \<le> 4294963200" using q by linarith
  then show ?thesis using q by (cases "unat a = 4294963200") (auto simp: unat_word_ariths take_bit_nat_def)
qed

lemma get_frame_source:
  assumes "pool56_ok p" "frames_left p \<noteq> {}"
  shows "fst (get_frame p) \<in> frames_left p \<and> frames_left (snd (get_frame p)) = frames_left p - {fst (get_frame p)}
    \<and> pool56_ok (snd (get_frame p))"
proof -
  let ?a = "next_free_frame p"
  have al: "unat ?a mod 4096 = 0" and ne: "?a \<noteq> 0" using assms by (auto simp: pool56_ok_def frames_left_def split: if_splits)
  have step: "?a + 4096 \<le> f \<and> ?a + 4096 \<noteq> 0 \<longleftrightarrow> ?a \<le> f \<and> f \<noteq> ?a" if f: "unat f mod 4096 = 0" for f
  proof -
    obtain q r where qr: "unat ?a = 4096 * q" "unat f = 4096 * r" using al f by (auto simp: mod_eq_0_iff_dvd elim!: dvdE)
    have "r \<le> 1048575" using qr unat_u32_less[of f] by linarith
    then show ?thesis using qr next_frame_unat[OF al]
      by (auto simp: word_le_nat_alt word_unat_eq_iff split: if_splits)
  qed
  have "frames_left (snd (get_frame p)) = frames_left p - {?a}"
    using step ne by (auto simp: frames_left_def get_frame_def)
  moreover have "pool56_ok (snd (get_frame p))" using next_frame_unat[OF al] al by (simp add: pool56_ok_def get_frame_def)
  ultimately show ?thesis using ne al by (simp add: get_frame_def frames_left_def)
qed

interpretation fp56: frame_source "\<lambda>p. Inr (get_frame p)" frames_left pool56_ok
  by unfold_locales (metis get_frame_source surjective_pairing)

section \<open>Memory pool\<close>

text \<open>\<open>MemPool(frame_pool, n)\<close> keeps the first frame's address; it takes \<open>n - 1\<close> more frames
and relies on their being the next ones.\<close>

fun take_more_frames :: "nat \<Rightarrow> frame_pool56 \<Rightarrow> frame_pool56" where
  "take_more_frames 0 p = p"
| "take_more_frames (Suc n) p = take_more_frames n (snd (get_frame p))"

definition construct_MemPool :: "int \<Rightarrow> frame_pool56 \<times> 'a machine_scheme \<Rightarrow> u32 \<times> frame_pool56 \<times> 'a machine_scheme" where
  "construct_MemPool n_frames = (\<lambda>(p, s).
     let s1 = puts ''Allocating Memory Pool... '' s;
         (a, p1) = get_frame p;
         p2 = take_more_frames (nat (n_frames - 1)) p1
     in (a, p2, puts (''done'' @ [CHR 0x0A]) s1))"

definition mem_allocate :: "u32 \<Rightarrow> u32 \<Rightarrow> u32 \<times> u32" where
  "mem_allocate sz start = (start, start + sz)"

definition mem_release :: "u32 \<Rightarrow> u32 \<Rightarrow> u32" where
  "mem_release a start = start"

text \<open>A run of requests: the blocks handed out and the next free address.\<close>

fun mem_allocate_all :: "u32 list \<Rightarrow> u32 \<Rightarrow> (u32 \<times> u32) list \<times> u32" where
  "mem_allocate_all [] start = ([], start)"
| "mem_allocate_all (sz # szs) start =
     (let (a, st) = mem_allocate sz start; (bs, st') = mem_allocate_all szs st in ((a, sz) # bs, st'))"

text \<open>One block lies below another.\<close>

definition below :: "u32 \<times> u32 \<Rightarrow> u32 \<times> u32 \<Rightarrow> bool" where
  "below b c \<longleftrightarrow> unat (fst b) + unat (snd b) \<le> unat (fst c)"

lemma mem_allocate_all_bounds:
  "unat start + sum_list (map unat szs) < 2 ^ 32 \<Longrightarrow> mem_allocate_all szs start = (bs, st) \<Longrightarrow>
   unat st = unat start + sum_list (map unat szs) \<and> map snd bs = szs \<and> sorted_wrt below bs
   \<and> (\<forall>b \<in> set bs. unat start \<le> unat (fst b) \<and> unat (fst b) + unat (snd b) \<le> unat st)"
proof (induction szs arbitrary: start bs)
  case Nil
  then show ?case by simp
next
  case (Cons sz szs)
  obtain cs where bs: "bs = (start, sz) # cs" "mem_allocate_all szs (start + sz) = (cs, st)"
    using Cons.prems(2) by (auto simp: mem_allocate_def split: prod.splits)
  have u: "unat (start + sz) = unat start + unat sz"
    using unat_add_of_nat[of start "unat sz"] Cons.prems(1) by simp
  have "unat (start + sz) + sum_list (map unat szs) < 2 ^ 32" using Cons.prems(1) u by simp
  from Cons.IH[OF this bs(2)] show ?case using u bs(1) by (auto simp: below_def)
qed

lemma take_more_frames_next:
  "unat (next_free_frame p) + 4096 * n < 2 ^ 32 \<Longrightarrow>
   unat (next_free_frame (take_more_frames n p)) = unat (next_free_frame p) + 4096 * n"
proof (induction n arbitrary: p)
  case 0
  then show ?case by simp
next
  case (Suc n)
  have "unat (next_free_frame p + 4096) = unat (next_free_frame p) + 4096"
    using unat_add_of_nat[of "next_free_frame p" 4096] Suc.prems by simp
  then show ?case using Suc.IH[of "snd (get_frame p)"] Suc.prems by (simp add: get_frame_def)
qed

section \<open>Properties\<close>

text \<open>However many frames are taken from the frame pool of P5 and P6, they are different
and lie at or above 2 MB, as long as the address space lasts.\<close>

lemma frame_pool56_distinct:
  assumes "n \<le> card (frames_left construct_FramePool)"
  shows "\<exists>fs t. alloc_n (\<lambda>p. Inr (get_frame p)) n construct_FramePool = Inr (fs, t)
    \<and> length fs = n \<and> distinct fs \<and> (\<forall>f \<in> set fs. 0x200000 \<le> f \<and> unat f mod 4096 = 0)"
proof -
  have "pool56_ok construct_FramePool" by (simp add: pool56_ok_def construct_FramePool_def)
  from fp56.alloc_n_distinct[OF this _ assms] obtain fs t where
    "alloc_n (\<lambda>p. Inr (get_frame p)) n construct_FramePool = Inr (fs, t)" "length fs = n" "distinct fs"
    "set fs \<subseteq> frames_left construct_FramePool" by auto
  moreover from this(4) have "\<forall>f \<in> set fs. 0x200000 \<le> f \<and> unat f mod 4096 = 0"
    by (auto simp: frames_left_def construct_FramePool_def)
  ultimately show ?thesis by blast
qed

lemma two_frames_left: "2 \<le> card (frames_left construct_FramePool)"
proof -
  have "{0x200000, 0x201000} \<subseteq> frames_left construct_FramePool"
    by (simp add: frames_left_def construct_FramePool_def word_le_nat_alt)
  from card_mono[OF _ this] show ?thesis by simp
qed

lemma frame_pool56_distinct_two:
  "\<exists>fs t. alloc_n (\<lambda>p. Inr (get_frame p)) 2 construct_FramePool = Inr (fs, t) \<and> length fs = 2 \<and> distinct fs"
  using frame_pool56_distinct[OF two_frames_left] by blast

text \<open>C40: the blocks \<open>MemPool::allocate\<close> hands out follow one another without overlap, from the
start of the pool, until the sizes asked for pass the end of the address space; a P5/P6 pool of
\<open>n\<close> frames starts at a frame and the frames it took are the \<open>n\<close> following ones.\<close>

theorem mem_pool_blocks_disjoint:
  assumes "construct_MemPool n (p, s) = (start, p', s')" "1 \<le> n"
    and "unat (next_free_frame p) + 4096 * nat n < 2 ^ 32"
    and "sum_list (map unat szs) \<le> 4096 * nat n"
    and "mem_allocate_all szs start = (bs, st)"
  shows "map snd bs = szs \<and> sorted_wrt below bs
    \<and> (\<forall>b \<in> set bs. unat (next_free_frame p) \<le> unat (fst b)
         \<and> unat (fst b) + unat (snd b) \<le> unat (next_free_frame p'))"
proof -
  have st: "start = next_free_frame p" and p': "p' = take_more_frames (nat (n - 1)) (snd (get_frame p))"
    using assms(1) by (auto simp: construct_MemPool_def get_frame_def)
  have u: "unat (next_free_frame (snd (get_frame p))) = unat start + 4096"
    using unat_add_of_nat[of "next_free_frame p" 4096] assms(2,3) by (simp add: get_frame_def st)
  have "nat n = Suc (nat (n - 1))" using assms(2) by simp
  then have "unat (next_free_frame p') = unat start + 4096 * nat n"
    using take_more_frames_next[of "snd (get_frame p)" "nat (n - 1)"] assms(3) u by (simp add: p' st)
  moreover have "unat start + sum_list (map unat szs) < 2 ^ 32" using assms(3,4) st by simp
  from mem_allocate_all_bounds[OF this assms(5)] have "map snd bs = szs" "sorted_wrt below bs"
    "\<forall>b \<in> set bs. unat start \<le> unat (fst b) \<and> unat (fst b) + unat (snd b) \<le> unat start + sum_list (map unat szs)" by auto
  ultimately show ?thesis using assms(4) st by fastforce
qed

theorem mem_pool_blocks_disjoint_witness:
  "\<exists>bs st. mem_allocate_all [1024, 24] 0x200000 = (bs, st) \<and> sorted_wrt below bs"
proof -
  let ?s = "\<lparr>mem = \<lambda>_. 0, trace = []\<rparr>"
  obtain a p' s' where c: "construct_MemPool 256 (construct_FramePool, ?s) = (a, p', s')"
    by (metis surjective_pairing)
  then have a: "a = 0x200000" by (auto simp: construct_MemPool_def get_frame_def construct_FramePool_def)
  obtain bs st where b: "mem_allocate_all [1024, 24] a = (bs, st)" by (metis surjective_pairing)
  have "sorted_wrt below bs"
    using mem_pool_blocks_disjoint[OF c _ _ _ b] by (simp add: construct_FramePool_def)
  then show ?thesis using a b by blast
qed

end
