(* ===== verification/LinkedLists.thy ===== *)
theory LinkedLists
  imports MemoryPools
begin

text \<open>
  The doubly linked list \<open>LinkedList\<close> of linked_list.H in P5 and P6. The heap holds a \<open>Node\<close>
  for each address; \<open>operator new\<close> is \<open>MemPool::allocate\<close>, \<open>operator delete\<close> does nothing. The
  operations of the list are related to those of HOL lists.
\<close>

section \<open>Nodes\<close>

record node =
  node_prev :: u32
  node_next :: u32
  node_data :: u32

record list_heap =
  nodes :: "u32 \<Rightarrow> node"
  start_address :: u32

definition sizeof_Node :: u32 where "sizeof_Node = 12"

definition new_Node :: "u32 \<Rightarrow> list_heap \<Rightarrow> u32 \<times> list_heap" where
  "new_Node d h =
     (let (a, st) = mem_allocate sizeof_Node (start_address h)
      in (a, h\<lparr>nodes := (nodes h)(a := \<lparr>node_prev = 0, node_next = 0, node_data = d\<rparr>), start_address := st\<rparr>))"

definition delete_Node :: "u32 \<Rightarrow> list_heap \<Rightarrow> list_heap" where
  "delete_Node a h = h\<lparr>start_address := mem_release a (start_address h)\<rparr>"

definition set_prev :: "u32 \<Rightarrow> u32 \<Rightarrow> list_heap \<Rightarrow> list_heap" where
  "set_prev a p h = h\<lparr>nodes := (nodes h)(a := (nodes h a)\<lparr>node_prev := p\<rparr>)\<rparr>"

definition set_next :: "u32 \<Rightarrow> u32 \<Rightarrow> list_heap \<Rightarrow> list_heap" where
  "set_next a n h = h\<lparr>nodes := (nodes h)(a := (nodes h a)\<lparr>node_next := n\<rparr>)\<rparr>"

section \<open>The list\<close>

record linked_list =
  len :: u32
  head :: u32
  tail :: u32

definition construct_LinkedList :: linked_list where
  "construct_LinkedList = \<lparr>len = 0, head = 0, tail = 0\<rparr>"

definition push_back :: "u32 \<Rightarrow> linked_list \<times> list_heap \<Rightarrow> linked_list \<times> list_heap" where
  "push_back d = (\<lambda>(l, h).
     let (a, h1) = new_Node d h;
         (l1, h2) =
           (if len l = 0 then (l\<lparr>head := a, tail := a\<rparr>, h1)
            else (l\<lparr>tail := a\<rparr>, set_next (tail l) a (set_prev a (tail l) h1)))
     in (l1\<lparr>len := len l1 + 1\<rparr>, h2))"

definition push_front :: "u32 \<Rightarrow> linked_list \<times> list_heap \<Rightarrow> linked_list \<times> list_heap" where
  "push_front d = (\<lambda>(l, h).
     let (a, h1) = new_Node d h;
         (l1, h2) =
           (if len l = 0 then (l\<lparr>head := a, tail := a\<rparr>, h1)
            else (l\<lparr>head := a\<rparr>, set_prev (head l) a (set_next a (head l) h1)))
     in (l1\<lparr>len := len l1 + 1\<rparr>, h2))"

definition pop_front :: "linked_list \<times> list_heap \<Rightarrow> linked_list \<times> list_heap" where
  "pop_front = (\<lambda>(l, h).
     if len l \<noteq> 0 then
       let (l1, h1) =
         (if len l = 1 then (l\<lparr>head := 0, tail := 0\<rparr>, delete_Node (head l) h)
          else let t = head l; hd' = node_next (nodes h t)
               in (l\<lparr>head := hd'\<rparr>, delete_Node t (set_prev hd' 0 h)))
       in (l1\<lparr>len := len l1 - 1\<rparr>, h1)
     else (l, h))"

definition list_front :: "linked_list \<times> list_heap \<Rightarrow> u32" where
  "list_front = (\<lambda>(l, h). if head l \<noteq> 0 then node_data (nodes h (head l)) else 0)"

definition list_back :: "linked_list \<times> list_heap \<Rightarrow> u32" where
  "list_back = (\<lambda>(l, h). if tail l \<noteq> 0 then node_data (nodes h (tail l)) else 0)"

definition list_size :: "linked_list \<Rightarrow> u32" where
  "list_size l = len l"

definition remove_node :: "u32 \<Rightarrow> linked_list \<times> list_heap \<Rightarrow> linked_list \<times> list_heap" where
  "remove_node n = (\<lambda>(l, h).
     let (l1, h1) =
       (if n = head l \<and> n = tail l then (l\<lparr>head := 0, tail := 0\<rparr>, h)
        else if n = head l then
          let hd' = node_next (nodes h (head l)) in (l\<lparr>head := hd'\<rparr>, set_prev hd' 0 h)
        else if n = tail l then
          let tl' = node_prev (nodes h (tail l)) in (l\<lparr>tail := tl'\<rparr>, set_next tl' 0 h)
        else
          let p = node_prev (nodes h n); h' = set_next p (node_next (nodes h n)) h
          in (l, set_prev (node_next (nodes h' n)) (node_prev (nodes h' n)) h'))
     in (l1\<lparr>len := len l1 - 1\<rparr>, delete_Node n h1))"

text \<open>The loop of \<open>remove(T)\<close> follows \<open>next\<close> pointers: on a cyclic list it does not end.\<close>

partial_function (option) remove_loop ::
  "u32 \<Rightarrow> u32 \<Rightarrow> linked_list \<times> list_heap \<Rightarrow> (linked_list \<times> list_heap) option" where
  "remove_loop v cur s =
     (if cur \<noteq> 0 then
        let nxt = node_next (nodes (snd s) cur) in
          if node_data (nodes (snd s) cur) = v then remove_loop v nxt (remove_node cur s)
          else remove_loop v nxt s
      else Some s)"

definition remove_value :: "u32 \<Rightarrow> linked_list \<times> list_heap \<Rightarrow> (linked_list \<times> list_heap) option" where
  "remove_value v s = remove_loop v (head (fst s)) s"

partial_function (option) print_loop :: "bool \<Rightarrow> u32 \<Rightarrow> list_heap \<Rightarrow> event list \<Rightarrow> event list option" where
  "print_loop print_address cur h out =
     (if cur \<noteq> 0 then
        let out1 = out @ [Putui (if print_address then cur else node_data (nodes h cur))];
            out2 = (if node_next (nodes h cur) \<noteq> 0 then out1 @ [Puts '' -> ''] else out1)
        in print_loop print_address (node_next (nodes h cur)) h out2
      else Some out)"

definition print_list :: "bool \<Rightarrow> linked_list \<times> list_heap \<Rightarrow> event list option" where
  "print_list print_address = (\<lambda>(l, h).
     map_option (\<lambda>out. out @ [Puts [CHR 0x0A]]) (print_loop print_address (head l) h []))"

section \<open>Well-formed lists\<close>

text \<open>\<open>linked h p as q\<close>: the nodes \<open>as\<close> form a doubly linked segment of the heap whose first
node points back to \<open>p\<close> and whose last node points on to \<open>q\<close>.\<close>

definition first_of :: "u32 list \<Rightarrow> u32 \<Rightarrow> u32" where
  "first_of as q = (if as = [] then q else hd as)"

definition last_of :: "u32 \<Rightarrow> u32 list \<Rightarrow> u32" where
  "last_of p as = (if as = [] then p else last as)"

fun linked :: "(u32 \<Rightarrow> node) \<Rightarrow> u32 \<Rightarrow> u32 list \<Rightarrow> u32 \<Rightarrow> bool" where
  "linked h p [] q \<longleftrightarrow> True"
| "linked h p (a # as) q \<longleftrightarrow> node_prev (h a) = p \<and> node_next (h a) = first_of as q \<and> linked h a as q"

definition dll :: "u32 list \<Rightarrow> linked_list \<times> list_heap \<Rightarrow> bool" where
  "dll as s \<longleftrightarrow> linked (nodes (snd s)) 0 as 0
     \<and> head (fst s) = first_of as 0 \<and> tail (fst s) = last_of 0 as
     \<and> unat (len (fst s)) = length as \<and> distinct as \<and> 0 \<notin> set as
     \<and> (\<forall>a \<in> set as. unat a < unat (start_address (snd s))) \<and> 0 < unat (start_address (snd s))"

definition contents :: "u32 list \<Rightarrow> linked_list \<times> list_heap \<Rightarrow> u32 list" where
  "contents as s = map (\<lambda>a. node_data (nodes (snd s) a)) as"

lemma first_of_simps [simp]: "first_of [] q = q" "first_of (a # as) q = a"
  by (simp_all add: first_of_def)

lemma last_of_simps [simp]: "last_of p [] = p" "last_of p (as @ [a]) = a" "last_of p (a # as) = last_of a as"
  by (simp_all add: last_of_def)

lemma first_of_append [simp]: "first_of (as @ bs) q = first_of as (first_of bs q)"
  by (simp add: first_of_def)

lemma last_of_append [simp]: "last_of p (as @ bs) = last_of (last_of p as) bs"
  by (auto simp: last_of_def)

lemma linked_append [simp]:
  "linked h p (as @ bs) q \<longleftrightarrow> linked h p as (first_of bs q) \<and> linked h (last_of p as) bs q"
  by (induction as arbitrary: p) auto

lemma linked_cong: "(\<And>a. a \<in> set as \<Longrightarrow> h a = h' a) \<Longrightarrow> linked h p as q \<longleftrightarrow> linked h' p as q"
  by (induction as arbitrary: p) auto

lemma linked_upd [simp]: "a \<notin> set as \<Longrightarrow> linked (h(a := n)) p as q \<longleftrightarrow> linked h p as q"
  by (rule linked_cong) auto

lemma contents_upd [simp]:
  "a \<notin> set as \<Longrightarrow> map (\<lambda>b. node_data ((h(a := n)) b)) as = map (\<lambda>b. node_data (h b)) as"
  by auto

lemma dll_Nil: "unat (start_address h) > 0 \<Longrightarrow> dll [] (construct_LinkedList, h)"
  by (simp add: dll_def construct_LinkedList_def)

lemma dll_len_0: "dll as s \<Longrightarrow> len (fst s) = 0 \<longleftrightarrow> as = []"
  by (auto simp: dll_def unat_eq_0)

lemma dll_len_1: "dll as s \<Longrightarrow> len (fst s) = 1 \<longleftrightarrow> length as = 1"
  by (auto simp: dll_def word_unat_eq_iff)

lemma len_inc: "unat (n :: u32) + 1 < 2 ^ 32 \<Longrightarrow> unat (n + 1) = unat n + 1"
  using unat_add_of_nat[of n 1] by simp

lemma len_dec: "(n :: u32) \<noteq> 0 \<Longrightarrow> unat (n - 1) = unat n - 1"
  by (rule unat_minus_one)

lemma last_split: "as \<noteq> [] \<Longrightarrow> \<exists>bs b. as = bs @ [b]"
  by (metis append_butlast_last_id)

text \<open>Room for \<open>n\<close> more nodes: the heap does not wrap and the length does not overflow.\<close>

definition room :: "linked_list \<times> list_heap \<Rightarrow> nat \<Rightarrow> bool" where
  "room s n \<longleftrightarrow> unat (start_address (snd s)) + 12 * n < 2 ^ 32 \<and> unat (len (fst s)) + n < 2 ^ 32"

lemma heap_inc: "unat (st :: u32) + 12 < 2 ^ 32 \<Longrightarrow> unat (st + 12) = unat st + 12"
  using unat_add_of_nat[of st 12] by simp

section \<open>The operations on well-formed lists\<close>

lemma push_back_dll:
  assumes d: "dll as (l, h)" and r: "room (l, h) 1"
  shows "dll (as @ [start_address h]) (push_back d (l, h))"
    "contents (as @ [start_address h]) (push_back d (l, h)) = contents as (l, h) @ [d]"
    "start_address (snd (push_back d (l, h))) = start_address h + 12" "len (fst (push_back d (l, h))) = len l + 1"
proof -
  let ?a = "start_address h"
  have a: "?a \<notin> set as" "?a \<noteq> 0" using d by (auto simp: dll_def)
  have u: "unat (?a + 12) = unat ?a + 12" "unat (len l + 1) = unat (len l) + 1"
    using heap_inc[of ?a] len_inc[of "len l"] r by (simp_all add: room_def)
  have "dll (as @ [?a]) (push_back d (l, h)) \<and> contents (as @ [?a]) (push_back d (l, h)) = contents as (l, h) @ [d]
     \<and> start_address (snd (push_back d (l, h))) = ?a + 12 \<and> len (fst (push_back d (l, h))) = len l + 1"
  proof (cases "as = []")
    case True
    then have "len l = 0" using dll_len_0[OF d] by simp
    then show ?thesis using d a u True
      by (simp add: push_back_def new_Node_def mem_allocate_def sizeof_Node_def dll_def contents_def)
  next
    case False
    then obtain bs b where as: "as = bs @ [b]" using last_split by blast
    have l: "len l \<noteq> 0" using False dll_len_0[OF d] by simp
    show ?thesis using d a u l as
      by (auto simp: push_back_def new_Node_def mem_allocate_def sizeof_Node_def dll_def contents_def set_prev_def set_next_def
        intro: less_trans)
  qed
  then show "dll (as @ [?a]) (push_back d (l, h))" "contents (as @ [?a]) (push_back d (l, h)) = contents as (l, h) @ [d]"
    "start_address (snd (push_back d (l, h))) = ?a + 12" "len (fst (push_back d (l, h))) = len l + 1" by simp_all
qed

lemma push_front_dll:
  assumes d: "dll as (l, h)" and r: "room (l, h) 1"
  shows "dll (start_address h # as) (push_front d (l, h))"
    "contents (start_address h # as) (push_front d (l, h)) = d # contents as (l, h)"
proof -
  let ?a = "start_address h"
  have a: "?a \<notin> set as" "?a \<noteq> 0" using d by (auto simp: dll_def)
  have u: "unat (?a + 12) = unat ?a + 12" "unat (len l + 1) = unat (len l) + 1"
    using heap_inc[of ?a] len_inc[of "len l"] r by (simp_all add: room_def)
  have "dll (?a # as) (push_front d (l, h)) \<and> contents (?a # as) (push_front d (l, h)) = d # contents as (l, h)"
  proof (cases as)
    case Nil
    then have "len l = 0" using dll_len_0[OF d] by simp
    then show ?thesis using d a u Nil
      by (simp add: push_front_def new_Node_def mem_allocate_def sizeof_Node_def dll_def contents_def)
  next
    case (Cons b bs)
    have l: "len l \<noteq> 0" using Cons dll_len_0[OF d] by simp
    show ?thesis using d a u l Cons
      by (auto simp: push_front_def new_Node_def mem_allocate_def sizeof_Node_def dll_def contents_def set_prev_def set_next_def
        intro: less_trans)
  qed
  then show "dll (?a # as) (push_front d (l, h))" "contents (?a # as) (push_front d (l, h)) = d # contents as (l, h)" by simp_all
qed

lemma delete_Node_id [simp]: "delete_Node a h = h"
  by (simp add: delete_Node_def mem_release_def)

lemma pop_front_dll:
  assumes d: "dll as (l, h)"
  shows "dll (tl as) (pop_front (l, h))" "contents (tl as) (pop_front (l, h)) = tl (contents as (l, h))"
    "start_address (snd (pop_front (l, h))) = start_address h" "unat (len (fst (pop_front (l, h)))) \<le> unat (len l)"
proof -
  have "dll (tl as) (pop_front (l, h)) \<and> contents (tl as) (pop_front (l, h)) = tl (contents as (l, h))
     \<and> start_address (snd (pop_front (l, h))) = start_address h \<and> unat (len (fst (pop_front (l, h)))) \<le> unat (len l)"
  proof (cases as)
    case Nil
    then have "len l = 0" using dll_len_0[OF d] by simp
    then show ?thesis using d Nil by (simp add: pop_front_def dll_def contents_def)
  next
    case (Cons a bs)
    have l: "len l \<noteq> 0" using Cons dll_len_0[OF d] by simp
    note u = len_dec[OF l]
    show ?thesis
    proof (cases bs)
      case Nil
      then have "len l = 1" using Cons dll_len_1[OF d] by simp
      then show ?thesis using d Nil Cons by (simp add: pop_front_def dll_def contents_def)
    next
      case (Cons b cs)
      then have "len l \<noteq> 1" using \<open>as = a # bs\<close> dll_len_1[OF d] by simp
      then show ?thesis using d l u Cons \<open>as = a # bs\<close>
        by (auto simp: pop_front_def dll_def contents_def set_prev_def)
    qed
  qed
  then show "dll (tl as) (pop_front (l, h))" "contents (tl as) (pop_front (l, h)) = tl (contents as (l, h))"
    "start_address (snd (pop_front (l, h))) = start_address h" "unat (len (fst (pop_front (l, h)))) \<le> unat (len l)" by simp_all
qed

lemma list_front_dll:
  assumes d: "dll as s" and ne: "as \<noteq> []"
  shows "list_front s = hd (contents as s)" "list_back s = last (contents as s)"
proof -
  obtain l h where s: "s = (l, h)" by (cases s)
  have "hd as \<noteq> 0" "last as \<noteq> 0" using d hd_in_set[OF ne] last_in_set[OF ne] unfolding dll_def by metis+
  then show "list_front s = hd (contents as s)" "list_back s = last (contents as s)"
    using d ne by (simp_all add: s list_front_def list_back_def dll_def contents_def first_of_def last_of_def hd_map last_map)
qed

lemma list_front_empty: "dll [] s \<Longrightarrow> list_front s = 0 \<and> list_back s = 0"
  by (auto simp: dll_def list_front_def list_back_def split: prod.splits)

lemma set_link_data [simp]:
  "node_data (nodes (set_prev b p h) a) = node_data (nodes h a)" "node_data (nodes (set_next b p h) a) = node_data (nodes h a)"
  "start_address (set_prev b p h) = start_address h" "start_address (set_next b p h) = start_address h"
  by (simp_all add: set_prev_def set_next_def)

lemma remove_node_data: "node_data (nodes (snd (remove_node n (l, h))) a) = node_data (nodes h a)"
  unfolding remove_node_def Let_def prod.case by (simp only: if_distrib prod.case_distrib) simp

lemma remove_node_start: "start_address (snd (remove_node n (l, h))) = start_address h"
  unfolding remove_node_def Let_def prod.case by (simp only: if_distrib prod.case_distrib) simp

lemma remove_node_cases:
  "n = head l \<Longrightarrow> n = tail l \<Longrightarrow> remove_node n (l, h) = (l\<lparr>head := 0, tail := 0, len := len l - 1\<rparr>, h)"
  "n = head l \<Longrightarrow> n \<noteq> tail l \<Longrightarrow> remove_node n (l, h)
     = (l\<lparr>head := node_next (nodes h n), len := len l - 1\<rparr>, set_prev (node_next (nodes h n)) 0 h)"
  "n \<noteq> head l \<Longrightarrow> n = tail l \<Longrightarrow> remove_node n (l, h)
     = (l\<lparr>tail := node_prev (nodes h n), len := len l - 1\<rparr>, set_next (node_prev (nodes h n)) 0 h)"
  "n \<noteq> head l \<Longrightarrow> n \<noteq> tail l \<Longrightarrow> remove_node n (l, h)
     = (l\<lparr>len := len l - 1\<rparr>, let h' = set_next (node_prev (nodes h n)) (node_next (nodes h n)) h
                            in set_prev (node_next (nodes h' n)) (node_prev (nodes h' n)) h')"
  by (simp_all add: remove_node_def Let_def)

text \<open>Removing a node that is in the list unlinks just that node, wherever it stands.\<close>

lemma remove_node_dll:
  assumes d: "dll (bs @ a # cs) (l, h)"
  shows "dll (bs @ cs) (remove_node a (l, h))"
proof -
  have ln: "unat (len l) = Suc (length bs + length cs)" and lk: "linked (nodes h) 0 (bs @ a # cs) 0"
    and hd: "head l = first_of bs a" and tl: "tail l = last_of a cs" and ds: "distinct (bs @ a # cs)" "0 \<notin> set (bs @ a # cs)"
    and st: "\<forall>b \<in> set (bs @ a # cs). unat b < unat (start_address h)" "0 < unat (start_address h)"
    using d by (simp_all add: dll_def)
  have "len l \<noteq> 0" using ln by auto
  note u = len_dec[OF this]
  have hda: "a = head l \<longleftrightarrow> bs = []" using hd ds hd_in_set[of bs] by (auto simp: first_of_def)
  have tla: "a = tail l \<longleftrightarrow> cs = []" using tl ds last_in_set[of cs] by (auto simp: last_of_def)
  show ?thesis
  proof (cases bs rule: rev_cases)
    case Nil
    then have h: "a = head l" using hda by simp
    show ?thesis
    proof (cases cs)
      case Nil
      then have ta: "a = tail l" using tla by simp
      show ?thesis unfolding remove_node_cases(1)[OF h ta]
        using st ln u \<open>bs = []\<close> Nil by (simp add: dll_def)
    next
      case (Cons c cs')
      then have ta: "a \<noteq> tail l" using tla by simp
      show ?thesis unfolding remove_node_cases(2)[OF h ta]
        using tl st ln u lk ds \<open>bs = []\<close> Cons by (simp add: dll_def set_prev_def)
    qed
  next
    case (snoc bs' b)
    then have h: "a \<noteq> head l" using hda by simp
    show ?thesis
    proof (cases cs)
      case Nil
      then have ta: "a = tail l" using tla by simp
      show ?thesis unfolding remove_node_cases(3)[OF h ta]
        using hd st ln u lk ds snoc Nil by (simp add: dll_def set_next_def)
    next
      case (Cons c cs')
      then have ta: "a \<noteq> tail l" using tla by simp
      show ?thesis unfolding remove_node_cases(4)[OF h ta]
        using hd tl st ln u lk ds snoc Cons by (simp add: dll_def set_prev_def set_next_def Let_def) auto
    qed
  qed
qed

lemma remove_loop_dll:
  "dll (bs @ cs) s \<Longrightarrow> \<exists>s'. remove_loop v (first_of cs 0) s = Some s'
     \<and> dll (bs @ filter (\<lambda>a. node_data (nodes (snd s) a) \<noteq> v) cs) s'
     \<and> (\<forall>a. node_data (nodes (snd s') a) = node_data (nodes (snd s) a)) \<and> start_address (snd s') = start_address (snd s)"
proof (induction cs arbitrary: bs s)
  case Nil
  then show ?case by (simp add: remove_loop.simps)
next
  case (Cons a cs)
  obtain l h where s: "s = (l, h)" by (cases s)
  have "linked (nodes h) 0 (bs @ a # cs) 0" "a \<noteq> 0" using Cons.prems by (auto simp: dll_def s)
  then have nx: "node_next (nodes h a) = first_of cs 0" "a \<noteq> 0" by simp_all
  have dt: "(\<lambda>a. node_data (nodes (snd (remove_node a' s)) a) \<noteq> v) = (\<lambda>a. node_data (nodes (snd s) a) \<noteq> v)" for a'
    by (simp add: s remove_node_data)
  show ?case
  proof (cases "node_data (nodes h a) = v")
    case True
    have "dll (bs @ cs) (remove_node a s)" unfolding s by (rule remove_node_dll) (use Cons.prems s in simp)
    from Cons.IH[OF this] obtain s' where "remove_loop v (first_of cs 0) (remove_node a s) = Some s'"
      "dll (bs @ filter (\<lambda>a. node_data (nodes (snd s) a) \<noteq> v) cs) s'"
      "\<forall>b. node_data (nodes (snd s') b) = node_data (nodes (snd (remove_node a s)) b)"
      "start_address (snd s') = start_address (snd (remove_node a s))" unfolding dt by blast
    then show ?thesis using True nx by (simp add: remove_loop.simps[of v a] s remove_node_data remove_node_start)
  next
    case False
    have "dll ((bs @ [a]) @ cs) s" using Cons.prems by simp
    from Cons.IH[OF this] show ?thesis using False nx by (simp add: remove_loop.simps[of v a] s)
  qed
qed

lemma remove_value_dll:
  assumes "dll as s"
  shows "\<exists>s'. remove_value v s = Some s' \<and> dll (filter (\<lambda>a. node_data (nodes (snd s) a) \<noteq> v) as) s'
    \<and> contents (filter (\<lambda>a. node_data (nodes (snd s) a) \<noteq> v) as) s' = filter (\<lambda>d. d \<noteq> v) (contents as s)
    \<and> start_address (snd s') = start_address (snd s)"
proof -
  have "head (fst s) = first_of as 0" using assms by (simp add: dll_def)
  then show ?thesis using remove_loop_dll[of "[]" as s v] assms
    by (auto simp: remove_value_def contents_def filter_map comp_def)
qed

section \<open>Printing\<close>

fun list_events :: "string \<Rightarrow> event list \<Rightarrow> event list" where
  "list_events sep [] = []"
| "list_events sep [e] = [e]"
| "list_events sep (e # es) = e # Puts sep # list_events sep es"

definition shown :: "bool \<Rightarrow> list_heap \<Rightarrow> u32 \<Rightarrow> event" where
  "shown print_address h a = Putui (if print_address then a else node_data (nodes h a))"

lemma print_loop_dll:
  "linked (nodes h) p as 0 \<Longrightarrow> 0 \<notin> set as \<Longrightarrow>
   print_loop pa (first_of as 0) h out = Some (out @ list_events '' -> '' (map (shown pa h) as))"
proof (induction as arbitrary: p out)
  case Nil
  then show ?case by (simp add: print_loop.simps)
next
  case (Cons a as)
  have nx: "node_next (nodes h a) = first_of as 0" "a \<noteq> 0" "linked (nodes h) a as 0" "0 \<notin> set as" using Cons.prems by auto
  show ?case
  proof (cases as)
    case Nil
    then show ?thesis using nx by (simp add: print_loop.simps[of pa a] print_loop.simps[of pa 0] shown_def)
  next
    case (Cons b bs)
    then have "first_of as 0 \<noteq> 0" using nx(4) by auto
    then show ?thesis using nx Cons.IH[OF nx(3,4)] Cons by (simp add: print_loop.simps[of pa a] shown_def)
  qed
qed

section \<open>The list as a value\<close>

text \<open>\<open>nodes_of\<close> walks \<open>len\<close> links from the head; a list is well formed when these nodes are
the whole of it, and its value is the data they hold.\<close>

fun walk :: "nat \<Rightarrow> u32 \<Rightarrow> (u32 \<Rightarrow> node) \<Rightarrow> u32 list" where
  "walk 0 a h = []"
| "walk (Suc n) a h = a # walk n (node_next (h a)) h"

definition nodes_of :: "linked_list \<times> list_heap \<Rightarrow> u32 list" where
  "nodes_of s = walk (unat (len (fst s))) (head (fst s)) (nodes (snd s))"

definition list_ok :: "linked_list \<times> list_heap \<Rightarrow> bool" where
  "list_ok s \<longleftrightarrow> dll (nodes_of s) s"

definition list_abs :: "linked_list \<times> list_heap \<Rightarrow> u32 list" where
  "list_abs s = contents (nodes_of s) s"

lemma walk_linked: "linked h p as q \<Longrightarrow> walk (length as) (first_of as q) h = as"
  by (induction as arbitrary: p) (auto simp: first_of_def)

lemma dll_nodes_of: "dll as s \<Longrightarrow> nodes_of s = as"
  using walk_linked[of "nodes (snd s)" 0 as 0] by (simp add: dll_def nodes_of_def)

lemma dll_ok: "dll as s \<Longrightarrow> list_ok s \<and> list_abs s = contents as s"
  by (simp add: list_ok_def list_abs_def dll_nodes_of)

lemma list_abs_empty: "list_ok s \<Longrightarrow> list_abs s = [] \<longleftrightarrow> nodes_of s = []"
  by (simp add: list_abs_def contents_def)

lemma ok_push_back: "list_ok s \<Longrightarrow> room s 1 \<Longrightarrow> list_ok (push_back d s) \<and> list_abs (push_back d s) = list_abs s @ [d]"
  using push_back_dll[of "nodes_of s" "fst s" "snd s" d] dll_ok by (simp add: list_ok_def[of s] list_abs_def[of s])

lemma ok_push_front: "list_ok s \<Longrightarrow> room s 1 \<Longrightarrow> list_ok (push_front d s) \<and> list_abs (push_front d s) = d # list_abs s"
  using push_front_dll[of "nodes_of s" "fst s" "snd s" d] dll_ok by (simp add: list_ok_def[of s] list_abs_def[of s])

lemma ok_pop_front: "list_ok s \<Longrightarrow> list_ok (pop_front s) \<and> list_abs (pop_front s) = tl (list_abs s)"
  using pop_front_dll[of "nodes_of s" "fst s" "snd s"] dll_ok by (simp add: list_ok_def[of s] list_abs_def[of s])

lemma ok_front: "list_ok s \<Longrightarrow> list_front s = (if list_abs s = [] then 0 else hd (list_abs s))"
  using list_front_dll(1)[of "nodes_of s" s] list_front_empty[of s] list_abs_empty[of s]
  by (auto simp: list_ok_def list_abs_def)

lemma ok_remove_value:
  assumes "list_ok s"
  shows "\<exists>s'. remove_value v s = Some s' \<and> list_ok s' \<and> list_abs s' = filter (\<lambda>d. d \<noteq> v) (list_abs s)
    \<and> start_address (snd s') = start_address (snd s)"
  using remove_value_dll[of "nodes_of s" s v] assms dll_ok unfolding list_ok_def[of s] list_abs_def[of s] by metis

lemma list_len: "list_ok s \<Longrightarrow> unat (len (fst s)) = length (list_abs s)"
  by (simp add: list_ok_def list_abs_def dll_def contents_def)

lemma room_push: "list_ok s \<Longrightarrow> room s (Suc n) \<Longrightarrow> room (push_back d s) n"
  using push_back_dll(3,4)[of "nodes_of s" "fst s" "snd s" d] heap_inc[of "start_address (snd s)"] len_inc[of "len (fst s)"]
  by (auto simp: list_ok_def room_def)

lemma room_pop: "list_ok s \<Longrightarrow> room s n \<Longrightarrow> room (pop_front s) n"
  using pop_front_dll(3,4)[of "nodes_of s" "fst s" "snd s"] by (auto simp: list_ok_def room_def)

lemma room_mono: "room s n \<Longrightarrow> k \<le> n \<Longrightarrow> room s k"
  by (auto simp: room_def)

section \<open>Properties\<close>

definition empty_heap :: list_heap where
  "empty_heap = \<lparr>nodes = \<lambda>_. \<lparr>node_prev = 0, node_next = 0, node_data = 0\<rparr>, start_address = 0x200000\<rparr>"

definition demo_list :: "linked_list \<times> list_heap" where
  "demo_list = push_back 7 (push_back 9 (push_back 7 (construct_LinkedList, empty_heap)))"

lemma empty_list: "list_ok (construct_LinkedList, empty_heap)" "list_abs (construct_LinkedList, empty_heap) = []"
  "room (construct_LinkedList, empty_heap) 1000"
proof -
  have "dll [] (construct_LinkedList, empty_heap)" by (rule dll_Nil) (simp add: empty_heap_def)
  from dll_ok[OF this] show "list_ok (construct_LinkedList, empty_heap)" "list_abs (construct_LinkedList, empty_heap) = []"
    by (simp_all add: contents_def)
  show "room (construct_LinkedList, empty_heap) 1000" by (simp add: room_def empty_heap_def construct_LinkedList_def)
qed

lemma push_step:
  "list_ok s \<Longrightarrow> room s n \<Longrightarrow> 1 \<le> n \<Longrightarrow>
   list_ok (push_back d s) \<and> list_abs (push_back d s) = list_abs s @ [d] \<and> room (push_back d s) (n - 1)"
  using ok_push_back[of s d] room_push[of s "n - 1" d] room_mono[of s n 1] by simp

lemma demo_list_ok: "list_ok demo_list" "room demo_list 1" "list_abs demo_list = [7, 9, 7]"
proof -
  let ?s0 = "(construct_LinkedList, empty_heap)" and ?s1 = "push_back 7 (construct_LinkedList, empty_heap)"
  note s1 = push_step[OF empty_list(1,3), of 7, simplified empty_list(2), simplified]
  note s2 = push_step[OF s1[THEN conjunct1] s1[THEN conjunct2, THEN conjunct2], of 9, simplified]
  note s3 = push_step[OF s2[THEN conjunct1] s2[THEN conjunct2, THEN conjunct2], of 7, simplified]
  show "list_ok demo_list" "room demo_list 1" "list_abs demo_list = [7, 9, 7]"
    using s1 s2 s3 room_mono[of demo_list 997 1] by (simp_all add: demo_list_def)
qed

text \<open>C23: on a well-formed list the pointer operations of linked_list.H are those of a
sequence: \<open>push_back\<close> appends, \<open>push_front\<close> prepends, \<open>pop_front\<close> drops the first item and
\<open>front\<close> reads it (NULL when there is none); each leaves a well-formed list.\<close>

theorem linked_list_is_sequence:
  assumes "list_ok s" "room s 1"
  shows "list_ok (push_back d s) \<and> list_abs (push_back d s) = list_abs s @ [d]
    \<and> list_ok (push_front d s) \<and> list_abs (push_front d s) = d # list_abs s
    \<and> list_ok (pop_front s) \<and> list_abs (pop_front s) = tl (list_abs s)
    \<and> list_front s = (if list_abs s = [] then 0 else hd (list_abs s))"
  using assms by (simp_all add: ok_push_back ok_push_front ok_pop_front ok_front)

theorem linked_list_is_sequence_witness:
  "list_abs (push_back 3 demo_list) = list_abs demo_list @ [3] \<and> list_front demo_list = 7"
  using linked_list_is_sequence[OF demo_list_ok(1,2), of 3] by (simp add: demo_list_ok(3))

text \<open>C25: the loop of \<open>remove(T)\<close>, which frees nodes while it walks over them, ends on every
well-formed list, and leaves a well-formed list without the removed value.\<close>

theorem remove_value_terminates:
  assumes "list_ok s"
  shows "\<exists>s'. remove_value v s = Some s' \<and> list_ok s' \<and> list_abs s' = filter (\<lambda>d. d \<noteq> v) (list_abs s)"
  using ok_remove_value[OF assms] by blast

theorem remove_value_terminates_witness:
  "\<exists>s'. remove_value 7 demo_list = Some s' \<and> list_ok s' \<and> list_abs s' = [9]"
proof -
  show ?thesis using remove_value_terminates[OF demo_list_ok(1), of 7] by (simp add: demo_list_ok(3))
qed

end
