(* ===== verification/LazyFlags.thy ===== *)
theory LazyFlags
  imports Prelude
begin

text \<open>
  The arithmetic flags of the emulated CPU (P1/bochs-2.6.8/cpu/lazy_flags.h and the accessors
  of cpu.h). Instructions store their result and their vector of carries; OF, SF, ZF, AF, PF and
  CF are computed from them when they are asked for. The build has no x86-64 support
  (config.h), so \<open>bx_address\<close> is 32 bits wide. The lemmas say that the flags obtained are the
  architectural ones: CF is the unsigned overflow, OF the signed one, and so on.
\<close>

section \<open>The lazy state\<close>

record lazy_flags =
  lf_result :: u32
  lf_auxbits :: u32

definition LF_MASK_SD :: u32 where "LF_MASK_SD = 0x1"
definition LF_MASK_AF :: u32 where "LF_MASK_AF = 0x8"
definition LF_MASK_PDB :: u32 where "LF_MASK_PDB = 0xFF00"
definition LF_MASK_CF :: u32 where "LF_MASK_CF = 0x80000000"
definition LF_MASK_PO :: u32 where "LF_MASK_PO = 0x40000000"

definition ADD_COUT_VEC :: "u32 \<Rightarrow> u32 \<Rightarrow> u32 \<Rightarrow> u32" where
  "ADD_COUT_VEC op1 op2 res = (op1 AND op2) OR ((op1 OR op2) AND NOT res)"

definition SUB_COUT_VEC :: "u32 \<Rightarrow> u32 \<Rightarrow> u32 \<Rightarrow> u32" where
  "SUB_COUT_VEC op1 op2 res = (NOT op1 AND op2) OR ((NOT op1 XOR op2) AND res)"

text \<open>\<open>(bx_address)(Bit##sz##s)\<close>: the result sign-extended from its sz.\<close>

definition sign_extend :: "nat \<Rightarrow> u32 \<Rightarrow> u32" where
  "sign_extend sz r = (if sz = 8 then scast (ucast r :: u8) else if sz = 16 then scast (ucast r :: u16) else r)"

definition lf_temp :: "nat \<Rightarrow> u32 \<Rightarrow> u32" where
  "lf_temp sz carries =
     (if sz = 32 then carries AND NOT (LF_MASK_PDB OR LF_MASK_SD)
      else if sz = 16 then (carries AND LF_MASK_AF) OR push_bit 16 carries
      else if sz = 8 then (carries AND LF_MASK_AF) OR push_bit 24 carries
      else (carries AND LF_MASK_AF) OR push_bit 30 (drop_bit (sz - 2) carries))"

definition SET_FLAGS_OSZAPC_SIZE :: "nat \<Rightarrow> u32 \<Rightarrow> u32 \<Rightarrow> lazy_flags \<Rightarrow> lazy_flags" where
  "SET_FLAGS_OSZAPC_SIZE sz carries res f =
     f\<lparr>lf_result := sign_extend sz res, lf_auxbits := lf_temp sz carries\<rparr>"

definition SET_FLAGS_OSZAP_SIZE :: "nat \<Rightarrow> u32 \<Rightarrow> u32 \<Rightarrow> lazy_flags \<Rightarrow> lazy_flags" where
  "SET_FLAGS_OSZAP_SIZE sz carries res f =
     (let temp = lf_temp sz carries;
          delta_c = (lf_auxbits f XOR temp) AND LF_MASK_CF;
          delta_c' = delta_c XOR drop_bit 1 delta_c
      in f\<lparr>lf_result := sign_extend sz res, lf_auxbits := temp XOR delta_c'\<rparr>)"

definition SET_FLAGS_OSZAPC_LOGIC :: "nat \<Rightarrow> u32 \<Rightarrow> lazy_flags \<Rightarrow> lazy_flags" where
  "SET_FLAGS_OSZAPC_LOGIC sz res = SET_FLAGS_OSZAPC_SIZE sz 0 res"

definition SET_FLAGS_OSZAPC_ADD :: "nat \<Rightarrow> u32 \<Rightarrow> u32 \<Rightarrow> u32 \<Rightarrow> lazy_flags \<Rightarrow> lazy_flags" where
  "SET_FLAGS_OSZAPC_ADD sz op1 op2 sm = SET_FLAGS_OSZAPC_SIZE sz (ADD_COUT_VEC op1 op2 sm) sm"

definition SET_FLAGS_OSZAPC_SUB :: "nat \<Rightarrow> u32 \<Rightarrow> u32 \<Rightarrow> u32 \<Rightarrow> lazy_flags \<Rightarrow> lazy_flags" where
  "SET_FLAGS_OSZAPC_SUB sz op1 op2 diff = SET_FLAGS_OSZAPC_SIZE sz (SUB_COUT_VEC op1 op2 diff) diff"

definition SET_FLAGS_OSZAP_ADD :: "nat \<Rightarrow> u32 \<Rightarrow> u32 \<Rightarrow> u32 \<Rightarrow> lazy_flags \<Rightarrow> lazy_flags" where
  "SET_FLAGS_OSZAP_ADD sz op1 op2 sm = SET_FLAGS_OSZAP_SIZE sz (ADD_COUT_VEC op1 op2 sm) sm"

definition SET_FLAGS_OSZAP_SUB :: "nat \<Rightarrow> u32 \<Rightarrow> u32 \<Rightarrow> u32 \<Rightarrow> lazy_flags \<Rightarrow> lazy_flags" where
  "SET_FLAGS_OSZAP_SUB sz op1 op2 diff = SET_FLAGS_OSZAP_SIZE sz (SUB_COUT_VEC op1 op2 diff) diff"

section \<open>Reading and writing single flags\<close>

definition getB_ZF :: "lazy_flags \<Rightarrow> bool" where
  "getB_ZF f \<longleftrightarrow> lf_result f = 0"

definition getB_SF :: "lazy_flags \<Rightarrow> bool" where
  "getB_SF f \<longleftrightarrow> (drop_bit 31 (lf_result f) XOR drop_bit 0 (lf_auxbits f)) AND 1 = 1"

definition getB_PF :: "lazy_flags \<Rightarrow> bool" where
  "getB_PF f \<longleftrightarrow>
     (let t0 = 255 AND lf_result f; t1 = t0 XOR (255 AND drop_bit 8 (lf_auxbits f));
          t2 = (t1 XOR drop_bit 4 t1) AND 0x0F
      in drop_bit (unat t2) (0x9669 :: u32) AND 1 = 1)"

definition getB_AF :: "lazy_flags \<Rightarrow> bool" where
  "getB_AF f \<longleftrightarrow> drop_bit 3 (lf_auxbits f) AND 1 = 1"

definition getB_CF :: "lazy_flags \<Rightarrow> bool" where
  "getB_CF f \<longleftrightarrow> drop_bit 31 (lf_auxbits f) AND 1 = 1"

definition getB_OF :: "lazy_flags \<Rightarrow> bool" where
  "getB_OF f \<longleftrightarrow> drop_bit 31 (lf_auxbits f + push_bit 30 1) AND 1 = 1"

definition SET_FLAGS_OxxxxC :: "bool \<Rightarrow> bool \<Rightarrow> lazy_flags \<Rightarrow> lazy_flags" where
  "SET_FLAGS_OxxxxC new_of new_cf f =
     f\<lparr>lf_auxbits := (lf_auxbits f AND NOT (LF_MASK_PO OR LF_MASK_CF))
        OR (push_bit 30 (of_bool (new_of \<noteq> new_cf)) OR push_bit 31 (of_bool new_cf))\<rparr>"

definition clear_ZF :: "lazy_flags \<Rightarrow> lazy_flags" where
  "clear_ZF f = f\<lparr>lf_result := lf_result f OR push_bit 8 1\<rparr>"

definition assert_ZF :: "lazy_flags \<Rightarrow> lazy_flags" where
  "assert_ZF f =
     f\<lparr>lf_result := 0,
       lf_auxbits := lf_auxbits f XOR push_bit 0 (drop_bit 31 (lf_result f) AND 1) XOR push_bit 8 (255 AND lf_result f)\<rparr>"

definition set_ZF :: "bool \<Rightarrow> lazy_flags \<Rightarrow> lazy_flags" where
  "set_ZF v f = (if v then assert_ZF f else clear_ZF f)"

definition set_SF :: "bool \<Rightarrow> lazy_flags \<Rightarrow> lazy_flags" where
  "set_SF v f = f\<lparr>lf_auxbits := lf_auxbits f XOR push_bit 0 (of_bool (getB_SF f \<noteq> v))\<rparr>"

definition set_PF :: "bool \<Rightarrow> lazy_flags \<Rightarrow> lazy_flags" where
  "set_PF v f = f\<lparr>lf_auxbits := (lf_auxbits f AND NOT LF_MASK_PDB)
     OR push_bit 8 ((255 AND lf_result f) XOR of_bool (\<not> v))\<rparr>"

definition set_AF :: "bool \<Rightarrow> lazy_flags \<Rightarrow> lazy_flags" where
  "set_AF v f = f\<lparr>lf_auxbits := (lf_auxbits f AND NOT LF_MASK_AF) OR push_bit 3 (of_bool v)\<rparr>"

definition set_CF :: "bool \<Rightarrow> lazy_flags \<Rightarrow> lazy_flags" where
  "set_CF v f = SET_FLAGS_OxxxxC (getB_OF f) v f"

definition set_OF :: "bool \<Rightarrow> lazy_flags \<Rightarrow> lazy_flags" where
  "set_OF v f = SET_FLAGS_OxxxxC v (getB_CF f) f"

definition setEFlagsOSZAPC :: "u32 \<Rightarrow> lazy_flags \<Rightarrow> lazy_flags" where
  "setEFlagsOSZAPC flags32 f =
     set_CF (bit flags32 0) (set_PF (bit flags32 2) (set_AF (bit flags32 4)
       (set_ZF (bit flags32 6) (set_SF (bit flags32 7) (set_OF (bit flags32 11) f)))))"

section \<open>Flags as bits of the lazy state\<close>

lemma single_bit: "k < 32 \<Longrightarrow> m = push_bit k 1 \<Longrightarrow> bit (m :: u32) i \<longleftrightarrow> i = k"
  by (auto simp: bit_simps)

lemma bit_push_of_bool: "k < 32 \<Longrightarrow> bit (push_bit k (of_bool b) :: u32) i \<longleftrightarrow> i = k \<and> b"
  by (auto simp: bit_simps)

lemma and_1_bit: "(w :: u32) AND 1 = 1 \<longleftrightarrow> bit w 0"
  by (simp add: and_one_eq bit_0 odd_iff_mod_2_eq_one)

lemma CF_bit: "getB_CF f \<longleftrightarrow> bit (lf_auxbits f) 31"
  by (simp add: getB_CF_def and_1_bit bit_drop_bit_eq)

lemma AF_bit: "getB_AF f \<longleftrightarrow> bit (lf_auxbits f) 3"
  by (simp add: getB_AF_def and_1_bit bit_drop_bit_eq)

lemma SF_bit: "getB_SF f \<longleftrightarrow> bit (lf_result f) 31 \<noteq> bit (lf_auxbits f) 0"
  by (simp add: getB_SF_def and_1_bit bit_drop_bit_eq bit_xor_iff)

section \<open>Carries\<close>

text \<open>\<open>carry a b c i\<close>: the carry into bit \<open>i\<close> when \<open>a\<close>, \<open>b\<close> and the bit \<open>c\<close> are added.\<close>

definition carry :: "nat \<Rightarrow> nat \<Rightarrow> nat \<Rightarrow> nat \<Rightarrow> bool" where
  "carry a b c i \<longleftrightarrow> 2 ^ i \<le> a mod 2 ^ i + b mod 2 ^ i + c"

lemma mod_Suc_bit: "(a :: nat) mod 2 ^ Suc i = a mod 2 ^ i + 2 ^ i * of_bool (bit a i)"
proof -
  have "a mod (2 ^ i * 2) = 2 ^ i * (a div 2 ^ i mod 2) + a mod 2 ^ i" by (rule mod_mult2_eq)
  moreover have "a div 2 ^ i mod 2 = of_bool (bit a i)" by (simp add: bit_iff_odd mod_2_eq_odd)
  ultimately show ?thesis by (simp add: mult.commute)
qed

lemma carry_Suc:
  assumes "c \<le> 1"
  shows "carry a b c (Suc i) \<longleftrightarrow> bit a i \<and> bit b i \<or> (bit a i \<or> bit b i) \<and> carry a b c i"
proof -
  have "a mod 2 ^ i < 2 ^ i" "b mod 2 ^ i < 2 ^ i" by simp_all
  then have "a mod 2 ^ i + b mod 2 ^ i + c < 2 * 2 ^ i" using assms by linarith
  then show ?thesis unfolding carry_def mod_Suc_bit
    by (cases "bit a i"; cases "bit b i"; simp; linarith)
qed

lemma bit_add_carry:
  assumes "c \<le> 1"
  shows "bit (a + b + c) i \<longleftrightarrow> (bit a i \<noteq> bit b i) \<noteq> carry a b c i"
proof -
  let ?r = "a mod 2 ^ i + b mod 2 ^ i + c"
  have "a mod 2 ^ i < 2 ^ i" "b mod 2 ^ i < 2 ^ i" by simp_all
  then have lt: "?r < 2 * 2 ^ i" using assms by linarith
  have "a + b + c = 2 ^ i * (a div 2 ^ i + b div 2 ^ i) + ?r"
    using mult_div_mod_eq[of "2 ^ i" a] mult_div_mod_eq[of "2 ^ i" b] by (simp add: algebra_simps)
  then have "(a + b + c) div 2 ^ i = a div 2 ^ i + b div 2 ^ i + ?r div 2 ^ i" by (simp only: div_mult_self4) simp
  moreover have "?r div 2 ^ i = of_bool (carry a b c i)"
  proof (cases "2 ^ i \<le> ?r")
    case True
    then have "(?r - 2 ^ i) div 2 ^ i = 0" using lt by simp
    then show ?thesis using True by (simp add: carry_def le_div_geq)
  next
    case False
    then show ?thesis by (simp add: carry_def)
  qed
  ultimately show ?thesis by (auto simp: bit_iff_odd)
qed

lemma bit_unat: "bit (unat (w :: 'a :: len word)) i \<longleftrightarrow> bit w i"
  by (simp add: bit_unsigned_iff)

lemma unat_add_c: "unat (x + y + of_bool c :: 'a :: len word) = (unat x + unat y + of_bool c) mod 2 ^ LENGTH('a)"
  by (cases c) (simp_all add: unat_word_ariths mod_simps)

lemma bit_word_add:
  "i < LENGTH('a) \<Longrightarrow> bit (x + y + of_bool c :: 'a :: len word) i
     \<longleftrightarrow> (bit x i \<noteq> bit y i) \<noteq> carry (unat x) (unat y) (of_bool c) i"
  using bit_add_carry[of "of_bool c" "unat x" "unat y" i]
  by (simp add: bit_unat[symmetric] unat_add_c take_bit_eq_mod[symmetric] bit_take_bit_iff)

lemma cout_carry:
  assumes "i < LENGTH('a)"
  shows "bit x i \<and> bit y i \<or> (bit x i \<or> bit y i) \<and> \<not> bit (x + y + of_bool c :: 'a :: len word) i
     \<longleftrightarrow> carry (unat x) (unat y) (of_bool c) (Suc i)"
  using bit_word_add[OF assms, of x y c] carry_Suc[of "of_bool c" "unat x" "unat y" i] by (auto simp: bit_unat)

lemma carry_top: "carry (unat x) (unat y) c LENGTH('a) \<longleftrightarrow> 2 ^ LENGTH('a) \<le> unat x + unat y + c"
  for x y :: "'a :: len word"
  by (simp add: carry_def)

lemma sint_by_top: "sint (w :: 'a :: len word) = int (unat w) - 2 ^ LENGTH('a) * of_bool (bit w (LENGTH('a) - 1))"
proof -
  have "sint w = signed_take_bit (LENGTH('a) - 1) (uint w)" by (simp add: sint_uint)
  also have "\<dots> = uint w - 2 ^ LENGTH('a) * of_bool (bit w (LENGTH('a) - 1))"
  proof -
    have "take_bit (Suc (LENGTH('a) - 1)) (uint w) = uint w" by (simp add: take_bit_int_eq_self_iff)
    moreover have "bit (uint w) (LENGTH('a) - 1) = bit w (LENGTH('a) - 1)" by (simp add: bit_uint_iff)
    ultimately show ?thesis by (simp add: signed_take_bit_eq_take_bit_minus)
  qed
  finally show ?thesis by simp
qed

text \<open>Signed overflow: the carries into and out of the top bit differ.\<close>

lemma overflow_carries:
  fixes x y :: "'a :: len word"
  shows "sint (x + y + of_bool c) \<noteq> sint x + sint y + of_bool c
    \<longleftrightarrow> carry (unat x) (unat y) (of_bool c) LENGTH('a) \<noteq> carry (unat x) (unat y) (of_bool c) (LENGTH('a) - 1)"
proof -
  let ?n = "LENGTH('a)" and ?s = "x + y + of_bool c"
  define cy where "cy = carry (unat x) (unat y) (of_bool c)"
  have n: "Suc (?n - 1) = ?n" by simp
  have tb: "bit ?s (?n - 1) \<longleftrightarrow> (bit x (?n - 1) \<noteq> bit y (?n - 1)) \<noteq> cy (?n - 1)"
    unfolding cy_def by (rule bit_word_add) simp
  have co: "cy ?n \<longleftrightarrow> bit x (?n - 1) \<and> bit y (?n - 1) \<or> (bit x (?n - 1) \<or> bit y (?n - 1)) \<and> cy (?n - 1)"
    using carry_Suc[of "of_bool c" "unat x" "unat y" "?n - 1"] by (simp add: cy_def bit_unat)
  have us: "int (unat ?s) = int (unat x) + int (unat y) + of_bool c - 2 ^ ?n * of_bool (cy ?n)"
  proof -
    have "unat x < 2 ^ ?n" "unat y < 2 ^ ?n" by (rule unsigned_less)+
    moreover have "of_bool c \<le> (1 :: nat)" by simp
    ultimately have lt: "unat x + unat y + of_bool c < 2 * 2 ^ ?n" by linarith
    show ?thesis
    proof (cases "cy ?n")
      case True
      then have ge: "2 ^ ?n \<le> unat x + unat y + of_bool c" by (simp add: cy_def carry_top)
      then have "unat ?s = unat x + unat y + of_bool c - 2 ^ ?n"
        using lt unfolding unat_add_c by (simp add: mod_if le_mod_geq)
      then show ?thesis using True ge by (simp add: of_nat_diff)
    next
      case False
      then show ?thesis unfolding unat_add_c by (simp add: cy_def carry_top)
    qed
  qed
  have p: "(2 :: int) ^ ?n \<noteq> 0" by simp
  show ?thesis unfolding sint_by_top[of ?s] sint_by_top[of x] sint_by_top[of y] us cy_def[symmetric] tb
    using co by (cases "bit x (?n - 1)"; cases "bit y (?n - 1)"; cases "cy (?n - 1)"; cases "cy ?n"; simp)
qed

section \<open>The flags the lazy state stands for\<close>

record arith_flags =
  CF :: bool
  PF :: bool
  AF :: bool
  ZF :: bool
  SF :: bool
  OF :: bool

definition flags_of :: "lazy_flags \<Rightarrow> arith_flags" where
  "flags_of f = \<lparr>CF = getB_CF f, PF = getB_PF f, AF = getB_AF f, ZF = getB_ZF f, SF = getB_SF f, OF = getB_OF f\<rparr>"

text \<open>Even parity of the low byte.\<close>

definition parity8 :: "'a :: len word \<Rightarrow> bool" where
  "parity8 w \<longleftrightarrow> even (length (filter (bit w) [0..<8]))"

text \<open>The architecture's flags of an addition with carry, a subtraction with borrow and a
bitwise operation.\<close>

definition add_flags :: "'a :: len word \<Rightarrow> 'a word \<Rightarrow> bool \<Rightarrow> arith_flags" where
  "add_flags x y c = (let s = x + y + of_bool c in
     \<lparr>CF = 2 ^ LENGTH('a) \<le> unat x + unat y + of_bool c, PF = parity8 s,
      AF = 16 \<le> unat x mod 16 + unat y mod 16 + of_bool c, ZF = s = 0, SF = sint s < 0,
      OF = sint s \<noteq> sint x + sint y + of_bool c\<rparr>)"

definition sub_flags :: "'a :: len word \<Rightarrow> 'a word \<Rightarrow> bool \<Rightarrow> arith_flags" where
  "sub_flags x y c = (let d = x - y - of_bool c in
     \<lparr>CF = unat x < unat y + of_bool c, PF = parity8 d,
      AF = unat x mod 16 < unat y mod 16 + of_bool c, ZF = d = 0, SF = sint d < 0,
      OF = sint d \<noteq> sint x - sint y - of_bool c\<rparr>)"

definition logic_flags :: "'a :: len word \<Rightarrow> arith_flags" where
  "logic_flags r = \<lparr>CF = False, PF = parity8 r, AF = False, ZF = r = 0, SF = sint r < 0, OF = False\<rparr>"

lemma OF_bit: "getB_OF f \<longleftrightarrow> bit (lf_auxbits f) 31 \<noteq> bit (lf_auxbits f) 30"
proof -
  have p: "push_bit 30 1 = (0x40000000 :: u32)" by (simp add: push_bit_eq_mult)
  have c0: "\<not> carry a b 0 0" for a b by (simp add: carry_def)
  obtain k where k: "k = unat (0x40000000 :: u32)" by blast
  then have "k = 2 ^ 30" by simp
  then have z: "bit k i \<longleftrightarrow> i = 30" for i by (simp only: bit_exp_iff) simp
  have nc: "i \<le> 30 \<Longrightarrow> \<not> carry (unat (lf_auxbits f)) k 0 i" for i
    by (induction i) (simp_all add: c0 carry_Suc z)
  have "carry (unat (lf_auxbits f)) k 0 31 \<longleftrightarrow> bit (lf_auxbits f) 30"
    using carry_Suc[of 0 "unat (lf_auxbits f)" k 30] nc[of 30] z[of 30] by (simp add: bit_unat)
  moreover have "\<not> bit (0x40000000 :: u32) 31" using z[of 31] bit_unat[of "0x40000000 :: u32" 31] by (simp add: k)
  ultimately have "bit (lf_auxbits f + 0x40000000) 31 \<longleftrightarrow> bit (lf_auxbits f) 31 \<noteq> bit (lf_auxbits f) 30"
    using bit_word_add[of 31 "lf_auxbits f" "0x40000000" False, folded k] by simp
  then show ?thesis by (simp add: getB_OF_def and_1_bit bit_drop_bit_eq p)
qed

lemma parity_table:
  assumes "unat (w :: u32) < 16"
  shows "drop_bit (unat w) (0x9669 :: u32) AND 1 = 1 \<longleftrightarrow> ((bit w 0 = bit w 1) = (bit w 2 = bit w 3))"
proof -
  have "w = of_nat (unat w)" by simp
  moreover have "n < 16 \<Longrightarrow> n = 0 \<or> n = 1 \<or> n = 2 \<or> n = 3 \<or> n = 4 \<or> n = 5 \<or> n = 6 \<or> n = 7 \<or> n = 8
    \<or> n = 9 \<or> n = 10 \<or> n = 11 \<or> n = 12 \<or> n = 13 \<or> n = 14 \<or> n = 15" for n :: nat by presburger
  from this[OF assms] have "unat w \<in> {0,1,2,3,4,5,6,7,8,9,10,11,12,13,14,15}" by simp
  ultimately show ?thesis by (elim insertE emptyE) (simp_all add: bit_numeral_word_iff)
qed

lemma PF_parity: "getB_PF f \<longleftrightarrow> parity8 (lf_result f XOR drop_bit 8 (lf_auxbits f))"
proof -
  let ?r = "lf_result f" and ?d = "drop_bit 8 (lf_auxbits f)"
  obtain u where u: "u = (255 AND ?r) XOR (255 AND ?d)" by blast
  let ?t2 = "(u XOR drop_bit 4 u) AND 0x0F"
  have m: "(255 :: u32) = mask 8" "(0x0F :: u32) = mask 4" by (simp_all add: mask_eq_exp_minus_1)
  have t1: "bit u i \<longleftrightarrow> i < 8 \<and> bit (?r XOR ?d) i" for i
    unfolding u m by (auto simp: bit_and_iff bit_xor_iff bit_mask_iff)
  have t2: "bit ?t2 i \<longleftrightarrow> (bit (?r XOR ?d) i \<noteq> bit (?r XOR ?d) (i + 4))" if "i < 4" for i
    using that unfolding m(2) by (simp add: bit_and_iff bit_xor_iff[of u] bit_drop_bit_eq[of 4 u] t1 bit_mask_iff add.commute)
  have "unat ?t2 < 16"
    unfolding m(2) by (simp only: unat_and_mask) simp
  then have "getB_PF f \<longleftrightarrow> ((bit ?t2 0 = bit ?t2 1) = (bit ?t2 2 = bit ?t2 3))"
    unfolding getB_PF_def Let_def u by (rule parity_table)
  also have "\<dots> \<longleftrightarrow> parity8 (?r XOR ?d)"
  proof -
    have "[0..<8] = [0, 1, 2, 3, 4, 5, 6, 7 :: nat]" by (simp add: upt_rec)
    then show ?thesis using t2[of 0] t2[of 1] t2[of 2] t2[of 3] by (simp add: parity8_def)
  qed
  finally show ?thesis .
qed

lemma parity8_cong: "(\<And>i. i < 8 \<Longrightarrow> bit v i = bit w i) \<Longrightarrow> parity8 v = parity8 w"
proof -
  assume "\<And>i. i < 8 \<Longrightarrow> bit v i = bit w i"
  then have "filter (bit v) [0..<8] = filter (bit w) [0..<8]" by (intro filter_cong) auto
  then show ?thesis by (simp add: parity8_def)
qed

lemma PF_bits:
  assumes "\<And>i. 8 \<le> i \<Longrightarrow> i < 16 \<Longrightarrow> \<not> bit (lf_auxbits f) i"
  shows "getB_PF f \<longleftrightarrow> parity8 (lf_result f)"
  unfolding PF_parity using assms by (intro parity8_cong) (simp add: bit_xor_iff bit_drop_bit_eq)

section \<open>The lazy flags are the architecture's\<close>

lemma temp_bits:
  assumes "n = 8 \<or> n = 16 \<or> n = 32"
  shows "bit (lf_temp n v) 31 \<longleftrightarrow> bit v (n - 1)" "bit (lf_temp n v) 30 \<longleftrightarrow> bit v (n - 2)"
    "bit (lf_temp n v) 3 \<longleftrightarrow> bit v 3" "\<not> bit (lf_temp n v) 0"
    "8 \<le> i \<Longrightarrow> i < 16 \<Longrightarrow> \<not> bit (lf_temp n v) i"
proof -
  have m: "(0xFF00 :: u32) = push_bit 8 (mask 8)" "(0x8 :: u32) = push_bit 3 (mask 1)" "(0x1 :: u32) = mask 1"
    by (simp_all add: mask_eq_exp_minus_1 push_bit_eq_mult)
  have "bit (2 ^ k :: int) i \<longleftrightarrow> i = k" for k i by (auto simp: bit_exp_iff)
  from this[of 3] have b8: "bit (8 :: int) i \<longleftrightarrow> i = 3" for i by simp
  have b: "bit (lf_temp n v) i \<longleftrightarrow> i < 32 \<and> (if n = 32 then bit v i \<and> \<not> (8 \<le> i \<and> i < 16) \<and> i \<noteq> 0
      else bit v i \<and> i = 3 \<or> (32 - n) \<le> i \<and> bit v (i - (32 - n)))" for i
    using assms unfolding lf_temp_def LF_MASK_PDB_def LF_MASK_SD_def LF_MASK_AF_def m
    by (auto simp: bit_simps b8 dest: bit_imp_le_length)
  show "bit (lf_temp n v) 31 \<longleftrightarrow> bit v (n - 1)" "bit (lf_temp n v) 30 \<longleftrightarrow> bit v (n - 2)"
    "bit (lf_temp n v) 3 \<longleftrightarrow> bit v 3" "\<not> bit (lf_temp n v) 0" "8 \<le> i \<Longrightarrow> i < 16 \<Longrightarrow> \<not> bit (lf_temp n v) i"
    using assms by (auto simp: b)
qed

lemma bit_sign_extend:
  fixes s :: "'a :: len word"
  assumes "LENGTH('a) = 8 \<or> LENGTH('a) = 16 \<or> LENGTH('a) = 32" "i < 32"
  shows "bit (sign_extend LENGTH('a) (ucast s)) i \<longleftrightarrow> bit s (min i (LENGTH('a) - 1))"
  using assms by (cases "i < LENGTH('a) - 1"; cases "i = LENGTH('a) - 1")
    (auto simp: sign_extend_def bit_simps min_def dest: bit_imp_le_length)

lemma flags_of_carries:
  fixes s :: "'a :: len word"
  assumes n: "LENGTH('a) = 8 \<or> LENGTH('a) = 16 \<or> LENGTH('a) = 32"
  shows "flags_of \<lparr>lf_result = sign_extend LENGTH('a) (ucast s), lf_auxbits = lf_temp LENGTH('a) v\<rparr> =
    \<lparr>CF = bit v (LENGTH('a) - 1), PF = parity8 s, AF = bit v 3, ZF = s = 0, SF = sint s < 0,
     OF = bit v (LENGTH('a) - 1) \<noteq> bit v (LENGTH('a) - 2)\<rparr>"
proof -
  let ?f = "\<lparr>lf_result = sign_extend LENGTH('a) (ucast s), lf_auxbits = lf_temp LENGTH('a) v\<rparr>"
  note b = bit_sign_extend[OF n, of _ s]
  have z: "sign_extend LENGTH('a) (ucast s) = 0 \<longleftrightarrow> s = 0"
  proof
    assume r: "sign_extend LENGTH('a) (ucast s) = 0"
    show "s = 0"
    proof (rule bit_word_eqI)
      fix i assume "i < LENGTH('a)"
      then show "bit s i = bit 0 i" using b[of i] r n by (auto simp: min_def split: if_splits)
    qed
  next
    assume s: "s = 0"
    show "sign_extend LENGTH('a) (ucast s) = 0"
      by (rule bit_word_eqI) (use b s in auto)
  qed
  have sf: "sint s < 0 \<longleftrightarrow> bit s (LENGTH('a) - 1)"
    using sint_by_top[of s] unsigned_less[of s] by (cases "bit s (LENGTH('a) - 1)") (simp_all add: of_nat_less_iff[symmetric, where 'a = int] del: of_nat_less_iff)
  have pf: "parity8 (sign_extend LENGTH('a) (ucast s)) \<longleftrightarrow> parity8 s"
    by (rule parity8_cong) (use b n in \<open>auto simp: min_def\<close>)
  have "getB_PF ?f \<longleftrightarrow> parity8 s" using PF_bits[of ?f] temp_bits(5)[OF n] pf by simp
  then show ?thesis
    using b[of 31] n by (auto simp: flags_of_def CF_bit OF_bit AF_bit SF_bit getB_ZF_def z sf temp_bits[OF n] min_def)
qed

lemma add_cout_bit:
  fixes x y :: "'a :: len word"
  assumes "i < LENGTH('a)" "LENGTH('a) \<le> 32"
  shows "bit (ADD_COUT_VEC (ucast x) (ucast y) (ucast (x + y + of_bool c))) i
     \<longleftrightarrow> carry (unat x) (unat y) (of_bool c) (Suc i)"
  using cout_carry[OF assms(1), of x y c] assms
  by (auto simp: ADD_COUT_VEC_def bit_simps)

lemma sub_cout_bit:
  fixes x y :: "'a :: len word"
  assumes "i < LENGTH('a)" "LENGTH('a) \<le> 32"
  shows "bit (SUB_COUT_VEC (ucast x) (ucast y) (ucast (x - y - of_bool c))) i
     \<longleftrightarrow> \<not> carry (unat x) (unat (NOT y)) (of_bool (\<not> c)) (Suc i)"
proof -
  obtain d where d: "d = x - y - of_bool c" by blast
  have "d = x + NOT y + of_bool (\<not> c)" by (cases c) (simp_all add: not_eq_complement d)
  then show ?thesis
    using cout_carry[OF assms(1), of x "NOT y" "\<not> c"] assms unfolding d[symmetric]
    by (auto simp: SUB_COUT_VEC_def bit_simps)
qed

text \<open>The flags after an instruction are those of the exact sum or difference.\<close>

lemma carry_4: "carry a b c 4 \<longleftrightarrow> 16 \<le> a mod 16 + b mod 16 + c"
  by (simp add: carry_def)

lemma OSZAPC_ADD_flags:
  fixes x y :: "'a :: len word"
  assumes n: "LENGTH('a) = 8 \<or> LENGTH('a) = 16 \<or> LENGTH('a) = 32"
  shows "flags_of (SET_FLAGS_OSZAPC_ADD LENGTH('a) (ucast x) (ucast y) (ucast (x + y + of_bool c)) f) = add_flags x y c"
proof -
  let ?s = "x + y + of_bool c"
  let ?v = "ADD_COUT_VEC (ucast x) (ucast y) (ucast ?s)"
  have b: "bit ?v i \<longleftrightarrow> carry (unat x) (unat y) (of_bool c) (Suc i)" if "i < LENGTH('a)" for i
    using add_cout_bit[OF that, of x y c] n by linarith
  have i: "LENGTH('a) - 1 < LENGTH('a)" "Suc (LENGTH('a) - 1) = LENGTH('a)"
    "LENGTH('a) - 2 < LENGTH('a)" "Suc (LENGTH('a) - 2) = LENGTH('a) - 1" "3 < LENGTH('a)" "Suc 3 = 4" using n by auto
  have "SET_FLAGS_OSZAPC_ADD LENGTH('a) (ucast x) (ucast y) (ucast ?s) f
    = \<lparr>lf_result = sign_extend LENGTH('a) (ucast ?s), lf_auxbits = lf_temp LENGTH('a) ?v\<rparr>"
    by (simp add: SET_FLAGS_OSZAPC_ADD_def SET_FLAGS_OSZAPC_SIZE_def)
  then show ?thesis
    unfolding add_flags_def Let_def overflow_carries[of x y c]
    by (simp only: flags_of_carries[OF n] b[OF i(1)] b[OF i(3)] b[OF i(5)] i(2,4,6) carry_top carry_4)
qed

lemma unat_not_word: "unat (NOT y :: 'a :: len word) = 2 ^ LENGTH('a) - 1 - unat y"
proof -
  have m: "unat (- 1 :: 'a word) = 2 ^ LENGTH('a) - 1" by (simp add: unsigned_minus_1_eq_mask mask_eq_exp_minus_1)
  have "y \<le> - 1" by simp
  then have "unat (- 1 - y) = unat (- 1 :: 'a word) - unat y" by (rule unat_sub)
  moreover have "NOT y = - 1 - y" by (simp add: not_eq_complement)
  ultimately show ?thesis using m by simp
qed

lemma sub_carry:
  fixes x y :: "'a :: len word"
  assumes "k \<le> LENGTH('a)"
  shows "\<not> carry (unat x) (unat (NOT y)) (of_bool (\<not> c)) k \<longleftrightarrow> unat x mod 2 ^ k < unat y mod 2 ^ k + of_bool c"
proof -
  let ?Y = "unat y" and ?n = "LENGTH('a)"
  have r: "?Y mod 2 ^ k < 2 ^ k" by simp
  have p: "(2 :: nat) ^ ?n = 2 ^ (?n - k) * 2 ^ k" using assms by (simp add: power_add[symmetric])
  obtain q r where q: "q = ?Y div 2 ^ k" and rr: "r = ?Y mod 2 ^ k" by blast
  have Y: "?Y = q * 2 ^ k + r" unfolding q rr by (rule div_mult_mod_eq[symmetric])
  have "?Y < 2 ^ ?n" by (rule unsigned_less)
  then have "q < 2 ^ (?n - k)" unfolding p q by (simp add: less_mult_imp_div_less)
  then obtain d where "2 ^ (?n - k) = q + d + 1" by (metis less_iff_Suc_add Suc_eq_plus1)
  then have "2 ^ ?n - 1 - ?Y = d * 2 ^ k + (2 ^ k - 1 - r)"
  proof -
    have "r < 2 ^ k" using r rr by simp
    then show ?thesis unfolding p Y \<open>2 ^ (?n - k) = q + d + 1\<close> by (simp add: algebra_simps)
  qed
  then have "unat (NOT y) mod 2 ^ k = 2 ^ k - 1 - ?Y mod 2 ^ k" by (simp add: unat_not_word rr)
  moreover have "unat x mod 2 ^ k < 2 ^ k" by simp
  ultimately show ?thesis using r unfolding carry_def by (cases c; simp only: of_bool_eq not_True_eq_False not_False_eq_True; linarith)
qed

lemma sint_not: "sint (NOT y :: 'a :: len word) = - 1 - sint y"
proof -
  have "unat y < 2 ^ LENGTH('a)" by (rule unsigned_less)
  then have y': "unat y \<le> 2 ^ LENGTH('a) - 1" by linarith
  have "int (unat (NOT y)) = 2 ^ LENGTH('a) - 1 - int (unat y)" using y' 
    unfolding unat_not_word by (subst of_nat_diff) (auto simp: Suc_le_eq)
  moreover have "bit (NOT y) (LENGTH('a) - 1) \<longleftrightarrow> \<not> bit y (LENGTH('a) - 1)" by (simp add: bit_not_iff)
  ultimately show ?thesis by (simp add: sint_by_top)
qed

lemma OSZAPC_SUB_flags:
  fixes x y :: "'a :: len word"
  assumes n: "LENGTH('a) = 8 \<or> LENGTH('a) = 16 \<or> LENGTH('a) = 32"
  shows "flags_of (SET_FLAGS_OSZAPC_SUB LENGTH('a) (ucast x) (ucast y) (ucast (x - y - of_bool c)) f) = sub_flags x y c"
proof -
  obtain d where d: "d = x - y - of_bool c" by blast
  let ?v = "SUB_COUT_VEC (ucast x) (ucast y) (ucast d)"
  have dn: "d = x + NOT y + of_bool (\<not> c)" by (cases c) (simp_all add: not_eq_complement d)
  have b: "bit ?v i \<longleftrightarrow> \<not> carry (unat x) (unat (NOT y)) (of_bool (\<not> c)) (Suc i)" if "i < LENGTH('a)" for i
    using sub_cout_bit[OF that, of x y c] n unfolding d by linarith
  have i: "LENGTH('a) - 1 < LENGTH('a)" "Suc (LENGTH('a) - 1) = LENGTH('a)"
    "LENGTH('a) - 2 < LENGTH('a)" "Suc (LENGTH('a) - 2) = LENGTH('a) - 1" "3 < LENGTH('a)" "Suc 3 = 4" "4 \<le> LENGTH('a)" using n by auto
  have s: "sint x - sint y - of_bool c = sint x + sint (NOT y) + of_bool (\<not> c)" by (cases c) (simp_all add: sint_not)
  have cf: "\<not> carry (unat x) (unat (NOT y)) (of_bool (\<not> c)) LENGTH('a) \<longleftrightarrow> unat x < unat y + of_bool c"
    using sub_carry[of "LENGTH('a)" x y c] by simp
  have af: "\<not> carry (unat x) (unat (NOT y)) (of_bool (\<not> c)) 4 \<longleftrightarrow> unat x mod 16 < unat y mod 16 + of_bool c"
    using sub_carry[OF i(7), of x y c] by simp
  have ov: "sint d \<noteq> sint x - sint y - of_bool c \<longleftrightarrow>
     (\<not> carry (unat x) (unat (NOT y)) (of_bool (\<not> c)) LENGTH('a)) \<noteq> (\<not> carry (unat x) (unat (NOT y)) (of_bool (\<not> c)) (LENGTH('a) - 1))"
    using overflow_carries[of x "NOT y" "\<not> c"] unfolding s dn by blast
  have "SET_FLAGS_OSZAPC_SUB LENGTH('a) (ucast x) (ucast y) (ucast d) f
    = \<lparr>lf_result = sign_extend LENGTH('a) (ucast d), lf_auxbits = lf_temp LENGTH('a) ?v\<rparr>"
    by (simp add: SET_FLAGS_OSZAPC_SUB_def SET_FLAGS_OSZAPC_SIZE_def)
  then show ?thesis
    unfolding sub_flags_def Let_def d[symmetric] ov
    by (simp only: flags_of_carries[OF n] b[OF i(1)] b[OF i(3)] b[OF i(5)] i(2,4,6) cf[symmetric] af[symmetric])
qed

lemma OSZAPC_LOGIC_flags:
  fixes r :: "'a :: len word"
  assumes n: "LENGTH('a) = 8 \<or> LENGTH('a) = 16 \<or> LENGTH('a) = 32"
  shows "flags_of (SET_FLAGS_OSZAPC_LOGIC LENGTH('a) (ucast r) f) = logic_flags r"
proof -
  have "SET_FLAGS_OSZAPC_LOGIC LENGTH('a) (ucast r) f
    = \<lparr>lf_result = sign_extend LENGTH('a) (ucast r), lf_auxbits = lf_temp LENGTH('a) 0\<rparr>"
    by (simp add: SET_FLAGS_OSZAPC_LOGIC_def SET_FLAGS_OSZAPC_SIZE_def)
  then show ?thesis by (simp add: flags_of_carries[OF n] logic_flags_def)
qed

text \<open>INC and DEC keep CF and set the other flags.\<close>

lemma OSZAP_of_OSZAPC:
  "flags_of (SET_FLAGS_OSZAP_SIZE n v r f) = (flags_of (SET_FLAGS_OSZAPC_SIZE n v r f))\<lparr>CF := getB_CF f\<rparr>"
proof -
  let ?t = "lf_temp n v" and ?g = "SET_FLAGS_OSZAP_SIZE n v r f"
  have m: "bit LF_MASK_CF i \<longleftrightarrow> i = 31" for i
    by (rule single_bit) (simp_all add: LF_MASK_CF_def push_bit_eq_mult)
  have b: "bit (lf_auxbits ?g) i \<longleftrightarrow> (if i = 31 then bit (lf_auxbits f) 31
      else if i = 30 then (bit ?t 30 \<noteq> (bit (lf_auxbits f) 31 \<noteq> bit ?t 31)) else bit ?t i)" if "i < 32" for i
    using that unfolding SET_FLAGS_OSZAP_SIZE_def Let_def by (auto simp: bit_simps m)
  have r: "lf_result ?g = sign_extend n r" by (simp add: SET_FLAGS_OSZAP_SIZE_def Let_def)
  have "255 AND drop_bit 8 (lf_auxbits ?g) = 255 AND drop_bit 8 ?t"
  proof (rule bit_word_eqI)
    have m8: "(255 :: u32) = mask 8" by (simp add: mask_eq_exp_minus_1)
    fix i assume "i < LENGTH(32)"
    then show "bit (255 AND drop_bit 8 (lf_auxbits ?g)) i = bit (255 AND drop_bit 8 ?t) i"
      unfolding m8 by (auto simp: bit_and_iff bit_mask_iff bit_drop_bit_eq b)
  qed
  then show ?thesis
    using b[of 31] b[of 30] b[of 3] b[of 0] r
    by (auto simp: flags_of_def CF_bit OF_bit AF_bit SF_bit getB_ZF_def getB_PF_def SET_FLAGS_OSZAPC_SIZE_def)
qed

text \<open>Writing one flag leaves the others as they are.\<close>

lemma LF_mask_bits:
  "bit LF_MASK_CF i \<longleftrightarrow> i = 31" "bit LF_MASK_PO i \<longleftrightarrow> i = 30" "bit LF_MASK_AF i \<longleftrightarrow> i = 3"
  "bit LF_MASK_PDB i \<longleftrightarrow> 8 \<le> i \<and> i < 16"
proof -
  show "bit LF_MASK_CF i \<longleftrightarrow> i = 31" by (rule single_bit) (simp_all add: LF_MASK_CF_def push_bit_eq_mult)
  show "bit LF_MASK_PO i \<longleftrightarrow> i = 30" by (rule single_bit) (simp_all add: LF_MASK_PO_def push_bit_eq_mult)
  show "bit LF_MASK_AF i \<longleftrightarrow> i = 3" by (rule single_bit) (simp_all add: LF_MASK_AF_def push_bit_eq_mult)
  have m: "LF_MASK_PDB = push_bit 8 (mask 8)" by (simp add: LF_MASK_PDB_def mask_eq_exp_minus_1 push_bit_eq_mult)
  show "bit LF_MASK_PDB i \<longleftrightarrow> 8 \<le> i \<and> i < 16" unfolding m by (auto simp: bit_push_bit_iff bit_mask_iff)
qed

lemma flags_of_eqI:
  assumes "getB_CF g = CF v" "getB_PF g = PF v" "getB_AF g = AF v" "getB_ZF g = ZF v" "getB_SF g = SF v" "getB_OF g = OF v"
  shows "flags_of g = v"
  using assms by (cases v) (simp add: flags_of_def)

lemma OxxxxC_flags: "flags_of (SET_FLAGS_OxxxxC ov cy f) = (flags_of f)\<lparr>CF := cy, OF := ov\<rparr>"
proof -
  let ?g = "SET_FLAGS_OxxxxC ov cy f"
  have b: "bit (lf_auxbits ?g) i \<longleftrightarrow> (if i = 31 then cy else if i = 30 then ov \<noteq> cy else bit (lf_auxbits f) i)"
    if "i < 32" for i
    using that by (auto simp: SET_FLAGS_OxxxxC_def bit_or_iff bit_and_iff bit_not_iff LF_mask_bits bit_push_of_bool)
  have r: "lf_result ?g = lf_result f" by (simp add: SET_FLAGS_OxxxxC_def)
  have "getB_PF ?g = getB_PF f"
    unfolding PF_parity r by (rule parity8_cong) (simp add: bit_xor_iff bit_drop_bit_eq b)
  then show ?thesis
    by (intro flags_of_eqI) (auto simp: flags_of_def CF_bit OF_bit AF_bit SF_bit getB_ZF_def b r)
qed

lemma set_CF_flags: "flags_of (set_CF v f) = (flags_of f)\<lparr>CF := v\<rparr>"
  by (simp add: set_CF_def OxxxxC_flags) (simp add: flags_of_def)

lemma set_OF_flags: "flags_of (set_OF v f) = (flags_of f)\<lparr>OF := v\<rparr>"
  by (simp add: set_OF_def OxxxxC_flags) (simp add: flags_of_def)

lemma set_AF_flags: "flags_of (set_AF v f) = (flags_of f)\<lparr>AF := v\<rparr>"
proof -
  let ?g = "set_AF v f"
  have b: "bit (lf_auxbits ?g) i \<longleftrightarrow> (if i = 3 then v else bit (lf_auxbits f) i)" if "i < 32" for i
    using that by (auto simp: set_AF_def bit_or_iff bit_and_iff bit_not_iff LF_mask_bits bit_push_of_bool)
  have r: "lf_result ?g = lf_result f" by (simp add: set_AF_def)
  have "getB_PF ?g = getB_PF f"
    unfolding PF_parity r by (rule parity8_cong) (simp add: bit_xor_iff bit_drop_bit_eq b)
  then show ?thesis
    by (intro flags_of_eqI) (auto simp: flags_of_def CF_bit OF_bit AF_bit SF_bit getB_ZF_def b r)
qed

lemma set_SF_flags: "flags_of (set_SF v f) = (flags_of f)\<lparr>SF := v\<rparr>"
proof -
  let ?g = "set_SF v f"
  have b: "bit (lf_auxbits ?g) i \<longleftrightarrow> bit (lf_auxbits f) i \<noteq> (i = 0 \<and> getB_SF f \<noteq> v)" for i
    by (cases "getB_SF f \<noteq> v") (auto simp: set_SF_def bit_xor_iff bit_1_iff)
  have r: "lf_result ?g = lf_result f" by (simp add: set_SF_def)
  have "getB_PF ?g = getB_PF f"
    unfolding PF_parity r by (rule parity8_cong) (simp add: bit_xor_iff bit_drop_bit_eq b)
  then show ?thesis
    by (intro flags_of_eqI) (auto simp: flags_of_def CF_bit OF_bit AF_bit SF_bit getB_ZF_def b r)
qed

lemma set_PF_flags: "flags_of (set_PF v f) = (flags_of f)\<lparr>PF := v\<rparr>"
proof -
  let ?g = "set_PF v f"
  have m8: "(255 :: u32) = mask 8" by (simp add: mask_eq_exp_minus_1)
  have b: "bit (lf_auxbits ?g) i \<longleftrightarrow> (if 8 \<le> i \<and> i < 16 then bit (lf_result f) (i - 8) \<noteq> (i = 8 \<and> \<not> v) else bit (lf_auxbits f) i)"
    if "i < 32" for i
    using that unfolding set_PF_def m8
    by (auto simp: bit_or_iff bit_and_iff bit_not_iff bit_xor_iff LF_mask_bits bit_push_bit_iff bit_of_bool_iff bit_mask_iff)
  have r: "lf_result ?g = lf_result f" by (simp add: set_PF_def)
  have "getB_PF ?g = parity8 (of_bool (\<not> v) :: u32)"
    unfolding PF_parity r by (rule parity8_cong) (auto simp: bit_xor_iff bit_drop_bit_eq b bit_of_bool_iff)
  also have "\<dots> = v"
  proof -
    have "[0..<8] = [0, 1, 2, 3, 4, 5, 6, 7 :: nat]" by (simp add: upt_rec)
    then show ?thesis by (cases v) (simp_all add: parity8_def bit_1_iff)
  qed
  finally have "getB_PF ?g = v" .
  then show ?thesis
    by (intro flags_of_eqI) (auto simp: flags_of_def CF_bit OF_bit AF_bit SF_bit getB_ZF_def b r)
qed

lemma set_ZF_flags: "flags_of (set_ZF v f) = (flags_of f)\<lparr>ZF := v\<rparr>"
proof (cases v)
  case False
  let ?g = "clear_ZF f"
  have r: "bit (lf_result ?g) i \<longleftrightarrow> bit (lf_result f) i \<or> i = 8" if "i < 32" for i
    using bit_push_of_bool[of 8 True i] by (simp add: clear_ZF_def bit_or_iff)
  have a: "lf_auxbits ?g = lf_auxbits f" by (simp add: clear_ZF_def)
  have "lf_result ?g \<noteq> 0" using r[of 8] by auto
  moreover have "getB_PF ?g = getB_PF f"
    unfolding PF_parity a by (rule parity8_cong) (simp add: bit_xor_iff r)
  ultimately have "flags_of ?g = (flags_of f)\<lparr>ZF := False\<rparr>"
    by (intro flags_of_eqI) (auto simp: flags_of_def CF_bit OF_bit AF_bit SF_bit getB_ZF_def r a)
  then show ?thesis using False by (simp add: set_ZF_def)
next
  case True
  let ?g = "assert_ZF f"
  have m8: "(255 :: u32) = mask 8" by (simp add: mask_eq_exp_minus_1)
  have a: "bit (lf_auxbits ?g) i \<longleftrightarrow> (bit (lf_auxbits f) i \<noteq> (i = 0 \<and> bit (lf_result f) 31))
      \<noteq> (8 \<le> i \<and> i < 16 \<and> bit (lf_result f) (i - 8))" if "i < 32" for i
    using that unfolding assert_ZF_def m8
    by (auto simp: bit_xor_iff bit_and_iff bit_push_bit_iff bit_mask_iff bit_drop_bit_eq bit_1_iff)
  have r: "lf_result ?g = 0" by (simp add: assert_ZF_def)
  have "getB_PF ?g = getB_PF f"
    unfolding PF_parity r by (rule parity8_cong) (auto simp: bit_xor_iff bit_drop_bit_eq a)
  then have "flags_of ?g = (flags_of f)\<lparr>ZF := True\<rparr>"
    by (intro flags_of_eqI) (auto simp: flags_of_def CF_bit OF_bit AF_bit SF_bit getB_ZF_def r a)
  then show ?thesis using True by (simp add: set_ZF_def)
qed

lemma setEFlagsOSZAPC_flags:
  "flags_of (setEFlagsOSZAPC w f) =
     \<lparr>CF = bit w 0, PF = bit w 2, AF = bit w 4, ZF = bit w 6, SF = bit w 7, OF = bit w 11\<rparr>"
  by (simp add: setEFlagsOSZAPC_def set_CF_flags set_PF_flags set_AF_flags set_ZF_flags set_SF_flags set_OF_flags)

lemmas lazy_flag_simps = OSZAPC_LOGIC_flags OSZAP_of_OSZAPC OxxxxC_flags set_CF_flags set_PF_flags set_AF_flags
  set_ZF_flags set_SF_flags set_OF_flags setEFlagsOSZAPC_flags

end
