(* ===== verification/CpuState.thy ===== *)
theory CpuState
  imports Mmu LazyFlags
begin

text \<open>
  The emulated CPU's state (class \<open>BX_CPU_C\<close> of P1/bochs-2.6.8/cpu/cpu.h and the segment
  registers of descriptor.h) and the monad its handlers run in. The state extends \<open>machine\<close>,
  so the memory the CPU reads and writes is the one the kernels are stated over. An exception
  leaves the handler by \<open>longjmp\<close>: the rest of the instruction does not run, but what it has
  changed so far stays changed, so the state is returned with the exception.

  The build (config.h) has no x86-64, VMX, SVM or AVX support, one CPU, and alignment checks.
\<close>

section \<open>Segment registers\<close>

record bx_selector =
  sel_value :: u16
  sel_index :: u16
  sel_ti :: u8
  sel_rpl :: u8

text \<open>The members of the descriptor's union are fields of their own: \<open>parse_descriptor\<close> sets the
member that the descriptor's type selects, and no code reads another one.\<close>

record bx_descriptor =
  d_valid :: u32
  d_p :: bool
  d_dpl :: u8
  d_segment :: bool
  d_type :: u8
  d_base :: u32
  d_limit_scaled :: u32
  d_g :: bool
  d_d_b :: bool
  d_avl :: bool
  d_param_count :: u8
  d_dest_selector :: u16
  d_dest_offset :: u32
  d_tss_selector :: u16

record bx_segment_reg =
  seg_selector :: bx_selector
  seg_cache :: bx_descriptor

definition SegValidCache :: u32 where "SegValidCache = 1"
definition SegAccessROK :: u32 where "SegAccessROK = 2"
definition SegAccessWOK :: u32 where "SegAccessWOK = 4"
definition SegAccessROK4G :: u32 where "SegAccessROK4G = 8"
definition SegAccessWOK4G :: u32 where "SegAccessWOK4G = 16"

record bx_global_segment_reg =
  gs_base :: u32
  gs_limit :: u16

section \<open>The CPU\<close>

record cpu = machine +
  gen_reg :: "nat \<Rightarrow> u32"
  EIP :: u32
  eflags :: u32
  oszapc :: lazy_flags
  sregs :: "nat \<Rightarrow> bx_segment_reg"
  gdtr :: bx_global_segment_reg
  idtr :: bx_global_segment_reg
  ldtr :: bx_segment_reg
  tr :: bx_segment_reg
  cr0 :: u32
  cr2 :: u32
  cr3 :: u32
  cr4 :: u32
  paddress1 :: u32
  paddress2 :: u32
  len1 :: nat
  len2 :: nat
  pages :: nat
  speculative_rsp :: bool
  prev_rsp :: u32
  alignment_check_mask :: u32
  pending_event :: u32
  event_mask :: u32
  async_event :: u32
  inhibit_mask :: u32
  inhibit_icount :: nat
  icount :: nat
  prev_rip :: u32
  EXT :: bool
  last_exception_type :: nat
  debug_trap :: u32
  dr6 :: u32
  dr7 :: u32

text \<open>Numbers of the general and the segment registers.\<close>

abbreviation (input) R_EAX :: nat where "R_EAX \<equiv> 0"
abbreviation (input) R_ECX :: nat where "R_ECX \<equiv> 1"
abbreviation (input) R_EDX :: nat where "R_EDX \<equiv> 2"
abbreviation (input) R_EBX :: nat where "R_EBX \<equiv> 3"
abbreviation (input) R_ESP :: nat where "R_ESP \<equiv> 4"
abbreviation (input) R_EBP :: nat where "R_EBP \<equiv> 5"
abbreviation (input) R_ESI :: nat where "R_ESI \<equiv> 6"
abbreviation (input) R_EDI :: nat where "R_EDI \<equiv> 7"
abbreviation (input) SEG_ES :: nat where "SEG_ES \<equiv> 0"
abbreviation (input) SEG_CS :: nat where "SEG_CS \<equiv> 1"
abbreviation (input) SEG_SS :: nat where "SEG_SS \<equiv> 2"
abbreviation (input) SEG_DS :: nat where "SEG_DS \<equiv> 3"
abbreviation (input) SEG_FS :: nat where "SEG_FS \<equiv> 4"
abbreviation (input) SEG_GS :: nat where "SEG_GS \<equiv> 5"

section \<open>Handlers\<close>

text \<open>\<open>Cpu_Exn v e\<close> is \<open>exception(v, e)\<close>; \<open>Cpu_Panic\<close> a failed consistency check of the emulator.\<close>

datatype cpu_exn = Cpu_Exn nat u16 | Cpu_Panic

type_synonym 'a exec = "cpu \<Rightarrow> (cpu_exn + 'a) \<times> cpu"

definition ret :: "'a \<Rightarrow> 'a exec" where
  "ret x = (\<lambda>s. (Inr x, s))"

definition raise :: "cpu_exn \<Rightarrow> 'a exec" where
  "raise e = (\<lambda>s. (Inl e, s))"

definition bindM :: "'a exec \<Rightarrow> ('a \<Rightarrow> 'b exec) \<Rightarrow> 'b exec" where
  "bindM m f = (\<lambda>s. case m s of (Inl e, s') \<Rightarrow> (Inl e, s') | (Inr x, s') \<Rightarrow> f x s')"

definition seqM :: "'a exec \<Rightarrow> 'b exec \<Rightarrow> 'b exec" where
  "seqM m k = bindM m (\<lambda>_. k)"

definition getM :: "(cpu \<Rightarrow> 'a) \<Rightarrow> 'a exec" where
  "getM f = (\<lambda>s. (Inr (f s), s))"

definition updM :: "(cpu \<Rightarrow> cpu) \<Rightarrow> unit exec" where
  "updM f = (\<lambda>s. (Inr (), f s))"

definition whenM :: "bool \<Rightarrow> unit exec \<Rightarrow> unit exec" where
  "whenM b m = (if b then m else ret ())"

text \<open>A handler of the code is applied to a state by unfolding the monad: \<open>exec_simps\<close>.\<close>

named_theorems exec_simps \<open>running a handler on a state\<close>

lemma exec_monad [exec_simps]:
  "ret x s = (Inr x, s)"
  "raise e s = (Inl e, s)"
  "getM f s = (Inr (f s), s)"
  "updM g s = (Inr (), g s)"
  "whenM b m s = (if b then m s else (Inr (), s))"
  by (simp_all add: ret_def raise_def getM_def updM_def whenM_def)

lemma exec_bind:
  "m s = (Inr x, s') \<Longrightarrow> bindM m f s = f x s'"
  "m s = (Inl e, s') \<Longrightarrow> bindM m f s = (Inl e, s')"
  "m s = (Inr x, s') \<Longrightarrow> seqM m k s = k s'"
  "m s = (Inl e, s') \<Longrightarrow> seqM m k s = (Inl e, s')"
  by (simp_all add: bindM_def seqM_def)

lemma exec_step [exec_simps]:
  "bindM (ret x) f s = f x s" "bindM (getM g) f s = f (g s) s" "bindM (updM h) f' s = f' () (h s)"
  "bindM (raise e) f s = (Inl e, s)" "seqM (ret x) k s = k s" "seqM (getM g) k s = k s"
  "seqM (updM h) k s = k (h s)" "seqM (raise e) k s = (Inl e, s)"
  by (simp_all add: bindM_def seqM_def exec_monad)

lemma bindM_assoc: "bindM (bindM m f) g = bindM m (\<lambda>x. bindM (f x) g)"
  by (rule ext) (simp add: bindM_def split: prod.splits sum.splits)

section \<open>Registers\<close>

definition set_reg32 :: "nat \<Rightarrow> u32 \<Rightarrow> cpu \<Rightarrow> cpu" where
  "set_reg32 r v s = s\<lparr>gen_reg := (gen_reg s)(r := v)\<rparr>"

definition reg16 :: "nat \<Rightarrow> cpu \<Rightarrow> u16" where
  "reg16 r s = ucast (gen_reg s r)"

definition set_reg16 :: "nat \<Rightarrow> u16 \<Rightarrow> cpu \<Rightarrow> cpu" where
  "set_reg16 r v s = set_reg32 r ((gen_reg s r AND 0xFFFF0000) OR ucast v) s"

definition reg8 :: "nat \<Rightarrow> cpu \<Rightarrow> u8" where
  "reg8 r s = (if r < 4 then ucast (gen_reg s r) else ucast (drop_bit 8 (gen_reg s (r - 4))))"

definition set_reg8 :: "nat \<Rightarrow> u8 \<Rightarrow> cpu \<Rightarrow> cpu" where
  "set_reg8 r v s =
     (if r < 4 then set_reg32 r ((gen_reg s r AND 0xFFFFFF00) OR ucast v) s
      else set_reg32 (r - 4) ((gen_reg s (r - 4) AND 0xFFFF00FF) OR push_bit 8 (ucast v)) s)"

abbreviation set_flags :: "(lazy_flags \<Rightarrow> lazy_flags) \<Rightarrow> cpu \<Rightarrow> cpu" where
  "set_flags f \<equiv> oszapc_update f"

definition CL :: "cpu \<Rightarrow> u8" where
  "CL s = reg8 1 s"

lemma set_reg32_fields [simp]:
  "gen_reg (set_reg32 r v s) = (gen_reg s)(r := v)"
  "mem (set_reg32 r v s) = mem s" "trace (set_reg32 r v s) = trace s"
  "EIP (set_reg32 r v s) = EIP s" "eflags (set_reg32 r v s) = eflags s"
  "oszapc (set_reg32 r v s) = oszapc s" "sregs (set_reg32 r v s) = sregs s"
  "cr0 (set_reg32 r v s) = cr0 s" "cr2 (set_reg32 r v s) = cr2 s" "cr3 (set_reg32 r v s) = cr3 s"
  "cr4 (set_reg32 r v s) = cr4 s" "gdtr (set_reg32 r v s) = gdtr s" "ldtr (set_reg32 r v s) = ldtr s"
  "alignment_check_mask (set_reg32 r v s) = alignment_check_mask s"
  by (simp_all add: set_reg32_def)

section \<open>Modes and flags\<close>

definition CPL :: "cpu \<Rightarrow> u8" where
  "CPL s = sel_rpl (seg_selector (sregs s SEG_CS))"

definition get_PE :: "cpu \<Rightarrow> bool" where "get_PE s = bit (cr0 s) 0"
definition get_WP :: "cpu \<Rightarrow> bool" where "get_WP s = bit (cr0 s) 16"
definition get_AM :: "cpu \<Rightarrow> bool" where "get_AM s = bit (cr0 s) 18"
definition get_PG :: "cpu \<Rightarrow> bool" where "get_PG s = bit (cr0 s) 31"
definition get_VME :: "cpu \<Rightarrow> bool" where "get_VME s = bit (cr4 s) 0"
definition get_PVI :: "cpu \<Rightarrow> bool" where "get_PVI s = bit (cr4 s) 1"

definition get_flag :: "nat \<Rightarrow> cpu \<Rightarrow> bool" where
  "get_flag n s = bit (eflags s) n"

definition assert_flag :: "nat \<Rightarrow> cpu \<Rightarrow> cpu" where
  "assert_flag n s = s\<lparr>eflags := eflags s OR push_bit n 1\<rparr>"

definition clear_flag :: "nat \<Rightarrow> cpu \<Rightarrow> cpu" where
  "clear_flag n s = s\<lparr>eflags := eflags s AND NOT (push_bit n 1)\<rparr>"

definition get_IOPL :: "cpu \<Rightarrow> u32" where
  "get_IOPL s = 3 AND drop_bit 12 (eflags s)"

text \<open>\<open>cpu_mode\<close> is what \<open>handleCpuModeChange\<close> makes of CR0.PE and EFLAGS.VM whenever one of
them changes.\<close>

definition v8086_mode :: "cpu \<Rightarrow> bool" where
  "v8086_mode s \<longleftrightarrow> get_PE s \<and> get_flag 17 s"

definition protected_mode :: "cpu \<Rightarrow> bool" where
  "protected_mode s \<longleftrightarrow> get_PE s \<and> \<not> get_flag 17 s"

definition real_mode :: "cpu \<Rightarrow> bool" where
  "real_mode s \<longleftrightarrow> \<not> get_PE s"

definition set_cpl :: "u8 \<Rightarrow> cpu \<Rightarrow> cpu" where
  "set_cpl c s = s\<lparr>sregs := (sregs s)(SEG_CS := (sregs s SEG_CS)
     \<lparr>seg_selector := seg_selector (sregs s SEG_CS)\<lparr>sel_rpl := c\<rparr>\<rparr>)\<rparr>"

definition handleCpuModeChange :: "cpu \<Rightarrow> cpu" where
  "handleCpuModeChange s =
     (if get_PE s then (if get_flag 17 s then set_cpl 3 s else s)
      else set_cpl 0 (s\<lparr>sregs := (sregs s)(SEG_CS := (sregs s SEG_CS)
        \<lparr>seg_cache := seg_cache (sregs s SEG_CS)\<lparr>d_p := True, d_segment := True, d_type := 3\<rparr>\<rparr>)\<rparr>))"

definition handleAlignmentCheck :: "cpu \<Rightarrow> cpu" where
  "handleAlignmentCheck s =
     s\<lparr>alignment_check_mask := (if CPL s = 3 \<and> get_AM s \<and> get_flag 18 s then 0xF else 0)\<rparr>"

section \<open>Pending events\<close>

definition signal_event :: "u32 \<Rightarrow> cpu \<Rightarrow> cpu" where
  "signal_event e s = (let s1 = s\<lparr>pending_event := pending_event s OR e\<rparr>
     in if event_mask s1 AND e = 0 then s1\<lparr>async_event := 1\<rparr> else s1)"

definition clear_event :: "u32 \<Rightarrow> cpu \<Rightarrow> cpu" where
  "clear_event e s = s\<lparr>pending_event := pending_event s AND NOT e\<rparr>"

definition mask_event :: "u32 \<Rightarrow> cpu \<Rightarrow> cpu" where
  "mask_event e s = s\<lparr>event_mask := event_mask s OR e\<rparr>"

definition unmask_event :: "u32 \<Rightarrow> cpu \<Rightarrow> cpu" where
  "unmask_event e s = (let s1 = s\<lparr>event_mask := event_mask s AND NOT e\<rparr>
     in if pending_event s1 AND e \<noteq> 0 then s1\<lparr>async_event := 1\<rparr> else s1)"

definition BX_EVENT_PENDING_INTR :: u32 where "BX_EVENT_PENDING_INTR = push_bit 10 1"

text \<open>The events that EFLAGS.IF masks: VMX interrupt window exiting (6), SVM virtual interrupt (8),
VMX virtual interrupt (9), INTR (10) and the local APIC (11).\<close>

definition handleInterruptMaskChange :: "cpu \<Rightarrow> cpu" where
  "handleInterruptMaskChange s =
     (if get_flag 9 s
      then unmask_event (push_bit 6 1 OR push_bit 10 1 OR push_bit 11 1 OR push_bit 9 1) s
      else mask_event (push_bit 6 1 OR push_bit 10 1 OR push_bit 11 1 OR push_bit 9 1 OR push_bit 8 1) s)"

definition BX_INHIBIT_INTERRUPTS :: u32 where "BX_INHIBIT_INTERRUPTS = 1"
definition BX_INHIBIT_INTERRUPTS_BY_MOVSS :: u32 where "BX_INHIBIT_INTERRUPTS_BY_MOVSS = 3"

definition interrupts_inhibited :: "u32 \<Rightarrow> cpu \<Rightarrow> bool" where
  "interrupts_inhibited m s \<longleftrightarrow> icount s \<le> inhibit_icount s \<and> inhibit_mask s AND m = m"

definition inhibit_interrupts :: "u32 \<Rightarrow> cpu \<Rightarrow> cpu" where
  "inhibit_interrupts m s =
     (if m \<noteq> BX_INHIBIT_INTERRUPTS_BY_MOVSS \<or> \<not> interrupts_inhibited BX_INHIBIT_INTERRUPTS_BY_MOVSS s
      then s\<lparr>inhibit_mask := m, inhibit_icount := icount s + 1\<rparr> else s)"

definition raise_INTR :: "cpu \<Rightarrow> cpu" where
  "raise_INTR = signal_event BX_EVENT_PENDING_INTR"

definition clear_INTR :: "cpu \<Rightarrow> cpu" where
  "clear_INTR = clear_event BX_EVENT_PENDING_INTR"

section \<open>Exceptions\<close>

abbreviation (input) BX_DE_EXCEPTION :: nat where "BX_DE_EXCEPTION \<equiv> 0"
abbreviation (input) BX_DB_EXCEPTION :: nat where "BX_DB_EXCEPTION \<equiv> 1"
abbreviation (input) BX_DF_EXCEPTION :: nat where "BX_DF_EXCEPTION \<equiv> 8"
abbreviation (input) BX_TS_EXCEPTION :: nat where "BX_TS_EXCEPTION \<equiv> 10"
abbreviation (input) BX_UD_EXCEPTION :: nat where "BX_UD_EXCEPTION \<equiv> 6"
abbreviation (input) BX_NP_EXCEPTION :: nat where "BX_NP_EXCEPTION \<equiv> 11"
abbreviation (input) BX_SS_EXCEPTION :: nat where "BX_SS_EXCEPTION \<equiv> 12"
abbreviation (input) BX_GP_EXCEPTION :: nat where "BX_GP_EXCEPTION \<equiv> 13"
abbreviation (input) BX_PF_EXCEPTION :: nat where "BX_PF_EXCEPTION \<equiv> 14"
abbreviation (input) BX_AC_EXCEPTION :: nat where "BX_AC_EXCEPTION \<equiv> 17"

definition exception :: "nat \<Rightarrow> u16 \<Rightarrow> 'a exec" where
  "exception v e = raise (Cpu_Exn v e)"

lemma exec_exception [exec_simps]: "exception v e s = (Inl (Cpu_Exn v e), s)"
  by (simp add: exception_def exec_simps)

definition int_number :: "nat \<Rightarrow> nat" where
  "int_number s = (if s = SEG_SS then BX_SS_EXCEPTION else BX_GP_EXCEPTION)"

section \<open>Decoded instructions\<close>

datatype resolve_modrm = BxResolve16BaseIndex | BxResolve32Base | BxResolve32BaseIndex

record bxInstruction =
  i_dst :: nat
  i_src :: nat
  i_seg :: nat
  i_sibBase :: nat
  i_sibIndex :: nat
  i_sibScale :: nat
  i_displ :: u32
  i_resolve :: resolve_modrm
  i_Id :: u32
  i_Ib2 :: u8
  i_by_CL :: bool
  i_Iw2 :: u16
  i_os32 :: bool
  i_as32 :: bool

text \<open>\<open>Iw\<close> and \<open>Ib\<close> are the low bytes of the immediate.\<close>

definition i_Iw :: "bxInstruction \<Rightarrow> u16" where "i_Iw i = ucast (i_Id i)"
definition i_Ib :: "bxInstruction \<Rightarrow> u8" where "i_Ib i = ucast (i_Id i)"

definition resolve16_base_index :: "bxInstruction \<Rightarrow> cpu \<Rightarrow> u32" where
  "resolve16_base_index i s = ucast (reg16 (i_sibBase i) s + reg16 (i_sibIndex i) s + ucast (i_displ i))"

definition resolve32_base :: "bxInstruction \<Rightarrow> cpu \<Rightarrow> u32" where
  "resolve32_base i s = gen_reg s (i_sibBase i) + i_displ i"

definition resolve32_base_index :: "bxInstruction \<Rightarrow> cpu \<Rightarrow> u32" where
  "resolve32_base_index i s =
     gen_reg s (i_sibBase i) + push_bit (i_sibScale i) (gen_reg s (i_sibIndex i)) + i_displ i"

text \<open>\<open>BX_CPU_CALL_METHODR(i->ResolveModrm, (i))\<close>\<close>

definition ResolveModrm :: "bxInstruction \<Rightarrow> cpu \<Rightarrow> u32" where
  "ResolveModrm i s = (case i_resolve i of
     BxResolve16BaseIndex \<Rightarrow> resolve16_base_index i s
   | BxResolve32Base \<Rightarrow> resolve32_base i s
   | BxResolve32BaseIndex \<Rightarrow> resolve32_base_index i s)"

end
