(* ===== verification/CpuAccess.thy ===== *)
theory CpuAccess
  imports CpuState
begin

text \<open>
  Memory accesses of the emulated CPU: the segment checks of access.cc with the access bits
  cached in \<open>valid\<close>, the linear accesses of paging.cc, which split an access that crosses a
  page, and the virtual and read-modify-write accesses of access.h and access2.cc. The TLB and
  the stack window are caches of translations and are left out: every access walks the page
  tables. Physical memory is RAM. The big-endian host branches are not compiled.
\<close>

section \<open>Bytes\<close>

primrec le_word :: "u8 list \<Rightarrow> 'a :: len word" where
  "le_word [] = 0"
| "le_word (b # bs) = ucast b OR push_bit 8 (le_word bs)"

definition le_bytes :: "nat \<Rightarrow> 'a :: len word \<Rightarrow> u8 list" where
  "le_bytes n w = map (\<lambda>i. ucast (drop_bit (8 * i) w)) [0..<n]"

definition read_bytes :: "memory \<Rightarrow> u32 \<Rightarrow> nat \<Rightarrow> u8 list" where
  "read_bytes m a n = map (\<lambda>i. m (a + of_nat i)) [0..<n]"

primrec write_bytes :: "memory \<Rightarrow> u32 \<Rightarrow> u8 list \<Rightarrow> memory" where
  "write_bytes m a [] = m"
| "write_bytes m a (b # bs) = write_bytes (m(a := b)) (a + 1) bs"

lemma upt_small: "[0..<2] = [0, 1]" "[0..<4] = [0, 1, 2, 3]" "[0..<8] = [0, 1, 2, 3, 4, 5, 6, 7]"
  by (simp_all add: upt_rec)

lemma length_bytes [simp]: "length (le_bytes n w) = n" "length (read_bytes m a n) = n"
  by (simp_all add: le_bytes_def read_bytes_def)

lemma read32_bytes: "le_word (read_bytes m a 4) = read32 m a"
  by (simp add: read_bytes_def upt_small read32_def push_bit_or or.assoc)

lemma write32_bytes: "write_bytes m a (le_bytes 4 (v :: u32)) = write32 m a v"
  by (simp add: le_bytes_def upt_small write32_def add.assoc)

lemma read_bytes_append: "read_bytes m a (j + k) = read_bytes m a j @ read_bytes m (a + of_nat j) k"
  by (induction k) (simp_all add: read_bytes_def add.assoc)

lemma write_bytes_append: "write_bytes m a (bs @ cs) = write_bytes (write_bytes m a bs) (a + of_nat (length bs)) cs"
  by (induction bs arbitrary: m a) (simp_all add: add.assoc)

section \<open>Segment checks\<close>

text \<open>Each returns whether the access is allowed, and the segment register with the access bits
that it caches. \<open>BX_MAX_MEM_ACCESS_LENGTH\<close> is 16.\<close>

definition expand_down_ok :: "bx_descriptor \<Rightarrow> u32 \<Rightarrow> u32 \<Rightarrow> bool" where
  "expand_down_ok d offset len =
     (let upper_limit = (if d_d_b d then 0xFFFFFFFF else 0x0000FFFF)
      in \<not> (offset \<le> d_limit_scaled d \<or> upper_limit < offset \<or> upper_limit - offset < len))"

definition cache_access :: "u32 \<Rightarrow> bx_segment_reg \<Rightarrow> bx_segment_reg" where
  "cache_access v seg = seg\<lparr>seg_cache := seg_cache seg\<lparr>d_valid := d_valid (seg_cache seg) OR v\<rparr>\<rparr>"

definition write_virtual_checks ::
  "bx_segment_reg \<Rightarrow> u32 \<Rightarrow> u32 \<Rightarrow> bool \<Rightarrow> cpu_exn + (bool \<times> bx_segment_reg)" where
  "write_virtual_checks seg offset l align =
     (let len = l - 1; d = seg_cache seg; t = d_type d; lim = d_limit_scaled d in
      if align \<and> (d_base d + offset) AND len \<noteq> 0 then Inl (Cpu_Exn BX_GP_EXCEPTION 0)
      else if d_valid d = 0 then Inr (False, seg)
      else if \<not> d_p d then Inr (False, seg)
      else if t \<in> {0, 1, 4, 5, 8, 9, 10, 11, 12, 13, 14, 15} then Inr (False, seg)
      else if t \<in> {2, 3} then
        (if lim = 0xFFFFFFFF \<and> d_base d = 0
         then Inr (True, cache_access (SegAccessROK OR SegAccessWOK OR SegAccessROK4G OR SegAccessWOK4G) seg)
         else if lim - len < offset \<or> lim < len then Inr (False, seg)
         else if 15 \<le> lim then Inr (True, cache_access (SegAccessROK OR SegAccessWOK) seg)
         else Inr (True, seg))
      else if t \<in> {6, 7} then Inr (expand_down_ok d offset len, seg)
      else Inl Cpu_Panic)"

definition read_virtual_checks ::
  "bx_segment_reg \<Rightarrow> u32 \<Rightarrow> u32 \<Rightarrow> bool \<Rightarrow> cpu_exn + (bool \<times> bx_segment_reg)" where
  "read_virtual_checks seg offset l align =
     (let len = l - 1; d = seg_cache seg; t = d_type d; lim = d_limit_scaled d in
      if align \<and> (d_base d + offset) AND len \<noteq> 0 then Inl (Cpu_Exn BX_GP_EXCEPTION 0)
      else if d_valid d = 0 then Inr (False, seg)
      else if \<not> d_p d then Inr (False, seg)
      else if t \<in> {0, 1, 2, 3, 10, 11, 14, 15} then
        (if lim = 0xFFFFFFFF \<and> d_base d = 0
         then Inr (True, cache_access (SegAccessROK OR SegAccessROK4G) seg)
         else if lim - len < offset \<or> lim < len then Inr (False, seg)
         else if 15 \<le> lim then Inr (True, cache_access SegAccessROK seg)
         else Inr (True, seg))
      else if t \<in> {4, 5, 6, 7} then Inr (expand_down_ok d offset len, seg)
      else if t \<in> {8, 9, 12, 13} then Inr (False, seg)
      else Inl Cpu_Panic)"

definition execute_virtual_checks ::
  "bx_segment_reg \<Rightarrow> u32 \<Rightarrow> u32 \<Rightarrow> cpu_exn + (bool \<times> bx_segment_reg)" where
  "execute_virtual_checks seg offset l =
     (let d = seg_cache seg; t = d_type d; lim = d_limit_scaled d; len = l - 1 in
      if d_valid d = 0 then Inr (False, seg)
      else if \<not> d_p d then Inr (False, seg)
      else if t \<in> {0, 1, 2, 3, 10, 11, 14, 15} then
        (if lim = 0xFFFFFFFF \<and> d_base d = 0
         then Inr (True, cache_access (SegAccessROK OR SegAccessROK4G) seg)
         else if lim - len < offset \<or> lim < len then Inr (False, seg)
         else if 15 \<le> lim then Inr (True, cache_access SegAccessROK seg)
         else Inr (True, seg))
      else if t \<in> {8, 9, 12, 13} then Inr (\<not> (lim - len < offset \<or> lim < len), seg)
      else if t \<in> {4, 5, 6, 7} then Inr (expand_down_ok d offset len, seg)
      else Inl Cpu_Panic)"

definition set_sreg :: "nat \<Rightarrow> bx_segment_reg \<Rightarrow> cpu \<Rightarrow> cpu" where
  "set_sreg r seg s = s\<lparr>sregs := (sregs s)(r := seg)\<rparr>"

definition get_laddr32 :: "nat \<Rightarrow> u32 \<Rightarrow> cpu \<Rightarrow> u32" where
  "get_laddr32 r offset s = d_base (seg_cache (sregs s r)) + offset"

text \<open>The address of an access: the cached bits first, the full checks when they do not allow it.\<close>

definition checked_laddr :: "nat \<Rightarrow> u32 \<Rightarrow> cpu_exn + (bool \<times> bx_segment_reg) \<Rightarrow> u32 exec" where
  "checked_laddr r offset res = (case res of
     Inl e \<Rightarrow> raise e
   | Inr (ok, seg) \<Rightarrow> seqM (updM (set_sreg r seg))
       (if ok then getM (get_laddr32 r offset) else exception (int_number r) 0))"

definition agen_read32 :: "nat \<Rightarrow> u32 \<Rightarrow> u32 \<Rightarrow> u32 exec" where
  "agen_read32 r offset len = (\<lambda>s.
     let seg = sregs s r; d = seg_cache seg in
     if d_valid d AND SegAccessROK4G \<noteq> 0 then ret offset s
     else if d_valid d AND SegAccessROK \<noteq> 0 \<and> offset \<le> d_limit_scaled d - len + 1
     then ret (get_laddr32 r offset s) s
     else checked_laddr r offset (read_virtual_checks seg offset len False) s)"

definition agen_write32 :: "nat \<Rightarrow> u32 \<Rightarrow> u32 \<Rightarrow> u32 exec" where
  "agen_write32 r offset len = (\<lambda>s.
     let seg = sregs s r; d = seg_cache seg in
     if d_valid d AND SegAccessWOK4G \<noteq> 0 then ret offset s
     else if d_valid d AND SegAccessWOK \<noteq> 0 \<and> offset \<le> d_limit_scaled d - len + 1
     then ret (get_laddr32 r offset s) s
     else checked_laddr r offset (write_virtual_checks seg offset len False) s)"

section \<open>Linear accesses\<close>

definition page_fault :: "u32 \<Rightarrow> u32 \<Rightarrow> 'a exec" where
  "page_fault error_code laddr =
     seqM (updM (\<lambda>s. s\<lparr>cr2 := laddr\<rparr>)) (exception BX_PF_EXCEPTION (ucast error_code))"

text \<open>\<open>BX_WRITE\<close> and \<open>BX_RW\<close> (odd) are writes for the page walk, \<open>BX_READ\<close> is not.\<close>

definition xlate :: "u32 \<Rightarrow> bool \<Rightarrow> bool \<Rightarrow> u32 exec" where
  "xlate laddr user write = (\<lambda>s.
     case translate_linear (get_PG s) (get_WP s) (cr3 s) laddr user write (mem s) of
       Inl (Page_Fault code la) \<Rightarrow> page_fault code la s
     | Inr (paddr, m) \<Rightarrow> (Inr paddr, s\<lparr>mem := m\<rparr>))"

definition PAGE_OFFSET :: "u32 \<Rightarrow> nat" where
  "PAGE_OFFSET a = unat (a AND 0xFFF)"

definition access_write_physical :: "u32 \<Rightarrow> u8 list \<Rightarrow> cpu \<Rightarrow> cpu" where
  "access_write_physical a bs s = s\<lparr>mem := write_bytes (mem s) a bs\<rparr>"

definition access_read_physical :: "u32 \<Rightarrow> nat \<Rightarrow> cpu \<Rightarrow> u8 list" where
  "access_read_physical a n s = read_bytes (mem s) a n"

definition alignment_fault :: "u32 \<Rightarrow> u8 \<Rightarrow> u32 \<Rightarrow> cpu \<Rightarrow> bool" where
  "alignment_fault laddr curr_pl ac_mask s \<longleftrightarrow>
     alignment_check_mask s \<noteq> 0 \<and> curr_pl = 3 \<and> (laddr AND 0xFFF) AND ac_mask \<noteq> 0"

definition access_write_linear :: "u32 \<Rightarrow> u8 \<Rightarrow> u32 \<Rightarrow> u8 list \<Rightarrow> unit exec" where
  "access_write_linear laddr curr_pl ac_mask data = (\<lambda>s.
     let pageOffset = PAGE_OFFSET laddr; l = length data; user = (curr_pl = 3) in
     if alignment_fault laddr curr_pl ac_mask s then exception BX_AC_EXCEPTION 0 s
     else if pageOffset + l \<le> 4096 then
       bindM (xlate laddr user True) (\<lambda>pa.
         updM (\<lambda>s. access_write_physical pa data (s\<lparr>paddress1 := pa, pages := 1\<rparr>))) s
     else
       let l1 = 4096 - pageOffset in
       seqM (updM (\<lambda>s. s\<lparr>len1 := l1, len2 := l - l1, pages := 2\<rparr>))
         (bindM (xlate laddr user True) (\<lambda>pa1. seqM (updM (\<lambda>s. s\<lparr>paddress1 := pa1\<rparr>))
           (bindM (xlate (laddr + of_nat l1) user True) (\<lambda>pa2.
             updM (\<lambda>s. access_write_physical pa2 (drop l1 data)
               (access_write_physical pa1 (take l1 data) (s\<lparr>paddress2 := pa2\<rparr>))))))) s)"

definition access_read_linear :: "u32 \<Rightarrow> nat \<Rightarrow> u8 \<Rightarrow> bool \<Rightarrow> u32 \<Rightarrow> u8 list exec" where
  "access_read_linear laddr l curr_pl rw ac_mask = (\<lambda>s.
     let pageOffset = PAGE_OFFSET laddr; user = (curr_pl = 3) in
     if alignment_fault laddr curr_pl ac_mask s then exception BX_AC_EXCEPTION 0 s
     else if pageOffset + l \<le> 4096 then
       bindM (xlate laddr user rw) (\<lambda>pa.
         seqM (updM (\<lambda>s. s\<lparr>paddress1 := pa, pages := 1\<rparr>)) (getM (access_read_physical pa l))) s
     else
       let l1 = 4096 - pageOffset in
       seqM (updM (\<lambda>s. s\<lparr>len1 := l1, len2 := l - l1, pages := 2\<rparr>))
         (bindM (xlate laddr user rw) (\<lambda>pa1. seqM (updM (\<lambda>s. s\<lparr>paddress1 := pa1\<rparr>))
           (bindM (xlate (laddr + of_nat l1) user rw) (\<lambda>pa2. seqM (updM (\<lambda>s. s\<lparr>paddress2 := pa2\<rparr>))
             (getM (\<lambda>s. access_read_physical pa1 l1 s @ access_read_physical pa2 (l - l1) s)))))) s)"

section \<open>Virtual accesses\<close>

definition write_virtual :: "nat \<Rightarrow> u32 \<Rightarrow> u32 \<Rightarrow> u8 list \<Rightarrow> unit exec" where
  "write_virtual r offset ac_mask data =
     bindM (agen_write32 r offset (of_nat (length data))) (\<lambda>laddr.
     bindM (getM CPL) (\<lambda>pl. access_write_linear laddr pl ac_mask data))"

definition read_virtual :: "nat \<Rightarrow> u32 \<Rightarrow> u32 \<Rightarrow> nat \<Rightarrow> u8 list exec" where
  "read_virtual r offset ac_mask n =
     bindM (agen_read32 r offset (of_nat n)) (\<lambda>laddr.
     bindM (getM CPL) (\<lambda>pl. access_read_linear laddr n pl False ac_mask))"

definition read_RMW_virtual :: "nat \<Rightarrow> u32 \<Rightarrow> u32 \<Rightarrow> nat \<Rightarrow> u8 list exec" where
  "read_RMW_virtual r offset ac_mask n =
     bindM (agen_write32 r offset (of_nat n)) (\<lambda>laddr.
     bindM (getM CPL) (\<lambda>pl. access_read_linear laddr n pl True ac_mask))"

definition write_RMW_linear :: "u8 list \<Rightarrow> unit exec" where
  "write_RMW_linear data = updM (\<lambda>s.
     if pages s = 1 then access_write_physical (paddress1 s) data s
     else access_write_physical (paddress2 s) (drop (len1 s) data)
       (access_write_physical (paddress1 s) (take (len1 s) data) s))"

definition write_virtual_byte :: "nat \<Rightarrow> u32 \<Rightarrow> u8 \<Rightarrow> unit exec" where
  "write_virtual_byte r offset v = write_virtual r offset 0 (le_bytes 1 v)"

definition write_virtual_word :: "nat \<Rightarrow> u32 \<Rightarrow> u16 \<Rightarrow> unit exec" where
  "write_virtual_word r offset v = write_virtual r offset 1 (le_bytes 2 v)"

definition write_virtual_dword :: "nat \<Rightarrow> u32 \<Rightarrow> u32 \<Rightarrow> unit exec" where
  "write_virtual_dword r offset v = write_virtual r offset 3 (le_bytes 4 v)"

definition read_virtual_byte :: "nat \<Rightarrow> u32 \<Rightarrow> u8 exec" where
  "read_virtual_byte r offset = bindM (read_virtual r offset 0 1) (\<lambda>bs. ret (le_word bs))"

definition read_virtual_word :: "nat \<Rightarrow> u32 \<Rightarrow> u16 exec" where
  "read_virtual_word r offset = bindM (read_virtual r offset 1 2) (\<lambda>bs. ret (le_word bs))"

definition read_virtual_dword :: "nat \<Rightarrow> u32 \<Rightarrow> u32 exec" where
  "read_virtual_dword r offset = bindM (read_virtual r offset 3 4) (\<lambda>bs. ret (le_word bs))"

definition read_RMW_virtual_byte :: "nat \<Rightarrow> u32 \<Rightarrow> u8 exec" where
  "read_RMW_virtual_byte r offset = bindM (read_RMW_virtual r offset 0 1) (\<lambda>bs. ret (le_word bs))"

definition read_RMW_virtual_word :: "nat \<Rightarrow> u32 \<Rightarrow> u16 exec" where
  "read_RMW_virtual_word r offset = bindM (read_RMW_virtual r offset 1 2) (\<lambda>bs. ret (le_word bs))"

definition read_RMW_virtual_dword :: "nat \<Rightarrow> u32 \<Rightarrow> u32 exec" where
  "read_RMW_virtual_dword r offset = bindM (read_RMW_virtual r offset 3 4) (\<lambda>bs. ret (le_word bs))"

definition read_RMW_virtual_qword :: "nat \<Rightarrow> u32 \<Rightarrow> 64 word exec" where
  "read_RMW_virtual_qword r offset = bindM (read_RMW_virtual r offset 7 8) (\<lambda>bs. ret (le_word bs))"

definition write_RMW_linear_byte :: "u8 \<Rightarrow> unit exec" where
  "write_RMW_linear_byte v = write_RMW_linear (le_bytes 1 v)"

definition write_RMW_linear_word :: "u16 \<Rightarrow> unit exec" where
  "write_RMW_linear_word v = write_RMW_linear (le_bytes 2 v)"

definition write_RMW_linear_dword :: "u32 \<Rightarrow> unit exec" where
  "write_RMW_linear_dword v = write_RMW_linear (le_bytes 4 v)"

definition write_RMW_linear_qword :: "64 word \<Rightarrow> unit exec" where
  "write_RMW_linear_qword v = write_RMW_linear (le_bytes 8 v)"

text \<open>System accesses run at privilege level 0 whatever the CPL.\<close>

definition system_read_byte :: "u32 \<Rightarrow> u8 exec" where
  "system_read_byte laddr = bindM (access_read_linear laddr 1 0 False 0) (\<lambda>bs. ret (le_word bs))"

definition system_read_word :: "u32 \<Rightarrow> u16 exec" where
  "system_read_word laddr = bindM (access_read_linear laddr 2 0 False 0) (\<lambda>bs. ret (le_word bs))"

definition system_read_dword :: "u32 \<Rightarrow> u32 exec" where
  "system_read_dword laddr = bindM (access_read_linear laddr 4 0 False 0) (\<lambda>bs. ret (le_word bs))"

definition system_read_qword :: "u32 \<Rightarrow> 64 word exec" where
  "system_read_qword laddr = bindM (access_read_linear laddr 8 0 False 0) (\<lambda>bs. ret (le_word bs))"

definition system_write_byte :: "u32 \<Rightarrow> u8 \<Rightarrow> unit exec" where
  "system_write_byte laddr v = access_write_linear laddr 0 0 (le_bytes 1 v)"

section \<open>Accesses to a stack that is not yet loaded\<close>

text \<open>The segment register of the new stack is a local variable: it comes back with the access bits
the checks have cached in it.\<close>

definition write_new_stack ::
  "bx_segment_reg \<Rightarrow> bool \<Rightarrow> u32 \<Rightarrow> u8 \<Rightarrow> u32 \<Rightarrow> u8 list \<Rightarrow> bx_segment_reg exec" where
  "write_new_stack seg cached offset curr_pl ac_mask data = (\<lambda>s.
     let put = (\<lambda>g. seqM (access_write_linear (d_base (seg_cache g) + offset) curr_pl ac_mask data) (ret g)) in
     if d_valid (seg_cache seg) AND SegAccessWOK4G \<noteq> 0 \<or> d_valid (seg_cache seg) AND SegAccessWOK \<noteq> 0 \<and> cached
     then put seg s
     else case write_virtual_checks seg offset (of_nat (length data)) False of
       Inl e \<Rightarrow> raise e s
     | Inr (ok, seg') \<Rightarrow> if ok then put seg' s
         else exception BX_SS_EXCEPTION
           (if sel_rpl (seg_selector seg) \<noteq> CPL s then sel_value (seg_selector seg) AND 0xFFFC else 0) s)"

definition write_new_stack_word :: "bx_segment_reg \<Rightarrow> u32 \<Rightarrow> u8 \<Rightarrow> u16 \<Rightarrow> bx_segment_reg exec" where
  "write_new_stack_word seg offset curr_pl v =
     write_new_stack seg (offset < d_limit_scaled (seg_cache seg)) offset curr_pl 1 (le_bytes 2 v)"

definition write_new_stack_dword :: "bx_segment_reg \<Rightarrow> u32 \<Rightarrow> u8 \<Rightarrow> u32 \<Rightarrow> bx_segment_reg exec" where
  "write_new_stack_dword seg offset curr_pl v =
     write_new_stack seg (offset < d_limit_scaled (seg_cache seg) - 2) offset curr_pl 3 (le_bytes 4 v)"

section \<open>Stack accesses\<close>

definition stack_write_word :: "u32 \<Rightarrow> u16 \<Rightarrow> unit exec" where
  "stack_write_word offset v = write_virtual_word SEG_SS offset v"

definition stack_write_dword :: "u32 \<Rightarrow> u32 \<Rightarrow> unit exec" where
  "stack_write_dword offset v = write_virtual_dword SEG_SS offset v"

definition stack_read_word :: "u32 \<Rightarrow> u16 exec" where
  "stack_read_word offset = read_virtual_word SEG_SS offset"

definition stack_read_dword :: "u32 \<Rightarrow> u32 exec" where
  "stack_read_dword offset = read_virtual_dword SEG_SS offset"

definition ss_32 :: "cpu \<Rightarrow> bool" where
  "ss_32 s = d_d_b (seg_cache (sregs s SEG_SS))"

definition push_16 :: "u16 \<Rightarrow> unit exec" where
  "push_16 v = (\<lambda>s.
     if ss_32 s then
       seqM (stack_write_word (gen_reg s R_ESP - 2) v) (updM (\<lambda>s. set_reg32 R_ESP (gen_reg s R_ESP - 2) s)) s
     else
       seqM (stack_write_word (ucast (reg16 R_ESP s - 2)) v) (updM (\<lambda>s. set_reg16 R_ESP (reg16 R_ESP s - 2) s)) s)"

definition push_32 :: "u32 \<Rightarrow> unit exec" where
  "push_32 v = (\<lambda>s.
     if ss_32 s then
       seqM (stack_write_dword (gen_reg s R_ESP - 4) v) (updM (\<lambda>s. set_reg32 R_ESP (gen_reg s R_ESP - 4) s)) s
     else
       seqM (stack_write_dword (ucast (reg16 R_ESP s - 4)) v) (updM (\<lambda>s. set_reg16 R_ESP (reg16 R_ESP s - 4) s)) s)"

definition pop_16 :: "u16 exec" where
  "pop_16 = (\<lambda>s.
     if ss_32 s then
       bindM (stack_read_word (gen_reg s R_ESP)) (\<lambda>v.
         seqM (updM (\<lambda>s. set_reg32 R_ESP (gen_reg s R_ESP + 2) s)) (ret v)) s
     else
       bindM (stack_read_word (ucast (reg16 R_ESP s))) (\<lambda>v.
         seqM (updM (\<lambda>s. set_reg16 R_ESP (reg16 R_ESP s + 2) s)) (ret v)) s)"

definition pop_32 :: "u32 exec" where
  "pop_32 = (\<lambda>s.
     if ss_32 s then
       bindM (stack_read_dword (gen_reg s R_ESP)) (\<lambda>v.
         seqM (updM (\<lambda>s. set_reg32 R_ESP (gen_reg s R_ESP + 4) s)) (ret v)) s
     else
       bindM (stack_read_dword (ucast (reg16 R_ESP s))) (\<lambda>v.
         seqM (updM (\<lambda>s. set_reg16 R_ESP (reg16 R_ESP s + 4) s)) (ret v)) s)"

end
