(* ===== verification/Segments.thy ===== *)
theory Segments
  imports CpuAccess
begin

text \<open>
  Segment registers of the emulated CPU (P1/bochs-2.6.8/cpu/segment_ctrl_pro.cc): selectors and
  descriptors are decoded from their encodings, fetched from the descriptor tables, checked and
  loaded. The prefetch queue and the stack window are caches that the model does not have, so
  invalidating them is left out.
\<close>

section \<open>Selectors and descriptors\<close>

definition parse_selector :: "u16 \<Rightarrow> bx_selector" where
  "parse_selector raw_selector =
     \<lparr>sel_value = raw_selector, sel_index = drop_bit 3 raw_selector,
      sel_ti = ucast (drop_bit 2 raw_selector AND 1), sel_rpl = ucast (raw_selector AND 3)\<rparr>"

definition get_ar_byte :: "bx_descriptor \<Rightarrow> u8" where
  "get_ar_byte d =
     d_type d OR push_bit 4 (of_bool (d_segment d)) OR push_bit 5 (d_dpl d) OR push_bit 7 (of_bool (d_p d))"

definition set_ar_byte :: "u8 \<Rightarrow> bx_descriptor \<Rightarrow> bx_descriptor" where
  "set_ar_byte ar_byte d =
     d\<lparr>d_p := drop_bit 7 ar_byte AND 1 \<noteq> 0, d_dpl := drop_bit 5 ar_byte AND 3,
       d_segment := drop_bit 4 ar_byte AND 1 \<noteq> 0, d_type := ar_byte AND 0xF\<rparr>"

definition is_tss_or_ldt :: "u8 \<Rightarrow> bool" where
  "is_tss_or_ldt t \<longleftrightarrow> t \<in> {1, 2, 3, 9, 11}"

definition unscaled_limit :: "bx_descriptor \<Rightarrow> u32" where
  "unscaled_limit d = (if d_g d then drop_bit 12 (d_limit_scaled d) else d_limit_scaled d)"

definition get_descriptor_l :: "bx_descriptor \<Rightarrow> u32" where
  "get_descriptor_l d =
     (let limit = unscaled_limit d;
          v = push_bit 16 (d_base d AND 0xFFFF) OR (limit AND 0xFFFF)
      in if d_segment d \<or> d_valid d = 0 then v
         else if is_tss_or_ldt (d_type d) then v else 0)"

definition get_descriptor_h :: "bx_descriptor \<Rightarrow> u32" where
  "get_descriptor_h d =
     (let limit = unscaled_limit d in
      if d_segment d \<or> d_valid d = 0 then
        (d_base d AND 0xFF000000) OR (drop_bit 16 (d_base d) AND 0xFF)
        OR push_bit 8 (ucast (d_type d)) OR push_bit 12 (of_bool (d_segment d))
        OR push_bit 13 (ucast (d_dpl d)) OR push_bit 15 (of_bool (d_p d)) OR (limit AND 0xF0000)
        OR push_bit 20 (of_bool (d_avl d)) OR push_bit 22 (of_bool (d_d_b d)) OR push_bit 23 (of_bool (d_g d))
      else if is_tss_or_ldt (d_type d) then
        (drop_bit 16 (d_base d) AND 0xFF) OR push_bit 8 (ucast (d_type d))
        OR push_bit 13 (ucast (d_dpl d)) OR push_bit 15 (of_bool (d_p d)) OR (limit AND 0xF0000)
        OR push_bit 20 (of_bool (d_avl d)) OR push_bit 22 (of_bool (d_d_b d)) OR push_bit 23 (of_bool (d_g d))
        OR (d_base d AND 0xFF000000)
      else 0)"

definition set_segment_ar_data ::
  "bool \<Rightarrow> u16 \<Rightarrow> u32 \<Rightarrow> u32 \<Rightarrow> u16 \<Rightarrow> bx_segment_reg \<Rightarrow> bool \<times> bx_segment_reg" where
  "set_segment_ar_data v raw_selector base limit_scaled ar_data seg =
     (let d = seg_cache seg
            \<lparr>d_p := drop_bit 7 ar_data AND 1 \<noteq> 0, d_dpl := ucast (drop_bit 5 ar_data AND 3),
             d_segment := drop_bit 4 ar_data AND 1 \<noteq> 0, d_type := ucast (ar_data AND 0xF), d_valid := of_bool v\<rparr>;
          d' = d\<lparr>d_g := drop_bit 15 ar_data AND 1 \<noteq> 0, d_d_b := drop_bit 14 ar_data AND 1 \<noteq> 0,
             d_avl := drop_bit 12 ar_data AND 1 \<noteq> 0, d_base := base, d_limit_scaled := limit_scaled\<rparr>;
          d'' = (if d_segment d \<or> \<not> v \<or> is_tss_or_ldt (d_type d) then d' else d)
      in (v, seg\<lparr>seg_selector := parse_selector raw_selector, seg_cache := d''\<rparr>))"

text \<open>The fields of the union that the type does not select keep what they held: \<open>d0\<close>.\<close>

definition parse_descriptor :: "u32 \<Rightarrow> u32 \<Rightarrow> bx_descriptor \<Rightarrow> bx_descriptor" where
  "parse_descriptor dword1 dword2 d0 =
     (let AR_byte = ucast (drop_bit 8 dword2) :: u8;
          d = (set_ar_byte AR_byte d0)\<lparr>d_valid := 0\<rparr>;
          limit = (dword1 AND 0xFFFF) OR (dword2 AND 0x000F0000);
          g = 0 < dword2 AND 0x00800000;
          seg = d\<lparr>d_base := drop_bit 16 dword1 OR push_bit 16 (dword2 AND 0xFF) OR (dword2 AND 0xFF000000),
                  d_g := g, d_d_b := 0 < dword2 AND 0x00400000, d_avl := 0 < dword2 AND 0x00100000,
                  d_limit_scaled := (if g then push_bit 12 limit OR 0xFFF else limit), d_valid := 1\<rparr>
      in if d_segment d then seg
         else if d_type d \<in> {4, 6, 7} then
           d\<lparr>d_param_count := ucast (dword2 AND 0x1F), d_dest_selector := ucast (drop_bit 16 dword1),
             d_dest_offset := dword1 AND 0xFFFF, d_valid := 1\<rparr>
         else if d_type d \<in> {12, 14, 15} then
           d\<lparr>d_param_count := ucast (dword2 AND 0x1F), d_dest_selector := ucast (drop_bit 16 dword1),
             d_dest_offset := (dword2 AND 0xFFFF0000) OR (dword1 AND 0x0000FFFF), d_valid := 1\<rparr>
         else if d_type d = 5 then d\<lparr>d_tss_selector := ucast (drop_bit 16 dword1), d_valid := 1\<rparr>
         else if is_tss_or_ldt (d_type d) then seg
         else d)"

definition IS_CODE_SEGMENT :: "u8 \<Rightarrow> bool" where "IS_CODE_SEGMENT t \<longleftrightarrow> t AND 8 \<noteq> 0"
definition IS_CODE_SEGMENT_CONFORMING :: "u8 \<Rightarrow> bool" where "IS_CODE_SEGMENT_CONFORMING t \<longleftrightarrow> t AND 4 \<noteq> 0"
definition IS_CODE_SEGMENT_READABLE :: "u8 \<Rightarrow> bool" where "IS_CODE_SEGMENT_READABLE t \<longleftrightarrow> t AND 2 \<noteq> 0"
definition IS_DATA_SEGMENT_WRITEABLE :: "u8 \<Rightarrow> bool" where "IS_DATA_SEGMENT_WRITEABLE t \<longleftrightarrow> t AND 2 \<noteq> 0"
definition IS_SEGMENT_ACCESSED :: "u8 \<Rightarrow> bool" where "IS_SEGMENT_ACCESSED t \<longleftrightarrow> t AND 1 \<noteq> 0"

section \<open>The descriptor tables\<close>

definition descriptor_at :: "bx_selector \<Rightarrow> cpu \<Rightarrow> u32" where
  "descriptor_at sel s =
     (if sel_ti sel = 0 then gs_base (gdtr s) else d_base (seg_cache (ldtr s))) + ucast (sel_index sel) * 8"

text \<open>Whether the selector's entry lies within its table.\<close>

definition in_table :: "bx_selector \<Rightarrow> cpu \<Rightarrow> bool" where
  "in_table sel s \<longleftrightarrow>
     (let last = ucast (sel_index sel) * 8 + 7 :: u32 in
      if sel_ti sel = 0 then last \<le> ucast (gs_limit (gdtr s))
      else d_valid (seg_cache (ldtr s)) \<noteq> 0 \<and> last \<le> d_limit_scaled (seg_cache (ldtr s)))"

definition fetch_raw_descriptor :: "bx_selector \<Rightarrow> nat \<Rightarrow> (u32 \<times> u32) exec" where
  "fetch_raw_descriptor sel exception_no = (\<lambda>s.
     if \<not> in_table sel s then exception exception_no (sel_value sel AND 0xFFFC) s
     else bindM (system_read_qword (descriptor_at sel s)) (\<lambda>raw. ret (ucast raw, ucast (drop_bit 32 raw))) s)"

definition fetch_raw_descriptor2 :: "bx_selector \<Rightarrow> (u32 \<times> u32) option exec" where
  "fetch_raw_descriptor2 sel = (\<lambda>s.
     if \<not> in_table sel s then ret None s
     else bindM (system_read_qword (descriptor_at sel s)) (\<lambda>raw. ret (Some (ucast raw, ucast (drop_bit 32 raw)))) s)"

text \<open>Marks a descriptor accessed, in the table too, and returns it.\<close>

definition touch_segment :: "bx_selector \<Rightarrow> bx_descriptor \<Rightarrow> bx_descriptor exec" where
  "touch_segment sel d = (\<lambda>s.
     if IS_SEGMENT_ACCESSED (d_type d) then ret d s
     else let AR_byte = get_ar_byte d OR 1; d' = d\<lparr>d_type := d_type d OR 1\<rparr> in
       seqM (system_write_byte (descriptor_at sel s + 5) AR_byte) (ret d') s)"

section \<open>Loading a segment register\<close>

definition load_null_selector :: "u16 \<Rightarrow> bx_segment_reg \<Rightarrow> bx_segment_reg" where
  "load_null_selector v seg = seg
     \<lparr>seg_selector := \<lparr>sel_value = v, sel_index = 0, sel_ti = 0, sel_rpl = ucast (v AND 3)\<rparr>,
      seg_cache := seg_cache seg
        \<lparr>d_valid := 0, d_p := False, d_dpl := 0, d_segment := True, d_type := 0,
         d_base := 0, d_limit_scaled := 0, d_g := False, d_d_b := False, d_avl := False\<rparr>\<rparr>"

definition load_cache :: "nat \<Rightarrow> bx_selector \<Rightarrow> bx_descriptor \<Rightarrow> unit exec" where
  "load_cache r sel d = updM (set_sreg r \<lparr>seg_selector = sel, seg_cache = d\<lparr>d_valid := SegValidCache\<rparr>\<rparr>)"

definition load_ss_checked :: "u16 \<Rightarrow> bx_descriptor \<Rightarrow> unit exec" where
  "load_ss_checked new_value d0 =
     (let sel = parse_selector new_value; err = new_value AND 0xFFFC in
      if err = 0 then exception BX_GP_EXCEPTION err
      else bindM (fetch_raw_descriptor sel BX_GP_EXCEPTION) (\<lambda>(dword1, dword2) s.
        if sel_rpl sel \<noteq> CPL s then exception BX_GP_EXCEPTION err s
        else let d = parse_descriptor dword1 dword2 d0 in
          (if d_valid d = 0 then exception BX_GP_EXCEPTION err
           else if \<not> d_segment d \<or> IS_CODE_SEGMENT (d_type d) \<or> \<not> IS_DATA_SEGMENT_WRITEABLE (d_type d)
           then exception BX_GP_EXCEPTION err
           else if d_dpl d \<noteq> CPL s then exception BX_GP_EXCEPTION err
           else if \<not> d_p d then exception BX_SS_EXCEPTION err
           else bindM (touch_segment sel d) (load_cache SEG_SS sel)) s))"

definition load_data_checked :: "nat \<Rightarrow> u16 \<Rightarrow> bx_descriptor \<Rightarrow> unit exec" where
  "load_data_checked r new_value d0 =
     (let sel = parse_selector new_value; err = new_value AND 0xFFFC in
      if err = 0 then updM (\<lambda>s. set_sreg r (load_null_selector new_value (sregs s r)) s)
      else bindM (fetch_raw_descriptor sel BX_GP_EXCEPTION) (\<lambda>(dword1, dword2) s.
        let d = parse_descriptor dword1 dword2 d0 in
        (if d_valid d = 0 then exception BX_GP_EXCEPTION err
         else if \<not> d_segment d \<or> IS_CODE_SEGMENT (d_type d) \<and> \<not> IS_CODE_SEGMENT_READABLE (d_type d)
         then exception BX_GP_EXCEPTION err
         else if (\<not> IS_CODE_SEGMENT (d_type d) \<or> \<not> IS_CODE_SEGMENT_CONFORMING (d_type d))
           \<and> (d_dpl d < sel_rpl sel \<or> d_dpl d < CPL s)
         then exception BX_GP_EXCEPTION err
         else if \<not> d_p d then exception BX_NP_EXCEPTION err
         else bindM (touch_segment sel d) (load_cache r sel)) s))"

definition load_real_mode :: "nat \<Rightarrow> u16 \<Rightarrow> unit exec" where
  "load_real_mode r new_value = updM (\<lambda>s.
     let seg = sregs s r;
         seg1 = seg
           \<lparr>seg_selector := seg_selector seg\<lparr>sel_value := new_value, sel_rpl := (if real_mode s then 0 else 3)\<rparr>,
            seg_cache := seg_cache seg
              \<lparr>d_valid := SegValidCache, d_base := push_bit 4 (ucast new_value), d_segment := True, d_p := True\<rparr>\<rparr>;
         seg2 = (if real_mode s then seg1
           else seg1\<lparr>seg_cache := seg_cache seg1
             \<lparr>d_type := 3, d_dpl := 3, d_limit_scaled := 0xFFFF, d_g := False, d_d_b := False, d_avl := False\<rparr>\<rparr>);
         s1 = set_sreg r seg2 s
     in if r = SEG_CS then handleAlignmentCheck s1 else s1)"

text \<open>\<open>d0\<close> is what the local variable \<open>descriptor\<close> holds before it is parsed.\<close>

definition load_seg_reg :: "bx_descriptor \<Rightarrow> nat \<Rightarrow> u16 \<Rightarrow> unit exec" where
  "load_seg_reg d0 r new_value = (\<lambda>s.
     if protected_mode s then
       (if r = SEG_SS then load_ss_checked new_value d0
        else if r \<in> {SEG_DS, SEG_ES, SEG_FS, SEG_GS} then load_data_checked r new_value d0
        else raise Cpu_Panic) s
     else load_real_mode r new_value s)"

definition load_ss :: "bx_selector \<Rightarrow> bx_descriptor \<Rightarrow> u8 \<Rightarrow> unit exec" where
  "load_ss sel d cpl =
     (let sel1 = sel\<lparr>sel_value := (0xFFFC AND sel_value sel) OR ucast cpl\<rparr> in
      bindM (if sel_value sel1 AND 0xFFFC \<noteq> 0 then touch_segment sel1 d else ret d)
        (\<lambda>d'. load_cache SEG_SS (sel1\<lparr>sel_rpl := cpl\<rparr>) d'))"

definition validate_seg_reg :: "nat \<Rightarrow> cpu \<Rightarrow> cpu" where
  "validate_seg_reg r s =
     (let seg = sregs s r; d = seg_cache seg in
      if d_dpl d < CPL s \<and>
         (d_valid d = 0 \<or> \<not> d_segment d \<or> \<not> IS_CODE_SEGMENT (d_type d) \<or> \<not> IS_CODE_SEGMENT_CONFORMING (d_type d))
      then set_sreg r (seg\<lparr>seg_selector := seg_selector seg\<lparr>sel_value := 0\<rparr>, seg_cache := d\<lparr>d_valid := 0\<rparr>\<rparr>) s
      else s)"

definition validate_seg_regs :: "cpu \<Rightarrow> cpu" where
  "validate_seg_regs s =
     validate_seg_reg SEG_GS (validate_seg_reg SEG_FS (validate_seg_reg SEG_DS (validate_seg_reg SEG_ES s)))"

end
