(* ===== verification/Alu32.thy ===== *)
theory Alu32
  imports CpuAccess
begin

text \<open>
  The 32-bit arithmetic and logical instructions of the emulated CPU: one definition for each
  handler of P1/bochs-2.6.8/cpu/arith32.cc and logical32.cc. The suffix names the operands
  (E: register or memory, G: register, I: immediate) and whether E is a register (R) or in
  memory (M). \<open>BX_CLEAR_64BIT_HIGH\<close> does nothing in a 32-bit build, and \<open>BX_NEXT_INSTR\<close>
  returns.
\<close>

text \<open>The operand in memory, read for writing it back or only read.\<close>

definition rmw_Ed :: "bxInstruction \<Rightarrow> (u32 \<Rightarrow> 'a exec) \<Rightarrow> 'a exec" where
  "rmw_Ed i f = bindM (getM (ResolveModrm i)) (\<lambda>eaddr. bindM (read_RMW_virtual_dword (i_seg i) eaddr) f)"

definition load_Ed :: "bxInstruction \<Rightarrow> (u32 \<Rightarrow> 'a exec) \<Rightarrow> 'a exec" where
  "load_Ed i f = bindM (getM (ResolveModrm i)) (\<lambda>eaddr. bindM (read_virtual_dword (i_seg i) eaddr) f)"

section \<open>Arithmetic (arith32.cc)\<close>

definition INC_EdR :: "bxInstruction \<Rightarrow> unit exec" where
  "INC_EdR i =
     updM (\<lambda>s. let erx = gen_reg s (i_dst i) + 1
       in set_flags (SET_FLAGS_OSZAP_ADD 32 (erx - 1) 0 erx) (set_reg32 (i_dst i) erx s))"

definition DEC_EdR :: "bxInstruction \<Rightarrow> unit exec" where
  "DEC_EdR i =
     updM (\<lambda>s. let erx = gen_reg s (i_dst i) - 1
       in set_flags (SET_FLAGS_OSZAP_SUB 32 (erx + 1) 0 erx) (set_reg32 (i_dst i) erx s))"

definition ADD_EdGdM :: "bxInstruction \<Rightarrow> unit exec" where
  "ADD_EdGdM i =
     rmw_Ed i (\<lambda>op1_32 s. let op2_32 = gen_reg s (i_src i); sum_32 = op1_32 + op2_32 in
       seqM (write_RMW_linear_dword sum_32)
         (updM (set_flags (SET_FLAGS_OSZAPC_ADD 32 op1_32 op2_32 sum_32))) s)"

definition ADD_GdEdR :: "bxInstruction \<Rightarrow> unit exec" where
  "ADD_GdEdR i =
     updM (\<lambda>s. let op1_32 = gen_reg s (i_dst i); op2_32 = gen_reg s (i_src i); sum_32 = op1_32 + op2_32
       in set_flags (SET_FLAGS_OSZAPC_ADD 32 op1_32 op2_32 sum_32) (set_reg32 (i_dst i) sum_32 s))"

definition ADD_GdEdM :: "bxInstruction \<Rightarrow> unit exec" where
  "ADD_GdEdM i =
     load_Ed i (\<lambda>op2_32. updM (\<lambda>s. let op1_32 = gen_reg s (i_dst i); sum_32 = op1_32 + op2_32
       in set_flags (SET_FLAGS_OSZAPC_ADD 32 op1_32 op2_32 sum_32) (set_reg32 (i_dst i) sum_32 s)))"

definition ADC_EdGdM :: "bxInstruction \<Rightarrow> unit exec" where
  "ADC_EdGdM i =
     (\<lambda>s. let temp_CF = of_bool (getB_CF (oszapc s)) in
      rmw_Ed i (\<lambda>op1_32 s. let op2_32 = gen_reg s (i_src i); sum_32 = op1_32 + op2_32 + temp_CF in
        seqM (write_RMW_linear_dword sum_32)
          (updM (set_flags (SET_FLAGS_OSZAPC_ADD 32 op1_32 op2_32 sum_32))) s) s)"

definition ADC_GdEdR :: "bxInstruction \<Rightarrow> unit exec" where
  "ADC_GdEdR i =
     updM (\<lambda>s. let temp_CF = of_bool (getB_CF (oszapc s)); op1_32 = gen_reg s (i_dst i); op2_32 = gen_reg s (i_src i); sum_32 = op1_32 + op2_32 + temp_CF
       in set_flags (SET_FLAGS_OSZAPC_ADD 32 op1_32 op2_32 sum_32) (set_reg32 (i_dst i) sum_32 s))"

definition ADC_GdEdM :: "bxInstruction \<Rightarrow> unit exec" where
  "ADC_GdEdM i =
     (\<lambda>s. let temp_CF = of_bool (getB_CF (oszapc s)) in
      load_Ed i (\<lambda>op2_32. updM (\<lambda>s. let op1_32 = gen_reg s (i_dst i); sum_32 = op1_32 + op2_32 + temp_CF
        in set_flags (SET_FLAGS_OSZAPC_ADD 32 op1_32 op2_32 sum_32) (set_reg32 (i_dst i) sum_32 s))) s)"

definition SBB_EdGdM :: "bxInstruction \<Rightarrow> unit exec" where
  "SBB_EdGdM i =
     (\<lambda>s. let temp_CF = of_bool (getB_CF (oszapc s)) in
      rmw_Ed i (\<lambda>op1_32 s. let op2_32 = gen_reg s (i_src i); diff_32 = op1_32 - (op2_32 + temp_CF) in
        seqM (write_RMW_linear_dword diff_32)
          (updM (set_flags (SET_FLAGS_OSZAPC_SUB 32 op1_32 op2_32 diff_32))) s) s)"

definition SBB_GdEdR :: "bxInstruction \<Rightarrow> unit exec" where
  "SBB_GdEdR i =
     updM (\<lambda>s. let temp_CF = of_bool (getB_CF (oszapc s)); op1_32 = gen_reg s (i_dst i); op2_32 = gen_reg s (i_src i); diff_32 = op1_32 - (op2_32 + temp_CF)
       in set_flags (SET_FLAGS_OSZAPC_SUB 32 op1_32 op2_32 diff_32) (set_reg32 (i_dst i) diff_32 s))"

definition SBB_GdEdM :: "bxInstruction \<Rightarrow> unit exec" where
  "SBB_GdEdM i =
     (\<lambda>s. let temp_CF = of_bool (getB_CF (oszapc s)) in
      load_Ed i (\<lambda>op2_32. updM (\<lambda>s. let op1_32 = gen_reg s (i_dst i); diff_32 = op1_32 - (op2_32 + temp_CF)
        in set_flags (SET_FLAGS_OSZAPC_SUB 32 op1_32 op2_32 diff_32) (set_reg32 (i_dst i) diff_32 s))) s)"

definition SBB_EdIdM :: "bxInstruction \<Rightarrow> unit exec" where
  "SBB_EdIdM i =
     (\<lambda>s. let temp_CF = of_bool (getB_CF (oszapc s)) in
      rmw_Ed i (\<lambda>op1_32 s. let op2_32 = i_Id i; diff_32 = op1_32 - (op2_32 + temp_CF) in
        seqM (write_RMW_linear_dword diff_32)
          (updM (set_flags (SET_FLAGS_OSZAPC_SUB 32 op1_32 op2_32 diff_32))) s) s)"

definition SBB_EdIdR :: "bxInstruction \<Rightarrow> unit exec" where
  "SBB_EdIdR i =
     updM (\<lambda>s. let temp_CF = of_bool (getB_CF (oszapc s)); op1_32 = gen_reg s (i_dst i); op2_32 = i_Id i; diff_32 = op1_32 - (op2_32 + temp_CF)
       in set_flags (SET_FLAGS_OSZAPC_SUB 32 op1_32 op2_32 diff_32) (set_reg32 (i_dst i) diff_32 s))"

definition SUB_EdGdM :: "bxInstruction \<Rightarrow> unit exec" where
  "SUB_EdGdM i =
     rmw_Ed i (\<lambda>op1_32 s. let op2_32 = gen_reg s (i_src i); diff_32 = op1_32 - op2_32 in
       seqM (write_RMW_linear_dword diff_32)
         (updM (set_flags (SET_FLAGS_OSZAPC_SUB 32 op1_32 op2_32 diff_32))) s)"

definition SUB_GdEdR :: "bxInstruction \<Rightarrow> unit exec" where
  "SUB_GdEdR i =
     updM (\<lambda>s. let op1_32 = gen_reg s (i_dst i); op2_32 = gen_reg s (i_src i); diff_32 = op1_32 - op2_32
       in set_flags (SET_FLAGS_OSZAPC_SUB 32 op1_32 op2_32 diff_32) (set_reg32 (i_dst i) diff_32 s))"

definition SUB_GdEdM :: "bxInstruction \<Rightarrow> unit exec" where
  "SUB_GdEdM i =
     load_Ed i (\<lambda>op2_32. updM (\<lambda>s. let op1_32 = gen_reg s (i_dst i); diff_32 = op1_32 - op2_32
       in set_flags (SET_FLAGS_OSZAPC_SUB 32 op1_32 op2_32 diff_32) (set_reg32 (i_dst i) diff_32 s)))"

definition CMP_EdGdM :: "bxInstruction \<Rightarrow> unit exec" where
  "CMP_EdGdM i =
     load_Ed i (\<lambda>op1_32. updM (\<lambda>s. let op2_32 = gen_reg s (i_src i); diff_32 = op1_32 - op2_32
       in set_flags (SET_FLAGS_OSZAPC_SUB 32 op1_32 op2_32 diff_32) s))"

definition CMP_GdEdR :: "bxInstruction \<Rightarrow> unit exec" where
  "CMP_GdEdR i =
     updM (\<lambda>s. let op1_32 = gen_reg s (i_dst i); op2_32 = gen_reg s (i_src i); diff_32 = op1_32 - op2_32
       in set_flags (SET_FLAGS_OSZAPC_SUB 32 op1_32 op2_32 diff_32) s)"

definition CMP_GdEdM :: "bxInstruction \<Rightarrow> unit exec" where
  "CMP_GdEdM i =
     load_Ed i (\<lambda>op2_32. updM (\<lambda>s. let op1_32 = gen_reg s (i_dst i); diff_32 = op1_32 - op2_32
       in set_flags (SET_FLAGS_OSZAPC_SUB 32 op1_32 op2_32 diff_32) s))"

definition CWDE :: "bxInstruction \<Rightarrow> unit exec" where
  "CWDE i = updM (\<lambda>s. set_reg32 R_EAX (scast (reg16 R_EAX s)) s)"

definition CDQ :: "bxInstruction \<Rightarrow> unit exec" where
  "CDQ i =
     updM (\<lambda>s. if gen_reg s R_EAX AND 0x80000000 \<noteq> 0 then set_reg32 R_EDX 0xFFFFFFFF s
       else set_reg32 R_EDX 0 s)"

definition XADD_EdGdM :: "bxInstruction \<Rightarrow> unit exec" where
  "XADD_EdGdM i =
     rmw_Ed i (\<lambda>op1_32 s. let op2_32 = gen_reg s (i_src i); sum_32 = op1_32 + op2_32 in
       seqM (write_RMW_linear_dword sum_32)
         (updM (\<lambda>s. set_flags (SET_FLAGS_OSZAPC_ADD 32 op1_32 op2_32 sum_32) (set_reg32 (i_src i) op1_32 s))) s)"

definition XADD_EdGdR :: "bxInstruction \<Rightarrow> unit exec" where
  "XADD_EdGdR i =
     updM (\<lambda>s. let op1_32 = gen_reg s (i_dst i); op2_32 = gen_reg s (i_src i); sum_32 = op1_32 + op2_32
       in set_flags (SET_FLAGS_OSZAPC_ADD 32 op1_32 op2_32 sum_32)
            (set_reg32 (i_dst i) sum_32 (set_reg32 (i_src i) op1_32 s)))"

definition ADD_EdIdM :: "bxInstruction \<Rightarrow> unit exec" where
  "ADD_EdIdM i =
     rmw_Ed i (\<lambda>op1_32 s. let op2_32 = i_Id i; sum_32 = op1_32 + op2_32 in
       seqM (write_RMW_linear_dword sum_32)
         (updM (set_flags (SET_FLAGS_OSZAPC_ADD 32 op1_32 op2_32 sum_32))) s)"

definition ADD_EdIdR :: "bxInstruction \<Rightarrow> unit exec" where
  "ADD_EdIdR i =
     updM (\<lambda>s. let op1_32 = gen_reg s (i_dst i); op2_32 = i_Id i; sum_32 = op1_32 + op2_32
       in set_flags (SET_FLAGS_OSZAPC_ADD 32 op1_32 op2_32 sum_32) (set_reg32 (i_dst i) sum_32 s))"

definition ADC_EdIdM :: "bxInstruction \<Rightarrow> unit exec" where
  "ADC_EdIdM i =
     (\<lambda>s. let temp_CF = of_bool (getB_CF (oszapc s)) in
      rmw_Ed i (\<lambda>op1_32 s. let op2_32 = i_Id i; sum_32 = op1_32 + op2_32 + temp_CF in
        seqM (write_RMW_linear_dword sum_32)
          (updM (set_flags (SET_FLAGS_OSZAPC_ADD 32 op1_32 op2_32 sum_32))) s) s)"

definition ADC_EdIdR :: "bxInstruction \<Rightarrow> unit exec" where
  "ADC_EdIdR i =
     updM (\<lambda>s. let temp_CF = of_bool (getB_CF (oszapc s)); op1_32 = gen_reg s (i_dst i); op2_32 = i_Id i; sum_32 = op1_32 + op2_32 + temp_CF
       in set_flags (SET_FLAGS_OSZAPC_ADD 32 op1_32 op2_32 sum_32) (set_reg32 (i_dst i) sum_32 s))"

definition SUB_EdIdM :: "bxInstruction \<Rightarrow> unit exec" where
  "SUB_EdIdM i =
     rmw_Ed i (\<lambda>op1_32 s. let op2_32 = i_Id i; diff_32 = op1_32 - op2_32 in
       seqM (write_RMW_linear_dword diff_32)
         (updM (set_flags (SET_FLAGS_OSZAPC_SUB 32 op1_32 op2_32 diff_32))) s)"

definition SUB_EdIdR :: "bxInstruction \<Rightarrow> unit exec" where
  "SUB_EdIdR i =
     updM (\<lambda>s. let op1_32 = gen_reg s (i_dst i); op2_32 = i_Id i; diff_32 = op1_32 - op2_32
       in set_flags (SET_FLAGS_OSZAPC_SUB 32 op1_32 op2_32 diff_32) (set_reg32 (i_dst i) diff_32 s))"

definition CMP_EdIdM :: "bxInstruction \<Rightarrow> unit exec" where
  "CMP_EdIdM i =
     load_Ed i (\<lambda>op1_32. updM (\<lambda>s. let op2_32 = i_Id i; diff_32 = op1_32 - op2_32
       in set_flags (SET_FLAGS_OSZAPC_SUB 32 op1_32 op2_32 diff_32) s))"

definition CMP_EdIdR :: "bxInstruction \<Rightarrow> unit exec" where
  "CMP_EdIdR i =
     updM (\<lambda>s. let op1_32 = gen_reg s (i_dst i); op2_32 = i_Id i; diff_32 = op1_32 - op2_32
       in set_flags (SET_FLAGS_OSZAPC_SUB 32 op1_32 op2_32 diff_32) s)"

definition NEG_EdM :: "bxInstruction \<Rightarrow> unit exec" where
  "NEG_EdM i =
     rmw_Ed i (\<lambda>op. let op1_32 = - op in
       seqM (write_RMW_linear_dword op1_32) (updM (set_flags (SET_FLAGS_OSZAPC_SUB 32 0 (0 - op1_32) op1_32))))"

definition NEG_EdR :: "bxInstruction \<Rightarrow> unit exec" where
  "NEG_EdR i =
     updM (\<lambda>s. let op1_32 = - gen_reg s (i_dst i)
       in set_flags (SET_FLAGS_OSZAPC_SUB 32 0 (0 - op1_32) op1_32) (set_reg32 (i_dst i) op1_32 s))"

definition INC_EdM :: "bxInstruction \<Rightarrow> unit exec" where
  "INC_EdM i =
     rmw_Ed i (\<lambda>op. let op1_32 = op + 1 in
       seqM (write_RMW_linear_dword op1_32) (updM (set_flags (SET_FLAGS_OSZAP_ADD 32 (op1_32 - 1) 0 op1_32))))"

definition DEC_EdM :: "bxInstruction \<Rightarrow> unit exec" where
  "DEC_EdM i =
     rmw_Ed i (\<lambda>op. let op1_32 = op - 1 in
       seqM (write_RMW_linear_dword op1_32) (updM (set_flags (SET_FLAGS_OSZAP_SUB 32 (op1_32 + 1) 0 op1_32))))"

definition CMPXCHG_EdGdM :: "bxInstruction \<Rightarrow> unit exec" where
  "CMPXCHG_EdGdM i =
     rmw_Ed i (\<lambda>op1_32 s. let diff_32 = gen_reg s R_EAX - op1_32 in
       seqM (updM (set_flags (SET_FLAGS_OSZAPC_SUB 32 (gen_reg s R_EAX) op1_32 diff_32)))
         (if diff_32 = 0 then write_RMW_linear_dword (gen_reg s (i_src i))
          else seqM (write_RMW_linear_dword op1_32) (updM (set_reg32 R_EAX op1_32))) s)"

definition CMPXCHG_EdGdR :: "bxInstruction \<Rightarrow> unit exec" where
  "CMPXCHG_EdGdR i =
     updM (\<lambda>s. let op1_32 = gen_reg s (i_dst i); diff_32 = gen_reg s R_EAX - op1_32;
         s1 = set_flags (SET_FLAGS_OSZAPC_SUB 32 (gen_reg s R_EAX) op1_32 diff_32) s
       in if diff_32 = 0 then set_reg32 (i_dst i) (gen_reg s1 (i_src i)) s1 else set_reg32 R_EAX op1_32 s1)"

definition CMPXCHG8B :: "bxInstruction \<Rightarrow> unit exec" where
  "CMPXCHG8B i =
     bindM (getM (ResolveModrm i)) (\<lambda>eaddr.
     bindM (read_RMW_virtual_qword (i_seg i) eaddr) (\<lambda>op1_64 s.
       let op2_64 = push_bit 32 (ucast (gen_reg s R_EDX)) OR ucast (gen_reg s R_EAX) in
       (if op1_64 = op2_64
        then seqM (write_RMW_linear_qword (push_bit 32 (ucast (gen_reg s R_ECX)) OR ucast (gen_reg s R_EBX)))
               (updM (set_flags assert_ZF))
        else seqM (write_RMW_linear_qword op1_64)
               (updM (\<lambda>s. set_flags clear_ZF (set_reg32 R_EDX (ucast (drop_bit 32 op1_64)) (set_reg32 R_EAX (ucast op1_64) s))))) s))"

section \<open>Logic (logical32.cc)\<close>

definition XOR_EdGdM :: "bxInstruction \<Rightarrow> unit exec" where
  "XOR_EdGdM i =
     rmw_Ed i (\<lambda>op1_32 s. let op2_32 = gen_reg s (i_src i); op1_32' = op1_32 XOR op2_32 in
       seqM (write_RMW_linear_dword op1_32')
         (updM (set_flags (SET_FLAGS_OSZAPC_LOGIC 32 op1_32'))) s)"

definition XOR_GdEdR :: "bxInstruction \<Rightarrow> unit exec" where
  "XOR_GdEdR i =
     updM (\<lambda>s. let op1_32 = gen_reg s (i_dst i); op2_32 = gen_reg s (i_src i); op1_32' = op1_32 XOR op2_32
       in set_flags (SET_FLAGS_OSZAPC_LOGIC 32 op1_32') (set_reg32 (i_dst i) op1_32' s))"

definition XOR_GdEdM :: "bxInstruction \<Rightarrow> unit exec" where
  "XOR_GdEdM i =
     load_Ed i (\<lambda>op2_32. updM (\<lambda>s. let op1_32 = gen_reg s (i_dst i); op1_32' = op1_32 XOR op2_32
       in set_flags (SET_FLAGS_OSZAPC_LOGIC 32 op1_32') (set_reg32 (i_dst i) op1_32' s)))"

definition XOR_EdIdM :: "bxInstruction \<Rightarrow> unit exec" where
  "XOR_EdIdM i =
     rmw_Ed i (\<lambda>op1_32 s. let op2_32 = i_Id i; op1_32' = op1_32 XOR op2_32 in
       seqM (write_RMW_linear_dword op1_32')
         (updM (set_flags (SET_FLAGS_OSZAPC_LOGIC 32 op1_32'))) s)"

definition XOR_EdIdR :: "bxInstruction \<Rightarrow> unit exec" where
  "XOR_EdIdR i =
     updM (\<lambda>s. let op1_32 = gen_reg s (i_dst i); op2_32 = i_Id i; op1_32' = op1_32 XOR op2_32
       in set_flags (SET_FLAGS_OSZAPC_LOGIC 32 op1_32') (set_reg32 (i_dst i) op1_32' s))"

definition OR_EdIdM :: "bxInstruction \<Rightarrow> unit exec" where
  "OR_EdIdM i =
     rmw_Ed i (\<lambda>op1_32 s. let op2_32 = i_Id i; op1_32' = op1_32 OR op2_32 in
       seqM (write_RMW_linear_dword op1_32')
         (updM (set_flags (SET_FLAGS_OSZAPC_LOGIC 32 op1_32'))) s)"

definition OR_EdIdR :: "bxInstruction \<Rightarrow> unit exec" where
  "OR_EdIdR i =
     updM (\<lambda>s. let op1_32 = gen_reg s (i_dst i); op2_32 = i_Id i; op1_32' = op1_32 OR op2_32
       in set_flags (SET_FLAGS_OSZAPC_LOGIC 32 op1_32') (set_reg32 (i_dst i) op1_32' s))"

definition NOT_EdM :: "bxInstruction \<Rightarrow> unit exec" where
  "NOT_EdM i = rmw_Ed i (\<lambda>op1_32. write_RMW_linear_dword (NOT op1_32))"

definition NOT_EdR :: "bxInstruction \<Rightarrow> unit exec" where
  "NOT_EdR i = updM (\<lambda>s. set_reg32 (i_dst i) (NOT (gen_reg s (i_dst i))) s)"

definition OR_EdGdM :: "bxInstruction \<Rightarrow> unit exec" where
  "OR_EdGdM i =
     rmw_Ed i (\<lambda>op1_32 s. let op2_32 = gen_reg s (i_src i); op1_32' = op1_32 OR op2_32 in
       seqM (write_RMW_linear_dword op1_32')
         (updM (set_flags (SET_FLAGS_OSZAPC_LOGIC 32 op1_32'))) s)"

definition OR_GdEdR :: "bxInstruction \<Rightarrow> unit exec" where
  "OR_GdEdR i =
     updM (\<lambda>s. let op1_32 = gen_reg s (i_dst i); op2_32 = gen_reg s (i_src i); op1_32' = op1_32 OR op2_32
       in set_flags (SET_FLAGS_OSZAPC_LOGIC 32 op1_32') (set_reg32 (i_dst i) op1_32' s))"

definition OR_GdEdM :: "bxInstruction \<Rightarrow> unit exec" where
  "OR_GdEdM i =
     load_Ed i (\<lambda>op2_32. updM (\<lambda>s. let op1_32 = gen_reg s (i_dst i); op1_32' = op1_32 OR op2_32
       in set_flags (SET_FLAGS_OSZAPC_LOGIC 32 op1_32') (set_reg32 (i_dst i) op1_32' s)))"

definition AND_EdGdM :: "bxInstruction \<Rightarrow> unit exec" where
  "AND_EdGdM i =
     rmw_Ed i (\<lambda>op1_32 s. let op2_32 = gen_reg s (i_src i); op1_32' = op1_32 AND op2_32 in
       seqM (write_RMW_linear_dword op1_32')
         (updM (set_flags (SET_FLAGS_OSZAPC_LOGIC 32 op1_32'))) s)"

definition AND_GdEdR :: "bxInstruction \<Rightarrow> unit exec" where
  "AND_GdEdR i =
     updM (\<lambda>s. let op1_32 = gen_reg s (i_dst i); op2_32 = gen_reg s (i_src i); op1_32' = op1_32 AND op2_32
       in set_flags (SET_FLAGS_OSZAPC_LOGIC 32 op1_32') (set_reg32 (i_dst i) op1_32' s))"

definition AND_GdEdM :: "bxInstruction \<Rightarrow> unit exec" where
  "AND_GdEdM i =
     load_Ed i (\<lambda>op2_32. updM (\<lambda>s. let op1_32 = gen_reg s (i_dst i); op1_32' = op1_32 AND op2_32
       in set_flags (SET_FLAGS_OSZAPC_LOGIC 32 op1_32') (set_reg32 (i_dst i) op1_32' s)))"

definition AND_EdIdM :: "bxInstruction \<Rightarrow> unit exec" where
  "AND_EdIdM i =
     rmw_Ed i (\<lambda>op1_32 s. let op2_32 = i_Id i; op1_32' = op1_32 AND op2_32 in
       seqM (write_RMW_linear_dword op1_32')
         (updM (set_flags (SET_FLAGS_OSZAPC_LOGIC 32 op1_32'))) s)"

definition AND_EdIdR :: "bxInstruction \<Rightarrow> unit exec" where
  "AND_EdIdR i =
     updM (\<lambda>s. let op1_32 = gen_reg s (i_dst i); op2_32 = i_Id i; op1_32' = op1_32 AND op2_32
       in set_flags (SET_FLAGS_OSZAPC_LOGIC 32 op1_32') (set_reg32 (i_dst i) op1_32' s))"

definition TEST_EdGdR :: "bxInstruction \<Rightarrow> unit exec" where
  "TEST_EdGdR i =
     updM (\<lambda>s. let op1_32 = gen_reg s (i_dst i); op2_32 = gen_reg s (i_src i); op1_32' = op1_32 AND op2_32
       in set_flags (SET_FLAGS_OSZAPC_LOGIC 32 op1_32') s)"

definition TEST_EdGdM :: "bxInstruction \<Rightarrow> unit exec" where
  "TEST_EdGdM i =
     load_Ed i (\<lambda>op1_32. updM (\<lambda>s. let op2_32 = gen_reg s (i_src i); op1_32' = op1_32 AND op2_32
       in set_flags (SET_FLAGS_OSZAPC_LOGIC 32 op1_32') s))"

definition TEST_EdIdR :: "bxInstruction \<Rightarrow> unit exec" where
  "TEST_EdIdR i =
     updM (\<lambda>s. let op1_32 = gen_reg s (i_dst i); op2_32 = i_Id i; op1_32' = op1_32 AND op2_32
       in set_flags (SET_FLAGS_OSZAPC_LOGIC 32 op1_32') s)"

definition TEST_EdIdM :: "bxInstruction \<Rightarrow> unit exec" where
  "TEST_EdIdM i =
     load_Ed i (\<lambda>op1_32. updM (\<lambda>s. let op2_32 = i_Id i; op1_32' = op1_32 AND op2_32
       in set_flags (SET_FLAGS_OSZAPC_LOGIC 32 op1_32') s))"

end
