(* ===== verification/Mov32.thy ===== *)
theory Mov32
  imports Alu32 "HOL-Library.Signed_Division"
begin

text \<open>
  32-bit moves, exchanges and conditional moves (P1/bochs-2.6.8/cpu/data_xfer32.cc) and the
  multiplications and divisions (mult32.cc), one definition for each handler. The 32-bit
  address forms of the accesses are the general ones: the build has no 64-bit mode.
\<close>

section \<open>Moves (data_xfer32.cc)\<close>

definition MOV_EdIdM :: "bxInstruction \<Rightarrow> unit exec" where
  "MOV_EdIdM i =
     bindM (getM (ResolveModrm i)) (\<lambda>eaddr. write_virtual_dword (i_seg i) eaddr (i_Id i))"

definition MOV_EdIdR :: "bxInstruction \<Rightarrow> unit exec" where
  "MOV_EdIdR i = updM (set_reg32 (i_dst i) (i_Id i))"

definition MOV32_EdGdM :: "bxInstruction \<Rightarrow> unit exec" where
  "MOV32_EdGdM i =
     bindM (getM (ResolveModrm i)) (\<lambda>eaddr.
     bindM (getM (\<lambda>s. gen_reg s (i_src i))) (write_virtual_dword (i_seg i) eaddr))"

definition MOV32S_EdGdM :: "bxInstruction \<Rightarrow> unit exec" where
  "MOV32S_EdGdM i =
     bindM (getM (ResolveModrm i)) (\<lambda>eaddr.
     bindM (getM (\<lambda>s. gen_reg s (i_src i))) (stack_write_dword eaddr))"

definition MOV_GdEdR :: "bxInstruction \<Rightarrow> unit exec" where
  "MOV_GdEdR i = updM (\<lambda>s. set_reg32 (i_dst i) (gen_reg s (i_src i)) s)"

definition MOV32_GdEdM :: "bxInstruction \<Rightarrow> unit exec" where
  "MOV32_GdEdM i =
     bindM (getM (ResolveModrm i)) (\<lambda>eaddr.
     bindM (read_virtual_dword (i_seg i) eaddr) (\<lambda>val32. updM (set_reg32 (i_dst i) val32)))"

definition MOV32S_GdEdM :: "bxInstruction \<Rightarrow> unit exec" where
  "MOV32S_GdEdM i =
     bindM (getM (ResolveModrm i)) (\<lambda>eaddr.
     bindM (stack_read_dword eaddr) (\<lambda>val32. updM (set_reg32 (i_dst i) val32)))"

definition LEA_GdM :: "bxInstruction \<Rightarrow> unit exec" where
  "LEA_GdM i = bindM (getM (ResolveModrm i)) (\<lambda>eaddr. updM (set_reg32 (i_dst i) eaddr))"

definition MOV_EAXOd :: "bxInstruction \<Rightarrow> unit exec" where
  "MOV_EAXOd i =
     bindM (read_virtual_dword (i_seg i) (i_Id i)) (\<lambda>v. updM (set_reg32 R_EAX v))"

definition MOV_OdEAX :: "bxInstruction \<Rightarrow> unit exec" where
  "MOV_OdEAX i = bindM (getM (\<lambda>s. gen_reg s R_EAX)) (write_virtual_dword (i_seg i) (i_Id i))"

definition MOVZX_GdEbM :: "bxInstruction \<Rightarrow> unit exec" where
  "MOVZX_GdEbM i =
     bindM (getM (ResolveModrm i)) (\<lambda>eaddr.
     bindM (read_virtual_byte (i_seg i) eaddr) (\<lambda>op2_8. updM (set_reg32 (i_dst i) (ucast op2_8))))"

definition MOVZX_GdEbR :: "bxInstruction \<Rightarrow> unit exec" where
  "MOVZX_GdEbR i = updM (\<lambda>s. set_reg32 (i_dst i) (ucast (reg8 (i_src i) s)) s)"

definition MOVZX_GdEwM :: "bxInstruction \<Rightarrow> unit exec" where
  "MOVZX_GdEwM i =
     bindM (getM (ResolveModrm i)) (\<lambda>eaddr.
     bindM (read_virtual_word (i_seg i) eaddr) (\<lambda>op2_16. updM (set_reg32 (i_dst i) (ucast op2_16))))"

definition MOVZX_GdEwR :: "bxInstruction \<Rightarrow> unit exec" where
  "MOVZX_GdEwR i = updM (\<lambda>s. set_reg32 (i_dst i) (ucast (reg16 (i_src i) s)) s)"

definition MOVSX_GdEbM :: "bxInstruction \<Rightarrow> unit exec" where
  "MOVSX_GdEbM i =
     bindM (getM (ResolveModrm i)) (\<lambda>eaddr.
     bindM (read_virtual_byte (i_seg i) eaddr) (\<lambda>op2_8. updM (set_reg32 (i_dst i) (scast op2_8))))"

definition MOVSX_GdEbR :: "bxInstruction \<Rightarrow> unit exec" where
  "MOVSX_GdEbR i = updM (\<lambda>s. set_reg32 (i_dst i) (scast (reg8 (i_src i) s)) s)"

definition MOVSX_GdEwM :: "bxInstruction \<Rightarrow> unit exec" where
  "MOVSX_GdEwM i =
     bindM (getM (ResolveModrm i)) (\<lambda>eaddr.
     bindM (read_virtual_word (i_seg i) eaddr) (\<lambda>op2_16. updM (set_reg32 (i_dst i) (scast op2_16))))"

definition MOVSX_GdEwR :: "bxInstruction \<Rightarrow> unit exec" where
  "MOVSX_GdEwR i = updM (\<lambda>s. set_reg32 (i_dst i) (scast (reg16 (i_src i) s)) s)"

definition XCHG_EdGdM :: "bxInstruction \<Rightarrow> unit exec" where
  "XCHG_EdGdM i =
     rmw_Ed i (\<lambda>op1_32 s. let op2_32 = gen_reg s (i_src i) in
       seqM (write_RMW_linear_dword op2_32) (updM (set_reg32 (i_src i) op1_32)) s)"

definition XCHG_EdGdR :: "bxInstruction \<Rightarrow> unit exec" where
  "XCHG_EdGdR i =
     updM (\<lambda>s. let op1_32 = gen_reg s (i_dst i); op2_32 = gen_reg s (i_src i)
       in set_reg32 (i_dst i) op2_32 (set_reg32 (i_src i) op1_32 s))"

definition CMOVO_GdEdR :: "bxInstruction \<Rightarrow> unit exec" where
  "CMOVO_GdEdR i =
     updM (\<lambda>s. if getB_OF (oszapc s)
       then set_reg32 (i_dst i) (gen_reg s (i_src i)) s else s)"

definition CMOVNO_GdEdR :: "bxInstruction \<Rightarrow> unit exec" where
  "CMOVNO_GdEdR i =
     updM (\<lambda>s. if \<not> getB_OF (oszapc s)
       then set_reg32 (i_dst i) (gen_reg s (i_src i)) s else s)"

definition CMOVB_GdEdR :: "bxInstruction \<Rightarrow> unit exec" where
  "CMOVB_GdEdR i =
     updM (\<lambda>s. if getB_CF (oszapc s)
       then set_reg32 (i_dst i) (gen_reg s (i_src i)) s else s)"

definition CMOVNB_GdEdR :: "bxInstruction \<Rightarrow> unit exec" where
  "CMOVNB_GdEdR i =
     updM (\<lambda>s. if \<not> getB_CF (oszapc s)
       then set_reg32 (i_dst i) (gen_reg s (i_src i)) s else s)"

definition CMOVZ_GdEdR :: "bxInstruction \<Rightarrow> unit exec" where
  "CMOVZ_GdEdR i =
     updM (\<lambda>s. if getB_ZF (oszapc s)
       then set_reg32 (i_dst i) (gen_reg s (i_src i)) s else s)"

definition CMOVNZ_GdEdR :: "bxInstruction \<Rightarrow> unit exec" where
  "CMOVNZ_GdEdR i =
     updM (\<lambda>s. if \<not> getB_ZF (oszapc s)
       then set_reg32 (i_dst i) (gen_reg s (i_src i)) s else s)"

definition CMOVBE_GdEdR :: "bxInstruction \<Rightarrow> unit exec" where
  "CMOVBE_GdEdR i =
     updM (\<lambda>s. if getB_CF (oszapc s) \<or> getB_ZF (oszapc s)
       then set_reg32 (i_dst i) (gen_reg s (i_src i)) s else s)"

definition CMOVNBE_GdEdR :: "bxInstruction \<Rightarrow> unit exec" where
  "CMOVNBE_GdEdR i =
     updM (\<lambda>s. if \<not> (getB_CF (oszapc s) \<or> getB_ZF (oszapc s))
       then set_reg32 (i_dst i) (gen_reg s (i_src i)) s else s)"

definition CMOVS_GdEdR :: "bxInstruction \<Rightarrow> unit exec" where
  "CMOVS_GdEdR i =
     updM (\<lambda>s. if getB_SF (oszapc s)
       then set_reg32 (i_dst i) (gen_reg s (i_src i)) s else s)"

definition CMOVNS_GdEdR :: "bxInstruction \<Rightarrow> unit exec" where
  "CMOVNS_GdEdR i =
     updM (\<lambda>s. if \<not> getB_SF (oszapc s)
       then set_reg32 (i_dst i) (gen_reg s (i_src i)) s else s)"

definition CMOVP_GdEdR :: "bxInstruction \<Rightarrow> unit exec" where
  "CMOVP_GdEdR i =
     updM (\<lambda>s. if getB_PF (oszapc s)
       then set_reg32 (i_dst i) (gen_reg s (i_src i)) s else s)"

definition CMOVNP_GdEdR :: "bxInstruction \<Rightarrow> unit exec" where
  "CMOVNP_GdEdR i =
     updM (\<lambda>s. if \<not> getB_PF (oszapc s)
       then set_reg32 (i_dst i) (gen_reg s (i_src i)) s else s)"

definition CMOVL_GdEdR :: "bxInstruction \<Rightarrow> unit exec" where
  "CMOVL_GdEdR i =
     updM (\<lambda>s. if getB_SF (oszapc s) \<noteq> getB_OF (oszapc s)
       then set_reg32 (i_dst i) (gen_reg s (i_src i)) s else s)"

definition CMOVNL_GdEdR :: "bxInstruction \<Rightarrow> unit exec" where
  "CMOVNL_GdEdR i =
     updM (\<lambda>s. if getB_SF (oszapc s) = getB_OF (oszapc s)
       then set_reg32 (i_dst i) (gen_reg s (i_src i)) s else s)"

definition CMOVLE_GdEdR :: "bxInstruction \<Rightarrow> unit exec" where
  "CMOVLE_GdEdR i =
     updM (\<lambda>s. if getB_ZF (oszapc s) \<or> getB_SF (oszapc s) \<noteq> getB_OF (oszapc s)
       then set_reg32 (i_dst i) (gen_reg s (i_src i)) s else s)"

definition CMOVNLE_GdEdR :: "bxInstruction \<Rightarrow> unit exec" where
  "CMOVNLE_GdEdR i =
     updM (\<lambda>s. if \<not> getB_ZF (oszapc s) \<and> getB_SF (oszapc s) = getB_OF (oszapc s)
       then set_reg32 (i_dst i) (gen_reg s (i_src i)) s else s)"

section \<open>Multiplication and division (mult32.cc)\<close>

definition MUL_EAXEdR :: "bxInstruction \<Rightarrow> unit exec" where
  "MUL_EAXEdR i =
     updM (\<lambda>s. let op1_32 = gen_reg s R_EAX; op2_32 = gen_reg s (i_src i);
         product_64 = ucast op1_32 * ucast op2_32 :: 64 word;
         product_32l = ucast product_64 :: u32; product_32h = ucast (drop_bit 32 product_64) :: u32;
         s1 = set_reg32 R_EDX product_32h (set_reg32 R_EAX product_32l s);
         s2 = set_flags (SET_FLAGS_OSZAPC_LOGIC 32 product_32l) s1
       in if product_32h \<noteq> 0 then set_flags (SET_FLAGS_OxxxxC True True) s2 else s2)"

definition IMUL_EAXEdR :: "bxInstruction \<Rightarrow> unit exec" where
  "IMUL_EAXEdR i =
     updM (\<lambda>s. let op1_32 = gen_reg s R_EAX; op2_32 = gen_reg s (i_src i);
         product_64 = scast op1_32 * scast op2_32 :: 64 word;
         product_32l = ucast product_64 :: u32; product_32h = ucast (drop_bit 32 product_64) :: u32;
         s1 = set_reg32 R_EDX product_32h (set_reg32 R_EAX product_32l s);
         s2 = set_flags (SET_FLAGS_OSZAPC_LOGIC 32 product_32l) s1
       in if product_64 \<noteq> scast (ucast product_64 :: u32) then set_flags (SET_FLAGS_OxxxxC True True) s2 else s2)"

definition DIV_EAXEdR :: "bxInstruction \<Rightarrow> unit exec" where
  "DIV_EAXEdR i =
     (\<lambda>s. let op2_32 = gen_reg s (i_src i) in
       if op2_32 = 0 then exception BX_DE_EXCEPTION 0 s
       else let op1_64 = push_bit 32 (ucast (gen_reg s R_EDX)) + ucast (gen_reg s R_EAX) :: 64 word;
                quotient_64 = op1_64 div ucast op2_32; remainder_32 = ucast (op1_64 mod ucast op2_32) :: u32;
                quotient_32l = ucast (quotient_64 AND 0xFFFFFFFF) :: u32
         in if quotient_64 \<noteq> ucast quotient_32l then exception BX_DE_EXCEPTION 0 s
            else updM (set_reg32 R_EDX remainder_32 o set_reg32 R_EAX quotient_32l) s)"

definition IDIV_EAXEdR :: "bxInstruction \<Rightarrow> unit exec" where
  "IDIV_EAXEdR i =
     (\<lambda>s. let op1_64 = push_bit 32 (ucast (gen_reg s R_EDX)) OR ucast (gen_reg s R_EAX) :: 64 word;
         op2_32 = gen_reg s (i_src i) in
       if op1_64 = 0x8000000000000000 then exception BX_DE_EXCEPTION 0 s
       else if op2_32 = 0 then exception BX_DE_EXCEPTION 0 s
       else let quotient_64 = sint op1_64 sdiv sint op2_32; remainder_32 = word_of_int (sint op1_64 smod sint op2_32) :: u32;
                quotient_32l = word_of_int quotient_64 :: u32
         in if quotient_64 \<noteq> sint quotient_32l then exception BX_DE_EXCEPTION 0 s
            else updM (set_reg32 R_EDX remainder_32 o set_reg32 R_EAX quotient_32l) s)"

definition IMUL_GdEdIdR :: "bxInstruction \<Rightarrow> unit exec" where
  "IMUL_GdEdIdR i =
     updM (\<lambda>s. let op2_32 = gen_reg s (i_src i); op3_32 = i_Id i;
         product_64 = scast op2_32 * scast op3_32 :: 64 word; product_32 = ucast (product_64 AND 0xFFFFFFFF) :: u32;
         s1 = set_flags (SET_FLAGS_OSZAPC_LOGIC 32 product_32) (set_reg32 (i_dst i) product_32 s)
       in if product_64 \<noteq> scast (ucast product_64 :: u32) then set_flags (SET_FLAGS_OxxxxC True True) s1 else s1)"

definition IMUL_GdEdR :: "bxInstruction \<Rightarrow> unit exec" where
  "IMUL_GdEdR i =
     updM (\<lambda>s. let op1_32 = gen_reg s (i_dst i); op2_32 = gen_reg s (i_src i);
         product_64 = scast op1_32 * scast op2_32 :: 64 word; product_32 = ucast (product_64 AND 0xFFFFFFFF) :: u32;
         s1 = set_flags (SET_FLAGS_OSZAPC_LOGIC 32 product_32) (set_reg32 (i_dst i) product_32 s)
       in if product_64 \<noteq> scast (ucast product_64 :: u32) then set_flags (SET_FLAGS_OxxxxC True True) s1 else s1)"

end
