(* ===== verification/StackFlags.thy ===== *)
theory StackFlags
  imports Segments Mov32
begin

text \<open>
  Stack instructions with 32-bit operands (P1/bochs-2.6.8/cpu/stack32.cc) and the instructions
  on EFLAGS (flag_ctrl.cc, flag_ctrl_pro.cc). The arithmetic flags live in the lazy state;
  \<open>force_flags\<close> writes them into EFLAGS and \<open>setEFlags\<close> loads both.
\<close>

section \<open>EFLAGS (flag_ctrl_pro.cc)\<close>

definition EFlagsOSZAPCMask :: u32 where "EFlagsOSZAPCMask = 0x8D5"
definition EFlagsTFMask :: u32 where "EFlagsTFMask = 0x100"
definition EFlagsIFMask :: u32 where "EFlagsIFMask = 0x200"
definition EFlagsDFMask :: u32 where "EFlagsDFMask = 0x400"
definition EFlagsIOPLMask :: u32 where "EFlagsIOPLMask = 0x3000"
definition EFlagsNTMask :: u32 where "EFlagsNTMask = 0x4000"
definition EFlagsRFMask :: u32 where "EFlagsRFMask = 0x10000"
definition EFlagsVMMask :: u32 where "EFlagsVMMask = 0x20000"
definition EFlagsACMask :: u32 where "EFlagsACMask = 0x40000"
definition EFlagsVIFMask :: u32 where "EFlagsVIFMask = 0x80000"
definition EFlagsVIPMask :: u32 where "EFlagsVIPMask = 0x100000"
definition EFlagsIDMask :: u32 where "EFlagsIDMask = 0x200000"

definition force_flags :: "cpu \<Rightarrow> cpu" where
  "force_flags s =
     (let f = oszapc s;
          newflags = of_bool (getB_CF f) OR push_bit 2 (of_bool (getB_PF f)) OR push_bit 4 (of_bool (getB_AF f))
            OR push_bit 6 (of_bool (getB_ZF f)) OR push_bit 7 (of_bool (getB_SF f)) OR push_bit 11 (of_bool (getB_OF f))
      in s\<lparr>eflags := (eflags s AND NOT EFlagsOSZAPCMask) OR (newflags AND EFlagsOSZAPCMask)\<rparr>)"

text \<open>\<open>read_eflags\<close>: the value of the forced flags.\<close>

definition read_eflags :: "u32 exec" where
  "read_eflags = seqM (updM force_flags) (getM eflags)"

definition setEFlags :: "u32 \<Rightarrow> cpu \<Rightarrow> cpu" where
  "setEFlags new_eflags s =
     (let old = eflags s;
          s1 = set_flags (setEFlagsOSZAPC new_eflags) (s\<lparr>eflags := new_eflags\<rparr>);
          s2 = (if get_flag 8 s1 then s1\<lparr>async_event := 1\<rparr> else s1);
          s3 = (if (old XOR new_eflags) AND EFlagsIFMask \<noteq> 0 then handleInterruptMaskChange s2 else s2);
          s4 = handleAlignmentCheck s3
      in if (old XOR new_eflags) AND EFlagsVMMask \<noteq> 0 then handleCpuModeChange s4 else s4)"

definition writeEFlags :: "u32 \<Rightarrow> u32 \<Rightarrow> cpu \<Rightarrow> cpu" where
  "writeEFlags fl changeMask s =
     (let supportMask = 0x00037FD5 OR (EFlagsIDMask OR EFlagsACMask) OR (EFlagsVIPMask OR EFlagsVIFMask);
          cm = changeMask AND supportMask; s1 = force_flags s;
          newEFlags = (eflags s1 AND NOT cm) OR (fl AND cm)
      in setEFlags newEFlags s1)"

definition write_flags :: "u16 \<Rightarrow> bool \<Rightarrow> bool \<Rightarrow> cpu \<Rightarrow> cpu" where
  "write_flags fl change_IOPL change_IF =
     writeEFlags (ucast fl) (0x0DD5 OR EFlagsNTMask OR (if change_IOPL then EFlagsIOPLMask else 0)
       OR (if change_IF then EFlagsIFMask else 0))"

section \<open>Flag instructions (flag_ctrl.cc)\<close>

definition AH :: "cpu \<Rightarrow> u8" where
  "AH s = reg8 4 s"

definition SAHF :: "bxInstruction \<Rightarrow> unit exec" where
  "SAHF i = updM (\<lambda>s.
     let ah = AH s; b = (\<lambda>m. ah AND m \<noteq> 0) in
     set_flags (\<lambda>f. set_PF (b 0x04) (set_CF (b 0x01) (set_AF (b 0x10) (set_ZF (b 0x40) (set_SF (b 0x80) f))))) s)"

definition LAHF :: "bxInstruction \<Rightarrow> unit exec" where
  "LAHF i = bindM read_eflags (\<lambda>fl. updM (set_reg8 4 (ucast (fl AND 0xFF))))"

definition CLC :: "bxInstruction \<Rightarrow> unit exec" where
  "CLC i = updM (set_flags (set_CF False))"

definition STC :: "bxInstruction \<Rightarrow> unit exec" where
  "STC i = updM (set_flags (set_CF True))"

definition CMC :: "bxInstruction \<Rightarrow> unit exec" where
  "CMC i = updM (\<lambda>s. set_flags (set_CF (\<not> getB_CF (oszapc s))) s)"

definition clear_IF :: "cpu \<Rightarrow> cpu" where
  "clear_IF s = handleInterruptMaskChange (clear_flag 9 s)"

definition assert_IF :: "cpu \<Rightarrow> cpu" where
  "assert_IF s = handleInterruptMaskChange (assert_flag 9 s)"

definition cpl32 :: "cpu \<Rightarrow> u32" where
  "cpl32 s = ucast (CPL s)"

definition CLI :: "bxInstruction \<Rightarrow> unit exec" where
  "CLI i = (\<lambda>s.
     let IOPL = get_IOPL s in
     if protected_mode s then
       (if get_PVI s \<and> CPL s = 3 then
          (if IOPL < 3 then updM (clear_flag 19) s else updM clear_IF s)
        else if IOPL < cpl32 s then exception BX_GP_EXCEPTION 0 s
        else updM clear_IF s)
     else if v8086_mode s then
       (if IOPL \<noteq> 3 then (if get_VME s then updM (clear_flag 19) s else exception BX_GP_EXCEPTION 0 s)
        else updM clear_IF s)
     else updM clear_IF s)"

definition enable_interrupts :: "unit exec" where
  "enable_interrupts = updM (\<lambda>s. if get_flag 9 s then s else inhibit_interrupts BX_INHIBIT_INTERRUPTS (assert_IF s))"

definition STI :: "bxInstruction \<Rightarrow> unit exec" where
  "STI i = (\<lambda>s.
     let IOPL = get_IOPL s in
     if protected_mode s then
       (if get_PVI s \<and> CPL s = 3 \<and> IOPL < 3 then
          (if \<not> get_flag 20 s then updM (assert_flag 19) s else exception BX_GP_EXCEPTION 0 s)
        else if IOPL < cpl32 s then exception BX_GP_EXCEPTION 0 s
        else enable_interrupts s)
     else if v8086_mode s then
       (if IOPL \<noteq> 3 then
          (if get_VME s \<and> \<not> get_flag 20 s then updM (assert_flag 19) s else exception BX_GP_EXCEPTION 0 s)
        else enable_interrupts s)
     else enable_interrupts s)"

definition CLD :: "bxInstruction \<Rightarrow> unit exec" where
  "CLD i = updM (clear_flag 10)"

definition STD :: "bxInstruction \<Rightarrow> unit exec" where
  "STD i = updM (assert_flag 10)"

definition RSP_SPECULATIVE :: "unit exec" where
  "RSP_SPECULATIVE = updM (\<lambda>s. s\<lparr>speculative_rsp := True, prev_rsp := gen_reg s R_ESP\<rparr>)"

definition RSP_COMMIT :: "unit exec" where
  "RSP_COMMIT = updM (\<lambda>s. s\<lparr>speculative_rsp := False\<rparr>)"

definition PUSHF_Fw :: "bxInstruction \<Rightarrow> unit exec" where
  "PUSHF_Fw i = bindM read_eflags (\<lambda>fl s.
     let fl16 = ucast fl :: u16 in
     if v8086_mode s \<and> get_IOPL s < 3 then
       (if get_VME s then
          push_16 (let fl' = fl16 OR ucast EFlagsIOPLMask in
            if get_flag 19 s then fl' OR ucast EFlagsIFMask else fl' AND NOT (ucast EFlagsIFMask)) s
        else exception BX_GP_EXCEPTION 0 s)
     else push_16 fl16 s)"

definition popf_mask :: "u32 \<Rightarrow> cpu \<Rightarrow> u32" where
  "popf_mask changeMask s =
     (if protected_mode s then
        changeMask OR (if CPL s = 0 then EFlagsIOPLMask else 0) OR (if cpl32 s \<le> get_IOPL s then EFlagsIFMask else 0)
      else if v8086_mode s then changeMask OR EFlagsIFMask
      else changeMask OR (EFlagsIOPLMask OR EFlagsIFMask))"

definition POPF_Fw :: "bxInstruction \<Rightarrow> unit exec" where
  "POPF_Fw i =
     (let changeMask = EFlagsOSZAPCMask OR EFlagsTFMask OR EFlagsDFMask OR EFlagsNTMask in
      seqM RSP_SPECULATIVE (bindM pop_16 (\<lambda>flags16 s.
        if v8086_mode s \<and> get_IOPL s < 3 then
          (if get_VME s then
             (if flags16 AND ucast EFlagsIFMask \<noteq> 0 \<and> get_flag 20 s \<or> flags16 AND ucast EFlagsTFMask \<noteq> 0
              then exception BX_GP_EXCEPTION 0 s
              else let flags32 = ucast flags16 :: u32;
                       flags32' = (if flags32 AND EFlagsIFMask \<noteq> 0 then flags32 OR EFlagsVIFMask else flags32)
                in seqM (updM (writeEFlags flags32' (changeMask OR EFlagsVIFMask))) RSP_COMMIT s)
           else exception BX_GP_EXCEPTION 0 s)
        else seqM (updM (writeEFlags (ucast flags16) (popf_mask changeMask s))) RSP_COMMIT s)))"

definition PUSHF_Fd :: "bxInstruction \<Rightarrow> unit exec" where
  "PUSHF_Fd i = (\<lambda>s.
     if v8086_mode s \<and> get_IOPL s < 3 then exception BX_GP_EXCEPTION 0 s
     else bindM read_eflags (\<lambda>fl. push_32 (fl AND 0x00FCFFFF)) s)"

definition POPF_Fd :: "bxInstruction \<Rightarrow> unit exec" where
  "POPF_Fd i =
     (let changeMask = EFlagsOSZAPCMask OR EFlagsTFMask OR EFlagsDFMask OR EFlagsNTMask OR EFlagsRFMask
        OR (EFlagsIDMask OR EFlagsACMask) in
      seqM RSP_SPECULATIVE (bindM pop_32 (\<lambda>flags32 s.
        if v8086_mode s \<and> get_IOPL s < 3 then exception BX_GP_EXCEPTION 0 s
        else seqM (updM (writeEFlags flags32 (popf_mask changeMask s))) RSP_COMMIT s)))"

definition SALC :: "bxInstruction \<Rightarrow> unit exec" where
  "SALC i = updM (\<lambda>s. if getB_CF (oszapc s) then set_reg8 0 0xFF s else set_reg8 0 0x00 s)"

definition STAC :: "bxInstruction \<Rightarrow> unit exec" where
  "STAC i = (\<lambda>s. if CPL s \<noteq> 0 then exception BX_UD_EXCEPTION 0 s
     else updM (\<lambda>s. handleAlignmentCheck (assert_flag 18 s)) s)"

definition CLAC :: "bxInstruction \<Rightarrow> unit exec" where
  "CLAC i = (\<lambda>s. if CPL s \<noteq> 0 then exception BX_UD_EXCEPTION 0 s
     else updM (\<lambda>s. handleAlignmentCheck (clear_flag 18 s)) s)"

section \<open>Stack instructions (stack32.cc)\<close>

definition POP_EdR :: "bxInstruction \<Rightarrow> unit exec" where
  "POP_EdR i = bindM pop_32 (\<lambda>v. updM (set_reg32 (i_dst i) v))"

definition POP_EdM :: "bxInstruction \<Rightarrow> unit exec" where
  "POP_EdM i = seqM RSP_SPECULATIVE (bindM pop_32 (\<lambda>val32.
     bindM (getM (ResolveModrm i)) (\<lambda>eaddr.
     seqM (write_virtual_dword (i_seg i) eaddr val32) RSP_COMMIT)))"

definition PUSH_EdR :: "bxInstruction \<Rightarrow> unit exec" where
  "PUSH_EdR i = bindM (getM (\<lambda>s. gen_reg s (i_dst i))) push_32"

definition PUSH_EdM :: "bxInstruction \<Rightarrow> unit exec" where
  "PUSH_EdM i = load_Ed i push_32"

definition PUSH32_Sw :: "bxInstruction \<Rightarrow> unit exec" where
  "PUSH32_Sw i = (\<lambda>s.
     let val_16 = sel_value (seg_selector (sregs s (i_src i))) in
     if ss_32 s then
       seqM (stack_write_word (gen_reg s R_ESP - 4) val_16) (updM (\<lambda>s. set_reg32 R_ESP (gen_reg s R_ESP - 4) s)) s
     else
       seqM (stack_write_word (ucast (reg16 R_ESP s - 4)) val_16) (updM (\<lambda>s. set_reg16 R_ESP (reg16 R_ESP s - 4) s)) s)"

definition POP32_Sw :: "bx_descriptor \<Rightarrow> bxInstruction \<Rightarrow> unit exec" where
  "POP32_Sw d0 i = (\<lambda>s.
     seqM (if ss_32 s then
         bindM (stack_read_word (gen_reg s R_ESP)) (\<lambda>sel. seqM (load_seg_reg d0 (i_dst i) sel)
           (updM (\<lambda>s. set_reg32 R_ESP (gen_reg s R_ESP + 4) s)))
       else
         bindM (stack_read_word (ucast (reg16 R_ESP s))) (\<lambda>sel. seqM (load_seg_reg d0 (i_dst i) sel)
           (updM (\<lambda>s. set_reg16 R_ESP (reg16 R_ESP s + 4) s))))
       (if i_dst i = SEG_SS then updM (inhibit_interrupts BX_INHIBIT_INTERRUPTS_BY_MOVSS) else ret ()) s)"

definition PUSH_Id :: "bxInstruction \<Rightarrow> unit exec" where
  "PUSH_Id i = push_32 (i_Id i)"

text \<open>The dwords written below the stack pointer, the first at offset 4.\<close>

primrec push_all :: "(u32 \<Rightarrow> u32) \<Rightarrow> u32 \<Rightarrow> u32 list \<Rightarrow> unit exec" where
  "push_all wrap off [] = ret ()"
| "push_all wrap off (v # vs) = seqM (stack_write_dword (wrap off) v) (push_all wrap (off + 4) vs)"

definition PUSHA32 :: "bxInstruction \<Rightarrow> unit exec" where
  "PUSHA32 i = (\<lambda>s.
     let temp_ESP = gen_reg s R_ESP; temp_SP = reg16 R_ESP s;
         vs = [gen_reg s R_EAX, gen_reg s R_ECX, gen_reg s R_EDX, gen_reg s R_EBX, temp_ESP,
               gen_reg s R_EBP, gen_reg s R_ESI, gen_reg s R_EDI] in
     if ss_32 s then
       seqM (push_all (\<lambda>off. temp_ESP - off) 4 vs) (updM (\<lambda>s. set_reg32 R_ESP (gen_reg s R_ESP - 32) s)) s
     else
       seqM (push_all (\<lambda>off. ucast (temp_SP - ucast off)) 4 vs)
         (updM (\<lambda>s. set_reg16 R_ESP (reg16 R_ESP s - 32) s)) s)"

definition POPA32 :: "bxInstruction \<Rightarrow> unit exec" where
  "POPA32 i = (\<lambda>s.
     let at = (\<lambda>off. if ss_32 s then gen_reg s R_ESP + off else ucast (reg16 R_ESP s + ucast off));
         pop = (\<lambda>off. stack_read_dword (at off)) in
     bindM (pop 0) (\<lambda>edi. bindM (pop 4) (\<lambda>esi. bindM (pop 8) (\<lambda>ebp. bindM (pop 12) (\<lambda>_.
     bindM (pop 16) (\<lambda>ebx. bindM (pop 20) (\<lambda>edx. bindM (pop 24) (\<lambda>ecx. bindM (pop 28) (\<lambda>eax.
     updM (\<lambda>s. set_reg32 R_EAX eax (set_reg32 R_ECX ecx (set_reg32 R_EDX edx (set_reg32 R_EBX ebx
       (set_reg32 R_EBP ebp (set_reg32 R_ESI esi (set_reg32 R_EDI edi
         (if ss_32 s then set_reg32 R_ESP (gen_reg s R_ESP + 32) s
          else set_reg16 R_ESP (reg16 R_ESP s + 32) s)))))))))))))))) s)"

text \<open>The \<open>while (--level)\<close> loop of ENTER: \<open>level - 1\<close> times.\<close>

primrec enter_frames32 :: "nat \<Rightarrow> u32 \<Rightarrow> unit exec" where
  "enter_frames32 0 ebp = ret ()"
| "enter_frames32 (Suc k) ebp = bindM (stack_read_dword (ebp - 4)) (\<lambda>temp32.
     seqM (push_32 temp32) (enter_frames32 k (ebp - 4)))"

primrec enter_frames16 :: "nat \<Rightarrow> u16 \<Rightarrow> unit exec" where
  "enter_frames16 0 bp = ret ()"
| "enter_frames16 (Suc k) bp = bindM (stack_read_dword (ucast (bp - 4))) (\<lambda>temp32.
     seqM (push_32 temp32) (enter_frames16 k (bp - 4)))"

definition ENTER32_IwIb :: "bxInstruction \<Rightarrow> unit exec" where
  "ENTER32_IwIb i =
     (let imm16 = i_Iw i; level = unat (i_Ib2 i AND 0x1F) in
      seqM RSP_SPECULATIVE
     (seqM (bindM (getM (\<lambda>s. gen_reg s R_EBP)) push_32)
     (bindM (getM (\<lambda>s. gen_reg s R_ESP)) (\<lambda>frame_ptr32.
      seqM (\<lambda>s.
        if ss_32 s then
          seqM (if 0 < level then seqM (enter_frames32 (level - 1) (gen_reg s R_EBP)) (push_32 frame_ptr32) else ret ())
          (seqM (updM (\<lambda>s. set_reg32 R_ESP (gen_reg s R_ESP - ucast imm16) s))
          (bindM (getM (\<lambda>s. gen_reg s R_ESP)) (\<lambda>esp. bindM (read_RMW_virtual_dword SEG_SS esp) (\<lambda>_. ret ())))) s
        else
          seqM (if 0 < level then seqM (enter_frames16 (level - 1) (reg16 R_EBP s)) (push_32 frame_ptr32) else ret ())
          (seqM (updM (\<lambda>s. set_reg16 R_ESP (reg16 R_ESP s - imm16) s))
          (bindM (getM (reg16 R_ESP)) (\<lambda>sp. bindM (read_RMW_virtual_dword SEG_SS (ucast sp)) (\<lambda>_. ret ())))) s)
     (seqM (updM (set_reg32 R_EBP frame_ptr32)) RSP_COMMIT)))))"

definition LEAVE32 :: "bxInstruction \<Rightarrow> unit exec" where
  "LEAVE32 i = (\<lambda>s.
     bindM (if ss_32 s then
         bindM (stack_read_dword (gen_reg s R_EBP)) (\<lambda>v.
           seqM (updM (\<lambda>s. set_reg32 R_ESP (gen_reg s R_EBP + 4) s)) (ret v))
       else
         bindM (stack_read_dword (ucast (reg16 R_EBP s))) (\<lambda>v.
           seqM (updM (\<lambda>s. set_reg16 R_ESP (reg16 R_EBP s + 4) s)) (ret v)))
       (\<lambda>value32. updM (set_reg32 R_EBP value32)) s)"

end
