(* ===== verification/Shift32.thy ===== *)
theory Shift32
  imports Alu32
begin

text \<open>
  The 32-bit shifts and rotates: one definition for each handler of
  P1/bochs-2.6.8/cpu/shift32.cc. The count is CL or the immediate byte, whichever the opcode
  says (\<open>getIaOpcode()\<close>), reduced to its low five bits; a count of 0 changes nothing.
\<close>

definition shift_count :: "bxInstruction \<Rightarrow> cpu \<Rightarrow> nat" where
  "shift_count i s = unat ((if i_by_CL i then CL s else i_Ib i) AND 0x1F)"

definition lsb :: "u32 \<Rightarrow> bool" where
  "lsb w \<longleftrightarrow> w AND 1 = 1"

definition SHLD_EdGdM :: "bxInstruction \<Rightarrow> unit exec" where
  "SHLD_EdGdM i =
     rmw_Ed i (\<lambda>op1_32 s. let count = shift_count i s in
       if count = 0 then ret () s
       else let op2_32 = gen_reg s (i_src i); result_32 = push_bit count op1_32 OR drop_bit (32 - count) op2_32;
                cy = lsb (drop_bit (32 - count) op1_32); ov = (cy \<noteq> lsb (drop_bit 31 result_32)) in
         seqM (write_RMW_linear_dword result_32) (updM (set_flags (\<lambda>f. SET_FLAGS_OxxxxC ov cy (SET_FLAGS_OSZAPC_LOGIC 32 result_32 f)))) s)"

definition SHLD_EdGdR :: "bxInstruction \<Rightarrow> unit exec" where
  "SHLD_EdGdR i =
     updM (\<lambda>s. let count = shift_count i s in
       if count = 0 then s
       else let op1_32 = gen_reg s (i_dst i); op2_32 = gen_reg s (i_src i); result_32 = push_bit count op1_32 OR drop_bit (32 - count) op2_32;
                cy = lsb (drop_bit (32 - count) op1_32); ov = (cy \<noteq> lsb (drop_bit 31 result_32)) in
         set_flags (\<lambda>f. SET_FLAGS_OxxxxC ov cy (SET_FLAGS_OSZAPC_LOGIC 32 result_32 f)) (set_reg32 (i_dst i) result_32 s))"

definition SHRD_EdGdM :: "bxInstruction \<Rightarrow> unit exec" where
  "SHRD_EdGdM i =
     rmw_Ed i (\<lambda>op1_32 s. let count = shift_count i s in
       if count = 0 then ret () s
       else let op2_32 = gen_reg s (i_src i); result_32 = push_bit (32 - count) op2_32 OR drop_bit count op1_32;
                cy = lsb (drop_bit (count - 1) op1_32); ov = lsb (drop_bit 31 (push_bit 1 result_32 XOR result_32)) in
         seqM (write_RMW_linear_dword result_32) (updM (set_flags (\<lambda>f. SET_FLAGS_OxxxxC ov cy (SET_FLAGS_OSZAPC_LOGIC 32 result_32 f)))) s)"

definition SHRD_EdGdR :: "bxInstruction \<Rightarrow> unit exec" where
  "SHRD_EdGdR i =
     updM (\<lambda>s. let count = shift_count i s in
       if count = 0 then s
       else let op1_32 = gen_reg s (i_dst i); op2_32 = gen_reg s (i_src i); result_32 = push_bit (32 - count) op2_32 OR drop_bit count op1_32;
                cy = lsb (drop_bit (count - 1) op1_32); ov = lsb (drop_bit 31 (push_bit 1 result_32 XOR result_32)) in
         set_flags (\<lambda>f. SET_FLAGS_OxxxxC ov cy (SET_FLAGS_OSZAPC_LOGIC 32 result_32 f)) (set_reg32 (i_dst i) result_32 s))"

definition ROL_EdM :: "bxInstruction \<Rightarrow> unit exec" where
  "ROL_EdM i =
     rmw_Ed i (\<lambda>op1_32 s. let count = shift_count i s in
       if count = 0 then ret () s
       else let result_32 = push_bit count op1_32 OR drop_bit (32 - count) op1_32;
                cy = lsb result_32; ov = (lsb result_32 \<noteq> lsb (drop_bit 31 result_32)) in
         seqM (write_RMW_linear_dword result_32) (updM (set_flags (SET_FLAGS_OxxxxC ov cy))) s)"

definition ROL_EdR :: "bxInstruction \<Rightarrow> unit exec" where
  "ROL_EdR i =
     updM (\<lambda>s. let count = shift_count i s in
       if count = 0 then s
       else let op1_32 = gen_reg s (i_dst i); result_32 = push_bit count op1_32 OR drop_bit (32 - count) op1_32;
                cy = lsb result_32; ov = (lsb result_32 \<noteq> lsb (drop_bit 31 result_32)) in
         set_flags (SET_FLAGS_OxxxxC ov cy) (set_reg32 (i_dst i) result_32 s))"

definition ROR_EdM :: "bxInstruction \<Rightarrow> unit exec" where
  "ROR_EdM i =
     rmw_Ed i (\<lambda>op1_32 s. let count = shift_count i s in
       if count = 0 then ret () s
       else let result_32 = drop_bit count op1_32 OR push_bit (32 - count) op1_32;
                cy = lsb (drop_bit 31 result_32); ov = (lsb (drop_bit 30 result_32) \<noteq> lsb (drop_bit 31 result_32)) in
         seqM (write_RMW_linear_dword result_32) (updM (set_flags (SET_FLAGS_OxxxxC ov cy))) s)"

definition ROR_EdR :: "bxInstruction \<Rightarrow> unit exec" where
  "ROR_EdR i =
     updM (\<lambda>s. let count = shift_count i s in
       if count = 0 then s
       else let op1_32 = gen_reg s (i_dst i); result_32 = drop_bit count op1_32 OR push_bit (32 - count) op1_32;
                cy = lsb (drop_bit 31 result_32); ov = (lsb (drop_bit 30 result_32) \<noteq> lsb (drop_bit 31 result_32)) in
         set_flags (SET_FLAGS_OxxxxC ov cy) (set_reg32 (i_dst i) result_32 s))"

definition RCL_EdM :: "bxInstruction \<Rightarrow> unit exec" where
  "RCL_EdM i =
     rmw_Ed i (\<lambda>op1_32 s. let count = shift_count i s in
       if count = 0 then ret () s
       else let result_32 = (if count = 1 then push_bit 1 op1_32 OR of_bool (getB_CF (oszapc s))
               else push_bit count op1_32 OR push_bit (count - 1) (of_bool (getB_CF (oszapc s))) OR drop_bit (33 - count) op1_32);
                cy = lsb (drop_bit (32 - count) op1_32); ov = (cy \<noteq> lsb (drop_bit 31 result_32)) in
         seqM (write_RMW_linear_dword result_32) (updM (set_flags (SET_FLAGS_OxxxxC ov cy))) s)"

definition RCL_EdR :: "bxInstruction \<Rightarrow> unit exec" where
  "RCL_EdR i =
     updM (\<lambda>s. let count = shift_count i s in
       if count = 0 then s
       else let op1_32 = gen_reg s (i_dst i); result_32 = (if count = 1 then push_bit 1 op1_32 OR of_bool (getB_CF (oszapc s))
               else push_bit count op1_32 OR push_bit (count - 1) (of_bool (getB_CF (oszapc s))) OR drop_bit (33 - count) op1_32);
                cy = lsb (drop_bit (32 - count) op1_32); ov = (cy \<noteq> lsb (drop_bit 31 result_32)) in
         set_flags (SET_FLAGS_OxxxxC ov cy) (set_reg32 (i_dst i) result_32 s))"

definition RCR_EdM :: "bxInstruction \<Rightarrow> unit exec" where
  "RCR_EdM i =
     rmw_Ed i (\<lambda>op1_32 s. let count = shift_count i s in
       if count = 0 then ret () s
       else let result_32 = (if count = 1 then drop_bit 1 op1_32 OR push_bit 31 (of_bool (getB_CF (oszapc s)))
               else drop_bit count op1_32 OR push_bit (32 - count) (of_bool (getB_CF (oszapc s))) OR push_bit (33 - count) op1_32);
                cy = lsb (drop_bit (count - 1) op1_32); ov = lsb (drop_bit 31 (push_bit 1 result_32 XOR result_32)) in
         seqM (write_RMW_linear_dword result_32) (updM (set_flags (SET_FLAGS_OxxxxC ov cy))) s)"

definition RCR_EdR :: "bxInstruction \<Rightarrow> unit exec" where
  "RCR_EdR i =
     updM (\<lambda>s. let count = shift_count i s in
       if count = 0 then s
       else let op1_32 = gen_reg s (i_dst i); result_32 = (if count = 1 then drop_bit 1 op1_32 OR push_bit 31 (of_bool (getB_CF (oszapc s)))
               else drop_bit count op1_32 OR push_bit (32 - count) (of_bool (getB_CF (oszapc s))) OR push_bit (33 - count) op1_32);
                cy = lsb (drop_bit (count - 1) op1_32); ov = lsb (drop_bit 31 (push_bit 1 result_32 XOR result_32)) in
         set_flags (SET_FLAGS_OxxxxC ov cy) (set_reg32 (i_dst i) result_32 s))"

definition SHL_EdM :: "bxInstruction \<Rightarrow> unit exec" where
  "SHL_EdM i =
     rmw_Ed i (\<lambda>op1_32 s. let count = shift_count i s in
       if count = 0 then ret () s
       else let result_32 = push_bit count op1_32;
                cy = lsb (drop_bit (32 - count) op1_32); ov = (cy \<noteq> lsb (drop_bit 31 result_32)) in
         seqM (write_RMW_linear_dword result_32) (updM (set_flags (\<lambda>f. SET_FLAGS_OxxxxC ov cy (SET_FLAGS_OSZAPC_LOGIC 32 result_32 f)))) s)"

definition SHL_EdR :: "bxInstruction \<Rightarrow> unit exec" where
  "SHL_EdR i =
     updM (\<lambda>s. let count = shift_count i s in
       if count = 0 then s
       else let op1_32 = gen_reg s (i_dst i); result_32 = push_bit count op1_32;
                cy = lsb (drop_bit (32 - count) op1_32); ov = (cy \<noteq> lsb (drop_bit 31 result_32)) in
         set_flags (\<lambda>f. SET_FLAGS_OxxxxC ov cy (SET_FLAGS_OSZAPC_LOGIC 32 result_32 f)) (set_reg32 (i_dst i) result_32 s))"

definition SHR_EdM :: "bxInstruction \<Rightarrow> unit exec" where
  "SHR_EdM i =
     rmw_Ed i (\<lambda>op1_32 s. let count = shift_count i s in
       if count = 0 then ret () s
       else let result_32 = drop_bit count op1_32;
                cy = lsb (drop_bit (count - 1) op1_32); ov = lsb (drop_bit 31 (push_bit 1 result_32 XOR result_32)) in
         seqM (write_RMW_linear_dword result_32) (updM (set_flags (\<lambda>f. SET_FLAGS_OxxxxC ov cy (SET_FLAGS_OSZAPC_LOGIC 32 result_32 f)))) s)"

definition SHR_EdR :: "bxInstruction \<Rightarrow> unit exec" where
  "SHR_EdR i =
     updM (\<lambda>s. let count = shift_count i s in
       if count = 0 then s
       else let op1_32 = gen_reg s (i_dst i); result_32 = drop_bit count op1_32;
                cy = lsb (drop_bit (count - 1) op1_32); ov = lsb (drop_bit 31 (push_bit 1 result_32 XOR result_32)) in
         set_flags (\<lambda>f. SET_FLAGS_OxxxxC ov cy (SET_FLAGS_OSZAPC_LOGIC 32 result_32 f)) (set_reg32 (i_dst i) result_32 s))"

definition SAR_EdM :: "bxInstruction \<Rightarrow> unit exec" where
  "SAR_EdM i =
     rmw_Ed i (\<lambda>op1_32 s. let count = shift_count i s in
       if count = 0 then ret () s
       else let result_32 = signed_drop_bit count op1_32;
                cy = lsb (drop_bit (count - 1) op1_32); ov = False in
         seqM (write_RMW_linear_dword result_32) (updM (set_flags (\<lambda>f. SET_FLAGS_OxxxxC ov cy (SET_FLAGS_OSZAPC_LOGIC 32 result_32 f)))) s)"

definition SAR_EdR :: "bxInstruction \<Rightarrow> unit exec" where
  "SAR_EdR i =
     updM (\<lambda>s. let count = shift_count i s in
       if count = 0 then s
       else let op1_32 = gen_reg s (i_dst i); result_32 = signed_drop_bit count op1_32;
                cy = lsb (drop_bit (count - 1) op1_32); ov = False in
         set_flags (\<lambda>f. SET_FLAGS_OxxxxC ov cy (SET_FLAGS_OSZAPC_LOGIC 32 result_32 f)) (set_reg32 (i_dst i) result_32 s))"

end
