(* ===== verification/CpuLemmas.thy ===== *)
theory CpuLemmas
  imports StackFlags Shift32
begin

text \<open>
  How memory accesses act on the CPU state. \<open>quiet\<close> handlers change no register, flag or
  segment (only memory, CR2, the cached access bits and the translation buffer), whether they
  succeed or fault. A handler is \<open>restartable\<close> when a fault leaves what the exception
  restores: the rules of both follow the structure of the handlers. With paging off and flat
  segments the accesses are plain reads and writes of memory, also when they cross a page.
\<close>

section \<open>Quiet handlers\<close>

definition same_seg :: "bx_segment_reg \<Rightarrow> bx_segment_reg \<Rightarrow> bool" where
  "same_seg a b \<longleftrightarrow> seg_selector a = seg_selector b \<and> (seg_cache a)\<lparr>d_valid := 0\<rparr> = (seg_cache b)\<lparr>d_valid := 0\<rparr>
     \<and> (d_valid (seg_cache a) = 0 \<longleftrightarrow> d_valid (seg_cache b) = 0)"

definition regs_same :: "cpu \<Rightarrow> cpu \<Rightarrow> bool" where
  "regs_same s s' \<longleftrightarrow>
     gen_reg s' = gen_reg s \<and> EIP s' = EIP s \<and> eflags s' = eflags s \<and> oszapc s' = oszapc s \<and> trace s' = trace s \<and>
     cr0 s' = cr0 s \<and> cr3 s' = cr3 s \<and> cr4 s' = cr4 s \<and> gdtr s' = gdtr s \<and> idtr s' = idtr s \<and> ldtr s' = ldtr s \<and> tr s' = tr s \<and>
     pending_event s' = pending_event s \<and> event_mask s' = event_mask s \<and> async_event s' = async_event s \<and>
     EXT s' = EXT s \<and> prev_rip s' = prev_rip s \<and> last_exception_type s' = last_exception_type s \<and>
     speculative_rsp s' = speculative_rsp s \<and> prev_rsp s' = prev_rsp s \<and>
     alignment_check_mask s' = alignment_check_mask s \<and> (\<forall>r. same_seg (sregs s r) (sregs s' r))"

lemma regs_same_refl [simp]: "regs_same s s"
  by (simp add: regs_same_def same_seg_def)

lemma regs_same_trans: "regs_same s t \<Longrightarrow> regs_same t u \<Longrightarrow> regs_same s u"
  by (simp add: regs_same_def same_seg_def)

text \<open>A handler that keeps a relation between the states before and after: on every path, or when
it faults. The rules hold for every reflexive and transitive relation.\<close>

definition keeps :: "(cpu \<Rightarrow> cpu \<Rightarrow> bool) \<Rightarrow> 'a exec \<Rightarrow> bool" where
  "keeps R m \<longleftrightarrow> (\<forall>s. R s (snd (m s)))"

definition faults_keep :: "(cpu \<Rightarrow> cpu \<Rightarrow> bool) \<Rightarrow> 'a exec \<Rightarrow> bool" where
  "faults_keep R m \<longleftrightarrow> (\<forall>s e s'. m s = (Inl e, s') \<longrightarrow> R s s')"

locale state_relation =
  fixes R :: "cpu \<Rightarrow> cpu \<Rightarrow> bool"
  assumes R_refl: "R s s"
    and R_trans: "R s t \<Longrightarrow> R t u \<Longrightarrow> R s u"
begin

lemma keeps_bind:
  assumes "\<And>s. keeps R (m s)" "\<And>s x. keeps R (f s x)"
  shows "keeps R (\<lambda>s. bindM (m s) (f s) s)"
  unfolding keeps_def
proof
  fix s
  obtain r t where m: "m s s = (r, t)" by (cases "m s s")
  have t: "R s t" using assms(1)[of s] m unfolding keeps_def by (metis snd_conv)
  show "R s (snd (bindM (m s) (f s) s))"
  proof (cases r)
    case (Inl e)
    then show ?thesis using m t by (simp add: exec_bind)
  next
    case (Inr x)
    then have "bindM (m s) (f s) s = f s x t" using m by (simp add: exec_bind)
    then show ?thesis using t assms(2)[of s x] unfolding keeps_def by (metis R_trans)
  qed
qed

lemma keeps_seq: "(\<And>s. keeps R (m s)) \<Longrightarrow> (\<And>s. keeps R (k s)) \<Longrightarrow> keeps R (\<lambda>s. seqM (m s) (k s) s)"
  unfolding seqM_def by (rule keeps_bind)

lemma keeps_basic: "keeps R (ret x)" "keeps R (getM f)" "keeps R (raise e)" "keeps R (exception v c)"
  by (simp_all add: keeps_def exec_simps R_refl)

lemma keeps_updM: "(\<And>s. R s (f s)) \<Longrightarrow> keeps R (updM f)"
  by (simp add: keeps_def exec_simps)

lemma keeps_if:
  "keeps R m \<Longrightarrow> keeps R k \<Longrightarrow> keeps R (\<lambda>s. if b s then m s else k s)"
  "(\<And>s. keeps R (m' s)) \<Longrightarrow> (\<And>s. keeps R (k' s)) \<Longrightarrow> keeps R (\<lambda>s. (if b s then m' s else k' s) s)"
  by (simp_all add: keeps_def)

lemma faults_keeps: "keeps R m \<Longrightarrow> faults_keep R m"
  unfolding keeps_def faults_keep_def by (metis snd_conv)

lemma faults_bind:
  assumes "\<And>s. keeps R (m s)" "\<And>s x. faults_keep R (f s x)"
  shows "faults_keep R (\<lambda>s. bindM (m s) (f s) s)"
  unfolding faults_keep_def
proof (intro allI impI)
  fix s e s' assume b: "bindM (m s) (f s) s = (Inl e, s')"
  obtain r t where m: "m s s = (r, t)" by (cases "m s s")
  have t: "R s t" using assms(1)[of s] m unfolding keeps_def by (metis snd_conv)
  show "R s s'"
  proof (cases r)
    case (Inl e')
    then show ?thesis using b m t by (simp add: exec_bind)
  next
    case (Inr x)
    then have "f s x t = (Inl e, s')" using b m by (simp add: exec_bind)
    then have "R t s'" using assms(2)[of s x] unfolding faults_keep_def by blast
    then show ?thesis by (rule R_trans[OF t])
  qed
qed

lemma faults_seq: "(\<And>s. keeps R (m s)) \<Longrightarrow> (\<And>s. faults_keep R (k s)) \<Longrightarrow> faults_keep R (\<lambda>s. seqM (m s) (k s) s)"
  unfolding seqM_def by (rule faults_bind)

lemma faults_if:
  "faults_keep R m \<Longrightarrow> faults_keep R k \<Longrightarrow> faults_keep R (\<lambda>s. if b s then m s else k s)"
  "(\<And>s. faults_keep R (m' s)) \<Longrightarrow> (\<And>s. faults_keep R (k' s)) \<Longrightarrow> faults_keep R (\<lambda>s. (if b s then m' s else k' s) s)"
  by (simp_all add: faults_keep_def)

lemma faults_never: "faults_keep R (ret x)" "faults_keep R (updM f)" "faults_keep R (getM g)"
  "faults_keep R (raise e)" "faults_keep R (exception v c)"
  by (simp_all add: faults_keep_def exec_simps R_refl)

lemmas keep_rules = keeps_bind keeps_seq keeps_basic keeps_updM keeps_if
lemmas fault_rules = faults_bind faults_seq faults_if faults_never

end

interpretation regs: state_relation regs_same
  by unfold_locales (simp, rule regs_same_trans)

abbreviation quiet :: "'a exec \<Rightarrow> bool" where
  "quiet \<equiv> keeps regs_same"

named_theorems quiet_rules \<open>handlers that change no register\<close>

lemma or_nonzero: "(a :: u32) \<noteq> 0 \<Longrightarrow> a OR b \<noteq> 0"
proof
  assume a: "a \<noteq> 0" and "a OR b = 0"
  then have "bit a n = False" for n by (metis bit_0_eq bit_or_iff bot_apply bot_bool_def)
  then have "a = 0" by (intro bit_word_eqI) simp
  with a show False ..
qed

lemma checks_same:
  "write_virtual_checks seg off l al = Inr (ok, seg') \<Longrightarrow> same_seg seg seg'"
  "read_virtual_checks seg off l al = Inr (ok, seg') \<Longrightarrow> same_seg seg seg'"
  by (auto simp: write_virtual_checks_def read_virtual_checks_def Let_def same_seg_def cache_access_def or_nonzero split: if_splits)

lemma regs_same_set_sreg: "same_seg (sregs s r) seg \<Longrightarrow> regs_same s (set_sreg r seg s)"
  by (simp add: regs_same_def set_sreg_def same_seg_def)

lemma checked_same:
  assumes "\<And>ok seg'. res = Inr (ok, seg') \<Longrightarrow> same_seg (sregs s r) seg'"
  shows "regs_same s (snd (checked_laddr r off res s))"
  using assms by (cases res) (auto simp: checked_laddr_def exec_simps intro!: regs_same_set_sreg)

lemma quiet_agen [quiet_rules]: "quiet (agen_write32 r off l)" "quiet (agen_read32 r off l)"
  by (auto simp: keeps_def agen_write32_def agen_read32_def Let_def exec_simps
      intro!: checked_same dest: checks_same)

lemma quiet_xlate [quiet_rules]: "quiet (xlate a u w)"
  by (auto simp: keeps_def xlate_def page_fault_def exec_simps seqM_def bindM_def updM_def exception_def raise_def
      regs_same_def same_seg_def split: sum.splits translation_fault.splits)

lemma quiet_linear [quiet_rules]: "quiet (access_write_linear a pl ac bs)" "quiet (access_read_linear a n pl rw ac)"
  unfolding access_write_linear_def access_read_linear_def Let_def
  by (intro quiet_rules regs.keep_rules; simp add: regs_same_def same_seg_def access_write_physical_def)+

lemma quiet_virtual [quiet_rules]:
  "quiet (write_virtual r off ac bs)" "quiet (read_virtual r off ac n)" "quiet (read_RMW_virtual r off ac n)"
  unfolding write_virtual_def read_virtual_def read_RMW_virtual_def by (intro quiet_rules regs.keep_rules)+

lemma quiet_write_RMW [quiet_rules]: "quiet (write_RMW_linear bs)"
  unfolding write_RMW_linear_def
  by (rule regs.keeps_updM) (simp add: regs_same_def same_seg_def access_write_physical_def)

lemma quiet_sized [quiet_rules]:
  "quiet (write_virtual_byte r off v8)" "quiet (write_virtual_word r off v16)" "quiet (write_virtual_dword r off v)"
  "quiet (read_virtual_byte r off)" "quiet (read_virtual_word r off)" "quiet (read_virtual_dword r off)"
  "quiet (read_RMW_virtual_byte r off)" "quiet (read_RMW_virtual_word r off)"
  "quiet (read_RMW_virtual_dword r off)" "quiet (read_RMW_virtual_qword r off)"
  "quiet (write_RMW_linear_byte v8)" "quiet (write_RMW_linear_word v16)" "quiet (write_RMW_linear_dword v)"
  "quiet (write_RMW_linear_qword v64)" "quiet (system_read_qword a)" "quiet (system_write_byte a v8)"
  "quiet (stack_write_word off v16)" "quiet (stack_write_dword off v)" "quiet (stack_read_word off)" "quiet (stack_read_dword off)"
  unfolding write_virtual_byte_def write_virtual_word_def write_virtual_dword_def read_virtual_byte_def
    read_virtual_word_def read_virtual_dword_def read_RMW_virtual_byte_def read_RMW_virtual_word_def
    read_RMW_virtual_dword_def read_RMW_virtual_qword_def write_RMW_linear_byte_def write_RMW_linear_word_def
    write_RMW_linear_dword_def write_RMW_linear_qword_def system_read_qword_def system_write_byte_def
    stack_write_word_def stack_write_dword_def stack_read_word_def stack_read_dword_def
  by (intro quiet_rules regs.keep_rules)+

section \<open>Restartable handlers\<close>

text \<open>What \<open>exception\<close> puts back before it delivers a fault: the stack pointer.\<close>

definition restore_rsp :: "cpu \<Rightarrow> cpu" where
  "restore_rsp s =
     (if speculative_rsp s then (set_reg32 R_ESP (prev_rsp s) s)\<lparr>speculative_rsp := False\<rparr>
      else s\<lparr>speculative_rsp := False\<rparr>)"

text \<open>The registers and flags a program sees.\<close>

definition visible_same :: "cpu \<Rightarrow> cpu \<Rightarrow> bool" where
  "visible_same s s' \<longleftrightarrow> gen_reg s' = gen_reg s \<and> EIP s' = EIP s \<and> eflags s' = eflags s \<and> oszapc s' = oszapc s
     \<and> cr0 s' = cr0 s \<and> cr3 s' = cr3 s \<and> gdtr s' = gdtr s \<and> idtr s' = idtr s \<and> prev_rip s' = prev_rip s \<and> EXT s' = EXT s
     \<and> last_exception_type s' = last_exception_type s \<and> alignment_check_mask s' = alignment_check_mask s
     \<and> (\<forall>r. same_seg (sregs s r) (sregs s' r))"

definition restartable :: "'a exec \<Rightarrow> bool" where
  "restartable m \<longleftrightarrow> (\<forall>s e s'. \<not> speculative_rsp s \<longrightarrow> m s = (Inl e, s') \<longrightarrow> visible_same s (restore_rsp s'))"

text \<open>Between \<open>RSP_SPECULATIVE\<close> and the fault the stack pointer may move.\<close>

definition same_but_esp :: "cpu \<Rightarrow> cpu \<Rightarrow> bool" where
  "same_but_esp s s' \<longleftrightarrow> regs_same s (s'\<lparr>gen_reg := (gen_reg s')(R_ESP := gen_reg s R_ESP)\<rparr>)"

lemma fun_upd_same_iff: "f(a := g a) = g \<longleftrightarrow> (\<forall>x. x \<noteq> a \<longrightarrow> f x = g x)"
  by (auto simp: fun_eq_iff)

lemma same_but_esp_trans: "same_but_esp s t \<Longrightarrow> same_but_esp t u \<Longrightarrow> same_but_esp s u"
  by (simp add: same_but_esp_def regs_same_def same_seg_def fun_upd_same_iff)

interpretation esp: state_relation same_but_esp
  by unfold_locales (simp add: same_but_esp_def regs_same_def same_seg_def, rule same_but_esp_trans)

lemma quiet_esp: "quiet m \<Longrightarrow> keeps same_but_esp m"
proof -
  have "regs_same s t \<Longrightarrow> same_but_esp s t" for s t by (simp add: same_but_esp_def regs_same_def same_seg_def)
  then show "quiet m \<Longrightarrow> keeps same_but_esp m" unfolding keeps_def by blast
qed

lemmas quiet_esp_rules = quiet_rules[THEN quiet_esp]

lemma restart_plain: "faults_keep regs_same m \<Longrightarrow> restartable m"
  unfolding faults_keep_def restartable_def
  by (auto simp: regs_same_def visible_same_def restore_rsp_def)

lemma restart_speculative: "faults_keep same_but_esp m \<Longrightarrow> restartable (seqM RSP_SPECULATIVE m)"
  unfolding faults_keep_def restartable_def RSP_SPECULATIVE_def exec_simps
proof (intro allI impI)
  let ?t = "\<lambda>s. s\<lparr>speculative_rsp := True, prev_rsp := gen_reg s R_ESP\<rparr>"
  fix s e s' assume m: "\<forall>s e s'. m s = (Inl e, s') \<longrightarrow> same_but_esp s s'" and "m (?t s) = (Inl e, s')"
  then have "same_but_esp (?t s) s'" by blast
  then show "visible_same s (restore_rsp s')"
    by (auto simp: same_but_esp_def regs_same_def visible_same_def restore_rsp_def set_reg32_def same_seg_def fun_eq_iff)
qed

lemma keeps_push_pop: "keeps same_but_esp (push_32 v)" "keeps same_but_esp pop_32"
proof -
  have "same_but_esp s (set_reg32 R_ESP w s)" "same_but_esp s (set_reg16 R_ESP w' s)" for s w w'
    by (simp_all add: same_but_esp_def regs_same_def same_seg_def set_reg32_def set_reg16_def)
  then show "keeps same_but_esp (push_32 v)" "keeps same_but_esp pop_32"
    unfolding push_32_def pop_32_def by (intro quiet_esp_rules esp.keep_rules; simp)+
qed

lemma never_faults [simp]:
  "faults_keep R (write_RMW_linear_dword v)" "faults_keep R (write_RMW_linear_qword v64)"
  by (simp_all add: faults_keep_def write_RMW_linear_dword_def write_RMW_linear_qword_def write_RMW_linear_def exec_simps)

section \<open>Flat accesses without paging\<close>

definition flat_rw :: "nat \<Rightarrow> cpu \<Rightarrow> bool" where
  "flat_rw r s \<longleftrightarrow> (let d = seg_cache (sregs s r) in
     d_valid d \<noteq> 0 \<and> d_p d \<and> (d_type d = 2 \<or> d_type d = 3) \<and> d_base d = 0 \<and> d_limit_scaled d = 0xFFFFFFFF)"

definition unpaged :: "cpu \<Rightarrow> bool" where
  "unpaged s \<longleftrightarrow> \<not> get_PG s \<and> alignment_check_mask s = 0"

text \<open>What a flat access leaves: the same registers and memory, and the segment still flat.\<close>

definition accessed :: "nat \<Rightarrow> cpu \<Rightarrow> cpu \<Rightarrow> bool" where
  "accessed r s s' \<longleftrightarrow> regs_same s s' \<and> mem s' = mem s \<and> flat_rw r s' \<and> unpaged s'"

definition rmw_ready :: "u32 \<Rightarrow> nat \<Rightarrow> cpu \<Rightarrow> bool" where
  "rmw_ready a n s \<longleftrightarrow> paddress1 s = a \<and> (pages s \<noteq> 1 \<longrightarrow> len1 s \<le> n \<and> paddress2 s = a + of_nat (len1 s))"

lemma unpaged_update [simp]:
  "unpaged (s\<lparr>sregs := x\<rparr>) = unpaged s" "unpaged (s\<lparr>mem := m\<rparr>) = unpaged s" "unpaged (s\<lparr>paddress1 := a\<rparr>) = unpaged s"
  "unpaged (s\<lparr>paddress2 := a\<rparr>) = unpaged s" "unpaged (s\<lparr>len1 := n\<rparr>) = unpaged s" "unpaged (s\<lparr>len2 := n\<rparr>) = unpaged s"
  "unpaged (s\<lparr>pages := n\<rparr>) = unpaged s" "unpaged (set_reg32 k v s) = unpaged s" "unpaged (set_flags f s) = unpaged s"
  by (simp_all add: unpaged_def get_PG_def set_reg32_def)

lemma agen_flat:
  assumes "flat_rw r s" "unpaged s"
  shows "\<exists>s'. agen_write32 r off l s = (Inr off, s') \<and> mem s' = mem s \<and> unpaged s' \<and> flat_rw r s'"
    "\<exists>s'. agen_read32 r off l s = (Inr off, s') \<and> mem s' = mem s \<and> unpaged s' \<and> flat_rw r s'"
  using assms
  by (auto simp: agen_write32_def agen_read32_def write_virtual_checks_def read_virtual_checks_def flat_rw_def Let_def
      exec_simps checked_laddr_def get_laddr32_def set_sreg_def cache_access_def or_nonzero)

lemma unpaged_xlate: "unpaged s \<Longrightarrow> xlate a u w s = (Inr a, s)"
  by (simp add: xlate_def unpaged_def translate_linear_def)

lemma page_offset_less: "PAGE_OFFSET a < 4096"
proof -
  have "PAGE_OFFSET a = unat a mod 2 ^ 12"
    unfolding PAGE_OFFSET_def mask_numerals(1) by (rule unat_and_mask)
  then show ?thesis by simp
qed

text \<open>A write whose two halves land on either side of a page boundary is one write.\<close>

lemma write_split:
  "k \<le> length bs \<Longrightarrow> write_bytes (write_bytes m a (take k bs)) (a + of_nat k) (drop k bs) = write_bytes m a bs"
  using write_bytes_append[of m a "take k bs" "drop k bs"] by simp

lemma read_plain:
  assumes "unpaged s" "n \<le> 4096"
  shows "\<exists>s'. access_read_linear a n pl rw ac s = (Inr (read_bytes (mem s) a n), s')
     \<and> mem s' = mem s \<and> sregs s' = sregs s \<and> unpaged s' \<and> rmw_ready a n s'"
proof (cases "PAGE_OFFSET a + n \<le> 4096")
  case True
  then show ?thesis using assms
    by (simp add: access_read_linear_def Let_def alignment_fault_def unpaged_def[of s] exec_simps
        exec_bind(1)[where m = "xlate a u w" for u w, OF unpaged_xlate] access_read_physical_def rmw_ready_def)
next
  case False
  let ?k = "4096 - PAGE_OFFSET a"
  have k: "?k + (n - ?k) = n" using False page_offset_less[of a] by simp
  have "read_bytes (mem s) a ?k @ read_bytes (mem s) (a + of_nat ?k) (n - ?k) = read_bytes (mem s) a n"
    using read_bytes_append[of "mem s" a ?k "n - ?k"] k by simp
  then show ?thesis using assms False
    by (simp add: access_read_linear_def Let_def alignment_fault_def exec_simps
        exec_bind(1)[where m = "xlate b u w" for b u w, OF unpaged_xlate] access_read_physical_def rmw_ready_def unpaged_def[of s])
qed

lemma write_plain:
  assumes "unpaged s" "length bs \<le> 4096"
  shows "\<exists>s'. access_write_linear a pl ac bs s = (Inr (), s')
     \<and> mem s' = write_bytes (mem s) a bs \<and> sregs s' = sregs s \<and> unpaged s'"
proof (cases "PAGE_OFFSET a + length bs \<le> 4096")
  case True
  then show ?thesis using assms
    by (simp add: access_write_linear_def Let_def alignment_fault_def unpaged_def[of s] exec_simps
        exec_bind(1)[where m = "xlate a u w" for u w, OF unpaged_xlate] access_write_physical_def)
next
  case False
  let ?k = "4096 - PAGE_OFFSET a"
  have k: "?k \<le> length bs" using False page_offset_less[of a] by simp
  then show ?thesis using assms False write_split[OF k, of "mem s" a]
    by (simp add: access_write_linear_def Let_def alignment_fault_def exec_simps
        exec_bind(1)[where m = "xlate b u w" for b u w, OF unpaged_xlate] access_write_physical_def unpaged_def[of s])
qed

lemma rmw_write:
  "rmw_ready a (length bs) s \<Longrightarrow> write_RMW_linear bs s = (Inr (), s\<lparr>mem := write_bytes (mem s) a bs\<rparr>)"
  using write_split[of "len1 s" bs "mem s" a]
  by (auto simp: rmw_ready_def write_RMW_linear_def exec_simps access_write_physical_def)

lemma flat_cong: "sregs s' = sregs s \<Longrightarrow> flat_rw r s' = flat_rw r s"
  by (simp add: flat_rw_def)

text \<open>The three kinds of access to a dword of a flat segment.\<close>

lemma read_dword_flat:
  assumes "flat_rw r s" "unpaged s"
  shows "\<exists>s'. read_virtual_dword r off s = (Inr (read32 (mem s) off), s') \<and> accessed r s s'"
proof -
  obtain t where t: "agen_read32 r off 4 s = (Inr off, t)" "flat_rw r t" and u: "unpaged t" "mem t = mem s"
    using agen_flat(2)[OF assms] by blast
  obtain s' where s': "access_read_linear off 4 (CPL t) False 3 t = (Inr (read_bytes (mem t) off 4), s')"
     "mem s' = mem t" "sregs s' = sregs t" "unpaged s'"
    using read_plain[OF u(1), of 4 off "CPL t" False 3] by auto
  have run: "read_virtual_dword r off s = (Inr (read32 (mem s) off), s')"
    using t(1) s'(1) u(2) by (simp add: read_virtual_dword_def read_virtual_def bindM_assoc exec_bind exec_simps read32_bytes)
  have "quiet (read_virtual_dword r off)" by (rule quiet_sized)
  then have "regs_same s s'" using run unfolding keeps_def by (metis snd_conv)
  with run s' u t(2) flat_cong[OF s'(3), of r] show ?thesis by (simp add: accessed_def)
qed

lemma rmw_dword_flat:
  assumes "flat_rw r s" "unpaged s"
  shows "\<exists>s'. read_RMW_virtual_dword r off s = (Inr (read32 (mem s) off), s') \<and> accessed r s s' \<and> rmw_ready off 4 s'"
proof -
  obtain t where t: "agen_write32 r off 4 s = (Inr off, t)" "flat_rw r t" and u: "unpaged t" "mem t = mem s"
    using agen_flat(1)[OF assms] by blast
  obtain s' where s': "access_read_linear off 4 (CPL t) True 3 t = (Inr (read_bytes (mem t) off 4), s')"
     "mem s' = mem t" "sregs s' = sregs t" "unpaged s'" "rmw_ready off 4 s'"
    using read_plain[OF u(1), of 4 off "CPL t" True 3] by auto
  have run: "read_RMW_virtual_dword r off s = (Inr (read32 (mem s) off), s')"
    using t(1) s'(1) u(2) by (simp add: read_RMW_virtual_dword_def read_RMW_virtual_def bindM_assoc exec_bind exec_simps read32_bytes)
  have "quiet (read_RMW_virtual_dword r off)" by (rule quiet_sized)
  then have "regs_same s s'" using run unfolding keeps_def by (metis snd_conv)
  with run s' u t(2) flat_cong[OF s'(3), of r] show ?thesis by (simp add: accessed_def)
qed

lemma write_dword_flat:
  assumes "flat_rw r s" "unpaged s"
  shows "\<exists>s'. write_virtual_dword r off v s = (Inr (), s') \<and> regs_same s s' \<and> mem s' = write32 (mem s) off v
    \<and> flat_rw r s' \<and> unpaged s'"
proof -
  obtain t where t: "agen_write32 r off 4 s = (Inr off, t)" "flat_rw r t" and u: "unpaged t" "mem t = mem s"
    using agen_flat(1)[OF assms] by blast
  obtain s' where s': "access_write_linear off (CPL t) 3 (le_bytes 4 v) t = (Inr (), s')"
     "mem s' = write_bytes (mem t) off (le_bytes 4 v)" "sregs s' = sregs t" "unpaged s'"
    using write_plain[OF u(1), of "le_bytes 4 v" off "CPL t" 3] by auto
  have run: "write_virtual_dword r off v s = (Inr (), s')"
    using t(1) s'(1) by (simp add: write_virtual_dword_def write_virtual_def exec_bind exec_simps)
  have "quiet (write_virtual_dword r off v)" by (rule quiet_sized)
  then have "regs_same s s'" using run unfolding keeps_def by (metis snd_conv)
  with run s' u t(2) flat_cong[OF s'(3), of r] show ?thesis by (simp add: write32_bytes)
qed

lemma rmw_dword_write: "rmw_ready a 4 s \<Longrightarrow> write_RMW_linear_dword v s = (Inr (), s\<lparr>mem := write32 (mem s) a v\<rparr>)"
  using rmw_write[of a "le_bytes 4 v" s] by (simp add: write_RMW_linear_dword_def write32_bytes)

lemma rmw_ready_update [simp]: "rmw_ready a n (set_flags f s) = rmw_ready a n s" "rmw_ready a n (set_reg32 k v s) = rmw_ready a n s"
  by (simp_all add: rmw_ready_def set_reg32_def)

section \<open>What an instruction yields\<close>

text \<open>\<open>yields (h s) s r f m'\<close>: the handler returns with general registers \<open>r\<close>, arithmetic flags \<open>f\<close> and
memory \<open>m'\<close>, and no other visible register changed.\<close>

definition yields :: "(cpu_exn + unit) \<times> cpu \<Rightarrow> cpu \<Rightarrow> (nat \<Rightarrow> u32) \<Rightarrow> arith_flags \<Rightarrow> memory \<Rightarrow> bool" where
  "yields res s r f m' \<longleftrightarrow> (\<exists>s'. res = (Inr (), s') \<and> gen_reg s' = r \<and> flags_of (oszapc s') = f \<and> mem s' = m'
     \<and> EIP s' = EIP s \<and> eflags s' = eflags s \<and> cr0 s' = cr0 s \<and> cr3 s' = cr3 s
     \<and> (\<forall>k. same_seg (sregs s k) (sregs s' k)))"

text \<open>A handler that reads a dword operand behaves as the rest of it does after the access.\<close>

lemma yields_rmw:
  assumes "flat_rw (i_seg i) s" "unpaged s"
    and "\<And>t. accessed (i_seg i) s t \<Longrightarrow> rmw_ready (ResolveModrm i s) 4 t
      \<Longrightarrow> yields (f (read32 (mem s) (ResolveModrm i s)) t) t r fl m'"
  shows "yields (rmw_Ed i f s) s r fl m'"
proof -
  obtain t where t: "read_RMW_virtual_dword (i_seg i) (ResolveModrm i s) s = (Inr (read32 (mem s) (ResolveModrm i s)), t)"
      "accessed (i_seg i) s t" "rmw_ready (ResolveModrm i s) 4 t"
    using rmw_dword_flat[OF assms(1,2)] by blast
  then have "rmw_Ed i f s = f (read32 (mem s) (ResolveModrm i s)) t" by (simp add: rmw_Ed_def exec_simps exec_bind)
  with assms(3)[OF t(2,3)] t(2) show ?thesis
    by (auto simp: yields_def accessed_def regs_same_def same_seg_def)
qed

lemma yields_load:
  assumes "flat_rw (i_seg i) s" "unpaged s"
    and "\<And>t. accessed (i_seg i) s t \<Longrightarrow> yields (f (read32 (mem s) (ResolveModrm i s)) t) t r fl m'"
  shows "yields (load_Ed i f s) s r fl m'"
proof -
  obtain t where t: "read_virtual_dword (i_seg i) (ResolveModrm i s) s = (Inr (read32 (mem s) (ResolveModrm i s)), t)"
      "accessed (i_seg i) s t"
    using read_dword_flat[OF assms(1,2)] by blast
  then have "load_Ed i f s = f (read32 (mem s) (ResolveModrm i s)) t" by (simp add: load_Ed_def exec_simps exec_bind)
  with assms(3)[OF t(2)] t(2) show ?thesis
    by (auto simp: yields_def accessed_def regs_same_def same_seg_def)
qed

section \<open>A concrete machine\<close>

text \<open>Protected mode, paging off, flat 4 GB segments at privilege 0, as the kernels' GDT sets them up;
memory and registers hold 0.\<close>

definition flat_segment :: "u16 \<Rightarrow> u8 \<Rightarrow> bx_segment_reg" where
  "flat_segment sel t =
     \<lparr>seg_selector = \<lparr>sel_value = sel, sel_index = drop_bit 3 sel, sel_ti = 0, sel_rpl = 0\<rparr>,
      seg_cache = \<lparr>d_valid = 1, d_p = True, d_dpl = 0, d_segment = True, d_type = t, d_base = 0,
        d_limit_scaled = 0xFFFFFFFF, d_g = True, d_d_b = True, d_avl = False,
        d_param_count = 0, d_dest_selector = 0, d_dest_offset = 0, d_tss_selector = 0\<rparr>\<rparr>"

definition flat_cpu :: cpu where
  "flat_cpu =
     \<lparr>mem = (\<lambda>_. 0), trace = [], gen_reg = (\<lambda>_. 0)(R_ESP := 0x1000), EIP = 0x100000, eflags = 2,
      oszapc = \<lparr>lf_result = 1, lf_auxbits = 0\<rparr>,
      sregs = (\<lambda>_. flat_segment 16 3)(SEG_CS := flat_segment 8 11),
      gdtr = \<lparr>gs_base = 0x200, gs_limit = 23\<rparr>, idtr = \<lparr>gs_base = 0x800, gs_limit = 2047\<rparr>,
      ldtr = flat_segment 0 2, tr = flat_segment 0 11,
      cr0 = 1, cr2 = 0, cr3 = 0, cr4 = 0, paddress1 = 0, paddress2 = 0, len1 = 0, len2 = 0, pages = 1,
      speculative_rsp = False, prev_rsp = 0, alignment_check_mask = 0, pending_event = 0, event_mask = 0,
      async_event = 0, inhibit_mask = 0, inhibit_icount = 0, icount = 0,
      prev_rip = 0x100000, EXT = False, last_exception_type = 0, debug_trap = 0, dr6 = 0, dr7 = 0\<rparr>"

lemma flat_cpu_ok: "flat_rw SEG_DS flat_cpu" "flat_rw SEG_SS flat_cpu" "unpaged flat_cpu" "protected_mode flat_cpu"
  "CPL flat_cpu = 0" "\<not> speculative_rsp flat_cpu"
  by (simp_all add: flat_rw_def flat_cpu_def flat_segment_def unpaged_def get_PG_def protected_mode_def get_PE_def
      get_flag_def CPL_def)

definition plain_instruction :: bxInstruction where
  "plain_instruction =
     \<lparr>i_dst = R_EAX, i_src = R_EBX, i_seg = SEG_DS, i_sibBase = R_ESI, i_sibIndex = R_EDI, i_sibScale = 0,
      i_displ = 0x2000, i_resolve = BxResolve32Base, i_Id = 5, i_Ib2 = 0, i_by_CL = False,
      i_Iw2 = 0, i_os32 = True, i_as32 = True\<rparr>"

end
