(* ===== verification/AluCorrect.thy ===== *)
theory AluCorrect
  imports CpuLemmas
begin

text \<open>
  What the 32-bit arithmetic and logical instructions compute. The reference is the exact sum or
  difference (\<open>add_flags\<close>, \<open>sub_flags\<close>, \<open>logic_flags\<close>); the handlers compute
  lazily from carry vectors. A memory operand of a flat segment is treated as a register is.
\<close>

section \<open>Flags of 32-bit results\<close>

named_theorems alu_flags \<open>the flags the handlers leave\<close>

lemma ADD32_flags [alu_flags]:
  "flags_of (SET_FLAGS_OSZAPC_ADD 32 x y (x + y) f) = add_flags x y False"
  "flags_of (SET_FLAGS_OSZAPC_ADD 32 x y (x + y + 1) f) = add_flags x y True"
  using OSZAPC_ADD_flags[of x y False f] OSZAPC_ADD_flags[of x y True f] by simp_all

lemma SUB32_flags [alu_flags]:
  "flags_of (SET_FLAGS_OSZAPC_SUB 32 x y (x - y) f) = sub_flags x y False"
  "flags_of (SET_FLAGS_OSZAPC_SUB 32 x y (x - (y + 1)) f) = sub_flags x y True"
  "flags_of (SET_FLAGS_OSZAPC_SUB 32 x x 0 f) = sub_flags x x False"
  using OSZAPC_SUB_flags[of x y False f] OSZAPC_SUB_flags[of x y True f] OSZAPC_SUB_flags[of x x False f]
  by (simp_all add: diff_diff_eq)

lemma LOGIC32_flags [alu_flags]: "flags_of (SET_FLAGS_OSZAPC_LOGIC 32 r f) = logic_flags r"
  using OSZAPC_LOGIC_flags[of r f] by simp

text \<open>INC and DEC hand the vector functions the operands 0 and a carry; the flags are those of
adding or subtracting 1, CF kept.\<close>

lemma INC32_flags [alu_flags]:
  "flags_of (SET_FLAGS_OSZAP_ADD 32 x 0 (x + 1) f) = (add_flags x 1 False)\<lparr>CF := getB_CF f\<rparr>"
proof -
  have "flags_of (SET_FLAGS_OSZAP_ADD 32 x 0 (x + 1) f) = (add_flags x 0 True)\<lparr>CF := getB_CF f\<rparr>"
    using OSZAPC_ADD_flags[of x 0 True f]
    by (simp add: SET_FLAGS_OSZAP_ADD_def OSZAP_of_OSZAPC SET_FLAGS_OSZAPC_ADD_def)
  then show ?thesis by (simp add: add_flags_def)
qed

lemma DEC32_flags [alu_flags]:
  "flags_of (SET_FLAGS_OSZAP_SUB 32 x 0 (x - 1) f) = (sub_flags x 1 False)\<lparr>CF := getB_CF f\<rparr>"
proof -
  have "flags_of (SET_FLAGS_OSZAP_SUB 32 x 0 (x - 1) f) = (sub_flags x 0 True)\<lparr>CF := getB_CF f\<rparr>"
    using OSZAPC_SUB_flags[of x 0 True f]
    by (simp add: SET_FLAGS_OSZAP_SUB_def OSZAP_of_OSZAPC SET_FLAGS_OSZAPC_SUB_def)
  then show ?thesis by (simp add: sub_flags_def)
qed

lemma NEG32_flags [alu_flags]: "flags_of (SET_FLAGS_OSZAPC_SUB 32 0 x (- x) f) = sub_flags 0 x False"
  using OSZAPC_SUB_flags[of 0 x False f] by simp

section \<open>Register operands\<close>

lemma yields_pure:
  "gen_reg s' = r \<Longrightarrow> flags_of (oszapc s') = fl \<Longrightarrow> mem s' = m' \<Longrightarrow> EIP s' = EIP s \<Longrightarrow> eflags s' = eflags s
    \<Longrightarrow> cr0 s' = cr0 s \<Longrightarrow> cr3 s' = cr3 s \<Longrightarrow> sregs s' = sregs s \<Longrightarrow> yields (Inr (), s') s r fl m'"
  by (simp add: yields_def same_seg_def)

text \<open>C31: The 32-bit ALU instructions with register operands compute what they say: addition and
  subtraction modulo 2^32 with the carry or borrow going in, and the bitwise operations. CF, AF and OF
  are those of the addition or subtraction, ZF, SF and PF those of the result, INC and DEC keep CF, and
  comparisons write flags only. EIP, the segment and control registers and the memory stay as they were.\<close>

theorem alu32_register_operands:
  fixes s :: cpu
  defines "R \<equiv> gen_reg s" and "c \<equiv> getB_CF (oszapc s)" and "m \<equiv> mem s"
  shows "let x = R (i_dst i); y = R (i_src i); n = i_Id i; W = (\<lambda>v. R(i_dst i := v)) in
    yields (ADD_GdEdR i s) s (W (x + y)) (add_flags x y False) m \<and>
    yields (ADC_GdEdR i s) s (W (x + y + of_bool c)) (add_flags x y c) m \<and>
    yields (SUB_GdEdR i s) s (W (x - y)) (sub_flags x y False) m \<and>
    yields (SBB_GdEdR i s) s (W (x - (y + of_bool c))) (sub_flags x y c) m \<and>
    yields (CMP_GdEdR i s) s R (sub_flags x y False) m \<and>
    yields (ADD_EdIdR i s) s (W (x + n)) (add_flags x n False) m \<and>
    yields (ADC_EdIdR i s) s (W (x + n + of_bool c)) (add_flags x n c) m \<and>
    yields (SUB_EdIdR i s) s (W (x - n)) (sub_flags x n False) m \<and>
    yields (SBB_EdIdR i s) s (W (x - (n + of_bool c))) (sub_flags x n c) m \<and>
    yields (CMP_EdIdR i s) s R (sub_flags x n False) m \<and>
    yields (INC_EdR i s) s (W (x + 1)) ((add_flags x 1 False)\<lparr>CF := c\<rparr>) m \<and>
    yields (DEC_EdR i s) s (W (x - 1)) ((sub_flags x 1 False)\<lparr>CF := c\<rparr>) m \<and>
    yields (NEG_EdR i s) s (W (- x)) (sub_flags 0 x False) m \<and>
    yields (XADD_EdGdR i s) s ((R(i_src i := x))(i_dst i := x + y)) (add_flags x y False) m \<and>
    yields (CMPXCHG_EdGdR i s) s (if R R_EAX = x then W y else R(R_EAX := x)) (sub_flags (R R_EAX) x False) m \<and>
    yields (AND_GdEdR i s) s (W (x AND y)) (logic_flags (x AND y)) m \<and>
    yields (OR_GdEdR i s) s (W (x OR y)) (logic_flags (x OR y)) m \<and>
    yields (XOR_GdEdR i s) s (W (x XOR y)) (logic_flags (x XOR y)) m \<and>
    yields (TEST_EdGdR i s) s R (logic_flags (x AND y)) m \<and>
    yields (AND_EdIdR i s) s (W (x AND n)) (logic_flags (x AND n)) m \<and>
    yields (OR_EdIdR i s) s (W (x OR n)) (logic_flags (x OR n)) m \<and>
    yields (XOR_EdIdR i s) s (W (x XOR n)) (logic_flags (x XOR n)) m \<and>
    yields (TEST_EdIdR i s) s R (logic_flags (x AND n)) m \<and>
    yields (NOT_EdR i s) s (W (NOT x)) (flags_of (oszapc s)) m"
  unfolding Let_def R_def c_def m_def
  by (intro conjI; simp only: ADD_GdEdR_def ADC_GdEdR_def SUB_GdEdR_def SBB_GdEdR_def CMP_GdEdR_def ADD_EdIdR_def
      ADC_EdIdR_def SUB_EdIdR_def SBB_EdIdR_def CMP_EdIdR_def INC_EdR_def DEC_EdR_def NEG_EdR_def XADD_EdGdR_def
      CMPXCHG_EdGdR_def AND_GdEdR_def OR_GdEdR_def XOR_GdEdR_def TEST_EdGdR_def AND_EdIdR_def OR_EdIdR_def
      XOR_EdIdR_def TEST_EdIdR_def NOT_EdR_def exec_simps Let_def)
    (rule yields_pure; auto simp: alu_flags; fail)+

section \<open>Memory operands\<close>

text \<open>After the access: the write back as a state update, and the registers unchanged.\<close>

definition store_dword :: "u32 \<Rightarrow> cpu \<Rightarrow> cpu" where
  "store_dword v s = snd (write_RMW_linear_dword v s)"

lemma write_RMW_step [exec_simps]:
  "write_RMW_linear_dword v s = (Inr (), store_dword v s)"
  "seqM (write_RMW_linear_dword v) k s = k (store_dword v s)"
  by (simp_all add: store_dword_def write_RMW_linear_dword_def write_RMW_linear_def exec_simps)

lemma rmw_store:
  assumes "rmw_ready a 4 t"
  shows "(\<forall>x. store_dword x t = t\<lparr>mem := write32 (mem t) a x\<rparr>) \<and>
    (\<forall>x g. store_dword x (set_flags g t) = (set_flags g t)\<lparr>mem := write32 (mem t) a x\<rparr>)"
  using assms rmw_dword_write[of a] by (simp add: store_dword_def)

lemma accessed_eqs: "accessed r s t \<Longrightarrow> gen_reg t = gen_reg s \<and> oszapc t = oszapc s \<and> mem t = mem s"
  by (simp add: accessed_def regs_same_def)

lemma yields_mem: "fl = flags_of (oszapc t') \<Longrightarrow> r = gen_reg t' \<Longrightarrow> m' = mem t' \<Longrightarrow> EIP t' = EIP t \<Longrightarrow> eflags t' = eflags t
    \<Longrightarrow> cr0 t' = cr0 t \<Longrightarrow> cr3 t' = cr3 t \<Longrightarrow> sregs t' = sregs t \<Longrightarrow> yields (Inr (), t') t r fl m'"
  by (simp add: yields_def same_seg_def)

text \<open>C30: With a flat segment and paging off, the 32-bit ALU instructions with a memory operand read
  the dword at their effective address and write back the same dword and no other byte; results and
  flags are those of the register forms. CMPXCHG stores the source when EAX matches, and rewrites the
  old value when it does not.\<close>

theorem alu32_memory_operands:
  fixes s :: cpu
  assumes "flat_rw (i_seg i) s" "unpaged s"
  defines "R \<equiv> gen_reg s" and "c \<equiv> getB_CF (oszapc s)" and "m \<equiv> mem s"
  shows "let a = ResolveModrm i s; v = read32 m a; y = R (i_src i); n = i_Id i; W = write32 m a in
    yields (ADD_EdGdM i s) s R (add_flags v y False) (W (v + y)) \<and>
    yields (ADC_EdGdM i s) s R (add_flags v y c) (W (v + y + of_bool c)) \<and>
    yields (SUB_EdGdM i s) s R (sub_flags v y False) (W (v - y)) \<and>
    yields (SBB_EdGdM i s) s R (sub_flags v y c) (W (v - (y + of_bool c))) \<and>
    yields (ADD_EdIdM i s) s R (add_flags v n False) (W (v + n)) \<and>
    yields (ADC_EdIdM i s) s R (add_flags v n c) (W (v + n + of_bool c)) \<and>
    yields (SUB_EdIdM i s) s R (sub_flags v n False) (W (v - n)) \<and>
    yields (SBB_EdIdM i s) s R (sub_flags v n c) (W (v - (n + of_bool c))) \<and>
    yields (INC_EdM i s) s R ((add_flags v 1 False)\<lparr>CF := c\<rparr>) (W (v + 1)) \<and>
    yields (DEC_EdM i s) s R ((sub_flags v 1 False)\<lparr>CF := c\<rparr>) (W (v - 1)) \<and>
    yields (NEG_EdM i s) s R (sub_flags 0 v False) (W (- v)) \<and>
    yields (XADD_EdGdM i s) s (R(i_src i := v)) (add_flags v y False) (W (v + y)) \<and>
    yields (CMPXCHG_EdGdM i s) s (if R R_EAX = v then R else R(R_EAX := v)) (sub_flags (R R_EAX) v False)
      (W (if R R_EAX = v then y else v)) \<and>
    yields (AND_EdGdM i s) s R (logic_flags (v AND y)) (W (v AND y)) \<and>
    yields (OR_EdGdM i s) s R (logic_flags (v OR y)) (W (v OR y)) \<and>
    yields (XOR_EdGdM i s) s R (logic_flags (v XOR y)) (W (v XOR y)) \<and>
    yields (AND_EdIdM i s) s R (logic_flags (v AND n)) (W (v AND n)) \<and>
    yields (OR_EdIdM i s) s R (logic_flags (v OR n)) (W (v OR n)) \<and>
    yields (XOR_EdIdM i s) s R (logic_flags (v XOR n)) (W (v XOR n)) \<and>
    yields (NOT_EdM i s) s R (flags_of (oszapc s)) (W (NOT v)) \<and>
    yields (XCHG_EdGdM i s) s (R(i_src i := v)) (flags_of (oszapc s)) (W y) \<and>
    (let x = R (i_dst i); D = (\<lambda>u. R(i_dst i := u)) in
    yields (ADD_GdEdM i s) s (D (x + v)) (add_flags x v False) m \<and>
    yields (ADC_GdEdM i s) s (D (x + v + of_bool c)) (add_flags x v c) m \<and>
    yields (SUB_GdEdM i s) s (D (x - v)) (sub_flags x v False) m \<and>
    yields (SBB_GdEdM i s) s (D (x - (v + of_bool c))) (sub_flags x v c) m \<and>
    yields (CMP_GdEdM i s) s R (sub_flags x v False) m \<and>
    yields (CMP_EdGdM i s) s R (sub_flags v y False) m \<and>
    yields (CMP_EdIdM i s) s R (sub_flags v n False) m \<and>
    yields (AND_GdEdM i s) s (D (x AND v)) (logic_flags (x AND v)) m \<and>
    yields (OR_GdEdM i s) s (D (x OR v)) (logic_flags (x OR v)) m \<and>
    yields (XOR_GdEdM i s) s (D (x XOR v)) (logic_flags (x XOR v)) m \<and>
    yields (TEST_EdGdM i s) s R (logic_flags (v AND y)) m \<and>
    yields (TEST_EdIdM i s) s R (logic_flags (v AND n)) m)"
  unfolding Let_def R_def c_def m_def
  by (intro conjI; simp only: ADD_EdGdM_def ADC_EdGdM_def SUB_EdGdM_def SBB_EdGdM_def ADD_EdIdM_def ADC_EdIdM_def
      SUB_EdIdM_def SBB_EdIdM_def INC_EdM_def DEC_EdM_def NEG_EdM_def XADD_EdGdM_def CMPXCHG_EdGdM_def AND_EdGdM_def
      OR_EdGdM_def XOR_EdGdM_def AND_EdIdM_def OR_EdIdM_def XOR_EdIdM_def NOT_EdM_def XCHG_EdGdM_def ADD_GdEdM_def
      ADC_GdEdM_def SUB_GdEdM_def SBB_GdEdM_def CMP_GdEdM_def CMP_EdGdM_def CMP_EdIdM_def AND_GdEdM_def OR_GdEdM_def
      XOR_GdEdM_def TEST_EdGdM_def TEST_EdIdM_def Let_def;
      (rule yields_rmw[OF assms(1,2)], drule rmw_store | rule yields_load[OF assms(1,2)]); drule accessed_eqs; elim conjE;
      auto simp: exec_simps alu_flags intro!: yields_mem)

theorem alu32_memory_operands_witness:
  "gen_reg (snd (CMP_EdIdM plain_instruction flat_cpu)) = gen_reg flat_cpu
   \<and> CF (flags_of (oszapc (snd (CMP_EdIdM plain_instruction flat_cpu))))
   \<and> mem (snd (ADD_EdIdM plain_instruction flat_cpu)) 0x2000 = 5"
proof -
  have "flat_rw (i_seg plain_instruction) flat_cpu" by (simp add: plain_instruction_def flat_cpu_ok)
  note ok = alu32_memory_operands[OF this flat_cpu_ok(3), unfolded Let_def]
  have a: "ResolveModrm plain_instruction flat_cpu = 0x2000"
    by (simp add: plain_instruction_def flat_cpu_def ResolveModrm_def resolve32_base_def)
  have v: "read32 (mem flat_cpu) 0x2000 = 0" by (simp add: flat_cpu_def read32_def)
  have n: "i_Id plain_instruction = 5" by (simp add: plain_instruction_def)
  have "yields (CMP_EdIdM plain_instruction flat_cpu) flat_cpu (gen_reg flat_cpu) (sub_flags (0 :: u32) 5 False) (mem flat_cpu)"
    using ok unfolding a v n by (elim conjE)
  moreover have "yields (ADD_EdIdM plain_instruction flat_cpu) flat_cpu (gen_reg flat_cpu) (add_flags (0 :: u32) 5 False)
      (write32 (mem flat_cpu) 0x2000 (0 + 5))"
    using ok unfolding a v n by (elim conjE)
  ultimately show ?thesis by (auto simp: yields_def sub_flags_def write32_def)
qed

section \<open>Faults\<close>

lemma rmw_faults: "(\<And>s x. faults_keep regs_same (f s x)) \<Longrightarrow> faults_keep regs_same (\<lambda>s. rmw_Ed i (f s) s)"
  unfolding rmw_Ed_def by (intro regs.fault_rules regs.keep_rules quiet_rules)

lemma load_faults: "(\<And>s x. faults_keep regs_same (f s x)) \<Longrightarrow> faults_keep regs_same (\<lambda>s. load_Ed i (f s) s)"
  unfolding load_Ed_def by (intro regs.fault_rules regs.keep_rules quiet_rules)

text \<open>Nothing after the access can fault: the write back uses the translation kept from it.\<close>

lemma write_back_faults:
  "faults_keep R (\<lambda>s. seqM (write_RMW_linear_dword (v s)) (updM (h s)) s)"
  "faults_keep R (\<lambda>s. seqM (write_RMW_linear_qword (w s)) (updM (h s)) s)"
  "faults_keep R (\<lambda>s. write_RMW_linear_dword (v s) s)"
  "faults_keep R (\<lambda>s. seqM (updM (g s)) (if c s then write_RMW_linear_dword (v s)
     else seqM (write_RMW_linear_dword (v' s)) (updM (h s))) s)"
  "faults_keep R (\<lambda>s. seqM (updM (h s)) (ret (x s)) s)" "faults_keep R (\<lambda>s. updM (h s) s)"
  "faults_keep R (seqM (updM h') RSP_COMMIT)" "faults_keep R RSP_COMMIT"
  by (simp_all add: faults_keep_def exec_simps write_RMW_linear_qword_def write_RMW_linear_def RSP_COMMIT_def)

lemma faults_then_updM:
  "(\<And>s. faults_keep R (m s)) \<Longrightarrow> faults_keep R (\<lambda>s. bindM (m s) (\<lambda>x. updM (h s x)) s)"
  by (auto simp: faults_keep_def bindM_def exec_simps split: prod.splits sum.splits)

lemma push_faults: "faults_keep regs_same (push_32 v)"
  unfolding push_32_def by (intro regs.fault_rules quiet_rules)

lemma pop_faults: "faults_keep regs_same pop_32"
  unfolding pop_32_def by (intro write_back_faults regs.fault_rules quiet_rules)

lemma quiet_push_all [quiet_rules]: "quiet (push_all wrap off vs)"
proof (induction vs arbitrary: off)
  case (Cons v vs)
  show ?case unfolding push_all.simps by (intro Cons.IH quiet_rules regs.keep_rules)
qed (simp add: regs.keep_rules)

lemma keeps_enter_frames: "keeps same_but_esp (enter_frames32 k ebp)" "keeps same_but_esp (enter_frames16 k bp)"
proof -
  show "keeps same_but_esp (enter_frames32 k ebp)"
    by (induction k arbitrary: ebp) (simp_all, (intro esp.keep_rules keeps_push_pop quiet_esp_rules; assumption?)+)
  show "keeps same_but_esp (enter_frames16 k bp)"
    by (induction k arbitrary: bp) (simp_all, (intro esp.keep_rules keeps_push_pop quiet_esp_rules; assumption?)+)
qed

lemma esp_moves: "same_but_esp s (set_reg32 R_ESP w s)" "same_but_esp s (set_reg16 R_ESP w' s)"
  by (simp_all add: same_but_esp_def regs_same_def same_seg_def set_reg32_def set_reg16_def)

lemmas restart_rules = quiet_sized[THEN regs.faults_keeps] rmw_faults load_faults write_back_faults push_faults pop_faults faults_then_updM
  regs.fault_rules regs.keep_rules quiet_rules

lemma restart_add:
  "restartable (ADD_EdGdM i)" "restartable (ADD_GdEdM i)" "restartable (ADD_EdIdM i)"
  "restartable (ADC_EdGdM i)" "restartable (ADC_GdEdM i)" "restartable (ADC_EdIdM i)"
  "restartable (XADD_EdGdM i)" "restartable (INC_EdM i)" "restartable (CMPXCHG_EdGdM i)"
  "restartable (CMPXCHG8B i)"
  unfolding ADD_EdGdM_def ADD_GdEdM_def ADD_EdIdM_def ADC_EdGdM_def ADC_GdEdM_def ADC_EdIdM_def XADD_EdGdM_def
    INC_EdM_def CMPXCHG_EdGdM_def CMPXCHG8B_def Let_def
  by (rule restart_plain, intro restart_rules)+

lemma restart_sub:
  "restartable (SBB_EdGdM i)" "restartable (SBB_GdEdM i)" "restartable (SBB_EdIdM i)"
  "restartable (SUB_EdGdM i)" "restartable (SUB_GdEdM i)" "restartable (SUB_EdIdM i)"
  "restartable (CMP_EdGdM i)" "restartable (CMP_GdEdM i)" "restartable (CMP_EdIdM i)"
  "restartable (NEG_EdM i)" "restartable (DEC_EdM i)"
  unfolding SBB_EdGdM_def SBB_GdEdM_def SBB_EdIdM_def SUB_EdGdM_def SUB_GdEdM_def SUB_EdIdM_def CMP_EdGdM_def
    CMP_GdEdM_def CMP_EdIdM_def NEG_EdM_def DEC_EdM_def Let_def
  by (rule restart_plain, intro restart_rules)+

lemma restart_logic:
  "restartable (XOR_EdGdM i)" "restartable (XOR_GdEdM i)" "restartable (XOR_EdIdM i)"
  "restartable (OR_EdGdM i)" "restartable (OR_GdEdM i)" "restartable (OR_EdIdM i)" "restartable (AND_EdGdM i)"
  "restartable (AND_GdEdM i)" "restartable (AND_EdIdM i)" "restartable (NOT_EdM i)"
  "restartable (TEST_EdGdM i)" "restartable (TEST_EdIdM i)"
  unfolding XOR_EdGdM_def XOR_GdEdM_def XOR_EdIdM_def OR_EdGdM_def OR_GdEdM_def OR_EdIdM_def AND_EdGdM_def
    AND_GdEdM_def AND_EdIdM_def NOT_EdM_def TEST_EdGdM_def TEST_EdIdM_def Let_def
  by (rule restart_plain, intro restart_rules)+

lemma restart_shift:
  "restartable (SHLD_EdGdM i)" "restartable (SHRD_EdGdM i)" "restartable (ROL_EdM i)"
  "restartable (ROR_EdM i)" "restartable (RCL_EdM i)" "restartable (RCR_EdM i)" "restartable (SHL_EdM i)"
  "restartable (SHR_EdM i)" "restartable (SAR_EdM i)"
  unfolding SHLD_EdGdM_def SHRD_EdGdM_def ROL_EdM_def ROR_EdM_def RCL_EdM_def RCR_EdM_def SHL_EdM_def
    SHR_EdM_def SAR_EdM_def Let_def
  by (rule restart_plain, intro restart_rules)+

lemma restart_mov:
  "restartable (XCHG_EdGdM i)" "restartable (MOV_EdIdM i)" "restartable (MOV32_EdGdM i)"
  "restartable (MOV32S_EdGdM i)" "restartable (MOV32_GdEdM i)" "restartable (MOV32S_GdEdM i)"
  "restartable (MOV_EAXOd i)" "restartable (MOV_OdEAX i)" "restartable (MOVZX_GdEbM i)"
  "restartable (MOVZX_GdEwM i)" "restartable (MOVSX_GdEbM i)" "restartable (MOVSX_GdEwM i)"
  "restartable (DIV_EAXEdR i)" "restartable (IDIV_EAXEdR i)"
  unfolding XCHG_EdGdM_def MOV_EdIdM_def MOV32_EdGdM_def MOV32S_EdGdM_def MOV32_GdEdM_def MOV32S_GdEdM_def
    MOV_EAXOd_def MOV_OdEAX_def MOVZX_GdEbM_def MOVZX_GdEwM_def MOVSX_GdEbM_def MOVSX_GdEwM_def
    DIV_EAXEdR_def IDIV_EAXEdR_def Let_def
  by (rule restart_plain, intro restart_rules)+

lemma restart_stack:
  "restartable (PUSH_EdR i)" "restartable (PUSH_EdM i)" "restartable (PUSH_Id i)" "restartable (PUSH32_Sw i)"
  "restartable (POP_EdR i)" "restartable (PUSHA32 i)" "restartable (POPA32 i)" "restartable (LEAVE32 i)"
  unfolding PUSH_EdR_def PUSH_EdM_def PUSH_Id_def PUSH32_Sw_def POP_EdR_def PUSHA32_def POPA32_def LEAVE32_def
    Let_def
  by (rule restart_plain, intro restart_rules)+

lemma restart_speculative_stack: "restartable (POP_EdM i)" "restartable (ENTER32_IwIb i)"
  unfolding POP_EdM_def ENTER32_IwIb_def Let_def
  by (rule restart_speculative; intro esp_moves write_back_faults esp.fault_rules keeps_push_pop keeps_enter_frames
      quiet_esp_rules esp.keep_rules)+

text \<open>C33: An instruction that accesses memory or the stack and faults (segment check, alignment,
  page fault or division error) has changed no general register, flag, EIP, segment or control register
  that the program can see, after \<open>exception()\<close> has restored ESP when RSP_SPECULATIVE had saved
  it: the instruction can be restarted after the handler.\<close>

theorem faults_are_restartable:
  "list_all (\<lambda>h. restartable (h i))
     [ADD_EdGdM, ADD_GdEdM, ADD_EdIdM, ADC_EdGdM, ADC_GdEdM, ADC_EdIdM, XADD_EdGdM, INC_EdM, CMPXCHG_EdGdM,
      CMPXCHG8B, SBB_EdGdM, SBB_GdEdM, SBB_EdIdM, SUB_EdGdM, SUB_GdEdM, SUB_EdIdM, CMP_EdGdM, CMP_GdEdM,
      CMP_EdIdM, NEG_EdM, DEC_EdM, XOR_EdGdM, XOR_GdEdM, XOR_EdIdM, OR_EdGdM, OR_GdEdM, OR_EdIdM, AND_EdGdM,
      AND_GdEdM, AND_EdIdM, NOT_EdM, TEST_EdGdM, TEST_EdIdM, SHLD_EdGdM, SHRD_EdGdM, ROL_EdM, ROR_EdM,
      RCL_EdM, RCR_EdM, SHL_EdM, SHR_EdM, SAR_EdM, XCHG_EdGdM, MOV_EdIdM, MOV32_EdGdM, MOV32S_EdGdM,
      MOV32_GdEdM, MOV32S_GdEdM, MOV_EAXOd, MOV_OdEAX, MOVZX_GdEbM, MOVZX_GdEwM, MOVSX_GdEbM, MOVSX_GdEwM,
      DIV_EAXEdR, IDIV_EAXEdR, PUSH_EdR, PUSH_EdM, PUSH_Id, PUSH32_Sw, POP_EdR, PUSHA32, POPA32, LEAVE32,
      POP_EdM, ENTER32_IwIb]"
  by (simp add: restart_add restart_sub restart_logic restart_shift restart_mov restart_stack restart_speculative_stack)

end
