(* ===== verification/ShiftCorrect.thy ===== *)
theory ShiftCorrect
  imports AluCorrect
begin

text \<open>
  The shifts and rotates against their arithmetic meaning: multiplication and division by a power
  of two, rotation of the 32-bit word, and rotation of the 33-bit word that CF and the operand
  make together.
\<close>

section \<open>Shift counts and words\<close>

lemma shift_count_less: "shift_count i s < 32"
proof -
  have m: "(0x1F :: u8) = mask 5" by (simp add: mask_eq_exp_minus_1)
  show ?thesis unfolding shift_count_def m unat_and_mask by simp
qed

lemma lsb_bit: "lsb w \<longleftrightarrow> bit w 0"
  by (simp add: lsb_def and_1_bit)

lemma lsb_drop: "lsb (drop_bit k w) \<longleftrightarrow> bit w k"
  by (simp add: lsb_bit bit_drop_bit_eq)

lemma push_bit_value: "push_bit n x = (of_nat (unat (x :: u32) * 2 ^ n) :: u32)"
  by (simp add: push_bit_eq_mult)

lemma drop_bit_value: "drop_bit n x = (of_nat (unat (x :: u32) div 2 ^ n) :: u32)"
  by (simp only: unat_drop_bit[symmetric] of_nat_unat ucast_id)

lemma signed_drop_bit_value: "signed_drop_bit n x = (word_of_int (sint (x :: u32) div 2 ^ n) :: u32)"
  by (simp only: drop_bit_eq_div[symmetric] sint_signed_drop_bit_eq[symmetric] of_int_sint scast_id)

text \<open>The two halves of a rotate by \<open>n\<close> with \<open>0 < n < 32\<close>.\<close>

lemma rotate_halves:
  fixes x :: u32
  assumes "0 < n" "n < 32"
  shows "push_bit n x OR drop_bit (32 - n) x = word_rotl n x" "drop_bit n x OR push_bit (32 - n) x = word_rotr n x"
proof -
  show "push_bit n x OR drop_bit (32 - n) x = word_rotl n x"
  proof (rule bit_word_eqI)
    fix k assume k: "k < LENGTH(32)"
    show "bit (push_bit n x OR drop_bit (32 - n) x) k = bit (word_rotl n x) k"
    proof (cases "k < n")
      case True
      then have "(k + (32 - n)) mod 32 = 32 - n + k" using assms by simp
      then show ?thesis using True k assms by (simp add: bit_or_iff bit_push_bit_iff bit_drop_bit_eq bit_word_rotl_iff)
    next
      case False
      then have "(k + (32 - n)) mod 32 = k - n" using k assms by (simp add: mod_if)
      moreover have "\<not> bit x (32 - n + k)" using False assms by (auto dest: bit_imp_le_length)
      ultimately show ?thesis using False k assms by (simp add: bit_or_iff bit_push_bit_iff bit_drop_bit_eq bit_word_rotl_iff)
    qed
  qed
  show "drop_bit n x OR push_bit (32 - n) x = word_rotr n x"
  proof (rule bit_word_eqI)
    fix k assume k: "k < LENGTH(32)"
    show "bit (drop_bit n x OR push_bit (32 - n) x) k = bit (word_rotr n x) k"
    proof (cases "k + n < 32")
      case True
      then show ?thesis using k assms
        by (auto simp: bit_or_iff bit_push_bit_iff bit_drop_bit_eq bit_word_rotr_iff add.commute)
    next
      case False
      then have "(k + n) mod 32 = k - (32 - n)" using k assms by (simp add: mod_if)
      moreover have "\<not> bit x (n + k)" "32 - n \<le> k" using False by (auto dest: bit_imp_le_length)
      ultimately show ?thesis using False k assms by (simp add: bit_or_iff bit_push_bit_iff bit_drop_bit_eq bit_word_rotr_iff)
    qed
  qed
qed

text \<open>CF above the operand: the 33-bit word that RCL and RCR rotate.\<close>

definition with_carry :: "bool \<Rightarrow> u32 \<Rightarrow> 33 word" where
  "with_carry c x = push_bit 32 (of_bool c) OR ucast x"

lemma bit_with_carry: "bit (with_carry c x) k \<longleftrightarrow> k = 32 \<and> c \<or> k < 32 \<and> bit x k"
  by (auto simp: with_carry_def bit_simps dest: bit_imp_le_length)

definition rcl_result :: "nat \<Rightarrow> bool \<Rightarrow> u32 \<Rightarrow> u32" where
  "rcl_result n c x = (if n = 1 then push_bit 1 x OR of_bool c
     else push_bit n x OR push_bit (n - 1) (of_bool c) OR drop_bit (33 - n) x)"

definition rcr_result :: "nat \<Rightarrow> bool \<Rightarrow> u32 \<Rightarrow> u32" where
  "rcr_result n c x = (if n = 1 then drop_bit 1 x OR push_bit 31 (of_bool c)
     else drop_bit n x OR push_bit (32 - n) (of_bool c) OR push_bit (33 - n) x)"

lemma bit_rcl:
  assumes "0 < n" "n < 32" "k < 32"
  shows "bit (rcl_result n c x) k \<longleftrightarrow> (if k < n - 1 then bit x (33 - n + k) else if k = n - 1 then c else bit x (k - n))"
proof -
  have d: "bit (drop_bit (33 - n) x) k \<longleftrightarrow> k < n - 1 \<and> bit x (33 - n + k)"
    using assms by (auto simp: bit_drop_bit_eq dest: bit_imp_le_length)
  have p: "bit (push_bit (n - 1) (of_bool c) :: u32) k \<longleftrightarrow> k = n - 1 \<and> c"
    using assms by (intro bit_push_of_bool) simp
  have "rcl_result n c x = push_bit n x OR push_bit (n - 1) (of_bool c) OR drop_bit (33 - n) x"
  proof (cases "n = 1")
    case True
    have "drop_bit 32 x = 0" by (rule bit_word_eqI) (auto simp: bit_drop_bit_eq dest: bit_imp_le_length)
    then show ?thesis using True by (simp add: rcl_result_def)
  qed (simp add: rcl_result_def)
  then have "bit (rcl_result n c x) k \<longleftrightarrow> (n \<le> k \<and> bit x (k - n) \<or> k = n - 1 \<and> c) \<or> k < n - 1 \<and> bit x (33 - n + k)"
    using assms by (simp only: bit_or_iff d p) (simp add: bit_push_bit_iff)
  then show ?thesis using assms by auto
qed

lemma bit_rcr:
  assumes "0 < n" "n < 32" "k < 32"
  shows "bit (rcr_result n c x) k \<longleftrightarrow> (if k + n < 32 then bit x (k + n) else if k + n = 32 then c else bit x (k + n - 33))"
proof -
  have d: "bit (drop_bit n x) k \<longleftrightarrow> k + n < 32 \<and> bit x (k + n)"
    using assms by (auto simp: bit_drop_bit_eq add.commute dest: bit_imp_le_length)
  have p: "bit (push_bit (32 - n) (of_bool c) :: u32) k \<longleftrightarrow> k + n = 32 \<and> c"
    using bit_push_of_bool[of "32 - n" c k] assms by auto
  have e: "k - (33 - n) = k + n - 33" using assms by linarith
  have "rcr_result n c x = drop_bit n x OR push_bit (32 - n) (of_bool c) OR push_bit (33 - n) x"
  proof (cases "n = 1")
    case True
    have "push_bit 32 x = 0" by (rule bit_word_eqI) (simp add: bit_push_bit_iff)
    then show ?thesis using True by (simp add: rcr_result_def)
  qed (simp add: rcr_result_def)
  then have "bit (rcr_result n c x) k \<longleftrightarrow>
      (k + n < 32 \<and> bit x (k + n) \<or> k + n = 32 \<and> c) \<or> 33 - n \<le> k \<and> bit x (k + n - 33)"
    using assms by (simp only: bit_or_iff d p) (simp add: bit_push_bit_iff e)
  then show ?thesis using assms by auto
qed

lemma rcl_rotates:
  assumes n: "0 < n" "n < 32"
  shows "word_rotl n (with_carry c x) = with_carry (bit x (32 - n)) (rcl_result n c x)"
proof (rule bit_word_eqI)
  fix k assume k: "k < LENGTH(33)"
  show "bit (word_rotl n (with_carry c x)) k = bit (with_carry (bit x (32 - n)) (rcl_result n c x)) k"
  proof (cases "k < n")
    case True
    then have "(k + (33 - n)) mod 33 = 33 - n + k" "k = n - 1 \<longleftrightarrow> \<not> k < n - 1" using n by auto
    moreover have "33 - n + k = 32 \<longleftrightarrow> \<not> k < n - 1" "33 - n + k < 32 \<longleftrightarrow> k < n - 1" using True n by auto
    ultimately show ?thesis using True n by (simp add: bit_word_rotl_iff bit_with_carry bit_rcl)
  next
    case False
    then have "(k + (33 - n)) mod 33 = k - n" using k n by (simp add: mod_if)
    then show ?thesis using False k n by (cases "k = 32") (simp_all add: bit_word_rotl_iff bit_with_carry bit_rcl, auto)
  qed
qed

lemma rcr_rotates:
  assumes n: "0 < n" "n < 32"
  shows "word_rotr n (with_carry c x) = with_carry (bit x (n - 1)) (rcr_result n c x)"
proof (rule bit_word_eqI)
  fix k assume k: "k < LENGTH(33)"
  show "bit (word_rotr n (with_carry c x)) k = bit (with_carry (bit x (n - 1)) (rcr_result n c x)) k"
  proof (cases "k + n < 33")
    case True
    then show ?thesis using n by (auto simp: bit_word_rotr_iff bit_with_carry bit_rcr)
  next
    case False
    then have "(k + n) mod 33 = k + n - 33" using k n by (simp add: mod_if)
    then show ?thesis using False k n by (cases "k = 32") (simp_all add: bit_word_rotr_iff bit_with_carry bit_rcr, auto)
  qed
qed

lemma with_carry_inject: "with_carry c x = with_carry d y \<longleftrightarrow> c = d \<and> x = y"
proof
  assume e: "with_carry c x = with_carry d y"
  have "c = d" using bit_with_carry[of c x 32] bit_with_carry[of d y 32] e by simp
  moreover have "bit x k = bit y k" if "k < 32" for k
    using bit_with_carry[of c x k] bit_with_carry[of d y k] e that by simp
  then have "x = y" by (intro bit_word_eqI) simp
  ultimately show "c = d \<and> x = y" ..
qed simp

section \<open>Register operands\<close>

abbreviation (input) shift_flags :: "u32 \<Rightarrow> bool \<Rightarrow> bool \<Rightarrow> arith_flags" where
  "shift_flags r ov cy \<equiv> (logic_flags r)\<lparr>CF := cy, OF := ov\<rparr>"

text \<open>C32: With a count \<open>n\<close> of 1 to 31, SHL, SHR and SAR multiply and divide (unsigned, signed) by
  2^n, ROL and ROR rotate the 32-bit operand, and RCL and RCR rotate the 33-bit word with CF above the
  operand. CF is the last bit moved out; SHL's OF compares CF with the new sign bit, SHR's is the old
  sign for a count of 1, SAR's is clear, and the rotates leave ZF, SF, PF and AF alone.\<close>

theorem shifts_compute:
  fixes s :: cpu
  assumes n: "n = shift_count i s" and pos: "0 < n"
  defines "R \<equiv> gen_reg s" and "c \<equiv> getB_CF (oszapc s)" and "F \<equiv> flags_of (oszapc s)"
  shows "let x = R (i_dst i); y = R (i_src i); W = (\<lambda>v. R(i_dst i := v));
      shl = of_nat (unat x * 2 ^ n); shr = of_nat (unat x div 2 ^ n); sar = word_of_int (sint x div 2 ^ n);
      rol = word_rotl n x; ror = word_rotr n x; rcl = word_rotl n (with_carry c x); rcr = word_rotr n (with_carry c x) in
    yields (SHL_EdR i s) s (W shl) (shift_flags shl (bit x (32 - n) \<noteq> bit x (31 - n)) (bit x (32 - n))) (mem s) \<and>
    yields (SHR_EdR i s) s (W shr) (shift_flags shr (n = 1 \<and> bit x 31) (bit x (n - 1))) (mem s) \<and>
    yields (SAR_EdR i s) s (W sar) (shift_flags sar False (bit x (n - 1))) (mem s) \<and>
    yields (ROL_EdR i s) s (W rol) (F\<lparr>CF := bit rol 0, OF := bit rol 0 \<noteq> bit rol 31\<rparr>) (mem s) \<and>
    yields (ROR_EdR i s) s (W ror) (F\<lparr>CF := bit ror 31, OF := bit ror 30 \<noteq> bit ror 31\<rparr>) (mem s) \<and>
    yields (RCL_EdR i s) s (W (ucast rcl)) (F\<lparr>CF := bit rcl 32, OF := bit rcl 32 \<noteq> bit rcl 31\<rparr>) (mem s) \<and>
    yields (RCR_EdR i s) s (W (ucast rcr)) (F\<lparr>CF := bit rcr 32, OF := bit rcr 30 \<noteq> bit rcr 31\<rparr>) (mem s)"
proof -
  have lt: "n < 32" using n shift_count_less by simp
  let ?x = "gen_reg s (i_dst i)"
  have uc: "ucast (with_carry d w) = w" for d w
    by (rule bit_word_eqI) (simp add: bit_ucast_iff bit_with_carry)
  have wb: "bit (with_carry d w) 32 = d" "bit (with_carry d w) 31 = bit w 31" "bit (with_carry d w) 30 = bit w 30" for d w
    by (simp_all add: bit_with_carry)
  have top: "bit (push_bit 1 w XOR w) 31 \<longleftrightarrow> bit w 30 \<noteq> bit w 31" for w :: u32
    by (simp only: bit_xor_iff bit_push_bit_iff) auto
  have shl31: "bit (push_bit n ?x) 31 \<longleftrightarrow> bit ?x (31 - n)" using lt by (simp add: bit_push_bit_iff)
  have shr31: "(bit (drop_bit n ?x) 30 \<noteq> bit (drop_bit n ?x) 31) \<longleftrightarrow> n = 1 \<and> bit ?x 31"
  proof (cases "n = 1")
    case False
    then have "\<not> bit ?x (n + 30)" "\<not> bit ?x (n + 31)" using pos by (auto dest: bit_imp_le_length)
    then show ?thesis using False by (simp add: bit_drop_bit_eq)
  qed (auto simp: bit_drop_bit_eq dest: bit_imp_le_length)
  note defs = shift_count_less lsb_drop n[symmetric] pos less_imp_neq[OF pos, symmetric]
  show ?thesis
    unfolding Let_def R_def c_def F_def rcl_rotates[OF pos lt] rcr_rotates[OF pos lt] uc wb
      push_bit_value[symmetric] drop_bit_value[symmetric] signed_drop_bit_value[symmetric]
      rotate_halves[OF pos lt, symmetric] shl31[symmetric] shr31[symmetric]
    by (intro conjI; simp only: SHL_EdR_def SHR_EdR_def SAR_EdR_def ROL_EdR_def ROR_EdR_def RCL_EdR_def RCR_EdR_def
        exec_simps Let_def defs if_False top rcl_result_def rcr_result_def; (simp only: lsb_bit)?; rule yields_pure;
        simp add: alu_flags lazy_flag_simps)
qed

theorem shifts_compute_witness:
  "shift_count (plain_instruction\<lparr>i_dst := R_ESP\<rparr>) flat_cpu = 5
   \<and> gen_reg (snd (SHL_EdR (plain_instruction\<lparr>i_dst := R_ESP\<rparr>) flat_cpu)) R_ESP = 0x20000
   \<and> gen_reg (snd (SHR_EdR (plain_instruction\<lparr>i_dst := R_ESP\<rparr>) flat_cpu)) R_ESP = 0x80"
proof -
  let ?i = "plain_instruction\<lparr>i_dst := R_ESP\<rparr>"
  have n: "shift_count ?i flat_cpu = 5" by (simp add: shift_count_def plain_instruction_def i_Ib_def)
  note ok = shifts_compute[OF n[symmetric], unfolded Let_def]
  have x: "gen_reg flat_cpu (i_dst ?i) = 0x1000" by (simp add: flat_cpu_def)
  show ?thesis using ok n unfolding x by (auto simp: yields_def plain_instruction_def)
qed

end
