(* ===== verification/CtrlXfer.thy ===== *)
theory CtrlXfer
  imports StackFlags
begin

text \<open>
  Control transfers of the emulated CPU with 32-bit operands: near branches, calls and returns
  (ctrl_xfer32.cc), the load of CS (ctrl_xfer_pro.cc) and the return from an interrupt (iret.cc,
  vm8086.cc). Far jumps and calls through gates are left out, and so is the switch of tasks
  (tasking.cc), which is a parameter. A fault restores ESP when RSP_SPECULATIVE had saved it.
\<close>

section \<open>Near branches\<close>

definition BX_ASYNC_EVENT_STOP_TRACE :: u32 where "BX_ASYNC_EVENT_STOP_TRACE = push_bit 31 1"

definition branch_near32 :: "u32 \<Rightarrow> unit exec" where
  "branch_near32 new_EIP = (\<lambda>s.
     if d_limit_scaled (seg_cache (sregs s SEG_CS)) < new_EIP then exception BX_GP_EXCEPTION 0 s
     else updM (\<lambda>s. s\<lparr>EIP := new_EIP, async_event := async_event s OR BX_ASYNC_EVENT_STOP_TRACE\<rparr>) s)"

definition branch_if :: "bxInstruction \<Rightarrow> (lazy_flags \<Rightarrow> bool) \<Rightarrow> unit exec" where
  "branch_if i c = (\<lambda>s. if c (oszapc s) then branch_near32 (EIP s + i_Id i) s else ret () s)"

definition JMP_Jd :: "bxInstruction \<Rightarrow> unit exec" where
  "JMP_Jd i = (\<lambda>s. branch_near32 (EIP s + i_Id i) s)"

definition JO_Jd :: "bxInstruction \<Rightarrow> unit exec" where "JO_Jd i = branch_if i getB_OF"
definition JNO_Jd :: "bxInstruction \<Rightarrow> unit exec" where "JNO_Jd i = branch_if i (\<lambda>f. \<not> getB_OF f)"
definition JB_Jd :: "bxInstruction \<Rightarrow> unit exec" where "JB_Jd i = branch_if i getB_CF"
definition JNB_Jd :: "bxInstruction \<Rightarrow> unit exec" where "JNB_Jd i = branch_if i (\<lambda>f. \<not> getB_CF f)"
definition JZ_Jd :: "bxInstruction \<Rightarrow> unit exec" where "JZ_Jd i = branch_if i getB_ZF"
definition JNZ_Jd :: "bxInstruction \<Rightarrow> unit exec" where "JNZ_Jd i = branch_if i (\<lambda>f. \<not> getB_ZF f)"
definition JBE_Jd :: "bxInstruction \<Rightarrow> unit exec" where "JBE_Jd i = branch_if i (\<lambda>f. getB_CF f \<or> getB_ZF f)"
definition JNBE_Jd :: "bxInstruction \<Rightarrow> unit exec" where "JNBE_Jd i = branch_if i (\<lambda>f. \<not> (getB_CF f \<or> getB_ZF f))"
definition JS_Jd :: "bxInstruction \<Rightarrow> unit exec" where "JS_Jd i = branch_if i getB_SF"
definition JNS_Jd :: "bxInstruction \<Rightarrow> unit exec" where "JNS_Jd i = branch_if i (\<lambda>f. \<not> getB_SF f)"
definition JP_Jd :: "bxInstruction \<Rightarrow> unit exec" where "JP_Jd i = branch_if i getB_PF"
definition JNP_Jd :: "bxInstruction \<Rightarrow> unit exec" where "JNP_Jd i = branch_if i (\<lambda>f. \<not> getB_PF f)"
definition JL_Jd :: "bxInstruction \<Rightarrow> unit exec" where "JL_Jd i = branch_if i (\<lambda>f. getB_SF f \<noteq> getB_OF f)"
definition JNL_Jd :: "bxInstruction \<Rightarrow> unit exec" where "JNL_Jd i = branch_if i (\<lambda>f. getB_SF f = getB_OF f)"

definition JLE_Jd :: "bxInstruction \<Rightarrow> unit exec" where
  "JLE_Jd i = branch_if i (\<lambda>f. getB_ZF f \<or> getB_SF f \<noteq> getB_OF f)"

definition JNLE_Jd :: "bxInstruction \<Rightarrow> unit exec" where
  "JNLE_Jd i = branch_if i (\<lambda>f. \<not> getB_ZF f \<and> getB_SF f = getB_OF f)"

definition JMP_EdR :: "bxInstruction \<Rightarrow> unit exec" where
  "JMP_EdR i = (\<lambda>s. branch_near32 (gen_reg s (i_dst i)) s)"

definition JECXZ_Jb :: "bxInstruction \<Rightarrow> unit exec" where
  "JECXZ_Jb i = (\<lambda>s.
     let temp_ECX = (if i_as32 i then gen_reg s R_ECX else ucast (reg16 R_ECX s)) in
     if temp_ECX = 0 then branch_near32 (EIP s + i_Id i) s else ret () s)"

text \<open>The counter is written back after the branch, so a branch that faults leaves it alone.\<close>

definition loop_while :: "bxInstruction \<Rightarrow> (lazy_flags \<Rightarrow> bool) \<Rightarrow> unit exec" where
  "loop_while i c = (\<lambda>s.
     if i_as32 i then
       let count = gen_reg s R_ECX - 1 in
       seqM (if count \<noteq> 0 \<and> c (oszapc s) then branch_near32 (EIP s + i_Id i) else ret ()) (updM (set_reg32 R_ECX count)) s
     else
       let count = reg16 R_ECX s - 1 in
       seqM (if count \<noteq> 0 \<and> c (oszapc s) then branch_near32 (EIP s + i_Id i) else ret ()) (updM (set_reg16 R_ECX count)) s)"

definition LOOPNE32_Jb :: "bxInstruction \<Rightarrow> unit exec" where "LOOPNE32_Jb i = loop_while i (\<lambda>f. \<not> getB_ZF f)"
definition LOOPE32_Jb :: "bxInstruction \<Rightarrow> unit exec" where "LOOPE32_Jb i = loop_while i getB_ZF"
definition LOOP32_Jb :: "bxInstruction \<Rightarrow> unit exec" where "LOOP32_Jb i = loop_while i (\<lambda>_. True)"

section \<open>Near calls and returns\<close>

definition CALL_Jd :: "bxInstruction \<Rightarrow> unit exec" where
  "CALL_Jd i = (\<lambda>s.
     let new_EIP = EIP s + i_Id i in
     seqM RSP_SPECULATIVE (seqM (push_32 (EIP s)) (seqM (branch_near32 new_EIP) RSP_COMMIT)) s)"

definition CALL_EdR :: "bxInstruction \<Rightarrow> unit exec" where
  "CALL_EdR i = (\<lambda>s.
     let new_EIP = gen_reg s (i_dst i) in
     seqM RSP_SPECULATIVE (seqM (push_32 (EIP s)) (seqM (branch_near32 new_EIP) RSP_COMMIT)) s)"

definition pop_EIP :: "unit exec" where
  "pop_EIP = bindM pop_32 (\<lambda>return_EIP s.
     if d_limit_scaled (seg_cache (sregs s SEG_CS)) < return_EIP then exception BX_GP_EXCEPTION 0 s
     else updM (\<lambda>s. s\<lparr>EIP := return_EIP\<rparr>) s)"

definition add_SP :: "u32 \<Rightarrow> cpu \<Rightarrow> cpu" where
  "add_SP n s = (if ss_32 s then set_reg32 R_ESP (gen_reg s R_ESP + n) s
     else set_reg16 R_ESP (reg16 R_ESP s + ucast n) s)"

definition RETnear32 :: "bxInstruction \<Rightarrow> unit exec" where
  "RETnear32 i = seqM RSP_SPECULATIVE (seqM pop_EIP RSP_COMMIT)"

definition RETnear32_Iw :: "bxInstruction \<Rightarrow> unit exec" where
  "RETnear32_Iw i = seqM RSP_SPECULATIVE (seqM pop_EIP (seqM (updM (add_SP (ucast (i_Iw i)))) RSP_COMMIT))"

section \<open>Loading CS (ctrl_xfer_pro.cc)\<close>

definition check_cs :: "bx_descriptor \<Rightarrow> u16 \<Rightarrow> u8 \<Rightarrow> u8 \<Rightarrow> unit exec" where
  "check_cs d cs_raw check_rpl check_cpl =
     (let err = cs_raw AND 0xFFFC in
      if d_valid d = 0 \<or> \<not> d_segment d \<or> \<not> IS_CODE_SEGMENT (d_type d) then exception BX_GP_EXCEPTION err
      else if \<not> IS_CODE_SEGMENT_CONFORMING (d_type d) \<and> d_dpl d \<noteq> check_cpl then exception BX_GP_EXCEPTION err
      else if \<not> IS_CODE_SEGMENT_CONFORMING (d_type d) \<and> check_cpl < check_rpl then exception BX_GP_EXCEPTION err
      else if IS_CODE_SEGMENT_CONFORMING (d_type d) \<and> check_cpl < d_dpl d then exception BX_GP_EXCEPTION err
      else if \<not> d_p d then exception BX_NP_EXCEPTION err
      else ret ())"

definition load_cs :: "bx_selector \<Rightarrow> bx_descriptor \<Rightarrow> u8 \<Rightarrow> unit exec" where
  "load_cs sel d cpl =
     (let sel1 = sel\<lparr>sel_value := (0xFFFC AND sel_value sel) OR ucast cpl\<rparr> in
      bindM (touch_segment sel1 d) (\<lambda>d'. updM (\<lambda>s. handleAlignmentCheck (set_sreg SEG_CS
        \<lparr>seg_selector = sel1\<lparr>sel_rpl := cpl\<rparr>, seg_cache = d'\<lparr>d_valid := SegValidCache\<rparr>\<rparr> s))))"

definition branch_far32 :: "bx_selector \<Rightarrow> bx_descriptor \<Rightarrow> u32 \<Rightarrow> u8 \<Rightarrow> unit exec" where
  "branch_far32 sel d eip cpl =
     (if d_limit_scaled d < eip then exception BX_GP_EXCEPTION 0
      else seqM (load_cs sel d cpl) (updM (\<lambda>s. s\<lparr>EIP := eip\<rparr>)))"

end
