(* ===== verification/InterruptReturn.thy ===== *)
theory InterruptReturn
  imports CtrlXfer
begin

text \<open>
  The return from an interrupt: \<open>IRET32\<close> of ctrl_xfer32.cc, \<open>iret_protected\<close> of iret.cc and the
  returns to and from virtual-8086 mode of vm8086.cc. A local descriptor that the code parses into
  holds \<open>d0\<close> before. \<open>task_switch\<close> (tasking.cc) is a parameter.
\<close>

datatype task_source = BX_TASK_FROM_INT | BX_TASK_FROM_IRET

type_synonym task_switch = "bx_selector \<Rightarrow> bx_descriptor \<Rightarrow> task_source \<Rightarrow> u32 \<Rightarrow> u32 \<Rightarrow> bool \<Rightarrow> u16 \<Rightarrow> unit exec"

section \<open>Virtual-8086 mode (vm8086.cc)\<close>

definition v86_segment :: "bx_segment_reg \<Rightarrow> bx_segment_reg" where
  "v86_segment seg =
     \<lparr>seg_selector = (seg_selector seg)\<lparr>sel_rpl := 3\<rparr>,
      seg_cache = (seg_cache seg)
        \<lparr>d_valid := SegValidCache OR SegAccessROK OR SegAccessWOK, d_p := True, d_dpl := 3, d_segment := True,
         d_type := 3, d_base := push_bit 4 (ucast (sel_value (seg_selector seg))), d_limit_scaled := 0xFFFF,
         d_g := False, d_d_b := False, d_avl := False\<rparr>\<rparr>"

definition init_v8086_mode :: "cpu \<Rightarrow> cpu" where
  "init_v8086_mode s =
     handleAlignmentCheck (handleCpuModeChange
       (s\<lparr>sregs := (\<lambda>r. if r < 6 then v86_segment (sregs s r) else sregs s r)\<rparr>))"

definition stack_pointer :: "cpu \<Rightarrow> u32" where
  "stack_pointer s = (if ss_32 s then gen_reg s R_ESP else ucast (reg16 R_ESP s))"

definition set_sel_value :: "nat \<Rightarrow> u16 \<Rightarrow> cpu \<Rightarrow> cpu" where
  "set_sel_value r v s = set_sreg r ((sregs s r)\<lparr>seg_selector := (seg_selector (sregs s r))\<lparr>sel_value := v\<rparr>\<rparr>) s"

definition EFlagsValidMask :: u32 where "EFlagsValidMask = 0x3F7FD5"

definition stack_return_to_v86 :: "u32 \<Rightarrow> u16 \<Rightarrow> u32 \<Rightarrow> unit exec" where
  "stack_return_to_v86 new_eip raw_cs_selector flags32 =
     bindM (getM stack_pointer) (\<lambda>temp_ESP.
     bindM (stack_read_dword (temp_ESP + 12)) (\<lambda>new_esp.
     bindM (stack_read_dword (temp_ESP + 16)) (\<lambda>raw_ss.
     bindM (stack_read_dword (temp_ESP + 20)) (\<lambda>raw_es.
     bindM (stack_read_dword (temp_ESP + 24)) (\<lambda>raw_ds.
     bindM (stack_read_dword (temp_ESP + 28)) (\<lambda>raw_fs.
     bindM (stack_read_dword (temp_ESP + 32)) (\<lambda>raw_gs.
     updM (\<lambda>s. init_v8086_mode (set_reg32 R_ESP new_esp
       (set_sel_value SEG_SS (ucast raw_ss) (set_sel_value SEG_GS (ucast raw_gs)
       (set_sel_value SEG_FS (ucast raw_fs) (set_sel_value SEG_DS (ucast raw_ds)
       (set_sel_value SEG_ES (ucast raw_es)
         ((set_sel_value SEG_CS raw_cs_selector (writeEFlags flags32 EFlagsValidMask s))
            \<lparr>EIP := new_eip AND 0xFFFF\<rparr>)))))))))))))))"

definition iret32_stack_return_from_v86 :: "bx_descriptor \<Rightarrow> unit exec" where
  "iret32_stack_return_from_v86 d0 = (\<lambda>s.
     if get_IOPL s < 3 then exception BX_GP_EXCEPTION 0 s
     else
       let change_mask = EFlagsOSZAPCMask OR EFlagsTFMask OR EFlagsIFMask OR EFlagsDFMask OR EFlagsNTMask
             OR EFlagsRFMask OR (EFlagsIDMask OR EFlagsACMask) in
       bindM pop_32 (\<lambda>eip. bindM pop_32 (\<lambda>cs_raw. bindM pop_32 (\<lambda>flags32.
         seqM (load_seg_reg d0 SEG_CS (ucast cs_raw))
           (updM (\<lambda>s. writeEFlags flags32 change_mask (s\<lparr>EIP := eip\<rparr>)))))) s)"

section \<open>Protected mode (iret.cc)\<close>

definition iret_nested_task :: "task_switch \<Rightarrow> bx_descriptor \<Rightarrow> unit exec" where
  "iret_nested_task task_switch d0 = (\<lambda>s.
     if get_flag 17 s \<or> d_valid (seg_cache (tr s)) = 0 then raise Cpu_Panic s
     else bindM (system_read_word (d_base (seg_cache (tr s)))) (\<lambda>raw_link_selector.
       let link = parse_selector raw_link_selector; err = raw_link_selector AND 0xFFFC in
       if sel_ti link \<noteq> 0 then exception BX_TS_EXCEPTION err
       else bindM (fetch_raw_descriptor link BX_TS_EXCEPTION) (\<lambda>(dword1, dword2).
         let d = parse_descriptor dword1 dword2 d0 in
         if d_valid d = 0 \<or> d_segment d then exception BX_TS_EXCEPTION err
         else if d_type d \<noteq> 3 \<and> d_type d \<noteq> 11 then exception BX_TS_EXCEPTION err
         else if \<not> d_p d then exception BX_NP_EXCEPTION err
         else task_switch link d BX_TASK_FROM_IRET dword1 dword2 False 0)) s)"

definition iret_change_mask :: "cpu \<Rightarrow> u32" where
  "iret_change_mask s =
     EFlagsOSZAPCMask OR EFlagsTFMask OR EFlagsDFMask OR EFlagsNTMask OR EFlagsRFMask OR (EFlagsIDMask OR EFlagsACMask)
     OR (if cpl32 s \<le> get_IOPL s then EFlagsIFMask else 0)
     OR (if CPL s = 0 then EFlagsVIPMask OR EFlagsVIFMask OR EFlagsIOPLMask else 0)"

definition iret_same_level :: "bool \<Rightarrow> bx_selector \<Rightarrow> bx_descriptor \<Rightarrow> u32 \<Rightarrow> u32 \<Rightarrow> unit exec" where
  "iret_same_level os32 cs_sel cs_d new_eip new_flags =
     (if os32 then
        seqM (branch_far32 cs_sel cs_d new_eip (sel_rpl cs_sel))
          (updM (\<lambda>s. add_SP 12 (writeEFlags new_flags (iret_change_mask s) s)))
      else
        seqM (branch_far32 cs_sel cs_d new_eip (sel_rpl cs_sel))
          (updM (\<lambda>s. add_SP 6 (write_flags (ucast new_flags) (CPL s = 0) (cpl32 s \<le> get_IOPL s) s))))"

definition stack_read :: "bool \<Rightarrow> u32 \<Rightarrow> u32 exec" where
  "stack_read os32 a = (if os32 then stack_read_dword a else bindM (stack_read_word a) (\<lambda>w. ret (ucast w)))"

definition iret_outer_level ::
  "bx_descriptor \<Rightarrow> bool \<Rightarrow> u32 \<Rightarrow> bx_selector \<Rightarrow> bx_descriptor \<Rightarrow> unit exec" where
  "iret_outer_level d0 os32 temp_ESP cs_sel cs_d =
     bindM (stack_read_word (temp_ESP + (if os32 then 16 else 8))) (\<lambda>raw_ss_selector.
     let ss_sel = parse_selector raw_ss_selector; err = raw_ss_selector AND 0xFFFC in
     if err = 0 then exception BX_GP_EXCEPTION 0
     else if sel_rpl ss_sel \<noteq> sel_rpl cs_sel then exception BX_GP_EXCEPTION err
     else bindM (fetch_raw_descriptor ss_sel BX_GP_EXCEPTION) (\<lambda>(dword1, dword2).
     let ss_d = parse_descriptor dword1 dword2 d0 in
     if d_valid ss_d = 0 \<or> \<not> d_segment ss_d \<or> IS_CODE_SEGMENT (d_type ss_d) \<or> \<not> IS_DATA_SEGMENT_WRITEABLE (d_type ss_d)
     then exception BX_GP_EXCEPTION err
     else if d_dpl ss_d \<noteq> sel_rpl cs_sel then exception BX_GP_EXCEPTION err
     else if \<not> d_p ss_d then exception BX_NP_EXCEPTION err
     else bindM (stack_read os32 (temp_ESP + (if os32 then 12 else 6))) (\<lambda>new_esp.
     bindM (stack_read os32 (temp_ESP + (if os32 then 8 else 4))) (\<lambda>new_eflags.
     bindM (stack_read os32 temp_ESP) (\<lambda>new_eip.
     bindM (getM iret_change_mask) (\<lambda>changeMask.
     seqM (branch_far32 cs_sel cs_d new_eip (sel_rpl cs_sel))
     (seqM (updM (writeEFlags new_eflags (if os32 then changeMask else changeMask AND 0xFFFF)))
     (seqM (load_ss ss_sel ss_d (sel_rpl cs_sel))
     (updM (\<lambda>s. validate_seg_regs
       (if d_d_b ss_d then set_reg32 R_ESP new_esp s else set_reg16 R_ESP (ucast new_esp) s)))))))))))"

definition iret_protected :: "task_switch \<Rightarrow> bx_descriptor \<Rightarrow> bxInstruction \<Rightarrow> unit exec" where
  "iret_protected task_switch d0 i = (\<lambda>s.
     if get_flag 14 s then iret_nested_task task_switch d0 s
     else
       let temp_ESP = stack_pointer s; os32 = i_os32 i in
       bindM (stack_read os32 (temp_ESP + (if os32 then 8 else 4))) (\<lambda>new_eflags.
       bindM (stack_read os32 (temp_ESP + (if os32 then 4 else 2))) (\<lambda>raw_cs.
       bindM (stack_read os32 temp_ESP) (\<lambda>new_eip s.
         let raw_cs_selector = ucast raw_cs :: u16; cs_sel = parse_selector raw_cs_selector in
         if os32 \<and> new_eflags AND EFlagsVMMask \<noteq> 0 \<and> CPL s = 0
         then stack_return_to_v86 new_eip raw_cs_selector new_eflags s
         else if raw_cs_selector AND 0xFFFC = 0 then exception BX_GP_EXCEPTION 0 s
         else bindM (fetch_raw_descriptor cs_sel BX_GP_EXCEPTION) (\<lambda>(dword1, dword2) s.
           let cs_d = parse_descriptor dword1 dword2 d0 in
           if sel_rpl cs_sel < CPL s then exception BX_GP_EXCEPTION (raw_cs_selector AND 0xFFFC) s
           else seqM (check_cs cs_d raw_cs_selector 0 (sel_rpl cs_sel)) (\<lambda>s.
             if sel_rpl cs_sel = CPL s then iret_same_level os32 cs_sel cs_d new_eip new_eflags s
             else iret_outer_level d0 os32 temp_ESP cs_sel cs_d s) s) s))) s)"

definition BX_EVENT_NMI :: u32 where "BX_EVENT_NMI = 1"

definition IRET32 :: "task_switch \<Rightarrow> bx_descriptor \<Rightarrow> bxInstruction \<Rightarrow> unit exec" where
  "IRET32 task_switch d0 i = seqM (updM (unmask_event BX_EVENT_NMI)) (\<lambda>s.
     if protected_mode s then iret_protected task_switch d0 i s
     else if v8086_mode s then
       seqM RSP_SPECULATIVE (seqM (iret32_stack_return_from_v86 d0) RSP_COMMIT) s
     else
       seqM RSP_SPECULATIVE (bindM pop_32 (\<lambda>eip. bindM pop_32 (\<lambda>cs_raw. bindM pop_32 (\<lambda>eflags32 s.
         if d_limit_scaled (seg_cache (sregs s SEG_CS)) < eip then exception BX_GP_EXCEPTION 0 s
         else seqM (load_seg_reg d0 SEG_CS (ucast cs_raw))
           (seqM (updM (\<lambda>s. writeEFlags eflags32 0x00257FD5 (s\<lparr>EIP := eip\<rparr>))) RSP_COMMIT) s)))) s)"

end
