(* ===== verification/InterruptDelivery.thy ===== *)
theory InterruptDelivery
  imports InterruptReturn
begin

text \<open>
  Interrupts and exceptions of the emulated CPU (exception.cc): the gate is read from the IDT,
  checked, and the handler entered on the same or on an inner stack. \<open>exception\<close> itself, which
  classifies the fault, restores EIP and ESP and turns a fault during the delivery of a fault
  into a double fault and a third one into shutdown, is \<open>raise_exception\<close>.
\<close>

section \<open>The gate\<close>

definition vector_error :: "u8 \<Rightarrow> u16" where
  "vector_error vector = ucast vector * 8 + 2"

definition task_gate :: "task_switch \<Rightarrow> bx_descriptor \<Rightarrow> bx_descriptor \<Rightarrow> bool \<Rightarrow> u16 \<Rightarrow> unit exec" where
  "task_gate task_switch d0 gate push_error error_code =
     (let raw_tss_selector = d_tss_selector gate; tss_sel = parse_selector raw_tss_selector;
          err = raw_tss_selector AND 0xFFFC in
      if sel_ti tss_sel \<noteq> 0 then exception BX_GP_EXCEPTION err
      else bindM (fetch_raw_descriptor tss_sel BX_GP_EXCEPTION) (\<lambda>(dword1, dword2).
        let d = parse_descriptor dword1 dword2 d0 in
        if d_valid d = 0 \<or> d_segment d then exception BX_GP_EXCEPTION err
        else if d_type d \<noteq> 1 \<and> d_type d \<noteq> 9 then exception BX_GP_EXCEPTION err
        else if \<not> d_p d then exception BX_NP_EXCEPTION err
        else task_switch tss_sel d BX_TASK_FROM_INT dword1 dword2 push_error error_code))"

definition get_SS_ESP_from_TSS :: "u8 \<Rightarrow> (u16 \<times> u32) exec" where
  "get_SS_ESP_from_TSS pl = (\<lambda>s.
     let c = seg_cache (tr s); err = sel_value (seg_selector (tr s)) AND 0xFFFC in
     if d_valid c = 0 then raise Cpu_Panic s
     else if d_type c \<in> {9, 11} then
       let a = 8 * ucast pl + 4 in
       if d_limit_scaled c < a + 7 then exception BX_TS_EXCEPTION err s
       else bindM (system_read_word (d_base c + a + 4)) (\<lambda>ss.
         bindM (system_read_dword (d_base c + a)) (\<lambda>esp. ret (ss, esp))) s
     else if d_type c \<in> {1, 3} then
       let a = 4 * ucast pl + 2 in
       if d_limit_scaled c < a + 3 then exception BX_TS_EXCEPTION err s
       else bindM (system_read_word (d_base c + a + 2)) (\<lambda>ss.
         bindM (system_read_word (d_base c + a)) (\<lambda>sp. ret (ss, ucast sp))) s
     else raise Cpu_Panic s)"

text \<open>Writes the values downwards from \<open>top\<close>, dwords through a 386 gate and words through a 286
one; \<open>wrap\<close> reduces the addresses of a 16-bit stack.\<close>

definition write_new_stack_item ::
  "bool \<Rightarrow> (u32 \<Rightarrow> u32) \<Rightarrow> u8 \<Rightarrow> u32 \<times> bx_segment_reg \<Rightarrow> u32 \<Rightarrow> (u32 \<times> bx_segment_reg) exec" where
  "write_new_stack_item is386 wrap pl st v =
     (let (sp, seg) = st; a = wrap (sp - (if is386 then 4 else 2)) in
      bindM (if is386 then write_new_stack_dword seg a pl v else write_new_stack_word seg a pl (ucast v))
        (\<lambda>seg'. ret (a, seg')))"

primrec write_new_stack_items ::
  "bool \<Rightarrow> (u32 \<Rightarrow> u32) \<Rightarrow> u8 \<Rightarrow> u32 list \<Rightarrow> u32 \<times> bx_segment_reg \<Rightarrow> (u32 \<times> bx_segment_reg) exec" where
  "write_new_stack_items is386 wrap pl [] st = ret st"
| "write_new_stack_items is386 wrap pl (v # vs) st =
     bindM (write_new_stack_item is386 wrap pl st v) (write_new_stack_items is386 wrap pl vs)"

definition sel_of :: "nat \<Rightarrow> cpu \<Rightarrow> u32" where
  "sel_of r s = ucast (sel_value (seg_selector (sregs s r)))"

definition null_v86_segment :: "nat \<Rightarrow> cpu \<Rightarrow> cpu" where
  "null_v86_segment r s = (let seg = sregs s r in
     set_sreg r (seg\<lparr>seg_selector := (seg_selector seg)\<lparr>sel_value := 0\<rparr>, seg_cache := (seg_cache seg)\<lparr>d_valid := 0\<rparr>\<rparr>) s)"

definition int_inner_privilege ::
  "bx_descriptor \<Rightarrow> bx_descriptor \<Rightarrow> bx_selector \<Rightarrow> bx_descriptor \<Rightarrow> bool \<Rightarrow> u16 \<Rightarrow> unit exec" where
  "int_inner_privilege d0 gate cs_sel cs_d push_error error_code =
     bindM (getM v8086_mode) (\<lambda>is_v8086_mode.
     bindM (get_SS_ESP_from_TSS (d_dpl cs_d)) (\<lambda>(SS_for_cpl_x, ESP_for_cpl_x).
     let ss_sel = parse_selector SS_for_cpl_x; err = SS_for_cpl_x AND 0xFFFC; is386 = (14 \<le> d_type gate) in
     if is_v8086_mode \<and> d_dpl cs_d \<noteq> 0 then exception BX_GP_EXCEPTION (sel_value cs_sel AND 0xFFFC)
     else if err = 0 then exception BX_TS_EXCEPTION 0
     else bindM (fetch_raw_descriptor ss_sel BX_TS_EXCEPTION) (\<lambda>(dword1, dword2).
     let ss_d = parse_descriptor dword1 dword2 d0 in
     if sel_rpl ss_sel \<noteq> d_dpl cs_d then exception BX_TS_EXCEPTION err
     else if d_dpl ss_d \<noteq> d_dpl cs_d then exception BX_TS_EXCEPTION err
     else if d_valid ss_d = 0 \<or> \<not> d_segment ss_d \<or> IS_CODE_SEGMENT (d_type ss_d) \<or> \<not> IS_DATA_SEGMENT_WRITEABLE (d_type ss_d)
     then exception BX_TS_EXCEPTION err
     else if \<not> d_p ss_d then exception BX_SS_EXCEPTION err
     else if d_limit_scaled cs_d < d_dest_offset gate then exception BX_GP_EXCEPTION 0
     else bindM (getM (\<lambda>s. (gen_reg s R_ESP, sel_of SEG_SS s, EIP s, sel_of SEG_CS s))) (\<lambda>(old_ESP, old_SS, old_EIP, old_CS).
     bindM (getM (\<lambda>s. [sel_of SEG_GS s, sel_of SEG_FS s, sel_of SEG_DS s, sel_of SEG_ES s])) (\<lambda>v86_sregs.
     let new_stack = \<lparr>seg_selector = ss_sel\<lparr>sel_rpl := d_dpl cs_d, sel_value := (0xFFFC AND sel_value ss_sel) OR ucast (d_dpl cs_d)\<rparr>,
                      seg_cache = ss_d\<rparr>;
         wrap = (if d_d_b ss_d then id else (\<lambda>a. ucast (ucast a :: u16)));
         put = write_new_stack_items is386 wrap (d_dpl cs_d) in
     bindM (put (if is_v8086_mode then v86_sregs else []) (wrap ESP_for_cpl_x, new_stack)) (\<lambda>st.
     bindM (put [old_SS, old_ESP] st) (\<lambda>st.
     bindM read_eflags (\<lambda>fl.
     bindM (put ([fl, old_CS, old_EIP] @ (if push_error then [ucast error_code] else [])) st) (\<lambda>(temp_ESP, _).
     seqM (updM (if d_d_b ss_d then set_reg32 R_ESP temp_ESP else set_reg16 R_ESP (ucast temp_ESP)))
     (seqM (load_cs cs_sel cs_d (d_dpl cs_d))
     (seqM (load_ss ss_sel ss_d (d_dpl cs_d))
     (updM (\<lambda>s. if is_v8086_mode
       then null_v86_segment SEG_ES (null_v86_segment SEG_DS (null_v86_segment SEG_FS (null_v86_segment SEG_GS s)))
       else s)))))))))))))"

definition int_same_privilege ::
  "bx_descriptor \<Rightarrow> bx_selector \<Rightarrow> bx_descriptor \<Rightarrow> bool \<Rightarrow> u16 \<Rightarrow> unit exec" where
  "int_same_privilege gate cs_sel cs_d push_error error_code = (\<lambda>s.
     if v8086_mode s \<and> (IS_CODE_SEGMENT_CONFORMING (d_type cs_d) \<or> d_dpl cs_d \<noteq> 0)
     then exception BX_GP_EXCEPTION (sel_value cs_sel AND 0xFFFC) s
     else if d_limit_scaled cs_d < d_dest_offset gate then exception BX_GP_EXCEPTION 0 s
     else seqM
       (if 14 \<le> d_type gate then
          bindM read_eflags (\<lambda>fl. seqM (push_32 fl)
          (bindM (getM (sel_of SEG_CS)) (\<lambda>cs. seqM (push_32 cs)
          (bindM (getM EIP) (\<lambda>ip. seqM (push_32 ip)
          (whenM push_error (push_32 (ucast error_code))))))))
        else
          bindM read_eflags (\<lambda>fl. seqM (push_16 (ucast fl))
          (bindM (getM (sel_of SEG_CS)) (\<lambda>cs. seqM (push_16 (ucast cs))
          (bindM (getM EIP) (\<lambda>ip. seqM (push_16 (ucast ip))
          (whenM push_error (push_16 error_code))))))))
       (\<lambda>s. load_cs cs_sel cs_d (CPL s) s) s)"

definition clear_VM :: "cpu \<Rightarrow> cpu" where
  "clear_VM s = handleCpuModeChange (clear_flag 17 s)"

definition enter_gate :: "bx_descriptor \<Rightarrow> unit exec" where
  "enter_gate gate = updM (\<lambda>s.
     let s1 = s\<lparr>EIP := d_dest_offset gate\<rparr>; s2 = (if d_type gate AND 1 = 0 then clear_IF s1 else s1)
     in clear_flag 16 (clear_VM (clear_flag 14 (clear_flag 8 s2))))"

definition protected_mode_int :: "task_switch \<Rightarrow> bx_descriptor \<Rightarrow> u8 \<Rightarrow> bool \<Rightarrow> bool \<Rightarrow> u16 \<Rightarrow> unit exec" where
  "protected_mode_int task_switch d0 vector soft_int push_error error_code = (\<lambda>s.
     if (ucast vector * 8 + 7 :: u32) > ucast (gs_limit (idtr s)) then exception BX_GP_EXCEPTION (vector_error vector) s
     else bindM (system_read_qword (gs_base (idtr s) + ucast vector * 8)) (\<lambda>desctmp s.
       let gate = parse_descriptor (ucast desctmp) (ucast (drop_bit 32 desctmp)) d0 in
       if d_valid gate = 0 \<or> d_segment gate then exception BX_GP_EXCEPTION (vector_error vector) s
       else if d_type gate \<notin> {5, 6, 7, 14, 15} then exception BX_GP_EXCEPTION (vector_error vector) s
       else if soft_int \<and> d_dpl gate < CPL s then exception BX_GP_EXCEPTION (vector_error vector) s
       else if \<not> d_p gate then exception BX_NP_EXCEPTION (vector_error vector) s
       else if d_type gate = 5 then task_gate task_switch d0 gate push_error error_code s
       else if d_dest_selector gate AND 0xFFFC = 0 then exception BX_GP_EXCEPTION 0 s
       else let cs_sel = parse_selector (d_dest_selector gate); err = d_dest_selector gate AND 0xFFFC in
         bindM (fetch_raw_descriptor cs_sel BX_GP_EXCEPTION) (\<lambda>(dword1, dword2) s.
           let cs_d = parse_descriptor dword1 dword2 d0 in
           if d_valid cs_d = 0 \<or> \<not> d_segment cs_d \<or> \<not> IS_CODE_SEGMENT (d_type cs_d) \<or> CPL s < d_dpl cs_d
           then exception BX_GP_EXCEPTION err s
           else if \<not> d_p cs_d then exception BX_NP_EXCEPTION err s
           else seqM
             (if \<not> IS_CODE_SEGMENT_CONFORMING (d_type cs_d) \<and> d_dpl cs_d < CPL s
              then int_inner_privilege d0 gate cs_sel cs_d push_error error_code
              else int_same_privilege gate cs_sel cs_d push_error error_code)
             (enter_gate gate) s) s) s)"

section \<open>Real mode and virtual-8086 mode\<close>

definition clear_AC :: "cpu \<Rightarrow> cpu" where
  "clear_AC s = handleAlignmentCheck (clear_flag 18 s)"

definition real_mode_int :: "bx_descriptor \<Rightarrow> u8 \<Rightarrow> bool \<Rightarrow> u16 \<Rightarrow> unit exec" where
  "real_mode_int d0 vector push_error error_code = (\<lambda>s.
     if (ucast vector * 4 + 3 :: u32) > ucast (gs_limit (idtr s)) then exception BX_GP_EXCEPTION 0 s
     else
       bindM read_eflags (\<lambda>fl. seqM (push_16 (ucast fl))
       (bindM (getM (sel_of SEG_CS)) (\<lambda>cs. seqM (push_16 (ucast cs))
       (bindM (getM EIP) (\<lambda>ip. seqM (push_16 (ucast ip))
       (bindM (system_read_word (gs_base (idtr s) + 4 * ucast vector)) (\<lambda>new_ip s.
         if d_limit_scaled (seg_cache (sregs s SEG_CS)) < ucast new_ip then exception BX_GP_EXCEPTION 0 s
         else bindM (system_read_word (gs_base (idtr s) + 4 * ucast vector + 2)) (\<lambda>cs_selector.
           seqM (load_seg_reg d0 SEG_CS cs_selector)
             (updM (\<lambda>s. clear_flag 16 (clear_AC (clear_flag 8 (clear_IF (s\<lparr>EIP := ucast new_ip\<rparr>))))))) s))))))) s)"

text \<open>Whether the interrupt was redirected through the virtual-mode IDT (CR4.VME).\<close>

definition v86_redirect_interrupt :: "bx_descriptor \<Rightarrow> u8 \<Rightarrow> bool exec" where
  "v86_redirect_interrupt d0 vector =
     (let not_redirected = (\<lambda>s. if get_IOPL s < 3 then exception BX_GP_EXCEPTION 0 s else ret False s) in (\<lambda>s.
     if get_VME s then
       let c = seg_cache (tr s) in
       if d_limit_scaled c < 103 then exception BX_GP_EXCEPTION 0 s
       else bindM (system_read_word (d_base c + 102)) (\<lambda>io_base.
         let offset = ucast io_base - 32 + drop_bit 3 (ucast vector) in
         if d_limit_scaled c < offset then exception BX_GP_EXCEPTION 0
         else bindM (system_read_byte (d_base c + offset)) (\<lambda>vme_redirection_bitmap.
           if vme_redirection_bitmap AND push_bit (unat (vector AND 7)) 1 = 0 then
             bindM read_eflags (\<lambda>fl.
             bindM (system_read_word (ucast vector * 4 + 2)) (\<lambda>temp_CS.
             bindM (system_read_word (ucast vector * 4)) (\<lambda>temp_IP s.
               let fl16 = ucast fl :: u16;
                   temp_flags = (if get_IOPL s < 3 then
                     (let f = fl16 OR ucast EFlagsIOPLMask in
                      if get_flag 19 s then f OR ucast EFlagsIFMask else f AND NOT (ucast EFlagsIFMask)) else fl16);
                   old_IP = ucast (EIP s) :: u16; old_CS = sel_value (seg_selector (sregs s SEG_CS)) in
               seqM (push_16 temp_flags) (seqM (push_16 old_CS) (seqM (push_16 old_IP)
               (seqM (load_seg_reg d0 SEG_CS temp_CS)
               (seqM (updM (\<lambda>s. let s1 = clear_flag 16 (clear_flag 8 (s\<lparr>EIP := ucast temp_IP\<rparr>))
                  in if get_IOPL s1 = 3 then clear_IF s1 else clear_flag 19 s1))
               (ret True))))) s)))
           else not_redirected)) s
     else not_redirected s))"

section \<open>interrupt()\<close>

datatype interrupt_type =
    BX_EXTERNAL_INTERRUPT
  | BX_NMI
  | BX_HARDWARE_EXCEPTION
  | BX_SOFTWARE_INTERRUPT
  | BX_PRIVILEGED_SOFTWARE_INTERRUPT
  | BX_SOFTWARE_EXCEPTION

definition interrupt :: "task_switch \<Rightarrow> bx_descriptor \<Rightarrow> u8 \<Rightarrow> interrupt_type \<Rightarrow> bool \<Rightarrow> u16 \<Rightarrow> unit exec" where
  "interrupt task_switch d0 vector type push_error error_code =
     (let soft_int = (type = BX_SOFTWARE_INTERRUPT \<or> type = BX_SOFTWARE_EXCEPTION) in
      seqM (updM (\<lambda>s. s\<lparr>debug_trap := 0, inhibit_mask := 0\<rparr>))
      (seqM RSP_SPECULATIVE
      (seqM (\<lambda>s. bindM (if type \<noteq> BX_SOFTWARE_INTERRUPT \<or> \<not> v8086_mode s then ret False
           else v86_redirect_interrupt d0 vector) (\<lambda>redirected s.
         if redirected then ret () s
         else if real_mode s then real_mode_int d0 vector push_error error_code s
         else protected_mode_int task_switch d0 vector soft_int push_error error_code s) s)
      (seqM RSP_COMMIT (updM (\<lambda>s. s\<lparr>EXT := False\<rparr>))))))"

section \<open>exception()\<close>

text \<open>The exception types are the numbers 0 (benign), 1 (contributory), 2 (page fault) and 10 (double
fault) of the code, \<open>last_exception_type\<close> holds one of them.\<close>

definition BX_ET_BENIGN :: nat where "BX_ET_BENIGN = 0"
definition BX_ET_CONTRIBUTORY :: nat where "BX_ET_CONTRIBUTORY = 1"
definition BX_ET_PAGE_FAULT :: nat where "BX_ET_PAGE_FAULT = 2"
definition BX_ET_DOUBLE_FAULT :: nat where "BX_ET_DOUBLE_FAULT = 10"

datatype exception_class = BX_EXCEPTION_CLASS_TRAP | BX_EXCEPTION_CLASS_FAULT | BX_EXCEPTION_CLASS_ABORT

text \<open>\<open>exceptions_info\<close>: type, class and whether an error code is pushed, for the vectors below
\<open>BX_CPU_HANDLED_EXCEPTIONS\<close> (32).\<close>

definition exceptions_info :: "nat \<Rightarrow> nat \<times> exception_class \<times> bool" where
  "exceptions_info v =
     (if v = 8 then BX_ET_DOUBLE_FAULT else if v \<in> {0, 10, 11, 12, 13} then BX_ET_CONTRIBUTORY
      else if v \<in> {14, 20} then BX_ET_PAGE_FAULT else BX_ET_BENIGN,
      if v \<in> {3, 4} then BX_EXCEPTION_CLASS_TRAP else if v = 18 then BX_EXCEPTION_CLASS_ABORT
      else BX_EXCEPTION_CLASS_FAULT,
      v \<in> {8, 10, 11, 12, 13, 14, 17})"

definition is_exception_OK :: "nat \<Rightarrow> nat \<Rightarrow> bool" where
  "is_exception_OK a b = [[True, True, True], [True, False, True], [True, False, False]] ! a ! b"

text \<open>Restores EIP and ESP to their values before the faulting instruction.\<close>

definition restore_rip_rsp :: "cpu \<Rightarrow> cpu" where
  "restore_rip_rsp s =
     (let s1 = s\<lparr>EIP := prev_rip s\<rparr>; s2 = (if speculative_rsp s1 then set_reg32 R_ESP (prev_rsp s1) s1 else s1)
      in s2\<lparr>speculative_rsp := False\<rparr>)"

definition commit_debug_events :: "cpu \<Rightarrow> cpu" where
  "commit_debug_events s =
     s\<lparr>dr6 := (dr6 s AND 0xFFFF6FF0) OR (debug_trap s AND 0xE00F), dr7 := dr7 s AND NOT (push_bit 13 1)\<rparr>"

text \<open>The outcomes: the handler is entered; a third fault, which resets the machine or shuts the CPU
down; a failed consistency check of the emulator. A call that recurs for ever is \<open>None\<close>.\<close>

datatype exception_outcome = Delivered | Triple_Fault | Emulator_Panic

partial_function (option) raise_exception ::
  "task_switch \<Rightarrow> bx_descriptor \<Rightarrow> nat \<Rightarrow> u16 \<Rightarrow> cpu \<Rightarrow> (exception_outcome \<times> cpu) option" where
  "raise_exception task_switch d0 vector error_code s =
     (if 32 \<le> vector then Some (Emulator_Panic, s)
      else
        let type = fst (exceptions_info vector); is_fault = (fst (snd (exceptions_info vector)) = BX_EXCEPTION_CLASS_FAULT);
            push_error = snd (snd (exceptions_info vector));
            error_code1 = (if vector \<noteq> BX_PF_EXCEPTION \<and> vector \<noteq> BX_DF_EXCEPTION
              then (error_code AND 0xFFFE) OR of_bool (EXT s) else error_code);
            s1 = (if is_fault then restore_rip_rsp s else s)
        in if is_fault \<and> last_exception_type s1 = BX_ET_DOUBLE_FAULT then Some (Triple_Fault, s1)
        else if last_exception_type s1 = BX_ET_DOUBLE_FAULT then Some (Emulator_Panic, s1)
        else
          let s2 = (if is_fault \<and> vector \<noteq> BX_DB_EXCEPTION then assert_flag 16 s1 else s1);
              s3 = (if vector = BX_DB_EXCEPTION then commit_debug_events s2 else s2);
              s4 = s3\<lparr>EXT := True\<rparr>
          in if type \<noteq> BX_ET_DOUBLE_FAULT \<and> \<not> is_exception_OK (last_exception_type s4) type
          then raise_exception task_switch d0 BX_DF_EXCEPTION 0 s4
          else
            let s5 = s4\<lparr>last_exception_type := type\<rparr>;
                r = interrupt task_switch d0 (of_nat vector) BX_HARDWARE_EXCEPTION (push_error \<and> \<not> real_mode s5)
                  (if real_mode s5 then 0 else error_code1) s5
            in case fst r of
                 Inr _ \<Rightarrow> Some (Delivered, (snd r)\<lparr>last_exception_type := BX_ET_BENIGN\<rparr>)
               | Inl e \<Rightarrow> (case e of
                   Cpu_Exn v' e' \<Rightarrow> raise_exception task_switch d0 v' e' (snd r)
                 | Cpu_Panic \<Rightarrow> Some (Emulator_Panic, snd r)))"

end
