(* ===== verification/KernelMode.thy ===== *)
theory KernelMode
  imports InterruptDelivery CpuLemmas
begin

text \<open>
  The CPU in the configuration the kernels of P5 and P6 run in: protected mode at privilege 0, no
  paging, flat segments from the GDT that \<open>GDT::init\<close> builds. Each instruction that the
  assembly parts of the kernels use acts on a \<open>kview\<close> of the CPU, its registers, memory, EFLAGS and
  selectors, and keeps the configuration as long as it does not write into the GDT.
\<close>

section \<open>EFLAGS as one word\<close>

definition flags_image :: "cpu \<Rightarrow> u32" where
  "flags_image s = eflags (force_flags s)"

definition arith_bit :: "arith_flags \<Rightarrow> nat \<Rightarrow> bool option" where
  "arith_bit f k = (if k = 0 then Some (CF f) else if k = 2 then Some (PF f) else if k = 4 then Some (AF f)
     else if k = 6 then Some (ZF f) else if k = 7 then Some (SF f) else if k = 11 then Some (OF f) else None)"

text \<open>The word with its six arithmetic flags replaced.\<close>

definition with_arith :: "arith_flags \<Rightarrow> u32 \<Rightarrow> u32" where
  "with_arith f w = (w AND NOT EFlagsOSZAPCMask) OR
     ((of_bool (CF f) OR push_bit 2 (of_bool (PF f)) OR push_bit 4 (of_bool (AF f)) OR push_bit 6 (of_bool (ZF f))
       OR push_bit 7 (of_bool (SF f)) OR push_bit 11 (of_bool (OF f))) AND EFlagsOSZAPCMask)"

lemma bit_push_1: "j < 32 \<Longrightarrow> bit (push_bit j 1 :: u32) k \<longleftrightarrow> k = j"
  using bit_push_of_bool[of j True k] by simp

lemma OSZAPC_bits: "bit EFlagsOSZAPCMask k \<longleftrightarrow> k \<in> {0, 2, 4, 6, 7, 11}"
proof -
  have e: "EFlagsOSZAPCMask = push_bit 0 1 OR push_bit 2 1 OR push_bit 4 1 OR push_bit 6 1 OR push_bit 7 1 OR push_bit 11 1"
    by (simp add: EFlagsOSZAPCMask_def)
  show ?thesis unfolding e bit_or_iff
    using bit_push_1[of 0 k] bit_push_1[of 2 k] bit_push_1[of 4 k] bit_push_1[of 6 k] bit_push_1[of 7 k] bit_push_1[of 11 k]
    by (simp del: push_bit_of_1 add: insert_iff)
qed

lemma bit_with_arith: "bit (with_arith f w) k \<longleftrightarrow> k < 32 \<and> (case arith_bit f k of Some b \<Rightarrow> b | None \<Rightarrow> bit w k)"
proof -
  have o: "bit (of_bool b :: u32) k \<longleftrightarrow> k = 0 \<and> b" for b by (simp add: bit_of_bool_iff)
  have p: "bit (push_bit j (of_bool b) :: u32) k \<longleftrightarrow> k = j \<and> b" if "j < 32" for j b using bit_push_of_bool[OF that] .
  have "k < 32" if "bit w k" using bit_imp_le_length[OF that] by simp
  then show ?thesis
    unfolding with_arith_def
    by (simp only: bit_or_iff bit_and_iff bit_not_iff OSZAPC_bits o p[of 2, simplified] p[of 4, simplified]
        p[of 6, simplified] p[of 7, simplified] p[of 11, simplified]) (auto simp: arith_bit_def)
qed

lemma force_flags_eq: "force_flags s = s\<lparr>eflags := with_arith (flags_of (oszapc s)) (eflags s)\<rparr>"
  by (simp add: force_flags_def with_arith_def flags_of_def Let_def)

lemma flags_image_eq: "flags_image s = with_arith (flags_of (oszapc s)) (eflags s)"
  by (simp add: flags_image_def force_flags_eq)

lemma with_arith_twice [simp]: "with_arith f (with_arith g w) = with_arith f w"
  by (rule bit_word_eqI) (simp add: bit_with_arith arith_bit_def split: option.splits)

lemma with_arith_own: "with_arith \<lparr>CF = bit w 0, PF = bit w 2, AF = bit w 4, ZF = bit w 6, SF = bit w 7, OF = bit w 11\<rparr> w = w"
  by (rule bit_word_eqI) (simp add: bit_with_arith arith_bit_def split: option.splits)

lemma flags_image_force [simp]: "flags_image (force_flags s) = flags_image s"
  by (simp add: flags_image_eq force_flags_eq)

lemma system_bit: "k \<notin> {0, 2, 4, 6, 7, 11} \<Longrightarrow> bit (flags_image s) k = bit (eflags s) k"
  by (auto simp: flags_image_eq bit_with_arith arith_bit_def dest: bit_imp_le_length)


text \<open>The change mask that \<open>writeEFlags\<close> honours: every bit of EFLAGS that exists.\<close>

definition EFlagsSupportMask :: u32 where "EFlagsSupportMask = 0x3F7FD5"

definition merge_flags :: "u32 \<Rightarrow> u32 \<Rightarrow> u32 \<Rightarrow> u32" where
  "merge_flags w fl cm = (w AND NOT (cm AND EFlagsSupportMask)) OR (fl AND (cm AND EFlagsSupportMask))"

lemma writeEFlags_merge: "writeEFlags fl cm s = setEFlags (merge_flags (flags_image s) fl cm) (force_flags s)"
proof -
  have "(0x00037FD5 OR (EFlagsIDMask OR EFlagsACMask) OR (EFlagsVIPMask OR EFlagsVIFMask)) = EFlagsSupportMask"
    by (simp add: EFlagsIDMask_def EFlagsACMask_def EFlagsVIPMask_def EFlagsVIFMask_def EFlagsSupportMask_def)
  then show ?thesis by (simp add: writeEFlags_def Let_def merge_flags_def flags_image_def)
qed

lemma flag_updates [simp]:
  "gen_reg (handleInterruptMaskChange s) = gen_reg s" "mem (handleInterruptMaskChange s) = mem s"
  "EIP (handleInterruptMaskChange s) = EIP s" "eflags (handleInterruptMaskChange s) = eflags s"
  "oszapc (handleInterruptMaskChange s) = oszapc s" "sregs (handleInterruptMaskChange s) = sregs s"
  "cr0 (handleInterruptMaskChange s) = cr0 s" "gdtr (handleInterruptMaskChange s) = gdtr s"
  "idtr (handleInterruptMaskChange s) = idtr s" "alignment_check_mask (handleInterruptMaskChange s) = alignment_check_mask s"
  "gen_reg (handleAlignmentCheck s) = gen_reg s" "mem (handleAlignmentCheck s) = mem s"
  "EIP (handleAlignmentCheck s) = EIP s" "eflags (handleAlignmentCheck s) = eflags s"
  "oszapc (handleAlignmentCheck s) = oszapc s" "sregs (handleAlignmentCheck s) = sregs s"
  "cr0 (handleAlignmentCheck s) = cr0 s" "gdtr (handleAlignmentCheck s) = gdtr s" "idtr (handleAlignmentCheck s) = idtr s"
  by (simp_all add: handleInterruptMaskChange_def unmask_event_def mask_event_def handleAlignmentCheck_def Let_def)

lemma setEFlags_fields:
  assumes "bit (eflags s) 17 = bit w 17"
  shows "gen_reg (setEFlags w s) = gen_reg s" "mem (setEFlags w s) = mem s" "EIP (setEFlags w s) = EIP s"
    "eflags (setEFlags w s) = w" "oszapc (setEFlags w s) = setEFlagsOSZAPC w (oszapc s)" "sregs (setEFlags w s) = sregs s"
    "cr0 (setEFlags w s) = cr0 s" "gdtr (setEFlags w s) = gdtr s" "idtr (setEFlags w s) = idtr s"
    "CPL s \<noteq> 3 \<Longrightarrow> alignment_check_mask (setEFlags w s) = 0"
proof -
  have lt: "17 < (32 :: nat)" by simp
  have m: "EFlagsVMMask = push_bit 17 1" by (simp add: EFlagsVMMask_def)
  have vm: "(eflags s XOR w) AND EFlagsVMMask = 0"
  proof (rule bit_word_eqI)
    fix k show "bit ((eflags s XOR w) AND EFlagsVMMask) k = bit (0 :: u32) k"
      unfolding m bit_and_iff bit_xor_iff bit_push_1[of 17 k, OF lt] using assms by auto
  qed
  show "gen_reg (setEFlags w s) = gen_reg s" "mem (setEFlags w s) = mem s" "EIP (setEFlags w s) = EIP s"
    "eflags (setEFlags w s) = w" "oszapc (setEFlags w s) = setEFlagsOSZAPC w (oszapc s)" "sregs (setEFlags w s) = sregs s"
    "cr0 (setEFlags w s) = cr0 s" "gdtr (setEFlags w s) = gdtr s" "idtr (setEFlags w s) = idtr s"
    by (simp_all add: setEFlags_def Let_def vm)
  show "alignment_check_mask (setEFlags w s) = 0" if "CPL s \<noteq> 3"
    using that by (auto simp: setEFlags_def Let_def vm handleAlignmentCheck_def CPL_def)
qed

lemma flags_image_set: "bit (eflags s) 17 = bit w 17 \<Longrightarrow> flags_image (setEFlags w s) = w"
  by (simp add: flags_image_eq setEFlags_fields setEFlagsOSZAPC_flags with_arith_own)

section \<open>The kernel's configuration\<close>

text \<open>The code and the data segment that \<open>GDT::init\<close> puts at entries 1 and 2, accessed.\<close>

definition gdt_ok :: "u32 \<Rightarrow> memory \<Rightarrow> bool" where
  "gdt_ok g m \<longleftrightarrow> read32 m (g + 8) = 0x0000FFFF \<and> read32 m (g + 12) = 0x00CF9B00
     \<and> read32 m (g + 16) = 0x0000FFFF \<and> read32 m (g + 20) = 0x00CF9300"

abbreviation (input) BX_NIL_REGISTER :: nat where "BX_NIL_REGISTER \<equiv> 10"

definition kernel :: "u32 \<Rightarrow> cpu \<Rightarrow> bool" where
  "kernel g s \<longleftrightarrow> protected_mode s \<and> unpaged s \<and> CPL s = 0 \<and> \<not> get_flag 14 s \<and> gen_reg s BX_NIL_REGISTER = 0
     \<and> flat_rw SEG_SS s \<and> flat_rw SEG_DS s \<and> ss_32 s \<and> d_limit_scaled (seg_cache (sregs s SEG_CS)) = 0xFFFFFFFF
     \<and> gdtr s = \<lparr>gs_base = g, gs_limit = 23\<rparr> \<and> gdt_ok g (mem s)"

record kview =
  kv_reg :: "nat \<Rightarrow> u32"
  kv_mem :: memory
  kv_eip :: u32
  kv_flags :: u32
  kv_sel :: "nat \<Rightarrow> u16"

definition view :: "cpu \<Rightarrow> kview" where
  "view s = \<lparr>kv_reg = gen_reg s, kv_mem = mem s, kv_eip = EIP s, kv_flags = flags_image s,
     kv_sel = (\<lambda>r. sel_value (seg_selector (sregs s r)))\<rparr>"

text \<open>From the configuration and a view with \<open>P\<close> the handler succeeds, keeps the configuration and
changes the view by \<open>f\<close>.\<close>

definition runs :: "u32 \<Rightarrow> (kview \<Rightarrow> bool) \<Rightarrow> unit exec \<Rightarrow> (kview \<Rightarrow> kview) \<Rightarrow> bool" where
  "runs g P m f \<longleftrightarrow> (\<forall>s. kernel g s \<longrightarrow> P (view s) \<longrightarrow>
     (\<exists>s'. m s = (Inr (), s') \<and> kernel g s' \<and> view s' = f (view s)))"

lemma runs_seq: "runs g P m f \<Longrightarrow> runs g Q k h \<Longrightarrow> runs g (\<lambda>v. P v \<and> Q (f v)) (seqM m k) (\<lambda>v. h (f v))"
  unfolding runs_def by (metis exec_bind(3))

lemma runs_weaken: "runs g P m f \<Longrightarrow> (\<And>v. Q v \<Longrightarrow> P v) \<Longrightarrow> (\<And>v. Q v \<Longrightarrow> h v = f v) \<Longrightarrow> runs g Q m h"
  unfolding runs_def by metis

section \<open>Accesses\<close>

definition safe :: "u32 \<Rightarrow> u32 \<Rightarrow> bool" where
  "safe g a \<longleftrightarrow> aligned4 g \<and> aligned4 a \<and> a \<notin> {g + 8, g + 12, g + 16, g + 20}"

lemma aligned4_multiple: "aligned4 a \<longleftrightarrow> (\<exists>k. a = 4 * k)"
proof
  assume "aligned4 a"
  then have "unat a = 4 * (unat a div 4)" by (auto simp: aligned4_def)
  then have "of_nat (unat a) = (of_nat (4 * (unat a div 4)) :: u32)" by (rule arg_cong)
  then have "a = 4 * of_nat (unat a div 4)" by (simp only: of_nat_mult of_nat_numeral of_nat_unat ucast_id)
  then show "\<exists>k. a = 4 * k" ..
next
  assume "\<exists>k. a = 4 * k"
  then obtain k where "a = 4 * k" ..
  then have "unat a = 4 * unat k mod 2 ^ 32" by (simp add: unat_word_ariths)
  then have "unat a mod 4 = 4 * unat k mod 4" by (simp add: mod_mod_cancel)
  then show "aligned4 a" by (simp add: aligned4_def)
qed

lemma aligned4_add: "aligned4 a \<Longrightarrow> aligned4 b \<Longrightarrow> aligned4 (a + b)"
  unfolding aligned4_multiple by (metis distrib_left)

lemma aligned4_sub: "aligned4 a \<Longrightarrow> aligned4 b \<Longrightarrow> aligned4 (a - b)"
  unfolding aligned4_multiple by (metis right_diff_distrib)

lemma aligned4_num [simp]: "aligned4 (numeral (num.Bit0 (num.Bit0 n)))" "aligned4 0"
proof -
  have q: "(x + x) + (x + x) = 4 * x" for x :: u32 by simp
  have "(numeral (num.Bit0 (num.Bit0 n)) :: u32) = 4 * numeral n"
    unfolding numeral_Bit0[of "num.Bit0 n"] numeral_Bit0[of n] by (rule q)
  then show "aligned4 (numeral (num.Bit0 (num.Bit0 n)))" unfolding aligned4_multiple by blast
qed (simp add: aligned4_def)

lemma aligned4_offset: "aligned4 a \<Longrightarrow> aligned4 (numeral n) \<Longrightarrow> aligned4 (a + numeral n)"
  "aligned4 a \<Longrightarrow> aligned4 (numeral n) \<Longrightarrow> aligned4 (a - numeral n)"
  by (simp_all only: aligned4_add aligned4_sub)

lemma gdt_ok_write: "gdt_ok g m \<Longrightarrow> safe g a \<Longrightarrow> gdt_ok g (write32 m a v)"
  by (auto simp: gdt_ok_def safe_def read32_write32_other aligned4_offset)

text \<open>A 16-bit access is a 32-bit one that keeps the upper half.\<close>

lemma read16_low: "read16 m a = ucast (read32 m a)"
  by (rule bit_word_eqI) (auto simp: read16_def read32_def bit_simps)

definition low_half :: "u32 \<Rightarrow> u16 \<Rightarrow> u32" where
  "low_half w v = (w AND 0xFFFF0000) OR ucast v"

lemma low_half_read: "ucast (low_half w v) = v"
proof -
  have m: "(0xFFFF0000 :: u32) = NOT (mask 16)" by (simp add: mask_eq_exp_minus_1)
  show ?thesis unfolding low_half_def m by (rule bit_word_eqI) (auto simp: bit_simps)
qed

lemma write16_low: "write16 m a v = write32 m a (low_half (read32 m a) v)"
proof -
  have m: "(0xFFFF0000 :: u32) = NOT (mask 16)" by (simp add: mask_eq_exp_minus_1)
  let ?w = "low_half (read32 m a) v"
  have b: "(ucast ?w :: u8) = ucast v" "(ucast (drop_bit 8 ?w) :: u8) = ucast (drop_bit 8 v)"
    "(ucast (drop_bit 16 ?w) :: u8) = m (a + 2)" "(ucast (drop_bit 24 ?w) :: u8) = m (a + 3)"
    unfolding low_half_def m read32_def by (rule bit_word_eqI; auto simp: bit_simps dest: bit_imp_le_length)+
  show ?thesis unfolding write16_def write32_def b by (rule ext) simp
qed

lemma same_segD:
  assumes "same_seg a b"
  shows "seg_selector b = seg_selector a" "d_p (seg_cache b) = d_p (seg_cache a)" "d_type (seg_cache b) = d_type (seg_cache a)"
    "d_base (seg_cache b) = d_base (seg_cache a)" "d_limit_scaled (seg_cache b) = d_limit_scaled (seg_cache a)"
    "d_d_b (seg_cache b) = d_d_b (seg_cache a)" "d_valid (seg_cache b) = 0 \<longleftrightarrow> d_valid (seg_cache a) = 0"
  using assms by (cases "seg_cache a"; cases "seg_cache b"; simp add: same_seg_def)+

lemma regs_same_kernel:
  assumes "kernel g s" "regs_same s s'" "gdt_ok g (mem s')"
  shows "kernel g s' \<and> view s' = (view s)\<lparr>kv_mem := mem s'\<rparr>"
proof -
  have r: "gen_reg s' = gen_reg s" "EIP s' = EIP s" "eflags s' = eflags s" "oszapc s' = oszapc s" "cr0 s' = cr0 s"
    "gdtr s' = gdtr s" "alignment_check_mask s' = alignment_check_mask s" "\<And>k. same_seg (sregs s k) (sregs s' k)"
    using assms(2) by (simp_all add: regs_same_def)
  note sg = r(8)[THEN same_segD(1)] r(8)[THEN same_segD(2)] r(8)[THEN same_segD(3)] r(8)[THEN same_segD(4)]
    r(8)[THEN same_segD(5)] r(8)[THEN same_segD(6)] r(8)[THEN same_segD(7)]
  show ?thesis using assms(1,3)
    by (simp add: kernel_def view_def flags_image_eq protected_mode_def get_PE_def get_flag_def unpaged_def get_PG_def CPL_def
        flat_rw_def Let_def ss_32_def r(1-7) sg)
qed

lemma kernel_flat: "kernel g s \<Longrightarrow> r \<in> {SEG_SS, SEG_DS} \<Longrightarrow> flat_rw r s \<and> unpaged s"
  by (auto simp: kernel_def)

lemma kernel_read:
  assumes "kernel g s" "r \<in> {SEG_SS, SEG_DS}"
  shows "\<exists>s'. read_virtual_dword r a s = (Inr (read32 (mem s) a), s') \<and> kernel g s' \<and> view s' = view s"
proof -
  have "flat_rw r s" "unpaged s" using kernel_flat[OF assms] by simp_all
  then obtain s' where s': "read_virtual_dword r a s = (Inr (read32 (mem s) a), s')" "accessed r s s'"
    using read_dword_flat by blast
  have q: "regs_same s s'" "mem s' = mem s" using s'(2) unfolding accessed_def by simp_all
  have "gdt_ok g (mem s')" unfolding q(2) using assms(1) by (simp add: kernel_def)
  note k = regs_same_kernel[OF assms(1) q(1) this]
  have "(view s)\<lparr>kv_mem := mem s'\<rparr> = view s" unfolding q(2) by (simp add: view_def)
  with k s'(1) show ?thesis by metis
qed

lemma kernel_write:
  assumes "kernel g s" "r \<in> {SEG_SS, SEG_DS}" "safe g a"
  shows "\<exists>s'. write_virtual_dword r a v s = (Inr (), s') \<and> kernel g s' \<and> view s' = (view s)\<lparr>kv_mem := write32 (mem s) a v\<rparr>"
proof -
  have "flat_rw r s" "unpaged s" using kernel_flat[OF assms(1,2)] by simp_all
  then obtain s' where s': "write_virtual_dword r a v s = (Inr (), s')" "regs_same s s'" "mem s' = write32 (mem s) a v"
    using write_dword_flat[of r s a v] by blast
  have "gdt_ok g (mem s')" unfolding s'(3) using assms(1,3) by (intro gdt_ok_write) (simp_all add: kernel_def)
  with regs_same_kernel[OF assms(1) s'(2) this] show ?thesis using s'(1,3) by metis
qed

lemma le_bytes_16: "write_bytes m a (le_bytes 2 (v :: u16)) = write16 m a v" "le_word (read_bytes m a 2) = read16 m a"
  by (simp_all add: le_bytes_def read_bytes_def upt_small write16_def read16_def)

lemma kernel_write_word:
  assumes "kernel g s" "safe g a"
  shows "\<exists>s'. stack_write_word a v s = (Inr (), s') \<and> kernel g s'
    \<and> view s' = (view s)\<lparr>kv_mem := write32 (mem s) a (low_half (read32 (mem s) a) v)\<rparr>"
proof -
  have f: "flat_rw SEG_SS s" "unpaged s" using assms(1) by (simp_all add: kernel_def)
  obtain t where t: "agen_write32 SEG_SS a 2 s = (Inr a, t)" and u: "unpaged t" "mem t = mem s"
    using agen_flat(1)[OF f] by blast
  obtain s' where s': "access_write_linear a (CPL t) 1 (le_bytes 2 v) t = (Inr (), s')"
     "mem s' = write_bytes (mem t) a (le_bytes 2 v)"
    using write_plain[OF u(1), of "le_bytes 2 v" a "CPL t" 1] by auto
  have run: "stack_write_word a v s = (Inr (), s')"
    using t s'(1) by (simp add: stack_write_word_def write_virtual_word_def write_virtual_def exec_bind exec_simps)
  have m: "mem s' = write32 (mem s) a (low_half (read32 (mem s) a) v)"
    by (simp add: s'(2) u(2) le_bytes_16(1) write16_low)
  have "quiet (stack_write_word a v)" by (rule quiet_sized)
  then have "regs_same s s'" using run unfolding keeps_def by (metis snd_conv)
  moreover have "gdt_ok g (mem s')" unfolding m using assms by (intro gdt_ok_write) (simp_all add: kernel_def)
  ultimately show ?thesis using regs_same_kernel[OF assms(1)] run m by metis
qed

lemma kernel_read_word:
  assumes "kernel g s"
  shows "\<exists>s'. stack_read_word a s = (Inr (ucast (read32 (mem s) a)), s') \<and> kernel g s' \<and> view s' = view s"
proof -
  have f: "flat_rw SEG_SS s" "unpaged s" using assms by (simp_all add: kernel_def)
  obtain t where t: "agen_read32 SEG_SS a 2 s = (Inr a, t)" and u: "unpaged t" "mem t = mem s"
    using agen_flat(2)[OF f] by blast
  obtain s' where s': "access_read_linear a 2 (CPL t) False 1 t = (Inr (read_bytes (mem t) a 2), s')" "mem s' = mem t"
    using read_plain[OF u(1), of 2 a "CPL t" False 1] by auto
  have run: "stack_read_word a s = (Inr (ucast (read32 (mem s) a)), s')"
    using t s'(1) by (simp add: stack_read_word_def read_virtual_word_def read_virtual_def bindM_assoc exec_bind exec_simps
        le_bytes_16(2) u(2) read16_low)
  have "quiet (stack_read_word a)" by (rule quiet_sized)
  then have "regs_same s s'" using run unfolding keeps_def by (metis snd_conv)
  moreover have q: "mem s' = mem s" using s'(2) u(2) by simp
  moreover have "gdt_ok g (mem s')" unfolding q using assms by (simp add: kernel_def)
  ultimately have k: "kernel g s' \<and> view s' = (view s)\<lparr>kv_mem := mem s'\<rparr>" by (intro regs_same_kernel[OF assms])
  have "(view s)\<lparr>kv_mem := mem s'\<rparr> = view s" unfolding q by (simp add: view_def)
  with k run show ?thesis by metis
qed

section \<open>Instructions on views\<close>

definition kv_set :: "nat \<Rightarrow> u32 \<Rightarrow> kview \<Rightarrow> kview" where
  "kv_set r x v = v\<lparr>kv_reg := (kv_reg v)(r := x)\<rparr>"

definition kv_esp :: "kview \<Rightarrow> u32" where
  "kv_esp v = kv_reg v R_ESP"

definition kv_push :: "u32 \<Rightarrow> kview \<Rightarrow> kview" where
  "kv_push x v = (kv_set R_ESP (kv_esp v - 4) v)\<lparr>kv_mem := write32 (kv_mem v) (kv_esp v - 4) x\<rparr>"

definition kv_top :: "kview \<Rightarrow> u32" where
  "kv_top v = read32 (kv_mem v) (kv_esp v)"

definition kv_drop :: "u32 \<Rightarrow> kview \<Rightarrow> kview" where
  "kv_drop n v = kv_set R_ESP (kv_esp v + n) v"

lemma view_fields [simp]: "kv_reg (view s) = gen_reg s" "kv_mem (view s) = mem s" "kv_eip (view s) = EIP s"
  "kv_flags (view s) = flags_image s" "kv_sel (view s) r = sel_value (seg_selector (sregs s r))"
  by (simp_all add: view_def)

lemma kernel_set_reg: "kernel g s \<Longrightarrow> r \<noteq> BX_NIL_REGISTER \<Longrightarrow> kernel g (set_reg32 r x s) \<and> view (set_reg32 r x s) = kv_set r x (view s)"
  by (simp add: kernel_def view_def kv_set_def protected_mode_def get_PE_def get_flag_def unpaged_def get_PG_def CPL_def
      flat_rw_def ss_32_def flags_image_eq)

lemma view_set_reg [simp]: "view (set_reg32 r x s) = kv_set r x (view s)"
  by (simp add: view_def kv_set_def flags_image_eq)

lemma kernel_ss_32: "kernel g s \<Longrightarrow> ss_32 s"
  by (simp add: kernel_def)

lemma view_gen_reg: "view s' = v \<Longrightarrow> gen_reg s' = kv_reg v"
  by auto

lemma run_push: "runs g (\<lambda>v. safe g (kv_esp v - 4)) (push_32 x) (kv_push x)"
  unfolding runs_def
proof (intro allI impI)
  fix s assume k: "kernel g s" and "safe g (kv_esp (view s) - 4)"
  then have a: "safe g (gen_reg s R_ESP - 4)" by (simp add: kv_esp_def)
  obtain t where t: "write_virtual_dword SEG_SS (gen_reg s R_ESP - 4) x s = (Inr (), t)" "kernel g t"
    "view t = (view s)\<lparr>kv_mem := write32 (mem s) (gen_reg s R_ESP - 4) x\<rparr>"
    using kernel_write[OF k _ a, of SEG_SS x] by auto
  have "push_32 x s = (Inr (), set_reg32 R_ESP (gen_reg s R_ESP - 4) t)"
    using kernel_ss_32[OF k] t(1) view_gen_reg[OF t(3)] by (simp add: push_32_def stack_write_dword_def exec_bind exec_simps)
  moreover have "kv_set R_ESP (gen_reg s R_ESP - 4) (view t) = kv_push x (view s)"
    unfolding t(3) by (simp add: kv_push_def kv_set_def kv_esp_def)
  ultimately show "\<exists>s'. push_32 x s = (Inr (), s') \<and> kernel g s' \<and> view s' = kv_push x (view s)"
    using kernel_set_reg[OF t(2), of R_ESP "gen_reg s R_ESP - 4"] by simp
qed

lemma run_push_sw:
  "runs g (\<lambda>v. safe g (kv_esp v - 4)) (PUSH32_Sw i)
     (\<lambda>v. kv_push (low_half (read32 (kv_mem v) (kv_esp v - 4)) (kv_sel v (i_src i))) v)"
  unfolding runs_def
proof (intro allI impI)
  fix s assume k: "kernel g s" and "safe g (kv_esp (view s) - 4)"
  then have a: "safe g (gen_reg s R_ESP - 4)" by (simp add: kv_esp_def)
  let ?sel = "sel_value (seg_selector (sregs s (i_src i)))" and ?a = "gen_reg s R_ESP - 4"
  obtain t where t: "stack_write_word ?a ?sel s = (Inr (), t)" "kernel g t"
    "view t = (view s)\<lparr>kv_mem := write32 (mem s) ?a (low_half (read32 (mem s) ?a) ?sel)\<rparr>"
    using kernel_write_word[OF k a, of ?sel] by auto
  have "PUSH32_Sw i s = (Inr (), set_reg32 R_ESP ?a t)"
    using kernel_ss_32[OF k] t(1) view_gen_reg[OF t(3)] by (simp add: PUSH32_Sw_def Let_def exec_bind exec_simps)
  moreover have "kv_set R_ESP ?a (view t) = kv_push (low_half (read32 (mem s) ?a) ?sel) (view s)"
    unfolding t(3) by (simp add: kv_push_def kv_set_def kv_esp_def)
  ultimately show "\<exists>s'. PUSH32_Sw i s = (Inr (), s') \<and> kernel g s'
      \<and> view s' = kv_push (low_half (read32 (kv_mem (view s)) (kv_esp (view s) - 4)) (kv_sel (view s) (i_src i))) (view s)"
    using kernel_set_reg[OF t(2), of R_ESP ?a] by (simp add: kv_esp_def)
qed

lemma kernel_pop:
  assumes "kernel g s"
  shows "\<exists>s'. pop_32 s = (Inr (kv_top (view s)), s') \<and> kernel g s' \<and> view s' = kv_drop 4 (view s)"
proof -
  obtain t where t: "read_virtual_dword SEG_SS (gen_reg s R_ESP) s = (Inr (read32 (mem s) (gen_reg s R_ESP)), t)"
      "kernel g t" "view t = view s"
    using kernel_read[OF assms, of SEG_SS "gen_reg s R_ESP"] by auto
  have "pop_32 s = (Inr (kv_top (view s)), set_reg32 R_ESP (gen_reg s R_ESP + 4) t)"
    using kernel_ss_32[OF assms] t(1) view_gen_reg[OF t(3)]
    by (simp add: pop_32_def stack_read_dword_def exec_bind exec_simps kv_top_def kv_esp_def)
  then show ?thesis using kernel_set_reg[OF t(2), of R_ESP "gen_reg s R_ESP + 4"] t(3) by (simp add: kv_drop_def kv_esp_def)
qed

lemma run_pop_reg:
  assumes "i_dst i \<noteq> BX_NIL_REGISTER"
  shows "runs g (\<lambda>_. True) (POP_EdR i) (\<lambda>v. kv_set (i_dst i) (kv_top v) (kv_drop 4 v))"
  unfolding runs_def
proof (intro allI impI)
  fix s assume k: "kernel g s"
  obtain t where t: "pop_32 s = (Inr (kv_top (view s)), t)" "kernel g t" "view t = kv_drop 4 (view s)"
    using kernel_pop[OF k] by blast
  then have "POP_EdR i s = (Inr (), set_reg32 (i_dst i) (kv_top (view s)) t)" by (simp add: POP_EdR_def exec_bind exec_simps)
  then show "\<exists>s'. POP_EdR i s = (Inr (), s') \<and> kernel g s' \<and> view s' = kv_set (i_dst i) (kv_top (view s)) (kv_drop 4 (view s))"
    using kernel_set_reg[OF t(2) assms, of "kv_top (view s)"] t(3) by simp
qed

text \<open>\<open>n\<close> dwords downwards from \<open>e\<close>, the first at \<open>e - off\<close>.\<close>

primrec write_down :: "memory \<Rightarrow> u32 \<Rightarrow> u32 \<Rightarrow> u32 list \<Rightarrow> memory" where
  "write_down m e off [] = m"
| "write_down m e off (x # xs) = write_down (write32 m (e - off) x) e (off + 4) xs"

primrec safe_down :: "u32 \<Rightarrow> u32 \<Rightarrow> u32 \<Rightarrow> nat \<Rightarrow> bool" where
  "safe_down g e off 0 = True"
| "safe_down g e off (Suc n) = (safe g (e - off) \<and> safe_down g e (off + 4) n)"

definition kv_push_list :: "u32 list \<Rightarrow> kview \<Rightarrow> kview" where
  "kv_push_list xs v = (kv_set R_ESP (kv_esp v - 4 * of_nat (length xs)) v)\<lparr>kv_mem := write_down (kv_mem v) (kv_esp v) 4 xs\<rparr>"

lemma write_down_append: "write_down m e off (xs @ ys) = write_down (write_down m e off xs) e (off + 4 * of_nat (length xs)) ys"
  by (induction xs arbitrary: m off) (simp_all add: algebra_simps)

lemma write_down_shift: "write_down m (e - d) off xs = write_down m e (off + d) xs"
  by (induction xs arbitrary: m off) (simp_all add: algebra_simps)

lemma kv_push_list_append: "kv_push_list ys (kv_push_list xs v) = kv_push_list (xs @ ys) v"
  by (simp add: kv_push_list_def kv_set_def kv_esp_def write_down_append write_down_shift algebra_simps)

lemma kv_push_as_list: "kv_push x v = kv_push_list [x] v"
  by (simp add: kv_push_def kv_push_list_def kv_set_def kv_esp_def)

lemma safe_down_append: "safe_down g e off (m + n) \<longleftrightarrow> safe_down g e off m \<and> safe_down g e (off + 4 * of_nat m) n"
  by (induction m arbitrary: off) (auto simp: algebra_simps)

lemma safe_down_shift: "safe_down g (e - d) off n = safe_down g e (off + d) n"
  by (induction n arbitrary: off) (simp_all add: algebra_simps)

lemma kernel_push_all:
  "kernel g s \<Longrightarrow> safe_down g e off (length xs) \<Longrightarrow>
   \<exists>s'. push_all (\<lambda>off. e - off) off xs s = (Inr (), s') \<and> kernel g s' \<and> view s' = (view s)\<lparr>kv_mem := write_down (mem s) e off xs\<rparr>"
proof (induction xs arbitrary: s off)
  case Nil
  then show ?case by (auto simp: exec_simps view_def)
next
  case (Cons x xs)
  from Cons.prems obtain t where t: "write_virtual_dword SEG_SS (e - off) x s = (Inr (), t)" "kernel g t"
    "view t = (view s)\<lparr>kv_mem := write32 (mem s) (e - off) x\<rparr>"
    using kernel_write[OF Cons.prems(1), of SEG_SS "e - off" x] by auto
  have m: "mem t = write32 (mem s) (e - off) x" using arg_cong[OF t(3), of kv_mem] by simp
  obtain s' where s': "push_all (\<lambda>off. e - off) (off + 4) xs t = (Inr (), s')" "kernel g s'"
     "view s' = (view t)\<lparr>kv_mem := write_down (mem t) e (off + 4) xs\<rparr>"
    using Cons.IH[OF t(2), of "off + 4"] Cons.prems(2) by auto
  have "push_all (\<lambda>off. e - off) off (x # xs) s = (Inr (), s')"
    using t(1) s'(1) by (simp add: stack_write_dword_def exec_bind)
  moreover have "view s' = (view s)\<lparr>kv_mem := write_down (mem s) e off (x # xs)\<rparr>" unfolding s'(3) t(3) m by simp
  ultimately show ?case using s'(2) by blast
qed

definition pusha_list :: "kview \<Rightarrow> u32 list" where
  "pusha_list v = [kv_reg v R_EAX, kv_reg v R_ECX, kv_reg v R_EDX, kv_reg v R_EBX, kv_esp v, kv_reg v R_EBP,
     kv_reg v R_ESI, kv_reg v R_EDI]"

lemma length_pusha_list [simp]: "length (pusha_list v) = 8"
  by (simp add: pusha_list_def)

lemma run_pusha: "runs g (\<lambda>v. safe_down g (kv_esp v) 4 8) (PUSHA32 i) (\<lambda>v. kv_push_list (pusha_list v) v)"
  unfolding runs_def
proof (intro allI impI)
  fix s assume k: "kernel g s" and "safe_down g (kv_esp (view s)) 4 8"
  then have a: "safe_down g (gen_reg s R_ESP) 4 (length (pusha_list (view s)))" by (simp add: kv_esp_def)
  obtain t where t: "push_all (\<lambda>off. gen_reg s R_ESP - off) 4 (pusha_list (view s)) s = (Inr (), t)" "kernel g t"
    "view t = (view s)\<lparr>kv_mem := write_down (mem s) (gen_reg s R_ESP) 4 (pusha_list (view s))\<rparr>"
    using kernel_push_all[OF k a] by blast
  have p: "pusha_list (view s) = [gen_reg s R_EAX, gen_reg s R_ECX, gen_reg s R_EDX, gen_reg s R_EBX, gen_reg s R_ESP,
      gen_reg s R_EBP, gen_reg s R_ESI, gen_reg s R_EDI]" by (simp add: pusha_list_def kv_esp_def)
  have "PUSHA32 i s = (Inr (), set_reg32 R_ESP (gen_reg s R_ESP - 32) t)"
    using kernel_ss_32[OF k] t(1)[unfolded p] view_gen_reg[OF t(3)] by (simp only: PUSHA32_def Let_def exec_bind exec_simps if_True) simp
  moreover have "kv_set R_ESP (gen_reg s R_ESP - 32) (view t) = kv_push_list (pusha_list (view s)) (view s)"
    unfolding t(3) by (simp add: kv_push_list_def kv_set_def kv_esp_def p)
  ultimately show "\<exists>s'. PUSHA32 i s = (Inr (), s') \<and> kernel g s' \<and> view s' = kv_push_list (pusha_list (view s)) (view s)"
    using kernel_set_reg[OF t(2), of R_ESP "gen_reg s R_ESP - 32"] by simp
qed

text \<open>The registers of \<open>popad\<close> from the dwords at the stack pointer; the saved ESP is skipped.\<close>

definition kv_word :: "kview \<Rightarrow> u32 \<Rightarrow> u32" where
  "kv_word v off = read32 (kv_mem v) (kv_esp v + off)"

definition kv_popa :: "kview \<Rightarrow> kview" where
  "kv_popa v = v\<lparr>kv_reg := (kv_reg v)(R_ESP := kv_esp v + 32, R_EDI := kv_word v 0, R_ESI := kv_word v 4,
     R_EBP := kv_word v 8, R_EBX := kv_word v 16, R_EDX := kv_word v 20, R_ECX := kv_word v 24, R_EAX := kv_word v 28)\<rparr>"

lemma kernel_stack_read:
  assumes "kernel g s"
  shows "\<exists>s'. stack_read_dword a s = (Inr (read32 (mem s) a), s') \<and> kernel g s' \<and> view s' = view s"
  using kernel_read[OF assms, of SEG_SS a] by (simp add: stack_read_dword_def)

lemma exec_stack_read: "stack_read_dword a s = (Inr x, s') \<Longrightarrow> bindM (stack_read_dword a) f s = f x s'"
  by (rule exec_bind(1))

lemma run_popa: "runs g (\<lambda>_. True) (POPA32 i) kv_popa"
  unfolding runs_def
proof (intro allI impI)
  fix s assume k: "kernel g s"
  let ?e = "gen_reg s R_ESP"
  have m: "mem s' = mem s" "gen_reg s' = gen_reg s" if "view s' = view s" for s'
    using arg_cong[OF that, of kv_mem] arg_cong[OF that, of kv_reg] by simp_all
  have fin: "\<exists>t. updM (\<lambda>s. set_reg32 R_EAX eax (set_reg32 R_ECX ecx (set_reg32 R_EDX edx (set_reg32 R_EBX ebx
       (set_reg32 R_EBP ebp (set_reg32 R_ESI esi (set_reg32 R_EDI edi
         (if ss_32 s then set_reg32 R_ESP (gen_reg s R_ESP + 32) s
          else set_reg16 R_ESP (reg16 R_ESP s + 32) s)))))))) s' = (Inr (), t) \<and> kernel g t
       \<and> view t = kv_set R_EAX eax (kv_set R_ECX ecx (kv_set R_EDX edx (kv_set R_EBX ebx (kv_set R_EBP ebp
           (kv_set R_ESI esi (kv_set R_EDI edi (kv_set R_ESP (?e + 32) (view s))))))))"
    if "kernel g s'" "view s' = view s" for s' eax ecx edx ebx ebp esi edi
    using that kernel_ss_32[OF that(1)] m(2)[OF that(2)] by (simp add: exec_simps kernel_set_reg)
  have w: "kv_popa (view s) = kv_set R_EAX (read32 (mem s) (?e + 28)) (kv_set R_ECX (read32 (mem s) (?e + 24))
      (kv_set R_EDX (read32 (mem s) (?e + 20)) (kv_set R_EBX (read32 (mem s) (?e + 16)) (kv_set R_EBP (read32 (mem s) (?e + 8))
      (kv_set R_ESI (read32 (mem s) (?e + 4)) (kv_set R_EDI (read32 (mem s) (?e + 0)) (kv_set R_ESP (?e + 32) (view s))))))))"
    by (simp add: kv_popa_def kv_set_def kv_word_def kv_esp_def)
  have step: "\<exists>t. stack_read_dword a u = (Inr (read32 (mem s) a), t) \<and> kernel g t \<and> view t = view s"
    if "kernel g u" "view u = view s" for u a using kernel_stack_read[OF that(1), of a] m(1)[OF that(2)] that(2) by simp
  obtain t1 where t1: "stack_read_dword (?e + 0) s = (Inr (read32 (mem s) (?e + 0)), t1)" "kernel g t1" "view t1 = view s"
    using step[OF k] by blast
  obtain t2 where t2: "stack_read_dword (?e + 4) t1 = (Inr (read32 (mem s) (?e + 4)), t2)" "kernel g t2" "view t2 = view s"
    using step[OF t1(2,3)] by blast
  obtain t3 where t3: "stack_read_dword (?e + 8) t2 = (Inr (read32 (mem s) (?e + 8)), t3)" "kernel g t3" "view t3 = view s"
    using step[OF t2(2,3)] by blast
  obtain t4 where t4: "stack_read_dword (?e + 12) t3 = (Inr (read32 (mem s) (?e + 12)), t4)" "kernel g t4" "view t4 = view s"
    using step[OF t3(2,3)] by blast
  obtain t5 where t5: "stack_read_dword (?e + 16) t4 = (Inr (read32 (mem s) (?e + 16)), t5)" "kernel g t5" "view t5 = view s"
    using step[OF t4(2,3)] by blast
  obtain t6 where t6: "stack_read_dword (?e + 20) t5 = (Inr (read32 (mem s) (?e + 20)), t6)" "kernel g t6" "view t6 = view s"
    using step[OF t5(2,3)] by blast
  obtain t7 where t7: "stack_read_dword (?e + 24) t6 = (Inr (read32 (mem s) (?e + 24)), t7)" "kernel g t7" "view t7 = view s"
    using step[OF t6(2,3)] by blast
  obtain t8 where t8: "stack_read_dword (?e + 28) t7 = (Inr (read32 (mem s) (?e + 28)), t8)" "kernel g t8" "view t8 = view s"
    using step[OF t7(2,3)] by blast
  note run = exec_stack_read[OF t1(1)] exec_stack_read[OF t2(1)] exec_stack_read[OF t3(1)] exec_stack_read[OF t4(1)]
    exec_stack_read[OF t5(1)] exec_stack_read[OF t6(1)] exec_stack_read[OF t7(1)] exec_stack_read[OF t8(1)]
  show "\<exists>s'. POPA32 i s = (Inr (), s') \<and> kernel g s' \<and> view s' = kv_popa (view s)"
    unfolding POPA32_def Let_def w eqTrueI[OF kernel_ss_32[OF k]] if_True run by (rule fin[OF t8(2,3)])
qed

end
