(* ===== verification/KernelCode.thy ===== *)
theory KernelCode
  imports KernelMode AluCorrect Mov32
begin

text \<open>
  The instructions of the kernels' assembly files on the \<open>kview\<close> of the CPU: moves between
  registers and flat memory, arithmetic on registers, \<open>pushfd\<close>, the loads of segment registers
  from the GDT and the return from an interrupt at the same privilege.
\<close>

section \<open>Operands\<close>

text \<open>The operand \<open>[base + displ]\<close>; an absolute address has the null register as its base.\<close>

definition kv_ea :: "bxInstruction \<Rightarrow> kview \<Rightarrow> u32" where
  "kv_ea i v = kv_reg v (i_sibBase i) + i_displ i"

definition kv_load :: "u32 \<Rightarrow> kview \<Rightarrow> u32" where
  "kv_load a v = read32 (kv_mem v) a"

definition kv_store :: "u32 \<Rightarrow> u32 \<Rightarrow> kview \<Rightarrow> kview" where
  "kv_store a x v = v\<lparr>kv_mem := write32 (kv_mem v) a x\<rparr>"

lemma resolve_view: "i_resolve i = BxResolve32Base \<Longrightarrow> ResolveModrm i s = kv_ea i (view s)"
  by (simp add: ResolveModrm_def resolve32_base_def kv_ea_def)

lemma resolve_seg: "i_resolve i = BxResolve32Base \<Longrightarrow> ResolveModrm (i\<lparr>i_seg := k\<rparr>) = ResolveModrm i"
  by (rule ext) (simp add: ResolveModrm_def resolve32_base_def)

lemma runsI:
  "(\<And>s. kernel g s \<Longrightarrow> P (view s) \<Longrightarrow> \<exists>s'. m s = (Inr (), s') \<and> kernel g s' \<and> view s' = f (view s)) \<Longrightarrow> runs g P m f"
  by (simp add: runs_def)

lemma run_load:
  assumes "i_seg i \<in> {SEG_SS, SEG_DS}" "i_resolve i = BxResolve32Base" "i_dst i \<noteq> BX_NIL_REGISTER"
  shows "runs g (\<lambda>_. True) (MOV32_GdEdM i) (\<lambda>v. kv_set (i_dst i) (kv_load (kv_ea i v) v) v)"
proof (rule runsI)
  fix s assume k: "kernel g s"
  obtain t where t: "read_virtual_dword (i_seg i) (kv_ea i (view s)) s = (Inr (read32 (mem s) (kv_ea i (view s))), t)"
      "kernel g t" "view t = view s"
    using kernel_read[OF k assms(1)] by blast
  then have "MOV32_GdEdM i s = (Inr (), set_reg32 (i_dst i) (kv_load (kv_ea i (view s)) (view s)) t)"
    by (simp add: MOV32_GdEdM_def exec_simps resolve_view[OF assms(2)] kv_load_def exec_bind)
  then show "\<exists>s'. MOV32_GdEdM i s = (Inr (), s') \<and> kernel g s' \<and> view s' = kv_set (i_dst i) (kv_load (kv_ea i (view s)) (view s)) (view s)"
    using kernel_set_reg[OF t(2) assms(3)] t(3) by simp
qed

lemma run_load_stack:
  assumes "i_resolve i = BxResolve32Base" "i_dst i \<noteq> BX_NIL_REGISTER"
  shows "runs g (\<lambda>_. True) (MOV32S_GdEdM i) (\<lambda>v. kv_set (i_dst i) (kv_load (kv_ea i v) v) v)"
  using run_load[of "i\<lparr>i_seg := SEG_SS\<rparr>" g] assms
  by (simp add: MOV32_GdEdM_def MOV32S_GdEdM_def stack_read_dword_def resolve_seg kv_ea_def)

lemma run_load_abs:
  assumes "i_seg i \<in> {SEG_SS, SEG_DS}"
  shows "runs g (\<lambda>_. True) (MOV_EAXOd i) (\<lambda>v. kv_set R_EAX (kv_load (i_Id i) v) v)"
proof (rule runsI)
  fix s assume k: "kernel g s"
  obtain t where t: "read_virtual_dword (i_seg i) (i_Id i) s = (Inr (read32 (mem s) (i_Id i)), t)" "kernel g t" "view t = view s"
    using kernel_read[OF k assms] by blast
  then have "MOV_EAXOd i s = (Inr (), set_reg32 R_EAX (kv_load (i_Id i) (view s)) t)"
    by (simp add: MOV_EAXOd_def kv_load_def exec_bind exec_simps)
  then show "\<exists>s'. MOV_EAXOd i s = (Inr (), s') \<and> kernel g s' \<and> view s' = kv_set R_EAX (kv_load (i_Id i) (view s)) (view s)"
    using kernel_set_reg[OF t(2), of R_EAX] t(3) by simp
qed

lemma kernel_store:
  assumes "kernel g s" "r \<in> {SEG_SS, SEG_DS}" "safe g a"
  shows "\<exists>s'. write_virtual_dword r a x s = (Inr (), s') \<and> kernel g s' \<and> view s' = kv_store a x (view s)"
  using kernel_write[OF assms] by (simp add: kv_store_def)

lemma run_store:
  assumes "i_seg i \<in> {SEG_SS, SEG_DS}" "i_resolve i = BxResolve32Base"
  shows "runs g (\<lambda>v. safe g (kv_ea i v)) (MOV32_EdGdM i) (\<lambda>v. kv_store (kv_ea i v) (kv_reg v (i_src i)) v)"
proof (rule runsI)
  fix s assume "kernel g s" "safe g (kv_ea i (view s))"
  from kernel_store[OF this(1) assms(1) this(2), of "gen_reg s (i_src i)"]
  show "\<exists>s'. MOV32_EdGdM i s = (Inr (), s') \<and> kernel g s' \<and> view s' = kv_store (kv_ea i (view s)) (kv_reg (view s) (i_src i)) (view s)"
    by (simp add: MOV32_EdGdM_def exec_simps resolve_view[OF assms(2)])
qed

lemma run_store_stack:
  assumes "i_resolve i = BxResolve32Base"
  shows "runs g (\<lambda>v. safe g (kv_ea i v)) (MOV32S_EdGdM i) (\<lambda>v. kv_store (kv_ea i v) (kv_reg v (i_src i)) v)"
  using run_store[of "i\<lparr>i_seg := SEG_SS\<rparr>" g] assms
  by (simp add: MOV32_EdGdM_def MOV32S_EdGdM_def stack_write_dword_def[abs_def] resolve_seg kv_ea_def)

lemma run_store_abs:
  assumes "i_seg i \<in> {SEG_SS, SEG_DS}"
  shows "runs g (\<lambda>_. safe g (i_Id i)) (MOV_OdEAX i) (\<lambda>v. kv_store (i_Id i) (kv_reg v R_EAX) v)"
proof (rule runsI)
  fix s assume "kernel g s" "safe g (i_Id i)"
  from kernel_store[OF this(1) assms this(2), of "gen_reg s R_EAX"]
  show "\<exists>s'. MOV_OdEAX i s = (Inr (), s') \<and> kernel g s' \<and> view s' = kv_store (i_Id i) (kv_reg (view s) R_EAX) (view s)"
    by (simp add: MOV_OdEAX_def exec_simps)
qed

lemma run_move: "i_dst i \<noteq> BX_NIL_REGISTER \<Longrightarrow> runs g (\<lambda>_. True) (MOV_GdEdR i) (\<lambda>v. kv_set (i_dst i) (kv_reg v (i_src i)) v)"
  by (rule runsI) (simp add: MOV_GdEdR_def exec_simps kernel_set_reg)

lemma run_push_reg: "runs g (\<lambda>v. safe g (kv_esp v - 4)) (PUSH_EdR i) (\<lambda>v. kv_push (kv_reg v (i_dst i)) v)"
  using run_push by (simp add: runs_def PUSH_EdR_def exec_simps)

lemma run_push_imm: "runs g (\<lambda>v. safe g (kv_esp v - 4)) (PUSH_Id i) (kv_push (i_Id i))"
  using run_push by (simp add: PUSH_Id_def)

section \<open>Arithmetic\<close>

definition kv_arith :: "arith_flags \<Rightarrow> kview \<Rightarrow> kview" where
  "kv_arith f v = v\<lparr>kv_flags := with_arith f (kv_flags v)\<rparr>"

lemma view_set_flags [simp]: "view (set_flags f s) = kv_arith (flags_of (f (oszapc s))) (view s)"
  by (simp add: view_def kv_arith_def flags_image_eq)

lemma kernel_set_flags: "kernel g s \<Longrightarrow> kernel g (set_flags f s)"
  by (simp add: kernel_def protected_mode_def get_PE_def get_flag_def CPL_def flat_rw_def ss_32_def)

lemma run_add:
  "i_dst i \<noteq> BX_NIL_REGISTER \<Longrightarrow> runs g (\<lambda>_. True) (ADD_EdIdR i)
     (\<lambda>v. kv_arith (add_flags (kv_reg v (i_dst i)) (i_Id i) False) (kv_set (i_dst i) (kv_reg v (i_dst i) + i_Id i) v))"
  by (rule runsI) (simp add: ADD_EdIdR_def Let_def exec_simps kernel_set_reg kernel_set_flags alu_flags)

lemma run_sub:
  "i_dst i \<noteq> BX_NIL_REGISTER \<Longrightarrow> runs g (\<lambda>_. True) (SUB_EdIdR i)
     (\<lambda>v. kv_arith (sub_flags (kv_reg v (i_dst i)) (i_Id i) False) (kv_set (i_dst i) (kv_reg v (i_dst i) - i_Id i) v))"
  by (rule runsI) (simp add: SUB_EdIdR_def Let_def exec_simps kernel_set_reg kernel_set_flags alu_flags)

lemma kernel_compare:
  assumes "kernel g s" "i_seg i \<in> {SEG_SS, SEG_DS}" "i_resolve i = BxResolve32Base"
  shows "\<exists>s'. CMP_EdIdM i s = (Inr (), s') \<and> kernel g s'
     \<and> view s' = kv_arith (sub_flags (kv_load (kv_ea i (view s)) (view s)) (i_Id i) False) (view s)
     \<and> flags_of (oszapc s') = sub_flags (kv_load (kv_ea i (view s)) (view s)) (i_Id i) False"
proof -
  let ?x = "kv_load (kv_ea i (view s)) (view s)"
  obtain t where t: "read_virtual_dword (i_seg i) (kv_ea i (view s)) s = (Inr ?x, t)" "kernel g t" "view t = view s"
    using kernel_read[OF assms(1,2)] unfolding kv_load_def view_fields by blast
  let ?f = "SET_FLAGS_OSZAPC_SUB 32 ?x (i_Id i) (?x - i_Id i)"
  have "CMP_EdIdM i s = (Inr (), set_flags ?f t)"
    using t(1) by (simp add: CMP_EdIdM_def load_Ed_def exec_simps resolve_view[OF assms(3)] exec_bind Let_def)
  then show ?thesis using kernel_set_flags[OF t(2), of ?f] t(3) by (simp add: alu_flags)
qed

section \<open>EFLAGS\<close>

lemma kernel_force: "kernel g s \<Longrightarrow> kernel g (force_flags s) \<and> view (force_flags s) = view s"
proof -
  assume k: "kernel g s"
  have e: "eflags (force_flags s) = flags_image s" by (simp add: flags_image_def)
  have b: "bit (flags_image s) 14 = bit (eflags s) 14" "bit (flags_image s) 17 = bit (eflags s) 17" by (simp_all add: system_bit)
  have f: "gen_reg (force_flags s) = gen_reg s" "mem (force_flags s) = mem s" "EIP (force_flags s) = EIP s" "sregs (force_flags s) = sregs s"
    "cr0 (force_flags s) = cr0 s" "gdtr (force_flags s) = gdtr s" "alignment_check_mask (force_flags s) = alignment_check_mask s"
    by (simp_all add: force_flags_eq)
  show ?thesis using k by (simp add: kernel_def view_def protected_mode_def get_PE_def get_flag_def CPL_def flat_rw_def ss_32_def
        unpaged_def get_PG_def e b f)
qed

lemma kernel_not_v86: "kernel g s \<Longrightarrow> \<not> v8086_mode s"
  by (simp add: kernel_def protected_mode_def v8086_mode_def)

lemma run_pushf: "runs g (\<lambda>v. safe g (kv_esp v - 4)) (PUSHF_Fd i) (\<lambda>v. kv_push (kv_flags v AND 0x00FCFFFF) v)"
proof (rule runsI)
  fix s assume k: "kernel g s" and a: "safe g (kv_esp (view s) - 4)"
  note f = kernel_force[OF k]
  have "PUSHF_Fd i s = push_32 (flags_image s AND 0x00FCFFFF) (force_flags s)"
    using kernel_not_v86[OF k] by (simp add: PUSHF_Fd_def read_eflags_def exec_simps bindM_def seqM_def flags_image_def)
  then show "\<exists>s'. PUSHF_Fd i s = (Inr (), s') \<and> kernel g s' \<and> view s' = kv_push (kv_flags (view s) AND 0x00FCFFFF) (view s)"
    using run_push[of g "flags_image s AND 0x00FCFFFF"] f a unfolding runs_def by auto
qed

end
