(* ===== verification/KernelReturn.thy ===== *)
theory KernelReturn
  imports KernelCode
begin

text \<open>
  Segment loads and interrupt returns of the kernel's code: the GDT that \<open>GDT::init\<close> built gives
  flat segments, selector 0 leaves a register null, and \<open>iret\<close> at privilege 0 takes EIP, CS and EFLAGS
  from the stack.
\<close>

section \<open>Reading the GDT\<close>

lemma byte_wide: "k \<le> 24 \<Longrightarrow> (ucast (push_bit k (ucast (b :: u8) :: u32)) :: 64 word) = push_bit k (ucast b)"
  by (rule bit_word_eqI) (auto simp: bit_simps dest: bit_imp_le_length)

lemma le_word_8: "(le_word [b0, b1, b2, b3, b4, b5, b6, b7] :: 64 word) =
    ucast (ucast b0 OR push_bit 8 (ucast b1) OR push_bit 16 (ucast b2) OR push_bit 24 (ucast b3) :: u32)
    OR push_bit 32 (ucast (ucast b4 OR push_bit 8 (ucast b5) OR push_bit 16 (ucast b6) OR push_bit 24 (ucast b7) :: u32))"
proof -
  have z: "(ucast (ucast (b :: u8) :: u32) :: 64 word) = ucast b" for b using byte_wide[of 0 b] by simp
  show ?thesis by (simp add: unsigned_or_eq byte_wide z push_bit_or or.assoc)
qed

lemma qword_halves:
  "ucast (ucast (x :: u32) OR push_bit 32 (ucast (y :: u32)) :: 64 word) = x"
  "ucast (drop_bit 32 (ucast (x :: u32) OR push_bit 32 (ucast (y :: u32)) :: 64 word)) = y"
  by (rule bit_word_eqI; auto simp: bit_simps dest: bit_imp_le_length)+

lemma le_word_qword:
  "ucast (le_word (read_bytes m a 8) :: 64 word) = read32 m a"
  "ucast (drop_bit 32 (le_word (read_bytes m a 8) :: 64 word)) = read32 m (a + 4)"
  by (simp_all only: read_bytes_def upt_small list.map le_word_8 qword_halves) (simp_all add: read32_def or.assoc add.assoc)

lemma kernel_system_qword:
  assumes "kernel g s"
  shows "\<exists>s'. system_read_qword a s = (Inr (le_word (read_bytes (mem s) a 8)), s') \<and> kernel g s' \<and> view s' = view s"
proof -
  have u: "unpaged s" using assms by (simp add: kernel_def)
  obtain s' where s': "access_read_linear a 8 0 False 0 s = (Inr (read_bytes (mem s) a 8), s')" "mem s' = mem s"
    using read_plain[OF u, of 8 a 0 False 0] by auto
  have run: "system_read_qword a s = (Inr (le_word (read_bytes (mem s) a 8)), s')"
    using s'(1) by (simp add: system_read_qword_def exec_bind exec_simps)
  have "quiet (access_read_linear a 8 0 False 0)" by (rule quiet_linear)
  then have "regs_same s s'" using s'(1) unfolding keeps_def by (metis snd_conv)
  moreover have "gdt_ok g (mem s')" unfolding s'(2) using assms by (simp add: kernel_def)
  ultimately have "kernel g s' \<and> view s' = (view s)\<lparr>kv_mem := mem s'\<rparr>" by (intro regs_same_kernel[OF assms])
  moreover have "(view s)\<lparr>kv_mem := mem s'\<rparr> = view s" unfolding s'(2) by (simp add: view_def)
  ultimately show ?thesis using run by metis
qed

lemma kernel_fetch:
  assumes "kernel g s" "sel = parse_selector v" "v \<in> {8, 16}"
  shows "\<exists>s'. fetch_raw_descriptor sel e s = (Inr (0xFFFF, if v = 8 then 0x00CF9B00 else 0x00CF9300), s')
     \<and> kernel g s' \<and> view s' = view s"
proof -
  have gd: "gdtr s = \<lparr>gs_base = g, gs_limit = 23\<rparr>" "gdt_ok g (mem s)" using assms(1) by (simp_all add: kernel_def)
  obtain s' where s': "system_read_qword (g + ucast v) s = (Inr (le_word (read_bytes (mem s) (g + ucast v) 8)), s')"
      "kernel g s'" "view s' = view s"
    using kernel_system_qword[OF assms(1)] by blast
  have d: "descriptor_at sel s = g + ucast v" "in_table sel s"
    using assms(2,3) gd by (auto simp: descriptor_at_def in_table_def parse_selector_def)
  have r: "read32 (mem s) (g + ucast v) = 0xFFFF" "read32 (mem s) (g + ucast v + 4) = (if v = 8 then 0x00CF9B00 else 0x00CF9300)"
    using assms(3) gd(2) by (auto simp: gdt_ok_def add.assoc)
  have "fetch_raw_descriptor sel e s = (Inr (0xFFFF, if v = 8 then 0x00CF9B00 else 0x00CF9300), s')"
    using s'(1) by (simp only: fetch_raw_descriptor_def d le_word_qword r exec_bind(1)[where m = "system_read_qword (g + ucast v)", OF s'(1)] exec_simps not_True_eq_False if_False)
  then show ?thesis using s'(2,3) by blast
qed

text \<open>The two descriptors, decoded.\<close>

definition flat_descriptor :: "bx_descriptor \<Rightarrow> u8 \<Rightarrow> bx_descriptor" where
  "flat_descriptor d0 t = d0\<lparr>d_valid := 1, d_p := True, d_dpl := 0, d_segment := True, d_type := t, d_base := 0,
     d_limit_scaled := 0xFFFFFFFF, d_g := True, d_d_b := True, d_avl := False\<rparr>"

lemma parse_flat:
  "parse_descriptor 0xFFFF 0x00CF9B00 d0 = flat_descriptor d0 11"
  "parse_descriptor 0xFFFF 0x00CF9300 d0 = flat_descriptor d0 3"
  by (simp_all add: parse_descriptor_def set_ar_byte_def Let_def flat_descriptor_def)

lemma flat_fields [simp]:
  "d_valid (flat_descriptor d0 t) = 1" "d_p (flat_descriptor d0 t)" "d_dpl (flat_descriptor d0 t) = 0"
  "d_segment (flat_descriptor d0 t)" "d_type (flat_descriptor d0 t) = t" "d_base (flat_descriptor d0 t) = 0"
  "d_limit_scaled (flat_descriptor d0 t) = 0xFFFFFFFF" "d_d_b (flat_descriptor d0 t)"
  by (simp_all add: flat_descriptor_def)

lemma touch_accessed: "IS_SEGMENT_ACCESSED (d_type d) \<Longrightarrow> touch_segment sel d = ret d"
  by (rule ext) (simp add: touch_segment_def)

section \<open>Loading DS, ES, FS and GS\<close>

definition kv_seg :: "nat \<Rightarrow> u16 \<Rightarrow> kview \<Rightarrow> kview" where
  "kv_seg r x v = v\<lparr>kv_sel := (kv_sel v)(r := x)\<rparr>"

lemma kernel_set_sreg:
  assumes "kernel g s" "r \<in> {SEG_DS, SEG_ES, SEG_FS, SEG_GS}"
    and "r = SEG_DS \<Longrightarrow> d_valid (seg_cache seg) \<noteq> 0 \<and> d_p (seg_cache seg) \<and> d_type (seg_cache seg) = 3
      \<and> d_base (seg_cache seg) = 0 \<and> d_limit_scaled (seg_cache seg) = 0xFFFFFFFF"
  shows "kernel g (set_sreg r seg s) \<and> view (set_sreg r seg s) = kv_seg r (sel_value (seg_selector seg)) (view s)"
  using assms by (auto simp: kernel_def view_def kv_seg_def set_sreg_def protected_mode_def get_PE_def get_flag_def CPL_def
      flat_rw_def ss_32_def flags_image_eq Let_def)

lemma kernel_load_seg:
  assumes "kernel g s" "r \<in> {SEG_DS, SEG_ES, SEG_FS, SEG_GS}" "x = 16 \<or> x = 0 \<and> r \<noteq> SEG_DS"
  shows "\<exists>s'. load_seg_reg d0 r x s = (Inr (), s') \<and> kernel g s' \<and> view s' = kv_seg r x (view s)"
proof -
  have pm: "protected_mode s" "CPL s = 0" using assms(1) by (simp_all add: kernel_def)
  have ld: "load_seg_reg d0 r x s = load_data_checked r x d0 s" using assms(2) pm by (auto simp: load_seg_reg_def)
  let ?sel = "parse_selector 16"
  have p16: "sel_rpl ?sel = 0" "sel_value ?sel = 16" by (simp_all add: parse_selector_def)
  show ?thesis
  proof (cases "x = 16")
    case True
    obtain t where t: "fetch_raw_descriptor ?sel BX_GP_EXCEPTION s = (Inr (0xFFFF, 0x00CF9300), t)" "kernel g t" "view t = view s"
      using kernel_fetch[OF assms(1) refl, of 16] by auto
    have c: "CPL t = 0" using t(2) by (simp add: kernel_def)
    have "load_data_checked r x d0 s = (Inr (), set_sreg r \<lparr>seg_selector = ?sel, seg_cache = (flat_descriptor d0 3)\<lparr>d_valid := SegValidCache\<rparr>\<rparr> t)"
      using c True by (simp add: load_data_checked_def Let_def exec_bind(1)[where m = "fetch_raw_descriptor ?sel BX_GP_EXCEPTION", OF t(1)]
          parse_flat IS_CODE_SEGMENT_def p16 touch_accessed IS_SEGMENT_ACCESSED_def exec_simps load_cache_def)
    then show ?thesis using ld kernel_set_sreg[OF t(2) assms(2), of "\<lparr>seg_selector = ?sel, seg_cache = (flat_descriptor d0 3)\<lparr>d_valid := SegValidCache\<rparr>\<rparr>"]
        t(3) True p16 by (simp add: SegValidCache_def)
  next
    case False
    then have x: "x = 0" "r \<noteq> SEG_DS" using assms(3) by auto
    have "load_data_checked r x d0 s = (Inr (), set_sreg r (load_null_selector 0 (sregs s r)) s)"
      by (simp add: load_data_checked_def Let_def exec_simps x)
    then show ?thesis using ld kernel_set_sreg[OF assms(1,2), of "load_null_selector 0 (sregs s r)"] x
      by (simp add: load_null_selector_def)
  qed
qed

lemma run_pop_sw:
  assumes "i_dst i \<in> {SEG_DS, SEG_ES, SEG_FS, SEG_GS}"
  shows "runs g (\<lambda>v. ucast (kv_top v) = (16 :: u16) \<or> ucast (kv_top v) = (0 :: u16) \<and> i_dst i \<noteq> SEG_DS) (POP32_Sw d0 i)
    (\<lambda>v. kv_seg (i_dst i) (ucast (kv_top v)) (kv_drop 4 v))"
proof (rule runsI)
  fix s assume k: "kernel g s"
    and x: "ucast (kv_top (view s)) = (16 :: u16) \<or> ucast (kv_top (view s)) = (0 :: u16) \<and> i_dst i \<noteq> SEG_DS"
  obtain t where t: "stack_read_word (gen_reg s R_ESP) s = (Inr (ucast (kv_top (view s))), t)" "kernel g t" "view t = view s"
    using kernel_read_word[OF k, of "gen_reg s R_ESP"] by (auto simp: kv_top_def kv_esp_def)
  obtain u where u: "load_seg_reg d0 (i_dst i) (ucast (kv_top (view s))) t = (Inr (), u)" "kernel g u"
      "view u = kv_seg (i_dst i) (ucast (kv_top (view s))) (view t)"
    using kernel_load_seg[OF t(2) assms x] by blast
  have e: "gen_reg u R_ESP = gen_reg s R_ESP" using arg_cong[OF u(3), of kv_reg] t(3) by (simp add: kv_seg_def)
  have "POP32_Sw d0 i s = (Inr (), set_reg32 R_ESP (gen_reg s R_ESP + 4) u)"
    using kernel_ss_32[OF k] assms t(1) u(1) e by (auto simp: POP32_Sw_def exec_bind exec_simps)
  moreover have "kv_set R_ESP (gen_reg s R_ESP + 4) (view u) = kv_seg (i_dst i) (ucast (kv_top (view s))) (kv_drop 4 (view s))"
    unfolding u(3) t(3) by (simp add: kv_seg_def kv_set_def kv_drop_def kv_esp_def)
  ultimately show "\<exists>s'. POP32_Sw d0 i s = (Inr (), s') \<and> kernel g s'
      \<and> view s' = kv_seg (i_dst i) (ucast (kv_top (view s))) (kv_drop 4 (view s))"
    using kernel_set_reg[OF u(2), of R_ESP "gen_reg s R_ESP + 4"] by simp
qed

section \<open>Interrupt return\<close>

text \<open>At privilege 0 \<open>iret\<close> may change every bit of EFLAGS but VM.\<close>

definition kernel_iret_mask :: u32 where "kernel_iret_mask = 0x3D7FD5"

definition kv_iret :: "kview \<Rightarrow> kview" where
  "kv_iret v = (kv_seg SEG_CS 8 (kv_drop 12 v))\<lparr>kv_eip := kv_word v 0,
     kv_flags := merge_flags (kv_flags v) (kv_word v 8) kernel_iret_mask\<rparr>"

lemma kernel_change_mask: "CPL s = 0 \<Longrightarrow> iret_change_mask s = kernel_iret_mask"
  by (simp add: iret_change_mask_def kernel_iret_mask_def cpl32_def EFlagsOSZAPCMask_def EFlagsTFMask_def EFlagsDFMask_def
      EFlagsNTMask_def EFlagsRFMask_def EFlagsIDMask_def EFlagsACMask_def EFlagsIFMask_def EFlagsVIPMask_def EFlagsVIFMask_def
      EFlagsIOPLMask_def)

lemma bit_merge: "bit (merge_flags w fl cm) k = (if bit cm k \<and> bit EFlagsSupportMask k then bit fl k else bit w k)"
  by (auto simp: merge_flags_def bit_simps dest: bit_imp_le_length)

lemma mask_bits: "bit kernel_iret_mask 14" "\<not> bit kernel_iret_mask 17" "bit EFlagsSupportMask 14" "bit kernel_iret_mask 9"
  "bit EFlagsSupportMask 9" "\<not> bit EFlagsSupportMask 1" "\<not> bit EFlagsSupportMask 3" "\<not> bit EFlagsSupportMask 5" "\<not> bit EFlagsSupportMask 15"
  by (simp_all add: kernel_iret_mask_def EFlagsSupportMask_def bit_numeral_rec)

lemma kernel_event: "kernel g (unmask_event e s) = kernel g s" "view (unmask_event e s) = view s"
  by (simp_all add: kernel_def view_def unmask_event_def Let_def protected_mode_def get_PE_def get_flag_def unpaged_def get_PG_def
      CPL_def flat_rw_def ss_32_def flags_image_eq)

lemma kernel_new_cs:
  assumes "kernel g s" "sel_rpl (seg_selector seg) = 0" "d_limit_scaled (seg_cache seg) = 0xFFFFFFFF"
  shows "kernel g ((handleAlignmentCheck (set_sreg SEG_CS seg s))\<lparr>EIP := e\<rparr>)"
    "view ((handleAlignmentCheck (set_sreg SEG_CS seg s))\<lparr>EIP := e\<rparr>)
      = (kv_seg SEG_CS (sel_value (seg_selector seg)) (view s))\<lparr>kv_eip := e\<rparr>"
  using assms by (auto simp: kernel_def view_def kv_seg_def set_sreg_def handleAlignmentCheck_def protected_mode_def get_PE_def
      get_flag_def CPL_def unpaged_def get_PG_def flat_rw_def ss_32_def flags_image_eq Let_def)

lemma kernel_write_flags:
  assumes "kernel g s" "\<not> bit fl 14"
  shows "kernel g (writeEFlags fl kernel_iret_mask s)"
    "view (writeEFlags fl kernel_iret_mask s) = (view s)\<lparr>kv_flags := merge_flags (flags_image s) fl kernel_iret_mask\<rparr>"
proof -
  let ?w = "merge_flags (flags_image s) fl kernel_iret_mask" and ?s = "force_flags s"
  have k: "kernel g ?s" "view ?s = view s" using kernel_force[OF assms(1)] by simp_all
  have b: "bit (eflags ?s) 17 = bit ?w 17" by (simp add: bit_merge mask_bits flags_image_def)
  have w: "\<not> bit ?w 14" "\<not> bit ?w 17" using assms(2) b k(1) by (simp_all add: bit_merge mask_bits kernel_def protected_mode_def get_flag_def)
  note f = setEFlags_fields(1-9)[OF b]
  have "CPL ?s \<noteq> 3" using k(1) by (simp add: kernel_def)
  note a = setEFlags_fields(10)[OF b this]
  have e: "writeEFlags fl kernel_iret_mask s = setEFlags ?w ?s" by (rule writeEFlags_merge)
  show "kernel g (writeEFlags fl kernel_iret_mask s)" unfolding e using k(1) w
    by (simp add: kernel_def f a protected_mode_def get_PE_def get_flag_def unpaged_def get_PG_def CPL_def flat_rw_def ss_32_def)
  have "view (setEFlags ?w ?s) = (view ?s)\<lparr>kv_flags := ?w\<rparr>" by (simp add: view_def f flags_image_set[OF b])
  then show "view (writeEFlags fl kernel_iret_mask s) = (view s)\<lparr>kv_flags := ?w\<rparr>" unfolding e k(2) .
qed

lemma no_larger: "\<not> (0xFFFFFFFF :: u32) < x"
  using unat_u32_less[of x] by (simp add: word_less_nat_alt)

lemma run_iret:
  assumes "i_os32 i"
  shows "runs g (\<lambda>v. ucast (kv_word v 4) = (8 :: u16) \<and> \<not> bit (kv_word v 8) 17 \<and> \<not> bit (kv_word v 8) 14) (IRET32 ts d0 i) kv_iret"
proof (rule runsI)
  fix s0 assume k0: "kernel g s0"
    and x: "ucast (kv_word (view s0) 4) = (8 :: u16) \<and> \<not> bit (kv_word (view s0) 8) 17 \<and> \<not> bit (kv_word (view s0) 8) 14"
  let ?s = "unmask_event BX_EVENT_NMI s0" and ?e = "gen_reg s0 R_ESP"
  have k: "kernel g ?s" "view ?s = view s0" using k0 by (simp_all add: kernel_event)
  have step: "\<exists>t. stack_read_dword a u = (Inr (read32 (mem s0) a), t) \<and> kernel g t \<and> view t = view s0"
    if "kernel g u" "view u = view s0" for u a
  proof -
    have "mem u = mem s0" using arg_cong[OF that(2), of kv_mem] by simp
    then show ?thesis using kernel_stack_read[OF that(1), of a] that(2) by simp
  qed
  obtain t1 where t1: "stack_read_dword (?e + 8) ?s = (Inr (read32 (mem s0) (?e + 8)), t1)" "kernel g t1" "view t1 = view s0"
    using step[OF k] by blast
  obtain t2 where t2: "stack_read_dword (?e + 4) t1 = (Inr (read32 (mem s0) (?e + 4)), t2)" "kernel g t2" "view t2 = view s0"
    using step[OF t1(2,3)] by blast
  obtain t3 where t3: "stack_read_dword ?e t2 = (Inr (read32 (mem s0) ?e), t3)" "kernel g t3" "view t3 = view s0"
    using step[OF t2(2,3)] by blast
  let ?sel = "parse_selector 8" and ?fl = "read32 (mem s0) (?e + 8)"
  have p8: "sel_rpl ?sel = 0" "sel_value ?sel = 8" by (simp_all add: parse_selector_def)
  have sel: "ucast (read32 (mem s0) (?e + 4)) = (8 :: u16)" and fl: "\<not> bit ?fl 17" "\<not> bit ?fl 14"
    using x by (simp_all add: kv_word_def kv_esp_def)
  have vm: "?fl AND EFlagsVMMask = 0"
  proof (rule bit_word_eqI)
    fix n show "bit (?fl AND EFlagsVMMask) n = bit (0 :: u32) n"
      using fl(1) bit_push_1[of 17 n] by (auto simp: bit_and_iff EFlagsVMMask_def)
  qed
  obtain t4 where t4: "fetch_raw_descriptor ?sel BX_GP_EXCEPTION t3 = (Inr (0xFFFF, 0x00CF9B00), t4)" "kernel g t4" "view t4 = view t3"
    using kernel_fetch[OF t3(2) refl, of 8] by auto
  have c: "CPL t3 = 0" "CPL t4 = 0" using t3(2) t4(2) by (simp_all add: kernel_def)
  let ?seg = "\<lparr>seg_selector = ?sel\<lparr>sel_value := 8, sel_rpl := 0\<rparr>, seg_cache = (flat_descriptor d0 11)\<lparr>d_valid := SegValidCache\<rparr>\<rparr>"
  have far5: "branch_far32 ?sel (flat_descriptor d0 11) (read32 (mem s0) ?e) 0 t4
      = (Inr (), (handleAlignmentCheck (set_sreg SEG_CS ?seg t4))\<lparr>EIP := read32 (mem s0) ?e\<rparr>)"
    by (simp add: branch_far32_def no_larger load_cs_def p8 touch_accessed IS_SEGMENT_ACCESSED_def exec_simps seqM_def bindM_def updM_def ret_def)
  obtain t5 where far: "branch_far32 ?sel (flat_descriptor d0 11) (read32 (mem s0) ?e) 0 t4 = (Inr (), t5)"
      and t5: "kernel g t5" "view t5 = (kv_seg SEG_CS 8 (view s0))\<lparr>kv_eip := read32 (mem s0) ?e\<rparr>"
    using far5 kernel_new_cs[OF t4(2), of ?seg "read32 (mem s0) ?e"] t4(3) t3(3) by simp
  have v5: "gen_reg t5 = gen_reg s0" "flags_image t5 = flags_image s0" "CPL t5 = 0"
    using arg_cong[OF t5(2), of kv_reg] arg_cong[OF t5(2), of kv_flags] t5(1) by (simp_all add: kv_seg_def kernel_def)
  define u where "u = writeEFlags ?fl kernel_iret_mask t5"
  have u: "kernel g u" "view u = (view t5)\<lparr>kv_flags := merge_flags (flags_image t5) ?fl kernel_iret_mask\<rparr>"
    using kernel_write_flags[OF t5(1) fl(2)] by (simp_all add: u_def)
  have ru: "gen_reg u = gen_reg s0" using arg_cong[OF u(2), of kv_reg] v5(1) by simp
  let ?t7 = "set_reg32 R_ESP (?e + 12) u"
  have sp: "add_SP 12 u = ?t7" using kernel_ss_32[OF u(1)] ru by (simp add: add_SP_def)
  have same: "iret_same_level True ?sel (flat_descriptor d0 11) (read32 (mem s0) ?e) ?fl t4 = (Inr (), ?t7)"
    by (simp only: iret_same_level_def if_True p8 exec_bind(3)[where m = "branch_far32 ?sel (flat_descriptor d0 11) (read32 (mem s0) ?e) 0", OF far]
        exec_simps kernel_change_mask[OF v5(3)] u_def[symmetric] sp)
  have chk: "check_cs (flat_descriptor d0 11) 8 0 0 = ret ()"
    by (simp add: check_cs_def Let_def IS_CODE_SEGMENT_def IS_CODE_SEGMENT_CONFORMING_def)
  have nt: "\<not> get_flag 14 ?s" "protected_mode ?s" "stack_pointer ?s = ?e" using k(1) arg_cong[OF k(2), of kv_reg]
    by (simp_all add: kernel_def stack_pointer_def)
  have "iret_protected ts d0 i ?s = (Inr (), ?t7)"
    using sel vm c
    by (simp add: iret_protected_def nt assms Let_def stack_read_def exec_stack_read[OF t1(1)] exec_stack_read[OF t2(1)] exec_stack_read[OF t3(1)]
        exec_bind(1)[where m = "fetch_raw_descriptor ?sel BX_GP_EXCEPTION", OF t4(1)] p8 parse_flat chk exec_simps same)
  then have run: "IRET32 ts d0 i s0 = (Inr (), ?t7)" using nt(2) by (simp add: IRET32_def exec_simps)
  have "view ?t7 = kv_iret (view s0)" unfolding view_set_reg u(2) t5(2) v5
    by (simp add: kv_iret_def kv_seg_def kv_drop_def kv_set_def kv_esp_def kv_word_def)
  moreover have "kernel g ?t7" using kernel_set_reg[OF u(1), of R_ESP] by simp
  ultimately show "\<exists>s'. IRET32 ts d0 i s0 = (Inr (), s') \<and> kernel g s' \<and> view s' = kv_iret (view s0)" using run by blast
qed

end
