(* ===== verification/Threads.thy ===== *)
theory Threads
  imports KernelReturn CtrlXfer
begin

text \<open>
  Kernel threads (P5 and P6, thread.C, threads_low.asm): the construction of a thread control
  block with the stack image of a thread that has just been interrupted, and the context switch as the
  sequence of instructions that \<open>threads_low_switch_to\<close> runs on the emulated CPU. The fetch and
  decoding of the instructions is left out: their handlers run in the order of the assembly file.
  \<open>read32\<close> of a stack address is the C view of it, so the image that the constructor
  builds and the one that the assembly code leaves are the same data, \<open>saved_context\<close>.
\<close>

section \<open>Constructing a thread (thread.C)\<close>

text \<open>The addresses the linker gives to the variables and functions that the code names.\<close>

record symbols =
  sym_current_thread :: u32
  sym_nextFreePid :: u32
  sym_thread_start :: u32
  sym_thread_shutdown :: u32

definition KERNEL_DS :: u32 where "KERNEL_DS = 0x10"
definition KERNEL_CS :: u32 where "KERNEL_CS = 0x08"

text \<open>Offsets of \<open>esp\<close>, \<open>thread_id\<close>, \<open>stack\<close> and \<open>stack_size\<close> in the object; \<open>priority\<close> and \<open>cargo\<close> are
never written.\<close>

definition store_word :: "u32 \<Rightarrow> u32 \<Rightarrow> 'a machine_scheme \<Rightarrow> 'a machine_scheme" where
  "store_word a x s = s\<lparr>mem := write32 (mem s) a x\<rparr>"

definition push :: "u32 \<Rightarrow> u32 \<Rightarrow> 'a machine_scheme \<Rightarrow> 'a machine_scheme" where
  "push this val s = (let s1 = store_word this (read32 (mem s) this - 4) s in store_word (read32 (mem s1) this) val s1)"

primrec push_list :: "u32 \<Rightarrow> u32 list \<Rightarrow> 'a machine_scheme \<Rightarrow> 'a machine_scheme" where
  "push_list this [] s = s"
| "push_list this (x # xs) s = push_list this xs (push this x s)"

text \<open>In the order of the code: argument, return address and function of the thread; EFLAGS, CS and EIP; error code
and number; eax, ecx, edx, ebx, esp, ebp, esi, edi; ds, es, fs and gs.\<close>

definition initial_stack :: "symbols \<Rightarrow> u32 \<Rightarrow> u32 list" where
  "initial_stack sy tfunction =
     [0, sym_thread_shutdown sy, tfunction, 0, KERNEL_CS, sym_thread_start sy, 0, 0, 0, 0, 0, 0, 0, 0, 0, 0,
      KERNEL_DS, KERNEL_DS, 0, 0]"

definition setup_context :: "symbols \<Rightarrow> u32 \<Rightarrow> u32 \<Rightarrow> 'a machine_scheme \<Rightarrow> 'a machine_scheme" where
  "setup_context sy this tfunction s =
     (let s1 = push_list this (initial_stack sy tfunction) s
      in puts (''done'' @ [CHR 0x0A]) (puts [CHR 0x0A] (putui (read32 (mem s1) this) (puts ''esp = '' s1))))"

definition construct_Thread :: "symbols \<Rightarrow> u32 \<Rightarrow> u32 \<Rightarrow> u32 \<Rightarrow> u32 \<Rightarrow> 'a machine_scheme \<Rightarrow> 'a machine_scheme" where
  "construct_Thread sy this tf stack stack_size s =
     (let pid = read32 (mem s) (sym_nextFreePid sy);
          s1 = store_word (this + 4) pid (store_word (sym_nextFreePid sy) (pid + 1) s);
          s2 = store_word this (stack + stack_size) s1;
          s3 = store_word (this + 12) stack_size (store_word (this + 8) stack s2)
      in setup_context sy this tf s3)"

definition ThreadId :: "u32 \<Rightarrow> 'a machine_scheme \<Rightarrow> u32" where
  "ThreadId this s = read32 (mem s) (this + 4)"

definition CurrentThread :: "symbols \<Rightarrow> 'a machine_scheme \<Rightarrow> u32" where
  "CurrentThread sy s = read32 (mem s) (sym_current_thread sy)"

section \<open>The context switch (threads_low.asm)\<close>

definition INTERRUPT_STATE_SIZE :: u32 where "INTERRUPT_STATE_SIZE = 68"

text \<open>Operands: a register, an immediate, \<open>[base + displ]\<close> and an absolute address.\<close>

definition ins_reg :: "nat \<Rightarrow> bxInstruction" where
  "ins_reg r = plain_instruction\<lparr>i_dst := r, i_src := r\<rparr>"

definition ins_imm :: "nat \<Rightarrow> u32 \<Rightarrow> bxInstruction" where
  "ins_imm r x = plain_instruction\<lparr>i_dst := r, i_Id := x\<rparr>"

definition ins_mem :: "nat \<Rightarrow> nat \<Rightarrow> nat \<Rightarrow> u32 \<Rightarrow> bxInstruction" where
  "ins_mem r seg base displ = plain_instruction\<lparr>i_dst := r, i_src := r, i_seg := seg, i_sibBase := base, i_displ := displ\<rparr>"

definition ins_abs :: "u32 \<Rightarrow> u32 \<Rightarrow> bxInstruction" where
  "ins_abs a x = plain_instruction\<lparr>i_seg := SEG_DS, i_sibBase := BX_NIL_REGISTER, i_displ := a, i_Id := x\<rparr>"

definition ins_offset :: "u32 \<Rightarrow> bxInstruction" where
  "ins_offset a = plain_instruction\<lparr>i_seg := SEG_DS, i_Id := a\<rparr>"

primrec run_all :: "unit exec list \<Rightarrow> unit exec" where
  "run_all [] = ret ()"
| "run_all (m # ms) = seqM m (run_all ms)"

definition save_registers :: "unit exec list" where
  "save_registers =
     [PUSHA32 plain_instruction, PUSH32_Sw (ins_reg SEG_DS), PUSH32_Sw (ins_reg SEG_ES), PUSH32_Sw (ins_reg SEG_FS),
      PUSH32_Sw (ins_reg SEG_GS)]"

definition restore_registers :: "bx_descriptor \<Rightarrow> unit exec list" where
  "restore_registers d0 =
     [POP32_Sw d0 (ins_reg SEG_GS), POP32_Sw d0 (ins_reg SEG_FS), POP32_Sw d0 (ins_reg SEG_ES), POP32_Sw d0 (ins_reg SEG_DS),
      POPA32 plain_instruction, ADD_EdIdR (ins_imm R_ESP 8)]"

definition modify_stack :: "unit exec list" where
  "modify_stack =
     [PUSH_EdR (ins_reg R_EAX), MOV32S_GdEdM (ins_mem R_EAX SEG_SS R_ESP 4),
      MOV32S_EdGdM (ins_mem R_EAX SEG_SS R_ESP (- 4)), ADD_EdIdR (ins_imm R_ESP 8), PUSHF_Fd plain_instruction,
      MOV32S_GdEdM (ins_mem R_EAX SEG_SS R_ESP (- 4)), PUSH_Id (ins_imm R_EAX KERNEL_CS), SUB_EdIdR (ins_imm R_ESP 4),
      PUSH_Id (ins_imm R_EAX 0), PUSH_Id (ins_imm R_EAX 0)]"

definition save_thread :: "u32 \<Rightarrow> unit exec list" where
  "save_thread ct = [MOV_EAXOd (ins_offset ct), MOV32_EdGdM (ins_mem R_ESP SEG_DS R_EAX 0)]"

definition load_thread :: "u32 \<Rightarrow> unit exec list" where
  "load_thread ct = [MOV_OdEAX (ins_offset ct), MOV32_GdEdM (ins_mem R_ESP SEG_DS R_EAX 0)]"

definition context_save :: "u32 \<Rightarrow> unit exec list" where
  "context_save ct = modify_stack @ save_registers @ save_thread ct
     @ [MOV32S_GdEdM (ins_mem R_EAX SEG_SS R_ESP INTERRUPT_STATE_SIZE)]"

definition context_load :: "u32 \<Rightarrow> task_switch \<Rightarrow> bx_descriptor \<Rightarrow> unit exec list" where
  "context_load ct ts d0 = load_thread ct @ restore_registers d0 @ [IRET32 ts d0 plain_instruction]"

definition threads_low_switch_to :: "u32 \<Rightarrow> task_switch \<Rightarrow> bx_descriptor \<Rightarrow> unit exec" where
  "threads_low_switch_to ct ts d0 = seqM (CMP_EdIdM (ins_abs ct 0)) (\<lambda>s.
     if getB_ZF (oszapc s) then run_all (MOV32S_GdEdM (ins_mem R_EAX SEG_SS R_ESP 4) # context_load ct ts d0) s
     else run_all (context_save ct @ context_load ct ts d0) s)"

end
