(* ===== verification/ContextSwitch.thy ===== *)
theory ContextSwitch
  imports Threads
begin

text \<open>
  What the context switch does to the \<open>kview\<close> of the CPU: loading a saved context (\<open>kv_resume\<close>) and
  saving the caller's (\<open>kv_saved\<close>), each the composition of its instructions.
\<close>

section \<open>Sequences of instructions\<close>

lemma runs_nil: "runs g (\<lambda>_. True) (run_all []) (\<lambda>v. v)"
  by (rule runsI) (simp add: exec_simps)

lemma runs_cons: "runs g P m f \<Longrightarrow> runs g Q (run_all ms) h \<Longrightarrow> runs g (\<lambda>v. P v \<and> Q (f v)) (run_all (m # ms)) (\<lambda>v. h (f v))"
  by (simp add: runs_seq)

lemma run_all_append: "run_all (ms @ ns) = seqM (run_all ms) (run_all ns)"
proof (induction ms)
  case Nil
  show ?case by (rule ext) (simp add: seqM_def bindM_def ret_def)
next
  case (Cons m ms)
  then show ?case by (auto simp: fun_eq_iff seqM_def bindM_def split: prod.splits sum.splits)
qed

lemma ins_simps [simp]:
  "i_dst (ins_reg r) = r" "i_src (ins_reg r) = r" "i_dst (ins_imm r x) = r" "i_Id (ins_imm r x) = x"
  "i_dst (ins_mem r sg b d) = r" "i_src (ins_mem r sg b d) = r" "i_seg (ins_mem r sg b d) = sg"
  "i_resolve (ins_mem r sg b d) = BxResolve32Base" "kv_ea (ins_mem r sg b d) v = kv_reg v b + d"
  "i_seg (ins_abs a x) = SEG_DS" "i_Id (ins_abs a x) = x" "i_resolve (ins_abs a x) = BxResolve32Base"
  "kv_ea (ins_abs a x) v = kv_reg v BX_NIL_REGISTER + a" "i_seg (ins_offset a) = SEG_DS" "i_Id (ins_offset a) = a"
  "i_os32 plain_instruction"
  by (simp_all add: ins_reg_def ins_imm_def ins_mem_def ins_abs_def ins_offset_def plain_instruction_def kv_ea_def)

section \<open>Loading a context\<close>

text \<open>The 17 dwords of \<open>REGS\<close> at the saved stack pointer (machine.H), read as C does.\<close>

record thread_context =
  c_gs :: u16
  c_fs :: u16
  c_es :: u16
  c_ds :: u16
  c_edi :: u32
  c_esi :: u32
  c_ebp :: u32
  c_ebx :: u32
  c_edx :: u32
  c_ecx :: u32
  c_eax :: u32
  c_eip :: u32
  c_cs :: u16
  c_eflags :: u32

definition saved_context :: "memory \<Rightarrow> u32 \<Rightarrow> thread_context" where
  "saved_context m p =
     \<lparr>c_gs = ucast (read32 m p), c_fs = ucast (read32 m (p + 4)), c_es = ucast (read32 m (p + 8)), c_ds = ucast (read32 m (p + 12)),
      c_edi = read32 m (p + 16), c_esi = read32 m (p + 20), c_ebp = read32 m (p + 24), c_ebx = read32 m (p + 32),
      c_edx = read32 m (p + 36), c_ecx = read32 m (p + 40), c_eax = read32 m (p + 44), c_eip = read32 m (p + 56),
      c_cs = ucast (read32 m (p + 60)), c_eflags = read32 m (p + 64)\<rparr>"

text \<open>A context that can be resumed at privilege 0: kernel selectors, NT and VM clear.\<close>

definition resumable :: "thread_context \<Rightarrow> bool" where
  "resumable c \<longleftrightarrow> c_gs c \<in> {0, 16} \<and> c_fs c \<in> {0, 16} \<and> c_es c \<in> {0, 16} \<and> c_ds c = 16 \<and> c_cs c = 8
     \<and> \<not> bit (c_eflags c) 14 \<and> \<not> bit (c_eflags c) 17"

definition kv_resume :: "thread_context \<Rightarrow> u32 \<Rightarrow> kview \<Rightarrow> kview" where
  "kv_resume c p v = v
     \<lparr>kv_reg := (kv_reg v)(R_EAX := c_eax c, R_ECX := c_ecx c, R_EDX := c_edx c, R_EBX := c_ebx c,
        R_ESP := p + INTERRUPT_STATE_SIZE, R_EBP := c_ebp c, R_ESI := c_esi c, R_EDI := c_edi c),
      kv_eip := c_eip c, kv_flags := merge_flags (kv_flags v) (c_eflags c) kernel_iret_mask,
      kv_sel := (kv_sel v)(SEG_ES := c_es c, SEG_CS := c_cs c, SEG_DS := c_ds c, SEG_FS := c_fs c, SEG_GS := c_gs c)\<rparr>"

lemma merge_arith: "merge_flags (with_arith f w) fl kernel_iret_mask = merge_flags w fl kernel_iret_mask"
proof (rule bit_word_eqI)
  fix n
  have m: "bit kernel_iret_mask k \<and> bit EFlagsSupportMask k" if "k \<in> {0, 2, 4, 6, 7, 11}" for k
    using that by (auto simp: kernel_iret_mask_def EFlagsSupportMask_def bit_numeral_rec)
  show "bit (merge_flags (with_arith f w) fl kernel_iret_mask) n = bit (merge_flags w fl kernel_iret_mask) n"
    using m[of n] by (auto simp: bit_merge bit_with_arith arith_bit_def split: if_splits dest: bit_imp_le_length)
qed

lemmas kv_defs = kv_set_def kv_esp_def kv_drop_def kv_top_def kv_seg_def kv_word_def kv_popa_def kv_arith_def kv_iret_def

lemma run_resume:
  "runs g (\<lambda>v. resumable (saved_context (kv_mem v) (kv_esp v))) (run_all (restore_registers d0 @ [IRET32 ts d0 plain_instruction]))
     (\<lambda>v. kv_resume (saved_context (kv_mem v) (kv_esp v)) (kv_esp v) v)"
proof -
  have seg: "runs g (\<lambda>v. ucast (kv_top v) = (16 :: u16) \<or> ucast (kv_top v) = (0 :: u16) \<and> r \<noteq> SEG_DS) (POP32_Sw d0 (ins_reg r))
      (\<lambda>v. kv_seg r (ucast (kv_top v)) (kv_drop 4 v))" if "r \<in> {SEG_DS, SEG_ES, SEG_FS, SEG_GS}" for r
    using run_pop_sw[of "ins_reg r" g d0] that by simp
  have add: "runs g (\<lambda>_. True) (ADD_EdIdR (ins_imm R_ESP 8))
      (\<lambda>v. kv_arith (add_flags (kv_reg v R_ESP) 8 False) (kv_set R_ESP (kv_reg v R_ESP + 8) v))"
    using run_add[of "ins_imm R_ESP 8" g] by simp
  note all = runs_cons[OF seg[of SEG_GS] runs_cons[OF seg[of SEG_FS] runs_cons[OF seg[of SEG_ES] runs_cons[OF seg[of SEG_DS]
    runs_cons[OF run_popa[of g plain_instruction] runs_cons[OF add runs_cons[OF run_iret[of plain_instruction g ts d0] runs_nil]]]]]]]
  show ?thesis unfolding restore_registers_def append.simps
    by (rule runs_weaken[OF all]) (auto simp: kv_defs resumable_def saved_context_def kv_resume_def merge_arith
        INTERRUPT_STATE_SIZE_def add.assoc fun_upd_twist fun_eq_iff)
qed

section \<open>Saving the caller\<close>

definition kv_modify_stack :: "kview \<Rightarrow> kview" where
  "kv_modify_stack v =
     (let e = kv_esp v; r = read32 (write32 (kv_mem v) (e - 4) (kv_reg v R_EAX)) e;
          m1 = write32 (write32 (write32 (kv_mem v) (e - 4) (kv_reg v R_EAX)) (e - 8) r) e
            (with_arith (add_flags (e - 4) 8 False) (kv_flags v) AND 0x00FCFFFF);
          m2 = write32 (write32 (write32 m1 (e - 4) KERNEL_CS) (e - 12) 0) (e - 16) 0
      in v\<lparr>kv_reg := (kv_reg v)(R_ESP := e - 16, R_EAX := read32 m1 (e - 4)), kv_mem := m2,
           kv_flags := with_arith (sub_flags (e - 4) 4 False) (kv_flags v)\<rparr>)"

lemma run_modify_stack:
  "runs g (\<lambda>v. safe g (kv_esp v) \<and> safe g (kv_esp v - 4) \<and> safe g (kv_esp v - 8) \<and> safe g (kv_esp v - 12) \<and> safe g (kv_esp v - 16))
     (run_all modify_stack) kv_modify_stack"
proof -
  have i: "runs g (\<lambda>_. True) (MOV32S_GdEdM (ins_mem R_EAX SEG_SS R_ESP d)) (\<lambda>v. kv_set R_EAX (kv_load (kv_reg v R_ESP + d) v) v)" for d
    using run_load_stack[of "ins_mem R_EAX SEG_SS R_ESP d" g] by simp
  have st: "runs g (\<lambda>v. safe g (kv_reg v R_ESP - 4)) (MOV32S_EdGdM (ins_mem R_EAX SEG_SS R_ESP (- 4)))
      (\<lambda>v. kv_store (kv_reg v R_ESP - 4) (kv_reg v R_EAX) v)"
    using run_store_stack[of "ins_mem R_EAX SEG_SS R_ESP (- 4)" g] by simp
  have ad: "runs g (\<lambda>_. True) (ADD_EdIdR (ins_imm R_ESP 8))
      (\<lambda>v. kv_arith (add_flags (kv_reg v R_ESP) 8 False) (kv_set R_ESP (kv_reg v R_ESP + 8) v))"
    using run_add[of "ins_imm R_ESP 8" g] by simp
  have sb: "runs g (\<lambda>_. True) (SUB_EdIdR (ins_imm R_ESP 4))
      (\<lambda>v. kv_arith (sub_flags (kv_reg v R_ESP) 4 False) (kv_set R_ESP (kv_reg v R_ESP - 4) v))"
    using run_sub[of "ins_imm R_ESP 4" g] by simp
  have pu: "runs g (\<lambda>v. safe g (kv_esp v - 4)) (PUSH_Id (ins_imm R_EAX x)) (kv_push x)" for x
    using run_push_imm[of g "ins_imm R_EAX x"] by simp
  have pr: "runs g (\<lambda>v. safe g (kv_esp v - 4)) (PUSH_EdR (ins_reg R_EAX)) (\<lambda>v. kv_push (kv_reg v R_EAX) v)"
    using run_push_reg[of g "ins_reg R_EAX"] by simp
  note all = runs_cons[OF pr runs_cons[OF i runs_cons[OF st runs_cons[OF ad runs_cons[OF run_pushf runs_cons[OF i
    runs_cons[OF pu runs_cons[OF sb runs_cons[OF pu runs_cons[OF pu runs_nil]]]]]]]]]]
  show ?thesis unfolding modify_stack_def
    by (rule runs_weaken[OF all]) (simp_all add: kv_defs kv_push_def kv_load_def kv_store_def kv_modify_stack_def Let_def fun_upd_twist)
qed

definition kv_save_registers :: "kview \<Rightarrow> kview" where
  "kv_save_registers v =
     (let e = kv_esp v; m = write_down (kv_mem v) e 4 (pusha_list v);
          put = (\<lambda>m a r. write32 m a (low_half (read32 m a) (kv_sel v r)))
      in v\<lparr>kv_reg := (kv_reg v)(R_ESP := e - 48),
           kv_mem := put (put (put (put m (e - 36) SEG_DS) (e - 40) SEG_ES) (e - 44) SEG_FS) (e - 48) SEG_GS\<rparr>)"

lemma safe_down_seq: "safe_down g e 4 12 \<Longrightarrow> safe_down g e 4 8 \<and> safe g (e - 36) \<and> safe g (e - 40) \<and> safe g (e - 44) \<and> safe g (e - 48)"
  using safe_down_append[of g e 4 8 4] by (simp add: numeral_eq_Suc)

lemma run_save_registers: "runs g (\<lambda>v. safe_down g (kv_esp v) 4 12) (run_all save_registers) kv_save_registers"
proof -
  have sw: "runs g (\<lambda>v. safe g (kv_esp v - 4)) (PUSH32_Sw (ins_reg r))
      (\<lambda>v. kv_push (low_half (read32 (kv_mem v) (kv_esp v - 4)) (kv_sel v r)) v)" for r
    using run_push_sw[of g "ins_reg r"] by simp
  note all = runs_cons[OF run_pusha[of g plain_instruction] runs_cons[OF sw[of SEG_DS] runs_cons[OF sw[of SEG_ES]
    runs_cons[OF sw[of SEG_FS] runs_cons[OF sw[of SEG_GS] runs_nil]]]]]
  show ?thesis unfolding save_registers_def
    by (rule runs_weaken[OF all])
      (auto dest!: safe_down_seq simp: kv_save_registers_def kv_push_list_def kv_push_def kv_defs Let_def)
qed

text \<open>The whole of it: the 17 dwords below the parameter are the caller's context, its address is in
the current thread's control block, and EAX is the parameter.\<close>

definition kv_save_thread :: "u32 \<Rightarrow> kview \<Rightarrow> kview" where
  "kv_save_thread ct v =
     (let m = write32 (kv_mem v) (read32 (kv_mem v) ct) (kv_esp v)
      in v\<lparr>kv_reg := (kv_reg v)(R_EAX := read32 m (kv_esp v + INTERRUPT_STATE_SIZE)), kv_mem := m\<rparr>)"

definition kv_context_save :: "u32 \<Rightarrow> kview \<Rightarrow> kview" where
  "kv_context_save ct v = kv_save_thread ct (kv_save_registers (kv_modify_stack v))"

lemma run_save_thread:
  "runs g (\<lambda>v. safe g (read32 (kv_mem v) ct)) (run_all (save_thread ct @ [MOV32S_GdEdM (ins_mem R_EAX SEG_SS R_ESP INTERRUPT_STATE_SIZE)]))
     (kv_save_thread ct)"
proof -
  have a: "runs g (\<lambda>_. True) (MOV_EAXOd (ins_offset ct)) (\<lambda>v. kv_set R_EAX (kv_load ct v) v)"
    using run_load_abs[of "ins_offset ct" g] by simp
  have b: "runs g (\<lambda>v. safe g (kv_reg v R_EAX)) (MOV32_EdGdM (ins_mem R_ESP SEG_DS R_EAX 0))
      (\<lambda>v. kv_store (kv_reg v R_EAX) (kv_reg v R_ESP) v)"
    using run_store[of "ins_mem R_ESP SEG_DS R_EAX 0" g] by simp
  have c: "runs g (\<lambda>_. True) (MOV32S_GdEdM (ins_mem R_EAX SEG_SS R_ESP d)) (\<lambda>v. kv_set R_EAX (kv_load (kv_reg v R_ESP + d) v) v)" for d
    using run_load_stack[of "ins_mem R_EAX SEG_SS R_ESP d" g] by simp
  show ?thesis unfolding save_thread_def append.simps
    by (rule runs_weaken[OF runs_cons[OF a runs_cons[OF b runs_cons[OF c runs_nil]]]])
      (simp_all add: kv_save_thread_def kv_load_def kv_store_def kv_defs Let_def)
qed

text \<open>The stack words the switch writes or reads: the parameter at \<open>e + 4\<close> down to \<open>e - 64\<close>.\<close>

definition in_frame :: "u32 \<Rightarrow> u32 \<Rightarrow> bool" where
  "in_frame e a \<longleftrightarrow> e + 4 - a \<le> 68"

lemma not_in_frame:
  assumes "\<not> in_frame e a" "d \<le> 68"
  shows "e + 4 - d \<noteq> a"
  using assms by (auto simp: in_frame_def)

lemmas frame_apart = not_in_frame[of _ _ 0, simplified] not_in_frame[of _ _ 4, simplified] not_in_frame[of _ _ 8, simplified]
  not_in_frame[of _ _ 12, simplified] not_in_frame[of _ _ 16, simplified] not_in_frame[of _ _ 20, simplified]
  not_in_frame[of _ _ 24, simplified] not_in_frame[of _ _ 28, simplified] not_in_frame[of _ _ 32, simplified]
  not_in_frame[of _ _ 36, simplified] not_in_frame[of _ _ 40, simplified] not_in_frame[of _ _ 44, simplified]
  not_in_frame[of _ _ 48, simplified] not_in_frame[of _ _ 52, simplified] not_in_frame[of _ _ 56, simplified]
  not_in_frame[of _ _ 60, simplified] not_in_frame[of _ _ 64, simplified] not_in_frame[of _ _ 68, simplified]

definition switch_ok :: "u32 \<Rightarrow> u32 \<Rightarrow> kview \<Rightarrow> bool" where
  "switch_ok g ct v \<longleftrightarrow> (let e = kv_esp v; a = read32 (kv_mem v) ct in
     safe_down g (e + 4) 4 17 \<and> safe g ct \<and> safe g a \<and> \<not> in_frame e ct \<and> \<not> in_frame e a \<and> a \<noteq> ct)"

text \<open>What the caller resumes with: it returns to its return address, the parameter on top of its stack.\<close>

definition caller_context :: "kview \<Rightarrow> thread_context" where
  "caller_context v =
     \<lparr>c_gs = kv_sel v SEG_GS, c_fs = kv_sel v SEG_FS, c_es = kv_sel v SEG_ES, c_ds = kv_sel v SEG_DS,
      c_edi = kv_reg v R_EDI, c_esi = kv_reg v R_ESI, c_ebp = kv_reg v R_EBP, c_ebx = kv_reg v R_EBX,
      c_edx = kv_reg v R_EDX, c_ecx = kv_reg v R_ECX, c_eax = kv_reg v R_EAX, c_eip = kv_top v, c_cs = 8,
      c_eflags = with_arith (add_flags (kv_esp v - 4) 8 False) (kv_flags v) AND 0x00FCFFFF\<rparr>"

lemma frame_aligned: "switch_ok g ct v \<Longrightarrow> aligned4 (kv_esp v) \<and> aligned4 ct \<and> aligned4 (read32 (kv_mem v) ct)"
  by (simp add: switch_ok_def Let_def safe_def numeral_eq_Suc)

text \<open>The memory written, word by word; the upper halves of the pushed selectors stay what they were.\<close>

definition frame_memory :: "kview \<Rightarrow> u32 \<Rightarrow> u32 \<Rightarrow> u32 \<Rightarrow> u32 \<Rightarrow> u32 \<Rightarrow> memory" where
  "frame_memory v h w1 w2 w3 w4 =
     (let e = kv_esp v;
          m1 = write32 (write32 (write32 (kv_mem v) (e - 4) (kv_reg v R_EAX)) (e - 8) (kv_top v)) e (c_eflags (caller_context v));
          m2 = write_down (write32 (write32 (write32 m1 (e - 4) KERNEL_CS) (e - 12) 0) (e - 16) 0) (e - 16) 4
            [kv_reg v R_EAX, kv_reg v R_ECX, kv_reg v R_EDX, kv_reg v R_EBX, h, kv_reg v R_EBP, kv_reg v R_ESI, kv_reg v R_EDI]
      in write32 (write32 (write32 (write32 m2 (e - 52) (low_half w1 (kv_sel v SEG_DS))) (e - 56) (low_half w2 (kv_sel v SEG_ES)))
        (e - 60) (low_half w3 (kv_sel v SEG_FS))) (e - 64) (low_half w4 (kv_sel v SEG_GS)))"

lemma frame_memory_read:
  assumes "aligned4 (kv_esp v)"
  shows "saved_context (frame_memory v h w1 w2 w3 w4) (kv_esp v - 64) = caller_context v"
    "read32 (frame_memory v h w1 w2 w3 w4) (kv_esp v + 4) = read32 (kv_mem v) (kv_esp v + 4)"
    "aligned4 b \<Longrightarrow> \<not> in_frame (kv_esp v) b \<Longrightarrow> read32 (frame_memory v h w1 w2 w3 w4) b = read32 (kv_mem v) b"
proof -
  let ?e = "kv_esp v"
  note rw = frame_memory_def Let_def read32_write32 aligned4_offset assms low_half_read diff_diff_eq
  have r: "read32 (frame_memory v h w1 w2 w3 w4) (?e - 64) = low_half w4 (kv_sel v SEG_GS)"
    "read32 (frame_memory v h w1 w2 w3 w4) (?e - 60) = low_half w3 (kv_sel v SEG_FS)"
    "read32 (frame_memory v h w1 w2 w3 w4) (?e - 56) = low_half w2 (kv_sel v SEG_ES)"
    "read32 (frame_memory v h w1 w2 w3 w4) (?e - 52) = low_half w1 (kv_sel v SEG_DS)"
    "read32 (frame_memory v h w1 w2 w3 w4) (?e - 48) = kv_reg v R_EDI" "read32 (frame_memory v h w1 w2 w3 w4) (?e - 44) = kv_reg v R_ESI"
    "read32 (frame_memory v h w1 w2 w3 w4) (?e - 40) = kv_reg v R_EBP" "read32 (frame_memory v h w1 w2 w3 w4) (?e - 32) = kv_reg v R_EBX"
    "read32 (frame_memory v h w1 w2 w3 w4) (?e - 28) = kv_reg v R_EDX" "read32 (frame_memory v h w1 w2 w3 w4) (?e - 24) = kv_reg v R_ECX"
    "read32 (frame_memory v h w1 w2 w3 w4) (?e - 20) = kv_reg v R_EAX" "read32 (frame_memory v h w1 w2 w3 w4) (?e - 8) = kv_top v"
    "read32 (frame_memory v h w1 w2 w3 w4) (?e - 4) = 8" "read32 (frame_memory v h w1 w2 w3 w4) ?e = c_eflags (caller_context v)"
    by (simp_all add: rw KERNEL_CS_def)
  show "saved_context (frame_memory v h w1 w2 w3 w4) (?e - 64) = caller_context v"
    by (simp add: saved_context_def r low_half_read) (simp add: caller_context_def)
  show "read32 (frame_memory v h w1 w2 w3 w4) (?e + 4) = read32 (kv_mem v) (?e + 4)" by (simp add: rw)
  show "read32 (frame_memory v h w1 w2 w3 w4) b = read32 (kv_mem v) b" if "aligned4 b" "\<not> in_frame ?e b"
    using frame_apart[OF that(2)] that(1) by (simp add: rw)
qed

lemma stack_image:
  assumes "aligned4 (kv_esp v)"
  shows "\<exists>h w1 w2 w3 w4. kv_mem (kv_save_registers (kv_modify_stack v)) = frame_memory v h w1 w2 w3 w4"
    "kv_esp (kv_save_registers (kv_modify_stack v)) = kv_esp v - 64"
proof -
  have al: "aligned4 (kv_reg v R_ESP)" using assms by (simp add: kv_esp_def)
  have r: "read32 (write32 (kv_mem v) (kv_esp v - 4) x) (kv_esp v) = kv_top v"
    "read32 (write32 (write32 (write32 (kv_mem v) (kv_esp v - 4) x) (kv_esp v - 8) y) (kv_esp v) z) (kv_esp v - 4) = x" for x y z
    using assms by (simp_all add: kv_top_def read32_write32 aligned4_offset)
  have sel: "kv_sel (kv_modify_stack v) = kv_sel v" by (simp add: kv_modify_stack_def Let_def)
  have m: "kv_esp (kv_modify_stack v) = kv_esp v - 16"
    "pusha_list (kv_modify_stack v) = [kv_reg v R_EAX, kv_reg v R_ECX, kv_reg v R_EDX, kv_reg v R_EBX, kv_esp v - 16, kv_reg v R_EBP,
       kv_reg v R_ESI, kv_reg v R_EDI]"
    by (simp_all add: kv_modify_stack_def Let_def pusha_list_def r) (simp_all add: kv_esp_def)
  have put: "\<exists>w. write32 m a (low_half (read32 m a) x) = write32 m' a (low_half w x)" if "m = m'" for m m' a x using that by blast
  show "kv_esp (kv_save_registers (kv_modify_stack v)) = kv_esp v - 64" using m(1)
    by (simp add: kv_save_registers_def Let_def) (simp add: kv_esp_def)
  show "\<exists>h w1 w2 w3 w4. kv_mem (kv_save_registers (kv_modify_stack v)) = frame_memory v h w1 w2 w3 w4"
    unfolding kv_save_registers_def Let_def m sel frame_memory_def caller_context_def
    by (simp add: kv_modify_stack_def Let_def r diff_diff_eq) blast
qed

text \<open>From the configuration, with room for the frame, the caller is saved.\<close>

lemma context_saved:
  assumes "switch_ok g ct v"
  defines "w \<equiv> kv_context_save ct v" and "e \<equiv> kv_esp v" and "a \<equiv> read32 (kv_mem v) ct"
  shows "saved_context (kv_mem w) (e - 64) = caller_context v" "read32 (kv_mem w) a = e - 64"
    "aligned4 b \<Longrightarrow> \<not> in_frame e b \<Longrightarrow> b \<noteq> a \<Longrightarrow> read32 (kv_mem w) b = read32 (kv_mem v) b"
    "kv_reg w R_EAX = read32 (kv_mem v) (e + 4)"
proof -
  note al = frame_aligned[OF assms(1)]
  let ?u = "kv_save_registers (kv_modify_stack v)"
  obtain h w1 w2 w3 w4 where u: "kv_mem ?u = frame_memory v h w1 w2 w3 w4" "kv_esp ?u = e - 64"
    using stack_image[of v] al unfolding e_def by blast
  note fr = frame_memory_read[where v = v and h = h and ?w1.0 = w1 and ?w2.0 = w2 and ?w3.0 = w3 and ?w4.0 = w4, folded e_def, folded u(1)]
  have out: "\<not> in_frame e ct" "\<not> in_frame e a" using assms(1) by (simp_all add: switch_ok_def Let_def a_def e_def)
  have aa: "aligned4 e" "aligned4 ct" "aligned4 a" using al by (simp_all add: e_def a_def)
  have ct: "read32 (kv_mem ?u) ct = a" using fr(3)[OF aa(1) aa(2) out(1)] by (simp add: a_def)
  have w: "kv_mem w = write32 (kv_mem ?u) a (e - 64)" "kv_reg w R_EAX = read32 (kv_mem w) (e - 64 + INTERRUPT_STATE_SIZE)"
    by (simp_all add: w_def kv_context_save_def kv_save_thread_def Let_def u(2) ct)
  have keep: "read32 (kv_mem w) b = read32 (kv_mem ?u) b" if "aligned4 b" "a \<noteq> b" for b
    unfolding w(1) by (rule read32_write32_other) (use aa that in auto)
  have "a \<noteq> e + 4 - d" if "d \<le> 68" for d using not_in_frame[OF out(2) that] by blast
  then have ne: "a \<noteq> e - 64" "a \<noteq> e - 64 + 4" "a \<noteq> e - 64 + 8" "a \<noteq> e - 64 + 12" "a \<noteq> e - 64 + 16" "a \<noteq> e - 64 + 20" "a \<noteq> e - 64 + 24"
    "a \<noteq> e - 64 + 32" "a \<noteq> e - 64 + 36" "a \<noteq> e - 64 + 40" "a \<noteq> e - 64 + 44" "a \<noteq> e - 64 + 56" "a \<noteq> e - 64 + 60"
    "a \<noteq> e - 64 + 64" "a \<noteq> e - 64 + 68"
    using frame_apart[OF out(2)] by auto
  show "saved_context (kv_mem w) (e - 64) = caller_context v" unfolding fr(1)[OF aa(1), symmetric] saved_context_def
    using aa(1) ne by (simp add: keep aligned4_offset)
  show "read32 (kv_mem w) a = e - 64" unfolding w(1) by (simp add: read32_write32_same)
  show "read32 (kv_mem w) b = read32 (kv_mem v) b" if "aligned4 b" "\<not> in_frame e b" "b \<noteq> a"
    using keep[of b] fr(3)[OF aa(1) that(1,2)] that by auto
  have p: "e - 64 + INTERRUPT_STATE_SIZE = e + 4" by (simp add: INTERRUPT_STATE_SIZE_def)
  have q: "aligned4 (e + 4)" "a \<noteq> e + 4" using ne(15) aa(1) by (simp_all add: aligned4_offset add.commute)
  show "kv_reg w R_EAX = read32 (kv_mem v) (e + 4)" unfolding w(2) p keep[OF q] by (rule fr(2)[OF aa(1)])
qed

text \<open>The instructions of the save, composed.\<close>

lemma run_context_save: "runs g (switch_ok g ct) (run_all (context_save ct)) (kv_context_save ct)"
proof -
  let ?tail = "run_all (save_thread ct @ [MOV32S_GdEdM (ins_mem R_EAX SEG_SS R_ESP INTERRUPT_STATE_SIZE)])"
  have e: "run_all (context_save ct) = seqM (run_all modify_stack) (seqM (run_all save_registers) ?tail)"
    by (simp only: context_save_def run_all_append append_assoc)
  note all = runs_seq[OF run_modify_stack runs_seq[OF run_save_registers run_save_thread[of g ct]]]
  show ?thesis unfolding e
  proof (rule runs_weaken[OF all])
    fix v assume ok: "switch_ok g ct v"
    let ?e = "kv_esp v"
    have s: "safe_down g (?e + 4) 4 5" "safe_down g (?e + 4) 24 12"
      using ok safe_down_append[of g "?e + 4" 4 5 12] by (simp_all add: switch_ok_def Let_def)
    have e20: "kv_esp (kv_modify_stack v) = ?e + 4 - 20" by (simp add: kv_modify_stack_def Let_def kv_esp_def)
    have s2: "safe_down g (kv_esp (kv_modify_stack v)) 4 12" unfolding e20 safe_down_shift using s(2) by (simp add: add.commute)
    obtain h w1 w2 w3 w4 where u: "kv_mem (kv_save_registers (kv_modify_stack v)) = frame_memory v h w1 w2 w3 w4"
      using stack_image(1)[of v] frame_aligned[OF ok] by blast
    have "read32 (kv_mem (kv_save_registers (kv_modify_stack v))) ct = read32 (kv_mem v) ct"
      unfolding u by (rule frame_memory_read(3)) (use frame_aligned[OF ok] ok in \<open>simp_all add: switch_ok_def Let_def\<close>)
    with s s2 ok show "((safe g ?e \<and> safe g (?e - 4) \<and> safe g (?e - 8) \<and> safe g (?e - 12) \<and> safe g (?e - 16))
       \<and> safe_down g (kv_esp (kv_modify_stack v)) 4 12 \<and> safe g (read32 (kv_mem (kv_save_registers (kv_modify_stack v))) ct))"
      by (simp add: numeral_eq_Suc switch_ok_def Let_def diff_diff_eq)
  qed (simp add: kv_context_save_def)
qed

lemma run_context_load:
  "runs g (\<lambda>v. safe g ct \<and> (let m = write32 (kv_mem v) ct (kv_reg v R_EAX) in resumable (saved_context m (read32 m (kv_reg v R_EAX)))))
     (run_all (context_load ct ts d0))
     (\<lambda>v. let m = write32 (kv_mem v) ct (kv_reg v R_EAX); p = read32 m (kv_reg v R_EAX)
        in kv_resume (saved_context m p) p (v\<lparr>kv_mem := m\<rparr>))"
proof -
  have a: "runs g (\<lambda>_. safe g ct) (MOV_OdEAX (ins_offset ct)) (\<lambda>v. kv_store ct (kv_reg v R_EAX) v)"
    using run_store_abs[of "ins_offset ct" g] by simp
  have b: "runs g (\<lambda>_. True) (MOV32_GdEdM (ins_mem R_ESP SEG_DS R_EAX 0)) (\<lambda>v. kv_set R_ESP (kv_load (kv_reg v R_EAX) v) v)"
    using run_load[of "ins_mem R_ESP SEG_DS R_EAX 0" g] by simp
  note all = runs_cons[OF a runs_cons[OF b run_resume]]
  show ?thesis unfolding context_load_def load_thread_def append.simps
    by (rule runs_weaken[OF all]) (simp_all add: kv_store_def kv_load_def kv_set_def kv_esp_def kv_resume_def Let_def fun_upd_twist fun_eq_iff)
qed

section \<open>The switch\<close>

lemma saved_context_cong:
  assumes "\<And>k. k < 17 \<Longrightarrow> read32 m (p + 4 * of_nat k) = read32 m' (p + 4 * of_nat k)"
  shows "saved_context m p = saved_context m' p"
  using assms[of 0] assms[of 1] assms[of 2] assms[of 3] assms[of 4] assms[of 5] assms[of 6] assms[of 8] assms[of 9] assms[of 10]
    assms[of 11] assms[of 14] assms[of 15] assms[of 16]
  by (simp add: saved_context_def)

text \<open>\<open>frame_clear X p\<close>: the frame at \<open>p\<close> has no word in \<open>X\<close>.\<close>

definition frame_clear :: "(u32 \<Rightarrow> bool) \<Rightarrow> u32 \<Rightarrow> bool" where
  "frame_clear X p \<longleftrightarrow> aligned4 p \<and> (\<forall>k<17. \<not> X (p + 4 * of_nat k))"

lemma aligned4_word: "aligned4 p \<Longrightarrow> aligned4 (p + 4 * of_nat k)"
  by (rule aligned4_add) (auto simp: aligned4_multiple)

lemma saved_frame_clear: "aligned4 (e - 64) \<Longrightarrow> \<not> in_frame e ct \<Longrightarrow> frame_clear (\<lambda>b. b = ct) (e - 64)"
proof -
  assume al: "aligned4 (e - 64)" and ct: "\<not> in_frame e ct"
  have "e - 64 + 4 * of_nat k \<noteq> ct" if "k < 17" for k
  proof
    assume a: "e - 64 + 4 * of_nat k = ct"
    have "(4 * of_nat (17 - k) :: u32) = 68 - 4 * of_nat k" using that by (simp add: of_nat_diff right_diff_distrib)
    then have d: "e + 4 - ct = 4 * of_nat (17 - k)" by (simp flip: a)
    have "(4 * of_nat (17 - k) :: u32) = of_nat (4 * (17 - k))" by simp
    moreover have "of_nat (4 * (17 - k)) \<le> (68 :: u32)"
    proof -
      have "unat (of_nat (4 * (17 - k)) :: u32) = 4 * (17 - k)" by (rule unat_of_nat_u32) simp
      then show ?thesis by (simp only: word_le_nat_alt) simp
    qed
    ultimately show False using ct unfolding in_frame_def d by simp
  qed
  then show ?thesis using al by (simp add: frame_clear_def)
qed

lemma resume_after_save:
  "kv_resume c p ((kv_context_save ct (kv_arith f v))\<lparr>kv_mem := m\<rparr>) = (kv_resume c p v)\<lparr>kv_mem := m\<rparr>"
  by (simp add: kv_resume_def kv_context_save_def kv_save_thread_def kv_save_registers_def kv_modify_stack_def Let_def kv_arith_def
      merge_arith fun_upd_twist fun_eq_iff)

lemma resume_after_load:
  "kv_resume c p ((kv_set R_EAX x (kv_arith f v))\<lparr>kv_mem := m\<rparr>) = (kv_resume c p v)\<lparr>kv_mem := m\<rparr>"
  by (simp add: kv_resume_def kv_set_def kv_arith_def merge_arith fun_upd_twist fun_eq_iff)

lemma switch_ok_arith [simp]: "switch_ok g ct (kv_arith f v) = switch_ok g ct v" "caller_context (kv_arith f v) = caller_context v"
  "kv_mem (kv_arith f v) = kv_mem v" "kv_esp (kv_arith f v) = kv_esp v" "kv_reg (kv_arith f v) = kv_reg v"
  by (simp_all add: switch_ok_def caller_context_def kv_arith_def kv_esp_def kv_top_def)

text \<open>What the switch leaves in memory.\<close>

definition switched :: "u32 \<Rightarrow> u32 \<Rightarrow> kview \<Rightarrow> memory \<Rightarrow> bool" where
  "switched ct b v m \<longleftrightarrow> (let e = kv_esp v; a = read32 (kv_mem v) ct in
     read32 m ct = b \<and> read32 m a = e - 64 \<and> saved_context m (e - 64) = caller_context v
     \<and> (\<forall>x. aligned4 x \<longrightarrow> \<not> in_frame e x \<longrightarrow> x \<noteq> a \<longrightarrow> x \<noteq> ct \<longrightarrow> read32 m x = read32 (kv_mem v) x))"

lemma memory_switched:
  assumes ok: "switch_ok g ct v"
  defines "w \<equiv> kv_context_save ct v" and "b \<equiv> read32 (kv_mem v) (kv_esp v + 4)"
  shows "switched ct b v (write32 (kv_mem w) ct b)"
proof -
  note al = frame_aligned[OF ok]
  note sv = context_saved[OF ok, folded w_def]
  let ?e = "kv_esp v" and ?a = "read32 (kv_mem v) ct" and ?m = "write32 (kv_mem w) ct b"
  have out: "\<not> in_frame ?e ct" "?a \<noteq> ct" using ok by (simp_all add: switch_ok_def Let_def)
  have "frame_clear (\<lambda>b. b = ct) (?e - 64)" by (rule saved_frame_clear) (use al out in \<open>simp_all add: aligned4_offset\<close>)
  then have "saved_context ?m (?e - 64) = saved_context (kv_mem w) (?e - 64)"
    by (intro saved_context_cong read32_write32_other) (auto simp: frame_clear_def aligned4_word al)
  then show ?thesis using sv(1) sv(2) al out sv(3)
    by (auto simp: switched_def Let_def read32_write32_same read32_write32_other)
qed

text \<open>The comparison of \<open>current_thread\<close> with 0 decides which of the two paths is taken.\<close>

lemma compare_current:
  assumes "kernel g s"
  shows "\<exists>s' f. CMP_EdIdM (ins_abs ct 0) s = (Inr (), s') \<and> kernel g s' \<and> view s' = kv_arith f (view s)
    \<and> (getB_ZF (oszapc s') \<longleftrightarrow> read32 (mem s) ct = 0)"
proof -
  have nil: "kv_ea (ins_abs ct 0) (view s) = ct" using assms by (simp add: kernel_def)
  obtain s' where s': "CMP_EdIdM (ins_abs ct 0) s = (Inr (), s')" "kernel g s'"
      "view s' = kv_arith (sub_flags (kv_load ct (view s)) 0 False) (view s)" "flags_of (oszapc s') = sub_flags (kv_load ct (view s)) 0 False"
    using kernel_compare[OF assms, of "ins_abs ct 0", unfolded nil] by auto
  have "getB_ZF (oszapc s') = ZF (flags_of (oszapc s'))" by (simp add: flags_of_def)
  also have "\<dots> = (read32 (mem s) ct = 0)" unfolding s'(4) by (simp add: sub_flags_def Let_def kv_load_def)
  finally show ?thesis using s'(1-3) by blast
qed

lemma switch_first:
  assumes "kernel g s" "read32 (mem s) ct = 0" "safe g ct"
  defines "m \<equiv> write32 (mem s) ct (read32 (mem s) (gen_reg s R_ESP + 4))"
    and "b \<equiv> read32 (mem s) (gen_reg s R_ESP + 4)"
  assumes "resumable (saved_context m (read32 m b))"
  shows "\<exists>s'. threads_low_switch_to ct ts d0 s = (Inr (), s') \<and> kernel g s'
    \<and> view s' = (kv_resume (saved_context m (read32 m b)) (read32 m b) (view s))\<lparr>kv_mem := m\<rparr>"
proof -
  obtain s1 f where s1: "CMP_EdIdM (ins_abs ct 0) s = (Inr (), s1)" "kernel g s1" "view s1 = kv_arith f (view s)" "getB_ZF (oszapc s1)"
    using compare_current[OF assms(1), of ct] assms(2) by auto
  have ld: "runs g (\<lambda>_. True) (MOV32S_GdEdM (ins_mem R_EAX SEG_SS R_ESP 4)) (\<lambda>v. kv_set R_EAX (kv_load (kv_reg v R_ESP + 4) v) v)"
    using run_load_stack[of "ins_mem R_EAX SEG_SS R_ESP 4" g] by simp
  note all = runs_cons[OF ld run_context_load[of g ct ts d0]]
  let ?w = "kv_set R_EAX b (kv_arith f (view s))"
  have w: "kv_set R_EAX (kv_load (kv_reg (view s1) R_ESP + 4) (view s1)) (view s1) = ?w"
    unfolding s1(3) by (simp add: kv_load_def b_def)
  have mw: "write32 (kv_mem ?w) ct b = m" "kv_reg ?w R_EAX = b" by (simp_all add: m_def b_def kv_set_def)
  have "\<exists>s'. run_all (MOV32S_GdEdM (ins_mem R_EAX SEG_SS R_ESP 4) # context_load ct ts d0) s1 = (Inr (), s') \<and> kernel g s'
    \<and> view s' = kv_resume (saved_context m (read32 m b)) (read32 m b) (?w\<lparr>kv_mem := m\<rparr>)"
    using all[unfolded runs_def, rule_format, OF s1(2), unfolded w Let_def mw] assms(3,6) by blast
  then have "\<exists>s'. run_all (MOV32S_GdEdM (ins_mem R_EAX SEG_SS R_ESP 4) # context_load ct ts d0) s1 = (Inr (), s') \<and> kernel g s'
    \<and> view s' = (kv_resume (saved_context m (read32 m b)) (read32 m b) (view s))\<lparr>kv_mem := m\<rparr>"
    unfolding resume_after_load .
  then show ?thesis using s1 by (simp add: threads_low_switch_to_def exec_bind)
qed

lemma switch_general:
  assumes "kernel g s" "read32 (mem s) ct \<noteq> 0" "switch_ok g ct (view s)"
  defines "b \<equiv> read32 (mem s) (gen_reg s R_ESP + 4)"
  assumes m: "m = write32 (kv_mem (kv_context_save ct (view s))) ct b" and p: "p = read32 m b" and c: "c = saved_context m p"
    and r: "resumable c"
  shows "\<exists>s'. threads_low_switch_to ct ts d0 s = (Inr (), s') \<and> kernel g s' \<and> view s' = (kv_resume c p (view s))\<lparr>kv_mem := m\<rparr>"
proof -
  obtain s1 f where s1: "CMP_EdIdM (ins_abs ct 0) s = (Inr (), s1)" "kernel g s1" "view s1 = kv_arith f (view s)" "\<not> getB_ZF (oszapc s1)"
    using compare_current[OF assms(1), of ct] assms(2) by auto
  let ?w = "kv_context_save ct (kv_arith f (view s))"
  have mw: "kv_mem ?w = kv_mem (kv_context_save ct (view s))"
    by (simp add: kv_context_save_def kv_save_thread_def kv_save_registers_def kv_modify_stack_def Let_def kv_arith_def kv_esp_def pusha_list_def)
  have bw: "kv_reg ?w R_EAX = b" using context_saved(4)[of g ct "kv_arith f (view s)"] assms(3) by (simp add: b_def kv_esp_def)
  note all = runs_seq[OF run_context_save[of g ct] run_context_load[of g ct ts d0]]
  have ok: "switch_ok g ct (view s1)" "safe g ct" using assms(3) by (simp_all add: s1(3)) (simp add: switch_ok_def Let_def)
  have "\<exists>s'. run_all (context_save ct @ context_load ct ts d0) s1 = (Inr (), s') \<and> kernel g s'
      \<and> view s' = kv_resume c p (?w\<lparr>kv_mem := m\<rparr>)"
    unfolding run_all_append using all[unfolded runs_def, rule_format, OF s1(2)] ok r
    by (simp add: s1(3) mw bw m[symmetric] p[symmetric] c[symmetric] Let_def)
  then show ?thesis using s1 unfolding resume_after_save by (simp add: threads_low_switch_to_def exec_bind)
qed

end
