(* ===== verification/ThreadProperties.thy ===== *)
theory ThreadProperties
  imports ContextSwitch
begin

text \<open>
  Threads as the kernels P5 and P6 use them: a thread that has just been constructed starts its
  function and ends in \<open>thread_shutdown\<close>, a thread that switches away resumes after its call with its registers,
  and a thread that switches to itself just returns.
\<close>

section \<open>Construction\<close>

lemma push_reads:
  assumes "aligned4 this" "aligned4 (read32 (mem s) this)" "this \<noteq> read32 (mem s) this - 4"
  defines "e \<equiv> read32 (mem s) this - 4"
  shows "read32 (mem (push this x s)) this = e" "read32 (mem (push this x s)) e = x"
    "aligned4 b \<Longrightarrow> b \<noteq> this \<Longrightarrow> b \<noteq> e \<Longrightarrow> read32 (mem (push this x s)) b = read32 (mem s) b"
proof -
  have e: "aligned4 e" "this \<noteq> e" using assms by (simp_all add: e_def aligned4_offset)
  have m: "mem (push this x s) = write32 (write32 (mem s) this e) e x"
    by (simp add: push_def store_word_def Let_def e_def read32_write32_same)
  show "read32 (mem (push this x s)) this = e" "read32 (mem (push this x s)) e = x"
    "aligned4 b \<Longrightarrow> b \<noteq> this \<Longrightarrow> b \<noteq> e \<Longrightarrow> read32 (mem (push this x s)) b = read32 (mem s) b"
    unfolding m using e assms(1) by (simp_all add: read32_write32)
qed

lemma word_offset_ne: "j \<noteq> k \<Longrightarrow> j < 2 ^ 30 \<Longrightarrow> k < 2 ^ 30 \<Longrightarrow> (e :: u32) - 4 * of_nat j \<noteq> e - 4 * of_nat k"
proof
  assume jk: "j \<noteq> k" "j < 2 ^ 30" "k < 2 ^ 30" and "e - 4 * of_nat j = e - 4 * of_nat k"
  then have "(of_nat (4 * j) :: u32) = of_nat (4 * k)" by simp
  then show False using jk of_nat_u32_eq_iff[of "4 * j" "4 * k"] by simp
qed

text \<open>Pushing leaves the values below the old stack pointer, the first one highest.\<close>

lemma push_list_reads:
  assumes "aligned4 this" "aligned4 (read32 (mem s) this)" "length xs < 2 ^ 30"
    and "\<And>k. k \<in> {1..length xs} \<Longrightarrow> this \<noteq> read32 (mem s) this - 4 * of_nat k"
  defines "e \<equiv> read32 (mem s) this"
  shows "read32 (mem (push_list this xs s)) this = e - 4 * of_nat (length xs)
    \<and> (\<forall>k < length xs. read32 (mem (push_list this xs s)) (e - 4 * of_nat (Suc k)) = xs ! k)
    \<and> (\<forall>b. aligned4 b \<longrightarrow> b \<noteq> this \<longrightarrow> (\<forall>k \<in> {1..length xs}. b \<noteq> e - 4 * of_nat k)
        \<longrightarrow> read32 (mem (push_list this xs s)) b = read32 (mem s) b)"
  unfolding e_def using assms(2-4)
proof (induction xs arbitrary: s)
  case (Cons x xs)
  let ?e = "read32 (mem s) this" and ?s = "push this x s"
  have ne: "this \<noteq> ?e - 4" using Cons.prems(3)[of 1] by simp
  note p = push_reads[OF assms(1) Cons.prems(1) ne]
  have sh: "?e - 4 - 4 * of_nat k = ?e - 4 * of_nat (Suc k)" for k by (simp add: algebra_simps)
  have "aligned4 (read32 (mem ?s) this)" unfolding p(1) using Cons.prems(1) by (simp add: aligned4_offset)
  moreover have "this \<noteq> read32 (mem ?s) this - 4 * of_nat k" if "k \<in> {1..length xs}" for k
    unfolding p(1) sh using Cons.prems(3)[of "Suc k"] that by simp
  ultimately have IH: "read32 (mem (push_list this xs ?s)) this = ?e - 4 * of_nat (Suc (length xs))"
    "\<forall>k < length xs. read32 (mem (push_list this xs ?s)) (?e - 4 * of_nat (Suc (Suc k))) = xs ! k"
    "\<forall>b. aligned4 b \<longrightarrow> b \<noteq> this \<longrightarrow> (\<forall>k \<in> {1..length xs}. b \<noteq> ?e - 4 * of_nat (Suc k))
        \<longrightarrow> read32 (mem (push_list this xs ?s)) b = read32 (mem ?s) b"
    using Cons.IH[of ?s] Cons.prems(2) unfolding p(1) sh by simp_all
  have "read32 (mem (push_list this xs ?s)) (?e - 4) = x"
  proof -
    have "aligned4 (?e - 4)" using Cons.prems(1) by (simp add: aligned4_offset)
    moreover have "?e - 4 \<noteq> ?e - 4 * of_nat (Suc k)" if "k \<in> {1..length xs}" for k
      using word_offset_ne[of 1 "Suc k" ?e] that Cons.prems(2) by simp
    ultimately show ?thesis using IH(3) p(2) ne by metis
  qed
  then have nth: "read32 (mem (push_list this (x # xs) s)) (?e - 4 * of_nat (Suc k)) = (x # xs) ! k" if "k < length (x # xs)" for k
    using IH(2) that by (cases k) simp_all
  have other: "read32 (mem (push_list this (x # xs) s)) b = read32 (mem s) b"
    if "aligned4 b" "b \<noteq> this" "\<forall>k \<in> {1..length (x # xs)}. b \<noteq> ?e - 4 * of_nat k" for b
  proof -
    have "b \<noteq> ?e - 4" using that(3)[rule_format, of 1] by simp
    moreover have "\<forall>k \<in> {1..length xs}. b \<noteq> ?e - 4 * of_nat (Suc k)"
    proof
      fix k assume "k \<in> {1..length xs}"
      then show "b \<noteq> ?e - 4 * of_nat (Suc k)" using that(3)[rule_format, of "Suc k"] by simp
    qed
    ultimately show ?thesis using IH(3) p(3) that(1,2) by simp
  qed
  show ?case using IH(1) nth other by simp
qed simp

text \<open>The object, the counter of thread ids and the 20 dwords below the top of the stack are apart.\<close>

definition thread_room :: "symbols \<Rightarrow> u32 \<Rightarrow> u32 \<Rightarrow> bool" where
  "thread_room sy this hi \<longleftrightarrow> aligned4 this \<and> aligned4 hi \<and> aligned4 (sym_nextFreePid sy)
     \<and> sym_nextFreePid sy \<notin> {this, this + 4, this + 8, this + 12}
     \<and> (\<forall>k \<in> {1..20}. hi - 4 * of_nat k \<notin> {this, this + 4, sym_nextFreePid sy})"

definition fresh_context :: "symbols \<Rightarrow> thread_context" where
  "fresh_context sy =
     \<lparr>c_gs = 0, c_fs = 0, c_es = 16, c_ds = 16, c_edi = 0, c_esi = 0, c_ebp = 0, c_ebx = 0, c_edx = 0, c_ecx = 0, c_eax = 0,
      c_eip = sym_thread_start sy, c_cs = 8, c_eflags = 0\<rparr>"

text \<open>\<open>thread_ready\<close>: the frame of a fresh context at the saved stack pointer \<open>p\<close>, and above it what the
returns of \<open>thread_start\<close>, of the thread function and of \<open>thread_shutdown\<close> find.\<close>

definition thread_ready :: "symbols \<Rightarrow> memory \<Rightarrow> u32 \<Rightarrow> u32 \<Rightarrow> u32 \<Rightarrow> bool" where
  "thread_ready sy m this p tf \<longleftrightarrow> read32 m this = p \<and> saved_context m p = fresh_context sy
     \<and> read32 m (p + 68) = tf \<and> read32 m (p + 72) = sym_thread_shutdown sy \<and> read32 m (p + 76) = 0"

lemma stack_words:
  assumes "\<forall>k < 20. read32 m (e - 4 * of_nat (Suc k)) = initial_stack sy tf ! k"
  shows "saved_context m (e - 80) = fresh_context sy" "read32 m (e - 80 + 68) = tf" "read32 m (e - 80 + 72) = sym_thread_shutdown sy"
    "read32 m (e - 80 + 76) = 0"
proof -
  have w: "read32 m (e - 80 + d) = initial_stack sy tf ! k" if "k < 20" "4 * of_nat (Suc k) + d = 80" for k d
  proof -
    have "d = 80 - 4 * of_nat (Suc k)" using that(2) by (simp only: eq_diff_eq add.commute)
    then have "e - 80 + d = e - 4 * of_nat (Suc k)" by (simp only:) simp
    then show ?thesis using assms that(1) by (simp only:)
  qed
  show "read32 m (e - 80 + 68) = tf" "read32 m (e - 80 + 72) = sym_thread_shutdown sy" "read32 m (e - 80 + 76) = 0"
    using w[of 2 68] w[of 1 72] w[of 0 76] by (simp_all add: initial_stack_def)
  show "saved_context m (e - 80) = fresh_context sy"
    using w[of 19 0] w[of 18 4] w[of 17 8] w[of 16 12] w[of 15 16] w[of 14 20] w[of 13 24] w[of 11 32] w[of 10 36] w[of 9 40] w[of 8 44]
      w[of 5 56] w[of 4 60] w[of 3 64]
    by (simp add: saved_context_def fresh_context_def initial_stack_def KERNEL_DS_def KERNEL_CS_def)
qed

lemma setup_memory: "mem (setup_context sy this tf s) = mem (push_list this (initial_stack sy tf) s)"
  by (simp add: setup_context_def Let_def)

lemma initial_stack_length [simp]: "length (initial_stack sy tf) = 20"
  by (simp add: initial_stack_def)

text \<open>C20: The constructor of Thread leaves a thread that can be switched to: its object holds its stack
pointer, 80 bytes below the top of the stack, its id is the next free one, and the stack holds a complete
interrupted context (kernel selectors, registers and EFLAGS 0, so interrupts off, EIP at thread_start) below the
thread function, thread_shutdown and the argument 0.\<close>

theorem new_thread_is_ready:
  fixes s :: "'a machine_scheme" and tf :: u32
  assumes "thread_room sy this (stack + stack_size)"
  defines "s' \<equiv> construct_Thread sy this tf stack stack_size s"
  shows "thread_ready sy (mem s') this (stack + stack_size - 80) tf \<and> resumable (fresh_context sy)
    \<and> ThreadId this s' = read32 (mem s) (sym_nextFreePid sy)
    \<and> read32 (mem s') (sym_nextFreePid sy) = read32 (mem s) (sym_nextFreePid sy) + 1"
proof -
  let ?top = "stack + stack_size" and ?pid = "sym_nextFreePid sy"
  let ?n = "read32 (mem s) ?pid"
  have al: "aligned4 this" "aligned4 ?top" "aligned4 ?pid" and ne: "?pid \<noteq> this" "?pid \<noteq> this + 4" "?pid \<noteq> this + 8" "?pid \<noteq> this + 12"
    and far: "\<And>k. k \<in> {1..20} \<Longrightarrow> ?top - 4 * of_nat k \<notin> {this, this + 4, ?pid}"
    using assms(1) by (auto simp: thread_room_def)
  define s3 where "s3 = store_word (this + 12) stack_size (store_word (this + 8) stack
    (store_word this ?top (store_word (this + 4) ?n (store_word ?pid (?n + 1) s))))"
  have s': "mem s' = mem (push_list this (initial_stack sy tf) s3)"
    by (simp add: s'_def construct_Thread_def Let_def s3_def setup_memory)
  have r: "read32 (mem s3) this = ?top" "read32 (mem s3) (this + 4) = ?n" "read32 (mem s3) ?pid = ?n + 1"
    using al ne by (simp_all add: s3_def store_word_def read32_write32 aligned4_offset)
  note p = push_list_reads[of this s3 "initial_stack sy tf", unfolded r(1) initial_stack_length]
  have q: "read32 (mem s') this = ?top - 80" "\<forall>k < 20. read32 (mem s') (?top - 4 * of_nat (Suc k)) = initial_stack sy tf ! k"
    "\<And>b. aligned4 b \<Longrightarrow> b \<noteq> this \<Longrightarrow> (\<forall>k \<in> {1..20}. b \<noteq> ?top - 4 * of_nat k) \<Longrightarrow> read32 (mem s') b = read32 (mem s3) b"
    unfolding s' using p al far by auto
  have o: "read32 (mem s') (this + 4) = ?n" "read32 (mem s') ?pid = ?n + 1"
  proof -
    have "\<forall>k \<in> {1..20}. this + 4 \<noteq> ?top - 4 * of_nat k" "\<forall>k \<in> {1..20}. ?pid \<noteq> ?top - 4 * of_nat k" using far by fastforce+
    then show "read32 (mem s') (this + 4) = ?n" "read32 (mem s') ?pid = ?n + 1"
      using q(3)[of "this + 4"] q(3)[of ?pid] al ne r(2,3) by (simp_all add: aligned4_offset)
  qed
  show ?thesis using stack_words[OF q(2)] q(1) o
    by (simp add: thread_ready_def ThreadId_def resumable_def fresh_context_def)
qed

section \<open>Starting a thread\<close>

lemma kernel_speculative:
  "kernel g (s\<lparr>speculative_rsp := b, prev_rsp := x\<rparr>) = kernel g s" "view (s\<lparr>speculative_rsp := b, prev_rsp := x\<rparr>) = view s"
  "kernel g (s\<lparr>speculative_rsp := b\<rparr>) = kernel g s" "view (s\<lparr>speculative_rsp := b\<rparr>) = view s"
  by (simp_all add: kernel_def view_def protected_mode_def get_PE_def get_flag_def unpaged_def get_PG_def CPL_def flat_rw_def
      ss_32_def flags_image_eq)

lemma kernel_eip: "kernel g (s\<lparr>EIP := x\<rparr>) = kernel g s" "view (s\<lparr>EIP := x\<rparr>) = (view s)\<lparr>kv_eip := x\<rparr>"
  by (simp_all add: kernel_def view_def protected_mode_def get_PE_def get_flag_def unpaged_def get_PG_def CPL_def flat_rw_def
      ss_32_def flags_image_eq)

lemma run_ret: "runs g (\<lambda>_. True) (RETnear32 i) (\<lambda>v. (kv_drop 4 v)\<lparr>kv_eip := kv_top v\<rparr>)"
proof (rule runsI)
  fix s assume k: "kernel g s"
  let ?s = "s\<lparr>speculative_rsp := True, prev_rsp := gen_reg s R_ESP\<rparr>"
  have "kernel g ?s" "view ?s = view s" using k by (simp_all add: kernel_speculative)
  then obtain t where t: "pop_32 ?s = (Inr (kv_top (view s)), t)" "kernel g t" "view t = kv_drop 4 (view s)"
    using kernel_pop[of g ?s] by auto
  have "d_limit_scaled (seg_cache (sregs t SEG_CS)) = 0xFFFFFFFF" using t(2) by (simp add: kernel_def)
  then have "RETnear32 i s = (Inr (), (t\<lparr>EIP := kv_top (view s)\<rparr>)\<lparr>speculative_rsp := False\<rparr>)"
    using t(1) by (simp add: RETnear32_def RSP_SPECULATIVE_def RSP_COMMIT_def pop_EIP_def exec_simps exec_bind seqM_def bindM_def updM_def no_larger)
  then show "\<exists>s'. RETnear32 i s = (Inr (), s') \<and> kernel g s' \<and> view s' = (kv_drop 4 (view s))\<lparr>kv_eip := kv_top (view s)\<rparr>"
    using t(2,3) by (simp add: kernel_speculative kernel_eip)
qed

lemma view_IF: "bit (kv_flags (view s)) 9 = get_flag 9 s"
  by (simp add: get_flag_def system_bit)

lemma resume_IF: "bit (kv_flags (kv_resume c p v)) 9 = bit (c_eflags c) 9"
  by (simp add: kv_resume_def bit_merge mask_bits)

text \<open>C17: The first dispatch: when no thread is current, switching to a thread that is ready loads its context,
so the CPU is at thread_start with interrupts disabled and the thread is current; the return of thread_start enters
the thread function, the return of the function enters thread_shutdown, and a return of thread_shutdown, which
happens when the ready queue is empty, jumps to the argument, address 0.\<close>

theorem first_dispatch_runs_thread:
  assumes "kernel g s" "CurrentThread sy s = 0" "safe g (sym_current_thread sy)"
    and "read32 (mem s) (gen_reg s R_ESP + 4) = this" "aligned4 this" "this \<noteq> sym_current_thread sy"
    and "thread_ready sy (mem s) this p tf" "aligned4 p" "\<forall>k<20. p + 4 * of_nat k \<noteq> sym_current_thread sy"
  shows "\<exists>s1 s2 s3 s4. threads_low_switch_to (sym_current_thread sy) ts d0 s = (Inr (), s1)
    \<and> RETnear32 i s1 = (Inr (), s2) \<and> RETnear32 i s2 = (Inr (), s3) \<and> RETnear32 i s3 = (Inr (), s4)
    \<and> EIP s1 = sym_thread_start sy \<and> \<not> get_flag 9 s1 \<and> CurrentThread sy s1 = this
    \<and> EIP s2 = tf \<and> EIP s3 = sym_thread_shutdown sy \<and> EIP s4 = 0"
proof -
  let ?ct = "sym_current_thread sy" and ?c = "fresh_context sy"
  define m where "m = write32 (mem s) ?ct this"
  have keep: "read32 m b = read32 (mem s) b" if "aligned4 b" "b \<noteq> ?ct" for b
    unfolding m_def using assms(3) that by (intro read32_write32_other) (auto simp: safe_def)
  have w: "read32 m (p + 4 * of_nat k) = read32 (mem s) (p + 4 * of_nat k)" if "k < 20" for k
    using keep assms(8,9) that by (simp add: aligned4_word)
  have rd: "read32 m this = p" "saved_context m p = ?c" "read32 m (p + 68) = tf" "read32 m (p + 72) = sym_thread_shutdown sy" "read32 m (p + 76) = 0"
    using assms(5,6,7) keep[of this] w[of 17] w[of 18] w[of 19] saved_context_cong[of m p "mem s"] w by (simp_all add: thread_ready_def)
  have ok: "resumable ?c" by (simp add: resumable_def fresh_context_def)
  obtain s1 where s1: "threads_low_switch_to ?ct ts d0 s = (Inr (), s1)" "kernel g s1" "view s1 = (kv_resume ?c p (view s))\<lparr>kv_mem := m\<rparr>"
    using switch_first[OF assms(1) _ assms(3), of ts d0, unfolded assms(4), folded m_def, unfolded rd(1,2)] ok assms(2)
    unfolding CurrentThread_def by blast
  have ret: "\<exists>t. RETnear32 i u = (Inr (), t) \<and> kernel g t \<and> view t = (kv_drop 4 (view u))\<lparr>kv_eip := kv_top (view u)\<rparr>" if "kernel g u" for u
    using run_ret that unfolding runs_def by blast
  obtain s2 where s2: "RETnear32 i s1 = (Inr (), s2)" "kernel g s2" "view s2 = (kv_drop 4 (view s1))\<lparr>kv_eip := kv_top (view s1)\<rparr>"
    using ret[OF s1(2)] by blast
  obtain s3 where s3: "RETnear32 i s2 = (Inr (), s3)" "kernel g s3" "view s3 = (kv_drop 4 (view s2))\<lparr>kv_eip := kv_top (view s2)\<rparr>"
    using ret[OF s2(2)] by blast
  obtain s4 where s4: "RETnear32 i s3 = (Inr (), s4)" "kernel g s4" "view s4 = (kv_drop 4 (view s3))\<lparr>kv_eip := kv_top (view s3)\<rparr>"
    using ret[OF s3(2)] by blast
  have e1: "kv_esp (view s1) = p + 68" "kv_mem (view s1) = m" unfolding s1(3) by (simp_all add: kv_resume_def kv_esp_def INTERRUPT_STATE_SIZE_def)
  have e2: "kv_esp (view s2) = p + 72" "kv_mem (view s2) = m" unfolding s2(3) using e1 by (simp_all add: kv_drop_def kv_set_def kv_esp_def)
  have e3: "kv_esp (view s3) = p + 76" "kv_mem (view s3) = m" unfolding s3(3) using e2 by (simp_all add: kv_drop_def kv_set_def kv_esp_def)
  have top: "kv_top (view s1) = tf" "kv_top (view s2) = sym_thread_shutdown sy" "kv_top (view s3) = 0"
    unfolding kv_top_def e1 e2 e3 by (fact rd(3-5))+
  have "kv_eip (view s1) = sym_thread_start sy" unfolding s1(3) by (simp add: kv_resume_def fresh_context_def)
  moreover have "kv_eip (view s2) = tf" "kv_eip (view s3) = sym_thread_shutdown sy" "kv_eip (view s4) = 0"
    using arg_cong[OF s2(3), of kv_eip] arg_cong[OF s3(3), of kv_eip] arg_cong[OF s4(3), of kv_eip] top by simp_all
  moreover have "\<not> get_flag 9 s1" unfolding view_IF[symmetric] s1(3) using resume_IF[of ?c p "view s"] by (simp add: fresh_context_def)
  moreover have "CurrentThread sy s1 = this" using e1(2) by (simp add: CurrentThread_def m_def read32_write32_same)
  ultimately show ?thesis using s1(1) s2(1) s3(1) s4(1) by auto
qed

section \<open>Switching between threads\<close>

text \<open>\<open>parked\<close>: thread \<open>b\<close>, saved at \<open>p\<close>, can be switched to: the words of its object and frame are apart
from what the switch writes.\<close>

definition parked :: "u32 \<Rightarrow> kview \<Rightarrow> u32 \<Rightarrow> u32 \<Rightarrow> bool" where
  "parked ct v b p \<longleftrightarrow> (let a = read32 (kv_mem v) ct; X = (\<lambda>x. in_frame (kv_esp v) x \<or> x = a \<or> x = ct) in
     read32 (kv_mem v) b = p \<and> aligned4 b \<and> \<not> X b \<and> frame_clear X p)"

lemma switch_to_parked:
  assumes "kernel g s" "read32 (mem s) ct \<noteq> 0" "switch_ok g ct (view s)" "parked ct (view s) b p"
    and b: "b = read32 (mem s) (gen_reg s R_ESP + 4)" and c: "c = saved_context (mem s) p" and r: "resumable c"
  shows "\<exists>s'. threads_low_switch_to ct ts d0 s = (Inr (), s') \<and> kernel g s'
    \<and> view s' = (kv_resume c p (view s))\<lparr>kv_mem := mem s'\<rparr> \<and> switched ct b (view s) (mem s')"
proof -
  define m where "m = write32 (kv_mem (kv_context_save ct (view s))) ct b"
  have sw: "switched ct b (view s) m" using memory_switched[OF assms(3)] by (simp add: m_def b kv_esp_def)
  let ?X = "\<lambda>x. in_frame (kv_esp (view s)) x \<or> x = read32 (mem s) ct \<or> x = ct"
  have keep: "read32 m x = read32 (mem s) x" if "aligned4 x" "\<not> ?X x" for x
    using sw that by (simp add: switched_def Let_def)
  have pk: "read32 (mem s) b = p" "aligned4 b" "\<not> ?X b" "frame_clear ?X p" using assms(4) by (simp_all add: parked_def Let_def)
  have p: "p = read32 m b" using keep[OF pk(2,3)] pk(1) by simp
  have c': "c = saved_context m p" unfolding c
    by (rule saved_context_cong) (use keep pk(4) in \<open>simp add: frame_clear_def aligned4_word\<close>)
  obtain s' where s': "threads_low_switch_to ct ts d0 s = (Inr (), s')" "kernel g s'" "view s' = (kv_resume c p (view s))\<lparr>kv_mem := m\<rparr>"
    using switch_general[OF assms(1-3) m_def[unfolded b] p[unfolded b] c' r] by blast
  have "mem s' = m" using arg_cong[OF s'(3), of kv_mem] by simp
  with s' sw show ?thesis by auto
qed

text \<open>The caller's own registers as the resumed context has them.\<close>

definition kernel_selectors :: "cpu \<Rightarrow> bool" where
  "kernel_selectors s \<longleftrightarrow> kv_sel (view s) SEG_DS = 16 \<and> kv_sel (view s) SEG_ES \<in> {0, 16} \<and> kv_sel (view s) SEG_FS \<in> {0, 16}
     \<and> kv_sel (view s) SEG_GS \<in> {0, 16}"

lemma caller_flags: "k \<notin> {0, 2, 4, 6, 7, 11} \<Longrightarrow> bit (c_eflags (caller_context (view s))) k \<longleftrightarrow> bit (0x00FCFFFF :: u32) k \<and> bit (eflags s) k"
  by (auto simp: caller_context_def bit_and_iff bit_with_arith arith_bit_def system_bit dest: bit_imp_le_length)

lemma caller_resumable: "kernel g s \<Longrightarrow> kernel_selectors s \<Longrightarrow> resumable (caller_context (view s))"
proof -
  assume k: "kernel g s" and ks: "kernel_selectors s"
  have "\<not> bit (c_eflags (caller_context (view s))) 14" "\<not> bit (c_eflags (caller_context (view s))) 17"
    using k caller_flags[of 14 s] caller_flags[of 17 s] by (simp_all add: kernel_def protected_mode_def get_flag_def)
  then show ?thesis using ks by (simp add: resumable_def kernel_selectors_def) (simp add: caller_context_def)
qed

text \<open>Back at the caller: registers, selectors and interrupt flag as they were, the return address
popped.\<close>

definition returned :: "cpu \<Rightarrow> cpu \<Rightarrow> bool" where
  "returned s s' \<longleftrightarrow> EIP s' = read32 (mem s) (gen_reg s R_ESP)
     \<and> (\<forall>r<8. gen_reg s' r = (if r = R_ESP then gen_reg s R_ESP + 4 else gen_reg s r))
     \<and> (\<forall>r \<in> {SEG_ES, SEG_DS, SEG_FS, SEG_GS}. sel_value (seg_selector (sregs s' r)) = sel_value (seg_selector (sregs s r)))
     \<and> get_flag 9 s' = get_flag 9 s"

lemma resumed_caller:
  assumes "view t' = (kv_resume (caller_context (view s)) (kv_esp (view s) - 64) v)\<lparr>kv_mem := m\<rparr>"
  shows "returned s t'"
proof -
  let ?c = "caller_context (view s)"
  have "get_flag 9 t' = bit (c_eflags ?c) 9" unfolding view_IF[symmetric] assms using resume_IF[of ?c] by simp
  also have "\<dots> = get_flag 9 s" using caller_flags[of 9 s] by (simp add: get_flag_def bit_numeral_rec)
  finally have f: "get_flag 9 t' = get_flag 9 s" .
  have "r = 0 \<or> r = 1 \<or> r = 2 \<or> r = 3 \<or> r = 4 \<or> r = 5 \<or> r = 6 \<or> r = 7" if "r < 8" for r :: nat using that by linarith
  moreover have "gen_reg t' = kv_reg (view t')" "EIP t' = kv_eip (view t')" "sel_value (seg_selector (sregs t' r)) = kv_sel (view t') r" for r
    by simp_all
  ultimately show ?thesis unfolding returned_def assms
    by (auto simp: f kv_resume_def caller_context_def kv_top_def kv_esp_def INTERRUPT_STATE_SIZE_def)
qed

text \<open>C1: Round trip of a context switch: a thread that switches to a parked thread is saved, and when another
thread later switches back to it, its object and saved frame untouched in between, it continues at its
return address with every general register, segment selector and the interrupt flag as they were.\<close>

theorem context_switch_round_trip:
  assumes "kernel g s" "kernel_selectors s" "a = read32 (mem s) ct" "a \<noteq> 0" "switch_ok g ct (view s)"
    and "b = read32 (mem s) (gen_reg s R_ESP + 4)" "parked ct (view s) b q" "resumable (saved_context (mem s) q)"
    and s1: "threads_low_switch_to ct ts d0 s = (Inr (), s1)"
    and "kernel g t" "read32 (mem t) ct \<noteq> 0" "switch_ok g ct (view t)" "read32 (mem t) (gen_reg t R_ESP + 4) = a"
    and "parked ct (view t) a (gen_reg s R_ESP - 64)"
    and "saved_context (mem t) (gen_reg s R_ESP - 64) = saved_context (mem s1) (gen_reg s R_ESP - 64)"
  shows "read32 (mem s1) ct = b \<and> EIP s1 = c_eip (saved_context (mem s) q)
    \<and> (\<exists>t1. threads_low_switch_to ct ts d0 t = (Inr (), t1) \<and> returned s t1 \<and> read32 (mem t1) ct = a)"
proof -
  let ?e = "gen_reg s R_ESP" and ?c = "caller_context (view s)"
  obtain s' where s': "threads_low_switch_to ct ts d0 s = (Inr (), s')"
    "view s' = (kv_resume (saved_context (mem s) q) q (view s))\<lparr>kv_mem := mem s'\<rparr>" "switched ct b (view s) (mem s')"
    using switch_to_parked[OF assms(1) _ assms(5,7,6) refl assms(8), of ts d0] assms(3,4) by auto
  have "s' = s1" using s'(1) s1 by simp
  have ip: "EIP s1 = c_eip (saved_context (mem s) q)"
    using arg_cong[OF s'(2), of kv_eip] \<open>s' = s1\<close> by (simp add: kv_resume_def)
  have sv: "saved_context (mem s1) (?e - 64) = ?c" "read32 (mem s1) ct = b"
    using s'(3) \<open>s' = s1\<close> by (simp_all add: switched_def Let_def kv_esp_def)
  have "resumable ?c" by (rule caller_resumable[OF assms(1,2)])
  then obtain t1 where t1: "threads_low_switch_to ct ts d0 t = (Inr (), t1)" "view t1 = (kv_resume ?c (?e - 64) (view t))\<lparr>kv_mem := mem t1\<rparr>"
      "switched ct a (view t) (mem t1)"
    using switch_to_parked[OF assms(10,11,12,14) assms(13)[symmetric] refl, of ts d0] unfolding assms(15) sv(1) by blast
  have "returned s t1" using resumed_caller[where t' = t1 and s = s and v = "view t" and m = "mem t1"] t1(2) by (simp add: kv_esp_def)
  moreover have "read32 (mem t1) ct = a" using t1(3) by (simp add: switched_def Let_def)
  ultimately show ?thesis using sv(2) ip t1(1) by blast
qed

text \<open>A thread that switches to itself, as pass_on_CPU does when it is the only thread left, returns
from the call with its registers, selectors and interrupt flag unchanged, still the current thread.\<close>

lemma switch_to_self_returns:
  assumes "kernel g s" "kernel_selectors s" "read32 (mem s) ct \<noteq> 0" "switch_ok g ct (view s)"
    and "read32 (mem s) (gen_reg s R_ESP + 4) = read32 (mem s) ct"
  shows "\<exists>s'. threads_low_switch_to ct ts d0 s = (Inr (), s') \<and> kernel g s' \<and> returned s s' \<and> read32 (mem s') ct = read32 (mem s) ct"
proof -
  let ?e = "gen_reg s R_ESP" and ?a = "read32 (mem s) ct" and ?c = "caller_context (view s)"
  define m where "m = write32 (kv_mem (kv_context_save ct (view s))) ct ?a"
  have "switched ct ?a (view s) m" using memory_switched[OF assms(4)] assms(5) by (simp add: m_def kv_esp_def)
  then have m: "read32 m ct = ?a" "read32 m ?a = ?e - 64" "saved_context m (?e - 64) = ?c"
    by (simp_all add: switched_def Let_def kv_esp_def)
  obtain s' where s': "threads_low_switch_to ct ts d0 s = (Inr (), s')" "kernel g s'" "view s' = (kv_resume ?c (?e - 64) (view s))\<lparr>kv_mem := m\<rparr>"
    using switch_general[OF assms(1,3,4), unfolded assms(5), OF m_def refl refl] caller_resumable[OF assms(1,2)]
    unfolding m(2,3) by blast
  have "returned s s'" using resumed_caller[where t' = s' and s = s and v = "view s" and m = m] s'(3) by (simp add: kv_esp_def)
  moreover have "mem s' = m" using arg_cong[OF s'(3), of kv_mem] by simp
  ultimately show ?thesis using s'(1,2) m(1) by auto
qed

section \<open>Two threads\<close>

text \<open>A machine with the kernel's GDT at \<open>0x200\<close>, \<open>current_thread\<close> at \<open>0x300\<close>, the running thread's object at
\<open>0x400\<close> with ESP \<open>0x1000\<close> in a call of the switch, and a second thread at \<open>0x420\<close> whose context is saved at \<open>0x2000\<close>.\<close>

definition word_memory :: "(u32 \<times> u32) list \<Rightarrow> memory" where
  "word_memory ws = foldr (\<lambda>(a, x) m. write32 m a x) ws (\<lambda>_. 0)"

definition kernel_gdt :: "(u32 \<times> u32) list" where
  "kernel_gdt = [(0x208, 0xFFFF), (0x20C, 0x00CF9B00), (0x210, 0xFFFF), (0x214, 0x00CF9300)]"

definition two_threads :: "u32 \<Rightarrow> u32 \<Rightarrow> cpu" where
  "two_threads current param = flat_cpu\<lparr>mem := word_memory (kernel_gdt @ [(0x300, current), (0x304, 7), (0x420, 0x2000), (0x1000, 0x5000),
     (0x1004, param), (0x200C, 0x10), (0x2038, 0x6000), (0x203C, 8), (0x2044, 0x7000), (0x2048, 0x400)])\<rparr>"

lemma zero_memory: "read32 (\<lambda>_. 0) a = 0"
  by (simp add: read32_def)

lemma word_memory_read: "aligned4 b \<Longrightarrow> list_all (\<lambda>(a, x). aligned4 a) ws \<Longrightarrow>
    read32 (word_memory ws) b = (case map_of ws b of None \<Rightarrow> 0 | Some x \<Rightarrow> x)"
  by (induction ws) (auto simp: word_memory_def zero_memory read32_write32)

lemma kernel_demo: "gdt_ok 0x200 m \<Longrightarrow> kernel 0x200 (flat_cpu\<lparr>mem := m\<rparr>)"
  by (simp add: kernel_def flat_cpu_def flat_segment_def protected_mode_def get_PE_def get_flag_def unpaged_def get_PG_def CPL_def
      flat_rw_def ss_32_def bit_numeral_rec)

lemma kernel_two_threads: "kernel 0x200 (two_threads c q)" "kernel_selectors (two_threads c q)"
proof -
  show "kernel 0x200 (two_threads c q)" unfolding two_threads_def
    by (rule kernel_demo) (simp add: gdt_ok_def word_memory_read kernel_gdt_def)
  show "kernel_selectors (two_threads c q)"
    by (simp add: kernel_selectors_def two_threads_def flat_cpu_def flat_segment_def)
qed

lemma two_threads_words:
  "read32 (mem (two_threads c q)) 0x300 = c" "read32 (mem (two_threads c q)) 0x420 = 0x2000" "read32 (mem (two_threads c q)) 0x1000 = 0x5000"
  "read32 (mem (two_threads c q)) 0x1004 = q" "read32 (mem (two_threads c q)) 0x2044 = 0x7000" "read32 (mem (two_threads c q)) 0x2048 = 0x400"
  "saved_context (mem (two_threads c q)) 0x2000 = \<lparr>c_gs = 0, c_fs = 0, c_es = 0, c_ds = 16, c_edi = 0, c_esi = 0, c_ebp = 0, c_ebx = 0,
     c_edx = 0, c_ecx = 0, c_eax = 0, c_eip = 0x6000, c_cs = 8, c_eflags = 0\<rparr>" "gen_reg (two_threads c q) R_ESP = 0x1000"
  by (simp_all add: two_threads_def flat_cpu_def saved_context_def word_memory_read kernel_gdt_def)

lemma all_below_17: "(\<forall>k<17. P k) \<longleftrightarrow> P (0 :: nat) \<and> P 1 \<and> P 2 \<and> P 3 \<and> P 4 \<and> P 5 \<and> P 6 \<and> P 7 \<and> P 8 \<and> P 9 \<and> P 10 \<and> P 11
    \<and> P 12 \<and> P 13 \<and> P 14 \<and> P 15 \<and> P 16"
  by (simp add: numeral_eq_Suc All_less_Suc) blast

lemma safe_down_iff: "safe_down g e off n \<longleftrightarrow> (\<forall>k<n. safe g (e - off - 4 * of_nat k))"
proof (induction n arbitrary: off)
  case (Suc n)
  have "(\<forall>k<Suc n. safe g (e - off - 4 * of_nat k)) \<longleftrightarrow> safe g (e - off) \<and> (\<forall>k<n. safe g (e - off - 4 * of_nat (Suc k)))"
    by (simp add: All_less_Suc2 del: of_nat_Suc)
  then show ?case by (simp add: Suc.IH diff_diff_eq add.assoc)
qed simp

lemma two_threads_esp: "kv_esp (view (two_threads c q)) = 0x1000"
  by (simp add: kv_esp_def two_threads_words)

lemma two_threads_ok: "switch_ok 0x200 0x300 (view (two_threads 0x400 q))" "parked 0x300 (view (two_threads 0x400 0x420)) 0x420 0x2000"
  by (simp_all add: switch_ok_def Let_def two_threads_esp safe_def in_frame_def parked_def frame_clear_def safe_down_iff all_below_17
      two_threads_words)

text \<open>A fresh thread at \<open>0x440\<close> whose stack ends at \<open>0x3000\<close>, and no thread running.\<close>

definition demo_symbols :: symbols where
  "demo_symbols = \<lparr>sym_current_thread = 0x300, sym_nextFreePid = 0x304, sym_thread_start = 0x5000, sym_thread_shutdown = 0x6000\<rparr>"

definition fresh_thread :: cpu where
  "fresh_thread = flat_cpu\<lparr>mem := word_memory (kernel_gdt @ [(0x440, 0x2FB0), (0x1004, 0x440), (0x2FB8, 0x10), (0x2FBC, 0x10),
     (0x2FE8, 0x5000), (0x2FEC, 8), (0x2FF4, 0x7000), (0x2FF8, 0x6000)])\<rparr>"

lemma fresh_thread_words:
  "kernel 0x200 fresh_thread" "CurrentThread demo_symbols fresh_thread = 0" "read32 (mem fresh_thread) (gen_reg fresh_thread R_ESP + 4) = 0x440"
  "thread_ready demo_symbols (mem fresh_thread) 0x440 0x2FB0 0x7000" "safe 0x200 0x300"
proof -
  show "kernel 0x200 fresh_thread" unfolding fresh_thread_def
    by (rule kernel_demo) (simp add: gdt_ok_def word_memory_read kernel_gdt_def)
qed (simp_all add: fresh_thread_def flat_cpu_def CurrentThread_def demo_symbols_def word_memory_read kernel_gdt_def thread_ready_def
    saved_context_def fresh_context_def safe_def)

theorem new_thread_is_ready_witness:
  "thread_ready demo_symbols (mem (construct_Thread demo_symbols 0x440 0x7000 0x2000 0x1000 fresh_thread)) 0x440 0x2FB0 0x7000"
proof -
  have "0x3000 - 4 * of_nat k \<notin> {0x440, 0x444, 0x304 :: u32}" if "k \<in> {1..20}" for k :: nat
  proof -
    have "unat (4 * of_nat k :: u32) = 4 * k" using that unat_of_nat_u32[of "4 * k"] by simp
    then have "unat (0x3000 - 4 * of_nat k :: u32) = 0x3000 - 4 * k" using that by (subst unat_sub) (simp_all add: word_le_nat_alt)
    then have "0x2FB0 \<le> unat (0x3000 - 4 * of_nat k :: u32)" using that by auto
    then show ?thesis by (auto simp: word_unat_eq_iff)
  qed
  then have "thread_room demo_symbols 0x440 (0x2000 + 0x1000)" by (simp add: thread_room_def demo_symbols_def)
  from new_thread_is_ready[OF this, of "0x7000" fresh_thread] show ?thesis by simp
qed

definition no_task_switch :: task_switch where
  "no_task_switch = (\<lambda>_ _ _ _ _ _ _. ret ())"

abbreviation (input) d_DS :: bx_descriptor where "d_DS \<equiv> seg_cache (sregs flat_cpu SEG_DS)"

theorem first_dispatch_runs_thread_witness:
  "\<exists>s1 s2 s3 s4. threads_low_switch_to 0x300 no_task_switch d_DS fresh_thread = (Inr (), s1)
    \<and> RETnear32 plain_instruction s1 = (Inr (), s2) \<and> RETnear32 plain_instruction s2 = (Inr (), s3) \<and> RETnear32 plain_instruction s3 = (Inr (), s4)
    \<and> EIP s1 = 0x5000 \<and> \<not> get_flag 9 s1 \<and> CurrentThread demo_symbols s1 = 0x440 \<and> EIP s2 = 0x7000 \<and> EIP s3 = 0x6000 \<and> EIP s4 = 0"
proof -
  have y: "sym_current_thread demo_symbols = 0x300" "sym_thread_start demo_symbols = 0x5000" "sym_thread_shutdown demo_symbols = 0x6000"
    by (simp_all add: demo_symbols_def)
  have n: "\<forall>k<20. 0x2FB0 + 4 * of_nat k \<noteq> (0x300 :: u32)"
  proof (intro allI impI)
    fix k :: nat assume "k < 20"
    then have "unat (4 * of_nat k :: u32) \<le> 80" using unat_of_nat_u32[of "4 * k"] by simp
    then show "0x2FB0 + 4 * of_nat k \<noteq> (0x300 :: u32)" by (simp add: word_unat_eq_iff unat_word_ariths)
  qed
  show ?thesis
    by (rule first_dispatch_runs_thread[where g = "0x200" and p = "0x2FB0" and sy = demo_symbols, unfolded y])
      (use fresh_thread_words n in simp_all)
qed

lemma switch_to_self_returns_witness:
  "\<exists>s'. threads_low_switch_to 0x300 no_task_switch d_DS (two_threads 0x400 0x400) = (Inr (), s') \<and> returned (two_threads 0x400 0x400) s'
    \<and> read32 (mem s') 0x300 = 0x400"
  using switch_to_self_returns[OF kernel_two_threads(1)[of "0x400" "0x400"] kernel_two_threads(2) _ two_threads_ok(1), where ts = no_task_switch and ?d0.0 = d_DS]
  by (auto simp: two_threads_words)

text \<open>Both ways: the thread at \<open>0x400\<close> switches to the one at \<open>0x420\<close>, which switches back at once.\<close>

theorem context_switch_round_trip_witness:
  "\<exists>s1 t1. threads_low_switch_to 0x300 no_task_switch d_DS (two_threads 0x400 0x420) = (Inr (), s1)
    \<and> EIP s1 = 0x6000 \<and> threads_low_switch_to 0x300 no_task_switch d_DS s1 = (Inr (), t1) \<and> returned (two_threads 0x400 0x420) t1
    \<and> EIP t1 = 0x5000"
proof -
  let ?s = "two_threads 0x400 0x420" and ?c = "saved_context (mem (two_threads 0x400 0x420)) 0x2000"
  have r: "resumable ?c" by (simp add: two_threads_words resumable_def)
  obtain s1 where s1: "threads_low_switch_to 0x300 no_task_switch d_DS ?s = (Inr (), s1)" "kernel 0x200 s1"
    "view s1 = (kv_resume ?c 0x2000 (view ?s))\<lparr>kv_mem := mem s1\<rparr>" "switched 0x300 0x420 (view ?s) (mem s1)"
    using switch_to_parked[OF kernel_two_threads(1)[of "0x400" "0x420"] _ two_threads_ok _ refl r, where ts = no_task_switch and ?d0.0 = d_DS] by (auto simp: two_threads_words)
  have e: "gen_reg s1 R_ESP = 0x2044" "kv_esp (view s1) = 0x2044"
    using arg_cong[OF s1(3), of "\<lambda>v. kv_reg v R_ESP"] by (simp_all add: kv_resume_def INTERRUPT_STATE_SIZE_def kv_esp_def)
  have keep: "read32 (mem s1) b = read32 (mem ?s) b" if "aligned4 b" "\<not> in_frame 0x1000 b" "b \<noteq> 0x400" "b \<noteq> 0x300" for b
    using s1(4) that by (simp add: switched_def Let_def two_threads_esp two_threads_words)
  have w: "read32 (mem s1) 0x300 = 0x420" "read32 (mem s1) 0x400 = 0xFC0" "read32 (mem s1) 0x420 = 0x2000" "read32 (mem s1) 0x2048 = 0x400"
    using s1(4) keep[of "0x420"] keep[of "0x2048"] by (simp_all add: switched_def Let_def two_threads_esp two_threads_words in_frame_def)
  have ok: "switch_ok 0x200 0x300 (view s1)"
    by (simp add: switch_ok_def Let_def e w safe_def in_frame_def safe_down_iff all_below_17)
  have pk: "parked 0x300 (view s1) 0x400 0xFC0"
    by (simp add: parked_def Let_def e w in_frame_def frame_clear_def all_below_17)
  have "read32 (mem s1) 0x300 = 0x420 \<and> EIP s1 = c_eip ?c
    \<and> (\<exists>t1. threads_low_switch_to 0x300 no_task_switch d_DS s1 = (Inr (), t1) \<and> returned ?s t1 \<and> read32 (mem t1) 0x300 = 0x400)"
    by (rule context_switch_round_trip[where g = "0x200" and q = "0x2000"])
      (use kernel_two_threads[of "0x400" "0x420"] two_threads_ok r s1 ok pk in \<open>simp_all add: two_threads_words e w\<close>)
  then show ?thesis using s1(1) by (auto simp: two_threads_words returned_def)
qed

end
