(* ===== verification/Scheduling.thy ===== *)
theory Scheduling
  imports LinkedLists
begin

text \<open>
  The FIFO scheduler of P5 and P6 (scheduler.C), with \<open>pass_on_CPU\<close> of the kernels, \<open>thread_shutdown\<close> of
  thread.C and the waiting loop of \<open>BlockingDisk\<close>. The ready queue is the linked list of linked_list.H; a
  dispatch is recorded as the thread that becomes current (the context switch itself is the subject of the
  theories on threads). The contract of a FIFO queue is a locale, interpreted on the linked list.
\<close>

section \<open>The scheduler\<close>

record scheduler =
  ready :: "linked_list \<times> list_heap"
  current_thread :: u32

definition construct_Scheduler :: "list_heap \<Rightarrow> scheduler" where
  "construct_Scheduler h = \<lparr>ready = (construct_LinkedList, h), current_thread = 0\<rparr>"

text \<open>\<open>dispatch_to\<close> leaves the caller's control flow: it continues in the thread that is now current.
\<open>yield\<close> returns to its caller only when there is nobody to switch to.\<close>

definition dispatch_to :: "u32 \<Rightarrow> scheduler \<Rightarrow> scheduler" where
  "dispatch_to t s = s\<lparr>current_thread := t\<rparr>"

datatype control = Dispatched | Returned

definition yield :: "scheduler \<Rightarrow> control \<times> scheduler" where
  "yield s =
     (let next = list_front (ready s);
          s1 = s\<lparr>ready := pop_front (ready s)\<rparr>
      in if next \<noteq> 0 then (Dispatched, dispatch_to next s1) else (Returned, s1))"

definition resume :: "u32 \<Rightarrow> scheduler \<Rightarrow> scheduler" where
  "resume t s = s\<lparr>ready := push_back t (ready s)\<rparr>"

definition add :: "u32 \<Rightarrow> scheduler \<Rightarrow> scheduler" where
  "add t s = s\<lparr>ready := push_back t (ready s)\<rparr>"

definition terminate :: "u32 \<Rightarrow> scheduler \<Rightarrow> scheduler option" where
  "terminate t s = map_option (\<lambda>q. s\<lparr>ready := q\<rparr>) (remove_value t (ready s))"

definition pass_on_CPU :: "scheduler \<Rightarrow> control \<times> scheduler" where
  "pass_on_CPU s = yield (resume (current_thread s) s)"

definition thread_shutdown :: "scheduler \<Rightarrow> (control \<times> scheduler) option" where
  "thread_shutdown s = map_option yield (terminate (current_thread s) s)"

text \<open>One round of \<open>BlockingDisk::wait_until_ready\<close> with the status that the disk's port gives.\<close>

definition wait_round :: "bool \<Rightarrow> scheduler \<Rightarrow> (control \<times> scheduler) option" where
  "wait_round is_ready s = (if is_ready then None else Some (yield (add (current_thread s) s)))"

section \<open>Running threads\<close>

text \<open>What the current thread can do that involves the scheduler; the thread that is current afterwards
takes the next action. A thread that ends when no other is ready has nowhere to return to.\<close>

datatype action = Pass_On | Disk_Busy | Thread_Ends

definition act :: "action \<Rightarrow> scheduler \<Rightarrow> scheduler option" where
  "act a s =
     (case a of
        Pass_On \<Rightarrow> Some (snd (pass_on_CPU s))
      | Disk_Busy \<Rightarrow> map_option snd (wait_round False s)
      | Thread_Ends \<Rightarrow> Option.bind (thread_shutdown s) (\<lambda>(c, s'). if c = Dispatched then Some s' else None))"

fun run :: "action list \<Rightarrow> scheduler \<Rightarrow> scheduler option" where
  "run [] s = Some s"
| "run (a # as) s = Option.bind (act a s) (run as)"

section \<open>The contract of a FIFO queue\<close>

locale fifo =
  fixes enq :: "'x \<Rightarrow> 'q \<Rightarrow> 'q" and deq :: "'q \<Rightarrow> 'q" and front :: "'q \<Rightarrow> 'x" and none :: 'x
    and items :: "'q \<Rightarrow> 'x list" and inv :: "'q \<Rightarrow> bool" and cap :: "'q \<Rightarrow> nat \<Rightarrow> bool"
  assumes enq: "inv q \<Longrightarrow> cap q (Suc n) \<Longrightarrow> inv (enq x q) \<and> items (enq x q) = items q @ [x] \<and> cap (enq x q) n"
    and deq: "inv q \<Longrightarrow> inv (deq q) \<and> items (deq q) = tl (items q)"
    and deq_cap: "inv q \<Longrightarrow> cap q n \<Longrightarrow> cap (deq q) n"
    and front: "inv q \<Longrightarrow> front q = (if items q = [] then none else hd (items q))"
begin

text \<open>To enqueue and take the front again rotates the sequence.\<close>

lemma requeue:
  assumes "inv q" "cap q (Suc n)"
  shows "inv (deq (enq x q))" "front (enq x q) # items (deq (enq x q)) = items q @ [x]" "cap (deq (enq x q)) n"
proof -
  note e = enq[OF assms, of x]
  show "inv (deq (enq x q))" "cap (deq (enq x q)) n" using e deq deq_cap by auto
  show "front (enq x q) # items (deq (enq x q)) = items q @ [x]" using e deq[of "enq x q"] front[of "enq x q"] by simp
qed

lemma next_item: "inv q \<Longrightarrow> items q = x # xs \<Longrightarrow> front q = x \<and> items (deq q) = xs"
  using front[of q] deq[of q] by simp

end

lemma list_cap: "list_ok q \<Longrightarrow> room q (Suc n) \<Longrightarrow> list_ok (push_back d q) \<and> list_abs (push_back d q) = list_abs q @ [d] \<and> room (push_back d q) n"
  using ok_push_back[of q d] room_push[of q n d] room_mono[of q "Suc n" 1] by simp

interpretation rq: fifo push_back pop_front list_front 0 list_abs list_ok room
  by unfold_locales (simp_all add: list_cap ok_pop_front room_pop ok_front)

section \<open>Invariant and abstraction\<close>

text \<open>All threads that can run, the current one first.\<close>

definition threads :: "scheduler \<Rightarrow> u32 list" where
  "threads s = current_thread s # list_abs (ready s)"

definition sched_ok :: "scheduler \<Rightarrow> bool" where
  "sched_ok s \<longleftrightarrow> list_ok (ready s) \<and> distinct (threads s) \<and> 0 \<notin> set (threads s)"

text \<open>The specification: a thread that gives up the CPU goes to the end of the sequence, one that ends
leaves it.\<close>

fun spec_act :: "action \<Rightarrow> u32 list \<Rightarrow> u32 list" where
  "spec_act Thread_Ends ts = tl ts"
| "spec_act _ ts = rotate1 ts"

lemma pass_on_ok:
  assumes "sched_ok s" "room (ready s) (Suc n)"
  shows "\<exists>s'. pass_on_CPU s = (Dispatched, s') \<and> sched_ok s' \<and> room (ready s') n \<and> threads s' = rotate1 (threads s)"
proof -
  let ?q = "push_back (current_thread s) (ready s)"
  note r = rq.requeue[of "ready s" n "current_thread s"]
  have q: "list_ok (ready s)" using assms(1) by (simp add: sched_ok_def)
  have rot: "list_front ?q # list_abs (pop_front ?q) = rotate1 (threads s)" using r(2)[OF q assms(2)] by (simp add: threads_def)
  then have "list_front ?q \<in> set (threads s)" by (metis list.set_intros(1) set_rotate1)
  then have "list_front ?q \<noteq> 0" using assms(1) by (auto simp: sched_ok_def)
  then have p: "pass_on_CPU s = (Dispatched, s\<lparr>ready := pop_front ?q, current_thread := list_front ?q\<rparr>)"
    by (simp add: pass_on_CPU_def yield_def resume_def dispatch_to_def Let_def)
  define s' where "s' = s\<lparr>ready := pop_front ?q, current_thread := list_front ?q\<rparr>"
  have t: "threads s' = rotate1 (threads s)" using rot by (simp add: threads_def s'_def)
  moreover have "list_ok (ready s') \<and> room (ready s') n" using r[OF q assms(2)] by (simp add: s'_def)
  moreover have "distinct (threads s') \<and> 0 \<notin> set (threads s')" unfolding t using assms(1) by (simp add: sched_ok_def)
  ultimately show ?thesis using p by (auto simp: sched_ok_def s'_def)
qed

lemma shutdown_ok:
  assumes "sched_ok s"
  shows "\<exists>c s'. thread_shutdown s = Some (c, s') \<and> list_ok (ready s') \<and> (c = Dispatched \<longleftrightarrow> tl (threads s) \<noteq> [])
    \<and> (c = Dispatched \<longrightarrow> sched_ok s' \<and> threads s' = tl (threads s) \<and> (\<forall>n. room (ready s) n \<longrightarrow> room (ready s') n))"
proof -
  have q: "list_ok (ready s)" "current_thread s \<notin> set (list_abs (ready s))" using assms by (simp_all add: sched_ok_def threads_def)
  have same: "filter (\<lambda>d. d \<noteq> current_thread s) (list_abs (ready s)) = list_abs (ready s)"
    using q(2) by (intro filter_True) auto
  obtain q' where q': "remove_value (current_thread s) (ready s) = Some q'" "list_ok q'" "list_abs q' = list_abs (ready s)"
    "start_address (snd q') = start_address (snd (ready s))"
    using ok_remove_value[OF q(1), of "current_thread s"] unfolding same by blast
  have ln: "unat (len (fst q')) = unat (len (fst (ready s)))" using list_len q(1) q'(2,3) by simp
  then have rm: "room q' n" if "room (ready s) n" for n using that q'(4) by (simp add: room_def)
  define s1 where "s1 = s\<lparr>ready := q'\<rparr>"
  have sh: "thread_shutdown s = Some (yield s1)" by (simp add: thread_shutdown_def terminate_def q'(1) s1_def)
  show ?thesis
  proof (cases "list_abs q'")
    case Nil
    then have "yield s1 = (Returned, s1\<lparr>ready := pop_front q'\<rparr>)" using rq.front[OF q'(2)] by (simp add: yield_def Let_def s1_def)
    then show ?thesis using sh rq.deq[OF q'(2)] Nil q'(3) by (simp add: threads_def)
  next
    case (Cons t ts)
    note nx = rq.next_item[OF q'(2) Cons]
    have d: "distinct (t # ts)" "0 \<notin> set (t # ts)" using assms Cons q'(3) by (auto simp: sched_ok_def threads_def)
    then have "yield s1 = (Dispatched, dispatch_to t (s1\<lparr>ready := pop_front q'\<rparr>))" using nx by (simp add: yield_def Let_def s1_def)
    then show ?thesis using sh rq.deq[OF q'(2)] nx d Cons q'(2,3) rm rq.deq_cap
      by (simp add: threads_def sched_ok_def dispatch_to_def)
  qed
qed

text \<open>One action: possible unless the last thread ends, and then it is the specification's.\<close>

lemma act_ok:
  assumes "sched_ok s" "room (ready s) (Suc n)" "a = Thread_Ends \<longrightarrow> tl (threads s) \<noteq> []"
  shows "\<exists>s'. act a s = Some s' \<and> sched_ok s' \<and> room (ready s') n \<and> threads s' = spec_act a (threads s)"
proof (cases a)
  case Pass_On
  then show ?thesis using pass_on_ok[OF assms(1,2)] by (auto simp: act_def)
next
  case Disk_Busy
  have "wait_round False s = Some (pass_on_CPU s)" by (simp add: wait_round_def pass_on_CPU_def add_def resume_def)
  then show ?thesis using Disk_Busy pass_on_ok[OF assms(1,2)] by (auto simp: act_def)
next
  case Thread_Ends
  obtain c s' where s': "thread_shutdown s = Some (c, s')" "c = Dispatched" "sched_ok s'" "threads s' = tl (threads s)"
    "room (ready s') (Suc n)" using shutdown_ok[OF assms(1)] assms(2,3) Thread_Ends by blast
  then show ?thesis using Thread_Ends room_mono[of "ready s'" "Suc n" n] by (auto simp: act_def)
qed

section \<open>Properties\<close>

text \<open>The specification over a run: it is stuck only when the last thread ends.\<close>

fun spec_run :: "action list \<Rightarrow> u32 list \<Rightarrow> u32 list option" where
  "spec_run [] ts = Some ts"
| "spec_run (a # as) ts = (if a = Thread_Ends \<and> tl ts = [] then None else spec_run as (spec_act a ts))"

lemma last_thread_ends: "sched_ok s \<Longrightarrow> tl (threads s) = [] \<Longrightarrow> act Thread_Ends s = None"
  using shutdown_ok[of s] by (auto simp: act_def)

lemma run_spec:
  "sched_ok s \<Longrightarrow> room (ready s) (length as) \<Longrightarrow>
   map_option threads (run as s) = spec_run as (threads s) \<and> (\<forall>s'. run as s = Some s' \<longrightarrow> sched_ok s')"
proof (induction as arbitrary: s)
  case (Cons a as)
  show ?case
  proof (cases "a = Thread_Ends \<and> tl (threads s) = []")
    case True
    then show ?thesis using last_thread_ends[OF Cons.prems(1)] by simp
  next
    case False
    obtain s1 where s1: "act a s = Some s1" "sched_ok s1" "room (ready s1) (length as)" "threads s1 = spec_act a (threads s)"
      using act_ok[of s "length as" a] Cons.prems False by auto
    then show ?thesis using Cons.IH[OF s1(2,3)] False by auto
  qed
qed simp

lemma spec_turn:
  "length as < length ts \<Longrightarrow> \<exists>us. spec_run as ts = Some us \<and> us \<noteq> [] \<and> hd us = ts ! length as"
proof (induction as arbitrary: ts)
  case Nil
  then show ?case by (auto simp: hd_conv_nth)
next
  case (Cons a as)
  obtain t ts' where ts: "ts = t # ts'" "length as < length ts'" using Cons.prems by (cases ts) auto
  show ?case
  proof (cases a)
    case Thread_Ends
    then show ?thesis using Cons.IH[of ts'] ts by auto
  qed (use Cons.IH[of "ts' @ [t]"] ts in \<open>simp_all add: nth_append\<close>)
qed

definition demo_scheduler :: scheduler where
  "demo_scheduler = \<lparr>ready = push_back 30 (push_back 20 (construct_LinkedList, empty_heap)), current_thread = 10\<rparr>"

lemma demo_scheduler_ok: "threads demo_scheduler = [10, 20, 30]" "sched_ok demo_scheduler" "room (ready demo_scheduler) 9"
proof -
  note s1 = push_step[OF empty_list(1,3), of 20, simplified empty_list(2), simplified]
  note s2 = push_step[OF s1[THEN conjunct1] s1[THEN conjunct2, THEN conjunct2], of 30, simplified]
  show t: "threads demo_scheduler = [10, 20, 30]" using s1 s2 by (simp add: threads_def demo_scheduler_def)
  show "sched_ok demo_scheduler" unfolding sched_ok_def t using s2 by (simp add: demo_scheduler_def)
  show "room (ready demo_scheduler) 9" using s2 room_mono[of _ 998 9] by (simp add: demo_scheduler_def)
qed

text \<open>C12: the scheduler refines a rotating sequence of threads: whatever the threads do, the threads that
can run, the current one first, are those of the specification, where giving up the CPU or waiting for the
disk moves a thread to the end and ending removes it; the run is stuck exactly when the only thread left ends.\<close>

theorem scheduler_refines_rotation:
  assumes "sched_ok s" "room (ready s) (length as)"
  shows "map_option threads (run as s) = spec_run as (threads s) \<and> (\<forall>s'. run as s = Some s' \<longrightarrow> sched_ok s')"
  using assms by (rule run_spec)

theorem scheduler_refines_rotation_witness:
  "map_option threads (run [Pass_On, Disk_Busy, Thread_Ends, Pass_On] demo_scheduler) = Some [20, 10]
    \<and> run [Thread_Ends, Thread_Ends, Thread_Ends] demo_scheduler = None"
  using scheduler_refines_rotation[OF demo_scheduler_ok(2) room_mono[OF demo_scheduler_ok(3)], of "[Pass_On, Disk_Busy, Thread_Ends, Pass_On]"]
    scheduler_refines_rotation[OF demo_scheduler_ok(2) room_mono[OF demo_scheduler_ok(3)], of "[Thread_Ends, Thread_Ends, Thread_Ends]"]
  by (simp_all add: demo_scheduler_ok(1))

text \<open>C24: round robin: the thread with \<open>i\<close> threads before it has the CPU after \<open>i\<close> actions of theirs,
whichever they are, so no ready thread waits longer than one action of each thread before it.\<close>

theorem round_robin_turn:
  assumes "sched_ok s" "room (ready s) (length as)" "length as < length (threads s)"
  shows "\<exists>s'. run as s = Some s' \<and> current_thread s' = threads s ! length as"
  using run_spec[OF assms(1,2)] spec_turn[OF assms(3)] by (auto simp: threads_def)

theorem round_robin_turn_witness:
  "\<exists>s'. run [Disk_Busy, Thread_Ends] demo_scheduler = Some s' \<and> current_thread s' = 30"
  using round_robin_turn[OF demo_scheduler_ok(2) room_mono[OF demo_scheduler_ok(3)], of "[Disk_Busy, Thread_Ends]"]
  by (simp add: demo_scheduler_ok(1))

lemma pass_on_heap:
  "sched_ok s \<Longrightarrow> room (ready s) 1 \<Longrightarrow>
   start_address (snd (ready (snd (pass_on_CPU s)))) = start_address (snd (ready s)) + 12"
  using push_back_dll(3)[of "nodes_of (ready s)" "fst (ready s)" "snd (ready s)" "current_thread s"]
    ok_push_back[of "ready s" "current_thread s"]
    pop_front_dll(3)[of "nodes_of (push_back (current_thread s) (ready s))" "fst (push_back (current_thread s) (ready s))"
      "snd (push_back (current_thread s) (ready s))"]
  by (simp add: sched_ok_def list_ok_def pass_on_CPU_def yield_def resume_def dispatch_to_def Let_def)

lemma passes:
  "sched_ok s \<Longrightarrow> room (ready s) n \<Longrightarrow> \<exists>s'. run (replicate n Pass_On) s = Some s' \<and> threads s' = rotate n (threads s)
     \<and> start_address (snd (ready s')) = start_address (snd (ready s)) + 12 * of_nat n"
proof (induction n arbitrary: s)
  case (Suc n)
  obtain s1 where s1: "pass_on_CPU s = (Dispatched, s1)" "sched_ok s1" "room (ready s1) n" "threads s1 = rotate1 (threads s)"
    using pass_on_ok[OF Suc.prems] by blast
  have h: "start_address (snd (ready s1)) = start_address (snd (ready s)) + 12"
    using pass_on_heap[OF Suc.prems(1) room_mono[OF Suc.prems(2), of 1]] s1(1) by simp
  obtain s' where "run (replicate n Pass_On) s1 = Some s'" "threads s' = rotate n (threads s1)"
    "start_address (snd (ready s')) = start_address (snd (ready s1)) + 12 * of_nat n"
    using Suc.IH[OF s1(2,3)] by blast
  then show ?case using s1 h by (simp add: act_def rotate1_rotate_swap algebra_simps)
qed simp

text \<open>C39: every pass of the CPU uses up 12 bytes of the memory pool for good: after as many rounds as one likes
the threads are queued as before, while the heap has grown by a queue node for each pass.\<close>

theorem passes_use_up_heap:
  assumes "sched_ok s" "room (ready s) (k * length (threads s))"
  shows "\<exists>s'. run (replicate (k * length (threads s)) Pass_On) s = Some s' \<and> threads s' = threads s
    \<and> start_address (snd (ready s')) = start_address (snd (ready s)) + 12 * of_nat (k * length (threads s))"
  using passes[OF assms] by (auto simp: rotate_conv_mod[of "k * length (threads s)"])

theorem passes_use_up_heap_witness:
  "\<exists>s'. run (replicate 9 Pass_On) demo_scheduler = Some s' \<and> threads s' = [10, 20, 30]
    \<and> start_address (snd (ready s')) = start_address (snd (ready demo_scheduler)) + 108"
  using passes_use_up_heap[OF demo_scheduler_ok(2), of 3] demo_scheduler_ok by simp

end
