(* ===== verification/DescriptorTables.thy ===== *)
theory DescriptorTables
  imports Threads
begin

text \<open>
  The descriptor tables of the kernels P3 to P6: gdt.C builds the GDT, idt.C the IDT, and the two
  dispatchers (exceptions.C, interrupts.C) install their stubs in it. The packed structures are the
  bytes of memory that the code writes; what the CPU makes of them is \<open>parse_descriptor\<close>.
\<close>

section \<open>Stores\<close>

definition store8 :: "u32 \<Rightarrow> u8 \<Rightarrow> 'a machine_scheme \<Rightarrow> 'a machine_scheme" where
  "store8 a x s = s\<lparr>mem := (mem s)(a := x)\<rparr>"

definition store16 :: "u32 \<Rightarrow> u16 \<Rightarrow> 'a machine_scheme \<Rightarrow> 'a machine_scheme" where
  "store16 a x s = s\<lparr>mem := write16 (mem s) a x\<rparr>"

text \<open>\<open>memset\<close> of utils.C: \<open>count\<close> is decremented to 0, so a negative one wraps around.\<close>

fun memset_loop :: "u32 \<Rightarrow> u8 \<Rightarrow> nat \<Rightarrow> 'a machine_scheme \<Rightarrow> 'a machine_scheme" where
  "memset_loop temp v 0 s = s"
| "memset_loop temp v (Suc count) s = memset_loop (temp + 1) v count (store8 temp v s)"

definition memset :: "u32 \<Rightarrow> u8 \<Rightarrow> u32 \<Rightarrow> 'a machine_scheme \<Rightarrow> 'a machine_scheme" where
  "memset dest v count s = memset_loop dest v (unat count) s"

section \<open>The GDT (gdt.C)\<close>

definition GDT_SIZE :: u32 where "GDT_SIZE = 3"

text \<open>The offsets in an entry: limit_low 0, base_low 2, base_middle 4, access 5, granularity 6, base_high 7.\<close>

definition GDT_set_gate :: "u32 \<Rightarrow> u32 \<Rightarrow> u32 \<Rightarrow> u32 \<Rightarrow> u8 \<Rightarrow> u8 \<Rightarrow> 'a machine_scheme \<Rightarrow> 'a machine_scheme" where
  "GDT_set_gate gdt num base limit access gran s =
     (let e = gdt + num * 8;
          s1 = store16 (e + 2) (ucast (base AND 0xFFFF)) s;
          s2 = store8 (e + 4) (ucast (drop_bit 16 base AND 0xFF)) s1;
          s3 = store8 (e + 7) (ucast (drop_bit 24 base AND 0xFF)) s2;
          s4 = store16 e (ucast (limit AND 0xFFFF)) s3;
          s5 = store8 (e + 6) (ucast (drop_bit 16 limit AND 0x0F)) s4;
          s6 = store8 (e + 6) (mem s5 (e + 6) OR (gran AND 0xF0)) s5
      in store8 (e + 5) access s6)"

text \<open>\<open>gp\<close> is the address of the GDT pointer, which \<open>gdt_flush\<close> loads into the CPU.\<close>

definition GDT_init :: "u32 \<Rightarrow> u32 \<Rightarrow> 'a machine_scheme \<Rightarrow> 'a machine_scheme" where
  "GDT_init gp gdt s =
     (let s1 = store16 gp (ucast (8 * GDT_SIZE - 1)) s;
          s2 = store_word (gp + 2) gdt s1;
          s3 = GDT_set_gate gdt 0 0 0 0 0 s2;
          s4 = GDT_set_gate gdt 1 0 0xFFFFFFFF 0x9a 0xCF s3
      in GDT_set_gate gdt 2 0 0xFFFFFFFF 0x92 0xCF s4)"

section \<open>The IDT (idt.C)\<close>

definition IDT_set_gate :: "u32 \<Rightarrow> u8 \<Rightarrow> u32 \<Rightarrow> u16 \<Rightarrow> u8 \<Rightarrow> 'a machine_scheme \<Rightarrow> 'a machine_scheme" where
  "IDT_set_gate idt num base sel flags s =
     (let s1 = puts [CHR 0x0A] (puti (uint num) (puts ''Installing handler in IDT position '' s));
          e = idt + ucast num * 8;
          s2 = store16 e (ucast (base AND 0xFFFF)) s1;
          s3 = store16 (e + 6) (ucast (drop_bit 16 base AND 0xFFFF)) s2;
          s4 = store16 (e + 2) sel s3;
          s5 = store8 (e + 4) 0 s4
      in store8 (e + 5) flags s5)"

definition IDT_init :: "u32 \<Rightarrow> u32 \<Rightarrow> 'a machine_scheme \<Rightarrow> 'a machine_scheme" where
  "IDT_init idtp idt s =
     (let s1 = store16 idtp (8 * 256 - 1) s; s2 = store_word (idtp + 2) idt s1
      in memset idt 0 (8 * 256) s2)"

text \<open>The calls of the two dispatchers: \<open>isr k\<close> and \<open>irq k\<close> are the addresses of the assembly stubs.\<close>

definition install_gates :: "u32 \<Rightarrow> (nat \<Rightarrow> u32) \<Rightarrow> u8 \<Rightarrow> nat \<Rightarrow> 'a machine_scheme \<Rightarrow> 'a machine_scheme" where
  "install_gates idt stub first n s =
     fold (\<lambda>k. IDT_set_gate idt (of_nat k + first) (stub k) 0x08 0x8E) [0..<n] s"

section \<open>What the entries are\<close>

text \<open>Eight bytes that are written one by one are two dwords.\<close>

definition entry_of :: "u32 \<Rightarrow> u32 \<Rightarrow> memory \<Rightarrow> u32 \<Rightarrow> memory" where
  "entry_of lo hi m e = write32 (write32 m e lo) (e + 4) hi"

lemma store_mem [simp]:
  "mem (store8 a b s) = (mem s)(a := b)" "mem (store16 a h s) = write16 (mem s) a h" "mem (store_word a w s) = write32 (mem s) a w"
  by (simp_all add: store8_def store16_def store_word_def)

definition gdt_low :: "u32 \<Rightarrow> u32 \<Rightarrow> u32" where
  "gdt_low base limit = push_bit 16 base OR (limit AND 0xFFFF)"

definition gdt_high :: "u32 \<Rightarrow> u32 \<Rightarrow> u8 \<Rightarrow> u8 \<Rightarrow> u32" where
  "gdt_high base limit access gran =
     (drop_bit 16 base AND 0xFF) OR push_bit 8 (ucast access) OR (limit AND 0xF0000)
     OR push_bit 16 (ucast (gran AND 0xF0)) OR (base AND 0xFF000000)"

lemma byte_masks: "(0xFF :: u32) = mask 8" "(0xFFFF :: u32) = mask 16" "(0xF0000 :: u32) = push_bit 16 (mask 4)"
  "(0xFF000000 :: u32) = push_bit 24 (mask 8)" "(0xF0 :: u8) = push_bit 4 (mask 4)" "(0xF :: u32) = mask 4"
  "(0xFFFF0000 :: u32) = push_bit 16 (mask 16)"
  by (simp_all add: mask_eq_exp_minus_1)

lemma offsets_differ: "(e :: u32) + 1 \<noteq> e" "e + 2 \<noteq> e" "e + 3 \<noteq> e" "e + 4 \<noteq> e" "e + 5 \<noteq> e" "e + 6 \<noteq> e" "e + 7 \<noteq> e"
  by simp_all

lemma GDT_set_gate_mem:
  "mem (GDT_set_gate gdt num base limit access gran s) = entry_of (gdt_low base limit) (gdt_high base limit access gran) (mem s) (gdt + num * 8)"
proof -
  let ?e = "gdt + num * 8"
  have lo: "(ucast (gdt_low base limit) :: u8) = ucast (ucast (limit AND 0xFFFF) :: u16)"
    "(ucast (drop_bit 8 (gdt_low base limit)) :: u8) = ucast (drop_bit 8 (ucast (limit AND 0xFFFF) :: u16))"
    "(ucast (drop_bit 16 (gdt_low base limit)) :: u8) = ucast (ucast (base AND 0xFFFF) :: u16)"
    "(ucast (drop_bit 24 (gdt_low base limit)) :: u8) = ucast (drop_bit 8 (ucast (base AND 0xFFFF) :: u16))"
    unfolding gdt_low_def byte_masks by (rule u8_eqI; auto simp: bit_simps dest: bit_imp_le_length)+
  have hi: "(ucast (gdt_high base limit access gran) :: u8) = ucast (drop_bit 16 base AND 0xFF)"
    "(ucast (drop_bit 8 (gdt_high base limit access gran)) :: u8) = access"
    "(ucast (drop_bit 16 (gdt_high base limit access gran)) :: u8) = ucast (drop_bit 16 limit AND 0x0F) OR (gran AND 0xF0)"
    "(ucast (drop_bit 24 (gdt_high base limit access gran)) :: u8) = ucast (drop_bit 24 base AND 0xFF)"
    unfolding gdt_high_def byte_masks by (rule u8_eqI; auto simp: bit_simps dest: bit_imp_le_length)+
  show ?thesis
    by (rule ext) (simp add: GDT_set_gate_def Let_def entry_of_def write16_def write32_def lo hi add.assoc)
qed

definition gate_low :: "u32 \<Rightarrow> u16 \<Rightarrow> u32" where
  "gate_low base sel = push_bit 16 (ucast sel) OR (base AND 0xFFFF)"

definition gate_high :: "u32 \<Rightarrow> u8 \<Rightarrow> u32" where
  "gate_high base flags = (base AND 0xFFFF0000) OR push_bit 8 (ucast flags)"

lemma IDT_set_gate_mem:
  "mem (IDT_set_gate idt num base sel flags s) = entry_of (gate_low base sel) (gate_high base flags) (mem s) (idt + ucast num * 8)"
proof -
  have lo: "(ucast (gate_low base sel) :: u8) = ucast (ucast (base AND 0xFFFF) :: u16)"
    "(ucast (drop_bit 8 (gate_low base sel)) :: u8) = ucast (drop_bit 8 (ucast (base AND 0xFFFF) :: u16))"
    "(ucast (drop_bit 16 (gate_low base sel)) :: u8) = ucast sel"
    "(ucast (drop_bit 24 (gate_low base sel)) :: u8) = ucast (drop_bit 8 sel)"
    unfolding gate_low_def byte_masks by (rule u8_eqI; auto simp: bit_simps dest: bit_imp_le_length)+
  have hi: "(ucast (gate_high base flags) :: u8) = 0" "(ucast (drop_bit 8 (gate_high base flags)) :: u8) = flags"
    "(ucast (drop_bit 16 (gate_high base flags)) :: u8) = ucast (ucast (drop_bit 16 base AND 0xFFFF) :: u16)"
    "(ucast (drop_bit 24 (gate_high base flags)) :: u8) = ucast (drop_bit 8 (ucast (drop_bit 16 base AND 0xFFFF) :: u16))"
    unfolding gate_high_def byte_masks by (rule u8_eqI; auto simp: bit_simps dest: bit_imp_le_length)+
  show ?thesis
    by (rule ext) (simp add: IDT_set_gate_def Let_def entry_of_def write16_def write32_def lo hi add.assoc)
qed

text \<open>Reading an entry back, and the other entries of the table.\<close>

lemma entry_read:
  assumes "aligned4 e"
  shows "read32 (entry_of lo hi m e) e = lo" "read32 (entry_of lo hi m e) (e + 4) = hi"
    "aligned4 a \<Longrightarrow> a \<noteq> e \<Longrightarrow> a \<noteq> e + 4 \<Longrightarrow> read32 (entry_of lo hi m e) a = read32 m a"
  using assms by (simp_all add: entry_of_def read32_write32 aligned4_offset)

lemma entry_byte:
  assumes "\<And>k. k < 8 \<Longrightarrow> a \<noteq> e + of_nat k"
  shows "entry_of lo hi m e a = m a"
proof -
  have "a \<noteq> e" "a \<noteq> e + 1" "a \<noteq> e + 2" "a \<noteq> e + 3" "a \<noteq> e + 4" "a \<noteq> e + 4 + 1" "a \<noteq> e + 4 + 2" "a \<noteq> e + 4 + 3"
    using assms[of 0] assms[of 1] assms[of 2] assms[of 3] assms[of 4] assms[of 5] assms[of 6] assms[of 7] by (simp_all add: add.assoc)
  then show ?thesis by (simp add: entry_of_def write32_def)
qed

lemma aligned4_times: "aligned4 (x * 8)"
  unfolding aligned4_multiple by (rule exI[of _ "x * 2"]) simp

lemma u8_less: "unat (v :: u8) < 256"
  using unsigned_less[of v] by simp

lemma table_entries:
  fixes v w :: u8
  assumes "v \<noteq> w"
  shows "b + ucast v * 8 \<noteq> b + ucast w * (8 :: u32)" "b + ucast v * 8 + 4 \<noteq> b + ucast w * (8 :: u32)"
proof -
  have u: "unat (ucast x * 8 :: u32) = 8 * unat x" for x :: u8
  proof -
    have b: "unat x < 256" by (rule u8_less)
    then have "unat (ucast x :: u32) = unat x" by (simp add: unsigned_ucast_eq take_bit_nat_eq_self)
    then show ?thesis using b by (simp add: unat_word_ariths)
  qed
  show "b + ucast v * 8 \<noteq> b + ucast w * (8 :: u32)"
  proof -
    have "8 * unat v \<noteq> 8 * unat w" using assms by (simp add: word_unat_eq_iff)
    then have "ucast v * 8 \<noteq> (ucast w * 8 :: u32)" using u[of v] u[of w] by metis
    then show ?thesis by simp
  qed
  have "unat (ucast v * 8 + 4 :: u32) = 8 * unat v + 4"
    using u[of v] u8_less[of v] unat_add_of_nat[of "ucast v * 8 :: u32" 4] by simp
  moreover have "8 * unat v + 4 \<noteq> 8 * unat w" by presburger
  ultimately have "ucast v * 8 + 4 \<noteq> (ucast w * 8 :: u32)" using u[of w] by metis
  then show "b + ucast v * 8 + 4 \<noteq> b + ucast w * (8 :: u32)" by (simp add: add.assoc)
qed

lemma memset_loop_mem: "n \<le> 2 ^ 32 \<Longrightarrow> mem (memset_loop t v n s) a = (if unat (a - t) < n then v else mem s a)"
proof (induction n arbitrary: t s)
  case (Suc n)
  have "unat (a - (t + 1)) < n \<or> a = t \<longleftrightarrow> unat (a - t) < Suc n"
  proof (cases "a = t")
    case False
    then have "unat (a - t - 1) = unat (a - t) - 1" "0 < unat (a - t)" by (simp_all add: unat_minus_one unat_gt_0)
    then show ?thesis using False by (auto simp: diff_diff_eq)
  qed simp
  then show ?case using Suc by auto
qed simp

lemma memset_mem: "mem (memset t v n s) a = (if a - t < n then v else mem s a)"
  using memset_loop_mem[of "unat n" t v s a] unat_u32_less[of n] by (simp add: memset_def word_less_nat_alt)

section \<open>Decoding\<close>

lemma parse_gdt:
  "parse_descriptor (gdt_low 0 0xFFFFFFFF) (gdt_high 0 0xFFFFFFFF 0x9a 0xCF) d0 = flat_descriptor d0 10"
  "parse_descriptor (gdt_low 0 0xFFFFFFFF) (gdt_high 0 0xFFFFFFFF 0x92 0xCF) d0 = flat_descriptor d0 2"
  "d_valid (parse_descriptor 0 0 d0) = 0" "\<not> d_p (parse_descriptor 0 0 d0)"
  by (simp_all add: gdt_low_def gdt_high_def parse_descriptor_def set_ar_byte_def Let_def flat_descriptor_def is_tss_or_ldt_def)

text \<open>A present interrupt gate of the 386 at privilege 0.\<close>

definition interrupt_gate :: "bx_descriptor \<Rightarrow> u16 \<Rightarrow> u32 \<Rightarrow> bool" where
  "interrupt_gate d sel offset \<longleftrightarrow> d_valid d = 1 \<and> d_p d \<and> d_dpl d = 0 \<and> \<not> d_segment d \<and> d_type d = 14
     \<and> d_dest_selector d = sel \<and> d_dest_offset d = offset"

lemma parse_gate: "interrupt_gate (parse_descriptor (gate_low base sel) (gate_high base 0x8E) d0) sel base"
proof -
  have ar: "(ucast (drop_bit 8 (gate_high base 0x8E)) :: u8) = 0x8E"
    unfolding gate_high_def byte_masks by (rule u8_eqI) (auto simp: bit_simps dest: bit_imp_le_length)
  have sel: "(ucast (drop_bit 16 (gate_low base sel)) :: u16) = sel"
    unfolding gate_low_def byte_masks by (rule bit_word_eqI) (auto simp: bit_simps dest: bit_imp_le_length)
  have off: "(gate_high base fl AND 0xFFFF0000) OR (gate_low base sel AND 0xFFFF) = base" for fl
    unfolding gate_high_def gate_low_def byte_masks
    by (rule bit_word_eqI) (auto simp: bit_simps dest: bit_imp_le_length)
  show ?thesis
    by (simp add: interrupt_gate_def parse_descriptor_def Let_def ar sel off set_ar_byte_def)
qed

section \<open>The tables as the CPU decodes them\<close>

definition gdt_entry :: "memory \<Rightarrow> u32 \<Rightarrow> bx_descriptor \<Rightarrow> bx_descriptor" where
  "gdt_entry m a d0 = parse_descriptor (read32 m a) (read32 m (a + 4)) d0"

definition apart :: "u32 \<Rightarrow> u32 \<Rightarrow> u32 \<Rightarrow> u32 \<Rightarrow> bool" where
  "apart a n b k \<longleftrightarrow> (\<forall>i < unat n. \<forall>j < unat k. a + of_nat i \<noteq> b + of_nat j)"

text \<open>A pointer structure: the limit at \<open>p\<close> and the base at \<open>p + 2\<close>.\<close>

lemma pointer_read:
  assumes "apart p 6 t n" "\<And>a. (\<forall>j < unat n. a \<noteq> t + of_nat j) \<Longrightarrow> m' a = write32 (write16 m p lim) (p + 2) base a"
  shows "read16 m' p = lim \<and> read32 m' (p + 2) = base"
proof -
  have b: "m' (p + of_nat i) = write32 (write16 m p lim) (p + 2) base (p + of_nat i)" if "i < 6" for i
    by (rule assms(2)) (use assms(1) that in \<open>auto simp: apart_def\<close>)
  have l: "read16 (write16 m p lim) p = lim"
    unfolding read16_def write16_def by (rule bit_word_eqI) (auto simp: bit_simps)
  have "read16 m' p = read16 (write32 (write16 m p lim) (p + 2) base) p"
    using b[of 0] b[of 1] by (simp add: read16_def)
  also have "\<dots> = read16 (write16 m p lim) p" by (simp add: read16_def write32_def)
  finally have lo: "read16 m' p = lim" using l by simp
  have "read32 m' (p + 2) = read32 (write32 (write16 m p lim) (p + 2) base) (p + 2)"
    using b[of 2] b[of 3] b[of 4] b[of 5] by (simp add: read32_def add.assoc)
  then show ?thesis using lo by (simp add: read32_write32_same)
qed

lemma GDT_init_mem:
  "mem (GDT_init gp gdt s) = entry_of (gdt_low 0 0xFFFFFFFF) (gdt_high 0 0xFFFFFFFF 0x92 0xCF)
     (entry_of (gdt_low 0 0xFFFFFFFF) (gdt_high 0 0xFFFFFFFF 0x9a 0xCF)
       (entry_of 0 0 (write32 (write16 (mem s) gp 23) (gp + 2) gdt) gdt) (gdt + 8)) (gdt + 16)"
  by (simp add: GDT_init_def Let_def GDT_set_gate_mem GDT_SIZE_def) (simp add: gdt_low_def gdt_high_def)

text \<open>C21: The GDT that \<open>GDT::init\<close> writes is what the CPU of the emulator decodes as a null descriptor, a flat
4 GB code segment and a flat 4 GB data segment at privilege 0, and the GDT pointer holds its limit, 23, and its
address.\<close>

theorem gdt_decodes_to_flat_segments:
  fixes s :: "'a machine_scheme"
  assumes "aligned4 gdt" "apart gp 6 gdt 24"
  defines "m \<equiv> mem (GDT_init gp gdt s)"
  shows "read16 m gp = 23 \<and> read32 m (gp + 2) = gdt \<and> d_valid (gdt_entry m gdt d0) = 0
    \<and> gdt_entry m (gdt + 8) d0 = flat_descriptor d0 10 \<and> gdt_entry m (gdt + 16) d0 = flat_descriptor d0 2"
proof -
  have k: "a \<noteq> gdt + 8 * of_nat q + of_nat k" if "\<forall>j < unat (24 :: u32). a \<noteq> gdt + of_nat j" "k < 8" "q < 3" for a k and q :: nat
    using that(1)[rule_format, of "8 * q + k"] that(2,3) by (simp add: add.assoc)
  have keep: "m a = write32 (write16 (mem s) gp 23) (gp + 2) gdt a" if "\<forall>j < unat (24 :: u32). a \<noteq> gdt + of_nat j" for a
    unfolding m_def GDT_init_mem using k[OF that, of _ 0] k[OF that, of _ 1] k[OF that, of _ 2] by (simp add: entry_byte)
  note ptr = pointer_read[OF assms(2) keep]
  have al: "aligned4 (gdt + 8)" "aligned4 (gdt + 16)" "aligned4 (gdt + 4)" "aligned4 (gdt + 8 + 4)"
    by (intro aligned4_add aligned4_num assms(1))+
  have skip: "read32 (entry_of lo hi n e) a = read32 n a" if "e \<in> {gdt + 8, gdt + 16}" "a \<in> {gdt, gdt + 4, gdt + 8, gdt + 8 + 4}" "a \<noteq> e" "a \<noteq> e + 4"
    for lo hi n e a by (rule entry_read(3)) (use that al assms(1) in auto)
  have "read32 m gdt = 0" "read32 m (gdt + 4) = 0"
    unfolding m_def GDT_init_mem by (simp_all add: skip entry_read(1,2) assms(1))
  moreover have "read32 m (gdt + 8) = gdt_low 0 0xFFFFFFFF" "read32 m (gdt + 8 + 4) = gdt_high 0 0xFFFFFFFF 0x9a 0xCF"
  proof -
    have ne: "gdt + 8 + 4 \<noteq> gdt + 16" "gdt + 8 + 4 \<noteq> gdt + 16 + 4" "gdt + 8 \<noteq> gdt + 16" "gdt + 8 \<noteq> gdt + 16 + 4" by simp_all
    show "read32 m (gdt + 8) = gdt_low 0 0xFFFFFFFF" "read32 m (gdt + 8 + 4) = gdt_high 0 0xFFFFFFFF 0x9a 0xCF"
      unfolding m_def GDT_init_mem by (simp_all only: skip ne insert_iff simp_thms entry_read(1,2)[OF al(1)])
  qed
  moreover have "read32 m (gdt + 16) = gdt_low 0 0xFFFFFFFF" "read32 m (gdt + 16 + 4) = gdt_high 0 0xFFFFFFFF 0x92 0xCF"
    unfolding m_def GDT_init_mem by (rule entry_read(1,2)[OF al(2)])+
  ultimately show ?thesis using ptr by (simp add: gdt_entry_def parse_gdt)
qed

text \<open>The IDT: an installed range of vectors, the others as they were.\<close>

lemma install_gates_Suc:
  "install_gates idt stub first (Suc n) s = IDT_set_gate idt (of_nat n + first) (stub n) 0x08 0x8E (install_gates idt stub first n s)"
  by (simp add: install_gates_def)

lemma vector_index: "unat first + n < 256 \<Longrightarrow> unat (of_nat n + first :: u8) = unat first + n"
  by (simp add: unat_word_ariths take_bit_nat_eq_self unat_of_nat add.commute)

lemma install_gates_read:
  assumes "aligned4 idt" "unat first + n \<le> 256"
  shows "read32 (mem (install_gates idt stub first n s)) (idt + ucast v * 8)
      = (if first \<le> v \<and> unat v < unat first + n then gate_low (stub (unat v - unat first)) 8 else read32 (mem s) (idt + ucast v * 8))
    \<and> read32 (mem (install_gates idt stub first n s)) (idt + ucast v * 8 + 4)
      = (if first \<le> v \<and> unat v < unat first + n then gate_high (stub (unat v - unat first)) 0x8E else read32 (mem s) (idt + ucast v * 8 + 4))"
  using assms(2)
proof (induction n)
  case 0
  then show ?case by (auto simp: install_gates_def word_le_nat_alt)
next
  case (Suc n)
  let ?w = "of_nat n + first :: u8"
  have w: "unat ?w = unat first + n" using vector_index Suc.prems by simp
  have al: "aligned4 (idt + ucast x * 8)" "aligned4 (idt + ucast x * 8 + 4)" for x :: u8
    using assms(1) aligned4_times[of "ucast x"] by (simp_all add: aligned4_add aligned4_offset)
  show ?case
  proof (cases "v = ?w")
    case True
    then show ?thesis using w by (simp add: install_gates_Suc IDT_set_gate_mem entry_read al word_le_nat_alt)
  next
    case False
    then have ne: "first \<le> v \<and> unat v < unat first + Suc n \<longleftrightarrow> first \<le> v \<and> unat v < unat first + n"
      using w by (auto simp: word_unat_eq_iff less_Suc_eq)
    note d = table_entries[OF False, of idt] table_entries[OF False[symmetric], of idt]
    show ?thesis using Suc.IH Suc.prems False d ne
      by (simp add: install_gates_Suc IDT_set_gate_mem entry_read al)
  qed
qed

definition init_dispatchers :: "u32 \<Rightarrow> u32 \<Rightarrow> (nat \<Rightarrow> u32) \<Rightarrow> (nat \<Rightarrow> u32) \<Rightarrow> 'a machine_scheme \<Rightarrow> 'a machine_scheme" where
  "init_dispatchers idtp idt isr irq s = install_gates idt irq 32 16 (install_gates idt isr 0 32 (IDT_init idtp idt s))"

lemma IDT_init_entry: "read32 (mem (IDT_init idtp idt s)) (idt + ucast (v :: u8) * 8 + d) = 0" if "d \<in> {0, 4}"
proof -
  have "unat v < 256" by (rule u8_less)
  then have u: "unat (ucast v * 8 :: u32) = 8 * unat v" by (simp add: unsigned_ucast_eq take_bit_nat_eq_self unat_word_ariths)
  have z: "mem (IDT_init idtp idt s) (idt + ucast v * 8 + of_nat k) = 0" if "k < 8" for k
  proof -
    have "unat (ucast v * 8 + of_nat k :: u32) = 8 * unat v + k" using u \<open>unat v < 256\<close> that by (subst unat_add_of_nat) simp_all
    then have "ucast v * 8 + of_nat k < (2048 :: u32)" using \<open>unat v < 256\<close> that by (simp add: word_less_nat_alt)
    then show ?thesis by (simp add: IDT_init_def Let_def memset_mem add.assoc)
  qed
  show ?thesis using that z[of 0] z[of 1] z[of 2] z[of 3] z[of 4] z[of 5] z[of 6] z[of 7] by (auto simp: read32_def add.assoc)
qed

text \<open>C22: After \<open>IDT::init\<close> and the start-up of the two dispatchers every vector below 32 is a present 386
interrupt gate to the exception stub of its number, the vectors 32 to 47 are gates to the stubs of IRQ 0 to 15, all
through the kernel's code segment, and no other vector is present.\<close>

theorem idt_decodes_to_gates:
  fixes s :: "'a machine_scheme" and isr irq :: "nat \<Rightarrow> u32" and idtp :: u32 and v :: u8
  assumes "aligned4 idt"
  defines "m \<equiv> mem (init_dispatchers idtp idt isr irq s)"
  shows "(let d = gdt_entry m (idt + ucast v * 8) d0 in
     if v < 32 then interrupt_gate d 8 (isr (unat v))
     else if v < 48 then interrupt_gate d 8 (irq (unat v - 32))
     else d_valid d = 0 \<and> \<not> d_p d)"
proof -
  let ?a = "idt + ucast v * 8" and ?s0 = "IDT_init idtp idt s"
  note i1 = install_gates_read[OF assms(1), of 0 32 isr ?s0 v]
  note i2 = install_gates_read[OF assms(1), of 32 16 irq "install_gates idt isr 0 32 ?s0" v]
  have z: "read32 (mem ?s0) ?a = 0" "read32 (mem ?s0) (?a + 4) = 0"
    using IDT_init_entry[of 0 idtp idt s v] IDT_init_entry[of 4 idtp idt s v] by simp_all
  consider "v < 32" | "\<not> v < 32" "v < 48" | "\<not> v < 48" by blast
  then show ?thesis
  proof cases
    case 1
    then show ?thesis using i1 i2
      by (simp add: m_def init_dispatchers_def gdt_entry_def parse_gate word_le_nat_alt word_less_nat_alt)
  next
    case 2
    then show ?thesis using i2
      by (simp add: m_def init_dispatchers_def gdt_entry_def parse_gate word_le_nat_alt word_less_nat_alt)
  next
    case 3
    then show ?thesis using i1 i2 z
      by (simp add: m_def init_dispatchers_def gdt_entry_def parse_gdt word_le_nat_alt word_less_nat_alt)
  qed
qed

theorem gdt_decodes_to_flat_segments_witness:
  "(let m = mem (GDT_init 0x1000 0x2000 \<lparr>mem = \<lambda>_. 0xFF, trace = []\<rparr>) in
    read16 m 0x1000 = 23 \<and> gdt_entry m 0x2010 (seg_cache (sregs flat_cpu SEG_DS)) = flat_descriptor (seg_cache (sregs flat_cpu SEG_DS)) 2)"
proof -
  have u: "unat (0x1000 + of_nat i :: u32) < 0x2000" if "i < 6" for i using that by (subst unat_add_of_nat) simp_all
  have w: "0x2000 \<le> unat (0x2000 + of_nat j :: u32)" if "j < 24" for j using that by (subst unat_add_of_nat) simp_all
  have "apart 0x1000 6 0x2000 24" unfolding apart_def using u w by (fastforce dest: arg_cong[where f = unat])
  from gdt_decodes_to_flat_segments[OF _ this, of "\<lparr>mem = \<lambda>_. 0xFF, trace = []\<rparr>"] show ?thesis by simp
qed

theorem idt_decodes_to_gates_witness:
  "(let d = gdt_entry (mem (init_dispatchers 0x1000 0x2000 (\<lambda>k. 0x8000 + of_nat k * 16) (\<lambda>k. 0x9000 + of_nat k * 16)
       \<lparr>mem = \<lambda>_. 0xFF, trace = []\<rparr>)) 0x2108 (seg_cache (sregs flat_cpu SEG_DS)) in interrupt_gate d 8 0x9010)"
  using idt_decodes_to_gates[where idt = "0x2000" and v = 33 and irq = "\<lambda>k. 0x9000 + of_nat k * 16"] by simp

end
