(* ===== verification/InterruptEntry.thy ===== *)
theory InterruptEntry
  imports ThreadProperties DescriptorTables
begin

text \<open>
  What an external interrupt does to the kernels of P3 to P6: the CPU delivers it through the gate that
  \<open>InterruptHandler::init_dispatcher\<close> installed, the stub of irq_low.asm saves the registers and calls the
  dispatcher, and after the dispatcher's return the stub restores them and executes \<open>iret\<close>.
\<close>

section \<open>Delivery\<close>

definition idt_gate :: "cpu \<Rightarrow> u8 \<Rightarrow> u32 \<Rightarrow> bool" where
  "idt_gate s v off \<longleftrightarrow> \<not> (ucast (gs_limit (idtr s)) < (ucast v * 8 + 7 :: u32))
     \<and> read32 (mem s) (gs_base (idtr s) + ucast v * 8) = gate_low off 8
     \<and> read32 (mem s) (gs_base (idtr s) + ucast v * 8 + 4) = gate_high off 0x8E"

text \<open>TF, IF, NT, RF and VM are cleared.\<close>

definition gate_flags :: "u32 \<Rightarrow> u32" where
  "gate_flags w = w AND NOT (push_bit 8 1) AND NOT (push_bit 9 1) AND NOT (push_bit 14 1) AND NOT (push_bit 16 1) AND NOT (push_bit 17 1)"

text \<open>Flags, CS and EIP are pushed, and \<open>es\<close>, the error code, if there is one.\<close>

definition kv_interrupt :: "u32 list \<Rightarrow> u32 \<Rightarrow> kview \<Rightarrow> kview" where
  "kv_interrupt es off v =
     (kv_seg SEG_CS 8 (kv_push_list ([kv_flags v, ucast (kv_sel v SEG_CS), kv_eip v] @ es) v))\<lparr>kv_eip := off, kv_flags := gate_flags (kv_flags v)\<rparr>"

lemma kernel_quiet [simp]:
  "kernel g (s\<lparr>debug_trap := a, inhibit_mask := b\<rparr>) = kernel g s" "view (s\<lparr>debug_trap := a, inhibit_mask := b\<rparr>) = view s"
  "kernel g (s\<lparr>EXT := c\<rparr>) = kernel g s" "view (s\<lparr>EXT := c\<rparr>) = view s"
  "kernel g (s\<lparr>speculative_rsp := c, prev_rsp := a\<rparr>) = kernel g s" "view (s\<lparr>speculative_rsp := c, prev_rsp := a\<rparr>) = view s"
  "kernel g (s\<lparr>debug_trap := a, inhibit_mask := b, speculative_rsp := c, prev_rsp := d\<rparr>) = kernel g s"
  "view (s\<lparr>debug_trap := a, inhibit_mask := b, speculative_rsp := c, prev_rsp := d\<rparr>) = view s"
  "kernel g (s\<lparr>speculative_rsp := c, EXT := c'\<rparr>) = kernel g s" "view (s\<lparr>speculative_rsp := c, EXT := c'\<rparr>) = view s"
  "kernel g (s\<lparr>speculative_rsp := c\<rparr>) = kernel g s" "view (s\<lparr>speculative_rsp := c\<rparr>) = view s"
  by (simp_all add: kernel_def view_def protected_mode_def get_PE_def get_flag_def unpaged_def get_PG_def CPL_def flat_rw_def
      ss_32_def flags_image_eq)

lemma clear_image: "n \<notin> {0, 2, 4, 6, 7, 11} \<Longrightarrow> n < 32 \<Longrightarrow> flags_image (clear_flag n s) = flags_image s AND NOT (push_bit n 1)"
proof (rule bit_word_eqI)
  fix k assume n: "n \<notin> {0, 2, 4, 6, 7, 11}" "n < 32"
  then show "bit (flags_image (clear_flag n s)) k = bit (flags_image s AND NOT (push_bit n 1)) k"
    using bit_push_1[OF n(2), of k]
    by (auto simp: flags_image_eq bit_with_arith clear_flag_def bit_and_iff bit_not_iff arith_bit_def split: option.splits)
qed

lemma kernel_clear:
  assumes "kernel g s" "n \<notin> {0, 2, 4, 6, 7, 11}" "n < 32"
  shows "kernel g (clear_flag n s)" "view (clear_flag n s) = (view s)\<lparr>kv_flags := kv_flags (view s) AND NOT (push_bit n 1)\<rparr>"
proof -
  have f: "gen_reg (clear_flag n s) = gen_reg s" "mem (clear_flag n s) = mem s" "EIP (clear_flag n s) = EIP s"
    "sregs (clear_flag n s) = sregs s" "cr0 (clear_flag n s) = cr0 s" "gdtr (clear_flag n s) = gdtr s"
    "alignment_check_mask (clear_flag n s) = alignment_check_mask s" "eflags (clear_flag n s) = eflags s AND NOT (push_bit n 1)"
    by (simp_all add: clear_flag_def)
  show "kernel g (clear_flag n s)" using assms(1)
    by (auto simp: kernel_def protected_mode_def get_PE_def get_flag_def unpaged_def get_PG_def CPL_def flat_rw_def ss_32_def f bit_and_iff)
  show "view (clear_flag n s) = (view s)\<lparr>kv_flags := kv_flags (view s) AND NOT (push_bit n 1)\<rparr>"
    using clear_image[OF assms(2,3)] by (simp add: view_def f)
qed

lemma kernel_mask_change:
  "kernel g (handleInterruptMaskChange s) = kernel g s" "view (handleInterruptMaskChange s) = view s"
  by (simp_all add: kernel_def view_def protected_mode_def get_PE_def get_flag_def unpaged_def get_PG_def CPL_def flat_rw_def
      ss_32_def flags_image_eq)

lemma kernel_mode_change: "kernel g s \<Longrightarrow> handleCpuModeChange s = s"
  by (simp add: kernel_def protected_mode_def handleCpuModeChange_def get_flag_def)

lemma kernel_enter_gate:
  assumes "kernel g s" "d_type gate = 14" "d_dest_offset gate = off"
  shows "\<exists>s'. enter_gate gate s = (Inr (), s') \<and> kernel g s' \<and> view s' = (view s)\<lparr>kv_eip := off, kv_flags := gate_flags (kv_flags (view s))\<rparr>"
proof -
  have n: "(8 :: nat) \<notin> {0, 2, 4, 6, 7, 11}" "(9 :: nat) \<notin> {0, 2, 4, 6, 7, 11}" "(14 :: nat) \<notin> {0, 2, 4, 6, 7, 11}"
    "(16 :: nat) \<notin> {0, 2, 4, 6, 7, 11}" "(17 :: nat) \<notin> {0, 2, 4, 6, 7, 11}" by simp_all
  define s1 where "s1 = s\<lparr>EIP := off\<rparr>"
  have 1: "kernel g s1" "view s1 = (view s)\<lparr>kv_eip := off\<rparr>" using assms(1)
    by (simp_all add: s1_def kernel_def view_def protected_mode_def get_PE_def get_flag_def unpaged_def get_PG_def CPL_def flat_rw_def
        ss_32_def flags_image_eq)
  define s2 where "s2 = clear_IF s1"
  have step: "kernel g (clear_flag n t) \<and> view (clear_flag n t) = v\<lparr>kv_flags := kv_flags v AND NOT (push_bit n 1)\<rparr>"
    if "kernel g t" "view t = v" "n \<in> {8, 9, 14, 16, 17}" for t v n
    using kernel_clear[OF that(1), of n] that(2,3) by auto
  have 2: "kernel g s2 \<and> view s2 = (view s)\<lparr>kv_eip := off, kv_flags := kv_flags (view s) AND NOT (push_bit 9 1)\<rparr>"
    using step[OF 1, of 9] by (simp add: s2_def clear_IF_def kernel_mask_change)
  note 3 = step[OF 2[THEN conjunct1] 2[THEN conjunct2], of 8] note 4 = step[OF 3[THEN conjunct1] 3[THEN conjunct2], of 14]
  note 5 = step[OF 4[THEN conjunct1] 4[THEN conjunct2], of 17] note 6 = step[OF 5[THEN conjunct1] 5[THEN conjunct2], of 16]
  have "enter_gate gate s = (Inr (), clear_flag 16 (clear_VM (clear_flag 14 (clear_flag 8 s2))))"
    using assms by (simp add: enter_gate_def exec_simps s2_def s1_def Let_def)
  moreover have "clear_VM (clear_flag 14 (clear_flag 8 s2)) = clear_flag 17 (clear_flag 14 (clear_flag 8 s2))"
    using kernel_mode_change[OF 5[THEN conjunct1]] by (simp add: clear_VM_def)
  ultimately show ?thesis using 6 by (simp add: gate_flags_def and.assoc and.commute and.left_commute)
qed

lemma kernel_push_32:
  assumes "kernel g s" "safe g (kv_esp (view s) - 4)"
  shows "\<exists>s'. push_32 x s = (Inr (), s') \<and> kernel g s' \<and> view s' = kv_push x (view s)"
  using run_push[of g x] assms unfolding runs_def by blast

definition error_words :: "bool \<Rightarrow> u16 \<Rightarrow> u32 list" where
  "error_words push_error e = (if push_error then [ucast e] else [])"

lemma kernel_push_error:
  assumes "kernel g s" "safe g (kv_esp (view s) - 4)"
  shows "\<exists>s'. whenM pe (push_32 (ucast e)) s = (Inr (), s') \<and> kernel g s' \<and> view s' = kv_push_list (error_words pe e) (view s)"
proof (cases pe)
  case True
  then show ?thesis using kernel_push_32[OF assms, of "ucast e"] by (simp add: error_words_def kv_push_as_list whenM_def)
next
  case False
  then show ?thesis using assms(1) by (simp add: error_words_def kv_push_list_def kv_set_def kv_esp_def view_def whenM_def ret_def)
qed

lemma kernel_same_privilege:
  assumes "kernel g s" "safe_down g (kv_esp (view s)) 4 4" "d_type gate = 14"
  shows "\<exists>s'. int_same_privilege gate (parse_selector 8) (flat_descriptor d0 11) pe e s = (Inr (), s') \<and> kernel g s'
    \<and> view s' = kv_seg SEG_CS 8 (kv_push_list ([flags_image s, ucast (kv_sel (view s) SEG_CS), kv_eip (view s)] @ error_words pe e) (view s))"
proof -
  let ?v = "view s"
  define cs ip where "cs = (ucast (kv_sel ?v SEG_CS) :: u32)" and "ip = kv_eip ?v"
  have sf: "safe g (kv_esp ?v - 4)" "safe g (kv_esp ?v - 4 - 4)" "safe g (kv_esp ?v - 4 - 4 - 4)" "safe g (kv_esp ?v - 4 - 4 - 4 - 4)"
    using assms(2) by (simp_all add: numeral_eq_Suc diff_diff_eq)
  have k: "kernel g (force_flags s)" "view (force_flags s) = ?v" using kernel_force[OF assms(1)] by simp_all
  have e: "kv_esp (kv_push x v) = kv_esp v - 4" "kv_sel (kv_push x v) = kv_sel v" "kv_eip (kv_push x v) = kv_eip v" for x v
    by (simp_all add: kv_push_def kv_set_def kv_esp_def)
  obtain s1 where s1: "push_32 (flags_image s) (force_flags s) = (Inr (), s1)" "kernel g s1" "view s1 = kv_push (flags_image s) ?v"
    using kernel_push_32[OF k(1)] sf(1) k(2) by metis
  obtain s2 where s2: "push_32 cs s1 = (Inr (), s2)" "kernel g s2" "view s2 = kv_push cs (view s1)"
    using kernel_push_32[OF s1(2), of cs] sf(2) s1(3) e(1) by metis
  obtain s3 where s3: "push_32 ip s2 = (Inr (), s3)" "kernel g s3" "view s3 = kv_push ip (view s2)"
    using kernel_push_32[OF s2(2), of ip] sf(3) s2(3) s1(3) e(1) by metis
  have rd: "read_eflags s = (Inr (flags_image s), force_flags s)"
    by (simp add: read_eflags_def exec_simps flags_image_def)
  have cs: "sel_of SEG_CS s1 = cs" "EIP s2 = ip"
    using arg_cong[OF s1(3), of "\<lambda>v. kv_sel v SEG_CS"] arg_cong[OF s2(3), of kv_eip] arg_cong[OF s1(3), of kv_eip] e
    by (simp_all add: sel_of_def cs_def ip_def del: One_nat_def)
  obtain s4 where s4: "whenM pe (push_32 (ucast e)) s3 = (Inr (), s4)" "kernel g s4" "view s4 = kv_push_list (error_words pe e) (view s3)"
    using kernel_push_error[OF s3(2), of pe e] sf(4) s3(3) s2(3) s1(3) e(1) by metis
  have c: "CPL s4 = 0" using s4(2) by (simp add: kernel_def)
  let ?seg = "\<lparr>seg_selector = (parse_selector 8)\<lparr>sel_value := 8, sel_rpl := 0\<rparr>, seg_cache = (flat_descriptor d0 11)\<lparr>d_valid := SegValidCache\<rparr>\<rparr>"
  let ?t = "handleAlignmentCheck (set_sreg SEG_CS ?seg s4)"
  have ld: "load_cs (parse_selector 8) (flat_descriptor d0 11) (CPL s4) s4 = (Inr (), ?t)"
    by (simp add: load_cs_def touch_accessed IS_SEGMENT_ACCESSED_def exec_simps c parse_selector_def)
  have eip: "?t\<lparr>EIP := EIP s4\<rparr> = ?t" by (simp add: handleAlignmentCheck_def set_sreg_def)
  have t: "kernel g ?t" "view ?t = kv_seg SEG_CS 8 (view s4)"
    using kernel_new_cs[OF s4(2), of ?seg "EIP s4", unfolded eip] by (simp_all add: kv_seg_def)
  define w where "w = whenM pe (push_32 (ucast e))"
  have "int_same_privilege gate (parse_selector 8) (flat_descriptor d0 11) pe e s = (Inr (), ?t)"
    using kernel_not_v86[OF assms(1)] assms(3) cs ld
    by (simp add: int_same_privilege_def no_larger seqM_def bindM_def rd s1(1) s2(1) s3(1) w_def[symmetric] s4(1)[folded w_def] exec_monad)
  moreover have "view s4 = kv_push_list ([flags_image s, cs, ip] @ error_words pe e) ?v"
    unfolding s4(3) s3(3) s2(3) s1(3) by (simp add: kv_push_as_list kv_push_list_append del: kv_push_list_def)
  ultimately show ?thesis using t unfolding cs_def ip_def by auto
qed

lemma deliver_interrupt:
  assumes "kernel g s" "idt_gate s n off" "safe_down g (kv_esp (view s)) 4 4" "t = BX_EXTERNAL_INTERRUPT \<or> t = BX_HARDWARE_EXCEPTION"
  shows "\<exists>s'. interrupt ts d0 n t pe e s = (Inr (), s') \<and> kernel g s' \<and> view s' = kv_interrupt (error_words pe e) off (view s)"
proof -
  let ?s = "s\<lparr>debug_trap := 0, inhibit_mask := 0, speculative_rsp := True, prev_rsp := gen_reg s R_ESP\<rparr>"
  have k: "kernel g ?s" "view ?s = view s" using assms(1) by simp_all
  have id: "idtr ?s = idtr s" "mem ?s = mem s" by simp_all
  let ?a = "gs_base (idtr s) + ucast n * 8"
  obtain t1 where t: "system_read_qword ?a ?s = (Inr (le_word (read_bytes (mem s) ?a 8)), t1)" "kernel g t1" "view t1 = view s"
    using kernel_system_qword[OF k(1), of ?a] k(2) by auto
  let ?gate = "parse_descriptor (gate_low off 8) (gate_high off 0x8E) d0"
  have gt: "interrupt_gate ?gate 8 off" by (rule parse_gate)
  obtain u where u: "fetch_raw_descriptor (parse_selector 8) BX_GP_EXCEPTION t1 = (Inr (0xFFFF, 0x00CF9B00), u)" "kernel g u" "view u = view s"
    using kernel_fetch[OF t(2) refl, of 8] t(3) by auto
  have "safe_down g (kv_esp (view u)) 4 4" using assms(3) u(3) by simp
  then obtain w where w: "int_same_privilege ?gate (parse_selector 8) (flat_descriptor d0 11) pe e u = (Inr (), w)" "kernel g w"
    "view w = kv_seg SEG_CS 8 (kv_push_list ([flags_image u, ucast (kv_sel (view s) SEG_CS), kv_eip (view s)] @ error_words pe e) (view s))"
    using kernel_same_privilege[OF u(2), of ?gate d0 pe e] gt u(3) by (auto simp: interrupt_gate_def)
  have fl: "flags_image u = kv_flags (view s)" using arg_cong[OF u(3), of kv_flags] by simp
  obtain x where x: "enter_gate ?gate w = (Inr (), x)" "kernel g x" "view x = (view w)\<lparr>kv_eip := off, kv_flags := gate_flags (kv_flags (view w))\<rparr>"
    using kernel_enter_gate[OF w(2), of ?gate off] gt by (auto simp: interrupt_gate_def)
  have pm: "protected_mode_int ts d0 n False pe e ?s = (Inr (), x)"
  proof -
    have r: "read32 (mem s) ?a = gate_low off 8" "read32 (mem s) (?a + 4) = gate_high off 0x8E"
      "\<not> (ucast (gs_limit (idtr s)) < (ucast n * 8 + 7 :: u32))" using assms(2) by (simp_all add: idt_gate_def)
    have c: "CPL u = 0" using u(2) by (simp add: kernel_def)
    have rd: "system_read_qword (gs_base (idtr ?s) + ucast n * 8) ?s = (Inr (le_word (read_bytes (mem s) ?a 8)), t1)" using t(1) by simp
    show ?thesis using gt r(3)
      by (simp add: protected_mode_int_def exec_bind(1)[where m = "system_read_qword (gs_base (idtr ?s) + ucast n * 8)", OF rd, simplified] le_word_qword r(1,2) interrupt_gate_def Let_def
          exec_bind(1)[where m = "fetch_raw_descriptor (parse_selector 8) BX_GP_EXCEPTION", OF u(1)] parse_flat c IS_CODE_SEGMENT_def
          exec_bind(3)[where m = "int_same_privilege ?gate (parse_selector 8) (flat_descriptor d0 11) pe e", OF w(1)] x(1))
  qed
  have md: "\<not> real_mode ?s" using k(1) by (simp add: kernel_def protected_mode_def real_mode_def)
  have "interrupt ts d0 n t pe e s = (Inr (), x\<lparr>speculative_rsp := False, EXT := False\<rparr>)"
    using pm md assms(4) by (auto simp: interrupt_def RSP_SPECULATIVE_def RSP_COMMIT_def exec_simps seqM_def bindM_def updM_def ret_def)
  moreover have "kernel g (x\<lparr>speculative_rsp := False, EXT := False\<rparr>)" "view (x\<lparr>speculative_rsp := False, EXT := False\<rparr>) = view x"
    using x(2) by simp_all
  moreover have "view x = kv_interrupt (error_words pe e) off (view s)"
    unfolding x(3) w(3) fl by (simp add: kv_interrupt_def kv_seg_def kv_push_list_def kv_set_def)
  ultimately show ?thesis by auto
qed

section \<open>The stub (irq_low.asm)\<close>

text \<open>The jump from \<open>irqN\<close> to \<open>irq_common_stub\<close> only moves EIP, which \<open>iret\<close> replaces.\<close>

definition ins_move :: "nat \<Rightarrow> nat \<Rightarrow> bxInstruction" where
  "ins_move d r = plain_instruction\<lparr>i_dst := d, i_src := r\<rparr>"

definition common_stub :: "u32 \<Rightarrow> unit exec list" where
  "common_stub dispatch = save_registers
     @ [MOV_GdEdR (ins_move R_EAX R_ESP), PUSH_EdR (ins_reg R_EAX), MOV_EdIdR (ins_imm R_EAX dispatch), CALL_EdR (ins_reg R_EAX)]"

definition irq_entry :: "u32 \<Rightarrow> u32 \<Rightarrow> unit exec list" where
  "irq_entry n dispatch = [PUSH_Id (ins_imm R_EAX 0), PUSH_Id (ins_imm R_EAX n)] @ common_stub dispatch"

definition irq_exit :: "task_switch \<Rightarrow> bx_descriptor \<Rightarrow> unit exec list" where
  "irq_exit ts d0 = POP_EdR (ins_reg R_EAX) # (restore_registers d0 @ [IRET32 ts d0 plain_instruction])"

lemma run_mov_imm: "i_dst i \<noteq> BX_NIL_REGISTER \<Longrightarrow> runs g (\<lambda>_. True) (MOV_EdIdR i) (\<lambda>v. kv_set (i_dst i) (i_Id i) v)"
  by (rule runsI) (simp add: MOV_EdIdR_def exec_simps kernel_set_reg)

lemma run_call: "runs g (\<lambda>v. safe g (kv_esp v - 4)) (CALL_EdR i) (\<lambda>v. (kv_push (kv_eip v) v)\<lparr>kv_eip := kv_reg v (i_dst i)\<rparr>)"
proof (rule runsI)
  fix s assume k: "kernel g s" and a: "safe g (kv_esp (view s) - 4)"
  let ?s = "s\<lparr>speculative_rsp := True, prev_rsp := gen_reg s R_ESP\<rparr>"
  obtain t where t: "push_32 (EIP s) ?s = (Inr (), t)" "kernel g t" "view t = kv_push (EIP s) (view s)"
    using kernel_push_32[of g ?s "EIP s"] k a by auto
  let ?x = "gen_reg s (i_dst i)"
  let ?t = "t\<lparr>EIP := ?x, async_event := async_event t OR BX_ASYNC_EVENT_STOP_TRACE, speculative_rsp := False\<rparr>"
  have "d_limit_scaled (seg_cache (sregs t SEG_CS)) = 0xFFFFFFFF" using t(2) by (simp add: kernel_def)
  then have "CALL_EdR i s = (Inr (), ?t)"
    using t(1) by (simp add: CALL_EdR_def Let_def RSP_SPECULATIVE_def RSP_COMMIT_def branch_near32_def exec_monad seqM_def bindM_def no_larger)
  moreover have "kernel g ?t" "view ?t = (view t)\<lparr>kv_eip := ?x\<rparr>" using t(2)
    by (simp_all add: kernel_def view_def protected_mode_def get_PE_def get_flag_def unpaged_def get_PG_def CPL_def flat_rw_def
        ss_32_def flags_image_eq)
  ultimately show "\<exists>s'. CALL_EdR i s = (Inr (), s') \<and> kernel g s' \<and> view s' = (kv_push (kv_eip (view s)) (view s))\<lparr>kv_eip := kv_reg (view s) (i_dst i)\<rparr>"
    using t(3) by simp
qed

text \<open>Pushes move past the other changes of the view.\<close>

lemma push_list_commute [simp]:
  "kv_push_list xs (kv_set R_EAX x v) = kv_set R_EAX x (kv_push_list xs v)"
  "kv_push_list xs (v\<lparr>kv_eip := a, kv_flags := b\<rparr>) = (kv_push_list xs v)\<lparr>kv_eip := a, kv_flags := b\<rparr>"
  "kv_push_list xs (kv_seg r y v) = kv_seg r y (kv_push_list xs v)"
  "kv_esp (kv_push_list xs v) = kv_esp v - 4 * of_nat (length xs)"
  "r \<noteq> R_ESP \<Longrightarrow> kv_reg (kv_push_list xs v) r = kv_reg v r" "kv_sel (kv_push_list xs v) = kv_sel v" "kv_eip (kv_push_list xs v) = kv_eip v"
  "kv_flags (kv_push_list xs v) = kv_flags v"
  "kv_push_list ys (kv_push_list xs v) = kv_push_list (xs @ ys) v" "kv_push x v = kv_push_list [x] v"
  by (simp_all add: kv_push_list_append kv_push_as_list) (simp_all add: kv_push_list_def kv_set_def kv_esp_def kv_seg_def fun_upd_twist)

lemma kv_set_simps [simp]:
  "kv_esp (kv_set R_EAX x v) = kv_esp v" "kv_sel (kv_set R_EAX x v) = kv_sel v" "kv_eip (kv_set R_EAX x v) = kv_eip v"
  "kv_mem (kv_set R_EAX x v) = kv_mem v" "kv_reg (kv_set r x v) r = x" "kv_set r x (kv_set r y v) = kv_set r x v"
  "kv_esp (kv_seg q z v) = kv_esp v" "kv_reg (kv_seg q z v) = kv_reg v" "kv_eip (kv_seg q z v) = kv_eip v" "kv_mem (kv_seg q z v) = kv_mem v"
  "kv_esp (v\<lparr>kv_eip := a, kv_flags := b\<rparr>) = kv_esp v" "kv_sel (kv_seg r' z v) r = (if r = r' then z else kv_sel v r)"
  "kv_flags (kv_set r x v) = kv_flags v" "kv_flags (kv_seg q z v) = kv_flags v"
  by (simp_all add: kv_set_def kv_esp_def kv_seg_def)

lemma write_down_read:
  assumes "aligned4 e" "aligned4 off" "length xs < 2 ^ 30"
  shows "k < length xs \<Longrightarrow> read32 (write_down m e off xs) (e - off - 4 * of_nat k) = xs ! k"
    "aligned4 b \<Longrightarrow> (\<And>k. k < length xs \<Longrightarrow> b \<noteq> e - off - 4 * of_nat k) \<Longrightarrow> read32 (write_down m e off xs) b = read32 m b"
proof -
  have "(\<forall>b. aligned4 b \<longrightarrow> (\<forall>k<length xs. b \<noteq> e - off - 4 * of_nat k) \<longrightarrow> read32 (write_down m e off xs) b = read32 m b)
    \<and> (\<forall>k < length xs. read32 (write_down m e off xs) (e - off - 4 * of_nat k) = xs ! k)"
    using assms(2,3)
  proof (induction xs arbitrary: m off)
    case (Cons x xs)
    have al: "aligned4 (e - off)" "aligned4 (off + 4)" using assms(1) Cons.prems(1) by (simp_all add: aligned4_sub aligned4_offset)
    have sh: "e - (off + 4) - 4 * of_nat k = e - off - 4 * of_nat (Suc k)" for k by (simp add: algebra_simps)
    note IH = Cons.IH[OF al(2), of "write32 m (e - off) x", unfolded sh]
    have other: "read32 (write_down m e off (x # xs)) b = read32 m b"
      if "aligned4 b" "\<forall>k<length (x # xs). b \<noteq> e - off - 4 * of_nat k" for b
    proof -
      have "b \<noteq> e - off" using that(2) by force
      moreover have "\<forall>k<length xs. b \<noteq> e - off - 4 * of_nat (Suc k)"
      proof (intro allI impI)
        fix k assume "k < length xs"
        then show "b \<noteq> e - off - 4 * of_nat (Suc k)" using that(2)[rule_format, of "Suc k"] by simp
      qed
      ultimately show ?thesis using IH Cons.prems(2) that(1) al(1) by (simp add: read32_write32 del: of_nat_Suc)
    qed
    have "read32 (write_down m e off (x # xs)) (e - off) = x"
    proof -
      have "\<forall>k<length xs. e - off \<noteq> e - off - 4 * of_nat (Suc k)"
        using word_offset_ne[of 0 _ "e - off"] Cons.prems(2) by (simp del: of_nat_Suc)
      then show ?thesis using IH Cons.prems(2) al(1) by (simp add: read32_write32_same)
    qed
    then have "read32 (write_down m e off (x # xs)) (e - off - 4 * of_nat k) = (x # xs) ! k" if "k < length (x # xs)" for k
      using IH Cons.prems(2) that by (cases k) simp_all
    then show ?case using other by blast
  qed simp
  then show "k < length xs \<Longrightarrow> read32 (write_down m e off xs) (e - off - 4 * of_nat k) = xs ! k"
    "aligned4 b \<Longrightarrow> (\<And>k. k < length xs \<Longrightarrow> b \<noteq> e - off - 4 * of_nat k) \<Longrightarrow> read32 (write_down m e off xs) b = read32 m b"
    by blast+
qed

section \<open>The frame\<close>

text \<open>The dwords the CPU and the stub push, from the top; the upper halves of the pushed selectors are what the stack held.\<close>

definition irq_words :: "kview \<Rightarrow> u32 \<Rightarrow> u32 \<Rightarrow> u32 \<Rightarrow> u32 \<Rightarrow> u32 \<Rightarrow> u32 \<Rightarrow> u32 \<Rightarrow> u32 \<Rightarrow> u32 list" where
  "irq_words v err n w1 w2 w3 w4 ra p =
     [kv_flags v, ucast (kv_sel v SEG_CS), kv_eip v, err, n,
      kv_reg v R_EAX, kv_reg v R_ECX, kv_reg v R_EDX, kv_reg v R_EBX, kv_esp v - 20, kv_reg v R_EBP, kv_reg v R_ESI, kv_reg v R_EDI,
      low_half w1 (kv_sel v SEG_DS), low_half w2 (kv_sel v SEG_ES), low_half w3 (kv_sel v SEG_FS), low_half w4 (kv_sel v SEG_GS), p, ra]"

definition interrupted_context :: "kview \<Rightarrow> thread_context" where
  "interrupted_context v =
     \<lparr>c_gs = kv_sel v SEG_GS, c_fs = kv_sel v SEG_FS, c_es = kv_sel v SEG_ES, c_ds = kv_sel v SEG_DS,
      c_edi = kv_reg v R_EDI, c_esi = kv_reg v R_ESI, c_ebp = kv_reg v R_EBP, c_ebx = kv_reg v R_EBX,
      c_edx = kv_reg v R_EDX, c_ecx = kv_reg v R_ECX, c_eax = kv_reg v R_EAX, c_eip = kv_eip v, c_cs = kv_sel v SEG_CS,
      c_eflags = kv_flags v\<rparr>"

lemma irq_frame_read:
  fixes err n w1 w2 w3 w4 ra p :: u32
  assumes "aligned4 (kv_esp v)"
  defines "m \<equiv> write_down (kv_mem v) (kv_esp v) 4 (irq_words v err n w1 w2 w3 w4 ra p)" and "e \<equiv> kv_esp v"
  shows "saved_context m (e - 68) = interrupted_context v" "read32 m (e - 20) = n" "read32 m (e - 16) = err" "read32 m (e - 72) = p"
    "aligned4 b \<Longrightarrow> (\<And>k. k < 19 \<Longrightarrow> b \<noteq> e - 4 - 4 * of_nat k) \<Longrightarrow> read32 m b = read32 (kv_mem v) b"
proof -
  let ?L = "irq_words v err n w1 w2 w3 w4 ra p"
  have l: "length ?L = 19" by (simp add: irq_words_def)
  note w = write_down_read[OF assms(1), where off = 4 and xs = ?L and m = "kv_mem v", folded m_def e_def, unfolded l]
  have r: "read32 m (e - x) = ?L ! k" if "k < 19" "x = 4 + 4 * of_nat k" for x k
    using w(1)[of k] that by (simp add: diff_diff_eq)
  have c: "ucast (ucast (kv_sel v SEG_CS) :: u32) = kv_sel v SEG_CS" by (rule bit_word_eqI) (auto simp: bit_simps)
  show "read32 m (e - 20) = n" "read32 m (e - 16) = err" "read32 m (e - 72) = p"
    using r[of 4 20] r[of 3 16] r[of 17 72] by (simp_all add: irq_words_def)
  show "saved_context m (e - 68) = interrupted_context v"
    using r[of 16 68] r[of 15 64] r[of 14 60] r[of 13 56] r[of 12 52] r[of 11 48] r[of 10 44] r[of 8 36] r[of 7 32] r[of 6 28] r[of 5 24]
      r[of 2 12] r[of 1 8] r[of 0 4] c
    by (simp add: saved_context_def interrupted_context_def irq_words_def low_half_read)
  show "read32 m b = read32 (kv_mem v) b" if "aligned4 b" "\<And>k. k < 19 \<Longrightarrow> b \<noteq> e - 4 - 4 * of_nat k" using w(2) that by simp
qed

lemma kv_esp_reg: "kv_esp v = kv_reg v R_ESP"
  by (simp add: kv_esp_def)

lemma push_interrupt: "kv_push x (kv_interrupt es off v) = kv_interrupt (es @ [x]) off v"
  by (simp add: kv_interrupt_def)

lemma run_push_Id: "runs g (\<lambda>v. safe g (kv_esp v - 4)) (PUSH_Id (ins_imm R_EAX x)) (kv_push x)"
  using run_push_imm[of g "ins_imm R_EAX x"] by simp

lemma interrupt_esp: "kv_esp (kv_interrupt es off v) = kv_esp v - 12 - 4 * of_nat (length es)"
  by (simp add: kv_interrupt_def algebra_simps)

lemma run_stub:
  assumes "kernel g s" "view s = kv_interrupt [err] off v" "safe_down g (kv_esp v) 4 19"
  shows "\<exists>s' w1 w2 w3 w4. run_all (PUSH_Id (ins_imm R_EAX n) # common_stub f) s = (Inr (), s') \<and> kernel g s'
    \<and> view s' = (kv_set R_EAX f (kv_seg SEG_CS 8 (kv_push_list (irq_words v err n w1 w2 w3 w4 off (kv_esp v - 68)) v)))
         \<lparr>kv_eip := f, kv_flags := gate_flags (kv_flags v)\<rparr>"
proof -
  have sw: "runs g (\<lambda>v. safe g (kv_esp v - 4)) (PUSH32_Sw (ins_reg r))
      (\<lambda>v. kv_push (low_half (read32 (kv_mem v) (kv_esp v - 4)) (kv_sel v r)) v)" for r
    using run_push_sw[of g "ins_reg r"] by simp
  have mv: "runs g (\<lambda>_. True) (MOV_GdEdR (ins_move R_EAX R_ESP)) (\<lambda>v. kv_set R_EAX (kv_esp v) v)"
    using run_move[of "ins_move R_EAX R_ESP" g] by (simp add: ins_move_def plain_instruction_def kv_esp_def)
  have pr: "runs g (\<lambda>v. safe g (kv_esp v - 4)) (PUSH_EdR (ins_reg R_EAX)) (\<lambda>v. kv_push (kv_reg v R_EAX) v)"
    using run_push_reg[of g "ins_reg R_EAX"] by simp
  have im: "runs g (\<lambda>_. True) (MOV_EdIdR (ins_imm R_EAX f)) (\<lambda>v. kv_set R_EAX f v)"
    using run_mov_imm[of "ins_imm R_EAX f" g] by simp
  have ca: "runs g (\<lambda>v. safe g (kv_esp v - 4)) (CALL_EdR (ins_reg R_EAX)) (\<lambda>v. (kv_push (kv_eip v) v)\<lparr>kv_eip := kv_reg v R_EAX\<rparr>)"
    using run_call[of g "ins_reg R_EAX"] by simp
  have sd: "safe g (kv_esp v - 4 * of_nat (Suc k))" if "k < 19" for k
    using assms(3) that by (simp add: safe_down_iff diff_diff_eq)
  note all = runs_cons[OF run_push_Id[of g n] runs_cons[OF run_pusha[of g plain_instruction] runs_cons[OF sw[of SEG_DS]
    runs_cons[OF sw[of SEG_ES] runs_cons[OF sw[of SEG_FS] runs_cons[OF sw[of SEG_GS] runs_cons[OF mv runs_cons[OF pr runs_cons[OF im
    runs_cons[OF ca runs_nil]]]]]]]]]]
  let ?v1 = "kv_interrupt [err] off v"
  have e1: "kv_esp ?v1 = kv_esp v - 16" "kv_reg ?v1 r = (if r = R_ESP then kv_esp v - 16 else kv_reg v r)" "kv_sel ?v1 = (kv_sel v)(SEG_CS := 8)"
    "kv_eip ?v1 = off" for r
    by (auto simp: kv_interrupt_def kv_seg_def) (simp_all add: kv_push_list_def kv_set_def kv_esp_def)
  have s4: "safe g (kv_esp v - 20)" "safe g (kv_esp v - 56)" "safe g (kv_esp v - 60)" "safe g (kv_esp v - 64)"
      "safe g (kv_esp v - 68)" "safe g (kv_esp v - 72)" "safe g (kv_esp v - 76)" "safe_down g (kv_esp v) 24 8"
    using sd[of 4] sd[of 13] sd[of 14] sd[of 15] sd[of 16] sd[of 17] sd[of 18] assms(3) by (simp_all add: numeral_eq_Suc)
  have shape: "(kv_set R_EAX f (kv_push_list (n # pusha_list (kv_push_list [n] ?v1)
      @ [low_half w1 (kv_sel v SEG_DS), low_half w2 (kv_sel v SEG_ES), low_half w3 (kv_sel v SEG_FS), low_half w4 (kv_sel v SEG_GS),
         kv_esp v - 68, off]) ?v1))\<lparr>kv_eip := f\<rparr>
    = (kv_set R_EAX f (kv_seg SEG_CS 8 (kv_push_list (irq_words v err n w1 w2 w3 w4 off (kv_esp v - 68)) v)))
        \<lparr>kv_eip := f, kv_flags := gate_flags (kv_flags v)\<rparr>" for w1 w2 w3 w4
  proof -
    have p: "pusha_list (kv_push_list [n] ?v1) = [kv_reg v R_EAX, kv_reg v R_ECX, kv_reg v R_EDX, kv_reg v R_EBX, kv_esp v - 20,
        kv_reg v R_EBP, kv_reg v R_ESI, kv_reg v R_EDI]" by (simp add: pusha_list_def e1 diff_diff_eq)
    show ?thesis unfolding p unfolding kv_interrupt_def push_list_commute by (simp add: irq_words_def kv_set_def)
  qed
  have "\<exists>s' w1 w2 w3 w4. run_all (PUSH_Id (ins_imm R_EAX n) # common_stub f) s = (Inr (), s') \<and> kernel g s'
    \<and> view s' = (kv_set R_EAX f (kv_push_list (n # pusha_list (kv_push_list [n] ?v1)
      @ [low_half w1 (kv_sel v SEG_DS), low_half w2 (kv_sel v SEG_ES), low_half w3 (kv_sel v SEG_FS), low_half w4 (kv_sel v SEG_GS),
         kv_esp v - 68, off]) ?v1))\<lparr>kv_eip := f\<rparr>"
    using all[unfolded runs_def, rule_format, OF assms(1)] s4
    by (simp add: assms(2) e1 safe_down_shift diff_diff_eq common_stub_def save_registers_def) blast
  then show ?thesis unfolding shape .
qed

section \<open>Interrupts are transparent\<close>

definition take_irq :: "task_switch \<Rightarrow> bx_descriptor \<Rightarrow> u8 \<Rightarrow> u32 \<Rightarrow> unit exec" where
  "take_irq ts d0 n f = seqM (interrupt ts d0 n BX_EXTERNAL_INTERRUPT False 0) (run_all (irq_entry (ucast n) f))"

text \<open>What the compiled dispatcher keeps: it returns with the stack pointer above its return address and the
17 dwords of the registers it was given a pointer to as they were.\<close>

definition dispatcher_returned :: "u32 \<Rightarrow> cpu \<Rightarrow> cpu \<Rightarrow> bool" where
  "dispatcher_returned g s1 s2 \<longleftrightarrow> kernel g s2 \<and> gen_reg s2 R_ESP = gen_reg s1 R_ESP + 4
     \<and> (\<forall>k<17. read32 (mem s2) (gen_reg s1 R_ESP + 8 + 4 * of_nat k) = read32 (mem s1) (gen_reg s1 R_ESP + 8 + 4 * of_nat k))"

text \<open>At the dispatcher: interrupts off, and its argument points at the interrupted registers and the vector.\<close>

definition at_dispatcher :: "u8 \<Rightarrow> u32 \<Rightarrow> cpu \<Rightarrow> cpu \<Rightarrow> bool" where
  "at_dispatcher n f s s1 \<longleftrightarrow> (let regs = read32 (mem s1) (gen_reg s1 R_ESP + 4) in
     EIP s1 = f \<and> \<not> get_flag 9 s1 \<and> regs = gen_reg s1 R_ESP + 8 \<and> gen_reg s1 R_ESP = gen_reg s R_ESP - 76
     \<and> saved_context (mem s1) regs = interrupted_context (view s) \<and> read32 (mem s1) (regs + 48) = ucast n
     \<and> (\<forall>b. aligned4 b \<longrightarrow> (\<forall>k<19. b \<noteq> gen_reg s R_ESP - 4 - 4 * of_nat k) \<longrightarrow> read32 (mem s1) b = read32 (mem s) b))"

definition continues :: "cpu \<Rightarrow> cpu \<Rightarrow> bool" where
  "continues s s3 \<longleftrightarrow> EIP s3 = EIP s \<and> (\<forall>r<8. gen_reg s3 r = gen_reg s r)
     \<and> (\<forall>r \<in> {SEG_ES, SEG_CS, SEG_DS, SEG_FS, SEG_GS}. sel_value (seg_selector (sregs s3 r)) = sel_value (seg_selector (sregs s r)))
     \<and> flags_image s3 AND (kernel_iret_mask AND EFlagsSupportMask) = flags_image s AND (kernel_iret_mask AND EFlagsSupportMask)"

lemma merge_masked: "merge_flags w fl cm AND (cm AND EFlagsSupportMask) = fl AND (cm AND EFlagsSupportMask)"
  by (rule bit_word_eqI) (auto simp: bit_merge bit_and_iff)

text \<open>The stub after a delivery, whoever pushed the error code.\<close>

lemma stub_enters:
  assumes "kernel g t" "view t = kv_interrupt [err] off (view s)" "safe_down g (gen_reg s R_ESP) 4 19"
  shows "\<exists>s1. run_all (PUSH_Id (ins_imm R_EAX (ucast n)) # common_stub f) t = (Inr (), s1) \<and> kernel g s1 \<and> at_dispatcher n f s s1
    \<and> read32 (mem s1) (gen_reg s1 R_ESP + 60) = err"
proof -
  let ?e = "gen_reg s R_ESP"
  have sd: "safe_down g (kv_esp (view s)) 4 19" using assms(3) by (simp add: kv_esp_def)
  obtain s1 w1 w2 w3 w4 where s1: "run_all (PUSH_Id (ins_imm R_EAX (ucast n)) # common_stub f) t = (Inr (), s1)" "kernel g s1"
    "view s1 = (kv_set R_EAX f (kv_seg SEG_CS 8 (kv_push_list (irq_words (view s) err (ucast n) w1 w2 w3 w4 off (kv_esp (view s) - 68)) (view s))))
         \<lparr>kv_eip := f, kv_flags := gate_flags (kv_flags (view s))\<rparr>"
    using run_stub[OF assms(1,2) sd, of "ucast n" f] by blast
  let ?L = "irq_words (view s) err (ucast n) w1 w2 w3 w4 off (kv_esp (view s) - 68)"
  have l: "length ?L = 19" by (simp add: irq_words_def)
  have e: "gen_reg s1 R_ESP = ?e - 76" using arg_cong[OF s1(3), of kv_esp] by (simp add: l) (simp add: kv_esp_def)
  have m: "mem s1 = write_down (kv_mem (view s)) (kv_esp (view s)) 4 ?L" using arg_cong[OF s1(3), of kv_mem]
    by (simp add: kv_push_list_def)
  have al: "aligned4 (kv_esp (view s))"
  proof -
    have "safe g (?e - 4)" using assms(3) by (simp add: numeral_eq_Suc)
    then have "aligned4 (?e - 4 + 4)" by (intro aligned4_add) (simp_all add: safe_def)
    then show ?thesis by (simp add: kv_esp_def)
  qed
  note r = irq_frame_read[OF al, where err = err and n = "ucast n" and ?w1.0 = w1 and ?w2.0 = w2 and ?w3.0 = w3 and ?w4.0 = w4 and ra = off
      and p = "kv_esp (view s) - 68", folded m, unfolded kv_esp_reg, simplified]
  have "\<not> bit (gate_flags w) 9" for w by (simp add: gate_flags_def bit_and_iff bit_not_iff bit_push_1)
  then have "\<not> get_flag 9 s1" using view_IF[of s1] arg_cong[OF s1(3), of kv_flags] by simp
  moreover have "EIP s1 = f" using arg_cong[OF s1(3), of kv_eip] by simp
  ultimately have "at_dispatcher n f s s1" using r e by (simp add: at_dispatcher_def Let_def)
  moreover have "read32 (mem s1) (gen_reg s1 R_ESP + 60) = err" using r(3) e by simp
  ultimately show ?thesis using s1(1,2) by blast
qed

lemma irq_enters:
  assumes "kernel g s" "idt_gate s n off" "safe_down g (gen_reg s R_ESP) 4 19"
  shows "\<exists>s1. take_irq ts d0 n f s = (Inr (), s1) \<and> kernel g s1 \<and> at_dispatcher n f s s1"
proof -
  have sd: "safe_down g (kv_esp (view s)) 4 4" "safe g (kv_esp (view s) - 16)"
    using assms(3) safe_down_append[of g "gen_reg s R_ESP" 4 4 15] by (simp_all add: kv_esp_def numeral_eq_Suc)
  obtain t where t: "interrupt ts d0 n BX_EXTERNAL_INTERRUPT False 0 s = (Inr (), t)" "kernel g t" "view t = kv_interrupt [] off (view s)"
    using deliver_interrupt[OF assms(1,2) sd(1), of BX_EXTERNAL_INTERRUPT ts d0 False 0] by (auto simp: error_words_def)
  obtain u where u: "PUSH_Id (ins_imm R_EAX 0) t = (Inr (), u)" "kernel g u" "view u = kv_interrupt [0] off (view s)"
  proof -
    have "safe g (kv_esp (view t) - 4)" using sd(2) by (simp add: t(3) interrupt_esp diff_diff_eq)
    then obtain u where "PUSH_Id (ins_imm R_EAX 0) t = (Inr (), u)" "kernel g u" "view u = kv_push 0 (view t)"
      using run_push_Id[of g 0] t(2) unfolding runs_def by blast
    then show thesis using that unfolding t(3) push_interrupt by simp
  qed
  show ?thesis using stub_enters[OF u(2,3) assms(3), of n f] t(1) u(1) by (auto simp: take_irq_def irq_entry_def exec_bind)
qed

lemma irq_leaves:
  assumes "kernel g s" "kernel_selectors s" "sel_value (seg_selector (sregs s SEG_CS)) = 8" "at_dispatcher n f s s1"
    and d: "dispatcher_returned g s1 s2"
  shows "\<exists>s3. run_all (irq_exit ts d0) s2 = (Inr (), s3) \<and> kernel g s3 \<and> continues s s3 \<and> mem s3 = mem s2"
proof -
  let ?e = "gen_reg s R_ESP" and ?c = "interrupted_context (view s)"
  have a: "gen_reg s1 R_ESP = ?e - 76" "saved_context (mem s1) (?e - 68) = ?c"
    using assms(4) by (auto simp: at_dispatcher_def Let_def)
  have nt: "\<not> bit (eflags s) 14" "\<not> bit (eflags s) 17" using assms(1) by (simp_all add: kernel_def protected_mode_def get_flag_def)
  have ok: "resumable ?c" using assms(2,3) nt
    by (simp add: resumable_def interrupted_context_def kernel_selectors_def system_bit)
  have pop: "runs g (\<lambda>_. True) (POP_EdR (ins_reg R_EAX)) (\<lambda>v. kv_set R_EAX (kv_top v) (kv_drop 4 v))"
    using run_pop_reg[of "ins_reg R_EAX" g] by simp
  have k: "kernel g s2" "gen_reg s2 R_ESP = ?e - 72" using d a(1) by (simp_all add: dispatcher_returned_def)
  have c: "saved_context (mem s2) (?e - 68) = ?c" unfolding a(2)[symmetric]
    by (rule saved_context_cong) (use d a(1) in \<open>simp add: dispatcher_returned_def\<close>)
  let ?v = "kv_set R_EAX (kv_top (view s2)) (kv_drop 4 (view s2))"
  have v: "kv_esp ?v = ?e - 68" "kv_mem ?v = mem s2" using k(2) by (simp_all add: kv_drop_def kv_set_def kv_esp_def)
  obtain s3 where s3: "run_all (irq_exit ts d0) s2 = (Inr (), s3)" "kernel g s3" "view s3 = kv_resume ?c (?e - 68) ?v"
    using runs_cons[OF pop run_resume[of g d0 ts], unfolded runs_def, rule_format, OF k(1), unfolded v c] ok unfolding irq_exit_def by blast
  have fl: "flags_image s3 = merge_flags (kv_flags ?v) (flags_image s) kernel_iret_mask"
    using arg_cong[OF s3(3), of kv_flags] by (simp add: kv_resume_def interrupted_context_def)
  have "r = 0 \<or> r = 1 \<or> r = 2 \<or> r = 3 \<or> r = 4 \<or> r = 5 \<or> r = 6 \<or> r = 7" if "r < 8" for r :: nat using that by linarith
  moreover have "gen_reg s3 = kv_reg (view s3)" "EIP s3 = kv_eip (view s3)" "sel_value (seg_selector (sregs s3 r)) = kv_sel (view s3) r" for r
    by simp_all
  ultimately have "continues s s3" unfolding continues_def fl merge_masked unfolding s3(3)
    by (auto simp: kv_resume_def interrupted_context_def INTERRUPT_STATE_SIZE_def)
  moreover have "mem s3 = mem s2" using arg_cong[OF s3(3), of kv_mem] v(2) by (simp add: kv_resume_def)
  ultimately show ?thesis using s3(1,2) by blast
qed

text \<open>C2: An external interrupt of the kernel is transparent: through the gate in the IDT the stub calls the dispatcher with
interrupts off and a pointer to the interrupted registers and the vector, nothing but the stack below the interrupted ESP
written; and after any dispatcher that keeps those registers the interrupted code continues with the same EIP,
general registers, selectors and flags, interrupts enabled again where they were.\<close>

theorem interrupt_is_transparent:
  assumes "kernel g s" "kernel_selectors s" "sel_value (seg_selector (sregs s SEG_CS)) = 8" "idt_gate s n off"
    and "safe_down g (gen_reg s R_ESP) 4 19"
  shows "\<exists>s1. take_irq ts d0 n f s = (Inr (), s1) \<and> at_dispatcher n f s s1
    \<and> (\<forall>s2. dispatcher_returned g s1 s2 \<longrightarrow>
         (\<exists>s3. run_all (irq_exit ts d0) s2 = (Inr (), s3) \<and> kernel g s3 \<and> continues s s3 \<and> mem s3 = mem s2))"
  using irq_enters[OF assms(1,4,5)] irq_leaves[OF assms(1-3)] by metis

definition irq_machine :: cpu where
  "irq_machine = flat_cpu\<lparr>mem := word_memory (kernel_gdt @ [(0x900, 0x00085000), (0x904, 0x00008E00)]), eflags := 0x202\<rparr>"

lemma all_below_19: "\<forall>k<17. P k \<Longrightarrow> P 17 \<Longrightarrow> P 18 \<Longrightarrow> \<forall>k<19. P (k :: nat)"
  by (metis One_nat_def Suc_1 less_antisym numeral_eq_Suc pred_numeral_simps(2) pred_numeral_simps(3) semiring_norm(26) semiring_norm(28))

lemma irq_machine_ok: "kernel 0x200 irq_machine" "kernel_selectors irq_machine" "sel_value (seg_selector (sregs irq_machine SEG_CS)) = 8"
  "idt_gate irq_machine 32 0x5000" "safe_down 0x200 (gen_reg irq_machine R_ESP) 4 19"
proof -
  show "kernel 0x200 irq_machine"
    by (simp add: kernel_def irq_machine_def flat_cpu_def flat_segment_def protected_mode_def get_PE_def get_flag_def unpaged_def get_PG_def CPL_def
      flat_rw_def ss_32_def bit_numeral_rec gdt_ok_def word_memory_read kernel_gdt_def)
  show "kernel_selectors irq_machine" "sel_value (seg_selector (sregs irq_machine SEG_CS)) = 8"
    by (simp_all add: kernel_selectors_def irq_machine_def flat_cpu_def flat_segment_def)
  show "idt_gate irq_machine 32 0x5000"
    by (simp add: idt_gate_def irq_machine_def flat_cpu_def word_memory_read kernel_gdt_def gate_low_def gate_high_def)
  show "safe_down 0x200 (gen_reg irq_machine R_ESP) 4 19"
    unfolding safe_down_iff by (rule all_below_19) (simp_all add: all_below_17 irq_machine_def flat_cpu_def safe_def)
qed

lemma empty_dispatcher:
  assumes "kernel g s1"
  shows "\<exists>s2. RETnear32 plain_instruction s1 = (Inr (), s2) \<and> dispatcher_returned g s1 s2"
proof -
  obtain s2 where s2: "RETnear32 plain_instruction s1 = (Inr (), s2)" "kernel g s2" "view s2 = (kv_drop 4 (view s1))\<lparr>kv_eip := kv_top (view s1)\<rparr>"
    using run_ret[of g plain_instruction] assms unfolding runs_def by blast
  have "dispatcher_returned g s1 s2"
    using s2(2) arg_cong[OF s2(3), of kv_esp] arg_cong[OF s2(3), of kv_mem] by (simp add: dispatcher_returned_def kv_drop_def kv_set_def kv_esp_def)
  then show ?thesis using s2(1) by blast
qed

theorem interrupt_is_transparent_witness:
  "\<exists>s1 s2 s3. take_irq no_task_switch d_DS 32 0x7000 irq_machine = (Inr (), s1) \<and> EIP s1 = 0x7000 \<and> \<not> get_flag 9 s1
    \<and> RETnear32 plain_instruction s1 = (Inr (), s2) \<and> run_all (irq_exit no_task_switch d_DS) s2 = (Inr (), s3) \<and> EIP s3 = 0x100000
    \<and> gen_reg s3 R_ESP = 0x1000"
proof -
  obtain s1 where s1: "take_irq no_task_switch d_DS 32 0x7000 irq_machine = (Inr (), s1)" "at_dispatcher 32 0x7000 irq_machine s1"
    "\<And>s2. dispatcher_returned 0x200 s1 s2 \<Longrightarrow> \<exists>s3. run_all (irq_exit no_task_switch d_DS) s2 = (Inr (), s3) \<and> continues irq_machine s3"
    using interrupt_is_transparent[OF irq_machine_ok, where f = "0x7000" and ts = no_task_switch and ?d0.0 = d_DS] by blast
  have k: "kernel 0x200 s1" using irq_enters[OF irq_machine_ok(1,4,5), where f = "0x7000" and ts = no_task_switch and ?d0.0 = d_DS] s1(1) by auto
  obtain s2 where s2: "RETnear32 plain_instruction s1 = (Inr (), s2)" "dispatcher_returned 0x200 s1 s2" using empty_dispatcher[OF k] by blast
  from s1(3)[OF s2(2)] obtain s3 where "run_all (irq_exit no_task_switch d_DS) s2 = (Inr (), s3)" "continues irq_machine s3" by blast
  then show ?thesis using s1(1,2) s2(1) by (auto simp: at_dispatcher_def Let_def continues_def irq_machine_def flat_cpu_def)
qed

section \<open>An interrupt inside the context switch\<close>

text \<open>The first instructions of the switch: EAX and the return address are saved below ESP, which then moves up past
the return address.\<close>

lemma switch_prefix:
  assumes "kernel g s" "safe g (gen_reg s R_ESP - 4)" "safe g (gen_reg s R_ESP - 8)" "aligned4 (gen_reg s R_ESP)"
  shows "\<exists>u. run_all (take 4 modify_stack) s = (Inr (), u) \<and> kernel g u \<and> gen_reg u R_ESP = gen_reg s R_ESP + 4 \<and> EIP u = EIP s
    \<and> (\<forall>r. sel_value (seg_selector (sregs u r)) = sel_value (seg_selector (sregs s r)))
    \<and> read32 (mem u) (gen_reg s R_ESP - 4) = gen_reg s R_EAX \<and> read32 (mem u) (gen_reg s R_ESP - 8) = read32 (mem s) (gen_reg s R_ESP)
    \<and> (\<forall>b. aligned4 b \<longrightarrow> b \<notin> {gen_reg s R_ESP - 4, gen_reg s R_ESP - 8} \<longrightarrow> read32 (mem u) b = read32 (mem s) b)"
proof -
  have pr: "runs g (\<lambda>v. safe g (kv_esp v - 4)) (PUSH_EdR (ins_reg R_EAX)) (\<lambda>v. kv_push (kv_reg v R_EAX) v)"
    using run_push_reg[of g "ins_reg R_EAX"] by simp
  have i: "runs g (\<lambda>_. True) (MOV32S_GdEdM (ins_mem R_EAX SEG_SS R_ESP d)) (\<lambda>v. kv_set R_EAX (kv_load (kv_reg v R_ESP + d) v) v)" for d
    using run_load_stack[of "ins_mem R_EAX SEG_SS R_ESP d" g] by simp
  have st: "runs g (\<lambda>v. safe g (kv_reg v R_ESP - 4)) (MOV32S_EdGdM (ins_mem R_EAX SEG_SS R_ESP (- 4)))
      (\<lambda>v. kv_store (kv_reg v R_ESP - 4) (kv_reg v R_EAX) v)"
    using run_store_stack[of "ins_mem R_EAX SEG_SS R_ESP (- 4)" g] by simp
  have ad: "runs g (\<lambda>_. True) (ADD_EdIdR (ins_imm R_ESP 8))
      (\<lambda>v. kv_arith (add_flags (kv_reg v R_ESP) 8 False) (kv_set R_ESP (kv_reg v R_ESP + 8) v))"
    using run_add[of "ins_imm R_ESP 8" g] by simp
  let ?e = "gen_reg s R_ESP"
  let ?m = "write32 (mem s) (?e - 4) (gen_reg s R_EAX)"
  note all = runs_cons[OF pr runs_cons[OF i[of 4] runs_cons[OF st runs_cons[OF ad runs_nil]]]]
  have t: "take 4 modify_stack = [PUSH_EdR (ins_reg R_EAX), MOV32S_GdEdM (ins_mem R_EAX SEG_SS R_ESP 4),
      MOV32S_EdGdM (ins_mem R_EAX SEG_SS R_ESP (- 4)), ADD_EdIdR (ins_imm R_ESP 8)]" by (simp add: modify_stack_def)
  have w: "read32 ?m ?e = read32 (mem s) ?e" using assms(4) by (simp add: read32_write32 aligned4_offset)
  have "\<exists>u'. run_all (take 4 modify_stack) s = (Inr (), u') \<and> kernel g u'
    \<and> view u' = kv_arith (add_flags (?e - 4) 8 False) ((view s)\<lparr>kv_mem := write32 ?m (?e - 8) (read32 (mem s) ?e),
        kv_reg := (gen_reg s)(R_ESP := ?e + 4, R_EAX := read32 (mem s) ?e)\<rparr>)"
    using all[unfolded runs_def, rule_format, OF assms(1)] assms(2,3) unfolding t
    by (simp add: kv_push_def kv_set_def kv_esp_def kv_load_def kv_store_def w fun_upd_twist add.commute del: push_list_commute)
  then obtain u where u': "run_all (take 4 modify_stack) s = (Inr (), u)" "kernel g u"
    "view u = kv_arith (add_flags (?e - 4) 8 False) ((view s)\<lparr>kv_mem := write32 ?m (?e - 8) (read32 (mem s) ?e),
        kv_reg := (gen_reg s)(R_ESP := ?e + 4, R_EAX := read32 (mem s) ?e)\<rparr>)" by blast
  have "mem u = write32 ?m (?e - 8) (read32 (mem s) ?e)" "gen_reg u R_ESP = ?e + 4" "EIP u = EIP s"
    "sel_value (seg_selector (sregs u r)) = sel_value (seg_selector (sregs s r))" for r
    using arg_cong[OF u'(3), of kv_mem] arg_cong[OF u'(3), of kv_reg] arg_cong[OF u'(3), of kv_eip] arg_cong[OF u'(3), of "\<lambda>v. kv_sel v r"]
    by (simp_all add: kv_arith_def)
  then show ?thesis using u'(1,2) assms(4) by (intro exI[of _ u]) (auto simp: read32_write32 aligned4_offset)
qed

text \<open>No instruction of the prefix touches the IDT register.\<close>

interpretation idtr: state_relation "\<lambda>s t. idtr t = idtr s"
  by unfold_locales simp_all

lemma quiet_idtr: "quiet m \<Longrightarrow> keeps (\<lambda>s t. idtr t = idtr s) m"
  by (simp add: keeps_def regs_same_def)

lemma prefix_idtr: "idtr (snd (run_all (take 4 modify_stack) s)) = idtr s"
proof -
  have s: "idtr (set_reg32 r v t) = idtr t" "idtr (set_reg16 r w t) = idtr t" for r v w t by (simp_all add: set_reg32_def set_reg16_def)
  have "keeps (\<lambda>s t. idtr t = idtr s) (run_all (take 4 modify_stack))"
    unfolding modify_stack_def take_Cons_numeral run_all.simps PUSH_EdR_def push_32_def MOV32S_GdEdM_def MOV32S_EdGdM_def ADD_EdIdR_def
    apply simp
    apply (intro idtr.keep_rules quiet_rules[THEN quiet_idtr])
    apply (simp_all add: s Let_def)
    done
  then show ?thesis by (simp add: keeps_def)
qed

text \<open>C37: The context switch is not safe with interrupts on, as P6 runs it: after its fourth instruction the saved EAX and the
return address lie below ESP, and an interrupt there leaves the interrupted EIP where the return address was and the
code selector, 8, where EAX was, for the following instructions to pick up.\<close>

theorem interrupt_in_switch_loses_return_address:
  assumes "kernel g s" "kernel_selectors s" "sel_value (seg_selector (sregs s SEG_CS)) = 8" "aligned4 (gen_reg s R_ESP)"
    and "safe_down g (gen_reg s R_ESP + 4) 4 19" "run_all (take 4 modify_stack) s = (Inr (), u)" "idt_gate u n off"
  shows "read32 (mem u) (gen_reg s R_ESP - 8) = read32 (mem s) (gen_reg s R_ESP) \<and> read32 (mem u) (gen_reg s R_ESP - 4) = gen_reg s R_EAX
    \<and> (\<exists>s1. take_irq ts d0 n f u = (Inr (), s1) \<and> (\<forall>s2. dispatcher_returned g s1 s2 \<longrightarrow>
         (\<exists>s3. run_all (irq_exit ts d0) s2 = (Inr (), s3) \<and> read32 (mem s3) (gen_reg s R_ESP - 8) = EIP s
           \<and> ucast (read32 (mem s3) (gen_reg s R_ESP - 4)) = (8 :: u16))))"
proof -
  let ?e = "gen_reg s R_ESP"
  have sf: "safe g (?e - 4)" "safe g (?e - 8)" using assms(5) by (simp_all add: numeral_eq_Suc)
  have u: "kernel g u" "gen_reg u R_ESP = ?e + 4" "EIP u = EIP s" "\<And>r. sel_value (seg_selector (sregs u r)) = sel_value (seg_selector (sregs s r))"
    "read32 (mem u) (?e - 4) = gen_reg s R_EAX" "read32 (mem u) (?e - 8) = read32 (mem s) ?e"
    using switch_prefix[OF assms(1) sf assms(4)] assms(6) by auto
  have ku: "kernel_selectors u" "sel_value (seg_selector (sregs u SEG_CS)) = 8" "safe_down g (gen_reg u R_ESP) 4 19"
    using u assms(2,3,5) by (simp_all add: kernel_selectors_def)
  obtain s1 where s1: "take_irq ts d0 n f u = (Inr (), s1)" "kernel g s1" "at_dispatcher n f u s1"
    using irq_enters[OF _ assms(7) ku(3)] u by blast
  have p: "gen_reg s1 R_ESP = ?e - 72" "saved_context (mem s1) (?e - 64) = interrupted_context (view u)"
    using s1(3) u by (auto simp: at_dispatcher_def Let_def)
  have "\<exists>s3. run_all (irq_exit ts d0) s2 = (Inr (), s3) \<and> read32 (mem s3) (?e - 8) = EIP s \<and> ucast (read32 (mem s3) (?e - 4)) = (8 :: u16)"
    if d: "dispatcher_returned g s1 s2" for s2
  proof -
    have "saved_context (mem s2) (?e - 64) = interrupted_context (view u)" unfolding p(2)[symmetric]
      by (rule saved_context_cong) (use d p(1) in \<open>simp add: dispatcher_returned_def\<close>)
    then have "read32 (mem s2) (?e - 8) = EIP s" "ucast (read32 (mem s2) (?e - 4)) = (8 :: u16)"
      using u ku(2) by (simp_all add: saved_context_def interrupted_context_def)
    then show ?thesis using irq_leaves[OF _ ku(1,2) s1(3) d, where ts = ts and ?d0.0 = d0] u by metis
  qed
  then show ?thesis using u s1(1) by blast
qed

theorem interrupt_in_switch_loses_return_address_witness:
  "\<exists>u s1. run_all (take 4 modify_stack) irq_machine = (Inr (), u) \<and> take_irq no_task_switch d_DS 32 0x7000 u = (Inr (), s1)
    \<and> read32 (mem u) 0xFF8 = 0 \<and> (\<exists>s2 s3. RETnear32 plain_instruction s1 = (Inr (), s2)
      \<and> run_all (irq_exit no_task_switch d_DS) s2 = (Inr (), s3) \<and> read32 (mem s3) 0xFF8 = 0x100000)"
proof -
  let ?s = irq_machine
  have e: "gen_reg ?s R_ESP = 0x1000" by (simp add: irq_machine_def flat_cpu_def)
  have a: "aligned4 (gen_reg ?s R_ESP)" "safe 0x200 (gen_reg ?s R_ESP - 4)" "safe 0x200 (gen_reg ?s R_ESP - 8)"
    by (simp_all add: e safe_def aligned4_def)
  have sd: "safe_down 0x200 (gen_reg ?s R_ESP + 4) 4 19"
    unfolding safe_down_iff by (rule all_below_19) (simp_all add: all_below_17 e safe_def)
  obtain u where u: "run_all (take 4 modify_stack) ?s = (Inr (), u)" "kernel 0x200 u" "gen_reg u R_ESP = gen_reg ?s R_ESP + 4" "EIP u = EIP ?s"
    "\<And>r. sel_value (seg_selector (sregs u r)) = sel_value (seg_selector (sregs ?s r))"
    "\<And>b. aligned4 b \<Longrightarrow> b \<notin> {gen_reg ?s R_ESP - 4, gen_reg ?s R_ESP - 8} \<Longrightarrow> read32 (mem u) b = read32 (mem ?s) b"
    using switch_prefix[OF irq_machine_ok(1) a(2,3,1)] by blast
  have i: "idtr u = idtr ?s" using prefix_idtr[of ?s] u(1) by simp
  have g: "idt_gate u 32 0x5000"
    using irq_machine_ok(4) u(6)[of "0x900"] u(6)[of "0x904"]
    by (simp add: idt_gate_def i e aligned4_def) (simp add: irq_machine_def flat_cpu_def)
  note t = interrupt_in_switch_loses_return_address[OF irq_machine_ok(1-3) a(1) sd u(1) g, where f = "0x7000" and ts = no_task_switch and ?d0.0 = d_DS]
  obtain s1 where s1: "take_irq no_task_switch d_DS 32 0x7000 u = (Inr (), s1)"
    "\<And>s2. dispatcher_returned 0x200 s1 s2 \<Longrightarrow> \<exists>s3. run_all (irq_exit no_task_switch d_DS) s2 = (Inr (), s3)
      \<and> read32 (mem s3) (gen_reg ?s R_ESP - 8) = EIP ?s" using t by blast
  have z: "read32 (mem u) (gen_reg ?s R_ESP - 8) = read32 (mem ?s) (gen_reg ?s R_ESP)" using t by blast
  have k: "kernel 0x200 s1"
  proof -
    have "kernel_selectors u" "sel_value (seg_selector (sregs u SEG_CS)) = 8" "safe_down 0x200 (gen_reg u R_ESP) 4 19"
      using u(3,5) irq_machine_ok(2,3) sd by (simp_all add: kernel_selectors_def)
    then show ?thesis using irq_enters[OF u(2) g, where f = "0x7000" and ts = no_task_switch and ?d0.0 = d_DS] s1(1) by auto
  qed
  obtain s2 where s2: "RETnear32 plain_instruction s1 = (Inr (), s2)" "dispatcher_returned 0x200 s1 s2" using empty_dispatcher[OF k] by blast
  from s1(2)[OF s2(2)] obtain s3 where s3: "run_all (irq_exit no_task_switch d_DS) s2 = (Inr (), s3)" "read32 (mem s3) (gen_reg ?s R_ESP - 8) = EIP ?s" by blast
  have "read32 (mem u) 0xFF8 = 0" using z by (simp add: e) (simp add: irq_machine_def word_memory_read kernel_gdt_def)
  moreover have "read32 (mem s3) 0xFF8 = 0x100000" using s3(2) by (simp add: e) (simp add: irq_machine_def flat_cpu_def)
  ultimately show ?thesis using u(1) s1(1) s2(1) s3(1) by blast
qed

end
