(* ===== verification/ExceptionEntry.thy ===== *)
theory ExceptionEntry
  imports InterruptEntry
begin

text \<open>
  Exceptions of the kernels' own code (P3 to P6): an instruction faults, the CPU's \<open>exception\<close> delivers the fault through the
  gate that \<open>ExceptionHandler::init_dispatcher\<close> installed, the stub of idt_low.asm completes the frame and calls the dispatcher, and after its return the
  faulting instruction runs again with the registers it had.
\<close>

section \<open>The stubs (idt_low.asm)\<close>

text \<open>The stubs of the exceptions for which the CPU pushes an error code push the number only. The common stub is that of
irq_low.asm with another dispatcher.\<close>

definition isr_entry :: "nat \<Rightarrow> u32 \<Rightarrow> unit exec list" where
  "isr_entry n dispatch =
     (if n \<in> {8, 10, 11, 12, 13, 14} then [] else [PUSH_Id (ins_imm R_EAX 0)])
     @ PUSH_Id (ins_imm R_EAX (of_nat n)) # common_stub dispatch"

definition isr_exit :: "task_switch \<Rightarrow> bx_descriptor \<Rightarrow> unit exec list" where
  "isr_exit ts d0 = POP_EdR (ins_reg R_EAX) # (restore_registers d0 @ [IRET32 ts d0 plain_instruction])"

text \<open>An exception up to the dispatcher; None when it is not delivered.\<close>

definition take_exception :: "task_switch \<Rightarrow> bx_descriptor \<Rightarrow> nat \<Rightarrow> u16 \<Rightarrow> u32 \<Rightarrow> cpu \<Rightarrow> ((cpu_exn + unit) \<times> cpu) option" where
  "take_exception ts d0 n e f s =
     Option.bind (raise_exception ts d0 n e s) (\<lambda>(out, t). if out = Delivered then Some (run_all (isr_entry n f) t) else None)"

section \<open>Delivery\<close>

text \<open>The state that a fault saves: EIP and ESP as before the instruction, RF set.\<close>

definition fault_class :: "nat \<Rightarrow> bool" where
  "fault_class n \<longleftrightarrow> n < 32 \<and> n \<notin> {1, 3, 4, 17, 18}"

definition at_fault :: "cpu \<Rightarrow> cpu" where
  "at_fault s = assert_flag 16 (restore_rip_rsp s)"

definition pushed_error :: "nat \<Rightarrow> u16 \<Rightarrow> cpu \<Rightarrow> u32" where
  "pushed_error n e s =
     (if n \<notin> {8, 10, 11, 12, 13, 14} then 0 else if n \<in> {8, 14} then ucast e else ucast ((e AND 0xFFFE) OR of_bool (EXT s)))"

lemma kernel_exception_state [simp]:
  "kernel g (s\<lparr>EXT := x, last_exception_type := k\<rparr>) = kernel g s" "view (s\<lparr>EXT := x, last_exception_type := k\<rparr>) = view s"
  "kernel g (s\<lparr>last_exception_type := k\<rparr>) = kernel g s" "view (s\<lparr>last_exception_type := k\<rparr>) = view s"
  by (simp_all add: kernel_def view_def protected_mode_def get_PE_def get_flag_def unpaged_def get_PG_def CPL_def flat_rw_def
      ss_32_def flags_image_eq)

lemma raise_delivers:
  assumes "fault_class n" "last_exception_type s = BX_ET_BENIGN" "kernel g (at_fault s)" "idt_gate (at_fault s) (of_nat n) off"
    and "safe_down g (gen_reg (at_fault s) R_ESP) 4 4"
  shows "\<exists>t. raise_exception ts d0 n e s = Some (Delivered, t) \<and> kernel g t
    \<and> view t = kv_interrupt (if n \<in> {8, 10, 11, 12, 13, 14} then [pushed_error n e s] else []) off (view (at_fault s))"
proof -
  let ?b = "at_fault s" and ?type = "fst (exceptions_info n)" and ?pe = "n \<in> {8, 10, 11, 12, 13, 14}"
  let ?e = "if n \<noteq> BX_PF_EXCEPTION \<and> n \<noteq> BX_DF_EXCEPTION then (e AND 0xFFFE) OR of_bool (EXT s) else e"
  let ?s = "?b\<lparr>EXT := True, last_exception_type := ?type\<rparr>"
  have n: "n < 32" "n \<noteq> 1" "fst (snd (exceptions_info n)) = BX_EXCEPTION_CLASS_FAULT" "snd (snd (exceptions_info n)) = ?pe"
    using assms(1) by (auto simp: fault_class_def exceptions_info_def)
  have l: "last_exception_type (restore_rip_rsp s) = BX_ET_BENIGN" "EXT (restore_rip_rsp s) = EXT s"
    "last_exception_type (assert_flag 16 (restore_rip_rsp s)) = BX_ET_BENIGN"
    using assms(2) by (simp_all add: assert_flag_def restore_rip_rsp_def Let_def set_reg32_def)
  have ok: "?type = BX_ET_DOUBLE_FAULT \<or> is_exception_OK BX_ET_BENIGN ?type"
    by (simp add: exceptions_info_def is_exception_OK_def BX_ET_BENIGN_def BX_ET_CONTRIBUTORY_def BX_ET_PAGE_FAULT_def BX_ET_DOUBLE_FAULT_def)
  have k: "kernel g ?s" "view ?s = view ?b" using assms(3) by simp_all
  have g: "idt_gate ?s (of_nat n) off" using assms(4) by (simp add: idt_gate_def)
  have sd: "safe_down g (kv_esp (view ?s)) 4 4" using assms(5) k(2) by (simp add: kv_esp_def)
  obtain t where t: "interrupt ts d0 (of_nat n) BX_HARDWARE_EXCEPTION ?pe ?e ?s = (Inr (), t)" "kernel g t"
      "view t = kv_interrupt (error_words ?pe ?e) off (view ?s)"
    using deliver_interrupt[OF k(1) g sd, of BX_HARDWARE_EXCEPTION ts d0 ?pe ?e] by auto
  have md: "\<not> real_mode ?s" using k(1) by (simp add: kernel_def protected_mode_def real_mode_def)
  have "raise_exception ts d0 n e s = Some (Delivered, t\<lparr>last_exception_type := BX_ET_BENIGN\<rparr>)"
    using n l ok md t(1) by (subst raise_exception.simps) (auto simp: Let_def at_fault_def BX_ET_BENIGN_def BX_ET_DOUBLE_FAULT_def)
  moreover have "error_words ?pe ?e = (if ?pe then [pushed_error n e s] else [])"
    by (simp add: error_words_def pushed_error_def)
  ultimately show ?thesis using t(2,3) k(2) by simp
qed

lemma exception_enters:
  assumes "fault_class n" "last_exception_type s = BX_ET_BENIGN" "kernel g (at_fault s)" "idt_gate (at_fault s) (of_nat n) off"
    and "safe_down g (gen_reg (at_fault s) R_ESP) 4 19"
  shows "\<exists>s1. take_exception ts d0 n e f s = Some (Inr (), s1) \<and> kernel g s1 \<and> at_dispatcher (of_nat n) f (at_fault s) s1
    \<and> read32 (mem s1) (gen_reg s1 R_ESP + 60) = pushed_error n e s"
proof -
  let ?b = "at_fault s" and ?pe = "n \<in> {8, 10, 11, 12, 13, 14}"
  have sd: "safe_down g (gen_reg ?b R_ESP) 4 4" "safe g (gen_reg ?b R_ESP - 16)"
    using assms(5) safe_down_append[of g "gen_reg ?b R_ESP" 4 4 15] by (simp_all add: numeral_eq_Suc)
  obtain t where t: "raise_exception ts d0 n e s = Some (Delivered, t)" "kernel g t"
      "view t = kv_interrupt (if ?pe then [pushed_error n e s] else []) off (view ?b)"
    using raise_delivers[OF assms(1-4) sd(1)] by blast
  have n: "(ucast (of_nat n :: u8) :: u32) = of_nat n" using assms(1)
    by (simp add: fault_class_def unsigned_of_nat take_bit_nat_eq_self)
  note enter = stub_enters[where n = "of_nat n :: u8" and f = f and s = ?b and g = g and off = off and err = "pushed_error n e s", unfolded n, OF _ _ assms(5)]
  show ?thesis
  proof (cases ?pe)
    case True
    then have "view t = kv_interrupt [pushed_error n e s] off (view ?b)" using t(3) by simp
    from enter[OF t(2) this] obtain s1 where s1: "run_all (PUSH_Id (ins_imm R_EAX (of_nat n)) # common_stub f) t = (Inr (), s1)"
      "kernel g s1" "at_dispatcher (of_nat n) f ?b s1" "read32 (mem s1) (gen_reg s1 R_ESP + 60) = pushed_error n e s" by blast
    have "take_exception ts d0 n e f s = Some (run_all (PUSH_Id (ins_imm R_EAX (of_nat n)) # common_stub f) t)"
      using True by (simp only: take_exception_def t(1) isr_entry_def bind.bind_lunit prod.case if_True append_Nil simp_thms)
    then show ?thesis using s1 by auto
  next
    case False
    then have p: "pushed_error n e s = 0" by (simp add: pushed_error_def)
    have v: "view t = kv_interrupt [] off (view ?b)" using t(3) False by simp
    have "safe g (kv_esp (view t) - 4)" unfolding v interrupt_esp using sd(2) by (simp add: kv_esp_def diff_diff_eq)
    then obtain u where u: "PUSH_Id (ins_imm R_EAX 0) t = (Inr (), u)" "kernel g u" "view u = kv_push 0 (view t)"
      using run_push_Id[of g 0] t(2) unfolding runs_def by blast
    then have "view u = kv_interrupt [pushed_error n e s] off (view ?b)" unfolding v push_interrupt p by simp
    from enter[OF u(2) this] obtain s1 where s1: "run_all (PUSH_Id (ins_imm R_EAX (of_nat n)) # common_stub f) u = (Inr (), s1)"
      "kernel g s1" "at_dispatcher (of_nat n) f ?b s1" "read32 (mem s1) (gen_reg s1 R_ESP + 60) = pushed_error n e s" by blast
    have "take_exception ts d0 n e f s = Some (run_all (PUSH_Id (ins_imm R_EAX 0) # PUSH_Id (ins_imm R_EAX (of_nat n)) # common_stub f) t)"
      using False by (simp only: take_exception_def t(1) isr_entry_def bind.bind_lunit prod.case if_False append_Cons append_Nil simp_thms if_True)
    moreover have "run_all (PUSH_Id (ins_imm R_EAX 0) # PUSH_Id (ins_imm R_EAX (of_nat n)) # common_stub f) t = (Inr (), s1)"
      using u(1) s1(1) by (simp add: exec_bind)
    ultimately show ?thesis using s1 by auto
  qed
qed

section \<open>The faulting instruction\<close>

text \<open>A restartable instruction that faults leaves the registers of its start for \<open>exception\<close> to save.\<close>

lemma with_arith_assert: "n \<notin> {0, 2, 4, 6, 7, 11} \<Longrightarrow> n < 32 \<Longrightarrow> with_arith a (w OR push_bit n 1) = with_arith a w OR push_bit n 1"
proof (rule bit_word_eqI)
  fix k assume n: "n \<notin> {0, 2, 4, 6, 7, 11}" "n < 32"
  then show "bit (with_arith a (w OR push_bit n 1)) k = bit (with_arith a w OR push_bit n 1) k"
    using bit_push_1[OF n(2), of k] by (auto simp: bit_with_arith bit_or_iff arith_bit_def split: option.splits)
qed

lemma restart_state:
  assumes "kernel g s" "restartable m" "\<not> speculative_rsp s" "m s = (Inl x, t)" "gdt_ok g (mem t)"
  shows "kernel g (at_fault t)" "gen_reg (at_fault t) = gen_reg s" "EIP (at_fault t) = prev_rip s" "idtr (at_fault t) = idtr s"
    "sel_value (seg_selector (sregs (at_fault t) r)) = sel_value (seg_selector (sregs s r))" "mem (at_fault t) = mem t"
    "flags_image (at_fault t) = flags_image s OR push_bit 16 1" "last_exception_type t = last_exception_type s" "EXT t = EXT s"
proof -
  have v: "visible_same s (restore_rsp t)" using assms(2-4) unfolding restartable_def by blast
  have p: "prev_rip (restore_rsp t) = prev_rip t" "mem (restore_rsp t) = mem t" "last_exception_type (restore_rsp t) = last_exception_type t"
    "EXT (restore_rsp t) = EXT t" by (simp_all add: restore_rsp_def set_reg32_def)
  have a: "at_fault t = (restore_rsp t)\<lparr>EIP := prev_rip s, eflags := eflags s OR push_bit 16 1\<rparr>"
  proof -
    have "at_fault t = (restore_rsp t)\<lparr>EIP := prev_rip t, eflags := eflags (restore_rsp t) OR push_bit 16 1\<rparr>"
      by (cases "speculative_rsp t") (simp_all add: at_fault_def restore_rip_rsp_def restore_rsp_def set_reg32_def assert_flag_def)
    then show ?thesis using v p by (simp add: visible_same_def)
  qed
  have f: "gen_reg (restore_rsp t) = gen_reg s" "oszapc (restore_rsp t) = oszapc s" "cr0 (restore_rsp t) = cr0 s" "gdtr (restore_rsp t) = gdtr s"
    "idtr (restore_rsp t) = idtr s" "alignment_check_mask (restore_rsp t) = alignment_check_mask s" "\<And>r. same_seg (sregs s r) (sregs (restore_rsp t) r)"
    using v by (simp_all add: visible_same_def)
  note sg = f(7)[THEN same_segD(1)] f(7)[THEN same_segD(2)] f(7)[THEN same_segD(3)] f(7)[THEN same_segD(4)]
    f(7)[THEN same_segD(5)] f(7)[THEN same_segD(6)] f(7)[THEN same_segD(7)]
  have b: "bit (w OR 65536) 17 = bit w 17" "bit (w OR 65536) 14 = bit w 14" for w :: u32
    by (simp_all add: bit_or_iff bit_numeral_rec)
  show "kernel g (at_fault t)" using assms(1,5) unfolding a
    by (simp add: kernel_def protected_mode_def get_PE_def get_flag_def unpaged_def get_PG_def CPL_def flat_rw_def Let_def ss_32_def f(1-6) sg p(2) b)
  show "gen_reg (at_fault t) = gen_reg s" "EIP (at_fault t) = prev_rip s" "idtr (at_fault t) = idtr s" "mem (at_fault t) = mem t"
    unfolding a by (simp_all add: f p)
  show "sel_value (seg_selector (sregs (at_fault t) r)) = sel_value (seg_selector (sregs s r))" unfolding a by (simp add: sg)
  show "flags_image (at_fault t) = flags_image s OR push_bit 16 1" unfolding a by (simp add: flags_image_eq f with_arith_assert[of 16, simplified])
  show "last_exception_type t = last_exception_type s" "EXT t = EXT s" using v p by (simp_all add: visible_same_def)
qed

text \<open>The interrupted program after the handler: as at the start of the instruction, with RF set.\<close>

definition restarts :: "cpu \<Rightarrow> cpu \<Rightarrow> bool" where
  "restarts s s3 \<longleftrightarrow> EIP s3 = prev_rip s \<and> (\<forall>r<8. gen_reg s3 r = gen_reg s r)
     \<and> (\<forall>r \<in> {SEG_ES, SEG_CS, SEG_DS, SEG_FS, SEG_GS}. sel_value (seg_selector (sregs s3 r)) = sel_value (seg_selector (sregs s r)))
     \<and> flags_image s3 AND (kernel_iret_mask AND EFlagsSupportMask)
       = (flags_image s OR push_bit 16 1) AND (kernel_iret_mask AND EFlagsSupportMask)"

text \<open>C3: An instruction of the kernel that faults is restarted: the CPU raises the exception with ESP and EIP of the start of the
instruction, the stub calls the dispatcher with interrupts off and with a pointer to the registers, the exception
number and the error code that the CPU pushed, or 0 for the exceptions that have none; and after any handler that keeps the saved
registers the instruction runs again with the general registers, selectors and flags it had, RF set.\<close>

theorem exception_restarts_instruction:
  assumes "kernel g s" "kernel_selectors s" "sel_value (seg_selector (sregs s SEG_CS)) = 8" "\<not> speculative_rsp s"
    and "restartable m" "m s = (Inl (Cpu_Exn n e), t)" "fault_class n" "last_exception_type s = BX_ET_BENIGN"
    and "gdt_ok g (mem t)" "idt_gate (at_fault t) (of_nat n) off" "safe_down g (gen_reg s R_ESP) 4 19"
  shows "\<exists>s1. take_exception ts d0 n e f t = Some (Inr (), s1) \<and> at_dispatcher (of_nat n) f (at_fault t) s1
    \<and> read32 (mem s1) (gen_reg s1 R_ESP + 60) = pushed_error n e s
    \<and> (\<forall>s2. dispatcher_returned g s1 s2 \<longrightarrow>
         (\<exists>s3. run_all (isr_exit ts d0) s2 = (Inr (), s3) \<and> kernel g s3 \<and> restarts s s3 \<and> mem s3 = mem s2))"
proof -
  note r = restart_state[OF assms(1,5,4,6,9)]
  have b: "last_exception_type t = BX_ET_BENIGN" "safe_down g (gen_reg (at_fault t) R_ESP) 4 19" "kernel_selectors (at_fault t)"
    "sel_value (seg_selector (sregs (at_fault t) SEG_CS)) = 8" "pushed_error n e t = pushed_error n e s"
    using assms(2,3,8,11) r by (simp_all add: kernel_selectors_def pushed_error_def)
  obtain s1 where s1: "take_exception ts d0 n e f t = Some (Inr (), s1)" "at_dispatcher (of_nat n) f (at_fault t) s1"
      "read32 (mem s1) (gen_reg s1 R_ESP + 60) = pushed_error n e s"
    using exception_enters[OF assms(7) b(1) r(1) assms(10) b(2), where e = e] unfolding b(5) by blast
  have x: "isr_exit ts d0 = irq_exit ts d0" by (simp add: isr_exit_def irq_exit_def)
  have "restarts s s3" if "continues (at_fault t) s3" for s3
    using that r by (simp add: restarts_def continues_def)
  then show ?thesis using s1 irq_leaves[OF r(1) b(3,4) s1(2), where ts = ts and ?d0.0 = d0, folded x] by blast
qed

section \<open>A division by zero\<close>

definition div_machine :: cpu where
  "div_machine = flat_cpu\<lparr>mem := word_memory (kernel_gdt @ [(0x800, 0x00085000), (0x804, 0x00008E00)]), eflags := 0x202, EIP := 0x100002\<rparr>"

lemma div_faults: "DIV_EAXEdR plain_instruction div_machine = (Inl (Cpu_Exn 0 0), div_machine)"
  by (simp add: DIV_EAXEdR_def plain_instruction_def div_machine_def flat_cpu_def exec_simps)

lemma div_machine_ok: "kernel 0x200 div_machine" "kernel_selectors div_machine" "sel_value (seg_selector (sregs div_machine SEG_CS)) = 8"
  "idt_gate (at_fault div_machine) (of_nat 0) 0x5000" "safe_down 0x200 (gen_reg div_machine R_ESP) 4 19" "\<not> speculative_rsp div_machine"
  "last_exception_type div_machine = BX_ET_BENIGN" "gdt_ok 0x200 (mem div_machine)"
proof -
  show "kernel 0x200 div_machine"
    by (simp add: kernel_def div_machine_def flat_cpu_def flat_segment_def protected_mode_def get_PE_def get_flag_def unpaged_def get_PG_def CPL_def
      flat_rw_def ss_32_def bit_numeral_rec gdt_ok_def word_memory_read kernel_gdt_def)
  then show "gdt_ok 0x200 (mem div_machine)" by (simp add: kernel_def)
  show "kernel_selectors div_machine" "sel_value (seg_selector (sregs div_machine SEG_CS)) = 8" "\<not> speculative_rsp div_machine"
    "last_exception_type div_machine = BX_ET_BENIGN"
    by (simp_all add: kernel_selectors_def div_machine_def flat_cpu_def flat_segment_def BX_ET_BENIGN_def)
  show "idt_gate (at_fault div_machine) (of_nat 0) 0x5000"
    by (simp add: idt_gate_def at_fault_def restore_rip_rsp_def assert_flag_def div_machine_def flat_cpu_def word_memory_read kernel_gdt_def gate_low_def
        gate_high_def)
  show "safe_down 0x200 (gen_reg div_machine R_ESP) 4 19"
    unfolding safe_down_iff by (rule all_below_19) (simp_all add: all_below_17 div_machine_def flat_cpu_def safe_def)
qed

theorem exception_restarts_instruction_witness:
  "\<exists>s1 s2 s3. take_exception no_task_switch d_DS 0 0 0x7000 div_machine = Some (Inr (), s1) \<and> EIP s1 = 0x7000
    \<and> RETnear32 plain_instruction s1 = (Inr (), s2) \<and> run_all (isr_exit no_task_switch d_DS) s2 = (Inr (), s3) \<and> EIP s3 = 0x100000
    \<and> gen_reg s3 R_ESP = 0x1000"
proof -
  have fc: "fault_class 0" by (simp add: fault_class_def)
  note t = exception_restarts_instruction[OF div_machine_ok(1-3,6) restart_mov(13) div_faults fc div_machine_ok(7,8,4,5), where f = "0x7000"
      and ts = no_task_switch and ?d0.0 = d_DS]
  obtain s1 where s1: "take_exception no_task_switch d_DS 0 0 0x7000 div_machine = Some (Inr (), s1)"
      "at_dispatcher (of_nat 0) 0x7000 (at_fault div_machine) s1"
      "\<And>s2. dispatcher_returned 0x200 s1 s2 \<Longrightarrow> \<exists>s3. run_all (isr_exit no_task_switch d_DS) s2 = (Inr (), s3) \<and> restarts div_machine s3"
    using t by blast
  note r = restart_state[OF div_machine_ok(1) restart_mov(13) div_machine_ok(6) div_faults div_machine_ok(8)]
  have "kernel 0x200 s1"
    using exception_enters[OF fc div_machine_ok(7) r(1) div_machine_ok(4), where e = 0 and f = "0x7000" and ts = no_task_switch and ?d0.0 = d_DS]
      div_machine_ok(5) s1(1) unfolding r(2) by auto
  then obtain s2 where s2: "RETnear32 plain_instruction s1 = (Inr (), s2)" "dispatcher_returned 0x200 s1 s2" using empty_dispatcher by blast
  from s1(3)[OF s2(2)] obtain s3 where "run_all (isr_exit no_task_switch d_DS) s2 = (Inr (), s3)" "restarts div_machine s3" by blast
  then show ?thesis using s1(1,2) s2(1) by (auto simp: at_dispatcher_def Let_def restarts_def div_machine_def flat_cpu_def)
qed

end
