(* ===== verification/MachineControl.thy ===== *)
theory MachineControl
  imports ExceptionEntry
begin

text \<open>
  The interrupt flag as the kernels' C++ code handles it (machine.C, machine_low.asm): \<open>get_EFLAGS\<close> runs on the emulated CPU, and
  \<open>enable_interrupts\<close> and \<open>disable_interrupts\<close> insist that they change the flag. A failed assertion is a value.
\<close>

section \<open>Code\<close>

definition get_EFLAGS :: "unit exec list" where
  "get_EFLAGS = [PUSHF_Fd plain_instruction, POP_EdR (ins_reg R_EAX), RETnear32 plain_instruction]"

text \<open>The call pushes the return address \<open>ra\<close> and the caller looks at EAX.\<close>

definition interrupts_enabled :: "u32 \<Rightarrow> bool exec" where
  "interrupts_enabled ra = seqM (run_all (push_32 ra # get_EFLAGS)) (getM (\<lambda>s. gen_reg s R_EAX AND push_bit 9 1 \<noteq> 0))"

definition Machine_enable_interrupts :: "u32 \<Rightarrow> (failure + unit) exec" where
  "Machine_enable_interrupts ra = bindM (interrupts_enabled ra) (\<lambda>on.
     if on then ret (Inl Assertion_Failed) else seqM (STI plain_instruction) (ret (Inr ())))"

definition Machine_disable_interrupts :: "u32 \<Rightarrow> (failure + unit) exec" where
  "Machine_disable_interrupts ra = bindM (interrupts_enabled ra) (\<lambda>on.
     if \<not> on then ret (Inl Assertion_Failed) else seqM (CLI plain_instruction) (ret (Inr ())))"

section \<open>What it does\<close>

definition kv_get_EFLAGS :: "u32 \<Rightarrow> kview \<Rightarrow> kview" where
  "kv_get_EFLAGS ra v = (let fl = kv_flags v AND 0x00FCFFFF; e = kv_esp v in
     (kv_set R_EAX fl v)\<lparr>kv_mem := write32 (write32 (kv_mem v) (e - 4) ra) (e - 8) fl, kv_eip := ra\<rparr>)"

lemma flag_test: "((w :: u32) AND 0x00FCFFFF) AND push_bit 9 1 \<noteq> 0 \<longleftrightarrow> bit w 9"
proof -
  have "bit (0x00FCFFFF :: u32) 9" by (simp add: bit_numeral_rec)
  then have "bit ((w AND 0x00FCFFFF) AND push_bit 9 1) k \<longleftrightarrow> k = 9 \<and> bit w 9" for k
    using bit_push_1[of 9 k] by (auto simp: bit_and_iff)
  then show ?thesis by (metis bit_0_eq bot_apply bot_bool_def bit_eq_iff)
qed

lemma get_EFLAGS_view:
  fixes ra :: u32
  assumes "aligned4 (kv_esp v)"
  defines "p \<equiv> kv_push (kv_flags v AND 0x00FCFFFF) (kv_push ra v)"
  defines "q \<equiv> kv_set R_EAX (kv_top p) (kv_drop 4 p)"
  shows "(kv_drop 4 q)\<lparr>kv_eip := kv_top q\<rparr> = kv_get_EFLAGS ra v"
proof (rule kview.equality)
  have al: "aligned4 (kv_reg v R_ESP - 4)" "aligned4 (kv_reg v R_ESP - 8)" using assms(1) by (simp_all add: kv_esp_def aligned4_offset)
  note d = p_def q_def kv_push_def kv_set_def kv_esp_def kv_drop_def kv_top_def kv_get_EFLAGS_def Let_def
  show "kv_reg ((kv_drop 4 q)\<lparr>kv_eip := kv_top q\<rparr>) = kv_reg (kv_get_EFLAGS ra v)"
    using al by (auto simp: d read32_write32_same simp del: push_list_commute)
  show "kv_mem ((kv_drop 4 q)\<lparr>kv_eip := kv_top q\<rparr>) = kv_mem (kv_get_EFLAGS ra v)"
    "kv_flags ((kv_drop 4 q)\<lparr>kv_eip := kv_top q\<rparr>) = kv_flags (kv_get_EFLAGS ra v)"
    "kv_sel ((kv_drop 4 q)\<lparr>kv_eip := kv_top q\<rparr>) = kv_sel (kv_get_EFLAGS ra v)"
    by (simp_all add: d del: push_list_commute)
  show "kv_eip ((kv_drop 4 q)\<lparr>kv_eip := kv_top q\<rparr>) = kv_eip (kv_get_EFLAGS ra v)"
    using al by (simp add: d read32_write32 del: push_list_commute)
qed simp

lemma run_get_EFLAGS:
  assumes "kernel g s" "safe_down g (gen_reg s R_ESP) 4 2"
  shows "\<exists>s'. interrupts_enabled ra s = (Inr (get_flag 9 s), s') \<and> kernel g s' \<and> view s' = kv_get_EFLAGS ra (view s)"
proof -
  have al: "aligned4 (kv_esp (view s))" "safe g (gen_reg s R_ESP - 4)" "safe g (gen_reg s R_ESP - 8)"
    using assms(2) aligned4_add[of "gen_reg s R_ESP - 4" 4] by (simp_all add: numeral_eq_Suc safe_def kv_esp_def)
  have pop: "runs g (\<lambda>_. True) (POP_EdR (ins_reg R_EAX)) (\<lambda>v. kv_set R_EAX (kv_top v) (kv_drop 4 v))"
    using run_pop_reg[of "ins_reg R_EAX" g] by simp
  note all = runs_cons[OF run_push[of g ra] runs_cons[OF run_pushf[of g plain_instruction] runs_cons[OF pop runs_cons[OF run_ret[of g plain_instruction] runs_nil]]]]
  let ?fl = "flags_image s AND 0x00FCFFFF"
  obtain s' where s': "run_all (push_32 ra # get_EFLAGS) s = (Inr (), s')" "kernel g s'" "view s' = kv_get_EFLAGS ra (view s)"
    using all[unfolded runs_def, rule_format, OF assms(1)] al(2,3) unfolding get_EFLAGS_def get_EFLAGS_view[OF al(1), symmetric]
    by (auto simp: kv_push_def kv_set_def kv_esp_def simp del: push_list_commute)
  have "gen_reg s' R_EAX = ?fl" using arg_cong[OF s'(3), of kv_reg] by (simp add: kv_get_EFLAGS_def Let_def kv_set_def)
  then have "interrupts_enabled ra s = (Inr (bit (flags_image s) 9), s')" using s'(1) flag_test[of "flags_image s"]
    by (simp add: interrupts_enabled_def exec_bind exec_simps)
  then show ?thesis using s'(2,3) by (auto simp: get_flag_def system_bit)
qed

lemma kernel_assert:
  assumes "kernel g s" "n \<notin> {0, 2, 4, 6, 7, 11, 14, 17}" "n < 32"
  shows "kernel g (assert_flag n s)" "view (assert_flag n s) = (view s)\<lparr>kv_flags := kv_flags (view s) OR push_bit n 1\<rparr>"
proof -
  have b: "bit (w OR push_bit n 1) k = bit w k" if "k \<in> {14, 17}" for w :: u32 and k
    using that assms(2) bit_push_1[OF assms(3), of k] by (auto simp: bit_or_iff)
  have i: "flags_image (assert_flag n s) = flags_image s OR push_bit n 1" using assms(2,3)
    by (simp add: flags_image_eq assert_flag_def with_arith_assert del: push_bit_of_1)
  have f: "gen_reg (assert_flag n s) = gen_reg s" "mem (assert_flag n s) = mem s" "EIP (assert_flag n s) = EIP s"
    "sregs (assert_flag n s) = sregs s" "cr0 (assert_flag n s) = cr0 s" "gdtr (assert_flag n s) = gdtr s"
    "alignment_check_mask (assert_flag n s) = alignment_check_mask s" "eflags (assert_flag n s) = eflags s OR push_bit n 1"
    by (simp_all add: assert_flag_def)
  show "kernel g (assert_flag n s)" using assms(1)
    by (simp add: kernel_def protected_mode_def get_PE_def get_flag_def unpaged_def get_PG_def CPL_def flat_rw_def ss_32_def f b del: push_bit_of_1)
  show "view (assert_flag n s) = (view s)\<lparr>kv_flags := kv_flags (view s) OR push_bit n 1\<rparr>" by (simp add: view_def f i del: push_bit_of_1)
qed

lemma kernel_inhibit: "kernel g (inhibit_interrupts k s) = kernel g s" "view (inhibit_interrupts k s) = view s"
  by (simp_all add: inhibit_interrupts_def Let_def kernel_def view_def protected_mode_def get_PE_def get_flag_def unpaged_def get_PG_def CPL_def
      flat_rw_def ss_32_def flags_image_eq)

lemma run_sti: "runs g (\<lambda>v. \<not> bit (kv_flags v) 9) (STI i) (\<lambda>v. v\<lparr>kv_flags := kv_flags v OR push_bit 9 1\<rparr>)"
proof (rule runsI)
  fix s assume k: "kernel g s" and o: "\<not> bit (kv_flags (view s)) 9"
  have "\<not> get_flag 9 s" using o unfolding view_IF .
  then have "STI i s = (Inr (), inhibit_interrupts BX_INHIBIT_INTERRUPTS (assert_IF s))"
    using k by (simp add: STI_def Let_def kernel_def cpl32_def enable_interrupts_def exec_simps view_IF)
  moreover have "kernel g (assert_flag 9 s)" "view (assert_flag 9 s) = (view s)\<lparr>kv_flags := kv_flags (view s) OR push_bit 9 1\<rparr>"
    using kernel_assert[OF k, of 9] by simp_all
  ultimately show "\<exists>s'. STI i s = (Inr (), s') \<and> kernel g s' \<and> view s' = (view s)\<lparr>kv_flags := kv_flags (view s) OR push_bit 9 1\<rparr>"
    by (simp add: kernel_inhibit assert_IF_def kernel_mask_change)
qed

lemma run_cli: "runs g (\<lambda>_. True) (CLI i) (\<lambda>v. v\<lparr>kv_flags := kv_flags v AND NOT (push_bit 9 1)\<rparr>)"
proof (rule runsI)
  fix s assume k: "kernel g s"
  have "CLI i s = (Inr (), clear_IF s)" using k by (simp add: CLI_def Let_def kernel_def cpl32_def exec_simps)
  then show "\<exists>s'. CLI i s = (Inr (), s') \<and> kernel g s' \<and> view s' = (view s)\<lparr>kv_flags := kv_flags (view s) AND NOT (push_bit 9 1)\<rparr>"
    using kernel_clear[OF k, of 9] by (simp add: clear_IF_def kernel_mask_change)
qed

text \<open>Each of the two asserts when the flag is already as asked for, and changes only it otherwise, beside EAX and the stack
below ESP.\<close>

lemma enable_interrupts_result:
  assumes "kernel g s" "safe_down g (gen_reg s R_ESP) 4 2"
  shows "\<exists>s'. Machine_enable_interrupts ra s = (Inr (if get_flag 9 s then Inl Assertion_Failed else Inr ()), s') \<and> kernel g s'
    \<and> view s' = (kv_get_EFLAGS ra (view s))\<lparr>kv_flags := flags_image s OR push_bit 9 1\<rparr>"
proof -
  obtain t where t: "interrupts_enabled ra s = (Inr (get_flag 9 s), t)" "kernel g t" "view t = kv_get_EFLAGS ra (view s)"
    using run_get_EFLAGS[OF assms] by blast
  have fl: "kv_flags (view t) = flags_image s" unfolding t(3) by (simp add: kv_get_EFLAGS_def Let_def)
  show ?thesis
  proof (cases "get_flag 9 s")
    case True
    then have "flags_image s OR push_bit 9 1 = flags_image s"
      by (intro bit_word_eqI) (auto simp: bit_or_iff bit_push_1 get_flag_def system_bit simp del: push_bit_of_1)
    then have "(view t)\<lparr>kv_flags := flags_image s OR push_bit 9 1\<rparr> = view t" using fl by (simp del: push_bit_of_1)
    then show ?thesis using True t by (simp add: Machine_enable_interrupts_def exec_bind exec_simps del: push_bit_of_1)
  next
    case False
    then have "\<not> bit (kv_flags (view t)) 9" by (simp only: fl) (simp add: system_bit get_flag_def)
    then obtain u where "STI plain_instruction t = (Inr (), u)" "kernel g u" "view u = (view t)\<lparr>kv_flags := kv_flags (view t) OR push_bit 9 1\<rparr>"
      using run_sti[of g plain_instruction] t(2) unfolding runs_def by blast
    then show ?thesis using False t(1,3) fl by (simp add: Machine_enable_interrupts_def exec_bind exec_simps del: push_bit_of_1)
  qed
qed

lemma disable_interrupts_result:
  assumes "kernel g s" "safe_down g (gen_reg s R_ESP) 4 2"
  shows "\<exists>s'. Machine_disable_interrupts ra s = (Inr (if get_flag 9 s then Inr () else Inl Assertion_Failed), s') \<and> kernel g s'
    \<and> view s' = (kv_get_EFLAGS ra (view s))\<lparr>kv_flags := flags_image s AND NOT (push_bit 9 1)\<rparr>"
proof -
  obtain t where t: "interrupts_enabled ra s = (Inr (get_flag 9 s), t)" "kernel g t" "view t = kv_get_EFLAGS ra (view s)"
    using run_get_EFLAGS[OF assms] by blast
  have fl: "kv_flags (view t) = flags_image s" unfolding t(3) by (simp add: kv_get_EFLAGS_def Let_def)
  show ?thesis
  proof (cases "get_flag 9 s")
    case False
    then have "flags_image s AND NOT (push_bit 9 1) = flags_image s"
      by (intro bit_word_eqI) (auto simp: bit_and_iff bit_not_iff bit_push_1 get_flag_def system_bit simp del: push_bit_of_1)
    then have "(view t)\<lparr>kv_flags := flags_image s AND NOT (push_bit 9 1)\<rparr> = view t" using fl by (simp del: push_bit_of_1)
    then show ?thesis using False t by (simp add: Machine_disable_interrupts_def exec_bind exec_simps del: push_bit_of_1)
  next
    case True
    obtain u where "CLI plain_instruction t = (Inr (), u)" "kernel g u" "view u = (view t)\<lparr>kv_flags := kv_flags (view t) AND NOT (push_bit 9 1)\<rparr>"
      using run_cli[of g plain_instruction] t(2) unfolding runs_def by blast
    then show ?thesis using True t(1,3) fl by (simp add: Machine_disable_interrupts_def exec_bind exec_simps del: push_bit_of_1)
  qed
qed

text \<open>So the pair around a critical section gives the flag back, and a nested pair stops the kernel.\<close>

lemma nested_disable_asserts:
  assumes "kernel g s" "safe_down g (gen_reg s R_ESP) 4 2" "get_flag 9 s"
  shows "\<exists>t u. Machine_disable_interrupts ra s = (Inr (Inr ()), t) \<and> Machine_disable_interrupts rb t = (Inr (Inl Assertion_Failed), u)"
proof -
  obtain t where t: "Machine_disable_interrupts ra s = (Inr (Inr ()), t)" "kernel g t"
    "view t = (kv_get_EFLAGS ra (view s))\<lparr>kv_flags := flags_image s AND NOT (push_bit 9 1)\<rparr>"
    using disable_interrupts_result[OF assms(1,2), of ra] assms(3) by auto
  have "\<not> get_flag 9 t" unfolding view_IF[symmetric] t(3) using bit_push_1[of 9 9] by (simp add: bit_and_iff bit_not_iff del: push_bit_of_1)
  moreover have "safe_down g (gen_reg t R_ESP) 4 2" using assms(2) arg_cong[OF t(3), of kv_reg]
    by (simp add: kv_get_EFLAGS_def Let_def kv_set_def)
  ultimately show ?thesis using disable_interrupts_result[OF t(2), of rb] t(1) by auto
qed

end
