(* ===== verification/KernelStrings.thy ===== *)
theory KernelStrings
  imports DescriptorTables "HOL-Library.Signed_Division"
begin

text \<open>
  The memory and string functions of P6/utils.C. A string is a pointer: its bytes are read from memory until the
  0 that ends it, and a loop that looks for the 0 may not end, so it is an option. The last section shows what
  the number printers leave in their buffer.
\<close>

section \<open>Memory operations\<close>

text \<open>Every \<open>count\<close> goes down to 0, so a negative one wraps around.\<close>

fun memcpy_loop :: "u32 \<Rightarrow> u32 \<Rightarrow> nat \<Rightarrow> 'a machine_scheme \<Rightarrow> 'a machine_scheme" where
  "memcpy_loop dp sp 0 s = s"
| "memcpy_loop dp sp (Suc count) s = memcpy_loop (dp + 1) (sp + 1) count (store8 dp (mem s sp) s)"

definition memcpy :: "u32 \<Rightarrow> u32 \<Rightarrow> u32 \<Rightarrow> 'a machine_scheme \<Rightarrow> 'a machine_scheme" where
  "memcpy dest src count s = memcpy_loop dest src (unat count) s"

fun memsetw_loop :: "u32 \<Rightarrow> u16 \<Rightarrow> nat \<Rightarrow> 'a machine_scheme \<Rightarrow> 'a machine_scheme" where
  "memsetw_loop temp v 0 s = s"
| "memsetw_loop temp v (Suc count) s = memsetw_loop (temp + 2) v count (store16 temp v s)"

definition memsetw :: "u32 \<Rightarrow> u16 \<Rightarrow> u32 \<Rightarrow> 'a machine_scheme \<Rightarrow> 'a machine_scheme" where
  "memsetw dest v count s = memsetw_loop dest v (unat count) s"

section \<open>String operations\<close>

partial_function (option) strlen_loop :: "memory \<Rightarrow> u32 \<Rightarrow> u32 \<Rightarrow> u32 option" where
  "strlen_loop m str len = (if m str \<noteq> 0 then strlen_loop m (str + 1) (len + 1) else Some len)"

definition strlen :: "memory \<Rightarrow> u32 \<Rightarrow> u32 option" where
  "strlen m str = strlen_loop m str 0"

partial_function (option) strcpy :: "u32 \<Rightarrow> u32 \<Rightarrow> 'a machine_scheme \<Rightarrow> 'a machine_scheme option" where
  "strcpy dst src s =
     (if mem s src \<noteq> 0 then strcpy (dst + 1) (src + 1) (store8 dst (mem s src) s) else Some (store8 dst 0 s))"

definition strncat :: "u32 \<Rightarrow> u32 \<Rightarrow> u32 \<Rightarrow> 'a machine_scheme \<Rightarrow> 'a machine_scheme option" where
  "strncat dest src num s =
     Option.bind (strlen (mem s) dest) (\<lambda>len.
     Option.bind (strlen (mem s) src) (\<lambda>size.
       let d = dest + len; srcsize = (if num <s size then num else size)
       in Some (memcpy d src srcsize (store8 (d + srcsize) 0 s))))"

section \<open>Printing numbers\<close>

text \<open>\<open>temp[1]\<close> to \<open>temp[k]\<close>: the digits from the lowest. C's \<open>/\<close> and \<open>%\<close> round towards 0.\<close>

fun uint_digits :: "nat \<Rightarrow> u32 \<Rightarrow> u8 list" where
  "uint_digits 0 num = []"
| "uint_digits (Suc k) num = (ucast (num mod 10) + 48) # uint_digits k (num div 10)"

fun int_digits :: "nat \<Rightarrow> int \<Rightarrow> u8 list" where
  "int_digits 0 num = []"
| "int_digits (Suc k) num = word_of_int (num smod 10 + 48) # int_digits k (num sdiv 10)"

fun hex_digits :: "nat \<Rightarrow> u32 \<Rightarrow> u8 list" where
  "hex_digits 0 num = []"
| "hex_digits (Suc k) num = (let digit = num mod 16 in (if digit < 10 then ucast digit + 48 else ucast digit - 10 + 65))
     # hex_digits k (num div 16)"

text \<open>\<open>for(i = 10; temp[i] == '0'; i--)\<close>: \<open>temp[0]\<close> is 0, so the loop stops there at the latest.\<close>

fun last_digit :: "u8 list \<Rightarrow> nat \<Rightarrow> nat" where
  "last_digit temp 0 = 0"
| "last_digit temp (Suc i) = (if temp ! Suc i = 48 then last_digit temp i else Suc i)"

text \<open>\<open>while(i >= 0) *str++ = temp[i--]\<close>.\<close>

fun copy_down :: "u8 list \<Rightarrow> nat \<Rightarrow> u32 \<Rightarrow> 'a machine_scheme \<Rightarrow> 'a machine_scheme" where
  "copy_down temp 0 str s = store8 str (temp ! 0) s"
| "copy_down temp (Suc i) str s = copy_down temp i (str + 1) (store8 str (temp ! Suc i) s)"

definition print_digits :: "u8 list \<Rightarrow> u32 \<Rightarrow> 'a machine_scheme \<Rightarrow> 'a machine_scheme" where
  "print_digits temp str s = (let i = last_digit temp 10; i' = (if i = 0 then i + 1 else i) in copy_down temp i' str s)"

definition int2str :: "u32 \<Rightarrow> u32 \<Rightarrow> 'a machine_scheme \<Rightarrow> 'a machine_scheme" where
  "int2str num str s = print_digits (0 # int_digits 10 (sint num)) str s"

definition uint2str :: "u32 \<Rightarrow> u32 \<Rightarrow> 'a machine_scheme \<Rightarrow> 'a machine_scheme" where
  "uint2str num str s = print_digits (0 # uint_digits 10 num) str s"

text \<open>The last loop reads \<open>temp[--i]\<close> down to \<open>temp[-1]\<close>: \<open>below\<close> is the byte that lies there.\<close>

definition ulong2hexstr :: "u8 \<Rightarrow> u32 \<Rightarrow> u32 \<Rightarrow> 'a machine_scheme \<Rightarrow> 'a machine_scheme" where
  "ulong2hexstr below num str s =
     (let temp = 0 # hex_digits 8 num; s1 = store8 str 48 s; s2 = store8 (str + 1) 120 s1
      in store8 (str + 11) below (copy_down temp 8 (str + 2) s2))"

section \<open>Debugging output\<close>

fun debug_loop :: "nat \<Rightarrow> u32 \<Rightarrow> 'a machine_scheme \<Rightarrow> 'a machine_scheme" where
  "debug_loop 0 str s = s"
| "debug_loop (Suc k) str s = debug_loop k (str + 1) (emit (OutB 0xE9 (mem s str)) s)"

text \<open>A negative \<open>string_size\<close>, which \<open>strlen\<close> returns for 2 GB and more, prints nothing.\<close>

definition debug_out_E9 :: "u32 \<Rightarrow> 'a machine_scheme \<Rightarrow> 'a machine_scheme option" where
  "debug_out_E9 str s =
     Option.bind (strlen (mem s) str) (\<lambda>n.
       let string_size = (if 255 <s n then 255 else n)
       in Some (debug_loop (nat (sint string_size)) str s))"

text \<open>The three pointers are those of the local arrays.\<close>

definition debug_out_E9_msg_value :: "u32 \<Rightarrow> u32 \<Rightarrow> u32 \<Rightarrow> u32 \<Rightarrow> u32 \<Rightarrow> 'a machine_scheme \<Rightarrow> 'a machine_scheme option" where
  "debug_out_E9_msg_value blank localstr nline msg value s =
     Option.bind (debug_out_E9 msg s) (\<lambda>s1.
     Option.bind (debug_out_E9 blank (store8 (blank + 1) 0 (store8 blank 32 s1))) (\<lambda>s2.
     Option.bind (debug_out_E9 localstr (uint2str value localstr s2)) (\<lambda>s3.
       debug_out_E9 nline (store8 (nline + 1) 0 (store8 nline 10 s3)))))"

section \<open>Strings in memory\<close>

text \<open>A C string: its bytes, none of them 0, and the 0 that ends it.\<close>

definition string_at :: "memory \<Rightarrow> u32 \<Rightarrow> u8 list \<Rightarrow> bool" where
  "string_at m p w \<longleftrightarrow> (\<forall>i < length w. m (p + of_nat i) = w ! i) \<and> m (p + of_nat (length w)) = 0 \<and> 0 \<notin> set w"

lemma string_at_Nil: "string_at m p [] \<longleftrightarrow> m p = 0"
  by (simp add: string_at_def)

lemma string_at_Cons: "string_at m p (c # w) \<longleftrightarrow> m p = c \<and> c \<noteq> 0 \<and> string_at m (p + 1) w"
  by (auto simp: string_at_def All_less_Suc2 add.assoc)

lemma strlen_loop_string: "string_at m p w \<Longrightarrow> strlen_loop m p len = Some (len + of_nat (length w))"
  by (induction w arbitrary: p len) (subst strlen_loop.simps; simp add: string_at_Nil string_at_Cons add.assoc)+

lemma strlen_string: "string_at m p w \<Longrightarrow> strlen m p = Some (of_nat (length w))"
  by (simp add: strlen_def strlen_loop_string)

text \<open>A run of bytes from \<open>p\<close> on replaces what was there, and nothing else changes.\<close>

definition bytes_written :: "memory \<Rightarrow> u32 \<Rightarrow> u8 list \<Rightarrow> memory \<Rightarrow> bool" where
  "bytes_written m p ws m' \<longleftrightarrow> (\<forall>a. m' a = (if unat (a - p) < length ws then ws ! unat (a - p) else m a))"

lemma bytes_written_Nil: "bytes_written m p [] m' \<longleftrightarrow> m' = m"
  by (auto simp: bytes_written_def)

lemma unat_minus_1: "(x :: u32) \<noteq> 0 \<Longrightarrow> unat (x - 1) = unat x - 1"
  by (rule unat_minus_one)

lemma bytes_written_Cons:
  assumes "bytes_written (m(p := x)) (p + 1) ws m'" "length ws < 4294967295"
  shows "bytes_written m p (x # ws) m'"
  unfolding bytes_written_def
proof
  fix a
  have e: "a - (p + 1) = (a - p) - 1" by simp
  show "m' a = (if unat (a - p) < length (x # ws) then (x # ws) ! unat (a - p) else m a)"
  proof (cases "a = p")
    case True
    then have "a - (p + 1) = 0xFFFFFFFF" by simp
    then have "unat (a - (p + 1)) = 4294967295" by (simp only:) simp
    then show ?thesis using assms True unfolding bytes_written_def by simp
  next
    case False
    then have "unat (a - (p + 1)) = unat (a - p) - 1" "0 < unat (a - p)" unfolding e by (simp_all add: unat_minus_1 unat_gt_0)
    then show ?thesis using assms(1) False unfolding bytes_written_def by (auto simp: nth_Cons split: nat.splits)
  qed
qed

lemma bytes_written_string:
  assumes "bytes_written m p (w @ 0 # rest) m'" "0 \<notin> set w" "length w + length rest < 4294967295"
  shows "string_at m' p w"
proof -
  have "m' (p + of_nat i) = (w @ 0 # rest) ! i" if "i \<le> length w" for i
    using assms(1,3) that unfolding bytes_written_def by simp
  from this[of "length w"] this show ?thesis using assms(2) by (auto simp: string_at_def nth_append)
qed

lemma bytes_written_outside: "bytes_written m p ws m' \<Longrightarrow> length ws \<le> unat (a - p) \<Longrightarrow> m' a = m a"
  by (simp add: bytes_written_def)

lemma copy_down_written:
  "i < length temp \<Longrightarrow> length temp < 4294967295 \<Longrightarrow> bytes_written (mem s) str (rev (take (Suc i) temp)) (mem (copy_down temp i str s))"
proof (induction i arbitrary: str s)
  case 0
  have "take (Suc 0) temp = [temp ! 0]" using 0 by (simp add: take_Suc_conv_app_nth)
  have "bytes_written (mem s) str [temp ! 0] ((mem s)(str := temp ! 0))"
    by (rule bytes_written_Cons) (simp_all add: bytes_written_Nil)
  then show ?case using \<open>take (Suc 0) temp = [temp ! 0]\<close> by (simp add: store8_def fun_upd_def)
next
  case (Suc i)
  have "take (Suc (Suc i)) temp = take (Suc i) temp @ [temp ! Suc i]" using Suc.prems by (simp only: take_Suc_conv_app_nth)
  then have "rev (take (Suc (Suc i)) temp) = temp ! Suc i # rev (take (Suc i) temp)" by simp
  moreover have "bytes_written ((mem s)(str := temp ! Suc i)) (str + 1) (rev (take (Suc i) temp)) (mem (copy_down temp (Suc i) str s))"
    using Suc.IH[where str = "str + 1" and s = "store8 str (temp ! Suc i) s"] Suc.prems by (simp add: store8_def fun_upd_def)
  ultimately show ?case using Suc.prems by (simp only: bytes_written_Cons length_rev length_take)
qed

section \<open>Decimal numbers\<close>

text \<open>The number that a string of decimal digits stands for.\<close>

definition decimal :: "u8 list \<Rightarrow> nat" where
  "decimal w = foldl (\<lambda>n d. 10 * n + (unat d - 48)) 0 w"

definition is_digit :: "u8 \<Rightarrow> bool" where
  "is_digit d \<longleftrightarrow> 48 \<le> unat d \<and> unat d \<le> 57"

lemma decimal_rev: "decimal (rev (d # ds)) = 10 * decimal (rev ds) + (unat d - 48)"
  by (simp add: decimal_def)

lemma digit_char: "m < 10 \<Longrightarrow> unat (of_nat m + 48 :: u8) = m + 48" "m < 10 \<Longrightarrow> unat (48 + of_nat m :: u8) = m + 48"
  by (simp_all add: unat_word_ariths unat_of_nat take_bit_nat_eq_self take_bit_eq_mod)

lemma ucast_mod_10: "(ucast (num mod 10 :: u32) :: u8) = of_nat (unat num mod 10)"
proof -
  have "unat (num mod 10) = unat num mod 10" by (simp add: unat_mod)
  then show ?thesis by (metis of_nat_unat)
qed

lemma uint_digits_length [simp]: "length (uint_digits k num) = k"
  by (induction k arbitrary: num) simp_all

lemma uint_digits_digit: "d \<in> set (uint_digits k num) \<Longrightarrow> is_digit d"
  by (induction k arbitrary: num) (auto simp: ucast_mod_10 digit_char is_digit_def)

lemma decimal_uint_digits: "decimal (rev (uint_digits k num)) = unat num mod 10 ^ k"
proof (induction k arbitrary: num)
  case 0
  then show ?case by (simp add: decimal_def)
next
  case (Suc k)
  have "unat (num div 10) = unat num div 10" by (simp add: unat_div)
  then show ?case using Suc.IH[of "num div 10"]
    by (simp add: decimal_rev ucast_mod_10 digit_char mod_mult2_eq add.commute del: rev.simps)
qed

lemma decimal_leading_zeros: "decimal (replicate k 48 @ ds) = decimal ds"
  by (induction k) (simp_all add: decimal_def)

lemma last_digit_split:
  "i \<le> length ds \<Longrightarrow> take i ds = take (last_digit (c # ds) i) ds @ replicate (i - last_digit (c # ds) i) 48
     \<and> last_digit (c # ds) i \<le> i \<and> (0 < last_digit (c # ds) i \<longrightarrow> ds ! (last_digit (c # ds) i - 1) \<noteq> 48)"
proof (induction i)
  case (Suc i)
  then show ?case by (auto simp: take_Suc_conv_app_nth Suc_diff_le replicate_append_same)
qed simp

lemma int_digits_uint: "int_digits k (uint num) = uint_digits k num"
proof (induction k arbitrary: num)
  case (Suc k)
  have n: "uint num = 0 \<or> 0 < uint num" using uint_ge_0[of num] by linarith
  have "uint num smod 10 = uint (num mod 10)" "uint num sdiv 10 = uint (num div 10)"
    using n by (auto simp: signed_modulo_int_def signed_divide_int_def uint_mod_distrib uint_div_distrib sgn_if)
  moreover have "word_of_int (uint (num mod 10) + 48) = (ucast (num mod 10) + 48 :: u8)" by (simp add: of_int_uint)
  ultimately show ?case using Suc.IH[of "num div 10"] by simp
qed simp

lemma sint_nonneg: "0 \<le> sint (num :: u32) \<Longrightarrow> sint num = uint num"
proof -
  assume "0 \<le> sint num"
  then have b: "\<not> bit num 31" using bit_last_iff[of num] by simp
  show ?thesis
    by (rule bit_eqI) (use b in \<open>auto simp: bit_sint_iff bit_uint_iff dest: bit_imp_le_length\<close>)
qed

text \<open>C29: The decimal printer round-trips: \<open>uint2str\<close> leaves a string of at most 10 decimal digits that reads back as the
number, without leading zeros unless the number is 0, and writes nothing beyond its 11 bytes; \<open>int2str\<close> leaves the
same string for a number that is not negative.\<close>

theorem uint2str_prints_decimal:
  "\<exists>w. string_at (mem (uint2str num p s)) p w \<and> (\<forall>d \<in> set w. is_digit d) \<and> decimal w = unat num \<and> 1 \<le> length w \<and> length w \<le> 10
     \<and> (num = 0 \<longrightarrow> w = [48]) \<and> (num \<noteq> 0 \<longrightarrow> hd w \<noteq> 48) \<and> (\<forall>a. 11 \<le> unat (a - p) \<longrightarrow> mem (uint2str num p s) a = mem s a)
     \<and> (0 \<le> sint num \<longrightarrow> int2str num p s = uint2str num p s)"
proof -
  define ds where "ds = uint_digits 10 num"
  define i where "i = last_digit (0 # ds) 10"
  define j where "j = (if i = 0 then i + 1 else i)"
  define w where "w = rev (take j ds)"
  have l: "length ds = 10" by (simp add: ds_def)
  have sp: "ds = take i ds @ replicate (10 - i) 48" "i \<le> 10" "0 < i \<longrightarrow> ds ! (i - 1) \<noteq> 48"
    using last_digit_split[of 10 ds 0] l by (simp_all add: i_def)
  have j: "1 \<le> j" "j \<le> 10" using sp(2) by (simp_all add: j_def)
  have sj: "ds = take j ds @ replicate (10 - j) 48"
  proof (cases "i = 0")
    case True
    then have "ds = replicate 10 48" using sp(1) by simp
    then show ?thesis by (simp add: j_def True flip: replicate_add) (simp add: numeral_eq_Suc)
  qed (use sp(1) j_def in simp)
  have dw: "decimal w = unat num"
  proof -
    have "decimal (rev ds) = decimal w" by (subst sj) (simp add: w_def decimal_leading_zeros)
    then show ?thesis using unat_u32_less[of num] by (simp add: ds_def decimal_uint_digits)
  qed
  have dig: "\<forall>d \<in> set w. is_digit d" using uint_digits_digit[of _ 10 num] by (auto simp: w_def ds_def dest: in_set_takeD)
  have b: "bytes_written (mem s) p (w @ [0]) (mem (uint2str num p s))"
    using copy_down_written[of j "0 # ds" s p] j l by (simp add: uint2str_def print_digits_def Let_def w_def flip: ds_def i_def j_def)
  have lw: "length w = j" using l j by (simp add: w_def)
  have nz: "0 \<notin> set w" using dig by (auto simp: is_digit_def)
  have st: "string_at (mem (uint2str num p s)) p w" by (rule bytes_written_string[OF b[folded append_Nil] nz]) (use lw j in simp)
  have hd: "hd w \<noteq> 48" if "num \<noteq> 0"
  proof (cases "i = 0")
    case True
    then have "ds = replicate 10 48" using sp(1) by simp
    then have "decimal (rev ds) = 0" using decimal_leading_zeros[of 10 "[]"] by (simp add: decimal_def)
    then have "unat num = 0" using unat_u32_less[of num] by (simp add: ds_def decimal_uint_digits)
    then show ?thesis using that by (simp add: unat_eq_zero)
  next
    case False
    then have "last (take i ds) = take i ds ! (i - 1)" using l sp(2) by (subst last_conv_nth) auto
    then have "hd w = ds ! (i - 1)" using l sp(2) False by (simp add: w_def j_def hd_rev)
    then show ?thesis using sp(3) False by simp
  qed
  have z: "w = [48]" if "num = 0"
    unfolding w_def j_def i_def ds_def that by (simp add: numeral_eq_Suc)
  show ?thesis using st dig dw lw j z hd bytes_written_outside[OF b] sint_nonneg[of num] int_digits_uint[of 10 num]
    by (intro exI[of _ w]) (auto simp: int2str_def uint2str_def)
qed

theorem uint2str_prints_decimal_witness:
  "\<exists>w. string_at (mem (int2str 1024 0x5000 \<lparr>mem = \<lambda>_. 0xFF, trace = []\<rparr>)) 0x5000 w \<and> decimal w = 1024 \<and> hd w \<noteq> 48
     \<and> mem (int2str 1024 0x5000 \<lparr>mem = \<lambda>_. 0xFF, trace = []\<rparr>) 0x500B = 0xFF"
proof -
  let ?s = "\<lparr>mem = \<lambda>_. 0xFF, trace = []\<rparr> :: machine"
  obtain w where w: "string_at (mem (uint2str 1024 0x5000 ?s)) 0x5000 w" "decimal w = unat (1024 :: u32)" "(1024 :: u32) \<noteq> 0 \<longrightarrow> hd w \<noteq> 48"
    "\<forall>a. 11 \<le> unat (a - 0x5000) \<longrightarrow> mem (uint2str 1024 0x5000 ?s) a = mem ?s a" "0 \<le> sint (1024 :: u32) \<longrightarrow> int2str 1024 0x5000 ?s = uint2str 1024 0x5000 ?s"
    using uint2str_prints_decimal[of 1024 "0x5000" ?s] by blast
  have "11 \<le> unat (0x500B - 0x5000 :: u32)" by simp
  then have "mem (uint2str 1024 0x5000 ?s) 0x500B = 0xFF" using w(4) by (metis machine.simps(1))
  then show ?thesis using w by (intro exI[of _ w]) simp
qed

text \<open>A negative number prints characters below \<open>'0'\<close>: -12 is \<open>/.\<close>; and the hexadecimal printer writes one byte
after its terminating 0, the one below its buffer.\<close>

lemma int2str_negative:
  "let s' = int2str (- 12) p s in mem s' p = 47 \<and> mem s' (p + 1) = 46 \<and> mem s' (p + 2) = 0"
proof -
  have d: "int_digits 10 (- 12) = [46, 47, 48, 48, 48, 48, 48, 48, 48, 48]"
    by (simp add: eval_nat_numeral signed_divide_int_def signed_modulo_int_def)
  have "last_digit (0 # int_digits 10 (- 12)) 10 = Suc (Suc 0)" unfolding d by (simp add: eval_nat_numeral)
  then have "mem (int2str (- 12) p s) = (mem s)(p := 47, p + 1 := 46, p + 1 + 1 := 0)"
    by (simp add: int2str_def print_digits_def d store8_def)
  then show ?thesis by simp
qed

lemma ulong2hexstr_overrun: "mem (ulong2hexstr below num p s) (p + 11) = below"
  by (simp add: ulong2hexstr_def Let_def store8_def)

end
