(* ===== verification/KernelConsole.thy ===== *)
theory KernelConsole
  imports KernelStrings
begin

text \<open>
  The console of P2 to P6 (console.C): a cursor and the text memory of the VGA card, 25 rows of 80 cells of 16 bits.
  The specification is a list of 2000 cells with a cursor; the console implements it on memory, scrolling by moving
  bytes. P1's \<open>scroll\<close> moves them by half a row.
\<close>

section \<open>The console\<close>

record console = machine +
  attrib :: int
  csr_x :: int
  csr_y :: int
  textmemptr :: u32

definition CONSOLE_START_ADDRESS :: u32 where "CONSOLE_START_ADDRESS = 0xB8000"

text \<open>\<open>blank\<close> is the variable of \<open>scroll\<close> and \<open>cls\<close>.\<close>

definition blank :: "'a console_scheme \<Rightarrow> u32" where
  "blank s = 0x20 OR word_of_int (push_bit 8 (attrib s))"

definition scroll :: "'a console_scheme \<Rightarrow> 'a console_scheme" where
  "scroll s =
     (if 25 \<le> csr_y s
      then let temp = word_of_int (csr_y s - 25 + 1);
               s1 = memcpy (textmemptr s) (textmemptr s + 2 * (temp * 80)) ((25 - temp) * 80 * 2) s;
               s2 = memsetw (textmemptr s1 + 2 * ((25 - temp) * 80)) (ucast (blank s)) 80 s1
           in s2\<lparr>csr_y := 25 - 1\<rparr>
      else s)"

text \<open>P1 casts the pointer before it adds the rows, so it adds bytes where the others add 16-bit cells.\<close>

definition scroll_P1 :: "'a console_scheme \<Rightarrow> 'a console_scheme" where
  "scroll_P1 s =
     (if 25 \<le> csr_y s
      then let temp = word_of_int (csr_y s - 25 + 1);
               s1 = memcpy (textmemptr s) (textmemptr s + temp * 80) ((25 - temp) * 80 * 2) s;
               s2 = memsetw (textmemptr s1 + 2 * ((25 - temp) * 80)) (ucast (blank s)) 80 s1
           in s2\<lparr>csr_y := 25 - 1\<rparr>
      else s)"

text \<open>The writes of the cursor's position to port 0x3D5 are commented out.\<close>

definition move_cursor :: "'a console_scheme \<Rightarrow> 'a console_scheme" where
  "move_cursor s = emit (OutB 0x3D4 15) (emit (OutB 0x3D4 14) s)"

definition cls :: "'a console_scheme \<Rightarrow> 'a console_scheme" where
  "cls s =
     (let s1 = fold (\<lambda>i s. memsetw (textmemptr s + 2 * (of_nat i * 80)) (ucast (blank s)) 80 s) [0..<25] s
      in move_cursor (s1\<lparr>csr_x := 0, csr_y := 0\<rparr>))"

definition set_TextColor :: "u8 \<Rightarrow> u8 \<Rightarrow> 'a console_scheme \<Rightarrow> 'a console_scheme" where
  "set_TextColor forecolor backcolor s = s\<lparr>attrib := push_bit 4 (uint backcolor) OR (uint forecolor AND 0x0F)\<rparr>"

definition Console_init :: "u8 \<Rightarrow> u8 \<Rightarrow> 'a console_scheme \<Rightarrow> 'a console_scheme" where
  "Console_init fore_color back_color s =
     (let s1 = set_TextColor fore_color back_color s
      in cls (s1\<lparr>csr_x := 0, csr_y := 0, textmemptr := CONSOLE_START_ADDRESS\<rparr>))"

text \<open>\<open>char\<close> is signed: only the printable ASCII characters are \<open>\<ge> ' '\<close>, and 0x7F.\<close>

definition putch :: "u8 \<Rightarrow> 'a console_scheme \<Rightarrow> 'a console_scheme" where
  "putch c s =
     (let s1 = (if c = 0x08 then (if csr_x s \<noteq> 0 then s\<lparr>csr_x := csr_x s - 1\<rparr> else s)
                else if c = 0x09 then s\<lparr>csr_x := (csr_x s + 8) AND NOT (8 - 1)\<rparr>
                else if c = 0x0D then s\<lparr>csr_x := 0\<rparr>
                else if c = 0x0A then s\<lparr>csr_x := 0, csr_y := csr_y s + 1\<rparr>
                else if 32 \<le> sint c
                then let wh = textmemptr s + 2 * word_of_int (csr_y s * 80 + csr_x s)
                     in (store16 wh (word_of_int (sint c OR push_bit 8 (attrib s))) s)\<lparr>csr_x := csr_x s + 1\<rparr>
                else s);
          s2 = (if 80 \<le> csr_x s1 then s1\<lparr>csr_x := 0, csr_y := csr_y s1 + 1\<rparr> else s1)
      in move_cursor (scroll s2))"

text \<open>\<open>puts\<close> measures the string again in every round.\<close>

partial_function (option) puts_loop :: "u32 \<Rightarrow> u32 \<Rightarrow> 'a console_scheme \<Rightarrow> 'a console_scheme option" where
  "puts_loop p i s =
     Option.bind (strlen (mem s) p) (\<lambda>n. if i <s n then puts_loop p (i + 1) (putch (mem s (p + i)) s) else Some s)"

definition Console_puts :: "u32 \<Rightarrow> 'a console_scheme \<Rightarrow> 'a console_scheme option" where
  "Console_puts p s = puts_loop p 0 s"

text \<open>\<open>foostr\<close> is a buffer of 15 bytes on the stack.\<close>

definition Console_puti :: "u32 \<Rightarrow> u32 \<Rightarrow> 'a console_scheme \<Rightarrow> 'a console_scheme option" where
  "Console_puti foostr n s = Console_puts foostr (int2str n foostr s)"

definition Console_putui :: "u32 \<Rightarrow> u32 \<Rightarrow> 'a console_scheme \<Rightarrow> 'a console_scheme option" where
  "Console_putui foostr n s =
     (let s1 = uint2str n foostr s in map_option (putch 62) (Console_puts foostr (putch 60 s1)))"

section \<open>The specification\<close>

record screen =
  cells :: "u16 list"
  row :: nat
  col :: nat
  colour :: int

definition empty_cell :: "screen \<Rightarrow> u16" where
  "empty_cell t = ucast (0x20 OR word_of_int (push_bit 8 (colour t)) :: u32)"

definition scroll_up :: "screen \<Rightarrow> screen" where
  "scroll_up t = (if row t < 25 then t else t\<lparr>cells := drop 80 (cells t) @ replicate 80 (empty_cell t), row := 24\<rparr>)"

definition wrap_line :: "screen \<Rightarrow> screen" where
  "wrap_line t = (if col t < 80 then t else t\<lparr>col := 0, row := row t + 1\<rparr>)"

definition place :: "u8 \<Rightarrow> screen \<Rightarrow> screen" where
  "place c t =
     (if c = 8 then t\<lparr>col := col t - 1\<rparr>
      else if c = 9 then t\<lparr>col := 8 * (col t div 8 + 1)\<rparr>
      else if c = 13 then t\<lparr>col := 0\<rparr>
      else if c = 10 then t\<lparr>col := 0, row := row t + 1\<rparr>
      else if 32 \<le> unat c \<and> unat c < 128
      then t\<lparr>cells := (cells t)[80 * row t + col t := word_of_int (uint c OR push_bit 8 (colour t))], col := col t + 1\<rparr>
      else t)"

definition put_char :: "u8 \<Rightarrow> screen \<Rightarrow> screen" where
  "put_char c t = scroll_up (wrap_line (place c t))"

section \<open>The screen in memory\<close>

definition cell_at :: "nat \<Rightarrow> u32" where
  "cell_at k = 0xB8000 + 2 * of_nat k"

definition screen_of :: "'a console_scheme \<Rightarrow> screen" where
  "screen_of s = \<lparr>cells = map (\<lambda>k. read16 (mem s) (cell_at k)) [0..<2000], row = nat (csr_y s), col = nat (csr_x s), colour = attrib s\<rparr>"

definition on_screen :: "u32 \<Rightarrow> bool" where
  "on_screen a \<longleftrightarrow> 0xB8000 \<le> unat a \<and> unat a < 0xB8000 + 4000"

definition screen_ok :: "'a console_scheme \<Rightarrow> bool" where
  "screen_ok s \<longleftrightarrow> textmemptr s = 0xB8000 \<and> 0 \<le> csr_x s \<and> csr_x s < 80 \<and> 0 \<le> csr_y s \<and> csr_y s < 25"

section \<open>Bytes moved and cells filled\<close>

lemma unat_add_u32: "unat (x + y :: u32) = (unat x + unat y) mod 4294967296"
  by (simp add: unat_word_ariths)

lemma unat_neg: "unat (- 1 :: u32) = 4294967295" "unat (- 2 :: u32) = 4294967294"
proof -
  have "(- 1 :: u32) = 0xFFFFFFFF" "(- 2 :: u32) = 0xFFFFFFFE" by simp_all
  then show "unat (- 1 :: u32) = 4294967295" "unat (- 2 :: u32) = 4294967294" by (simp_all only:) simp_all
qed

text \<open>A forward copy to a lower address works when the two blocks overlap.\<close>

lemma memcpy_loop_mem:
  "0 < unat k \<Longrightarrow> unat k + n < 4294967296 \<Longrightarrow>
   mem (memcpy_loop d (d + k) n s) a = (if unat (a - d) < n then mem s (a + k) else mem s a)"
proof (induction n arbitrary: d s)
  case (Suc n)
  let ?s = "store8 d (mem s (d + k)) s"
  have e: "d + k + 1 = d + 1 + k" "a - (d + 1) = (a - d) - 1" by simp_all
  have m: "mem ?s b = (if b = d then mem s (d + k) else mem s b)" for b by (simp add: store8_def)
  have IH: "mem (memcpy_loop (d + 1) (d + 1 + k) n ?s) a = (if unat ((a - d) - 1) < n then mem ?s (a + k) else mem ?s a)"
    using Suc.IH[of "d + 1" ?s] Suc.prems unfolding e by simp
  show ?case
  proof (cases "a = d")
    case True
    show ?thesis using unat_neg IH Suc.prems True unfolding memcpy_loop.simps e(1) by (simp add: m)
  next
    case False
    then have u: "unat (a - d - 1) = unat (a - d) - 1" "0 < unat (a - d)" by (simp_all add: unat_minus_1 unat_gt_0)
    have "a + k \<noteq> d" if "unat (a - d) < Suc n"
    proof
      assume "a + k = d"
      then have "a - d + k = 0" by (simp add: algebra_simps)
      then have "(unat (a - d) + unat k) mod 4294967296 = 0" by (metis unat_add_u32 unat_0)
      with that Suc.prems show False by (simp add: mod_eq_0_iff_dvd dvd_imp_le)
    qed
    then show ?thesis using IH u False unfolding memcpy_loop.simps e(1) by (auto simp: m)
  qed
qed simp

lemma memsetw_loop_mem:
  "2 * n < 4294967296 \<Longrightarrow> mem (memsetw_loop d v n s) a
     = (if unat (a - d) < 2 * n then (if even (unat (a - d)) then ucast v else ucast (drop_bit 8 v)) else mem s a)"
proof (induction n arbitrary: d s)
  case (Suc n)
  let ?s = "store16 d v s"
  have e: "a - (d + 2) = (a - d) - 2" by simp
  have m: "mem ?s b = (if b = d + 1 then ucast (drop_bit 8 v) else if b = d then ucast v else mem s b)" for b by (simp add: store16_def write16_def)
  have IH: "mem (memsetw_loop (d + 2) v n ?s) a
     = (if unat (a - d - 2) < 2 * n then (if even (unat (a - d - 2)) then ucast v else ucast (drop_bit 8 v)) else mem ?s a)"
    using Suc.IH[of "d + 2" ?s] Suc.prems unfolding e by simp
  consider "a = d" | "a = d + 1" | "2 \<le> unat (a - d)"
  proof (cases "unat (a - d) = 0 \<or> unat (a - d) = 1")
    case True
    then have "a - d = 0 \<or> a - d = 1" using unat_eq_zero[of "a - d"] unat_eq_zero[of "a - d - 1"] unat_minus_1[of "a - d"] by fastforce
    then show ?thesis using that by (auto simp: algebra_simps)
  qed (use that in linarith)
  then show ?case
  proof cases
    case 3
    then have "(2 :: u32) \<le> a - d" by (simp add: word_le_nat_alt)
    then have "unat (a - d - 2) = unat (a - d) - 2" by (simp add: unat_sub)
    moreover have "a \<noteq> d" "a \<noteq> d + 1" using 3 by auto
    ultimately show ?thesis using IH 3 by (auto simp: m write16_def)
  qed (use IH Suc.prems unat_neg in \<open>simp_all add: m write16_def\<close>)
qed simp

lemma read16_write16_same: "read16 (write16 m a v) a = v"
proof -
  have "(a :: u32) + 1 \<noteq> a" by simp
  then show ?thesis unfolding read16_def write16_def
    by (intro bit_word_eqI) (auto simp: bit_simps)
qed

text \<open>Offsets from the start of the text memory.\<close>

lemma unat_cell_at: "k < 100000 \<Longrightarrow> unat (cell_at k) = 0xB8000 + 2 * k" "k < 100000 \<Longrightarrow> unat (cell_at k + 1) = 0xB8000 + 2 * k + 1"
proof -
  assume k: "k < 100000"
  have e: "cell_at k = of_nat (0xB8000 + 2 * k)" "cell_at k + 1 = of_nat (0xB8000 + 2 * k + 1)" by (simp_all add: cell_at_def)
  show "unat (cell_at k) = 0xB8000 + 2 * k" unfolding e(1) by (rule unat_of_nat_u32) (use k in simp)
  show "unat (cell_at k + 1) = 0xB8000 + 2 * k + 1" unfolding e(2) by (rule unat_of_nat_u32) (use k in simp)
qed

lemma on_screen_cell: "k < 2000 \<Longrightarrow> on_screen (cell_at k)" "k < 2000 \<Longrightarrow> on_screen (cell_at k + 1)"
  by (simp_all add: on_screen_def unat_cell_at)

lemma read16_cells:
  assumes "i < 2000" "k < 2000"
  shows "read16 (write16 m (cell_at i) v) (cell_at k) = (if k = i then v else read16 m (cell_at k))"
proof (cases "k = i")
  case False
  have b: "k < 100000" "i < 100000" using assms by simp_all
  have "unat (cell_at k) \<noteq> unat (cell_at i)" "unat (cell_at k + 1) \<noteq> unat (cell_at i + 1)"
    "unat (cell_at k) \<noteq> unat (cell_at i + 1)" "unat (cell_at k + 1) \<noteq> unat (cell_at i)"
    unfolding unat_cell_at[OF b(1)] unat_cell_at[OF b(2)] using False by presburger+
  then have "cell_at k \<noteq> cell_at i" "cell_at k + 1 \<noteq> cell_at i + 1" "cell_at k \<noteq> cell_at i + 1" "cell_at k + 1 \<noteq> cell_at i" by metis+
  then show ?thesis by (simp add: False read16_def write16_def)
qed (simp add: read16_write16_same)

lemma write16_outside: "i < 2000 \<Longrightarrow> \<not> on_screen a \<Longrightarrow> write16 m (cell_at i) v a = m a"
  using on_screen_cell[of i] by (auto simp: write16_def)

text \<open>A block copy and a fill, seen from the screen.\<close>

lemma unat_from_screen: "n \<le> 100000 \<Longrightarrow> unat (a - cell_at i) < n \<longleftrightarrow> unat (cell_at i) \<le> unat a \<and> unat a < unat (cell_at i) + n" if "i < 100000"
  using that unat_u32_less[of a] unat_cell_at[OF that] by (auto simp: unat_sub_if')

lemma memcpy_rows:
  "mem (memcpy (cell_at 0) (cell_at 80) 3840 s) a = (if 0xB8000 \<le> unat a \<and> unat a < 0xB8000 + 3840 then mem s (a + 160) else mem s a)"
  using memcpy_loop_mem[of 160 3840 "cell_at 0" s a] unat_from_screen[of 0 3840 a] by (simp add: memcpy_def unat_cell_at cell_at_def)

lemma read16_scrolled:
  assumes "k < 1920"
  shows "read16 (mem (memcpy (cell_at 0) (cell_at 80) 3840 s)) (cell_at k) = read16 (mem s) (cell_at (k + 80))"
proof -
  have "cell_at k + 160 = cell_at (k + 80)" "cell_at k + 1 + 160 = cell_at (k + 80) + 1" by (simp_all add: cell_at_def)
  then show ?thesis using assms unat_cell_at[of k] by (simp only: read16_def memcpy_rows) simp
qed

lemma fill_row:
  assumes "i < 10000"
  shows "mem (memsetw (cell_at i) v 80 s) a = (if unat (cell_at i) \<le> unat a \<and> unat a < unat (cell_at i) + 160
    then (if even (unat a) then ucast v else ucast (drop_bit 8 v)) else mem s a)"
proof -
  have "even (unat (a - cell_at i)) \<longleftrightarrow> even (unat a)" if "unat (cell_at i) \<le> unat a"
    using that assms by (simp add: unat_sub_if' unat_cell_at)
  then show ?thesis using memsetw_loop_mem[of 80 "cell_at i" v s a] unat_from_screen[of i 160 a] assms by (simp add: memsetw_def)
qed

lemma read16_filled:
  assumes "k < 2000" "i < 2000"
  shows "read16 (mem (memsetw (cell_at i) v 80 s)) (cell_at k) = (if i \<le> k \<and> k < i + 80 then v else read16 (mem s) (cell_at k))"
proof -
  have "ucast (ucast v :: u8) OR push_bit 8 (ucast (ucast (drop_bit 8 v) :: u8)) = (v :: u16)"
    by (rule bit_word_eqI) (auto simp: bit_simps)
  then show ?thesis using assms unat_cell_at[of k] unat_cell_at[of i] by (auto simp: read16_def fill_row)
qed

text \<open>The moves change memory only.\<close>

lemma memcpy_loop_fields: "memcpy_loop d sp n s = s\<lparr>mem := mem (memcpy_loop d sp n s)\<rparr>"
proof (induction n arbitrary: d sp s)
  case (Suc n)
  show ?case unfolding memcpy_loop.simps
    by (subst Suc.IH) (simp add: store8_def)
qed simp

lemma memsetw_loop_fields: "memsetw_loop d v n s = s\<lparr>mem := mem (memsetw_loop d v n s)\<rparr>"
proof (induction n arbitrary: d s)
  case (Suc n)
  show ?case unfolding memsetw_loop.simps
    by (subst Suc.IH) (simp add: store16_def)
qed simp

lemma console_fields [simp]:
  "attrib (memcpy d sp n s) = attrib s" "csr_x (memcpy d sp n s) = csr_x s" "csr_y (memcpy d sp n s) = csr_y s"
  "textmemptr (memcpy d sp n s) = textmemptr s" "trace (memcpy d sp n s) = trace s"
  "attrib (memsetw d v n s) = attrib s" "csr_x (memsetw d v n s) = csr_x s" "csr_y (memsetw d v n s) = csr_y s"
  "textmemptr (memsetw d v n s) = textmemptr s" "trace (memsetw d v n s) = trace s"
  "attrib (emit e s) = attrib s" "csr_x (emit e s) = csr_x s" "csr_y (emit e s) = csr_y s" "textmemptr (emit e s) = textmemptr s"
  "attrib (store16 d v s) = attrib s" "csr_x (store16 d v s) = csr_x s" "csr_y (store16 d v s) = csr_y s" "textmemptr (store16 d v s) = textmemptr s"
  unfolding memcpy_def memsetw_def by (subst memcpy_loop_fields memsetw_loop_fields, simp)+ (simp_all add: emit_def store16_def)

section \<open>Scrolling\<close>

lemma cells_eq_nth: "length xs = 2000 \<Longrightarrow> (\<And>k. k < 2000 \<Longrightarrow> read16 m (cell_at k) = xs ! k) \<Longrightarrow> map (\<lambda>k. read16 m (cell_at k)) [0..<2000] = xs"
  by (rule nth_equalityI) simp_all

lemma scroll_at_25:
  "textmemptr s = 0xB8000 \<Longrightarrow> csr_y s = 25 \<Longrightarrow>
   scroll s = (memsetw (cell_at 1920) (ucast (blank s)) 80 (memcpy (cell_at 0) (cell_at 80) 3840 s))\<lparr>csr_y := 24\<rparr>"
  by (simp add: scroll_def Let_def cell_at_def)

lemma scroll_refines:
  assumes "textmemptr s = 0xB8000" "0 \<le> csr_y s" "csr_y s \<le> 25"
  shows "screen_of (scroll s) = scroll_up (screen_of s)" "csr_x (scroll s) = csr_x s" "0 \<le> csr_y (scroll s)" "csr_y (scroll s) < 25"
    "textmemptr (scroll s) = 0xB8000" "\<not> on_screen a \<Longrightarrow> mem (scroll s) a = mem s a"
proof -
  have "screen_of (scroll s) = scroll_up (screen_of s) \<and> csr_x (scroll s) = csr_x s \<and> 0 \<le> csr_y (scroll s) \<and> csr_y (scroll s) < 25
    \<and> textmemptr (scroll s) = 0xB8000 \<and> (\<not> on_screen a \<longrightarrow> mem (scroll s) a = mem s a)"
  proof (cases "csr_y s = 25")
    case True
    note e = scroll_at_25[OF assms(1) True]
    let ?xs = "drop 80 (cells (screen_of s)) @ replicate 80 (empty_cell (screen_of s))"
    have "map (\<lambda>k. read16 (mem (scroll s)) (cell_at k)) [0..<2000] = ?xs"
    proof (rule cells_eq_nth)
      fix k :: nat assume k: "k < 2000"
      show "read16 (mem (scroll s)) (cell_at k) = ?xs ! k"
      proof (cases "k < 1920")
        case True
        then show ?thesis by (simp add: e read16_filled read16_scrolled screen_of_def nth_append add.commute)
      next
        case False
        then show ?thesis using k by (simp add: e read16_filled screen_of_def nth_append empty_cell_def blank_def)
      qed
    qed (simp add: screen_of_def)
    moreover have "mem (scroll s) a = mem s a" if "\<not> on_screen a"
      using that unat_cell_at[of 1920] by (auto simp: e fill_row memcpy_rows on_screen_def)
    moreover have "csr_x (scroll s) = csr_x s" "csr_y (scroll s) = 24" "attrib (scroll s) = attrib s" "textmemptr (scroll s) = 0xB8000"
      using assms(1) by (simp_all add: e)
    ultimately show ?thesis using True by (simp add: scroll_up_def) (simp add: screen_of_def)
  next
    case False
    then have "scroll s = s" using assms(3) by (simp add: scroll_def)
    then show ?thesis using assms False by (simp add: scroll_up_def screen_of_def)
  qed
  then show "screen_of (scroll s) = scroll_up (screen_of s)" "csr_x (scroll s) = csr_x s" "0 \<le> csr_y (scroll s)" "csr_y (scroll s) < 25"
    "textmemptr (scroll s) = 0xB8000" "\<not> on_screen a \<Longrightarrow> mem (scroll s) a = mem s a" by blast+
qed

section \<open>Characters\<close>

lemma tab_stop: "(x + 8) AND NOT (8 - 1) = 8 * (x div 8 + 1)" for x :: int
proof -
  have "(x + 8) AND NOT (mask 3) = push_bit 3 (drop_bit 3 (x + 8))" by (rule bit_eqI) (auto simp: bit_simps)
  moreover have "(x + 8) div 8 = x div 8 + 1" by simp
  ultimately show ?thesis by (simp add: mask_eq_exp_minus_1 push_bit_eq_mult drop_bit_eq_div del: div_add_self2)
qed

lemma sint_char: "32 \<le> sint (c :: u8) \<longleftrightarrow> 32 \<le> unat c \<and> unat c < 128" "32 \<le> sint (c :: u8) \<Longrightarrow> sint c = uint c"
proof -
  have l: "unat c < 256" using unsigned_less[of c] by simp
  have "bit c 7 \<longleftrightarrow> odd (unat c div 2 ^ 7)" using bit_unsigned_iff[of c 7, where 'a = nat] by (simp add: bit_iff_odd)
  also have "\<dots> \<longleftrightarrow> \<not> unat c < 128"
  proof (cases "unat c < 128")
    case False
    then have "unat c div 128 = 1" using l by (simp add: div_nat_eqI)
    then show ?thesis using False by simp
  qed simp
  finally have b: "bit c 7 \<longleftrightarrow> \<not> unat c < 128" .
  have u: "sint c = int (unat c) - 256 * of_bool (\<not> unat c < 128)" using sint_by_top[of c] b by simp
  have n: "uint c = int (unat c)" by simp
  show "32 \<le> sint (c :: u8) \<longleftrightarrow> 32 \<le> unat c \<and> unat c < 128" "32 \<le> sint (c :: u8) \<Longrightarrow> sint c = uint c"
    unfolding u n using l by (cases "unat c < 128"; simp del: of_nat_unat)+
qed

definition putch_place :: "u8 \<Rightarrow> 'a console_scheme \<Rightarrow> 'a console_scheme" where
  "putch_place c s =
     (if c = 0x08 then (if csr_x s \<noteq> 0 then s\<lparr>csr_x := csr_x s - 1\<rparr> else s)
      else if c = 0x09 then s\<lparr>csr_x := (csr_x s + 8) AND NOT (8 - 1)\<rparr>
      else if c = 0x0D then s\<lparr>csr_x := 0\<rparr>
      else if c = 0x0A then s\<lparr>csr_x := 0, csr_y := csr_y s + 1\<rparr>
      else if 32 \<le> sint c
      then let wh = textmemptr s + 2 * word_of_int (csr_y s * 80 + csr_x s)
           in (store16 wh (word_of_int (sint c OR push_bit 8 (attrib s))) s)\<lparr>csr_x := csr_x s + 1\<rparr>
      else s)"

definition putch_wrap :: "'a console_scheme \<Rightarrow> 'a console_scheme" where
  "putch_wrap s = (if 80 \<le> csr_x s then s\<lparr>csr_x := 0, csr_y := csr_y s + 1\<rparr> else s)"

lemma putch_parts: "putch c s = move_cursor (scroll (putch_wrap (putch_place c s)))"
  by (simp add: putch_def putch_place_def putch_wrap_def Let_def)

lemma place_refines:
  assumes "screen_ok s"
  shows "screen_of (putch_place c s) = place c (screen_of s)" "0 \<le> csr_x (putch_place c s)" "csr_x (putch_place c s) \<le> 80"
    "0 \<le> csr_y (putch_place c s)" "csr_y (putch_place c s) \<le> 25" "csr_x (putch_place c s) = 80 \<Longrightarrow> csr_y (putch_place c s) \<le> 24"
    "textmemptr (putch_place c s) = 0xB8000" "\<not> on_screen a \<Longrightarrow> mem (putch_place c s) a = mem s a"
proof -
  have ok: "textmemptr s = 0xB8000" "0 \<le> csr_x s" "csr_x s < 80" "0 \<le> csr_y s" "csr_y s < 25" using assms by (simp_all add: screen_ok_def)
  define k where "k = 80 * nat (csr_y s) + nat (csr_x s)"
  have k: "k < 2000" using ok by (simp add: k_def)
  have "csr_y s * 80 + csr_x s = int k" using ok by (simp add: k_def)
  then have w: "textmemptr s + 2 * word_of_int (csr_y s * 80 + csr_x s) = cell_at k" by (simp add: ok(1) cell_at_def)
  have cells: "map (\<lambda>i. read16 (write16 (mem s) (cell_at k) v) (cell_at i)) [0..<2000] = (cells (screen_of s))[k := v]" for v
    by (rule cells_eq_nth) (simp_all add: screen_of_def read16_cells k nth_list_update)
  have t: "0 \<le> (csr_x s + 8) AND NOT (8 - 1)" "(csr_x s + 8) AND NOT (8 - 1) \<le> 80"
    unfolding tab_stop using ok by simp_all
  show "screen_of (putch_place c s) = place c (screen_of s)"
  proof (cases "c \<in> {8, 9, 13, 10}")
    case True
    then show ?thesis using ok unfolding putch_place_def Let_def place_def tab_stop
      by (auto simp: screen_of_def nat_diff_distrib nat_mult_distrib nat_add_distrib nat_div_distrib)
  next
    case False
    let ?v = "word_of_int (uint c OR push_bit 8 (attrib s)) :: u16"
    show ?thesis
    proof (cases "32 \<le> sint c")
      case True
      have "putch_place c s = (store16 (cell_at k) ?v s)\<lparr>csr_x := csr_x s + 1\<rparr>"
        using False True sint_char(2)[OF True] unfolding putch_place_def Let_def w by simp
      moreover have "place c (screen_of s) = (screen_of s)\<lparr>cells := (cells (screen_of s))[k := ?v], col := col (screen_of s) + 1\<rparr>"
        using False True sint_char(1)[of c] by (simp add: place_def k_def screen_of_def)
      moreover have "screen_of ((store16 (cell_at k) ?v s)\<lparr>csr_x := csr_x s + 1\<rparr>) = (screen_of s)\<lparr>cells := (cells (screen_of s))[k := ?v], col := col (screen_of s) + 1\<rparr>"
        using ok(2) by (simp add: cells[symmetric]) (simp add: screen_of_def store16_def nat_add_distrib)
      ultimately show ?thesis by simp
    qed (use False sint_char(1)[of c] in \<open>auto simp: putch_place_def place_def\<close>)
  qed
  show "0 \<le> csr_x (putch_place c s)" "csr_x (putch_place c s) \<le> 80"
    "0 \<le> csr_y (putch_place c s)" "csr_y (putch_place c s) \<le> 25" "csr_x (putch_place c s) = 80 \<Longrightarrow> csr_y (putch_place c s) \<le> 24"
    "textmemptr (putch_place c s) = 0xB8000"
    using ok t unfolding putch_place_def Let_def by (auto split: if_splits)
  show "\<not> on_screen a \<Longrightarrow> mem (putch_place c s) a = mem s a"
    unfolding putch_place_def Let_def w using k by (simp add: store16_def write16_outside)
qed


lemma wrap_refines:
  "0 \<le> csr_x s \<Longrightarrow> 0 \<le> csr_y s \<Longrightarrow> screen_of (putch_wrap s) = wrap_line (screen_of s)"
  by (auto simp: putch_wrap_def wrap_line_def screen_of_def nat_add_distrib)

lemma putch_refines:
  assumes "screen_ok s"
  shows "screen_ok (putch c s)" "screen_of (putch c s) = put_char c (screen_of s)" "\<not> on_screen a \<Longrightarrow> mem (putch c s) a = mem s a"
proof -
  let ?p = "putch_place c s"
  let ?w = "putch_wrap ?p"
  note pl = place_refines[OF assms, where c = c]
  have w: "textmemptr ?w = 0xB8000" "0 \<le> csr_y ?w" "csr_y ?w \<le> 25" "0 \<le> csr_x ?w" "csr_x ?w < 80" "mem ?w = mem ?p"
    using pl by (auto simp: putch_wrap_def)
  note sc = scroll_refines[OF w(1-3)]
  show "screen_ok (putch c s)" unfolding putch_parts using sc w(4,5) by (simp add: screen_ok_def move_cursor_def)
  have "screen_of (move_cursor (scroll ?w)) = screen_of (scroll ?w)" by (simp add: screen_of_def move_cursor_def)
  then show "screen_of (putch c s) = put_char c (screen_of s)"
    unfolding putch_parts put_char_def using sc(1) wrap_refines[OF pl(2,4)] pl(1) by simp
  show "\<not> on_screen a \<Longrightarrow> mem (putch c s) a = mem s a"
    unfolding putch_parts using sc(6) w(6) pl(8) by (simp add: move_cursor_def)
qed

text \<open>\<open>init\<close> leaves an empty screen with the cursor at its start.\<close>

lemma cls_rows:
  assumes "textmemptr s = 0xB8000" "n \<le> 25"
  defines "t \<equiv> fold (\<lambda>i s. memsetw (textmemptr s + 2 * (of_nat i * 80)) (ucast (blank s)) 80 s) [0..<n] s"
  shows "textmemptr t = 0xB8000 \<and> attrib t = attrib s
    \<and> (\<forall>k < 2000. read16 (mem t) (cell_at k) = (if k < 80 * n then ucast (blank s) else read16 (mem s) (cell_at k)))"
  using assms(2) unfolding t_def
proof (induction n)
  case (Suc n)
  let ?t = "fold (\<lambda>i s. memsetw (textmemptr s + 2 * (of_nat i * 80)) (ucast (blank s)) 80 s) [0..<n] s"
  have IH: "textmemptr ?t = 0xB8000" "attrib ?t = attrib s"
    "\<And>k. k < 2000 \<Longrightarrow> read16 (mem ?t) (cell_at k) = (if k < 80 * n then ucast (blank s) else read16 (mem s) (cell_at k))"
    using Suc by simp_all
  have "textmemptr ?t + 2 * (of_nat n * 80) = cell_at (80 * n)" "blank ?t = blank s" using IH(1,2) by (simp_all add: cell_at_def blank_def)
  then show ?case using IH Suc.prems by (auto simp: read16_filled)
qed (simp add: assms(1))

lemma Console_init_screen:
  "screen_ok (Console_init f b s) \<and> row (screen_of (Console_init f b s)) = 0 \<and> col (screen_of (Console_init f b s)) = 0
   \<and> cells (screen_of (Console_init f b s)) = replicate 2000 (empty_cell (screen_of (Console_init f b s)))"
proof -
  define s1 where "s1 = (set_TextColor f b s)\<lparr>csr_x := 0, csr_y := 0, textmemptr := CONSOLE_START_ADDRESS\<rparr>"
  define t where "t = fold (\<lambda>i s. memsetw (textmemptr s + 2 * (of_nat i * 80)) (ucast (blank s)) 80 s) [0..<25] s1"
  have i: "Console_init f b s = move_cursor (t\<lparr>csr_x := 0, csr_y := 0\<rparr>)" by (simp add: Console_init_def cls_def Let_def s1_def t_def)
  have t: "textmemptr t = 0xB8000" "attrib t = attrib s1" "\<And>k. k < 2000 \<Longrightarrow> read16 (mem t) (cell_at k) = ucast (blank s1)"
    using cls_rows[of s1 25] unfolding t_def by (auto simp: s1_def CONSOLE_START_ADDRESS_def)
  have "map (\<lambda>k. read16 (mem t) (cell_at k)) [0..<2000] = replicate 2000 (ucast (blank s1))" by (rule cells_eq_nth) (simp_all add: t(3))
  then show ?thesis using t(1,2) unfolding i by (simp add: screen_ok_def screen_of_def move_cursor_def empty_cell_def blank_def)
qed

section \<open>Strings\<close>

lemma of_nat_sless: "i < 2147483648 \<Longrightarrow> j < 2147483648 \<Longrightarrow> (of_nat i :: u32) <s of_nat j \<longleftrightarrow> i < j"
proof -
  assume "i < 2147483648" "j < 2147483648"
  moreover have "sint (of_nat n :: u32) = int n" if "n < 2147483648" for n
  proof -
    have u: "unat (of_nat n :: u32) = n" using that by simp
    then have "\<not> bit (of_nat n :: u32) 31" using bit_below[of "of_nat n" 31 31] that by auto
    then show ?thesis using sint_by_top[of "of_nat n :: u32"] u by simp
  qed
  ultimately show ?thesis by (simp add: word_sless_alt)
qed

lemma string_at_cong: "string_at m p w \<Longrightarrow> (\<And>i. i \<le> length w \<Longrightarrow> m' (p + of_nat i) = m (p + of_nat i)) \<Longrightarrow> string_at m' p w"
  by (auto simp: string_at_def)

lemma puts_loop_shows:
  assumes "screen_ok s" "string_at (mem s) p w" "\<forall>i \<le> length w. \<not> on_screen (p + of_nat i)" "length w < 2147483648" "i \<le> length w"
  shows "\<exists>s'. puts_loop p (of_nat i) s = Some s' \<and> screen_ok s' \<and> screen_of s' = fold put_char (drop i w) (screen_of s)
    \<and> (\<forall>a. \<not> on_screen a \<longrightarrow> mem s' a = mem s a)"
  using assms(1,2,5)
proof (induction "length w - i" arbitrary: i s)
  case 0
  then show ?case using strlen_string[OF 0(3)] assms(4) by (subst puts_loop.simps) (simp add: of_nat_sless)
next
  case (Suc k)
  then have i: "i < length w" by simp
  let ?c = "w ! i" and ?t = "putch (w ! i) s"
  have c: "mem s (p + of_nat i) = ?c" using Suc.prems(2) i by (simp add: string_at_def)
  note r = putch_refines[OF Suc.prems(1), where c = ?c]
  have st: "string_at (mem ?t) p w" by (rule string_at_cong[OF Suc.prems(2)]) (use r(3) assms(3) in blast)
  obtain s' where s': "puts_loop p (of_nat (Suc i)) ?t = Some s'" "screen_ok s'" "screen_of s' = fold put_char (drop (Suc i) w) (screen_of ?t)"
    "\<And>a. \<not> on_screen a \<Longrightarrow> mem s' a = mem ?t a"
    using Suc.hyps(1)[of "Suc i" ?t, OF _ r(1) st] Suc.hyps(2) i by (metis Suc_leI diff_Suc_Suc diff_Suc_1 Suc_diff_Suc)
  have "puts_loop p (of_nat i) s = Some s'"
    using strlen_string[OF Suc.prems(2)] s'(1) i assms(4) c by (subst puts_loop.simps) (simp add: of_nat_sless add.commute)
  moreover have "screen_of s' = fold put_char (drop i w) (screen_of s)" using s'(3) r(2) i by (simp flip: Cons_nth_drop_Suc)
  ultimately show ?case using s'(2,4) r(3) by auto
qed

text \<open>C14: The console implements a terminal: for a string outside the text memory \<open>Console::puts\<close> returns, the 25 by 80 cells
and the cursor are those of the terminal after the string's characters one by one, scrolling included, the cursor
stays on the screen and no byte outside the text memory is written.\<close>

theorem console_shows_string:
  assumes "screen_ok s" "string_at (mem s) p w" "\<forall>i \<le> length w. \<not> on_screen (p + of_nat i)" "length w < 2147483648"
  shows "\<exists>s'. Console_puts p s = Some s' \<and> screen_of s' = fold put_char w (screen_of s) \<and> screen_ok s'
    \<and> (\<forall>a. \<not> on_screen a \<longrightarrow> mem s' a = mem s a)"
  using puts_loop_shows[OF assms, of 0] by (auto simp: Console_puts_def)

text \<open>A console at the end of its last line, and the string \<open>A\<close>, newline.\<close>

definition last_line :: console where
  "last_line = \<lparr>mem = (\<lambda>_. 0)(0x5000 := 65, 0x5001 := 10), trace = [], attrib = 15, csr_x = 79, csr_y = 24, textmemptr = 0xB8000\<rparr>"

theorem console_shows_string_witness:
  "\<exists>s'. Console_puts 0x5000 last_line = Some s' \<and> row (screen_of s') = 24 \<and> col (screen_of s') = 0
     \<and> cells (screen_of s') ! 1838 = 0 \<and> cells (screen_of s') ! 1839 = 0x0F41 \<and> cells (screen_of s') ! 1920 = 0x0F20"
proof -
  have "string_at (mem last_line) 0x5000 [65, 10]" by (simp add: string_at_Cons string_at_Nil last_line_def)
  moreover have "\<forall>i \<le> length [65 :: u8, 10]. \<not> on_screen (0x5000 + of_nat i)"
  proof (intro allI impI)
    fix i assume "i \<le> length [65 :: u8, 10]"
    then have "i = 0 \<or> i = 1 \<or> i = 2" by auto
    then show "\<not> on_screen (0x5000 + of_nat i)" by (elim disjE) (simp_all add: on_screen_def)
  qed
  moreover have "screen_ok last_line" by (simp add: screen_ok_def last_line_def)
  ultimately obtain s' where s': "Console_puts 0x5000 last_line = Some s'" "screen_of s' = fold put_char [65, 10] (screen_of last_line)"
    using console_shows_string[of last_line "0x5000" "[65, 10]"] by auto
  let ?x = "(cells (screen_of last_line))[1999 := 0x0F41]" and ?b = "replicate 80 (0x0F20 :: u16)"
  have l: "length (cells (screen_of last_line)) = 2000" "cells (screen_of last_line) ! 1998 = 0"
    by (simp_all add: screen_of_def) (simp add: last_line_def read16_def cell_at_def)
  have "screen_of last_line = \<lparr>cells = cells (screen_of last_line), row = 24, col = 79, colour = 15\<rparr>"
    by (simp add: screen_of_def last_line_def)
  moreover have "put_char 10 (put_char 65 \<lparr>cells = cs, row = 24, col = 79, colour = 15\<rparr>)
      = \<lparr>cells = drop 80 (drop 80 (cs[1999 := 0x0F41]) @ ?b) @ ?b, row = 24, col = 0, colour = 15\<rparr>" for cs
    by (simp add: put_char_def place_def wrap_line_def scroll_up_def empty_cell_def)
  ultimately have "screen_of s' = \<lparr>cells = drop 80 (drop 80 ?x @ ?b) @ ?b, row = 24, col = 0, colour = 15\<rparr>"
    using s'(2) by (metis fold_simps)
  then show ?thesis using s'(1) l by (intro exI[of _ s']) (simp add: nth_append)
qed

section \<open>P1\<close>

text \<open>P1's console shifts the screen by half a row.\<close>

lemma scroll_P1_half_row:
  assumes "textmemptr s = 0xB8000" "csr_y s = 25" "k < 1920"
  shows "read16 (mem (scroll_P1 s)) (cell_at k) = read16 (mem s) (cell_at (k + 40))"
proof -
  have "memcpy (textmemptr s) (textmemptr s + 80) 3840 s = memcpy (cell_at 0) (cell_at 40) 3840 s" by (simp add: assms(1) cell_at_def)
  then have e: "scroll_P1 s = (memsetw (cell_at 1920) (ucast (blank s)) 80 (memcpy (cell_at 0) (cell_at 40) 3840 s))\<lparr>csr_y := 24\<rparr>"
    by (simp add: scroll_P1_def Let_def assms(1,2)) (simp add: cell_at_def)
  have m: "mem (memcpy (cell_at 0) (cell_at 40) 3840 s) a = (if 0xB8000 \<le> unat a \<and> unat a < 0xB8000 + 3840 then mem s (a + 80) else mem s a)" for a
    using memcpy_loop_mem[of 80 3840 "cell_at 0" s a] unat_from_screen[of 0 3840 a] by (simp add: memcpy_def unat_cell_at cell_at_def)
  have "cell_at k + 80 = cell_at (k + 40)" "cell_at k + 1 + 80 = cell_at (k + 40) + 1" by (simp_all add: cell_at_def)
  then have "read16 (mem (memcpy (cell_at 0) (cell_at 40) 3840 s)) (cell_at k) = read16 (mem s) (cell_at (k + 40))"
    using assms(3) unat_cell_at[of k] by (simp only: read16_def m) simp
  then show ?thesis using assms(3) by (simp add: e read16_filled)
qed

end
