(* ===== verification/Pic.thy ===== *)
theory Pic
  imports Prelude
begin

text \<open>
  The two cascaded 8259 interrupt controllers as Bochs emulates them (iodev/pic.cc): the priority search, the writes
  and reads of the four ports, the interrupt lines and the acknowledgement by the CPU. An argument of
  \<open>BX_PANIC\<close> is the value None. Forwarding to an I/O APIC is left out, as are the fields that only \<open>init\<close> writes.
\<close>

section \<open>State\<close>

record bx_pic_t =
  interrupt_offset :: u8
  auto_eoi :: bool
  imr :: u8
  isr :: u8
  irr :: u8
  read_reg_select :: bool
  irq :: nat
  lowest_priority :: nat
  INT_pin :: bool
  IRQ_in :: u8
  in_init :: bool
  requires_4 :: bool
  byte_expected :: nat
  special_mask :: bool
  polled :: bool
  rotate_on_autoeoi :: bool
  edge_level :: u8

text \<open>\<open>intr\<close> is the line to the CPU, which \<open>BX_RAISE_INTR\<close> and \<open>BX_CLEAR_INTR\<close> drive.\<close>

record bx_pic_c =
  master_pic :: bx_pic_t
  slave_pic :: bx_pic_t
  intr :: bool

definition pic_at_init :: "u8 \<Rightarrow> bx_pic_t" where
  "pic_at_init offset = \<lparr>interrupt_offset = offset, auto_eoi = False, imr = 0xFF, isr = 0, irr = 0, read_reg_select = False,
     irq = 0, lowest_priority = 7, INT_pin = False, IRQ_in = 0, in_init = False, requires_4 = False, byte_expected = 0,
     special_mask = False, polled = False, rotate_on_autoeoi = False, edge_level = 0\<rparr>"

definition pic_init :: bx_pic_c where
  "pic_init = \<lparr>master_pic = pic_at_init 0x08, slave_pic = pic_at_init 0x70, intr = False\<rparr>"

section \<open>Priorities\<close>

definition irq_mask :: "nat \<Rightarrow> u8" where
  "irq_mask irq_no = push_bit irq_no 1"

lemma bit_irq_mask [simp]: "bit (irq_mask k) n \<longleftrightarrow> n = k \<and> k < 8"
  by (auto simp: irq_mask_def bit_simps)

definition next_irq :: "nat \<Rightarrow> nat" where
  "next_irq i = (if 7 < i + 1 then 0 else i + 1)"

text \<open>The loops count through the eight lines from the highest priority on, so eight rounds are enough.\<close>

fun clear_loop :: "nat \<Rightarrow> nat \<Rightarrow> nat \<Rightarrow> bx_pic_t \<Rightarrow> bx_pic_t" where
  "clear_loop 0 highest i pic = pic"
| "clear_loop (Suc n) highest i pic =
     (if bit (isr pic) i then pic\<lparr>isr := isr pic AND NOT (irq_mask i)\<rparr>
      else if next_irq i \<noteq> highest then clear_loop n highest (next_irq i) pic else pic)"

definition clear_highest_interrupt :: "bx_pic_t \<Rightarrow> bx_pic_t" where
  "clear_highest_interrupt pic = (let highest = next_irq (lowest_priority pic) in clear_loop 8 highest highest pic)"

fun in_service_loop :: "nat \<Rightarrow> u8 \<Rightarrow> nat \<Rightarrow> nat" where
  "in_service_loop 0 is i = i"
| "in_service_loop (Suc n) is i = (if bit is i then i else in_service_loop n is (next_irq i))"

fun request_loop :: "nat \<Rightarrow> bool \<Rightarrow> u8 \<Rightarrow> u8 \<Rightarrow> nat \<Rightarrow> nat \<Rightarrow> nat option" where
  "request_loop 0 special is requests max_irq i = None"
| "request_loop (Suc n) special is requests max_irq i =
     (if \<not> (special \<and> bit is i) \<and> bit requests i then Some i
      else if next_irq i \<noteq> max_irq then request_loop n special is requests max_irq (next_irq i) else None)"

text \<open>The request that \<open>service_master_pic\<close> and \<open>service_slave_pic\<close> signal, if any.\<close>

definition pic_request :: "bx_pic_t \<Rightarrow> nat option" where
  "pic_request pic =
     (let highest = next_irq (lowest_priority pic);
          max_irq = (if \<not> special_mask pic \<and> isr pic \<noteq> 0 then in_service_loop 8 (isr pic) highest else highest);
          requests = irr pic AND NOT (imr pic)
      in if INT_pin pic then None
         else if \<not> special_mask pic \<and> isr pic \<noteq> 0 \<and> max_irq = highest then None
         else if requests \<noteq> 0 then request_loop 8 (special_mask pic) (isr pic) requests max_irq highest
         else None)"

section \<open>Interrupt lines\<close>

definition service_master_pic :: "bx_pic_c \<Rightarrow> bx_pic_c" where
  "service_master_pic p = (case pic_request (master_pic p) of None \<Rightarrow> p
     | Some i \<Rightarrow> p\<lparr>master_pic := (master_pic p)\<lparr>INT_pin := True, irq := i\<rparr>, intr := True\<rparr>)"

text \<open>\<open>raise_irq\<close> for the lines 0 to 7; line 2 is the one of the slave.\<close>

definition raise_master :: "nat \<Rightarrow> bx_pic_c \<Rightarrow> bx_pic_c" where
  "raise_master n p =
     (let m = master_pic p in
      if \<not> bit (IRQ_in m) n
      then service_master_pic (p\<lparr>master_pic := m\<lparr>IRQ_in := IRQ_in m OR irq_mask n, irr := irr m OR irq_mask n\<rparr>\<rparr>)
      else p)"

definition service_slave_pic :: "bx_pic_c \<Rightarrow> bx_pic_c" where
  "service_slave_pic p = (case pic_request (slave_pic p) of None \<Rightarrow> p
     | Some i \<Rightarrow> raise_master 2 (p\<lparr>slave_pic := (slave_pic p)\<lparr>INT_pin := True, irq := i\<rparr>\<rparr>))"

definition raise_irq :: "nat \<Rightarrow> bx_pic_c \<Rightarrow> bx_pic_c" where
  "raise_irq irq_no p =
     (let k = irq_no mod 8; sl = slave_pic p in
      if irq_no \<le> 7 then raise_master irq_no p
      else if irq_no \<le> 15 \<and> \<not> bit (IRQ_in sl) k
      then service_slave_pic (p\<lparr>slave_pic := sl\<lparr>IRQ_in := IRQ_in sl OR irq_mask k, irr := irr sl OR irq_mask k\<rparr>\<rparr>)
      else p)"

definition drop_line :: "nat \<Rightarrow> bx_pic_t \<Rightarrow> bx_pic_t" where
  "drop_line k pic = (if bit (IRQ_in pic) k
     then pic\<lparr>IRQ_in := IRQ_in pic AND NOT (irq_mask k), irr := irr pic AND NOT (irq_mask k)\<rparr> else pic)"

definition lower_irq :: "nat \<Rightarrow> bx_pic_c \<Rightarrow> bx_pic_c" where
  "lower_irq irq_no p =
     (if irq_no \<le> 7 then p\<lparr>master_pic := drop_line (irq_no mod 8) (master_pic p)\<rparr>
      else if irq_no \<le> 15 then p\<lparr>slave_pic := drop_line (irq_no mod 8) (slave_pic p)\<rparr>
      else p)"

definition set_mode :: "bool \<Rightarrow> u8 \<Rightarrow> bx_pic_c \<Rightarrow> bx_pic_c" where
  "set_mode ma_sl mode p =
     (if ma_sl then p\<lparr>master_pic := (master_pic p)\<lparr>edge_level := mode\<rparr>\<rparr> else p\<lparr>slave_pic := (slave_pic p)\<lparr>edge_level := mode\<rparr>\<rparr>)"

section \<open>Commands\<close>

definition icw1 :: "u8 \<Rightarrow> bx_pic_t \<Rightarrow> bx_pic_t" where
  "icw1 v pic = pic\<lparr>in_init := True, requires_4 := bit v 0, byte_expected := 2, imr := 0, isr := 0, irr := 0,
     lowest_priority := 7, INT_pin := False, auto_eoi := False, rotate_on_autoeoi := False\<rparr>"

text \<open>OCW3: the second component says whether requests are looked for again.\<close>

definition ocw3 :: "u8 \<Rightarrow> bx_pic_t \<Rightarrow> bx_pic_t \<times> bool" where
  "ocw3 v pic =
     (let special = drop_bit 5 (v AND 0x60); read_op = v AND 0x03;
          pic1 = (if read_op = 0x02 then pic\<lparr>read_reg_select := False\<rparr> else if read_op = 0x03 then pic\<lparr>read_reg_select := True\<rparr> else pic)
      in if bit v 2 then (pic\<lparr>polled := True\<rparr>, False)
         else if special = 0x02 then (pic1\<lparr>special_mask := False\<rparr>, False)
         else if special = 0x03 then (pic1\<lparr>special_mask := True\<rparr>, True)
         else (pic1, False))"

definition ocw2 :: "u8 \<Rightarrow> bx_pic_t \<Rightarrow> (bx_pic_t \<times> bool) option" where
  "ocw2 v pic =
     (let low = unat (v AND 7) in
      if v = 0x00 \<or> v = 0x80 then Some (pic\<lparr>rotate_on_autoeoi := (v \<noteq> 0)\<rparr>, False)
      else if v = 0xA0 \<or> v = 0x20
      then let pic1 = clear_highest_interrupt pic
           in Some (if v = 0xA0 then pic1\<lparr>lowest_priority := next_irq (lowest_priority pic1)\<rparr> else pic1, True)
      else if v = 0x40 then Some (pic, False)
      else if v AND 0xF8 = 0x60 then Some (pic\<lparr>isr := isr pic AND NOT (irq_mask low)\<rparr>, True)
      else if v AND 0xF8 = 0xC0 then Some (pic\<lparr>lowest_priority := low\<rparr>, False)
      else if v AND 0xF8 = 0xE0 then Some (pic\<lparr>isr := isr pic AND NOT (irq_mask low), lowest_priority := low\<rparr>, True)
      else if v = 0x02 then Some (pic, False)
      else None)"

text \<open>The data port: the initialization words 2 to 4 in order, the mask otherwise.\<close>

definition data_write :: "u8 \<Rightarrow> bx_pic_t \<Rightarrow> (bx_pic_t \<times> bool) option" where
  "data_write v pic =
     (if in_init pic
      then if byte_expected pic = 2 then Some (pic\<lparr>interrupt_offset := v AND 0xf8, byte_expected := 3\<rparr>, False)
           else if byte_expected pic = 3
           then Some (if requires_4 pic then pic\<lparr>byte_expected := 4\<rparr> else pic\<lparr>in_init := False\<rparr>, False)
           else if byte_expected pic = 4
           then if bit v 0 then Some (pic\<lparr>auto_eoi := bit v 1, in_init := False\<rparr>, False) else None
           else None
      else Some (pic\<lparr>imr := v\<rparr>, True))"

definition command_write :: "u8 \<Rightarrow> bx_pic_t \<Rightarrow> (bx_pic_t \<times> bool) option" where
  "command_write v pic = (if v AND 0x18 = 0x08 then Some (ocw3 v pic) else ocw2 v pic)"

definition set_master :: "bx_pic_c \<Rightarrow> bx_pic_t \<times> bool \<Rightarrow> bx_pic_c" where
  "set_master p r = (let p1 = p\<lparr>master_pic := fst r\<rparr> in if snd r then service_master_pic p1 else p1)"

definition set_slave :: "bx_pic_c \<Rightarrow> bx_pic_t \<times> bool \<Rightarrow> bx_pic_c" where
  "set_slave p r = (let p1 = p\<lparr>slave_pic := fst r\<rparr> in if snd r then service_slave_pic p1 else p1)"

definition pic_write :: "u16 \<Rightarrow> u8 \<Rightarrow> bx_pic_c \<Rightarrow> bx_pic_c option" where
  "pic_write address v p =
     (if address = 0x20
      then if bit v 4
           then if bit v 1 \<or> bit v 3 then None else Some (p\<lparr>master_pic := icw1 v (master_pic p), intr := False\<rparr>)
           else map_option (set_master p) (command_write v (master_pic p))
      else if address = 0x21 then map_option (set_master p) (data_write v (master_pic p))
      else if address = 0xA0
      then if bit v 4
           then if bit v 1 \<or> bit v 3 then None
                else Some (p\<lparr>slave_pic := icw1 v (slave_pic p),
                             master_pic := (master_pic p)\<lparr>IRQ_in := IRQ_in (master_pic p) AND NOT (irq_mask 2)\<rparr>\<rparr>)
           else map_option (set_slave p) (command_write v (slave_pic p))
      else if address = 0xA1 then map_option (set_slave p) (data_write v (slave_pic p))
      else Some p)"

text \<open>In polled mode a read is the acknowledgement. Reads of one byte; \<open>irq\<close> is at most 7.\<close>

definition pic_status :: "u16 \<Rightarrow> bx_pic_t \<Rightarrow> u8" where
  "pic_status address pic = (if bit address 0 then imr pic else if read_reg_select pic then isr pic else irr pic)"

definition pic_read :: "u16 \<Rightarrow> bx_pic_c \<Rightarrow> (u8 \<times> bx_pic_c) option" where
  "pic_read address p =
     (if address = 0x20 \<or> address = 0x21
      then if polled (master_pic p)
           then let p1 = service_master_pic (p\<lparr>master_pic := (clear_highest_interrupt (master_pic p))\<lparr>polled := False\<rparr>\<rparr>)
                in Some (of_nat (irq (master_pic p1)), p1)
           else Some (pic_status address (master_pic p), p)
      else if address = 0xA0 \<or> address = 0xA1
      then if polled (slave_pic p)
           then let p1 = service_slave_pic (p\<lparr>slave_pic := (clear_highest_interrupt (slave_pic p))\<lparr>polled := False\<rparr>\<rparr>)
                in Some (of_nat (irq (slave_pic p1)), p1)
           else Some (pic_status address (slave_pic p), p)
      else None)"

section \<open>Acknowledgement\<close>

definition acknowledge :: "bx_pic_t \<Rightarrow> bx_pic_t" where
  "acknowledge pic =
     (let pic1 = (if \<not> bit (edge_level pic) (irq pic) then pic\<lparr>irr := irr pic AND NOT (irq_mask (irq pic))\<rparr> else pic)
      in if \<not> auto_eoi pic then pic1\<lparr>isr := isr pic OR irq_mask (irq pic)\<rparr>
         else if rotate_on_autoeoi pic then pic1\<lparr>lowest_priority := irq pic\<rparr> else pic1)"

definition IAC :: "bx_pic_c \<Rightarrow> u8 \<times> bx_pic_c" where
  "IAC p =
     (let p1 = p\<lparr>intr := False, master_pic := (master_pic p)\<lparr>INT_pin := False\<rparr>\<rparr>; m = master_pic p1 in
      if irr m = 0 then (interrupt_offset m + 7, p1)
      else let p2 = p1\<lparr>master_pic := acknowledge m\<rparr> in
        if irq m \<noteq> 2 then (of_nat (irq m) + interrupt_offset m, service_master_pic p2)
        else let p3 = p2\<lparr>slave_pic := (slave_pic p2)\<lparr>INT_pin := False\<rparr>,
                         master_pic := (master_pic p2)\<lparr>IRQ_in := IRQ_in (master_pic p2) AND NOT (irq_mask 2)\<rparr>\<rparr>;
                 sl = slave_pic p3 in
          if irr sl = 0 then (interrupt_offset sl + 7, p3)
          else (of_nat (irq sl) + interrupt_offset sl,
                service_master_pic (service_slave_pic (p3\<lparr>slave_pic := acknowledge sl\<rparr>))))"

end
