(* ===== verification/Dispatchers.thy ===== *)
theory Dispatchers
  imports Prelude "HOL-Library.Signed_Division"
begin

text \<open>
  The C side of interrupts and exceptions in P3 to P6: the dispatchers and their handler tables (interrupts.C,
  exceptions.C), the programming of the interrupt controllers (irq.C), and the two handlers the kernels install, the
  timer (simple_timer.C) and the keyboard (simple_keyboard.C). A table entry is the address of the handler object, 0 for
  none; the virtual call through it is the parameter \<open>handle\<close>.
\<close>

section \<open>Tables\<close>

record kernel_tables = machine +
  irq_table :: "u32 list"
  exception_table :: "u32 list"

definition IRQ_TABLE_SIZE :: nat where "IRQ_TABLE_SIZE = 16"
definition IRQ_BASE :: u32 where "IRQ_BASE = 32"
definition EXCEPTION_TABLE_SIZE :: nat where "EXCEPTION_TABLE_SIZE = 32"

type_synonym 's handler = "u32 \<Rightarrow> u32 \<Rightarrow> 's \<Rightarrow> 's result"

text \<open>The loops at the end of the two \<open>init_dispatcher\<close> functions.\<close>

definition clear_irq_table :: "'a kernel_tables_scheme \<Rightarrow> 'a kernel_tables_scheme" where
  "clear_irq_table s = s\<lparr>irq_table := replicate IRQ_TABLE_SIZE 0\<rparr>"

definition clear_exception_table :: "'a kernel_tables_scheme \<Rightarrow> 'a kernel_tables_scheme" where
  "clear_exception_table s = s\<lparr>exception_table := replicate EXCEPTION_TABLE_SIZE 0\<rparr>"

definition outportb :: "u16 \<Rightarrow> u8 \<Rightarrow> 'a machine_scheme \<Rightarrow> 'a machine_scheme" where
  "outportb port data s = emit (OutB port data) s"

section \<open>Interrupts (interrupts.C)\<close>

definition generated_by_slave_PIC :: "u32 \<Rightarrow> bool" where
  "generated_by_slave_PIC int_no \<longleftrightarrow> 7 < int_no"

text \<open>\<open>r\<close> points at the registers on the stack; \<open>int_no\<close> is their thirteenth dword.\<close>

definition dispatch_interrupt ::
  "'a kernel_tables_scheme handler \<Rightarrow> u32 \<Rightarrow> 'a kernel_tables_scheme \<Rightarrow> 'a kernel_tables_scheme result" where
  "dispatch_interrupt handle r s =
     (let int_no = read32 (mem s) (r + 48) - IRQ_BASE in
      if \<not> int_no < of_nat IRQ_TABLE_SIZE then Inl Assertion_Failed
      else let handler = irq_table s ! unat int_no in
        andthen (if handler = 0
                 then Inr (puts (''NO DEFAULT INTERRUPT HANDLER REGISTERED'' @ [CHR 0x0A]) (puts [CHR 0x0A] (puti (sint int_no) (puts ''INTERRUPT NO: '' s))))
                 else handle handler r s)
          (\<lambda>s1. let s2 = (if generated_by_slave_PIC int_no then outportb 0xA0 0x20 s1 else s1)
                in Inr (outportb 0x20 0x20 s2)))"

definition register_interrupt_handler :: "u32 \<Rightarrow> u32 \<Rightarrow> 'a kernel_tables_scheme \<Rightarrow> 'a kernel_tables_scheme result" where
  "register_interrupt_handler irq_code handler s =
     (if \<not> irq_code < of_nat IRQ_TABLE_SIZE then Inl Assertion_Failed
      else Inr (puts [CHR 0x0A] (putui irq_code (puts ''Installed interrupt handler at IRQ ''
             (s\<lparr>irq_table := (irq_table s)[unat irq_code := handler]\<rparr>)))))"

definition deregister_interrupt_handler :: "u32 \<Rightarrow> 'a kernel_tables_scheme \<Rightarrow> 'a kernel_tables_scheme result" where
  "deregister_interrupt_handler irq_code s =
     (if \<not> irq_code < of_nat IRQ_TABLE_SIZE then Inl Assertion_Failed
      else Inr (puts [CHR 0x0A] (putui irq_code (puts ''UNINSTALLED interrupt handler at IRQ ''
             (s\<lparr>irq_table := (irq_table s)[unat irq_code := 0]\<rparr>)))))"

section \<open>Exceptions (exceptions.C)\<close>

definition dispatch_exception ::
  "'a kernel_tables_scheme handler \<Rightarrow> u32 \<Rightarrow> 'a kernel_tables_scheme \<Rightarrow> 'a kernel_tables_scheme result" where
  "dispatch_exception handle r s =
     (let exc_no = read32 (mem s) (r + 48);
          s1 = puts [CHR 0x0A] (putui exc_no (puts ''EXCEPTION DISPATCHER: exc_no = '' s)) in
      if \<not> exc_no < of_nat EXCEPTION_TABLE_SIZE then Inl Assertion_Failed
      else let handler = exception_table s1 ! unat exc_no in
        if handler = 0 then Inl Aborted else handle handler r s1)"

definition register_exception_handler :: "u32 \<Rightarrow> u32 \<Rightarrow> 'a kernel_tables_scheme \<Rightarrow> 'a kernel_tables_scheme result" where
  "register_exception_handler isr_code handler s =
     (if \<not> isr_code < of_nat EXCEPTION_TABLE_SIZE then Inl Assertion_Failed
      else Inr (puts [CHR 0x0A] (putui isr_code (puts ''Installed exception handler at ISR ''
             (s\<lparr>exception_table := (exception_table s)[unat isr_code := handler]\<rparr>)))))"

definition deregister_exception_handler :: "u32 \<Rightarrow> 'a kernel_tables_scheme \<Rightarrow> 'a kernel_tables_scheme result" where
  "deregister_exception_handler isr_code s =
     (if \<not> isr_code < of_nat EXCEPTION_TABLE_SIZE then Inl Assertion_Failed
      else Inr (puts [CHR 0x0A] (putui isr_code (puts ''UNINSTALLED exception handler at ISR ''
             (s\<lparr>exception_table := (exception_table s)[unat isr_code := 0]\<rparr>)))))"

section \<open>The interrupt controllers (irq.C)\<close>

definition irq_remap :: "'a machine_scheme \<Rightarrow> 'a machine_scheme" where
  "irq_remap s =
     (let s = outportb 0x20 0x11 s; s = outportb 0xA0 0x11 s;
          s = outportb 0x21 0x20 s; s = outportb 0xA1 0x28 s;
          s = outportb 0x21 0x04 s; s = outportb 0xA1 0x02 s;
          s = outportb 0x21 0x01 s; s = outportb 0xA1 0x01 s;
          s = outportb 0x21 0x0 s
      in outportb 0xA1 0x0 s)"

definition IRQ_init :: "'a machine_scheme \<Rightarrow> 'a machine_scheme" where
  "IRQ_init s = irq_remap s"

section \<open>The timer (simple_timer.C)\<close>

record simple_timer =
  seconds :: u32
  ticks :: int
  hz :: int

text \<open>\<open>int\<close> values: \<open>ticks\<close> stays below \<open>hz\<close>, so it does not overflow. C's division rounds towards 0.\<close>

definition set_frequency :: "int \<Rightarrow> simple_timer \<Rightarrow> 'a machine_scheme \<Rightarrow> (simple_timer \<times> 'a machine_scheme) result" where
  "set_frequency f t s =
     (let t1 = t\<lparr>hz := f\<rparr> in
      if f = 0 then Inl Division_Error
      else let divisor = 1193180 sdiv f;
               s1 = outportb 0x43 0x34 s;
               s2 = outportb 0x40 (word_of_int (divisor AND 0xFF)) s1
           in Inr (t1, outportb 0x40 (word_of_int (drop_bit 8 divisor)) s2))"

definition construct_SimpleTimer :: "int \<Rightarrow> 'a machine_scheme \<Rightarrow> (simple_timer \<times> 'a machine_scheme) result" where
  "construct_SimpleTimer f s = set_frequency f \<lparr>seconds = 0, ticks = 0, hz = 0\<rparr> s"

definition timer_interrupt :: "simple_timer \<times> 'a machine_scheme \<Rightarrow> simple_timer \<times> 'a machine_scheme" where
  "timer_interrupt = (\<lambda>(t, s).
     let t1 = t\<lparr>ticks := ticks t + 1\<rparr> in
     if hz t1 \<le> ticks t1 then (t1\<lparr>seconds := seconds t1 + 1, ticks := 0\<rparr>, puts (''One second has passed'' @ [CHR 0x0A]) s) else (t1, s))"

definition timer_current :: "simple_timer \<Rightarrow> u32 \<times> int" where
  "timer_current t = (seconds t, ticks t)"

text \<open>The busy loop of \<open>wait\<close>: \<open>ks\<close> says how many interrupts come before each check of its condition; None is still waiting.\<close>

fun timer_wait_loop :: "u32 \<Rightarrow> int \<Rightarrow> nat list \<Rightarrow> simple_timer \<times> 'a machine_scheme \<Rightarrow> (simple_timer \<times> 'a machine_scheme) option" where
  "timer_wait_loop then_seconds now_ticks [] ts = None"
| "timer_wait_loop then_seconds now_ticks (k # ks) ts =
     (let ts1 = (timer_interrupt ^^ k) ts in
      if seconds (fst ts1) \<le> then_seconds \<and> ticks (fst ts1) < now_ticks then timer_wait_loop then_seconds now_ticks ks ts1 else Some ts1)"

definition timer_wait :: "u32 \<Rightarrow> nat list \<Rightarrow> simple_timer \<times> 'a machine_scheme \<Rightarrow> (simple_timer \<times> 'a machine_scheme) option" where
  "timer_wait secs ks ts =
     (let (now_seconds, now_ticks) = timer_current (fst ts) in timer_wait_loop (now_seconds + secs) now_ticks ks ts)"

section \<open>The keyboard (simple_keyboard.C)\<close>

record simple_keyboard =
  key_pressed :: bool
  key_code :: u8

text \<open>What the two ports hold when an interrupt comes; \<open>char\<close> is signed, so a break code, 128 or above, is dropped.\<close>

definition keyboard_interrupt :: "u8 \<Rightarrow> u8 \<Rightarrow> simple_keyboard \<Rightarrow> simple_keyboard" where
  "keyboard_interrupt status data kb =
     (if status AND 0x01 \<noteq> 0 \<and> 0 \<le> sint data then kb\<lparr>key_pressed := True, key_code := data\<rparr> else kb)"

text \<open>The busy loop of \<open>wait\<close> and \<open>read\<close> over the interrupts that come; None is still waiting.\<close>

fun await_key :: "(u8 \<times> u8) list \<Rightarrow> simple_keyboard \<Rightarrow> simple_keyboard option" where
  "await_key [] kb = (if key_pressed kb then Some kb else None)"
| "await_key ((status, data) # is) kb = (if key_pressed kb then Some kb else await_key is (keyboard_interrupt status data kb))"

definition keyboard_wait :: "(u8 \<times> u8) list \<Rightarrow> simple_keyboard \<Rightarrow> simple_keyboard option" where
  "keyboard_wait is kb = await_key is (kb\<lparr>key_pressed := False\<rparr>)"

definition keyboard_read :: "(u8 \<times> u8) list \<Rightarrow> simple_keyboard \<Rightarrow> u8 option" where
  "keyboard_read is kb = map_option key_code (await_key is (kb\<lparr>key_pressed := False\<rparr>))"

section \<open>Lemmas\<close>

lemma outportb_fields [simp]: "mem (outportb p d s) = mem s" "trace (outportb p d s) = trace s @ [OutB p d]"
  "irq_table (outportb p d t) = irq_table t" "exception_table (outportb p d t) = exception_table t"
  by (simp_all add: outportb_def) (simp_all add: emit_def)

text \<open>The first key that is pressed is the one read.\<close>

lemma await_key_pressed: "key_pressed kb \<Longrightarrow> await_key is kb = Some kb"
  by (cases "(is, kb)" rule: await_key.cases) simp_all

lemma keyboard_read_first:
  "keyboard_read is kb = map_option snd (List.find (\<lambda>(status, data). status AND 0x01 \<noteq> 0 \<and> 0 \<le> sint data) is)"
proof -
  have "map_option key_code (await_key is k) = map_option snd (List.find (\<lambda>(status, data). status AND 0x01 \<noteq> 0 \<and> 0 \<le> sint data) is)"
    if "\<not> key_pressed k" for k
    using that
  proof (induction "is" arbitrary: k)
    case (Cons e es)
    show ?case
    proof (cases "fst e AND 0x01 \<noteq> 0 \<and> 0 \<le> sint (snd e)")
      case True
      then show ?thesis using Cons.prems by (cases e) (simp add: keyboard_interrupt_def await_key_pressed)
    next
      case False
      then have "keyboard_interrupt (fst e) (snd e) k = k" by (auto simp: keyboard_interrupt_def)
      then show ?thesis using Cons False by (cases e) auto
    qed
  qed simp
  then show ?thesis by (simp add: keyboard_read_def)
qed

text \<open>\<open>wait\<close> returns at its first check when no interrupt comes before it, whatever the time to wait.\<close>

lemma timer_wait_returns_at_once: "timer_wait secs (0 # ks) ts = Some ts"
  by (simp add: timer_wait_def timer_current_def split_beta)

end
