(* ===== verification/IrqDelivery.thy ===== *)
theory IrqDelivery
  imports Pic Dispatchers
begin

text \<open>
  The interrupt path end to end: the controllers of Bochs, programmed by the kernel's \<open>IRQ::init\<close>, acknowledged by the
  CPU and released by the kernel's dispatcher. The state machine at the end interleaves devices that raise and lower their
  lines at any time with interrupts that the kernel serves; its invariant accounts for every request and every service.
\<close>

section \<open>Port writes\<close>

text \<open>What the controllers see of the kernel's trace.\<close>

fun pic_events :: "event list \<Rightarrow> bx_pic_c \<Rightarrow> bx_pic_c option" where
  "pic_events [] p = Some p"
| "pic_events (OutB a v # es) p = Option.bind (pic_write a v p) (pic_events es)"
| "pic_events (e # es) p = pic_events es p"

definition pic_port :: "event \<Rightarrow> bool" where
  "pic_port e \<longleftrightarrow> (\<exists>a v. e = OutB a v \<and> a \<in> {0x20, 0x21, 0xA0, 0xA1})"

lemma pic_events_append: "pic_events (es @ fs) p = Option.bind (pic_events es p) (pic_events fs)"
  by (induction es p rule: pic_events.induct) (auto split: Option.bind_splits)

lemma pic_events_elsewhere: "\<forall>e \<in> set es. \<not> pic_port e \<Longrightarrow> pic_events es p = Some p"
  by (induction es p rule: pic_events.induct) (auto simp: pic_port_def pic_write_def)

section \<open>The controllers as the kernel programs them\<close>

definition config :: "u8 \<Rightarrow> bx_pic_t \<Rightarrow> bool" where
  "config offset pic \<longleftrightarrow> interrupt_offset pic = offset \<and> \<not> auto_eoi pic \<and> imr pic = 0 \<and> \<not> special_mask pic \<and> edge_level pic = 0
     \<and> lowest_priority pic = 7 \<and> \<not> in_init pic"

text \<open>The slave's signal is the master's line 2, which no device lowers. Another signalled request can be gone when its line was lowered.\<close>

definition pic_wf :: "bx_pic_c \<Rightarrow> bool" where
  "pic_wf p \<longleftrightarrow> config 0x20 (master_pic p) \<and> config 0x28 (slave_pic p) \<and> intr p = INT_pin (master_pic p)
     \<and> (INT_pin (master_pic p) \<longrightarrow> irq (master_pic p) < 8 \<and> (irq (master_pic p) = 2 \<longrightarrow> bit (irr (master_pic p)) 2))
     \<and> (INT_pin (slave_pic p) \<longrightarrow> irq (slave_pic p) < 8)
     \<and> bit (irr (master_pic p)) 2 = INT_pin (slave_pic p) \<and> bit (IRQ_in (master_pic p)) 2 = INT_pin (slave_pic p)"

text \<open>Between interrupts: nothing in service, and a request is signalled when there is one.\<close>

definition pic_ready :: "bx_pic_c \<Rightarrow> bool" where
  "pic_ready p \<longleftrightarrow> pic_wf p \<and> isr (master_pic p) = 0 \<and> isr (slave_pic p) = 0
     \<and> (irr (master_pic p) \<noteq> 0 \<longrightarrow> INT_pin (master_pic p)) \<and> (irr (slave_pic p) \<noteq> 0 \<longrightarrow> INT_pin (slave_pic p))"

text \<open>The slave has nothing in service; line \<open>n\<close> is in service, or was when its request was gone.\<close>

definition slave_ready :: "bx_pic_c \<Rightarrow> bool" where
  "slave_ready p \<longleftrightarrow> isr (slave_pic p) = 0 \<and> (irr (slave_pic p) \<noteq> 0 \<longrightarrow> INT_pin (slave_pic p))"

definition in_service :: "nat \<Rightarrow> bx_pic_c \<Rightarrow> bool" where
  "in_service n p \<longleftrightarrow> pic_wf p \<and> n < 16
     \<and> (if n < 8 then isr (master_pic p) \<in> {0, irq_mask n} \<and> slave_ready p
        else isr (slave_pic p) \<in> {0, irq_mask (n - 8)} \<and> isr (master_pic p) = irq_mask 2)"

text \<open>Signals whose request is gone.\<close>

definition stale_pin :: "bx_pic_t \<Rightarrow> bool" where
  "stale_pin pic \<longleftrightarrow> INT_pin pic \<and> \<not> bit (irr pic) (irq pic)"

definition stale :: "bx_pic_c \<Rightarrow> nat" where
  "stale p = of_bool (stale_pin (master_pic p)) + of_bool (stale_pin (slave_pic p))"

definition pending :: "bx_pic_c \<Rightarrow> nat \<Rightarrow> bool" where
  "pending p n \<longleftrightarrow> (if n < 8 then n \<noteq> 2 \<and> bit (irr (master_pic p)) n else n < 16 \<and> bit (irr (slave_pic p)) (n - 8))"

definition line_high :: "bx_pic_c \<Rightarrow> nat \<Rightarrow> bool" where
  "line_high p n \<longleftrightarrow> (if n < 8 then bit (IRQ_in (master_pic p)) n else n < 16 \<and> bit (IRQ_in (slave_pic p)) (n - 8))"

section \<open>Priorities\<close>

lemma request_loop_bit: "request_loop k sp is w mx i = Some j \<Longrightarrow> bit w j"
  by (induction k arbitrary: i) (auto split: if_splits)

lemma u8_zero: "(\<forall>k < 8. \<not> bit (w :: u8) k) \<Longrightarrow> w = 0"
  by (rule bit_word_eqI) simp

lemma request_loop_finds: "w \<noteq> 0 \<Longrightarrow> \<exists>j. request_loop 8 False is w 0 0 = Some j"
  using u8_zero[of w] by (auto simp: numeral_eq_Suc next_irq_def less_Suc_eq)

lemma config_highest: "config off pic \<Longrightarrow> next_irq (lowest_priority pic) = 0"
  by (simp add: config_def next_irq_def)

lemma pic_request_Some: "pic_request pic = Some i \<Longrightarrow> config off pic \<Longrightarrow> \<not> INT_pin pic \<and> i < 8 \<and> bit (irr pic) i"
proof -
  assume r: "pic_request pic = Some i" and c: "config off pic"
  then have "\<not> INT_pin pic" "bit (irr pic) i" by (auto simp: pic_request_def config_def Let_def dest!: request_loop_bit split: if_splits)
  then show ?thesis using bit_imp_le_length[of "irr pic" i] by simp
qed

lemma pic_request_idle: "config off pic \<Longrightarrow> isr pic = 0 \<Longrightarrow> \<not> INT_pin pic \<Longrightarrow> irr pic \<noteq> 0 \<Longrightarrow> \<exists>i. pic_request pic = Some i"
  using config_highest[of off pic] request_loop_finds[of "irr pic" 0] by (auto simp: pic_request_def Let_def config_def)

section \<open>Servicing\<close>

text \<open>What the two service functions leave alone: all but the signals and the master's line 2.\<close>

definition same_requests :: "bx_pic_c \<Rightarrow> bx_pic_c \<Rightarrow> bool" where
  "same_requests p q \<longleftrightarrow> isr (master_pic q) = isr (master_pic p) \<and> isr (slave_pic q) = isr (slave_pic p)
     \<and> irr (slave_pic q) = irr (slave_pic p) \<and> IRQ_in (slave_pic q) = IRQ_in (slave_pic p)
     \<and> (\<forall>n. n \<noteq> 2 \<longrightarrow> bit (irr (master_pic q)) n = bit (irr (master_pic p)) n \<and> bit (IRQ_in (master_pic q)) n = bit (IRQ_in (master_pic p)) n)"

lemma same_requests_trans: "same_requests p q \<Longrightarrow> same_requests q r \<Longrightarrow> same_requests p r"
  by (simp add: same_requests_def)

lemma same_requests_pending: "same_requests p q \<Longrightarrow> pending q n = pending p n \<and> (n \<noteq> 2 \<longrightarrow> line_high q n = line_high p n)"
  by (auto simp: same_requests_def pending_def line_high_def)

lemma service_master:
  assumes "pic_wf p"
  shows "pic_wf (service_master_pic p)" "same_requests p (service_master_pic p)" "slave_pic (service_master_pic p) = slave_pic p"
    "stale (service_master_pic p) = stale p"
    "isr (master_pic p) = 0 \<Longrightarrow> irr (master_pic (service_master_pic p)) \<noteq> 0 \<Longrightarrow> INT_pin (master_pic (service_master_pic p))"
proof -
  have c: "config 0x20 (master_pic p)" using assms by (simp add: pic_wf_def)
  show "pic_wf (service_master_pic p)" "same_requests p (service_master_pic p)" "slave_pic (service_master_pic p) = slave_pic p"
    using assms pic_request_Some[OF _ c]
    by (auto simp: service_master_pic_def pic_wf_def same_requests_def config_def split: option.splits)
  show "stale (service_master_pic p) = stale p"
    using pic_request_Some[OF _ c] by (auto simp: service_master_pic_def stale_def stale_pin_def split: option.splits)
  show "INT_pin (master_pic (service_master_pic p))" if "isr (master_pic p) = 0" "irr (master_pic (service_master_pic p)) \<noteq> 0"
  proof (cases "pic_request (master_pic p)")
    case None
    then have "INT_pin (master_pic p) \<or> irr (master_pic p) = 0" using pic_request_idle[OF c that(1)] by auto
    then show ?thesis using None that(2) by (auto simp: service_master_pic_def)
  next
    case (Some i)
    then show ?thesis by (auto simp: service_master_pic_def)
  qed
qed

text \<open>The slave signals over line 2, which is low until it does.\<close>

lemma service_slave:
  assumes "pic_wf p"
  shows "pic_wf (service_slave_pic p)" "same_requests p (service_slave_pic p)" "stale (service_slave_pic p) \<le> stale p"
    "isr (slave_pic p) = 0 \<Longrightarrow> irr (slave_pic (service_slave_pic p)) \<noteq> 0 \<Longrightarrow> INT_pin (slave_pic (service_slave_pic p))"
    "isr (slave_pic p) = 0 \<Longrightarrow> isr (master_pic p) = 0 \<Longrightarrow> (irr (master_pic p) \<noteq> 0 \<Longrightarrow> INT_pin (master_pic p)) \<Longrightarrow> pic_ready (service_slave_pic p)"
proof -
  have cs: "config 0x28 (slave_pic p)" using assms by (simp add: pic_wf_def)
  let ?q = "service_slave_pic p"
  have "pic_wf ?q \<and> same_requests p ?q \<and> stale ?q \<le> stale p
    \<and> (isr (slave_pic p) = 0 \<longrightarrow> irr (slave_pic ?q) \<noteq> 0 \<longrightarrow> INT_pin (slave_pic ?q))
    \<and> (isr (slave_pic p) = 0 \<longrightarrow> isr (master_pic p) = 0 \<longrightarrow> (irr (master_pic p) \<noteq> 0 \<longrightarrow> INT_pin (master_pic p))
         \<longrightarrow> irr (master_pic ?q) \<noteq> 0 \<longrightarrow> INT_pin (master_pic ?q))"
  proof (cases "pic_request (slave_pic p)")
    case None
    then have "isr (slave_pic p) = 0 \<longrightarrow> INT_pin (slave_pic p) \<or> irr (slave_pic p) = 0" using pic_request_idle[OF cs] by auto
    then show ?thesis using None assms by (auto simp: service_slave_pic_def same_requests_def)
  next
    case (Some i)
    note r = pic_request_Some[OF Some cs]
    define p1 where "p1 = p\<lparr>slave_pic := (slave_pic p)\<lparr>INT_pin := True, irq := i\<rparr>,
      master_pic := (master_pic p)\<lparr>IRQ_in := IRQ_in (master_pic p) OR irq_mask 2, irr := irr (master_pic p) OR irq_mask 2\<rparr>\<rparr>"
    have q: "?q = service_master_pic p1"
      using Some r assms by (simp add: service_slave_pic_def raise_master_def Let_def p1_def pic_wf_def)
    have w: "pic_wf p1" using assms r by (auto simp: pic_wf_def p1_def config_def bit_or_iff)
    have sr: "same_requests p p1" by (auto simp: same_requests_def p1_def bit_or_iff)
    have "stale p1 \<le> stale p" using r by (auto simp: stale_def stale_pin_def p1_def bit_or_iff)
    moreover have "INT_pin (slave_pic p1)" "isr (master_pic p1) = isr (master_pic p)" by (auto simp: p1_def)
    ultimately show ?thesis unfolding q using service_master[OF w] same_requests_trans[OF sr] by auto
  qed
  then show "pic_wf ?q" "same_requests p ?q" "stale ?q \<le> stale p"
    "isr (slave_pic p) = 0 \<Longrightarrow> irr (slave_pic ?q) \<noteq> 0 \<Longrightarrow> INT_pin (slave_pic ?q)"
    "isr (slave_pic p) = 0 \<Longrightarrow> isr (master_pic p) = 0 \<Longrightarrow> (irr (master_pic p) \<noteq> 0 \<Longrightarrow> INT_pin (master_pic p)) \<Longrightarrow> pic_ready ?q"
    by (auto simp: pic_ready_def same_requests_def)
qed

section \<open>Raising and lowering lines\<close>

text \<open>A line changes; what is in service does not.\<close>

definition line_change :: "bx_pic_c \<Rightarrow> bx_pic_c \<Rightarrow> bool" where
  "line_change p q \<longleftrightarrow> pic_wf q \<and> isr (master_pic q) = isr (master_pic p) \<and> isr (slave_pic q) = isr (slave_pic p)
     \<and> (slave_ready p \<longrightarrow> slave_ready q) \<and> (pic_ready p \<longrightarrow> pic_ready q)"

lemma line_change_service: "line_change p q \<Longrightarrow> in_service n p \<Longrightarrow> in_service n q"
  by (auto simp: line_change_def in_service_def)

lemma raise_line_high:
  assumes "pic_wf p" "n < 16" "n \<noteq> 2" "\<not> line_high p n"
  shows "line_change p (raise_irq n p)" "pending (raise_irq n p) k \<longleftrightarrow> k = n \<or> pending p k"
    "k \<noteq> 2 \<Longrightarrow> line_high (raise_irq n p) k \<longleftrightarrow> k = n \<or> line_high p k" "stale (raise_irq n p) \<le> stale p"
proof -
  have "line_change p (raise_irq n p) \<and> pending (raise_irq n p) k = (k = n \<or> pending p k)
    \<and> (k \<noteq> 2 \<longrightarrow> line_high (raise_irq n p) k = (k = n \<or> line_high p k)) \<and> stale (raise_irq n p) \<le> stale p"
  proof (cases "n < 8")
    case True
    define p1 where "p1 = p\<lparr>master_pic := (master_pic p)\<lparr>IRQ_in := IRQ_in (master_pic p) OR irq_mask n, irr := irr (master_pic p) OR irq_mask n\<rparr>\<rparr>"
    have q: "raise_irq n p = service_master_pic p1" using True assms(4) by (simp add: raise_irq_def raise_master_def Let_def p1_def line_high_def)
    have w: "pic_wf p1" using assms(1,3) by (auto simp: pic_wf_def p1_def config_def bit_or_iff)
    have i: "isr (master_pic p1) = isr (master_pic p)" "slave_pic p1 = slave_pic p" by (simp_all add: p1_def)
    note sm = service_master[OF w]
    have "stale p1 \<le> stale p" by (auto simp: stale_def stale_pin_def p1_def bit_or_iff)
    moreover have "line_change p (raise_irq n p)"
      unfolding q line_change_def using sm(1,2,3) sm(5) i by (auto simp: pic_ready_def slave_ready_def same_requests_def)
    moreover have "pending p1 k = (k = n \<or> pending p k)" "line_high p1 k = (k = n \<or> line_high p k)"
      using True assms(3) by (auto simp: pending_def line_high_def p1_def bit_or_iff)
    ultimately show ?thesis unfolding q using same_requests_pending[OF sm(2)] sm(4) by simp
  next
    case False
    define p1 where "p1 = p\<lparr>slave_pic := (slave_pic p)\<lparr>IRQ_in := IRQ_in (slave_pic p) OR irq_mask (n - 8), irr := irr (slave_pic p) OR irq_mask (n - 8)\<rparr>\<rparr>"
    have n8: "n mod 8 = n - 8" using False assms(2) by (simp add: mod_if)
    have q: "raise_irq n p = service_slave_pic p1"
      using False assms(2,4) by (simp add: raise_irq_def Let_def p1_def line_high_def n8)
    have w: "pic_wf p1" using assms(1) by (auto simp: pic_wf_def p1_def config_def bit_or_iff)
    have i: "isr (slave_pic p1) = isr (slave_pic p)" "master_pic p1 = master_pic p" by (simp_all add: p1_def)
    note ss = service_slave[OF w]
    have "stale p1 \<le> stale p" by (auto simp: stale_def stale_pin_def p1_def bit_or_iff)
    moreover have "line_change p (raise_irq n p)"
      unfolding q line_change_def using ss(1,2,4,5) i by (auto simp: pic_ready_def slave_ready_def same_requests_def)
    moreover have "pending p1 k = (k = n \<or> pending p k)" "line_high p1 k = (k = n \<or> line_high p k)"
      using False assms(2) by (auto simp: pending_def line_high_def p1_def bit_or_iff)
    ultimately show ?thesis unfolding q using same_requests_pending[OF ss(2)] ss(3) by simp
  qed
  then show "line_change p (raise_irq n p)" "pending (raise_irq n p) k \<longleftrightarrow> k = n \<or> pending p k"
    "k \<noteq> 2 \<Longrightarrow> line_high (raise_irq n p) k \<longleftrightarrow> k = n \<or> line_high p k" "stale (raise_irq n p) \<le> stale p" by blast+
qed

text \<open>Lowering a line withdraws its request; a signal for it stays.\<close>

lemma lower_line_high:
  assumes "pic_wf p" "n < 16" "n \<noteq> 2" "pending p n \<longrightarrow> line_high p n"
  shows "line_change p (lower_irq n p)" "pending (lower_irq n p) k \<longleftrightarrow> k \<noteq> n \<and> pending p k"
    "k \<noteq> 2 \<Longrightarrow> line_high (lower_irq n p) k \<longleftrightarrow> k \<noteq> n \<and> line_high p k" "stale (lower_irq n p) \<le> stale p + of_bool (pending p n)"
proof -
  note r = assms(1)
  have nz: "w AND NOT (irq_mask j) \<noteq> 0 \<Longrightarrow> w \<noteq> 0" for w :: u8 and j by auto
  have "line_change p (lower_irq n p) \<and> pending (lower_irq n p) k = (k \<noteq> n \<and> pending p k)
    \<and> (k \<noteq> 2 \<longrightarrow> line_high (lower_irq n p) k = (k \<noteq> n \<and> line_high p k)) \<and> stale (lower_irq n p) \<le> stale p + of_bool (pending p n)"
  proof (cases "n < 8")
    case True
    then have e: "lower_irq n p = p\<lparr>master_pic := drop_line n (master_pic p)\<rparr>" by (simp add: lower_irq_def)
    show ?thesis
    proof (cases "bit (IRQ_in (master_pic p)) n")
      case False
      then show ?thesis using assms True by (auto simp: e drop_line_def line_high_def line_change_def)
    next
      case high: True
      have "line_change p (lower_irq n p)" unfolding e drop_line_def line_change_def pic_ready_def slave_ready_def pic_wf_def config_def
        using r[unfolded pic_wf_def config_def] assms(3) high by (auto simp: bit_simps dest: nz)
      moreover have "pending (lower_irq n p) k = (k \<noteq> n \<and> pending p k)" "line_high (lower_irq n p) k = (k \<noteq> n \<and> line_high p k)"
        using True high by (auto simp: e drop_line_def pending_def line_high_def bit_simps)
      moreover have "stale (lower_irq n p) \<le> stale p + of_bool (pending p n)"
        using r True high assms(3) by (auto simp: e drop_line_def pending_def stale_def stale_pin_def bit_simps pic_wf_def)
      ultimately show ?thesis by blast
    qed
  next
    case False
    then have e: "lower_irq n p = p\<lparr>slave_pic := drop_line (n - 8) (slave_pic p)\<rparr>" using assms(2) by (simp add: lower_irq_def mod_if)
    show ?thesis
    proof (cases "bit (IRQ_in (slave_pic p)) (n - 8)")
      case low: False
      then show ?thesis using assms False by (auto simp: e drop_line_def line_high_def line_change_def)
    next
      case True
      have "line_change p (lower_irq n p)" unfolding e drop_line_def line_change_def pic_ready_def slave_ready_def pic_wf_def config_def
        using r[unfolded pic_wf_def config_def] True by (auto simp: bit_simps dest: nz)
      moreover have "pending (lower_irq n p) k = (k \<noteq> n \<and> pending p k)" "line_high (lower_irq n p) k = (k \<noteq> n \<and> line_high p k)"
        using True False assms(2) by (auto simp: e drop_line_def pending_def line_high_def bit_simps)
      moreover have "stale (lower_irq n p) \<le> stale p + of_bool (pending p n)"
        using r True False assms(2) by (auto simp: e drop_line_def pending_def stale_def stale_pin_def bit_simps pic_wf_def)
      ultimately show ?thesis by blast
    qed
  qed
  then show "line_change p (lower_irq n p)" "pending (lower_irq n p) k \<longleftrightarrow> k \<noteq> n \<and> pending p k"
    "k \<noteq> 2 \<Longrightarrow> line_high (lower_irq n p) k \<longleftrightarrow> k \<noteq> n \<and> line_high p k" "stale (lower_irq n p) \<le> stale p + of_bool (pending p n)" by blast+
qed

section \<open>Acknowledging and releasing\<close>

text \<open>The end-of-interrupt commands of the dispatcher.\<close>

definition eoi :: "nat \<Rightarrow> event list" where
  "eoi n = (if 7 < n then [OutB 0xA0 0x20] else []) @ [OutB 0x20 0x20]"

lemma clear_only:
  assumes q: "q < 8" and i: "isr pic \<in> {0, irq_mask q}" and c: "config off pic"
  shows "clear_highest_interrupt pic = pic\<lparr>isr := 0\<rparr>"
proof -
  have z: "irq_mask q AND NOT (irq_mask q) = 0" by (rule bit_word_eqI) (simp add: bit_simps)
  have "clear_loop n 0 j pic = pic\<lparr>isr := 0\<rparr>" if "isr pic = 0" for n j
    using that by (induction n arbitrary: j) simp_all
  moreover have "clear_loop n 0 j pic = pic\<lparr>isr := 0\<rparr>" if "isr pic = irq_mask q" "j \<le> q" "q - j < n" for n j
    using that(2,3) by (induction n arbitrary: j) (use q that(1) z in \<open>auto simp: next_irq_def\<close>)
  ultimately have "clear_loop 8 0 0 pic = pic\<lparr>isr := 0\<rparr>" using i q by auto
  then show ?thesis using config_highest[OF c] by (simp add: clear_highest_interrupt_def)
qed

lemma command_eoi: "command_write 0x20 pic = Some (clear_highest_interrupt pic, True)"
  by (simp add: command_write_def ocw2_def Let_def)

lemma release_master:
  assumes "pic_wf p" "isr (master_pic p) \<in> {0, irq_mask q}" "q < 8"
  shows "\<exists>p'. pic_write 0x20 0x20 p = Some p' \<and> pic_wf p' \<and> isr (master_pic p') = 0 \<and> slave_pic p' = slave_pic p \<and> stale p' = stale p
    \<and> (irr (master_pic p') \<noteq> 0 \<longrightarrow> INT_pin (master_pic p')) \<and> (\<forall>k. pending p' k = pending p k \<and> (k \<noteq> 2 \<longrightarrow> line_high p' k = line_high p k))"
proof -
  define p1 where "p1 = p\<lparr>master_pic := (master_pic p)\<lparr>isr := 0\<rparr>\<rparr>"
  have c: "config 0x20 (master_pic p)" using assms(1) by (simp add: pic_wf_def)
  have e: "pic_write 0x20 0x20 p = Some (service_master_pic p1)"
    by (simp add: pic_write_def command_eoi clear_only[OF assms(3,2) c] set_master_def p1_def bit_numeral_rec)
  have w: "pic_wf p1" using assms(1) unfolding p1_def pic_wf_def config_def by auto
  have "isr (master_pic p1) = 0" "slave_pic p1 = slave_pic p" "\<And>k. pending p1 k = pending p k" "\<And>k. line_high p1 k = line_high p k" "stale p1 = stale p"
    by (simp_all add: p1_def pending_def line_high_def stale_def stale_pin_def)
  then show ?thesis using e service_master[OF w] same_requests_pending[OF service_master(2)[OF w]] by (auto simp: same_requests_def)
qed

lemma release_slave:
  assumes "pic_wf p" "isr (slave_pic p) \<in> {0, irq_mask q}" "q < 8"
  shows "\<exists>p'. pic_write 0xA0 0x20 p = Some p' \<and> pic_wf p' \<and> isr (slave_pic p') = 0 \<and> isr (master_pic p') = isr (master_pic p) \<and> stale p' \<le> stale p
    \<and> (irr (slave_pic p') \<noteq> 0 \<longrightarrow> INT_pin (slave_pic p')) \<and> (\<forall>k. pending p' k = pending p k \<and> (k \<noteq> 2 \<longrightarrow> line_high p' k = line_high p k))"
proof -
  define p1 where "p1 = p\<lparr>slave_pic := (slave_pic p)\<lparr>isr := 0\<rparr>\<rparr>"
  have c: "config 0x28 (slave_pic p)" using assms(1) by (simp add: pic_wf_def)
  have e: "pic_write 0xA0 0x20 p = Some (service_slave_pic p1)"
    by (simp add: pic_write_def command_eoi clear_only[OF assms(3,2) c] set_slave_def p1_def bit_numeral_rec)
  have w: "pic_wf p1" using assms(1) unfolding p1_def pic_wf_def config_def by auto
  have "isr (slave_pic p1) = 0" "master_pic p1 = master_pic p" "\<And>k. pending p1 k = pending p k" "\<And>k. line_high p1 k = line_high p k" "stale p1 = stale p"
    by (simp_all add: p1_def pending_def line_high_def stale_def stale_pin_def)
  then show ?thesis using e service_slave[OF w] same_requests_pending[OF service_slave(2)[OF w]] by (auto simp: same_requests_def)
qed

lemma acknowledge_config: "config off pic \<Longrightarrow> acknowledge pic = pic\<lparr>irr := irr pic AND NOT (irq_mask (irq pic)), isr := isr pic OR irq_mask (irq pic)\<rparr>"
  by (simp add: acknowledge_def config_def Let_def)

text \<open>The interrupts of the slave: both controllers have it in service, the master without a request when it was withdrawn.\<close>

lemma release_both:
  assumes "pic_wf p" "isr (slave_pic p) \<in> {0, irq_mask q}" "q < 8" "isr (master_pic p) = irq_mask 2"
  shows "\<exists>p'. pic_events (eoi (q + 8)) p = Some p' \<and> pic_ready p' \<and> stale p' \<le> stale p
    \<and> (\<forall>k. pending p' k = pending p k \<and> (k \<noteq> 2 \<longrightarrow> line_high p' k = line_high p k))"
proof -
  obtain p5 where p5: "pic_write 0xA0 0x20 p = Some p5" "pic_wf p5" "isr (slave_pic p5) = 0" "isr (master_pic p5) = irq_mask 2" "stale p5 \<le> stale p"
    "irr (slave_pic p5) \<noteq> 0 \<longrightarrow> INT_pin (slave_pic p5)" "\<forall>k. pending p5 k = pending p k \<and> (k \<noteq> 2 \<longrightarrow> line_high p5 k = line_high p k)"
    using release_slave[OF assms(1-3)] assms(4) by metis
  obtain p6 where p6: "pic_write 0x20 0x20 p5 = Some p6" "pic_wf p6" "isr (master_pic p6) = 0" "slave_pic p6 = slave_pic p5" "stale p6 = stale p5"
    "irr (master_pic p6) \<noteq> 0 \<longrightarrow> INT_pin (master_pic p6)" "\<forall>k. pending p6 k = pending p5 k \<and> (k \<noteq> 2 \<longrightarrow> line_high p6 k = line_high p5 k)"
    using release_master[OF p5(2), of 2] p5(4) by auto
  have "pic_ready p6" using p5 p6 by (simp add: pic_ready_def)
  moreover have "pic_events (eoi (q + 8)) p = Some p6" using p5(1) p6(1) by (simp add: eoi_def)
  ultimately show ?thesis using p5 p6 by auto
qed

lemma release_service:
  assumes "in_service n p"
  shows "\<exists>p'. pic_events (eoi n) p = Some p' \<and> pic_ready p' \<and> stale p' \<le> stale p
    \<and> (\<forall>k. pending p' k = pending p k \<and> (k \<noteq> 2 \<longrightarrow> line_high p' k = line_high p k))"
proof (cases "n < 8")
  case True
  then have s: "pic_wf p" "isr (master_pic p) \<in> {0, irq_mask n}" "slave_ready p" using assms by (simp_all add: in_service_def)
  obtain p3 where p3: "pic_write 0x20 0x20 p = Some p3" "pic_wf p3" "isr (master_pic p3) = 0" "slave_pic p3 = slave_pic p" "stale p3 = stale p"
    "irr (master_pic p3) \<noteq> 0 \<longrightarrow> INT_pin (master_pic p3)" "\<forall>k. pending p3 k = pending p k \<and> (k \<noteq> 2 \<longrightarrow> line_high p3 k = line_high p k)"
    using release_master[OF s(1,2) True] by blast
  have "pic_ready p3" using p3 s(3) by (simp add: pic_ready_def slave_ready_def)
  moreover have "pic_events (eoi n) p = Some p3" using p3(1) True by (simp add: eoi_def)
  ultimately show ?thesis using p3(5,7) by auto
next
  case False
  moreover have "n < 16" using assms by (simp add: in_service_def)
  ultimately have "n - 8 < 8" "n - 8 + 8 = n" by simp_all
  then show ?thesis using release_both[of p "n - 8"] assms False by (simp add: in_service_def)
qed

text \<open>The acknowledgement of line \<open>n\<close>. It is spurious when the line has no request, and then a signal whose request is gone was used up.\<close>

definition acknowledged :: "bx_pic_c \<Rightarrow> nat \<Rightarrow> bx_pic_c \<Rightarrow> bool" where
  "acknowledged p n q \<longleftrightarrow> in_service n q \<and> stale q + of_bool (\<not> pending p n) \<le> stale p
     \<and> (\<forall>k. pending q k = (pending p k \<and> k \<noteq> n) \<and> (k \<noteq> 2 \<longrightarrow> line_high q k = line_high p k))"

lemma IAC_master:
  assumes "pic_ready p" "intr p" "irq (master_pic p) \<noteq> 2 \<or> irr (master_pic p) = 0"
  shows "\<exists>n p1. IAC p = (of_nat (32 + n), p1) \<and> acknowledged p n p1"
proof -
  let ?m = "master_pic p" and ?s = "slave_pic p"
  have r: "pic_wf p" "isr ?m = 0" "isr ?s = 0" "INT_pin ?m" "irq ?m < 8" "irr ?s \<noteq> 0 \<longrightarrow> INT_pin ?s" and c: "config 0x20 ?m"
    using assms by (auto simp: pic_ready_def pic_wf_def)
  define n where "n = (if irr ?m = 0 then 7 else irq ?m)"
  define m1 where "m1 = (if irr ?m = 0 then ?m\<lparr>INT_pin := False\<rparr>
    else ?m\<lparr>INT_pin := False, irr := irr ?m AND NOT (irq_mask n), isr := irq_mask n\<rparr>)"
  define p2 where "p2 = p\<lparr>intr := False, master_pic := m1\<rparr>"
  define q where "q = (if irr ?m = 0 then p2 else service_master_pic p2)"
  have n: "n < 8" "n \<noteq> 2" using r(5) assms(3) by (auto simp: n_def)
  have a: "acknowledge (?m\<lparr>INT_pin := False\<rparr>) = m1" if "irr ?m \<noteq> 0"
    using that acknowledge_config[of 32 "?m\<lparr>INT_pin := False\<rparr>"] c r(2) by (simp add: m1_def n_def config_def)
  have i: "IAC p = (of_nat (32 + n), q)"
    using assms(3) a c by (auto simp: IAC_def Let_def p2_def q_def n_def m1_def config_def add.commute)
  have w: "pic_wf p2" using r(1) n unfolding p2_def m1_def pic_wf_def config_def by (auto simp: bit_simps)
  note sm = service_master[OF w]
  have w': "pic_wf q" "isr (master_pic q) \<in> {0, irq_mask n}" "slave_pic q = ?s" "stale q = stale p2" "same_requests p2 q"
    using w sm r(2) by (auto simp: q_def same_requests_def) (auto simp: p2_def m1_def)
  have "in_service n q" using w' r(3,6) n(1) by (simp add: in_service_def slave_ready_def)
  moreover have "pending p2 k = (pending p k \<and> k \<noteq> n)" "line_high p2 k = line_high p k" for k
    using n by (auto simp: pending_def line_high_def p2_def m1_def n_def bit_simps)
  moreover have "stale p2 + of_bool (\<not> pending p n) \<le> stale p"
    using r(4) n by (auto simp: stale_def stale_pin_def p2_def m1_def pending_def n_def)
  ultimately have "acknowledged p n q" using w'(4) same_requests_pending[OF w'(5)] by (simp add: acknowledged_def)
  then show ?thesis using i by blast
qed

lemma IAC_slave:
  assumes "pic_ready p" "intr p" "irq (master_pic p) = 2" "irr (master_pic p) \<noteq> 0"
  shows "\<exists>n p1. IAC p = (of_nat (32 + n), p1) \<and> acknowledged p n p1"
proof -
  let ?m = "master_pic p" and ?s = "slave_pic p"
  have r: "pic_wf p" "isr ?m = 0" "isr ?s = 0" "INT_pin ?m" "bit (irr ?m) 2" and c: "config 0x20 ?m" "config 0x28 ?s"
    using assms by (auto simp: pic_ready_def pic_wf_def)
  have s: "INT_pin ?s" "irq ?s < 8" using r(1,5) by (auto simp: pic_wf_def)
  define k0 where "k0 = (if irr ?s = 0 then 7 else irq ?s)"
  define m1 where "m1 = ?m\<lparr>INT_pin := False, irr := irr ?m AND NOT (irq_mask 2), isr := irq_mask 2, IRQ_in := IRQ_in ?m AND NOT (irq_mask 2)\<rparr>"
  define s1 where "s1 = (if irr ?s = 0 then ?s\<lparr>INT_pin := False\<rparr>
    else ?s\<lparr>INT_pin := False, irr := irr ?s AND NOT (irq_mask k0), isr := irq_mask k0\<rparr>)"
  define p2 where "p2 = p\<lparr>intr := False, master_pic := m1, slave_pic := s1\<rparr>"
  define q where "q = (if irr ?s = 0 then p2 else service_master_pic (service_slave_pic p2))"
  have k0: "k0 < 8" using s by (simp add: k0_def)
  have am: "(acknowledge (?m\<lparr>INT_pin := False\<rparr>))\<lparr>IRQ_in := IRQ_in ?m AND NOT (irq_mask 2)\<rparr> = m1"
    "irq (acknowledge (?m\<lparr>INT_pin := False\<rparr>)) = 2" "IRQ_in (acknowledge (?m\<lparr>INT_pin := False\<rparr>)) = IRQ_in ?m"
    using acknowledge_config[of 32 "?m\<lparr>INT_pin := False\<rparr>"] c(1) r(2) assms(3) by (simp_all add: m1_def config_def)
  have as: "acknowledge (?s\<lparr>INT_pin := False\<rparr>) = s1" if "irr ?s \<noteq> 0"
    using that acknowledge_config[of 40 "?s\<lparr>INT_pin := False\<rparr>"] c(2) r(3) by (simp add: s1_def k0_def config_def)
  have i: "IAC p = (of_nat (32 + (k0 + 8)), q)"
    using assms(3,4) am as c(2) by (auto simp: IAC_def Let_def q_def k0_def config_def p2_def s1_def add.commute)
  have w: "pic_wf p2" using r(1) s(2) unfolding p2_def m1_def s1_def pic_wf_def config_def by (auto simp: bit_simps)
  note ss = service_slave[OF w]
  note sm = service_master[OF ss(1)]
  have "same_requests p2 q" "stale q \<le> stale p2" "pic_wf q"
    using w ss sm same_requests_trans[OF ss(2) sm(2)] by (auto simp: q_def same_requests_def)
  moreover have "isr (slave_pic p2) \<in> {0, irq_mask k0}" "isr (master_pic p2) = irq_mask 2" using r(3) by (auto simp: p2_def s1_def m1_def)
  ultimately have w': "pic_wf q" "isr (slave_pic q) \<in> {0, irq_mask k0}" "isr (master_pic q) = irq_mask 2" "stale q \<le> stale p2" "same_requests p2 q"
    by (auto simp: same_requests_def)
  have "in_service (k0 + 8) q" using w' k0 by (simp add: in_service_def)
  moreover have "pending p2 k = (pending p k \<and> k \<noteq> k0 + 8)" "k \<noteq> 2 \<longrightarrow> line_high p2 k = line_high p k" for k
    using k0 by (auto simp: pending_def line_high_def p2_def m1_def s1_def k0_def bit_simps)
  moreover have "stale p2 + of_bool (\<not> pending p (k0 + 8)) \<le> stale p"
    using s r(5) assms(3) by (auto simp: stale_def stale_pin_def p2_def m1_def s1_def pending_def k0_def)
  ultimately have "acknowledged p (k0 + 8) q" using w'(4) same_requests_pending[OF w'(5)] by (simp add: acknowledged_def)
  then show ?thesis using i by blast
qed

lemma IAC_ready:
  assumes "pic_ready p" "intr p"
  shows "\<exists>n p1. IAC p = (of_nat (32 + n), p1) \<and> acknowledged p n p1"
  using IAC_master[OF assms] IAC_slave[OF assms] by blast

section \<open>The kernel's part\<close>

definition new_events :: "'a machine_scheme \<Rightarrow> 'b machine_scheme \<Rightarrow> event list" where
  "new_events s s' = drop (length (trace s)) (trace s')"

text \<open>Before the kernel starts: no device asks, edge-triggered lines, normal masking.\<close>

definition lines_low :: "bx_pic_c \<Rightarrow> bool" where
  "lines_low p \<longleftrightarrow> (\<forall>pic \<in> {master_pic p, slave_pic p}. IRQ_in pic = 0 \<and> edge_level pic = 0 \<and> \<not> special_mask pic)"

lemma IRQ_init_events: "new_events s (IRQ_init s) =
   [OutB 0x20 0x11, OutB 0xA0 0x11, OutB 0x21 0x20, OutB 0xA1 0x28, OutB 0x21 0x04, OutB 0xA1 0x02, OutB 0x21 0x01, OutB 0xA1 0x01,
    OutB 0x21 0, OutB 0xA1 0]"
  by (simp add: new_events_def IRQ_init_def irq_remap_def Let_def)

lemma IRQ_init_ready:
  assumes "lines_low p" "pic_events (new_events s (IRQ_init s)) p = Some p0"
  shows "pic_ready p0" "\<not> pending p0 n" "n \<noteq> 2 \<Longrightarrow> \<not> line_high p0 n" "stale p0 = 0"
proof -
  obtain m sl i where p: "p = \<lparr>master_pic = m, slave_pic = sl, intr = i\<rparr>" by (cases p)
  have l: "IRQ_in m = 0" "edge_level m = 0" "\<not> special_mask m" "IRQ_in sl = 0" "edge_level sl = 0" "\<not> special_mask sl"
    using assms(1) by (simp_all add: lines_low_def p)
  define m' where "m' = (icw1 0x11 m)\<lparr>interrupt_offset := 0x20, byte_expected := 4, in_init := False\<rparr>"
  define sl' where "sl' = (icw1 0x11 sl)\<lparr>interrupt_offset := 0x28, byte_expected := 4, in_init := False\<rparr>"
  have "p0 = \<lparr>master_pic = m', slave_pic = sl', intr = False\<rparr>"
    using assms(2) l unfolding IRQ_init_events p m'_def sl'_def
    by (cases m; cases sl) (simp add: pic_write_def data_write_def set_master_def set_slave_def service_master_pic_def service_slave_pic_def
        pic_request_def icw1_def Let_def bit_numeral_rec)
  then show "pic_ready p0" "\<not> pending p0 n" "n \<noteq> 2 \<Longrightarrow> \<not> line_high p0 n" "stale p0 = 0"
    using l by (simp_all add: stale_def stale_pin_def m'_def sl'_def pic_ready_def pic_wf_def config_def icw1_def pending_def line_high_def)
qed

text \<open>A handler that returns and leaves the controllers to the dispatcher.\<close>

definition quiet_handler :: "'a kernel_tables_scheme handler \<Rightarrow> bool" where
  "quiet_handler handle \<longleftrightarrow> (\<forall>h r s. \<exists>s' es. handle h r s = Inr s' \<and> trace s' = trace s @ es \<and> (\<forall>e \<in> set es. \<not> pic_port e))"

lemma dispatch_releases:
  assumes "quiet_handler handle" "n < 16" "read32 (mem s) (r + 48) = of_nat (32 + n)"
  shows "\<exists>s'. dispatch_interrupt handle r s = Inr s' \<and> pic_events (new_events s s') p = pic_events (eoi n) p"
proof -
  have i: "read32 (mem s) (r + 48) - IRQ_BASE = of_nat n" using assms(3) by (simp add: IRQ_BASE_def)
  have b: "(of_nat n :: u32) < of_nat IRQ_TABLE_SIZE" "unat (of_nat n :: u32) = n" "generated_by_slave_PIC (of_nat n) \<longleftrightarrow> 7 < n"
    using assms(2) by (simp_all add: IRQ_TABLE_SIZE_def generated_by_slave_PIC_def word_less_nat_alt)
  let ?h = "irq_table s ! n"
  obtain s1 es where s1: "(if ?h = 0 then Inr (puts (''NO DEFAULT INTERRUPT HANDLER REGISTERED'' @ [CHR 0x0A]) (puts [CHR 0x0A] (puti (sint (of_nat n :: u32)) (puts ''INTERRUPT NO: '' s))))
      else handle ?h r s) = Inr s1" "trace s1 = trace s @ es" "\<forall>e \<in> set es. \<not> pic_port e"
  proof (cases "?h = 0")
    case True
    then show ?thesis by (intro that[OF _ _]) (auto simp: pic_port_def)
  next
    case False
    then show ?thesis using assms(1) that unfolding quiet_handler_def by metis
  qed
  let ?s2 = "if 7 < n then outportb 0xA0 0x20 s1 else s1"
  have "dispatch_interrupt handle r s = Inr (outportb 0x20 0x20 ?s2)"
    using s1(1) unfolding dispatch_interrupt_def Let_def i b(2) by (simp add: b(1,3))
  moreover have "new_events s (outportb 0x20 0x20 ?s2) = es @ eoi n" using s1(2) by (simp add: new_events_def eoi_def)
  ultimately show ?thesis using pic_events_elsewhere[OF s1(3)] by (auto simp: pic_events_append)
qed

section \<open>Requests and services interleaved\<close>

text \<open>Devices raise and lower lines at any time, also while a handler runs; the CPU acknowledges an interrupt and runs the dispatcher,
whose handler leaves the controllers alone until the end-of-interrupt commands. \<open>rs\<close> are the requests so far, \<open>ws\<close> those withdrawn
(the line was lowered before the acknowledgement), \<open>vs\<close> the vectors acknowledged for a request, \<open>xs\<close> the spurious ones, for which
the line had no request, and the last component is the vector that is being served.\<close>

definition line_of :: "u8 \<Rightarrow> nat" where
  "line_of v = unat v - 32"

inductive irq_run :: "'a kernel_tables_scheme handler \<Rightarrow> bx_pic_c \<Rightarrow> nat list \<Rightarrow> nat list \<Rightarrow> u8 list \<Rightarrow> u8 list \<Rightarrow> u8 option \<Rightarrow> bool" for handle where
  start: "lines_low p \<Longrightarrow> pic_events (new_events (s :: 'a kernel_tables_scheme) (IRQ_init s)) p = Some p0 \<Longrightarrow> irq_run handle p0 [] [] [] [] None"
| raise_line: "irq_run handle p rs ws vs xs c \<Longrightarrow> n < 16 \<Longrightarrow> n \<noteq> 2 \<Longrightarrow> \<not> line_high p n \<Longrightarrow> irq_run handle (raise_irq n p) (rs @ [n]) ws vs xs c"
| lower_line: "irq_run handle p rs ws vs xs c \<Longrightarrow> n < 16 \<Longrightarrow> n \<noteq> 2 \<Longrightarrow>
    irq_run handle (lower_irq n p) rs (if pending p n then ws @ [n] else ws) vs xs c"
| take: "irq_run handle p rs ws vs xs None \<Longrightarrow> intr p \<Longrightarrow> IAC p = (v, p1) \<Longrightarrow>
    irq_run handle p1 rs ws (if pending p (line_of v) then vs @ [v] else vs) (if pending p (line_of v) then xs else xs @ [v]) (Some v)"
| serve: "irq_run handle p rs ws vs xs (Some v) \<Longrightarrow> read32 (mem s) (r + 48) = ucast v \<Longrightarrow> dispatch_interrupt handle r s = Inr s' \<Longrightarrow>
    pic_events (new_events s s') p = Some p1 \<Longrightarrow> irq_run handle p1 rs ws vs xs None"

text \<open>Every request is acknowledged, withdrawn or pending, and every spurious acknowledgement is paid for by a withdrawal.\<close>

definition accounted :: "bx_pic_c \<Rightarrow> nat list \<Rightarrow> nat list \<Rightarrow> u8 list \<Rightarrow> u8 list \<Rightarrow> u8 option \<Rightarrow> bool" where
  "accounted p rs ws vs xs c \<longleftrightarrow>
     (case c of None \<Rightarrow> pic_ready p | Some v \<Rightarrow> in_service (line_of v) p \<and> v = of_nat (32 + line_of v))
     \<and> (\<forall>n. pending p n \<longrightarrow> line_high p n) \<and> (\<forall>v \<in> set (vs @ xs). \<exists>n < 16. v = of_nat (32 + n))
     \<and> (\<forall>n. count_list rs n = (if n < 16 then count_list vs (of_nat (32 + n)) else 0) + count_list ws n + of_bool (pending p n))
     \<and> stale p + length xs \<le> length ws"

lemma accounted_wf: "accounted p rs ws vs xs c \<Longrightarrow> pic_wf p"
  by (auto simp: accounted_def pic_ready_def in_service_def split: option.splits)

lemma accounted_change:
  assumes "line_change p q" "case c of None \<Rightarrow> pic_ready p | Some v \<Rightarrow> in_service (line_of v) p \<and> v = of_nat (32 + line_of v)"
  shows "case c of None \<Rightarrow> pic_ready q | Some v \<Rightarrow> in_service (line_of v) q \<and> v = of_nat (32 + line_of v)"
  using assms line_change_service by (auto simp: line_change_def split: option.splits)

lemma vector_eq: "n < 16 \<Longrightarrow> k < 16 \<Longrightarrow> (of_nat (32 + n) :: u8) = of_nat (32 + k) \<longleftrightarrow> n = k"
proof -
  assume "n < 16" "k < 16"
  moreover have "unat (of_nat (32 + j) :: u8) = 32 + j" if "j < 16" for j using that by (simp add: unat_of_nat take_bit_nat_eq_self del: of_nat_add)
  ultimately show ?thesis by (metis add_left_cancel)
qed

lemma line_of_vector: "n < 16 \<Longrightarrow> line_of (of_nat (32 + n)) = n"
  by (simp add: line_of_def unat_of_nat take_bit_nat_eq_self del: of_nat_add)

lemma pending_not_2: "pending p n \<Longrightarrow> n \<noteq> 2 \<and> n < 16"
  by (auto simp: pending_def split: if_splits)

lemma pending_intr:
  assumes "pic_ready p" "pending p n"
  shows "intr p"
proof -
  have "irr (master_pic p) \<noteq> 0"
  proof (cases "n < 8")
    case True
    then show ?thesis using assms(2) by (auto simp: pending_def)
  next
    case False
    then have "irr (slave_pic p) \<noteq> 0" using assms(2) by (auto simp: pending_def)
    then have "bit (irr (master_pic p)) 2" using assms(1) by (auto simp: pic_ready_def pic_wf_def)
    then show ?thesis by auto
  qed
  then show ?thesis using assms(1) by (auto simp: pic_ready_def pic_wf_def)
qed

lemma intr_pending:
  assumes "pic_ready p" "intr p" "stale p = 0"
  shows "\<exists>n < 16. pending p n"
proof -
  let ?m = "master_pic p" and ?s = "slave_pic p"
  have m: "irq ?m < 8" "bit (irr ?m) (irq ?m)" and s: "INT_pin ?s \<Longrightarrow> irq ?s < 8 \<and> bit (irr ?s) (irq ?s)"
    and two: "bit (irr ?m) 2 = INT_pin ?s"
    using assms by (auto simp: pic_ready_def pic_wf_def stale_def stale_pin_def)
  show ?thesis
  proof (cases "irq ?m = 2")
    case True
    then have "pending p (irq ?s + 8)" "irq ?s + 8 < 16" using m(2) two s by (simp_all add: pending_def)
    then show ?thesis by blast
  next
    case False
    then have "pending p (irq ?m)" using m by (simp add: pending_def)
    moreover have "irq ?m < 16" using m(1) by simp
    ultimately show ?thesis by blast
  qed
qed

lemma take_accounted:
  assumes a: "accounted p rs ws vs xs None" and i: "intr p" and v: "IAC p = (v, p1)"
  shows "accounted p1 rs ws (if pending p (line_of v) then vs @ [v] else vs) (if pending p (line_of v) then xs else xs @ [v]) (Some v)"
proof -
  have pr: "pic_ready p" using a by (simp add: accounted_def)
  obtain n where n: "v = of_nat (32 + n)" "acknowledged p n p1" using IAC_ready[OF pr i] v by auto
  note ak = n(2)[unfolded acknowledged_def]
  then have n16: "n < 16" by (simp add: in_service_def)
  have l: "line_of v = n" unfolding n(1) by (rule line_of_vector[OF n16])
  let ?vs = "if pending p n then vs @ [v] else vs" and ?xs = "if pending p n then xs else xs @ [v]"
  have "\<forall>k. pending p1 k \<longrightarrow> line_high p1 k" using a ak unfolding accounted_def by (metis pending_not_2)
  moreover have "\<forall>w \<in> set (?vs @ ?xs). \<exists>n < 16. w = of_nat (32 + n)" using a n16 n(1) by (auto simp: accounted_def)
  moreover have "count_list rs k = (if k < 16 then count_list ?vs (of_nat (32 + k)) else 0) + count_list ws k + of_bool (pending p1 k)" for k
  proof -
    have "count_list rs k = (if k < 16 then count_list vs (of_nat (32 + k)) else 0) + count_list ws k + of_bool (pending p k)"
      using a unfolding accounted_def by blast
    moreover have "k < 16 \<Longrightarrow> (v = of_nat (32 + k)) = (k = n)" using vector_eq[OF n16, of k] n(1) by auto
    ultimately show ?thesis using n16 ak by (cases "k = n") (auto simp del: of_nat_add)
  qed
  moreover have "stale p1 + length ?xs \<le> length ws"
  proof -
    have "stale p1 + of_bool (\<not> pending p n) \<le> stale p" "stale p + length xs \<le> length ws" using ak a by (simp_all add: accounted_def)
    then show ?thesis by (cases "pending p n") simp_all
  qed
  moreover have "in_service (line_of v) p1 \<and> v = of_nat (32 + line_of v)" unfolding l using ak n(1) by simp
  ultimately have "accounted p1 rs ws ?vs ?xs (Some v)" unfolding accounted_def option.case by blast
  then show ?thesis by (simp only: l)
qed

lemma serve_accounted:
  assumes "quiet_handler handle" "accounted p rs ws vs xs (Some v)" "read32 (mem s) (r + 48) = ucast v"
  shows "\<exists>s' p1. dispatch_interrupt handle r s = Inr s' \<and> pic_events (new_events s s') p = Some p1 \<and> accounted p1 rs ws vs xs None"
proof -
  let ?n = "line_of v"
  have v: "v = of_nat (32 + ?n)" and sv: "in_service ?n p" using assms(2) by (simp_all add: accounted_def)
  then have n16: "?n < 16" by (simp add: in_service_def)
  have "unat (of_nat (32 + ?n) :: u8) = 32 + ?n" using n16 by (simp add: unat_of_nat take_bit_nat_eq_self del: of_nat_add)
  then have "(ucast v :: u32) = of_nat (32 + ?n)" using v by (metis of_nat_unat)
  then obtain s' where s': "dispatch_interrupt handle r s = Inr s'" "pic_events (new_events s s') p = pic_events (eoi ?n) p"
    using dispatch_releases[OF assms(1) n16, of s r p] assms(3) by auto
  obtain p1 where p1: "pic_events (eoi ?n) p = Some p1" "pic_ready p1" "stale p1 \<le> stale p"
    "\<forall>k. pending p1 k = pending p k \<and> (k \<noteq> 2 \<longrightarrow> line_high p1 k = line_high p k)"
    using release_service[OF sv] by blast
  have "\<forall>k. pending p1 k \<longrightarrow> line_high p1 k" using assms(2) p1(4) unfolding accounted_def by (metis pending_not_2)
  then have "accounted p1 rs ws vs xs None" using assms(2) p1 by (simp add: accounted_def)
  then show ?thesis using s' p1(1) by auto
qed

lemma irq_run_accounted: "irq_run handle p rs ws vs xs c \<Longrightarrow> quiet_handler handle \<Longrightarrow> accounted p rs ws vs xs c"
proof (induction rule: irq_run.induct)
  case (start p s p0)
  note i = IRQ_init_ready[OF start(1,2)]
  then show ?case by (simp add: accounted_def)
next
  case (raise_line p rs ws vs xs c n)
  then have a: "accounted p rs ws vs xs c" by simp
  have np: "\<not> pending p n" using a raise_line(4) by (auto simp: accounted_def)
  note rr = raise_line_high[OF accounted_wf[OF a] raise_line(2-4)]
  have "\<forall>k. pending (raise_irq n p) k \<longrightarrow> line_high (raise_irq n p) k" using a rr(2,3) unfolding accounted_def by (metis pending_not_2 raise_line(3))
  moreover have "count_list (rs @ [n]) k
      = (if k < 16 then count_list vs (of_nat (32 + k)) else 0) + count_list ws k + of_bool (pending (raise_irq n p) k)" for k
  proof -
    have "count_list rs k = (if k < 16 then count_list vs (of_nat (32 + k)) else 0) + count_list ws k + of_bool (pending p k)"
      using a unfolding accounted_def by blast
    then show ?thesis using rr(2)[of k] np by (auto simp del: of_nat_add)
  qed
  ultimately show ?case using a rr(4) accounted_change[OF rr(1), of c] unfolding accounted_def by (meson add_le_mono1 le_trans)
next
  case (lower_line p rs ws vs xs c n)
  then have a: "accounted p rs ws vs xs c" by simp
  then have hi: "pending p n \<longrightarrow> line_high p n" by (simp add: accounted_def)
  note lr = lower_line_high[OF accounted_wf[OF a] lower_line(2,3) hi]
  let ?ws = "if pending p n then ws @ [n] else ws"
  have "\<forall>k. pending (lower_irq n p) k \<longrightarrow> line_high (lower_irq n p) k"
    using a lr(2,3) unfolding accounted_def by (metis pending_not_2)
  moreover have "count_list rs k = (if k < 16 then count_list vs (of_nat (32 + k)) else 0) + count_list ?ws k + of_bool (pending (lower_irq n p) k)" for k
  proof -
    have "count_list rs k = (if k < 16 then count_list vs (of_nat (32 + k)) else 0) + count_list ws k + of_bool (pending p k)"
      using a unfolding accounted_def by blast
    then show ?thesis using lr(2)[of k] by (auto simp del: of_nat_add)
  qed
  moreover have "stale (lower_irq n p) + length xs \<le> length ?ws"
  proof -
    have "stale p + length xs \<le> length ws" using a by (simp add: accounted_def)
    then show ?thesis using lr(4) by (cases "pending p n") simp_all
  qed
  ultimately show ?case using a accounted_change[OF lr(1), of c] unfolding accounted_def by blast
next
  case (take p rs ws vs xs v p1)
  then show ?case using take_accounted by blast
next
  case (serve p rs ws vs xs v s r s' p1)
  then show ?case using serve_accounted[of handle p rs ws vs xs v s r] by auto
qed

text \<open>C5: No request is lost and none is served twice: from the kernel's programming of the controllers on, whatever the order
in which devices raise and lower lines (also while a handler runs) and the CPU takes interrupts, every request of line n was taken once,
as vector 32 + n, or was withdrawn by lowering the line before the CPU took it, or is still pending. Other interrupts are spurious, at most
one for each withdrawn request. Between interrupts the CPU is asked while a request is pending and, without withdrawn requests, only
then; and the dispatcher returns from every interrupt that was taken, leaving the controllers ready for the next.\<close>

theorem every_request_served_once:
  assumes "quiet_handler handle" "irq_run handle p rs ws vs xs c"
  shows "(\<forall>v \<in> set (vs @ xs). \<exists>n < 16. v = of_nat (32 + n))
    \<and> (\<forall>n < 16. count_list rs n = count_list vs (of_nat (32 + n)) + count_list ws n + of_bool (pending p n))
    \<and> length xs \<le> length ws
    \<and> (c = None \<longrightarrow> (\<exists>n < 16. pending p n) \<longrightarrow> intr p) \<and> (c = None \<and> ws = [] \<longrightarrow> intr p \<longrightarrow> (\<exists>n < 16. pending p n))
    \<and> (\<forall>v s r. c = Some v \<longrightarrow> read32 (mem s) (r + 48) = ucast v \<longrightarrow>
         (\<exists>s' p1. dispatch_interrupt handle r s = Inr s' \<and> irq_run handle p1 rs ws vs xs None))"
proof -
  have a: "accounted p rs ws vs xs c" using irq_run_accounted assms by blast
  then have st: "stale p + length xs \<le> length ws" by (simp add: accounted_def)
  have "\<exists>s' p1. dispatch_interrupt handle r s = Inr s' \<and> irq_run handle p1 rs ws vs xs None"
    if c: "c = Some v" and m: "read32 (mem s) (r + 48) = ucast v" for v s r
  proof -
    obtain s' p1 where s': "dispatch_interrupt handle r s = Inr s'" "pic_events (new_events s s') p = Some p1"
      using serve_accounted[OF assms(1) a[unfolded c] m] by blast
    from irq_run.serve[OF assms(2)[unfolded c] m this] show ?thesis using s'(1) by blast
  qed
  moreover have "c = None \<and> ws = [] \<longrightarrow> intr p \<longrightarrow> (\<exists>n < 16. pending p n)"
    using intr_pending[of p] a st by (auto simp: accounted_def)
  moreover have "c = None \<longrightarrow> (\<exists>n < 16. pending p n) \<longrightarrow> intr p" using pending_intr[of p] a by (auto simp: accounted_def)
  ultimately show ?thesis using a st unfolding accounted_def by auto
qed

text \<open>The kernel's timer as the only handler, and one tick.\<close>

record timer_kernel = kernel_tables +
  timer :: simple_timer

definition timer_handler :: "u32 \<Rightarrow> u32 \<Rightarrow> timer_kernel \<Rightarrow> timer_kernel result" where
  "timer_handler h r s = (let (t, s1) = timer_interrupt (timer s, s) in Inr (s1\<lparr>timer := t\<rparr>))"

lemma timer_handler_quiet: "quiet_handler timer_handler"
proof -
  have "\<exists>s' es. timer_handler h r s = Inr s' \<and> trace s' = trace s @ es \<and> (\<forall>e \<in> set es. \<not> pic_port e)" for h r s
    by (cases "hz (timer s) \<le> ticks (timer s) + 1") (simp_all add: timer_handler_def timer_interrupt_def Let_def pic_port_def)
  then show ?thesis unfolding quiet_handler_def by blast
qed

definition ticking :: timer_kernel where
  "ticking = \<lparr>mem = (\<lambda>_. 0)(0x1030 := 32), trace = [], irq_table = 0x5000 # replicate 15 0, exception_table = replicate 32 0,
     timer = \<lparr>seconds = 0, ticks = 0, hz = 100\<rparr>\<rparr>"

theorem every_request_served_once_witness:
  "\<exists>p p1 p2 s'. irq_run timer_handler p [0] [] [] [] None \<and> intr p \<and> IAC p = (32, p1) \<and> irq_run timer_handler p1 [0] [] [32] [] (Some 32)
     \<and> dispatch_interrupt timer_handler 0x1000 ticking = Inr s' \<and> irq_run timer_handler p2 [0] [] [32] [] None"
proof -
  have "lines_low pic_init" by (simp add: lines_low_def pic_init_def pic_at_init_def)
  moreover obtain p0 where p0: "pic_events (new_events ticking (IRQ_init ticking)) pic_init = Some p0"
    unfolding IRQ_init_events by (simp add: pic_write_def data_write_def bit_numeral_rec pic_init_def pic_at_init_def icw1_def set_master_def set_slave_def
      service_master_pic_def service_slave_pic_def pic_request_def)
  ultimately have r0: "irq_run timer_handler p0 [] [] [] [] None" by (rule irq_run.start)
  have q0: "pic_wf p0" "\<not> line_high p0 0" using IRQ_init_ready[OF \<open>lines_low pic_init\<close> p0] by (auto simp: pic_ready_def)
  define p where "p = raise_irq 0 p0"
  have r: "irq_run timer_handler p [0] [] [] [] None" using irq_run.raise_line[OF r0, of 0] q0(2) by (simp add: p_def)
  have a: "accounted p [0] [] [] [] None" by (rule irq_run_accounted[OF r timer_handler_quiet])
  have only: "pending p k \<longleftrightarrow> k = 0" for k
    using raise_line_high(2)[OF q0(1), of 0 k] q0(2) IRQ_init_ready(2)[OF \<open>lines_low pic_init\<close> p0] by (simp add: p_def)
  then have i: "intr p" using pending_intr[of p 0] a by (simp add: accounted_def)
  obtain n p1 where n: "IAC p = (of_nat (32 + n), p1)" "acknowledged p n p1" using IAC_ready[OF _ i] a by (auto simp: accounted_def)
  have "pending p n" using n(2) a by (cases "pending p n") (simp_all add: acknowledged_def accounted_def)
  then have v: "IAC p = (32, p1)" using n(1) only by simp
  have "line_of 32 = 0" by (simp add: line_of_def)
  then have r1: "irq_run timer_handler p1 [0] [] [32] [] (Some 32)" using irq_run.take[OF r i v] only by simp
  have m: "read32 (mem ticking) (0x1000 + 48) = ucast (32 :: u8)" by (simp add: ticking_def read32_def)
  obtain s' p2 where "dispatch_interrupt timer_handler 0x1000 ticking = Inr s'" "irq_run timer_handler p2 [0] [] [32] [] None"
    using every_request_served_once[OF timer_handler_quiet r1] m by blast
  then show ?thesis using r r1 i v by blast
qed

end
