(* ===== verification/Pit.thy ===== *)
theory Pit
  imports Prelude
begin

text \<open>
  The 8254 interval timer as Bochs emulates it (iodev/pit82c54.cc, and the clocking of iodev/pit.cc): three counters,
  the six counting modes, the control words and latches, and the clocking of many cycles at once up to the next
  change of an output. The calls of the handler of counter 0's output, which drives IRQ 0, are recorded in order.
\<close>

section \<open>State\<close>

datatype rw_status = LSByte | MSByte | LSByte_multiple | MSByte_multiple

record counter_type =
  GATE :: bool
  OUTpin :: bool
  count_reg :: u32
  outlatch :: u16
  inlatch :: u16
  status_latch :: u8
  rw_mode :: u8
  counting_mode :: u8
  bcd_mode :: bool
  null_count :: bool
  count_LSB_latched :: bool
  count_MSB_latched :: bool
  status_latched :: bool
  count_binary :: u32
  triggerGATE :: bool
  write_state :: rw_status
  read_state :: rw_status
  count_written :: bool
  first_pass :: bool
  state_bit_1 :: bool
  state_bit_2 :: bool
  next_change_time :: u32
  out_handler :: bool
  out_calls :: "bool list"

type_synonym pit_82C54 = "counter_type list"

definition counter_init :: counter_type where
  "counter_init = \<lparr>GATE = True, OUTpin = True, count_reg = 0, outlatch = 0, inlatch = 0, status_latch = 0, rw_mode = 1,
     counting_mode = 4, bcd_mode = False, null_count = False, count_LSB_latched = False, count_MSB_latched = False,
     status_latched = False, count_binary = 0, triggerGATE = False, write_state = LSByte, read_state = LSByte,
     count_written = True, first_pass = False, state_bit_1 = False, state_bit_2 = False, next_change_time = 0,
     out_handler = False, out_calls = []\<rparr>"

text \<open>\<open>bx_pit_c::init\<close> then registers the handler of counter 0.\<close>

definition pit_init :: pit_82C54 where
  "pit_init = [counter_init\<lparr>out_handler := True\<rparr>, counter_init, counter_init]"

section \<open>Counters\<close>

definition latch_counter :: "counter_type \<Rightarrow> counter_type" where
  "latch_counter c =
     (if count_LSB_latched c \<or> count_MSB_latched c then c
      else let c1 = c\<lparr>outlatch := ucast (count_reg c AND 0xFFFF)\<rparr> in
        case read_state c of
          MSByte \<Rightarrow> c1\<lparr>count_MSB_latched := True\<rparr>
        | LSByte \<Rightarrow> c1\<lparr>count_LSB_latched := True\<rparr>
        | LSByte_multiple \<Rightarrow> c1\<lparr>count_LSB_latched := True, count_MSB_latched := True\<rparr>
        | MSByte_multiple \<Rightarrow> c1\<lparr>read_state := LSByte_multiple, count_LSB_latched := True, count_MSB_latched := True\<rparr>)"

definition set_OUT :: "bool \<Rightarrow> counter_type \<Rightarrow> counter_type" where
  "set_OUT data c =
     (if OUTpin c \<noteq> data then c\<lparr>OUTpin := data, out_calls := out_calls c @ (if out_handler c then [data] else [])\<rparr> else c)"

definition set_count_to_binary :: "counter_type \<Rightarrow> counter_type" where
  "set_count_to_binary c =
     (let b = count_binary c in
      if bcd_mode c
      then c\<lparr>count_reg := push_bit 0 (b div 1 mod 10) OR push_bit 4 (b div 10 mod 10) OR push_bit 8 (b div 100 mod 10)
             OR push_bit 12 (b div 1000 mod 10)\<rparr>
      else c\<lparr>count_reg := b\<rparr>)"

definition set_binary_to_count :: "counter_type \<Rightarrow> counter_type" where
  "set_binary_to_count c =
     (let n = count_reg c in
      if bcd_mode c
      then c\<lparr>count_binary := 1 * (n AND 0xF) + 10 * (drop_bit 4 n AND 0xF) + 100 * (drop_bit 8 n AND 0xF)
             + 1000 * (drop_bit 12 n AND 0xF)\<rparr>
      else c\<lparr>count_binary := n\<rparr>)"

definition set_count :: "u32 \<Rightarrow> counter_type \<Rightarrow> counter_type" where
  "set_count data c = set_binary_to_count (c\<lparr>count_reg := data AND 0xFFFF\<rparr>)"

definition decrement :: "counter_type \<Rightarrow> counter_type" where
  "decrement c =
     (if count_reg c = 0
      then if bcd_mode c then c\<lparr>count_reg := 0x9999, count_binary := 9999\<rparr> else c\<lparr>count_reg := 0xFFFF, count_binary := 0xFFFF\<rparr>
      else set_count_to_binary (c\<lparr>count_binary := count_binary c - 1\<rparr>))"

function decrement_multiple :: "u32 \<Rightarrow> counter_type \<Rightarrow> counter_type" where
  "decrement_multiple cycles c =
     (if cycles = 0 then c
      else if cycles \<le> count_binary c then set_count_to_binary (c\<lparr>count_binary := count_binary c - cycles\<rparr>)
      else decrement_multiple (cycles - (count_binary c + 1)) (decrement (set_count_to_binary (c\<lparr>count_binary := 0\<rparr>))))"
  by auto
termination
proof (relation "measure (\<lambda>(cycles, c). unat cycles)")
  fix cycles :: u32 and c :: counter_type
  assume "cycles \<noteq> 0" "\<not> cycles \<le> count_binary c"
  then have "unat (count_binary c) < unat cycles" by (simp add: word_le_nat_alt)
  moreover from this have "unat (count_binary c + 1) = unat (count_binary c) + 1"
    using unat_u32_less[of cycles] unat_add_of_nat[of "count_binary c" 1] by simp
  ultimately have "unat (cycles - (count_binary c + 1)) = unat cycles - (unat (count_binary c) + 1)"
    by (subst unat_sub) (simp_all add: word_le_nat_alt)
  then show "((cycles - (count_binary c + 1), decrement (set_count_to_binary (c\<lparr>count_binary := 0\<rparr>))), cycles, c) \<in> measure (\<lambda>(cycles, c). unat cycles)"
    using \<open>unat (count_binary c) < unat cycles\<close> by simp
qed simp

declare decrement_multiple.simps [simp del]

text \<open>When a count is loaded, the time to the next change; 0 would mean never.\<close>

definition change_after_load :: "counter_type \<Rightarrow> u32" where
  "change_after_load c = (if count_binary c = 0 then 1 else count_binary c AND 0xFFFF)"

section \<open>One clock\<close>

definition clock_mode0 :: "counter_type \<Rightarrow> counter_type" where
  "clock_mode0 c =
     (if count_written c
      then if null_count c
           then let c1 = set_count (ucast (inlatch c)) c
                in c1\<lparr>next_change_time := (if GATE c1 then change_after_load c1 else 0), null_count := False\<rparr>
           else if GATE c \<and> write_state c \<noteq> MSByte_multiple
           then let c1 = decrement c in
                if \<not> OUTpin c1
                then let c2 = c1\<lparr>next_change_time := count_binary c1 AND 0xFFFF\<rparr>
                     in if count_reg c2 = 0 then set_OUT True c2 else c2
                else c1\<lparr>next_change_time := 0\<rparr>
           else c\<lparr>next_change_time := 0\<rparr>
      else c\<lparr>next_change_time := 0\<rparr>)"

definition clock_mode1 :: "counter_type \<Rightarrow> counter_type" where
  "clock_mode1 c =
     (if count_written c
      then if triggerGATE c
           then let c1 = set_count (ucast (inlatch c)) c
                in set_OUT False (c1\<lparr>next_change_time := change_after_load c1, null_count := False\<rparr>)
           else let c1 = decrement c in
                if \<not> OUTpin c1
                then let c2 = c1\<lparr>next_change_time := change_after_load c1\<rparr> in if count_reg c2 = 0 then set_OUT True c2 else c2
                else c1\<lparr>next_change_time := 0\<rparr>
      else c\<lparr>next_change_time := 0\<rparr>)"

definition clock_mode2 :: "counter_type \<Rightarrow> counter_type" where
  "clock_mode2 c =
     (if count_written c
      then if triggerGATE c \<or> first_pass c
           then let c1 = set_count (ucast (inlatch c)) c;
                    c2 = c1\<lparr>next_change_time := (count_binary c1 - 1) AND 0xFFFF, null_count := False\<rparr>;
                    c3 = (if \<not> OUTpin c2 then set_OUT True c2 else c2)
                in c3\<lparr>first_pass := False\<rparr>
           else if GATE c
           then let c1 = decrement c; c2 = c1\<lparr>next_change_time := (count_binary c1 - 1) AND 0xFFFF\<rparr>
                in if count_reg c2 = 1 then (set_OUT False (c2\<lparr>next_change_time := 1\<rparr>))\<lparr>first_pass := True\<rparr> else c2
           else c\<lparr>next_change_time := 0\<rparr>
      else c\<lparr>next_change_time := 0\<rparr>)"

text \<open>Half the count, less one for the low half of an odd count or an even one.\<close>

definition half_time :: "counter_type \<Rightarrow> u32" where
  "half_time c = (if \<not> OUTpin c \<or> \<not> state_bit_1 c then count_binary c div 2 - 1 else count_binary c div 2)"

definition clock_mode3 :: "counter_type \<Rightarrow> counter_type" where
  "clock_mode3 c =
     (if count_written c
      then if (triggerGATE c \<or> first_pass c \<or> state_bit_2 c) \<and> GATE c
           then let c1 = set_count (ucast (inlatch c AND 0xFFFE)) c;
                    c2 = c1\<lparr>state_bit_1 := bit (inlatch c) 0\<rparr>;
                    c3 = c2\<lparr>next_change_time := (if half_time c2 = 0 then 1 else half_time c2 AND 0xFFFF), null_count := False\<rparr>;
                    c4 = (if \<not> OUTpin c3 then set_OUT True c3 else if OUTpin c3 \<and> \<not> first_pass c3 then set_OUT False c3 else c3)
                in c4\<lparr>state_bit_2 := False, first_pass := False\<rparr>
           else if GATE c
           then let c1 = decrement (decrement c);
                    c2 = c1\<lparr>next_change_time := half_time c1 AND 0xFFFF\<rparr>;
                    c3 = (if count_reg c2 = 0 then c2\<lparr>state_bit_2 := True, next_change_time := 1\<rparr> else c2)
                in if count_reg c3 = 2 \<and> (\<not> OUTpin c3 \<or> \<not> state_bit_1 c3) then c3\<lparr>state_bit_2 := True, next_change_time := 1\<rparr> else c3
           else c\<lparr>next_change_time := 0\<rparr>
      else c\<lparr>next_change_time := 0\<rparr>)"

text \<open>The strobe of modes 4 and 5: the output goes low for one clock when the count reaches 0.\<close>

definition strobe :: "counter_type \<Rightarrow> counter_type" where
  "strobe c =
     (let c1 = decrement c in
      if first_pass c1
      then let c2 = c1\<lparr>next_change_time := count_binary c1 AND 0xFFFF\<rparr>
           in if count_reg c2 = 0 then (set_OUT False c2)\<lparr>next_change_time := 1, first_pass := False\<rparr> else c2
      else c1\<lparr>next_change_time := 0\<rparr>)"

definition clock_mode4 :: "counter_type \<Rightarrow> counter_type" where
  "clock_mode4 c =
     (if count_written c
      then let c0 = (if \<not> OUTpin c then set_OUT True c else c) in
           if null_count c0
           then let c1 = set_count (ucast (inlatch c0)) c0
                in c1\<lparr>next_change_time := (if GATE c1 then change_after_load c1 else 0), null_count := False, first_pass := True\<rparr>
           else if GATE c0 then strobe c0 else c0\<lparr>next_change_time := 0\<rparr>
      else c\<lparr>next_change_time := 0\<rparr>)"

definition clock_mode5 :: "counter_type \<Rightarrow> counter_type" where
  "clock_mode5 c =
     (if count_written c
      then let c0 = (if \<not> OUTpin c then set_OUT True c else c) in
           if triggerGATE c0
           then let c1 = set_count (ucast (inlatch c0)) c0
                in c1\<lparr>next_change_time := change_after_load c1, null_count := False, first_pass := True\<rparr>
           else strobe c0
      else c\<lparr>next_change_time := 0\<rparr>)"

definition clock_counter :: "counter_type \<Rightarrow> counter_type" where
  "clock_counter c =
     (let m = counting_mode c;
          c1 = (if m = 0 then clock_mode0 c else if m = 1 then clock_mode1 c else if m = 2 then clock_mode2 c
                else if m = 3 then clock_mode3 c else if m = 4 then clock_mode4 c else if m = 5 then clock_mode5 c
                else c\<lparr>next_change_time := 0\<rparr>)
      in c1\<lparr>triggerGATE := False\<rparr>)"

section \<open>Many clocks at once\<close>

text \<open>What \<open>cycles\<close> clocks do while no change is due: \<open>k\<close> is 2 in mode 3, which counts by two.\<close>

definition count_down :: "u32 \<Rightarrow> counter_type \<Rightarrow> counter_type" where
  "count_down cycles c =
     (let m = counting_mode c in
      if \<not> count_written c then c
      else if m = 0 then (if GATE c \<and> write_state c \<noteq> MSByte_multiple then decrement_multiple cycles c else c)
      else if m = 1 \<or> m = 5 then decrement_multiple cycles c
      else if m = 2 then (if \<not> first_pass c \<and> GATE c then decrement_multiple cycles c else c)
      else if m = 3 then (if \<not> first_pass c \<and> GATE c then decrement_multiple (2 * cycles) c else c)
      else if m = 4 then (if GATE c then decrement_multiple cycles c else c)
      else c)"

function clock_multiple :: "u32 \<Rightarrow> counter_type \<Rightarrow> counter_type" where
  "clock_multiple cycles c =
     (if cycles = 0 then c
      else if next_change_time c = 0 then count_down cycles c
      else if counting_mode c \<in> {0, 1, 2, 4, 5}
      then if cycles < next_change_time c
           then (decrement_multiple cycles c)\<lparr>next_change_time := next_change_time c - cycles\<rparr>
           else clock_multiple (cycles - next_change_time c) (clock_counter (decrement_multiple (next_change_time c - 1) c))
      else if counting_mode c = 3
      then if cycles < next_change_time c
           then (decrement_multiple (cycles * 2) c)\<lparr>next_change_time := next_change_time c - cycles\<rparr>
           else clock_multiple (cycles - next_change_time c) (clock_counter (decrement_multiple ((next_change_time c - 1) * 2) c))
      else c)"
  by auto
termination
proof -
  have d: "unat (cycles - n) < unat cycles" if "cycles \<noteq> 0" "n \<noteq> 0" "\<not> cycles < n" for cycles n :: u32
    using that by (subst unat_sub) (simp_all add: word_le_nat_alt word_less_nat_alt unat_gt_0)
  show ?thesis by (relation "measure (\<lambda>(cycles, c). unat cycles)") (simp_all add: d)
qed

declare clock_multiple.simps [simp del]

definition clock_all :: "u32 \<Rightarrow> pit_82C54 \<Rightarrow> pit_82C54" where
  "clock_all cycles p = map (clock_multiple cycles) p"

section \<open>Ports\<close>

text \<open>One byte of a counter; the control word cannot be read.\<close>

definition read_counter :: "counter_type \<Rightarrow> u8 \<times> counter_type" where
  "read_counter c =
     (if status_latched c
      then if count_MSB_latched c \<and> read_state c = MSByte_multiple then (0, c) else (status_latch c, c\<lparr>status_latched := False\<rparr>)
      else if count_LSB_latched c
      then let c1 = (if read_state c = LSByte_multiple then c\<lparr>read_state := MSByte_multiple\<rparr> else c)
           in (ucast (outlatch c AND 0xFF), c1\<lparr>count_LSB_latched := False\<rparr>)
      else if count_MSB_latched c
      then let c1 = (if read_state c = MSByte_multiple then c\<lparr>read_state := LSByte_multiple\<rparr> else c)
           in (ucast (drop_bit 8 (outlatch c) AND 0xFF), c1\<lparr>count_MSB_latched := False\<rparr>)
      else if read_state c = LSByte \<or> read_state c = LSByte_multiple
      then (ucast (count_reg c AND 0xFF), if read_state c = LSByte_multiple then c\<lparr>read_state := MSByte_multiple\<rparr> else c)
      else (ucast (drop_bit 8 (count_reg c) AND 0xFF), if read_state c = MSByte_multiple then c\<lparr>read_state := LSByte_multiple\<rparr> else c))"

definition pit_read :: "nat \<Rightarrow> pit_82C54 \<Rightarrow> u8 \<times> pit_82C54" where
  "pit_read address p =
     (if 3 < address \<or> address = 3 then (0, p)
      else let (v, c) = read_counter (p ! address) in (v, p[address := c]))"

definition status_byte :: "counter_type \<Rightarrow> u8" where
  "status_byte c = push_bit 7 (of_bool (OUTpin c)) OR push_bit 6 (of_bool (null_count c)) OR push_bit 4 (rw_mode c AND 3)
     OR push_bit 1 (counting_mode c AND 7) OR of_bool (bcd_mode c)"

definition read_back :: "u8 \<Rightarrow> counter_type \<Rightarrow> counter_type" where
  "read_back w c =
     (let c1 = (if \<not> bit w 5 then latch_counter c else c) in
      if \<not> bit w 4 \<and> \<not> status_latched c1 then c1\<lparr>status_latch := status_byte c1, status_latched := True\<rparr> else c1)"

definition program_counter :: "u8 \<Rightarrow> counter_type \<Rightarrow> counter_type" where
  "program_counter w c =
     (let RW = drop_bit 4 w AND 3; M = drop_bit 1 w AND 7;
          c1 = c\<lparr>null_count := True, count_LSB_latched := False, count_MSB_latched := False, status_latched := False, inlatch := 0,
                 count_written := False, first_pass := True, rw_mode := RW, bcd_mode := (0 < w AND 1), counting_mode := M\<rparr>;
          c2 = (if RW = 1 then c1\<lparr>read_state := LSByte, write_state := LSByte\<rparr>
                else if RW = 2 then c1\<lparr>read_state := MSByte, write_state := MSByte\<rparr>
                else c1\<lparr>read_state := LSByte_multiple, write_state := LSByte_multiple\<rparr>)
      in (set_OUT (M \<noteq> 0) c2)\<lparr>next_change_time := 0\<rparr>)"

definition write_control :: "u8 \<Rightarrow> pit_82C54 \<Rightarrow> pit_82C54" where
  "write_control w p =
     (let SC = unat (drop_bit 6 w AND 3); RW = drop_bit 4 w AND 3; M = drop_bit 1 w AND 7 in
      if SC = 3 then map (\<lambda>i. if bit M i then read_back w (p ! i) else p ! i) [0..<3]
      else if RW = 0 then p[SC := latch_counter (p ! SC)]
      else p[SC := program_counter w (p ! SC)])"

definition write_counter :: "u8 \<Rightarrow> counter_type \<Rightarrow> counter_type" where
  "write_counter data c =
     (let c1 = (case write_state c of
                  LSByte_multiple \<Rightarrow> c\<lparr>inlatch := ucast data, write_state := MSByte_multiple\<rparr>
                | LSByte \<Rightarrow> c\<lparr>inlatch := ucast data, count_written := True\<rparr>
                | MSByte_multiple \<Rightarrow> c\<lparr>write_state := LSByte_multiple, inlatch := inlatch c OR push_bit 8 (ucast data), count_written := True\<rparr>
                | MSByte \<Rightarrow> c\<lparr>inlatch := push_bit 8 (ucast data), count_written := True\<rparr>);
          c2 = (if count_written c1 \<and> write_state c1 \<noteq> MSByte_multiple then set_count (ucast (inlatch c1)) (c1\<lparr>null_count := True\<rparr>) else c1);
          m = counting_mode c2
      in if m = 0 then (if write_state c2 = MSByte_multiple then set_OUT False c2 else c2)\<lparr>next_change_time := 1\<rparr>
         else if m = 1 \<or> m = 5 then (if triggerGATE c2 then c2\<lparr>next_change_time := 1\<rparr> else c2)
         else c2\<lparr>next_change_time := 1\<rparr>)"

definition pit_write :: "nat \<Rightarrow> u8 \<Rightarrow> pit_82C54 \<Rightarrow> pit_82C54" where
  "pit_write address data p =
     (if 3 < address then p else if address = 3 then write_control data p else p[address := write_counter data (p ! address)])"

definition set_GATE :: "bool \<Rightarrow> counter_type \<Rightarrow> counter_type" where
  "set_GATE data c =
     (if GATE c = data then c
      else let c1 = c\<lparr>GATE := data, triggerGATE := (if data then True else triggerGATE c)\<rparr>; m = counting_mode c1 in
        if m = 0
        then if data \<and> count_written c1
             then c1\<lparr>next_change_time := (if null_count c1 then 1
                     else if \<not> OUTpin c1 \<and> write_state c1 \<noteq> MSByte_multiple then change_after_load c1 else 0)\<rparr>
             else c1\<lparr>next_change_time := (if null_count c1 then 1 else 0)\<rparr>
        else if m = 1 \<or> m = 5 then (if data \<and> count_written c1 then c1\<lparr>next_change_time := 1\<rparr> else c1)
        else if m = 2
        then if \<not> data then (set_OUT True c1)\<lparr>next_change_time := 0\<rparr>
             else c1\<lparr>next_change_time := (if count_written c1 then 1 else 0)\<rparr>
        else if m = 3
        then if \<not> data then (set_OUT True c1)\<lparr>first_pass := True, next_change_time := 0\<rparr>
             else c1\<lparr>next_change_time := (if count_written c1 then 1 else 0)\<rparr>
        else if m = 4
        then c1\<lparr>next_change_time := (if \<not> OUTpin c1 \<or> null_count c1 then 1
                else if data \<and> count_written c1 \<and> first_pass c1 then change_after_load c1 else 0)\<rparr>
        else c1)"

section \<open>The next event, and time passing (pit.cc)\<close>

definition get_next_event_time :: "pit_82C54 \<Rightarrow> u32" where
  "get_next_event_time p =
     (let time0 = next_change_time (p ! 0); time1 = next_change_time (p ! 1); time2 = next_change_time (p ! 2);
          out1 = (if time1 \<noteq> 0 \<and> time1 < time0 then time1 else time0)
      in if time2 \<noteq> 0 \<and> time2 < out1 then time2 else out1)"

text \<open>The loop of \<open>periodic\<close>: it clocks the counters up to the next event until the ticks are used up.\<close>

function run_ticks :: "u32 \<Rightarrow> pit_82C54 \<Rightarrow> pit_82C54" where
  "run_ticks ticks_delta p =
     (if ticks_delta = 0 then p
      else let maxchange = get_next_event_time p;
               timedelta = (if maxchange = 0 \<or> ticks_delta < maxchange then ticks_delta else maxchange)
           in run_ticks (ticks_delta - timedelta) (clock_all timedelta p))"
  by auto
termination
proof (relation "measure (\<lambda>(n, p). unat n)")
  fix n :: u32 and p :: pit_82C54 and m d assume n: "n \<noteq> 0" and d: "d = (if m = 0 \<or> n < m then n else m)"
  have "d \<le> n" "d \<noteq> 0" using n by (auto simp: d)
  moreover from this have "0 < unat d" "unat d \<le> unat n" by (simp_all add: unat_gt_0 word_le_nat_alt)
  ultimately show "((n - d, clock_all d p), n, p) \<in> measure (\<lambda>(n, p). unat n)"
    by (simp add: unat_sub)
qed simp

declare run_ticks.simps [simp del]

end
