(* ===== verification/TimerRate.thy ===== *)
theory TimerRate
  imports Pit Dispatchers
begin

text \<open>
  The timer in mode 2, the rate generator, as the kernels program it: clocking many cycles at once is clocking one by one,
  a period is the programmed count, and the kernel's \<open>SimpleTimer\<close> on top of it counts its periods into ticks and seconds.
\<close>

section \<open>The rate generator\<close>

text \<open>Counter \<open>c\<close> divides by \<open>N\<close> and the next clock makes its count \<open>m - 1\<close>; in phase 1 the next clock reloads it.\<close>

definition rate_generator :: "nat \<Rightarrow> counter_type \<Rightarrow> bool" where
  "rate_generator N c \<longleftrightarrow> counting_mode c = 2 \<and> \<not> bcd_mode c \<and> GATE c \<and> count_written c \<and> \<not> triggerGATE c
     \<and> inlatch c = of_nat N \<and> 2 \<le> N \<and> N < 65536"

definition rate_phase :: "nat \<Rightarrow> nat \<Rightarrow> counter_type \<Rightarrow> bool" where
  "rate_phase N m c \<longleftrightarrow> rate_generator N c \<and> 1 \<le> m \<and> m \<le> N
     \<and> (if m = 1 then first_pass c \<and> next_change_time c = 1
        else \<not> first_pass c \<and> OUTpin c \<and> count_reg c = of_nat m \<and> count_binary c = of_nat m \<and> next_change_time c = of_nat (m - 1))"

text \<open>The three shapes of a clock.\<close>

lemma low_16_bits: "unat (w :: u32) < 65536 \<Longrightarrow> w AND 0xFFFF = w"
proof -
  assume "unat w < 65536"
  moreover have "(0xFFFF :: u32) = mask 16" by (simp add: mask_eq_exp_minus_1)
  ultimately have "unat (w AND 0xFFFF) = unat w" by (simp only: unat_and_mask) simp
  then show ?thesis by (simp only: word_unat_eq_iff)
qed

lemma u16_load: "N < 65536 \<Longrightarrow> (ucast (of_nat N :: u16) :: u32) = of_nat N"
proof -
  assume "N < 65536"
  then have "unat (of_nat N :: u16) = N" by (simp add: unat_of_nat take_bit_nat_eq_self)
  then show ?thesis by (metis of_nat_unat)
qed

lemma of_nat_minus: "1 \<le> m \<Longrightarrow> (of_nat m - 1 :: u32) = of_nat (m - 1)"
  by (cases m) simp_all

lemma masked_minus: "1 \<le> m \<Longrightarrow> m < 65536 \<Longrightarrow> (of_nat m - 1 :: u32) AND 0xFFFF = of_nat (m - 1)"
  by (cases m) (simp_all add: low_16_bits)

lemma load_count:
  "rate_generator N c \<Longrightarrow> set_count (ucast (inlatch c)) c = c\<lparr>count_reg := of_nat N, count_binary := of_nat N\<rparr>"
  by (simp add: rate_generator_def set_count_def set_binary_to_count_def u16_load low_16_bits Let_def)

lemma clock_mode_2: "rate_generator N c \<Longrightarrow> clock_counter c = (clock_mode2 c)\<lparr>triggerGATE := False\<rparr>"
  by (simp add: clock_counter_def rate_generator_def Let_def)

lemma clock_reload:
  assumes "rate_phase N 1 c"
  shows "clock_counter c = (set_OUT True c)\<lparr>count_reg := of_nat N, count_binary := of_nat N, next_change_time := of_nat (N - 1),
    null_count := False, first_pass := False\<rparr>"
proof -
  have g: "rate_generator N c" "first_pass c" using assms by (simp_all add: rate_phase_def)
  then have "(of_nat N - 1 :: u32) AND 0xFFFF = of_nat (N - 1)" by (intro masked_minus) (simp_all add: rate_generator_def)
  then show ?thesis using g unfolding clock_mode_2[OF g(1)]
    by (simp add: clock_mode2_def load_count[OF g(1)] Let_def set_OUT_def) (simp add: rate_generator_def)
qed

lemma decrement_binary:
  "\<not> bcd_mode c \<Longrightarrow> count_reg c = of_nat m \<Longrightarrow> count_binary c = of_nat m \<Longrightarrow> 1 \<le> m \<Longrightarrow> m < 65536
   \<Longrightarrow> decrement c = c\<lparr>count_reg := of_nat (m - 1), count_binary := of_nat (m - 1)\<rparr>"
  using of_nat_u32_eq_iff[of m 0] by (cases m) (simp_all add: decrement_def set_count_to_binary_def Let_def)

lemma clock_count:
  assumes "rate_phase N m c" "3 \<le> m"
  shows "clock_counter c = c\<lparr>count_reg := of_nat (m - 1), count_binary := of_nat (m - 1), next_change_time := of_nat (m - 2)\<rparr>"
proof -
  have g: "rate_generator N c" "\<not> first_pass c" "m < 65536" "count_reg c = of_nat m" "count_binary c = of_nat m"
    using assms by (auto simp: rate_phase_def rate_generator_def)
  have d: "decrement c = c\<lparr>count_reg := of_nat (m - 1), count_binary := of_nat (m - 1)\<rparr>"
    by (rule decrement_binary) (use g assms in \<open>auto simp: rate_generator_def\<close>)
  have "(of_nat (m - 1) - 1 :: u32) AND 0xFFFF = of_nat (m - 2)"
    using masked_minus[of "m - 1"] assms(2) g(3) by (simp add: numeral_2_eq_2 del: of_nat_diff)
  moreover have "(of_nat (m - 1) :: u32) \<noteq> 1" using of_nat_u32_eq_iff[of "m - 1" 1] assms(2) g(3) by simp
  ultimately show ?thesis using g unfolding clock_mode_2[OF g(1)]
    by (simp add: clock_mode2_def d Let_def) (simp add: rate_generator_def)
qed

lemma clock_terminal:
  assumes "rate_phase N 2 c"
  shows "clock_counter c = (set_OUT False c)\<lparr>count_reg := 1, count_binary := 1, next_change_time := 1, first_pass := True\<rparr>"
proof -
  have g: "rate_generator N c" "\<not> first_pass c" "count_reg c = of_nat 2" "count_binary c = of_nat 2" using assms by (simp_all add: rate_phase_def)
  have d: "decrement c = c\<lparr>count_reg := of_nat (2 - 1), count_binary := of_nat (2 - 1)\<rparr>"
    by (rule decrement_binary) (use g in \<open>auto simp: rate_generator_def\<close>)
  show ?thesis using g unfolding clock_mode_2[OF g(1)]
    by (simp add: clock_mode2_def d Let_def set_OUT_def) (simp add: rate_generator_def)
qed

lemma clock_phase:
  assumes "rate_phase N m c"
  shows "rate_phase N (if m = 1 then N else m - 1) (clock_counter c)"
proof -
  consider "m = 1" | "m = 2" | "3 \<le> m" using assms by (fastforce simp: rate_phase_def)
  then show ?thesis
  proof cases
    case 1
    then show ?thesis using assms clock_reload[of N c] by (auto simp: rate_phase_def rate_generator_def set_OUT_def)
  next
    case 2
    then show ?thesis using assms clock_terminal[of N c] by (auto simp: rate_phase_def rate_generator_def set_OUT_def)
  next
    case 3
    then show ?thesis using assms clock_count[of N m c] by (auto simp: rate_phase_def rate_generator_def)
  qed
qed

section \<open>Many clocks\<close>

lemma clocks_in_phase:
  assumes "rate_phase N m c" "2 \<le> m" "k \<le> m - 2"
  shows "(clock_counter ^^ k) c = c\<lparr>count_reg := of_nat (m - k), count_binary := of_nat (m - k), next_change_time := of_nat (m - 1 - k)\<rparr>"
  using assms(3)
proof (induction k)
  case 0
  then show ?case using assms by (simp add: rate_phase_def)
next
  case (Suc k)
  let ?c = "c\<lparr>count_reg := of_nat (m - k), count_binary := of_nat (m - k), next_change_time := of_nat (m - 1 - k)\<rparr>"
  have "rate_phase N (m - k) ?c" using assms Suc.prems by (auto simp: rate_phase_def rate_generator_def)
  then have "clock_counter ?c = ?c\<lparr>count_reg := of_nat (m - k - 1), count_binary := of_nat (m - k - 1), next_change_time := of_nat (m - k - 2)\<rparr>"
    using clock_count[of N "m - k" ?c] Suc.prems by simp
  then show ?case using Suc by (simp add: Suc_diff_le)
qed

text \<open>A clock in mode 2 does not look at the time it had announced.\<close>

lemma decrement_announced: "decrement (c\<lparr>next_change_time := x\<rparr>) = (decrement c)\<lparr>next_change_time := x\<rparr>"
  by (simp add: decrement_def set_count_to_binary_def Let_def)

lemma clock_announced: "rate_generator N c \<Longrightarrow> clock_counter (c\<lparr>next_change_time := x\<rparr>) = clock_counter c"
proof -
  assume g: "rate_generator N c"
  then have g': "rate_generator N (c\<lparr>next_change_time := x\<rparr>)" by (simp add: rate_generator_def)
  show ?thesis unfolding clock_mode_2[OF g] clock_mode_2[OF g'] using g
    by (simp add: clock_mode2_def load_count[OF g] load_count[OF g', simplified] decrement_announced Let_def set_OUT_def)
qed

lemma decrement_multiple_binary:
  assumes "rate_phase N m c" "2 \<le> m" "k \<le> m - 2"
  shows "decrement_multiple (of_nat k) c = c\<lparr>count_reg := of_nat (m - k), count_binary := of_nat (m - k)\<rparr>"
proof -
  have g: "m < 65536" "count_reg c = of_nat m" "count_binary c = of_nat m" "\<not> bcd_mode c"
    using assms by (auto simp: rate_phase_def rate_generator_def)
  show ?thesis
  proof (cases "k = 0")
    case True
    then show ?thesis using g by (simp add: decrement_multiple.simps)
  next
    case False
    then have "(of_nat k :: u32) \<noteq> 0" "(of_nat k :: u32) \<le> of_nat m" "(of_nat m - of_nat k :: u32) = of_nat (m - k)"
      using assms(2,3) g(1) of_nat_u32_eq_iff[of k 0] by (simp_all add: word_le_nat_alt)
    then show ?thesis using g by (subst decrement_multiple.simps) (simp add: set_count_to_binary_def Let_def)
  qed
qed

lemma phases: "rate_phase N m c \<Longrightarrow> \<exists>m'. rate_phase N m' ((clock_counter ^^ n) c)"
  by (induction n) (auto dest: clock_phase)

lemma clock_multiple_phase:
  "rate_phase N m c \<Longrightarrow> n < 4294967296 \<Longrightarrow> clock_multiple (of_nat n) c = (clock_counter ^^ n) c"
proof (induction n arbitrary: m c rule: less_induct)
  case (less n)
  have g: "rate_generator N c" "counting_mode c = 2" "m < 65536" "1 \<le> m" using less.prems by (auto simp: rate_phase_def rate_generator_def)
  show ?case
  proof (cases "n = 0")
    case True
    then show ?thesis by (simp add: clock_multiple.simps)
  next
    case n: False
    then have nz: "(of_nat n :: u32) \<noteq> 0" using of_nat_u32_eq_iff[of n 0] less.prems by simp
    define t where "t = (if m = 1 then 1 else m - 1)"
    have t: "next_change_time c = of_nat t" "1 \<le> t" "t < 65536" using less.prems g(3,4) by (auto simp: rate_phase_def t_def)
    then have tz: "(of_nat t :: u32) \<noteq> 0" using of_nat_u32_eq_iff[of t 0] by simp
    have lt: "(of_nat n :: u32) < of_nat t \<longleftrightarrow> n < t" using less.prems t by (simp add: word_less_nat_alt)
    show ?thesis
    proof (cases "n < t")
      case True
      then have m: "2 \<le> m" "n \<le> m - 2" using n by (auto simp: t_def split: if_splits)
      have "clock_multiple (of_nat n) c = (decrement_multiple (of_nat n) c)\<lparr>next_change_time := of_nat t - of_nat n\<rparr>"
        using True lt nz tz t(1) g(2) by (subst clock_multiple.simps) simp
      moreover have "(of_nat t - of_nat n :: u32) = of_nat (m - 1 - n)" using True m by (simp add: t_def)
      ultimately show ?thesis using clocks_in_phase[OF less.prems(1) m] decrement_multiple_binary[OF less.prems(1) m] by simp
    next
      case False
      have "clock_multiple (of_nat n) c = clock_multiple (of_nat n - of_nat t) (clock_counter (decrement_multiple (of_nat t - 1) c))"
        using False lt nz tz t(1) g(2) by (subst clock_multiple.simps) simp
      moreover have "clock_counter (decrement_multiple (of_nat t - 1) c) = (clock_counter ^^ t) c"
      proof (cases "m = 1")
        case True
        then show ?thesis by (simp add: t_def decrement_multiple.simps)
      next
        case False
        then have m: "2 \<le> m" "m - 2 \<le> m - 2" using g(4) by simp_all
        have d: "decrement_multiple (of_nat t - 1) c = c\<lparr>count_reg := of_nat (m - (m - 2)), count_binary := of_nat (m - (m - 2))\<rparr>"
          using decrement_multiple_binary[OF less.prems(1) m] of_nat_minus[OF t(2)] m by (simp add: t_def numeral_2_eq_2 del: of_nat_diff)
        define e where "e = c\<lparr>count_reg := of_nat (m - (m - 2)), count_binary := of_nat (m - (m - 2))\<rparr>"
        have "rate_generator N e" using g(1) by (simp add: e_def rate_generator_def)
        from clock_announced[OF this, of "of_nat (m - 1 - (m - 2))"]
        have "clock_counter e = clock_counter ((clock_counter ^^ (m - 2)) c)"
          using clocks_in_phase[OF less.prems(1) m] by (simp add: e_def)
        moreover have "t = Suc (m - 2)" using m by (simp add: t_def)
        ultimately show ?thesis using d by (simp add: e_def del: of_nat_diff)
      qed
      moreover have "(of_nat n - of_nat t :: u32) = of_nat (n - t)" using False by simp
      moreover obtain m' where "rate_phase N m' ((clock_counter ^^ t) c)" using phases[OF less.prems(1)] by blast
      then have "clock_multiple (of_nat (n - t)) ((clock_counter ^^ t) c) = (clock_counter ^^ (n - t)) ((clock_counter ^^ t) c)"
        using less.IH[of "n - t" m'] n t(2) less.prems(2) by simp
      moreover have "(clock_counter ^^ (n - t)) ((clock_counter ^^ t) c) = (clock_counter ^^ n) c"
        using False by (simp flip: funpow_add comp_apply[of "clock_counter ^^ (n - t)"])
      ultimately show ?thesis by (simp only:)
    qed
  qed
qed

section \<open>Periods\<close>

text \<open>The rising edges of the output: each raises IRQ 0.\<close>

definition rising :: "counter_type \<Rightarrow> nat" where
  "rising c = length (filter id (out_calls c))"

lemma next_period:
  assumes "0 < n" "2 \<le> (N :: nat)"
  shows "n mod N = (if Suc ((n - 1) mod N) = N then 0 else Suc ((n - 1) mod N))"
    "n div N = (if Suc ((n - 1) mod N) = N then Suc ((n - 1) div N) else (n - 1) div N)"
  using assms mod_Suc[of "n - 1" N] div_Suc[of "n - 1" N] by (simp_all split: if_splits)

lemma period_run:
  assumes "rate_phase N 1 c" "OUTpin c" "out_handler c"
  shows "0 < n \<Longrightarrow> rate_phase N (N - (n - 1) mod N) ((clock_counter ^^ n) c) \<and> rising ((clock_counter ^^ n) c) = rising c + (n - 1) div N
    \<and> (\<not> OUTpin ((clock_counter ^^ n) c) \<longleftrightarrow> (n - 1) mod N = N - 1) \<and> out_handler ((clock_counter ^^ n) c)"
proof (induction n)
  case (Suc n)
  let ?c = "(clock_counter ^^ n) c"
  show ?case
  proof (cases "n = 0")
    case True
    then show ?thesis using assms clock_reload[OF assms(1)] clock_phase[OF assms(1)]
      by (auto simp: set_OUT_def rising_def rate_phase_def rate_generator_def)
  next
    case False
    define m where "m = N - (n - 1) mod N"
    have N: "2 \<le> N" using assms(1) by (simp add: rate_phase_def rate_generator_def)
    have IH: "rate_phase N m ?c" "rising ?c = rising c + (n - 1) div N" "\<not> OUTpin ?c \<longleftrightarrow> m = 1" "out_handler ?c"
    proof -
      have "(n - 1) mod N < N" using N by simp
      then have "(n - 1) mod N = N - 1 \<longleftrightarrow> m = 1" unfolding m_def by linarith
      then show "rate_phase N m ?c" "rising ?c = rising c + (n - 1) div N" "\<not> OUTpin ?c \<longleftrightarrow> m = 1" "out_handler ?c"
        using Suc.IH False by (simp_all add: m_def)
    qed
    have step: "(clock_counter ^^ Suc n) c = clock_counter ?c" by simp
    consider "m = 1" | "m = 2" | "3 \<le> m" using IH(1) by (fastforce simp: rate_phase_def)
    then show ?thesis
    proof cases
      case 1
      then have "(n - 1) mod N = N - 1" using N mod_less_divisor[of N "n - 1"] unfolding m_def by linarith
      then have "n mod N = 0" "n div N = Suc ((n - 1) div N)" using next_period[of n N] False N by simp_all
      then show ?thesis using IH clock_reload[of N ?c] clock_phase[OF IH(1)] 1 N unfolding step
        by (simp add: set_OUT_def rising_def)
    next
      case 2
      then have "(n - 1) mod N = N - 2" using N mod_less_divisor[of N "n - 1"] unfolding m_def by linarith
      then have "n mod N = N - 1" "n div N = (n - 1) div N" using next_period[of n N] False N by (simp_all, arith?)
      then show ?thesis using IH clock_terminal[of N ?c] clock_phase[OF IH(1)] 2 N unfolding step
        by (simp add: set_OUT_def rising_def)
    next
      case 3
      have "(n - 1) mod N = N - m" using N IH(1) mod_less_divisor[of N "n - 1"] unfolding m_def by linarith
      then have "n mod N = N - m + 1" "n div N = (n - 1) div N" using next_period[of n N] False N 3 IH(1) by (auto simp: rate_phase_def)
      then show ?thesis using IH clock_count[of N m ?c] clock_phase[OF IH(1)] 3 N IH(1) unfolding step
        by (auto simp: rising_def rate_phase_def)
    qed
  qed
qed simp

section \<open>The kernel's timer\<close>

text \<open>The ports of the timer in the kernel's trace.\<close>

fun pit_events :: "event list \<Rightarrow> pit_82C54 \<Rightarrow> pit_82C54" where
  "pit_events [] p = p"
| "pit_events (OutB a v # es) p =
     pit_events es (if a = 0x43 then pit_write 3 v p else if a = 0x40 then pit_write 0 v p else if a = 0x41 then pit_write 1 v p
       else if a = 0x42 then pit_write 2 v p else p)"
| "pit_events (e # es) p = pit_events es p"

text \<open>The reload value is the divisor, cut to the 16 bits of the counter.\<close>

definition timer_divisor :: "nat \<Rightarrow> nat" where
  "timer_divisor f = 1193180 div f"

lemma SimpleTimer_events:
  assumes "0 < f" "construct_SimpleTimer (int f) s = Inr (t, s')"
  shows "drop (length (trace s)) (trace s') = [OutB 0x43 0x34, OutB 0x40 (of_nat (timer_divisor f)), OutB 0x40 (of_nat (timer_divisor f div 256))]"
    "t = \<lparr>seconds = 0, ticks = 0, hz = int f\<rparr>"
proof -
  have d: "1193180 sdiv int f = int (timer_divisor f)" using assms(1) by (simp add: signed_divide_int_def timer_divisor_def zdiv_int)
  have lo: "(word_of_int (int k AND 0xFF) :: u8) = of_nat k" for k
  proof -
    have "int k AND 0xFF = take_bit 8 (int k)" by (simp add: take_bit_eq_mask mask_eq_exp_minus_1)
    moreover have "(word_of_int (take_bit 8 (int k)) :: u8) = word_of_int (int k)" unfolding word_of_int_eq_iff by simp
    ultimately show ?thesis by simp
  qed
  have hi: "(word_of_int (drop_bit 8 (int k)) :: u8) = of_nat (k div 256)" for k
  proof -
    have "drop_bit 8 (int k) = int (k div 256)" by (simp add: drop_bit_eq_div zdiv_int)
    then show ?thesis by (simp only: of_int_of_nat_eq)
  qed
  show "drop (length (trace s)) (trace s') = [OutB 0x43 0x34, OutB 0x40 (of_nat (timer_divisor f)), OutB 0x40 (of_nat (timer_divisor f div 256))]"
    "t = \<lparr>seconds = 0, ticks = 0, hz = int f\<rparr>"
    using assms by (auto simp: construct_SimpleTimer_def set_frequency_def Let_def d lo hi)
qed

lemma reload_value: "d < 65536 \<Longrightarrow> (ucast (of_nat d :: u8) OR push_bit 8 (ucast (of_nat (d div 256) :: u8)) :: u16) = of_nat d"
proof -
  assume "d < 65536"
  have "d div 256 = drop_bit 8 d" by (simp add: drop_bit_eq_div)
  then show ?thesis by (intro bit_word_eqI) (auto simp: bit_simps)
qed

text \<open>After the constructor counter 0 is a rate generator at the start of a period.\<close>

lemma SimpleTimer_programs:
  assumes "1 < timer_divisor f" "timer_divisor f < 65536" "length p = 3" "GATE (p ! 0)" "out_handler (p ! 0)" "\<not> triggerGATE (p ! 0)"
  defines "c \<equiv> pit_events [OutB 0x43 0x34, OutB 0x40 (of_nat (timer_divisor f)), OutB 0x40 (of_nat (timer_divisor f div 256))] p ! 0"
  shows "rate_phase (timer_divisor f) 1 c" "OUTpin c" "out_handler c"
proof -
  obtain c0 c1 c2 where p: "p = [c0, c1, c2]" using assms(3) by (auto simp: numeral_eq_Suc length_Suc_conv)
  have pc: "program_counter 0x34 c0 = (set_OUT True (c0\<lparr>null_count := True, count_LSB_latched := False, count_MSB_latched := False,
     status_latched := False, inlatch := 0, count_written := False, first_pass := True, rw_mode := 3, bcd_mode := False,
     counting_mode := 2, read_state := LSByte_multiple, write_state := LSByte_multiple\<rparr>))\<lparr>next_change_time := 0\<rparr>"
    by (simp add: program_counter_def Let_def)
  let ?lo = "of_nat (timer_divisor f) :: u8" and ?hi = "of_nat (timer_divisor f div 256) :: u8"
  define d1 where "d1 = program_counter 0x34 c0"
  define d2 where "d2 = d1\<lparr>inlatch := ucast ?lo, write_state := MSByte_multiple, next_change_time := 1\<rparr>"
  have d1: "write_state d1 = LSByte_multiple" "counting_mode d1 = 2" "\<not> count_written d1" "first_pass d1" "OUTpin d1" "\<not> bcd_mode d1"
    "GATE d1" "\<not> triggerGATE d1" "out_handler d1"
    using assms(4-6) unfolding d1_def pc p by (simp_all add: set_OUT_def)
  have w2: "write_counter ?lo d1 = d2" using d1 by (simp add: write_counter_def d2_def)
  have w3: "write_counter ?hi d2 = (set_count (of_nat (timer_divisor f)) (d2\<lparr>write_state := LSByte_multiple, inlatch := of_nat (timer_divisor f),
      count_written := True, null_count := True\<rparr>))\<lparr>next_change_time := 1\<rparr>"
    using d1 assms(2) by (simp add: write_counter_def d2_def reload_value u16_load set_count_def set_binary_to_count_def Let_def)
  have "pit_write 3 0x34 p = [d1, c1, c2]" by (simp add: p pit_write_def write_control_def d1_def Let_def)
  then have "c = write_counter ?hi d2" unfolding c_def by (simp add: pit_write_def w2)
  then show "rate_phase (timer_divisor f) 1 c" "OUTpin c" "out_handler c"
    using d1 assms(1,2) unfolding w3
    by (simp_all add: d2_def set_count_def set_binary_to_count_def Let_def rate_phase_def rate_generator_def)
qed

text \<open>Interrupts and the clock of the kernel.\<close>

lemma timer_interrupt_pair:
  "timer_interrupt (t, s) = (if hz t \<le> ticks t + 1 then (t\<lparr>ticks := 0, seconds := seconds t + 1\<rparr>, puts (''One second has passed'' @ [CHR 0x0A]) s)
     else (t\<lparr>ticks := ticks t + 1\<rparr>, s))"
  by (simp add: timer_interrupt_def Let_def)

lemma timer_interrupts:
  assumes "0 < f"
  shows "fst ((timer_interrupt ^^ k) (\<lparr>seconds = 0, ticks = 0, hz = int f\<rparr>, s)) = \<lparr>seconds = of_nat (k div f), ticks = int (k mod f), hz = int f\<rparr>"
proof (induction k)
  case (Suc k)
  let ?x = "(timer_interrupt ^^ k) (\<lparr>seconds = 0, ticks = 0, hz = int f\<rparr>, s)"
  obtain s1 where s1: "?x = (\<lparr>seconds = of_nat (k div f), ticks = int (k mod f), hz = int f\<rparr>, s1)" using Suc by (metis prod.collapse)
  have "int f \<le> int (k mod f) + 1 \<longleftrightarrow> Suc (k mod f) = f" using mod_less_divisor[OF assms, of k] by linarith
  then show ?case using assms by (simp add: s1 timer_interrupt_pair mod_Suc div_Suc add.commute)
qed simp

text \<open>C34: The emulated timer's fast path is exact: in mode 2, at any point of a period, clocking the counter by n cycles at once
leaves the same counter, output calls included, as n single clocks.\<close>

theorem many_clocks_are_single_clocks:
  assumes "rate_phase N m c" "n < 4294967296"
  shows "clock_multiple (of_nat n) c = (clock_counter ^^ n) c"
  using assms by (rule clock_multiple_phase)

definition rate_11931 :: counter_type where
  "rate_11931 = counter_init\<lparr>counting_mode := 2, inlatch := 11931, first_pass := True, next_change_time := 1\<rparr>"

theorem many_clocks_are_single_clocks_witness: "clock_multiple 20000 rate_11931 = (clock_counter ^^ 20000) rate_11931"
  using many_clocks_are_single_clocks[of 11931 1 rate_11931 20000]
  by (simp add: rate_phase_def rate_generator_def rate_11931_def counter_init_def)

text \<open>C16: The kernel's clock: for every rate from 19 to 596590 ticks a second, the ports that \<open>SimpleTimer\<close> writes make counter 0
raise IRQ 0 once every 1193180 div hz cycles of its input, and after the handler ran once for each the object holds the whole
seconds and remaining ticks of those interrupts.\<close>

theorem timer_counts_seconds:
  assumes "19 \<le> f" "f \<le> 596590" "construct_SimpleTimer (int f) s = Inr (t, s')"
    and "length p = 3" "GATE (p ! 0)" "out_handler (p ! 0)" "\<not> triggerGATE (p ! 0)" "0 < n" "n < 4294967296"
  shows "let c = pit_events (drop (length (trace s)) (trace s')) p ! 0; c' = clock_multiple (of_nat n) c; k = rising c' - rising c;
             t' = fst ((timer_interrupt ^^ k) (t, s'))
         in k = (n - 1) div (1193180 div f) \<and> seconds t' = of_nat (k div f) \<and> ticks t' = int (k mod f)"
proof -
  have f: "0 < f" using assms(1) by simp
  have "2 \<le> 1193180 div f" using assms(2) f by (subst less_eq_div_iff_mult_less_eq) simp_all
  moreover have "1193180 div f < 65536" by (rule less_mult_imp_div_less) (use assms(1) in simp)
  ultimately have d: "1 < timer_divisor f" "timer_divisor f < 65536" by (simp_all add: timer_divisor_def)
  note e = SimpleTimer_events[OF f assms(3)]
  define c where "c = pit_events (drop (length (trace s)) (trace s')) p ! 0"
  have c: "rate_phase (timer_divisor f) 1 c" "OUTpin c" "out_handler c"
    using SimpleTimer_programs[OF d assms(4-7)] by (simp_all add: c_def e(1))
  have "rising (clock_multiple (of_nat n) c) - rising c = (n - 1) div timer_divisor f"
    using period_run[OF c assms(8)] clock_multiple_phase[OF c(1) assms(9)] by simp
  then show ?thesis using timer_interrupts[OF f, of "(n - 1) div timer_divisor f" s'] unfolding c_def[symmetric] e(2)
    by (simp add: Let_def timer_divisor_def)
qed

theorem timer_counts_seconds_witness:
  "\<exists>t s'. construct_SimpleTimer 100 \<lparr>mem = \<lambda>_. 0, trace = []\<rparr> = Inr (t, s')
     \<and> (let c = pit_events (trace s') pit_init ! 0; k = rising (clock_multiple 1193101 c) - rising c
        in k = 100 \<and> seconds (fst ((timer_interrupt ^^ k) (t, s'))) = 1)"
proof -
  let ?s = "\<lparr>mem = \<lambda>_. 0, trace = []\<rparr> :: machine"
  obtain t s' where i: "construct_SimpleTimer (int 100) ?s = Inr (t, s')"
    by (simp add: construct_SimpleTimer_def set_frequency_def Let_def)
  define c where "c = pit_events (trace s') pit_init ! 0"
  define k where "k = rising (clock_multiple 1193101 c) - rising c"
  have r: "let c = pit_events (drop (length (trace ?s)) (trace s')) pit_init ! 0; c' = clock_multiple (of_nat 1193101) c; k = rising c' - rising c;
             t' = fst ((timer_interrupt ^^ k) (t, s'))
         in k = (1193101 - 1) div (1193180 div 100) \<and> seconds t' = of_nat (k div 100) \<and> ticks t' = int (k mod 100)"
    by (rule timer_counts_seconds[OF _ _ i]) (simp_all add: pit_init_def counter_init_def)
  have e: "drop (length (trace ?s)) (trace s') = trace s'" "(of_nat 1193101 :: u32) = 1193101" by simp_all
  have k: "k = (1193101 - 1) div (1193180 div 100)" "seconds (fst ((timer_interrupt ^^ k) (t, s'))) = of_nat (k div 100)"
    using r unfolding Let_def e c_def[symmetric] k_def[symmetric] by blast+
  have k1: "k = 100" using k(1) by simp
  have "seconds (fst ((timer_interrupt ^^ k) (t, s'))) = 1" using k(2) unfolding k1 by (simp del: funpow.simps)
  then show ?thesis using i k1 by (intro exI[of _ t] exI[of _ s']) (simp add: Let_def flip: c_def k_def)
qed

text \<open>Below 19 ticks a second the divisor does not fit the counter: at 18 it becomes 751, 1588 interrupts a second.\<close>

lemma timer_divisor_truncated:
  "(ucast (of_nat (timer_divisor 18) :: u8) OR push_bit 8 (ucast (of_nat (timer_divisor 18 div 256) :: u8)) :: u16) = 751"
  by (simp add: timer_divisor_def)

text \<open>The earliest event of the three counters is missed when counter 0 has none: 0, never, is taken for a time.\<close>

lemma next_event_missed:
  "next_change_time (p ! 0) = 0 \<Longrightarrow> get_next_event_time p = 0"
  by (simp add: get_next_event_time_def Let_def)

end
