(* ===== verification/HardDrive.thy ===== *)
theory HardDrive
  imports Pic
begin

text \<open>
  The hard drives of an ATA channel as Bochs emulates them (iodev/harddrv.cc): the controller registers, the commands of
  a disk, the transfers through the data port and the seek timer. An argument of \<open>BX_PANIC\<close> is the value None. The two
  drives are disks or absent: the ATAPI half of the file is left out. A drive's image is a flat file of the host, which
  reads short at its end and is extended by a write beyond it; the host's seeks and writes do not fail.
\<close>

section \<open>State\<close>

record drive_status =
  busy :: bool
  drive_ready :: bool
  write_fault :: bool
  seek_complete :: bool
  drq :: bool
  corrected_data :: bool
  index_pulse :: bool
  index_pulse_count :: nat
  err :: bool

text \<open>The previous values of the registers, which the 48-bit commands use.\<close>

record hob_t =
  hob_feature :: u8
  hob_nsector :: u8
  hob_sector :: u8
  hob_lcyl :: u8
  hob_hcyl :: u8

record controller_t =
  status :: drive_status
  error_register :: u8
  head_no :: u8
  sector_count :: u8
  sector_no :: u8
  cylinder_no :: u16
  buffer :: "nat \<Rightarrow> u8"
  buffer_size :: nat
  buffer_index :: nat
  current_command :: u8
  multiple_sectors :: u8
  lba_mode :: bool
  mdma_mode :: u8
  udma_mode :: u8
  control_reset :: bool
  disable_irq :: bool
  reset_in_progress :: bool
  features :: u8
  hob :: hob_t
  num_sectors :: u32
  lba48 :: bool

record hdimage =
  cylinders :: u32
  heads :: u32
  spt :: u32
  hd_size :: nat
  image_file :: "u8 list"

datatype device_type_t = IDE_NONE | IDE_DISK

text \<open>\<open>seek_timer_active\<close> is the state of the timer that \<open>start_seek\<close> arms.\<close>

record drive_t =
  device_type :: device_type_t
  id_drive :: "u16 list"
  identify_set :: bool
  controller :: controller_t
  hdimg :: hdimage
  curr_lsector :: nat
  next_lsector :: nat
  model_no :: "u8 list"
  seek_timer_active :: bool

text \<open>\<open>board\<close> are the interrupt controllers; \<open>bmdma_starts\<close> counts the transfers handed to the bus master of pci_ide.cc.\<close>

record channel_t =
  drive0 :: drive_t
  drive1 :: drive_t
  drive_select :: nat
  ata_irq :: nat
  board :: bx_pic_c
  bmdma_present :: bool
  bmdma_starts :: nat

definition drive_at :: "nat \<Rightarrow> channel_t \<Rightarrow> drive_t" where
  "drive_at n ch = (if n = 0 then drive0 ch else drive1 ch)"

definition selected :: "channel_t \<Rightarrow> drive_t" where
  "selected ch = drive_at (drive_select ch) ch"

definition upd_drive :: "nat \<Rightarrow> (drive_t \<Rightarrow> drive_t) \<Rightarrow> channel_t \<Rightarrow> channel_t" where
  "upd_drive n f ch = (if n = 0 then ch\<lparr>drive0 := f (drive0 ch)\<rparr> else ch\<lparr>drive1 := f (drive1 ch)\<rparr>)"

definition upd_selected :: "(drive_t \<Rightarrow> drive_t) \<Rightarrow> channel_t \<Rightarrow> channel_t" where
  "upd_selected f ch = upd_drive (drive_select ch) f ch"

definition selected_controller :: "channel_t \<Rightarrow> controller_t" where
  "selected_controller ch = controller (selected ch)"

definition upd_controller :: "(controller_t \<Rightarrow> controller_t) \<Rightarrow> drive_t \<Rightarrow> drive_t" where
  "upd_controller f d = d\<lparr>controller := f (controller d)\<rparr>"

definition upd_status :: "(drive_status \<Rightarrow> drive_status) \<Rightarrow> controller_t \<Rightarrow> controller_t" where
  "upd_status f c = c\<lparr>status := f (status c)\<rparr>"

text \<open>The assignments of an operation to its controller and to its status.\<close>

abbreviation set_controller :: "(controller_t \<Rightarrow> controller_t) \<Rightarrow> channel_t \<Rightarrow> channel_t" where
  "set_controller f \<equiv> upd_selected (upd_controller f)"

abbreviation set_status :: "(drive_status \<Rightarrow> drive_status) \<Rightarrow> channel_t \<Rightarrow> channel_t" where
  "set_status f \<equiv> set_controller (upd_status f)"

abbreviation selected_is_hd :: "channel_t \<Rightarrow> bool" where
  "selected_is_hd ch \<equiv> device_type (selected ch) = IDE_DISK"

lemma drive_at_upd_drive [simp]:
  "drive_at n (upd_drive m f ch) = (if n = 0 \<longleftrightarrow> m = 0 then f (drive_at n ch) else drive_at n ch)"
  by (simp add: drive_at_def upd_drive_def)

lemma upd_drive_simps [simp]:
  "drive_select (upd_drive m f ch) = drive_select ch" "ata_irq (upd_drive m f ch) = ata_irq ch"
  "board (upd_drive m f ch) = board ch" "bmdma_present (upd_drive m f ch) = bmdma_present ch"
  by (simp_all add: upd_drive_def)

lemma drive_at_channel_fields [simp]:
  "drive_at n (ch\<lparr>drive_select := k\<rparr>) = drive_at n ch" "drive_at n (ch\<lparr>board := b\<rparr>) = drive_at n ch"
  by (simp_all add: drive_at_def)

lemma upd_controller_simps [simp]:
  "controller (upd_controller f d) = f (controller d)" "device_type (upd_controller f d) = device_type d"
  "hdimg (upd_controller f d) = hdimg d" "seek_timer_active (upd_controller f d) = seek_timer_active d"
  "next_lsector (upd_controller f d) = next_lsector d"
  by (simp_all add: upd_controller_def)

section \<open>Start-up\<close>

definition controller_init :: controller_t where
  "controller_init = \<lparr>status = \<lparr>busy = False, drive_ready = True, write_fault = False, seek_complete = True, drq = False,
       corrected_data = False, index_pulse = False, index_pulse_count = 0, err = False\<rparr>,
     error_register = 1, head_no = 0, sector_count = 1, sector_no = 1, cylinder_no = 0, buffer = (\<lambda>_. 0), buffer_size = 0,
     buffer_index = 0, current_command = 0, multiple_sectors = 0, lba_mode = False, mdma_mode = 0, udma_mode = 0,
     control_reset = False, disable_irq = False, reset_in_progress = False, features = 0,
     hob = \<lparr>hob_feature = 0, hob_nsector = 0, hob_sector = 0, hob_lcyl = 0, hob_hcyl = 0\<rparr>, num_sectors = 0, lba48 = False\<rparr>"

section \<open>Helpers of the commands\<close>

definition raise_interrupt :: "channel_t \<Rightarrow> channel_t" where
  "raise_interrupt ch = (if \<not> disable_irq (selected_controller ch) then ch\<lparr>board := raise_irq (ata_irq ch) (board ch)\<rparr> else ch)"

lemma raise_interrupt_simps [simp]:
  "drive_at n (raise_interrupt ch) = drive_at n ch" "drive_select (raise_interrupt ch) = drive_select ch"
  by (simp_all add: raise_interrupt_def)

definition command_aborted :: "channel_t \<Rightarrow> channel_t" where
  "command_aborted ch = raise_interrupt (set_controller
     (\<lambda>c. upd_status (\<lambda>st. st\<lparr>busy := False, drive_ready := True, err := True, drq := False, corrected_data := False\<rparr>)
       (c\<lparr>current_command := 0, error_register := 4, buffer_index := 0\<rparr>)) ch)"

definition lba48_sector :: "controller_t \<Rightarrow> nat" where
  "lba48_sector c = unat (push_bit 40 (ucast (hob_hcyl (hob c))) OR push_bit 32 (ucast (hob_lcyl (hob c))) OR
     push_bit 24 (ucast (hob_sector (hob c))) OR push_bit 8 (ucast (cylinder_no c)) OR ucast (sector_no c) :: 64 word)"

definition lba28_sector :: "controller_t \<Rightarrow> nat" where
  "lba28_sector c = unat (push_bit 24 (ucast (head_no c)) OR push_bit 8 (ucast (cylinder_no c)) OR ucast (sector_no c) :: u32)"

definition chs_sector :: "hdimage \<Rightarrow> controller_t \<Rightarrow> nat" where
  "chs_sector im c = unat (ucast (cylinder_no c) * heads im * spt im + ucast (head_no c) * spt im + (ucast (sector_no c) - 1) :: u32)"

definition calculate_logical_address :: "channel_t \<Rightarrow> nat option" where
  "calculate_logical_address ch =
     (let c = selected_controller ch; im = hdimg (selected ch);
          sector = (if lba_mode c then (if \<not> lba48 c then lba28_sector c else lba48_sector c) else chs_sector im c)
      in if hd_size im div 512 \<le> sector then None else Some sector)"

text \<open>The registers that name a sector, when \<open>increment_address\<close> writes them.\<close>

definition put_sector28 :: "nat \<Rightarrow> controller_t \<Rightarrow> controller_t" where
  "put_sector28 n c = c\<lparr>head_no := of_nat (n div 2 ^ 24 mod 16), cylinder_no := of_nat (n div 2 ^ 8), sector_no := of_nat n\<rparr>"

definition put_sector48 :: "nat \<Rightarrow> controller_t \<Rightarrow> controller_t" where
  "put_sector48 n c = c\<lparr>hob := (hob c)\<lparr>hob_hcyl := of_nat (n div 2 ^ 40), hob_lcyl := of_nat (n div 2 ^ 32),
       hob_sector := of_nat (n div 2 ^ 24)\<rparr>, cylinder_no := of_nat (n div 2 ^ 8), sector_no := of_nat n\<rparr>"

definition next_chs :: "hdimage \<Rightarrow> controller_t \<Rightarrow> controller_t" where
  "next_chs im c =
     (let sn = sector_no c + 1; hn = head_no c + 1; cn = cylinder_no c + 1 in
      if \<not> spt im < ucast sn then c\<lparr>sector_no := sn\<rparr>
      else if \<not> heads im \<le> ucast hn then c\<lparr>sector_no := 1, head_no := hn\<rparr>
      else c\<lparr>sector_no := 1, head_no := 0,
             cylinder_no := (if cylinders im \<le> ucast cn then ucast (cylinders im - 1) else cn)\<rparr>)"

definition increment_address :: "nat \<Rightarrow> channel_t \<Rightarrow> nat \<times> channel_t" where
  "increment_address sector ch =
     (let c = selected_controller ch; im = hdimg (selected ch);
          count = (\<lambda>c. c\<lparr>sector_count := sector_count c - 1, num_sectors := num_sectors c - 1\<rparr>)
      in if lba_mode c
         then (sector + 1, set_controller (\<lambda>c. (if \<not> lba48 c then put_sector28 else put_sector48) (sector + 1) (count c)) ch)
         else (sector, set_controller (\<lambda>c. next_chs im (count c)) ch))"

definition set_signature :: "nat \<Rightarrow> channel_t \<Rightarrow> channel_t" where
  "set_signature n ch =
     (let hd = device_type (drive_at n ch) = IDE_DISK;
          ch1 = upd_drive n (upd_controller (\<lambda>c. c\<lparr>head_no := 0, sector_count := 1, sector_no := 1,
                  cylinder_no := (if hd then 0 else 0xFFFF)\<rparr>)) ch
      in if hd then ch1\<lparr>drive_select := 0\<rparr> else ch1)"

definition lba48_transform :: "bool \<Rightarrow> controller_t \<Rightarrow> controller_t" where
  "lba48_transform ext c = c\<lparr>lba48 := ext, num_sectors :=
     (if \<not> ext then (if sector_count c = 0 then 256 else ucast (sector_count c))
      else if sector_count c = 0 \<and> hob_nsector (hob c) = 0 then 65536
      else push_bit 8 (ucast (hob_nsector (hob c))) OR ucast (sector_count c))\<rparr>"

definition start_seek :: "channel_t \<Rightarrow> channel_t" where
  "start_seek = upd_selected (\<lambda>d. d\<lparr>seek_timer_active := True\<rparr>)"

section \<open>The image\<close>

text \<open>\<open>lseek\<close> to a sector followed by a \<open>read\<close> or \<open>write\<close> of 512 bytes.\<close>

definition image_read :: "nat \<Rightarrow> u8 list \<Rightarrow> u8 list" where
  "image_read sector f = take 512 (drop (sector * 512) f)"

definition image_write :: "nat \<Rightarrow> u8 list \<Rightarrow> u8 list \<Rightarrow> u8 list" where
  "image_write sector bytes f =
     take (sector * 512) f @ replicate (sector * 512 - length f) 0 @ bytes @ drop (sector * 512 + length bytes) f"

definition put_buffer :: "nat \<Rightarrow> u8 list \<Rightarrow> (nat \<Rightarrow> u8) \<Rightarrow> nat \<Rightarrow> u8" where
  "put_buffer at bytes b = (\<lambda>i. if at \<le> i \<and> i < at + length bytes then bytes ! (i - at) else b i)"

definition get_buffer :: "nat \<Rightarrow> (nat \<Rightarrow> u8) \<Rightarrow> u8 list" where
  "get_buffer at b = map (\<lambda>i. b (at + i)) [0..<512]"

text \<open>The loops run while sectors are left, and once when there are none.\<close>

fun read_sectors :: "nat \<Rightarrow> nat \<Rightarrow> channel_t \<Rightarrow> bool \<times> channel_t" where
  "read_sectors n bufptr ch =
     (case calculate_logical_address ch of None \<Rightarrow> (False, command_aborted ch)
      | Some sector \<Rightarrow>
         (let bytes = image_read sector (image_file (hdimg (selected ch)));
              ch1 = set_controller (\<lambda>c. c\<lparr>buffer := put_buffer bufptr bytes (buffer c)\<rparr>) ch
          in if length bytes < 512 then (False, command_aborted ch1)
             else let (sector', ch2) = increment_address sector ch1;
                      ch3 = upd_selected (\<lambda>d. d\<lparr>next_lsector := sector'\<rparr>) ch2
                  in case n of 0 \<Rightarrow> (True, ch3) | Suc 0 \<Rightarrow> (True, ch3) | Suc m \<Rightarrow> read_sectors m (bufptr + 512) ch3))"

definition ide_read_sector :: "channel_t \<Rightarrow> bool \<times> channel_t" where
  "ide_read_sector ch = read_sectors (buffer_size (selected_controller ch) div 512) 0 ch"

fun write_sectors :: "nat \<Rightarrow> nat \<Rightarrow> channel_t \<Rightarrow> bool \<times> channel_t" where
  "write_sectors n bufptr ch =
     (case calculate_logical_address ch of None \<Rightarrow> (False, command_aborted ch)
      | Some sector \<Rightarrow>
         (let bytes = get_buffer bufptr (buffer (selected_controller ch));
              ch1 = upd_selected (\<lambda>d. d\<lparr>hdimg := (hdimg d)\<lparr>image_file := image_write sector bytes (image_file (hdimg d))\<rparr>\<rparr>) ch;
              (sector', ch2) = increment_address sector ch1;
              ch3 = upd_selected (\<lambda>d. d\<lparr>next_lsector := sector'\<rparr>) ch2
          in case n of 0 \<Rightarrow> (True, ch3) | Suc 0 \<Rightarrow> (True, ch3) | Suc m \<Rightarrow> write_sectors m (bufptr + 512) ch3))"

definition ide_write_sector :: "channel_t \<Rightarrow> bool \<times> channel_t" where
  "ide_write_sector ch = write_sectors (buffer_size (selected_controller ch) div 512) 0 ch"

section \<open>IDENTIFY DEVICE\<close>

fun put_words :: "(nat \<times> u16) list \<Rightarrow> u16 list \<Rightarrow> u16 list" where
  "put_words [] ws = ws"
| "put_words ((i, w) # rest) ws = put_words rest (ws[i := w])"

definition capped_cylinders :: "hdimage \<Rightarrow> u16" where
  "capped_cylinders im = (if 16383 < cylinders im then 16383 else ucast (cylinders im))"

text \<open>The digits of the serial number are those of channel 0.\<close>

definition serial_number :: "nat \<Rightarrow> u8 list" where
  "serial_number slave = [0x42, 0x58, 0x48, 0x44, 0x30, 0x30, 0x30, 49, of_nat slave + 49,
     0x20, 0x20, 0x20, 0x20, 0x20, 0x20, 0x20, 0x20, 0x20, 0x20, 0x20, 0]"

definition pair_words :: "nat \<Rightarrow> nat \<Rightarrow> u8 list \<Rightarrow> (nat \<times> u16) list" where
  "pair_words first n bytes =
     map (\<lambda>i. (first + i, push_bit 8 (ucast (bytes ! (2 * i))) OR ucast (bytes ! (2 * i + 1)))) [0..<n]"

definition identify_drive :: "channel_t \<Rightarrow> u16 list" where
  "identify_drive ch =
     (let im = hdimg (selected ch); c = selected_controller ch;
          chs = cylinders im * heads im * spt im;
          num_sects = (if 0 < hd_size im then of_nat (hd_size im div 512) else ucast chs :: 64 word)
      in put_words
        ([(0, 0x0040), (1, capped_cylinders im), (3, ucast (heads im)), (4, ucast (512 * spt im)), (5, 512), (6, ucast (spt im))] @
         pair_words 10 10 (serial_number (drive_select ch)) @
         [(20, 3), (21, 512), (22, 4), (23, 0), (24, 0), (25, 0), (26, 0)] @
         pair_words 27 20 (model_no (selected ch)) @
         [(47, 16), (48, 1), (49, if bmdma_present ch then 0x300 else 0x200), (51, 0x200), (52, 0x200), (53, 0x07),
          (54, capped_cylinders im), (55, ucast (heads im)), (56, ucast (spt im)),
          (57, ucast chs), (58, ucast (drop_bit 16 chs)),
          (59, if 0 < multiple_sectors c then 0x0100 OR ucast (multiple_sectors c) else 0),
          (60, ucast num_sects), (61, ucast (drop_bit 16 num_sects)), (62, 0),
          (63, if bmdma_present ch then 0x07 OR push_bit 8 (ucast (mdma_mode c)) else 0), (64, 0),
          (65, 120), (66, 120), (67, 120), (68, 120), (80, 0x7E), (81, 0),
          (82, 0x4000), (83, 0x7400), (84, 0x4000), (85, 0x4000), (86, 0x7400), (87, 0x4000),
          (88, if bmdma_present ch then 0x3F OR push_bit 8 (ucast (udma_mode c)) else 0), (93, 0x6001),
          (100, ucast num_sects), (101, ucast (drop_bit 16 num_sects)), (102, ucast (drop_bit 32 num_sects)),
          (103, ucast (drop_bit 48 num_sects))])
        (replicate 256 0))"

text \<open>The bytes of the identification, low byte first.\<close>

definition id_bytes :: "u16 list \<Rightarrow> u8 list" where
  "id_bytes ws = concat (map (\<lambda>w. [ucast w, ucast (drop_bit 8 w)]) ws)"

section \<open>The data port\<close>

definition buffer_word :: "nat \<Rightarrow> controller_t \<Rightarrow> u32" where
  "buffer_word io_len c =
     (let b = (\<lambda>k. ucast (buffer c (buffer_index c + k)) :: u32) in
      (if io_len = 4 then push_bit 24 (b 3) OR push_bit 16 (b 2) else 0)
      OR (if io_len = 4 \<or> io_len = 2 then push_bit 8 (b 1) OR b 0 else 0))"

definition identify_word :: "nat \<Rightarrow> controller_t \<Rightarrow> u32" where
  "identify_word io_len c =
     (let b = (\<lambda>k. ucast (buffer c (buffer_index c + k)) :: u32) in
      b 0 OR (if 2 \<le> io_len then push_bit 8 (b 1) else 0) OR (if io_len = 4 then push_bit 16 (b 2) OR push_bit 24 (b 3) else 0))"

definition bytes_of_value :: "nat \<Rightarrow> u32 \<Rightarrow> u8 list" where
  "bytes_of_value io_len v =
     (if io_len = 4 then [ucast v, ucast (drop_bit 8 v), ucast (drop_bit 16 v), ucast (drop_bit 24 v)]
      else if io_len = 2 then [ucast v, ucast (drop_bit 8 v)] else [])"

text \<open>A READ or WRITE MULTIPLE command transfers up to \<open>multiple_sectors\<close> sectors at a time.\<close>

definition block_size :: "controller_t \<Rightarrow> nat" where
  "block_size c = (if ucast (multiple_sectors c) < num_sectors c then unat (multiple_sectors c) * 512
     else unat (num_sectors c) * 512)"

definition read_commands :: "u8 list" where "read_commands = [0x20, 0x21, 0xC4, 0x24, 0x29]"
definition write_commands :: "u8 list" where "write_commands = [0x30, 0xC5, 0x34, 0x39]"

text \<open>The end of a buffer of a READ command.\<close>

definition buffer_was_read :: "channel_t \<Rightarrow> channel_t" where
  "buffer_was_read ch =
     (let ch1 = set_controller (\<lambda>c. upd_status (\<lambda>st. st\<lparr>busy := False, drive_ready := True, write_fault := False,
                  seek_complete := True, corrected_data := False, err := False\<rparr>)
                (if current_command c = 0xC4 \<or> current_command c = 0x29 then c\<lparr>buffer_size := block_size c\<rparr> else c)) ch
      in if num_sectors (selected_controller ch1) = 0
         then upd_selected (\<lambda>d. d\<lparr>curr_lsector := next_lsector d\<rparr>) (set_status (\<lambda>st. st\<lparr>drq := False\<rparr>) ch1)
         else let (ok, ch2) = ide_read_sector (set_status (\<lambda>st. st\<lparr>drq := True, seek_complete := True\<rparr>) ch1)
              in if ok then raise_interrupt (set_controller (\<lambda>c. c\<lparr>buffer_index := 0\<rparr>) ch2) else ch2)"

definition data_read :: "nat \<Rightarrow> channel_t \<Rightarrow> (u32 \<times> channel_t) option" where
  "data_read io_len ch =
     (let c = selected_controller ch; v = buffer_word io_len c;
          step = (\<lambda>c. c\<lparr>buffer_index := buffer_index c + io_len\<rparr>)
      in if \<not> drq (status c) then Some (0, ch)
         else if current_command c \<in> set read_commands then
           (if buffer_size c \<le> buffer_index c then None
            else let ch1 = set_controller step ch
                 in Some (v, if buffer_size c \<le> buffer_index c + io_len then buffer_was_read ch1 else ch1))
         else if current_command c = 0xEC then
           (let ch1 = set_controller (\<lambda>c. upd_status (\<lambda>st. st\<lparr>busy := False, drive_ready := True, write_fault := False,
                        seek_complete := True, corrected_data := False, err := False\<rparr>) (step c)) ch
            in Some (identify_word io_len c, if 512 \<le> buffer_index c + io_len then set_status (\<lambda>st. st\<lparr>drq := False\<rparr>) ch1 else ch1))
         else None)"

text \<open>The end of a buffer of a WRITE command.\<close>

definition buffer_was_written :: "channel_t \<Rightarrow> channel_t" where
  "buffer_was_written ch = (let (ok, ch1) = ide_write_sector ch in
     if \<not> ok then ch1
     else let ch2 = set_controller (\<lambda>c. (if current_command c = 0xC5 \<or> current_command c = 0x39
                      then c\<lparr>buffer_size := block_size c\<rparr> else c)\<lparr>buffer_index := 0\<rparr>) ch1;
              more_left = (num_sectors (selected_controller ch2) \<noteq> 0);
              ch3 = set_status (\<lambda>st. st\<lparr>busy := False, drive_ready := True, drq := more_left, corrected_data := False,
                      err := False\<rparr>) ch2
          in raise_interrupt (if more_left then ch3 else upd_selected (\<lambda>d. d\<lparr>curr_lsector := next_lsector d\<rparr>) ch3))"

definition data_write :: "nat \<Rightarrow> u32 \<Rightarrow> channel_t \<Rightarrow> channel_t option" where
  "data_write io_len v ch =
     (let c = selected_controller ch in
      if current_command c \<in> set write_commands then
        (if buffer_size c \<le> buffer_index c then None
         else let ch1 = set_controller (\<lambda>c. c\<lparr>buffer := put_buffer (buffer_index c) (bytes_of_value io_len v) (buffer c),
                          buffer_index := buffer_index c + io_len\<rparr>) ch
              in Some (if buffer_size c \<le> buffer_index c + io_len then buffer_was_written ch1 else ch1))
      else None)"

section \<open>Commands\<close>

text \<open>READ SECTORS and READ MULTIPLE; \<open>ext\<close> are the 48-bit ones.\<close>

definition read_command :: "u8 \<Rightarrow> bool \<Rightarrow> channel_t \<Rightarrow> channel_t" where
  "read_command v ext ch =
     (let c = selected_controller ch; multiple = (v = 0xC4 \<or> v = 0x29);
          ch1 = set_controller (lba48_transform ext) ch; c1 = selected_controller ch1;
          ch2 = set_controller (\<lambda>c. c\<lparr>buffer_size := (if multiple then block_size c else 512)\<rparr>) ch1
      in if \<not> selected_is_hd ch then command_aborted ch
         else if \<not> lba_mode c \<and> head_no c = 0 \<and> cylinder_no c = 0 \<and> sector_no c = 0 then command_aborted ch
         else if multiple \<and> multiple_sectors c1 = 0 then command_aborted ch1
         else (case calculate_logical_address ch2 of None \<Rightarrow> command_aborted ch2
           | Some sector \<Rightarrow>
               let ch3 = start_seek (upd_selected (\<lambda>d. d\<lparr>next_lsector := sector\<rparr>)
                     (set_controller (\<lambda>c. upd_status (\<lambda>st. st\<lparr>busy := True, drive_ready := True, seek_complete := False,
                       drq := False, corrected_data := False\<rparr>)
                       (c\<lparr>current_command := v, error_register := 0, buffer_index := 0\<rparr>)) ch2));
                   (ok, ch4) = ide_read_sector ch3
               in if ok then ch4 else command_aborted (upd_selected (\<lambda>d. d\<lparr>seek_timer_active := False\<rparr>) ch4)))"

definition write_command :: "u8 \<Rightarrow> bool \<Rightarrow> channel_t \<Rightarrow> channel_t" where
  "write_command v ext ch =
     (let multiple = (v = 0xC5 \<or> v = 0x39);
          ch1 = set_controller (lba48_transform ext) ch;
          ch2 = set_controller (\<lambda>c. c\<lparr>buffer_size := (if multiple then block_size c else 512)\<rparr>) ch1
      in if \<not> selected_is_hd ch then command_aborted ch
         else if multiple \<and> multiple_sectors (selected_controller ch1) = 0 then command_aborted ch1
         else (case calculate_logical_address ch2 of None \<Rightarrow> command_aborted ch2
           | Some sector \<Rightarrow>
               upd_selected (\<lambda>d. d\<lparr>next_lsector := sector\<rparr>)
                 (set_controller (\<lambda>c. upd_status (\<lambda>st. st\<lparr>busy := False, seek_complete := True, drq := True\<rparr>)
                   (c\<lparr>current_command := v, error_register := 0, buffer_index := 0\<rparr>)) ch2)))"

definition calibrate :: "channel_t \<Rightarrow> channel_t" where
  "calibrate ch =
     (if \<not> selected_is_hd ch then command_aborted ch
      else raise_interrupt (set_controller (\<lambda>c. upd_status (\<lambda>st. st\<lparr>busy := False, drive_ready := True,
             seek_complete := True, drq := False\<rparr>) (c\<lparr>error_register := 0, cylinder_no := 0\<rparr>)) ch))"

text \<open>\<open>set_signature\<close> may select drive 0; the registers written after it are those of the drive selected before.\<close>

definition diagnose :: "channel_t \<Rightarrow> channel_t" where
  "diagnose ch = raise_interrupt (upd_drive (drive_select ch)
     (upd_controller (\<lambda>c. upd_status (\<lambda>st. st\<lparr>drq := False\<rparr>) (c\<lparr>error_register := 1\<rparr>)))
     (set_signature (drive_select ch) ch))"

text \<open>The completion that several commands share: \<open>clear_fault\<close> when they clear the write fault too.\<close>

definition command_done :: "bool \<Rightarrow> channel_t \<Rightarrow> channel_t" where
  "command_done clear_fault ch = raise_interrupt (set_status (\<lambda>st. st\<lparr>busy := False, drive_ready := True,
     write_fault := (\<not> clear_fault \<and> write_fault st), drq := False\<rparr>) ch)"

definition init_drive_parameters :: "channel_t \<Rightarrow> channel_t" where
  "init_drive_parameters ch =
     (let c = selected_controller ch; im = hdimg (selected ch) in
      if \<not> selected_is_hd ch then command_aborted ch
      else if ucast (sector_count c) \<noteq> spt im then command_aborted ch
      else if head_no c \<noteq> 0 \<and> ucast (head_no c) \<noteq> heads im - 1 then command_aborted ch
      else command_done False ch)"

definition identify_command :: "channel_t \<Rightarrow> channel_t" where
  "identify_command ch =
     (if device_type (selected ch) = IDE_NONE then command_aborted ch
      else let ch1 = set_controller (\<lambda>c. upd_status (\<lambda>st. st\<lparr>busy := False, drive_ready := True, write_fault := False,
                   drq := True, seek_complete := True, corrected_data := False\<rparr>)
                   (c\<lparr>current_command := 0xEC, error_register := 0, buffer_index := 0\<rparr>)) ch;
               ch2 = (if identify_set (selected ch1) then ch1
                      else upd_selected (\<lambda>d. d\<lparr>id_drive := identify_drive ch1, identify_set := True\<rparr>) ch1)
           in raise_interrupt (set_controller
                (\<lambda>c. c\<lparr>buffer := put_buffer 0 (id_bytes (id_drive (selected ch2))) (buffer c)\<rparr>) ch2))"

definition ready_and_sought :: "channel_t \<Rightarrow> channel_t" where
  "ready_and_sought ch = raise_interrupt (set_status (\<lambda>st. st\<lparr>drive_ready := True, seek_complete := True\<rparr>) ch)"

definition set_features :: "channel_t \<Rightarrow> channel_t" where
  "set_features ch =
     (let c = selected_controller ch; kind = drop_bit 3 (sector_count c); mode = unat (sector_count c AND 7);
          modes = (\<lambda>m u. ready_and_sought (set_controller (\<lambda>c. c\<lparr>mdma_mode := m, udma_mode := u\<rparr>) ch))
      in if features c = 0x03
         then upd_selected (\<lambda>d. d\<lparr>identify_set := False\<rparr>)
                (if kind = 0 \<or> kind = 1 then modes 0 0 else if kind = 4 then modes (push_bit mode 1) 0
                 else if kind = 8 then modes 0 (push_bit mode 1) else command_aborted ch)
         else if features c \<in> set [0x02, 0x82, 0xAA, 0x55, 0xCC, 0x66] then ready_and_sought ch
         else command_aborted ch)"

definition verify_command :: "bool \<Rightarrow> channel_t \<Rightarrow> channel_t" where
  "verify_command ext ch =
     (if \<not> selected_is_hd ch then command_aborted ch else command_done False (set_controller (lba48_transform ext) ch))"

definition set_multiple :: "channel_t \<Rightarrow> channel_t" where
  "set_multiple ch =
     (let n = sector_count (selected_controller ch) in
      if \<not> selected_is_hd ch \<or> 16 < n \<or> n AND (n - 1) \<noteq> 0 \<or> n = 0 then command_aborted ch
      else command_done True (set_controller (\<lambda>c. c\<lparr>multiple_sectors := n\<rparr>) ch))"

definition check_power_mode :: "channel_t \<Rightarrow> channel_t" where
  "check_power_mode ch = command_done True (set_controller (\<lambda>c. c\<lparr>sector_count := 0xFF\<rparr>) ch)"

text \<open>The commands that position the drive, wait for the seek timer and transfer nothing through the data port.\<close>

definition seek_to :: "u8 \<Rightarrow> channel_t \<Rightarrow> channel_t" where
  "seek_to v ch = (case calculate_logical_address ch of None \<Rightarrow> command_aborted ch
     | Some sector \<Rightarrow> start_seek (upd_selected (\<lambda>d. d\<lparr>next_lsector := sector\<rparr>)
         (set_controller (\<lambda>c. upd_status (\<lambda>st. st\<lparr>busy := True, drive_ready := True, seek_complete := False, drq := False,
           corrected_data := False\<rparr>) (c\<lparr>current_command := v, error_register := 0\<rparr>)) ch)))"

definition seek_command :: "channel_t \<Rightarrow> channel_t" where
  "seek_command ch = (if selected_is_hd ch then seek_to 0x70 ch else command_aborted ch)"

definition read_dma :: "u8 \<Rightarrow> bool \<Rightarrow> channel_t \<Rightarrow> channel_t" where
  "read_dma v ext ch = (if selected_is_hd ch \<and> bmdma_present ch
     then seek_to v (set_controller (lba48_transform ext) ch) else command_aborted ch)"

definition write_dma :: "u8 \<Rightarrow> bool \<Rightarrow> channel_t \<Rightarrow> channel_t" where
  "write_dma v ext ch =
     (if selected_is_hd ch \<and> bmdma_present ch
      then let ch1 = set_controller (lba48_transform ext) ch in
           (case calculate_logical_address ch1 of None \<Rightarrow> command_aborted ch1
            | Some sector \<Rightarrow> upd_selected (\<lambda>d. d\<lparr>next_lsector := sector\<rparr>)
                (set_controller (\<lambda>c. upd_status (\<lambda>st. st\<lparr>drive_ready := True, seek_complete := True, drq := True\<rparr>)
                  (c\<lparr>current_command := v\<rparr>)) ch1))
      else command_aborted ch)"

definition read_native_max :: "bool \<Rightarrow> channel_t \<Rightarrow> channel_t" where
  "read_native_max ext ch =
     (let ch1 = set_controller (lba48_transform ext) ch; last = (hd_size (hdimg (selected ch)) div 512 + (2 ^ 64 - 1)) mod 2 ^ 64 in
      if \<not> selected_is_hd ch then command_aborted ch
      else if lba_mode (selected_controller ch1)
      then ready_and_sought (set_controller ((if \<not> ext then put_sector28 else put_sector48) last) ch1)
      else command_aborted ch1)"

text \<open>The commands a disk does not know, the ATAPI ones among them, are aborted.\<close>

definition command :: "u8 \<Rightarrow> channel_t \<Rightarrow> channel_t" where
  "command v ch =
     (if v = 0x10 then calibrate ch
      else if v = 0x24 \<or> v = 0x29 then read_command v True ch
      else if v = 0x20 \<or> v = 0x21 \<or> v = 0xC4 then read_command v False ch
      else if v = 0x34 \<or> v = 0x39 then write_command v True ch
      else if v = 0x30 \<or> v = 0xC5 then write_command v False ch
      else if v = 0x90 then diagnose ch
      else if v = 0x91 then init_drive_parameters ch
      else if v = 0xEC then identify_command ch
      else if v = 0xEF then set_features ch
      else if v = 0x42 then verify_command True ch
      else if v = 0x40 \<or> v = 0x41 then verify_command False ch
      else if v = 0xC6 then set_multiple ch
      else if v = 0xE0 \<or> v = 0xE1 \<or> v = 0xE7 \<or> v = 0xEA then command_done True ch
      else if v = 0xE5 then check_power_mode ch
      else if v = 0x70 then seek_command ch
      else if v = 0x25 then read_dma v True ch
      else if v = 0xC8 then read_dma v False ch
      else if v = 0x35 then write_dma v True ch
      else if v = 0xCA then write_dma v False ch
      else if v = 0x27 then read_native_max True ch
      else if v = 0xF8 then read_native_max False ch
      else command_aborted ch)"

definition write_command_register :: "u8 \<Rightarrow> channel_t \<Rightarrow> channel_t" where
  "write_command_register v ch =
     (if drive_select ch \<noteq> 0 \<and> device_type (drive1 ch) = IDE_NONE then ch
      else let ch1 = ch\<lparr>board := lower_irq (ata_irq ch) (board ch)\<rparr> in
        if busy (status (selected_controller ch1)) then ch1
        else command (if v AND 0xF0 = 0x10 then 0x10 else v) (set_status (\<lambda>st. st\<lparr>err := False\<rparr>) ch1))"

section \<open>Ports\<close>

text \<open>The channel answers at 0x1F0 to 0x1F7 and at 0x3F6 and 0x3F7.\<close>

definition ata_port :: "u16 \<Rightarrow> u16 option" where
  "ata_port address =
     (if address AND 0xFFF8 = 0x1F0 then Some (address - 0x1F0)
      else if address AND 0xFFF8 = 0x3F0 then Some (address - 0x3F0 + 0x10) else None)"

text \<open>A write of a task-file register reaches the controllers of both drives.\<close>

definition both :: "(controller_t \<Rightarrow> controller_t) \<Rightarrow> channel_t \<Rightarrow> channel_t" where
  "both f ch = ch\<lparr>drive0 := upd_controller f (drive0 ch), drive1 := upd_controller f (drive1 ch)\<rparr>"

lemma both_simps [simp]:
  "drive_at n (both f ch) = upd_controller f (drive_at n ch)" "drive_select (both f ch) = drive_select ch"
  "board (both f ch) = board ch" "ata_irq (both f ch) = ata_irq ch"
  by (simp_all add: both_def drive_at_def)

definition write_features :: "u8 \<Rightarrow> controller_t \<Rightarrow> controller_t" where
  "write_features v c = c\<lparr>hob := (hob c)\<lparr>hob_feature := features c\<rparr>, features := v\<rparr>"

definition write_sector_count :: "u8 \<Rightarrow> controller_t \<Rightarrow> controller_t" where
  "write_sector_count v c = c\<lparr>hob := (hob c)\<lparr>hob_nsector := sector_count c\<rparr>, sector_count := v\<rparr>"

definition write_sector_number :: "u8 \<Rightarrow> controller_t \<Rightarrow> controller_t" where
  "write_sector_number v c = c\<lparr>hob := (hob c)\<lparr>hob_sector := sector_no c\<rparr>, sector_no := v\<rparr>"

definition write_cylinder_low :: "u8 \<Rightarrow> controller_t \<Rightarrow> controller_t" where
  "write_cylinder_low v c = c\<lparr>hob := (hob c)\<lparr>hob_lcyl := ucast (cylinder_no c)\<rparr>,
     cylinder_no := (cylinder_no c AND 0xFF00) OR ucast v\<rparr>"

definition write_cylinder_high :: "u8 \<Rightarrow> controller_t \<Rightarrow> controller_t" where
  "write_cylinder_high v c = c\<lparr>hob := (hob c)\<lparr>hob_hcyl := ucast (drop_bit 8 (cylinder_no c))\<rparr>,
     cylinder_no := push_bit 8 (ucast v) OR (cylinder_no c AND 0xFF)\<rparr>"

definition write_drive_head :: "u8 \<Rightarrow> channel_t \<Rightarrow> channel_t" where
  "write_drive_head v ch = both (\<lambda>c. c\<lparr>head_no := v AND 0xF, lba_mode := bit v 6\<rparr>)
     (ch\<lparr>drive_select := (if bit v 4 then 1 else 0)\<rparr>)"

definition enter_reset :: "controller_t \<Rightarrow> controller_t" where
  "enter_reset c = upd_status (\<lambda>st. st\<lparr>busy := True, drive_ready := False, write_fault := False, seek_complete := True,
       drq := False, corrected_data := False, err := False\<rparr>)
     (c\<lparr>reset_in_progress := True, error_register := 1, current_command := 0, buffer_index := 0, multiple_sectors := 0,
        lba_mode := False, disable_irq := False\<rparr>)"

definition leave_reset :: "controller_t \<Rightarrow> controller_t" where
  "leave_reset c = upd_status (\<lambda>st. st\<lparr>busy := False, drive_ready := True\<rparr>) (c\<lparr>reset_in_progress := False\<rparr>)"

definition write_device_control :: "u8 \<Rightarrow> channel_t \<Rightarrow> channel_t" where
  "write_device_control v ch =
     (let before = selected_controller ch;
          ch1 = both (\<lambda>c. c\<lparr>control_reset := bit v 2, disable_irq := bit v 1\<rparr>) ch
      in if \<not> control_reset before \<and> bit v 2
         then (both enter_reset ch1)\<lparr>board := lower_irq (ata_irq ch) (board ch)\<rparr>
         else if reset_in_progress before \<and> \<not> bit v 2
         then set_signature 1 (upd_drive 1 (upd_controller leave_reset)
                (set_signature 0 (upd_drive 0 (upd_controller leave_reset) ch1)))
         else ch1)"

definition hd_write :: "u16 \<Rightarrow> u32 \<Rightarrow> nat \<Rightarrow> channel_t \<Rightarrow> channel_t option" where
  "hd_write address value io_len ch =
     (let v = ucast value in
      case ata_port address of None \<Rightarrow> None
      | Some port \<Rightarrow>
          if port = 0 then data_write io_len value ch
          else if port = 1 then Some (both (write_features v) ch)
          else if port = 2 then Some (both (write_sector_count v) ch)
          else if port = 3 then Some (both (write_sector_number v) ch)
          else if port = 4 then Some (both (write_cylinder_low v) ch)
          else if port = 5 then Some (both (write_cylinder_high v) ch)
          else if port = 6 then Some (write_drive_head v ch)
          else if port = 7 then Some (write_command_register v ch)
          else if port = 0x16 then Some (write_device_control v ch)
          else None)"

definition status_value :: "drive_status \<Rightarrow> u8" where
  "status_value st = (if busy st then 0x80 else 0) OR (if drive_ready st then 0x40 else 0) OR (if write_fault st then 0x20 else 0) OR
     (if seek_complete st then 0x10 else 0) OR (if drq st then 8 else 0) OR (if corrected_data st then 4 else 0) OR
     (if index_pulse st then 2 else 0) OR (if err st then 1 else 0)"

text \<open>Every tenth read of the status shows the index pulse.\<close>

definition pulse :: "drive_status \<Rightarrow> drive_status" where
  "pulse st = (if 10 \<le> index_pulse_count st + 1 then st\<lparr>index_pulse := True, index_pulse_count := 0\<rparr>
     else st\<lparr>index_pulse := False, index_pulse_count := index_pulse_count st + 1\<rparr>)"

definition read_status :: "channel_t \<Rightarrow> u8 \<times> channel_t" where
  "read_status ch = (if device_type (selected ch) = IDE_NONE then (0, ch)
     else (status_value (status (selected_controller ch)), set_status pulse ch))"

definition hd_read :: "u16 \<Rightarrow> nat \<Rightarrow> channel_t \<Rightarrow> (u32 \<times> channel_t) option" where
  "hd_read address io_len ch =
     (let c = selected_controller ch; any = (device_type (drive0 ch) \<noteq> IDE_NONE \<or> device_type (drive1 ch) \<noteq> IDE_NONE);
          register = (\<lambda>x :: u8. Some (if any then ucast x else 0, ch))
      in case ata_port address of None \<Rightarrow> None
      | Some port \<Rightarrow>
          if port = 0 then data_read io_len ch
          else if port = 1 then register (error_register c)
          else if port = 2 then register (sector_count c)
          else if port = 3 then register (sector_no c)
          else if port = 4 then register (ucast (cylinder_no c))
          else if port = 5 then register (ucast (drop_bit 8 (cylinder_no c)))
          else if port = 6 then Some (0xA0 OR (if lba_mode c then 0x40 else 0) OR push_bit 4 (of_nat (drive_select ch)) OR
            ucast (head_no c), ch)
          else if port = 7 then (let (x, ch1) = read_status ch in
            Some (ucast x, ch1\<lparr>board := lower_irq (ata_irq ch) (board ch1)\<rparr>))
          else if port = 0x16 then (let (x, ch1) = read_status ch in Some (ucast x, ch1))
          else if port = 0x17 then Some (0xFF, ch)
          else None)"

section \<open>The seek timer\<close>

text \<open>The handler of the timer of drive \<open>n\<close>; the timer fires once.\<close>

definition seek_timer :: "nat \<Rightarrow> channel_t \<Rightarrow> channel_t" where
  "seek_timer n ch0 =
     (let ch = upd_drive n (\<lambda>d. d\<lparr>seek_timer_active := False\<rparr>) ch0;
          d = drive_at n ch; v = current_command (controller d);
          finish = (\<lambda>data c. upd_status (\<lambda>st. st\<lparr>busy := False, drive_ready := True, seek_complete := True, drq := data,
            corrected_data := False\<rparr>) (c\<lparr>error_register := 0\<rparr>))
      in if device_type d \<noteq> IDE_DISK then ch
         else if v \<in> set read_commands
         then raise_interrupt (upd_drive n (upd_controller (\<lambda>c. (finish True c)\<lparr>buffer_index := 0\<rparr>)) ch)
         else if v = 0x25 \<or> v = 0xC8
         then (upd_drive n (upd_controller (finish True)) ch)\<lparr>bmdma_starts := bmdma_starts ch + 1\<rparr>
         else if v = 0x70
         then raise_interrupt (upd_drive n (upd_controller (\<lambda>c. (finish False c)\<lparr>buffer_index := 0\<rparr>))
                (upd_selected (\<lambda>d. d\<lparr>curr_lsector := next_lsector d\<rparr>) ch))
         else ch)"

end
