(* ===== verification/Disks.thy ===== *)
theory Disks
  imports HardDrive
begin

text \<open>
  The kernel's disks (P6/simple_disk.C, P6/blocking_disk.C) on the emulated drives of the primary channel: the port
  accesses of the disk objects are the ports of \<open>HardDrive\<close>. A failed check of \<open>SimpleDisk::wait_until_ready\<close> is an
  assertion; \<open>BlockingDisk::wait_until_ready\<close> gives up the CPU, and what happens until the thread runs again is one
  turn of the others: what they do to memory, and whether the drive's seek timer fires.
\<close>

section \<open>Ports\<close>

record disk_machine = machine +
  ata :: channel_t

definition drive_out :: "u16 \<Rightarrow> u32 \<Rightarrow> nat \<Rightarrow> 'a disk_machine_scheme \<Rightarrow> 'a disk_machine_scheme result" where
  "drive_out port v io_len s = (case hd_write port v io_len (ata s) of None \<Rightarrow> Inl Emulator_Panic
     | Some ch \<Rightarrow> Inr (s\<lparr>ata := ch\<rparr>))"

definition drive_in :: "u16 \<Rightarrow> nat \<Rightarrow> 'a disk_machine_scheme \<Rightarrow> (u32 \<times> 'a disk_machine_scheme) result" where
  "drive_in port io_len s = (case hd_read port io_len (ata s) of None \<Rightarrow> Inl Emulator_Panic
     | Some (v, ch) \<Rightarrow> Inr (v, s\<lparr>ata := ch\<rparr>))"

definition out8 :: "u16 \<Rightarrow> u8 \<Rightarrow> 'a disk_machine_scheme \<Rightarrow> 'a disk_machine_scheme result" where
  "out8 port v = drive_out port (ucast v) 1"

definition out16 :: "u16 \<Rightarrow> u16 \<Rightarrow> 'a disk_machine_scheme \<Rightarrow> 'a disk_machine_scheme result" where
  "out16 port v = drive_out port (ucast v) 2"

definition in8 :: "u16 \<Rightarrow> 'a disk_machine_scheme \<Rightarrow> (u8 \<times> 'a disk_machine_scheme) result" where
  "in8 port s = andthen (drive_in port 1 s) (\<lambda>(v, s1). Inr (ucast v, s1))"

definition in16 :: "u16 \<Rightarrow> 'a disk_machine_scheme \<Rightarrow> (u16 \<times> 'a disk_machine_scheme) result" where
  "in16 port s = andthen (drive_in port 2 s) (\<lambda>(v, s1). Inr (ucast v, s1))"

section \<open>SimpleDisk\<close>

datatype DISK_ID = MASTER | SLAVE
datatype DISK_OPERATION = READ | WRITE

record SimpleDisk =
  disk_id :: DISK_ID
  disk_size :: u32

definition construct_SimpleDisk :: "DISK_ID \<Rightarrow> u32 \<Rightarrow> SimpleDisk" where
  "construct_SimpleDisk did n = \<lparr>disk_id = did, disk_size = n\<rparr>"

definition SimpleDisk_size :: "SimpleDisk \<Rightarrow> u32" where
  "SimpleDisk_size d = disk_size d"

definition id_value :: "DISK_ID \<Rightarrow> u8" where
  "id_value did = (case did of MASTER \<Rightarrow> 0 | SLAVE \<Rightarrow> 1)"

definition issue_operation ::
  "SimpleDisk \<Rightarrow> DISK_OPERATION \<Rightarrow> u32 \<Rightarrow> 'a disk_machine_scheme \<Rightarrow> 'a disk_machine_scheme result" where
  "issue_operation d op block_no s =
     andthen (out8 0x1F1 0x00 s) (\<lambda>s. andthen (out8 0x1F2 0x01 s)
       (\<lambda>s. andthen (out8 0x1F3 (ucast block_no) s)
       (\<lambda>s. andthen (out8 0x1F4 (ucast (drop_bit 8 block_no)) s)
       (\<lambda>s. andthen (out8 0x1F5 (ucast (drop_bit 16 block_no)) s)
       (\<lambda>s. andthen (out8 0x1F6 ((ucast (drop_bit 24 block_no) AND 0x0F) OR 0xE0 OR push_bit 4 (id_value (disk_id d))) s)
       (out8 0x1F7 (if op = READ then 0x20 else 0x30)))))))"

definition is_ready :: "'a disk_machine_scheme \<Rightarrow> (bool \<times> 'a disk_machine_scheme) result" where
  "is_ready s = andthen (in8 0x1F7 s) (\<lambda>(v, s1). Inr (v AND 0x08 \<noteq> 0, s1))"

definition SimpleDisk_wait_until_ready :: "'a disk_machine_scheme \<Rightarrow> 'a disk_machine_scheme result" where
  "SimpleDisk_wait_until_ready s =
     andthen (is_ready s) (\<lambda>(ready, s1). if ready then Inr s1 else Inl Assertion_Failed)"

text \<open>The transfers, with \<open>n\<close> rounds of the loop left.\<close>

fun read_data :: "nat \<Rightarrow> nat \<Rightarrow> u32 \<Rightarrow> 'a disk_machine_scheme \<Rightarrow> 'a disk_machine_scheme result" where
  "read_data 0 i buf s = Inr s"
| "read_data (Suc n) i buf s = andthen (in16 0x1F0 s) (\<lambda>(tmpw, s1).
     read_data n (i + 1) buf (s1\<lparr>mem := (mem s1)(buf + of_nat i * 2 := ucast tmpw,
       buf + of_nat i * 2 + 1 := ucast (drop_bit 8 tmpw))\<rparr>))"

fun write_data :: "nat \<Rightarrow> nat \<Rightarrow> u32 \<Rightarrow> 'a disk_machine_scheme \<Rightarrow> 'a disk_machine_scheme result" where
  "write_data 0 i buf s = Inr s"
| "write_data (Suc n) i buf s =
     andthen (out16 0x1F0 (ucast (mem s (buf + 2 * of_nat i)) OR push_bit 8 (ucast (mem s (buf + 2 * of_nat i + 1)))) s)
       (write_data n (i + 1) buf)"

definition SimpleDisk_read :: "SimpleDisk \<Rightarrow> u32 \<Rightarrow> u32 \<Rightarrow> 'a disk_machine_scheme \<Rightarrow> 'a disk_machine_scheme result" where
  "SimpleDisk_read d block_no buf s =
     andthen (issue_operation d READ block_no s) (\<lambda>s. andthen (SimpleDisk_wait_until_ready s) (read_data 256 0 buf))"

definition SimpleDisk_write :: "SimpleDisk \<Rightarrow> u32 \<Rightarrow> u32 \<Rightarrow> 'a disk_machine_scheme \<Rightarrow> 'a disk_machine_scheme result" where
  "SimpleDisk_write d block_no buf s =
     andthen (issue_operation d WRITE block_no s) (\<lambda>s. andthen (SimpleDisk_wait_until_ready s) (write_data 256 0 buf))"

section \<open>BlockingDisk\<close>

text \<open>A turn: what the other threads make of memory, and whether the seek timer of a drive fires.\<close>

type_synonym turn = "(memory \<Rightarrow> memory) \<times> DISK_ID option"

definition id_no :: "DISK_ID \<Rightarrow> nat" where
  "id_no did = (case did of MASTER \<Rightarrow> 0 | SLAVE \<Rightarrow> 1)"

definition take_turn :: "turn \<Rightarrow> 'a disk_machine_scheme \<Rightarrow> 'a disk_machine_scheme" where
  "take_turn t s = s\<lparr>mem := fst t (mem s), ata := (case snd t of None \<Rightarrow> ata s
     | Some did \<Rightarrow>
       if seek_timer_active (drive_at (id_no did) (ata s)) then seek_timer (id_no did) (ata s) else ata s)\<rparr>"

fun BlockingDisk_wait_until_ready :: "turn list \<Rightarrow> 'a disk_machine_scheme \<Rightarrow> 'a disk_machine_scheme result" where
  "BlockingDisk_wait_until_ready turns s = andthen (is_ready s) (\<lambda>(ready, s1).
     if ready then Inr s1
     else case turns of [] \<Rightarrow> Inl Not_Resumed | t # rest \<Rightarrow> BlockingDisk_wait_until_ready rest (take_turn t s1))"

declare BlockingDisk_wait_until_ready.simps [simp del]

definition BlockingDisk_read ::
  "SimpleDisk \<Rightarrow> u32 \<Rightarrow> u32 \<Rightarrow> turn list \<Rightarrow> 'a disk_machine_scheme \<Rightarrow> 'a disk_machine_scheme result" where
  "BlockingDisk_read d block_no buf turns s =
     andthen (issue_operation d READ block_no s) (\<lambda>s. andthen (BlockingDisk_wait_until_ready turns s) (read_data 256 0 buf))"

definition BlockingDisk_write ::
  "SimpleDisk \<Rightarrow> u32 \<Rightarrow> u32 \<Rightarrow> turn list \<Rightarrow> 'a disk_machine_scheme \<Rightarrow> 'a disk_machine_scheme result" where
  "BlockingDisk_write d block_no buf turns s =
     andthen (issue_operation d WRITE block_no s) (\<lambda>s. andthen (BlockingDisk_wait_until_ready turns s) (write_data 256 0 buf))"

section \<open>The commands on the drive\<close>

definition unit_no :: "SimpleDisk \<Rightarrow> nat" where
  "unit_no d = id_no (disk_id d)"

definition command_code :: "DISK_OPERATION \<Rightarrow> u8" where
  "command_code op = (if op = READ then 0x20 else 0x30)"

definition drive_byte :: "SimpleDisk \<Rightarrow> u32 \<Rightarrow> u8" where
  "drive_byte d b = (ucast (drop_bit 24 b) AND 0x0F) OR 0xE0 OR push_bit 4 (id_value (disk_id d))"

definition programmed :: "SimpleDisk \<Rightarrow> u32 \<Rightarrow> channel_t \<Rightarrow> channel_t" where
  "programmed d b ch = write_drive_head (drive_byte d b) (both (write_cylinder_high (ucast (drop_bit 16 b)))
     (both (write_cylinder_low (ucast (drop_bit 8 b))) (both (write_sector_number (ucast b))
     (both (write_sector_count 1) (both (write_features 0) ch)))))"

lemma ucast_up_down [simp]: "ucast (ucast (x :: u8) :: u32) = x" "ucast (ucast (y :: u16) :: u32) = y"
  by (rule bit_word_eqI, simp add: bit_simps)+

lemma issue_operation_eq:
  "issue_operation d op b s = Inr (s\<lparr>ata := write_command_register (command_code op) (programmed d b (ata s))\<rparr>)"
  by (simp add: issue_operation_def out8_def drive_out_def hd_write_def ata_port_def programmed_def drive_byte_def
      command_code_def)

lemma drive_byte_bits: "bit (drive_byte d b) 6" "bit (drive_byte d b) 4 \<longleftrightarrow> disk_id d = SLAVE"
  by (cases "disk_id d"; simp add: drive_byte_def id_value_def bit_simps)+

lemma drive_byte_head: "drive_byte d b AND 0xF = ucast (drop_bit 24 b) AND 0xF"
  by (cases "disk_id d") (simp_all add: drive_byte_def id_value_def bit.conj_disj_distrib2 and.assoc)

definition registers :: "u32 \<Rightarrow> controller_t \<Rightarrow> controller_t" where
  "registers b c = (write_cylinder_high (ucast (drop_bit 16 b)) (write_cylinder_low (ucast (drop_bit 8 b))
     (write_sector_number (ucast b) (write_sector_count 1 (write_features 0 c)))))
     \<lparr>head_no := ucast (drop_bit 24 b) AND 0xF, lba_mode := True\<rparr>"

lemma programmed_simps:
  "drive_at n (programmed d b ch) = upd_controller (registers b) (drive_at n ch)"
  "drive_select (programmed d b ch) = unit_no d" "device_type (drive1 (programmed d b ch)) = device_type (drive1 ch)"
  "ata_irq (programmed d b ch) = ata_irq ch" "board (programmed d b ch) = board ch"
  by (cases "disk_id d"; simp add: programmed_def write_drive_head_def drive_byte_bits drive_byte_head unit_no_def id_no_def registers_def
      upd_controller_def both_def drive_at_def)+

lemma registers_simps [simp]:
  "status (registers b c) = status c" "sector_count (registers b c) = 1" "lba_mode (registers b c)"
  "disable_irq (registers b c) = disable_irq c" "buffer (registers b c) = buffer c"
  by (simp_all add: registers_def write_cylinder_high_def write_cylinder_low_def write_sector_number_def
      write_sector_count_def write_features_def)

lemma registers_sector: "lba28_sector (registers b c) = unat (b AND 0xFFFFFFF)"
proof -
  have "push_bit 24 (ucast (ucast (drop_bit 24 b) AND (0xF :: u8))) OR push_bit 8 (ucast (push_bit 8 (ucast (ucast (drop_bit 16 b) :: u8))
      OR ((x AND 0xFF00) OR ucast (ucast (drop_bit 8 b) :: u8)) AND (0xFF :: u16))) OR ucast (ucast b :: u8) = b AND mask 28" for x
  proof -
    have masks: "(0xF :: u8) = mask 4" "(0xFF :: u16) = mask 8" "(0xFF00 :: u16) = push_bit 8 (mask 8)"
      by (simp_all add: mask_eq_exp_minus_1)
    show ?thesis unfolding masks
      by (rule bit_word_eqI, rename_tac n, case_tac "n < 24"; case_tac "n < 16"; case_tac "n < 8") (auto simp: bit_simps)
  qed
  then show ?thesis
    by (simp add: registers_def lba28_sector_def write_cylinder_high_def write_cylinder_low_def write_sector_number_def mask_eq_exp_minus_1)
qed

section \<open>The drive during an operation\<close>

text \<open>An idle drive: a disk whose image is as long as it says and which waits for a command.\<close>

definition idle_drive :: "drive_t \<Rightarrow> bool" where
  "idle_drive d \<longleftrightarrow> device_type d = IDE_DISK \<and> length (image_file (hdimg d)) = hd_size (hdimg d) \<and> \<not> busy (status (controller d))"

text \<open>\<open>k\<close> words of a sector have gone through the data port.\<close>

definition reading :: "u8 list \<Rightarrow> nat \<Rightarrow> drive_t \<Rightarrow> bool" where
  "reading bytes k d \<longleftrightarrow> (let c = controller d in drq (status c) \<and> \<not> busy (status c) \<and> current_command c = 0x20 \<and>
     buffer_size c = 512 \<and> buffer_index c = 2 * k \<and> num_sectors c = 0 \<and> (\<forall>i < 512. buffer c i = bytes ! i)) \<and> \<not> seek_timer_active d"

text \<open>Nothing is left to do.\<close>

definition at_rest :: "drive_t \<Rightarrow> bool" where
  "at_rest d \<longleftrightarrow> \<not> drq (status (controller d)) \<and> \<not> seek_timer_active d"

definition seeking :: "u8 list \<Rightarrow> drive_t \<Rightarrow> bool" where
  "seeking bytes d \<longleftrightarrow> (let c = controller d in \<not> drq (status c) \<and> busy (status c) \<and> current_command c = 0x20 \<and>
     buffer_size c = 512 \<and> num_sectors c = 0 \<and> (\<forall>i < 512. buffer c i = bytes ! i)) \<and> seek_timer_active d"

definition writing :: "nat \<Rightarrow> u8 list \<Rightarrow> nat \<Rightarrow> drive_t \<Rightarrow> bool" where
  "writing sector bytes k d \<longleftrightarrow> (let c = controller d in drq (status c) \<and> \<not> busy (status c) \<and> current_command c = 0x30 \<and>
     buffer_size c = 512 \<and> buffer_index c = 2 * k \<and> num_sectors c = 1 \<and> lba_mode c \<and> \<not> lba48 c \<and>
     lba28_sector c = sector \<and> (\<forall>i < 2 * k. buffer c i = bytes ! i))"

definition same_image :: "channel_t \<Rightarrow> channel_t \<Rightarrow> bool" where
  "same_image ch ch' \<longleftrightarrow> (\<forall>n. hdimg (drive_at n ch') = hdimg (drive_at n ch) \<and>
     device_type (drive_at n ch') = device_type (drive_at n ch))"

lemma image_read_length: "sector * 512 + 512 \<le> length f \<Longrightarrow> length (image_read sector f) = 512"
  by (simp add: image_read_def)

lemma upd_selected_simps [simp]:
  "drive_at n (upd_selected f ch) = (if n = 0 \<longleftrightarrow> drive_select ch = 0 then f (drive_at n ch) else drive_at n ch)"
  "drive_select (upd_selected f ch) = drive_select ch" "board (upd_selected f ch) = board ch" "ata_irq (upd_selected f ch) = ata_irq ch"
  by (simp_all add: upd_selected_def)

lemma upd_status_simps [simp]:
  "status (upd_status f c) = f (status c)" "lba_mode (upd_status f c) = lba_mode c" "lba48 (upd_status f c) = lba48 c"
  "buffer_size (upd_status f c) = buffer_size c" "buffer_index (upd_status f c) = buffer_index c"
  "buffer (upd_status f c) = buffer c" "num_sectors (upd_status f c) = num_sectors c"
  "current_command (upd_status f c) = current_command c" "disable_irq (upd_status f c) = disable_irq c"
  "sector_count (upd_status f c) = sector_count c"
  by (simp_all add: upd_status_def)

lemma lba28_sector_simps [simp]:
  "lba28_sector (upd_status f c) = lba28_sector c" "lba28_sector (c\<lparr>status := st\<rparr>) = lba28_sector c"
  "lba28_sector (c\<lparr>current_command := v\<rparr>) = lba28_sector c"
  "lba28_sector (c\<lparr>error_register := v\<rparr>) = lba28_sector c" "lba28_sector (c\<lparr>buffer_index := i\<rparr>) = lba28_sector c"
  "lba28_sector (c\<lparr>buffer_size := i\<rparr>) = lba28_sector c" "lba28_sector (c\<lparr>buffer := g\<rparr>) = lba28_sector c"
  "lba28_sector (lba48_transform ext c) = lba28_sector c"
  by (simp_all add: lba28_sector_def upd_status_def lba48_transform_def)

lemma selected_upd [simp]: "selected (upd_selected f ch) = f (selected ch)"
  by (simp add: selected_def)

lemma upd_selected_twice [simp]: "upd_selected f (upd_selected g ch) = upd_selected (\<lambda>d. f (g d)) ch"
  by (simp add: upd_selected_def upd_drive_def)

lemma upd_selected_cong: "f (selected ch) = g (selected ch) \<Longrightarrow> upd_selected f ch = upd_selected g ch"
  by (simp add: upd_selected_def upd_drive_def selected_def drive_at_def split: if_splits)

lemma calculate_lba28:
  assumes "lba_mode (selected_controller ch)" "\<not> lba48 (selected_controller ch)"
    "lba28_sector (selected_controller ch) < hd_size (hdimg (selected ch)) div 512"
  shows "calculate_logical_address ch = Some (lba28_sector (selected_controller ch))"
  using assms by (simp add: calculate_logical_address_def Let_def)

lemma sector_in_image:
  assumes "sector < n div 512" shows "sector * 512 + 512 \<le> (n :: nat)"
  using assms by (metis less_eq_div_iff_mult_less_eq Suc_leI add.commute mult_Suc zero_less_numeral)

text \<open>One sector moves between the image and the buffer.\<close>

definition counted :: "nat \<Rightarrow> controller_t \<Rightarrow> controller_t" where
  "counted sector c = put_sector28 (sector + 1) (c\<lparr>sector_count := sector_count c - 1, num_sectors := num_sectors c - 1\<rparr>)"

lemma ide_read_one:
  assumes "lba_mode (selected_controller ch)" "\<not> lba48 (selected_controller ch)" "buffer_size (selected_controller ch) = 512"
    "lba28_sector (selected_controller ch) = sector" "sector < hd_size (hdimg (selected ch)) div 512"
    "length (image_file (hdimg (selected ch))) = hd_size (hdimg (selected ch))"
  shows "ide_read_sector ch = (True, upd_selected (\<lambda>d. (upd_controller (\<lambda>c. counted sector
           (c\<lparr>buffer := put_buffer 0 (image_read sector (image_file (hdimg d))) (buffer c)\<rparr>)) d)\<lparr>next_lsector := sector + 1\<rparr>) ch)"
proof -
  have "length (image_read sector (image_file (hdimg (selected ch)))) = 512"
    using sector_in_image [OF assms(5)] assms(6) by (simp add: image_read_length)
  then show ?thesis
    using assms calculate_lba28 [of ch]
    by (auto simp: ide_read_sector_def selected_controller_def increment_address_def Let_def upd_controller_def counted_def
        intro!: upd_selected_cong)
qed

lemma ide_write_one:
  assumes "lba_mode (selected_controller ch)" "\<not> lba48 (selected_controller ch)" "buffer_size (selected_controller ch) = 512"
    "lba28_sector (selected_controller ch) = sector" "sector < hd_size (hdimg (selected ch)) div 512"
  shows "ide_write_sector ch = (True, upd_selected (\<lambda>d. (upd_controller (counted sector)
           (d\<lparr>hdimg := (hdimg d)\<lparr>image_file := image_write sector (get_buffer 0 (buffer (controller d))) (image_file (hdimg d))\<rparr>\<rparr>))
             \<lparr>next_lsector := sector + 1\<rparr>) ch)"
  using assms calculate_lba28 [of ch]
  by (auto simp: ide_write_sector_def selected_controller_def increment_address_def Let_def upd_controller_def counted_def
      intro!: upd_selected_cong)

lemma write_register_idle:
  assumes "unit_no d = drive_select ch" "idle_drive (drive_at (unit_no d) ch)"
  shows "write_command_register v ch = command (if v AND 0xF0 = 0x10 then 0x10 else v)
     (set_status (\<lambda>st. st\<lparr>err := False\<rparr>) (ch\<lparr>board := lower_irq (ata_irq ch) (board ch)\<rparr>))"
  using assms by (cases "disk_id d") (auto simp: write_command_register_def idle_drive_def selected_controller_def selected_def
      unit_no_def id_no_def drive_at_def Let_def)

lemma low_28_bits: "b < 0x10000000 \<Longrightarrow> b AND 0xFFFFFFF = (b :: u32)"
proof -
  assume "b < 0x10000000"
  then have "take_bit 28 b = b"
    by (simp add: word_unat_eq_iff unsigned_take_bit_eq take_bit_nat_eq_self word_less_nat_alt)
  then show ?thesis by (simp add: take_bit_eq_mask mask_eq_exp_minus_1)
qed

lemma lba48_transform_simps [simp]:
  "lba_mode (lba48_transform ext c) = lba_mode c" "lba48 (lba48_transform ext c) = ext"
  "status (lba48_transform ext c) = status c" "buffer (lba48_transform ext c) = buffer c"
  "sector_count c = 1 \<Longrightarrow> num_sectors (lba48_transform False c) = 1"
  by (simp_all add: lba48_transform_def)

lemma read_command_sector:
  assumes "selected_is_hd ch" "lba_mode (selected_controller ch)" "lba28_sector (selected_controller ch) = sector"
    "sector < hd_size (hdimg (selected ch)) div 512" "length (image_file (hdimg (selected ch))) = hd_size (hdimg (selected ch))"
  shows "read_command 0x20 False ch = upd_selected (\<lambda>d. d\<lparr>seek_timer_active := True, controller := counted sector
       (upd_status (\<lambda>st. st\<lparr>busy := True, drive_ready := True, seek_complete := False, drq := False, corrected_data := False\<rparr>)
         ((lba48_transform False (controller d))\<lparr>buffer_size := 512, current_command := 0x20, error_register := 0,
           buffer_index := 0\<rparr>)
        \<lparr>buffer := put_buffer 0 (image_read sector (image_file (hdimg d))) (buffer (controller d))\<rparr>),
     next_lsector := sector + 1\<rparr>) ch"
  using assms
  by (auto simp: read_command_def Let_def selected_controller_def calculate_lba28 ide_read_one [OF _ _ _ refl] start_seek_def upd_controller_def
      upd_status_def intro!: upd_selected_cong)

lemma write_command_sector:
  assumes "selected_is_hd ch" "lba_mode (selected_controller ch)" "lba28_sector (selected_controller ch) = sector"
    "sector < hd_size (hdimg (selected ch)) div 512"
  shows "write_command 0x30 False ch = upd_selected (\<lambda>d. d\<lparr>controller := upd_status (\<lambda>st. st\<lparr>busy := False, seek_complete := True,
         drq := True\<rparr>) ((lba48_transform False (controller d))\<lparr>buffer_size := 512, current_command := 0x30, error_register := 0,
           buffer_index := 0\<rparr>),
     next_lsector := sector\<rparr>) ch"
  using assms
  by (auto simp: write_command_def Let_def selected_controller_def calculate_lba28 upd_controller_def intro!: upd_selected_cong)

text \<open>What the two operations leave of the drive when they have been issued.\<close>

lemma issue_read:
  fixes d ch b
  defines "n \<equiv> unit_no d" and "ch' \<equiv> write_command_register 0x20 (programmed d b ch)"
  assumes idle: "idle_drive (drive_at n ch)" and b: "unat b < hd_size (hdimg (drive_at n ch)) div 512" "b < 0x10000000"
  shows "drive_select ch' = n" "same_image ch ch'" "seeking (image_read (unat b) (image_file (hdimg (drive_at n ch)))) (drive_at n ch')"
proof -
  let ?p = "programmed d b ch"
  have p: "unit_no d = drive_select ?p" "idle_drive (drive_at (unit_no d) ?p)"
    using idle by (simp_all add: programmed_simps idle_drive_def n_def)
  let ?q = "set_status (\<lambda>st. st\<lparr>err := False\<rparr>) (?p\<lparr>board := lower_irq (ata_irq ?p) (board ?p)\<rparr>)"
  have c: "ch' = read_command 0x20 False ?q"
    using write_register_idle [OF p, of "0x20"] by (simp add: ch'_def command_def)
  have "selected ?q = upd_controller (\<lambda>c. upd_status (\<lambda>st. st\<lparr>err := False\<rparr>) (registers b c)) (drive_at n ch)"
    by (simp add: selected_def programmed_simps n_def upd_controller_def)
  then have "ch' = upd_selected (\<lambda>d. d\<lparr>seek_timer_active := True, controller := counted (unat b)
       (upd_status (\<lambda>st. st\<lparr>busy := True, drive_ready := True, seek_complete := False, drq := False, corrected_data := False\<rparr>)
         ((lba48_transform False (controller d))\<lparr>buffer_size := 512, current_command := 0x20, error_register := 0,
           buffer_index := 0\<rparr>)
        \<lparr>buffer := put_buffer 0 (image_read (unat b) (image_file (hdimg d))) (buffer (controller d))\<rparr>),
     next_lsector := unat b + 1\<rparr>) ?q"
    using idle b by (subst c, intro read_command_sector)
      (simp_all add: selected_controller_def registers_sector low_28_bits idle_drive_def)
  then show "drive_select ch' = n" "same_image ch ch'"
     "seeking (image_read (unat b) (image_file (hdimg (drive_at n ch)))) (drive_at n ch')"
    using sector_in_image [OF b(1)] idle
    by (simp_all add: programmed_simps n_def same_image_def seeking_def Let_def counted_def put_sector28_def put_buffer_def
        image_read_length idle_drive_def)
qed

lemma issue_write:
  fixes d ch b and bytes :: "u8 list"
  defines "n \<equiv> unit_no d" and "ch' \<equiv> write_command_register 0x30 (programmed d b ch)"
  assumes idle: "idle_drive (drive_at n ch)" and b: "unat b < hd_size (hdimg (drive_at n ch)) div 512" "b < 0x10000000"
  shows "drive_select ch' = n" "same_image ch ch'" "writing (unat b) bytes 0 (drive_at n ch')"
proof -
  let ?p = "programmed d b ch"
  have p: "unit_no d = drive_select ?p" "idle_drive (drive_at (unit_no d) ?p)"
    using idle by (simp_all add: programmed_simps idle_drive_def n_def)
  let ?q = "set_status (\<lambda>st. st\<lparr>err := False\<rparr>) (?p\<lparr>board := lower_irq (ata_irq ?p) (board ?p)\<rparr>)"
  have c: "ch' = write_command 0x30 False ?q"
    using write_register_idle [OF p, of "0x30"] by (simp add: ch'_def command_def)
  have "selected ?q = upd_controller (\<lambda>c. upd_status (\<lambda>st. st\<lparr>err := False\<rparr>) (registers b c)) (drive_at n ch)"
    by (simp add: selected_def programmed_simps n_def upd_controller_def)
  then have "ch' = upd_selected (\<lambda>d. d\<lparr>controller := upd_status (\<lambda>st. st\<lparr>busy := False, seek_complete := True,
         drq := True\<rparr>) ((lba48_transform False (controller d))\<lparr>buffer_size := 512, current_command := 0x30, error_register := 0,
           buffer_index := 0\<rparr>),
     next_lsector := unat b\<rparr>) ?q"
    using idle b by (subst c, intro write_command_sector)
      (simp_all add: selected_controller_def registers_sector low_28_bits idle_drive_def)
  then show "drive_select ch' = n" "same_image ch ch'" "writing (unat b) bytes 0 (drive_at n ch')"
    using b idle
    by (simp_all add: programmed_simps n_def same_image_def writing_def Let_def registers_sector low_28_bits)
qed

section \<open>The transfers\<close>

text \<open>The port accesses of one drive's operation as steps of its state.\<close>

lemma is_ready_status:
  "is_ready s = (let ch = ata s; d = selected ch in
     if device_type d = IDE_NONE then Inr (False, s\<lparr>ata := ch\<lparr>board := lower_irq (ata_irq ch) (board ch)\<rparr>\<rparr>)
     else Inr (drq (status (controller d)),
       s\<lparr>ata := (set_status pulse ch)\<lparr>board := lower_irq (ata_irq ch) (board ch)\<rparr>\<rparr>))"
proof -
  have "status_value st AND 8 \<noteq> 0 \<longleftrightarrow> drq st" for st
    by (simp add: status_value_def bit.conj_disj_distrib2)
  then show ?thesis
    by (simp add: is_ready_def in8_def drive_in_def hd_read_def ata_port_def read_status_def Let_def selected_controller_def
        split: prod.split)
qed

lemma pulse_simps [simp]: "drq (pulse st) = drq st" "busy (pulse st) = busy st"
  by (simp_all add: pulse_def)

lemma pulse_keeps [simp]:
  "seeking bytes (upd_controller (upd_status pulse) d) = seeking bytes d"
  "reading bytes k (upd_controller (upd_status pulse) d) = reading bytes k d"
  "writing sector bytes k (upd_controller (upd_status pulse) d) = writing sector bytes k d"
  by (simp_all add: seeking_def reading_def writing_def upd_controller_def Let_def)

fun memory_after :: "DISK_ID \<Rightarrow> turn list \<Rightarrow> memory \<Rightarrow> memory" where
  "memory_after did [] m = m"
| "memory_after did (t # ts) m = (if snd t = Some did then fst t m else memory_after did ts (fst t m))"

definition fires :: "DISK_ID \<Rightarrow> turn list \<Rightarrow> bool" where
  "fires did turns \<longleftrightarrow> Some did \<in> snd ` set turns"

lemma drive_at_bmdma [simp]: "drive_at n (ch\<lparr>bmdma_starts := k\<rparr>) = drive_at n ch"
  by (simp add: drive_at_def)

lemma seek_timer_fires:
  assumes "seeking bytes (drive_at n ch)" "device_type (drive_at n ch) = IDE_DISK"
  shows "reading bytes 0 (drive_at n (seek_timer n ch))" "same_image ch (seek_timer n ch)"
    "drive_select (seek_timer n ch) = drive_select ch"
  using assms
  by (simp_all add: seek_timer_def Let_def seeking_def reading_def read_commands_def same_image_def upd_controller_def)

lemma seek_timer_other:
  assumes "n = 0 \<longleftrightarrow> m \<noteq> 0"
  shows "controller (drive_at n (seek_timer m ch)) = controller (drive_at n ch)"
    "seek_timer_active (drive_at n (seek_timer m ch)) = seek_timer_active (drive_at n ch)"
  using assms by (cases "m = 0"; simp add: seek_timer_def Let_def)+

lemma seek_timer_keeps:
  "same_image ch (seek_timer m ch)" "drive_select (seek_timer m ch) = drive_select ch"
  by (simp_all add: seek_timer_def Let_def same_image_def)

lemma seeking_transfer:
  "controller d' = controller d \<Longrightarrow> seek_timer_active d' = seek_timer_active d \<Longrightarrow> seeking bytes d' = seeking bytes d"
  by (simp add: seeking_def)

lemma same_image_trans [trans]: "same_image a b \<Longrightarrow> same_image b c \<Longrightarrow> same_image a c"
  by (simp add: same_image_def)

lemma is_ready_disk:
  assumes "device_type (drive_at n (ata s)) = IDE_DISK" "drive_select (ata s) = n"
  obtains s' where "is_ready s = Inr (drq (status (controller (drive_at n (ata s)))), s')" "mem s' = mem s" "trace s' = trace s"
    "drive_select (ata s') = n" "same_image (ata s) (ata s')"
    "drive_at n (ata s') = upd_controller (upd_status pulse) (drive_at n (ata s))"
  using assms by (auto simp: is_ready_status Let_def same_image_def selected_def)

lemma wait_until_drive_fires:
  assumes "seeking bytes (drive_at n (ata s))" "device_type (drive_at n (ata s)) = IDE_DISK" "drive_select (ata s) = n"
    "n = id_no did" "fires did turns"
  shows "\<exists>s'. BlockingDisk_wait_until_ready turns s = Inr s' \<and> mem s' = memory_after did turns (mem s) \<and> trace s' = trace s \<and>
     reading bytes 0 (drive_at n (ata s')) \<and> same_image (ata s) (ata s') \<and> drive_select (ata s') = n"
  using assms
proof (induction turns arbitrary: s)
  case Nil then show ?case by (simp add: fires_def)
next
  case (Cons t ts)
  obtain s1 where s1: "is_ready s = Inr (drq (status (controller (drive_at n (ata s)))), s1)" "mem s1 = mem s" "trace s1 = trace s"
      "drive_select (ata s1) = n" "same_image (ata s) (ata s1)"
      "drive_at n (ata s1) = upd_controller (upd_status pulse) (drive_at n (ata s))"
    using is_ready_disk [OF Cons.prems(2,3)] by blast
  have s1': "seeking bytes (drive_at n (ata s1))" "device_type (drive_at n (ata s1)) = IDE_DISK"
    using s1(6) Cons.prems by simp_all
  then have active: "seek_timer_active (drive_at n (ata s1))" by (simp add: seeking_def Let_def)
  have step: "BlockingDisk_wait_until_ready (t # ts) s = BlockingDisk_wait_until_ready ts (take_turn t s1)"
    using s1(1) Cons.prems(1,3) by (subst BlockingDisk_wait_until_ready.simps) (simp add: seeking_def Let_def)
  show ?case
  proof (cases "snd t = Some did")
    case True
    let ?s2 = "take_turn t s1"
    have s2: "ata ?s2 = seek_timer n (ata s1)" "mem ?s2 = fst t (mem s)" "trace ?s2 = trace s"
      using True active Cons.prems(4) s1(2,3) by (simp_all add: take_turn_def)
    have r: "reading bytes 0 (drive_at n (ata ?s2))" "same_image (ata s1) (ata ?s2)" "drive_select (ata ?s2) = n"
      using seek_timer_fires [OF s1'] s2 s1(4) Cons.prems(3) by simp_all
    have hd2: "device_type (drive_at n (ata ?s2)) = IDE_DISK"
      using r s1'(2) by (simp add: same_image_def)
    obtain s3 where s3: "is_ready ?s2 = Inr (drq (status (controller (drive_at n (ata ?s2)))), s3)" "mem s3 = mem ?s2"
        "trace s3 = trace ?s2" "drive_select (ata s3) = n" "same_image (ata ?s2) (ata s3)"
        "drive_at n (ata s3) = upd_controller (upd_status pulse) (drive_at n (ata ?s2))"
      using is_ready_disk [OF hd2 r(3)] by blast
    have "BlockingDisk_wait_until_ready ts ?s2 = Inr s3"
      using s3(1) r by (subst BlockingDisk_wait_until_ready.simps) (simp add: reading_def Let_def)
    then show ?thesis
      using step s2 s3 r True s1(5) by (auto simp: same_image_def)
  next
    case False
    let ?s2 = "take_turn t s1"
    have "seeking bytes (drive_at n (ata ?s2)) \<and> same_image (ata s1) (ata ?s2) \<and> drive_select (ata ?s2) = n"
    proof (cases "snd t")
      case None then show ?thesis using s1 s1' Cons.prems(3) by (simp add: take_turn_def same_image_def)
    next
      case (Some other)
      then have "n = 0 \<longleftrightarrow> id_no other \<noteq> 0" using False Cons.prems(4) by (cases other; cases did; simp add: id_no_def)
      then have "seeking bytes (drive_at n (seek_timer (id_no other) (ata s1)))"
        using s1'(1) seeking_transfer [OF seek_timer_other(1) seek_timer_other(2)] by simp
      moreover have "ata ?s2 = ata s1 \<or> ata ?s2 = seek_timer (id_no other) (ata s1)"
        using Some by (simp add: take_turn_def)
      moreover have "same_image (ata s1) (ata s1)" by (simp add: same_image_def)
      moreover have "drive_select (ata s1) = n" using s1(4) Cons.prems(3) by simp
      ultimately show ?thesis
        by (elim disjE) (simp_all only: s1'(1) seek_timer_keeps simp_thms)
    qed
    moreover have "device_type (drive_at n (ata ?s2)) = IDE_DISK"
      using calculation s1'(2) by (simp add: same_image_def)
    moreover have "fires did ts" using Cons.prems(5) False by (auto simp: fires_def)
    ultimately obtain s' where "BlockingDisk_wait_until_ready ts ?s2 = Inr s'" "mem s' = memory_after did ts (mem ?s2)"
        "trace s' = trace ?s2" "reading bytes 0 (drive_at n (ata s'))" "same_image (ata ?s2) (ata s')" "drive_select (ata s') = n"
      using Cons.IH Cons.prems(4) by blast
    moreover have "mem ?s2 = fst t (mem s)" "trace ?s2 = trace s" using s1 by (simp_all add: take_turn_def)
    ultimately show ?thesis
      using step False \<open>seeking bytes (drive_at n (ata ?s2)) \<and> same_image (ata s1) (ata ?s2) \<and> drive_select (ata ?s2) = n\<close> s1(5)
      by (auto simp: same_image_def)
  qed
qed

section \<open>The data words\<close>

definition word_of_bytes :: "u8 \<Rightarrow> u8 \<Rightarrow> u16" where
  "word_of_bytes lo hi = ucast lo OR push_bit 8 (ucast hi)"

lemma word_of_bytes_simps [simp]:
  "ucast (word_of_bytes lo hi) = lo" "ucast (drop_bit 8 (word_of_bytes lo hi)) = hi"
  by (rule bit_word_eqI, auto simp: word_of_bytes_def bit_simps dest: bit_imp_le_length)+

lemma buffer_word_bytes: "ucast (buffer_word 2 c) = word_of_bytes (buffer c (buffer_index c)) (buffer c (buffer_index c + 1))"
  by (rule bit_word_eqI) (auto simp: buffer_word_def word_of_bytes_def Let_def bit_simps)

lemma in16_reading:
  assumes "reading bytes k (drive_at n (ata s))" "idle_drive (drive_at n (ata s))" "drive_select (ata s) = n" "k < 256"
  obtains s' where "in16 0x1F0 s = Inr (word_of_bytes (bytes ! (2 * k)) (bytes ! (2 * k + 1)), s')" "mem s' = mem s" "trace s' = trace s"
    "drive_select (ata s') = n" "same_image (ata s) (ata s')" "idle_drive (drive_at n (ata s'))"
    "k + 1 < 256 \<Longrightarrow> reading bytes (k + 1) (drive_at n (ata s'))" "k = 255 \<Longrightarrow> at_rest (drive_at n (ata s'))"
proof -
  let ?c = "controller (drive_at n (ata s))"
  let ?step = "set_controller (\<lambda>c. c\<lparr>buffer_index := buffer_index c + 2\<rparr>) (ata s)"
  define ch where "ch = (if 512 \<le> 2 * k + 2 then buffer_was_read ?step else ?step)"
  have "data_read 2 (ata s) = Some (buffer_word 2 ?c, ch)"
    using assms by (simp add: ch_def data_read_def Let_def selected_controller_def selected_def reading_def read_commands_def)
  then have "in16 0x1F0 s = Inr (word_of_bytes (bytes ! (2 * k)) (bytes ! (2 * k + 1)), s\<lparr>ata := ch\<rparr>)"
    using assms(1,4) by (simp add: in16_def drive_in_def hd_read_def ata_port_def buffer_word_bytes reading_def Let_def)
  moreover have "drive_select ch = n" "same_image (ata s) ch" "idle_drive (drive_at n ch)"
    "k + 1 < 256 \<Longrightarrow> reading bytes (k + 1) (drive_at n ch)" "k = 255 \<Longrightarrow> at_rest (drive_at n ch)"
    using assms
    by (simp_all add: ch_def buffer_was_read_def Let_def selected_controller_def same_image_def idle_drive_def reading_def selected_def
        at_rest_def)
  ultimately show ?thesis by (intro that [of "s\<lparr>ata := ch\<rparr>"]) simp_all
qed

text \<open>A block of memory and the function that stores one.\<close>

definition get_block :: "memory \<Rightarrow> u32 \<Rightarrow> u8 list" where
  "get_block m buf = map (\<lambda>i. m (buf + of_nat i)) [0..<512]"

definition put_block :: "u8 list \<Rightarrow> u32 \<Rightarrow> memory \<Rightarrow> memory" where
  "put_block bytes buf m = (\<lambda>a. if unat (a - buf) < length bytes then bytes ! unat (a - buf) else m a)"

lemma address_index: "j < 2 ^ 32 \<Longrightarrow> a = buf + of_nat j \<longleftrightarrow> unat (a - buf) = j" for a buf :: u32
proof -
  assume "j < 2 ^ 32"
  then have "unat (of_nat j :: u32) = j" by (simp add: unat_of_nat)
  moreover have "a = buf + of_nat j \<longleftrightarrow> a - buf = of_nat j" by (auto simp: algebra_simps)
  ultimately show ?thesis by (metis word_unat_eq_iff)
qed

lemma read_data_block:
  assumes "reading bytes k (drive_at n (ata s))" "idle_drive (drive_at n (ata s))" "drive_select (ata s) = n"
    "length bytes = 512" "k + m = 256" "0 < m"
  shows "\<exists>s'. read_data m k buf s = Inr s' \<and>
     (\<forall>a. mem s' a = (if 2 * k \<le> unat (a - buf) \<and> unat (a - buf) < 512 then bytes ! unat (a - buf) else mem s a)) \<and>
     trace s' = trace s \<and> same_image (ata s) (ata s') \<and> idle_drive (drive_at n (ata s')) \<and> at_rest (drive_at n (ata s')) \<and>
     drive_select (ata s') = n"
  using assms
proof (induction m arbitrary: k s)
  case 0 then show ?case by simp
next
  case (Suc m)
  have k: "k < 256" using Suc.prems by simp
  obtain s1 where s1: "in16 0x1F0 s = Inr (word_of_bytes (bytes ! (2 * k)) (bytes ! (2 * k + 1)), s1)" "mem s1 = mem s"
    "trace s1 = trace s" "drive_select (ata s1) = n" "same_image (ata s) (ata s1)" "idle_drive (drive_at n (ata s1))"
    "k + 1 < 256 \<Longrightarrow> reading bytes (k + 1) (drive_at n (ata s1))" "k = 255 \<Longrightarrow> at_rest (drive_at n (ata s1))"
    using in16_reading [OF Suc.prems(1-3) k] by blast
  define s2 where "s2 = s1\<lparr>mem := (mem s1)(buf + of_nat k * 2 := bytes ! (2 * k), buf + of_nat k * 2 + 1 := bytes ! (2 * k + 1))\<rparr>"
  have step: "read_data (Suc m) k buf s = read_data m (k + 1) buf s2"
    using s1(1) by (simp add: s2_def)
  have s2: "trace s2 = trace s" "ata s2 = ata s1" using s1(3) by (simp_all add: s2_def)
  have addr: "a = buf + of_nat k * 2 \<longleftrightarrow> unat (a - buf) = 2 * k" "a = buf + of_nat k * 2 + 1 \<longleftrightarrow> unat (a - buf) = 2 * k + 1" for a
    using address_index [of "2 * k" a buf] address_index [of "2 * k + 1" a buf] k by (simp_all add: algebra_simps)
  have m2: "mem s2 a = (if unat (a - buf) = 2 * k then bytes ! (2 * k) else if unat (a - buf) = 2 * k + 1 then bytes ! (2 * k + 1)
      else mem s a)" for a
    using s1(2) addr [of a] by (simp add: s2_def)
  show ?case
  proof (cases m)
    case 0
    then have "k = 255" using Suc.prems by simp
    then show ?thesis using step 0 s1(4-6,8) s2 m2 by (auto simp: less_Suc_eq)
  next
    case (Suc m')
    have "reading bytes (k + 1) (drive_at n (ata s2))" using s1(7) Suc Suc.prems s2 by simp
    then obtain s' where s': "read_data m (k + 1) buf s2 = Inr s'"
      "\<forall>a. mem s' a = (if 2 * (k + 1) \<le> unat (a - buf) \<and> unat (a - buf) < 512 then bytes ! unat (a - buf) else mem s2 a)"
      "trace s' = trace s2" "same_image (ata s2) (ata s')" "idle_drive (drive_at n (ata s'))"
      "at_rest (drive_at n (ata s'))" "drive_select (ata s') = n"
      using Suc.IH [of "k + 1" s2] s1(4,6) Suc.prems(4,5) Suc s2 by auto
    have "mem s' a = (if 2 * k \<le> unat (a - buf) \<and> unat (a - buf) < 512 then bytes ! unat (a - buf) else mem s a)" for a
      using s'(2) [rule_format, of a] m2 [of a] k
      by (cases "unat (a - buf) = 2 * k"; cases "unat (a - buf) = 2 * k + 1") auto
    moreover have "same_image (ata s) (ata s')" using s1(5) s'(4) s2 by (simp add: same_image_def)
    ultimately show ?thesis using step s' s2 by auto
  qed
qed

definition written :: "nat \<Rightarrow> nat \<Rightarrow> u8 list \<Rightarrow> channel_t \<Rightarrow> channel_t \<Rightarrow> bool" where
  "written n sector bytes ch ch' \<longleftrightarrow> (\<forall>m. device_type (drive_at m ch') = device_type (drive_at m ch) \<and>
     hdimg (drive_at m ch') = (let im = hdimg (drive_at m ch) in
       if m = 0 \<longleftrightarrow> n = 0 then im\<lparr>image_file := image_write sector bytes (image_file im)\<rparr> else im))"

lemma image_write_length:
  "sector * 512 + 512 \<le> length f \<Longrightarrow> length bytes = 512 \<Longrightarrow> length (image_write sector bytes f) = length f"
  by (simp add: image_write_def)

lemma bytes_of_word: "bytes_of_value 2 (ucast (word_of_bytes lo hi)) = [lo, hi]"
proof -
  have "ucast (ucast (word_of_bytes lo hi) :: u32) = lo" "ucast (drop_bit 8 (ucast (word_of_bytes lo hi) :: u32)) = hi"
    by (rule bit_word_eqI, auto simp: word_of_bytes_def bit_simps dest: bit_imp_le_length)+
  then show ?thesis by (simp add: bytes_of_value_def)
qed

lemma get_buffer_bytes: "\<forall>i < 512. b i = bytes ! i \<Longrightarrow> length bytes = 512 \<Longrightarrow> get_buffer 0 b = bytes"
  by (rule nth_equalityI) (simp_all add: get_buffer_def)

lemma drive_at_positive: "0 < m \<Longrightarrow> drive_at m ch = drive1 ch"
  by (simp add: drive_at_def)

lemma buffer_was_written_sector:
  assumes "writing sector bytes 256 (selected ch)" "sector < hd_size (hdimg (selected ch)) div 512" "length bytes = 512"
    "drive_select ch = n"
  shows "drive_select (buffer_was_written ch) = n" "written n sector bytes ch (buffer_was_written ch)"
    "\<not> busy (status (controller (drive_at n (buffer_was_written ch))))"
proof -
  have w: "ide_write_sector ch = (True, upd_selected (\<lambda>d. (upd_controller (counted sector)
           (d\<lparr>hdimg := (hdimg d)\<lparr>image_file := image_write sector (get_buffer 0 (buffer (controller d))) (image_file (hdimg d))\<rparr>\<rparr>))
             \<lparr>next_lsector := sector + 1\<rparr>) ch)"
    using assms by (intro ide_write_one) (simp_all add: writing_def Let_def selected_controller_def)
  have b: "get_buffer 0 (buffer (controller (drive_at n ch))) = bytes" "num_sectors (controller (drive_at n ch)) = 1"
    "current_command (controller (drive_at n ch)) = 0x30"
    using assms by (simp_all add: writing_def Let_def get_buffer_bytes selected_def)
  show "drive_select (buffer_was_written ch) = n" "written n sector bytes ch (buffer_was_written ch)"
    "\<not> busy (status (controller (drive_at n (buffer_was_written ch))))"
    using assms(4) b
    by (auto simp: buffer_was_written_def w Let_def written_def counted_def put_sector28_def upd_controller_def
        selected_controller_def selected_def drive_at_positive)
qed

lemma out16_writing:
  assumes "writing sector bytes k (drive_at n (ata s))" "idle_drive (drive_at n (ata s))" "drive_select (ata s) = n" "k < 256"
    "sector < hd_size (hdimg (drive_at n (ata s))) div 512" "length bytes = 512"
    "v = word_of_bytes (bytes ! (2 * k)) (bytes ! (2 * k + 1))"
  obtains s' where "out16 0x1F0 v s = Inr s'" "mem s' = mem s" "trace s' = trace s" "drive_select (ata s') = n"
    "idle_drive (drive_at n (ata s'))"
    "k + 1 < 256 \<Longrightarrow> same_image (ata s) (ata s') \<and> writing sector bytes (k + 1) (drive_at n (ata s'))"
    "k = 255 \<Longrightarrow> written n sector bytes (ata s) (ata s')"
proof -
  let ?step = "set_controller (\<lambda>c. c\<lparr>buffer := put_buffer (2 * k) [bytes ! (2 * k), bytes ! (2 * k + 1)] (buffer c),
     buffer_index := 2 * k + 2\<rparr>) (ata s)"
  have st: "writing sector bytes (k + 1) (drive_at n ?step)" "same_image (ata s) ?step" "idle_drive (drive_at n ?step)"
     "drive_select ?step = n"
    using assms by (auto simp: writing_def Let_def same_image_def idle_drive_def put_buffer_def less_Suc_eq nth_Cons')
  define ch where "ch = (if 512 \<le> 2 * k + 2 then buffer_was_written ?step else ?step)"
  have "data_write 2 (ucast v) (ata s) = Some ch"
    using assms by (auto simp: ch_def data_write_def Let_def selected_controller_def selected_def writing_def write_commands_def
      bytes_of_word upd_controller_def intro!: arg_cong [where f = buffer_was_written] upd_selected_cong)
  then have "out16 0x1F0 v s = Inr (s\<lparr>ata := ch\<rparr>)"
    by (simp add: out16_def drive_out_def hd_write_def ata_port_def)
  moreover have "k < 255 \<Longrightarrow> ch = ?step" by (simp add: ch_def)
  moreover {
    assume k: "k = 255"
    then have "writing sector bytes 256 (selected ?step)" "sector < hd_size (hdimg (selected ?step)) div 512"
      using st(1,2,4) assms(5) by (simp_all add: selected_def same_image_def)
    note w = buffer_was_written_sector [OF this assms(6) st(4)]
    have "written n sector bytes (ata s) ch" "drive_select ch = n"
      using w st(2) k by (simp_all add: ch_def written_def same_image_def)
    moreover have "idle_drive (drive_at n ch)"
      using calculation(1) w(3) assms(2,5,6) sector_in_image k
      by (simp add: idle_drive_def written_def Let_def image_write_length ch_def)
    moreover note calculation }
  ultimately show ?thesis
    using st assms(4) by (cases "k = 255"; intro that [of "s\<lparr>ata := ch\<rparr>"]) auto
qed

lemma written_same_image:
  "same_image ch ch1 \<Longrightarrow> written n sector bytes ch1 ch2 \<Longrightarrow> written n sector bytes ch ch2"
  "written n sector bytes ch ch1 \<Longrightarrow> same_image ch1 ch2 \<Longrightarrow> written n sector bytes ch ch2"
  by (simp_all add: written_def same_image_def)

lemma write_data_block:
  assumes "writing sector (get_block (mem s) buf) k (drive_at n (ata s))" "idle_drive (drive_at n (ata s))"
    "drive_select (ata s) = n" "sector < hd_size (hdimg (drive_at n (ata s))) div 512" "k + m = 256" "0 < m"
  shows "\<exists>s'. write_data m k buf s = Inr s' \<and> mem s' = mem s \<and> trace s' = trace s \<and>
     written n sector (get_block (mem s) buf) (ata s) (ata s') \<and> idle_drive (drive_at n (ata s'))"
  using assms
proof (induction m arbitrary: k s)
  case 0 then show ?case by simp
next
  case (Suc m)
  let ?bytes = "get_block (mem s) buf"
  let ?v = "ucast (mem s (buf + 2 * of_nat k)) OR push_bit 8 (ucast (mem s (buf + 2 * of_nat k + 1))) :: u16"
  have k: "k < 256" and len: "length ?bytes = 512" using Suc.prems by (simp_all add: get_block_def)
  have v: "?v = word_of_bytes (?bytes ! (2 * k)) (?bytes ! (2 * k + 1))"
    using k by (simp add: word_of_bytes_def get_block_def algebra_simps)
  obtain s1 where s1: "out16 0x1F0 ?v s = Inr s1" "mem s1 = mem s" "trace s1 = trace s" "drive_select (ata s1) = n"
      "idle_drive (drive_at n (ata s1))"
      "k + 1 < 256 \<Longrightarrow> same_image (ata s) (ata s1) \<and> writing sector ?bytes (k + 1) (drive_at n (ata s1))"
      "k = 255 \<Longrightarrow> written n sector ?bytes (ata s) (ata s1)"
    using out16_writing [OF Suc.prems(1-3) k Suc.prems(4) len v] by blast
  have step: "write_data (Suc m) k buf s = write_data m (k + 1) buf s1"
    using s1(1) by simp
  show ?case
  proof (cases m)
    case 0
    then show ?thesis using step s1 Suc.prems(5) by simp
  next
    case (Suc m')
    then have k1: "k + 1 < 256" using Suc.prems by simp
    moreover have "sector < hd_size (hdimg (drive_at n (ata s1))) div 512"
      using s1(6) [OF k1] Suc.prems(4) by (simp add: same_image_def)
    ultimately obtain s' where "write_data m (k + 1) buf s1 = Inr s'" "mem s' = mem s1" "trace s' = trace s1"
        "written n sector ?bytes (ata s1) (ata s')" "idle_drive (drive_at n (ata s'))"
      using Suc.IH [of s1 "k + 1"] s1(2,4-6) Suc.prems(5) Suc by auto
    then show ?thesis using step s1(2,3) s1(6) [OF k1] written_same_image by metis
  qed
qed

section \<open>Whole operations\<close>

definition block_in_range :: "SimpleDisk \<Rightarrow> u32 \<Rightarrow> channel_t \<Rightarrow> bool" where
  "block_in_range d b ch \<longleftrightarrow> unat b < hd_size (hdimg (drive_at (unit_no d) ch)) div 512 \<and> b < 0x10000000"

definition drive_file :: "SimpleDisk \<Rightarrow> channel_t \<Rightarrow> u8 list" where
  "drive_file d ch = image_file (hdimg (drive_at (unit_no d) ch))"

lemma BlockingDisk_read_block:
  assumes "idle_drive (drive_at (unit_no d) (ata s))" "block_in_range d b (ata s)" "fires (disk_id d) turns"
  shows "\<exists>s'. BlockingDisk_read d b buf turns s = Inr s' \<and>
     mem s' = put_block (image_read (unat b) (drive_file d (ata s))) buf (memory_after (disk_id d) turns (mem s)) \<and>
     trace s' = trace s \<and> same_image (ata s) (ata s') \<and> idle_drive (drive_at (unit_no d) (ata s'))"
proof -
  let ?n = "unit_no d" and ?ch = "write_command_register 0x20 (programmed d b (ata s))"
  let ?bytes = "image_read (unat b) (drive_file d (ata s))"
  have r: "unat b < hd_size (hdimg (drive_at ?n (ata s))) div 512" "b < 0x10000000"
    using assms(2) by (simp_all add: block_in_range_def)
  have len: "length ?bytes = 512"
    using sector_in_image [OF r(1)] assms(1) by (simp add: image_read_length drive_file_def idle_drive_def)
  note i = issue_read [OF assms(1) r]
  let ?s1 = "s\<lparr>ata := ?ch\<rparr>"
  have s1: "seeking ?bytes (drive_at ?n (ata ?s1))" "device_type (drive_at ?n (ata ?s1)) = IDE_DISK" "drive_select (ata ?s1) = ?n"
    using i assms(1) by (simp_all add: same_image_def idle_drive_def drive_file_def)
  obtain s2 where s2: "BlockingDisk_wait_until_ready turns ?s1 = Inr s2" "mem s2 = memory_after (disk_id d) turns (mem s)"
      "trace s2 = trace s" "reading ?bytes 0 (drive_at ?n (ata s2))" "same_image ?ch (ata s2)" "drive_select (ata s2) = ?n"
    using wait_until_drive_fires [OF s1 unit_no_def assms(3)] by auto
  have im: "same_image (ata s) (ata s2)" using i(2) s2(5) by (rule same_image_trans)
  then have "idle_drive (drive_at ?n (ata s2))"
    using assms(1) s2(4) by (simp add: idle_drive_def same_image_def reading_def Let_def)
  then obtain s3 where "read_data 256 0 buf s2 = Inr s3" "trace s3 = trace s2" "same_image (ata s2) (ata s3)"
      "idle_drive (drive_at ?n (ata s3))" "mem s3 = put_block ?bytes buf (mem s2)"
    using read_data_block [OF s2(4) _ s2(6) len, of 256 buf] len by (auto simp: put_block_def fun_eq_iff)
  then show ?thesis
    using s2 im by (auto simp: BlockingDisk_read_def issue_operation_eq command_code_def same_image_def)
qed

lemma BlockingDisk_write_block:
  assumes "idle_drive (drive_at (unit_no d) (ata s))" "block_in_range d b (ata s)"
  shows "\<exists>s'. BlockingDisk_write d b buf turns s = Inr s' \<and> mem s' = mem s \<and> trace s' = trace s \<and>
     written (unit_no d) (unat b) (get_block (mem s) buf) (ata s) (ata s') \<and> idle_drive (drive_at (unit_no d) (ata s'))"
proof -
  let ?n = "unit_no d" and ?ch = "write_command_register 0x30 (programmed d b (ata s))"
  let ?bytes = "get_block (mem s) buf"
  have r: "unat b < hd_size (hdimg (drive_at ?n (ata s))) div 512" "b < 0x10000000"
    using assms(2) by (simp_all add: block_in_range_def)
  note i = issue_write(1,2) [OF assms(1) r] issue_write(3) [OF assms(1) r, where bytes = ?bytes]
  let ?s1 = "s\<lparr>ata := ?ch\<rparr>"
  have hd: "device_type (drive_at ?n (ata ?s1)) = IDE_DISK" "drive_select (ata ?s1) = ?n"
      "drq (status (controller (drive_at ?n (ata ?s1))))"
    using i assms(1) by (simp_all add: same_image_def idle_drive_def writing_def Let_def)
  obtain s2 where s2: "is_ready ?s1 = Inr (drq (status (controller (drive_at ?n (ata ?s1)))), s2)" "mem s2 = mem ?s1"
      "trace s2 = trace ?s1" "drive_select (ata s2) = ?n" "same_image (ata ?s1) (ata s2)"
      "drive_at ?n (ata s2) = upd_controller (upd_status pulse) (drive_at ?n (ata ?s1))"
    using is_ready_disk [OF hd(1,2)] by blast
  have w: "BlockingDisk_wait_until_ready turns ?s1 = Inr s2"
    using s2(1) hd(3) by (subst BlockingDisk_wait_until_ready.simps) simp
  have im: "same_image (ata s) (ata s2)" using i(2) s2(5) by (simp add: same_image_def)
  have "writing (unat b) (get_block (mem s2) buf) 0 (drive_at ?n (ata s2))" using i(3) s2(2,6) by simp
  moreover have "idle_drive (drive_at ?n (ata s2))"
    using calculation im assms(1) by (simp add: idle_drive_def same_image_def writing_def Let_def)
  moreover have "drive_select (ata s2) = ?n" "unat b < hd_size (hdimg (drive_at ?n (ata s2))) div 512"
    using s2(4) i(1) im r(1) by (simp_all add: same_image_def)
  ultimately obtain s3 where "write_data 256 0 buf s2 = Inr s3" "mem s3 = mem s2" "trace s3 = trace s2"
      "written ?n (unat b) (get_block (mem s2) buf) (ata s2) (ata s3)" "idle_drive (drive_at ?n (ata s3))"
    using write_data_block [where m = 256 and k = 0] by fastforce
  then show ?thesis
    using w s2 im written_same_image(1) by (auto simp: BlockingDisk_write_def issue_operation_eq command_code_def)
qed
end
