(* ===== verification/DiskProperties.thy ===== *)
theory DiskProperties
  imports Disks
begin

text \<open>
  The kernel's blocking disk seen from its threads: a sequence of reads and writes of one thread implements a map from
  block numbers to blocks, and what happens when two threads use the disk at once.
\<close>

section \<open>A disk as a map of blocks\<close>

definition block_map :: "SimpleDisk \<Rightarrow> channel_t \<Rightarrow> nat \<Rightarrow> u8 list" where
  "block_map d ch b = image_read b (drive_file d ch)"

datatype request = Read_Block u32 u32 "turn list" | Write_Block u32 u32 "turn list"

fun run_requests :: "SimpleDisk \<Rightarrow> request list \<Rightarrow> 'a disk_machine_scheme \<Rightarrow> 'a disk_machine_scheme result" where
  "run_requests d [] s = Inr s"
| "run_requests d (Read_Block b buf turns # rs) s = andthen (BlockingDisk_read d b buf turns s) (run_requests d rs)"
| "run_requests d (Write_Block b buf turns # rs) s = andthen (BlockingDisk_write d b buf turns s) (run_requests d rs)"

text \<open>The specification: memory and the blocks. A write finds the drive ready and never gives up the CPU.\<close>

fun disk_spec :: "DISK_ID \<Rightarrow> request list \<Rightarrow> memory \<times> (nat \<Rightarrow> u8 list) \<Rightarrow> memory \<times> (nat \<Rightarrow> u8 list)" where
  "disk_spec did [] st = st"
| "disk_spec did (Read_Block b buf turns # rs) (m, blocks) =
     disk_spec did rs (put_block (blocks (unat b)) buf (memory_after did turns m), blocks)"
| "disk_spec did (Write_Block b buf turns # rs) (m, blocks) = disk_spec did rs (m, blocks(unat b := get_block m buf))"

text \<open>A request for a block of the disk; the drive's timer fires while a reader waits.\<close>

fun servable :: "SimpleDisk \<Rightarrow> channel_t \<Rightarrow> request \<Rightarrow> bool" where
  "servable d ch (Read_Block b buf turns) \<longleftrightarrow> block_in_range d b ch \<and> fires (disk_id d) turns"
| "servable d ch (Write_Block b buf turns) \<longleftrightarrow> block_in_range d b ch"

lemma image_read_write:
  assumes "sector * 512 + 512 \<le> length f" "length bytes = 512"
  shows "image_read b (image_write sector bytes f) = (if b = sector then bytes else image_read b f)"
proof (cases "b = sector")
  case True
  then show ?thesis using assms by (simp add: image_read_def image_write_def)
next
  case False
  have w: "image_write sector bytes f ! i = (if sector * 512 \<le> i \<and> i < sector * 512 + 512 then bytes ! (i - sector * 512) else f ! i)"
    if "i < length f" for i
    using assms that by (auto simp: image_write_def nth_append)
  have "image_read b (image_write sector bytes f) = image_read b f"
  proof (rule nth_equalityI)
    show "length (image_read b (image_write sector bytes f)) = length (image_read b f)"
      using assms by (simp add: image_read_def image_write_length)
  next
    fix i assume "i < length (image_read b (image_write sector bytes f))"
    then have i: "i < 512" "b * 512 + i < length f"
      using assms by (simp_all add: image_read_def image_write_length less_diff_conv add.commute)
    then have "\<not> (sector * 512 \<le> b * 512 + i \<and> b * 512 + i < sector * 512 + 512)"
      using False by (cases "b < sector") linarith+
    then have "image_write sector bytes f ! (b * 512 + i) = f ! (b * 512 + i)" using w [OF i(2)] by auto
    then show "image_read b (image_write sector bytes f) ! i = image_read b f ! i"
      using i assms by (simp add: image_read_def image_write_length)
  qed
  then show ?thesis using False by simp
qed

lemma blocks_of_same_image: "same_image ch ch' \<Longrightarrow> block_map d ch' = block_map d ch \<and> block_in_range d b ch' = block_in_range d b ch"
  by (simp add: same_image_def block_map_def drive_file_def block_in_range_def fun_eq_iff)

lemma blocks_of_written:
  assumes "written (unit_no d) (unat b) bytes ch ch'" "block_in_range d b ch" "idle_drive (drive_at (unit_no d) ch)" "length bytes = 512"
  shows "block_map d ch' = (block_map d ch)(unat b := bytes)" "block_in_range d c ch' = block_in_range d c ch"
proof -
  have "unat b * 512 + 512 \<le> length (drive_file d ch)"
    using assms(2,3) sector_in_image by (simp add: block_in_range_def idle_drive_def drive_file_def)
  then show "block_map d ch' = (block_map d ch)(unat b := bytes)"
    using assms(1,4) image_read_write by (simp add: block_map_def drive_file_def written_def Let_def fun_eq_iff)
  show "block_in_range d c ch' = block_in_range d c ch"
    using assms(1) by (simp add: block_in_range_def written_def Let_def)
qed

lemma servable_cong: "(\<And>b. block_in_range d b ch' = block_in_range d b ch) \<Longrightarrow> servable d ch' r = servable d ch r"
  by (cases r) simp_all

text \<open>The image of the other drive of the channel.\<close>

definition other_drive :: "SimpleDisk \<Rightarrow> channel_t \<Rightarrow> hdimage" where
  "other_drive d ch = hdimg (drive_at (1 - unit_no d) ch)"

lemma other_drive_kept: "same_image ch ch' \<or> written (unit_no d) b bytes ch ch' \<Longrightarrow> other_drive d ch' = other_drive d ch"
  by (cases "disk_id d") (auto simp: other_drive_def same_image_def written_def unit_no_def id_no_def Let_def)

text \<open>C4: BlockingDisk on the emulated drive implements a map from block numbers to blocks: any sequence of reads and
  writes of blocks of the disk, whatever the other threads do to memory while the reader waits for the drive's seek timer,
  leaves in memory and on the disk what the map's operations leave, touches neither the other drive nor the console, and
  leaves the drive ready for the next request.\<close>

theorem blocking_disk_refines_block_map:
  assumes "idle_drive (drive_at (unit_no d) (ata s))" "\<forall>r \<in> set rs. servable d (ata s) r"
  shows "\<exists>s'. run_requests d rs s = Inr s' \<and>
     (mem s', block_map d (ata s')) = disk_spec (disk_id d) rs (mem s, block_map d (ata s)) \<and>
     trace s' = trace s \<and> other_drive d (ata s') = other_drive d (ata s) \<and> idle_drive (drive_at (unit_no d) (ata s'))"
  using assms
proof (induction rs arbitrary: s)
  case Nil then show ?case by simp
next
  case (Cons r rs)
  show ?case
  proof (cases r)
    case (Read_Block b buf turns)
    then have "block_in_range d b (ata s)" "fires (disk_id d) turns" using Cons.prems(2) by simp_all
    then obtain s1 where s1: "BlockingDisk_read d b buf turns s = Inr s1"
        "mem s1 = put_block (block_map d (ata s) (unat b)) buf (memory_after (disk_id d) turns (mem s))" "trace s1 = trace s"
        "same_image (ata s) (ata s1)" "idle_drive (drive_at (unit_no d) (ata s1))"
      using BlockingDisk_read_block [OF Cons.prems(1)] unfolding block_map_def by blast
    have b: "block_map d (ata s1) = block_map d (ata s)" "\<And>r. servable d (ata s1) r = servable d (ata s) r"
      using blocks_of_same_image [OF s1(4)] servable_cong by blast+
    have "\<forall>r \<in> set rs. servable d (ata s1) r" using Cons.prems(2) b(2) by simp
    then obtain s' where s': "run_requests d rs s1 = Inr s'"
        "(mem s', block_map d (ata s')) = disk_spec (disk_id d) rs (mem s1, block_map d (ata s1))" "trace s' = trace s1"
        "other_drive d (ata s') = other_drive d (ata s1)" "idle_drive (drive_at (unit_no d) (ata s'))"
      using Cons.IH [OF s1(5)] by blast
    have "other_drive d (ata s1) = other_drive d (ata s)" by (rule other_drive_kept) (use s1(4) in blast)
    then show ?thesis
      using s' s1(1-3) b(1) Read_Block by (intro exI [of _ s']) simp
  next
    case (Write_Block b buf turns)
    then have "block_in_range d b (ata s)" using Cons.prems(2) by simp
    then obtain s1 where s1: "BlockingDisk_write d b buf turns s = Inr s1" "mem s1 = mem s" "trace s1 = trace s"
        "written (unit_no d) (unat b) (get_block (mem s) buf) (ata s) (ata s1)" "idle_drive (drive_at (unit_no d) (ata s1))"
      using BlockingDisk_write_block [OF Cons.prems(1)] by blast
    have w: "block_map d (ata s1) = (block_map d (ata s))(unat b := get_block (mem s) buf)"
        "\<And>c. block_in_range d c (ata s1) = block_in_range d c (ata s)"
      using blocks_of_written [OF s1(4) _ Cons.prems(1)] Cons.prems(2) Write_Block by (simp_all add: get_block_def)
    have "\<forall>r \<in> set rs. servable d (ata s1) r" using Cons.prems(2) servable_cong [OF w(2)] by simp
    then obtain s' where s': "run_requests d rs s1 = Inr s'"
        "(mem s', block_map d (ata s')) = disk_spec (disk_id d) rs (mem s1, block_map d (ata s1))" "trace s' = trace s1"
        "other_drive d (ata s') = other_drive d (ata s1)" "idle_drive (drive_at (unit_no d) (ata s'))"
      using Cons.IH [OF s1(5)] by blast
    have "other_drive d (ata s1) = other_drive d (ata s)" by (rule other_drive_kept) (use s1(4) in blast)
    then show ?thesis
      using s' s1(1-3) w(1) Write_Block by (intro exI [of _ s']) simp
  qed
qed

section \<open>A channel with two small disks\<close>

definition demo_drive :: drive_t where
  "demo_drive = \<lparr>device_type = IDE_DISK, id_drive = [], identify_set = False, controller = controller_init,
     hdimg = \<lparr>cylinders = 1, heads = 1, spt = 2, hd_size = 1024, image_file = replicate 1024 7\<rparr>, curr_lsector = 0,
     next_lsector = 0, model_no = replicate 40 0x20, seek_timer_active = False\<rparr>"

definition demo_channel :: channel_t where
  "demo_channel = \<lparr>drive0 = demo_drive, drive1 = demo_drive, drive_select = 1, ata_irq = 14, board = pic_init,
     bmdma_present = False, bmdma_starts = 0\<rparr>"

lemma demo_idle: "idle_drive (drive_at n demo_channel)"
  by (simp add: idle_drive_def drive_at_def demo_channel_def demo_drive_def controller_init_def)

lemma demo_range: "b < 2 \<Longrightarrow> block_in_range d b demo_channel"
  by (simp add: block_in_range_def drive_at_def demo_channel_def demo_drive_def word_less_nat_alt)

theorem blocking_disk_refines_block_map_witness:
  "\<exists>s'. run_requests (construct_SimpleDisk SLAVE 1024)
       [Write_Block 1 0x5000 [], Read_Block 1 0x6000 [(\<lambda>m. m, None), (\<lambda>m. m, Some SLAVE)]]
       \<lparr>mem = (\<lambda>a. ucast a), trace = [], ata = demo_channel\<rparr> = Inr s' \<and>
     mem s' = put_block (get_block (\<lambda>a. ucast a) 0x5000) 0x6000 (\<lambda>a. ucast a)"
proof -
  let ?d = "construct_SimpleDisk SLAVE 1024"
  let ?rs = "[Write_Block 1 0x5000 [], Read_Block 1 0x6000 [(\<lambda>m. m, None), (\<lambda>m. m, Some SLAVE)]]"
  have "\<forall>r \<in> set ?rs. servable ?d demo_channel r"
    using demo_range [of 1] by (simp add: fires_def construct_SimpleDisk_def)
  then show ?thesis
    using blocking_disk_refines_block_map [of ?d "\<lparr>mem = (\<lambda>a. ucast a), trace = [], ata = demo_channel\<rparr>" ?rs] demo_idle
    by (auto simp: construct_SimpleDisk_def)
qed

section \<open>Two threads\<close>

lemma issue_while_seeking:
  fixes d ch b v
  defines "n \<equiv> unit_no d" and "ch' \<equiv> write_command_register v (programmed d b ch)"
  assumes "seeking bytes (drive_at n ch)" "device_type (drive_at n ch) = IDE_DISK"
  shows "drive_select ch' = n" "same_image ch ch'" "seeking bytes (drive_at n ch')"
proof -
  let ?p = "programmed d b ch"
  have "device_type (drive_at n ?p) = IDE_DISK" "busy (status (controller (drive_at n ?p)))"
    using assms(3,4) by (simp_all add: programmed_simps n_def seeking_def Let_def)
  then have "ch' = ?p\<lparr>board := lower_irq (ata_irq ?p) (board ?p)\<rparr>"
    by (cases "disk_id d") (simp_all add: ch'_def write_command_register_def programmed_simps n_def unit_no_def id_no_def
        drive_at_def selected_controller_def selected_def Let_def)
  moreover have "current_command (registers b c) = current_command c" "num_sectors (registers b c) = num_sectors c"
      "buffer_size (registers b c) = buffer_size c" for c
    by (simp_all add: registers_def write_cylinder_high_def write_cylinder_low_def write_sector_number_def
      write_sector_count_def write_features_def)
  ultimately show "drive_select ch' = n" "same_image ch ch'" "seeking bytes (drive_at n ch')"
    using assms(3) by (simp_all add: programmed_simps n_def same_image_def seeking_def Let_def)
qed

lemma never_ready:
  assumes "at_rest (drive_at n (ata s))" "device_type (drive_at n (ata s)) = IDE_DISK" "drive_select (ata s) = n" "n = id_no did"
  shows "BlockingDisk_wait_until_ready turns s = Inl Not_Resumed"
  using assms
proof (induction turns arbitrary: s)
  case Nil
  then obtain s1 where "is_ready s = Inr (drq (status (controller (drive_at n (ata s)))), s1)"
    using is_ready_disk by metis
  then show ?case using Nil by (subst BlockingDisk_wait_until_ready.simps) (simp add: at_rest_def)
next
  case (Cons t ts)
  obtain s1 where s1: "is_ready s = Inr (drq (status (controller (drive_at n (ata s)))), s1)"
      "drive_select (ata s1) = n" "same_image (ata s) (ata s1)"
      "drive_at n (ata s1) = upd_controller (upd_status pulse) (drive_at n (ata s))"
    using is_ready_disk [OF Cons.prems(2,3)] by blast
  have rest: "at_rest (drive_at n (ata s1))" "device_type (drive_at n (ata s1)) = IDE_DISK"
    using Cons.prems s1(4) by (simp_all add: at_rest_def)
  have "at_rest (drive_at n (ata (take_turn t s1))) \<and> same_image (ata s1) (ata (take_turn t s1)) \<and>
      drive_select (ata (take_turn t s1)) = n"
  proof (cases "snd t = None \<or> snd t = Some did")
    case True
    then have "ata (take_turn t s1) = ata s1"
      using rest(1) Cons.prems(4) by (auto simp: take_turn_def at_rest_def)
    then show ?thesis using rest s1(2) by (simp add: same_image_def)
  next
    case False
    then obtain other where o: "snd t = Some other" "other \<noteq> did" by auto
    then have "n = 0 \<longleftrightarrow> id_no other \<noteq> 0" using Cons.prems(4) by (cases other; cases did; simp add: id_no_def)
    then have "at_rest (drive_at n (seek_timer (id_no other) (ata s1)))"
      using rest(1) seek_timer_other unfolding at_rest_def by metis
    moreover have "ata (take_turn t s1) = ata s1 \<or> ata (take_turn t s1) = seek_timer (id_no other) (ata s1)"
      using o by (simp add: take_turn_def)
    moreover have "same_image (ata s1) (ata s1)" by (simp add: same_image_def)
    ultimately show ?thesis
      by (elim disjE) (simp_all only: rest s1(2) seek_timer_keeps simp_thms)
  qed
  then have "BlockingDisk_wait_until_ready ts (take_turn t s1) = Inl Not_Resumed"
    using Cons.IH Cons.prems(4) rest(2) by (simp add: same_image_def)
  then show ?case
    using s1(1) Cons.prems(1) by (subst BlockingDisk_wait_until_ready.simps) (simp add: at_rest_def)
qed

text \<open>C38: BlockingDisk does not keep threads apart. A thread that asks for block \<open>c\<close> while another waits for block \<open>b\<close>
  is ignored by the busy drive; if it runs first when the timer fires it takes block \<open>b\<close> for its own, and the thread that
  asked for \<open>b\<close> then waits forever, however often it is scheduled.\<close>

theorem overlapping_reads_cross:
  assumes "idle_drive (drive_at (unit_no d) (ata s))" "block_in_range d b (ata s)"
  shows "\<exists>s1 s2 s3 s4. issue_operation d READ b s = Inr s1 \<and> issue_operation d READ c s1 = Inr s2 \<and>
     BlockingDisk_wait_until_ready [] (take_turn (\<lambda>m. m, Some (disk_id d)) s2) = Inr s3 \<and> read_data 256 0 buf s3 = Inr s4 \<and>
     mem s4 = put_block (block_map d (ata s) (unat b)) buf (mem s) \<and>
     (\<forall>turns. BlockingDisk_wait_until_ready turns s4 = Inl Not_Resumed)"
proof -
  let ?n = "unit_no d" and ?bytes = "block_map d (ata s) (unat b)"
  have r: "unat b < hd_size (hdimg (drive_at ?n (ata s))) div 512" "b < 0x10000000"
    using assms(2) by (simp_all add: block_in_range_def)
  have len: "length ?bytes = 512"
    using sector_in_image [OF r(1)] assms(1) by (simp add: image_read_length block_map_def drive_file_def idle_drive_def)
  obtain s1 where s1: "issue_operation d READ b s = Inr s1" "mem s1 = mem s" "same_image (ata s) (ata s1)"
      "seeking ?bytes (drive_at ?n (ata s1))"
    using issue_read [OF assms(1) r] by (simp add: issue_operation_eq command_code_def block_map_def drive_file_def)
  then have hd: "device_type (drive_at ?n (ata s1)) = IDE_DISK" using assms(1) by (simp add: same_image_def idle_drive_def)
  obtain s2 where s2: "issue_operation d READ c s1 = Inr s2" "mem s2 = mem s" "same_image (ata s1) (ata s2)"
      "seeking ?bytes (drive_at ?n (ata s2))" "drive_select (ata s2) = ?n"
    using issue_while_seeking [OF s1(4) hd] s1(2) by (simp add: issue_operation_eq command_code_def)
  have hd2: "device_type (drive_at ?n (ata s2)) = IDE_DISK" using hd s2(3) by (simp add: same_image_def)
  let ?t = "take_turn (\<lambda>m. m, Some (disk_id d)) s2"
  have t: "ata ?t = seek_timer ?n (ata s2)" "mem ?t = mem s"
    using s2(2,4) by (simp_all add: take_turn_def seeking_def unit_no_def)
  have t': "reading ?bytes 0 (drive_at ?n (ata ?t))" "same_image (ata s2) (ata ?t)" "drive_select (ata ?t) = ?n"
    using seek_timer_fires [OF s2(4) hd2] t(1) s2(5) by simp_all
  then have "device_type (drive_at ?n (ata ?t)) = IDE_DISK" using hd2 by (simp add: same_image_def)
  then obtain s3 where s3: "is_ready ?t = Inr (drq (status (controller (drive_at ?n (ata ?t)))), s3)" "mem s3 = mem ?t"
      "same_image (ata ?t) (ata s3)" "drive_select (ata s3) = ?n"
      "drive_at ?n (ata s3) = upd_controller (upd_status pulse) (drive_at ?n (ata ?t))"
    using is_ready_disk [OF _ t'(3)] by blast
  have ready: "BlockingDisk_wait_until_ready [] ?t = Inr s3"
    using s3(1) t'(1) by (subst BlockingDisk_wait_until_ready.simps) (simp add: reading_def Let_def)
  have rd: "reading ?bytes 0 (drive_at ?n (ata s3))" using s3(5) t'(1) by simp
  moreover have "idle_drive (drive_at ?n (ata s3))"
    using rd assms(1) s1(3) s2(3) t'(2) s3(3) by (simp add: idle_drive_def same_image_def reading_def Let_def)
  ultimately obtain s4 where s4: "read_data 256 0 buf s3 = Inr s4" "mem s4 = put_block ?bytes buf (mem s3)"
      "at_rest (drive_at ?n (ata s4))" "idle_drive (drive_at ?n (ata s4))" "drive_select (ata s4) = ?n"
    using read_data_block [OF _ _ s3(4) len, of 0 256 buf] len by (auto simp: put_block_def fun_eq_iff)
  have "BlockingDisk_wait_until_ready turns s4 = Inl Not_Resumed" for turns
    using never_ready [OF s4(3) _ s4(5), of "disk_id d"] s4(4) by (simp add: idle_drive_def unit_no_def)
  then show ?thesis using s1(1) s2(1) ready s4(1,2) s3(2) t(2) by auto
qed

theorem overlapping_reads_cross_witness:
  "\<exists>s1 s2 s3 s4. issue_operation (construct_SimpleDisk MASTER 1024) READ 0 \<lparr>mem = (\<lambda>_. 0), trace = [], ata = demo_channel\<rparr> = Inr s1 \<and>
     issue_operation (construct_SimpleDisk MASTER 1024) READ 1 s1 = Inr s2 \<and>
     BlockingDisk_wait_until_ready [] (take_turn (\<lambda>m. m, Some MASTER) s2) = Inr s3 \<and> read_data 256 0 0x8000 s3 = Inr s4 \<and>
     (\<forall>turns. BlockingDisk_wait_until_ready turns s4 = Inl Not_Resumed)"
  using overlapping_reads_cross [of "construct_SimpleDisk MASTER 1024" "\<lparr>mem = (\<lambda>_. 0), trace = [], ata = demo_channel\<rparr>" 0 1 "0x8000"]
    demo_idle demo_range [of 0]
  by (simp add: construct_SimpleDisk_def) blast

text \<open>SimpleDisk's \<open>wait_until_ready\<close> asserts false where its loop should wait, so that a read of the emulated drive,
  which seeks before it has data, always stops the kernel.\<close>

lemma SimpleDisk_read_asserts:
  assumes "idle_drive (drive_at (unit_no d) (ata s))" "block_in_range d b (ata s)"
  shows "SimpleDisk_read d b buf s = Inl Assertion_Failed"
proof -
  let ?s1 = "s\<lparr>ata := write_command_register 0x20 (programmed d b (ata s))\<rparr>"
  have i: "drive_select (ata ?s1) = unit_no d" "same_image (ata s) (ata ?s1)"
     "seeking (block_map d (ata s) (unat b)) (drive_at (unit_no d) (ata ?s1))"
    using issue_read [OF assms(1)] assms(2) by (simp_all add: block_in_range_def block_map_def drive_file_def)
  then have "device_type (drive_at (unit_no d) (ata ?s1)) = IDE_DISK"
    using assms(1) by (simp add: same_image_def idle_drive_def)
  then obtain s2 where "is_ready ?s1 = Inr (drq (status (controller (drive_at (unit_no d) (ata ?s1)))), s2)"
    using is_ready_disk [OF _ i(1)] by blast
  then show ?thesis
    using i(3) by (simp add: SimpleDisk_read_def issue_operation_eq command_code_def SimpleDisk_wait_until_ready_def seeking_def Let_def)
qed

end
