(* ===== verification/DriveInvariant.thy ===== *)
theory DriveInvariant
  imports DiskProperties
begin

text \<open>
  The emulated drives stay well formed whatever the guest does with their ports: no transfer leaves the buffer, and the
  image keeps its size.
\<close>

section \<open>Well-formed drives\<close>

text \<open>The buffer holds 16 sectors and four bytes more.\<close>

definition ok_controller :: "controller_t \<Rightarrow> bool" where
  "ok_controller c \<longleftrightarrow> buffer_size c \<le> 16 * 512 \<and> multiple_sectors c \<le> 16 \<and>
     (current_command c = 0xEC \<and> drq (status c) \<longrightarrow> buffer_index c < 512)"

definition ok_drive :: "drive_t \<Rightarrow> bool" where
  "ok_drive d \<longleftrightarrow> ok_controller (controller d) \<and> length (image_file (hdimg d)) = hd_size (hdimg d)"

definition ok_channel :: "channel_t \<Rightarrow> bool" where
  "ok_channel ch \<longleftrightarrow> (\<forall>n. ok_drive (drive_at n ch))"

lemma multiple_sectors_status [simp]: "multiple_sectors (upd_status f c) = multiple_sectors c"
  by (simp add: upd_status_def)

named_theorems ok_rules "operations that keep a channel well formed"

lemma ok_if: "(c \<Longrightarrow> ok_channel a) \<Longrightarrow> (\<not> c \<Longrightarrow> ok_channel b) \<Longrightarrow> ok_channel (if c then a else b)"
  by simp

lemma ok_selected: "ok_channel ch \<Longrightarrow> ok_drive (selected ch)"
  by (simp add: ok_channel_def selected_def)

lemma ok_upd_drive [ok_rules]:
  "ok_channel ch \<Longrightarrow> (\<And>d. ok_drive d \<Longrightarrow> ok_drive (f d)) \<Longrightarrow> ok_channel (upd_drive n f ch)"
  by (simp add: ok_channel_def)

lemma ok_upd_selected [ok_rules]:
  "ok_channel ch \<Longrightarrow> (\<And>d. ok_drive d \<Longrightarrow> ok_drive (f d)) \<Longrightarrow> ok_channel (upd_selected f ch)"
  by (simp add: upd_selected_def ok_upd_drive)

lemma ok_both [ok_rules]:
  "ok_channel ch \<Longrightarrow> (\<And>c. ok_controller c \<Longrightarrow> ok_controller (f c)) \<Longrightarrow> ok_channel (both f ch)"
  by (simp add: ok_channel_def ok_drive_def)

lemma ok_fields [ok_rules]:
  "ok_channel ch \<Longrightarrow> ok_channel (ch\<lparr>board := b\<rparr>)" "ok_channel ch \<Longrightarrow> ok_channel (ch\<lparr>drive_select := n\<rparr>)"
  "ok_channel ch \<Longrightarrow> ok_channel (ch\<lparr>bmdma_starts := k\<rparr>)"
  by (simp_all add: ok_channel_def)

lemma ok_upd_controller [ok_rules]:
  "ok_drive d \<Longrightarrow> (\<And>c. ok_controller c \<Longrightarrow> ok_controller (f c)) \<Longrightarrow> ok_drive (upd_controller f d)"
  by (simp add: ok_drive_def)

lemma ok_drive_fields [ok_rules]:
  "ok_drive d \<Longrightarrow> ok_drive (d\<lparr>next_lsector := n\<rparr>)" "ok_drive d \<Longrightarrow> ok_drive (d\<lparr>curr_lsector := n\<rparr>)"
  "ok_drive d \<Longrightarrow> ok_drive (d\<lparr>seek_timer_active := b\<rparr>)" "ok_drive d \<Longrightarrow> ok_drive (d\<lparr>id_drive := ws\<rparr>)"
  "ok_drive d \<Longrightarrow> ok_drive (d\<lparr>identify_set := b\<rparr>)"
  by (simp_all add: ok_drive_def)

section \<open>The operations\<close>

declare read_sectors.simps [simp del] write_sectors.simps [simp del]

lemma ok_raise [ok_rules]: "ok_channel ch \<Longrightarrow> ok_channel (raise_interrupt ch)"
  by (simp add: ok_channel_def)

lemma ok_aborted [ok_rules]: "ok_channel ch \<Longrightarrow> ok_channel (command_aborted ch)"
  by (auto simp: command_aborted_def ok_controller_def intro!: ok_rules)

lemma ok_increment [ok_rules]: "ok_channel ch \<Longrightarrow> ok_channel (snd (increment_address k ch))"
  by (auto simp: increment_address_def Let_def ok_controller_def put_sector28_def put_sector48_def next_chs_def intro!: ok_rules)

lemma ok_signature [ok_rules]: "ok_channel ch \<Longrightarrow> ok_channel (set_signature n ch)"
  by (auto simp: set_signature_def Let_def ok_controller_def intro!: ok_rules)

lemma block_size_bound: "multiple_sectors c \<le> 16 \<Longrightarrow> block_size c \<le> 16 * 512"
proof -
  assume m: "multiple_sectors c \<le> 16"
  then have "unat (multiple_sectors c) \<le> 16" by (simp add: word_le_nat_alt)
  moreover from this have "unat (ucast (multiple_sectors c) :: u32) = unat (multiple_sectors c)"
    by (simp add: unsigned_ucast_eq take_bit_nat_eq_self)
  then have "\<not> ucast (multiple_sectors c) < num_sectors c \<Longrightarrow> unat (num_sectors c) \<le> unat (multiple_sectors c)"
    by (simp add: word_less_nat_alt)
  ultimately show ?thesis by (auto simp: block_size_def)
qed

lemma ok_read_sectors [ok_rules]: "ok_channel ch \<Longrightarrow> ok_channel (snd (read_sectors n p ch))"
proof (induction n p ch rule: read_sectors.induct)
  case (1 n p ch)
  show ?case
  proof (cases "calculate_logical_address ch")
    case None
    then show ?thesis using 1(2) by (subst read_sectors.simps) (simp add: ok_aborted)
  next
    case (Some sector)
    define bytes where "bytes = image_read sector (image_file (hdimg (selected ch)))"
    define ch1 where "ch1 = set_controller (\<lambda>c. c\<lparr>buffer := put_buffer p bytes (buffer c)\<rparr>) ch"
    have ch1: "ok_channel ch1"
      unfolding ch1_def by (intro ok_upd_selected ok_upd_controller 1(2)) (simp_all add: ok_controller_def)
    obtain j ch2 where ch2: "increment_address sector ch1 = (j, ch2)" by (cases "increment_address sector ch1")
    have "ok_channel ch2" using ok_increment [OF ch1, of sector] ch2 by simp
    then have ch3: "ok_channel (upd_selected (\<lambda>d. d\<lparr>next_lsector := j\<rparr>) ch2)"
      by (intro ok_upd_selected ok_drive_fields)
    show ?thesis
      using Some ch1 ch2 ch3 1(1) [OF Some bytes_def ch1_def _ ch2 [symmetric] refl refl]
      by (subst read_sectors.simps) (auto simp: Let_def ok_aborted bytes_def ch1_def split: nat.splits)
  qed
qed

lemma ok_upd_selected_at:
  assumes "ok_channel ch" "ok_drive (f (selected ch))" shows "ok_channel (upd_selected f ch)"
proof -
  have "n = 0 \<longleftrightarrow> drive_select ch = 0 \<Longrightarrow> drive_at n ch = selected ch" for n
    by (auto simp: drive_at_def selected_def)
  then show ?thesis using assms by (auto simp: ok_channel_def)
qed

lemma ok_upd_drive_at:
  assumes "ok_channel ch" "ok_drive (f (drive_at n ch))" shows "ok_channel (upd_drive n f ch)"
proof -
  have "ok_drive (drive_at m (upd_drive n f ch))" for m
  proof (cases "m = 0 \<longleftrightarrow> n = 0")
    case True
    then have "drive_at m ch = drive_at n ch" by (auto simp: drive_at_def)
    then show ?thesis using True assms(2) by simp
  next
    case False then show ?thesis using assms(1) by (auto simp: ok_channel_def)
  qed
  then show ?thesis by (simp add: ok_channel_def)
qed

lemma calculated_in_image:
  "calculate_logical_address ch = Some sector \<Longrightarrow> sector < hd_size (hdimg (selected ch)) div 512"
  by (auto simp: calculate_logical_address_def Let_def split: if_splits)

lemma ok_write_sectors [ok_rules]: "ok_channel ch \<Longrightarrow> ok_channel (snd (write_sectors n p ch))"
proof (induction n p ch rule: write_sectors.induct)
  case (1 n p ch)
  show ?case
  proof (cases "calculate_logical_address ch")
    case None
    then show ?thesis using 1(2) by (subst write_sectors.simps) (simp add: ok_aborted)
  next
    case (Some sector)
    define bytes where "bytes = get_buffer p (buffer (selected_controller ch))"
    define ch1 where "ch1 = upd_selected (\<lambda>d. d\<lparr>hdimg := (hdimg d)\<lparr>image_file := image_write sector bytes (image_file (hdimg d))\<rparr>\<rparr>) ch"
    have len: "length (image_file (hdimg (selected ch))) = hd_size (hdimg (selected ch))"
      using ok_selected [OF 1(2)] by (simp add: ok_drive_def)
    then have "sector * 512 + 512 \<le> length (image_file (hdimg (selected ch)))"
      using sector_in_image [OF calculated_in_image [OF Some]] by simp
    then have "length (image_write sector bytes (image_file (hdimg (selected ch)))) = hd_size (hdimg (selected ch))"
      using len by (simp add: image_write_length bytes_def get_buffer_def)
    then have ch1: "ok_channel ch1"
      unfolding ch1_def using ok_selected [OF 1(2)] by (intro ok_upd_selected_at 1(2)) (simp add: ok_drive_def)
    obtain j ch2 where ch2: "increment_address sector ch1 = (j, ch2)" by (cases "increment_address sector ch1")
    have "ok_channel ch2" using ok_increment [OF ch1, of sector] ch2 by simp
    then have ch3: "ok_channel (upd_selected (\<lambda>d. d\<lparr>next_lsector := j\<rparr>) ch2)"
      by (intro ok_upd_selected ok_drive_fields)
    show ?thesis
      using Some ch1 ch2 ch3 1(1) [OF Some bytes_def ch1_def ch2 [symmetric] refl]
      by (subst write_sectors.simps) (auto simp: Let_def ok_aborted bytes_def ch1_def split: nat.splits)
  qed
qed

lemma ok_ide [ok_rules]:
  "ok_channel ch \<Longrightarrow> ok_channel (snd (ide_read_sector ch))" "ok_channel ch \<Longrightarrow> ok_channel (snd (ide_write_sector ch))"
  by (simp_all add: ide_read_sector_def ide_write_sector_def ok_rules)

lemma ok_ide_pair:
  "ide_read_sector ch = (b, ch') \<Longrightarrow> ok_channel ch \<Longrightarrow> ok_channel ch'" "ide_write_sector ch = (b, ch') \<Longrightarrow> ok_channel ch \<Longrightarrow> ok_channel ch'"
  using ok_ide [of ch] by simp_all

text \<open>What the assignments to a controller must respect.\<close>

lemma ok_controller_steps [ok_rules]:
  "ok_controller c \<Longrightarrow> ok_controller (lba48_transform ext c)"
  "ok_controller c \<Longrightarrow> ok_controller (c\<lparr>buffer_size := block_size c\<rparr>)"
  "ok_controller c \<Longrightarrow> ok_controller (c\<lparr>error_register := e\<rparr>)"
  "ok_controller c \<Longrightarrow> ok_controller (c\<lparr>buffer_index := 0\<rparr>)"
  "ok_controller c \<Longrightarrow> ok_controller (c\<lparr>buffer := b\<rparr>)"
  "ok_controller c \<Longrightarrow> ok_controller (put_sector28 k c)" "ok_controller c \<Longrightarrow> ok_controller (put_sector48 k c)"
  by (simp_all add: ok_controller_def lba48_transform_def block_size_bound [simplified] put_sector28_def put_sector48_def)

lemma ok_sized: "ok_channel ch \<Longrightarrow> ok_channel (set_controller (\<lambda>c. c\<lparr>buffer_size := (if m then block_size c else 512)\<rparr>)
    (set_controller (lba48_transform ext) ch))"
proof -
  assume "ok_channel ch"
  moreover have "ok_controller c \<Longrightarrow> ok_controller (c\<lparr>buffer_size := (if m then block_size c else 512)\<rparr>)" for c
    by (simp add: ok_controller_def block_size_bound [simplified])
  ultimately show ?thesis by (intro ok_upd_selected ok_upd_controller ok_controller_steps(1))
qed

lemma ok_started:
  assumes "ok_channel ch" "v \<noteq> 0xEC"
  shows "ok_channel (upd_selected (\<lambda>d. d\<lparr>next_lsector := k\<rparr>)
    (set_controller (\<lambda>c. upd_status f (c\<lparr>current_command := v, error_register := 0, buffer_index := 0\<rparr>)) ch))"
  using assms by (intro ok_upd_selected ok_upd_controller ok_drive_fields) (simp_all add: ok_controller_def)

lemma ok_read_command [ok_rules]:
  assumes "v \<noteq> 0xEC" "ok_channel ch" shows "ok_channel (read_command v ext ch)"
proof -
  let ?ch1 = "set_controller (lba48_transform ext) ch"
  let ?ch2 = "set_controller (\<lambda>c. c\<lparr>buffer_size := (if v = 0xC4 \<or> v = 0x29 then block_size c else 512)\<rparr>) ?ch1"
  have ch1: "ok_channel ?ch1" using assms by (intro ok_upd_selected ok_upd_controller ok_controller_steps)
  have ch2: "ok_channel ?ch2" using assms(2) by (rule ok_sized)
  have "ok_channel (case calculate_logical_address ?ch2 of None \<Rightarrow> command_aborted ?ch2
           | Some sector \<Rightarrow>
               let ch3 = start_seek (upd_selected (\<lambda>d. d\<lparr>next_lsector := sector\<rparr>)
                     (set_controller (\<lambda>c. upd_status (\<lambda>st. st\<lparr>busy := True, drive_ready := True, seek_complete := False,
                       drq := False, corrected_data := False\<rparr>)
                       (c\<lparr>current_command := v, error_register := 0, buffer_index := 0\<rparr>)) ?ch2));
                   (ok, ch4) = ide_read_sector ch3
               in if ok then ch4 else command_aborted (upd_selected (\<lambda>d. d\<lparr>seek_timer_active := False\<rparr>) ch4))"
  proof (cases "calculate_logical_address ?ch2")
    case None then show ?thesis using ok_aborted [OF ch2] by (simp only: option.case)
  next
    case (Some sector)
    define ch3 where "ch3 = start_seek (upd_selected (\<lambda>d. d\<lparr>next_lsector := sector\<rparr>)
                     (set_controller (\<lambda>c. upd_status (\<lambda>st. st\<lparr>busy := True, drive_ready := True, seek_complete := False,
                       drq := False, corrected_data := False\<rparr>)
                       (c\<lparr>current_command := v, error_register := 0, buffer_index := 0\<rparr>)) ?ch2))"
    have ch3: "ok_channel ch3"
      unfolding ch3_def start_seek_def using assms(1) by (intro ok_upd_selected [where f = "seek_timer_active_update (\<lambda>_. True)"] ok_started ch2 ok_drive_fields)
    obtain ok ch4 where ch4: "ide_read_sector ch3 = (ok, ch4)" by (cases "ide_read_sector ch3")
    have ch4': "ok_channel ch4" using ok_ide_pair(1) [OF ch4 ch3] .
    have "ok_channel (command_aborted (upd_selected (\<lambda>d. d\<lparr>seek_timer_active := False\<rparr>) ch4))"
      using ch4' by (intro ok_aborted ok_upd_selected ok_drive_fields)
    then show ?thesis
      unfolding Some option.case ch3_def [symmetric] Let_def ch4 prod.case using ch4' by simp
  qed
  then show ?thesis
    using ok_aborted [OF assms(2)] ok_aborted [OF ch1] unfolding read_command_def Let_def
    by (simp del: upd_selected_twice)
qed

lemma ok_write_command [ok_rules]:
  assumes "v \<noteq> 0xEC" "ok_channel ch" shows "ok_channel (write_command v ext ch)"
proof -
  let ?ch1 = "set_controller (lba48_transform ext) ch"
  let ?ch2 = "set_controller (\<lambda>c. c\<lparr>buffer_size := (if v = 0xC5 \<or> v = 0x39 then block_size c else 512)\<rparr>) ?ch1"
  have ch1: "ok_channel ?ch1" using assms by (intro ok_upd_selected ok_upd_controller ok_controller_steps)
  have ch2: "ok_channel ?ch2" using assms(2) by (rule ok_sized)
  have "ok_channel (case calculate_logical_address ?ch2 of None \<Rightarrow> command_aborted ?ch2
           | Some sector \<Rightarrow>
               upd_selected (\<lambda>d. d\<lparr>next_lsector := sector\<rparr>)
                 (set_controller (\<lambda>c. upd_status (\<lambda>st. st\<lparr>busy := False, seek_complete := True, drq := True\<rparr>)
                   (c\<lparr>current_command := v, error_register := 0, buffer_index := 0\<rparr>)) ?ch2))"
    using ok_aborted [OF ch2] ok_started [OF ch2 assms(1)] by (cases "calculate_logical_address ?ch2") (simp_all only: option.case)
  then show ?thesis
    using ok_aborted [OF assms(2)] ok_aborted [OF ch1] unfolding write_command_def Let_def
    by (simp del: upd_selected_twice)
qed

text \<open>A change of the status that sets no data request, and the assignments around it.\<close>

lemma ok_no_data:
  assumes "ok_controller c" "\<And>st. drq (f st) \<Longrightarrow> drq st" shows "ok_controller (upd_status f c)"
  using assms by (auto simp: ok_controller_def)

lemma ok_assignments [ok_rules]:
  "ok_controller c \<Longrightarrow> ok_controller (c\<lparr>cylinder_no := x\<rparr>)" "ok_controller c \<Longrightarrow> ok_controller (c\<lparr>sector_count := n\<rparr>)"
  "ok_controller c \<Longrightarrow> ok_controller (c\<lparr>mdma_mode := m, udma_mode := u\<rparr>)" "n \<le> 16 \<Longrightarrow> ok_controller c \<Longrightarrow> ok_controller (c\<lparr>multiple_sectors := n\<rparr>)"
  by (simp_all add: ok_controller_def)

lemma ok_command_done [ok_rules]: "ok_channel ch \<Longrightarrow> ok_channel (command_done b ch)"
  unfolding command_done_def by (intro ok_raise ok_upd_selected ok_upd_controller ok_no_data) simp_all

lemma ok_ready_and_sought [ok_rules]: "ok_channel ch \<Longrightarrow> ok_channel (ready_and_sought ch)"
  unfolding ready_and_sought_def by (intro ok_raise ok_upd_selected ok_upd_controller ok_no_data) simp_all

lemma ok_calibrate [ok_rules]: "ok_channel ch \<Longrightarrow> ok_channel (calibrate ch)"
  unfolding calibrate_def
  by (auto intro!: ok_aborted ok_raise ok_upd_selected ok_upd_controller ok_no_data simp: ok_controller_def)

lemma ok_diagnose [ok_rules]: "ok_channel ch \<Longrightarrow> ok_channel (diagnose ch)"
  unfolding diagnose_def
  by (intro ok_raise ok_upd_drive ok_signature ok_upd_controller ok_no_data ok_controller_steps) simp_all

lemma ok_init_drive_parameters [ok_rules]: "ok_channel ch \<Longrightarrow> ok_channel (init_drive_parameters ch)"
  by (simp add: init_drive_parameters_def Let_def ok_rules)

lemma ok_identify [ok_rules]:
  assumes "ok_channel ch" shows "ok_channel (identify_command ch)"
proof -
  define ch1 where "ch1 = set_controller (\<lambda>c. upd_status (\<lambda>st. st\<lparr>busy := False, drive_ready := True, write_fault := False,
      drq := True, seek_complete := True, corrected_data := False\<rparr>)
    (c\<lparr>current_command := 0xEC, error_register := 0, buffer_index := 0\<rparr>)) ch"
  define ch2 where "ch2 = (if identify_set (selected ch1) then ch1
      else upd_selected (\<lambda>d. d\<lparr>id_drive := identify_drive ch1, identify_set := True\<rparr>) ch1)"
  have ch1: "ok_channel ch1"
    unfolding ch1_def using assms by (intro ok_upd_selected ok_upd_controller) (simp_all add: ok_controller_def)
  then have "ok_channel (upd_selected (\<lambda>d. d\<lparr>id_drive := identify_drive ch1, identify_set := True\<rparr>) ch1)"
    by (intro ok_upd_selected) (simp_all add: ok_drive_def)
  then have "ok_channel ch2" using ch1 by (simp add: ch2_def)
  then have "ok_channel (raise_interrupt (set_controller
      (\<lambda>c. c\<lparr>buffer := put_buffer 0 (id_bytes (id_drive (selected ch2))) (buffer c)\<rparr>) ch2))"
    by (intro ok_raise ok_upd_selected ok_upd_controller ok_controller_steps)
  then show ?thesis
    using ok_aborted [OF assms] unfolding identify_command_def Let_def ch2_def ch1_def by (simp del: upd_selected_twice)
qed

lemma ok_set_features [ok_rules]: 
  assumes "ok_channel ch" shows "ok_channel (set_features ch)"
proof -
  have modes: "ok_channel (ready_and_sought (set_controller (\<lambda>c. c\<lparr>mdma_mode := m, udma_mode := u\<rparr>) ch))" for m u
    using assms by (intro ok_rules)
  have chosen: "ok_channel x \<Longrightarrow> ok_channel (upd_selected (\<lambda>d. d\<lparr>identify_set := False\<rparr>) x)" for x
    by (intro ok_rules)
  show ?thesis
    unfolding set_features_def Let_def
    by (auto simp del: upd_selected_twice simp: modes [simplified] modes ok_ready_and_sought [OF assms] ok_aborted [OF assms] intro!: chosen)
qed

lemma ok_verify [ok_rules]: "ok_channel ch \<Longrightarrow> ok_channel (verify_command ext ch)"
  unfolding verify_command_def by (auto intro!: ok_aborted ok_command_done ok_upd_selected ok_upd_controller ok_controller_steps)

lemma ok_set_multiple [ok_rules]: "ok_channel ch \<Longrightarrow> ok_channel (set_multiple ch)"
  unfolding set_multiple_def Let_def
  by (auto intro!: ok_aborted ok_command_done ok_upd_selected ok_upd_controller ok_assignments simp: not_less)

lemma ok_check_power [ok_rules]: "ok_channel ch \<Longrightarrow> ok_channel (check_power_mode ch)"
  unfolding check_power_mode_def by (intro ok_rules)

lemma ok_seek_to [ok_rules]:
  assumes "v \<noteq> 0xEC" "ok_channel ch" shows "ok_channel (seek_to v ch)"
proof -
  have "ok_channel (upd_selected (\<lambda>d. d\<lparr>next_lsector := k\<rparr>)
     (set_controller (\<lambda>c. upd_status f (c\<lparr>current_command := v, error_register := 0\<rparr>)) ch))" for k f
    using assms by (intro ok_upd_selected ok_upd_controller ok_drive_fields) (simp_all add: ok_controller_def)
  then show ?thesis
    unfolding seek_to_def start_seek_def
    using assms by (auto simp del: upd_selected_twice split: option.split intro!: ok_aborted ok_upd_selected [where f = "seek_timer_active_update (\<lambda>_. True)"] ok_drive_fields)
qed

lemma ok_seek_command [ok_rules]: "ok_channel ch \<Longrightarrow> ok_channel (seek_command ch)"
  by (simp add: seek_command_def ok_rules)

lemma ok_dma [ok_rules]:
  assumes "v \<noteq> 0xEC" "ok_channel ch"
  shows "ok_channel (read_dma v ext ch)" "ok_channel (write_dma v ext ch)"
proof -
  have t: "ok_channel (set_controller (lba48_transform ext) ch)"
    using assms(2) by (intro ok_upd_selected ok_upd_controller ok_controller_steps)
  have "ok_channel (upd_selected (\<lambda>d. d\<lparr>next_lsector := k\<rparr>) (set_controller (\<lambda>c. upd_status f (c\<lparr>current_command := v\<rparr>)) x))"
    if "ok_channel x" for k f x
    using assms(1) that by (intro ok_upd_selected ok_upd_controller ok_drive_fields) (simp_all add: ok_controller_def)
  note w = this [OF t]
  show "ok_channel (read_dma v ext ch)"
    using assms t by (simp add: read_dma_def ok_rules)
  show "ok_channel (write_dma v ext ch)"
    unfolding write_dma_def Let_def
    using assms w t by (auto simp del: upd_selected_twice split: option.split intro!: ok_aborted)
qed

lemma ok_read_native_max [ok_rules]:
  assumes "ok_channel ch" shows "ok_channel (read_native_max ext ch)"
proof -
  have "ok_channel (set_controller (lba48_transform ext) ch)"
    using assms by (intro ok_upd_selected ok_upd_controller ok_controller_steps)
  moreover from this have "ok_channel (ready_and_sought (set_controller ((if \<not> ext then put_sector28 else put_sector48) k)
      (set_controller (lba48_transform ext) ch)))" for k
    by (cases ext) (auto simp del: upd_selected_twice intro!: ok_ready_and_sought ok_upd_selected ok_upd_controller ok_controller_steps)
  ultimately show ?thesis
    unfolding read_native_max_def Let_def using assms by (auto simp del: upd_selected_twice intro!: ok_aborted)
qed

lemma ok_command [ok_rules]: "ok_channel ch \<Longrightarrow> ok_channel (command v ch)"
  unfolding command_def by (auto intro!: ok_rules)

section \<open>Ports and the timer\<close>

lemma ok_registers [ok_rules]:
  "ok_controller c \<Longrightarrow> ok_controller (write_features v c)" "ok_controller c \<Longrightarrow> ok_controller (write_sector_count v c)"
  "ok_controller c \<Longrightarrow> ok_controller (write_sector_number v c)" "ok_controller c \<Longrightarrow> ok_controller (write_cylinder_low v c)"
  "ok_controller c \<Longrightarrow> ok_controller (write_cylinder_high v c)" "ok_controller c \<Longrightarrow> ok_controller (leave_reset c)"
  "ok_controller c \<Longrightarrow> ok_controller (enter_reset c)" "ok_controller c \<Longrightarrow> ok_controller (upd_status pulse c)"
  by (simp_all add: ok_controller_def write_features_def write_sector_count_def write_sector_number_def write_cylinder_low_def
      write_cylinder_high_def leave_reset_def enter_reset_def)

lemma ok_drive_head [ok_rules]: "ok_channel ch \<Longrightarrow> ok_channel (write_drive_head v ch)"
  unfolding write_drive_head_def by (intro ok_both ok_fields) (simp_all add: ok_controller_def)

lemma ok_device_control [ok_rules]:
  assumes "ok_channel ch" shows "ok_channel (write_device_control v ch)"
proof -
  let ?ch1 = "both (\<lambda>c. c\<lparr>control_reset := bit v 2, disable_irq := bit v 1\<rparr>) ch"
  have ch1: "ok_channel ?ch1" using assms by (intro ok_both) (simp_all add: ok_controller_def)
  have "ok_channel ((both enter_reset ?ch1)\<lparr>board := lower_irq (ata_irq ch) (board ch)\<rparr>)"
    by (intro ok_fields(1) ok_both [OF ch1] ok_registers)
  moreover have "ok_channel (set_signature 1 (upd_drive 1 (upd_controller leave_reset)
      (set_signature 0 (upd_drive 0 (upd_controller leave_reset) ?ch1))))"
    using ch1 by (intro ok_signature ok_upd_drive ok_upd_controller ok_registers)
  ultimately show ?thesis
    unfolding write_device_control_def Let_def by (intro ok_if ch1)
qed

lemma ok_command_register [ok_rules]:
  assumes "ok_channel ch" shows "ok_channel (write_command_register v ch)"
proof -
  let ?ch1 = "ch\<lparr>board := lower_irq (ata_irq ch) (board ch)\<rparr>"
  have "ok_channel (set_status (\<lambda>st. st\<lparr>err := False\<rparr>) ?ch1)"
    using assms by (intro ok_upd_selected ok_fields ok_upd_controller ok_no_data) simp_all
  then have "ok_channel (command w (set_status (\<lambda>st. st\<lparr>err := False\<rparr>) ?ch1))" for w by (rule ok_command)
  then show ?thesis
    unfolding write_command_register_def Let_def using assms ok_fields(1) [OF assms] by simp
qed

lemma ok_stepped:
  assumes "ok_channel ch" "current_command (selected_controller ch) \<noteq> 0xEC"
  shows "ok_channel (set_controller (\<lambda>c. c\<lparr>buffer_index := buffer_index c + n\<rparr>) ch)"
    "ok_channel (set_controller (\<lambda>c. c\<lparr>buffer := f c, buffer_index := buffer_index c + n\<rparr>) ch)"
  using assms ok_selected [OF assms(1)]
  by (intro ok_upd_selected_at; simp add: ok_drive_def ok_controller_def selected_controller_def)+

lemma selected_finished: "ok_channel ch \<Longrightarrow> ok_channel (upd_selected (\<lambda>d. d\<lparr>curr_lsector := next_lsector d\<rparr>) ch)"
  by (intro ok_upd_selected ok_drive_fields)

lemma read_commands_not_identify: "v \<in> set read_commands \<Longrightarrow> v \<noteq> 0xEC" "v \<in> set write_commands \<Longrightarrow> v \<noteq> 0xEC"
  by (auto simp: read_commands_def write_commands_def)

lemma ok_buffer_was_read [ok_rules]:
  assumes "ok_channel ch" "current_command (selected_controller ch) \<noteq> 0xEC" shows "ok_channel (buffer_was_read ch)"
proof -
  define ch1 where "ch1 = set_controller (\<lambda>c. upd_status (\<lambda>st. st\<lparr>busy := False, drive_ready := True, write_fault := False,
                  seek_complete := True, corrected_data := False, err := False\<rparr>)
                (if current_command c = 0xC4 \<or> current_command c = 0x29 then c\<lparr>buffer_size := block_size c\<rparr> else c)) ch"
  have ch1: "ok_channel ch1"
    unfolding ch1_def using assms(1)
    by (intro ok_upd_selected ok_upd_controller ok_no_data) (auto intro: ok_controller_steps)
  have not_id: "current_command (selected_controller ch1) \<noteq> 0xEC"
    using assms(2) by (simp add: ch1_def selected_controller_def)
  have d: "ok_channel (set_status (\<lambda>st. st\<lparr>drq := True, seek_complete := True\<rparr>) ch1)"
    using ch1 not_id ok_selected [OF ch1]
    by (intro ok_upd_selected_at) (simp_all add: ok_drive_def ok_controller_def selected_controller_def)
  obtain ok ch2 where ch2: "ide_read_sector (set_status (\<lambda>st. st\<lparr>drq := True, seek_complete := True\<rparr>) ch1) = (ok, ch2)"
    by (cases "ide_read_sector (set_status (\<lambda>st. st\<lparr>drq := True, seek_complete := True\<rparr>) ch1)")
  have "ok_channel ch2" using ok_ide_pair(1) [OF ch2 d] .
  moreover from this have "ok_channel (raise_interrupt (set_controller (\<lambda>c. c\<lparr>buffer_index := 0\<rparr>) ch2))"
    by (intro ok_raise ok_upd_selected ok_upd_controller ok_controller_steps)
  moreover have "ok_channel (set_status (\<lambda>st. st\<lparr>drq := False\<rparr>) ch1)"
    using ch1 by (intro ok_upd_selected ok_upd_controller ok_no_data) simp_all
  ultimately show ?thesis
    unfolding buffer_was_read_def Let_def ch1_def [symmetric] ch2 prod.case
    using selected_finished by (simp del: upd_selected_twice)
qed

lemma ok_buffer_was_written [ok_rules]:
  assumes "ok_channel ch" shows "ok_channel (buffer_was_written ch)"
proof -
  obtain ok ch1 where w: "ide_write_sector ch = (ok, ch1)" by (cases "ide_write_sector ch")
  have ch1: "ok_channel ch1" using ok_ide_pair(2) [OF w assms] .
  define ch2 where "ch2 = set_controller (\<lambda>c. (if current_command c = 0xC5 \<or> current_command c = 0x39
      then c\<lparr>buffer_size := block_size c\<rparr> else c)\<lparr>buffer_index := 0\<rparr>) ch1"
  have "ok_channel ch2"
    unfolding ch2_def using ch1 by (intro ok_upd_selected ok_upd_controller) (auto intro: ok_controller_steps)
  moreover have index: "buffer_index (controller (selected ch2)) = 0" by (simp add: ch2_def)
  ultimately have ch3: "ok_channel (set_status (\<lambda>st. st\<lparr>busy := False, drive_ready := True, drq := more_left, corrected_data := False,
                      err := False\<rparr>) ch2)" for more_left
    using ok_selected [of ch2] by (intro ok_upd_selected_at) (auto simp: ok_drive_def ok_controller_def)
  have "ok_channel (raise_interrupt (if b then set_status (\<lambda>st. st\<lparr>busy := False, drive_ready := True, drq := m, corrected_data := False,
                      err := False\<rparr>) ch2 else upd_selected (\<lambda>d. d\<lparr>curr_lsector := next_lsector d\<rparr>)
        (set_status (\<lambda>st. st\<lparr>busy := False, drive_ready := True, drq := m, corrected_data := False, err := False\<rparr>) ch2)))" for b m
    using ch3 [of m] selected_finished [OF ch3 [of m]] by (cases b) (simp_all only: if_True if_False ok_raise)
  then show ?thesis
    unfolding buffer_was_written_def Let_def w prod.case ch2_def [symmetric] using ch1 by (simp del: upd_selected_twice)
qed

lemma ok_data_read:
  assumes "ok_channel ch" "data_read n ch = Some (v, ch')" shows "ok_channel ch'"
proof -
  let ?c = "selected_controller ch"
  have sel: "selected_controller (set_controller (\<lambda>c. c\<lparr>buffer_index := buffer_index c + n\<rparr>) ch) = ?c\<lparr>buffer_index := buffer_index ?c + n\<rparr>"
    by (simp add: selected_controller_def)
  consider (none) "\<not> drq (status ?c)" | (sector) "drq (status ?c)" "current_command ?c \<in> set read_commands"
    | (identify) "drq (status ?c)" "current_command ?c \<notin> set read_commands" by blast
  then show ?thesis
  proof cases
    case none then show ?thesis using assms by (simp add: data_read_def)
  next
    case sector
    have eq: "ch' = (if buffer_size ?c \<le> buffer_index ?c + n
        then buffer_was_read (set_controller (\<lambda>c. c\<lparr>buffer_index := buffer_index c + n\<rparr>) ch)
        else set_controller (\<lambda>c. c\<lparr>buffer_index := buffer_index c + n\<rparr>) ch)"
      using assms(2) sector unfolding data_read_def Let_def by (simp split: if_split_asm)
    have not_id: "current_command ?c \<noteq> 0xEC" using sector(2) by (rule read_commands_not_identify)
    have st: "ok_channel (set_controller (\<lambda>c. c\<lparr>buffer_index := buffer_index c + n\<rparr>) ch)"
      using assms(1) not_id by (rule ok_stepped)
    moreover have "ok_channel (buffer_was_read (set_controller (\<lambda>c. c\<lparr>buffer_index := buffer_index c + n\<rparr>) ch))"
      using st not_id sel by (intro ok_buffer_was_read) simp_all
    ultimately show ?thesis unfolding eq by (intro ok_if)
  next
    case identify
    let ?st = "\<lambda>c. upd_status (\<lambda>st. st\<lparr>busy := False, drive_ready := True, write_fault := False,
      seek_complete := True, corrected_data := False, err := False\<rparr>) (c\<lparr>buffer_index := buffer_index c + n\<rparr>)"
    have eq: "ch' = (if 512 \<le> buffer_index ?c + n then set_status (\<lambda>st. st\<lparr>drq := False\<rparr>) (set_controller ?st ch)
        else set_controller ?st ch)"
      using assms(2) identify unfolding data_read_def Let_def by (simp del: upd_selected_twice split: if_split_asm)
    have sel: "ok_controller ?c" "length (image_file (hdimg (selected ch))) = hd_size (hdimg (selected ch))"
      using ok_selected [OF assms(1)] by (simp_all add: ok_drive_def selected_controller_def)
    have "ok_channel (set_controller ?st ch)" if "\<not> 512 \<le> buffer_index ?c + n"
      using sel that by (intro ok_upd_selected_at assms(1)) (simp add: ok_drive_def ok_controller_def selected_controller_def)
    moreover have "ok_channel (upd_selected (\<lambda>d. upd_controller (upd_status (\<lambda>st. st\<lparr>drq := False\<rparr>)) (upd_controller ?st d)) ch)"
      using sel by (intro ok_upd_selected_at assms(1)) (simp add: ok_drive_def ok_controller_def selected_controller_def)
    ultimately show ?thesis unfolding eq upd_selected_twice by (intro ok_if)
  qed
qed

lemma ok_data_write:
  assumes "ok_channel ch" "data_write n v ch = Some ch'" shows "ok_channel ch'"
proof -
  let ?c = "selected_controller ch"
  let ?ch1 = "set_controller (\<lambda>c. c\<lparr>buffer := put_buffer (buffer_index c) (bytes_of_value n v) (buffer c),
      buffer_index := buffer_index c + n\<rparr>) ch"
  have "current_command ?c \<in> set write_commands" "ch' = (if buffer_size ?c \<le> buffer_index ?c + n then buffer_was_written ?ch1 else ?ch1)"
    using assms(2) by (simp_all add: data_write_def Let_def split: if_splits)
  then show ?thesis
    using ok_stepped(2) [OF assms(1) read_commands_not_identify(2)] ok_buffer_was_written by simp
qed

lemma ok_hd_write:
  assumes "ok_channel ch" "hd_write a v n ch = Some ch'" shows "ok_channel ch'"
  using assms(2)
  by (auto simp: hd_write_def Let_def split: option.splits if_splits dest: ok_data_write [OF assms(1)]
      intro!: ok_both ok_registers ok_drive_head ok_command_register ok_device_control assms(1))

lemma ok_read_status: "ok_channel ch \<Longrightarrow> ok_channel (snd (read_status ch))"
  by (auto simp: read_status_def intro!: ok_upd_selected ok_upd_controller ok_registers)

lemma ok_hd_read:
  assumes "ok_channel ch" "hd_read a n ch = Some (v, ch')" shows "ok_channel ch'"
  using assms ok_read_status [OF assms(1)] ok_fields(1)
  by (auto simp: hd_read_def Let_def split: option.splits if_splits prod.splits dest: ok_data_read [OF assms(1)])

lemma ok_seek_timer:
  assumes "ok_channel ch" shows "ok_channel (seek_timer n ch)"
proof -
  define ch1 where "ch1 = upd_drive n (\<lambda>d. d\<lparr>seek_timer_active := False\<rparr>) ch"
  have ch1: "ok_channel ch1" unfolding ch1_def using assms by (intro ok_upd_drive ok_drive_fields)
  let ?fin = "\<lambda>data c. upd_status (\<lambda>st. st\<lparr>busy := False, drive_ready := True, seek_complete := True, drq := data,
            corrected_data := False\<rparr>) (c\<lparr>error_register := 0\<rparr>)"
  have zero: "ok_channel x \<Longrightarrow> ok_channel (upd_drive n (upd_controller (\<lambda>c. (?fin b c)\<lparr>buffer_index := 0\<rparr>)) x)" for b x
    by (intro ok_upd_drive ok_upd_controller) (simp_all add: ok_controller_def)
  have dma: "ok_channel (upd_drive n (upd_controller (?fin True)) ch1)"
    if "current_command (controller (drive_at n ch1)) \<noteq> 0xEC"
    using that ch1 by (intro ok_upd_drive_at ch1) (auto simp: ok_channel_def ok_drive_def ok_controller_def)
  note cases = ch1 ok_raise [OF zero [OF ch1]] ok_raise [OF zero [OF selected_finished [OF ch1]]] ok_fields(3) [OF dma]
  show ?thesis
    unfolding seek_timer_def Let_def ch1_def [symmetric]
    by (intro ok_if cases) (elim disjE; simp)
qed

section \<open>Reachable states\<close>

definition powered_up :: "channel_t \<Rightarrow> bool" where
  "powered_up ch \<longleftrightarrow> (\<forall>n. controller (drive_at n ch) = controller_init \<and>
     length (image_file (hdimg (drive_at n ch))) = hd_size (hdimg (drive_at n ch)))"

text \<open>The guest reads and writes ports, with any address, value and width, and an armed seek timer fires.\<close>

inductive ata_step :: "channel_t \<Rightarrow> channel_t \<Rightarrow> bool" where
  port_write: "hd_write a v n ch = Some ch' \<Longrightarrow> ata_step ch ch'"
| port_read: "hd_read a n ch = Some (v, ch') \<Longrightarrow> ata_step ch ch'"
| seek_over: "seek_timer_active (drive_at n ch) \<Longrightarrow> ata_step ch (seek_timer n ch)"

inductive ata_reachable :: "channel_t \<Rightarrow> bool" where
  start: "powered_up ch \<Longrightarrow> ata_reachable ch"
| step: "ata_reachable ch \<Longrightarrow> ata_step ch ch' \<Longrightarrow> ata_reachable ch'"

lemma powered_up_ok: "powered_up ch \<Longrightarrow> ok_channel ch"
  by (simp add: powered_up_def ok_channel_def ok_drive_def ok_controller_def controller_init_def)

lemma ok_step: "ata_step ch ch' \<Longrightarrow> ok_channel ch \<Longrightarrow> ok_channel ch'"
  by (erule ata_step.cases) (auto dest: ok_hd_write ok_hd_read intro: ok_seek_timer)

lemma reachable_ok: "ata_reachable ch \<Longrightarrow> ok_channel ch"
  by (induction rule: ata_reachable.induct) (auto intro: powered_up_ok ok_step)

lemma ok_read_in_buffer:
  assumes "ok_channel ch" "data_read n ch \<noteq> None" "drq (status (selected_controller ch))" "n \<le> 4"
  shows "buffer_index (selected_controller ch) + n \<le> 16 * 512 + 4"
  using assms ok_selected [OF assms(1)]
  by (auto simp: data_read_def Let_def ok_drive_def ok_controller_def selected_controller_def split: if_splits)

lemma ok_write_in_buffer:
  assumes "ok_channel ch" "data_write n v ch \<noteq> None" "n \<le> 4"
  shows "buffer_index (selected_controller ch) + n \<le> 16 * 512 + 4"
  using assms ok_selected [OF assms(1)]
  by (auto simp: data_write_def Let_def ok_drive_def ok_controller_def selected_controller_def split: if_splits)

text \<open>C19: Whatever the guest reads from and writes to the ports, and whenever the seek timers fire, the emulated drives stay
  well typed: a transfer through the data port stays within the 8196 bytes of the controller's buffer, a block of a
  multi-sector command is at most 16 sectors, and no write makes a disk image longer or shorter than the drive says.\<close>

theorem drives_stay_well_typed:
  assumes "ata_reachable ch"
  shows "(\<forall>n. length (image_file (hdimg (drive_at n ch))) = hd_size (hdimg (drive_at n ch)) \<and>
       buffer_size (controller (drive_at n ch)) \<le> 16 * 512 \<and> multiple_sectors (controller (drive_at n ch)) \<le> 16) \<and>
     (\<forall>n \<le> 4. data_read n ch \<noteq> None \<and> drq (status (selected_controller ch)) \<longrightarrow> buffer_index (selected_controller ch) + n \<le> 8196) \<and>
     (\<forall>n \<le> 4. \<forall>v. data_write n v ch \<noteq> None \<longrightarrow> buffer_index (selected_controller ch) + n \<le> 8196)"
  using reachable_ok [OF assms] ok_read_in_buffer [OF reachable_ok [OF assms]] ok_write_in_buffer [OF reachable_ok [OF assms]]
  by (auto simp: ok_channel_def ok_drive_def ok_controller_def)

lemma demo_powered_up: "powered_up demo_channel"
  by (simp add: powered_up_def demo_channel_def demo_drive_def drive_at_def)

theorem drives_stay_well_typed_witness:
  "\<exists>ch. hd_write 0x1F2 4 1 demo_channel = Some ch \<and> multiple_sectors (controller (drive_at 1 (command 0xC6 ch))) = 4 \<and>
     (\<exists>ch'. hd_write 0x1F7 0xC6 1 ch = Some ch' \<and> buffer_size (controller (drive_at 1 ch')) \<le> 16 * 512 \<and>
        multiple_sectors (controller (drive_at 1 ch')) \<le> 16)"
proof -
  let ?ch = "both (write_sector_count 4) demo_channel"
  have 1: "hd_write 0x1F2 4 1 demo_channel = Some ?ch" by (simp add: hd_write_def ata_port_def)
  have 2: "hd_write 0x1F7 0xC6 1 ?ch = Some (write_command_register 0xC6 ?ch)" by (simp add: hd_write_def ata_port_def)
  have "ata_reachable (write_command_register 0xC6 ?ch)"
    using demo_powered_up 1 2 by (meson ata_reachable.intros ata_step.port_write)
  from drives_stay_well_typed [OF this]
  have "buffer_size (controller (drive_at 1 (write_command_register 0xC6 ?ch))) \<le> 16 * 512 \<and>
      multiple_sectors (controller (drive_at 1 (write_command_register 0xC6 ?ch))) \<le> 16" by blast
  moreover have "multiple_sectors (controller (drive_at 1 (command 0xC6 ?ch))) = 4"
    by (simp add: command_def set_multiple_def command_done_def Let_def selected_controller_def selected_def drive_at_def both_def
        upd_controller_def write_sector_count_def demo_channel_def demo_drive_def controller_init_def upd_selected_def upd_drive_def
        raise_interrupt_def upd_status_def)
  ultimately show ?thesis using 1 2 by auto
qed

end
