(* ===== verification/DiskThread.thy ===== *)
theory DiskThread
  imports DiskProperties MemoryPools KernelStrings
begin

text \<open>
  The thread of P6's kernel.C that uses the disk (\<open>fun2\<close>): twenty times it copies a block to the one before it, and the first time it reads the block back and
  compares. The disk is the \<open>BlockingDisk\<close> on the emulated drive. All memory comes from \<open>operator new\<close>, that is \<open>MemPool::allocate\<close>: the
  buffers, and a queue node each time the thread enters the ready queue, while it waits for the disk and when it passes the CPU on. The
  arguments of a round say what happens while this thread does not have the CPU: how many bytes the other threads allocate, what they and the
  writes to the queue's nodes make of memory, and whether the drive's seek timer fires. Local arrays of the printing functions are not part of
  memory, and every text is shorter than the 255 characters that \<open>debug_out_E9\<close> prints.
\<close>

section \<open>Output\<close>

definition send_E9 :: "u8 list \<Rightarrow> 'a machine_scheme \<Rightarrow> 'a machine_scheme" where
  "send_E9 cs s = fold (\<lambda>c. emit (OutB 0xE9 c)) cs s"

definition text_E9 :: "string \<Rightarrow> 'a machine_scheme \<Rightarrow> 'a machine_scheme" where
  "text_E9 msg = send_E9 (map of_char msg)"

text \<open>What \<open>uint2str\<close> leaves in the local array.\<close>

definition uint_text :: "u32 \<Rightarrow> u8 list" where
  "uint_text num = (let ds = uint_digits 10 num; i = last_digit (0 # ds) 10 in rev (take (if i = 0 then i + 1 else i) ds))"

definition value_E9 :: "string \<Rightarrow> u32 \<Rightarrow> 'a machine_scheme \<Rightarrow> 'a machine_scheme" where
  "value_E9 msg v s = send_E9 [10] (send_E9 (uint_text v) (send_E9 [32] (text_E9 msg s)))"

definition line :: "string \<Rightarrow> 'a machine_scheme \<Rightarrow> 'a machine_scheme" where
  "line msg = puts (msg @ [CHR 0x0A])"

definition announce :: "string \<Rightarrow> string \<Rightarrow> 'a machine_scheme \<Rightarrow> 'a machine_scheme" where
  "announce con dbg s = text_E9 (dbg @ [CHR 0x0A]) (line con s)"

section \<open>The disk and the heap\<close>

text \<open>A turn of the others, with the bytes they allocate. Before it the thread is pushed onto the ready queue, in a new node.\<close>

type_synonym heap_turn = "nat \<times> turn"

definition QUEUE_NODE_SIZE :: u32 where "QUEUE_NODE_SIZE = 12"

definition queue_and_yield :: "nat \<Rightarrow> u32 \<Rightarrow> u32" where
  "queue_and_yield others heap = snd (mem_allocate (of_nat others) (snd (mem_allocate QUEUE_NODE_SIZE heap)))"

fun wait_on_heap :: "heap_turn list \<Rightarrow> u32 \<times> 'a disk_machine_scheme \<Rightarrow> (u32 \<times> 'a disk_machine_scheme) result" where
  "wait_on_heap turns (heap, s) = andthen (is_ready s) (\<lambda>(ready, s1).
     if ready then Inr (heap, s1)
     else case turns of [] \<Rightarrow> Inl Not_Resumed | (n, t) # rest \<Rightarrow> wait_on_heap rest (queue_and_yield n heap, take_turn t s1))"

declare wait_on_heap.simps [simp del]

definition read_on_heap ::
  "SimpleDisk \<Rightarrow> u32 \<Rightarrow> u32 \<Rightarrow> heap_turn list \<Rightarrow> u32 \<times> 'a disk_machine_scheme \<Rightarrow> (u32 \<times> 'a disk_machine_scheme) result" where
  "read_on_heap d block_no buf turns = (\<lambda>(heap, s).
     andthen (issue_operation d READ block_no s) (\<lambda>s1.
     andthen (wait_on_heap turns (heap, s1)) (\<lambda>(heap1, s2).
     andthen (read_data 256 0 buf s2) (\<lambda>s3. Inr (heap1, s3)))))"

definition write_on_heap ::
  "SimpleDisk \<Rightarrow> u32 \<Rightarrow> u32 \<Rightarrow> heap_turn list \<Rightarrow> u32 \<times> 'a disk_machine_scheme \<Rightarrow> (u32 \<times> 'a disk_machine_scheme) result" where
  "write_on_heap d block_no buf turns = (\<lambda>(heap, s).
     andthen (issue_operation d WRITE block_no s) (\<lambda>s1.
     andthen (wait_on_heap turns (heap, s1)) (\<lambda>(heap1, s2).
     andthen (write_data 256 0 buf s2) (\<lambda>s3. Inr (heap1, s3)))))"

section \<open>The thread\<close>

definition NB_ITERATIONS :: nat where "NB_ITERATIONS = 20"
definition DISK_BLOCK_SIZE :: u32 where "DISK_BLOCK_SIZE = 512"

definition show_block :: "u32 \<Rightarrow> 'a machine_scheme \<Rightarrow> 'a machine_scheme" where
  "show_block buf s = text_E9 (CHR 0x0A # ''End of buf'' @ [CHR 0x0A])
     (fold (\<lambda>i s. value_E9 '' '' (ucast (mem s (buf + of_nat i))) s) [0..<unat DISK_BLOCK_SIZE]
       (text_E9 (''Displaying the data read from the disk'' @ [CHR 0x0A])
         (puts (''Loop in FUN 2 will display the buf content in the output file.'' @ CHR 0x0A # ''Check there if you want to see it.'' @ [CHR 0x0A]) s)))"

text \<open>The loop that compares; what it prints before the failed assertion is not part of the outcome.\<close>

fun compare_loop :: "nat \<Rightarrow> nat \<Rightarrow> u32 \<Rightarrow> u32 \<Rightarrow> memory \<Rightarrow> unit result" where
  "compare_loop 0 k aux buf m = Inr ()"
| "compare_loop (Suc n) k aux buf m =
     (if m (aux + of_nat k) \<noteq> m (buf + of_nat k) then Inl Assertion_Failed else compare_loop n (Suc k) aux buf m)"

definition check_write ::
  "SimpleDisk \<Rightarrow> u32 \<Rightarrow> u32 \<Rightarrow> heap_turn list \<Rightarrow> u32 \<times> 'a disk_machine_scheme \<Rightarrow> (u32 \<times> 'a disk_machine_scheme) result" where
  "check_write d write_block buf turns = (\<lambda>(heap, s).
     let s1 = announce ''Reading the block we just wrote ...'' ''Reading the block we just wrote ...'' s;
         (aux, heap1) = mem_allocate DISK_BLOCK_SIZE heap in
     andthen (read_on_heap d write_block aux turns (heap1, s1)) (\<lambda>(heap2, s2).
     andthen (compare_loop (unat DISK_BLOCK_SIZE) 0 aux buf (mem s2)) (\<lambda>_.
       Inr (mem_release aux heap2, announce ''Data matches! All is fine.'' ''Data matches! All is fine.'' s2))))"

text \<open>A round: the turns during the read, the write and the read of the check, and then the turn of \<open>pass_on_CPU\<close>: what the other threads
allocate and make of memory.\<close>

type_synonym round = "heap_turn list \<times> heap_turn list \<times> heap_turn list \<times> nat \<times> (memory \<Rightarrow> memory)"

fun fun2_loop ::
  "SimpleDisk \<Rightarrow> u32 \<Rightarrow> round list \<Rightarrow> nat \<Rightarrow> u32 \<Rightarrow> u32 \<Rightarrow> bool \<Rightarrow> u32 \<times> 'a disk_machine_scheme \<Rightarrow> (u32 \<times> 'a disk_machine_scheme) result" where
  "fun2_loop d buf [] j read_block write_block checking st = Inr st"
| "fun2_loop d buf ((rd, wr, ck, n, pass) # rounds) j read_block write_block checking (heap, s) =
     (let s1 = announce ''Reading a block from disk...'' ''Reading a block from disk...''
            (value_E9 ''FUN 2 IN ITERATION '' (of_nat j) (line '']'' (puti (int j) (puts ''FUN 2 IN ITERATION['' s)))) in
      andthen (read_on_heap d read_block buf rd (heap, s1)) (\<lambda>(heap2, s2).
      andthen (write_on_heap d write_block buf wr
        (heap2, announce ''Writing a block to disk...'' ''Writing a block to disk...'' (show_block buf s2))) (\<lambda>(heap3, s3).
      andthen (if checking then check_write d write_block buf ck (heap3, s3) else Inr (heap3, s3)) (\<lambda>(heap4, s4).
        fun2_loop d buf rounds (Suc j) ((read_block + 1) mod 10) read_block False (queue_and_yield n heap4, s4\<lparr>mem := pass (mem s4)\<rparr>)))))"

definition fun2 :: "SimpleDisk \<Rightarrow> int \<Rightarrow> round list \<Rightarrow> u32 \<times> 'a disk_machine_scheme \<Rightarrow> (u32 \<times> 'a disk_machine_scheme) result" where
  "fun2 d thread_id rounds = (\<lambda>(heap, s).
     if length rounds < NB_ITERATIONS then Inl Not_Resumed
     else
       let s1 = announce ''FUN 2 INVOKED. I'M POWERFUL: I USE THE DISK!'' ''FUN 2 INVOKED! I'M POWERFUL: I USE THE DISK''
             (value_E9 ''THREAD: '' (word_of_int thread_id) (line [] (puti thread_id (puts ''THREAD: '' s))));
           (buf, heap1) = mem_allocate DISK_BLOCK_SIZE heap in
       andthen (fun2_loop d buf (take NB_ITERATIONS rounds) 0 1 0 True (heap1, s1)) (\<lambda>(heap2, s2).
         Inr (mem_release buf heap2, announce ''FUN 2 IS DONE!'' ''FUN 2 IS DONE!'' s2)))"

declare fun2_loop.simps(2) [simp del]

section \<open>Printing changes the trace only\<close>

lemma prints_emit: "ata (emit e s) = ata s"
  by (simp add: emit_def)

lemma prints_E9 [simp]:
  "mem (send_E9 cs s) = mem s" "ata (send_E9 cs t) = ata t"
  "mem (text_E9 msg s) = mem s" "ata (text_E9 msg t) = ata t"
  "mem (value_E9 msg v s) = mem s" "ata (value_E9 msg v t) = ata t"
  "mem (line msg s) = mem s" "ata (line msg t) = ata t"
  "mem (announce a b s) = mem s" "ata (announce a b t) = ata t"
proof -
  have f: "mem (fold (\<lambda>c. emit (OutB 0xE9 c)) cs s) = mem s" for cs and s :: "'c machine_scheme"
    by (induction cs arbitrary: s) simp_all
  have g: "ata (fold (\<lambda>c. emit (OutB 0xE9 c)) cs t) = ata t" for cs and t :: "'d disk_machine_scheme"
    by (induction cs arbitrary: t) (simp_all add: prints_emit)
  show "mem (send_E9 cs s) = mem s" "ata (send_E9 cs t) = ata t"
    "mem (text_E9 msg s) = mem s" "ata (text_E9 msg t) = ata t"
    "mem (value_E9 msg v s) = mem s" "ata (value_E9 msg v t) = ata t"
    "mem (line msg s) = mem s" "ata (line msg t) = ata t"
    "mem (announce a b s) = mem s" "ata (announce a b t) = ata t"
    by (simp_all add: send_E9_def text_E9_def value_E9_def line_def announce_def prints_emit f g)
qed

lemma prints_block [simp]: "mem (show_block buf s) = mem s" "ata (show_block buf t) = ata t"
proof -
  have f: "mem (fold (\<lambda>i s. value_E9 '' '' (ucast (mem s (buf + of_nat i))) s) is s) = mem s" for "is" and s :: "'c machine_scheme"
    by (induction "is" arbitrary: s) simp_all
  have g: "ata (fold (\<lambda>i s. value_E9 '' '' (ucast (mem s (buf + of_nat i))) s) is t) = ata t" for "is" and t :: "'d disk_machine_scheme"
    by (induction "is" arbitrary: t) simp_all
  show "mem (show_block buf s) = mem s" "ata (show_block buf t) = ata t" by (simp_all add: show_block_def f g prints_emit)
qed

section \<open>The check\<close>

lemma get_put_block: "length bytes = 512 \<Longrightarrow> get_block (put_block bytes buf m) buf = bytes"
  by (rule nth_equalityI) (simp_all add: get_block_def put_block_def)

lemma compare_same: "\<forall>i. k \<le> i \<and> i < k + n \<longrightarrow> m (aux + of_nat i) = m (buf + of_nat i) \<Longrightarrow> compare_loop n k aux buf m = Inr ()"
  by (induction n arbitrary: k) simp_all

text \<open>A block that lies behind another one on the heap.\<close>

lemma later_block_apart: "512 \<le> k \<Longrightarrow> k + 512 \<le> 2 ^ 32 \<Longrightarrow> i < 512 \<Longrightarrow> \<not> unat (buf + of_nat i - (buf + of_nat k)) < 512" for buf :: u32
proof -
  assume k: "512 \<le> k" "k + 512 \<le> 2 ^ 32" "i < 512"
  have e: "buf + of_nat i - (buf + of_nat k) = (of_nat i - of_nat k :: u32)" by simp
  have f: "(of_nat i - of_nat k :: u32) = of_nat (2 ^ 32 + i - k)"
  proof -
    have "of_nat (2 ^ 32 + i - k) + of_nat k = (of_nat (2 ^ 32 + i) :: u32)" using k by (simp flip: of_nat_add)
    also have "\<dots> = of_nat i" by simp
    finally show ?thesis by (simp add: diff_eq_eq)
  qed
  have "unat (of_nat (2 ^ 32 + i - k) :: u32) = 2 ^ 32 + i - k" by (rule unat_of_nat_u32) (use k in linarith)
  then have "unat (buf + of_nat i - (buf + of_nat k)) = 2 ^ 32 + i - k" by (simp only: e f)
  then show ?thesis using k by linarith
qed

text \<open>What the turns of a wait can allocate.\<close>

definition turn_bytes :: "heap_turn list \<Rightarrow> nat" where
  "turn_bytes turns = sum_list (map (\<lambda>t. 12 + fst t) turns)"

lemma turn_bytes_simps [simp]: "turn_bytes [] = 0" "turn_bytes (t # ts) = 12 + fst t + turn_bytes ts"
  by (simp_all add: turn_bytes_def)

lemma queue_and_yield_eq: "queue_and_yield n heap = heap + of_nat (12 + n)"
  by (simp add: queue_and_yield_def mem_allocate_def QUEUE_NODE_SIZE_def)

lemma wait_on_heap_result:
  "BlockingDisk_wait_until_ready (map snd turns) s = Inr s' \<Longrightarrow>
   \<exists>k. wait_on_heap turns (heap, s) = Inr (heap + of_nat k, s') \<and> k \<le> turn_bytes turns \<and> (fst (projr (is_ready s)) \<or> 12 \<le> k)"
proof (induction turns arbitrary: heap s)
  case Nil
  then show ?case
    by (subst (asm) BlockingDisk_wait_until_ready.simps, subst wait_on_heap.simps)
      (auto split: sum.splits if_splits simp: andthen_def)
next
  case (Cons t ts)
  obtain ready s1 where i: "is_ready s = Inr (ready, s1)"
    using Cons.prems by (subst (asm) BlockingDisk_wait_until_ready.simps) (auto simp: andthen_def split: sum.splits)
  show ?case
  proof (cases ready)
    case True
    then show ?thesis using Cons.prems i
      by (subst (asm) BlockingDisk_wait_until_ready.simps, subst wait_on_heap.simps) (auto intro: exI[of _ 0])
  next
    case False
    then have "BlockingDisk_wait_until_ready (map snd ts) (take_turn (snd t) s1) = Inr s'"
      using Cons.prems i by (subst (asm) BlockingDisk_wait_until_ready.simps) simp
    from Cons.IH[OF this, of "heap + of_nat (12 + fst t)"] obtain k where
      k: "wait_on_heap ts (heap + of_nat (12 + fst t), take_turn (snd t) s1) = Inr (heap + of_nat (12 + fst t) + of_nat k, s')" "k \<le> turn_bytes ts" by blast
    have "wait_on_heap (t # ts) (heap, s) = Inr (heap + of_nat (12 + fst t + k), s')"
      using i False k(1) by (subst wait_on_heap.simps) (simp add: queue_and_yield_eq case_prod_beta add.assoc)
    then show ?thesis using k(2) by (intro exI[of _ "12 + fst t + k"]) simp
  qed
qed

lemma read_on_heap_block:
  assumes "idle_drive (drive_at (unit_no d) (ata s))" "block_in_range d b (ata s)" "fires (disk_id d) (map snd turns)"
  shows "\<exists>s' k. read_on_heap d b buf turns (heap, s) = Inr (heap + of_nat k, s') \<and> 12 \<le> k \<and> k \<le> turn_bytes turns
     \<and> mem s' = put_block (block_map d (ata s) (unat b)) buf (memory_after (disk_id d) (map snd turns) (mem s))
     \<and> same_image (ata s) (ata s') \<and> idle_drive (drive_at (unit_no d) (ata s'))"
proof -
  obtain s' where s': "BlockingDisk_read d b buf (map snd turns) s = Inr s'"
      "mem s' = put_block (block_map d (ata s) (unat b)) buf (memory_after (disk_id d) (map snd turns) (mem s))"
      "same_image (ata s) (ata s')" "idle_drive (drive_at (unit_no d) (ata s'))"
    using BlockingDisk_read_block[OF assms, of buf] unfolding block_map_def by blast
  obtain s1 where s1: "issue_operation d READ b s = Inr s1" "s1 = s\<lparr>ata := write_command_register 0x20 (programmed d b (ata s))\<rparr>"
    by (simp add: issue_operation_eq command_code_def)
  obtain s2 where s2: "BlockingDisk_wait_until_ready (map snd turns) s1 = Inr s2" "read_data 256 0 buf s2 = Inr s'"
    using s'(1) s1(1) by (auto simp: BlockingDisk_read_def andthen_def split: sum.splits)
  obtain k where k: "wait_on_heap turns (heap, s1) = Inr (heap + of_nat k, s2)" "k \<le> turn_bytes turns" "fst (projr (is_ready s1)) \<or> 12 \<le> k"
    using wait_on_heap_result[OF s2(1)] by blast
  have r: "unat b < hd_size (hdimg (drive_at (unit_no d) (ata s))) div 512" "b < 0x10000000" using assms(2) by (simp_all add: block_in_range_def)
  note i = issue_read[OF assms(1) r]
  have h: "device_type (drive_at (unit_no d) (ata s1)) = IDE_DISK" "drive_select (ata s1) = unit_no d" "\<not> drq (status (controller (drive_at (unit_no d) (ata s1))))"
    using i assms(1) by (simp_all add: s1(2) same_image_def idle_drive_def seeking_def Let_def)
  have "\<not> fst (projr (is_ready s1))" using is_ready_disk[OF h(1,2)] h(3) by (metis fst_conv sum.sel(2))
  then have "12 \<le> k" using k(3) by simp
  moreover have "read_on_heap d b buf turns (heap, s) = Inr (heap + of_nat k, s')" using s1(1) k(1) s2(2) by (simp add: read_on_heap_def)
  ultimately show ?thesis using k(2) s'(2-4) by blast
qed

lemma write_on_heap_block:
  assumes "idle_drive (drive_at (unit_no d) (ata s))" "block_in_range d b (ata s)"
  shows "\<exists>s' k. write_on_heap d b buf turns (heap, s) = Inr (heap + of_nat k, s') \<and> k \<le> turn_bytes turns \<and> mem s' = mem s
     \<and> written (unit_no d) (unat b) (get_block (mem s) buf) (ata s) (ata s') \<and> idle_drive (drive_at (unit_no d) (ata s'))"
proof -
  obtain s' where s': "BlockingDisk_write d b buf (map snd turns) s = Inr s'" "mem s' = mem s"
      "written (unit_no d) (unat b) (get_block (mem s) buf) (ata s) (ata s')" "idle_drive (drive_at (unit_no d) (ata s'))"
    using BlockingDisk_write_block[OF assms, of buf "map snd turns"] by blast
  obtain s1 s2 where s2: "issue_operation d WRITE b s = Inr s1" "BlockingDisk_wait_until_ready (map snd turns) s1 = Inr s2" "write_data 256 0 buf s2 = Inr s'"
    using s'(1) by (auto simp: BlockingDisk_write_def andthen_def split: sum.splits)
  obtain k where "wait_on_heap turns (heap, s1) = Inr (heap + of_nat k, s2)" "k \<le> turn_bytes turns" using wait_on_heap_result[OF s2(2)] by blast
  then have "write_on_heap d b buf turns (heap, s) = Inr (heap + of_nat k, s')" "k \<le> turn_bytes turns"
    using s2 by (simp_all add: write_on_heap_def)
  then show ?thesis using s'(2-4) by blast
qed

lemma check_write_ok:
  assumes "idle_drive (drive_at (unit_no d) (ata s))" "block_in_range d b (ata s)" "fires (disk_id d) (map snd turns)"
    and "block_map d (ata s) (unat b) = get_block (mem s) buf" "512 \<le> k0" "k0 + 512 \<le> 2 ^ 32"
    and "get_block (memory_after (disk_id d) (map snd turns) (mem s)) buf = get_block (mem s) buf"
  shows "\<exists>s' k. check_write d b buf turns (buf + of_nat k0, s) = Inr (buf + of_nat (k0 + 512 + k), s') \<and> 12 \<le> k \<and> k \<le> turn_bytes turns
    \<and> same_image (ata s) (ata s') \<and> idle_drive (drive_at (unit_no d) (ata s'))"
proof -
  let ?s1 = "announce ''Reading the block we just wrote ...'' ''Reading the block we just wrote ...'' s" and ?aux = "buf + of_nat k0"
  let ?bytes = "get_block (mem s) buf" and ?m = "memory_after (disk_id d) (map snd turns) (mem s)"
  have a: "idle_drive (drive_at (unit_no d) (ata ?s1))" "block_in_range d b (ata ?s1)" using assms(1,2) by simp_all
  obtain s2 k where s2: "read_on_heap d b ?aux turns (?aux + 512, ?s1) = Inr (?aux + 512 + of_nat k, s2)" "12 \<le> k" "k \<le> turn_bytes turns"
      "mem s2 = put_block ?bytes ?aux ?m" "same_image (ata s) (ata s2)" "idle_drive (drive_at (unit_no d) (ata s2))"
    using read_on_heap_block[OF a assms(3), of ?aux "?aux + 512"] assms(4) by auto
  have "mem s2 (?aux + of_nat i) = mem s2 (buf + of_nat i)" if "i < 512" for i
  proof -
    have l: "length ?bytes = 512" by (simp add: get_block_def)
    have "mem s2 (?aux + of_nat i) = ?bytes ! i" using that by (simp add: s2(4) put_block_def l)
    moreover have "mem s2 (buf + of_nat i) = ?m (buf + of_nat i)"
      using later_block_apart[OF assms(5,6) that] by (simp add: s2(4) put_block_def l)
    moreover have "?m (buf + of_nat i) = ?bytes ! i" using arg_cong[OF assms(7), of "\<lambda>xs. xs ! i"] that by (simp add: get_block_def)
    ultimately show ?thesis by simp
  qed
  then have "compare_loop 512 0 ?aux buf (mem s2) = Inr ()" by (intro compare_same) simp
  then have "\<exists>s'. check_write d b buf turns (?aux, s) = Inr (?aux + 512 + of_nat k, s') \<and> ata s' = ata s2"
    using s2(1) by (simp add: check_write_def mem_allocate_def mem_release_def DISK_BLOCK_SIZE_def Let_def)
  moreover have "?aux + 512 + of_nat k = buf + of_nat (k0 + 512 + k)" by simp
  ultimately show ?thesis using s2(2,3,5,6) by metis
qed

section \<open>The rounds\<close>

text \<open>The specification: a round copies a block.\<close>

fun copy_rounds :: "nat \<Rightarrow> nat \<Rightarrow> nat \<Rightarrow> (nat \<Rightarrow> u8 list) \<Rightarrow> nat \<Rightarrow> u8 list" where
  "copy_rounds 0 r w blocks = blocks"
| "copy_rounds (Suc n) r w blocks = copy_rounds n ((r + 1) mod 10) r (blocks(w := blocks r))"

lemma next_block_number: "unat r < 10 \<Longrightarrow> unat ((r + 1) mod 10 :: u32) = (unat r + 1) mod 10"
  by (simp add: unat_mod unat_word_ariths)

definition round_bytes :: "round \<Rightarrow> nat" where
  "round_bytes x = (case x of (rd, wr, ck, n, pass) \<Rightarrow> turn_bytes rd + turn_bytes wr + turn_bytes ck + 12 + n)"

lemma round_copies:
  assumes "idle_drive (drive_at (unit_no d) (ata s))" "\<forall>b < 10. block_in_range d b (ata s)" "unat r < 10" "unat w < 10"
    and "fires (disk_id d) (map snd rd)"
    and chk: "chk \<Longrightarrow> fires (disk_id d) (map snd ck) \<and> 512 \<le> k0 \<and> k0 + round_bytes (rd, wr, ck, n, pass) + 512 \<le> 2 ^ 32
      \<and> (\<forall>m. get_block (memory_after (disk_id d) (map snd ck) m) buf = get_block m buf)"
  shows "\<exists>s' k. fun2_loop d buf ((rd, wr, ck, n, pass) # rounds) j r w chk (buf + of_nat k0, s)
      = fun2_loop d buf rounds (Suc j) ((r + 1) mod 10) r False (buf + of_nat (k0 + k), s')
    \<and> (if chk then 548 else 24) \<le> k \<and> k \<le> round_bytes (rd, wr, ck, n, pass) + (if chk then 512 else 0)
    \<and> block_map d (ata s') = (block_map d (ata s))(unat w := block_map d (ata s) (unat r)) \<and> idle_drive (drive_at (unit_no d) (ata s'))
    \<and> (\<forall>b < 10. block_in_range d b (ata s'))"
proof -
  have rw: "block_in_range d r (ata s)" "block_in_range d w (ata s)" using assms(2-4) by (simp_all add: word_less_nat_alt)
  define s1 where "s1 = announce ''Reading a block from disk...'' ''Reading a block from disk...''
    (value_E9 ''FUN 2 IN ITERATION '' (of_nat j) (line '']'' (puti (int j) (puts ''FUN 2 IN ITERATION['' s))))"
  have e1: "ata s1 = ata s" "mem s1 = mem s" by (simp_all add: s1_def prints_emit)
  have a1: "idle_drive (drive_at (unit_no d) (ata s1))" "block_in_range d r (ata s1)" using assms(1) rw(1) by (simp_all add: e1)
  obtain s2 k2 where s2: "read_on_heap d r buf rd (buf + of_nat k0, s1) = Inr (buf + of_nat k0 + of_nat k2, s2)" "12 \<le> k2" "k2 \<le> turn_bytes rd"
      "mem s2 = put_block (block_map d (ata s) (unat r)) buf (memory_after (disk_id d) (map snd rd) (mem s))"
      "same_image (ata s) (ata s2)" "idle_drive (drive_at (unit_no d) (ata s2))"
    using read_on_heap_block[OF a1 assms(5), of buf "buf + of_nat k0"] unfolding e1 by blast
  note b2 = blocks_of_same_image[OF s2(5)]
  define t where "t = announce ''Writing a block to disk...'' ''Writing a block to disk...'' (show_block buf s2)"
  have et: "ata t = ata s2" "mem t = mem s2" by (simp_all add: t_def)
  have len: "length (block_map d (ata s) (unat r)) = 512"
    using rw(1) assms(1) sector_in_image by (simp add: block_map_def block_in_range_def drive_file_def idle_drive_def image_read_length)
  then have gb: "get_block (mem t) buf = block_map d (ata s) (unat r)" by (simp add: et s2(4) get_put_block)
  have at: "idle_drive (drive_at (unit_no d) (ata t))" "block_in_range d w (ata t)" using s2(6) rw(2) b2 by (simp_all add: et)
  let ?h2 = "buf + of_nat k0 + of_nat k2"
  obtain s3 k3 where s3: "write_on_heap d w buf wr (?h2, t) = Inr (?h2 + of_nat k3, s3)" "k3 \<le> turn_bytes wr" "mem s3 = mem t"
      "written (unit_no d) (unat w) (get_block (mem t) buf) (ata t) (ata s3)" "idle_drive (drive_at (unit_no d) (ata s3))"
    using write_on_heap_block[OF at, of buf wr ?h2] by blast
  have b3: "block_map d (ata s3) = (block_map d (ata s))(unat w := block_map d (ata s) (unat r))" "\<And>c. block_in_range d c (ata s3) = block_in_range d c (ata s)"
    using blocks_of_written[OF s3(4)] s2(6) rw(2) b2 len unfolding gb unfolding et by simp_all
  have h3: "?h2 + of_nat k3 = buf + of_nat (k0 + k2 + k3)" by simp
  have "\<exists>s4 k4. (if chk then check_write d w buf ck (?h2 + of_nat k3, s3) else Inr (?h2 + of_nat k3, s3)) = Inr (buf + of_nat (k0 + k2 + k3 + k4), s4)
    \<and> (if chk then 524 else 0) \<le> k4 \<and> k4 \<le> turn_bytes ck + (if chk then 512 else 0)
    \<and> same_image (ata s3) (ata s4) \<and> idle_drive (drive_at (unit_no d) (ata s4))"
  proof (cases chk)
    case True
    note c = chk[OF True]
    have bw: "block_map d (ata s3) (unat w) = get_block (mem s3) buf" by (simp add: b3(1) s3(3) gb)
    have ir: "block_in_range d w (ata s3)" using b3(2) rw(2) by simp
    have "512 \<le> k0 + k2 + k3" "k0 + k2 + k3 + 512 \<le> 2 ^ 32" using c s2(3) s3(2) by (simp_all add: round_bytes_def)
    from check_write_ok[OF s3(5) ir _ bw this] c obtain s4 k where
      "check_write d w buf ck (buf + of_nat (k0 + k2 + k3), s3) = Inr (buf + of_nat (k0 + k2 + k3 + 512 + k), s4)"
      "12 \<le> k" "k \<le> turn_bytes ck" "same_image (ata s3) (ata s4)" "idle_drive (drive_at (unit_no d) (ata s4))" by blast
    then show ?thesis using True unfolding h3 by (intro exI[of _ s4] exI[of _ "512 + k"]) (simp add: add.assoc)
  next
    case False
    then show ?thesis using s3(5) by (intro exI[of _ s3] exI[of _ 0]) (simp add: same_image_def)
  qed
  then obtain s4 k4 where
    s4: "(if chk then check_write d w buf ck (?h2 + of_nat k3, s3) else Inr (?h2 + of_nat k3, s3)) = Inr (buf + of_nat (k0 + k2 + k3 + k4), s4)"
    "(if chk then 524 else 0) \<le> k4" "k4 \<le> turn_bytes ck + (if chk then 512 else 0)"
    "same_image (ata s3) (ata s4)" "idle_drive (drive_at (unit_no d) (ata s4))" by blast
  let ?s' = "s4\<lparr>mem := pass (mem s4)\<rparr>" and ?k = "k2 + k3 + k4 + 12 + n"
  have q: "queue_and_yield n (buf + of_nat (k0 + k2 + k3 + k4)) = buf + of_nat (k0 + ?k)" by (simp add: queue_and_yield_eq)
  have "fun2_loop d buf ((rd, wr, ck, n, pass) # rounds) j r w chk (buf + of_nat k0, s)
      = fun2_loop d buf rounds (Suc j) ((r + 1) mod 10) r False (buf + of_nat (k0 + ?k), ?s')"
    using s2(1) s3(1) s4(1) by (simp only: fun2_loop.simps Let_def s1_def[symmetric] andthen_simps t_def[symmetric] prod.case q)
  moreover have "block_map d (ata ?s') = (block_map d (ata s))(unat w := block_map d (ata s) (unat r))"
    using blocks_of_same_image[OF s4(4)] b3(1) by simp
  moreover have "(if chk then 548 else 24) \<le> ?k" "?k \<le> round_bytes (rd, wr, ck, n, pass) + (if chk then 512 else 0)"
    using s2(2,3) s3(2) s4(2,3) by (auto simp: round_bytes_def split: if_splits)
  ultimately show ?thesis using s4(5) b3(2) assms(2) blocks_of_same_image[OF s4(4)] by (intro exI[of _ ?s'] exI[of _ ?k]) simp
qed

lemma rounds_copy:
  assumes "idle_drive (drive_at (unit_no d) (ata s))" "\<forall>b < 10. block_in_range d b (ata s)" "unat r < 10" "unat w < 10"
    and "\<forall>x \<in> set rounds. fires (disk_id d) (map snd (fst x))"
  shows "\<exists>s' k. fun2_loop d buf rounds j r w False (buf + of_nat k0, s) = Inr (buf + of_nat (k0 + k), s')
    \<and> 24 * length rounds \<le> k \<and> k \<le> sum_list (map round_bytes rounds)
    \<and> block_map d (ata s') = copy_rounds (length rounds) (unat r) (unat w) (block_map d (ata s)) \<and> idle_drive (drive_at (unit_no d) (ata s'))"
  using assms
proof (induction rounds arbitrary: j r w s k0)
  case Nil
  then show ?case by (intro exI[of _ s] exI[of _ 0]) simp
next
  case (Cons x rounds)
  obtain rd wr ck n pass where x: "x = (rd, wr, ck, n, pass)" by (cases x) auto
  have f: "fires (disk_id d) (map snd rd)" using Cons.prems(5) x by simp
  obtain s1 k1 where s1: "fun2_loop d buf ((rd, wr, ck, n, pass) # rounds) j r w False (buf + of_nat k0, s)
      = fun2_loop d buf rounds (Suc j) ((r + 1) mod 10) r False (buf + of_nat (k0 + k1), s1)" "24 \<le> k1" "k1 \<le> round_bytes x"
    "block_map d (ata s1) = (block_map d (ata s))(unat w := block_map d (ata s) (unat r))" "idle_drive (drive_at (unit_no d) (ata s1))"
    "\<forall>b < 10. block_in_range d b (ata s1)"
    using round_copies[OF Cons.prems(1-4) f, where chk = False and ck = ck and wr = wr and n = n and pass = pass and ?k0.0 = k0
        and rounds = rounds and j = j and buf = buf] x by auto
  have n: "unat ((r + 1) mod 10) = (unat r + 1) mod 10" using next_block_number[OF Cons.prems(3)] .
  then have "unat ((r + 1) mod 10) < 10" by simp
  moreover have "\<forall>x \<in> set rounds. fires (disk_id d) (map snd (fst x))" using Cons.prems(5) by simp
  ultimately obtain s' k where s': "fun2_loop d buf rounds (Suc j) ((r + 1) mod 10) r False (buf + of_nat (k0 + k1), s1) = Inr (buf + of_nat (k0 + k1 + k), s')"
    "24 * length rounds \<le> k" "k \<le> sum_list (map round_bytes rounds)"
    "block_map d (ata s') = copy_rounds (length rounds) (unat ((r + 1) mod 10)) (unat r) (block_map d (ata s1))" "idle_drive (drive_at (unit_no d) (ata s'))"
    using Cons.IH[OF s1(5,6) _ Cons.prems(3), where j = "Suc j" and ?k0.0 = "k0 + k1"] by blast
  have "block_map d (ata s') = copy_rounds (length (x # rounds)) (unat r) (unat w) (block_map d (ata s))" using s'(4) unfolding s1(4) n by simp
  moreover have "fun2_loop d buf (x # rounds) j r w False (buf + of_nat k0, s) = Inr (buf + of_nat (k0 + (k1 + k)), s')"
    using s'(1) unfolding x s1(1) by (simp only: add.assoc)
  ultimately show ?case using s'(2,3,5) s1(2,3) by (intro exI[of _ s'] exI[of _ "k1 + k"]) simp
qed

lemma copy_rounds_numeral:
  "copy_rounds (numeral k) r w blocks = copy_rounds (pred_numeral k) ((r + 1) mod 10) r (blocks(w := blocks r))"
  by (simp only: numeral_eq_Suc[of k] copy_rounds.simps)

lemma rotated: "i < 10 \<Longrightarrow> copy_rounds 20 1 0 blocks i = blocks ([2, 3, 4, 5, 6, 7, 8, 9, 1, 2] ! i)"
proof -
  assume "i < 10"
  then have "i = 0 \<or> i = 1 \<or> i = 2 \<or> i = 3 \<or> i = 4 \<or> i = 5 \<or> i = 6 \<or> i = 7 \<or> i = 8 \<or> i = 9" by presburger
  then show ?thesis by (elim disjE) (simp_all add: copy_rounds_numeral flip: numeral_2_eq_2)
qed

text \<open>C11: The disk thread of P6 does its work on the emulated drive: given the CPU often enough, it returns from its twenty rounds, so the
comparison of the block it reads back never fails and no assertion stops it, and the ten blocks have moved: blocks 0 to 7 hold what
blocks 2 to 9 held, and blocks 8 and 9 what blocks 1 and 2 held. The old contents of block 0 are gone. No memory comes back to the heap: beside the
two buffers it has lost a queue node for every read and for every pass of the CPU at least, and at most what the turns allow for. The other threads
may allocate within the address space, and do anything to memory except, while the first round reads the block back, to the buffer.\<close>

theorem disk_thread_rotates_blocks:
  assumes "idle_drive (drive_at (unit_no d) (ata s))" "\<forall>b < 10. block_in_range d b (ata s)" "NB_ITERATIONS \<le> length rounds"
    and "\<forall>(rd, wr, ck, n, pass) \<in> set rounds. fires (disk_id d) (map snd rd)" "fires (disk_id d) (map snd (fst (snd (snd (rounds ! 0)))))"
    and "\<forall>m. get_block (memory_after (disk_id d) (map snd (fst (snd (snd (rounds ! 0))))) m) heap = get_block m heap"
    and "unat heap + 1024 + sum_list (map round_bytes (take NB_ITERATIONS rounds)) \<le> 2 ^ 32"
  shows "\<exists>s' k. fun2 d thread_id rounds (heap, s) = Inr (heap + of_nat k, s')
    \<and> 1024 + 12 * (21 + 20) \<le> k \<and> k \<le> 1024 + sum_list (map round_bytes (take NB_ITERATIONS rounds))
    \<and> (\<forall>i < 10. block_map d (ata s') i = block_map d (ata s) ([2, 3, 4, 5, 6, 7, 8, 9, 1, 2] ! i)) \<and> idle_drive (drive_at (unit_no d) (ata s'))"
proof -
  obtain rd wr ck n pass rest where rounds: "rounds = (rd, wr, ck, n, pass) # rest" using assms(3) by (cases rounds) (auto simp: NB_ITERATIONS_def)
  define s1 where "s1 = announce ''FUN 2 INVOKED. I'M POWERFUL: I USE THE DISK!'' ''FUN 2 INVOKED! I'M POWERFUL: I USE THE DISK''
    (value_E9 ''THREAD: '' (word_of_int thread_id) (line [] (puti thread_id (puts ''THREAD: '' s))))"
  have e1: "ata s1 = ata s" by (simp add: s1_def prints_emit)
  have t: "take NB_ITERATIONS rounds = (rd, wr, ck, n, pass) # take 19 rest" by (simp add: rounds NB_ITERATIONS_def)
  have l: "length (take 19 rest) = 19" using assms(3) by (simp add: rounds NB_ITERATIONS_def)
  have a: "idle_drive (drive_at (unit_no d) (ata s1))" "\<forall>b < 10. block_in_range d b (ata s1)" using assms(1,2) by (simp_all add: e1)
  have f: "fires (disk_id d) (map snd rd)" using assms(4) by (simp add: rounds)
  obtain s2 k2 where s2: "fun2_loop d heap ((rd, wr, ck, n, pass) # take 19 rest) 0 1 0 True (heap + of_nat 512, s1)
      = fun2_loop d heap (take 19 rest) (Suc 0) ((1 + 1) mod 10) 1 False (heap + of_nat (512 + k2), s2)"
    "548 \<le> k2" "k2 \<le> round_bytes (rd, wr, ck, n, pass) + 512"
    "block_map d (ata s2) = (block_map d (ata s))(unat (0 :: u32) := block_map d (ata s) (unat (1 :: u32)))" "idle_drive (drive_at (unit_no d) (ata s2))"
    "\<forall>b < 10. block_in_range d b (ata s2)"
  proof -
    have p: "unat (1 :: u32) < 10" "unat (0 :: u32) < 10" by simp_all
    have "512 + round_bytes (rd, wr, ck, n, pass) + 512 \<le> 2 ^ 32" using assms(7) unfolding t by simp
    then have c: "fires (disk_id d) (map snd ck) \<and> 512 \<le> (512 :: nat) \<and> 512 + round_bytes (rd, wr, ck, n, pass) + 512 \<le> 2 ^ 32
        \<and> (\<forall>m. get_block (memory_after (disk_id d) (map snd ck) m) heap = get_block m heap)" using assms(5,6) by (simp add: rounds)
    show thesis using round_copies[OF a p f c, where chk = True and rounds = "take 19 rest" and j = 0, unfolded e1 if_True] that by blast
  qed
  have fr: "\<forall>x \<in> set (take 19 rest). fires (disk_id d) (map snd (fst x))"
    using assms(4) unfolding rounds by (auto dest!: in_set_takeD)
  obtain s3 k3 where s3: "fun2_loop d heap (take 19 rest) (Suc 0) ((1 + 1) mod 10) 1 False (heap + of_nat (512 + k2), s2) = Inr (heap + of_nat (512 + k2 + k3), s3)"
    "24 * 19 \<le> k3" "k3 \<le> sum_list (map round_bytes (take 19 rest))"
    "block_map d (ata s3) = copy_rounds 19 2 1 (block_map d (ata s2))" "idle_drive (drive_at (unit_no d) (ata s3))"
    using rounds_copy[OF s2(5,6) _ _ fr, of "(1 + 1) mod 10" 1 heap "Suc 0" "512 + k2"] unfolding l by auto
  have "copy_rounds 19 2 1 (block_map d (ata s2)) = copy_rounds 20 1 0 (block_map d (ata s))" unfolding s2(4) by (simp add: copy_rounds_numeral[of "num.Bit0 (num.Bit0 (num.Bit1 (num.Bit0 num.One)))"] flip: numeral_2_eq_2)
  then have "\<forall>i < 10. block_map d (ata s3) i = block_map d (ata s) ([2, 3, 4, 5, 6, 7, 8, 9, 1, 2] ! i)" using rotated s3(4) by simp
  moreover have "fun2 d thread_id rounds (heap, s) = Inr (heap + of_nat (512 + k2 + k3), announce ''FUN 2 IS DONE!'' ''FUN 2 IS DONE!'' s3)"
    using assms(3) s2(1) s3(1) by (simp add: fun2_def mem_allocate_def mem_release_def DISK_BLOCK_SIZE_def t s1_def[symmetric])
  moreover have "1024 + 12 * (21 + 20) \<le> 512 + k2 + k3" "512 + k2 + k3 \<le> 1024 + sum_list (map round_bytes (take NB_ITERATIONS rounds))"
    using s2(2,3) s3(2,3) unfolding t by simp_all
  ultimately show ?thesis using s3(5)
    by (intro exI[of _ "announce ''FUN 2 IS DONE!'' ''FUN 2 IS DONE!'' s3"] exI[of _ "512 + k2 + k3"]) simp
qed

section \<open>A run on a small disk\<close>

definition ten_blocks :: drive_t where
  "ten_blocks = demo_drive\<lparr>hdimg := (hdimg demo_drive)\<lparr>hd_size := 5120,
     image_file := concat (map (replicate 512) [0, 1, 2, 3, 4, 5, 6, 7, 8, 9])\<rparr>\<rparr>"

definition ten_block_channel :: channel_t where
  "ten_block_channel = demo_channel\<lparr>drive0 := ten_blocks\<rparr>"

lemma ten_blocks_ok:
  "idle_drive (drive_at 0 ten_block_channel)" "b < 10 \<Longrightarrow> block_in_range (construct_SimpleDisk MASTER 5120) b ten_block_channel"
  "block_map (construct_SimpleDisk MASTER 5120) ten_block_channel 2 = replicate 512 2"
  by (simp_all add: idle_drive_def drive_at_def ten_block_channel_def ten_blocks_def demo_channel_def demo_drive_def controller_init_def
      block_in_range_def unit_no_def id_no_def construct_SimpleDisk_def word_less_nat_alt block_map_def drive_file_def image_read_def)

text \<open>Each wait takes one turn, in which the others allocate four bytes.\<close>

definition demo_round :: round where
  "demo_round = ([(4, \<lambda>m. m, Some MASTER)], [], [(4, \<lambda>m. m, Some MASTER)], 4, \<lambda>m a. 0)"

theorem disk_thread_rotates_blocks_witness:
  "\<exists>s' k. fun2 (construct_SimpleDisk MASTER 5120) 1 (replicate 20 demo_round)
       (0x200000, \<lparr>mem = (\<lambda>_. 0), trace = [], ata = ten_block_channel\<rparr>) = Inr (0x200000 + of_nat k, s') \<and> 1516 \<le> k \<and> k \<le> 1984
    \<and> block_map (construct_SimpleDisk MASTER 5120) (ata s') 0 = replicate 512 2"
proof -
  let ?d = "construct_SimpleDisk MASTER 5120" and ?s = "\<lparr>mem = (\<lambda>_. 0), trace = [], ata = ten_block_channel\<rparr> :: disk_machine"
  let ?xs = "replicate 20 demo_round"
  have d: "unit_no ?d = 0" "disk_id ?d = MASTER" by (simp_all add: unit_no_def id_no_def construct_SimpleDisk_def)
  have b: "round_bytes demo_round = 48" by (simp add: round_bytes_def demo_round_def)
  have "\<exists>s' k. fun2 ?d 1 ?xs (0x200000, ?s) = Inr (0x200000 + of_nat k, s')
    \<and> 1024 + 12 * (21 + 20) \<le> k \<and> k \<le> 1024 + sum_list (map round_bytes (take NB_ITERATIONS ?xs))
    \<and> (\<forall>i < 10. block_map ?d (ata s') i = block_map ?d (ata ?s) ([2, 3, 4, 5, 6, 7, 8, 9, 1, 2] ! i)) \<and> idle_drive (drive_at (unit_no ?d) (ata s'))"
    by (rule disk_thread_rotates_blocks)
      (simp_all add: d ten_blocks_ok(1,2) NB_ITERATIONS_def fires_def set_replicate_conv_if sum_list_replicate b, simp_all add: demo_round_def)
  then obtain s' k where s': "fun2 ?d 1 ?xs (0x200000, ?s) = Inr (0x200000 + of_nat k, s')" "1516 \<le> k" "k \<le> 1984"
    "\<forall>i < 10. block_map ?d (ata s') i = block_map ?d ten_block_channel ([2, 3, 4, 5, 6, 7, 8, 9, 1, 2] ! i)"
    by (auto simp: NB_ITERATIONS_def sum_list_replicate b)
  have "block_map ?d (ata s') 0 = block_map ?d ten_block_channel 2" using s'(4)[rule_format, of 0] by simp
  then show ?thesis using s'(1-3) ten_blocks_ok(3) by auto
qed

end
