(* ===== verification/SimpleFramePools.thy ===== *)
theory SimpleFramePools
  imports Allocator FrameBitmap
begin

text \<open>
  The frame pool of single frames of P2 (simple_frame_pool.C): one bit for each frame, set when the frame is free, the first frame in the
  most significant bit of its byte. \<open>get_frame\<close> looks for a byte that is not 0 and for a bit of it
  without a bound; that the searches end is a consequence of the free count being right. The pool is a source of frames.
\<close>

section \<open>The class\<close>

record simple_frame_pool =
  sf_bitmap :: u32
  sf_nFreeFrames :: u32
  sf_base_frame_no :: u32
  sf_nframes :: u32
  sf_info_frame_no :: u32

type_synonym 'a simple_pool = "simple_frame_pool \<times> 'a machine_scheme"

definition SIMPLE_FRAME_SIZE :: u32 where "SIMPLE_FRAME_SIZE = 4096"

function fill_ones :: "u32 \<Rightarrow> nat \<Rightarrow> nat \<Rightarrow> memory \<Rightarrow> memory" where
  "fill_ones b n i m = (if i * 8 < n then fill_ones b n (Suc i) (m(b + of_nat i := 0xFF)) else m)"
  by pat_completeness auto
termination by (relation "measure (\<lambda>(b, n, i, m). n - i)") auto

declare fill_ones.simps [simp del]

definition construct_SimpleFramePool :: "u32 \<Rightarrow> u32 \<Rightarrow> u32 \<Rightarrow> 'a machine_scheme \<Rightarrow> 'a simple_pool result" where
  "construct_SimpleFramePool base n info s =
     (if \<not> n \<le> SIMPLE_FRAME_SIZE * 8 then Inl Assertion_Failed
      else let b = (if info = 0 then base * SIMPLE_FRAME_SIZE else info * SIMPLE_FRAME_SIZE) in
        if n mod 8 \<noteq> 0 then Inl Assertion_Failed
        else let m = fill_ones b (unat n) 0 (mem s);
                 m' = (if info = 0 then m(b := 0x7F) else m);
                 nfree = (if info = 0 then n - 1 else n)
             in Inr (\<lparr>sf_bitmap = b, sf_nFreeFrames = nfree, sf_base_frame_no = base, sf_nframes = n, sf_info_frame_no = info\<rparr>,
                     puts (''Frame Pool initialized'' @ [CHR 0x0A]) (s\<lparr>mem := m'\<rparr>)))"

text \<open>The two loops of \<open>get_frame\<close>; \<open>i\<close> and \<open>frame_no\<close> are unsigned and wrap, None is a loop that does not end.\<close>

partial_function (option) find_byte :: "memory \<Rightarrow> u32 \<Rightarrow> u32 \<Rightarrow> u32 option" where
  "find_byte m b i = (if m (b + i) = 0 then find_byte m b (i + 1) else Some i)"

partial_function (option) find_mask :: "u8 \<Rightarrow> u8 \<Rightarrow> u32 \<Rightarrow> (u8 \<times> u32) option" where
  "find_mask x msk frame_no = (if msk AND x = 0 then find_mask x (drop_bit 1 msk) (frame_no + 1) else Some (msk, frame_no))"

definition simple_get_frame :: "'a simple_pool \<Rightarrow> (u32 \<times> 'a simple_pool) result option" where
  "simple_get_frame = (\<lambda>(p, s).
     if \<not> 0 < sf_nFreeFrames p then Some (Inl Assertion_Failed)
     else Option.bind (find_byte (mem s) (sf_bitmap p) 0) (\<lambda>i.
       let a = sf_bitmap p + i in
       Option.bind (find_mask (mem s a) 0x80 (sf_base_frame_no p + i * 8)) (\<lambda>(mask, frame_no).
         Some (Inr (frame_no, p\<lparr>sf_nFreeFrames := sf_nFreeFrames p - 1\<rparr>, s\<lparr>mem := (mem s)(a := mem s a XOR mask)\<rparr>)))))"

definition simple_mark_one :: "u32 \<Rightarrow> 'a simple_pool \<Rightarrow> 'a simple_pool result" where
  "simple_mark_one frame_no = (\<lambda>(p, s).
     if \<not> (sf_base_frame_no p \<le> frame_no \<and> frame_no < sf_base_frame_no p + sf_nframes p) then Inl Assertion_Failed
     else let k = frame_no - sf_base_frame_no p; a = sf_bitmap p + k div 8; mask = drop_bit (unat (k mod 8)) 0x80 in
       if mem s a AND mask = 0 then Inl Assertion_Failed
       else Inr (p\<lparr>sf_nFreeFrames := sf_nFreeFrames p - 1\<rparr>, s\<lparr>mem := (mem s)(a := mem s a XOR mask)\<rparr>))"

function simple_mark_loop :: "u32 \<Rightarrow> u32 \<Rightarrow> 'a simple_pool \<Rightarrow> 'a simple_pool result" where
  "simple_mark_loop i stop q = (if i < stop then andthen (simple_mark_one i q) (simple_mark_loop (i + 1) stop) else Inr q)"
  by pat_completeness auto
termination
proof (relation "measure (\<lambda>(i, stop, q). unat stop - unat i)")
  fix i stop :: u32 and q x :: "'a simple_pool"
  assume "i < stop"
  then have "unat i < unat stop" "unat (i + 1) = unat i + 1"
    using unat_u32_less[of stop] by (auto simp: word_less_nat_alt unat_word_ariths)
  then show "((i + 1, stop, x), (i, stop, q)) \<in> measure (\<lambda>(i, stop, q). unat stop - unat i)" by simp
qed simp

declare simple_mark_loop.simps [simp del]

definition simple_mark_inaccessible :: "u32 \<Rightarrow> u32 \<Rightarrow> 'a simple_pool \<Rightarrow> 'a simple_pool result" where
  "simple_mark_inaccessible base n = simple_mark_loop base (base + n)"

text \<open>The body of \<open>release_frame\<close> is compiled out.\<close>

definition simple_release_frame :: "u32 \<Rightarrow> 'a simple_pool \<Rightarrow> 'a simple_pool" where
  "simple_release_frame frame_no q = q"

section \<open>The searches\<close>

lemma find_byte_least:
  assumes "m (b + of_nat k) \<noteq> 0" "i \<le> k"
  shows "\<exists>j. i \<le> j \<and> j \<le> k \<and> find_byte m b (of_nat i) = Some (of_nat j) \<and> m (b + of_nat j) \<noteq> 0
    \<and> (\<forall>l. i \<le> l \<and> l < j \<longrightarrow> m (b + of_nat l) = 0)"
  using assms
proof (induction "k - i" arbitrary: i)
  case 0
  then show ?case by (intro exI[of _ k]) (auto simp: find_byte.simps)
next
  case (Suc d)
  show ?case
  proof (cases "m (b + of_nat i) = 0")
    case True
    have "d = k - Suc i" "Suc i \<le> k" using Suc.hyps(2) by linarith+
    from Suc.hyps(1)[OF this(1) Suc.prems(1) this(2)] obtain j where j: "Suc i \<le> j" "j \<le> k" "find_byte m b (of_nat (Suc i)) = Some (of_nat j)"
      "m (b + of_nat j) \<noteq> 0" "\<forall>l. Suc i \<le> l \<and> l < j \<longrightarrow> m (b + of_nat l) = 0" by blast
    have "find_byte m b (of_nat i) = find_byte m b (of_nat i + 1)" using True by (subst find_byte.simps) simp
    then have "find_byte m b (of_nat i) = Some (of_nat j)" using j(3) by (simp add: add.commute)
    moreover have "m (b + of_nat l) = 0" if "i \<le> l" "l < j" for l using that True j(5) by (cases "l = i") auto
    ultimately show ?thesis using j by (intro exI[of _ j]) auto
  next
    case False
    then show ?thesis using Suc.prems by (intro exI[of _ i]) (auto simp: find_byte.simps)
  qed
qed

lemma mask_test: "c < 8 \<Longrightarrow> drop_bit c 0x80 AND (x :: u8) \<noteq> 0 \<longleftrightarrow> bit x (7 - c)"
  by (simp only: drop_0x80 and.commute[of "2 ^ _"] and_exp_eq_0_iff_not_bit not_not)

lemma find_mask_least:
  assumes "bit (x :: u8) (7 - c)" "c < 8" "i \<le> c"
  shows "\<exists>j. i \<le> j \<and> j \<le> c \<and> find_mask x (drop_bit i 0x80) f = Some (drop_bit j 0x80, f + of_nat (j - i)) \<and> bit x (7 - j)
    \<and> (\<forall>l. i \<le> l \<and> l < j \<longrightarrow> \<not> bit x (7 - l))"
  using assms
proof (induction "c - i" arbitrary: i f)
  case 0
  then show ?case using mask_test[of c x] by (intro exI[of _ c]) (auto simp: find_mask.simps)
next
  case (Suc d)
  show ?case
  proof (cases "bit x (7 - i)")
    case True
    then show ?thesis using Suc.prems mask_test[of i x] by (intro exI[of _ i]) (auto simp: find_mask.simps)
  next
    case False
    have "d = c - Suc i" "Suc i \<le> c" using Suc.hyps(2) by linarith+
    from Suc.hyps(1)[OF this(1) Suc.prems(1,2) this(2), of "f + 1"] obtain j where j: "Suc i \<le> j" "j \<le> c"
      "find_mask x (drop_bit (Suc i) 0x80) (f + 1) = Some (drop_bit j 0x80, f + 1 + of_nat (j - Suc i))" "bit x (7 - j)"
      "\<forall>l. Suc i \<le> l \<and> l < j \<longrightarrow> \<not> bit x (7 - l)" by blast
    have d: "drop_bit 1 (drop_bit i (0x80 :: u8)) = drop_bit (Suc i) 0x80" by simp
    have "find_mask x (drop_bit i 0x80) f = find_mask x (drop_bit (Suc i) 0x80) (f + 1)"
      using False Suc.prems mask_test[of i x] unfolding d[symmetric] by (subst find_mask.simps) simp
    moreover have "j - i = Suc (j - Suc i)" using j(1) by simp
    then have "f + 1 + of_nat (j - Suc i) = f + of_nat (j - i)" by simp
    moreover have "\<not> bit x (7 - l)" if "i \<le> l" "l < j" for l using that False j(5) by (cases "l = i") auto
    ultimately show ?thesis using j by (intro exI[of _ j]) auto
  qed
qed

section \<open>The free frames\<close>

definition sf_bit :: "memory \<Rightarrow> u32 \<Rightarrow> nat \<Rightarrow> bool" where
  "sf_bit m b i \<longleftrightarrow> bit (m (b + of_nat (i div 8))) (7 - i mod 8)"

definition free_indices :: "'a simple_pool \<Rightarrow> nat set" where
  "free_indices = (\<lambda>(p, s). {i. i < unat (sf_nframes p) \<and> sf_bit (mem s) (sf_bitmap p) i})"

definition simple_free :: "'a simple_pool \<Rightarrow> u32 set" where
  "simple_free q = (\<lambda>i. sf_base_frame_no (fst q) + of_nat i) ` free_indices q"

definition simple_ok :: "'a simple_pool \<Rightarrow> bool" where
  "simple_ok q \<longleftrightarrow> unat (sf_nframes (fst q)) \<le> 32768 \<and> unat (sf_nFreeFrames (fst q)) = card (free_indices q)"

lemma free_indices_finite [simp]: "finite (free_indices q)"
  by (rule finite_subset[of _ "{..< unat (sf_nframes (fst q))}"]) (auto simp: free_indices_def split: prod.splits)

lemma sf_bit_clear:
  assumes "i < 2 ^ 32" "j < 2 ^ 32" "sf_bit m b i"
  shows "sf_bit (m(b + of_nat (i div 8) := m (b + of_nat (i div 8)) XOR drop_bit (i mod 8) 0x80)) b j \<longleftrightarrow> j \<noteq> i \<and> sf_bit m b j"
proof -
  have "i div 8 < 2 ^ 32" "j div 8 < 2 ^ 32" using assms by auto
  from add_of_nat_inj[OF this, of b] have e: "b + of_nat (i div 8) = b + of_nat (j div 8) \<longleftrightarrow> i div 8 = j div 8" .
  have r: "i mod 8 < 8" "j mod 8 < 8" by simp_all
  then have n: "7 - j mod 8 = 7 - i mod 8 \<longleftrightarrow> j mod 8 = i mod 8" by linarith
  have ij: "j = i \<longleftrightarrow> j div 8 = i div 8 \<and> j mod 8 = i mod 8" by (metis div_mult_mod_eq)
  show ?thesis
  proof (cases "i div 8 = j div 8")
    case True
    then show ?thesis using assms(3) ij by (simp add: sf_bit_def bit_xor_iff bit_drop_0x80[OF r(1)] n) (metis)
  next
    case False
    then show ?thesis using e ij by (auto simp: sf_bit_def)
  qed
qed

text \<open>With a free frame the searches end at the lowest one.\<close>

lemma searches_end:
  assumes "free_indices (p, s) \<noteq> {}" "unat (sf_nframes p) \<le> 32768"
  defines "i \<equiv> Min (free_indices (p, s))"
  shows "find_byte (mem s) (sf_bitmap p) 0 = Some (of_nat (i div 8))"
    "find_mask (mem s (sf_bitmap p + of_nat (i div 8))) 0x80 f = Some (drop_bit (i mod 8) 0x80, f + of_nat (i mod 8))"
proof -
  let ?m = "mem s" and ?b = "sf_bitmap p"
  have "i \<in> free_indices (p, s)" unfolding i_def using assms(1) by (rule Min_in[OF free_indices_finite])
  then have i: "i < unat (sf_nframes p)" "sf_bit ?m ?b i" by (simp_all add: free_indices_def)
  have least: "\<not> sf_bit ?m ?b l" if "l < i" for l
    using that i(1) Min_le[OF free_indices_finite, of l "(p, s)"] unfolding i_def[symmetric] by (force simp: free_indices_def)
  have "?m (?b + of_nat (i div 8)) \<noteq> 0" using i(2) by (auto simp: sf_bit_def)
  from find_byte_least[where i = 0 and m = ?m and b = ?b and k = "i div 8", OF this] obtain j where j: "j \<le> i div 8" "find_byte ?m ?b 0 = Some (of_nat j)" "?m (?b + of_nat j) \<noteq> 0" by auto
  have "j = i div 8"
  proof (rule ccontr)
    assume "j \<noteq> i div 8"
    then have lt: "j < i div 8" using j(1) by simp
    obtain k where k: "k < 8" "bit (?m (?b + of_nat j)) k" using j(3) u8_eqI[of "?m (?b + of_nat j)" 0] by auto
    let ?l = "8 * j + (7 - k)"
    have l: "?l div 8 = j" "?l mod 8 = 7 - k" "?l < i" using lt by (simp_all add: div_mult_self4)
    have "7 - (7 - k) = k" using k(1) by simp
    then have "sf_bit ?m ?b ?l" using k(2) unfolding sf_bit_def l by simp
    then show False using least[OF l(3)] by simp
  qed
  then show "find_byte ?m ?b 0 = Some (of_nat (i div 8))" using j(2) by simp
  have b: "bit (?m (?b + of_nat (i div 8))) (7 - i mod 8)" "i mod 8 < 8" using i(2) by (simp_all add: sf_bit_def)
  from find_mask_least[OF b, of 0 f] obtain c where c: "c \<le> i mod 8"
    "find_mask (?m (?b + of_nat (i div 8))) 0x80 f = Some (drop_bit c 0x80, f + of_nat c)" "bit (?m (?b + of_nat (i div 8))) (7 - c)" by auto
  have "c = i mod 8"
  proof (rule ccontr)
    assume "c \<noteq> i mod 8"
    then have lt: "c < i mod 8" using c(1) by simp
    let ?l = "8 * (i div 8) + c"
    have c8: "c < 8" using lt b(2) by linarith
    have l: "?l div 8 = i div 8" "?l mod 8 = c" using c8 by simp_all
    have "?l < i" using lt mult_div_mod_eq[of 8 i] by linarith
    moreover have "sf_bit ?m ?b ?l" using c(3) unfolding sf_bit_def l .
    ultimately show False using least by blast
  qed
  then show "find_mask (?m (?b + of_nat (i div 8))) 0x80 f = Some (drop_bit (i mod 8) 0x80, f + of_nat (i mod 8))" using c(2) by simp
qed

lemma get_frame_step:
  assumes "simple_ok (p, s)" "free_indices (p, s) \<noteq> {}"
  defines "i \<equiv> Min (free_indices (p, s))"
  shows "\<exists>t. simple_get_frame (p, s) = Some (Inr (sf_base_frame_no p + of_nat i, p\<lparr>sf_nFreeFrames := sf_nFreeFrames p - 1\<rparr>, t))
    \<and> free_indices (p\<lparr>sf_nFreeFrames := sf_nFreeFrames p - 1\<rparr>, t) = free_indices (p, s) - {i} \<and> trace t = trace s
    \<and> simple_ok (p\<lparr>sf_nFreeFrames := sf_nFreeFrames p - 1\<rparr>, t)"
proof -
  let ?a = "sf_bitmap p + of_nat (i div 8)" and ?q = "p\<lparr>sf_nFreeFrames := sf_nFreeFrames p - 1\<rparr>"
  let ?t = "s\<lparr>mem := (mem s)(?a := mem s ?a XOR drop_bit (i mod 8) 0x80)\<rparr>"
  have n: "unat (sf_nframes p) \<le> 32768" "unat (sf_nFreeFrames p) = card (free_indices (p, s))" using assms(1) by (simp_all add: simple_ok_def)
  then have pos: "0 < unat (sf_nFreeFrames p)" using assms(2) by (simp add: card_gt_0_iff)
  then have pos': "0 < sf_nFreeFrames p" by (simp add: word_less_nat_alt)
  note e = searches_end[OF assms(2) n(1), folded i_def]
  have "sf_base_frame_no p + of_nat (i div 8) * 8 + of_nat (i mod 8) = sf_base_frame_no p + (of_nat (i div 8 * 8 + i mod 8) :: u32)"
    by (simp only: of_nat_add of_nat_mult of_nat_numeral add.assoc)
  then have f: "sf_base_frame_no p + of_nat (i div 8) * 8 + of_nat (i mod 8) = sf_base_frame_no p + (of_nat i :: u32)"
    unfolding div_mult_mod_eq .
  have get: "simple_get_frame (p, s) = Some (Inr (sf_base_frame_no p + of_nat i, ?q, ?t))"
    using pos' e f by (simp add: simple_get_frame_def Let_def)
  have im: "i \<in> free_indices (p, s)" unfolding i_def using assms(2) by (rule Min_in[OF free_indices_finite])
  then have i: "i < 2 ^ 32" "sf_bit (mem s) (sf_bitmap p) i" using n(1) by (auto simp: free_indices_def)
  have fi: "free_indices (?q, ?t) = free_indices (p, s) - {i}"
    using sf_bit_clear[OF i(1) _ i(2)] n(1) by (auto simp: free_indices_def)
  have "simple_ok (?q, ?t)" using pos pos' n im by (simp add: simple_ok_def fi unat_minus_one card_Diff_singleton)
  then show ?thesis using get fi by (intro exI[of _ ?t]) simp
qed

text \<open>A search that does not end is a failure of the source; none happens as long as the invariant holds.\<close>

definition simple_alloc :: "'a simple_pool \<Rightarrow> (u32 \<times> 'a simple_pool) result" where
  "simple_alloc q = (case simple_get_frame q of None \<Rightarrow> Inl Not_Resumed | Some r \<Rightarrow> r)"

lemma free_inj: "q = (p, s) \<Longrightarrow> unat (sf_nframes p) \<le> 32768 \<Longrightarrow> inj_on (\<lambda>i. sf_base_frame_no p + of_nat i) (free_indices q)"
  by (rule inj_onI) (auto simp: free_indices_def of_nat_u32_eq_iff)

interpretation sfp: frame_source simple_alloc simple_free simple_ok
proof
  fix q :: "'a simple_pool"
  assume ok: "simple_ok q" and ne: "simple_free q \<noteq> {}"
  obtain p s where q: "q = (p, s)" by (cases q)
  let ?i = "Min (free_indices (p, s))" and ?p = "p\<lparr>sf_nFreeFrames := sf_nFreeFrames p - 1\<rparr>"
  have ne': "free_indices (p, s) \<noteq> {}" using ne by (simp add: simple_free_def q)
  obtain t where t: "simple_get_frame (p, s) = Some (Inr (sf_base_frame_no p + of_nat ?i, ?p, t))"
    "free_indices (?p, t) = free_indices (p, s) - {?i}" "simple_ok (?p, t)"
    using get_frame_step[OF ok[unfolded q] ne'] by blast
  have im: "?i \<in> free_indices (p, s)" using ne' by (rule Min_in[OF free_indices_finite])
  have inj: "inj_on (\<lambda>i. sf_base_frame_no p + of_nat i) (free_indices (p, s))"
    using ok by (intro free_inj[OF refl]) (simp add: simple_ok_def q)
  have "simple_free (?p, t) = simple_free q - {sf_base_frame_no p + of_nat ?i}"
    using inj_on_image_set_diff[OF inj, of "free_indices (p, s)" "{?i}"] im by (simp add: simple_free_def q t(2))
  then show "\<exists>f t. simple_alloc q = Inr (f, t) \<and> f \<in> simple_free q \<and> simple_free t = simple_free q - {f} \<and> simple_ok t"
    using t(1,3) im by (auto simp: simple_alloc_def q simple_free_def)
qed

section \<open>Construction and reservation\<close>

lemma fill_ones_byte: "j < 2 ^ 29 \<Longrightarrow> n \<le> 2 ^ 32 \<Longrightarrow> fill_ones b n i m (b + of_nat j) = (if i \<le> j \<and> j * 8 < n then 0xFF else m (b + of_nat j))"
proof (induction b n i m rule: fill_ones.induct)
  case (1 b n i m)
  show ?case
  proof (cases "i * 8 < n")
    case True
    let ?m = "m(b + of_nat i := 0xFF)"
    have "b + of_nat i = b + of_nat j \<longleftrightarrow> i = j" using True 1(2,3) by (intro add_of_nat_inj) auto
    then have h: "?m (b + of_nat j) = (if i = j then 0xFF else m (b + of_nat j))" unfolding fun_upd_apply by metis
    have "fill_ones b n (Suc i) ?m (b + of_nat j) = (if Suc i \<le> j \<and> j * 8 < n then 0xFF else if i = j then 0xFF else m (b + of_nat j))"
      using 1(1)[OF True 1(2,3)] unfolding h .
    then show ?thesis using True by (subst fill_ones.simps) auto
  next
    case False
    then show ?thesis by (subst fill_ones.simps) auto
  qed
qed

lemma construct_free:
  assumes "construct_SimpleFramePool base n info s = Inr (p, t)" "0 < n"
  shows "sf_base_frame_no p = base" "free_indices (p, t) = {(if info = 0 then 1 else 0)..<unat n}" "simple_ok (p, t)"
proof -
  let ?b = "if info = 0 then base * SIMPLE_FRAME_SIZE else info * SIMPLE_FRAME_SIZE"
  let ?m = "fill_ones ?b (unat n) 0 (mem s)"
  have n: "unat n \<le> 32768"
    using assms(1) by (auto simp: construct_SimpleFramePool_def SIMPLE_FRAME_SIZE_def word_le_nat_alt split: if_splits)
  have f: "sf_base_frame_no p = base" "sf_nframes p = n" "sf_bitmap p = ?b" "mem t = (if info = 0 then ?m(?b := 0x7F) else ?m)"
      "sf_nFreeFrames p = (if info = 0 then n - 1 else n)"
    using assms(1) by (auto simp: construct_SimpleFramePool_def Let_def split: if_splits)
  have low: "i mod 8 = 0 \<or> i mod 8 = 1 \<or> i mod 8 = 2 \<or> i mod 8 = 3 \<or> i mod 8 = 4 \<or> i mod 8 = 5 \<or> i mod 8 = 6 \<or> i mod 8 = 7" for i :: nat
    using less_8_cases[of "i mod 8"] by simp
  have ff: "bit (0xFF :: u8) (7 - i mod 8)" for i using low[of i] by (elim disjE) simp_all
  have s7: "bit (0x7F :: u8) (7 - i mod 8) \<longleftrightarrow> i mod 8 \<noteq> 0" for i using low[of i] by (elim disjE) simp_all
  have bt: "sf_bit (mem t) (sf_bitmap p) i \<longleftrightarrow> \<not> (info = 0 \<and> i = 0)" if "i < unat n" for i
  proof -
    have d: "i div 8 * 8 < unat n" using that div_mult_mod_eq[of i 8] by linarith
    have "?m (?b + of_nat (i div 8)) = 0xFF" using fill_ones_byte[of "i div 8" "unat n" ?b 0 "mem s"] d that n by simp
    moreover have "?b + of_nat (i div 8) = ?b \<longleftrightarrow> i div 8 = 0"
      using add_of_nat_inj[of "i div 8" 0 ?b] that n by auto
    moreover have "i = 0 \<longleftrightarrow> i div 8 = 0 \<and> i mod 8 = 0" by (metis add_0 div_0 div_mult_mod_eq mod_0 mult_zero_left)
    ultimately show ?thesis
      by (cases "info = 0"; cases "i div 8 = 0") (simp_all only: sf_bit_def f(3,4) fun_upd_apply ff s7 if_True if_False simp_thms)
  qed
  show "sf_base_frame_no p = base" by (rule f(1))
  show fi: "free_indices (p, t) = {(if info = 0 then 1 else 0)..<unat n}"
    using bt by (auto simp: free_indices_def f(2))
  have "unat (n - 1) = unat n - 1" using assms(2) by (simp add: unat_minus_one word_neq_0_conv)
  then show "simple_ok (p, t)" using n by (simp add: simple_ok_def fi f(2,5))
qed

lemma mark_one_result:
  assumes "simple_ok (p, s)" "sf_base_frame_no p \<le> fno" "fno < sf_base_frame_no p + sf_nframes p"
  defines "i \<equiv> unat (fno - sf_base_frame_no p)"
  shows "if i \<in> free_indices (p, s)
    then \<exists>q. simple_mark_one fno (p, s) = Inr q \<and> free_indices q = free_indices (p, s) - {i} \<and> simple_ok q \<and> sf_base_frame_no (fst q) = sf_base_frame_no p
      \<and> sf_nframes (fst q) = sf_nframes p
    else simple_mark_one fno (p, s) = Inl Assertion_Failed"
proof -
  let ?k = "fno - sf_base_frame_no p"
  have n: "unat (sf_nframes p) \<le> 32768" "unat (sf_nFreeFrames p) = card (free_indices (p, s))" using assms(1) by (simp_all add: simple_ok_def)
  have "unat (sf_base_frame_no p + sf_nframes p) \<le> unat (sf_base_frame_no p) + unat (sf_nframes p)" by (simp add: unat_word_ariths)
  then have i: "i < unat (sf_nframes p)" using assms(2,3) by (simp add: i_def unat_sub word_le_nat_alt word_less_nat_alt)
  have a: "?k div 8 = of_nat (i div 8)" "unat (?k mod 8) = i mod 8"
    using unat_of_nat_u32[of "i div 8"] unat_u32_less[of ?k] unfolding i_def by (simp_all add: unat_mod word_unat_eq_iff unat_div)
  let ?a = "sf_bitmap p + of_nat (i div 8)" and ?q = "p\<lparr>sf_nFreeFrames := sf_nFreeFrames p - 1\<rparr>"
  let ?t = "s\<lparr>mem := (mem s)(?a := mem s ?a XOR drop_bit (i mod 8) 0x80)\<rparr>"
  have t: "mem s ?a AND drop_bit (i mod 8) 0x80 = 0 \<longleftrightarrow> \<not> sf_bit (mem s) (sf_bitmap p) i"
    using mask_test[of "i mod 8" "mem s ?a"] by (auto simp: sf_bit_def and.commute)
  have r: "simple_mark_one fno (p, s) = (if sf_bit (mem s) (sf_bitmap p) i then Inr (?q, ?t) else Inl Assertion_Failed)"
    using assms(2,3) by (simp add: simple_mark_one_def Let_def a t)
  show ?thesis
  proof (cases "sf_bit (mem s) (sf_bitmap p) i")
    case True
    then have im: "i \<in> free_indices (p, s)" using i by (simp add: free_indices_def)
    have i32: "i < 2 ^ 32" using i n(1) by simp
    have fi: "free_indices (?q, ?t) = free_indices (p, s) - {i}"
      using sf_bit_clear[OF i32 _ True] n(1) by (auto simp: free_indices_def)
    have pos: "0 < unat (sf_nFreeFrames p)" using im n(2) by (auto simp: card_gt_0_iff)
    then have "0 < sf_nFreeFrames p" by (simp add: word_less_nat_alt)
    then have "simple_ok (?q, ?t)" using pos n im by (simp add: simple_ok_def fi unat_minus_one card_Diff_singleton)
    then show ?thesis using r True im fi by simp
  next
    case False
    then show ?thesis using r by (simp add: free_indices_def)
  qed
qed

section \<open>Serving requests\<close>

lemma serve_run:
  assumes "simple_ok (p, s)" "free_indices (p, s) = {a..<N}" "k \<le> N - a"
  shows "\<exists>u. alloc_n simple_alloc k (p, s) = Inr (map (\<lambda>i. sf_base_frame_no p + of_nat i) [a..<a + k], u)
    \<and> free_indices u = {a + k..<N} \<and> simple_ok u"
  using assms
proof (induction k arbitrary: p s a)
  case (Suc k)
  let ?p = "p\<lparr>sf_nFreeFrames := sf_nFreeFrames p - 1\<rparr>"
  have aN: "a < N" using Suc.prems(3) by simp
  have ne: "free_indices (p, s) \<noteq> {}" using Suc.prems(2) aN by simp
  have mn: "Min (free_indices (p, s)) = a" unfolding Suc.prems(2) using aN by (intro Min_eqI) auto
  obtain t where t: "simple_get_frame (p, s) = Some (Inr (sf_base_frame_no p + of_nat a, ?p, t))"
    "free_indices (?p, t) = free_indices (p, s) - {a}" "simple_ok (?p, t)"
    using get_frame_step[OF Suc.prems(1) ne] unfolding mn by blast
  have fi: "free_indices (?p, t) = {Suc a..<N}" unfolding t(2) Suc.prems(2) by auto
  have "k \<le> N - Suc a" using Suc.prems(3) by simp
  from Suc.IH[OF t(3) fi this] obtain u where u: "alloc_n simple_alloc k (?p, t)
      = Inr (map (\<lambda>i. sf_base_frame_no p + of_nat i) [Suc a..<Suc a + k], u)" "free_indices u = {Suc a + k..<N}" "simple_ok u" by auto
  have "[a..<a + Suc k] = a # [Suc a..<Suc a + k]" by (simp add: upt_conv_Cons)
  moreover have "simple_alloc (p, s) = Inr (sf_base_frame_no p + of_nat a, ?p, t)" by (simp add: simple_alloc_def t(1))
  ultimately show ?case using u by (intro exI[of _ u]) (simp del: upt_Suc)
qed simp

text \<open>C26: The simple frame pool of P2, once constructed, serves every frame it has: the unbounded searches of \<open>get_frame\<close>
end, the requests are answered in ascending order without a gap, starting after the pool's own bitmap when it is kept in the first
frame, and the next request after the last frame fails its assertion instead of searching for ever.\<close>

theorem simple_pool_serves_all:
  fixes s :: "'a machine_scheme"
  assumes "construct_SimpleFramePool base n info s = Inr q" "0 < n"
  defines "own \<equiv> of_bool (info = 0)"
  shows "\<exists>u. alloc_n simple_alloc (unat n - own) q = Inr (map (\<lambda>i. base + of_nat i) [own..<unat n], u)
    \<and> simple_get_frame u = Some (Inl Assertion_Failed)"
proof -
  obtain p t where q: "q = (p, t)" by (cases q)
  note c = construct_free[OF assms(1)[unfolded q] assms(2)]
  have own: "(if info = 0 then 1 else 0) = own" by (simp add: own_def)
  have le: "own \<le> unat n" using assms(2) by (simp add: own_def word_less_nat_alt)
  obtain u where u: "alloc_n simple_alloc (unat n - own) (p, t) = Inr (map (\<lambda>i. base + of_nat i) [own..<own + (unat n - own)], u)"
    "free_indices u = {own + (unat n - own)..<unat n}" "simple_ok u"
    using serve_run[OF c(3) c(2)[unfolded own] order_refl, unfolded c(1)] by blast
  obtain p' t' where u': "u = (p', t')" by (cases u)
  have "sf_nFreeFrames p' = 0" using u(2,3) le unfolding u' by (simp add: simple_ok_def unat_eq_0)
  then have "simple_get_frame u = Some (Inl Assertion_Failed)" by (simp add: simple_get_frame_def u')
  then show ?thesis using u(1) q le_add_diff_inverse[OF le] by auto
qed

theorem simple_pool_serves_all_witness:
  "\<exists>q u. construct_SimpleFramePool 512 16 0 \<lparr>mem = (\<lambda>_. 0), trace = []\<rparr> = Inr q
    \<and> alloc_n simple_alloc 15 q = Inr (map (\<lambda>i. 512 + of_nat i) [1..<16], u) \<and> simple_get_frame u = Some (Inl Assertion_Failed)"
proof -
  obtain q where q: "construct_SimpleFramePool 512 16 0 \<lparr>mem = (\<lambda>_. 0), trace = []\<rparr> = Inr q"
    by (simp add: construct_SimpleFramePool_def SIMPLE_FRAME_SIZE_def Let_def)
  from simple_pool_serves_all[OF q] q show ?thesis by auto
qed

end
