(* ===== verification/DemandPaging.thy ===== *)
theory DemandPaging
  imports PagingProperties
begin

text \<open>
  Programs that run on P4's virtual memory: an instruction that faults runs the handler and is restarted, so
  that the memory a program sees is one store, whatever page faults lie between its accesses. Accesses are
  aligned to their size, so none crosses a page.
\<close>

section \<open>Accesses\<close>

definition then_do :: "'x result option \<Rightarrow> ('x \<Rightarrow> 'y result option) \<Rightarrow> 'y result option" where
  "then_do r f = (case r of None \<Rightarrow> None | Some (Inl e) \<Rightarrow> Some (Inl e) | Some (Inr x) \<Rightarrow> f x)"

lemma then_do_simps [simp]:
  "then_do (Some (Inr x)) f = f x" "then_do (Some (Inl e)) f = Some (Inl e)" "then_do None f = None"
  by (simp_all add: then_do_def)

text \<open>A fault puts its address into CR2, runs the handler and restarts the instruction; None is an instruction that faults for ever.\<close>

partial_function (option) demand_access ::
  "u32 \<Rightarrow> bool \<Rightarrow> 'a paging_state_scheme \<Rightarrow> (u32 \<times> 'a paging_state_scheme) result option" where
  "demand_access a wr s = (case translate a wr s of
     Inr (p, m) \<Rightarrow> Some (Inr (p, s\<lparr>mem := m\<rparr>))
   | Inl fault \<Rightarrow> (case handle_fault (s\<lparr>cr2 := fault_laddr fault\<rparr>) of
       Inl e \<Rightarrow> Some (Inl e)
     | Inr s' \<Rightarrow> demand_access a wr s'))"

definition vstore :: "u32 \<Rightarrow> u32 \<Rightarrow> 'a paging_state_scheme \<Rightarrow> 'a paging_state_scheme result option" where
  "vstore a v s = then_do (demand_access a True s) (\<lambda>(p, s1). Some (Inr (s1\<lparr>mem := write32 (mem s1) p v\<rparr>)))"

definition vload :: "u32 \<Rightarrow> 'a paging_state_scheme \<Rightarrow> (u32 \<times> 'a paging_state_scheme) result option" where
  "vload a s = then_do (demand_access a False s) (\<lambda>(p, s1). Some (Inr (read32 (mem s1) p, s1)))"

section \<open>Arrays\<close>

text \<open>The loops of P4's \<open>GenerateVMPoolMemoryReferences\<close> that fill an array and check it backwards. \<open>TestFailed\<close> prints and loops for ever:
\<open>Aborted\<close>.\<close>

fun fill_array :: "u32 \<Rightarrow> nat \<Rightarrow> nat \<Rightarrow> 'a paging_state_scheme \<Rightarrow> 'a paging_state_scheme result option" where
  "fill_array arr j 0 s = Some (Inr s)"
| "fill_array arr j (Suc n) s = then_do (vstore (arr + 4 * of_nat j) (of_nat j) s) (fill_array arr (Suc j) n)"

fun check_array :: "u32 \<Rightarrow> nat \<Rightarrow> 'a paging_state_scheme \<Rightarrow> 'a paging_state_scheme result option" where
  "check_array arr 0 s = Some (Inr s)"
| "check_array arr (Suc j) s = then_do (vload (arr + 4 * of_nat j) s) (\<lambda>(v, s1).
     if v \<noteq> of_nat j then Some (Inl Aborted) else check_array arr j s1)"

section \<open>One access\<close>

definition user_address :: "u32 \<Rightarrow> bool" where
  "user_address a \<longleftrightarrow> 0 < dir_index a \<and> dir_index a < 1023"

definition page_map :: "'a paging_state_scheme \<Rightarrow> u32 \<Rightarrow> u32 option" where
  "page_map s a = mapping (mem s) (cr3 s) (dir_index a) (table_index a)"

lemma page_map_lookup: "paging_ok s \<Longrightarrow> user_address a \<Longrightarrow> lookup (mem s) (cr3 s) a = map_option (\<lambda>f. (f, True)) (page_map s a)"
  by (simp add: page_map_def lookup_mapping paging_ok_def user_address_def)

lemma page_map_same_page: "page_of a = page_of b \<Longrightarrow> page_map s a = page_map s b"
  by (simp add: page_map_def page_indices)

text \<open>The physical address, in a page of data.\<close>

lemma physical_address:
  assumes "page_aligned f"
  shows "page_of (f OR (a AND 0xFFF)) = f" "aligned4 a \<Longrightarrow> aligned4 (f OR (a AND 0xFFF))" "(f OR (a AND 0xFFF)) AND 0xFFF = a AND 0xFFF"
proof -
  have f: "bit f n \<Longrightarrow> 12 \<le> n" for n using bit_page_aligned[OF assms] .
  have m: "(0xFFF :: u32) = mask 12" by (rule mask_numerals)
  show "page_of (f OR (a AND 0xFFF)) = f"
    unfolding page_of_def mask_numerals(1,2) by (rule bit_word_eqI) (auto simp: bit_simps dest: f)
  show o: "(f OR (a AND 0xFFF)) AND 0xFFF = a AND 0xFFF"
    unfolding mask_numerals(1) by (rule bit_word_eqI) (auto simp: bit_simps dest: f)
  assume "aligned4 a"
  then have "(a AND 0xFFF) AND 3 = 0" by (simp add: aligned4_iff_bits and.assoc and.left_commute[of a])
  moreover have "(f OR (a AND 0xFFF)) AND 3 = ((f OR (a AND 0xFFF)) AND 0xFFF) AND 3" by (simp add: and.assoc)
  ultimately show "aligned4 (f OR (a AND 0xFFF))" unfolding aligned4_iff_bits o by simp
qed

definition same_but_memory :: "'a paging_state_scheme \<Rightarrow> 'a paging_state_scheme \<Rightarrow> bool" where
  "same_but_memory s s' \<longleftrightarrow> s' = s\<lparr>mem := mem s', pools := pools s', cr2 := cr2 s'\<rparr>"

lemma same_but_memory_trans: "same_but_memory s t \<Longrightarrow> same_but_memory t u \<Longrightarrow> same_but_memory s u"
  unfolding same_but_memory_def by (cases s, cases t, cases u) simp

lemma same_but_memory_fields:
  assumes "same_but_memory s s'"
  shows "cr3 s' = cr3 s" "process_mem_pool s' = process_mem_pool s" "cr0 s' = cr0 s"
    "page_tables s' = page_tables s" "vm_pools s' = vm_pools s" "current_page_table s' = current_page_table s"
  by (subst assms[unfolded same_but_memory_def], simp)+

definition frames_left :: "'a paging_state_scheme \<Rightarrow> nat" where
  "frames_left s = card (free_frames (process_mem_pool s) s)"

definition legal :: "'a paging_state_scheme \<Rightarrow> u32 \<Rightarrow> bool" where
  "legal s a \<longleftrightarrow> user_address a \<and> (\<exists>t. current_page_table s = Some t \<and> check_address (page_tables s ! t) (vm_pools s) a)"

text \<open>What an access leaves: the pages mapped so far, their bytes, and all but two of the free frames.\<close>

definition keeps_data :: "'a paging_state_scheme \<Rightarrow> 'a paging_state_scheme \<Rightarrow> bool" where
  "keeps_data s s' \<longleftrightarrow> same_but_memory s s' \<and> (\<forall>b f. user_address b \<and> page_map s b = Some f \<longrightarrow> page_map s' b = Some f)"

lemma access_mapped:
  assumes ok: "paging_ok s" and a: "user_address a" and f: "page_map s a = Some f"
  obtains s' where "demand_access a wr s = Some (Inr (f OR (a AND 0xFFF), s'))" "paging_ok s'" "keeps_data s s'"
    "page_map s' a = Some f" "frames_left s' = frames_left s" "\<And>x. data_byte s x \<Longrightarrow> mem s' x = mem s x"
proof -
  have r: "bit (cr0 s) 31" "page_of (cr3 s) = cr3 s" using ok by (simp_all add: paging_ok_def recursive_def page_aligned_def)
  have l: "lookup (mem s) (page_of (cr3 s)) a = Some (f, True)" using page_map_lookup[OF ok a] f r(2) by simp
  obtain m where m: "translate_linear True (bit (cr0 s) 16) (cr3 s) a False wr (mem s) = Inr (f OR (a AND 0xFFF), m)"
    "\<And>b. aligned4 b \<Longrightarrow> entry_val m b = entry_val (mem s) b"
    "\<And>x. page_of x \<noteq> page_of (cr3 s) \<Longrightarrow> page_of x \<noteq> page_of (entry_val (mem s) (entry_at (page_of (cr3 s)) (dir_index a))) \<Longrightarrow> m x = mem s x"
    by (rule translate_mapped[OF l, of "bit (cr0 s) 16" wr], simp, rule that)
  let ?s = "s\<lparr>mem := m\<rparr>"
  obtain t where t: "entry (mem s) (entry_at (cr3 s) (dir_index a)) = Some t" using f by (auto simp: page_map_def mapping_Some)
  have i: "dir_index a < 1023" using a by (simp add: user_address_def)
  have tp: "page_of (entry_val (mem s) (entry_at (cr3 s) (dir_index a))) = t" using t by (auto simp: entry_def Let_def split: if_splits)
  have tt: "t \<in> pool_pages (process_mem_pool s) s" using table_frames_ok[OF ok] t i by (auto simp: table_frames_def)
  obtain dd: "cr3 s \<in> pool_pages (process_mem_pool s) s" by (rule directory_in_pool[OF ok], rule that)
  have o: "mem ?s x = mem s x" if "page_of x \<noteq> cr3 s" "page_of x \<noteq> t" for x using m(3)[of x] that by (simp add: r(2) tp del: entry_val_page)
  have q: "paging_ok ?s" "free_frames (process_mem_pool s) ?s = free_frames (process_mem_pool s) s"
    "\<And>i j. i < 1023 \<Longrightarrow> j < 1024 \<Longrightarrow> mapping (mem ?s) (cr3 s) i j = mapping (mem s) (cr3 s) i j"
    by (rule paging_ok_quiet[OF ok]; use m(2) o tt dd in force)+
  have pm: "page_map ?s b = page_map s b" if "user_address b" for b
    using q(3)[of "dir_index b" "table_index b"] that table_index_less[of b] by (simp add: page_map_def user_address_def)
  show ?thesis
  proof (rule that)
    show "demand_access a wr s = Some (Inr (f OR (a AND 0xFFF), ?s))"
      using m(1) r(1) by (subst demand_access.simps) (simp add: translate_def)
    show "keeps_data s ?s" using pm by (auto simp: keeps_data_def same_but_memory_def)
    show "mem ?s x = mem s x" if "data_byte s x" for x
      using o data_byte_apart(2)[OF ok that] data_byte_apart(3)[OF ok that i t] by blast
  qed (use q pm a f in \<open>simp_all add: frames_left_def\<close>)
qed

lemma access_ok:
  assumes ok: "paging_ok s" and a: "legal s a" and two: "page_map s a = None \<Longrightarrow> 2 \<le> frames_left s"
  obtains f s' where "demand_access a wr s = Some (Inr (f OR (a AND 0xFFF), s'))" "paging_ok s'" "keeps_data s s'"
    "page_map s' a = Some f" "frames_left s \<le> frames_left s' + 2 * of_bool (page_map s a = None)"
    "\<And>x. data_byte s x \<Longrightarrow> mem s' x = mem s x"
proof -
  have u: "user_address a" using a by (simp add: legal_def)
  show ?thesis
  proof (cases "page_map s a")
    case (Some f)
    obtain s' where s': "demand_access a wr s = Some (Inr (f OR (a AND 0xFFF), s'))" "paging_ok s'" "keeps_data s s'"
      "page_map s' a = Some f" "frames_left s' = frames_left s" "\<And>x. data_byte s x \<Longrightarrow> mem s' x = mem s x"
      by (rule access_mapped[OF ok u Some, of wr], rule that)
    show ?thesis by (rule that[OF s'(1-4)]) (use s'(5,6) in simp_all)
  next
    case None
    let ?s = "s\<lparr>cr2 := a\<rparr>"
    obtain t where t: "current_page_table s = Some t" "check_address (page_tables s ! t) (vm_pools s) a"
      using a by (auto simp: legal_def)
    have ok2: "paging_ok ?s" and ff: "free_frames k ?s = free_frames k s" for k
      using paging_ok_cong[of ?s s] ok by simp_all
    have i: "0 < dir_index a" "dir_index a < 1023" using u by (simp_all add: user_address_def)
    obtain f s1 where h: "handle_fault ?s = Inr s1" "paging_ok s1" "s1 = ?s\<lparr>mem := mem s1, pools := pools s1\<rparr>"
      "mapping (mem s1) (cr3 s) (dir_index a) (table_index a) = Some (4096 * f)"
      "\<And>i' l. i' < 1023 \<Longrightarrow> l < 1024 \<Longrightarrow> (i', l) \<noteq> (dir_index a, table_index a) \<Longrightarrow>
         mapping (mem s1) (cr3 s) i' l = mapping (mem s) (cr3 s) i' l"
      "card (free_frames (process_mem_pool s) ?s) \<le> card (free_frames (process_mem_pool s) s1) + 2"
      "\<And>x. data_byte ?s x \<Longrightarrow> mem s1 x = mem s x"
      by (rule handle_fault_result[OF ok2, of t]) (use t i two None in \<open>simp_all add: ff frames_left_def page_map_def\<close>)
    have sb: "same_but_memory s s1" unfolding same_but_memory_def by (subst h(3), subst h(3)) simp
    note c = same_but_memory_fields[OF sb]
    have m: "mapping (mem s1) (cr3 s) i' l = Some g" if "i' < 1023" "l < 1024" "mapping (mem s) (cr3 s) i' l = Some g" for i' l g
      using h(5)[OF that(1,2)] that(3) None by (cases "(i', l) = (dir_index a, table_index a)") (auto simp: page_map_def)
    have pm: "page_map s1 a = Some (4096 * f)" using h(4) by (simp add: page_map_def c)
    obtain s' where s': "demand_access a wr s1 = Some (Inr (4096 * f OR (a AND 0xFFF), s'))" "paging_ok s'" "keeps_data s1 s'"
      "page_map s' a = Some (4096 * f)" "frames_left s' = frames_left s1" "\<And>x. data_byte s1 x \<Longrightarrow> mem s' x = mem s1 x"
      by (rule access_mapped[OF h(2) u pm, of wr], rule that)
    have r: "bit (cr0 s) 31" "page_of (cr3 s) = cr3 s" using ok by (simp_all add: paging_ok_def recursive_def page_aligned_def)
    have "translate a wr s = Inl (page_fault_at ERROR_NOT_PRESENT a False wr)"
      using translate_unmapped[of "mem s" "cr3 s" a] page_map_lookup[OF ok u] None r by (simp add: translate_def)
    then have run: "demand_access a wr s = demand_access a wr s1"
      using h(1) by (subst demand_access.simps) (simp add: page_fault_at_def)
    show ?thesis
    proof (rule that)
      show "demand_access a wr s = Some (Inr (4096 * f OR (a AND 0xFFF), s'))" using run s'(1) by simp
      have "page_map s1 b = Some g" if "user_address b" "page_map s b = Some g" for b g
        using m[of "dir_index b" "table_index b" g] that table_index_less[of b] by (simp add: page_map_def c user_address_def)
      then show "keeps_data s s'"
        using s'(3) sb same_but_memory_trans unfolding keeps_data_def by blast
      show "frames_left s \<le> frames_left s' + 2 * of_bool (page_map s a = None)"
        using h(6) s'(5) None by (simp add: frames_left_def c ff)
      show "mem s' x = mem s x" if x: "data_byte s x" for x
      proof -
        have "data_byte s1 x" using data_byte_mono[OF c(1) x] m by blast
        moreover have "data_byte ?s x" using x by (simp add: data_byte_def)
        ultimately show ?thesis using s'(6) h(7) by simp
      qed
    qed (use s' in simp_all)
  qed
qed

section \<open>Memory as a program sees it\<close>

definition content :: "'a paging_state_scheme \<Rightarrow> u32 \<Rightarrow> u32 option" where
  "content s a = map_option (\<lambda>f. read32 (mem s) (f OR (a AND 0xFFF))) (page_map s a)"

lemma page_map_frame:
  assumes "page_map s a = Some f" "user_address a"
  shows "page_aligned f" "page_of x = f \<Longrightarrow> data_byte s x"
proof -
  show "page_aligned f" using assms(1) entry_page_aligned by (auto simp: page_map_def mapping_Some)
  show "data_byte s x" if "page_of x = f"
    using assms that table_index_less[of a] unfolding data_byte_def page_map_def user_address_def by blast
qed

lemma read_data:
  assumes "aligned4 p" "\<And>x. page_of x = page_of p \<Longrightarrow> m' x = m x"
  shows "read32 m' p = read32 m p"
proof -
  have "m' (p + of_nat i) = m (p + of_nat i)" if "i < 4" for i by (rule assms(2)[OF page_of_add[OF assms(1) that]])
  from this[of 0] this[of 1] this[of 2] this[of 3] show ?thesis by (simp add: read32_def)
qed

lemma content_kept:
  assumes "keeps_data s s'" "\<And>x. data_byte s x \<Longrightarrow> mem s' x = mem s x"
    and b: "user_address b" "aligned4 b" "content s b = Some w"
  shows "content s' b = Some w"
proof -
  obtain f where f: "page_map s b = Some f" "w = read32 (mem s) (f OR (b AND 0xFFF))" using b(3) by (auto simp: content_def)
  note fr = page_map_frame[OF f(1) b(1)]
  note pa = physical_address[OF fr(1), of b]
  have "read32 (mem s') (f OR (b AND 0xFFF)) = read32 (mem s) (f OR (b AND 0xFFF))"
    using assms(2) fr(2) pa(1) by (intro read_data pa(2) b(2)) simp
  moreover have "page_map s' b = Some f" using assms(1) f(1) b(1) by (simp add: keeps_data_def)
  ultimately show ?thesis using f(2) by (simp add: content_def)
qed

text \<open>Different addresses are different physical addresses.\<close>

lemma physical_inj:
  assumes ok: "paging_ok s" and u: "user_address a" "user_address b" and m: "page_map s a = Some f" "page_map s b = Some g"
    and eq: "f OR (a AND 0xFFF) = g OR (b AND 0xFFF)"
  shows "a = b"
proof -
  note fa = physical_address[OF page_map_frame(1)[OF m(1) u(1)], of a]
  note gb = physical_address[OF page_map_frame(1)[OF m(2) u(2)], of b]
  have fg: "f = g" "a AND 0xFFF = b AND 0xFFF" using fa(1,3) gb(1,3) eq by metis+
  have "Page (dir_index a) (table_index a) = Page (dir_index b) (table_index b)"
    by (rule one_owner[OF ok, of _ f]) (use m u fg table_index_less in \<open>auto simp: page_map_def user_address_def\<close>)
  then have p: "page_of a = page_of b" by (simp add: page_indices)
  have "x = page_of x OR (x AND 0xFFF)" for x :: u32
    unfolding page_of_def mask_numerals(1,2) by (rule bit_word_eqI) (auto simp: bit_simps)
  then show "a = b" using p fg(2) by metis
qed

lemma vload_ok:
  assumes ok: "paging_ok s" and a: "legal s a" "aligned4 a" and w: "content s a = Some w"
  obtains s' where "vload a s = Some (Inr (w, s'))" "paging_ok s'" "keeps_data s s'" "frames_left s' = frames_left s"
    "\<And>b v. user_address b \<Longrightarrow> aligned4 b \<Longrightarrow> content s b = Some v \<Longrightarrow> content s' b = Some v"
proof -
  have u: "user_address a" using a(1) by (simp add: legal_def)
  obtain f where f: "page_map s a = Some f" using w by (auto simp: content_def)
  obtain s' where s': "demand_access a False s = Some (Inr (f OR (a AND 0xFFF), s'))" "paging_ok s'" "keeps_data s s'"
    "page_map s' a = Some f" "frames_left s' = frames_left s" "\<And>x. data_byte s x \<Longrightarrow> mem s' x = mem s x"
    by (rule access_mapped[OF ok u f, of False], rule that)
  have k: "content s' b = Some v" if "user_address b" "aligned4 b" "content s b = Some v" for b v
    by (rule content_kept[OF s'(3,6) that])
  have "read32 (mem s') (f OR (a AND 0xFFF)) = w" using k[OF u a(2) w] s'(4) by (simp add: content_def)
  then show ?thesis using that[of s'] s'(1,2,3,5) k by (simp add: vload_def)
qed

lemma vstore_ok:
  assumes ok: "paging_ok s" and a: "legal s a" "aligned4 a" and two: "page_map s a = None \<Longrightarrow> 2 \<le> frames_left s"
  obtains s' where "vstore a v s = Some (Inr s')" "paging_ok s'" "keeps_data s s'" "content s' a = Some v"
    "frames_left s \<le> frames_left s' + 2 * of_bool (page_map s a = None)"
    "\<And>b w. user_address b \<Longrightarrow> aligned4 b \<Longrightarrow> b \<noteq> a \<Longrightarrow> content s b = Some w \<Longrightarrow> content s' b = Some w"
proof -
  have u: "user_address a" using a(1) by (simp add: legal_def)
  obtain f s1 where s1: "demand_access a True s = Some (Inr (f OR (a AND 0xFFF), s1))" "paging_ok s1" "keeps_data s s1"
    "page_map s1 a = Some f" "frames_left s \<le> frames_left s1 + 2 * of_bool (page_map s a = None)"
    "\<And>x. data_byte s x \<Longrightarrow> mem s1 x = mem s x"
    by (rule access_ok[OF ok a(1) two, of True], assumption, rule that)
  let ?p = "f OR (a AND 0xFFF)"
  let ?s = "s1\<lparr>mem := write32 (mem s1) ?p v\<rparr>"
  note fr = page_map_frame[OF s1(4) u]
  note pa = physical_address[OF fr(1), of a]
  have p4: "aligned4 ?p" by (rule pa(2)[OF a(2)])
  note da = data_byte_apart[OF s1(2) fr(2)[OF pa(1)], unfolded pa(1)]
  have dp: "page_aligned (cr3 s1)" using s1(2) by (simp add: paging_ok_def recursive_def)
  have out: "entry_val (mem ?s) b = entry_val (mem s1) b" if "aligned4 b" "page_of b \<noteq> f" for b
    using entry_val_write32[OF p4 that(1), of "mem s1" v] pa(1) that(2) by auto
  have lay: "layout (process_mem_pool s1) s1" using s1(2) by (simp add: paging_ok_def)
  have fp: "f \<in> pool_pages (process_mem_pool s1) s1"
  proof -
    obtain g where "g \<in> head_frames (process_mem_pool s1) s1" "f = 4096 * g" using da(4) by blast
    then show ?thesis using frame_number(2)[OF lay] by blast
  qed
  have dir: "entry_val (mem ?s) (entry_at (cr3 s1) i) = entry_val (mem s1) (entry_at (cr3 s1) i)" if "i < 1024" for i
    using out[OF aligned4_entry_at[OF dp that]] page_of_entry_at[OF dp that] da(2) by auto
  have tab: "entry_val (mem ?s) (entry_at t j) = entry_val (mem s1) (entry_at t j)"
    if "i < 1023" "entry (mem s1) (entry_at (cr3 s1) i) = Some t" "j < 1024" for i t j
    using out[OF aligned4_entry_at[OF entry_page_aligned[OF that(2)] that(3)]]
      page_of_entry_at[OF entry_page_aligned[OF that(2)] that(3)] da(3)[OF that(1,2)] by auto
  have pb: "mem ?s x = mem s1 x" if "x \<in> pool_bytes (process_mem_pool s1) s1" for x
  proof -
    have "page_of x \<noteq> f" using lay that fp by (auto simp: layout_def)
    then show ?thesis using write32_other_page[OF p4, of x] pa(1) by simp
  qed
  have shape: "?s = s1\<lparr>mem := mem ?s\<rparr>" by simp
  note q = paging_ok_entries[OF s1(2) shape dir tab pb]
  have pm: "page_map ?s b = page_map s1 b" if "user_address b" for b
    using q(3)[where i = "dir_index b" and j = "table_index b"] that table_index_less[of b] by (simp add: page_map_def user_address_def)
  show ?thesis
  proof (rule that)
    show "vstore a v s = Some (Inr ?s)" using s1(1) by (simp add: vstore_def)
    show "content ?s a = Some v" using pm[OF u] s1(4) by (simp add: content_def read32_write32_same)
    show "frames_left s \<le> frames_left ?s + 2 * of_bool (page_map s a = None)" using s1(5) q(2) by (simp add: frames_left_def)
    have "same_but_memory s1 ?s" by (simp add: same_but_memory_def)
    then have "same_but_memory s ?s" using s1(3) same_but_memory_trans unfolding keeps_data_def by blast
    then show "keeps_data s ?s" using s1(3) pm by (simp add: keeps_data_def)
    show "content ?s b = Some w" if b: "user_address b" "aligned4 b" "b \<noteq> a" "content s b = Some w" for b w
    proof -
      have c: "content s1 b = Some w" by (rule content_kept[OF s1(3,6) b(1,2,4)])
      then obtain g where g: "page_map s1 b = Some g" "w = read32 (mem s1) (g OR (b AND 0xFFF))" by (auto simp: content_def)
      have "?p \<noteq> g OR (b AND 0xFFF)" using physical_inj[OF s1(2) u b(1) s1(4) g(1)] b(3) by blast
      moreover have "aligned4 (g OR (b AND 0xFFF))" by (rule physical_address(2)[OF page_map_frame(1)[OF g(1) b(1)] b(2)])
      ultimately show ?thesis using pm[OF b(1)] g p4 by (simp add: content_def read32_write32)
    qed
  qed (rule q(1))
qed

section \<open>Filling and checking an array\<close>

lemma keeps_data_trans:
  assumes "keeps_data s t" "keeps_data t u"
  shows "keeps_data s u"
proof -
  have "same_but_memory s u" using assms same_but_memory_trans unfolding keeps_data_def by blast
  then show ?thesis using assms by (simp add: keeps_data_def)
qed

lemma keeps_data_refl: "keeps_data s s"
  by (simp add: keeps_data_def same_but_memory_def)

lemma legal_kept: "keeps_data s s' \<Longrightarrow> legal s' a = legal s a"
  using same_but_memory_fields[of s s'] by (simp add: keeps_data_def legal_def)

text \<open>Element \<open>i\<close> of an array that starts on a page.\<close>

definition elem :: "u32 \<Rightarrow> nat \<Rightarrow> u32" where
  "elem arr i = arr + 4 * of_nat i"

definition unmapped :: "u32 \<Rightarrow> nat \<Rightarrow> 'a paging_state_scheme \<Rightarrow> nat set" where
  "unmapped arr n s = {q. q < n \<and> page_map s (elem arr (1024 * q)) = None}"

lemma finite_unmapped [simp]: "finite (unmapped arr n s)"
  by (simp add: unmapped_def)

lemma page_aligned_mod: "page_aligned a \<longleftrightarrow> unat a mod 4096 = 0"
proof -
  have "page_aligned a \<longleftrightarrow> a AND mask 12 = 0"
    unfolding page_aligned_def page_of_def mask_numerals(2)
  proof
    assume "a AND NOT (mask 12) = a"
    then have "a AND mask 12 = (a AND NOT (mask 12)) AND mask 12" by simp
    also have "\<dots> = 0" by (rule bit_word_eqI) (simp add: bit_simps)
    finally show "a AND mask 12 = 0" .
  next
    assume "a AND mask 12 = 0"
    moreover have "a = (a AND NOT (mask 12)) OR (a AND mask 12)" by (rule bit_word_eqI) (auto simp: bit_simps)
    ultimately show "a AND NOT (mask 12) = a" by simp
  qed
  also have "\<dots> \<longleftrightarrow> unat (a AND mask 12) = 0" by (simp add: unat_eq_0)
  finally show ?thesis by (simp add: unat_and_mask)
qed

lemma elem_address:
  assumes "page_aligned arr" "unat arr + 4096 * n \<le> 2 ^ 32" "i < 1024 * n"
  shows "unat (elem arr i) = unat arr + 4 * i" "aligned4 (elem arr i)"
    "page_of (elem arr i) = page_of (elem arr (1024 * (i div 1024)))"
proof -
  have u: "unat (elem arr k) = unat arr + 4 * k" if "k < 1024 * n" for k
    using unat_add_of_nat[of arr "4 * k"] assms(2) that by (simp add: elem_def)
  show ui: "unat (elem arr i) = unat arr + 4 * i" by (rule u[OF assms(3)])
  obtain q where q: "unat arr = 4096 * q" using assms(1) by (auto simp: page_aligned_mod)
  have "unat arr + 4 * i = 4 * (1024 * q + i)" by (simp add: q)
  then show "aligned4 (elem arr i)" by (simp only: aligned4_def ui) simp
  have uk: "unat (elem arr (1024 * (i div 1024))) = unat arr + 4096 * (i div 1024)"
    using u[of "1024 * (i div 1024)"] assms(3) by simp
  have p: "page_of x = page_of y" if "unat x div 4096 = unat y div 4096" for x y :: u32
  proof -
    have d: "drop_bit 12 x = drop_bit 12 y" using that by (simp add: word_unat_eq_iff unat_drop_bit)
    have e: "drop_bit 22 z = drop_bit 10 (drop_bit 12 z)" for z :: u32 by simp
    have "drop_bit 22 x = drop_bit 22 y" by (simp only: e d)
    then show ?thesis using d by (simp add: page_indices table_index_def dir_index_def)
  qed
  have d: "(4096 * c + x) div 4096 = c + x div 4096" for c x :: nat by simp
  have e: "4 * i div 4096 = i div 1024" using div_mult_mult1[of 4 i 1024] by simp
  have "4096 * r div 4096 = r" for r :: nat by simp
  then have "(unat arr + 4 * i) div 4096 = (unat arr + 4096 * (i div 1024)) div 4096" by (simp only: q d e)
  then show "page_of (elem arr i) = page_of (elem arr (1024 * (i div 1024)))" by (intro p) (simp only: ui uk)
qed

lemma elem_inj:
  assumes "page_aligned arr" "unat arr + 4096 * n \<le> 2 ^ 32" "i < 1024 * n" "k < 1024 * n"
  shows "elem arr i = elem arr k \<longleftrightarrow> i = k"
proof
  assume "elem arr i = elem arr k"
  then have "unat arr + 4 * i = unat arr + 4 * k" using elem_address(1)[OF assms(1-3)] elem_address(1)[OF assms(1,2,4)] by (simp only:)
  then show "i = k" by simp
qed simp

text \<open>A first access to a page maps it: the pages still unmapped pay for it.\<close>

lemma unmapped_step:
  assumes arr: "page_aligned arr" "unat arr + 4096 * n \<le> 2 ^ 32" "i < 1024 * n"
    and k: "keeps_data s s'" and c: "content s' (elem arr i) \<noteq> None"
    and u: "\<And>k. k < 1024 * n \<Longrightarrow> user_address (elem arr k)"
  shows "card (unmapped arr n s') + of_bool (page_map s (elem arr i) = None) \<le> card (unmapped arr n s)"
proof -
  let ?q = "i div 1024"
  have q: "?q < n" using arr(3) by (simp add: less_mult_imp_div_less mult.commute)
  have same: "page_map t (elem arr i) = page_map t (elem arr (1024 * ?q))" for t :: "'a paging_state_scheme"
    by (rule page_map_same_page[OF elem_address(3)[OF arr]])
  have "unmapped arr n s' \<subseteq> unmapped arr n s"
  proof
    fix q assume q: "q \<in> unmapped arr n s'"
    then have "1024 * q < 1024 * n" by (simp add: unmapped_def)
    from u[OF this] show "q \<in> unmapped arr n s"
      using q k unfolding unmapped_def keeps_data_def by (cases "page_map s (elem arr (1024 * q))") auto
  qed
  moreover have "?q \<notin> unmapped arr n s'" using c same[of s'] by (simp add: unmapped_def content_def)
  ultimately have sub: "unmapped arr n s' \<subseteq> unmapped arr n s - {?q}" by blast
  show ?thesis
  proof (cases "page_map s (elem arr i) = None")
    case True
    then have "?q \<in> unmapped arr n s" using same[of s] q by (simp add: unmapped_def)
    then have "card (unmapped arr n s - {?q}) + 1 = card (unmapped arr n s)" using card_Suc_Diff1[of "unmapped arr n s"] by simp
    then show ?thesis using card_mono[OF _ sub] True by simp
  next
    case False
    then obtain f where "page_map s (elem arr i) = Some f" by auto
    then show ?thesis using card_mono[OF _ sub] card_mono[of "unmapped arr n s" "unmapped arr n s - {?q}"] by simp
  qed
qed

definition has_elems :: "'a paging_state_scheme \<Rightarrow> u32 \<Rightarrow> nat \<Rightarrow> bool" where
  "has_elems s arr n \<longleftrightarrow> (\<forall>i < n. content s (elem arr i) = Some (of_nat i))"

lemma fill_array_ok:
  assumes arr: "page_aligned arr" "unat arr + 4096 * p \<le> 2 ^ 32"
  shows "paging_ok s \<Longrightarrow> \<forall>i < 1024 * p. legal s (elem arr i) \<Longrightarrow> j + n \<le> 1024 * p \<Longrightarrow> has_elems s arr j
    \<Longrightarrow> 2 * card (unmapped arr p s) + c \<le> frames_left s
    \<Longrightarrow> \<exists>s'. fill_array arr j n s = Some (Inr s') \<and> paging_ok s' \<and> keeps_data s s' \<and> has_elems s' arr (j + n)
      \<and> 2 * card (unmapped arr p s') + c \<le> frames_left s'
      \<and> (\<forall>b w. user_address b \<and> aligned4 b \<and> b \<notin> elem arr ` {..<1024 * p} \<and> content s b = Some w \<longrightarrow> content s' b = Some w)"
proof (induction n arbitrary: j s)
  case 0
  then show ?case by (intro exI[of _ s]) (simp add: keeps_data_refl)
next
  case (Suc n)
  have j: "j < 1024 * p" using Suc.prems(3) by simp
  have u: "user_address (elem arr k)" if "k < 1024 * p" for k using Suc.prems(2) that by (simp add: legal_def)
  have two: "2 \<le> frames_left s" if none: "page_map s (elem arr j) = None"
  proof -
    have "page_map s (elem arr (1024 * (j div 1024))) = None"
      using none page_map_same_page[OF elem_address(3)[OF arr j], of s] by simp
    moreover have "j div 1024 < p" using j by (simp add: less_mult_imp_div_less mult.commute)
    ultimately have "unmapped arr p s \<noteq> {}" by (auto simp: unmapped_def)
    then have "0 < card (unmapped arr p s)" by (simp add: card_gt_0_iff)
    then show ?thesis using Suc.prems(5) by simp
  qed
  obtain s1 where s1: "vstore (elem arr j) (of_nat j) s = Some (Inr s1)" "paging_ok s1" "keeps_data s s1"
    "content s1 (elem arr j) = Some (of_nat j)" "frames_left s \<le> frames_left s1 + 2 * of_bool (page_map s (elem arr j) = None)"
    "\<And>b w. user_address b \<Longrightarrow> aligned4 b \<Longrightarrow> b \<noteq> elem arr j \<Longrightarrow> content s b = Some w \<Longrightarrow> content s1 b = Some w"
    by (rule vstore_ok[OF Suc.prems(1) _ elem_address(2)[OF arr j] two, of "of_nat j"])
      (use Suc.prems(2) j in blast, assumption, rule that)
  have l1: "\<forall>i < 1024 * p. legal s1 (elem arr i)" using Suc.prems(2) legal_kept[OF s1(3)] by simp
  have h1: "has_elems s1 arr (Suc j)"
  proof -
    have "content s1 (elem arr i) = Some (of_nat i)" if "i < j" for i
    proof (rule s1(6))
      have i: "i < 1024 * p" using that j by simp
      show "user_address (elem arr i)" "aligned4 (elem arr i)" using u[OF i] elem_address(2)[OF arr i] by simp_all
      show "elem arr i \<noteq> elem arr j" using elem_inj[OF arr i j] that by simp
      show "content s (elem arr i) = Some (of_nat i)" using Suc.prems(4) that by (simp add: has_elems_def)
    qed
    then show ?thesis using s1(4) by (auto simp: has_elems_def less_Suc_eq)
  qed
  have "card (unmapped arr p s1) + of_bool (page_map s (elem arr j) = None) \<le> card (unmapped arr p s)"
    by (rule unmapped_step[OF arr j s1(3) _ u]) (simp_all add: s1(4))
  then have b1: "2 * card (unmapped arr p s1) + c \<le> frames_left s1" using Suc.prems(5) s1(5) by linarith
  have "Suc j + n \<le> 1024 * p" using Suc.prems(3) by simp
  from Suc.IH[OF s1(2) l1 this h1 b1] obtain s' where s': "fill_array arr (Suc j) n s1 = Some (Inr s')" "paging_ok s'"
    "keeps_data s1 s'" "has_elems s' arr (Suc j + n)" "2 * card (unmapped arr p s') + c \<le> frames_left s'"
    "\<forall>b w. user_address b \<and> aligned4 b \<and> b \<notin> elem arr ` {..<1024 * p} \<and> content s1 b = Some w \<longrightarrow> content s' b = Some w" by blast
  have "content s' b = Some w" if "user_address b \<and> aligned4 b \<and> b \<notin> elem arr ` {..<1024 * p} \<and> content s b = Some w" for b w
  proof -
    have "b \<noteq> elem arr j" using that j by auto
    then show ?thesis using s1(6)[of b w] s'(6) that by blast
  qed
  moreover have "fill_array arr j (Suc n) s = Some (Inr s')" using s1(1) s'(1) by (simp add: elem_def)
  ultimately show ?case using s'(2,4,5) keeps_data_trans[OF s1(3) s'(3)] by (intro exI[of _ s']) simp
qed

lemma check_array_ok:
  assumes arr: "page_aligned arr" "unat arr + 4096 * p \<le> 2 ^ 32"
  shows "paging_ok s \<Longrightarrow> \<forall>i < 1024 * p. legal s (elem arr i) \<Longrightarrow> n \<le> 1024 * p \<Longrightarrow> has_elems s arr n
    \<Longrightarrow> \<exists>s'. check_array arr n s = Some (Inr s') \<and> paging_ok s' \<and> keeps_data s s' \<and> frames_left s' = frames_left s
      \<and> (\<forall>b w. user_address b \<and> aligned4 b \<and> content s b = Some w \<longrightarrow> content s' b = Some w)"
proof (induction n arbitrary: s)
  case 0
  then show ?case by (intro exI[of _ s]) (simp add: keeps_data_refl)
next
  case (Suc j)
  have j: "j < 1024 * p" using Suc.prems(3) by simp
  obtain s1 where s1: "vload (elem arr j) s = Some (Inr (of_nat j, s1))" "paging_ok s1" "keeps_data s s1" "frames_left s1 = frames_left s"
    "\<And>b v. user_address b \<Longrightarrow> aligned4 b \<Longrightarrow> content s b = Some v \<Longrightarrow> content s1 b = Some v"
    by (rule vload_ok[OF Suc.prems(1) _ elem_address(2)[OF arr j], of "of_nat j"])
      (use Suc.prems(2,4) j in \<open>simp add: has_elems_def\<close>, use Suc.prems(2,4) j in \<open>simp add: has_elems_def\<close>, rule that)
  have l1: "\<forall>i < 1024 * p. legal s1 (elem arr i)" using Suc.prems(2) legal_kept[OF s1(3)] by simp
  have h1: "has_elems s1 arr j"
    unfolding has_elems_def
  proof (intro allI impI)
    fix i assume i: "i < j"
    then have ip: "i < 1024 * p" using j by simp
    show "content s1 (elem arr i) = Some (of_nat i)"
      by (rule s1(5)[OF _ elem_address(2)[OF arr ip]]) (use Suc.prems(2,4) ip i in \<open>simp_all add: legal_def has_elems_def\<close>)
  qed
  from Suc.IH[OF s1(2) l1 less_imp_le[OF j] h1] obtain s' where s': "check_array arr j s1 = Some (Inr s')" "paging_ok s'"
    "keeps_data s1 s'" "frames_left s' = frames_left s1"
    "\<forall>b w. user_address b \<and> aligned4 b \<and> content s1 b = Some w \<longrightarrow> content s' b = Some w" by blast
  have "check_array arr (Suc j) s = Some (Inr s')" using s1(1) s'(1) by (simp add: elem_def)
  then show ?case using s'(2,4,5) s1(4,5) keeps_data_trans[OF s1(3) s'(3)] by (intro exI[of _ s']) simp
qed

end
