(* ===== verification/VmPoolTest.thy ===== *)
theory VmPoolTest
  imports DemandPaging
begin

text \<open>
  The test of P4's kernel.C, \<open>GenerateVMPoolMemoryReferences\<close>: arrays of growing size are allocated in a virtual
  memory pool, filled, read back and deleted. The pool's regions lie one after the other without a gap (\<open>packed\<close>), because
  \<open>release\<close> never takes one out of the list.
\<close>

section \<open>The test\<close>

text \<open>\<open>new int[n]\<close> asks the current pool for \<open>4 * n\<close> bytes.\<close>

definition operator_new :: "nat \<Rightarrow> u32 \<Rightarrow> 'a paging_state_scheme \<Rightarrow> (u32 \<times> 'a paging_state_scheme) result" where
  "operator_new current_pool sz s = allocate current_pool sz s"

definition operator_delete :: "nat \<Rightarrow> u32 \<Rightarrow> 'a paging_state_scheme \<Rightarrow> 'a paging_state_scheme result" where
  "operator_delete current_pool p s = vm_release current_pool p s"

fun references_loop :: "nat \<Rightarrow> nat \<Rightarrow> nat \<Rightarrow> nat \<Rightarrow> 'a paging_state_scheme \<Rightarrow> 'a paging_state_scheme result option" where
  "references_loop pool size2 i 0 s = Some (Inr s)"
| "references_loop pool size2 i (Suc r) s =
     then_do (Some (operator_new pool (4 * of_nat (size2 * i)) s)) (\<lambda>(arr, s1).
     if \<not> is_legitimate (vm_pools s1 ! pool) arr then Some (Inl Aborted) else
     then_do (fill_array arr 0 (size2 * i) s1) (\<lambda>s2.
     then_do (check_array arr (size2 * i) s2) (\<lambda>s3.
     then_do (Some (operator_delete pool arr s3)) (references_loop pool size2 (Suc i) r))))"

definition GenerateVMPoolMemoryReferences ::
  "nat \<Rightarrow> nat \<Rightarrow> nat \<Rightarrow> 'a paging_state_scheme \<Rightarrow> 'a paging_state_scheme result option" where
  "GenerateVMPoolMemoryReferences pool size1 size2 s = references_loop pool size2 1 (size1 - 1) s"

section \<open>A pool without gaps\<close>

definition vm_end :: "vm_pool \<Rightarrow> nat" where
  "vm_end v = (let r = allocated_list v (num_allocated v - 1) in unat (start_frame r) + unat (region_size r))"

definition packed :: "vm_pool \<Rightarrow> bool" where
  "packed v \<longleftrightarrow> vm_inv v \<and> vm_end v mod 4096 = 0
     \<and> (\<forall>i. Suc i < num_allocated v \<longrightarrow> start_frame (allocated_list v (Suc i)) = region_end (allocated_list v i))"

definition vm_top :: "vm_pool \<Rightarrow> nat" where
  "vm_top v = unat (base_address v) + unat (vm_size v)"

lemma insert_last: "insert_item x (num_allocated v) v =
    v\<lparr>allocated_list := (allocated_list v)(num_allocated v := x), num_allocated := num_allocated v + 1\<rparr>" if "1 \<le> num_allocated v"
proof -
  have "shift_up (num_allocated v - 1) (num_allocated v) l = l" for l
    using that by (subst shift_up.simps) auto
  then show ?thesis by (simp add: insert_item_def)
qed

lemma allocate_packed:
  assumes p: "packed v" and n: "0 < n" "n \<le> 0xFFFFF000" and fit: "vm_end v + unat (round_to_pages n) \<le> vm_top v"
    and slot: "num_allocated v < REGIONS_PER_PAGE"
  defines "a \<equiv> of_nat (vm_end v) :: u32"
  obtains v' where "vm_allocate n v = Inr (a, v')" "packed v'" "vm_end v' = vm_end v + unat (round_to_pages n)"
    "vm_top v' = vm_top v" "num_allocated v' = num_allocated v + 1" "unat a = vm_end v"
    "\<And>b. vm_end v \<le> unat b \<Longrightarrow> unat b < vm_end v' \<Longrightarrow> is_legitimate v' b"
proof -
  let ?l = "allocated_list v" and ?n = "num_allocated v" and ?sz = "round_to_pages n"
  let ?r = "?l (?n - 1)"
  have inv: "vm_inv v" and n1: "1 \<le> ?n" and top: "vm_top v < 2 ^ 32" using p by (simp_all add: packed_def vm_inv_def vm_top_def)
  have sz: "unat ?sz = ((unat n - 1) div 4096 + 1) * 4096" by (rule round_to_pages_unat[OF n])
  then have pos: "0 < ?sz" by (simp add: word_less_nat_alt)
  have gap: "find_gap ?l (?n - 1) ?sz 0 = None"
    unfolding find_gap_None
  proof (intro allI impI)
    fix k assume "0 \<le> k \<and> k < ?n - 1"
    then have "start_frame (?l (Suc k)) = region_end (?l k)" using p by (simp add: packed_def)
    then show "start_frame (?l (k + 1)) - start_frame (?l k) - region_size (?l k) < ?sz" using pos by (simp add: region_end_def)
  qed
  have e: "vm_end v = unat (start_frame ?r) + unat (region_size ?r)" by (simp add: vm_end_def Let_def)
  have sum: "unat (base_address v + vm_size v) = vm_top v"
    using top unat_add_of_nat[of "base_address v" "unat (vm_size v)"] by (simp add: vm_top_def)
  have le: "unat (start_frame ?r) + unat (region_size ?r) \<le> unat (base_address v + vm_size v)" using fit e sum by simp
  have room: "?sz \<le> base_address v + vm_size v - start_frame ?r - region_size ?r"
    using gap_size[OF le] fit e sum unfolding word_le_nat_alt by linarith
  have a: "region_end ?r = a" "unat a = vm_end v"
  proof -
    have lt: "vm_end v < 2 ^ 32" using fit top by simp
    then show ua: "unat a = vm_end v" by (simp add: a_def)
    have "unat (region_end ?r) = vm_end v" using lt unat_add_of_nat[of "start_frame ?r" "unat (region_size ?r)"] by (simp add: region_end_def e)
    then show "region_end ?r = a" using ua by (simp add: word_unat_eq_iff)
  qed
  let ?x = "\<lparr>start_frame = a, region_size = ?sz\<rparr>"
  let ?v = "insert_item ?x ?n v"
  have i: "?n - 1 < ?n" "?n - 1 + 1 = ?n" "\<not> Suc (?n - 1) < ?n" using n1 by simp_all
  have rg: "regions v ! (?n - 1) = ?r" using i by simp
  have inv': "vm_inv ?v"
    using insert_region_ordered(1)[OF inv i(1), of ?sz a ?x] fit e a(1) i(2,3) unfolding rg by (simp add: vm_top_def)
  note eq = insert_last[OF n1, of ?x]
  have end': "vm_end ?v = vm_end v + unat ?sz" by (simp add: eq vm_end_def Let_def a(2)[unfolded vm_end_def Let_def])
  have "start_frame (allocated_list ?v (Suc k)) = region_end (allocated_list ?v k)" if "Suc k < num_allocated ?v" for k
  proof (cases "Suc k = ?n")
    case True
    then have "k = ?n - 1" by simp
    then show ?thesis using True a(1) by (simp add: eq)
  next
    case False
    then show ?thesis using that p by (simp add: eq packed_def)
  qed
  moreover have "vm_end ?v mod 4096 = 0" using p unfolding end' sz packed_def by (metis mod_mult_self1 mult.commute)
  ultimately have "packed ?v" using inv' by (simp add: packed_def)
  moreover have "is_legitimate ?v b" if "vm_end v \<le> unat b" "unat b < vm_end ?v" for b
  proof -
    have "unat (a + ?sz) = vm_end ?v" using unat_add_of_nat[of a "unat ?sz"] a(2) end' fit top by simp
    then have "a \<le> b \<and> b < a + ?sz" using that a(2) by (simp add: word_le_nat_alt word_less_nat_alt)
    then show ?thesis unfolding is_legitimate_def by (intro disjI2 bexI[of _ ?n]) (simp_all add: eq)
  qed
  moreover have "vm_allocate n v = Inr (a, ?v)" using gap room a(1) slot by (simp add: vm_allocate_def add_region_def Let_def)
  ultimately show ?thesis using that[of ?v] end' a(2) by (simp add: eq vm_top_def)
qed

section \<open>The test passes\<close>

text \<open>Pages that an array of \<open>n\<close> ints takes, and the pages of \<open>r\<close> rounds from round \<open>i\<close>.\<close>

definition array_pages :: "nat \<Rightarrow> nat" where
  "array_pages n = (4 * n - 1) div 4096 + 1"

definition rounds_pages :: "nat \<Rightarrow> nat \<Rightarrow> nat \<Rightarrow> nat" where
  "rounds_pages size2 i r = (\<Sum>k\<leftarrow>[i..<i + r]. array_pages (size2 * k))"

lemma rounds_pages_Suc: "rounds_pages size2 i (Suc r) = array_pages (size2 * i) + rounds_pages size2 (Suc i) r"
  by (simp add: rounds_pages_def upt_conv_Cons del: upt_Suc)

lemma array_pages_bound: "n \<le> 1024 * array_pages n"
  by (simp add: array_pages_def)

text \<open>What a round needs of the pool and the state.\<close>

definition pool_ready :: "nat \<Rightarrow> 'a paging_state_scheme \<Rightarrow> bool" where
  "pool_ready pool s \<longleftrightarrow> paging_ok s \<and> pool < length (vm_pools s) \<and> packed (vm_pools s ! pool)
     \<and> (\<exists>t. current_page_table s = Some t \<and> pool \<in> set (vmPools (page_tables s ! t)))
     \<and> 0x400000 \<le> vm_end (vm_pools s ! pool) \<and> vm_top (vm_pools s ! pool) \<le> 0xFFC00000"

lemma user_address_range: "0x400000 \<le> unat a \<Longrightarrow> unat a < 0xFFC00000 \<Longrightarrow> user_address a"
proof -
  assume a: "0x400000 \<le> unat a" "unat a < 0xFFC00000"
  have d: "unat (dir_index a) = unat a div 0x400000" by (simp add: dir_index_def unat_drop_bit)
  have "1 \<le> unat a div 0x400000" using a(1) by (simp add: Suc_le_eq div_greater_zero_iff)
  moreover have "unat a div 0x400000 < 1023" using a(2) by (simp add: less_mult_imp_div_less)
  ultimately show ?thesis unfolding user_address_def word_less_nat_alt d by simp
qed

lemma keeps_data_ready: "keeps_data s s' \<Longrightarrow> paging_ok s' \<Longrightarrow> pool_ready pool s \<Longrightarrow> pool_ready pool s'"
  using same_but_memory_fields[of s s'] by (simp add: keeps_data_def pool_ready_def)

lemma allocate_ready:
  assumes s: "pool_ready pool s" and n: "0 < n" and fit: "vm_end (vm_pools s ! pool) + 4096 * array_pages n \<le> vm_top (vm_pools s ! pool)"
    and slot: "num_allocated (vm_pools s ! pool) < REGIONS_PER_PAGE"
  obtains arr s' where "operator_new pool (4 * of_nat n) s = Inr (arr, s')" "pool_ready pool s'"
    "vm_end (vm_pools s' ! pool) = vm_end (vm_pools s ! pool) + 4096 * array_pages n" "vm_top (vm_pools s' ! pool) = vm_top (vm_pools s ! pool)"
    "frames_left s' = frames_left s" "unat arr = vm_end (vm_pools s ! pool)" "is_legitimate (vm_pools s' ! pool) arr" "page_aligned arr"
    "\<forall>i < 1024 * array_pages n. legal s' (elem arr i)" "page_map s' = page_map s"
    "num_allocated (vm_pools s' ! pool) = num_allocated (vm_pools s ! pool) + 1"
proof -
  let ?v = "vm_pools s ! pool" and ?p = "array_pages n"
  obtain t where t: "current_page_table s = Some t" "pool \<in> set (vmPools (page_tables s ! t))" using s by (auto simp: pool_ready_def)
  have h: "paging_ok s" "pool < length (vm_pools s)" "packed ?v" "0x400000 \<le> vm_end ?v" "vm_top ?v \<le> 0xFFC00000"
    using s by (simp_all add: pool_ready_def)
  have n4: "4 * n \<le> 4096 * ?p" using array_pages_bound[of n] by simp
  have lt: "4 * n < 0xFFC00000" using n4 fit h(4,5) by linarith
  have u: "unat (4 * of_nat n :: u32) = 4 * n"
  proof -
    have "unat (of_nat (4 * n) :: u32) = 4 * n" by (subst unat_of_nat) (use lt in simp)
    then show ?thesis by simp
  qed
  have z: "0 < (4 * of_nat n :: u32)" "(4 * of_nat n :: u32) \<le> 0xFFFFF000" unfolding word_less_nat_alt word_le_nat_alt u using lt n by simp_all
  have rp: "unat (round_to_pages (4 * of_nat n)) = 4096 * ?p" unfolding round_to_pages_unat[OF z] u by (simp add: array_pages_def)
  obtain v' where v': "vm_allocate (4 * of_nat n) ?v = Inr (of_nat (vm_end ?v), v')" "packed v'" "vm_end v' = vm_end ?v + 4096 * ?p"
    "vm_top v' = vm_top ?v" "num_allocated v' = num_allocated ?v + 1" "unat (of_nat (vm_end ?v) :: u32) = vm_end ?v"
    "\<And>b. vm_end ?v \<le> unat b \<Longrightarrow> unat b < vm_end v' \<Longrightarrow> is_legitimate v' b"
    by (rule allocate_packed[OF h(3) z]) (use fit rp slot in simp_all)
  define s' where "s' = puts (''Allocated region of memory.'' @ [CHR 0x0A]) (upd_vm pool (\<lambda>_. v') s)"
  let ?arr = "of_nat (vm_end ?v) :: u32"
  have vs: "vm_pools s' ! pool = v'" using h(2) by (simp add: s'_def upd_vm_def emit_def)
  have same: "paging_ok s' = paging_ok s" "free_frames k s' = free_frames k s" for k
    by (rule paging_ok_cong; simp add: s'_def upd_vm_def emit_def)+
  have ready: "pool_ready pool s'"
    using h t v'(2-4) unfolding pool_ready_def same vs by (simp add: s'_def upd_vm_def emit_def)
  have al: "page_aligned ?arr" using h(3) by (simp add: page_aligned_mod v'(6) packed_def)
  have le: "unat ?arr + 4096 * ?p \<le> 0xFFC00000" using fit h(5) unfolding v'(6) by linarith
  have leg: "\<forall>i < 1024 * ?p. legal s' (elem ?arr i)"
  proof (intro allI impI)
    fix i assume i: "i < 1024 * ?p"
    have e: "unat (elem ?arr i) = vm_end ?v + 4 * i" using elem_address(1)[OF al _ i] le by (simp only: v'(6)) simp
    have "user_address (elem ?arr i)"
      by (rule user_address_range; unfold e; use i h(4) le[unfolded v'(6)] in linarith)
    moreover have "is_legitimate v' (elem ?arr i)" using i by (intro v'(7); unfold e v'(3)) simp_all
    moreover have "current_page_table s' = Some t" "pool \<in> set (vmPools (page_tables s' ! t))"
      using t by (simp_all add: s'_def upd_vm_def emit_def)
    ultimately show "legal s' (elem ?arr i)" unfolding legal_def check_address_def using vs by blast
  qed
  have i0: "is_legitimate v' ?arr" by (rule v'(7)) (simp_all only: v'(3,6), simp_all add: array_pages_def)
  show ?thesis
  proof (rule that)
    show "operator_new pool (4 * of_nat n) s = Inr (?arr, s')" using v'(1) by (simp add: operator_new_def allocate_def s'_def)
    show "frames_left s' = frames_left s" using same(2) by (simp add: frames_left_def) (simp add: s'_def upd_vm_def emit_def)
    show "page_map s' = page_map s" by (simp add: page_map_def fun_eq_iff) (simp add: s'_def upd_vm_def emit_def)
  qed (use ready v' leg al i0 vs in simp_all)
qed

lemma references_loop_ok:
  assumes size2: "0 < size2"
  shows "pool_ready pool s \<Longrightarrow> 0 < i \<Longrightarrow> vm_end (vm_pools s ! pool) + 4096 * rounds_pages size2 i r \<le> vm_top (vm_pools s ! pool)
    \<Longrightarrow> 2 * rounds_pages size2 i r \<le> frames_left s \<Longrightarrow> num_allocated (vm_pools s ! pool) + r \<le> REGIONS_PER_PAGE
    \<Longrightarrow> \<exists>s'. references_loop pool size2 i r s = Some (Inr s') \<and> pool_ready pool s'
      \<and> vm_end (vm_pools s' ! pool) = vm_end (vm_pools s ! pool) + 4096 * rounds_pages size2 i r"
proof (induction r arbitrary: i s)
  case 0
  then show ?case by (simp add: rounds_pages_def)
next
  case (Suc r)
  let ?n = "size2 * i"
  let ?p = "array_pages ?n" and ?rest = "rounds_pages size2 (Suc i) r"
  have n: "0 < ?n" using size2 Suc.prems(2) by simp
  have fit: "vm_end (vm_pools s ! pool) + 4096 * ?p + 4096 * ?rest \<le> vm_top (vm_pools s ! pool)"
    and fr: "2 * ?p + 2 * ?rest \<le> frames_left s"
    using Suc.prems(3,4) by (simp_all add: rounds_pages_Suc)
  obtain arr s1 where a: "operator_new pool (4 * of_nat ?n) s = Inr (arr, s1)" "pool_ready pool s1"
    "vm_end (vm_pools s1 ! pool) = vm_end (vm_pools s ! pool) + 4096 * ?p" "vm_top (vm_pools s1 ! pool) = vm_top (vm_pools s ! pool)"
    "frames_left s1 = frames_left s" "unat arr = vm_end (vm_pools s ! pool)" "is_legitimate (vm_pools s1 ! pool) arr" "page_aligned arr"
    "\<forall>k < 1024 * ?p. legal s1 (elem arr k)" "page_map s1 = page_map s"
    "num_allocated (vm_pools s1 ! pool) = num_allocated (vm_pools s ! pool) + 1"
    by (rule allocate_ready[OF Suc.prems(1) n], use fit in linarith, use Suc.prems(5) in simp, rule that)
  have ok1: "paging_ok s1" using a(2) by (simp add: pool_ready_def)
  have le: "unat arr + 4096 * ?p \<le> 2 ^ 32"
  proof -
    have "vm_top (vm_pools s ! pool) \<le> 0xFFC00000" using Suc.prems(1) by (simp add: pool_ready_def)
    moreover have "unat arr + 4096 * ?p + 4096 * ?rest \<le> vm_top (vm_pools s ! pool)" using fit unfolding a(6) .
    ultimately show ?thesis by simp
  qed
  have "card (unmapped arr ?p s1) \<le> card {..<?p}" by (rule card_mono) (auto simp: unmapped_def)
  then have bud: "2 * card (unmapped arr ?p s1) + 2 * ?rest \<le> frames_left s1" using fr unfolding a(5) by simp
  have h0: "has_elems s1 arr 0" by (simp add: has_elems_def)
  have n4: "0 + ?n \<le> 1024 * ?p" using array_pages_bound[of ?n] by simp
  obtain s2 where s2: "fill_array arr 0 ?n s1 = Some (Inr s2)" "paging_ok s2" "keeps_data s1 s2" "has_elems s2 arr (0 + ?n)"
    "2 * card (unmapped arr ?p s2) + 2 * ?rest \<le> frames_left s2"
    using fill_array_ok[OF a(8) le ok1 a(9) n4 h0 bud] by blast
  have l2: "\<forall>k < 1024 * ?p. legal s2 (elem arr k)" using a(9) legal_kept[OF s2(3)] by simp
  have h2: "has_elems s2 arr ?n" using s2(4) by simp
  obtain s3 where s3: "check_array arr ?n s2 = Some (Inr s3)" "paging_ok s3" "keeps_data s2 s3" "frames_left s3 = frames_left s2"
    using check_array_ok[OF a(8) le s2(2) l2 array_pages_bound h2] by blast
  let ?s = "puts (''ERROR: attempted to release non-allocated region!'' @ [CHR 0x0A]) s3"
  have k: "keeps_data s1 s3" by (rule keeps_data_trans[OF s2(3) s3(3)])
  have vs: "vm_pools s3 = vm_pools s1" using same_but_memory_fields[of s1 s3] k by (simp add: keeps_data_def)
  have r3: "pool_ready pool s3" by (rule keeps_data_ready[OF k s3(2) a(2)])
  have same: "paging_ok ?s = paging_ok s3" "free_frames c ?s = free_frames c s3" for c
    by (rule paging_ok_cong; simp add: emit_def)+
  have r: "pool_ready pool ?s" using r3 unfolding pool_ready_def same by (simp add: emit_def)
  have e: "vm_end (vm_pools ?s ! pool) = vm_end (vm_pools s ! pool) + 4096 * ?p" "vm_top (vm_pools ?s ! pool) = vm_top (vm_pools s ! pool)"
    "num_allocated (vm_pools ?s ! pool) = num_allocated (vm_pools s ! pool) + 1"
    using a(3,4,11) vs by (simp_all add: emit_def)
  have f: "2 * ?rest \<le> frames_left ?s"
  proof -
    have "process_mem_pool ?s = process_mem_pool s3" by (simp add: emit_def)
    then have "frames_left ?s = frames_left s3" by (simp only: frames_left_def same(2))
    then show ?thesis using s2(5) s3(4) by simp
  qed
  have fit': "vm_end (vm_pools ?s ! pool) + 4096 * ?rest \<le> vm_top (vm_pools ?s ! pool)" using fit unfolding e .
  have sl: "num_allocated (vm_pools ?s ! pool) + r \<le> REGIONS_PER_PAGE" using Suc.prems(5) unfolding e(3) by simp
  obtain s' where s': "references_loop pool size2 (Suc i) r ?s = Some (Inr s')" "pool_ready pool s'"
    "vm_end (vm_pools s' ! pool) = vm_end (vm_pools ?s ! pool) + 4096 * ?rest"
    using Suc.IH[OF r zero_less_Suc fit' f sl] by blast
  have "references_loop pool size2 i (Suc r) s = Some (Inr s')"
    using a(1,7) s2(1) s3(1) s'(1) by (simp add: operator_delete_def vm_release_does_nothing)
  then show ?case using s'(2,3) unfolding e by (simp add: rounds_pages_Suc)
qed

section \<open>Properties\<close>

text \<open>C6: the test of P4's virtual memory passes. On a state with working paging, a pool of the current page table
without gaps, and space, frames and entries of the region list for the arrays, \<open>GenerateVMPoolMemoryReferences\<close> ends without a failed check, every page
fault on the way being handled, and leaves working paging behind.\<close>

theorem vm_pool_test_passes:
  assumes "paging_ok s" "current_page_table s = Some t" "pool \<in> set (vmPools (page_tables s ! t))" "pool < length (vm_pools s)"
    "packed (vm_pools s ! pool)" "0x400000 \<le> vm_end (vm_pools s ! pool)" "vm_top (vm_pools s ! pool) \<le> 0xFFC00000"
    and "0 < size2" and "vm_end (vm_pools s ! pool) + 4096 * rounds_pages size2 1 (size1 - 1) \<le> vm_top (vm_pools s ! pool)"
    and "2 * rounds_pages size2 1 (size1 - 1) \<le> frames_left s"
    and "num_allocated (vm_pools s ! pool) + (size1 - 1) \<le> REGIONS_PER_PAGE"
  shows "\<exists>s'. GenerateVMPoolMemoryReferences pool size1 size2 s = Some (Inr s') \<and> paging_ok s'
    \<and> vm_end (vm_pools s' ! pool) = vm_end (vm_pools s ! pool) + 4096 * rounds_pages size2 1 (size1 - 1)"
proof -
  have "pool_ready pool s" using assms(1-7) by (auto simp: pool_ready_def)
  from references_loop_ok[OF assms(8) this zero_less_one assms(9-11)] show ?thesis
    by (auto simp: GenerateVMPoolMemoryReferences_def pool_ready_def)
qed

theorem vm_pool_test_passes_witness:
  "\<exists>s'. GenerateVMPoolMemoryReferences 0 50 100 (faulting 0x20000000) = Some (Inr s') \<and> paging_ok s'
    \<and> vm_end (vm_pools s' ! 0) = 0x20001000 + 4096 * 145"
proof -
  have a: "0x20000000 \<le> (0x20000000 :: u32)" "(0x20000000 :: u32) < 0x20001000" by simp_all
  note f = faulting_facts[OF a]
  have e: "vm_end code_pool = 0x20001000" "vm_top code_pool = 0x30000000" "packed code_pool" "num_allocated code_pool = 1"
    by (simp_all add: code_pool_def vm_end_def vm_top_def packed_def vm_inv_def regions_def round_to_pages_def)
  have p: "rounds_pages 100 1 (50 - 1) = 145" by (simp add: rounds_pages_def array_pages_def upt_conv_Cons)
  have "frames_left (faulting 0x20000000) = 6910" using f(5) by (simp add: frames_left_def)
  then show ?thesis
    using vm_pool_test_passes[of "faulting 0x20000000" 0 0 100 50] f(1,2,7,8) e p by (simp add: REGIONS_PER_PAGE_def)
qed

text \<open>C7: page faults are invisible to a program. A store to a legal address, mapped or not, makes a load of that
address return the value, and leaves every other word that the program could read, and the paging invariant, as they were;
it takes at most two frames.\<close>

theorem page_faults_are_transparent:
  assumes "paging_ok s" "legal s a" "aligned4 a" "2 \<le> frames_left s"
  shows "\<exists>s' s''. vstore a v s = Some (Inr s') \<and> vload a s' = Some (Inr (v, s'')) \<and> paging_ok s''
    \<and> (\<forall>b w. user_address b \<and> aligned4 b \<and> b \<noteq> a \<and> content s b = Some w \<longrightarrow> content s'' b = Some w)
    \<and> frames_left s \<le> frames_left s'' + 2"
proof -
  obtain s' where s': "vstore a v s = Some (Inr s')" "paging_ok s'" "keeps_data s s'" "content s' a = Some v"
    "frames_left s \<le> frames_left s' + 2 * of_bool (page_map s a = None)"
    "\<And>b w. user_address b \<Longrightarrow> aligned4 b \<Longrightarrow> b \<noteq> a \<Longrightarrow> content s b = Some w \<Longrightarrow> content s' b = Some w"
    by (rule vstore_ok[OF assms(1-3) assms(4), of v], rule that)
  have l: "legal s' a" using assms(2) legal_kept[OF s'(3)] by simp
  obtain s'' where s'': "vload a s' = Some (Inr (v, s''))" "paging_ok s''" "frames_left s'' = frames_left s'"
    "\<And>b w. user_address b \<Longrightarrow> aligned4 b \<Longrightarrow> content s' b = Some w \<Longrightarrow> content s'' b = Some w"
    by (rule vload_ok[OF s'(2) l assms(3) s'(4)], rule that)
  have "2 * of_bool (page_map s a = None) \<le> (2 :: nat)" by simp
  then have "frames_left s \<le> frames_left s'' + 2" using s'(5) s''(3) by linarith
  then show ?thesis using s'(1,6) s''(1,2,4) by blast
qed

theorem page_faults_are_transparent_witness:
  "\<exists>s' s''. vstore 0x20000010 7 (faulting 0x20000010) = Some (Inr s') \<and> vload 0x20000010 s' = Some (Inr (7, s''))
    \<and> page_map (faulting 0x20000010) 0x20000010 = None"
proof -
  have a: "0x20000000 \<le> (0x20000010 :: u32)" "(0x20000010 :: u32) < 0x20001000" by simp_all
  note f = faulting_facts[OF a]
  have d: "dir_index 0x20000010 = 0x80" by (simp add: dir_index_def)
  then have u: "user_address 0x20000010" by (simp add: user_address_def)
  then have "legal (faulting 0x20000010) 0x20000010" using f(2,4) by (simp add: legal_def)
  moreover have "page_map (faulting 0x20000010) 0x20000010 = None"
    unfolding page_map_def d by (subst f(6); simp add: table_index_def)
  moreover have "aligned4 0x20000010" by (simp add: aligned4_def)
  ultimately show ?thesis
    using page_faults_are_transparent[where s = "faulting 0x20000010" and a = "0x20000010" and v = "7"] f(1,5) by (fastforce simp: frames_left_def)
qed

end
