(* ===== verification/PagingReach.thy ===== *)
theory PagingReach
  imports DemandPaging
begin

text \<open>
  P4's paging over a whole run: the states that the kernel reaches from its start-up by making and using virtual memory pools,
  by the page faults of programs that access them, and by freeing pages. Accesses go to legal addresses, are aligned, and find two free frames when
  their page is not mapped yet. The kernel's only page table is the one it starts with.
\<close>

section \<open>Runs\<close>

definition frames_suffice :: "u32 \<Rightarrow> 'a paging_state_scheme \<Rightarrow> bool" where
  "frames_suffice a s \<longleftrightarrow> page_map s a = None \<longrightarrow> 2 \<le> frames_left s"

inductive paging_run :: "'a paging_state_scheme \<Rightarrow> bool" where
  boot: "pools s = [] \<Longrightarrow> \<not> bit (cr0 s) 31 \<Longrightarrow> page_tables s = [] \<Longrightarrow> boot_paging s = Inr (t, s') \<Longrightarrow> paging_run s'"
| new_pool: "paging_run s \<Longrightarrow> construct_VMPool garbage base sz fp t s = Inr (k, s') \<Longrightarrow> paging_run s'"
| allocate_region: "paging_run s \<Longrightarrow> allocate k sz s = Inr (a, s') \<Longrightarrow> paging_run s'"
| release_region: "paging_run s \<Longrightarrow> vm_release k a s = Inr s' \<Longrightarrow> paging_run s'"
| store_word: "paging_run s \<Longrightarrow> legal s a \<Longrightarrow> aligned4 a \<Longrightarrow> frames_suffice a s \<Longrightarrow> vstore a v s = Some (Inr s') \<Longrightarrow> paging_run s'"
| load_word: "paging_run s \<Longrightarrow> legal s a \<Longrightarrow> aligned4 a \<Longrightarrow> frames_suffice a s \<Longrightarrow> vload a s = Some (Inr (v, s')) \<Longrightarrow> paging_run s'"
| free_one: "paging_run s \<Longrightarrow> 0 < drop_bit 10 n \<Longrightarrow> drop_bit 10 n < 1023 \<Longrightarrow> free_page n s = Inr s' \<Longrightarrow> paging_run s'"

section \<open>The invariant\<close>

text \<open>\<open>free_page\<close> on a page that is not mapped prints a warning.\<close>

lemma free_page_unused:
  fixes s :: "'a paging_state_scheme"
  assumes ok: "paging_ok s" and i: "0 < drop_bit 10 n" "drop_bit 10 n < 1023"
    and m: "mapping (mem s) (cr3 s) (drop_bit 10 n) (n AND 0x3FF) = None"
  shows "\<exists>s'. free_page n s = Inr s' \<and> paging_ok s'"
proof -
  let ?i = "drop_bit 10 n" and ?j = "n AND 0x3FF" and ?d = "cr3 s"
  let ?warn = "puts (''WARNING: ATTEMPTED TO FREE UNUSED PAGE'' @ [CHR 0x0A])"
  have warn: "paging_ok (?warn t) = paging_ok t" for t :: "'a paging_state_scheme"
    by (rule paging_ok_cong) (simp_all add: emit_def)
  have j: "?j < 1024" unfolding mask_numerals by (simp only: word_less_nat_alt unat_and_mask) simp
  have i4: "?i < 1024" "(1023 :: u32) < 1024" using lt_1023_1024[OF i(2)] by (simp_all add: word_less_nat_alt)
  have r: "recursive s" and d: "page_aligned ?d" using ok by (simp_all add: paging_ok_def recursive_def)
  obtain v1 s1 where l1: "load32 (construct_pte_address 1023 ?i) s = Inr (v1, s1)"
    "v1 AND 1 = 0 \<longleftrightarrow> entry (mem s) (entry_at ?d ?i) = None" "s1 = s\<lparr>mem := mem s1\<rparr>"
    "\<And>b. aligned4 b \<Longrightarrow> entry_val (mem s1) b = entry_val (mem s) b" "paging_ok s1"
    by (rule paging_load[OF ok i4(2,1) recursive_entry(1)[OF r] disjI2[OF refl]], rule that)
  note c1 = mem_pools_fields[OF mem_pools_shape[OF l1(3)]]
  show ?thesis
  proof (cases "entry (mem s) (entry_at ?d ?i)")
    case None
    then have "free_page n s = Inr (?warn s1)"
      unfolding free_page_def Let_def pde_address_is_pte_address using l1(1,2) by simp
    then show ?thesis using warn l1(5) by blast
  next
    case (Some t)
    have "entry (mem s1) (entry_at (cr3 s1) ?i) = Some t"
      unfolding c1 using entry_cong[OF l1(4)[OF aligned4_entry_at[OF d i4(1)]]] Some by simp
    note t1 = this
    obtain v2 s2 where l2: "load32 (construct_pte_address ?i ?j) s1 = Inr (v2, s2)"
      "v2 AND 1 = 0 \<longleftrightarrow> entry (mem s1) (entry_at t ?j) = None" "paging_ok s2"
      by (rule paging_load[OF l1(5) i4(1) j t1 disjI1[OF i(2)]], rule that)
    have "entry (mem s1) (entry_at t ?j) = entry (mem s) (entry_at t ?j)"
      by (rule entry_cong[OF l1(4)[OF aligned4_entry_at[OF entry_page_aligned[OF Some] j]]])
    then have "v2 AND 1 = 0" using m Some l2(2) by (simp add: mapping_def)
    then have "free_page n s = Inr (?warn s2)"
      unfolding free_page_def Let_def pde_address_is_pte_address using l1(1,2) l2(1) Some by (simp add: mask_numerals)
    then show ?thesis using warn l2(3) by blast
  qed
qed

lemma free_page_ok:
  assumes "paging_ok s" "0 < drop_bit 10 n" "drop_bit 10 n < 1023" "free_page n s = Inr s'"
  shows "paging_ok s'"
proof (cases "mapping (mem s) (cr3 s) (drop_bit 10 n) (n AND 0x3FF)")
  case None
  then show ?thesis using free_page_unused[OF assms(1-3)] assms(4) by auto
next
  case (Some f)
  obtain t where "free_page n s = Inr t" "paging_ok t" by (rule free_page_result[OF assms(1-3) Some], rule that)
  then show ?thesis using assms(4) by simp
qed

lemma pool_steps_ok:
  assumes "paging_ok s"
  shows "construct_VMPool garbage base sz fp t s = Inr (k, s') \<Longrightarrow> paging_ok s'"
    "allocate k sz s = Inr (a, s') \<Longrightarrow> paging_ok s'" "vm_release k a s = Inr s' \<Longrightarrow> paging_ok s'"
proof -
  have same: "paging_ok s'" if "mem s' = mem s" "pools s' = pools s" "cr0 s' = cr0 s" "cr3 s' = cr3 s" "process_mem_pool s' = process_mem_pool s"
    using paging_ok_cong(1)[OF that] assms by simp
  show "construct_VMPool garbage base sz fp t s = Inr (k, s') \<Longrightarrow> paging_ok s'"
    by (rule same; auto simp: construct_VMPool_def register_pool_def upd_vm_def emit_def Let_def split: if_splits)
  show "allocate k sz s = Inr (a, s') \<Longrightarrow> paging_ok s'"
    by (rule same; auto simp: allocate_def upd_vm_def emit_def andthen_def split: sum.splits)
  show "vm_release k a s = Inr s' \<Longrightarrow> paging_ok s'" by (rule same; auto simp: vm_release_does_nothing emit_def)
qed

lemma accesses_ok:
  assumes "paging_ok s" "legal s a" "aligned4 a" "frames_suffice a s"
  shows "vstore a v s = Some (Inr s') \<Longrightarrow> paging_ok s'" "vload a s = Some (Inr (w, s')) \<Longrightarrow> paging_ok s'"
proof -
  have two: "page_map s a = None \<Longrightarrow> 2 \<le> frames_left s" using assms(4) by (simp add: frames_suffice_def)
  show "paging_ok s'" if "vstore a v s = Some (Inr s')"
  proof -
    obtain t where "vstore a v s = Some (Inr t)" "paging_ok t" by (rule vstore_ok[OF assms(1-3) two, of v], assumption, rule that)
    then show ?thesis using that by simp
  qed
  show "paging_ok s'" if "vload a s = Some (Inr (w, s'))"
  proof -
    obtain f t where "demand_access a False s = Some (Inr (f OR (a AND 0xFFF), t))" "paging_ok t"
      by (rule access_ok[OF assms(1,2) two, of False], assumption, rule that)
    then show ?thesis using that by (simp add: vload_def)
  qed
qed

lemma paging_run_ok: "paging_run s \<Longrightarrow> paging_ok s"
proof (induction rule: paging_run.induct)
  case (boot s t s')
  obtain t' where "boot_paging s = Inr (0, t')" "paging_ok t'" by (rule boot_paging_result[OF boot(1-3)], rule that)
  then show ?case using boot(4) by simp
qed (blast intro: pool_steps_ok accesses_ok free_page_ok)+

section \<open>The property\<close>

text \<open>C18: Isolation over whole runs of P4's memory management: in every state the kernel reaches from its start-up by making virtual memory pools, allocating
and releasing regions, the loads and stores of programs with their page faults, and freeing pages (accesses to unmapped pages finding two free frames),
a frame that is mapped at an address between 4 MB and the last 4 MB is mapped for one page only and writable, is neither the directory nor a page table, and is
taken from the process pool, so that the pool does not hand it out again.\<close>

theorem mapped_frames_are_exclusive:
  assumes "paging_run s" "user_address a" "user_address b"
    and "lookup (mem s) (cr3 s) a = Some (f, v)" "lookup (mem s) (cr3 s) b = Some (f, w)"
  shows "page_of a = page_of b \<and> v \<and> f \<noteq> cr3 s \<and> (\<forall>i < 1023. entry (mem s) (entry_at (cr3 s) i) \<noteq> Some f)
    \<and> (\<exists>g. f = 4096 * g \<and> g \<in> head_frames (process_mem_pool s) s \<and> g \<notin> free_frames (process_mem_pool s) s)"
proof -
  have ok: "paging_ok s" by (rule paging_run_ok[OF assms(1)])
  have v: "v" "page_map s a = Some f" using assms(4) page_map_lookup[OF ok assms(2)] by auto
  have o: "owned (mem s) (cr3 s) (Page (dir_index a) (table_index a)) = Some f"
    using v(2) assms(2) table_index_less[of a] by (simp add: page_map_def user_address_def)
  obtain g where "f = 4096 * g" "g \<in> head_frames (process_mem_pool s) s" by (rule owned_in_pool[OF ok o], rule that)
  moreover from this(2) have "g \<notin> free_frames (process_mem_pool s) s" using head_free_disjoint by blast
  ultimately show ?thesis using one_page_per_frame[OF ok, of a b f v w] assms(2-5) v(1) by (auto simp: user_address_def)
qed

text \<open>The kernel starts, makes its code pool and a program stores a word there; two addresses of the page then share a frame.\<close>

theorem mapped_frames_are_exclusive_witness:
  "\<exists>(s :: paging_state) f g. paging_run s \<and> lookup (mem s) (cr3 s) 0x20000010 = Some (f, True) \<and> lookup (mem s) (cr3 s) 0x20000014 = Some (f, True)
    \<and> f = 4096 * g \<and> g \<notin> free_frames (process_mem_pool s) s"
proof -
  have p: "pools power_on = []" "\<not> bit (cr0 power_on) 31" "page_tables power_on = []" "vm_pools power_on = []"
    by (simp_all add: power_on_def bit_1_iff)
  obtain t where t: "boot_paging power_on = Inr (0, t)" "paging_ok t" "current_page_table t = Some 0" "process_mem_pool t = 1"
    "page_tables t = [\<lparr>page_directory = cr3 t, vmPools = []\<rparr>]" "vm_pools t = vm_pools power_on" "card (free_frames 1 t) = 6910"
    by (rule boot_paging_result[OF p(1-3)], rule that)
  have r0: "paging_run t" by (rule paging_run.boot[OF p(1-3) t(1)])
  define u where "u = t\<lparr>page_tables := [\<lparr>page_directory = cr3 t, vmPools = [0]\<rparr>], vm_pools := [code_pool],
    trace := trace t @ [Puts (''registered VM pool'' @ [CHR 0x0A]), Puts (''Constructed VMPool object.'' @ [CHR 0x0A])]\<rparr>"
  have "construct_VMPool 0 0x20000000 0x10000000 1 0 t = Inr (0, u)"
    using t(5,6) p(4) by (simp add: construct_VMPool_def register_pool_def upd_vm_def code_pool_def emit_def Let_def u_def)
  with r0 have r1: "paging_run u" by (rule paging_run.new_pool)
  have c: "free_frames k u = free_frames k t" for k by (rule paging_ok_cong) (simp_all add: u_def)
  have fl: "2 \<le> frames_left u" unfolding frames_left_def c using t(4,7) by (simp add: u_def)
  have d: "dir_index 0x20000010 = 0x80" "dir_index 0x20000014 = 0x80" by (simp_all add: dir_index_def)
  then have ua: "user_address 0x20000010" "user_address 0x20000014" by (simp_all add: user_address_def)
  have l: "legal u 0x20000010"
    using ua t(3) by (simp add: legal_def u_def check_address_def is_legitimate_def code_pool_def)
  have a4: "aligned4 0x20000010" by (simp add: aligned4_def)
  obtain s where s: "vstore 0x20000010 7 u = Some (Inr s)" "content s 0x20000010 = Some 7"
    by (rule vstore_ok[OF paging_run_ok[OF r1] l a4 fl, of 7], rule that)
  have r2: "paging_run s" by (rule paging_run.store_word[OF r1 l a4 _ s(1)]) (simp add: frames_suffice_def fl)
  note ok = paging_run_ok[OF r2]
  obtain f where f: "page_map s 0x20000010 = Some f" using s(2) by (auto simp: content_def)
  have "page_of 0x20000014 = page_of 0x20000010" by (simp add: page_of_def)
  then have f': "page_map s 0x20000014 = Some f" using f page_map_same_page by metis
  have lk: "lookup (mem s) (cr3 s) 0x20000010 = Some (f, True)" "lookup (mem s) (cr3 s) 0x20000014 = Some (f, True)"
    using page_map_lookup[OF ok ua(1)] page_map_lookup[OF ok ua(2)] f f' by simp_all
  obtain g where g: "f = 4096 * g" "g \<notin> free_frames (process_mem_pool s) s"
    using mapped_frames_are_exclusive[OF r2 ua lk] by (elim conjE exE) (rule that)
  then show ?thesis using r2 lk by blast
qed

end
