(* ===== verification/MemoryTest.thy ===== *)
theory MemoryTest
  imports KernelPools Memory
begin

text \<open>
  The memory test of P2's kernel.C: \<open>test_memory\<close> takes runs of one to four frames, fills them with a number,
  does the same recursively, checks that its numbers are still there and releases its run. P2 has no paging.
\<close>

section \<open>The test\<close>

function fill_values :: "u32 \<Rightarrow> u32 \<Rightarrow> nat \<Rightarrow> nat \<Rightarrow> memory \<Rightarrow> memory" where
  "fill_values arr v n i m = (if i < n then fill_values arr v n (Suc i) (write32 m (arr + 4 * of_nat i) v) else m)"
  by pat_completeness auto
termination by (relation "measure (\<lambda>(arr, v, n, i, m). n - i)") auto

declare fill_values.simps [simp del]

text \<open>The loop that checks: the first index with another value.\<close>

function wrong_value :: "memory \<Rightarrow> u32 \<Rightarrow> u32 \<Rightarrow> nat \<Rightarrow> nat \<Rightarrow> nat option" where
  "wrong_value m arr v n i =
     (if i < n then if read32 m (arr + 4 * of_nat i) \<noteq> v then Some i else wrong_value m arr v n (Suc i) else None)"
  by pat_completeness auto
termination by (relation "measure (\<lambda>(m, arr, v, n, i). n - i)") auto

declare wrong_value.simps [simp del]

text \<open>\<open>_allocs_to_go\<close>, an unsigned int that counts down, is a nat. A failed check prints the index and loops for ever: \<open>Aborted\<close>.\<close>

fun test_memory :: "nat \<Rightarrow> nat \<Rightarrow> 'a frame_machine_scheme \<Rightarrow> 'a frame_machine_scheme result" where
  "test_memory k 0 s = Inr (puts [CHR 0x0A] (puti 0 (puts ''alloc_to_go = '' s)))"
| "test_memory k (Suc a) s =
     (let s1 = puts [CHR 0x0A] (puti (int (Suc a)) (puts ''alloc_to_go = '' s));
          v = of_nat (Suc a);
          n_frames = Suc a mod 4 + 1
      in andthen (P2_get_frames k (of_nat n_frames) s1) (\<lambda>(frame, s2).
         let value_array = frame * 4096;
             s3 = upd_mem (fill_values value_array v (1024 * n_frames) 0) s2
         in andthen (test_memory k a s3) (\<lambda>s4.
            if wrong_value (mem s4) value_array v (1024 * n_frames) 0 \<noteq> None then Inl Aborted
            else release_frames frame s4)))"

section \<open>Filling and checking\<close>

lemma word_in_array:
  assumes "aligned4 arr" "unat arr + 4 * n \<le> 2 ^ 32" "k < n"
  shows "unat (arr + 4 * of_nat k) = unat arr + 4 * k" "aligned4 (arr + 4 * of_nat k)"
proof -
  obtain q where q: "unat arr = 4 * q" using assms(1) by (auto simp: aligned4_def)
  show u: "unat (arr + 4 * of_nat k) = unat arr + 4 * k"
    using unat_add_of_nat[of arr "4 * k"] assms(2,3) by simp
  have "unat arr + 4 * k = 4 * (q + k)" by (simp add: q)
  then show "aligned4 (arr + 4 * of_nat k)" by (simp only: aligned4_def u) simp
qed

lemma fill_values_apply:
  assumes "aligned4 arr" "unat arr + 4 * n \<le> 2 ^ 32" "i \<le> n"
  shows "j < n \<Longrightarrow> read32 (fill_values arr v n i m) (arr + 4 * of_nat j) = (if i \<le> j then v else read32 m (arr + 4 * of_nat j))"
    "unat x < unat arr \<or> unat arr + 4 * n \<le> unat x \<Longrightarrow> fill_values arr v n i m x = m x"
proof -
  note u = word_in_array(1)[OF assms(1,2)] and al = word_in_array(2)[OF assms(1,2)]
  have ne: "arr + 4 * of_nat i = arr + 4 * of_nat k \<longleftrightarrow> i = k" if "i < n" "k < n" for i k
  proof -
    have "unat arr + 4 * i = unat arr + 4 * k \<longleftrightarrow> i = k" by simp
    then show ?thesis using u[OF that(1)] u[OF that(2)] by metis
  qed
  have out: "write32 m (arr + 4 * of_nat k) v x = m x" if "k < n" "unat x < unat arr \<or> unat arr + 4 * n \<le> unat x" for m k
  proof -
    have "x \<noteq> arr + 4 * of_nat k + of_nat c" if "c < 4" for c
    proof
      assume "x = arr + 4 * of_nat k + of_nat c"
      then have "unat x = unat arr + 4 * k + c" using aligned_add[OF al[OF \<open>k < n\<close>] that] u[OF \<open>k < n\<close>] by simp
      then show False using \<open>unat x < unat arr \<or> unat arr + 4 * n \<le> unat x\<close> \<open>k < n\<close> that by linarith
    qed
    from this[of 0] this[of 1] this[of 2] this[of 3] show ?thesis by (simp add: write32_def)
  qed
  show "read32 (fill_values arr v n i m) (arr + 4 * of_nat j) = (if i \<le> j then v else read32 m (arr + 4 * of_nat j))" if j: "j < n"
    using assms(3)
  proof (induction "n - i" arbitrary: i m)
    case 0
    then show ?case using j by (simp add: fill_values.simps)
  next
    case (Suc d)
    then have i: "i < n" by simp
    then have "d = n - Suc i" "Suc i \<le> n" using Suc.hyps(2) by simp_all
    note IH = Suc.hyps(1)[OF this, of "write32 m (arr + 4 * of_nat i) v"]
    show ?case using i IH read32_write32[OF al[OF i] al[OF j]] ne[OF i j]
      by (auto simp: fill_values.simps[of arr v n i] simp del: add_left_cancel)
  qed
  show "fill_values arr v n i m x = m x" if x: "unat x < unat arr \<or> unat arr + 4 * n \<le> unat x"
    using assms(3)
  proof (induction "n - i" arbitrary: i m)
    case 0
    then show ?case by (simp add: fill_values.simps)
  next
    case (Suc d)
    then have i: "i < n" by simp
    then have "d = n - Suc i" "Suc i \<le> n" using Suc.hyps(2) by simp_all
    from Suc.hyps(1)[OF this] show ?case using i out[OF i x] by (simp add: fill_values.simps[of arr v n i])
  qed
qed

lemma wrong_value_None:
  "wrong_value m arr v n i = None \<longleftrightarrow> (\<forall>j. i \<le> j \<and> j < n \<longrightarrow> read32 m (arr + 4 * of_nat j) = v)"
proof (induction m arr v n i rule: wrong_value.induct)
  case (1 m arr v n i)
  show ?case
  proof (cases "i < n \<and> read32 m (arr + 4 * of_nat i) = v")
    case True
    then have "wrong_value m arr v n i = wrong_value m arr v n (Suc i)" by (simp add: wrong_value.simps[of m arr v n i])
    moreover have "(\<forall>j. i \<le> j \<and> j < n \<longrightarrow> read32 m (arr + 4 * of_nat j) = v)
      \<longleftrightarrow> (\<forall>j. Suc i \<le> j \<and> j < n \<longrightarrow> read32 m (arr + 4 * of_nat j) = v)"
      using True by (metis Suc_leD le_antisym not_less_eq_eq)
    ultimately show ?thesis using "1.IH" True by simp
  next
    case False
    then show ?thesis by (auto simp: wrong_value.simps[of m arr v n i])
  qed
qed

section \<open>A pool that can be tested\<close>

text \<open>The free frames are those from \<open>z\<close> on, the bitmap is in the pool's first frame, and the pool's object is the one
that \<open>release_frames\<close> finds. P2's constructor counts its own frame as free, so the free count is only a lower bound.\<close>

definition testable :: "nat \<Rightarrow> nat \<Rightarrow> 'a frame_machine_scheme \<Rightarrow> bool" where
  "testable k z s \<longleftrightarrow> k < length (pools s) \<and> unfragmented k z s \<and> pool_size s k mod 4 = 0 \<and> 1 \<le> z
     \<and> pool_size s k - z \<le> unat (nFreeFrames (pools s ! k))
     \<and> bitmap (pools s ! k) = base_frame_no (pools s ! k) * 4096
     \<and> pool_size s k \<le> 16384 \<and> unat (base_frame_no (pools s ! k)) + pool_size s k \<le> 2 ^ 20
     \<and> (\<forall>i < pool_size s k. find_pool (pools s) (base_frame_no (pools s ! k) + of_nat i) = Some k)"

definition frame_bound :: "nat \<Rightarrow> nat \<Rightarrow> 'a frame_machine_scheme \<Rightarrow> nat" where
  "frame_bound k z s = 4096 * (unat (base_frame_no (pools s ! k)) + z)"

definition pool_bitmap :: "nat \<Rightarrow> 'a frame_machine_scheme \<Rightarrow> u32 set" where
  "pool_bitmap k s = bitmap_addrs (bitmap (pools s ! k)) (pool_size s k)"

text \<open>Frames that the test holds at its deepest point.\<close>

fun test_frames :: "nat \<Rightarrow> nat" where
  "test_frames 0 = 0"
| "test_frames (Suc a) = (Suc a mod 4 + 1) + test_frames a"

fun countdown :: "nat \<Rightarrow> event list" where
  "countdown 0 = [Puts ''alloc_to_go = '', Puti 0, Puts [CHR 0x0A]]"
| "countdown (Suc a) = [Puts ''alloc_to_go = '', Puti (int (Suc a)), Puts [CHR 0x0A]] @ countdown a"

lemma find_pool_same:
  "map (\<lambda>p. (base_frame_no p, nframes p)) ps = map (\<lambda>p. (base_frame_no p, nframes p)) qs \<Longrightarrow> find_pool ps f = find_pool qs f"
proof (induction ps arbitrary: qs)
  case (Cons p ps)
  then show ?case by (cases qs) auto
qed simp

lemma find_pool_upd: "k < length ps \<Longrightarrow> find_pool (ps[k := (ps ! k)\<lparr>nFreeFrames := x\<rparr>]) f = find_pool ps f"
  by (rule find_pool_same) (auto simp: list_eq_iff_nth_eq nth_list_update)

lemma pool_bitmap_low:
  assumes "testable k z s" "x \<in> pool_bitmap k s"
  shows "unat x < frame_bound k z s"
proof -
  let ?b = "base_frame_no (pools s ! k)"
  obtain c where c: "x = ?b * 4096 + of_nat c" "c * 4 < pool_size s k"
    using assms by (auto simp: pool_bitmap_def bitmap_addrs_def testable_def)
  have h: "pool_size s k \<le> 16384" "unat ?b + pool_size s k \<le> 2 ^ 20" "1 \<le> z" using assms(1) by (simp_all add: testable_def)
  have c4: "c < 4096" using c(2) h(1) by linarith
  have "x = of_nat (4096 * unat ?b + c)" using c(1) by (simp add: mult.commute)
  moreover have "4096 * unat ?b + c < 2 ^ 32" using h(2) c(2) c4 by simp
  ultimately have "unat x = 4096 * unat ?b + c" by (simp only: unat_of_nat_u32)
  then show ?thesis using c4 h(3) by (simp add: frame_bound_def)
qed

lemma release_loop_trace: "trace (release_loop k hi i s) = trace s"
proof (induction k hi i s rule: release_loop.induct)
  case (1 k hi i s)
  then show ?case by (subst release_loop.simps) (auto simp: Let_def)
qed

lemma release_frame_trace: "release_frame k f s = Inr t \<Longrightarrow> trace t = trace s"
  by (auto simp: release_frame_def Let_def release_loop_trace split: if_splits)

text \<open>The request of a round: the run starts at \<open>z\<close>, and only bitmap bytes change.\<close>

lemma P2_get_frames_run:
  assumes ok: "testable k z s" and n: "0 < unat n" "z + unat n \<le> pool_size s k"
  obtains t where "P2_get_frames k n s = Inr (base_frame_no (pools s ! k) + of_nat z, t)" "testable k (z + unat n) t"
    "\<And>j. j < 2 ^ 32 \<Longrightarrow> pool_status t k j =
      (if j = z then Head else if z < j \<and> j < z + unat n then Used else pool_status s k j)"
    "pools t = (pools s)[k := (pools s ! k)\<lparr>nFreeFrames := nFreeFrames (pools s ! k) - n\<rparr>]"
    "trace t = trace s" "\<And>x. x \<notin> pool_bitmap k s \<Longrightarrow> mem t x = mem s x"
proof -
  let ?p = "pools s ! k"
  have h: "k < length (pools s)" "unfragmented k z s" "pool_size s k mod 4 = 0" "pool_size s k - z \<le> unat (nFreeFrames ?p)"
    using ok by (simp_all add: testable_def)
  obtain t where t: "scan_frames (mem s) (bitmap ?p) (pool_size s k) (unat n) 0 0 = Some (z + unat n - 1, unat n)"
    "take_frames k n (z + unat n - 1) (unat n) s = (base_frame_no ?p + of_nat z, t)"
    "\<And>j. j < 2 ^ 32 \<Longrightarrow> pool_status t k j =
      (if j = z then Head else if z < j \<and> j < z + unat n then Used else pool_status s k j)"
    "pools t = (pools s)[k := ?p\<lparr>nFreeFrames := nFreeFrames ?p - n\<rparr>]" "unfragmented k (z + unat n) t"
    by (rule take_run[OF h(1-3) n], rule that)
  have nz: "nFreeFrames ?p \<noteq> 0" using h(4) n by auto
  have a: "z + unat n - 1 + 1 = z + unat n" "z + unat n - 1 < pool_size s k" using n by simp_all
  have sub: "unat (nFreeFrames ?p - n) = unat (nFreeFrames ?p) - unat n"
    by (rule unat_sub) (use h(4) n in \<open>simp add: word_le_nat_alt\<close>)
  have size: "pool_size t k = pool_size s k" "pools t ! k = ?p\<lparr>nFreeFrames := nFreeFrames ?p - n\<rparr>"
    using t(4) h(1) by (simp_all add: pool_size_def)
  show ?thesis
  proof (rule that)
    show "P2_get_frames k n s = Inr (base_frame_no ?p + of_nat z, t)"
      using t(1,2) h(1) nz by (simp add: P2_get_frames_def Let_def pool_size_def)
    show "testable k (z + unat n) t"
      using ok t(5) h(4) sub find_pool_upd[OF h(1)] unfolding testable_def size by (simp add: t(4))
    show "trace t = trace s" using t(2) by (auto simp: take_frames_def Let_def)
    show "mem t x = mem s x" if "x \<notin> pool_bitmap k s" for x
      using take_frames_outside[OF t(2) a(1) n(1) a(2)] that by (simp add: pool_bitmap_def)
  qed (use t(3,4) in simp_all)
qed

lemma testable_cong:
  assumes "testable k z s" "pools t = pools s" "\<And>j. j < pool_size s k \<Longrightarrow> pool_status t k j = pool_status s k j"
  shows "testable k z t"
  using assms unfolding testable_def by (simp add: unfragmented_def pool_size_def)

text \<open>The data of the run that starts at frame \<open>z\<close>.\<close>

lemma data_address:
  assumes ok: "testable k z s" and n: "z + n \<le> pool_size s k" "0 < n"
  shows "unat ((base_frame_no (pools s ! k) + of_nat z) * 4096) = frame_bound k z s"
    "aligned4 ((base_frame_no (pools s ! k) + of_nat z) * 4096)" "frame_bound k z s + 4 * (1024 * n) \<le> 2 ^ 32"
proof -
  let ?b = "base_frame_no (pools s ! k)"
  have h: "unat ?b + pool_size s k \<le> 2 ^ 20" using ok by (simp add: testable_def)
  show le: "frame_bound k z s + 4 * (1024 * n) \<le> 2 ^ 32" using h n by (simp add: frame_bound_def)
  have "(?b + of_nat z) * 4096 = of_nat (frame_bound k z s)" by (simp add: frame_bound_def algebra_simps)
  moreover have "frame_bound k z s < 2 ^ 32" using le n(2) by linarith
  ultimately show u: "unat ((?b + of_nat z) * 4096) = frame_bound k z s" by (simp only: unat_of_nat_u32)
  have "frame_bound k z s = 4 * (1024 * (unat ?b + z))" by (simp add: frame_bound_def)
  then show "aligned4 ((?b + of_nat z) * 4096)" by (simp only: aligned4_def u) simp
qed

section \<open>The test passes\<close>

lemma test_memory_ok:
  "testable k z s \<Longrightarrow> z + test_frames a \<le> pool_size s k
    \<Longrightarrow> \<exists>t. test_memory k a s = Inr t \<and> pools t = pools s \<and> (\<forall>j < pool_size s k. pool_status t k j = pool_status s k j)
      \<and> trace t = trace s @ countdown a
      \<and> (\<forall>x. x \<notin> pool_bitmap k s \<and> unat x < frame_bound k z s \<longrightarrow> mem t x = mem s x)"
proof (induction a arbitrary: z s)
  case 0
  then show ?case by (simp add: pool_status_def)
next
  case (Suc a)
  let ?nf = "Suc a mod 4 + 1" and ?v = "of_nat (Suc a) :: u32"
  define s1 where "s1 = puts [CHR 0x0A] (puti (int (Suc a)) (puts ''alloc_to_go = '' s))"
  have s1: "pools s1 = pools s" "mem s1 = mem s" "trace s1 = trace s @ [Puts ''alloc_to_go = '', Puti (int (Suc a)), Puts [CHR 0x0A]]"
    by (simp_all add: s1_def)
  have st1: "pool_status s1 k = pool_status s k" "pool_size s1 k = pool_size s k" "pool_bitmap k s1 = pool_bitmap k s"
    "frame_bound k y s1 = frame_bound k y s" for y
    by (simp_all add: pool_status_def pool_size_def pool_bitmap_def frame_bound_def s1 fun_eq_iff)
  let ?base = "base_frame_no (pools s ! k)"
  have ok1: "testable k z s1" by (rule testable_cong[OF Suc.prems(1) s1(1)]) (simp add: st1)
  have "Suc a mod 4 < 4" by simp
  then have un: "unat (of_nat ?nf :: u32) = ?nf" by (intro unat_of_nat_u32) simp
  have room: "z + ?nf + test_frames a \<le> pool_size s k" using Suc.prems(2) by simp
  then have n: "0 < unat (of_nat ?nf :: u32)" "z + unat (of_nat ?nf :: u32) \<le> pool_size s1 k" unfolding un st1 by simp_all
  obtain s2 where s2: "P2_get_frames k (of_nat ?nf) s1 = Inr (?base + of_nat z, s2)" "testable k (z + ?nf) s2"
    "\<And>j. j < 2 ^ 32 \<Longrightarrow> pool_status s2 k j =
      (if j = z then Head else if z < j \<and> j < z + ?nf then Used else pool_status s k j)"
    "pools s2 = (pools s)[k := (pools s ! k)\<lparr>nFreeFrames := nFreeFrames (pools s ! k) - of_nat ?nf\<rparr>]"
    "trace s2 = trace s1" "\<And>x. x \<notin> pool_bitmap k s \<Longrightarrow> mem s2 x = mem s x"
    by (rule P2_get_frames_run[OF ok1 n, unfolded s1(1,2) st1 un], rule that)
  have k: "k < length (pools s)" using Suc.prems(1) by (simp add: testable_def)
  have p2: "pool_size s2 k = pool_size s k" "pool_bitmap k s2 = pool_bitmap k s" "frame_bound k y s2 = frame_bound k y s" for y
    using k by (simp_all add: pool_size_def pool_bitmap_def frame_bound_def s2(4))
  let ?arr = "(?base + of_nat z) * 4096"
  define s3 where "s3 = upd_mem (fill_values ?arr ?v (1024 * ?nf) 0) s2"
  note da = data_address[OF Suc.prems(1)]
  have nf: "0 < ?nf" "z + ?nf \<le> pool_size s k" using room by simp_all
  have ar: "unat ?arr = frame_bound k z s" "aligned4 ?arr" "unat ?arr + 4 * (1024 * ?nf) \<le> 2 ^ 32"
    using da[OF nf(2,1)] by (simp_all only:)
  note fv = fill_values_apply[OF ar(2,3), of 0, OF le0]
  have bm: "mem s3 x = mem s2 x" if "x \<in> pool_bitmap k s" for x
    using fv(2) pool_bitmap_low[OF Suc.prems(1) that] ar(1) by (simp add: s3_def)
  have p3: "pools s3 = pools s2" by (simp add: s3_def)
  have st3: "pool_status s3 k j = pool_status s2 k j" if "j < pool_size s k" for j
    by (rule pool_frame_preserved) (use bm p2 p3 that in \<open>simp_all add: pool_bitmap_def\<close>)
  have ok3: "testable k (z + ?nf) s3" by (rule testable_cong[OF s2(2) p3]) (use st3 p2 in simp)
  have q3: "pool_size s3 k = pool_size s k" "pool_bitmap k s3 = pool_bitmap k s" "frame_bound k y s3 = frame_bound k y s" for y
    using p2 by (simp_all add: pool_size_def pool_bitmap_def frame_bound_def p3)
  have "z + ?nf + test_frames a \<le> pool_size s3 k" using room q3(1) by simp
  from Suc.IH[OF ok3 this] obtain s4 where s4: "test_memory k a s3 = Inr s4" "pools s4 = pools s3"
    "\<forall>j < pool_size s3 k. pool_status s4 k j = pool_status s3 k j" "trace s4 = trace s3 @ countdown a"
    "\<forall>x. x \<notin> pool_bitmap k s3 \<and> unat x < frame_bound k (z + ?nf) s3 \<longrightarrow> mem s4 x = mem s3 x" by blast
  have k4: "k < length (pools s4)" using k by (simp add: s4(2) p3 s2(4))
  have p4: "pools s4 = (pools s)[k := (pools s ! k)\<lparr>nFreeFrames := nFreeFrames (pools s ! k) - of_nat ?nf\<rparr>]"
    by (simp add: s4(2) p3 s2(4))
  have st4: "pool_status s4 k j =
      (if j = z then Head else if z < j \<and> j < z + unat (of_nat ?nf :: u32) then Used else pool_status s k j)" if "j < pool_size s k" for j
    using s4(3) q3(1) st3[OF that] s2(3)[of j] that pool_size_less[of s k] unfolding un by simp
  have uf: "unfragmented k z s" using Suc.prems(1) by (simp add: testable_def)
  have free: "pool_status s k j = Free" if "z \<le> j" "j < z + unat (of_nat ?nf :: u32)" for j
    using uf that nf(2) unfolding un by (simp add: unfragmented_def)
  have nu: "pool_status s k (z + unat (of_nat ?nf :: u32)) \<noteq> Used" if "z + unat (of_nat ?nf :: u32) < pool_size s k"
    using uf[unfolded unfragmented_def, rule_format, OF that] by auto
  have b: "unat ?base + pool_size s k \<le> 2 ^ 20" using Suc.prems(1) by (simp add: testable_def)
  have fit: "unat ?base + pool_size s k \<le> 2 ^ 32" "?base + nframes (pools s ! k) \<noteq> 0"
  proof -
    show "unat ?base + pool_size s k \<le> 2 ^ 32" using b by simp
    have "unat (?base + nframes (pools s ! k)) = unat ?base + pool_size s k"
      using unat_add_of_nat[of ?base "pool_size s k"] b by (simp add: pool_size_def)
    then show "?base + nframes (pools s ! k) \<noteq> 0" using nf by auto
  qed
  have n2: "z + unat (of_nat ?nf :: u32) \<le> pool_size s k" using nf(2) unfolding un .
  obtain u where u: "release_frame k (?base + of_nat z) s4 = Inr u"
    "\<And>j. j < pool_size s k \<Longrightarrow> pool_status u k j = pool_status s k j" "pools u = pools s"
    by (rule release_undoes_take[OF k4 n(1) n2 p4 order_refl less_imp_le[OF pool_size_less] st4 free nu fit], assumption+, rule that)
  have fp: "find_pool (pools s4) (?base + of_nat z) = Some k"
    unfolding p4 find_pool_upd[OF k] using Suc.prems(1) nf by (simp add: testable_def)
  have wv: "wrong_value (mem s4) ?arr ?v (1024 * ?nf) 0 = None"
    unfolding wrong_value_None
  proof (intro allI impI)
    fix j assume "0 \<le> j \<and> j < 1024 * ?nf"
    then have j: "j < 1024 * ?nf" by simp
    have al: "aligned4 (?arr + 4 * of_nat j)" "unat (?arr + 4 * of_nat j) = unat ?arr + 4 * j"
      using word_in_array[OF ar(2,3) j] by simp_all
    have "mem s4 (?arr + 4 * of_nat j + of_nat c) = mem s3 (?arr + 4 * of_nat j + of_nat c)" if "c < 4" for c
    proof -
      have e: "unat (?arr + 4 * of_nat j + of_nat c) = frame_bound k z s + 4 * j + c"
        using aligned_add[OF al(1) that] al(2) ar(1) by simp
      have "frame_bound k z s + 4 * j + c < frame_bound k (z + ?nf) s" using j that by (simp add: frame_bound_def)
      moreover have "?arr + 4 * of_nat j + of_nat c \<notin> pool_bitmap k s"
        using pool_bitmap_low[OF Suc.prems(1), of "?arr + 4 * of_nat j + of_nat c"] e by linarith
      ultimately show ?thesis using s4(5) unfolding q3 e by (metis e)
    qed
    from this[of 0] this[of 1] this[of 2] this[of 3]
    have "read32 (mem s4) (?arr + 4 * of_nat j) = read32 (mem s3) (?arr + 4 * of_nat j)" by (simp add: read32_def)
    then show "read32 (mem s4) (?arr + 4 * of_nat j) = ?v" using fv(1)[OF j, of ?v "mem s2"] by (simp add: s3_def)
  qed
  have run: "test_memory k (Suc a) s = Inr u"
    unfolding test_memory.simps Let_def s1_def[symmetric] s2(1) andthen_simps prod.case s3_def[symmetric] s4(1) wv
    using fp u(1) by (simp add: release_frames_def)
  have tr: "trace u = trace s @ countdown (Suc a)"
    using release_frame_trace[OF u(1)] s4(4) s2(5) s1(3) by (simp add: s3_def)
  have out: "mem u x = mem s x" if x: "x \<notin> pool_bitmap k s" "unat x < frame_bound k z s" for x
  proof -
    have z: "z < pool_size s4 k" "pool_bitmap k s4 = pool_bitmap k s" "base_frame_no (pools s4 ! k) = ?base"
      using nf k by (simp_all add: pool_size_def pool_bitmap_def p4)
    have "mem u x = mem s4 x"
      by (rule release_frame_outside[OF u(1) _ k4 _ z(1)]) (use x z(2,3) in \<open>simp_all add: pool_bitmap_def\<close>)
    moreover have "unat x < frame_bound k (z + ?nf) s" using x(2) by (simp add: frame_bound_def)
    then have "mem s4 x = mem s3 x" using s4(5) x(1) unfolding q3 by blast
    moreover have "mem s3 x = mem s2 x" using fv(2) x(2) ar(1) by (simp add: s3_def)
    ultimately show ?thesis using s2(6)[OF x(1)] by simp
  qed
  show ?case using run u(2,3) tr out by blast
qed

text \<open>The pool of P2's main.\<close>

lemma P2_kernel_pool:
  fixes s :: "'a frame_machine_scheme"
  assumes "pools s = []"
  obtains t where "P2_construct_ContFramePool KERNEL_POOL_START_FRAME KERNEL_POOL_SIZE 0 0 s = Inr (0, t)" "testable 0 1 t" "pool_size t 0 = 512"
proof -
  let ?p = "\<lparr>bitmap = 0x200000, nFreeFrames = 512, base_frame_no = 512, nframes = 512, info_frame_no = 0, n_info_frames = 0\<rparr>"
  let ?m = "(fill_free 0x200000 512 0 (mem s))(0x200000 := 0xBF)"
  have "\<exists>t. P2_construct_ContFramePool KERNEL_POOL_START_FRAME KERNEL_POOL_SIZE 0 0 s = Inr (0, t) \<and> pools t = [?p] \<and> mem t = ?m"
    using assms by (simp add: P2_construct_ContFramePool_def pool_constants max_pools_def round_up_4_def FRAME_SIZE_def
        P2_info_outer.simps Let_def) (simp add: fun_eq_iff)
  then obtain t where c: "P2_construct_ContFramePool KERNEL_POOL_START_FRAME KERNEL_POOL_SIZE 0 0 s = Inr (0, t)"
    and p: "pools t = [?p]" "mem t = ?m" by blast
  have "status ?m 0x200000 j = Free \<longleftrightarrow> 1 \<le> j" if j: "j < 512" for j
  proof (cases "j < 4")
    case True
    then have f: "frame_byte ?m 0x200000 j = 0xBF" by (simp add: frame_byte_def)
    from less_4_cases[OF True] show ?thesis
      unfolding status_def hi_set_def lo_set_def f by (elim disjE) simp_all
  next
    case False
    then have "0 < j div 4" "j div 4 < 2 ^ 10" using j by auto
    then have "unat ((0x200000 :: u32) + of_nat (j div 4)) \<noteq> 0x200000" using unat_add_of_nat[of "0x200000" "j div 4"] by simp
    then have "(0x200000 :: u32) + of_nat (j div 4) \<noteq> 0x200000" by auto
    then have "frame_byte ?m 0x200000 j = frame_byte (fill_free 0x200000 512 0 (mem s)) 0x200000 j" by (simp add: frame_byte_def)
    then have "status ?m 0x200000 j = status (fill_free 0x200000 512 0 (mem s)) 0x200000 j" by (simp add: status_def hi_set_def lo_set_def)
    then show ?thesis using False status_fill_free[OF j] by simp
  qed
  then have "unfragmented 0 1 t" by (simp add: unfragmented_def pool_status_def pool_size_def p)
  moreover have "find_pool (pools t) (512 + of_nat i) = Some 0" if "i < 512" for i
  proof -
    have "unat (512 + of_nat i :: u32) = 512 + i" using unat_add_of_nat[of 512 i] that by simp
    then show ?thesis using that by (simp add: p word_le_nat_alt word_less_nat_alt)
  qed
  ultimately have "testable 0 1 t" by (simp add: testable_def pool_size_def p)
  then show ?thesis using that[OF c] by (simp add: p pool_size_def)
qed

text \<open>C36: P2's memory test passes. On the kernel pool that main constructs, the test with \<open>a\<close> allocations to go (main uses 32)
finds every number it wrote, although the pool's bitmap and the other runs are written in between, prints the countdown,
and gives the pool back as it was, whenever the frames it holds at its deepest point fit into the pool's 511.\<close>

theorem memory_test_passes:
  fixes s :: "'a frame_machine_scheme"
  assumes "pools s = []" and "test_frames a \<le> 511"
  shows "\<exists>t u. P2_construct_ContFramePool KERNEL_POOL_START_FRAME KERNEL_POOL_SIZE 0 0 s = Inr (0, t)
    \<and> test_memory 0 a t = Inr u \<and> trace u = trace t @ countdown a \<and> pools u = pools t
    \<and> (\<forall>j < 512. pool_status u 0 j = pool_status t 0 j)"
proof -
  obtain t where t: "P2_construct_ContFramePool KERNEL_POOL_START_FRAME KERNEL_POOL_SIZE 0 0 s = Inr (0, t)"
    "testable 0 1 t" "pool_size t 0 = 512"
    by (rule P2_kernel_pool[OF assms(1)], rule that)
  have "1 + test_frames a \<le> pool_size t 0" using assms(2) t(3) by simp
  from test_memory_ok[OF t(2) this] show ?thesis using t(1,3) by auto
qed

theorem memory_test_passes_witness:
  "\<exists>t u. P2_construct_ContFramePool KERNEL_POOL_START_FRAME KERNEL_POOL_SIZE 0 0 demo_machine = Inr (0, t)
    \<and> test_memory 0 32 t = Inr u \<and> trace u = trace t @ countdown 32 \<and> pools u = pools t
    \<and> (\<forall>j < 512. pool_status u 0 j = pool_status t 0 j)"
proof -
  have "test_frames 32 = 80" by code_simp
  then have "test_frames 32 \<le> 511" by simp
  then show ?thesis by (intro memory_test_passes) (simp_all add: demo_machine_def)
qed

end
