(* ===== verification/Spec2Isabelle.thy ===== *)
theory Spec2Isabelle
  imports KernelPools PagingProperties LinkedLists ShiftCorrect ThreadProperties Scheduling MachineControl
    KernelConsole IrqDelivery TimerRate DriveInvariant DiskThread ExceptionEntry SimpleFramePools
    VmPoolTest PagingReach MemoryTest
begin

text \<open>
  A verification development for the teaching kernels P1 to P6 and for the part of the machine they run on.

  The program. src/P1 to src/P6 are six stages of one 32-bit kernel in C++ and assembly: P1 prints to the
  screen, P2 manages page frames, P3 adds interrupts, exceptions and paging, P4 recursive page tables and
  virtual memory pools, P5 threads and a scheduler, P6 a disk that blocks the thread that waits for it.
  src/P1/bochs-2.6.8 is the emulator (C++) that they run on. What the kernels do is decided by both: their
  assembly switches stacks and returns from interrupts, and their drivers write ports. So the development
  models the kernels' code, and, in the same detail, the instructions, the address translation, the delivery
  of interrupts, the interrupt controllers, the timer and the drives of the emulator; the properties
  compose the two.

  Conventions (Prelude, Memory). Integers keep their width (u8, u16, u32 are words; an \<open>int\<close> of C is a word
  read with \<open>sint\<close>, or a HOL int where a comment says why it does not overflow). Memory is a function from addresses to bytes, with little-endian
  accesses. An operation that can stop the kernel returns \<open>kernel_error + result\<close>: a failed assert, an abort, a
  division by zero are values, which do not carry what was printed before. Output to the console and to ports of devices that a theory does not model is a
  trace of events in the state. An instruction of the CPU is a function \<open>cpu \<Rightarrow> (cpu_exn + 'a) \<times> cpu\<close>: a fault is a value, and the state at the fault is kept.
  BX_PANIC of the devices is None. A loop that may not end is a \<open>partial_function\<close> or is
  driven by the list of what happens in its rounds, and None says that it has not ended.

  Frames (src/P2 to P4, cont_frame_pool.C). FrameBitmap: the two-bit states in the bitmap bytes. Allocator: the
  contract of a source of frames, a locale, with an extension for release. ContFramePool: the class of P2 and
  that of P3 and P4. FramePoolCorrect: the status of every frame after each operation, the free count, the runs that are
  found. SingleFrames: requests of one frame. KernelPools: start-up of the kernels' pools and the properties. MemoryTest: the recursive test of
  P2's kernel.C. SimpleFramePools: simple_frame_pool.C of P2. MemoryPools: frame_pool.C
  and mem_pool.C of P5 and P6. The contract is interpreted on all three kinds of pool.

  Paging (src/P3, P4: page_table.C, vm_pool.C; bochs cpu/paging.cc). Mmu: the page walk of the emulator with accessed
  and dirty bits. Paging: the classes. PagingCorrect, PageFaults, FaultHandler: what
  the recursive addresses reach, the invariant that each frame has one owner, the handler on every branch. BootPaging: the table
  that start-up builds. VmPoolCorrect: region lists. PagingProperties: the properties of single operations. DemandPaging: loads and stores of a program that
  fault, run the handler and are restarted, and the one store that they amount to; VmPoolTest: P4's test of its virtual memory pools; PagingReach: the
  states of whole runs, as an inductive relation, and the isolation of frames in all of them.

  The CPU (bochs cpu/). CpuState, CpuAccess, LazyFlags, Segments: state, checked accesses, lazily computed flags,
  segment registers. Alu32, Shift32, Mov32, StackFlags, CtrlXfer, InterruptReturn, InterruptDelivery: one definition per handler.
  AluCorrect, ShiftCorrect, CpuLemmas: what the instructions compute, and which leave registers alone (a locale of state
  relations kept by handlers). KernelMode, KernelCode, KernelReturn: the instructions in the kernels' configuration act on a small view, the refinement
  that the proofs about assembly use.

  Threads and interrupts (src/P3 to P6: thread.C, threads_low.asm, scheduler.C, linked_list.H, gdt.C, idt.C, irq_low.asm,
  interrupts.C, exceptions.C, irq.C, simple_timer.C, simple_keyboard.C). LinkedLists: lists of heap nodes. Threads, ContextSwitch,
  ThreadProperties: thread construction and the switch as the instructions that threads_low.asm holds. Scheduling: the ready queue behind
  the locale \<open>fifo\<close>, interpreted on the linked list, and rotation of threads. DescriptorTables: GDT and IDT as the CPU decodes them. InterruptEntry:
  delivery, stub, dispatcher and return; ExceptionEntry: the same for exceptions, with and without an error code, up to the restarted instruction.
  MachineControl: the interrupt flag (machine.C). Dispatchers: the C side.

  Devices (bochs iodev/, src/P6). Pic, IrqDelivery: the 8259 controllers under IRQ::init and the dispatcher, with an inductive
  step relation of devices that raise and lower their lines at any time and of interrupts that are acknowledged and dispatched; handlers are
  assumed to return and to leave the controllers to the dispatcher. Pit, TimerRate: the 8254 in the mode the kernels program, and SimpleTimer on it. HardDrive,
  DriveInvariant: the ATA channel. Disks, DiskProperties: SimpleDisk and BlockingDisk on it. DiskThread: the thread of P6
  that uses the disk, with its buffers and queue nodes on the heap. KernelConsole,
  KernelStrings: console.C and utils.C.

  Bounds and fuel. No proof depends on fuel: the loops of the source are structural recursions over their counts or lists,
  or have a termination proof. The priority searches of Pic run the eight rounds that the code's loops are bounded by; the
  waits (SimpleTimer::wait, SimpleKeyboard::wait, BlockingDisk::wait_until_ready) take the list of what happens before
  each check of their condition. \<open>safe\<close> and \<open>safe_down\<close> say that a stack write is aligned and misses the GDT; 19 dwords are what an interrupt pushes.

  Not modelled. The instruction decoder and the prefetch queue: the kernels' assembly is the list of its handlers in
  the order of the source, and EIP moves only by transfers. The TLB, the stack window and the instruction cache: caches
  of what the model reads directly. 64-bit mode, VMX, SVM and paging with CR4.PAE or PSE; a task switch is a parameter.
  Memory is RAM everywhere but the text screen; the region list of a virtual memory pool is an indexed array of records that ends with
  its page, and the page faults on that page are not followed. The list nodes of the ready queue are HOL records in LinkedLists; in
  DiskThread their allocation is counted and the writes to them belong to what happens to memory between the thread's turns. The I/O APIC, virtual timers, the speaker; the ATAPI half of the drives, bus-master
  transfers, bulk string I/O and the length of a seek. LinkedList::pop_back and get do not compile when
  instantiated. The remaining devices, user interfaces, debugger, disassembler, floating point and BIOS of the emulator are third-party code
  that the kernels do not depend on.
\<close>

end
